(* ===== verification/Prelude.thy ===== *)
theory Prelude
  imports Main "HOL-Library.Word" "HOL-Library.Sublist"
begin

text \<open>
  Shared vocabulary of the development: the machine types of the library, the C++
  exception classes as values, the error monad in which throwing functions are written,
  iterator ranges as slices of a byte list, and big-endian integers.

  A \<open>size_t\<close> that counts bytes or elements held in memory is a \<^typ>\<open>nat\<close>; every integer
  that is read from or written to a packet, and every integer whose wrap-around the code
  can reach, keeps its width as a word.
\<close>

section \<open>Machine types\<close>

type_synonym byte = "8 word"
type_synonym u16 = "16 word"
type_synonym u32 = "32 word"
type_synonym u64 = "64 word"

text \<open>A \<open>std::string\<close> is a sequence of bytes shown as characters.\<close>

definition byte_of_char :: "char \<Rightarrow> byte" where
  "byte_of_char c = of_nat (of_char c)"

definition char_of_byte :: "byte \<Rightarrow> char" where
  "char_of_byte b = char_of (unat b)"

lemma char_of_byte_of_char [simp]: "char_of_byte (byte_of_char c) = c"
  by (simp add: char_of_byte_def byte_of_char_def unat_of_nat)

text \<open>Decimal digits, as \<open>boost::lexical_cast<std::string>\<close> and \<open>to_string\<close> print them.\<close>

fun show_nat :: "nat \<Rightarrow> string" where
  "show_nat n =
     (if n < 10 then [char_of (48 + n)] else show_nat (n div 10) @ [char_of (48 + n mod 10)])"

declare show_nat.simps [simp del]

section \<open>Exceptions\<close>

text \<open>
  One constructor per exception class that the modelled code throws.
  \<open>UndefinedBehaviour\<close> marks the executions the C++ standard leaves undefined (a null
  \<open>shared_ptr\<close> dereferenced, an index outside a vector), so that no theorem can rely on
  them.
\<close>

datatype error =
    TlvError string
  | BlockError string
  | ComponentError string
  | NameError string
  | ExcludeError string
  | KeyLocatorError string
  | MetaInfoError string
  | SignatureInfoError string
  | SignatureError string
  | ValidityPeriodError string
  | DataError string
  | InterestError string
  | LinkError string
  | StringHelperError string
  | InvalidArgument string
  | OutOfRange string
  | AssertionFailure string
  | StorageError string
  | RegexError string
  | BoostRegexError string
  | LexicalCastError string
  | LpPacketError string
  | CachePolicyError string
  | LengthError string
  | ControlParametersError string
  | ControlResponseError string
  | ArgumentError string
  | FaceError string
  | DomainError string
  | TransportError string
  | BadFunctionCall
  | InterestFilterError string
  | DatasetError string
  | FaceUriError string
  | ConfigFileError string
  | CallbackException
  | UndefinedBehaviour string

type_synonym 'a result = "error + 'a"

definition bindE :: "'a result \<Rightarrow> ('a \<Rightarrow> 'b result) \<Rightarrow> 'b result" where
  "bindE m f = (case m of Inl e \<Rightarrow> Inl e | Inr x \<Rightarrow> f x)"

lemma bindE_simps [simp]:
  "bindE (Inl e) f = Inl e"
  "bindE (Inr x) f = f x"
  by (simp_all add: bindE_def)

lemma bindE_eq_Inr_iff:
  "bindE m f = Inr y \<longleftrightarrow> (\<exists>x. m = Inr x \<and> f x = Inr y)"
  by (cases m) auto

lemma bindE_eq_Inl_iff:
  "bindE m f = Inl e \<longleftrightarrow> m = Inl e \<or> (\<exists>x. m = Inr x \<and> f x = Inl e)"
  by (cases m) auto

lemmas bindE_iffs = bindE_eq_Inr_iff bindE_eq_Inl_iff

lemma bindE_InrE: "bindE m f = Inr y \<Longrightarrow> (\<And>x. m = Inr x \<Longrightarrow> f x = Inr y \<Longrightarrow> R) \<Longrightarrow> R"
  by (auto simp: bindE_iffs)

lemma thrown_eq_Inr_iff:
  "(case r of (Some err, _) \<Rightarrow> Inl err | (None, x) \<Rightarrow> Inr (g x)) = Inr y \<longleftrightarrow> (\<exists>x. r = (None, x) \<and> g x = y)"
  by (auto split: prod.split option.split)

text \<open>
  A method that changes its object and may throw returns both its result and the object, because the
  caller may catch the exception and go on with the object. \<open>completed\<close> forgets the
  object of a call that throws, \<open>keeping\<close> is a method that throws only before it changes anything.
\<close>

definition bindR :: "'a result \<times> 's \<Rightarrow> ('a \<Rightarrow> 's \<Rightarrow> 'b result \<times> 's) \<Rightarrow> 'b result \<times> 's" where
  "bindR r f = (case r of (Inl e, s) \<Rightarrow> (Inl e, s) | (Inr x, s) \<Rightarrow> f x s)"

definition completed :: "'a result \<times> 's \<Rightarrow> ('a \<times> 's) result" where
  "completed r = (case r of (Inl e, s) \<Rightarrow> Inl e | (Inr x, s) \<Rightarrow> Inr (x, s))"

definition keeping :: "('s \<Rightarrow> ('a \<times> 's) result) \<Rightarrow> 's \<Rightarrow> 'a result \<times> 's" where
  "keeping f s = (case f s of Inl e \<Rightarrow> (Inl e, s) | Inr (x, s') \<Rightarrow> (Inr x, s'))"

definition throwing :: "error option \<times> 's \<Rightarrow> 's result \<times> 's" where
  "throwing r = (case r of (Some e, s) \<Rightarrow> (Inl e, s) | (None, s) \<Rightarrow> (Inr s, s))"

text \<open>The method is called on a part of the object.\<close>

definition on_part :: "('s \<Rightarrow> 'p) \<Rightarrow> ('p \<Rightarrow> 's \<Rightarrow> 's) \<Rightarrow> ('p \<Rightarrow> 'a result \<times> 'p) \<Rightarrow> 's \<Rightarrow> 'a result \<times> 's" where
  "on_part get put f s = (case f (get s) of (r, x) \<Rightarrow> (r, put x s))"

lemma completed_simps [simp]:
  "completed (Inl e, s) = Inl e" "completed (Inr x, s) = Inr (x, s)"
  "bindR (Inl e, s) f = (Inl e, s)" "bindR (Inr x, s) f = f x s"
  by (simp_all add: completed_def bindR_def)

lemma completed_bindR: "completed (bindR r f) = bindE (completed r) (\<lambda>(x, s). completed (f x s))"
  by (cases r; cases "fst r") auto

lemma completed_keeping [simp]: "completed (keeping f s) = f s"
  by (auto simp: keeping_def split: sum.split prod.split)

lemma completed_on_part:
  "completed (on_part get put f s) = bindE (completed (f (get s))) (\<lambda>(x, p). Inr (x, put p s))"
  by (auto simp: on_part_def completed_def bindE_def split: prod.split sum.split)

lemma completed_eq_InrD: "completed r = Inr (x, s) \<Longrightarrow> s = snd r"
  by (auto simp: completed_def split: prod.splits sum.splits)

lemma snd_bindR_invariant:
  assumes "P (snd r)" "\<And>x s. P s \<Longrightarrow> P (snd (f x s))"
  shows "P (snd (bindR r f))"
  using assms by (cases r; cases "fst r") auto

lemma bindE_cong [fundef_cong]:
  "m = m' \<Longrightarrow> (\<And>x. m' = Inr x \<Longrightarrow> f x = f' x) \<Longrightarrow> bindE m f = bindE m' f'"
  by (cases m') auto


section \<open>Iterator ranges\<close>

text \<open>\<open>chunk xs i j\<close> is the range \<open>[i, j)\<close> of a vector, iterators being offsets.\<close>

definition chunk :: "'a list \<Rightarrow> nat \<Rightarrow> nat \<Rightarrow> 'a list" where
  "chunk xs i j = take (j - i) (drop i xs)"

lemma length_chunk [simp]: "j \<le> length xs \<Longrightarrow> length (chunk xs i j) = j - i"
  by (simp add: chunk_def)

lemma chunk_Nil [simp]: "chunk [] i j = []"
  by (simp add: chunk_def)

lemma length_chunk_le: "length (chunk xs i j) \<le> length xs"
  by (simp add: chunk_def)

lemma length_concat_member: "x \<in> set xs \<Longrightarrow> length x \<le> length (concat xs)"
  by (induction xs) auto

lemma length_takeWhile_eq_iff:
  "length (takeWhile P xs) = length xs \<longleftrightarrow> (\<forall>x \<in> set xs. P x)"
  by (induction xs) auto

lemma chunk_same [simp]: "chunk xs i i = []"
  by (simp add: chunk_def)

lemma chunk_0: "chunk xs 0 j = take j xs"
  by (simp add: chunk_def)

lemma chunk_all [simp]: "chunk xs 0 (length xs) = xs"
  by (simp add: chunk_def)

lemma chunk_empty_iff: "j \<le> length xs \<Longrightarrow> chunk xs i j = [] \<longleftrightarrow> j \<le> i"
  by (auto simp: chunk_def)

lemma drop_chunk: "drop k (chunk xs i j) = chunk xs (i + k) j"
  by (simp add: chunk_def drop_take add.commute)

lemma take_chunk: "i + k \<le> j \<Longrightarrow> take k (chunk xs i j) = chunk xs i (i + k)"
  by (simp add: chunk_def min_def)

lemma chunk_split: "i \<le> k \<Longrightarrow> k \<le> j \<Longrightarrow> chunk xs i j = chunk xs i k @ chunk xs k j"
proof -
  assume "i \<le> k" "k \<le> j"
  then obtain a b where "k = i + a" "j = i + a + b"
    by (metis le_Suc_ex)
  then show ?thesis by (simp add: chunk_def take_add add.commute)
qed

lemma chunk_append_mid:
  "length p = i \<Longrightarrow> length q = j - i \<Longrightarrow> chunk (p @ q @ r) i j = q"
  by (simp add: chunk_def)

lemma chunk_app_left:
  "j \<le> length xs \<Longrightarrow> chunk (xs @ ys) i j = chunk xs i j"
  by (cases "i \<le> length xs") (auto simp: chunk_def)

lemma chunk_app_right:
  "length xs \<le> i \<Longrightarrow> chunk (xs @ ys) i j = chunk ys (i - length xs) (j - length xs)"
  by (simp add: chunk_def)

section \<open>Big-endian integers\<close>

text \<open>
  \<open>be_encode k v\<close> is the memory image of a \<open>k\<close>-byte unsigned integer after
  \<open>htobe16\<close>, \<open>htobe32\<close> or \<open>htobe64\<close>; \<open>be_decode\<close> is what \<open>be16toh\<close> and its kin
  read back from that image, on a host of either byte order.
\<close>

fun be_encode :: "nat \<Rightarrow> nat \<Rightarrow> byte list" where
  "be_encode 0 v = []"
| "be_encode (Suc k) v = be_encode k (v div 256) @ [of_nat v]"

definition be_decode :: "byte list \<Rightarrow> nat" where
  "be_decode bs = foldl (\<lambda>v b. v * 256 + unat b) 0 bs"

lemma length_be_encode [simp]: "length (be_encode k v) = k"
  by (induction k arbitrary: v) auto

lemma be_decode_Nil [simp]: "be_decode [] = 0"
  by (simp add: be_decode_def)

lemma be_decode_snoc [simp]: "be_decode (bs @ [b]) = be_decode bs * 256 + unat b"
  by (simp add: be_decode_def)

lemma be_decode_bound: "be_decode bs < 256 ^ length bs"
proof (induction bs rule: rev_induct)
  case (snoc b bs)
  have "unat b < 256"
    using unsigned_less [of b] by simp
  moreover have "be_decode bs * 256 + 256 \<le> 256 ^ length bs * 256"
    using snoc.IH by (metis Suc_leI add.commute mult_Suc mult_le_mono1)
  ultimately show ?case by (simp add: mult.commute)
qed simp

lemma be_decode_encode: "be_decode (be_encode k v) = v mod 256 ^ k"
proof (induction k arbitrary: v)
  case (Suc k)
  have "v mod 256 ^ Suc k = 256 * (v div 256 mod 256 ^ k) + v mod 256"
    by (simp add: mod_mult2_eq)
  then show ?case by (simp add: Suc unat_of_nat mult.commute)
qed simp

lemma be_encode_decode: "be_encode (length bs) (be_decode bs) = bs"
proof (induction bs rule: rev_induct)
  case (snoc b bs)
  have b: "unat b < 256" using unsigned_less [of b] by simp
  have "(be_decode bs * 256 + unat b) div 256 = be_decode bs"
    using b by simp
  moreover have "(of_nat (be_decode bs * 256 + unat b) :: byte) = b"
  proof -
    have "(256 :: byte) = 0" by simp
    then show ?thesis by (simp only: of_nat_add of_nat_mult of_nat_numeral) simp
  qed
  ultimately show ?case by (simp add: snoc)
qed simp

lemma be_decode_encode_small: "v < 256 ^ k \<Longrightarrow> be_decode (be_encode k v) = v"
  by (simp add: be_decode_encode)

section \<open>Words\<close>

lemma word_eq_unatI: "unat v = unat w \<Longrightarrow> v = w"
  by (simp add: word_unat_eq_iff)

lemma unat_u64_of_nat: "n < 2 ^ 64 \<Longrightarrow> unat (of_nat n :: u64) = n"
  by (simp add: unat_of_nat)

lemma unat_u32_of_nat: "n < 2 ^ 32 \<Longrightarrow> unat (of_nat n :: u32) = n"
  by (simp add: unat_of_nat)

lemma u32_bound: "unat (w :: u32) < 2 ^ 32"
  using unsigned_less [of w] by simp

lemma unat_u32_ucast: "unat (ucast (w :: u32) :: u64) = unat w"
  by (simp add: unsigned_ucast_eq take_bit_nat_eq_self order_less_le_trans [OF u32_bound])

lemma ucast_u32_u64_u32 [simp]: "ucast (ucast (w :: u32) :: u64) = w"
  by (rule bit_word_eqI) (simp add: bit_ucast_iff)

lemma u64_bound: "unat (w :: u64) < 2 ^ 64"
  using unsigned_less [of w] by simp

end
