(* ===== verification/Tlv.thy ===== *)
theory Tlv
  imports Prelude
begin

text \<open>
  NDN-TLV numbers, after \<open>src/encoding/tlv.hpp\<close>: VAR-NUMBER and nonNegativeInteger,
  read from an iterator range and written to a stream.

  An \<open>InputIterator& begin, const InputIterator& end\<close> pair is the list of bytes between
  them; a read returns the value together with the range that is left. The functions that
  report failure by \<open>false\<close> return an option, those that throw return a
  \<^typ>\<open>'a result\<close>.
\<close>

unbundle bit_operations_syntax

section \<open>Type codes\<close>

definition tlv_ImplicitSha256DigestComponent :: u32 where
  "tlv_ImplicitSha256DigestComponent = 1"
definition tlv_Name :: u32 where
  "tlv_Name = 7"
definition tlv_NameComponent :: u32 where
  "tlv_NameComponent = 8"
definition tlv_Exclude :: u32 where
  "tlv_Exclude = 16"
definition tlv_Any :: u32 where
  "tlv_Any = 19"

definition tlv_Selectors :: u32 where "tlv_Selectors = 9"
definition tlv_MinSuffixComponents :: u32 where "tlv_MinSuffixComponents = 13"
definition tlv_MaxSuffixComponents :: u32 where "tlv_MaxSuffixComponents = 14"
definition tlv_ChildSelector :: u32 where "tlv_ChildSelector = 17"
definition tlv_MustBeFresh :: u32 where "tlv_MustBeFresh = 18"
definition tlv_MetaInfo :: u32 where "tlv_MetaInfo = 20"
definition tlv_ContentType :: u32 where "tlv_ContentType = 24"
definition tlv_FreshnessPeriod :: u32 where "tlv_FreshnessPeriod = 25"
definition tlv_FinalBlockId :: u32 where "tlv_FinalBlockId = 26"
definition tlv_KeyLocator :: u32 where "tlv_KeyLocator = 28"
definition tlv_KeyDigest :: u32 where "tlv_KeyDigest = 29"
definition tlv_Interest :: u32 where "tlv_Interest = 5"
definition tlv_Data :: u32 where "tlv_Data = 6"
definition tlv_Nonce :: u32 where "tlv_Nonce = 10"
definition tlv_InterestLifetime :: u32 where "tlv_InterestLifetime = 12"
definition tlv_Content :: u32 where "tlv_Content = 21"
definition tlv_SignatureInfo :: u32 where "tlv_SignatureInfo = 22"
definition tlv_SignatureValue :: u32 where "tlv_SignatureValue = 23"
definition tlv_SignatureType :: u32 where "tlv_SignatureType = 27"
definition tlv_LinkPreference :: u32 where "tlv_LinkPreference = 30"
definition tlv_LinkDelegation :: u32 where "tlv_LinkDelegation = 31"
definition tlv_SelectedDelegation :: u32 where "tlv_SelectedDelegation = 32"
definition tlv_ValidityPeriod :: u32 where "tlv_ValidityPeriod = 253"
definition tlv_NotBefore :: u32 where "tlv_NotBefore = 254"
definition tlv_NotAfter :: u32 where "tlv_NotAfter = 255"
definition ContentType_Blob :: u32 where "ContentType_Blob = 0"
definition ContentType_Link :: u32 where "ContentType_Link = 1"

lemmas tlv_codes = tlv_ImplicitSha256DigestComponent_def tlv_Name_def tlv_NameComponent_def
  tlv_Exclude_def tlv_Any_def tlv_Selectors_def tlv_MinSuffixComponents_def
  tlv_MaxSuffixComponents_def tlv_ChildSelector_def tlv_MustBeFresh_def tlv_MetaInfo_def
  tlv_ContentType_def tlv_FreshnessPeriod_def tlv_FinalBlockId_def tlv_KeyLocator_def
  tlv_KeyDigest_def tlv_Interest_def tlv_Data_def tlv_Nonce_def tlv_InterestLifetime_def
  tlv_Content_def tlv_SignatureInfo_def tlv_SignatureValue_def tlv_SignatureType_def
  tlv_LinkPreference_def tlv_LinkDelegation_def tlv_SelectedDelegation_def tlv_ValidityPeriod_def
  tlv_NotBefore_def tlv_NotAfter_def

definition MAX_NDN_PACKET_SIZE :: nat where
  "MAX_NDN_PACKET_SIZE = 8800"

section \<open>Reading from a random-access range\<close>

definition readVarNumber :: "byte list \<Rightarrow> (u64 \<times> byte list) option" where
  "readVarNumber rng =
     (case rng of
        [] \<Rightarrow> None
      | firstOctet # rest \<Rightarrow>
          if firstOctet < 253 then Some (ucast firstOctet, rest)
          else if firstOctet = 253 then
            (if length rest < 2 then None
             else Some (of_nat (be_decode (take 2 rest)), drop 2 rest))
          else if firstOctet = 254 then
            (if length rest < 4 then None
             else Some (of_nat (be_decode (take 4 rest)), drop 4 rest))
          else
            (if length rest < 8 then None
             else Some (of_nat (be_decode (take 8 rest)), drop 8 rest)))"

definition readType :: "byte list \<Rightarrow> (u32 \<times> byte list) option" where
  "readType rng =
     (case readVarNumber rng of
        None \<Rightarrow> None
      | Some (number, rest) \<Rightarrow>
          if number > 0xFFFFFFFF then None else Some (ucast number, rest))"

definition readVarNumber_throw :: "byte list \<Rightarrow> (u64 \<times> byte list) result" where
  "readVarNumber_throw rng =
     (if rng = [] then Inl (TlvError ''Empty buffer during TLV processing'')
      else case readVarNumber rng of
             None \<Rightarrow> Inl (TlvError ''Insufficient data during TLV processing'')
           | Some r \<Rightarrow> Inr r)"

definition readType_throw :: "byte list \<Rightarrow> (u32 \<times> byte list) result" where
  "readType_throw rng =
     bindE (readVarNumber_throw rng) (\<lambda>(type, rest).
       if type > 0xFFFFFFFF then Inl (TlvError ''TLV type code exceeds allowed maximum'')
       else Inr (ucast type, rest))"

definition readNonNegativeInteger :: "nat \<Rightarrow> byte list \<Rightarrow> (u64 \<times> byte list) result" where
  "readNonNegativeInteger sz rng =
     (if sz = 1 then
        (if length rng < 1 then Inl (TlvError ''Insufficient data during TLV processing'')
         else Inr (ucast (hd rng), drop 1 rng))
      else if sz = 2 then
        (if length rng < 2 then Inl (TlvError ''Insufficient data during TLV processing'')
         else Inr (of_nat (be_decode (take 2 rng)), drop 2 rng))
      else if sz = 4 then
        (if length rng < 4 then Inl (TlvError ''Insufficient data during TLV processing'')
         else Inr (of_nat (be_decode (take 4 rng)), drop 4 rng))
      else if sz = 8 then
        (if length rng < 8 then Inl (TlvError ''Insufficient data during TLV processing'')
         else Inr (of_nat (be_decode (take 8 rng)), drop 8 rng))
      else Inl (TlvError
        ''Invalid length for nonNegativeInteger (only 1, 2, 4, and 8 are allowed)''))"

section \<open>Reading from a stream\<close>

text \<open>
  The specialisations for \<open>std::istream_iterator\<close> accumulate byte by byte:
  \<open>for (; begin != end \<and> count < n; ++count) value = (value << 8) | *begin\<close>. The loop
  below returns the value, the final \<open>count\<close> and the range left.
\<close>

fun stream_loop :: "nat \<Rightarrow> nat \<Rightarrow> u64 \<Rightarrow> byte list \<Rightarrow> u64 \<times> nat \<times> byte list" where
  "stream_loop 0 count value rng = (value, count, rng)"
| "stream_loop (Suc n) count value [] = (value, count, [])"
| "stream_loop (Suc n) count value (b # rng) =
     stream_loop n (Suc count) (push_bit 8 value OR ucast b) rng"

definition readVarNumber_stream :: "byte list \<Rightarrow> (u64 \<times> byte list) option" where
  "readVarNumber_stream rng =
     (case rng of
        [] \<Rightarrow> None
      | firstOctet # rest \<Rightarrow>
          if firstOctet < 253 then Some (ucast firstOctet, rest)
          else if firstOctet = 253 then
            (case stream_loop 2 0 0 rest of (value, count, rest') \<Rightarrow>
               if count \<noteq> 2 then None else Some (value, rest'))
          else if firstOctet = 254 then
            (case stream_loop 4 0 0 rest of (value, count, rest') \<Rightarrow>
               if count \<noteq> 4 then None else Some (value, rest'))
          else
            (case stream_loop 8 0 0 rest of (value, count, rest') \<Rightarrow>
               if count \<noteq> 8 then None else Some (value, rest')))"

definition readNonNegativeInteger_stream :: "nat \<Rightarrow> byte list \<Rightarrow> (u64 \<times> byte list) result" where
  "readNonNegativeInteger_stream sz rng =
     (if sz = 1 then
        (case rng of [] \<Rightarrow> Inl (TlvError ''Insufficient data during TLV processing'')
         | b # rest \<Rightarrow> Inr (ucast b, rest))
      else if sz = 2 then
        (case stream_loop 2 0 0 rng of (value, count, rest) \<Rightarrow>
           if count \<noteq> 2 then Inl (TlvError ''Insufficient data during TLV processing'')
           else Inr (value, rest))
      else if sz = 4 then
        (case stream_loop 4 0 0 rng of (value, count, rest) \<Rightarrow>
           if count \<noteq> 4 then Inl (TlvError ''Insufficient data during TLV processing'')
           else Inr (value, rest))
      else if sz = 8 then
        (case stream_loop 8 0 0 rng of (value, count, rest) \<Rightarrow>
           if count \<noteq> 8 then Inl (TlvError ''Insufficient data during TLV processing'')
           else Inr (value, rest))
      else Inl (TlvError
        ''Invalid length for nonNegativeInteger (only 1, 2, 4, and 8 are allowed)''))"

section \<open>Writing\<close>

definition sizeOfVarNumber :: "u64 \<Rightarrow> nat" where
  "sizeOfVarNumber varNumber =
     (if varNumber < 253 then 1
      else if varNumber \<le> 0xFFFF then 3
      else if varNumber \<le> 0xFFFFFFFF then 5
      else 9)"

definition writeVarNumber :: "u64 \<Rightarrow> byte list \<times> nat" where
  "writeVarNumber varNumber =
     (if varNumber < 253 then ([ucast varNumber], 1)
      else if varNumber \<le> 0xFFFF then
        (253 # be_encode 2 (unat (ucast varNumber :: u16)), 3)
      else if varNumber \<le> 0xFFFFFFFF then
        (254 # be_encode 4 (unat (ucast varNumber :: u32)), 5)
      else (255 # be_encode 8 (unat varNumber), 9))"

definition sizeOfNonNegativeInteger :: "u64 \<Rightarrow> nat" where
  "sizeOfNonNegativeInteger varNumber =
     (if varNumber < 253 then 1
      else if varNumber \<le> 0xFFFF then 2
      else if varNumber \<le> 0xFFFFFFFF then 4
      else 8)"

definition writeNonNegativeInteger :: "u64 \<Rightarrow> byte list \<times> nat" where
  "writeNonNegativeInteger varNumber =
     (if varNumber < 253 then ([ucast varNumber], 1)
      else if varNumber \<le> 0xFFFF then (be_encode 2 (unat (ucast varNumber :: u16)), 2)
      else if varNumber \<le> 0xFFFFFFFF then (be_encode 4 (unat (ucast varNumber :: u32)), 4)
      else (be_encode 8 (unat varNumber), 8))"

section \<open>The bytes of a number\<close>

text \<open>What \<open>writeVarNumber\<close> puts on the stream; the encoders produce the same bytes.\<close>

abbreviation varNumber_bytes :: "u64 \<Rightarrow> byte list" where
  "varNumber_bytes v \<equiv> fst (writeVarNumber v)"

abbreviation tlv_header :: "u32 \<Rightarrow> nat \<Rightarrow> byte list" where
  "tlv_header type len \<equiv> varNumber_bytes (ucast type) @ varNumber_bytes (of_nat len)"

text \<open>The reference encoding of an element: type, length, value.\<close>

definition tlv_bytes :: "u32 \<Rightarrow> byte list \<Rightarrow> byte list" where
  "tlv_bytes type val = tlv_header type (length val) @ val"

section \<open>Lemmas on words of the widths used here\<close>

lemma unat_ucast_u16: "(v :: u64) \<le> 0xFFFF \<Longrightarrow> unat (ucast v :: u16) = unat v"
  by (simp add: unsigned_ucast_eq word_le_nat_alt take_bit_nat_eq_self)

lemma unat_ucast_u32: "(v :: u64) \<le> 0xFFFFFFFF \<Longrightarrow> unat (ucast v :: u32) = unat v"
  by (simp add: unsigned_ucast_eq word_le_nat_alt take_bit_nat_eq_self)

lemma unat_ucast_byte: "(v :: u64) < 256 \<Longrightarrow> unat (ucast v :: byte) = unat v"
  by (simp add: unsigned_ucast_eq word_less_nat_alt take_bit_nat_eq_self)

lemma ucast_byte_u64: "(v :: u64) < 256 \<Longrightarrow> ucast (ucast v :: byte) = v"
  by (rule word_eq_unatI)
    (simp add: unsigned_ucast_eq unsigned_take_bit_eq word_less_nat_alt take_bit_nat_eq_self)

lemma ucast_u32_u64: "(v :: u64) \<le> 0xFFFFFFFF \<Longrightarrow> ucast (ucast v :: u32) = v"
  by (rule word_eq_unatI)
    (simp add: unsigned_ucast_eq unsigned_take_bit_eq word_le_nat_alt take_bit_nat_eq_self)

lemma ucast_u64_u32: "ucast (ucast (w :: u32) :: u64) = w"
  by (rule bit_word_eqI) (simp add: bit_simps)

lemma ucast_u32_le: "(ucast (w :: u32) :: u64) \<le> 0xFFFFFFFF"
  using u32_bound [of w] by (simp add: word_le_nat_alt unat_u32_ucast)

lemma ucast_byte_less: "(v :: u64) < 253 \<Longrightarrow> (ucast v :: byte) < 253"
  by (simp add: word_less_nat_alt unsigned_ucast_eq take_bit_nat_eq_self)

lemma be_decode_u64:
  "(v :: u64) \<le> 0xFFFF \<Longrightarrow> of_nat (be_decode (be_encode 2 (unat v))) = v"
  "(v :: u64) \<le> 0xFFFFFFFF \<Longrightarrow> of_nat (be_decode (be_encode 4 (unat v))) = v"
  "of_nat (be_decode (be_encode 8 (unat v))) = v"
  using u64_bound [of v] by (simp_all add: be_decode_encode_small word_le_nat_alt)

section \<open>Writing and reading a VAR-NUMBER\<close>

lemma sizeOfVarNumber_written:
  "length (varNumber_bytes v) = sizeOfVarNumber v \<and> snd (writeVarNumber v) = sizeOfVarNumber v"
  by (simp add: writeVarNumber_def sizeOfVarNumber_def)

lemma length_varNumber_bytes [simp]: "length (varNumber_bytes v) = sizeOfVarNumber v"
  using sizeOfVarNumber_written by blast

lemma sizeOfVarNumber_bounds: "1 \<le> sizeOfVarNumber v" "sizeOfVarNumber v \<le> 9"
  by (simp_all add: sizeOfVarNumber_def)

lemma varNumber_bytes_not_Nil [simp]: "varNumber_bytes v \<noteq> []"
  using sizeOfVarNumber_bounds(1) [of v] by (metis length_varNumber_bytes list.size(3) not_one_le_zero)

lemma readVarNumber_written [simp]:
  "readVarNumber (varNumber_bytes v @ rest) = Some (v, rest)"
proof -
  have "(253 :: byte) \<noteq> 254" "(253 :: byte) \<noteq> 255" "(254 :: byte) \<noteq> 255" by simp_all
  then show ?thesis
    using ucast_byte_u64 [OF order_less_trans [of v 253 256]]
    by (simp add: readVarNumber_def writeVarNumber_def ucast_byte_less
        unat_ucast_u16 unat_ucast_u32 be_decode_u64)
qed

lemma readVarNumber_throw_written [simp]:
  "readVarNumber_throw (varNumber_bytes v @ rest) = Inr (v, rest)"
  by (simp add: readVarNumber_throw_def)

lemma readType_written [simp]:
  "readType (varNumber_bytes (ucast t) @ rest) = Some (t, rest)"
  by (simp add: readType_def ucast_u64_u32 ucast_u32_le not_less)

lemma readType_throw_written [simp]:
  "readType_throw (varNumber_bytes (ucast t) @ rest) = Inr (t, rest)"
  by (simp add: readType_throw_def ucast_u64_u32 ucast_u32_le not_less)

lemmas read_written_Nil [simp] =
  readVarNumber_written [where rest = "[]", simplified]
  readVarNumber_throw_written [where rest = "[]", simplified]
  readType_written [where rest = "[]", simplified]
  readType_throw_written [where rest = "[]", simplified]

text \<open>
  A read consumes a non-empty prefix of its range, and its result depends on that prefix
  only.
\<close>

lemma readVarNumber_prefix:
  assumes "readVarNumber rng = Some (v, rest)"
  shows "\<exists>p. rng = p @ rest \<and> p \<noteq> [] \<and> (\<forall>r. readVarNumber (p @ r) = Some (v, r))"
proof (cases rng)
  case (Cons b bs)
  show ?thesis
  proof (cases "b < 253")
    case True
    with assms Cons show ?thesis
      by (intro exI [of _ "[b]"]) (simp add: readVarNumber_def)
  next
    case False
    define n where "n = (if b = 253 then 2 else if b = 254 then 4 else 8 :: nat)"
    from assms Cons False have "n \<le> length bs" "rest = drop n bs" "v = of_nat (be_decode (take n bs))"
      by (auto simp: readVarNumber_def n_def split: if_splits)
    with Cons False show ?thesis
      by (intro exI [of _ "b # take n bs"]) (auto simp: readVarNumber_def n_def)
  qed
qed (use assms in \<open>simp add: readVarNumber_def\<close>)

lemma readVarNumber_shorter:
  assumes "readVarNumber rng = Some (v, rest)"
  shows "length rest < length rng"
  using readVarNumber_prefix [OF assms] by auto

lemma readVarNumber_throw_Inr:
  "readVarNumber_throw rng = Inr r \<longleftrightarrow> readVarNumber rng = Some r"
  by (cases rng) (auto simp: readVarNumber_throw_def readVarNumber_def split: option.splits)

lemma readType_throw_Inr: "readType_throw rng = Inr r \<longleftrightarrow> readType rng = Some r"
  by (auto simp: readType_throw_def readType_def bindE_eq_Inr_iff readVarNumber_throw_Inr
      split: option.splits if_splits)

lemma readType_prefix:
  assumes "readType rng = Some (t, rest)"
  shows "\<exists>p. rng = p @ rest \<and> p \<noteq> [] \<and> (\<forall>r. readType (p @ r) = Some (t, r))"
proof -
  from assms obtain v where "readVarNumber rng = Some (v, rest)" "\<not> v > 0xFFFFFFFF" "t = ucast v"
    by (auto simp: readType_def split: option.splits if_splits)
  with readVarNumber_prefix [OF this(1)] show ?thesis
    by (auto simp: readType_def)
qed

lemma readType_shorter:
  assumes "readType rng = Some (t, rest)"
  shows "length rest < length rng"
  using readType_prefix [OF assms] by auto

section \<open>The stream readers agree with the range readers\<close>

lemma push_bit_or_byte:
  "push_bit 8 (of_nat x :: u64) OR ucast (b :: byte) = of_nat (x * 256 + unat b)"
proof -
  have "push_bit 8 (of_nat x :: u64) AND ucast b = 0"
    by (rule bit_word_eqI) (auto simp: bit_simps dest: bit_imp_le_length)
  then have "push_bit 8 (of_nat x :: u64) OR ucast b = push_bit 8 (of_nat x) + ucast b"
    by (simp add: disjunctive_add_eq_or)
  then show ?thesis by (simp add: push_bit_eq_mult)
qed

lemma stream_loop_eq:
  "stream_loop n count (of_nat x) rng =
     (of_nat (foldl (\<lambda>v b. v * 256 + unat b) x (take n rng)),
      count + min n (length rng), drop n rng)"
  by (induction n count "of_nat x :: u64" rng arbitrary: x rule: stream_loop.induct)
    (simp_all add: push_bit_or_byte del: of_nat_add of_nat_mult)

lemma stream_loop_be:
  "stream_loop n 0 0 rng = (of_nat (be_decode (take n rng)), min n (length rng), drop n rng)"
  using stream_loop_eq [of n 0 0 rng] by (simp add: be_decode_def)

lemma readVarNumber_stream_range: "readVarNumber_stream rng = readVarNumber rng"
  by (auto simp: readVarNumber_stream_def readVarNumber_def stream_loop_be min_def
      split: list.splits)

lemma readNonNegativeInteger_stream_range:
  "readNonNegativeInteger_stream sz rng = readNonNegativeInteger sz rng"
  by (auto simp: readNonNegativeInteger_stream_def readNonNegativeInteger_def stream_loop_be
      min_def split: list.splits)

section \<open>nonNegativeInteger\<close>

text \<open>
  The encoders write a nonNegativeInteger in the shortest of the four widths
  (\<open>Encoder::prependNonNegativeInteger\<close>); \<open>nni_bytes\<close> is that encoding. The stream
  writer of \<open>tlv.hpp\<close> differs from it on 253, 254 and 255 only.
\<close>

definition nni_bytes :: "u64 \<Rightarrow> byte list" where
  "nni_bytes v =
     (if v \<le> 0xFF then [ucast v]
      else if v \<le> 0xFFFF then be_encode 2 (unat v)
      else if v \<le> 0xFFFFFFFF then be_encode 4 (unat v)
      else be_encode 8 (unat v))"

lemma length_nni_bytes: "length (nni_bytes v) \<in> {1, 2, 4, 8}"
  by (simp add: nni_bytes_def)

lemma readNonNegativeInteger_nni [simp]:
  "readNonNegativeInteger (length (nni_bytes v)) (nni_bytes v @ rest) = Inr (v, rest)"
proof -
  have "v \<le> 0xFF \<Longrightarrow> v < 256" by (simp add: word_le_nat_alt word_less_nat_alt)
  then show ?thesis
    by (auto simp: nni_bytes_def readNonNegativeInteger_def ucast_byte_u64 be_decode_u64)
qed

lemma readNonNegativeInteger_written:
  "readNonNegativeInteger (snd (writeNonNegativeInteger v)) (fst (writeNonNegativeInteger v) @ rest)
     = Inr (v, rest)"
proof -
  have "v < 253 \<Longrightarrow> v < 256" by (simp add: word_less_nat_alt)
  then show ?thesis
    by (auto simp: writeNonNegativeInteger_def readNonNegativeInteger_def ucast_byte_u64
        unat_ucast_u16 unat_ucast_u32 be_decode_u64)
qed

lemma sizeOfNonNegativeInteger_written:
  "length (fst (writeNonNegativeInteger v)) = sizeOfNonNegativeInteger v
   \<and> snd (writeNonNegativeInteger v) = sizeOfNonNegativeInteger v"
  by (simp add: writeNonNegativeInteger_def sizeOfNonNegativeInteger_def)

lemma readNonNegativeInteger_Inr_size:
  "readNonNegativeInteger sz rng = Inr (v, rest) \<Longrightarrow>
   sz \<in> {1, 2, 4, 8} \<and> rest = drop sz rng \<and> sz \<le> length rng"
  by (auto simp: readNonNegativeInteger_def Suc_le_eq split: if_splits)

section \<open>Whole elements\<close>

lemma length_tlv_bytes [simp]:
  "length (tlv_bytes t val) =
     sizeOfVarNumber (ucast t) + sizeOfVarNumber (of_nat (length val)) + length val"
  by (simp add: tlv_bytes_def)

lemma length_tlv_bytes_le: "length (tlv_bytes t val) \<le> length val + 18"
proof -
  have "sizeOfVarNumber k \<le> 9" for k by (simp add: sizeOfVarNumber_def)
  from add_mono [OF this this] show ?thesis by (simp add: add.commute)
qed

lemma tlv_bytes_not_Nil [simp]: "tlv_bytes t val \<noteq> []"
  by (simp add: tlv_bytes_def)

lemma of_nat_u64_le_iff:
  "m < 2 ^ 64 \<Longrightarrow> n < 2 ^ 64 \<Longrightarrow> (of_nat m :: u64) \<le> of_nat n \<longleftrightarrow> m \<le> n"
  by (simp add: word_le_nat_alt unat_of_nat)

section \<open>Properties\<close>

text \<open>
  C1. A VAR-NUMBER is read back by every reader: after \<open>writeVarNumber\<close> of any 64-bit number, the
  iterator reader, the throwing reader and the reader specialised to stream iterators return
  the number and stop right behind it; the number of bytes written is \<open>sizeOfVarNumber\<close>, and
  any proper prefix of them is rejected.
\<close>
theorem varNumber_roundtrip:
  "readVarNumber (varNumber_bytes v @ rest) = Some (v, rest)
   \<and> readVarNumber_throw (varNumber_bytes v @ rest) = Inr (v, rest)
   \<and> readVarNumber_stream (varNumber_bytes v @ rest) = Some (v, rest)
   \<and> snd (writeVarNumber v) = length (varNumber_bytes v)
   \<and> sizeOfVarNumber v = length (varNumber_bytes v)
   \<and> (k < sizeOfVarNumber v \<longrightarrow> readVarNumber (take k (varNumber_bytes v)) = None)"
proof -
  have "readVarNumber (take k (varNumber_bytes v)) = None" if "k < sizeOfVarNumber v"
  proof (rule ccontr)
    assume "readVarNumber (take k (varNumber_bytes v)) \<noteq> None"
    then obtain w r where "readVarNumber (take k (varNumber_bytes v)) = Some (w, r)" by auto
    from readVarNumber_prefix [OF this] obtain p where
      p: "take k (varNumber_bytes v) = p @ r" "\<And>r. readVarNumber (p @ r) = Some (w, r)" by blast
    then have "varNumber_bytes v = p @ r @ drop k (varNumber_bytes v)"
      by (metis append.assoc append_take_drop_id)
    then have "Some (w, r @ drop k (varNumber_bytes v)) = Some (v, [])"
      using p(2) read_written_Nil(1) by metis
    then show False using that by simp
  qed
  then show ?thesis
    using sizeOfVarNumber_written [of v] by (simp add: readVarNumber_stream_range)
qed

theorem varNumber_roundtrip_witness:
  "readVarNumber (varNumber_bytes 0x1234) = Some (0x1234, []) \<and> readVarNumber [253] = None"
  using varNumber_roundtrip [of "0x1234" "[]" 1]
  by (simp add: writeVarNumber_def sizeOfVarNumber_def)

text \<open>
  The readers specialised to \<open>std::istream_iterator\<close>, which shift bytes in one by one, agree
  on every input with the readers that copy a big-endian word from a contiguous range.
\<close>
theorem stream_readers_agree:
  "readVarNumber_stream rng = readVarNumber rng
   \<and> readNonNegativeInteger_stream sz rng = readNonNegativeInteger sz rng"
  by (simp add: readVarNumber_stream_range readNonNegativeInteger_stream_range)

text \<open>
  A nonNegativeInteger is read back from what the stream writer and from what the encoder put
  on the wire. The two encodings are not the same: for 253, 254 and 255 the stream
  writer (threshold 253) uses two bytes, the encoder (threshold 255) one.
\<close>
theorem nonNegativeInteger_roundtrip:
  "readNonNegativeInteger (snd (writeNonNegativeInteger v)) (fst (writeNonNegativeInteger v) @ rest)
     = Inr (v, rest)
   \<and> snd (writeNonNegativeInteger v) = sizeOfNonNegativeInteger v
   \<and> length (fst (writeNonNegativeInteger v)) = sizeOfNonNegativeInteger v
   \<and> readNonNegativeInteger (length (nni_bytes v)) (nni_bytes v @ rest) = Inr (v, rest)
   \<and> (fst (writeNonNegativeInteger v) = nni_bytes v \<longleftrightarrow> v \<notin> {253, 254, 255})"
proof -
  have "fst (writeNonNegativeInteger v) = nni_bytes v \<longleftrightarrow> v \<notin> {253, 254, 255}"
  proof (cases "v < 253")
    case True
    then have "v \<le> 0xFF" by (simp add: word_le_nat_alt word_less_nat_alt)
    moreover have "v \<noteq> 253" "v \<noteq> 254" "v \<noteq> 255" using True by auto
    ultimately show ?thesis using True by (simp add: writeNonNegativeInteger_def nni_bytes_def)
  next
    case False
    have "v \<le> 0xFF \<longleftrightarrow> v \<in> {253, 254, 255}"
    proof -
      have "unat v \<le> 255 \<longleftrightarrow> unat v \<in> {253, 254, 255}"
        using False by (auto simp: word_less_nat_alt)
      moreover have "unat v = n \<longleftrightarrow> v = of_nat n" if "n < 256" for n
        using that unat_u64_of_nat [of n] by (auto intro: word_eq_unatI)
      ultimately show ?thesis by (simp add: word_le_nat_alt)
    qed
    moreover have "v \<le> 0xFF \<Longrightarrow> v \<le> 0xFFFF" by (simp add: word_le_nat_alt)
    ultimately show ?thesis
      using False by (auto simp: writeNonNegativeInteger_def nni_bytes_def unat_ucast_u16 unat_ucast_u32
          dest!: arg_cong [of _ _ length])
  qed
  then show ?thesis
    using readNonNegativeInteger_written [of v rest] sizeOfNonNegativeInteger_written [of v] by simp
qed

end
