(* ===== verification/Block.thy ===== *)
theory Block
  imports Tlv
begin

text \<open>
  TLV elements, after \<open>src/encoding/block.hpp\<close> and \<open>src/encoding/block.cpp\<close>.

  A \<open>Block\<close> shares an immutable buffer (\<open>shared_ptr<const Buffer>\<close>) and points into it
  with four iterators, which are offsets here; a null pointer is \<^const>\<open>None\<close> and a
  default-constructed iterator is offset 0. \<open>m_size\<close> keeps the 32 bits it has in the
  source; the constructors that leave it uninitialised set 0, and \<open>size()\<close> refuses to
  read it then. An \<open>element_const_iterator\<close> is an index into \<open>m_subBlocks\<close>.

  \<open>parse()\<close> and \<open>encode()\<close> may throw after they have changed the object, so they return
  the exception, if any, together with the new state.
\<close>

section \<open>State\<close>

datatype block = Block
  (m_buffer: "byte list option")
  (m_type: u32)
  (m_begin: nat)
  (m_end: nat)
  (m_size: u32)
  (m_value_begin: nat)
  (m_value_end: nat)
  (m_subBlocks: "block list")

section \<open>Constructors\<close>

definition Block_default :: block where
  "Block_default = Block None 0xFFFFFFFF 0 0 0 0 0 []"

definition Block_parts :: "byte list \<Rightarrow> u32 \<Rightarrow> nat \<Rightarrow> nat \<Rightarrow> nat \<Rightarrow> nat \<Rightarrow> block" where
  "Block_parts wire type begin end valueBegin valueEnd =
     Block (Some wire) type begin end (of_nat (end - begin)) valueBegin valueEnd []"

definition Block_whole :: "byte list \<Rightarrow> block result" where
  "Block_whole buffer =
     bindE (readType_throw buffer) (\<lambda>(type, r1).
     bindE (readVarNumber_throw r1) (\<lambda>(len, r2).
       if len \<noteq> of_nat (length r2)
       then Inl (TlvError ''TLV length doesn't match buffer length'')
       else Inr (Block (Some buffer) type 0 (length buffer) (of_nat (length buffer))
                   (length buffer - length r2) (length buffer) [])))"

definition Block_range :: "byte list \<Rightarrow> nat \<Rightarrow> nat \<Rightarrow> bool \<Rightarrow> block result" where
  "Block_range buffer begin end verifyLength =
     bindE (readType_throw (chunk buffer begin end)) (\<lambda>(type, r1).
     bindE (readVarNumber_throw r1) (\<lambda>(len, r2).
       if verifyLength \<and> len \<noteq> of_nat (length r2)
       then Inl (TlvError ''TLV length doesn't match buffer length'')
       else Inr (Block (Some buffer) type begin end (of_nat (end - begin))
                   (end - length r2) end [])))"

definition Block_subrange :: "block \<Rightarrow> nat \<Rightarrow> nat \<Rightarrow> bool \<Rightarrow> block result" where
  "Block_subrange block begin end verifyLength =
     (case m_buffer block of
        None \<Rightarrow> Inl (UndefinedBehaviour ''null m_buffer'')
      | Some buffer \<Rightarrow>
          if \<not> begin \<le> length buffer \<or> \<not> end \<le> length buffer
          then Inl (BlockError
            ''begin/end iterators do not point to the underlying buffer of the block'')
          else
            bindE (readType_throw (chunk buffer begin end)) (\<lambda>(type, r1).
            bindE (readVarNumber_throw r1) (\<lambda>(len, r2).
              if verifyLength \<and> len \<noteq> of_nat (length r2)
              then Inl (TlvError ''TLV length doesn't match buffer length'')
              else Inr (Block (Some buffer) type begin end (of_nat (end - begin))
                          (end - length r2) end []))))"

text \<open>
  \<open>Block(const uint8_t*, size_t)\<close> and \<open>Block(const void*, size_t)\<close>: the argument is the
  memory \<open>[buffer, buffer + maxlength)\<close>, of which the element is copied.
\<close>

definition Block_copy :: "byte list \<Rightarrow> block result" where
  "Block_copy buffer =
     bindE (readType_throw buffer) (\<lambda>(type, r1).
     bindE (readVarNumber_throw r1) (\<lambda>(len, r2).
       if len > of_nat (length r2)
       then Inl (TlvError ''Not enough data in the buffer to fully parse TLV'')
       else let hdr = length buffer - length r2;
                buf = take (hdr + unat len) buffer
            in Inr (Block (Some buf) type 0 (length buf) (of_nat (length buf))
                      hdr (length buf) [])))"

definition Block_ofType :: "u32 \<Rightarrow> block" where
  "Block_ofType type = Block None type 0 0 0 0 0 []"

definition Block_ofValue :: "u32 \<Rightarrow> byte list \<Rightarrow> block" where
  "Block_ofValue type val =
     Block (Some val) type (length val) (length val)
       (of_nat (sizeOfVarNumber (ucast type) + sizeOfVarNumber (of_nat (length val)) + length val))
       0 (length val) []"

section \<open>Wire and value\<close>

definition Block_empty :: "block \<Rightarrow> bool" where
  "Block_empty b = (m_type b = 0xFFFFFFFF)"

definition hasWire :: "block \<Rightarrow> bool" where
  "hasWire b = (m_buffer b \<noteq> None \<and> m_begin b \<noteq> m_end b)"

definition hasValue :: "block \<Rightarrow> bool" where
  "hasValue b = (m_buffer b \<noteq> None)"

definition Block_begin :: "block \<Rightarrow> nat result" where
  "Block_begin b =
     (if \<not> hasWire b then Inl (BlockError ''Underlying wire buffer is empty'')
      else Inr (m_begin b))"

definition Block_end :: "block \<Rightarrow> nat result" where
  "Block_end b =
     (if \<not> hasWire b then Inl (BlockError ''Underlying wire buffer is empty'')
      else Inr (m_end b))"

definition Block_size :: "block \<Rightarrow> nat result" where
  "Block_size b =
     (if hasWire b \<or> hasValue b then Inr (unat (m_size b))
      else Inl (BlockError ''Block size cannot be determined (undefined block size)''))"

definition value_size :: "block \<Rightarrow> nat" where
  "value_size b = (if \<not> hasValue b then 0 else m_value_end b - m_value_begin b)"

text \<open>The memory behind \<open>wire()\<close> and \<open>value()\<close>.\<close>

definition buffer_of :: "block \<Rightarrow> byte list" where
  "buffer_of b = (case m_buffer b of None \<Rightarrow> [] | Some buf \<Rightarrow> buf)"

definition wire_bytes :: "block \<Rightarrow> byte list" where
  "wire_bytes b = chunk (buffer_of b) (m_begin b) (m_end b)"

definition value_bytes :: "block \<Rightarrow> byte list" where
  "value_bytes b = chunk (buffer_of b) (m_value_begin b) (m_value_end b)"

definition Block_wire :: "block \<Rightarrow> byte list result" where
  "Block_wire b =
     (if \<not> hasWire b then Inl (BlockError ''(Block::wire) Underlying wire buffer is empty'')
      else Inr (drop (m_begin b) (buffer_of b)))"

definition Block_ofBlock :: "u32 \<Rightarrow> block \<Rightarrow> block result" where
  "Block_ofBlock type val =
     (case m_buffer val of
        None \<Rightarrow> Inl (UndefinedBehaviour ''null m_buffer'')
      | Some buf \<Rightarrow>
          bindE (Block_begin val) (\<lambda>vb.
          bindE (Block_end val) (\<lambda>ve.
            Inr (Block (Some buf) type (length buf) (length buf)
                   (of_nat (sizeOfVarNumber (ucast type) + sizeOfVarNumber (of_nat (ve - vb))
                            + (ve - vb)))
                   vb ve []))))"

definition Block_reset :: "block \<Rightarrow> block" where
  "Block_reset b = Block None 0xFFFFFFFF 0 0 (m_size b) 0 0 []"

definition resetWire :: "block \<Rightarrow> block" where
  "resetWire b = Block None (m_type b) 0 0 (m_size b) 0 0 (m_subBlocks b)"

section \<open>Parsing\<close>

definition fromBuffer :: "byte list \<Rightarrow> nat \<Rightarrow> bool \<times> block" where
  "fromBuffer buffer offset =
     (case readType (drop offset buffer) of
        None \<Rightarrow> (False, Block_default)
      | Some (type, r1) \<Rightarrow>
          (case readVarNumber r1 of
             None \<Rightarrow> (False, Block_default)
           | Some (len, r2) \<Rightarrow>
               if len > of_nat (length r2) then (False, Block_default)
               else let tempBegin = length buffer - length r2
                    in (True, Block_parts buffer type offset (tempBegin + unat len)
                                tempBegin (tempBegin + unat len))))"

definition fromBuffer_copy :: "byte list \<Rightarrow> bool \<times> block" where
  "fromBuffer_copy buffer =
     (case readType buffer of
        None \<Rightarrow> (False, Block_default)
      | Some (type, r1) \<Rightarrow>
          (case readVarNumber r1 of
             None \<Rightarrow> (False, Block_default)
           | Some (len, r2) \<Rightarrow>
               if len > of_nat (length r2) then (False, Block_default)
               else let hdr = length buffer - length r2;
                        sharedBuffer = take (hdr + unat len) buffer
                    in (True, Block_parts sharedBuffer type 0 (length sharedBuffer)
                                hdr (length sharedBuffer))))"

text \<open>
  The loop of \<open>parse()\<close>: \<open>acc\<close> is \<open>m_subBlocks\<close>, which only the length check clears
  before it throws.
\<close>

function parse_loop :: "byte list \<Rightarrow> nat \<Rightarrow> nat \<Rightarrow> block list \<Rightarrow> error option \<times> block list" where
  "parse_loop buf begin end acc =
     (if begin = end then (None, acc)
      else case readType_throw (chunk buf begin end) of
             Inl e \<Rightarrow> (Some e, acc)
           | Inr (type, r1) \<Rightarrow>
               (case readVarNumber_throw r1 of
                  Inl e \<Rightarrow> (Some e, acc)
                | Inr (len, r2) \<Rightarrow>
                    if len > of_nat (length r2)
                    then (Some (TlvError ''TLV length exceeds buffer length''), [])
                    else let valueBegin = end - length r2;
                             element_end = valueBegin + unat len
                         in parse_loop buf element_end end
                              (acc @ [Block_parts buf type begin element_end
                                        valueBegin element_end])))"
  by pat_completeness auto
termination
proof (relation "measure (\<lambda>(buf, begin, end, acc). end - begin)", goal_cases)
  case (2 buf "begin" "end" acc x type r1 y len r2 valueBegin element_end)
  have "length r1 < length (chunk buf begin end)"
    using 2(2,3) readType_shorter by (metis readType_throw_Inr)
  moreover have "length r2 < length r1"
    using 2(4,5) readVarNumber_shorter by (metis readVarNumber_throw_Inr)
  moreover have "length (chunk buf begin end) \<le> end - begin"
    by (simp add: chunk_def)
  ultimately show ?case using 2(7,8) by simp
qed simp

declare parse_loop.simps [simp del]

definition parse :: "block \<Rightarrow> error option \<times> block" where
  "parse b =
     (if m_subBlocks b \<noteq> [] \<or> value_size b = 0 then (None, b)
      else case parse_loop (buffer_of b) (m_value_begin b) (m_value_end b) [] of
             (err, elements) \<Rightarrow>
               (err, Block (m_buffer b) (m_type b) (m_begin b) (m_end b) (m_size b)
                       (m_value_begin b) (m_value_end b) elements))"

definition blockFromValue :: "block \<Rightarrow> block result" where
  "blockFromValue b =
     (if value_size b = 0 then Inl (BlockError ''Underlying value buffer is empty'')
      else bindE (readType_throw (value_bytes b)) (\<lambda>(type, r1).
           bindE (readVarNumber_throw r1) (\<lambda>(len, r2).
             if len \<noteq> of_nat (length r2)
             then Inl (TlvError ''TLV length mismatches buffer length'')
             else Inr (Block_parts (buffer_of b) type (m_value_begin b) (m_value_end b)
                         (m_value_end b - length r2) (m_value_end b)))))"

section \<open>Encoding\<close>

text \<open>The two loops of \<open>encode()\<close> over the elements.\<close>

fun elements_valueSize :: "block list \<Rightarrow> nat result" where
  "elements_valueSize [] = Inr 0"
| "elements_valueSize (i # is) =
     bindE (Block_size i) (\<lambda>n. bindE (elements_valueSize is) (\<lambda>m. Inr (n + m)))"

fun elements_write :: "block list \<Rightarrow> byte list result" where
  "elements_write [] = Inr []"
| "elements_write (i # is) =
     bindE
       (if hasWire i then
          bindE (Block_wire i) (\<lambda>w. bindE (Block_size i) (\<lambda>n. Inr (take n w)))
        else if hasValue i then
          Inr (varNumber_bytes (ucast (m_type i)) @ varNumber_bytes (of_nat (value_size i))
               @ value_bytes i)
        else Inl (BlockError ''Underlying value buffer is empty''))
       (\<lambda>w. bindE (elements_write is) (\<lambda>ws. Inr (w @ ws)))"

definition encode :: "block \<Rightarrow> error option \<times> block" where
  "encode b =
     (if hasWire b then (None, b)
      else
        let os = varNumber_bytes (ucast (m_type b));
            body =
              (if hasValue b then
                 Inr (varNumber_bytes (of_nat (value_size b)) @ value_bytes b)
               else if length (m_subBlocks b) = 0 then Inr (varNumber_bytes 0)
               else bindE (elements_valueSize (m_subBlocks b)) (\<lambda>valueSize.
                    bindE (elements_write (m_subBlocks b)) (\<lambda>ws.
                      Inr (varNumber_bytes (of_nat valueSize) @ ws))))
        in case body of
             Inl e \<Rightarrow> (Some e, b)
           | Inr bs \<Rightarrow>
               let buf = os @ bs in
               case bindE (readType_throw buf) (\<lambda>(_, r1). readVarNumber_throw r1) of
                 Inl e \<Rightarrow>
                   (Some e, Block (Some buf) (m_type b) 0 (length buf) (of_nat (length buf))
                              0 (length buf) (m_subBlocks b))
               | Inr (_, r2) \<Rightarrow>
                   (None, Block (Some buf) (m_type b) 0 (length buf) (of_nat (length buf))
                            (length buf - length r2) (length buf) (m_subBlocks b)))"

section \<open>Elements\<close>

definition Block_find :: "u32 \<Rightarrow> block \<Rightarrow> nat" where
  "Block_find type b = length (takeWhile (\<lambda>subBlock. m_type subBlock \<noteq> type) (m_subBlocks b))"

definition Block_get :: "u32 \<Rightarrow> block \<Rightarrow> block result" where
  "Block_get type b =
     (let it = Block_find type b in
      if it \<noteq> length (m_subBlocks b) then Inr (m_subBlocks b ! it)
      else Inl (BlockError (''(Block::get) Requested a non-existed type ['' @ show_nat (unat type)
                            @ ''] from Block'')))"

definition with_subBlocks :: "block \<Rightarrow> block list \<Rightarrow> block" where
  "with_subBlocks b elements =
     Block (m_buffer b) (m_type b) (m_begin b) (m_end b) (m_size b)
       (m_value_begin b) (m_value_end b) elements"

definition Block_remove :: "u32 \<Rightarrow> block \<Rightarrow> block" where
  "Block_remove type b =
     with_subBlocks (resetWire b) (filter (\<lambda>subBlock. m_type subBlock \<noteq> type) (m_subBlocks b))"

text \<open>
  Iterators into the elements are positions; the container's behaviour is undefined when they are
  not inside the sequence.
\<close>

definition Block_erase :: "nat \<Rightarrow> block \<Rightarrow> block result" where
  "Block_erase position b =
     (if position < length (m_subBlocks b)
      then Inr (with_subBlocks (resetWire b)
             (take position (m_subBlocks b) @ drop (Suc position) (m_subBlocks b)))
      else Inl (UndefinedBehaviour ''erase at end()''))"

definition Block_eraseRange :: "nat \<Rightarrow> nat \<Rightarrow> block \<Rightarrow> block result" where
  "Block_eraseRange first_it last_it b =
     (if first_it \<le> last_it \<and> last_it \<le> length (m_subBlocks b)
      then Inr (with_subBlocks (resetWire b)
             (take first_it (m_subBlocks b) @ drop last_it (m_subBlocks b)))
      else Inl (UndefinedBehaviour ''erase of an invalid range''))"

definition push_back :: "block \<Rightarrow> block \<Rightarrow> block" where
  "push_back b element = with_subBlocks (resetWire b) (m_subBlocks b @ [element])"

definition Block_insert :: "nat \<Rightarrow> block \<Rightarrow> block \<Rightarrow> block result" where
  "Block_insert pos element b =
     (if pos \<le> length (m_subBlocks b)
      then Inr (with_subBlocks (resetWire b)
             (take pos (m_subBlocks b) @ element # drop pos (m_subBlocks b)))
      else Inl (UndefinedBehaviour ''insert at an invalid position''))"

definition Block_equal :: "block \<Rightarrow> block \<Rightarrow> bool result" where
  "Block_equal b other =
     bindE (Block_size b) (\<lambda>n.
     bindE (Block_size other) (\<lambda>m.
       if n \<noteq> m then Inr False
       else bindE (Block_begin b) (\<lambda>i.
            bindE (Block_end b) (\<lambda>j.
            bindE (Block_begin other) (\<lambda>k.
              Inr (chunk (buffer_of b) i j = chunk (buffer_of other) k (k + (j - i))))))))"

section \<open>Well-formed blocks\<close>

text \<open>
  \<open>block_bytes\<close> is the TLV encoding of a block: its wire if it has one, otherwise the
  encoding of its value. A block is well-formed when its iterators stay in the buffer, its
  wire is a header for its type followed by its value, its size is the length of its
  encoding (modulo \<open>2 ^ 32\<close>, the width of \<open>m_size\<close>), and its elements, once parsed, are
  the elements of its value.
\<close>

definition readHeader :: "byte list \<Rightarrow> (u32 \<times> u64 \<times> byte list) result" where
  "readHeader rng =
     bindE (readType_throw rng) (\<lambda>(type, r1).
     bindE (readVarNumber_throw r1) (\<lambda>(len, r2). Inr (type, len, r2)))"

definition block_bytes :: "block \<Rightarrow> byte list" where
  "block_bytes b = (if hasWire b then wire_bytes b else tlv_bytes (m_type b) (value_bytes b))"

definition iterators_ok :: "block \<Rightarrow> bool" where
  "iterators_ok b \<longleftrightarrow>
     (hasValue b \<longrightarrow>
        m_begin b \<le> m_end b \<and> m_end b \<le> length (buffer_of b) \<and>
        m_value_begin b \<le> m_value_end b \<and> m_value_end b \<le> length (buffer_of b))"

definition framed :: "block \<Rightarrow> bool" where
  "framed b \<longleftrightarrow>
     (hasWire b \<longrightarrow>
        readHeader (wire_bytes b) = Inr (m_type b, of_nat (length (value_bytes b)), value_bytes b))"

definition sized :: "block \<Rightarrow> bool" where
  "sized b \<longleftrightarrow> (hasValue b \<longrightarrow> m_size b = of_nat (length (block_bytes b)))"

definition elements_ok :: "block \<Rightarrow> bool" where
  "elements_ok b \<longleftrightarrow>
     (hasValue b \<and> m_subBlocks b \<noteq> [] \<longrightarrow>
        concat (map block_bytes (m_subBlocks b)) = value_bytes b)"

fun wf_block :: "block \<Rightarrow> bool" where
  "wf_block (Block buf t b e sz vb ve subs) \<longleftrightarrow>
     (let self = Block buf t b e sz vb ve subs
      in iterators_ok self \<and> framed self \<and> sized self \<and> elements_ok self)
     \<and> (\<forall>s \<in> set subs. wf_block s)"

declare wf_block.simps [simp del]

lemma wf_block_iff:
  "wf_block b \<longleftrightarrow> iterators_ok b \<and> framed b \<and> sized b \<and> elements_ok b
     \<and> (\<forall>s \<in> set (m_subBlocks b). wf_block s)"
  by (cases b) (simp add: wf_block.simps Let_def)

lemma wf_block_leaf:
  "m_subBlocks b = [] \<Longrightarrow> iterators_ok b \<Longrightarrow> framed b \<Longrightarrow> sized b \<Longrightarrow> wf_block b"
  by (subst wf_block_iff) (simp add: elements_ok_def)

lemmas block_defs = hasWire_def hasValue_def buffer_of_def wire_bytes_def value_bytes_def
  value_size_def block_bytes_def

lemmas wf_defs = iterators_ok_def framed_def sized_def elements_ok_def

lemma readHeader_written [simp]:
  "readHeader (varNumber_bytes (ucast t) @ varNumber_bytes v @ rest) = Inr (t, v, rest)"
  by (simp add: readHeader_def)

lemma readHeader_tlv_bytes:
  "readHeader (tlv_bytes t val @ rest) = Inr (t, of_nat (length val), val @ rest)"
  by (simp add: tlv_bytes_def)

lemma readHeader_Inr:
  "readHeader rng = Inr (t, len, r2) \<longleftrightarrow>
     (\<exists>r1. readType_throw rng = Inr (t, r1) \<and> readVarNumber_throw r1 = Inr (len, r2))"
  by (auto simp: readHeader_def bindE_eq_Inr_iff)

lemma readHeader_prefix:
  assumes "readHeader rng = Inr (t, len, r2)"
  shows "\<exists>h. rng = h @ r2 \<and> h \<noteq> [] \<and> (\<forall>r. readHeader (h @ r) = Inr (t, len, r))"
proof -
  from assms obtain r1 where 1: "readType rng = Some (t, r1)" and 2: "readVarNumber r1 = Some (len, r2)"
    by (auto simp: readHeader_Inr readType_throw_Inr readVarNumber_throw_Inr)
  obtain p where p: "rng = p @ r1" "p \<noteq> []" "\<forall>r. readType (p @ r) = Some (t, r)"
    using readType_prefix [OF 1] by blast
  obtain q where q: "r1 = q @ r2" "\<forall>r. readVarNumber (q @ r) = Some (len, r)"
    using readVarNumber_prefix [OF 2] by blast
  have "readHeader ((p @ q) @ r) = Inr (t, len, r)" for r
    using p q by (auto simp: readHeader_Inr readType_throw_Inr readVarNumber_throw_Inr)
  with p q show ?thesis by (intro exI [of _ "p @ q"]) simp
qed

lemma unat_of_nat_le: "unat (of_nat n :: u64) \<le> n"
  by (simp add: unat_of_nat)

lemma Block_parts_simps [simp]:
  "m_buffer (Block_parts w t i j v k) = Some w"
  "m_type (Block_parts w t i j v k) = t"
  "m_size (Block_parts w t i j v k) = of_nat (j - i)"
  "m_subBlocks (Block_parts w t i j v k) = []"
  "m_begin (Block_parts w t i j v k) = i" "m_end (Block_parts w t i j v k) = j"
  "m_value_begin (Block_parts w t i j v k) = v" "m_value_end (Block_parts w t i j v k) = k"
  "hasWire (Block_parts w t i j v k) \<longleftrightarrow> i \<noteq> j"
  "hasValue (Block_parts w t i j v k)"
  "buffer_of (Block_parts w t i j v k) = w"
  "wire_bytes (Block_parts w t i j v k) = chunk w i j"
  "value_bytes (Block_parts w t i j v k) = chunk w v k"
  by (simp_all add: Block_parts_def block_defs)

lemma iterators_ok_Block_parts [simp]:
  "iterators_ok (Block_parts w t i j v k) \<longleftrightarrow> i \<le> j \<and> j \<le> length w \<and> v \<le> k \<and> k \<le> length w"
  by (simp add: iterators_ok_def Block_parts_def block_defs)

text \<open>The element that the parsers build from a header read inside a buffer.\<close>

lemma Block_parts_wf:
  assumes hdr: "readHeader (chunk buf i j) = Inr (t, len, r2)"
    and j: "j \<le> length buf" and len: "\<not> len > of_nat (length r2)"
  defines "v \<equiv> j - length r2" and "k \<equiv> j - length r2 + unat len"
  defines "s \<equiv> Block_parts buf t i k v k"
  shows "wf_block s \<and> hasWire s \<and> i < v \<and> v \<le> k \<and> k \<le> j
         \<and> wire_bytes s = chunk buf i k \<and> value_bytes s = take (unat len) r2
         \<and> chunk buf k j = drop (unat len) r2 \<and> m_type s = t"
proof -
  obtain h where h: "chunk buf i j = h @ r2" "h \<noteq> []"
    and loc: "\<And>r. readHeader (h @ r) = Inr (t, len, r)"
    using readHeader_prefix [OF hdr] by blast
  have lens: "j - i = length h + length r2" "i < j"
    using arg_cong [OF h(1), of length] j h(2) by (auto simp flip: length_greater_0_conv)
  have le: "unat len \<le> length r2"
    using len unat_of_nat_le [of "length r2"] by (simp add: word_le_nat_alt not_less)
  have "0 < length h" using h(2) by simp
  then have pos: "v = i + length h" "v \<le> k" "k \<le> j" "i < v"
    using lens le unfolding v_def k_def by linarith+
  have r2: "chunk buf v j = r2"
    using drop_chunk [of "length h" buf i j] h(1) pos(1) by simp
  have val: "chunk buf v k = take (unat len) r2"
    using take_chunk [of v "unat len" j buf] r2 pos unfolding k_def v_def by simp
  have rest: "chunk buf k j = drop (unat len) r2"
    using drop_chunk [of "unat len" buf v j] r2 unfolding k_def v_def by simp
  have "chunk buf i v = h"
    using take_chunk [of i "length h" j buf] h(1) pos by simp
  then have wire: "chunk buf i k = h @ take (unat len) r2"
    using chunk_split [of i v k buf] pos val by simp
  have l: "len = of_nat (length (take (unat len) r2))"
    using le by simp
  have "readHeader (chunk buf i k) = Inr (t, of_nat (length (take (unat len) r2)), take (unat len) r2)"
    using loc [of "take (unat len) r2"] wire l by simp
  then have "framed s" by (simp add: framed_def s_def val)
  moreover have "iterators_ok s" using pos(2-4) j by (simp add: s_def)
  moreover have "sized s"
    using pos(2-4) j by (simp add: sized_def block_bytes_def s_def)
  ultimately have "wf_block s" by (intro wf_block_leaf) (simp_all add: s_def)
  moreover have "hasWire s" using pos(2-4) by (simp add: s_def)
  ultimately show ?thesis using pos(2-4) val rest by (simp add: s_def)
qed

section \<open>Parsing\<close>

lemma parse_loop_step:
  assumes "readHeader (chunk buf i j) = Inr (t, len, r2)" "i \<noteq> j" "\<not> len > of_nat (length r2)"
  shows "parse_loop buf i j acc =
    parse_loop buf (j - length r2 + unat len) j
      (acc @ [Block_parts buf t i (j - length r2 + unat len) (j - length r2)
                (j - length r2 + unat len)])"
  using assms by (auto simp: parse_loop.simps [of buf i j] readHeader_Inr Let_def)

text \<open>What a successful loop adds to the elements.\<close>

definition splits_into :: "byte list \<Rightarrow> nat \<Rightarrow> nat \<Rightarrow> block list \<Rightarrow> bool" where
  "splits_into buf i j new \<longleftrightarrow>
     concat (map wire_bytes new) = chunk buf i j
     \<and> (\<forall>s \<in> set new. wf_block s \<and> hasWire s \<and> m_subBlocks s = [] \<and> m_buffer s = Some buf)"

lemma parse_loop_sound:
  assumes "parse_loop buf i j acc = (None, res)" "i \<le> j" "j \<le> length buf"
  shows "\<exists>new. res = acc @ new \<and> splits_into buf i j new"
  using assms
proof (induction buf i j acc rule: parse_loop.induct)
  case (1 buf i j acc)
  show ?case
  proof (cases "i = j")
    case True
    with "1.prems" show ?thesis by (simp add: parse_loop.simps splits_into_def)
  next
    case False
    with "1.prems"(1) obtain t r1 len r2 where
      rd: "readType_throw (chunk buf i j) = Inr (t, r1)" "readVarNumber_throw r1 = Inr (len, r2)"
      and len: "\<not> len > of_nat (length r2)"
      by (auto simp: parse_loop.simps [of buf i j] split: sum.splits if_splits)
    then have hdr: "readHeader (chunk buf i j) = Inr (t, len, r2)"
      by (auto simp: readHeader_Inr)
    define v where "v = j - length r2"
    define k where "k = v + unat len"
    define s where "s = Block_parts buf t i k v k"
    have s: "wf_block s" "hasWire s" "k \<le> j" "i < k" "wire_bytes s = chunk buf i k"
      using Block_parts_wf [OF hdr "1.prems"(3) len] unfolding s_def k_def v_def by auto
    have "parse_loop buf k j (acc @ [s]) = (None, res)"
      using parse_loop_step [OF hdr False len] "1.prems"(1) unfolding s_def k_def v_def by simp
    then obtain new where new: "res = (acc @ [s]) @ new" "splits_into buf k j new"
      using "1.IH" [OF False rd(1) refl rd(2) refl len refl refl] s(3) "1.prems"(3)
      unfolding s_def k_def v_def by blast
    then show ?thesis
      using s chunk_split [of i k j buf]
      by (intro exI [of _ "s # new"]) (auto simp: splits_into_def s_def)
  qed
qed

definition type_value :: "block \<Rightarrow> u32 \<times> byte list" where
  "type_value b = (m_type b, value_bytes b)"

lemma parse_loop_complete:
  assumes "chunk buf i j = concat (map (\<lambda>(t, v). tlv_bytes t v) es)"
    and "i \<le> j" "j \<le> length buf" and "length (chunk buf i j) < 2 ^ 64"
  shows "\<exists>new. parse_loop buf i j acc = (None, acc @ new) \<and> map type_value new = es"
  using assms
proof (induction es arbitrary: i acc)
  case Nil
  then have "i = j" by (simp add: chunk_empty_iff)
  then show ?case by (intro exI [of _ "[]"]) (simp add: parse_loop.simps)
next
  case (Cons e es)
  obtain t v where e: "e = (t, v)" by force
  define r where "r = concat (map (\<lambda>(t, v). tlv_bytes t v) es)"
  have split: "chunk buf i j = tlv_bytes t v @ r"
    using Cons.prems(1) e r_def by simp
  then have hdr: "readHeader (chunk buf i j) = Inr (t, of_nat (length v), v @ r)"
    by (simp add: readHeader_tlv_bytes)
  have ne: "i \<noteq> j" using split by (metis Nil_is_append_conv chunk_same tlv_bytes_not_Nil)
  have bound: "length (v @ r) < 2 ^ 64"
    using Cons.prems(4) split by simp
  then have lv: "unat (of_nat (length v) :: u64) = length v"
    by (simp add: unat_u64_of_nat)
  have len: "\<not> (of_nat (length v) :: u64) > of_nat (length (v @ r))"
    using bound of_nat_u64_le_iff [of "length v" "length (v @ r)"]
    by (simp add: not_less del: of_nat_add)
  define w where "w = j - length (v @ r)"
  define k where "k = w + length v"
  define s where "s = Block_parts buf t i k w k"
  have s: "k \<le> j" "value_bytes s = v" "chunk buf k j = r" "m_type s = t"
    using Block_parts_wf [OF hdr Cons.prems(3) len] lv unfolding s_def k_def w_def by auto
  obtain new where "parse_loop buf k j (acc @ [s]) = (None, (acc @ [s]) @ new)" "map type_value new = es"
    using Cons.IH [of k "acc @ [s]"] s Cons.prems(3) r_def bound by auto
  moreover have "parse_loop buf i j acc = parse_loop buf k j (acc @ [s])"
    using parse_loop_step [OF hdr ne len, of acc] lv unfolding s_def k_def w_def by simp
  moreover have "type_value s = e" using e s by (simp add: type_value_def)
  ultimately show ?case by (intro exI [of _ "s # new"]) simp
qed

lemma block_bytes_wire: "hasWire b \<Longrightarrow> block_bytes b = wire_bytes b"
  by (simp add: block_bytes_def)

lemma value_size_bytes: "iterators_ok b \<Longrightarrow> value_size b = length (value_bytes b)"
  by (cases "m_buffer b") (auto simp: iterators_ok_def block_defs)

lemma parse_sel:
  "m_buffer (snd (parse b)) = m_buffer b" "m_type (snd (parse b)) = m_type b"
  "m_begin (snd (parse b)) = m_begin b" "m_end (snd (parse b)) = m_end b"
  "m_size (snd (parse b)) = m_size b" "m_value_begin (snd (parse b)) = m_value_begin b"
  "m_value_end (snd (parse b)) = m_value_end b"
  by (auto simp: parse_def split: prod.splits)

text \<open>The views of a block that do not look at its elements.\<close>

lemma block_views_cong:
  assumes "m_buffer b = m_buffer b'" "m_type b = m_type b'" "m_begin b = m_begin b'"
    "m_end b = m_end b'" "m_size b = m_size b'" "m_value_begin b = m_value_begin b'"
    "m_value_end b = m_value_end b'"
  shows "hasWire b = hasWire b'" "hasValue b = hasValue b'" "buffer_of b = buffer_of b'"
    "wire_bytes b = wire_bytes b'" "value_bytes b = value_bytes b'"
    "block_bytes b = block_bytes b'" "iterators_ok b = iterators_ok b'"
    "framed b = framed b'" "sized b = sized b'" "value_size b = value_size b'"
  using assms by (simp_all add: block_defs iterators_ok_def framed_def sized_def)

lemmas parse_views [simp] = block_views_cong [OF parse_sel]

lemma value_size_wf: "wf_block c \<Longrightarrow> value_size c = length (value_bytes c)"
  using wf_block_iff [of c] value_size_bytes by blast

lemma value_le_wire: "wf_block b \<Longrightarrow> hasWire b \<Longrightarrow> length (value_bytes b) \<le> length (wire_bytes b)"
  using readHeader_prefix [of "wire_bytes b"] by (fastforce simp: wf_block_iff [of b] framed_def)

lemma parse_elements:
  assumes wf: "wf_block b" and ok: "fst (parse b) = None" and "m_subBlocks b = []"
  shows "concat (map block_bytes (m_subBlocks (snd (parse b)))) = value_bytes b
         \<and> (\<forall>s \<in> set (m_subBlocks (snd (parse b))). wf_block s \<and> hasWire s)"
proof (cases "value_size b = 0")
  case True
  with assms show ?thesis
    using value_size_bytes [of b] wf_block_iff [of b] by (simp add: parse_def)
next
  case False
  have it: "iterators_ok b" "hasValue b"
    using wf False by (auto simp: wf_block_iff [of b] value_size_def split: if_splits)
  obtain res where "parse_loop (buffer_of b) (m_value_begin b) (m_value_end b) [] = (None, res)"
    "m_subBlocks (snd (parse b)) = res"
    using ok assms(3) False by (auto simp: parse_def split: prod.splits)
  with parse_loop_sound [OF this(1)] it
  have "splits_into (buffer_of b) (m_value_begin b) (m_value_end b) (m_subBlocks (snd (parse b)))"
    by (auto simp: iterators_ok_def)
  then show ?thesis
    by (auto simp: splits_into_def value_bytes_def block_bytes_wire cong: map_cong)
qed

lemma parse_wf:
  assumes wf: "wf_block b" and ok: "fst (parse b) = None"
  shows "wf_block (snd (parse b))"
proof (cases "m_subBlocks b = []")
  case True
  then show ?thesis
    using parse_elements [OF wf ok] wf wf_block_iff [of b] wf_block_iff [of "snd (parse b)"]
    by (simp add: elements_ok_def)
next
  case False
  with wf show ?thesis by (simp add: parse_def)
qed

lemma parse_complete:
  assumes "iterators_ok b" "hasValue b" "m_subBlocks b = []" "length (value_bytes b) < 2 ^ 64"
    and "value_bytes b = concat (map (\<lambda>(t, v). tlv_bytes t v) es)"
  shows "fst (parse b) = None \<and> map type_value (m_subBlocks (snd (parse b))) = es"
proof (cases "value_size b = 0")
  case True
  then have "value_bytes b = []" using value_size_bytes [OF assms(1)] by simp
  then have "es = []" using assms(5) by (cases es) auto
  with True assms(3) show ?thesis by (simp add: parse_def)
next
  case False
  obtain new where
    "parse_loop (buffer_of b) (m_value_begin b) (m_value_end b) [] = (None, [] @ new)"
    "map type_value new = es"
    using parse_loop_complete [of "buffer_of b" "m_value_begin b" "m_value_end b" es "[]"] assms
    unfolding value_bytes_def iterators_ok_def by auto
  with False assms(3) show ?thesis by (simp add: parse_def)
qed

section \<open>Constructors\<close>

lemma Block_rest_wf:
  assumes hdr: "readHeader (chunk buf i j) = Inr (t, of_nat (length r2), r2)" and j: "j \<le> length buf"
  defines "s \<equiv> Block_parts buf t i j (j - length r2) j"
  shows "wf_block s \<and> hasWire s \<and> value_bytes s = r2 \<and> wire_bytes s = chunk buf i j"
proof -
  obtain h where h: "chunk buf i j = h @ r2" "h \<noteq> []"
    using readHeader_prefix [OF hdr] by blast
  have "j - i = length h + length r2" "0 < length h"
    using arg_cong [OF h(1), of length] j h(2) by auto
  then have pos: "j - length r2 = i + length h" "i < j" by linarith+
  have val: "value_bytes s = r2"
    using drop_chunk [of "length h" buf i j] h(1) pos(1) by (simp add: s_def)
  moreover have "framed s" using hdr val by (simp add: framed_def s_def)
  moreover have "iterators_ok s" "sized s"
    using pos(2) j by (simp_all add: s_def sized_def block_bytes_def)
  ultimately show ?thesis
    using pos(2) wf_block_leaf [of s] by (simp add: s_def)
qed

lemma Block_range_Inr:
  "Block_range buf i j True = Inr b \<longleftrightarrow>
     (\<exists>t r2. readHeader (chunk buf i j) = Inr (t, of_nat (length r2), r2)
       \<and> b = Block_parts buf t i j (j - length r2) j)"
  by (auto simp: Block_range_def readHeader_def bindE_eq_Inr_iff Block_parts_def
      split: prod.splits if_splits)

lemma Block_range_wf:
  assumes "Block_range buf i j True = Inr b" "j \<le> length buf"
  shows "wf_block b \<and> hasWire b \<and> wire_bytes b = chunk buf i j"
  using assms Block_rest_wf by (auto simp: Block_range_Inr)

lemma Block_range_tlv:
  assumes "chunk buf i j = tlv_bytes t v" "j \<le> length buf"
  shows "\<exists>b. Block_range buf i j True = Inr b \<and> wf_block b \<and> hasWire b
           \<and> type_value b = (t, v) \<and> wire_bytes b = tlv_bytes t v \<and> m_subBlocks b = []"
proof -
  have "readHeader (chunk buf i j) = Inr (t, of_nat (length v), v)"
    using readHeader_tlv_bytes [of t v "[]"] assms(1) by simp
  with Block_rest_wf [OF this assms(2)] show ?thesis
    using assms(1) by (auto simp: Block_range_Inr type_value_def)
qed

lemma Block_whole_range: "Block_whole buf = Block_range buf 0 (length buf) True"
  by (simp add: Block_whole_def Block_range_def bindE_def split: sum.splits prod.splits)

lemma Block_subrange_range:
  "m_buffer b = Some buf \<Longrightarrow> i \<le> length buf \<Longrightarrow> j \<le> length buf \<Longrightarrow>
   Block_subrange b i j verify = Block_range buf i j verify"
  by (simp add: Block_subrange_def Block_range_def)

lemma Block_copy_Inr:
  assumes "Block_copy buffer = Inr b"
  shows "wf_block b \<and> hasWire b \<and> m_subBlocks b = []
         \<and> prefix (wire_bytes b) buffer \<and> buffer_of b = wire_bytes b"
proof -
  from assms obtain t len r2 where hdr: "readHeader buffer = Inr (t, len, r2)"
    and len: "\<not> len > of_nat (length r2)"
    and b: "b = (let hdr = length buffer - length r2; buf = take (hdr + unat len) buffer
            in Block (Some buf) t 0 (length buf) (of_nat (length buf)) hdr (length buf) [])"
    by (auto simp: Block_copy_def readHeader_def bindE_eq_Inr_iff Let_def
        split: prod.splits if_splits)
  have le: "unat len \<le> length r2"
    using len unat_of_nat_le [of "length r2"] by (simp add: word_le_nat_alt not_less)
  obtain h where h: "buffer = h @ r2" and loc: "\<forall>r. readHeader (h @ r) = Inr (t, len, r)"
    using readHeader_prefix [OF hdr] by blast
  define buf where "buf = h @ take (unat len) r2"
  have "take (length h + unat len) buffer = buf" by (simp add: h buf_def)
  then have b': "b = Block_parts buf t 0 (length buf) (length buf - length (take (unat len) r2)) (length buf)"
    using b le by (simp add: h Let_def Block_parts_def buf_def)
  have "readHeader (chunk buf 0 (length buf))
        = Inr (t, of_nat (length (take (unat len) r2)), take (unat len) r2)"
    using loc le by (simp add: buf_def chunk_0)
  from Block_rest_wf [OF this] have "wf_block b \<and> hasWire b \<and> wire_bytes b = buf"
    by (simp add: b')
  moreover have "prefix buf buffer" by (simp add: buf_def h take_is_prefix)
  ultimately show ?thesis using b' by simp
qed

lemma Block_copy_tlv:
  assumes "length (v @ rest) < 2 ^ 64"
  shows "\<exists>b. Block_copy (tlv_bytes t v @ rest) = Inr b \<and> type_value b = (t, v)
           \<and> wire_bytes b = tlv_bytes t v"
proof -
  have lv: "unat (of_nat (length v) :: u64) = length v"
    using assms by (simp add: unat_u64_of_nat)
  have "\<not> (of_nat (length v) :: u64) > of_nat (length (v @ rest))"
    using assms of_nat_u64_le_iff [of "length v" "length (v @ rest)"]
    by (simp add: not_less del: of_nat_add)
  then show ?thesis
    using lv
    by (simp add: Block_copy_def tlv_bytes_def Let_def type_value_def block_defs chunk_def
        del: of_nat_add)
qed

text \<open>The non-throwing \<open>fromBuffer\<close> accepts what the throwing constructor accepts.\<close>

lemma fromBuffer_copy_Block_copy:
  "fromBuffer_copy buffer =
     (case Block_copy buffer of Inl _ \<Rightarrow> (False, Block_default) | Inr b \<Rightarrow> (True, b))"
proof (cases "readType buffer")
  case None
  then have "\<not> (\<exists>r. readType_throw buffer = Inr r)" by (simp add: readType_throw_Inr)
  then obtain e where "readType_throw buffer = Inl e" by (cases "readType_throw buffer") auto
  with None show ?thesis by (simp add: fromBuffer_copy_def Block_copy_def)
next
  case (Some p)
  obtain t r1 where p: "p = (t, r1)" by force
  have 1: "readType_throw buffer = Inr (t, r1)" using Some p by (simp add: readType_throw_Inr)
  show ?thesis
  proof (cases "readVarNumber r1")
    case None
    then have "\<not> (\<exists>r. readVarNumber_throw r1 = Inr r)" by (simp add: readVarNumber_throw_Inr)
    then obtain e where "readVarNumber_throw r1 = Inl e" by (cases "readVarNumber_throw r1") auto
    with None 1 p Some show ?thesis by (simp add: fromBuffer_copy_def Block_copy_def)
  next
    case (Some q)
    then have "readVarNumber_throw r1 = Inr q" by (simp add: readVarNumber_throw_Inr)
    with Some 1 p \<open>readType buffer = Some p\<close> show ?thesis
      by (simp add: fromBuffer_copy_def Block_copy_def Block_parts_def Let_def split: prod.splits)
  qed
qed

lemma fromBuffer_wf:
  assumes "fromBuffer buffer offset = (True, b)" "offset \<le> length buffer"
  shows "wf_block b \<and> hasWire b \<and> m_begin b = offset \<and> m_buffer b = Some buffer"
proof -
  have c: "drop offset buffer = chunk buffer offset (length buffer)" by (simp add: chunk_def)
  from assms obtain t r1 len r2 where
    "readType (drop offset buffer) = Some (t, r1)" "readVarNumber r1 = Some (len, r2)"
    and len: "\<not> len > of_nat (length r2)"
    and b: "b = Block_parts buffer t offset (length buffer - length r2 + unat len)
              (length buffer - length r2) (length buffer - length r2 + unat len)"
    by (auto simp: fromBuffer_def Let_def split: option.splits if_splits)
  then have "readHeader (chunk buffer offset (length buffer)) = Inr (t, len, r2)"
    by (auto simp: readHeader_Inr readType_throw_Inr readVarNumber_throw_Inr simp flip: c)
  from Block_parts_wf [OF this order_refl len] b show ?thesis by simp
qed

section \<open>Encoding\<close>

definition complete_elements :: "block \<Rightarrow> bool" where
  "complete_elements b \<longleftrightarrow>
     (\<forall>s \<in> set (m_subBlocks b). wf_block s \<and> hasValue s \<and> length (block_bytes s) < 2 ^ 32)"

lemma Block_size_wf:
  assumes "wf_block s" "hasValue s" "length (block_bytes s) < 2 ^ 32"
  shows "Block_size s = Inr (length (block_bytes s))"
  using assms wf_block_iff [of s] by (simp add: Block_size_def sized_def unat_u32_of_nat)

lemma elements_valueSize_complete:
  assumes "\<forall>s \<in> set xs. wf_block s \<and> hasValue s \<and> length (block_bytes s) < 2 ^ 32"
  shows "elements_valueSize xs = Inr (length (concat (map block_bytes xs)))"
  using assms by (induction xs) (simp_all add: Block_size_wf)

lemma elements_write_complete:
  assumes "\<forall>s \<in> set xs. wf_block s \<and> hasValue s \<and> length (block_bytes s) < 2 ^ 32"
  shows "elements_write xs = Inr (concat (map block_bytes xs))"
  using assms
proof (induction xs)
  case (Cons x xs)
  have x: "wf_block x" "hasValue x" "length (block_bytes x) < 2 ^ 32"
    using Cons.prems by auto
  have it: "iterators_ok x" using x(1) wf_block_iff [of x] by simp
  have "take (m_end x - m_begin x) (drop (m_begin x) (buffer_of x)) = wire_bytes x"
    by (simp add: wire_bytes_def chunk_def)
  moreover have "length (wire_bytes x) = m_end x - m_begin x" if "hasWire x"
    using it that x(2) by (simp add: wire_bytes_def iterators_ok_def)
  ultimately show ?case
    using Cons x it Block_size_wf [OF x]
    by (auto simp: Block_wire_def block_bytes_def tlv_bytes_def value_size_bytes)
qed simp

text \<open>The value that \<open>encode()\<close> gives a block.\<close>

definition encoded_value :: "block \<Rightarrow> byte list" where
  "encoded_value b =
     (if hasValue b then value_bytes b else concat (map block_bytes (m_subBlocks b)))"

lemma Block_written_wf:
  fixes t :: u32 and v :: "byte list" and subs :: "block list"
  defines "buf \<equiv> tlv_bytes t v"
  defines "b \<equiv> Block (Some buf) t 0 (length buf) (of_nat (length buf)) (length buf - length v)
                  (length buf) subs"
  shows "hasWire b \<and> wire_bytes b = tlv_bytes t v \<and> value_bytes b = v \<and> m_type b = t
         \<and> iterators_ok b \<and> framed b \<and> sized b \<and> m_subBlocks b = subs"
proof -
  have "value_bytes b = v"
    by (simp add: b_def buf_def block_defs chunk_def tlv_bytes_def)
  moreover have "wire_bytes b = tlv_bytes t v"
    by (simp add: b_def buf_def block_defs del: length_tlv_bytes)
  moreover have "hasWire b"
    by (simp add: b_def buf_def hasWire_def del: length_tlv_bytes)
  moreover have "readHeader (tlv_bytes t v) = Inr (t, of_nat (length v), v)"
    using readHeader_tlv_bytes [of t v "[]"] by simp
  ultimately show ?thesis
    by (simp add: b_def wf_defs hasValue_def block_bytes_def buffer_of_def del: length_tlv_bytes)
      (simp add: buf_def)
qed

lemma encode_complete:
  assumes wf: "wf_block b" and nw: "\<not> hasWire b" and "complete_elements b"
  shows "\<exists>b'. encode b = (None, b') \<and> hasWire b' \<and> wf_block b' \<and> m_type b' = m_type b
           \<and> wire_bytes b' = tlv_bytes (m_type b) (encoded_value b)
           \<and> value_bytes b' = encoded_value b \<and> m_subBlocks b' = m_subBlocks b"
proof -
  define buf where "buf = tlv_bytes (m_type b) (encoded_value b)"
  define b' where "b' = Block (Some buf) (m_type b) 0 (length buf) (of_nat (length buf))
                          (length buf - length (encoded_value b)) (length buf) (m_subBlocks b)"
  have subs: "\<forall>s \<in> set (m_subBlocks b). wf_block s \<and> hasValue s \<and> length (block_bytes s) < 2 ^ 32"
    using assms(3) by (simp add: complete_elements_def)
  have it: "iterators_ok b" using wf wf_block_iff [of b] by simp
  have "encode b = (None, b')"
    using nw it elements_valueSize_complete [OF subs] elements_write_complete [OF subs]
    by (simp add: encode_def encoded_value_def tlv_bytes_def buf_def b'_def value_size_bytes Let_def)
  moreover have written: "hasWire b' \<and> wire_bytes b' = tlv_bytes (m_type b) (encoded_value b)
      \<and> value_bytes b' = encoded_value b \<and> m_type b' = m_type b
      \<and> iterators_ok b' \<and> framed b' \<and> sized b' \<and> m_subBlocks b' = m_subBlocks b"
    unfolding b'_def buf_def by (rule Block_written_wf)
  moreover have "elements_ok b'"
    using wf wf_block_iff [of b] written by (auto simp: elements_ok_def encoded_value_def)
  then have "wf_block b'"
    by (subst wf_block_iff) (use written subs in simp)
  ultimately show ?thesis by (intro exI [of _ b']) simp
qed

lemma elements_valueSize_error:
  assumes "elements_valueSize xs = Inl e"
  shows "e = BlockError ''Block size cannot be determined (undefined block size)''
         \<and> (\<exists>s \<in> set xs. \<not> hasValue s)"
  using assms
  by (induction xs) (auto simp: bindE_eq_Inl_iff Block_size_def split: if_splits)

lemma elements_valueSize_Inr_iff:
  "(\<exists>n. elements_valueSize xs = Inr n) \<longleftrightarrow> (\<forall>s \<in> set xs. hasValue s)"
  by (induction xs) (auto simp: bindE_eq_Inr_iff Block_size_def hasWire_def hasValue_def)

section \<open>Element operations\<close>

lemma with_subBlocks_reset_simps [simp]:
  "m_subBlocks (with_subBlocks (resetWire b) xs) = xs"
  "m_type (with_subBlocks (resetWire b) xs) = m_type b"
  "m_buffer (with_subBlocks (resetWire b) xs) = None"
  "\<not> hasWire (with_subBlocks (resetWire b) xs)"
  "\<not> hasValue (with_subBlocks (resetWire b) xs)"
  by (simp_all add: with_subBlocks_def resetWire_def hasWire_def hasValue_def)

lemma wf_with_subBlocks_reset:
  "wf_block (with_subBlocks (resetWire b) xs) \<longleftrightarrow> (\<forall>s \<in> set xs. wf_block s)"
  by (subst wf_block_iff) (simp add: wf_defs)

lemmas element_op_defs = push_back_def Block_remove_def Block_erase_def Block_eraseRange_def
  Block_insert_def

lemma wf_subBlocks: "wf_block b \<Longrightarrow> s \<in> set (m_subBlocks b) \<Longrightarrow> wf_block s"
  using wf_block_iff [of b] by blast

lemma Block_find_eq_length_iff:
  "Block_find t b = length (m_subBlocks b) \<longleftrightarrow> (\<forall>s \<in> set (m_subBlocks b). m_type s \<noteq> t)"
  by (simp add: Block_find_def length_takeWhile_eq_iff)

lemma Block_get_first:
  assumes "m_subBlocks b = xs @ s # ys" "m_type s = t" "\<forall>x \<in> set xs. m_type x \<noteq> t"
  shows "Block_get t b = Inr s"
proof -
  have "takeWhile (\<lambda>x. m_type x \<noteq> t) (m_subBlocks b) = xs"
    using assms by (simp add: takeWhile_append2)
  then show ?thesis using assms(1) by (simp add: Block_get_def Block_find_def)
qed

lemma Block_get_missing:
  "Block_get t b = Inl e \<Longrightarrow> \<forall>s \<in> set (m_subBlocks b). m_type s \<noteq> t"
  by (auto simp: Block_get_def Let_def Block_find_eq_length_iff split: if_splits)

section \<open>Properties\<close>

text \<open>
  What an operation on the elements of \<open>b\<close> leaves: a well-formed block of the same type without
  wire or value, whose elements are \<open>es\<close>, and which \<open>encode()\<close> gives the wire made of them.
\<close>

definition edited :: "block \<Rightarrow> block list \<Rightarrow> block \<Rightarrow> bool" where
  "edited b es b' \<longleftrightarrow> wf_block b' \<and> \<not> hasWire b' \<and> \<not> hasValue b' \<and> m_type b' = m_type b
     \<and> m_subBlocks b' = es
     \<and> (complete_elements b' \<longrightarrow>
         (\<exists>c. encode b' = (None, c) \<and> hasWire c \<and> wf_block c \<and> m_subBlocks c = es
            \<and> wire_bytes c = tlv_bytes (m_type b) (concat (map block_bytes es))))"

lemma edited_with_subBlocks:
  assumes "\<forall>s \<in> set es. wf_block s"
  shows "edited b es (with_subBlocks (resetWire b) es)"
  using assms encode_complete [of "with_subBlocks (resetWire b) es"]
  by (auto simp: edited_def wf_with_subBlocks_reset encoded_value_def)

lemma resetWire_with_subBlocks: "resetWire b = with_subBlocks (resetWire b) (m_subBlocks b)"
  by (simp add: with_subBlocks_def resetWire_def)

text \<open>
  C36. The operations of a block keep it well-formed and do to its elements what they say.
  For a well-formed block with the elements \<open>xs @ ys @ zs\<close>: \<open>push_back\<close> adds an element at the
  end, \<open>insert\<close> adds it between \<open>xs\<close> and \<open>ys\<close>, \<open>erase\<close> takes out the first element of \<open>ys\<close>, \<open>erase\<close> of
  a range takes out \<open>ys\<close>, \<open>remove\<close> takes out the elements of the type, \<open>resetWire\<close>
  keeps them all. The others stay in order, and all these drop the wire and the value; when the
  elements that are left have a value and are shorter than \<open>2 ^ 32\<close> bytes, \<open>encode()\<close> makes the
  wire from exactly these elements. A successful \<open>parse()\<close> changes neither type, wire nor value,
  and the elements it finds in a block without elements make up the value; \<open>reset\<close> empties the
  block.
\<close>

theorem block_operations_wf:
  assumes "wf_block b" and "wf_block element" and "m_subBlocks b = xs @ ys @ zs"
  shows "edited b (xs @ ys @ zs @ [element]) (push_back b element)
    \<and> (\<exists>c. Block_insert (length xs) element b = Inr c \<and> edited b (xs @ element # ys @ zs) c)
    \<and> (ys \<noteq> [] \<longrightarrow> (\<exists>c. Block_erase (length xs) b = Inr c \<and> edited b (xs @ tl ys @ zs) c))
    \<and> (\<exists>c. Block_eraseRange (length xs) (length (xs @ ys)) b = Inr c \<and> edited b (xs @ zs) c)
    \<and> edited b (filter (\<lambda>s. m_type s \<noteq> t) xs @ filter (\<lambda>s. m_type s \<noteq> t) ys
               @ filter (\<lambda>s. m_type s \<noteq> t) zs) (Block_remove t b)
    \<and> edited b (xs @ ys @ zs) (resetWire b)
    \<and> (fst (parse b) = None \<longrightarrow>
         wf_block (snd (parse b)) \<and> m_type (snd (parse b)) = m_type b
         \<and> wire_bytes (snd (parse b)) = wire_bytes b \<and> value_bytes (snd (parse b)) = value_bytes b
         \<and> (xs @ ys @ zs = [] \<longrightarrow>
              concat (map block_bytes (m_subBlocks (snd (parse b)))) = value_bytes b))
    \<and> wf_block (Block_reset b) \<and> \<not> hasWire (Block_reset b) \<and> \<not> hasValue (Block_reset b)
    \<and> m_subBlocks (Block_reset b) = [] \<and> m_type (Block_reset b) = 0xFFFFFFFF"
proof -
  have wf: "\<forall>s \<in> set (xs @ ys @ zs). wf_block s"
    using wf_subBlocks [OF assms(1)] assms(3) by simp
  have ed: "edited b es (with_subBlocks (resetWire b) es)"
    if "set es \<subseteq> insert element (set (xs @ ys @ zs))" for es
    using wf assms(2) that by (intro edited_with_subBlocks) blast
  have "\<exists>c. Block_erase (length xs) b = Inr c \<and> edited b (xs @ tl ys @ zs) c" if "ys \<noteq> []"
    using that ed [of "xs @ tl ys @ zs"] list.set_sel(2) [of ys]
    by (cases ys) (auto simp: Block_erase_def assms(3))
  moreover have "\<exists>c. Block_eraseRange (length xs) (length (xs @ ys)) b = Inr c \<and> edited b (xs @ zs) c"
    using ed [of "xs @ zs"] by (auto simp: Block_eraseRange_def assms(3))
  moreover have "\<exists>c. Block_insert (length xs) element b = Inr c \<and> edited b (xs @ element # ys @ zs) c"
    using ed [of "xs @ element # ys @ zs"] by (auto simp: Block_insert_def assms(3))
  moreover have "edited b (xs @ ys @ zs) (resetWire b)"
    using ed [of "xs @ ys @ zs"] resetWire_with_subBlocks [of b] assms(3) by auto
  moreover have "wf_block (Block_reset b)"
    using wf_block_iff [of "Block_reset b"]
    by (simp add: wf_defs Block_reset_def hasWire_def hasValue_def)
  moreover have "edited b (xs @ ys @ zs @ [element]) (push_back b element)"
    using ed [of "xs @ ys @ zs @ [element]"] by (auto simp: push_back_def assms(3))
  moreover have "edited b (filter (\<lambda>s. m_type s \<noteq> t) xs @ filter (\<lambda>s. m_type s \<noteq> t) ys
               @ filter (\<lambda>s. m_type s \<noteq> t) zs) (Block_remove t b)"
    using ed [of "filter (\<lambda>s. m_type s \<noteq> t) (xs @ ys @ zs)"] by (auto simp: Block_remove_def assms(3))
  moreover have "m_type (snd (parse b)) = m_type b"
    by (simp add: parse_def split: prod.split)
  ultimately show ?thesis
    using parse_wf [OF assms(1)] parse_elements [OF assms(1)] assms(3)
    by (simp add: Block_reset_def hasWire_def hasValue_def)
qed

theorem block_operations_wf_witness:
  "\<exists>c d. edited (Block_ofType 7) [Block_ofValue 8 [65]] (push_back (Block_ofType 7) (Block_ofValue 8 [65]))
     \<and> encode (push_back (Block_ofType 7) (Block_ofValue 8 [65])) = (None, c) \<and> wire_bytes c = [7, 3, 8, 1, 65]
     \<and> Block_erase 0 (push_back (Block_ofType 7) (Block_ofValue 8 [65])) = Inr d \<and> m_subBlocks d = []"
proof -
  let ?s = "Block_ofValue 8 [65]"
  let ?b = "push_back (Block_ofType 7) ?s"
  have a: "wf_block ?s" by (rule wf_block_leaf) (simp_all add: Block_ofValue_def wf_defs block_defs tlv_bytes_def chunk_def)
  have b: "wf_block (Block_ofType 7)" by (rule wf_block_leaf) (simp_all add: Block_ofType_def wf_defs block_defs)
  have bytes: "block_bytes ?s = [8, 1, 65]" "m_subBlocks (Block_ofType 7) = []" "m_type (Block_ofType 7) = 7"
    by (simp_all add: Block_ofValue_def Block_ofType_def block_defs chunk_def tlv_bytes_def writeVarNumber_def)
  have e: "edited (Block_ofType 7) [?s] ?b"
    using block_operations_wf [OF b a, of "[]" "[]" "[]"] bytes by simp
  have "complete_elements ?b"
    using a bytes by (simp add: push_back_def complete_elements_def Block_ofType_def) (simp add: Block_ofValue_def hasValue_def)
  with e obtain c where "encode ?b = (None, c)" "wire_bytes c = [7, 3, 8, 1, 65]"
    using bytes by (auto simp: edited_def tlv_bytes_def writeVarNumber_def)
  moreover from e have "wf_block ?b" "m_subBlocks ?b = [] @ [?s] @ []" by (simp_all add: edited_def)
  then obtain d where "Block_erase 0 ?b = Inr d" "m_subBlocks d = []"
    using block_operations_wf [OF _ a, of ?b "[]" "[?s]" "[]"] by (auto simp: edited_def)
  ultimately show ?thesis using e by blast
qed

text \<open>
  Parsing decodes exactly the elements that were concatenated: if the value of a block
  is the concatenation of the TLV encodings of \<open>es\<close>, then \<open>parse()\<close> does not throw and the
  types and values of the elements are \<open>es\<close>, in order.
\<close>

theorem parse_concatenation:
  assumes "iterators_ok b" "hasValue b" "m_subBlocks b = []" "length (value_bytes b) < 2 ^ 64"
    and "value_bytes b = concat (map (\<lambda>(t, v). tlv_bytes t v) es)"
  shows "fst (parse b) = None \<and> map type_value (m_subBlocks (snd (parse b))) = es"
  using assms by (rule parse_complete)

theorem parse_concatenation_witness:
  "fst (parse (Block_ofValue 7 [8, 1, 65, 8, 0])) = None
   \<and> map type_value (m_subBlocks (snd (parse (Block_ofValue 7 [8, 1, 65, 8, 0]))))
     = [(8, [65]), (8, [])]"
  by (rule parse_concatenation)
    (simp_all add: Block_ofValue_def iterators_ok_def block_defs chunk_def tlv_bytes_def
      writeVarNumber_def)

text \<open>
  Parsing loses and invents no bytes: after a successful \<open>parse()\<close> of a well-formed
  block, the wires of the elements are well-formed and concatenate to the value.
\<close>

theorem parse_partitions_value:
  assumes "wf_block b" and "fst (parse b) = None" and "m_subBlocks b = []"
  shows "concat (map block_bytes (m_subBlocks (snd (parse b)))) = value_bytes b
         \<and> (\<forall>s \<in> set (m_subBlocks (snd (parse b))). wf_block s \<and> hasWire s)"
  using assms by (rule parse_elements)

theorem parse_partitions_value_witness:
  "concat (map block_bytes (m_subBlocks (snd (parse (Block_ofValue 7 [8, 1, 65])))))
   = value_bytes (Block_ofValue 7 [8, 1, 65])"
proof -
  have a: "wf_block (Block_ofValue 7 [8, 1, 65])"
    by (rule wf_block_leaf) (simp_all add: Block_ofValue_def wf_defs block_defs tlv_bytes_def
        chunk_def)
  have "fst (parse (Block_ofValue 7 [8, 1, 65])) = None"
    by code_simp
  then show ?thesis using parse_partitions_value [OF a] by (simp add: Block_ofValue_def)
qed

text \<open>
  \<open>parse()\<close> is not exception-safe: a read error inside the loop leaves the elements
  decoded so far in the object (only the length check clears them), and because they are
  not empty the next \<open>parse()\<close> returns at once without an error.
\<close>

theorem parse_retry_hides_error:
  "\<exists>b. wf_block b
     \<and> fst (parse b) = Some (TlvError ''Empty buffer during TLV processing'')
     \<and> fst (parse (snd (parse b))) = None
     \<and> concat (map block_bytes (m_subBlocks (snd (parse (snd (parse b)))))) \<noteq> value_bytes b"
proof (intro exI conjI)
  let ?b = "Block_ofValue 7 [8, 0, 8]"
  show "wf_block ?b"
    by (rule wf_block_leaf) (simp_all add: Block_ofValue_def wf_defs block_defs tlv_bytes_def
        chunk_def)
  show "fst (parse ?b) = Some (TlvError ''Empty buffer during TLV processing'')"
    by code_simp
  show "fst (parse (snd (parse ?b))) = None" by code_simp
  show "concat (map block_bytes (m_subBlocks (snd (parse (snd (parse ?b)))))) \<noteq> value_bytes ?b"
    by code_simp
qed

text \<open>
  \<open>encode()\<close> of a block without a wire, all of whose elements have a wire or a value
  and are smaller than \<open>2 ^ 32\<close> bytes, does not throw and gives the block the wire
  type-length-value, whose value is the old value or the concatenated encodings of the
  elements; the result is well-formed.
\<close>

theorem encode_writes_tlv:
  assumes "wf_block b" "\<not> hasWire b" "complete_elements b"
  shows "\<exists>b'. encode b = (None, b') \<and> hasWire b' \<and> wf_block b' \<and> m_type b' = m_type b
           \<and> wire_bytes b' = tlv_bytes (m_type b) (encoded_value b)
           \<and> value_bytes b' = encoded_value b \<and> m_subBlocks b' = m_subBlocks b"
  using assms by (rule encode_complete)

theorem encode_writes_tlv_witness:
  "\<exists>b'. encode (push_back (Block_ofType 7) (Block_ofValue 8 [65])) = (None, b')
      \<and> wire_bytes b' = [7, 3, 8, 1, 65]"
proof -
  let ?s = "Block_ofValue 8 [65]"
  let ?b = "push_back (Block_ofType 7) ?s"
  have s: "wf_block ?s"
    by (rule wf_block_leaf) (simp_all add: Block_ofValue_def wf_defs block_defs tlv_bytes_def
        chunk_def)
  have bytes: "block_bytes ?s = [8, 1, 65]"
    by (simp add: Block_ofValue_def block_defs chunk_def tlv_bytes_def writeVarNumber_def)
  have "wf_block ?b" using s by (simp add: push_back_def wf_with_subBlocks_reset Block_ofType_def)
  moreover have "\<not> hasWire ?b" "complete_elements ?b" "encoded_value ?b = [8, 1, 65]" "m_type ?b = 7"
    using s bytes
    by (simp_all add: push_back_def complete_elements_def encoded_value_def Block_ofType_def)
      (simp add: Block_ofValue_def hasValue_def)
  ultimately show ?thesis
    using encode_writes_tlv [of ?b] by (auto simp: tlv_bytes_def writeVarNumber_def)
qed

end
