(* ===== verification/Encoder.thy ===== *)
theory Encoder
  imports Block
begin

text \<open>
  The TLV encoder and the size estimator, after \<open>src/encoding/encoder.{hpp,cpp}\<close>,
  \<open>estimator.{hpp,cpp}\<close> and \<open>encoding-buffer.hpp\<close>.

  \<open>EncodingImpl<TAG>\<close> is a class template that the library instantiates with the encoder
  and with the estimator. Code that is generic in \<open>TAG\<close> is modelled by functions that take
  the record of operations \<open>EncodingImpl\<close> as an argument; the locale \<open>encoding_impl\<close> states
  what such code may rely on, and is interpreted on both instances.

  An array argument \<open>(const uint8_t* array, size_t length)\<close> is the list of bytes
  \<open>[array, array + length)\<close>.
\<close>

section \<open>Encoder\<close>

text \<open>
  \<open>e_overrun\<close> is not a member of the class: it records that a write has left
  \<open>[m_buffer->begin(), m_buffer->end())\<close>, which is undefined behaviour.
\<close>

record encoder =
  e_buffer :: "byte list"
  e_begin :: nat
  e_end :: nat
  e_overrun :: bool

definition Encoder_new :: "nat \<Rightarrow> nat \<Rightarrow> encoder" where
  "Encoder_new totalReserve reserveFromBack =
     (let p = totalReserve - (if reserveFromBack < totalReserve then reserveFromBack else 0)
      in \<lparr>e_buffer = replicate totalReserve 0, e_begin = p, e_end = p, e_overrun = False\<rparr>)"

definition Encoder_ofBlock :: "block \<Rightarrow> encoder result" where
  "Encoder_ofBlock block =
     (case m_buffer block of
        None \<Rightarrow> Inl (UndefinedBehaviour ''null m_buffer'')
      | Some buf \<Rightarrow>
          bindE (Block_begin block) (\<lambda>i.
          bindE (Block_end block) (\<lambda>j.
            Inr \<lparr>e_buffer = buf, e_begin = i, e_end = j, e_overrun = False\<rparr>)))"

definition reserve :: "nat \<Rightarrow> bool \<Rightarrow> encoder \<Rightarrow> encoder" where
  "reserve sz addInFront e =
     (let oldSize = length (e_buffer e);
          sz = (if sz < oldSize then oldSize else sz)
      in if addInFront then
           (let diffEnd = oldSize - e_end e;
                diffBegin = oldSize - e_begin e
            in \<lparr>e_buffer = replicate (sz - oldSize) 0 @ e_buffer e,
                e_begin = sz - diffBegin, e_end = sz - diffEnd,
                e_overrun = e_overrun e\<rparr>)
         else
           \<lparr>e_buffer = e_buffer e @ replicate (sz - oldSize) 0,
            e_begin = e_begin e, e_end = e_end e, e_overrun = e_overrun e\<rparr>)"

definition reserveBack :: "nat \<Rightarrow> encoder \<Rightarrow> encoder" where
  "reserveBack sz e =
     (if e_end e + sz > length (e_buffer e)
      then reserve (length (e_buffer e) * 2 + sz) False e else e)"

definition reserveFront :: "nat \<Rightarrow> encoder \<Rightarrow> encoder" where
  "reserveFront sz e =
     (if sz > e_begin e
      then reserve (length (e_buffer e) * 2 + sz) True e else e)"

text \<open>
  \<open>std::copy\<close>, or the assignment of one byte, to the iterator at distance \<open>i\<close> from the start of
  the buffer. The buffer does not grow: a write that is not wholly inside it is an overrun.
\<close>

definition copy_to :: "byte list \<Rightarrow> nat \<Rightarrow> byte list \<Rightarrow> byte list" where
  "copy_to buf i xs = take i buf @ xs @ drop (i + length xs) buf"

definition store :: "int \<Rightarrow> byte list \<Rightarrow> encoder \<Rightarrow> encoder" where
  "store i xs e =
     (if 0 \<le> i \<and> i + int (length xs) \<le> int (length (e_buffer e))
      then e\<lparr>e_buffer := copy_to (e_buffer e) (nat i) xs\<rparr>
      else e\<lparr>e_overrun := True\<rparr>)"

definition prependByte :: "encoder \<Rightarrow> byte \<Rightarrow> nat \<times> encoder" where
  "prependByte e val =
     (let e = reserveFront 1 e;
          i = int (e_begin e) - 1
      in (1, (store i [val] e)\<lparr>e_begin := nat i\<rparr>))"

definition appendByte :: "encoder \<Rightarrow> byte \<Rightarrow> nat \<times> encoder" where
  "appendByte e val =
     (let e = reserveBack 1 e
      in (1, (store (int (e_end e)) [val] e)\<lparr>e_end := e_end e + 1\<rparr>))"

definition prependByteArray :: "encoder \<Rightarrow> byte list \<Rightarrow> nat \<times> encoder" where
  "prependByteArray e array =
     (let e = reserveFront (length array) e;
          i = int (e_begin e) - int (length array)
      in (length array, (store i array e)\<lparr>e_begin := nat i\<rparr>))"

definition appendByteArray :: "encoder \<Rightarrow> byte list \<Rightarrow> nat \<times> encoder" where
  "appendByteArray e array =
     (let e = reserveBack (length array) e
      in (length array, (store (int (e_end e)) array e)\<lparr>e_end := e_end e + length array\<rparr>))"

definition prependRange :: "encoder \<Rightarrow> byte list \<Rightarrow> nat \<times> encoder" where
  "prependRange e rng =
     (let e = reserveFront (length rng) e;
          i = int (e_begin e) - int (length rng)
      in (length rng, (store i rng e)\<lparr>e_begin := nat i\<rparr>))"

definition appendRange :: "encoder \<Rightarrow> byte list \<Rightarrow> nat \<times> encoder" where
  "appendRange e rng =
     (let e = reserveBack (length rng) e
      in (length rng, (store (int (e_end e)) rng e)\<lparr>e_end := e_end e + length rng\<rparr>))"

definition prependVarNumber :: "encoder \<Rightarrow> u64 \<Rightarrow> nat \<times> encoder" where
  "prependVarNumber e varNumber =
     (if varNumber < 253 then (1, snd (prependByte e (ucast varNumber)))
      else if varNumber \<le> 0xFFFF then
        (let e = snd (prependByteArray e (be_encode 2 (unat (ucast varNumber :: u16))));
             e = snd (prependByte e 253)
         in (3, e))
      else if varNumber \<le> 0xFFFFFFFF then
        (let e = snd (prependByteArray e (be_encode 4 (unat (ucast varNumber :: u32))));
             e = snd (prependByte e 254)
         in (5, e))
      else
        (let e = snd (prependByteArray e (be_encode 8 (unat varNumber)));
             e = snd (prependByte e 255)
         in (9, e)))"

definition appendVarNumber :: "encoder \<Rightarrow> u64 \<Rightarrow> nat \<times> encoder" where
  "appendVarNumber e varNumber =
     (if varNumber < 253 then (1, snd (appendByte e (ucast varNumber)))
      else if varNumber \<le> 0xFFFF then
        (let e = snd (appendByte e 253);
             e = snd (appendByteArray e (be_encode 2 (unat (ucast varNumber :: u16))))
         in (3, e))
      else if varNumber \<le> 0xFFFFFFFF then
        (let e = snd (appendByte e 254);
             e = snd (appendByteArray e (be_encode 4 (unat (ucast varNumber :: u32))))
         in (5, e))
      else
        (let e = snd (appendByte e 255);
             e = snd (appendByteArray e (be_encode 8 (unat varNumber)))
         in (9, e)))"

definition prependNonNegativeInteger :: "encoder \<Rightarrow> u64 \<Rightarrow> nat \<times> encoder" where
  "prependNonNegativeInteger e varNumber =
     (if varNumber \<le> 0xFF then prependByte e (ucast varNumber)
      else if varNumber \<le> 0xFFFF then
        prependByteArray e (be_encode 2 (unat (ucast varNumber :: u16)))
      else if varNumber \<le> 0xFFFFFFFF then
        prependByteArray e (be_encode 4 (unat (ucast varNumber :: u32)))
      else prependByteArray e (be_encode 8 (unat varNumber)))"

definition appendNonNegativeInteger :: "encoder \<Rightarrow> u64 \<Rightarrow> nat \<times> encoder" where
  "appendNonNegativeInteger e varNumber =
     (if varNumber \<le> 0xFF then appendByte e (ucast varNumber)
      else if varNumber \<le> 0xFFFF then
        appendByteArray e (be_encode 2 (unat (ucast varNumber :: u16)))
      else if varNumber \<le> 0xFFFFFFFF then
        appendByteArray e (be_encode 4 (unat (ucast varNumber :: u32)))
      else appendByteArray e (be_encode 8 (unat varNumber)))"

definition prependByteArrayBlock :: "encoder \<Rightarrow> u32 \<Rightarrow> byte list \<Rightarrow> nat \<times> encoder" where
  "prependByteArrayBlock e type array =
     (let (totalLength, e) = prependByteArray e array;
          (n, e) = prependVarNumber e (of_nat (length array));
          (m, e) = prependVarNumber e (ucast type)
      in (totalLength + n + m, e))"

definition appendByteArrayBlock :: "encoder \<Rightarrow> u32 \<Rightarrow> byte list \<Rightarrow> nat \<times> encoder" where
  "appendByteArrayBlock e type array =
     (let (totalLength, e) = appendVarNumber e (ucast type);
          (n, e) = appendVarNumber e (of_nat (length array));
          (m, e) = appendByteArray e array
      in (totalLength + n + m, e))"

text \<open>\<open>wire()\<close> and \<open>size()\<close> do not throw when there is a wire.\<close>

definition wire_and_size :: "block \<Rightarrow> byte list" where
  "wire_and_size block = take (unat (m_size block)) (drop (m_begin block) (buffer_of block))"

definition prependBlock :: "encoder \<Rightarrow> block \<Rightarrow> nat \<times> encoder" where
  "prependBlock e block =
     (if hasWire block then prependByteArray e (wire_and_size block)
      else prependByteArrayBlock e (m_type block) (value_bytes block))"

definition appendBlock :: "encoder \<Rightarrow> block \<Rightarrow> nat \<times> encoder" where
  "appendBlock e block =
     (if hasWire block then appendByteArray e (wire_and_size block)
      else appendByteArrayBlock e (m_type block) (value_bytes block))"

definition Encoder_size :: "encoder \<Rightarrow> nat" where
  "Encoder_size e = e_end e - e_begin e"

definition capacity :: "encoder \<Rightarrow> nat" where
  "capacity e = length (e_buffer e)"

definition Encoder_block :: "encoder \<Rightarrow> bool \<Rightarrow> block result" where
  "Encoder_block e verifyLength = Block_range (e_buffer e) (e_begin e) (e_end e) verifyLength"

definition Block_ofEncoder :: "encoder \<Rightarrow> block result" where
  "Block_ofEncoder e =
     bindE (readType_throw (chunk (e_buffer e) (e_begin e) (e_end e))) (\<lambda>(type, r1).
     bindE (readVarNumber_throw r1) (\<lambda>(len, r2).
       if len \<noteq> of_nat (length r2)
       then Inl (TlvError ''TLV length doesn't match buffer length'')
       else Inr (Block (Some (e_buffer e)) type (e_begin e) (e_end e)
                   (of_nat (e_end e - e_begin e)) (e_end e - length r2) (e_end e) [])))"

section \<open>Estimator\<close>

definition est_prependByte :: "byte \<Rightarrow> nat" where
  "est_prependByte val = 1"

definition est_prependByteArray :: "byte list \<Rightarrow> nat" where
  "est_prependByteArray array = length array"

definition est_prependRange :: "byte list \<Rightarrow> nat" where
  "est_prependRange rng = length rng"

definition est_prependVarNumber :: "u64 \<Rightarrow> nat" where
  "est_prependVarNumber varNumber =
     (if varNumber < 253 then 1
      else if varNumber \<le> 0xFFFF then 3
      else if varNumber \<le> 0xFFFFFFFF then 5
      else 9)"

definition est_prependNonNegativeInteger :: "u64 \<Rightarrow> nat" where
  "est_prependNonNegativeInteger varNumber =
     (if varNumber \<le> 0xFF then 1
      else if varNumber \<le> 0xFFFF then 2
      else if varNumber \<le> 0xFFFFFFFF then 4
      else 8)"

definition est_prependByteArrayBlock :: "u32 \<Rightarrow> byte list \<Rightarrow> nat" where
  "est_prependByteArrayBlock type array =
     (let totalLength = length array;
          totalLength = totalLength + est_prependVarNumber (of_nat (length array));
          totalLength = totalLength + est_prependVarNumber (ucast type)
      in totalLength)"

definition est_prependBlock :: "block \<Rightarrow> nat" where
  "est_prependBlock block =
     (if hasWire block then unat (m_size block)
      else est_prependByteArrayBlock (m_type block) (value_bytes block))"

definition est_appendByte :: "byte \<Rightarrow> nat" where
  "est_appendByte val = 1"

definition est_appendByteArray :: "byte list \<Rightarrow> nat" where
  "est_appendByteArray array = est_prependByteArray array"

definition est_appendRange :: "byte list \<Rightarrow> nat" where
  "est_appendRange rng = est_prependRange rng"

definition est_appendVarNumber :: "u64 \<Rightarrow> nat" where
  "est_appendVarNumber varNumber = est_prependVarNumber varNumber"

definition est_appendNonNegativeInteger :: "u64 \<Rightarrow> nat" where
  "est_appendNonNegativeInteger varNumber = est_prependNonNegativeInteger varNumber"

definition est_appendByteArrayBlock :: "u32 \<Rightarrow> byte list \<Rightarrow> nat" where
  "est_appendByteArrayBlock type array = est_prependByteArrayBlock type array"

definition est_appendBlock :: "block \<Rightarrow> nat" where
  "est_appendBlock block = est_prependBlock block"

section \<open>EncodingImpl\<close>

record 'e EncodingImpl =
  op_prependByte :: "'e \<Rightarrow> byte \<Rightarrow> nat \<times> 'e"
  op_prependByteArray :: "'e \<Rightarrow> byte list \<Rightarrow> nat \<times> 'e"
  op_prependVarNumber :: "'e \<Rightarrow> u64 \<Rightarrow> nat \<times> 'e"
  op_prependNonNegativeInteger :: "'e \<Rightarrow> u64 \<Rightarrow> nat \<times> 'e"
  op_prependByteArrayBlock :: "'e \<Rightarrow> u32 \<Rightarrow> byte list \<Rightarrow> nat \<times> 'e"
  op_prependBlock :: "'e \<Rightarrow> block \<Rightarrow> nat \<times> 'e"
  op_appendBlock :: "'e \<Rightarrow> block \<Rightarrow> nat \<times> 'e"

definition EncodingBuffer :: "encoder EncodingImpl" where
  "EncodingBuffer =
     \<lparr>op_prependByte = prependByte,
      op_prependByteArray = prependByteArray,
      op_prependVarNumber = prependVarNumber,
      op_prependNonNegativeInteger = prependNonNegativeInteger,
      op_prependByteArrayBlock = prependByteArrayBlock,
      op_prependBlock = prependBlock,
      op_appendBlock = appendBlock\<rparr>"

definition EncodingEstimator :: "unit EncodingImpl" where
  "EncodingEstimator =
     \<lparr>op_prependByte = (\<lambda>e x. (est_prependByte x, e)),
      op_prependByteArray = (\<lambda>e x. (est_prependByteArray x, e)),
      op_prependVarNumber = (\<lambda>e x. (est_prependVarNumber x, e)),
      op_prependNonNegativeInteger = (\<lambda>e x. (est_prependNonNegativeInteger x, e)),
      op_prependByteArrayBlock = (\<lambda>e t x. (est_prependByteArrayBlock t x, e)),
      op_prependBlock = (\<lambda>e x. (est_prependBlock x, e)),
      op_appendBlock = (\<lambda>e x. (est_appendBlock x, e))\<rparr>"

text \<open>
  The body of a generic \<open>wireEncode\<close> is a sequence of statements
  \<open>totalLength += step\<close>, each of which may look at the length so far.
\<close>

type_synonym 'e step = "nat \<Rightarrow> 'e \<Rightarrow> nat \<times> 'e"

definition plus_step :: "'e step \<Rightarrow> nat \<times> 'e \<Rightarrow> nat \<times> 'e" where
  "plus_step f s = (case s of (totalLength, e) \<Rightarrow>
     case f totalLength e of (n, e') \<Rightarrow> (totalLength + n, e'))"

definition run_steps :: "'e step list \<Rightarrow> 'e \<Rightarrow> nat \<times> 'e" where
  "run_steps fs e = fold plus_step fs (0, e)"

section \<open>The contract of an EncodingImpl\<close>

text \<open>
  \<open>emitter emits f bs\<close>: the operation \<open>f\<close> returns the length of \<open>bs\<close> and takes the
  encoder to one that is related to it by \<open>emits _ bs\<close>. The relation \<open>emits e bs e'\<close> says
  what it means for \<open>bs\<close> to have been put in front of what \<open>e\<close> held.
\<close>

definition emitter :: "('e \<Rightarrow> byte list \<Rightarrow> 'e \<Rightarrow> bool) \<Rightarrow> ('e \<Rightarrow> nat \<times> 'e) \<Rightarrow> byte list \<Rightarrow> bool" where
  "emitter emits f bs \<longleftrightarrow> (\<forall>e. fst (f e) = length bs \<and> emits e bs (snd (f e)))"

definition sendable :: "block \<Rightarrow> bool" where
  "sendable b \<longleftrightarrow> wf_block b \<and> length (block_bytes b) < 2 ^ 32"

text \<open>The bytes of a sequence of steps, each given what it emits at a length so far.\<close>

definition steps_bytes :: "(nat \<Rightarrow> byte list) list \<Rightarrow> byte list" where
  "steps_bytes gs = fold (\<lambda>g bs. g (length bs) @ bs) gs []"

locale encoding_impl =
  fixes ops :: "'e EncodingImpl"
    and emits :: "'e \<Rightarrow> byte list \<Rightarrow> 'e \<Rightarrow> bool"
  assumes emits_nil: "emits e [] e"
    and emits_trans: "emits e bs e' \<Longrightarrow> emits e' cs e'' \<Longrightarrow> emits e (cs @ bs) e''"
    and byte: "emitter emits (\<lambda>e. op_prependByte ops e b) [b]"
    and byteArray: "emitter emits (\<lambda>e. op_prependByteArray ops e bs) bs"
    and varNumber: "emitter emits (\<lambda>e. op_prependVarNumber ops e v) (varNumber_bytes v)"
    and nonNegativeInteger:
      "emitter emits (\<lambda>e. op_prependNonNegativeInteger ops e v) (nni_bytes v)"
    and byteArrayBlock:
      "emitter emits (\<lambda>e. op_prependByteArrayBlock ops e t bs) (tlv_bytes t bs)"
    and block:
      "sendable blk \<Longrightarrow> emitter emits (\<lambda>e. op_prependBlock ops e blk) (block_bytes blk)"
begin

lemmas emitter_intros =
  byte byteArray varNumber nonNegativeInteger byteArrayBlock block

lemma plus_steps:
  assumes "list_all2 (\<lambda>f g. \<forall>t. emitter emits (f t) (g t)) fs gs"
    and "emits e bs e'"
  shows "fst (fold plus_step fs (length bs, e'))
           = length (fold (\<lambda>g bs. g (length bs) @ bs) gs bs)
         \<and> emits e (fold (\<lambda>g bs. g (length bs) @ bs) gs bs)
             (snd (fold plus_step fs (length bs, e')))"
  using assms
proof (induction fs gs arbitrary: bs e' rule: list_all2_induct)
  case (Cons f fs g gs)
  define e'' where "e'' = snd (f (length bs) e')"
  have "fst (f (length bs) e') = length (g (length bs))" "emits e' (g (length bs)) e''"
    using Cons.hyps(1) by (auto simp: emitter_def e''_def)
  then have "plus_step f (length bs, e') = (length (g (length bs) @ bs), e'')"
    "emits e (g (length bs) @ bs) e''"
    using Cons.prems emits_trans by (auto simp: plus_step_def e''_def split: prod.splits)
  then show ?case using Cons.IH [of "g (length bs) @ bs" e''] by simp
qed simp

lemma run_steps_emits:
  assumes "list_all2 (\<lambda>f g. \<forall>t. emitter emits (f t) (g t)) fs gs"
  shows "emitter emits (run_steps fs) (steps_bytes gs)"
  unfolding emitter_def run_steps_def steps_bytes_def
  using plus_steps [OF assms emits_nil] by simp

end

text \<open>The append operation that generic code uses, which puts a block behind the contents.\<close>

locale encoding_impl_append = encoding_impl ops emits
  for ops :: "'e EncodingImpl" and emits +
  fixes appends :: "'e \<Rightarrow> byte list \<Rightarrow> 'e \<Rightarrow> bool"
  assumes appends_nil: "appends e [] e"
    and appends_trans: "appends e bs e' \<Longrightarrow> appends e' cs e'' \<Longrightarrow> appends e (bs @ cs) e''"
    and append_block:
      "sendable blk \<Longrightarrow> emitter appends (\<lambda>e. op_appendBlock ops e blk) (block_bytes blk)"

section \<open>The estimator is an EncodingImpl\<close>

definition est_emits :: "unit \<Rightarrow> byte list \<Rightarrow> unit \<Rightarrow> bool" where
  "est_emits e bs e' = True"

lemmas est_append_defs = est_appendByte_def est_appendByteArray_def est_appendRange_def
  est_appendVarNumber_def est_appendNonNegativeInteger_def est_appendByteArrayBlock_def
  est_appendBlock_def

lemmas est_defs = est_prependByte_def est_prependByteArray_def est_prependVarNumber_def
  est_prependNonNegativeInteger_def est_prependByteArrayBlock_def est_prependBlock_def
  est_prependRange_def

lemma est_prependVarNumber_size: "est_prependVarNumber v = sizeOfVarNumber v"
  by (simp add: est_prependVarNumber_def sizeOfVarNumber_def)

lemma est_prependByteArrayBlock_length:
  "est_prependByteArrayBlock t bs = length (tlv_bytes t bs)"
  by (simp add: est_prependByteArrayBlock_def est_prependVarNumber_size)

lemma sendable_size: "sendable b \<Longrightarrow> hasWire b \<Longrightarrow> unat (m_size b) = length (block_bytes b)"
  using Block_size_wf [of b]
  by (auto simp: sendable_def Block_size_def hasWire_def hasValue_def)

lemma est_prependBlock_length: "sendable b \<Longrightarrow> est_prependBlock b = length (block_bytes b)"
  by (simp add: est_prependBlock_def sendable_size est_prependByteArrayBlock_length)
    (simp add: block_bytes_def)

interpretation estimator: encoding_impl EncodingEstimator est_emits
  by unfold_locales
    (simp_all add: EncodingEstimator_def emitter_def est_emits_def est_prependVarNumber_size
      est_prependByteArrayBlock_length est_prependBlock_length,
     simp_all add: est_defs nni_bytes_def)

interpretation estimator_both: encoding_impl_append EncodingEstimator est_emits est_emits
  by unfold_locales (simp_all add: EncodingEstimator_def emitter_def est_emits_def est_appendBlock_def est_prependBlock_length)

section \<open>The encoder is an EncodingImpl\<close>

text \<open>
  The encoder keeps its two iterators in the buffer, and no write has left it; its contents are
  the bytes between the iterators. An operation that finds enough room in front leaves the buffer where it is.
\<close>

definition enc_inv :: "encoder \<Rightarrow> bool" where
  "enc_inv e \<longleftrightarrow> e_begin e \<le> e_end e \<and> e_end e \<le> length (e_buffer e) \<and> \<not> e_overrun e"

definition contents :: "encoder \<Rightarrow> byte list" where
  "contents e = chunk (e_buffer e) (e_begin e) (e_end e)"

definition in_place :: "nat \<Rightarrow> encoder \<Rightarrow> encoder \<Rightarrow> bool" where
  "in_place n e e' \<longleftrightarrow>
     (n \<le> e_begin e \<longrightarrow> length (e_buffer e') = length (e_buffer e)
        \<and> e_begin e' + n = e_begin e \<and> e_end e' = e_end e)"

definition enc_emits :: "encoder \<Rightarrow> byte list \<Rightarrow> encoder \<Rightarrow> bool" where
  "enc_emits e bs e' \<longleftrightarrow>
     (enc_inv e \<longrightarrow> enc_inv e' \<and> contents e' = bs @ contents e \<and> in_place (length bs) e e')"

lemma enc_emits_nil: "enc_emits e [] e"
  by (simp add: enc_emits_def in_place_def)

lemma enc_emits_trans: "enc_emits e bs e' \<Longrightarrow> enc_emits e' cs e'' \<Longrightarrow> enc_emits e (cs @ bs) e''"
  by (auto simp: enc_emits_def in_place_def)

lemma reserve_front_spec:
  assumes "enc_inv e"
  shows "enc_inv (reserve n True e) \<and> contents (reserve n True e) = contents e
         \<and> e_begin (reserve n True e) = e_begin e + (n - length (e_buffer e))
         \<and> length (e_buffer (reserve n True e)) = max n (length (e_buffer e))"
  using assms
  by (auto simp: reserve_def enc_inv_def contents_def Let_def chunk_app_right max_def)

lemma reserve_back_spec:
  assumes "enc_inv e"
  shows "enc_inv (reserve n False e) \<and> contents (reserve n False e) = contents e
         \<and> e_end (reserve n False e) = e_end e \<and> e_begin (reserve n False e) = e_begin e
         \<and> length (e_buffer (reserve n False e)) = max n (length (e_buffer e))"
  using assms
  by (auto simp: reserve_def enc_inv_def contents_def Let_def chunk_app_left max_def)

lemma reserveFront_spec:
  assumes "enc_inv e"
  shows "enc_inv (reserveFront n e) \<and> contents (reserveFront n e) = contents e
         \<and> n \<le> e_begin (reserveFront n e) \<and> (n \<le> e_begin e \<longrightarrow> reserveFront n e = e)"
  using reserve_front_spec [OF assms, of "length (e_buffer e) * 2 + n"] assms
  by (simp add: reserveFront_def)

lemma reserveBack_spec:
  assumes "enc_inv e"
  shows "enc_inv (reserveBack n e) \<and> contents (reserveBack n e) = contents e
         \<and> e_end (reserveBack n e) + n \<le> length (e_buffer (reserveBack n e))"
  using reserve_back_spec [OF assms, of "length (e_buffer e) * 2 + n"] assms
  by (simp add: reserveBack_def enc_inv_def)

lemma store_inside:
  "i + length xs \<le> length (e_buffer e)
     \<Longrightarrow> store (int i) xs e = e\<lparr>e_buffer := copy_to (e_buffer e) i xs\<rparr>"
  by (simp add: store_def)

lemma store_before:
  "length xs \<le> i \<Longrightarrow> i \<le> length (e_buffer e)
     \<Longrightarrow> store (int i - int (length xs)) xs e
         = e\<lparr>e_buffer := copy_to (e_buffer e) (i - length xs) xs\<rparr>"
  by (simp add: store_def nat_diff_distrib)

lemma length_copy_to [simp]: "i + length xs \<le> length buf \<Longrightarrow> length (copy_to buf i xs) = length buf"
  by (simp add: copy_to_def)

lemma chunk_copy_to_front:
  assumes "i + length xs \<le> j" "j \<le> length buf"
  shows "chunk (copy_to buf i xs) i j = xs @ chunk buf (i + length xs) j"
  using assms by (simp add: copy_to_def chunk_def)

lemma chunk_copy_to_back:
  assumes "i \<le> j" "j + length xs \<le> length buf"
  shows "chunk (copy_to buf j xs) i (j + length xs) = chunk buf i j @ xs"
  using assms by (simp add: copy_to_def chunk_def drop_take)

lemma prependByteArray_emits: "emitter enc_emits (\<lambda>e. prependByteArray e bs) bs"
  unfolding emitter_def enc_emits_def
proof (intro allI conjI impI)
  fix e assume inv: "enc_inv e"
  define r where "r = reserveFront (length bs) e"
  have r: "enc_inv r" "contents r = contents e" "length bs \<le> e_begin r"
    "length bs \<le> e_begin e \<longrightarrow> r = e"
    using reserveFront_spec [OF inv, of "length bs"] by (auto simp: r_def)
  define e' where "e' = snd (prependByteArray e bs)"
  have e': "e_buffer e' = copy_to (e_buffer r) (e_begin r - length bs) bs"
    "e_begin e' = e_begin r - length bs" "e_end e' = e_end r"
    "e_overrun e' = e_overrun r"
    using r store_before [of bs "e_begin r" r]
    by (simp_all add: e'_def prependByteArray_def r_def [symmetric] Let_def enc_inv_def nat_diff_distrib)
  show "enc_inv (snd (prependByteArray e bs))"
    using e' r by (auto simp: enc_inv_def simp flip: e'_def)
  show "contents (snd (prependByteArray e bs)) = bs @ contents e"
    using e' r by (simp add: enc_inv_def contents_def chunk_copy_to_front flip: e'_def)
  show "in_place (length bs) e (snd (prependByteArray e bs))"
    using e' r by (auto simp: in_place_def enc_inv_def simp flip: e'_def)
qed (simp add: prependByteArray_def Let_def)

lemma prependByte_ByteArray: "prependByte e b = prependByteArray e [b]"
  by (simp add: prependByte_def prependByteArray_def)

lemma prependRange_ByteArray: "prependRange e bs = prependByteArray e bs"
  by (simp add: prependRange_def prependByteArray_def)

lemma prependByte_emits: "emitter enc_emits (\<lambda>e. prependByte e b) [b]"
  using prependByteArray_emits [of "[b]"] by (simp add: prependByte_ByteArray)

lemma emits_compose:
  assumes "emitter enc_emits f bs" "emitter enc_emits g cs"
  shows "enc_emits e (cs @ bs) (snd (g (snd (f e))))"
  using assms enc_emits_trans unfolding emitter_def by blast

lemma prependVarNumber_emits: "emitter enc_emits (\<lambda>e. prependVarNumber e v) (varNumber_bytes v)"
  unfolding emitter_def
proof (intro allI conjI)
  fix e
  show "fst (prependVarNumber e v) = length (varNumber_bytes v)"
    by (simp add: prependVarNumber_def sizeOfVarNumber_def Let_def)
  show "enc_emits e (varNumber_bytes v) (snd (prependVarNumber e v))"
    using emits_compose [OF prependByteArray_emits prependByte_emits]
      prependByte_emits [of "ucast v"]
    by (fastforce simp: prependVarNumber_def writeVarNumber_def Let_def emitter_def)
qed

lemma prependNonNegativeInteger_emits:
  "emitter enc_emits (\<lambda>e. prependNonNegativeInteger e v) (nni_bytes v)"
  using prependByteArray_emits prependByte_emits
  by (simp add: prependNonNegativeInteger_def nni_bytes_def unat_ucast_u16 unat_ucast_u32)

lemma prependByteArrayBlock_emits:
  "emitter enc_emits (\<lambda>e. prependByteArrayBlock e t bs) (tlv_bytes t bs)"
  unfolding emitter_def
proof (intro allI conjI)
  fix e
  define e1 where "e1 = snd (prependByteArray e bs)"
  define e2 where "e2 = snd (prependVarNumber e1 (of_nat (length bs)))"
  define e3 where "e3 = snd (prependVarNumber e2 (ucast t))"
  have 1: "prependByteArray e bs = (length bs, e1)" "enc_emits e bs e1"
    using prependByteArray_emits [of bs] by (auto simp: emitter_def e1_def prod_eq_iff)
  have 2: "prependVarNumber e1 (of_nat (length bs)) = (sizeOfVarNumber (of_nat (length bs)), e2)"
    "enc_emits e1 (varNumber_bytes (of_nat (length bs))) e2"
    using prependVarNumber_emits [of "of_nat (length bs)"]
    by (auto simp: emitter_def e2_def prod_eq_iff)
  have 3: "prependVarNumber e2 (ucast t) = (sizeOfVarNumber (ucast t), e3)"
    "enc_emits e2 (varNumber_bytes (ucast t)) e3"
    using prependVarNumber_emits [of "ucast t"] by (auto simp: emitter_def e3_def prod_eq_iff)
  show "fst (prependByteArrayBlock e t bs) = length (tlv_bytes t bs)"
    using 1 2 3 by (simp add: prependByteArrayBlock_def)
  show "enc_emits e (tlv_bytes t bs) (snd (prependByteArrayBlock e t bs))"
    using enc_emits_trans [OF enc_emits_trans [OF 1(2) 2(2)] 3(2)] 1 2 3
    by (simp add: prependByteArrayBlock_def tlv_bytes_def)
qed

lemma wire_and_size_bytes:
  assumes "sendable b" "hasWire b"
  shows "wire_and_size b = block_bytes b"
proof -
  have it: "iterators_ok b" using assms wf_block_iff [of b] by (simp add: sendable_def)
  then have "unat (m_size b) = m_end b - m_begin b"
    using sendable_size [OF assms] assms(2)
    by (auto simp: block_bytes_def wire_bytes_def iterators_ok_def hasWire_def hasValue_def)
  then show ?thesis
    using assms(2) by (simp add: wire_and_size_def block_bytes_def wire_bytes_def chunk_def)
qed

lemma prependBlock_emits:
  "sendable b \<Longrightarrow> emitter enc_emits (\<lambda>e. prependBlock e b) (block_bytes b)"
  using prependByteArray_emits [of "block_bytes b"]
    prependByteArrayBlock_emits [of "m_type b" "value_bytes b"] wire_and_size_bytes [of b]
  by (cases "hasWire b") (simp_all add: prependBlock_def block_bytes_def)

interpretation encoder: encoding_impl EncodingBuffer enc_emits
  by unfold_locales
    (simp_all add: EncodingBuffer_def enc_emits_nil enc_emits_trans prependByte_emits
      prependByteArray_emits prependVarNumber_emits prependNonNegativeInteger_emits
      prependByteArrayBlock_emits prependBlock_emits)

section \<open>Appending\<close>

definition enc_appends :: "encoder \<Rightarrow> byte list \<Rightarrow> encoder \<Rightarrow> bool" where
  "enc_appends e bs e' \<longleftrightarrow> (enc_inv e \<longrightarrow> enc_inv e' \<and> contents e' = contents e @ bs)"

lemma enc_appends_trans:
  "enc_appends e bs e' \<Longrightarrow> enc_appends e' cs e'' \<Longrightarrow> enc_appends e (bs @ cs) e''"
  by (auto simp: enc_appends_def)

lemma appendByteArray_appends: "emitter enc_appends (\<lambda>e. appendByteArray e bs) bs"
  unfolding emitter_def enc_appends_def
proof (intro allI conjI impI)
  fix e assume inv: "enc_inv e"
  define r where "r = reserveBack (length bs) e"
  have r: "enc_inv r" "contents r = contents e" "e_end r + length bs \<le> length (e_buffer r)"
    using reserveBack_spec [OF inv, of "length bs"] by (auto simp: r_def)
  define e' where "e' = snd (appendByteArray e bs)"
  have e': "e_buffer e' = copy_to (e_buffer r) (e_end r) bs" "e_begin e' = e_begin r"
    "e_end e' = e_end r + length bs" "e_overrun e' = e_overrun r"
    using store_inside [OF r(3)]
    by (simp_all add: e'_def appendByteArray_def r_def [symmetric] Let_def)
  show "enc_inv (snd (appendByteArray e bs))"
    using e' r by (auto simp: enc_inv_def simp flip: e'_def)
  show "contents (snd (appendByteArray e bs)) = contents e @ bs"
    using e' r by (simp add: enc_inv_def contents_def chunk_copy_to_back flip: e'_def)
qed (simp add: appendByteArray_def Let_def)

lemma appendByte_ByteArray: "appendByte e b = appendByteArray e [b]"
  by (simp add: appendByte_def appendByteArray_def)

lemma appendRange_ByteArray: "appendRange e bs = appendByteArray e bs"
  by (simp add: appendRange_def appendByteArray_def)

lemma appendByte_appends: "emitter enc_appends (\<lambda>e. appendByte e b) [b]"
  using appendByteArray_appends [of "[b]"] by (simp add: appendByte_ByteArray)

lemma appends_compose:
  assumes "emitter enc_appends f bs" "emitter enc_appends g cs"
  shows "enc_appends e (bs @ cs) (snd (g (snd (f e))))"
  using assms enc_appends_trans unfolding emitter_def by blast

lemma appendVarNumber_appends: "emitter enc_appends (\<lambda>e. appendVarNumber e v) (varNumber_bytes v)"
  unfolding emitter_def
proof (intro allI conjI)
  fix e
  show "fst (appendVarNumber e v) = length (varNumber_bytes v)"
    by (simp add: appendVarNumber_def sizeOfVarNumber_def Let_def)
  show "enc_appends e (varNumber_bytes v) (snd (appendVarNumber e v))"
    using appends_compose [OF appendByte_appends appendByteArray_appends]
      appendByte_appends [of "ucast v"]
    by (fastforce simp: appendVarNumber_def writeVarNumber_def Let_def emitter_def)
qed

lemma appendNonNegativeInteger_appends:
  "emitter enc_appends (\<lambda>e. appendNonNegativeInteger e v) (nni_bytes v)"
  using appendByteArray_appends appendByte_appends
  by (simp add: appendNonNegativeInteger_def nni_bytes_def unat_ucast_u16 unat_ucast_u32)

lemma appendByteArrayBlock_appends:
  "emitter enc_appends (\<lambda>e. appendByteArrayBlock e t bs) (tlv_bytes t bs)"
  unfolding emitter_def
proof (intro allI conjI)
  fix e
  define e1 where "e1 = snd (appendVarNumber e (ucast t))"
  define e2 where "e2 = snd (appendVarNumber e1 (of_nat (length bs)))"
  define e3 where "e3 = snd (appendByteArray e2 bs)"
  have 1: "appendVarNumber e (ucast t) = (sizeOfVarNumber (ucast t), e1)"
    "enc_appends e (varNumber_bytes (ucast t)) e1"
    using appendVarNumber_appends [of "ucast t"] by (auto simp: emitter_def e1_def prod_eq_iff)
  have 2: "appendVarNumber e1 (of_nat (length bs)) = (sizeOfVarNumber (of_nat (length bs)), e2)"
    "enc_appends e1 (varNumber_bytes (of_nat (length bs))) e2"
    using appendVarNumber_appends [of "of_nat (length bs)"]
    by (auto simp: emitter_def e2_def prod_eq_iff)
  have 3: "appendByteArray e2 bs = (length bs, e3)" "enc_appends e2 bs e3"
    using appendByteArray_appends [of bs] by (auto simp: emitter_def e3_def prod_eq_iff)
  show "fst (appendByteArrayBlock e t bs) = length (tlv_bytes t bs)"
    using 1 2 3 by (simp add: appendByteArrayBlock_def)
  show "enc_appends e (tlv_bytes t bs) (snd (appendByteArrayBlock e t bs))"
    using enc_appends_trans [OF enc_appends_trans [OF 1(2) 2(2)] 3(2)] 1 2 3
    by (simp add: appendByteArrayBlock_def tlv_bytes_def)
qed

lemma appendBlock_appends:
  "sendable b \<Longrightarrow> emitter enc_appends (\<lambda>e. appendBlock e b) (block_bytes b)"
  using appendByteArray_appends [of "block_bytes b"]
    appendByteArrayBlock_appends [of "m_type b" "value_bytes b"] wire_and_size_bytes [of b]
  by (cases "hasWire b") (simp_all add: appendBlock_def block_bytes_def)

interpretation encoder_both: encoding_impl_append EncodingBuffer enc_emits enc_appends
  by unfold_locales (simp add: enc_appends_def, rule enc_appends_trans, simp_all add: EncodingBuffer_def appendBlock_appends)

lemma Block_ofEncoder_block: "Block_ofEncoder e = Encoder_block e True"
  by (simp add: Block_ofEncoder_def Encoder_block_def Block_range_def)

section \<open>An encoder of the estimated size\<close>

text \<open>The block made by prepending a whole element to an encoder of exactly its size.\<close>

definition tlv_block :: "u32 \<Rightarrow> byte list \<Rightarrow> block" where
  "tlv_block t v =
     Block_parts (tlv_bytes t v) t 0 (length (tlv_bytes t v))
       (length (tlv_bytes t v) - length v) (length (tlv_bytes t v))"

lemma tlv_block_simps [simp]:
  "m_type (tlv_block t v) = t" "m_subBlocks (tlv_block t v) = []"
  "hasWire (tlv_block t v)" "hasValue (tlv_block t v)"
  "wire_bytes (tlv_block t v) = tlv_bytes t v" "value_bytes (tlv_block t v) = v"
  "block_bytes (tlv_block t v) = tlv_bytes t v"
  "wf_block (tlv_block t v)" "buffer_of (tlv_block t v) = tlv_bytes t v"
  "type_value (tlv_block t v) = (t, v)"
proof -
  have "readHeader (chunk (tlv_bytes t v) 0 (length (tlv_bytes t v))) = Inr (t, of_nat (length v), v)"
    using readHeader_tlv_bytes [of t v "[]"] by (simp del: length_tlv_bytes)
  from Block_rest_wf [OF this order_refl]
  show "m_type (tlv_block t v) = t" "m_subBlocks (tlv_block t v) = []"
    "hasWire (tlv_block t v)" "hasValue (tlv_block t v)"
    "wire_bytes (tlv_block t v) = tlv_bytes t v" "value_bytes (tlv_block t v) = v"
    "block_bytes (tlv_block t v) = tlv_bytes t v"
    "wf_block (tlv_block t v)" "buffer_of (tlv_block t v) = tlv_bytes t v"
    "type_value (tlv_block t v) = (t, v)"
    by (simp_all add: tlv_block_def block_bytes_def type_value_def del: length_tlv_bytes)
qed

lemma value_size_tlv_block [simp]: "value_size (tlv_block t v) = length v"
  using value_size_bytes [of "tlv_block t v"] wf_block_iff [of "tlv_block t v"] by simp

lemma exact_encoder:
  assumes "emitter enc_emits f bs"
  defines "e \<equiv> snd (f (Encoder_new (length bs) 0))"
  shows "enc_inv e" "e_begin e = 0" "e_end e = length bs" "e_buffer e = bs"
    "capacity e = length bs" "Encoder_size e = length bs"
proof -
  let ?n = "length bs"
  let ?e = "Encoder_new ?n 0"
  have e: "e_begin ?e = ?n" "e_end ?e = ?n" "length (e_buffer ?e) = ?n" "\<not> e_overrun ?e"
    by (simp_all add: Encoder_new_def Let_def)
  then have "enc_inv ?e" "contents ?e = []" by (simp_all add: enc_inv_def contents_def)
  then have "enc_inv e" "contents e = bs" "in_place ?n ?e e"
    using assms unfolding emitter_def enc_emits_def by auto
  moreover from this have "e_begin e = 0" "e_end e = ?n" "length (e_buffer e) = ?n"
    using e unfolding in_place_def by auto
  moreover from calculation have "e_buffer e = bs"
    unfolding contents_def by (metis chunk_all)
  ultimately show "enc_inv e" "e_begin e = 0" "e_end e = length bs" "e_buffer e = bs"
    "capacity e = length bs" "Encoder_size e = length bs"
    by (simp_all add: capacity_def Encoder_size_def)
qed

lemma Encoder_block_exact:
  assumes "emitter enc_emits f (tlv_bytes t v)"
  shows "Encoder_block (snd (f (Encoder_new (length (tlv_bytes t v)) 0))) True = Inr (tlv_block t v)"
proof -
  have "readHeader (tlv_bytes t v) = Inr (t, of_nat (length v), v)"
    using readHeader_tlv_bytes [of t v "[]"] by simp
  then show ?thesis
    using exact_encoder(2-4) [OF assms] chunk_all [of "tlv_bytes t v"]
    unfolding Encoder_block_def Block_range_Inr tlv_block_def by (intro exI) auto
qed

lemma Encoder_block_contents:
  assumes "enc_inv e" "contents e = tlv_bytes t v"
  shows "\<exists>b. Encoder_block e True = Inr b \<and> wf_block b \<and> hasWire b \<and> type_value b = (t, v)
           \<and> wire_bytes b = tlv_bytes t v \<and> m_subBlocks b = []"
  using assms Block_range_tlv by (simp add: Encoder_block_def enc_inv_def contents_def)

section \<open>Properties\<close>

text \<open>The abstract encoder is the byte string that it holds.\<close>

definition holds_bytes :: "encoder \<Rightarrow> byte list \<Rightarrow> bool" where
  "holds_bytes e bs \<longleftrightarrow> enc_inv e \<and> contents e = bs"

lemma emitter_holds:
  "emitter enc_emits f bs \<Longrightarrow> holds_bytes e c \<Longrightarrow> holds_bytes (snd (f e)) (bs @ c)"
  "emitter enc_appends g bs \<Longrightarrow> holds_bytes e c \<Longrightarrow> holds_bytes (snd (g e)) (c @ bs)"
  by (auto simp: emitter_def enc_emits_def enc_appends_def holds_bytes_def)

lemma holds_bytes_length: "holds_bytes e bs \<Longrightarrow> length (contents e) = length bs"
  by (simp add: holds_bytes_def)

lemma holds_bytes_new: "holds_bytes (Encoder_new n k) []"
  by (simp add: holds_bytes_def Encoder_new_def enc_inv_def contents_def Let_def)

lemma Encoder_ofBlock_holds:
  assumes "wf_block w" "hasWire w"
  shows "\<exists>e. Encoder_ofBlock w = Inr e \<and> holds_bytes e (wire_bytes w)"
proof -
  have "iterators_ok w" using assms wf_block_iff [of w] by simp
  then show ?thesis
    using assms(2)
    by (auto simp: Encoder_ofBlock_def Block_begin_def Block_end_def hasWire_def holds_bytes_def
        enc_inv_def contents_def wire_bytes_def iterators_ok_def hasValue_def buffer_of_def)
qed

lemma prepend_holds:
  assumes "holds_bytes e c"
  shows "holds_bytes (snd (prependByte e x)) (x # c)"
    "holds_bytes (snd (prependByteArray e bs)) (bs @ c)"
    "holds_bytes (snd (prependRange e bs)) (bs @ c)"
    "holds_bytes (snd (prependVarNumber e n)) (varNumber_bytes n @ c)"
    "holds_bytes (snd (prependNonNegativeInteger e n)) (nni_bytes n @ c)"
    "holds_bytes (snd (prependByteArrayBlock e t bs)) (tlv_bytes t bs @ c)"
    "sendable b \<Longrightarrow> holds_bytes (snd (prependBlock e b)) (block_bytes b @ c)"
  using emitter_holds(1) [OF prependByte_emits [of x] assms]
    emitter_holds(1) [OF prependByteArray_emits [of bs] assms]
    emitter_holds(1) [OF prependVarNumber_emits [of n] assms]
    emitter_holds(1) [OF prependNonNegativeInteger_emits [of n] assms]
    emitter_holds(1) [OF prependByteArrayBlock_emits [of t bs] assms]
    emitter_holds(1) [OF prependBlock_emits [of b] assms]
  by (simp_all add: prependRange_ByteArray)

lemma append_holds:
  assumes "holds_bytes e c"
  shows "holds_bytes (snd (appendByte e x)) (c @ [x])"
    "holds_bytes (snd (appendByteArray e bs)) (c @ bs)"
    "holds_bytes (snd (appendRange e bs)) (c @ bs)"
    "holds_bytes (snd (appendVarNumber e n)) (c @ varNumber_bytes n)"
    "holds_bytes (snd (appendNonNegativeInteger e n)) (c @ nni_bytes n)"
    "holds_bytes (snd (appendByteArrayBlock e t bs)) (c @ tlv_bytes t bs)"
    "sendable b \<Longrightarrow> holds_bytes (snd (appendBlock e b)) (c @ block_bytes b)"
  using emitter_holds(2) [OF appendByte_appends [of x] assms]
    emitter_holds(2) [OF appendByteArray_appends [of bs] assms]
    emitter_holds(2) [OF appendVarNumber_appends [of n] assms]
    emitter_holds(2) [OF appendNonNegativeInteger_appends [of n] assms]
    emitter_holds(2) [OF appendByteArrayBlock_appends [of t bs] assms]
    emitter_holds(2) [OF appendBlock_appends [of b] assms]
  by (simp_all add: appendRange_ByteArray)

text \<open>What the operations return is the size of what they emit.\<close>

lemma prepend_sizes:
  "fst (prependByte e x) = 1" "fst (prependByteArray e bs) = length bs"
  "fst (prependRange e bs) = length bs"
  "fst (prependVarNumber e n) = length (varNumber_bytes n)"
  "fst (prependNonNegativeInteger e n) = length (nni_bytes n)"
  "fst (prependByteArrayBlock e t bs) = length (tlv_bytes t bs)"
  "sendable b \<Longrightarrow> fst (prependBlock e b) = length (block_bytes b)"
  using prependByte_emits [of x] prependByteArray_emits [of bs] prependVarNumber_emits [of n]
    prependNonNegativeInteger_emits [of n] prependByteArrayBlock_emits [of t bs]
    prependBlock_emits [of b]
  unfolding emitter_def prependRange_ByteArray by simp_all

lemma append_sizes:
  "fst (appendByte e x) = 1" "fst (appendByteArray e bs) = length bs"
  "fst (appendRange e bs) = length bs"
  "fst (appendVarNumber e n) = length (varNumber_bytes n)"
  "fst (appendNonNegativeInteger e n) = length (nni_bytes n)"
  "fst (appendByteArrayBlock e t bs) = length (tlv_bytes t bs)"
  "sendable b \<Longrightarrow> fst (appendBlock e b) = length (block_bytes b)"
  using appendByte_appends [of x] appendByteArray_appends [of bs] appendVarNumber_appends [of n]
    appendNonNegativeInteger_appends [of n] appendByteArrayBlock_appends [of t bs]
    appendBlock_appends [of b]
  unfolding emitter_def appendRange_ByteArray by simp_all

lemma est_sizes:
  "est_prependByte x = 1" "est_prependByteArray bs = length bs" "est_prependRange bs = length bs"
  "est_prependVarNumber n = length (varNumber_bytes n)"
  "est_prependNonNegativeInteger n = length (nni_bytes n)"
  "est_prependByteArrayBlock t bs = length (tlv_bytes t bs)"
  "sendable b \<Longrightarrow> est_prependBlock b = length (block_bytes b)"
  by (simp_all add: est_prependVarNumber_size est_prependByteArrayBlock_length
      est_prependBlock_length del: length_tlv_bytes)
    (simp_all add: est_defs nni_bytes_def)

text \<open>An operation of the encoder that returns \<open>n\<close>, and puts as many bytes into the buffer.\<close>

definition adds :: "nat \<Rightarrow> encoder \<Rightarrow> nat \<times> encoder \<Rightarrow> bool" where
  "adds n e r \<longleftrightarrow> fst r = n \<and> length (contents (snd r)) = length (contents e) + n
     \<and> Encoder_size (snd r) = Encoder_size e + n"

lemma addsI:
  assumes "fst r = n" "holds_bytes e c" "holds_bytes (snd r) c'" "length c' = length c + n"
  shows "adds n e r"
  using assms by (auto simp: adds_def holds_bytes_def Encoder_size_def enc_inv_def contents_def)

text \<open>
  C3. The estimator predicts the encoder: every prepend and append operation of
  \<open>EncodingEstimator\<close> returns the number of bytes that the operation of \<open>EncodingBuffer\<close> with the
  same arguments returns, and this is the number of bytes by which the contents and the \<open>size()\<close> of
  the encoder grow. (A \<open>Block\<close> argument is well formed and shorter than \<open>2 ^ 32\<close> bytes.)
\<close>
theorem estimator_predicts_encoder:
  assumes "enc_inv e" "sendable b"
  shows "adds (est_prependByte x) e (prependByte e x)
    \<and> adds (est_prependByteArray bs) e (prependByteArray e bs)
    \<and> adds (est_prependRange bs) e (prependRange e bs)
    \<and> adds (est_prependVarNumber n) e (prependVarNumber e n)
    \<and> adds (est_prependNonNegativeInteger n) e (prependNonNegativeInteger e n)
    \<and> adds (est_prependByteArrayBlock t bs) e (prependByteArrayBlock e t bs)
    \<and> adds (est_prependBlock b) e (prependBlock e b)
    \<and> adds (est_appendByte x) e (appendByte e x)
    \<and> adds (est_appendByteArray bs) e (appendByteArray e bs)
    \<and> adds (est_appendRange bs) e (appendRange e bs)
    \<and> adds (est_appendVarNumber n) e (appendVarNumber e n)
    \<and> adds (est_appendNonNegativeInteger n) e (appendNonNegativeInteger e n)
    \<and> adds (est_appendByteArrayBlock t bs) e (appendByteArrayBlock e t bs)
    \<and> adds (est_appendBlock b) e (appendBlock e b)"
proof -
  have e: "holds_bytes e (contents e)" using assms(1) by (simp add: holds_bytes_def)
  note p = prepend_holds [OF e] and a = append_holds [OF e]
  show ?thesis
    unfolding est_append_defs
    by (intro conjI; rule addsI [OF _ e];
        (rule p a p(7) [OF assms(2)] a(7) [OF assms(2)]
          | simp add: prepend_sizes append_sizes est_sizes assms(2) del: length_tlv_bytes))
      (simp_all add: assms(2))
qed

theorem estimator_predicts_encoder_witness:
  "adds 1 (Encoder_new 4 4) (prependNonNegativeInteger (Encoder_new 4 4) 254)"
proof -
  have "enc_inv (Encoder_new 4 4)" by (simp add: Encoder_new_def enc_inv_def Let_def)
  moreover have "sendable (tlv_block 8 [])" by (simp add: sendable_def sizeOfVarNumber_def)
  ultimately show ?thesis
    using estimator_predicts_encoder [of "Encoder_new 4 4" "tlv_block 8 []" 0 "[]" 254 0]
    by (simp add: est_prependNonNegativeInteger_def)
qed

text \<open>
  C2. The encoder implements a byte string that grows at both ends. A new encoder holds the
  empty string, and one made from a block with a wire holds the wire. Whatever room is left, a byte, an array or range of
  bytes, a number, or a TLV element (a \<open>Block\<close> is well formed and shorter than \<open>2 ^ 32\<close> bytes)
  that is prepended or appended ends up right in front of or behind the previous contents; no
  operation writes outside the buffer, and afterwards the iterators are inside it.
\<close>
theorem encoder_refines_bytes:
  assumes "holds_bytes e c" "sendable b" "wf_block w" "hasWire w"
  shows "holds_bytes (Encoder_new k r) []
    \<and> (\<exists>e. Encoder_ofBlock w = Inr e \<and> holds_bytes e (wire_bytes w))
    \<and> holds_bytes (snd (prependByte e x)) (x # c)
    \<and> holds_bytes (snd (appendByte e x)) (c @ [x])
    \<and> holds_bytes (snd (prependByteArray e bs)) (bs @ c)
    \<and> holds_bytes (snd (appendByteArray e bs)) (c @ bs)
    \<and> holds_bytes (snd (prependRange e bs)) (bs @ c)
    \<and> holds_bytes (snd (appendRange e bs)) (c @ bs)
    \<and> holds_bytes (snd (prependVarNumber e n)) (varNumber_bytes n @ c)
    \<and> holds_bytes (snd (appendVarNumber e n)) (c @ varNumber_bytes n)
    \<and> holds_bytes (snd (prependNonNegativeInteger e n)) (nni_bytes n @ c)
    \<and> holds_bytes (snd (appendNonNegativeInteger e n)) (c @ nni_bytes n)
    \<and> holds_bytes (snd (prependByteArrayBlock e t bs)) (tlv_bytes t bs @ c)
    \<and> holds_bytes (snd (appendByteArrayBlock e t bs)) (c @ tlv_bytes t bs)
    \<and> holds_bytes (snd (prependBlock e b)) (block_bytes b @ c)
    \<and> holds_bytes (snd (appendBlock e b)) (c @ block_bytes b)"
  using prepend_holds [OF assms(1)] append_holds [OF assms(1)] holds_bytes_new
    Encoder_ofBlock_holds [OF assms(3,4)] assms(2)
  by (intro conjI) simp_all

theorem encoder_refines_bytes_witness:
  "holds_bytes (snd (appendByteArray (snd (prependByteArray (Encoder_new 1 0) [1, 2, 3])) [4, 5]))
     [1, 2, 3, 4, 5]"
proof -
  have b: "sendable (tlv_block 8 [])" "wf_block (tlv_block 8 [])" "hasWire (tlv_block 8 [])"
    by (simp_all add: sendable_def sizeOfVarNumber_def)
  have "holds_bytes (Encoder_new 1 0) []" by (rule holds_bytes_new)
  then have "holds_bytes (snd (prependByteArray (Encoder_new 1 0) [1, 2, 3])) [1, 2, 3]"
    using encoder_refines_bytes [OF _ b, where bs = "[1, 2, 3]"] by fastforce
  from encoder_refines_bytes [OF this b, where bs = "[4, 5]"] show ?thesis by simp
qed

end
