(* ===== verification/BlockHelpers.thy ===== *)
theory BlockHelpers
  imports Encoder
begin

text \<open>
  Making and reading simple blocks, after \<open>src/encoding/block-helpers.{hpp,cpp}\<close>, and
  \<open>Block::fromStream\<close>, which uses them.

  The helpers generic in the encoder take an \<open>EncodingImpl\<close> record. A generic
  \<open>value.wireEncode(encoder)\<close> is used at both instances, so \<open>makeNestedBlock\<close> takes it
  once for each.
\<close>

definition prependNonNegativeIntegerBlock ::
    "'e EncodingImpl \<Rightarrow> u32 \<Rightarrow> u64 \<Rightarrow> 'e \<Rightarrow> nat \<times> 'e" where
  "prependNonNegativeIntegerBlock ops type val encoder =
     run_steps
       [\<lambda>_ e. op_prependNonNegativeInteger ops e val,
        \<lambda>valueLength e. op_prependVarNumber ops e (of_nat valueLength),
        \<lambda>_ e. op_prependVarNumber ops e (ucast type)] encoder"

definition makeNonNegativeIntegerBlock :: "u32 \<Rightarrow> u64 \<Rightarrow> block result" where
  "makeNonNegativeIntegerBlock type val =
     (let totalLength = fst (prependNonNegativeIntegerBlock EncodingEstimator type val ());
          encoder = Encoder_new totalLength 0;
          encoder = snd (prependNonNegativeIntegerBlock EncodingBuffer type val encoder)
      in Encoder_block encoder True)"

definition block_readNonNegativeInteger :: "block \<Rightarrow> u64 result" where
  "block_readNonNegativeInteger block =
     bindE (readNonNegativeInteger (value_size block) (value_bytes block)) (\<lambda>(v, _). Inr v)"

definition prependEmptyBlock :: "'e EncodingImpl \<Rightarrow> u32 \<Rightarrow> 'e \<Rightarrow> nat \<times> 'e" where
  "prependEmptyBlock ops type encoder =
     run_steps
       [\<lambda>_ e. op_prependVarNumber ops e 0,
        \<lambda>_ e. op_prependVarNumber ops e (ucast type)] encoder"

definition makeEmptyBlock :: "u32 \<Rightarrow> block result" where
  "makeEmptyBlock type =
     (let totalLength = fst (prependEmptyBlock EncodingEstimator type ());
          encoder = Encoder_new totalLength 0;
          encoder = snd (prependEmptyBlock EncodingBuffer type encoder)
      in Encoder_block encoder True)"

definition prependStringBlock :: "'e EncodingImpl \<Rightarrow> u32 \<Rightarrow> string \<Rightarrow> 'e \<Rightarrow> nat \<times> 'e" where
  "prependStringBlock ops type val encoder =
     run_steps
       [\<lambda>_ e. op_prependByteArray ops e (map byte_of_char val),
        \<lambda>valueLength e. op_prependVarNumber ops e (of_nat valueLength),
        \<lambda>_ e. op_prependVarNumber ops e (ucast type)] encoder"

definition makeStringBlock :: "u32 \<Rightarrow> string \<Rightarrow> block result" where
  "makeStringBlock type val =
     (let totalLength = fst (prependStringBlock EncodingEstimator type val ());
          encoder = Encoder_new totalLength 0;
          encoder = snd (prependStringBlock EncodingBuffer type val encoder)
      in Encoder_block encoder True)"

definition readString :: "block \<Rightarrow> string" where
  "readString block = map char_of_byte (take (value_size block) (value_bytes block))"

definition makeBinaryBlock :: "u32 \<Rightarrow> byte list \<Rightarrow> block result" where
  "makeBinaryBlock type val =
     (let totalLength = est_prependByteArrayBlock type val;
          encoder = Encoder_new totalLength 0;
          encoder = snd (prependByteArrayBlock encoder type val)
      in Encoder_block encoder True)"

text \<open>\<open>makeBinaryBlock(type, first, last)\<close>, for random-access and for input iterators.\<close>

definition DataBlockFast_makeBlock :: "u32 \<Rightarrow> byte list \<Rightarrow> block result" where
  "DataBlockFast_makeBlock type rng =
     (let valueLength = length rng;
          totalLength = valueLength;
          totalLength = totalLength + est_prependVarNumber (of_nat valueLength);
          totalLength = totalLength + est_prependVarNumber (ucast type);
          encoder = Encoder_new totalLength 0;
          encoder = snd (prependRange encoder rng);
          encoder = snd (prependVarNumber encoder (of_nat valueLength));
          encoder = snd (prependVarNumber encoder (ucast type))
      in Encoder_block encoder True)"

definition DataBlockSlow_makeBlock :: "u32 \<Rightarrow> byte list \<Rightarrow> block result" where
  "DataBlockSlow_makeBlock type rng =
     (let encoder = Encoder_new 4 4;
          (valueLength, encoder) = appendRange encoder rng;
          encoder = snd (prependVarNumber encoder (of_nat valueLength));
          encoder = snd (prependVarNumber encoder (ucast type))
      in Encoder_block encoder True)"

definition prependNestedBlock ::
    "'e EncodingImpl \<Rightarrow> u32 \<Rightarrow> ('e \<Rightarrow> nat \<times> 'e) \<Rightarrow> 'e \<Rightarrow> nat \<times> 'e" where
  "prependNestedBlock ops type wireEncode encoder =
     run_steps
       [\<lambda>_ e. wireEncode e,
        \<lambda>valueLength e. op_prependVarNumber ops e (of_nat valueLength),
        \<lambda>_ e. op_prependVarNumber ops e (ucast type)] encoder"

definition makeNestedBlock ::
    "u32 \<Rightarrow> (unit \<Rightarrow> nat \<times> unit) \<Rightarrow> (encoder \<Rightarrow> nat \<times> encoder) \<Rightarrow> block result" where
  "makeNestedBlock type wireEncode_est wireEncode_enc =
     (let totalLength = fst (prependNestedBlock EncodingEstimator type wireEncode_est ());
          encoder = Encoder_new totalLength 0;
          encoder = snd (prependNestedBlock EncodingBuffer type wireEncode_enc encoder)
      in Encoder_block encoder True)"

section \<open>Reading a block from a stream\<close>

text \<open>
  The throwing readers at \<open>std::istream_iterator\<close>. The iterator holds one byte that it has
  already extracted from the stream, so the range it shows is that byte followed by the
  bytes still in the stream.
\<close>

definition readVarNumber_throw_stream :: "byte list \<Rightarrow> (u64 \<times> byte list) result" where
  "readVarNumber_throw_stream rng =
     (if rng = [] then Inl (TlvError ''Empty buffer during TLV processing'')
      else case readVarNumber_stream rng of
             None \<Rightarrow> Inl (TlvError ''Insufficient data during TLV processing'')
           | Some r \<Rightarrow> Inr r)"

definition readType_throw_stream :: "byte list \<Rightarrow> (u32 \<times> byte list) result" where
  "readType_throw_stream rng =
     bindE (readVarNumber_throw_stream rng) (\<lambda>(type, rest).
       if type > 0xFFFFFFFF then Inl (TlvError ''TLV type code exceeds allowed maximum'')
       else Inr (ucast type, rest))"

definition MAX_SIZE_OF_BLOCK_FROM_STREAM :: nat where
  "MAX_SIZE_OF_BLOCK_FROM_STREAM = MAX_NDN_PACKET_SIZE"

text \<open>
  Returns the block and what is left in the stream. \<open>*begin\<close> at the end of the stream is
  undefined; otherwise it is the first byte of the value, and \<open>is.read\<close> fetches the others.
\<close>

definition fromStream :: "byte list \<Rightarrow> (block \<times> byte list) result" where
  "fromStream is =
     bindE (readType_throw_stream is) (\<lambda>(type, r1).
     bindE (readVarNumber_throw_stream r1) (\<lambda>(len, r2).
       if len = 0 then bindE (makeEmptyBlock type) (\<lambda>b. Inr (b, drop 1 r2))
       else if len > of_nat MAX_SIZE_OF_BLOCK_FROM_STREAM
       then Inl (TlvError ''Length of block from stream is too large'')
       else case r2 of
              [] \<Rightarrow> Inl (UndefinedBehaviour ''dereference of the end-of-stream iterator'')
            | first # stream \<Rightarrow>
                (let got = take (unat len - 1) stream
                 in if len \<noteq> of_nat (length got) + 1
                    then Inl (TlvError ''Not enough data in the buffer to fully parse TLV'')
                    else bindE (makeBinaryBlock type (first # got)) (\<lambda>b.
                           Inr (b, drop (unat len - 1) stream)))))"

section \<open>What the helpers emit\<close>

lemma steps_bytes_simps [simp]:
  "steps_bytes [] = []"
  "steps_bytes (gs @ [g]) = g (length (steps_bytes gs)) @ steps_bytes gs"
  by (simp_all add: steps_bytes_def)

lemma steps_bytes_2: "steps_bytes [f, g] = g (length (f 0)) @ f 0"
  by (simp add: steps_bytes_def)

lemma steps_bytes_3:
  "steps_bytes [f, g, h] = h (length (g (length (f 0)) @ f 0)) @ g (length (f 0)) @ f 0"
  by (simp add: steps_bytes_def)

context encoding_impl
begin

lemma prependNonNegativeIntegerBlock_emits:
  "emitter emits (prependNonNegativeIntegerBlock ops t v) (tlv_bytes t (nni_bytes v))"
proof -
  have "emitter emits (prependNonNegativeIntegerBlock ops t v)
    (steps_bytes [\<lambda>_. nni_bytes v, \<lambda>n. varNumber_bytes (of_nat n), \<lambda>_. varNumber_bytes (ucast t)])"
    unfolding prependNonNegativeIntegerBlock_def
    by (rule run_steps_emits) (simp add: emitter_intros)
  then show ?thesis by (simp add: steps_bytes_3 tlv_bytes_def)
qed

lemma prependEmptyBlock_emits: "emitter emits (prependEmptyBlock ops t) (tlv_bytes t [])"
proof -
  have "emitter emits (prependEmptyBlock ops t)
    (steps_bytes [\<lambda>_. varNumber_bytes 0, \<lambda>_. varNumber_bytes (ucast t)])"
    unfolding prependEmptyBlock_def
    by (rule run_steps_emits) (simp add: emitter_intros)
  then show ?thesis by (simp add: steps_bytes_2 tlv_bytes_def)
qed

lemma prependStringBlock_emits:
  "emitter emits (prependStringBlock ops t s) (tlv_bytes t (map byte_of_char s))"
proof -
  have "emitter emits (prependStringBlock ops t s)
    (steps_bytes [\<lambda>_. map byte_of_char s, \<lambda>n. varNumber_bytes (of_nat n),
       \<lambda>_. varNumber_bytes (ucast t)])"
    unfolding prependStringBlock_def
    by (rule run_steps_emits) (simp add: emitter_intros)
  then show ?thesis by (simp add: steps_bytes_3 tlv_bytes_def)
qed

lemma prependNestedBlock_emits:
  assumes "emitter emits w bs"
  shows "emitter emits (prependNestedBlock ops t w) (tlv_bytes t bs)"
proof -
  have "emitter emits (prependNestedBlock ops t w)
    (steps_bytes [\<lambda>_. bs, \<lambda>n. varNumber_bytes (of_nat n), \<lambda>_. varNumber_bytes (ucast t)])"
    unfolding prependNestedBlock_def
    by (rule run_steps_emits) (simp add: emitter_intros assms)
  then show ?thesis by (simp add: steps_bytes_3 tlv_bytes_def)
qed

end

lemma emitter_length: "emitter emits f bs \<Longrightarrow> fst (f e) = length bs"
  by (simp add: emitter_def)

section \<open>The blocks the helpers make\<close>

lemma makeNonNegativeIntegerBlock_eq [simp]:
  "makeNonNegativeIntegerBlock t v = Inr (tlv_block t (nni_bytes v))"
  using Encoder_block_exact [OF encoder.prependNonNegativeIntegerBlock_emits]
    emitter_length [OF estimator.prependNonNegativeIntegerBlock_emits]
  by (simp add: makeNonNegativeIntegerBlock_def del: length_tlv_bytes)

lemma makeEmptyBlock_eq [simp]: "makeEmptyBlock t = Inr (tlv_block t [])"
  using Encoder_block_exact [OF encoder.prependEmptyBlock_emits]
    emitter_length [OF estimator.prependEmptyBlock_emits]
  by (simp add: makeEmptyBlock_def del: length_tlv_bytes)

lemma makeStringBlock_eq [simp]:
  "makeStringBlock t s = Inr (tlv_block t (map byte_of_char s))"
  using Encoder_block_exact [OF encoder.prependStringBlock_emits]
    emitter_length [OF estimator.prependStringBlock_emits]
  by (simp add: makeStringBlock_def del: length_tlv_bytes)

lemma makeBinaryBlock_eq [simp]: "makeBinaryBlock t v = Inr (tlv_block t v)"
  using Encoder_block_exact [OF prependByteArrayBlock_emits]
  by (simp add: makeBinaryBlock_def est_prependByteArrayBlock_length del: length_tlv_bytes)

lemma makeNestedBlock_eq:
  assumes "emitter est_emits we bs" "emitter enc_emits wb bs"
  shows "makeNestedBlock t we wb = Inr (tlv_block t bs)"
  using Encoder_block_exact [OF encoder.prependNestedBlock_emits [OF assms(2)]]
    emitter_length [OF estimator.prependNestedBlock_emits [OF assms(1)]]
  by (simp add: makeNestedBlock_def del: length_tlv_bytes)

lemma DataBlockFast_eq: "DataBlockFast_makeBlock t bs = makeBinaryBlock t bs"
  by (simp add: DataBlockFast_makeBlock_def makeBinaryBlock_def est_prependByteArrayBlock_def
      prependRange_ByteArray prependByteArrayBlock_def Let_def split_beta
      del: makeBinaryBlock_eq)

lemma DataBlockSlow_makes:
  "\<exists>b. DataBlockSlow_makeBlock t bs = Inr b \<and> wf_block b \<and> hasWire b
     \<and> type_value b = (t, bs) \<and> wire_bytes b = tlv_bytes t bs"
proof -
  define e0 where "e0 = Encoder_new 4 4"
  define e1 where "e1 = snd (appendByteArray e0 bs)"
  define e2 where "e2 = snd (prependVarNumber e1 (of_nat (length bs)))"
  define e3 where "e3 = snd (prependVarNumber e2 (ucast t))"
  have 0: "enc_inv e0" "contents e0 = []"
    by (simp_all add: e0_def Encoder_new_def enc_inv_def contents_def Let_def)
  have 1: "fst (appendByteArray e0 bs) = length bs" "enc_inv e1" "contents e1 = bs"
    using appendByteArray_appends [of bs] 0 by (auto simp: emitter_def enc_appends_def e1_def)
  have 2: "enc_inv e2" "contents e2 = varNumber_bytes (of_nat (length bs)) @ bs"
    using prependVarNumber_emits [of "of_nat (length bs)"] 1
    by (auto simp: emitter_def enc_emits_def e2_def)
  have 3: "enc_inv e3" "contents e3 = tlv_bytes t bs"
    using prependVarNumber_emits [of "ucast t"] 2
    by (auto simp: emitter_def enc_emits_def e3_def tlv_bytes_def)
  have "DataBlockSlow_makeBlock t bs = Encoder_block e3 True"
    using 1(1) by (simp add: DataBlockSlow_makeBlock_def appendRange_ByteArray e3_def e2_def
        e1_def e0_def Let_def split_beta)
  with Encoder_block_contents [OF 3] show ?thesis by auto
qed

section \<open>Streams\<close>

lemma stream_throw_range [simp]:
  "readVarNumber_throw_stream rng = readVarNumber_throw rng"
  "readType_throw_stream rng = readType_throw rng"
  by (simp_all add: readVarNumber_throw_stream_def readVarNumber_throw_def
      readVarNumber_stream_range readType_throw_stream_def readType_throw_def)

lemma fromStream_tlv:
  assumes "v \<noteq> []" "length v \<le> MAX_SIZE_OF_BLOCK_FROM_STREAM"
  shows "fromStream (tlv_bytes t v @ rest) = Inr (tlv_block t v, rest)"
proof -
  have n: "length v < 2 ^ 64" "length v \<le> 8800"
    using assms(2) by (simp_all add: MAX_SIZE_OF_BLOCK_FROM_STREAM_def MAX_NDN_PACKET_SIZE_def)
  then have u: "unat (of_nat (length v) :: u64) = length v" by (simp add: unat_u64_of_nat)
  have "(of_nat (length v) :: u64) \<noteq> 0"
    using u assms(1) by (metis length_0_conv unsigned_0)
  moreover have "\<not> (of_nat (length v) :: u64) > of_nat MAX_SIZE_OF_BLOCK_FROM_STREAM"
    using of_nat_u64_le_iff [of "length v" 8800] n
    by (simp add: MAX_SIZE_OF_BLOCK_FROM_STREAM_def MAX_NDN_PACKET_SIZE_def not_less)
  moreover obtain x xs where v: "v = x # xs" using assms(1) by (cases v) auto
  ultimately show ?thesis using u
    by (simp add: fromStream_def tlv_bytes_def)
qed

section \<open>Properties\<close>

text \<open>
  Round trip of the number and string helpers: what \<open>makeNonNegativeIntegerBlock\<close> and
  \<open>makeStringBlock\<close> build never throws, has the requested type, and reads back as the same
  number and the same bytes.
\<close>

theorem helper_blocks_read_back:
  "(\<exists>b. makeNonNegativeIntegerBlock t n = Inr b \<and> wf_block b \<and> m_type b = t
        \<and> block_readNonNegativeInteger b = Inr n)
   \<and> (\<exists>b. makeStringBlock t s = Inr b \<and> wf_block b \<and> m_type b = t \<and> readString b = s)"
proof -
  have "block_readNonNegativeInteger (tlv_block t (nni_bytes n)) = Inr n"
    using readNonNegativeInteger_nni [of n "[]"] by (simp add: block_readNonNegativeInteger_def)
  moreover have "readString (tlv_block t (map byte_of_char s)) = s"
    by (simp add: readString_def comp_def)
  ultimately show ?thesis by simp
qed

text \<open>
  The three ways to make a binary block agree: the pointer version and the
  random-access version build the same block, and the input-iterator version, which grows
  its buffer on demand, builds a block with the same type, value and wire.
\<close>

theorem makeBinaryBlock_variants_agree:
  "DataBlockFast_makeBlock t bs = makeBinaryBlock t bs
   \<and> (\<exists>b b'. makeBinaryBlock t bs = Inr b \<and> DataBlockSlow_makeBlock t bs = Inr b'
        \<and> type_value b' = type_value b \<and> wire_bytes b' = wire_bytes b
        \<and> type_value b = (t, bs) \<and> wire_bytes b = tlv_bytes t bs)"
  using DataBlockSlow_makes [of t bs] by (auto simp: DataBlockFast_eq)

text \<open>
  \<open>Block::fromStream\<close> reads back any element with a non-empty value of at most
  \<open>MAX_SIZE_OF_BLOCK_FROM_STREAM\<close> bytes and leaves the stream right after it.
\<close>

theorem fromStream_reads_element:
  assumes "v \<noteq> []" "length v \<le> MAX_SIZE_OF_BLOCK_FROM_STREAM"
  shows "\<exists>b. fromStream (tlv_bytes t v @ rest) = Inr (b, rest) \<and> wf_block b
           \<and> type_value b = (t, v)"
  using fromStream_tlv [OF assms] by simp

theorem fromStream_reads_element_witness:
  "\<exists>b. fromStream (tlv_bytes 8 [65, 66] @ [9]) = Inr (b, [9]) \<and> wf_block b
     \<and> type_value b = (8, [65, 66])"
  by (rule fromStream_reads_element)
    (simp_all add: MAX_SIZE_OF_BLOCK_FROM_STREAM_def MAX_NDN_PACKET_SIZE_def)

text \<open>
  After an element with an empty value, \<open>Block::fromStream\<close> has extracted one byte too
  many: the look-ahead of the stream iterator is lost, and the first byte of whatever
  follows the element is dropped from the stream.
\<close>

theorem fromStream_empty_value_drops_byte:
  "fromStream (tlv_bytes t [] @ x # rest) = Inr (tlv_block t [], rest)"
  by (simp add: fromStream_def tlv_bytes_def)

text \<open>
  A stream that ends after a header announcing a non-empty value makes
  \<open>Block::fromStream\<close> dereference the end-of-stream iterator before any length check.
\<close>

theorem fromStream_truncated_undefined:
  assumes "0 < n" "n \<le> MAX_SIZE_OF_BLOCK_FROM_STREAM"
  shows "fromStream (tlv_header t n)
         = Inl (UndefinedBehaviour ''dereference of the end-of-stream iterator'')"
proof -
  have n: "n \<le> 8800" using assms(2)
    by (simp add: MAX_SIZE_OF_BLOCK_FROM_STREAM_def MAX_NDN_PACKET_SIZE_def)
  have "unat (of_nat n :: u64) = n" using n by (simp add: unat_u64_of_nat)
  then have "(of_nat n :: u64) \<noteq> 0" using assms(1) by (metis less_irrefl unsigned_0)
  moreover have "\<not> (of_nat n :: u64) > of_nat MAX_SIZE_OF_BLOCK_FROM_STREAM"
    using of_nat_u64_le_iff [of n 8800] n
    by (simp add: MAX_SIZE_OF_BLOCK_FROM_STREAM_def MAX_NDN_PACKET_SIZE_def not_less)
  ultimately show ?thesis by (simp add: fromStream_def)
qed

theorem fromStream_truncated_undefined_witness:
  "fromStream [8, 1] = Inl (UndefinedBehaviour ''dereference of the end-of-stream iterator'')"
  using fromStream_truncated_undefined [of 1 8]
  by (simp add: MAX_SIZE_OF_BLOCK_FROM_STREAM_def MAX_NDN_PACKET_SIZE_def writeVarNumber_def)

end
