(* ===== verification/StringHelper.thy ===== *)
theory StringHelper
  imports Prelude
begin

text \<open>
  Hexadecimal and percent encodings, after \<open>src/util/string-helper.cpp\<close>.

  Two functions are not code of the library: \<open>boost::algorithm::trim\<close> and the
  \<open>HexDecoder\<close> of Crypto++. They are parameters, gathered in the record \<open>ext\<close>; what is
  known of them is stated by \<open>keeps_trimmed\<close> and \<open>decodes_hex\<close> below.
\<close>

record ext =
  boost_trim :: "string \<Rightarrow> string"
  HexDecoder :: "string \<Rightarrow> byte list"

section \<open>Hexadecimal\<close>

text \<open>A digit as \<open>std::hex\<close> prints it, with or without \<open>std::uppercase\<close>.\<close>

definition hexDigit :: "bool \<Rightarrow> nat \<Rightarrow> char" where
  "hexDigit isUpperCase n =
     (if n < 10 then char_of (48 + n)
      else if isUpperCase then char_of (55 + n) else char_of (87 + n))"

text \<open>\<open>os << setw(2) << x\<close> with fill \<open>'0'\<close>, for every byte of the buffer.\<close>

definition printHex :: "byte list \<Rightarrow> bool \<Rightarrow> string" where
  "printHex buffer isUpperCase =
     concat (map (\<lambda>b. [hexDigit isUpperCase (unat b div 16), hexDigit isUpperCase (unat b mod 16)])
       buffer)"

definition toHex :: "byte list \<Rightarrow> bool \<Rightarrow> string" where
  "toHex buffer isUpperCase =
     (if length buffer = 0 then '''' else printHex buffer isUpperCase)"

definition fromHexChar :: "byte \<Rightarrow> int" where
  "fromHexChar c =
     (if c \<ge> 48 \<and> c \<le> 57 then uint c - 48
      else if c \<ge> 65 \<and> c \<le> 70 then uint c - 65 + 10
      else if c \<ge> 97 \<and> c \<le> 102 then uint c - 97 + 10
      else -1)"

definition fromHex :: "ext \<Rightarrow> string \<Rightarrow> byte list result" where
  "fromHex x hexString =
     (if length hexString mod 2 \<noteq> 0
      then Inl (StringHelperError ''Invalid number of characters in the supplied hex string'')
      else let buffer = HexDecoder x hexString
           in if length buffer * 2 \<noteq> length hexString
              then Inl (StringHelperError ''The supplied hex string contains non-hex characters'')
              else Inr buffer)"

section \<open>Trimming and unescaping\<close>

definition trim :: "ext \<Rightarrow> string \<Rightarrow> string" where
  "trim x str = boost_trim x str"

function unescape :: "string \<Rightarrow> string" where
  "unescape [] = []"
| "unescape (c # rest) =
     (if c = CHR ''%'' \<and> 2 \<le> length rest then
        (let hi = fromHexChar (byte_of_char (rest ! 0));
             lo = fromHexChar (byte_of_char (rest ! 1))
         in (if hi < 0 \<or> lo < 0 then [c, rest ! 0, rest ! 1]
             else [char_of (nat (hi * 16 + lo))])
            @ unescape (drop 2 rest))
      else c # unescape rest)"
  by pat_completeness auto
termination
  by (relation "measure length") auto

section \<open>The external functions\<close>

text \<open>
  \<open>boost::algorithm::trim\<close> removes leading and trailing white space (\<open>std::isspace\<close> in the
  classic locale), so it leaves a string that has none as it is. \<open>HexDecoder\<close> inverts the
  hexadecimal encoding, in either case.
\<close>

definition is_space :: "char \<Rightarrow> bool" where
  "is_space c \<longleftrightarrow> of_char c \<in> {9, 10, 11, 12, 13, 32 :: nat}"

definition keeps_trimmed :: "ext \<Rightarrow> bool" where
  "keeps_trimmed x \<longleftrightarrow>
     (\<forall>s. (s \<noteq> [] \<longrightarrow> \<not> is_space (hd s) \<and> \<not> is_space (last s)) \<longrightarrow> boost_trim x s = s)"

definition decodes_hex :: "ext \<Rightarrow> bool" where
  "decodes_hex x \<longleftrightarrow> (\<forall>bs up. HexDecoder x (printHex bs up) = bs)"

section \<open>Facts about single characters\<close>

lemma byte_unat_bound: "unat (b :: byte) < 256"
  using unsigned_less [of b] by simp

lemma byte_of_char_of: "k < 256 \<Longrightarrow> byte_of_char (char_of k) = of_nat k"
  by (simp add: byte_of_char_def)

lemma byte_of_char_of_byte [simp]: "byte_of_char (char_of_byte b) = b"
  using byte_unat_bound [of b] by (simp add: char_of_byte_def byte_of_char_of)

lemma char_of_eq_iff_nat:
  assumes "(k :: nat) < 256"
  shows "char_of k = c \<longleftrightarrow> of_char c = k"
proof
  assume "char_of k = c"
  then have "of_char c = (of_char (char_of k :: char) :: nat)" by simp
  then show "of_char c = k" using assms by simp
next
  assume "of_char c = k"
  then show "char_of k = c" by (metis char_of_char)
qed

lemma fromHexChar_of_nat:
  assumes "k < 256"
  shows "fromHexChar (of_nat k) =
    (if 48 \<le> k \<and> k \<le> 57 then int k - 48
     else if 65 \<le> k \<and> k \<le> 70 then int k - 55
     else if 97 \<le> k \<and> k \<le> 102 then int k - 87 else - 1)"
proof -
  have "unat (of_nat k :: byte) = k" "uint (of_nat k :: byte) = int k"
    using assms by (simp_all add: unat_of_nat uint_nat del: unsigned_of_nat)
  then show ?thesis by (simp add: fromHexChar_def word_le_nat_alt del: unsigned_of_nat)
qed

lemma hexDigit_code:
  assumes "n < 16"
  obtains k where "hexDigit up n = char_of k" "k < 256" "fromHexChar (of_nat k) = int n"
    "48 \<le> k" "k \<le> 102"
proof (cases "n < 10")
  case True
  with that [of "48 + n"] show ?thesis
    by (simp add: hexDigit_def fromHexChar_of_nat del: of_nat_add)
next
  case False
  with assms that [of "if up then 55 + n else 87 + n"] show ?thesis
    by (cases up) (simp_all add: hexDigit_def fromHexChar_of_nat del: of_nat_add)
qed

lemma hexDigit_chars:
  assumes "n < 16"
  shows "fromHexChar (byte_of_char (hexDigit up n)) = int n"
    and "\<not> is_space (hexDigit up n)" and "hexDigit up n \<noteq> CHR ''%''" and "hexDigit up n \<noteq> CHR ''/''"
proof -
  obtain k where k: "hexDigit up n = char_of k" "k < 256" "fromHexChar (of_nat k) = int n"
    "48 \<le> k" "k \<le> 102"
    using hexDigit_code [OF assms] .
  show "fromHexChar (byte_of_char (hexDigit up n)) = int n"
    using k by (simp add: byte_of_char_of)
  show "\<not> is_space (hexDigit up n)" using k by (simp add: is_space_def)
  show "hexDigit up n \<noteq> CHR ''%''" "hexDigit up n \<noteq> CHR ''/''"
    using k by (simp_all add: char_of_eq_iff_nat)
qed

lemma length_printHex [simp]: "length (printHex bs up) = 2 * length bs"
  by (induction bs) (simp_all add: printHex_def)

lemma printHex_Nil_iff [simp]: "printHex bs up = [] \<longleftrightarrow> bs = []"
  by (cases bs) (simp_all add: printHex_def)

lemma fromHex_printHex: "decodes_hex x \<Longrightarrow> fromHex x (printHex bs up) = Inr bs"
  by (simp add: fromHex_def decodes_hex_def Let_def)

text \<open>An escaped byte is three characters that unescape to the byte.\<close>

lemma unescape_escaped:
  "unescape (CHR ''%'' # hexDigit up (unat b div 16) # hexDigit up (unat b mod 16) # rest)
     = char_of_byte b # unescape rest"
proof -
  have b: "unat b < 256" using unsigned_less [of b] by simp
  have "fromHexChar (byte_of_char (hexDigit up (unat b div 16))) = int (unat b div 16)"
    "fromHexChar (byte_of_char (hexDigit up (unat b mod 16))) = int (unat b mod 16)"
    using b by (simp_all add: hexDigit_chars)
  moreover have "int (unat b div 16) * 16 + int (unat b mod 16) = int (unat b)"
    by (metis of_nat_add of_nat_mult of_nat_numeral div_mult_mod_eq)
  ultimately show ?thesis
    by (simp add: Let_def char_of_byte_def numeral_2_eq_2)
qed

lemma unescape_plain: "c \<noteq> CHR ''%'' \<Longrightarrow> unescape (c # rest) = c # unescape rest"
  by simp

text \<open>A concrete pair of external functions with the stated behaviour.\<close>

definition trim_ref :: "string \<Rightarrow> string" where
  "trim_ref s = rev (dropWhile is_space (rev (dropWhile is_space s)))"

fun decode_ref :: "string \<Rightarrow> byte list" where
  "decode_ref (h # l # s) =
     of_int (fromHexChar (byte_of_char h) * 16 + fromHexChar (byte_of_char l)) # decode_ref s"
| "decode_ref _ = []"

definition ext_ref :: ext where
  "ext_ref = \<lparr>boost_trim = trim_ref, HexDecoder = decode_ref\<rparr>"

lemma nibble_bound: "unat (b :: byte) div 16 < 16"
  using byte_unat_bound [of b] by simp

lemma decode_ref_printHex: "decode_ref (printHex bs up) = bs"
proof (induction bs)
  case (Cons b bs)
  have "int (unat b div 16) * 16 + int (unat b mod 16) = uint b"
    by (metis of_nat_add of_nat_mult of_nat_numeral div_mult_mod_eq uint_nat)
  moreover have "decode_ref (printHex (b # bs) up) =
      of_int (int (unat b div 16) * 16 + int (unat b mod 16)) # decode_ref (printHex bs up)"
    by (simp add: printHex_def hexDigit_chars nibble_bound)
  ultimately show ?case using Cons.IH by simp
qed (simp add: printHex_def)

lemma ext_ref_ok: "keeps_trimmed ext_ref" "decodes_hex ext_ref"
proof -
  have "trim_ref s = s" if "s \<noteq> [] \<longrightarrow> \<not> is_space (hd s) \<and> \<not> is_space (last s)" for s
  proof (cases s)
    case (Cons a t)
    with that have "dropWhile is_space s = s" by simp
    moreover have "dropWhile is_space (rev s) = rev s"
      using that Cons by (cases "rev s") (simp_all add: last_rev hd_rev [symmetric] del: last.simps)
    ultimately show ?thesis by (simp add: trim_ref_def)
  qed (simp add: trim_ref_def)
  then show "keeps_trimmed ext_ref" by (simp add: keeps_trimmed_def ext_ref_def)
  show "decodes_hex ext_ref" by (simp add: decodes_hex_def ext_ref_def decode_ref_printHex)
qed

end
