(* ===== verification/NameComponent.thy ===== *)
theory NameComponent
  imports BlockHelpers StringHelper "HOL-Library.List_Lexorder"
    "HOL-Library.Product_Lexorder"
begin

text \<open>
  Name components, after \<open>src/name-component.{hpp,cpp}\<close>.

  \<open>name::Component\<close> derives from \<open>Block\<close> and adds no field, so a component is a
  \<^typ>\<open>block\<close>. Where the source returns a \<open>Block\<close> from a function that returns a
  \<open>Component\<close>, the converting constructor runs and checks the type. A time point is its
  number of microseconds since the Unix epoch (\<open>boost::chrono\<close> is not modelled).
\<close>

section \<open>Constants\<close>

definition SEGMENT_MARKER :: byte where "SEGMENT_MARKER = 0x00"
definition SEGMENT_OFFSET_MARKER :: byte where "SEGMENT_OFFSET_MARKER = 0xFB"
definition VERSION_MARKER :: byte where "VERSION_MARKER = 0xFD"
definition TIMESTAMP_MARKER :: byte where "TIMESTAMP_MARKER = 0xFC"
definition SEQUENCE_NUMBER_MARKER :: byte where "SEQUENCE_NUMBER_MARKER = 0xFE"

definition SHA256_DIGEST_SIZE :: nat where
  "SHA256_DIGEST_SIZE = 32"

definition getSha256DigestUriPrefix :: string where
  "getSha256DigestUriPrefix = ''sha256digest=''"

section \<open>Constructors\<close>

definition isGeneric :: "block \<Rightarrow> bool" where
  "isGeneric c = (m_type c = tlv_NameComponent)"

definition isImplicitSha256Digest :: "block \<Rightarrow> bool" where
  "isImplicitSha256Digest c =
     (m_type c = tlv_ImplicitSha256DigestComponent \<and> value_size c = SHA256_DIGEST_SIZE)"

definition Component_default :: block where
  "Component_default = Block_ofType tlv_NameComponent"

definition Component_ofBlock :: "block \<Rightarrow> block result" where
  "Component_ofBlock wire =
     (if \<not> isGeneric wire \<and> \<not> isImplicitSha256Digest wire
      then Inl (ComponentError (''Cannot construct name::Component from not a NameComponent '' @
                                ''or ImplicitSha256DigestComponent TLV wire block''))
      else Inr wire)"

definition Component_ofBuffer :: "byte list \<Rightarrow> block" where
  "Component_ofBuffer buffer = Block_ofValue tlv_NameComponent buffer"

definition Component_ofBytes :: "byte list \<Rightarrow> block result" where
  "Component_ofBytes val = makeBinaryBlock tlv_NameComponent val"

definition Component_ofString :: "string \<Rightarrow> block result" where
  "Component_ofString str = makeStringBlock tlv_NameComponent str"

definition fromImplicitSha256Digest_buffer :: "byte list \<Rightarrow> block result" where
  "fromImplicitSha256Digest_buffer digest =
     (if length digest \<noteq> SHA256_DIGEST_SIZE
      then Inl (ComponentError (''Cannot create ImplicitSha256DigestComponent (input digest must be ''
                                @ show_nat SHA256_DIGEST_SIZE @ '' octets)''))
      else Component_ofBlock (Block_ofValue tlv_ImplicitSha256DigestComponent digest))"

definition fromImplicitSha256Digest :: "byte list \<Rightarrow> block result" where
  "fromImplicitSha256Digest digest =
     (if length digest \<noteq> SHA256_DIGEST_SIZE
      then Inl (ComponentError (''Cannot create ImplicitSha256DigestComponent (input digest must be ''
                                @ show_nat SHA256_DIGEST_SIZE @ '' octets)''))
      else bindE (makeBinaryBlock tlv_ImplicitSha256DigestComponent digest) Component_ofBlock)"

section \<open>URI representation\<close>

definition fromEscapedString :: "ext \<Rightarrow> string \<Rightarrow> nat \<Rightarrow> nat \<Rightarrow> block result" where
  "fromEscapedString x escapedString beginOffset endOffset =
     (let trimmedString = trim x (chunk escapedString beginOffset endOffset);
          prefixSize = length getSha256DigestUriPrefix
      in if take prefixSize trimmedString = getSha256DigestUriPrefix then
           (if length trimmedString \<noteq> prefixSize + SHA256_DIGEST_SIZE * 2
            then Inl (ComponentError (''Cannot convert to ImplicitSha256DigestComponent'' @
                                      ''(expected sha256 in hex encoding)''))
            else case fromHex x (drop prefixSize trimmedString) of
                   Inl e \<Rightarrow>
                     (case e of
                        StringHelperError _ \<Rightarrow>
                          Inl (ComponentError (''Cannot convert to a ImplicitSha256DigestComponent '' @
                                               ''(invalid hex encoding)''))
                      | _ \<Rightarrow> Inl e)
                 | Inr digest \<Rightarrow> fromImplicitSha256Digest_buffer digest)
         else
           (let val = unescape trimmedString
            in if list_all (\<lambda>c. c = CHR ''.'') val then
                 (if length val \<le> 2
                  then Inl (ComponentError ''Illegal URI (name component cannot be . or ..)'')
                  else Component_ofBytes (map byte_of_char (drop 3 val)))
               else Component_ofBytes (map byte_of_char val)))"

text \<open>The characters that \<open>toUri\<close> copies: 0-9, A-Z, a-z, and \<open>+ - . _\<close>.\<close>

definition unreserved :: "byte \<Rightarrow> bool" where
  "unreserved x \<longleftrightarrow>
     (x \<ge> 0x30 \<and> x \<le> 0x39) \<or> (x \<ge> 0x41 \<and> x \<le> 0x5a) \<or>
     (x \<ge> 0x61 \<and> x \<le> 0x7a) \<or> x = 0x2b \<or> x = 0x2d \<or>
     x = 0x2e \<or> x = 0x5f"

text \<open>\<open>'%'\<close>, a \<open>'0'\<close> when \<open>x < 16\<close>, and \<open>x\<close> in upper-case hexadecimal.\<close>

definition escape :: "byte \<Rightarrow> string" where
  "escape x =
     (if unreserved x then [char_of_byte x]
      else CHR ''%'' #
             (if x < 16 then [CHR ''0'', hexDigit True (unat x)]
              else [hexDigit True (unat x div 16), hexDigit True (unat x mod 16)]))"

definition Component_toUri :: "block \<Rightarrow> string" where
  "Component_toUri c =
     (if m_type c = tlv_ImplicitSha256DigestComponent then
        getSha256DigestUriPrefix @ printHex (value_bytes c) False
      else
        (let val = value_bytes c;
             gotNonDot = list_ex (\<lambda>b. b \<noteq> 0x2e) val
         in if \<not> gotNonDot then ''...'' @ replicate (length val) CHR ''.''
            else concat (map escape val)))"

section \<open>Numbers\<close>

definition Component_empty :: "block \<Rightarrow> bool" where
  "Component_empty c = (\<not> hasValue c \<or> value_size c = 0)"

definition isNumber :: "block \<Rightarrow> bool" where
  "isNumber c \<longleftrightarrow> value_size c = 1 \<or> value_size c = 2 \<or> value_size c = 4 \<or> value_size c = 8"

definition isNumberWithMarker :: "block \<Rightarrow> byte \<Rightarrow> bool" where
  "isNumberWithMarker c marker \<longleftrightarrow>
     \<not> Component_empty c \<and> value_bytes c ! 0 = marker \<and>
     (value_size c = 2 \<or> value_size c = 3 \<or> value_size c = 5 \<or> value_size c = 9)"

definition isVersion :: "block \<Rightarrow> bool" where
  "isVersion c = isNumberWithMarker c VERSION_MARKER"
definition isSegment :: "block \<Rightarrow> bool" where
  "isSegment c = isNumberWithMarker c SEGMENT_MARKER"
definition isSegmentOffset :: "block \<Rightarrow> bool" where
  "isSegmentOffset c = isNumberWithMarker c SEGMENT_OFFSET_MARKER"
definition isTimestamp :: "block \<Rightarrow> bool" where
  "isTimestamp c = isNumberWithMarker c TIMESTAMP_MARKER"
definition isSequenceNumber :: "block \<Rightarrow> bool" where
  "isSequenceNumber c = isNumberWithMarker c SEQUENCE_NUMBER_MARKER"

definition toNumber :: "block \<Rightarrow> u64 result" where
  "toNumber c =
     (if \<not> isNumber c
      then Inl (ComponentError ''Name component does not have nonNegativeInteger value'')
      else block_readNonNegativeInteger c)"

definition toNumberWithMarker :: "block \<Rightarrow> byte \<Rightarrow> u64 result" where
  "toNumberWithMarker c marker =
     (if \<not> isNumberWithMarker c marker
      then Inl (ComponentError (''Name component does not have the requested marker '' @
                                ''or the value is not a nonNegativeInteger''))
      else bindE (readNonNegativeInteger (value_size c - 1) (drop 1 (value_bytes c)))
             (\<lambda>(v, _). Inr v))"

definition toVersion :: "block \<Rightarrow> u64 result" where
  "toVersion c = toNumberWithMarker c VERSION_MARKER"
definition toSegment :: "block \<Rightarrow> u64 result" where
  "toSegment c = toNumberWithMarker c SEGMENT_MARKER"
definition toSegmentOffset :: "block \<Rightarrow> u64 result" where
  "toSegmentOffset c = toNumberWithMarker c SEGMENT_OFFSET_MARKER"
definition toTimestamp :: "block \<Rightarrow> u64 result" where
  "toTimestamp c = toNumberWithMarker c TIMESTAMP_MARKER"
definition toSequenceNumber :: "block \<Rightarrow> u64 result" where
  "toSequenceNumber c = toNumberWithMarker c SEQUENCE_NUMBER_MARKER"

definition fromNumber :: "u64 \<Rightarrow> block result" where
  "fromNumber number =
     bindE (makeNonNegativeIntegerBlock tlv_NameComponent number) Component_ofBlock"

definition fromNumberWithMarker :: "byte \<Rightarrow> u64 \<Rightarrow> block result" where
  "fromNumberWithMarker marker number =
     (let valueLength = est_prependNonNegativeInteger number;
          valueLength = valueLength + est_prependByteArray [marker];
          totalLength = valueLength;
          totalLength = totalLength + est_prependVarNumber (of_nat valueLength);
          totalLength = totalLength + est_prependVarNumber (ucast tlv_NameComponent);
          encoder = Encoder_new totalLength 0;
          encoder = snd (prependNonNegativeInteger encoder number);
          encoder = snd (prependByteArray encoder [marker]);
          encoder = snd (prependVarNumber encoder (of_nat valueLength));
          encoder = snd (prependVarNumber encoder (ucast tlv_NameComponent))
      in bindE (Encoder_block encoder True) Component_ofBlock)"

definition fromVersion :: "u64 \<Rightarrow> block result" where
  "fromVersion version = fromNumberWithMarker VERSION_MARKER version"
definition fromSegment :: "u64 \<Rightarrow> block result" where
  "fromSegment segmentNo = fromNumberWithMarker SEGMENT_MARKER segmentNo"
definition fromSegmentOffset :: "u64 \<Rightarrow> block result" where
  "fromSegmentOffset offset = fromNumberWithMarker SEGMENT_OFFSET_MARKER offset"
definition fromTimestamp :: "u64 \<Rightarrow> block result" where
  "fromTimestamp microseconds = fromNumberWithMarker TIMESTAMP_MARKER microseconds"
definition fromSequenceNumber :: "u64 \<Rightarrow> block result" where
  "fromSequenceNumber seqNo = fromNumberWithMarker SEQUENCE_NUMBER_MARKER seqNo"

section \<open>Comparison and successor\<close>

text \<open>\<open>std::memcmp\<close>, of which only the sign is specified.\<close>

fun memcmp :: "byte list \<Rightarrow> byte list \<Rightarrow> int" where
  "memcmp (x # xs) (y # ys) = (if x < y then -1 else if x > y then 1 else memcmp xs ys)"
| "memcmp _ _ = 0"

definition Component_compare :: "block \<Rightarrow> block \<Rightarrow> int" where
  "Component_compare c other =
     (if m_type c < m_type other then -1
      else if m_type c > m_type other then 1
      else if value_size c < value_size other then -1
      else if value_size c > value_size other then 1
      else if value_size c = 0 then 0
      else memcmp (value_bytes c) (value_bytes other))"

definition Component_equals :: "block \<Rightarrow> block \<Rightarrow> bool" where
  "Component_equals c other =
     (if value_size c \<noteq> value_size other then False
      else if value_size c = 0 then True
      else value_bytes c = value_bytes other)"

text \<open>
  The loop of \<open>getSuccessor\<close>: it runs from the last byte of the value while the increment
  overflows; \<open>i\<close> is the number of bytes not yet visited.
\<close>

fun successor_loop ::
    "byte list \<Rightarrow> nat \<Rightarrow> bool \<Rightarrow> nat \<Rightarrow> encoder \<Rightarrow> bool \<times> nat \<times> nat \<times> encoder" where
  "successor_loop val 0 isOverflow totalLength e = (isOverflow, 0, totalLength, e)"
| "successor_loop val (Suc i) isOverflow totalLength e =
     (if isOverflow then
        (let newValue = val ! i + 1;
             (n, e) = prependByte e newValue
         in successor_loop val i (newValue = 0) (totalLength + n) e)
      else (isOverflow, Suc i, totalLength, e))"

definition Component_getSuccessor :: "block \<Rightarrow> block result" where
  "Component_getSuccessor c =
     bindE (Block_size c) (\<lambda>sz.
       let encoder = Encoder_new (sz + 1) 1;
           (isOverflow, i, totalLength, encoder) =
             successor_loop (value_bytes c) (value_size c) True 0 encoder;
           (n, encoder) = prependByteArray encoder (take i (value_bytes c));
           totalLength = totalLength + n;
           (totalLength, encoder) =
             (if isOverflow
              then (case appendByte encoder 0 of (k, e) \<Rightarrow> (totalLength + k, e))
              else (totalLength, encoder));
           encoder = snd (prependVarNumber encoder (of_nat totalLength));
           encoder = snd (prependVarNumber encoder (ucast (m_type c)))
       in bindE (Encoder_block encoder True) Component_ofBlock)"

section \<open>Wire format\<close>

definition Component_wireEncode_to :: "'e EncodingImpl \<Rightarrow> block \<Rightarrow> 'e \<Rightarrow> nat \<times> 'e" where
  "Component_wireEncode_to ops c encoder =
     run_steps
       ((if value_size c > 0 then [\<lambda>_ e. op_prependByteArray ops e (value_bytes c)] else []) @
        [\<lambda>_ e. op_prependVarNumber ops e (of_nat (value_size c)),
         \<lambda>_ e. op_prependVarNumber ops e (ucast (m_type c))]) encoder"

text \<open>\<open>wireEncode()\<close> replaces the component by its encoded form; the new value is returned.\<close>

definition Component_wireEncode :: "block \<Rightarrow> block result" where
  "Component_wireEncode c =
     (if hasWire c then Inr c
      else let estimatedSize = fst (Component_wireEncode_to EncodingEstimator c ());
               buffer = Encoder_new estimatedSize 0;
               buffer = snd (Component_wireEncode_to EncodingBuffer c buffer)
           in bindE (Encoder_block buffer True) Component_ofBlock)"

definition Component_wireDecode :: "block \<Rightarrow> block result" where
  "Component_wireDecode wire = Component_ofBlock wire"

section \<open>Abstract components and their order\<close>

text \<open>
  A component stands for its type and value. The canonical order compares the type, then
  the length, then the bytes; on equal lengths the bytes compare like the big-endian
  number they spell.
\<close>

datatype comp = Comp (comp_type: u32) (comp_value: "byte list")

definition comp_of :: "block \<Rightarrow> comp" where
  "comp_of b = Comp (m_type b) (value_bytes b)"

definition comp_key :: "comp \<Rightarrow> nat \<times> nat \<times> nat" where
  "comp_key c = (unat (comp_type c), length (comp_value c), be_decode (comp_value c))"

lemma comp_key_inject: "comp_key c = comp_key d \<longleftrightarrow> c = d"
proof
  assume "comp_key c = comp_key d"
  then have k: "unat (comp_type c) = unat (comp_type d)" "length (comp_value c) = length (comp_value d)"
    "be_decode (comp_value c) = be_decode (comp_value d)"
    by (simp_all add: comp_key_def)
  then have "comp_value c = comp_value d" by (metis be_encode_decode)
  moreover have "comp_type c = comp_type d" using k(1) by (rule word_eq_unatI)
  ultimately show "c = d" by (simp add: comp.expand)
qed simp

instantiation comp :: linorder
begin

definition less_eq_comp :: "comp \<Rightarrow> comp \<Rightarrow> bool" where
  "less_eq_comp c d \<longleftrightarrow> comp_key c \<le> comp_key d"

definition less_comp :: "comp \<Rightarrow> comp \<Rightarrow> bool" where
  "less_comp c d \<longleftrightarrow> comp_key c < comp_key d"

instance
  by standard (auto simp: less_eq_comp_def less_comp_def less_le_not_le comp_key_inject
      dest: order_antisym)

end

lemma be_decode_Cons: "be_decode (x # xs) = unat x * 256 ^ length xs + be_decode xs"
proof (induction xs rule: rev_induct)
  case (snoc y ys)
  have "be_decode (x # ys @ [y]) = be_decode (x # ys) * 256 + unat y"
    using be_decode_snoc [of "x # ys" y] by simp
  with snoc show ?case by (simp add: algebra_simps)
qed (simp add: be_decode_def)

lemma memcmp_be_decode:
  "length xs = length ys \<Longrightarrow> memcmp xs ys =
     (if be_decode xs < be_decode ys then -1 else if be_decode ys < be_decode xs then 1 else 0)"
proof (induction xs ys rule: list_induct2)
  case (Cons x xs y ys)
  let ?k = "256 ^ length ys :: nat"
  have b: "be_decode xs < ?k" "be_decode ys < ?k"
    using be_decode_bound [of xs] be_decode_bound [of ys] Cons.hyps by simp_all
  have less: "u * ?k + r < u' * ?k + r'" if "u < u'" "r < ?k" for u u' r r' :: nat
  proof -
    have "Suc u * ?k \<le> u' * ?k" using that(1) by (simp only: mult_le_mono1 Suc_leI)
    with that(2) show ?thesis by simp
  qed
  show ?case
    using Cons less [of "unat x" "unat y" "be_decode xs" "be_decode ys"]
      less [of "unat y" "unat x" "be_decode ys" "be_decode xs"] b
    by (auto simp: be_decode_Cons word_less_nat_alt word_eq_unatI not_less le_less)
qed simp

lemma Component_compare_order:
  assumes "wf_block a" "wf_block b"
  shows "Component_compare a b =
    (if comp_of a < comp_of b then -1 else if comp_of b < comp_of a then 1 else 0)"
  using assms
  by (auto simp: Component_compare_def value_size_wf comp_of_def less_comp_def comp_key_def
      word_less_nat_alt memcmp_be_decode word_eq_unatI)

lemma Component_equals_value:
  "wf_block a \<Longrightarrow> wf_block b \<Longrightarrow> Component_equals a b \<longleftrightarrow> value_bytes a = value_bytes b"
  by (auto simp: Component_equals_def value_size_wf)

section \<open>Successor\<close>

definition succ_value :: "byte list \<Rightarrow> byte list" where
  "succ_value v =
     (if be_decode v + 1 < 256 ^ length v then be_encode (length v) (be_decode v + 1)
      else replicate (Suc (length v)) 0)"

lemma successor_loop_False [simp]: "successor_loop v i False n e = (False, i, n, e)"
  by (cases i) simp_all

lemma successor_loop_spec:
  assumes "i \<le> length v"
  shows "\<exists>ov j bs e'. successor_loop v i True n e = (ov, j, n + length bs, e') \<and> enc_emits e bs e'
     \<and> (if ov then j = 0 \<and> bs = replicate i 0 \<and> be_decode (take i v) + 1 = 256 ^ i
        else j + length bs = i \<and> be_decode (take j v @ bs) = be_decode (take i v) + 1)"
  using assms
proof (induction i arbitrary: n e)
  case 0
  then show ?case by (auto simp: enc_emits_nil)
next
  case (Suc i)
  define w where "w = v ! i + 1"
  define e1 where "e1 = snd (prependByte e w)"
  have e1: "prependByte e w = (1, e1)" "enc_emits e [w] e1"
    using prependByte_emits [of w] by (auto simp: emitter_def e1_def prod_eq_iff)
  have tk: "take (Suc i) v = take i v @ [v ! i]"
    using Suc.prems by (simp add: take_Suc_conv_app_nth)
  show ?case
  proof (cases "w = 0")
    case False
    have "unat w = unat (v ! i) + 1"
      using False unat_eq_zero [of w] unfolding w_def by (metis add.commute unatSuc Suc_eq_plus1)
    with False e1 tk show ?thesis
      by (intro exI [of _ False] exI [of _ i] exI [of _ "[w]"] exI [of _ e1])
        (simp add: w_def [symmetric] Let_def)
  next
    case True
    have vi: "unat (v ! i) = 255"
    proof -
      have "v ! i = w - 1" by (simp add: w_def)
      then have "v ! i = 255" using True by simp
      then show ?thesis by simp
    qed
    obtain ov j bs e' where ih: "successor_loop v i True (n + 1) e1 = (ov, j, n + 1 + length bs, e')"
      "enc_emits e1 bs e'"
      "if ov then j = 0 \<and> bs = replicate i 0 \<and> be_decode (take i v) + 1 = 256 ^ i
       else j + length bs = i \<and> be_decode (take j v @ bs) = be_decode (take i v) + 1"
      using Suc.IH [of "n + 1" e1] Suc.prems by auto
    have "successor_loop v (Suc i) True n e = (ov, j, n + length (bs @ [w]), e')"
      using ih(1) e1(1) True by (simp add: w_def [symmetric] Let_def)
    moreover have "enc_emits e (bs @ [w]) e'" using enc_emits_trans [OF e1(2) ih(2)] .
    moreover have "be_decode (take j v @ bs @ [w]) = be_decode (take j v @ bs) * 256"
      using be_decode_snoc [of "take j v @ bs" w] True by simp
    ultimately show ?thesis
      using ih(3) vi tk True
      by (intro exI [of _ ov] exI [of _ j] exI [of _ "bs @ [w]"] exI [of _ e'])
        (auto simp: replicate_append_same split: if_splits)
  qed
qed

lemma be_encode_unique: "length bs = n \<Longrightarrow> be_decode bs = m \<Longrightarrow> be_encode n m = bs"
  using be_encode_decode [of bs] by simp

lemma getSuccessor_block:
  assumes wf: "wf_block c" and "hasValue c"
  shows "\<exists>b. Component_getSuccessor c = Component_ofBlock b \<and> wf_block b \<and> hasWire b
           \<and> type_value b = (m_type c, succ_value (value_bytes c)) \<and> m_subBlocks b = []"
proof -
  define v where "v = value_bytes c"
  obtain sz where sz: "Block_size c = Inr sz"
    using assms(2) by (auto simp: Block_size_def)
  define e0 where "e0 = Encoder_new (sz + 1) 1"
  have e0: "enc_inv e0" "contents e0 = []"
    by (simp_all add: e0_def Encoder_new_def enc_inv_def contents_def Let_def)
  from successor_loop_spec [of "length v" v 0 e0]
  obtain ov j bs e1 where loop: "successor_loop v (length v) True 0 e0 = (ov, j, 0 + length bs, e1)"
    and em: "enc_emits e0 bs e1"
    and spec: "if ov then j = 0 \<and> bs = replicate (length v) 0
         \<and> be_decode (take (length v) v) + 1 = 256 ^ length v
       else j + length bs = length v
         \<and> be_decode (take j v @ bs) = be_decode (take (length v) v) + 1"
    by blast
  have e1: "enc_inv e1" "contents e1 = bs"
    using em e0 by (auto simp: enc_emits_def)
  define e2 where "e2 = snd (prependByteArray e1 (take j v))"
  have e2: "prependByteArray e1 (take j v) = (min (length v) j, e2)" "enc_inv e2"
    "contents e2 = take j v @ bs"
    using prependByteArray_emits [of "take j v"] e1
    by (auto simp: emitter_def enc_emits_def e2_def prod_eq_iff)
  obtain e2' where app: "appendByte e2 0 = (1, e2')" "e2' = snd (appendByte e2 0)"
    by (simp add: appendByte_def Let_def)
  define e3 where "e3 = (if ov then e2' else e2)"
  define s where "s = take j v @ bs @ (if ov then [0] else [])"
  have e3: "enc_inv e3" "contents e3 = s"
    using appendByte_appends [of 0] e2 app(2)
    by (auto simp: emitter_def enc_appends_def e3_def s_def)
  have s: "s = succ_value v"
  proof (cases ov)
    case True
    with spec show ?thesis by (simp add: s_def succ_value_def replicate_append_same)
  next
    case False
    with spec have len: "length (take j v @ bs) = length v"
      and dec: "be_decode (take j v @ bs) = be_decode v + 1" by simp_all
    have "be_decode v + 1 < 256 ^ length v"
      using be_decode_bound [of "take j v @ bs"] len dec by simp
    with False show ?thesis
      using be_encode_unique [OF len dec] by (simp add: s_def succ_value_def)
  qed
  define e4 where "e4 = snd (prependVarNumber e3 (of_nat (length s)))"
  define e5 where "e5 = snd (prependVarNumber e4 (ucast (m_type c)))"
  have e5: "enc_inv e5" "contents e5 = tlv_bytes (m_type c) s"
    using prependVarNumber_emits [of "of_nat (length s)"] prependVarNumber_emits [of "ucast (m_type c)"]
      e3 by (auto simp: emitter_def enc_emits_def e4_def e5_def tlv_bytes_def)
  have tl: "length s = length bs + min (length v) j + (if ov then 1 else 0)"
    by (simp add: s_def)
  have "Component_getSuccessor c = bindE (Encoder_block e5 True) Component_ofBlock"
    using sz loop e2(1) value_size_wf [OF wf] app(1)
    unfolding Component_getSuccessor_def v_def [symmetric] e0_def e5_def e4_def e3_def tl
    by (cases ov) (simp_all add: Let_def add.commute del: of_nat_add)
  then show ?thesis
    using Encoder_block_contents [OF e5] s by (auto simp: v_def)
qed

text \<open>The blocks that a \<open>Component\<close> object can hold.\<close>

definition is_component :: "block \<Rightarrow> bool" where
  "is_component c \<longleftrightarrow> wf_block c \<and> (isGeneric c \<or> isImplicitSha256Digest c)"

lemma Component_ofBlock_Inr_iff:
  "Component_ofBlock b = Inr c \<longleftrightarrow> c = b \<and> (isGeneric b \<or> isImplicitSha256Digest b)"
  by (auto simp: Component_ofBlock_def)

lemma Component_ofBlock_generic [simp]: "m_type b = tlv_NameComponent \<Longrightarrow> Component_ofBlock b = Inr b"
  by (simp add: Component_ofBlock_def isGeneric_def)

lemma be_decode_zeros [simp]: "be_decode (replicate n 0) = 0"
  by (induction n) (simp_all add: be_decode_Cons)

definition value_key :: "byte list \<Rightarrow> nat \<times> nat" where
  "value_key v = (length v, be_decode v)"

lemma comp_key_value: "comp_key (Comp t v) = (unat t, value_key v)"
  by (simp add: comp_key_def value_key_def)

lemma be_decode_succ_value:
  "value_key (succ_value v) =
     (if be_decode v + 1 < 256 ^ length v then (length v, be_decode v + 1) else (Suc (length v), 0))"
  by (simp add: succ_value_def value_key_def be_decode_encode_small be_decode_Cons)

lemma succ_value_greater: "value_key v < value_key (succ_value v)"
  unfolding be_decode_succ_value by (simp add: value_key_def)

lemma succ_value_least:
  assumes "value_key v < value_key w"
  shows "value_key (succ_value v) \<le> value_key w"
proof (cases "length v = length w")
  case True
  with assms be_decode_bound [of w] show ?thesis
    unfolding be_decode_succ_value by (auto simp: value_key_def)
next
  case False
  with assms show ?thesis unfolding be_decode_succ_value by (auto simp: value_key_def)
qed

lemma length_succ_value: "length (succ_value v) = fst (value_key (succ_value v))"
  by (simp add: value_key_def)

lemma succ_value_digest:
  assumes "length v = SHA256_DIGEST_SIZE"
  shows "length (succ_value v) = SHA256_DIGEST_SIZE \<longleftrightarrow> v \<noteq> replicate SHA256_DIGEST_SIZE 0xFF"
proof -
  have m: "be_decode (replicate n 0xFF) + 1 = 256 ^ n" for n
    by (induction n) (simp_all add: be_decode_Cons)
  have "be_decode v + 1 < 256 ^ length v \<longleftrightarrow> v \<noteq> replicate SHA256_DIGEST_SIZE 0xFF"
  proof
    assume "be_decode v + 1 < 256 ^ length v"
    then show "v \<noteq> replicate SHA256_DIGEST_SIZE 0xFF" using m [of SHA256_DIGEST_SIZE] assms by auto
  next
    assume "v \<noteq> replicate SHA256_DIGEST_SIZE 0xFF"
    then have "be_decode v \<noteq> be_decode (replicate SHA256_DIGEST_SIZE 0xFF)"
      using be_encode_decode [of v] be_encode_decode [of "replicate SHA256_DIGEST_SIZE (0xFF :: byte)"]
        assms by (metis length_replicate)
    then show "be_decode v + 1 < 256 ^ length v"
      using m [of SHA256_DIGEST_SIZE] be_decode_bound [of v] unfolding assms by linarith
  qed
  then show ?thesis using assms by (simp add: succ_value_def)
qed

lemma getSuccessor_component:
  assumes "is_component c" "hasValue c"
    and "isImplicitSha256Digest c \<Longrightarrow> value_bytes c \<noteq> replicate SHA256_DIGEST_SIZE 0xFF"
  obtains b where "Component_getSuccessor c = Inr b" "is_component b" "hasWire b"
    "comp_of b = Comp (m_type c) (succ_value (value_bytes c))"
proof -
  obtain b where b: "Component_getSuccessor c = Component_ofBlock b" "wf_block b" "hasWire b"
    "m_type b = m_type c" "value_bytes b = succ_value (value_bytes c)"
    using getSuccessor_block assms by (auto simp: is_component_def type_value_def)
  have "isGeneric b \<or> isImplicitSha256Digest b"
    using assms b succ_value_digest [of "value_bytes c"]
    by (auto simp: is_component_def isGeneric_def isImplicitSha256Digest_def value_size_wf)
  then show ?thesis
    using that [of b] b by (simp add: Component_ofBlock_def is_component_def comp_of_def)
qed

section \<open>Properties\<close>

text \<open>
  \<open>Component::compare\<close> decides the canonical order: on well-formed components its result
  is -1, 0 or 1 according to a total order on (type, value), and 0 exactly when type and
  value are equal.
\<close>
theorem Component_compare_canonical_order:
  assumes "wf_block a" "wf_block b"
  shows "Component_compare a b =
      (if comp_of a < comp_of b then -1 else if comp_of a = comp_of b then 0 else 1)
    \<and> Component_compare b a = - Component_compare a b"
  using assms by (auto simp: Component_compare_order)

theorem Component_compare_canonical_order_witness:
  "Component_compare (tlv_block 8 [2]) (tlv_block 8 [1, 1]) = -1"
  using Component_compare_canonical_order [of "tlv_block 8 [2]" "tlv_block 8 [1, 1]"]
  by (simp add: comp_of_def less_comp_def comp_key_def)

text \<open>
  \<open>Component::getSuccessor\<close> returns the immediate successor: a component of the same type,
  greater in the canonical order, with no component of that type strictly in between. The
  only exception is the implicit digest component whose 32 bytes are all 0xFF, whose successor
  would have 33 bytes: there the \<open>Component\<close> constructor throws.
\<close>
theorem Component_getSuccessor_immediate:
  assumes "is_component c" "hasValue c"
  shows "if isImplicitSha256Digest c \<and> value_bytes c = replicate SHA256_DIGEST_SIZE 0xFF
    then \<exists>what. Component_getSuccessor c = Inl (ComponentError what)
    else \<exists>b. Component_getSuccessor c = Inr b \<and> is_component b \<and> m_type b = m_type c
           \<and> comp_of c < comp_of b
           \<and> (\<forall>d. comp_type d = m_type c \<and> comp_of c < d \<longrightarrow> comp_of b \<le> d)"
proof (cases "isImplicitSha256Digest c \<and> value_bytes c = replicate SHA256_DIGEST_SIZE 0xFF")
  case True
  obtain b where b: "Component_getSuccessor c = Component_ofBlock b" "wf_block b"
    "m_type b = m_type c" "value_bytes b = succ_value (value_bytes c)"
    using getSuccessor_block assms by (auto simp: is_component_def type_value_def)
  have "length (value_bytes b) \<noteq> SHA256_DIGEST_SIZE"
    using succ_value_digest [of "value_bytes c"] True b(4) by simp
  then have "\<not> isGeneric b \<and> \<not> isImplicitSha256Digest b"
    using True b by (auto simp: isGeneric_def isImplicitSha256Digest_def value_size_wf tlv_codes)
  with True b(1) show ?thesis by (simp add: Component_ofBlock_def)
next
  case False
  then obtain b where b: "Component_getSuccessor c = Inr b" "is_component b"
    "comp_of b = Comp (m_type c) (succ_value (value_bytes c))"
    using getSuccessor_component [OF assms] by blast
  have "comp_of b \<le> d" if "comp_type d = m_type c" "comp_of c < d" for d
    using that b(3) succ_value_least [of "value_bytes c" "comp_value d"]
    by (cases d) (auto simp: less_eq_comp_def less_comp_def comp_key_value comp_of_def)
  moreover have "comp_of c < comp_of b"
    using b(3) succ_value_greater [of "value_bytes c"]
    by (simp add: less_comp_def comp_key_value comp_of_def)
  moreover have "m_type b = m_type c" using b(3) by (simp add: comp_of_def)
  ultimately show ?thesis using False b by auto
qed

theorem Component_getSuccessor_immediate_witness:
  "\<exists>b. Component_getSuccessor (tlv_block 8 [0xFF]) = Inr b \<and> comp_of b \<le> Comp 8 [0, 0]
     \<and> comp_of (tlv_block 8 [0xFF]) < comp_of b"
proof -
  have "is_component (tlv_block 8 [0xFF])" "hasValue (tlv_block 8 [0xFF])"
    by (simp_all add: is_component_def isGeneric_def tlv_codes)
  moreover have "comp_of (tlv_block 8 [0xFF]) < Comp 8 [0, 0]"
    by (simp add: comp_of_def less_comp_def comp_key_def)
  ultimately show ?thesis
    using Component_getSuccessor_immediate [of "tlv_block 8 [0xFF]"]
    by (force simp: isImplicitSha256Digest_def tlv_codes split: if_splits)
qed

text \<open>
  A default-constructed \<open>Component\<close> has no value buffer, and \<open>getSuccessor\<close> on it throws
  the error of \<open>Block::size\<close> although the component is a valid, empty generic component that
  compares equal to an encoded empty one, whose successor exists.
\<close>
theorem Component_default_getSuccessor_throws:
  "is_component Component_default
   \<and> Component_compare Component_default (tlv_block tlv_NameComponent []) = 0
   \<and> (\<exists>what. Component_getSuccessor Component_default = Inl (BlockError what))
   \<and> (\<exists>b. Component_getSuccessor (tlv_block tlv_NameComponent []) = Inr b
        \<and> comp_of b = Comp tlv_NameComponent [0])"
proof -
  have d: "wf_block Component_default"
    unfolding Component_default_def
    by (rule wf_block_leaf) (simp_all add: Block_ofType_def wf_defs block_defs)
  have "is_component (tlv_block tlv_NameComponent [])"
    by (simp add: is_component_def isGeneric_def)
  from getSuccessor_component [OF this] have "\<exists>b. Component_getSuccessor (tlv_block tlv_NameComponent [])
      = Inr b \<and> comp_of b = Comp tlv_NameComponent [0]"
    by (auto simp: isImplicitSha256Digest_def tlv_codes succ_value_def)
  moreover have "\<exists>what. Component_getSuccessor Component_default = Inl (BlockError what)"
    by (simp add: Component_getSuccessor_def Component_default_def Block_ofType_def Block_size_def
        hasWire_def hasValue_def)
  ultimately show ?thesis
    using d by (simp add: is_component_def isGeneric_def Component_compare_def value_size_wf)
      (simp add: Component_default_def Block_ofType_def block_defs)
qed

section \<open>Number components\<close>

lemma fromNumberWithMarker_eq [simp]:
  "fromNumberWithMarker marker n = Inr (tlv_block tlv_NameComponent (marker # nni_bytes n))"
proof -
  let ?v = "marker # nni_bytes n"
  let ?f = "\<lambda>e. run_steps
    [\<lambda>_ e. prependNonNegativeInteger e n, \<lambda>_ e. prependByteArray e [marker],
     \<lambda>_ e. prependVarNumber e (of_nat (length ?v)),
     \<lambda>_ e. prependVarNumber e (ucast tlv_NameComponent)] e"
  have "emitter enc_emits ?f (steps_bytes [\<lambda>_. nni_bytes n, \<lambda>_. [marker],
     \<lambda>_. varNumber_bytes (of_nat (length ?v)), \<lambda>_. varNumber_bytes (ucast tlv_NameComponent)])"
    by (rule encoder.run_steps_emits)
      (simp add: prependNonNegativeInteger_emits prependByteArray_emits prependVarNumber_emits)
  then have em: "emitter enc_emits ?f (tlv_bytes tlv_NameComponent ?v)"
    by (simp add: steps_bytes_def tlv_bytes_def)
  have "est_prependNonNegativeInteger n = length (nni_bytes n)"
    by (simp add: est_prependNonNegativeInteger_def nni_bytes_def)
  then show ?thesis
    using Encoder_block_exact [OF em]
    by (simp add: fromNumberWithMarker_def Let_def est_prependVarNumber_size est_prependByteArray_def
        run_steps_def plus_step_def split_beta add.commute add.left_commute)
qed

lemma isNumberWithMarker_made [simp]:
  "isNumberWithMarker (tlv_block t (marker # nni_bytes n)) marker' \<longleftrightarrow> marker = marker'"
  using length_nni_bytes [of n] by (auto simp: isNumberWithMarker_def Component_empty_def)

lemma toNumberWithMarker_made [simp]:
  "toNumberWithMarker (tlv_block t (marker # nni_bytes n)) marker = Inr n"
  using readNonNegativeInteger_nni [of n "[]"] by (simp add: toNumberWithMarker_def)

text \<open>
  Number components round-trip for every 64-bit value: \<open>fromNumber\<close> and the naming
  conventions (segment, segment offset, version, timestamp, sequence number) build components
  that the corresponding \<open>toX\<close> reads back.
\<close>
theorem Component_number_roundtrip:
  "bindE (fromNumber n) toNumber = Inr n
   \<and> bindE (fromNumberWithMarker m n) (\<lambda>c. toNumberWithMarker c m) = Inr n
   \<and> bindE (fromVersion n) toVersion = Inr n
   \<and> bindE (fromSegment n) toSegment = Inr n
   \<and> bindE (fromSegmentOffset n) toSegmentOffset = Inr n
   \<and> bindE (fromTimestamp n) toTimestamp = Inr n
   \<and> bindE (fromSequenceNumber n) toSequenceNumber = Inr n"
proof -
  have "isNumber (tlv_block tlv_NameComponent (nni_bytes n))"
    using length_nni_bytes [of n] by (auto simp: isNumber_def)
  then have "toNumber (tlv_block tlv_NameComponent (nni_bytes n)) = Inr n"
    using readNonNegativeInteger_nni [of n "[]"]
    by (simp add: toNumber_def block_readNonNegativeInteger_def)
  then show ?thesis
    by (simp add: fromNumber_def fromVersion_def toVersion_def fromSegment_def toSegment_def
        fromSegmentOffset_def toSegmentOffset_def fromTimestamp_def toTimestamp_def
        fromSequenceNumber_def toSequenceNumber_def)
qed

lemma be_decode_nni: "be_decode (nni_bytes v) = unat v"
proof -
  have "unat (ucast v :: byte) = unat v" if "v \<le> 0xFF"
    using that by (simp add: unsigned_ucast_eq take_bit_nat_eq_self word_le_nat_alt)
  then show ?thesis
    using u64_bound [of v]
    by (auto simp: nni_bytes_def be_decode_encode_small be_decode_Cons word_le_nat_alt)
qed

lemma length_nni_mono: "v \<le> w \<Longrightarrow> length (nni_bytes v) \<le> length (nni_bytes w)"
  by (auto simp: nni_bytes_def)

lemma marker_value_key_less:
  "value_key (m # nni_bytes n) < value_key (m # nni_bytes k) \<longleftrightarrow> n < k"
proof -
  have mono: "value_key (m # nni_bytes a) < value_key (m # nni_bytes b)" if "a < b" for a b
    using that length_nni_mono [OF less_imp_le [OF that]]
    by (auto simp: value_key_def be_decode_Cons be_decode_nni word_less_nat_alt le_less)
  show ?thesis using mono [of n k] mono [of k n] by (metis less_asym' less_irrefl linorder_neqE)
qed

text \<open>
  The naming conventions are kept apart: a component built with one marker is recognised
  under another only if the markers are equal, reading it under a different marker throws, and
  the order of two components built with the same marker is the numeric order.
\<close>
theorem Component_markers_disjoint:
  "\<exists>a b. fromNumberWithMarker m n = Inr a \<and> fromNumberWithMarker m k = Inr b
     \<and> (isNumberWithMarker a m' \<longleftrightarrow> m = m')
     \<and> (m \<noteq> m' \<longrightarrow> (\<exists>what. toNumberWithMarker a m' = Inl (ComponentError what)))
     \<and> (Component_compare a b < 0 \<longleftrightarrow> n < k)"
  by (auto simp: toNumberWithMarker_def Component_compare_order comp_of_def less_comp_def
      comp_key_value marker_value_key_less)

section \<open>URIs\<close>

lemma unreserved_code:
  "unreserved b \<Longrightarrow> unat b \<in> {48..57} \<union> {65..90} \<union> {97..122} \<union> {43, 45, 46, 95}"
  by (auto simp: unreserved_def word_le_nat_alt)

lemma unreserved_char:
  assumes "unreserved b"
  shows "char_of_byte b \<notin> {CHR ''%'', CHR ''='', CHR ''/'', CHR '' ''}" "\<not> is_space (char_of_byte b)"
  using unreserved_code [OF assms] byte_unat_bound [of b]
  by (auto simp: char_of_byte_def char_of_eq_iff_nat is_space_def)

lemma hexDigit_not_eq: "n < 16 \<Longrightarrow> hexDigit up n \<noteq> CHR ''=''"
  using hexDigit_chars(1) [of n up] by (auto simp: fromHexChar_def byte_of_char_def)

lemma escape_alt:
  "escape x = (if unreserved x then [char_of_byte x]
     else [CHR ''%'', hexDigit True (unat x div 16), hexDigit True (unat x mod 16)])"
proof -
  have "unat x div 16 = 0" "unat x mod 16 = unat x" if "x < 16"
    using that by (simp_all add: word_less_nat_alt)
  moreover have "hexDigit True 0 = CHR ''0''" by (simp add: hexDigit_def char_of_eq_iff_nat)
  ultimately show ?thesis by (simp add: escape_def)
qed

lemma is_space_percent [simp]: "\<not> is_space CHR ''%''"
  by (simp add: is_space_def)

lemma is_space_dot [simp]: "\<not> is_space CHR ''.''"
  by (simp add: is_space_def)

lemma escape_chars:
  "escape x \<noteq> []" "\<forall>c \<in> set (escape x). \<not> is_space c \<and> c \<noteq> CHR ''='' \<and> c \<noteq> CHR ''/''"
  using unreserved_char [of x] byte_unat_bound [of x]
  by (auto simp: escape_alt hexDigit_chars hexDigit_not_eq)

lemma unescape_escape: "unescape (escape x @ rest) = char_of_byte x # unescape rest"
  using unreserved_char [of x] unescape_escaped [of True x rest]
  by (simp add: escape_alt unescape_plain del: unescape.simps)

lemma unescape_concat_escape: "unescape (concat (map escape v)) = map char_of_byte v"
  by (induction v) (simp_all add: unescape_escape)

lemma unescape_replicate_dot: "unescape (replicate n CHR ''.'') = replicate n CHR ''.''"
  by (induction n) simp_all

lemma set_concat_escape:
  "c \<in> set (concat (map escape v)) \<Longrightarrow> \<not> is_space c \<and> c \<noteq> CHR ''='' \<and> c \<noteq> CHR ''/''"
  using escape_chars(2) by auto

lemma printHex_chars:
  "c \<in> set (printHex bs up) \<Longrightarrow> \<not> is_space c \<and> c \<noteq> CHR ''/''"
  by (auto simp: printHex_def hexDigit_chars nibble_bound)

lemma prefix_chars: "c \<in> set getSha256DigestUriPrefix \<Longrightarrow> \<not> is_space c \<and> c \<noteq> CHR ''/''"
  by (auto simp: getSha256DigestUriPrefix_def is_space_def)

lemma Component_toUri_chars:
  "c \<in> set (Component_toUri b) \<Longrightarrow> \<not> is_space c \<and> c \<noteq> CHR ''/''"
  using set_concat_escape [of c "value_bytes b"] printHex_chars [of c "value_bytes b" False]
    prefix_chars
  by (auto simp: Component_toUri_def Let_def split: if_splits)

lemma trim_no_space:
  assumes "keeps_trimmed x" "\<forall>c \<in> set s. \<not> is_space c"
  shows "trim x s = s"
  using assms by (auto simp: keeps_trimmed_def trim_def)

lemma prefix_not_in:
  assumes "CHR ''='' \<notin> set s"
  shows "take (length getSha256DigestUriPrefix) s \<noteq> getSha256DigestUriPrefix"
proof
  assume "take (length getSha256DigestUriPrefix) s = getSha256DigestUriPrefix"
  then have "CHR ''='' \<in> set (take (length getSha256DigestUriPrefix) s)"
    by (simp add: getSha256DigestUriPrefix_def)
  with assms show False using in_set_takeD by fastforce
qed

lemma Component_ofBytes_eq [simp]: "Component_ofBytes v = Inr (tlv_block tlv_NameComponent v)"
  by (simp add: Component_ofBytes_def)

lemma digest_buffer_made:
  assumes "length d = SHA256_DIGEST_SIZE"
  obtains b where "fromImplicitSha256Digest_buffer d = Inr b" "is_component b"
    "comp_of b = Comp tlv_ImplicitSha256DigestComponent d" "hasValue b"
proof
  let ?b = "Block_ofValue tlv_ImplicitSha256DigestComponent d"
  have wf: "wf_block ?b"
    by (rule wf_block_leaf) (simp_all add: Block_ofValue_def wf_defs block_defs chunk_def)
  have v: "value_bytes ?b = d" "m_type ?b = tlv_ImplicitSha256DigestComponent" "hasValue ?b"
    by (simp_all add: Block_ofValue_def block_defs chunk_def)
  show c: "is_component ?b"
    using wf v assms by (simp add: is_component_def isImplicitSha256Digest_def value_size_wf)
  show "fromImplicitSha256Digest_buffer d = Inr ?b"
    using c assms by (auto simp: fromImplicitSha256Digest_buffer_def Component_ofBlock_def is_component_def)
  show "comp_of ?b = Comp tlv_ImplicitSha256DigestComponent d" "hasValue ?b"
    using v by (simp_all add: comp_of_def)
qed

lemma fromEscapedString_generic:
  assumes "keeps_trimmed x" "m_type c \<noteq> tlv_ImplicitSha256DigestComponent"
  shows "fromEscapedString x (pre @ Component_toUri c @ post) (length pre)
           (length pre + length (Component_toUri c)) = Inr (tlv_block tlv_NameComponent (value_bytes c))"
proof -
  define v where "v = value_bytes c"
  define u where "u = Component_toUri c"
  have sp: "trim x u = u"
    using trim_no_space [OF assms(1)] Component_toUri_chars by (simp add: u_def)
  have eq: "CHR ''='' \<notin> set u"
    using assms(2) set_concat_escape [of "CHR ''=''" v]
    by (auto simp: u_def v_def Component_toUri_def Let_def)
  have ck: "chunk (pre @ u @ post) (length pre) (length pre + length u) = u"
    by (simp add: chunk_def)
  show ?thesis
  proof (cases "list_ex (\<lambda>b. b \<noteq> 0x2e) v")
    case True
    then have "unescape u = map char_of_byte v"
      using assms(2) by (simp add: u_def v_def Component_toUri_def Let_def unescape_concat_escape)
    moreover have "\<not> list_all (\<lambda>c. c = CHR ''.'') (map char_of_byte v)"
    proof -
      obtain b where b: "b \<in> set v" "b \<noteq> 0x2e" using True by (auto simp: list_ex_iff)
      have "char_of_byte b \<noteq> CHR ''.''"
        using b(2) byte_of_char_of_byte [of b] by (auto simp: byte_of_char_def)
      with b(1) show ?thesis by (auto simp: list_all_iff)
    qed
    ultimately show ?thesis
      using sp ck prefix_not_in [OF eq]
      by (simp add: fromEscapedString_def u_def [symmetric] v_def [symmetric] Let_def comp_def
          del: unescape.simps)
  next
    case False
    then have v: "v = replicate (length v) 0x2e"
      by (simp add: list_ex_iff replicate_length_same)
    have u: "u = replicate (3 + length v) CHR ''.''"
      using False assms(2) by (simp add: u_def v_def Component_toUri_def Let_def numeral_3_eq_3)
    have "map byte_of_char (drop 3 (replicate (3 + length v) CHR ''.'')) = v"
      by (subst (2) v) (simp add: byte_of_char_def)
    then show ?thesis
      using sp ck prefix_not_in [OF eq]
      by (simp add: fromEscapedString_def u_def [symmetric] v_def [symmetric] u
          unescape_replicate_dot Let_def list_all_iff del: unescape.simps drop_replicate)
  qed
qed

lemma fromEscapedString_toUri:
  assumes "keeps_trimmed x" "decodes_hex x" "is_component c"
  obtains b where "fromEscapedString x (pre @ Component_toUri c @ post) (length pre)
      (length pre + length (Component_toUri c)) = Inr b"
    "is_component b" "comp_of b = comp_of c" "hasValue b"
proof (cases "m_type c = tlv_ImplicitSha256DigestComponent")
  case False
  then have "m_type c = tlv_NameComponent"
    using assms(3) by (auto simp: is_component_def isGeneric_def isImplicitSha256Digest_def)
  then show ?thesis
    using that fromEscapedString_generic [OF assms(1) False, of pre post]
    by (simp add: is_component_def isGeneric_def comp_of_def)
next
  case True
  define v where "v = value_bytes c"
  define h where "h = printHex v False"
  have len: "length v = SHA256_DIGEST_SIZE"
    using assms(3) True
    by (auto simp: is_component_def isGeneric_def isImplicitSha256Digest_def v_def tlv_codes value_size_wf)
  obtain b where b: "fromImplicitSha256Digest_buffer v = Inr b" "is_component b"
    "comp_of b = Comp tlv_ImplicitSha256DigestComponent v" "hasValue b"
    using digest_buffer_made [OF len] .
  have u: "Component_toUri c = getSha256DigestUriPrefix @ h"
    using True by (simp add: Component_toUri_def h_def v_def)
  have "trim x (Component_toUri c) = getSha256DigestUriPrefix @ h"
    using trim_no_space [OF assms(1), of "Component_toUri c"] Component_toUri_chars [of _ c] u
    by auto
  moreover have "fromHex x h = Inr v" using fromHex_printHex [OF assms(2)] by (simp add: h_def)
  moreover have "length h = SHA256_DIGEST_SIZE * 2" using len by (simp add: h_def)
  moreover have "chunk (pre @ Component_toUri c @ post) (length pre)
      (length pre + length (Component_toUri c)) = Component_toUri c"
    by (simp add: chunk_def)
  ultimately have "fromEscapedString x (pre @ Component_toUri c @ post) (length pre)
      (length pre + length (Component_toUri c)) = Inr b"
    using b(1) by (simp add: fromEscapedString_def Let_def)
  then show ?thesis using that b True by (simp add: comp_of_def v_def)
qed

text \<open>
  A component survives the trip through its URI: \<open>fromEscapedString\<close> applied to what
  \<open>toUri\<close> printed gives back the type and value, for generic components (dots-only and
  empty ones included) and for implicit digests, wherever the text stands in a longer URI.
\<close>
theorem Component_uri_roundtrip:
  assumes "keeps_trimmed x" "decodes_hex x" "is_component c"
  shows "\<exists>b. fromEscapedString x (pre @ Component_toUri c @ post) (length pre)
      (length pre + length (Component_toUri c)) = Inr b \<and> is_component b \<and> comp_of b = comp_of c"
  using fromEscapedString_toUri [OF assms] by metis

theorem Component_uri_roundtrip_witness:
  "\<exists>b. fromEscapedString ext_ref ''/.../'' 1 4 = Inr b \<and> comp_of b = Comp 8 []"
proof -
  have "is_component (tlv_block 8 [])" by (simp add: is_component_def isGeneric_def tlv_codes)
  moreover have "Component_toUri (tlv_block 8 []) = ''...''"
    by (simp add: Component_toUri_def tlv_codes)
  ultimately show ?thesis
    using Component_uri_roundtrip [OF ext_ref_ok, of "tlv_block 8 []" "''/''" "''/''"]
    by (auto simp: comp_of_def eval_nat_numeral)
qed

definition malformed_component :: "ext \<Rightarrow> string \<Rightarrow> bool" where
  "malformed_component x t =
     (let prefixSize = length getSha256DigestUriPrefix in
      if take prefixSize t = getSha256DigestUriPrefix
      then \<not> (length t = prefixSize + SHA256_DIGEST_SIZE * 2
              \<and> length (HexDecoder x (drop prefixSize t)) = SHA256_DIGEST_SIZE)
      else unescape t \<in> {[], ''.'', ''..''})"

lemma short_dots: "list_all (\<lambda>c. c = CHR ''.'') v \<and> length v \<le> 2 \<longleftrightarrow> v \<in> {[], ''.'', ''..''}"
  by (cases v rule: remdups_adj.cases) auto

text \<open>
  \<open>fromEscapedString\<close> throws nothing but \<open>Component::Error\<close>, and exactly when the trimmed
  text is a \<open>sha256digest=\<close> that is not followed by 64 hexadecimal digits, or unescapes to
  at most two periods and nothing else (so \<open>%2E\<close> is rejected like \<open>.\<close>).
\<close>
theorem fromEscapedString_errors:
  "case fromEscapedString x s i j of
     Inl e \<Rightarrow> (\<exists>what. e = ComponentError what) \<and> malformed_component x (trim x (chunk s i j))
   | Inr b \<Rightarrow> is_component b \<and> \<not> malformed_component x (trim x (chunk s i j))"
proof -
  define t where "t = trim x (chunk s i j)"
  define n where "n = length getSha256DigestUriPrefix"
  let ?d = "HexDecoder x (drop n t)"
  note defs = fromEscapedString_def t_def [symmetric] malformed_component_def Let_def
    n_def [symmetric]
  show ?thesis
  proof (cases "take n t = getSha256DigestUriPrefix")
    case False
    then show ?thesis
      using short_dots [of "unescape t"]
      by (auto simp: defs is_component_def isGeneric_def simp del: unescape.simps)
  next
    case pre: True
    show ?thesis
    proof (cases "length t = n + SHA256_DIGEST_SIZE * 2 \<and> length ?d = SHA256_DIGEST_SIZE")
      case True
      then obtain b where "fromImplicitSha256Digest_buffer ?d = Inr b" "is_component b"
        using digest_buffer_made [of ?d] by auto
      with True pre show ?thesis by (simp add: defs fromHex_def)
    next
      case False
      with pre show ?thesis by (auto simp: defs fromHex_def)
    qed
  qed
qed

section \<open>Wire encoding\<close>

context encoding_impl
begin

lemma Component_wireEncode_to_emits:
  assumes "wf_block c"
  shows "emitter emits (Component_wireEncode_to ops c) (tlv_bytes (m_type c) (value_bytes c))"
proof (cases "value_bytes c = []")
  case True
  have "emitter emits (Component_wireEncode_to ops c)
    (steps_bytes [\<lambda>_. varNumber_bytes 0, \<lambda>_. varNumber_bytes (ucast (m_type c))])"
    unfolding Component_wireEncode_to_def using True value_size_wf [OF assms]
    by (intro run_steps_emits) (simp add: emitter_intros)
  with True show ?thesis by (simp add: steps_bytes_2 tlv_bytes_def)
next
  case False
  have "emitter emits (Component_wireEncode_to ops c)
    (steps_bytes [\<lambda>_. value_bytes c, \<lambda>_. varNumber_bytes (of_nat (length (value_bytes c))),
       \<lambda>_. varNumber_bytes (ucast (m_type c))])"
    unfolding Component_wireEncode_to_def using False value_size_wf [OF assms]
    by (intro run_steps_emits) (simp add: emitter_intros)
  then show ?thesis by (simp add: steps_bytes_3 tlv_bytes_def)
qed

end

lemma Component_wireEncode_new:
  assumes "is_component c" "\<not> hasWire c"
  shows "Component_wireEncode c = Inr (tlv_block (m_type c) (value_bytes c))"
proof -
  have wf: "wf_block c" using assms by (simp add: is_component_def)
  have "Component_ofBlock (tlv_block (m_type c) (value_bytes c))
      = Inr (tlv_block (m_type c) (value_bytes c))"
    using assms value_size_wf [OF wf]
    by (auto simp: is_component_def Component_ofBlock_def isGeneric_def isImplicitSha256Digest_def)
  then show ?thesis
    using Encoder_block_exact [OF encoder.Component_wireEncode_to_emits [OF wf]] assms(2)
      emitter_length [OF estimator.Component_wireEncode_to_emits [OF wf]]
    by (simp add: Component_wireEncode_def Let_def del: length_tlv_bytes)
qed

text \<open>
  \<open>wireEncode\<close> of a component that has no wire yet produces one of exactly the estimated
  size, holding the TLV of its type and value; \<open>wireDecode\<close> of that block gives the same
  component, and a second \<open>wireEncode\<close> returns the cached wire.
\<close>
theorem Component_wire_roundtrip:
  assumes "is_component c" "\<not> hasWire c"
  shows "\<exists>w. Component_wireEncode c = Inr w \<and> hasWire w
     \<and> wire_bytes w = tlv_bytes (m_type c) (value_bytes c)
     \<and> fst (Component_wireEncode_to EncodingEstimator c ()) = length (wire_bytes w)
     \<and> Component_wireDecode w = Inr w \<and> comp_of w = comp_of c \<and> Component_wireEncode w = Inr w"
proof -
  have wf: "wf_block c" using assms by (simp add: is_component_def)
  have "Component_wireDecode (tlv_block (m_type c) (value_bytes c))
      = Inr (tlv_block (m_type c) (value_bytes c))"
    using assms value_size_wf [OF wf]
    by (auto simp: Component_wireDecode_def is_component_def Component_ofBlock_def isGeneric_def
        isImplicitSha256Digest_def)
  then show ?thesis
    using Component_wireEncode_new [OF assms]
      emitter_length [OF estimator.Component_wireEncode_to_emits [OF wf]]
    by (simp add: comp_of_def Component_wireEncode_def [of "tlv_block _ _"] del: length_tlv_bytes)
qed

theorem Component_wire_roundtrip_witness:
  "\<exists>w. Component_wireEncode Component_default = Inr w \<and> wire_bytes w = [8, 0]"
proof -
  have "wf_block Component_default"
    unfolding Component_default_def
    by (rule wf_block_leaf) (simp_all add: Block_ofType_def wf_defs block_defs)
  then have "is_component Component_default" "\<not> hasWire Component_default"
    "tlv_bytes (m_type Component_default) (value_bytes Component_default) = [8, 0]"
    by (simp_all add: is_component_def isGeneric_def Component_default_def Block_ofType_def
        block_defs tlv_codes tlv_bytes_def writeVarNumber_def)
  then show ?thesis using Component_wire_roundtrip [of Component_default] by auto
qed

text \<open>
  \<open>Component::equals\<close> looks at the value only, so a generic component and an implicit digest
  with the same 32 bytes are \<open>==\<close> although \<open>compare\<close> orders them strictly.
\<close>
theorem Component_equals_ignores_type:
  "\<exists>a b. is_component a \<and> is_component b \<and> isGeneric a \<and> isImplicitSha256Digest b
     \<and> Component_equals a b \<and> Component_compare a b = 1"
proof -
  let ?v = "replicate SHA256_DIGEST_SIZE (0 :: byte)"
  let ?a = "tlv_block tlv_NameComponent ?v"
  let ?b = "tlv_block tlv_ImplicitSha256DigestComponent ?v"
  have "is_component ?a" "is_component ?b" "isGeneric ?a" "isImplicitSha256Digest ?b"
    by (simp_all add: is_component_def isGeneric_def isImplicitSha256Digest_def)
  moreover have "Component_equals ?a ?b" by (simp add: Component_equals_def)
  moreover have "Component_compare ?a ?b = 1"
    by (simp add: Component_compare_def tlv_codes)
  ultimately show ?thesis by blast
qed

end
