(* ===== verification/WireElement.thy ===== *)
theory WireElement
  imports BlockHelpers
begin

text \<open>
  What the classes with a wire format share: encoders whose steps can throw, the way from an encoded value
  back to its elements, and the contract of \<open>wireEncode\<close> and \<open>wireDecode\<close> as the locales \<open>wire_element\<close> and
  \<open>wire_codec\<close>, which every class from \<open>Name\<close> on interprets.
\<close>

section \<open>Encoding steps that can throw\<close>

type_synonym 'e stepE = "nat \<Rightarrow> 'e \<Rightarrow> (nat \<times> 'e) result"

definition plus_stepE :: "'e stepE \<Rightarrow> (nat \<times> 'e) result \<Rightarrow> (nat \<times> 'e) result" where
  "plus_stepE f acc = bindE acc (\<lambda>(totalLength, e). bindE (f totalLength e) (\<lambda>(n, e'). Inr (totalLength + n, e')))"

definition run_stepsE :: "'e stepE list \<Rightarrow> 'e \<Rightarrow> (nat \<times> 'e) result" where
  "run_stepsE fs e = fold plus_stepE fs (Inr (0, e))"

text \<open>The common form of \<open>wireEncode()\<close>: estimate, encode into a buffer of that size, take the block.\<close>

definition encode_block ::
    "(unit \<Rightarrow> (nat \<times> unit) result) \<Rightarrow> (encoder \<Rightarrow> (nat \<times> encoder) result) \<Rightarrow> block result" where
  "encode_block est enc =
     bindE (est ()) (\<lambda>(estimatedSize, _).
     bindE (enc (Encoder_new estimatedSize 0)) (\<lambda>(_, buffer). Encoder_block buffer True))"

text \<open>The last two steps of every encoder: TLV-LENGTH and TLV-TYPE.\<close>

definition header_steps :: "'e EncodingImpl \<Rightarrow> u32 \<Rightarrow> 'e stepE list" where
  "header_steps ops type =
     [\<lambda>totalLength e. Inr (op_prependVarNumber ops e (of_nat totalLength)),
      \<lambda>_ e. Inr (op_prependVarNumber ops e (ucast type))]"

abbreviation elements_bytes :: "(u32 \<times> byte list) list \<Rightarrow> byte list" where
  "elements_bytes es \<equiv> concat (map (\<lambda>(t, v). tlv_bytes t v) es)"

lemma run_stepsE_total:
  assumes "list_all2 (\<lambda>f g. \<forall>t e. f t e = Inr (g t e)) fs gs"
  shows "run_stepsE fs e = Inr (run_steps gs e)"
proof -
  have "fold plus_stepE fs (Inr p) = Inr (fold plus_step gs p)" for p
    using assms
    by (induction fs gs arbitrary: p rule: list_all2_induct)
      (simp_all add: plus_stepE_def plus_step_def split_beta)
  then show ?thesis by (simp add: run_stepsE_def run_steps_def)
qed

definition emitterE ::
    "('e \<Rightarrow> byte list \<Rightarrow> 'e \<Rightarrow> bool) \<Rightarrow> ('e \<Rightarrow> (nat \<times> 'e) result) \<Rightarrow> byte list \<Rightarrow> bool" where
  "emitterE emits f bs \<longleftrightarrow> (\<exists>g. (\<forall>e. f e = Inr (g e)) \<and> emitter emits g bs)"

lemma emitterE_Inr: "emitter emits g bs \<Longrightarrow> emitterE emits (\<lambda>e. Inr (g e)) bs"
  by (auto simp: emitterE_def)

lemma steps_bytes_rev:
  "steps_bytes (map (\<lambda>c _. f c) (rev cs) @ gs) =
     fold (\<lambda>g bs. g (length bs) @ bs) gs (concat (map f cs))"
proof -
  have "fold (\<lambda>g bs. g (length bs) @ bs) (map (\<lambda>c _. f c) (rev cs)) acc = concat (map f cs) @ acc"
    for acc by (induction cs arbitrary: acc) simp_all
  then show ?thesis by (simp add: steps_bytes_def)
qed

context encoding_impl
begin

lemma run_stepsE_emits:
  assumes "list_all2 (\<lambda>f g. \<forall>t. emitterE emits (f t) (g t)) fs gs"
  shows "emitterE emits (run_stepsE fs) (steps_bytes gs)"
proof -
  have "\<exists>hs. list_all2 (\<lambda>f h. \<forall>t e. f t e = Inr (h t e)) fs hs
      \<and> list_all2 (\<lambda>h g. \<forall>t. emitter emits (h t) (g t)) hs gs"
    using assms
  proof (induction rule: list_all2_induct)
    case (Cons f fs g gs)
    then obtain hs where hs: "list_all2 (\<lambda>f h. \<forall>t e. f t e = Inr (h t e)) fs hs"
      "list_all2 (\<lambda>h g. \<forall>t. emitter emits (h t) (g t)) hs gs" by blast
    have "\<forall>t. \<exists>h. (\<forall>e. f t e = Inr (h e)) \<and> emitter emits h (g t)"
      using Cons.hyps(1) by (simp add: emitterE_def)
    then obtain h where "\<forall>t. (\<forall>e. f t e = Inr (h t e)) \<and> emitter emits (h t) (g t)" by metis
    with hs show ?case by (intro exI [of _ "h # hs"]) simp
  qed simp
  then obtain hs where hs: "list_all2 (\<lambda>f h. \<forall>t e. f t e = Inr (h t e)) fs hs"
    "list_all2 (\<lambda>h g. \<forall>t. emitter emits (h t) (g t)) hs gs" by blast
  show ?thesis unfolding emitterE_def
    using run_stepsE_total [OF hs(1)] run_steps_emits [OF hs(2)]
    by (intro exI [of _ "run_steps hs"]) simp
qed

text \<open>Steps that prepend the elements of a value from the last to the first, without and with the header.\<close>

lemma plain_steps_emit:
  assumes "list_all2 (\<lambda>f (t, v). \<forall>n. emitterE emits (f n) (tlv_bytes t v)) fs (rev es)"
  shows "emitterE emits (run_stepsE fs) (elements_bytes es)"
proof -
  have "list_all2 (\<lambda>f g. \<forall>t. emitterE emits (f t) (g t)) fs (map (\<lambda>(t, v) (_ :: nat). tlv_bytes t v) (rev es))"
    unfolding list_all2_map2 using assms by (rule list.rel_mono_strong) auto
  from run_stepsE_emits [OF this] show ?thesis
    using steps_bytes_rev [of "\<lambda>(t, v). tlv_bytes t v" es "[]"] by (simp add: split_beta')
qed

lemma element_steps_emit:
  assumes "list_all2 (\<lambda>f (t, v). \<forall>n. emitterE emits (f n) (tlv_bytes t v)) fs (rev es)"
  shows "emitterE emits (run_stepsE (fs @ header_steps ops type)) (tlv_bytes type (elements_bytes es))"
proof -
  let ?R = "list_all2 (\<lambda>f g. \<forall>t. emitterE emits (f t) (g t))"
  let ?hdr = "[\<lambda>n. varNumber_bytes (of_nat n), \<lambda>_. varNumber_bytes (ucast type)]"
  have "?R fs (map (\<lambda>(t, v) (_ :: nat). tlv_bytes t v) (rev es))"
    unfolding list_all2_map2 using assms by (rule list.rel_mono_strong) auto
  moreover have "?R (header_steps ops type) ?hdr"
    using varNumber by (simp add: header_steps_def emitterE_Inr)
  ultimately have "emitterE emits (run_stepsE (fs @ header_steps ops type))
      (steps_bytes (map (\<lambda>(t, v) (_ :: nat). tlv_bytes t v) (rev es) @ ?hdr))"
    by (intro run_stepsE_emits list_all2_appendI)
  moreover have "steps_bytes (map (\<lambda>(t, v) (_ :: nat). tlv_bytes t v) (rev es) @ ?hdr) = tlv_bytes type (elements_bytes es)"
    using steps_bytes_rev [of "\<lambda>(t, v). tlv_bytes t v" es ?hdr] by (simp add: split_beta' tlv_bytes_def)
  ultimately show ?thesis by simp
qed

end

lemma encode_block_eq:
  assumes "emitterE est_emits est (tlv_bytes t v)" "emitterE enc_emits enc (tlv_bytes t v)"
  shows "encode_block est enc = Inr (tlv_block t v)"
proof -
  obtain f g where f: "\<And>e. est e = Inr (f e)" "emitter est_emits f (tlv_bytes t v)"
    and g: "\<And>e. enc e = Inr (g e)" "emitter enc_emits g (tlv_bytes t v)"
    using assms by (auto simp: emitterE_def)
  show ?thesis
    using emitter_length [OF f(2)] Encoder_block_exact [OF g(2)]
    by (simp add: encode_block_def f(1) g(1) split_beta del: length_tlv_bytes)
qed

section \<open>Appending and prepending\<close>

lemma plus_stepE_simps:
  "plus_stepE f (Inl err) = Inl err"
  "plus_stepE f (Inr (k, e)) = bindE (f k e) (\<lambda>(n, e'). Inr (k + n, e'))"
  by (simp_all add: plus_stepE_def)

lemma fold_plus_stepE_Inl [simp]: "fold plus_stepE fs (Inl err) = Inl err"
  by (induction fs) (simp_all add: plus_stepE_simps)

lemma run_stepsE_append:
  "run_stepsE (fs @ gs) e =
     bindE (run_stepsE fs e) (\<lambda>(k, e1).
     bindE (run_stepsE (map (\<lambda>g t. g (k + t)) gs) e1) (\<lambda>(n, e2). Inr (k + n, e2)))"
proof -
  have shift: "fold plus_stepE gs (Inr (k + n, e1)) =
      bindE (fold plus_stepE (map (\<lambda>g t. g (k + t)) gs) (Inr (n, e1))) (\<lambda>(n, e2). Inr (k + n, e2))" for k n e1
  proof (induction gs arbitrary: n e1)
    case (Cons g gs)
    show ?case
      using Cons.IH by (cases "g (k + n) e1") (auto simp: plus_stepE_simps add.assoc)
  qed simp
  from shift [of _ 0] show ?thesis
    by (cases "run_stepsE fs e") (auto simp: run_stepsE_def)
qed

lemma emitterE_run:
  assumes "emitterE emits f bs"
  obtains e' where "f e = Inr (length bs, e')" "emits e bs e'"
proof -
  obtain g where "f e = Inr (g e)" "fst (g e) = length bs" "emits e bs (snd (g e))"
    using assms by (auto simp: emitterE_def emitter_def)
  then show ?thesis using that by (metis prod.collapse)
qed

context encoding_impl_append
begin

lemma append_steps_emit:
  assumes "list_all2 (\<lambda>f bs. \<forall>n. emitterE appends (f n) bs) fs bss"
  shows "\<exists>e'. run_stepsE fs e = Inr (length (concat bss), e') \<and> appends e (concat bss) e'"
proof -
  have "\<exists>e'. fold plus_stepE fs (Inr (k, e)) = Inr (k + length (concat bss), e') \<and> appends e (concat bss) e'" for k
    using assms
  proof (induction fs bss arbitrary: k e rule: list_all2_induct)
    case Nil
    show ?case using appends_nil by simp
  next
    case (Cons f fs bs bss)
    obtain e1 where e1: "f k e = Inr (length bs, e1)" "appends e bs e1"
      using emitterE_run Cons.hyps(1) by metis
    obtain e' where "fold plus_stepE fs (Inr (k + length bs, e1)) = Inr (k + length bs + length (concat bss), e')"
      "appends e1 (concat bss) e'" using Cons.IH by blast
    with e1 appends_trans [OF e1(2)] show ?case by (auto simp: plus_stepE_simps add.assoc)
  qed
  from this [of 0] show ?thesis by (simp add: run_stepsE_def)
qed

text \<open>
  Steps that append some elements, prepend others, and end with the header, which counts both.
\<close>

lemma two_sided_steps_emit:
  assumes "list_all2 (\<lambda>f (t, v). \<forall>n. emitterE appends (f n) (tlv_bytes t v)) fs es"
    and "list_all2 (\<lambda>f (t, v). \<forall>n. emitterE emits (f n) (tlv_bytes t v)) gs (rev ds)"
  shows "\<exists>pre e1 e2. pre @ elements_bytes es = tlv_bytes type (elements_bytes (ds @ es))
     \<and> run_stepsE (fs @ gs @ header_steps ops type) e = Inr (length (pre @ elements_bytes es), e2)
     \<and> appends e (elements_bytes es) e1 \<and> emits e1 pre e2"
proof -
  let ?k = "length (elements_bytes es)"
  have "list_all2 (\<lambda>f bs. \<forall>n. emitterE appends (f n) bs) fs (map (\<lambda>(t, v). tlv_bytes t v) es)"
    unfolding list_all2_map2 using assms(1) by (rule list.rel_mono_strong) auto
  then obtain e1 where e1: "run_stepsE fs e = Inr (?k, e1)" "appends e (elements_bytes es) e1"
    using append_steps_emit by blast
  let ?R = "list_all2 (\<lambda>f g. \<forall>t. emitterE emits (f t) (g t))"
  let ?hdr = "[\<lambda>n. varNumber_bytes (of_nat (?k + n)), \<lambda>_. varNumber_bytes (ucast type)]"
  let ?vals = "map (\<lambda>(t, v) (_ :: nat). tlv_bytes t v) (rev ds)"
  have "?R (map (\<lambda>g t. g (?k + t)) gs) ?vals"
    unfolding list_all2_map2 list.rel_map using assms(2) by (rule list.rel_mono_strong) auto
  moreover have "?R (map (\<lambda>g t. g (?k + t)) (header_steps ops type)) ?hdr"
    using varNumber by (simp add: header_steps_def emitterE_Inr)
  ultimately have "emitterE emits (run_stepsE (map (\<lambda>g t. g (?k + t)) (gs @ header_steps ops type)))
      (steps_bytes (?vals @ ?hdr))"
    unfolding map_append by (intro run_stepsE_emits list_all2_appendI)
  moreover define pre where "pre = steps_bytes (?vals @ ?hdr)"
  ultimately have "emitterE emits (run_stepsE (map (\<lambda>g t. g (?k + t)) (gs @ header_steps ops type))) pre"
    by (simp only: pre_def)
  then obtain e2 where e2: "run_stepsE (map (\<lambda>g t. g (?k + t)) (gs @ header_steps ops type)) e1
      = Inr (length pre, e2)" "emits e1 pre e2"
    by (rule emitterE_run)
  have "pre @ elements_bytes es = tlv_bytes type (elements_bytes (ds @ es))"
    using steps_bytes_rev [of "\<lambda>(t, v). tlv_bytes t v" ds ?hdr]
    by (simp add: pre_def split_beta' tlv_bytes_def add.commute)
  moreover have "run_stepsE (fs @ gs @ header_steps ops type) e = Inr (length (pre @ elements_bytes es), e2)"
    unfolding run_stepsE_append [of fs] e1(1) using e2(1) by (simp add: add.commute)
  ultimately show ?thesis using e1(2) e2(2) by blast
qed

end

lemma Encoder_new_empty: "enc_inv (Encoder_new n 0)" "contents (Encoder_new n 0) = []"
  by (simp_all add: Encoder_new_def enc_inv_def contents_def Let_def)

lemma encode_block_two_sided:
  assumes "est () = Inr p" "enc (Encoder_new (fst p) 0) = Inr (m, e2)"
    and "enc_appends (Encoder_new (fst p) 0) post e1" "enc_emits e1 pre e2" "pre @ post = tlv_bytes t v"
  shows "\<exists>b. encode_block est enc = Inr b \<and> wf_block b \<and> hasWire b \<and> type_value b = (t, v)
     \<and> wire_bytes b = tlv_bytes t v \<and> m_subBlocks b = []"
proof -
  have "enc_inv e2" "contents e2 = tlv_bytes t v"
    using assms(3-5) Encoder_new_empty by (auto simp: enc_appends_def enc_emits_def)
  from Encoder_block_contents [OF this] show ?thesis
    using assms(1,2) by (simp add: encode_block_def split_beta)
qed

section \<open>From the value back to the elements\<close>

text \<open>
  A block as it comes from a buffer or from the element list of a parsed block: with a wire, not parsed yet.
\<close>

definition fresh :: "block \<Rightarrow> bool" where
  "fresh b \<longleftrightarrow> wf_block b \<and> hasWire b \<and> m_subBlocks b = [] \<and> length (wire_bytes b) < 2 ^ 64"

lemma fresh_value: "fresh b \<Longrightarrow> length (value_bytes b) < 2 ^ 64"
  using value_le_wire [of b] by (simp add: fresh_def)

lemma fresh_tlv_block [simp]: "fresh (tlv_block t v) \<longleftrightarrow> length (tlv_bytes t v) < 2 ^ 64"
  by (simp add: fresh_def del: length_tlv_bytes)

lemma hasWire_hasValue: "hasWire b \<Longrightarrow> hasValue b"
  by (simp add: hasWire_def hasValue_def)

lemma Block_whole_tlv:
  assumes "length (tlv_bytes t v) < 2 ^ 64"
  obtains b where "Block_whole (tlv_bytes t v) = Inr b" "fresh b" "type_value b = (t, v)"
proof -
  let ?bs = "tlv_bytes t v"
  obtain b where b: "Block_whole ?bs = Inr b" "wf_block b" "hasWire b" "type_value b = (t, v)" "m_subBlocks b = []"
    using Block_range_tlv [of ?bs 0 "length ?bs"] by (auto simp: Block_whole_range simp del: length_tlv_bytes)
  moreover have "wire_bytes b = ?bs"
    using b(1) by (auto simp: Block_whole_range Block_range_Inr Block_parts_def buffer_of_def wire_bytes_def
        simp del: length_tlv_bytes)
  ultimately show ?thesis using that assms by (simp add: fresh_def del: length_tlv_bytes)
qed

lemma parse_loop_parts:
  assumes "\<forall>s \<in> set acc. buffer_of s = buf \<and> m_subBlocks s = []"
  shows "\<forall>s \<in> set (snd (parse_loop buf i j acc)). buffer_of s = buf \<and> m_subBlocks s = []"
  using assms
proof (induction buf i j acc rule: parse_loop.induct)
  case (1 buf i j acc)
  show ?case
  proof (cases "\<exists>t r1 len r2. i \<noteq> j \<and> readType_throw (chunk buf i j) = Inr (t, r1)
      \<and> readVarNumber_throw r1 = Inr (len, r2) \<and> \<not> len > of_nat (length r2)")
    case True
    then obtain t r1 len r2 where *: "i \<noteq> j" "readType_throw (chunk buf i j) = Inr (t, r1)"
      "readVarNumber_throw r1 = Inr (len, r2)" "\<not> len > of_nat (length r2)" by blast
    have "\<forall>s \<in> set (acc @ [Block_parts buf t i (j - length r2 + unat len) (j - length r2) (j - length r2 + unat len)]).
        buffer_of s = buf \<and> m_subBlocks s = []"
      using "1.prems" by (simp add: Block_parts_def buffer_of_def)
    from "1.IH" [OF *(1,2) refl *(3) refl *(4) refl refl this] show ?thesis
      using * by (subst parse_loop.simps) (simp add: Let_def)
  next
    case False
    with "1.prems" show ?thesis
      by (subst parse_loop.simps) (simp split: sum.split prod.split, blast)
  qed
qed

lemma parse_parts:
  assumes "m_subBlocks b = []" "s \<in> set (m_subBlocks (snd (parse b)))"
  shows "buffer_of s = buffer_of b \<and> m_subBlocks s = []"
proof (cases "value_size b = 0")
  case False
  then have "m_subBlocks (snd (parse b)) = snd (parse_loop (buffer_of b) (m_value_begin b) (m_value_end b) [])"
    using assms(1) by (simp add: parse_def split_beta)
  then show ?thesis
    using assms(2) parse_loop_parts [of "[]" "buffer_of b" "m_value_begin b" "m_value_end b"]
    by (metis empty_iff list.set(1))
qed (use assms in \<open>simp add: parse_def\<close>)

lemma parse_fresh:
  assumes "fresh w" "value_bytes w = elements_bytes es"
  obtains b where "parse w = (None, b)" "map type_value (m_subBlocks b) = es"
    "\<forall>s \<in> set (m_subBlocks b). fresh s" "m_type b = m_type w" "hasWire b" "wf_block b"
    "value_bytes b = value_bytes w" "parse b = (None, b)" "wire_bytes b = wire_bytes w"
proof -
  have w: "wf_block w" "hasWire w" "m_subBlocks w = []" "length (value_bytes w) < 2 ^ 64" "hasValue w"
    using assms(1) fresh_value [OF assms(1)] by (auto simp: fresh_def hasWire_def hasValue_def)
  have it: "iterators_ok w" using w(1) wf_block_iff [of w] by simp
  obtain b where b: "parse w = (None, b)" "map type_value (m_subBlocks b) = es"
    using parse_complete [OF it w(5,3,4) assms(2)] by (cases "parse w") auto
  have cat: "concat (map block_bytes (m_subBlocks b)) = value_bytes w"
    "\<forall>s \<in> set (m_subBlocks b). wf_block s \<and> hasWire s \<and> m_subBlocks s = []"
    using parse_elements [OF w(1) _ w(3)] parse_parts [OF w(3)] b(1) by auto
  have "length (block_bytes s) \<le> length (value_bytes w)" if "s \<in> set (m_subBlocks b)" for s
    unfolding cat(1) [symmetric] by (rule length_concat_member) (use that in simp)
  with cat(2) w(4) have sub: "\<forall>s \<in> set (m_subBlocks b). fresh s"
    by (fastforce simp: fresh_def block_bytes_def)
  have views: "m_type b = m_type w" "hasWire b" "value_bytes b = value_bytes w" "value_size b = value_size w"
    "wire_bytes b = wire_bytes w"
    using block_views_cong [of b w] parse_sel [of w] b(1) w(2) by simp_all
  moreover have "m_subBlocks b \<noteq> [] \<or> value_size b = 0"
    using b(2) assms(2) value_size_wf [OF w(1)] views(4) by (cases "m_subBlocks b") simp_all
  then have "parse b = (None, b)" by (simp add: parse_def)
  ultimately show ?thesis
    using that [OF b sub] parse_wf [OF w(1)] b(1) by simp
qed

text \<open>
  \<open>val = m_wire.find(t); if (val != m_wire.elements_end()) ...\<close>, with the element for \<open>*val\<close>. On the elements'
  types and values it is \<open>map_of\<close>.
\<close>

definition find_element :: "u32 \<Rightarrow> block \<Rightarrow> block option" where
  "find_element t b =
     (let val = Block_find t b
      in if val \<noteq> length (m_subBlocks b) then Some (m_subBlocks b ! val) else None)"

text \<open>
  Decoding as a sequence of steps, each of which may throw and leave the object as far as it got.
\<close>

type_synonym 's decoder = "'s \<Rightarrow> error option \<times> 's"

fun run_decoders :: "'s decoder list \<Rightarrow> 's decoder" where
  "run_decoders [] s = (None, s)"
| "run_decoders (f # fs) s = (case f s of (None, s) \<Rightarrow> run_decoders fs s | (Some err, s) \<Rightarrow> (Some err, s))"

definition decode_element :: "block \<Rightarrow> u32 \<Rightarrow> (block \<Rightarrow> 's decoder) \<Rightarrow> 's decoder" where
  "decode_element b t f s = (case find_element t b of None \<Rightarrow> (None, s) | Some val \<Rightarrow> f val s)"

definition decode_number :: "(u64 \<Rightarrow> 's \<Rightarrow> 's) \<Rightarrow> block \<Rightarrow> 's decoder" where
  "decode_number assign val s =
     (case block_readNonNegativeInteger val of Inl err \<Rightarrow> (Some err, s) | Inr n \<Rightarrow> (None, assign n s))"

lemma find_element_None:
  assumes "map type_value (m_subBlocks b) = es" "map_of es t = None"
  shows "find_element t b = None"
proof -
  have "\<forall>s \<in> set (m_subBlocks b). m_type s \<noteq> t"
    using assms by (auto simp: map_of_eq_None_iff type_value_def image_iff)
  then show ?thesis by (simp add: find_element_def Block_find_eq_length_iff)
qed

lemma find_element_Some:
  assumes "map type_value (m_subBlocks b) = es" "map_of es t = Some v" "\<forall>s \<in> set (m_subBlocks b). fresh s"
  obtains s where "find_element t b = Some s" "fresh s" "type_value s = (t, v)"
proof -
  have "length (takeWhile (\<lambda>s. m_type s \<noteq> t) xs) < length xs
      \<and> type_value (xs ! length (takeWhile (\<lambda>s. m_type s \<noteq> t) xs)) = (t, v)"
    if "map_of (map type_value xs) t = Some v" for xs
    using that by (induction xs) (auto simp: type_value_def split: if_splits)
  from this [of "m_subBlocks b"] show ?thesis
    using that assms by (simp add: find_element_def Block_find_def)
qed

lemma read_element:
  assumes "wf_block s" "type_value s = (t, nni_bytes n)"
  shows "block_readNonNegativeInteger s = Inr n"
  using assms readNonNegativeInteger_nni [of n "[]"] value_size_wf [OF assms(1)]
  by (simp add: block_readNonNegativeInteger_def type_value_def)

lemma decode_element_None:
  assumes "map type_value (m_subBlocks b) = es" "map_of es t = None"
  shows "decode_element b t f s = (None, s)"
  using find_element_None [OF assms] by (simp add: decode_element_def)

lemma decode_element_number:
  assumes "map type_value (m_subBlocks b) = es" "map_of es t = Some (nni_bytes n)"
    and "\<forall>s \<in> set (m_subBlocks b). fresh s"
  shows "decode_element b t (decode_number assign) s = (None, assign n s)"
proof -
  obtain val where "find_element t b = Some val" "fresh val" "type_value val = (t, nni_bytes n)"
    using find_element_Some [OF assms] .
  then show ?thesis
    using read_element [of val t n] by (simp add: decode_element_def decode_number_def fresh_def)
qed

lemma blockFromValue_tlv:
  assumes "wf_block b" "hasValue b" "value_bytes b = tlv_bytes t v"
  obtains c where "blockFromValue b = Inr c" "wf_block c" "hasWire c" "type_value c = (t, v)"
proof -
  have it: "iterators_ok b" using assms(1) wf_block_iff [of b] by simp
  then have "m_value_end b \<le> length (buffer_of b)" using assms(2) by (simp add: iterators_ok_def)
  then obtain c where c: "Block_range (buffer_of b) (m_value_begin b) (m_value_end b) True = Inr c"
    "wf_block c" "hasWire c" "type_value c = (t, v)"
    using Block_range_tlv [of "buffer_of b" "m_value_begin b" "m_value_end b" t v] assms(3)
    by (auto simp: value_bytes_def)
  have "value_size b \<noteq> 0" 
    using value_size_wf [OF assms(1)] assms(3) by (simp del: length_tlv_bytes)
  moreover obtain t' r where hdr: "readHeader (value_bytes b) = Inr (t', of_nat (length r), r)"
    "c = Block_parts (buffer_of b) t' (m_value_begin b) (m_value_end b) (m_value_end b - length r) (m_value_end b)"
    using c(1) by (auto simp: Block_range_Inr value_bytes_def)
  ultimately have "blockFromValue b = Inr c"
    by (auto simp: blockFromValue_def readHeader_def bindE_eq_Inr_iff split: prod.splits)
  then show ?thesis using that c by blast
qed

text \<open>A block of a given type that \<open>prependBlock\<close> writes with a canonical header.\<close>

definition canonical :: "u32 \<Rightarrow> block \<Rightarrow> bool" where
  "canonical t b \<longleftrightarrow> sendable b \<and> m_type b = t \<and> block_bytes b = tlv_bytes t (value_bytes b)"

lemma canonical_tlv_block [simp]: "canonical t (tlv_block t v) \<longleftrightarrow> length (tlv_bytes t v) < 2 ^ 32"
  by (simp add: canonical_def sendable_def del: length_tlv_bytes)

section \<open>Equality of wires\<close>

lemma tlv_bytes_inject: "tlv_bytes t v = tlv_bytes t' v' \<longleftrightarrow> t = t' \<and> v = v'"
proof
  assume "tlv_bytes t v = tlv_bytes t' v'"
  then have "readHeader (tlv_bytes t v @ []) = readHeader (tlv_bytes t' v' @ [])" by (rule arg_cong)
  then show "t = t' \<and> v = v'" unfolding readHeader_tlv_bytes by simp
qed simp

lemma Block_equal_wires:
  assumes "sendable b" "hasWire b" "sendable c" "hasWire c"
  shows "Block_equal b c = Inr (wire_bytes b = wire_bytes c)"
proof -
  have wire: "wire_bytes x = chunk (buffer_of x) (m_begin x) (m_end x) \<and> m_begin x \<le> m_end x
      \<and> m_end x \<le> length (buffer_of x) \<and> unat (m_size x) = length (wire_bytes x)"
    if "sendable x" "hasWire x" for x
    using that sendable_size [OF that] wf_block_iff [of x]
    by (simp add: sendable_def wire_bytes_def iterators_ok_def block_bytes_def hasWire_def hasValue_def)
  note wb = wire [OF assms(1,2)] and wc = wire [OF assms(3,4)]
  show ?thesis
  proof (cases "length (wire_bytes b) = length (wire_bytes c)")
    case True
    then have "m_begin c + (m_end b - m_begin b) = m_end c" using wb wc by simp
    with True show ?thesis
      using assms(2,4) wb wc by (simp add: Block_equal_def Block_size_def Block_begin_def Block_end_def)
  next
    case False
    then have "wire_bytes b \<noteq> wire_bytes c" by auto
    with False show ?thesis
      using assms(2,4) wb wc by (simp add: Block_equal_def Block_size_def)
  qed
qed

section \<open>The contract of a wire-decodable class\<close>

text \<open>
  \<open>decode\<close> is the \<open>wireDecode\<close> of a class, applied to an object and a wire; \<open>abs\<close> is the abstract value that
  an object stands for, \<open>value_of\<close> the canonical TLV value of an abstract value, and \<open>good\<close> the abstract values
  that the encoding can carry. \<open>ready\<close> restricts the object decoded into, \<open>valid\<close> is the
  invariant of decoded objects.
\<close>

locale wire_element =
  fixes tlv_type :: u32
    and value_of :: "'v \<Rightarrow> byte list"
    and good :: "'v \<Rightarrow> bool"
    and decode :: "'a \<Rightarrow> block \<Rightarrow> error option \<times> 'a"
    and ready :: "'a \<Rightarrow> bool"
    and abs :: "'a \<Rightarrow> 'v"
    and valid :: "'a \<Rightarrow> bool"
  assumes decodes:
    "fresh b \<Longrightarrow> type_value b = (tlv_type, value_of v) \<Longrightarrow> good v \<Longrightarrow> ready x0
     \<Longrightarrow> \<exists>x. decode x0 b = (None, x) \<and> abs x = v \<and> valid x"
begin

lemma decode_bytes:
  assumes "good v" "ready x0" "length (tlv_bytes tlv_type (value_of v)) < 2 ^ 64"
  shows "\<exists>blk x. Block_whole (tlv_bytes tlv_type (value_of v)) = Inr blk
           \<and> decode x0 blk = (None, x) \<and> abs x = v \<and> valid x"
proof -
  obtain blk where "Block_whole (tlv_bytes tlv_type (value_of v)) = Inr blk" "fresh blk"
    "type_value blk = (tlv_type, value_of v)"
    using Block_whole_tlv [OF assms(3)] .
  with decodes [OF _ _ assms(1,2)] show ?thesis by blast
qed

text \<open>Decoding the element of the class inside another one.\<close>

lemma decode_nested:
  assumes "map type_value (m_subBlocks b) = es" "\<forall>s \<in> set (m_subBlocks b). fresh s"
    and "map_of es tlv_type = Some (value_of v)" "good v" "ready (get s)"
  shows "\<exists>x. decode_element b tlv_type (\<lambda>val s. case decode (get s) val of (err, x) \<Rightarrow> (err, put x s)) s
           = (None, put x s) \<and> abs x = v \<and> valid x"
proof -
  obtain val where val: "find_element tlv_type b = Some val" "fresh val" "type_value val = (tlv_type, value_of v)"
    using find_element_Some [OF assms(1,3,2)] .
  obtain x where "decode (get s) val = (None, x)" "abs x = v" "valid x"
    using decodes [OF val(2,3) assms(4,5)] by blast
  with val(1) show ?thesis by (auto simp: decode_element_def)
qed

lemma value_inject:
  assumes "good v" "good v'" "ready x0" "length (tlv_bytes tlv_type (value_of v)) < 2 ^ 64"
    and "value_of v = value_of v'"
  shows "v = v'"
  using decode_bytes [OF assms(1,3,4)] decode_bytes [OF assms(2,3)] assms(4,5) by auto

end

text \<open>
  The encoder of the class: an object without a cached wire is encoded canonically; the object then caches the block.
\<close>

locale wire_codec = wire_element tlv_type value_of good decode ready abs valid
  for tlv_type and value_of :: "'v \<Rightarrow> byte list" and good
    and decode :: "'a \<Rightarrow> block \<Rightarrow> error option \<times> 'a" and ready and abs and valid +
  fixes encode :: "'a \<Rightarrow> (block \<times> 'a) result"
    and wire :: "'a \<Rightarrow> block"
    and invar :: "'a \<Rightarrow> bool"
  assumes encodes:
    "invar x \<Longrightarrow> good (abs x) \<Longrightarrow> \<not> hasWire (wire x)
     \<Longrightarrow> length (tlv_bytes tlv_type (value_of (abs x))) < 2 ^ 64
     \<Longrightarrow> \<exists>x'. encode x = Inr (wire x', x') \<and> abs x' = abs x \<and> wf_block (wire x') \<and> hasWire (wire x')
           \<and> wire_bytes (wire x') = tlv_bytes tlv_type (value_of (abs x))"
    and encode_cached: "hasWire (wire x) \<Longrightarrow> encode x = Inr (wire x, x)"
begin

lemma roundtrip:
  assumes "invar x" "good (abs x)" "\<not> hasWire (wire x)" "ready x0"
    and "length (tlv_bytes tlv_type (value_of (abs x))) < 2 ^ 64"
  shows "\<exists>w x' blk y. encode x = Inr (w, x') \<and> wire_bytes w = tlv_bytes tlv_type (value_of (abs x))
           \<and> abs x' = abs x \<and> encode x' = Inr (w, x')
           \<and> Block_whole (wire_bytes w) = Inr blk \<and> decode x0 blk = (None, y) \<and> abs y = abs x \<and> valid y"
proof -
  obtain x' where x': "encode x = Inr (wire x', x')" "abs x' = abs x" "hasWire (wire x')"
    "wire_bytes (wire x') = tlv_bytes tlv_type (value_of (abs x))"
    using encodes [OF assms(1-3,5)] by blast
  with encode_cached [OF x'(3)] decode_bytes [OF assms(2,4,5)] show ?thesis by auto
qed

text \<open>Comparing encodings compares abstract values: \<open>operator==\<close> of the class is right.\<close>

lemma encode_equal:
  assumes "invar x" "good (abs x)" "\<not> hasWire (wire x)" "invar y" "good (abs y)" "\<not> hasWire (wire y)"
    and "length (tlv_bytes tlv_type (value_of (abs x))) < 2 ^ 32" "ready x0"
    and "length (tlv_bytes tlv_type (value_of (abs y))) < 2 ^ 32"
  shows "\<exists>w x' w' y'. encode x = Inr (w, x') \<and> encode y = Inr (w', y')
           \<and> Block_equal w w' = Inr (abs x = abs y)"
proof -
  have len: "length (tlv_bytes tlv_type (value_of (abs x))) < 2 ^ 64"
    "length (tlv_bytes tlv_type (value_of (abs y))) < 2 ^ 64"
    using assms(7,9) by simp_all
  obtain x' where x': "encode x = Inr (wire x', x')" "wf_block (wire x')" "hasWire (wire x')"
    "wire_bytes (wire x') = tlv_bytes tlv_type (value_of (abs x))"
    using encodes [OF assms(1-3) len(1)] by blast
  obtain y' where y': "encode y = Inr (wire y', y')" "wf_block (wire y')" "hasWire (wire y')"
    "wire_bytes (wire y') = tlv_bytes tlv_type (value_of (abs y))"
    using encodes [OF assms(4-6) len(2)] by blast
  have "sendable (wire x')" "sendable (wire y')"
    using assms(7,9) x' y' by (simp_all add: sendable_def block_bytes_def del: length_tlv_bytes)
  then have "Block_equal (wire x') (wire y') = Inr (value_of (abs x) = value_of (abs y))"
    using Block_equal_wires x'(3,4) y'(3,4) by (simp add: tlv_bytes_inject)
  moreover have "value_of (abs x) = value_of (abs y) \<longleftrightarrow> abs x = abs y"
    using value_inject [OF assms(2,5,8) len(1)] by auto
  ultimately show ?thesis using x'(1) y'(1) by simp
qed

end

end
