(* ===== verification/Name.thy ===== *)
theory Name
  imports NameComponent WireElement
begin

text \<open>
  Names, after \<open>src/name.{hpp,cpp}\<close>.

  A \<open>Name\<close> is a block of type \<open>tlv::Name\<close> whose elements are its components. \<open>size_t\<close> is a
  64-bit word, \<open>ssize_t\<close> an \<^typ>\<open>int\<close> in the 64-bit range, and every conversion between them
  that the source makes is written out.
\<close>

record name =
  m_nameBlock :: block

definition npos :: u64 where
  "npos = - 1"

definition Name_default :: name where
  "Name_default = \<lparr>m_nameBlock = Block_ofType tlv_Name\<rparr>"

definition Name_clear :: "name \<Rightarrow> name" where
  "Name_clear n = n\<lparr>m_nameBlock := Block_ofType tlv_Name\<rparr>"

text \<open>The constructor from a block and \<open>wireDecode\<close>, which also checks the type.\<close>

definition Name_ofBlock :: "block \<Rightarrow> name result" where
  "Name_ofBlock wire =
     (case parse wire of
        (None, b) \<Rightarrow> Inr \<lparr>m_nameBlock = b\<rparr>
      | (Some e, _) \<Rightarrow> Inl e)"

definition Name_wireDecode :: "name \<Rightarrow> block \<Rightarrow> error option \<times> name" where
  "Name_wireDecode n wire =
     (if m_type wire \<noteq> tlv_Name
      then (Some (TlvError ''Unexpected TLV type when decoding Name''), n)
      else case parse wire of (err, b) \<Rightarrow> (err, n\<lparr>m_nameBlock := b\<rparr>))"

section \<open>Access to components\<close>

definition Name_empty :: "name \<Rightarrow> bool" where
  "Name_empty n = (m_subBlocks (m_nameBlock n) = [])"

definition Name_size :: "name \<Rightarrow> nat" where
  "Name_size n = length (m_subBlocks (m_nameBlock n))"

text \<open>\<open>elements()[i]\<close> has no bounds check.\<close>

definition Name_get :: "name \<Rightarrow> int \<Rightarrow> block result" where
  "Name_get n i =
     (let j = (if i \<ge> 0 then nat i else unat (of_nat (Name_size n) + of_int i :: u64))
      in if j < Name_size n then Inr (m_subBlocks (m_nameBlock n) ! j)
         else Inl (UndefinedBehaviour ''element access out of range''))"

definition Name_at :: "name \<Rightarrow> int \<Rightarrow> block result" where
  "Name_at n i =
     (if (i \<ge> 0 \<and> unat (of_int i :: u64) \<ge> Name_size n) \<or>
         (i < 0 \<and> unat (of_int (- i) :: u64) > Name_size n)
      then Inl (NameError ''Requested component does not exist (out of bounds)'')
      else Name_get n i)"

section \<open>Appending\<close>

definition Name_append :: "name \<Rightarrow> block \<Rightarrow> name" where
  "Name_append n val = n\<lparr>m_nameBlock := push_back (m_nameBlock n) val\<rparr>"

definition Name_appendBytes :: "name \<Rightarrow> byte list \<Rightarrow> name result" where
  "Name_appendBytes n val = bindE (Component_ofBytes val) (\<lambda>c. Inr (Name_append n c))"

definition Name_appendString :: "name \<Rightarrow> string \<Rightarrow> name result" where
  "Name_appendString n val = bindE (Component_ofString val) (\<lambda>c. Inr (Name_append n c))"

definition Name_appendBlock :: "name \<Rightarrow> block \<Rightarrow> name result" where
  "Name_appendBlock n val =
     (if m_type val = tlv_NameComponent then Inr (Name_append n val)
      else bindE (Block_ofBlock tlv_NameComponent val) (\<lambda>b. Inr (Name_append n b)))"

text \<open>The loop \<open>for (i = ...; i < n; ++i) result.append(src.at(i))\<close>.\<close>

function append_range :: "name \<Rightarrow> nat \<Rightarrow> nat \<Rightarrow> name \<Rightarrow> name result" where
  "append_range src i n result =
     (if i < n then bindE (Name_at src (int i)) (\<lambda>c. append_range src (i + 1) n (Name_append result c))
      else Inr result)"
  by pat_completeness auto
termination
  by (relation "measure (\<lambda>(src, i, n, result). n - i)") auto

declare append_range.simps [simp del]

text \<open>Appending a name to itself works on a copy, so the argument is the value before the call.\<close>

definition Name_appendName :: "name \<Rightarrow> name \<Rightarrow> name result" where
  "Name_appendName n name = append_range name 0 (Name_size name) n"

definition appendNumber :: "name \<Rightarrow> u64 \<Rightarrow> name result" where
  "appendNumber n number = bindE (fromNumber number) (\<lambda>c. Inr (Name_append n c))"
definition appendNumberWithMarker :: "name \<Rightarrow> byte \<Rightarrow> u64 \<Rightarrow> name result" where
  "appendNumberWithMarker n marker number =
     bindE (fromNumberWithMarker marker number) (\<lambda>c. Inr (Name_append n c))"
definition appendVersion :: "name \<Rightarrow> u64 \<Rightarrow> name result" where
  "appendVersion n version = bindE (fromVersion version) (\<lambda>c. Inr (Name_append n c))"
definition appendSegment :: "name \<Rightarrow> u64 \<Rightarrow> name result" where
  "appendSegment n segmentNo = bindE (fromSegment segmentNo) (\<lambda>c. Inr (Name_append n c))"
definition appendSegmentOffset :: "name \<Rightarrow> u64 \<Rightarrow> name result" where
  "appendSegmentOffset n offset = bindE (fromSegmentOffset offset) (\<lambda>c. Inr (Name_append n c))"
definition appendTimestamp :: "name \<Rightarrow> u64 \<Rightarrow> name result" where
  "appendTimestamp n microseconds = bindE (fromTimestamp microseconds) (\<lambda>c. Inr (Name_append n c))"
definition appendSequenceNumber :: "name \<Rightarrow> u64 \<Rightarrow> name result" where
  "appendSequenceNumber n seqNo = bindE (fromSequenceNumber seqNo) (\<lambda>c. Inr (Name_append n c))"
definition appendImplicitSha256Digest_buffer :: "name \<Rightarrow> byte list \<Rightarrow> name result" where
  "appendImplicitSha256Digest_buffer n digest =
     bindE (fromImplicitSha256Digest_buffer digest) (\<lambda>c. Inr (Name_append n c))"
definition appendImplicitSha256Digest :: "name \<Rightarrow> byte list \<Rightarrow> name result" where
  "appendImplicitSha256Digest n digest =
     bindE (fromImplicitSha256Digest digest) (\<lambda>c. Inr (Name_append n c))"

section \<open>Sub-names and successor\<close>

definition getSubName :: "name \<Rightarrow> int \<Rightarrow> u64 \<Rightarrow> name result" where
  "getSubName n iStartComponent nComponents =
     (let iStart = (if iStartComponent < 0
                    then sint (of_nat (Name_size n) + of_int iStartComponent :: u64)
                    else iStartComponent);
          iEnd = Name_size n;
          iStart = max iStart 0;
          iEnd = (if nComponents \<noteq> npos
                  then min (Name_size n) (unat (of_int iStart + nComponents)) else iEnd)
      in append_range n (nat iStart) iEnd Name_default)"

definition getPrefix :: "name \<Rightarrow> int \<Rightarrow> name result" where
  "getPrefix n nComponents =
     (if nComponents < 0 then getSubName n 0 (of_nat (Name_size n) + of_int nComponents)
      else getSubName n 0 (of_int nComponents))"

definition Name_getSuccessor :: "name \<Rightarrow> name result" where
  "Name_getSuccessor n =
     (if Name_empty n then Name_appendBytes Name_default [0]
      else bindE (getPrefix n (- 1)) (\<lambda>p.
           bindE (Name_get n (- 1)) (\<lambda>c.
           bindE (Component_getSuccessor c) (\<lambda>s. Inr (Name_append p s)))))"

section \<open>Comparison\<close>

text \<open>The loop shared by \<open>equals\<close> and \<open>isPrefixOf\<close>.\<close>

function matches_loop :: "name \<Rightarrow> name \<Rightarrow> nat \<Rightarrow> nat \<Rightarrow> bool result" where
  "matches_loop a b i n =
     (if i < n then
        bindE (Name_at a (int i)) (\<lambda>c. bindE (Name_at b (int i)) (\<lambda>d.
          if \<not> Component_equals c d then Inr False else matches_loop a b (i + 1) n))
      else Inr True)"
  by pat_completeness auto
termination
  by (relation "measure (\<lambda>(a, b, i, n). n - i)") auto

declare matches_loop.simps [simp del]

definition Name_equals :: "name \<Rightarrow> name \<Rightarrow> bool result" where
  "Name_equals a b =
     (if Name_size a \<noteq> Name_size b then Inr False else matches_loop a b 0 (Name_size a))"

definition isPrefixOf :: "name \<Rightarrow> name \<Rightarrow> bool result" where
  "isPrefixOf a b =
     (if Name_size a > Name_size b then Inr False else matches_loop a b 0 (Name_size a))"

function compare_loop :: "name \<Rightarrow> name \<Rightarrow> u64 \<Rightarrow> u64 \<Rightarrow> nat \<Rightarrow> nat \<Rightarrow> int option result" where
  "compare_loop a b pos1 pos2 i n =
     (if i < n then
        bindE (Name_at a (sint (pos1 + of_nat i))) (\<lambda>c.
        bindE (Name_at b (sint (pos2 + of_nat i))) (\<lambda>d.
          let cmp = Component_compare c d
          in if cmp \<noteq> 0 then Inr (Some cmp) else compare_loop a b pos1 pos2 (i + 1) n))
      else Inr None)"
  by pat_completeness auto
termination
  by (relation "measure (\<lambda>(a, b, pos1, pos2, i, n). n - i)") auto

declare compare_loop.simps [simp del]

text \<open>\<open>return count1 - count2\<close> converts a \<open>size_t\<close> to a 32-bit \<open>int\<close>.\<close>

definition int32_of :: "u64 \<Rightarrow> int" where
  "int32_of w = sint (ucast w :: u32)"

definition Name_compareRange :: "name \<Rightarrow> u64 \<Rightarrow> u64 \<Rightarrow> name \<Rightarrow> u64 \<Rightarrow> u64 \<Rightarrow> int result" where
  "Name_compareRange a pos1 count1 other pos2 count2 =
     (let count1 = min count1 (of_nat (Name_size a) - pos1);
          count2 = min count2 (of_nat (Name_size other) - pos2);
          count = min count1 count2
      in bindE (compare_loop a other pos1 pos2 0 (unat count)) (\<lambda>r.
           case r of Some cmp \<Rightarrow> Inr cmp | None \<Rightarrow> Inr (int32_of (count1 - count2))))"

definition Name_compare :: "name \<Rightarrow> name \<Rightarrow> int result" where
  "Name_compare a other = Name_compareRange a 0 npos other 0 npos"

section \<open>URIs\<close>

definition Name_toUri :: "name \<Rightarrow> string" where
  "Name_toUri n =
     (if Name_empty n then ''/''
      else concat (map (\<lambda>c. ''/'' @ Component_toUri c) (m_subBlocks (m_nameBlock n))))"

text \<open>\<open>uri.find(c, from)\<close>; \<open>npos\<close> is \<^const>\<open>None\<close>.\<close>

definition find_char :: "char \<Rightarrow> nat \<Rightarrow> string \<Rightarrow> nat option" where
  "find_char c from uri =
     (let k = from + length (takeWhile (\<lambda>d. d \<noteq> c) (drop from uri))
      in if k < length uri then Some k else None)"

function construct_loop :: "ext \<Rightarrow> string \<Rightarrow> nat \<Rightarrow> name \<Rightarrow> name result" where
  "construct_loop x uri iComponentStart n =
     (if iComponentStart < length uri then
        (let iComponentEnd = (case find_char CHR ''/'' iComponentStart uri of
                                None \<Rightarrow> length uri | Some k \<Rightarrow> k)
         in bindE (fromEscapedString x uri iComponentStart iComponentEnd) (\<lambda>c.
              construct_loop x uri (iComponentEnd + 1) (Name_append n c)))
      else Inr n)"
  by pat_completeness auto
termination
  by (relation "measure (\<lambda>(x, uri, i, n). length uri - i)")
    (auto simp: find_char_def Let_def split: if_splits)

declare construct_loop.simps [simp del]

definition strip_scheme :: "ext \<Rightarrow> string \<Rightarrow> string" where
  "strip_scheme x uri =
     (case find_char CHR '':'' 0 uri of
        None \<Rightarrow> uri
      | Some iColon \<Rightarrow>
          (case find_char CHR ''/'' 0 uri of
             None \<Rightarrow> trim x (drop (iColon + 1) uri)
           | Some iFirstSlash \<Rightarrow>
               if iColon < iFirstSlash then trim x (drop (iColon + 1) uri) else uri))"

definition construct :: "ext \<Rightarrow> string \<Rightarrow> name result" where
  "construct x uriOrig =
     (let uri = trim x uriOrig
      in if length uri = 0 then Inr Name_default
         else
           let uri = strip_scheme x uri
           in if uri \<noteq> [] \<and> uri ! 0 = CHR ''/'' then
                if length uri \<ge> 2 \<and> uri ! 1 = CHR ''/'' then
                  (case find_char CHR ''/'' 2 uri of
                     None \<Rightarrow> Inr Name_default
                   | Some iAfterAuthority \<Rightarrow>
                       construct_loop x (trim x (drop (iAfterAuthority + 1) uri)) 0 Name_default)
                else construct_loop x (trim x (drop 1 uri)) 0 Name_default
              else construct_loop x uri 0 Name_default)"

text \<open>\<open>construct(uri.c_str())\<close> sees the string up to its first NUL character.\<close>

definition Name_ofString :: "ext \<Rightarrow> string \<Rightarrow> name result" where
  "Name_ofString x uri = construct x (takeWhile (\<lambda>c. c \<noteq> CHR 0x00) uri)"

text \<open>\<open>operator>>\<close>: a white-space delimited word of the stream, and the rest of the stream.\<close>

definition Name_fromIstream :: "ext \<Rightarrow> string \<Rightarrow> (name \<times> string) result" where
  "Name_fromIstream x is =
     (let s = dropWhile is_space is
      in bindE (Name_ofString x (takeWhile (\<lambda>c. \<not> is_space c) s)) (\<lambda>n.
           Inr (n, dropWhile (\<lambda>c. \<not> is_space c) s)))"

section \<open>Wire format\<close>

definition Name_wireEncode_to :: "'e EncodingImpl \<Rightarrow> name \<Rightarrow> 'e \<Rightarrow> nat \<times> 'e" where
  "Name_wireEncode_to ops n encoder =
     run_steps
       (map (\<lambda>c _ e. Component_wireEncode_to ops c e) (rev (m_subBlocks (m_nameBlock n))) @
        [\<lambda>totalLength e. op_prependVarNumber ops e (of_nat totalLength),
         \<lambda>_ e. op_prependVarNumber ops e (ucast tlv_Name)]) encoder"

definition Name_wireEncode :: "name \<Rightarrow> error option \<times> name" where
  "Name_wireEncode n =
     (if hasWire (m_nameBlock n) then (None, n)
      else let estimatedSize = fst (Name_wireEncode_to EncodingEstimator n ());
               buffer = Encoder_new estimatedSize 0;
               buffer = snd (Name_wireEncode_to EncodingBuffer n buffer)
           in case Encoder_block buffer True of
                Inl e \<Rightarrow> (Some e, n)
              | Inr b \<Rightarrow> (case parse b of (err, b) \<Rightarrow> (err, n\<lparr>m_nameBlock := b\<rparr>)))"

text \<open>\<open>std::hash<Name>\<close>; \<open>boost::hash_range\<close> is a parameter.\<close>

definition Name_hash :: "(byte list \<Rightarrow> nat) \<Rightarrow> name \<Rightarrow> nat result" where
  "Name_hash hash_range n =
     (case Name_wireEncode n of
        (Some e, _) \<Rightarrow> Inl e
      | (None, n) \<Rightarrow> Inr (hash_range (wire_bytes (m_nameBlock n))))"

section \<open>Abstract names\<close>

text \<open>
  A name stands for the list of its components; the canonical order on names is the
  lexicographic one. \<open>is_name\<close> is the invariant of a name whose elements are components.
\<close>

abbreviation comps :: "name \<Rightarrow> block list" where
  "comps n \<equiv> m_subBlocks (m_nameBlock n)"

definition name_of :: "name \<Rightarrow> comp list" where
  "name_of n = map comp_of (comps n)"

definition is_name :: "name \<Rightarrow> bool" where
  "is_name n \<longleftrightarrow> wf_block (m_nameBlock n) \<and> m_type (m_nameBlock n) = tlv_Name
     \<and> (\<forall>c \<in> set (comps n). is_component c)"

lemma length_name_of [simp]: "length (name_of n) = Name_size n"
  by (simp add: name_of_def Name_size_def)

lemma wf_ofType [simp]: "wf_block (Block_ofType t)"
  by (rule wf_block_leaf) (simp_all add: Block_ofType_def wf_defs block_defs)

lemma Name_default_simps [simp]:
  "is_name Name_default" "name_of Name_default = []" "comps Name_default = []"
  "Name_size Name_default = 0" "\<not> hasWire (m_nameBlock Name_default)"
  by (simp_all add: is_name_def Name_default_def name_of_def Name_size_def)
    (simp_all add: Block_ofType_def hasWire_def)

lemma Name_append_simps [simp]:
  "comps (Name_append n c) = comps n @ [c]" "name_of (Name_append n c) = name_of n @ [comp_of c]"
  "Name_size (Name_append n c) = Suc (Name_size n)" "\<not> hasWire (m_nameBlock (Name_append n c))"
  by (simp_all add: Name_append_def name_of_def Name_size_def push_back_def)

lemma is_name_append [simp]: "is_name n \<Longrightarrow> is_component c \<Longrightarrow> is_name (Name_append n c)"
  unfolding is_name_def Name_append_def push_back_def
  using wf_subBlocks [of "m_nameBlock n"]
  by (auto simp: wf_with_subBlocks_reset is_component_def)

lemma Name_at_in:
  assumes "i < Name_size n" "Name_size n < 2 ^ 63"
  shows "Name_at n (int i) = Inr (comps n ! i)"
  using assms by (simp add: Name_at_def Name_get_def unat_u64_of_nat Name_size_def del: unsigned_of_nat)

lemma chunk_Suc: "i < n \<Longrightarrow> n \<le> length xs \<Longrightarrow> chunk xs i n = xs ! i # chunk xs (Suc i) n"
  using Cons_nth_drop_Suc [of i "take n xs"] by (simp add: chunk_def drop_take)

lemma append_range_spec:
  assumes "n \<le> Name_size src" "Name_size src < 2 ^ 63"
  shows "append_range src i n r = Inr (fold (\<lambda>c r. Name_append r c) (chunk (comps src) i n) r)"
  using assms
proof (induction src i n r rule: append_range.induct)
  case (1 src i n r)
  show ?case
  proof (cases "i < n")
    case True
    then have "Name_at src (int i) = Inr (comps src ! i)" using 1 by (intro Name_at_in) auto
    with True 1 show ?thesis
      by (simp add: append_range.simps [of src i] chunk_Suc Name_size_def)
  next
    case False
    then show ?thesis by (simp add: append_range.simps [of src i] chunk_def)
  qed
qed

lemma fold_append_simps [simp]:
  "comps (fold (\<lambda>c r. Name_append r c) cs r) = comps r @ cs"
  "name_of (fold (\<lambda>c r. Name_append r c) cs r) = name_of r @ map comp_of cs"
  by (induction cs arbitrary: r) simp_all

lemma fold_append_is_name:
  "is_name r \<Longrightarrow> \<forall>c \<in> set cs. is_component c \<Longrightarrow> is_name (fold (\<lambda>c r. Name_append r c) cs r)"
  by (induction cs arbitrary: r) simp_all

lemma set_chunk: "set (chunk xs i j) \<subseteq> set xs"
  using set_drop_subset set_take_subset unfolding chunk_def by fast

lemma map_chunk: "map f (chunk xs i j) = chunk (map f xs) i j"
  by (simp add: chunk_def drop_map take_map)

lemma append_range_name:
  assumes "n \<le> Name_size src" "Name_size src < 2 ^ 63" "is_name src" "is_name r"
  obtains r' where "append_range src i n r = Inr r'" "is_name r'"
    "name_of r' = name_of r @ chunk (name_of src) i n" "comps r' = comps r @ chunk (comps src) i n"
proof
  have "\<forall>c \<in> set (chunk (comps src) i n). is_component c"
    using assms(3) set_chunk [of "comps src" i n] by (auto simp: is_name_def)
  then show "is_name (fold (\<lambda>c r. Name_append r c) (chunk (comps src) i n) r)"
    using fold_append_is_name assms(4) by blast
qed (use append_range_spec [OF assms(1,2)] in \<open>simp_all add: name_of_def map_chunk\<close>)

section \<open>Sub-names\<close>

definition yields :: "name result \<Rightarrow> comp list \<Rightarrow> bool" where
  "yields r xs \<longleftrightarrow> (\<exists>n. r = Inr n \<and> is_name n \<and> name_of n = xs)"

lemma yieldsE:
  assumes "yields r xs"
  obtains n where "r = Inr n" "is_name n" "name_of n = xs"
  using assms by (auto simp: yields_def)

lemma getSubName_name:
  assumes "is_name n" "Name_size n < 2 ^ 63" "nat i + unat k < 2 ^ 64 \<or> k = npos" "0 \<le> i"
  shows "yields (getSubName n i k)
     (if k = npos then drop (nat i) (name_of n) else take (unat k) (drop (nat i) (name_of n)))"
proof -
  define e where "e = (if k \<noteq> npos then min (Name_size n) (nat i + unat k) else Name_size n)"
  have "unat (of_int i + k) = nat i + unat k" if "k \<noteq> npos"
  proof -
    have "of_int i + k = of_nat (nat i + unat k)" using assms(4) by simp
    moreover have "nat i + unat k < 2 ^ 64" using assms(3) that by simp
    ultimately show ?thesis by (simp only: unat_u64_of_nat)
  qed
  then have eq: "getSubName n i k = append_range n (nat i) e Name_default"
    using assms(4) by (simp add: getSubName_def e_def Let_def)
  have e: "e \<le> Name_size n" by (simp add: e_def)
  obtain r where r: "append_range n (nat i) e Name_default = Inr r" "is_name r"
    "name_of r = chunk (name_of n) (nat i) e"
    using append_range_name [OF e assms(2,1) Name_default_simps(1)] by auto
  have "chunk (name_of n) (nat i) e = (if k = npos then drop (nat i) (name_of n)
                  else take (unat k) (drop (nat i) (name_of n)))"
    by (auto simp: e_def chunk_def min_def take_drop add.commute)
  with r eq show ?thesis by (simp add: yields_def)
qed

lemma sint_u64_small: "k < 2 ^ 63 \<Longrightarrow> sint (of_nat k :: u64) = int k"
  by (simp add: signed_of_nat signed_take_bit_int_eq_self)

lemma sint_u64_neg: "0 < k \<Longrightarrow> k \<le> 2 ^ 63 \<Longrightarrow> sint (- of_nat k :: u64) = - int k"
proof -
  assume k: "0 < k" "k \<le> 2 ^ 63"
  have "sint (of_int (- int k) :: u64) = - int k"
    unfolding signed_of_int using k by (simp add: signed_take_bit_int_eq_self)
  then show ?thesis by simp
qed

lemma of_nat_not_npos: "k < 2 ^ 63 \<Longrightarrow> (of_nat k :: u64) \<noteq> npos"
proof
  assume k: "k < 2 ^ 63" and "(of_nat k :: u64) = npos"
  then have "sint (npos) = int k" using sint_u64_small [OF k] by simp
  then show False by (simp add: npos_def)
qed

lemma getSubName_negative:
  assumes "Name_size n < 2 ^ 63" "0 < i" "i \<le> 2 ^ 63"
  shows "getSubName n (- int i) k = getSubName n (int (Name_size n - i)) k"
proof (cases "i \<le> Name_size n")
  case True
  then have "(of_nat (Name_size n) + of_int (- int i) :: u64) = of_nat (Name_size n - i)"
    by (simp add: of_nat_diff)
  moreover have "sint (of_nat (Name_size n - i) :: u64) = int (Name_size n - i)"
    using assms(1) by (intro sint_u64_small) simp
  ultimately show ?thesis using assms(2) by (simp add: getSubName_def)
next
  case False
  then have "(of_nat (Name_size n) + of_int (- int i) :: u64) = - of_nat (i - Name_size n)"
    by (simp add: of_nat_diff)
  moreover have "sint (- of_nat (i - Name_size n) :: u64) = - int (i - Name_size n)"
    using False assms(3) by (intro sint_u64_neg) simp_all
  ultimately show ?thesis using False assms(2) by (simp add: getSubName_def)
qed

lemma getPrefix_pos:
  assumes "is_name n" "Name_size n < 2 ^ 63" "k < 2 ^ 63"
  shows "yields (getPrefix n (int k)) (take k (name_of n))"
proof -
  have k: "unat (of_nat k :: u64) = k" using assms(3) by (intro unat_u64_of_nat) simp
  show ?thesis
    using of_nat_not_npos [OF assms(3)] getSubName_name [OF assms(1,2), of 0 "of_nat k"] k assms(3)
    by (simp add: getPrefix_def del: unsigned_of_nat)
qed

lemma getPrefix_neg:
  assumes "is_name n" "Name_size n < 2 ^ 63" "0 < k" "k \<le> Name_size n"
  shows "yields (getPrefix n (- int k)) (take (Name_size n - k) (name_of n))"
proof -
  have "(of_nat (Name_size n) + of_int (- int k) :: u64) = of_nat (Name_size n - k)"
    using assms(4) by (simp add: of_nat_diff)
  then have "getPrefix n (- int k) = getPrefix n (int (Name_size n - k))"
    using assms(3) by (simp add: getPrefix_def)
  then show ?thesis using getPrefix_pos [OF assms(1,2)] assms(2) by simp
qed

section \<open>Properties of sub-names\<close>

text \<open>
  \<open>getSubName\<close> is drop-then-take on the component list: a negative start counts from
  the end and is clamped at the first component, and the default count means "until the end".
\<close>
theorem getSubName_drop_take:
  assumes "is_name n" "Name_size n < 2 ^ 63" "i < 2 ^ 63" "k < 2 ^ 63"
  shows "yields (getSubName n (int i) (of_nat k)) (take k (drop i (name_of n)))
    \<and> yields (getSubName n (int i) npos) (drop i (name_of n))
    \<and> (0 < i \<longrightarrow>
         yields (getSubName n (- int i) (of_nat k)) (take k (drop (Name_size n - i) (name_of n))))"
proof -
  have k: "unat (of_nat k :: u64) = k" using assms(4) by (intro unat_u64_of_nat) simp
  have "yields (getSubName n (int j) (of_nat k)) (take k (drop j (name_of n)))" if "j < 2 ^ 63" for j
    using getSubName_name [OF assms(1,2), of "int j" "of_nat k"] k of_nat_not_npos [OF assms(4)] assms(4) that
    by (simp del: unsigned_of_nat)
  then show ?thesis
    using getSubName_name [OF assms(1,2), of "int i" npos] getSubName_negative [OF assms(2), of i]
      assms(2,3) by simp
qed

text \<open>A concrete name with one generic component, for the instances below.\<close>

definition name1 :: "byte list \<Rightarrow> name" where
  "name1 v = Name_append Name_default (tlv_block tlv_NameComponent v)"

lemma is_component_tlv [simp]: "is_component (tlv_block tlv_NameComponent v)"
  by (simp add: is_component_def isGeneric_def)

lemma name1_simps [simp]:
  "is_name (name1 v)" "Name_size (name1 v) = 1" "name_of (name1 v) = [Comp tlv_NameComponent v]"
  "comps (name1 v) = [tlv_block tlv_NameComponent v]"
  by (simp_all add: name1_def comp_of_def)

theorem getSubName_drop_take_witness:
  "yields (getSubName (name1 [65]) (- 1) 1) [Comp tlv_NameComponent [65]]"
  using getSubName_drop_take [of "name1 [65]" 1 1] by simp

text \<open>
  \<open>getPrefix(k)\<close> keeps the first \<open>k\<close> components and \<open>getPrefix(-k)\<close> all but the last \<open>k\<close>. When
  \<open>k\<close> exceeds the size, \<open>size() + nComponents\<close> wraps around and \<open>getPrefix(-k)\<close> returns the whole
  name instead of the empty one.
\<close>
theorem getPrefix_take:
  assumes "is_name n" "Name_size n < 2 ^ 63" "0 < k" "k < 2 ^ 63"
  shows "yields (getPrefix n (int k)) (take k (name_of n))
    \<and> yields (getPrefix n (- int k))
        (if k \<le> Name_size n then take (Name_size n - k) (name_of n) else name_of n)"
proof (cases "k \<le> Name_size n")
  case True
  then show ?thesis using getPrefix_pos [OF assms(1,2,4)] getPrefix_neg [OF assms(1-3)] by simp
next
  case False
  define d where "d = k - Name_size n"
  have d: "0 < d" "d < 2 ^ 63" using False assms(4) by (simp_all add: d_def)
  have w: "(of_nat (Name_size n) + of_int (- int k) :: u64) = - of_nat d"
    using False by (simp add: d_def of_nat_diff)
  have u: "unat (- of_nat d :: u64) = 2 ^ 64 - d"
  proof -
    have "(- of_nat d :: u64) = of_nat (2 ^ 64 - d)"
      using d by (simp add: of_nat_diff)
    moreover have "2 ^ 64 - d < 2 ^ 64" using d(1) by simp
    ultimately show ?thesis by (simp only: unat_u64_of_nat)
  qed
  have "Name_size n \<le> unat (- of_nat d :: u64)" using u d(2) assms(2) by simp
  then have "yields (getSubName n 0 (- of_nat d)) (name_of n)"
    using getSubName_name [OF assms(1,2), of 0 "- of_nat d"] u64_bound [of "- of_nat d"]
    by (simp split: if_splits)
  then show ?thesis
    using False w assms(3) getPrefix_pos [OF assms(1,2,4)] by (simp add: getPrefix_def)
qed

theorem getPrefix_take_witness:
  "yields (getPrefix (name1 [65]) (- 1)) []
   \<and> yields (getPrefix (name1 [65]) (- 2)) [Comp tlv_NameComponent [65]]"
  using getPrefix_take [of "name1 [65]" 1] getPrefix_take [of "name1 [65]" 2] by simp

section \<open>Equality and prefixes\<close>

lemma matches_loop_spec:
  assumes "n \<le> Name_size a" "n \<le> Name_size b" "Name_size a < 2 ^ 63" "Name_size b < 2 ^ 63"
  shows "matches_loop a b i n =
    Inr (list_all2 Component_equals (chunk (comps a) i n) (chunk (comps b) i n))"
  using assms
proof (induction a b i n rule: matches_loop.induct)
  case (1 a b i n)
  show ?case
  proof (cases "i < n")
    case True
    then have at: "Name_at a (int i) = Inr (comps a ! i)" "Name_at b (int i) = Inr (comps b ! i)"
      using 1 by (auto intro!: Name_at_in)
    from True 1 at show ?thesis
      by (simp add: matches_loop.simps [of a b i] chunk_Suc Name_size_def)
  qed (simp add: matches_loop.simps [of a b i] chunk_def)
qed

lemma list_all2_equals_values:
  assumes "\<forall>c \<in> set xs. wf_block c" "\<forall>c \<in> set ys. wf_block c"
  shows "list_all2 Component_equals xs ys \<longleftrightarrow> map value_bytes xs = map value_bytes ys"
proof
  assume "list_all2 Component_equals xs ys"
  then show "map value_bytes xs = map value_bytes ys"
    using assms by (induction rule: list_all2_induct) (auto simp: Component_equals_value)
next
  assume eq: "map value_bytes xs = map value_bytes ys"
  then have "length xs = length ys" by (rule map_eq_imp_length_eq)
  then show "list_all2 Component_equals xs ys"
    using assms eq by (induction xs ys rule: list_induct2) (auto simp: Component_equals_value)
qed

lemma name_comps_wf: "is_name n \<Longrightarrow> c \<in> set (comps n) \<Longrightarrow> wf_block c"
  by (auto simp: is_name_def is_component_def)

lemma map_comp_value: "map comp_value (name_of n) = map value_bytes (comps n)"
  by (simp add: name_of_def comp_of_def)

lemma Name_equals_values:
  assumes "is_name a" "is_name b" "Name_size a < 2 ^ 63"
  shows "Name_equals a b = Inr (map comp_value (name_of a) = map comp_value (name_of b))"
proof (cases "Name_size a = Name_size b")
  case True
  then show ?thesis
    using matches_loop_spec [of "Name_size a" a b 0] assms name_comps_wf
      list_all2_equals_values [of "comps a" "comps b"]
    by (simp add: Name_equals_def chunk_0 Name_size_def map_comp_value)
next
  case False
  then show ?thesis
    by (auto simp: Name_equals_def dest!: map_eq_imp_length_eq)
qed

lemma isPrefixOf_values:
  assumes "is_name a" "is_name b" "Name_size b < 2 ^ 63"
  shows "isPrefixOf a b =
    Inr (Name_size a \<le> Name_size b
         \<and> map comp_value (name_of a) = map comp_value (take (Name_size a) (name_of b)))"
proof (cases "Name_size a \<le> Name_size b")
  case True
  have "\<forall>c \<in> set (take (Name_size a) (comps b)). wf_block c"
    using name_comps_wf [OF assms(2)] by (auto dest: in_set_takeD)
  with True show ?thesis
    using matches_loop_spec [of "Name_size a" a b 0] assms name_comps_wf [OF assms(1)]
      list_all2_equals_values [of "comps a" "take (Name_size a) (comps b)"]
    by (simp add: isPrefixOf_def chunk_0 map_comp_value take_map [symmetric])
      (simp add: Name_size_def)
qed (simp add: isPrefixOf_def)

text \<open>
  \<open>Name::equals\<close> and \<open>isPrefixOf\<close> never throw, and decide equality and the prefix relation
  of the component values (types are not looked at). In particular they accept equal
  names and true prefixes.
\<close>
theorem Name_equals_isPrefixOf:
  assumes "is_name a" "is_name b" "Name_size a < 2 ^ 63" "Name_size b < 2 ^ 63"
  shows "Name_equals a b = Inr (map comp_value (name_of a) = map comp_value (name_of b))
    \<and> isPrefixOf a b =
        Inr (\<exists>rest. map comp_value (name_of b) = map comp_value (name_of a) @ rest)"
proof -
  have "(Name_size a \<le> Name_size b
      \<and> map comp_value (name_of a) = map comp_value (take (Name_size a) (name_of b)))
    \<longleftrightarrow> (\<exists>rest. map comp_value (name_of b) = map comp_value (name_of a) @ rest)"
    (is "?l \<longleftrightarrow> ?r")
  proof
    assume ?l
    then have "map comp_value (name_of b)
        = map comp_value (name_of a) @ map comp_value (drop (Name_size a) (name_of b))"
      by (metis append_take_drop_id map_append)
    then show ?r ..
  next
    assume ?r
    then obtain rest where r: "map comp_value (name_of b) = map comp_value (name_of a) @ rest" ..
    then have "Name_size b = Name_size a + length rest"
      by (metis length_append length_map length_name_of)
    then show ?l using r by (simp add: take_map [symmetric])
  qed
  then show ?thesis using Name_equals_values [OF assms(1-3)] isPrefixOf_values [OF assms(1,2,4)] by simp
qed

theorem Name_equals_isPrefixOf_witness:
  "Name_equals (name1 [65]) (name1 [66]) = Inr False
   \<and> isPrefixOf (name1 [65]) (Name_append (name1 [65]) (tlv_block tlv_NameComponent [])) = Inr True"
  using Name_equals_isPrefixOf [of "name1 [65]" "name1 [66]"]
    Name_equals_isPrefixOf [of "name1 [65]" "Name_append (name1 [65]) (tlv_block tlv_NameComponent [])"]
  by simp

section \<open>Canonical order of names\<close>

fun first_diff :: "comp list \<Rightarrow> comp list \<Rightarrow> int option" where
  "first_diff (x # xs) (y # ys) =
     (if x < y then Some (- 1) else if y < x then Some 1 else first_diff xs ys)"
| "first_diff _ _ = None"

lemma Nil_less_iff [simp]: "[] < (xs :: comp list) \<longleftrightarrow> xs \<noteq> []"
  by (cases xs) simp_all

lemma first_diff_lex:
  "case first_diff xs ys of
     Some r \<Rightarrow> (r = - 1 \<and> xs < ys) \<or> (r = 1 \<and> ys < xs)
   | None \<Rightarrow> (xs < ys \<longleftrightarrow> length xs < length ys) \<and> (xs = ys \<longleftrightarrow> length xs = length ys)"
  by (induction xs ys rule: first_diff.induct) (auto split: option.splits)

lemma first_diff_take:
  "first_diff (take (min (length xs) (length ys)) xs) (take (min (length xs) (length ys)) ys)
     = first_diff xs ys"
  by (induction xs ys rule: first_diff.induct) simp_all

lemma compare_loop_spec:
  assumes "unat p + n \<le> Name_size a" "unat q + n \<le> Name_size b"
    and "Name_size a < 2 ^ 63" "Name_size b < 2 ^ 63" "is_name a" "is_name b"
  shows "compare_loop a b p q i n =
    Inr (first_diff (chunk (name_of a) (unat p + i) (unat p + n))
                    (chunk (name_of b) (unat q + i) (unat q + n)))"
  using assms
proof (induction a b p q i n rule: compare_loop.induct)
  case (1 a b p q i n)
  show ?case
  proof (cases "i < n")
    case True
    have at: "Name_at x (sint (r + of_nat i)) = Inr (comps x ! (unat r + i))"
      if "unat r + n \<le> Name_size x" "Name_size x < 2 ^ 63" for x and r :: u64
    proof -
      have r: "r + of_nat i = of_nat (unat r + i)" by simp
      have "sint (r + of_nat i) = int (unat r + i)"
        unfolding r using that True by (intro sint_u64_small) simp
      moreover have "unat r + i < Name_size x" using that True by simp
      ultimately show ?thesis using Name_at_in [of "unat r + i" x] that(2) by (simp only:)
    qed
    have ck: "chunk (name_of x) (k + i) (k + n)
        = comp_of (comps x ! (k + i)) # chunk (name_of x) (k + Suc i) (k + n)"
      if "k + n \<le> Name_size x" for x k
      using that True by (subst chunk_Suc) (simp_all add: name_of_def Name_size_def)
    have mem: "comps a ! (unat p + i) \<in> set (comps a)" "comps b ! (unat q + i) \<in> set (comps b)"
      using True 1(2,3) by (simp_all add: Name_size_def)
    have "Component_compare (comps a ! (unat p + i)) (comps b ! (unat q + i)) =
      (if comp_of (comps a ! (unat p + i)) < comp_of (comps b ! (unat q + i)) then - 1
       else if comp_of (comps b ! (unat q + i)) < comp_of (comps a ! (unat p + i)) then 1 else 0)"
      using mem 1(6,7) by (intro Component_compare_order) (auto intro: name_comps_wf)
    then show ?thesis
      using True 1 at [of p a] at [of q b] ck [of "unat p" a] ck [of "unat q" b]
      by (simp add: compare_loop.simps [of a b p q i] Let_def)
  qed (simp add: compare_loop.simps [of a b p q i] chunk_def)
qed

lemma int32_of_diff:
  assumes "a < 2 ^ 31" "b < 2 ^ 31"
  shows "int32_of (of_nat a - of_nat b) = int a - int b"
proof -
  have eq: "(of_nat a - of_nat b :: u64) = of_int (int a - int b)" by simp
  have "(ucast (of_nat a - of_nat b :: u64) :: u32) = of_int (int a - int b)"
    unfolding eq by (rule bit_word_eqI) (simp add: bit_simps flip: of_int_diff)
  moreover have "sint (of_int (int a - int b) :: u32) = int a - int b"
    unfolding signed_of_int using assms by (simp add: signed_take_bit_int_eq_self)
  ultimately show ?thesis by (simp add: int32_of_def)
qed

lemma unat_min: "unat (min v w) = min (unat v) (unat w)"
  by (simp add: min_def word_le_nat_alt)

lemma compareRange_lex:
  fixes p1 c1 p2 c2 :: u64
  assumes "is_name a" "is_name b" "Name_size a < 2 ^ 31" "Name_size b < 2 ^ 31"
    and "unat p1 \<le> Name_size a" "unat p2 \<le> Name_size b"
  defines "xs \<equiv> take (unat c1) (drop (unat p1) (name_of a))"
    and "ys \<equiv> take (unat c2) (drop (unat p2) (name_of b))"
  shows "\<exists>r. Name_compareRange a p1 c1 b p2 c2 = Inr r \<and> (r < 0 \<longleftrightarrow> xs < ys) \<and> (r = 0 \<longleftrightarrow> xs = ys)"
proof -
  have sub: "unat (of_nat (Name_size n) - p) = Name_size n - unat p"
    if "unat p \<le> Name_size n" "Name_size n < 2 ^ 31" for n and p :: u64
  proof -
    have "of_nat (Name_size n) - p = of_nat (Name_size n - unat p)"
      using that(1) by (simp add: of_nat_diff)
    moreover have "Name_size n - unat p < 2 ^ 64" using that(2) by simp
    ultimately show ?thesis by (simp only: unat_u64_of_nat)
  qed
  define k1 k2 where k: "k1 = length xs" "k2 = length ys"
  have k1: "unat (min c1 (of_nat (Name_size a) - p1)) = k1"
    using sub [OF assms(5,3)] by (simp add: k xs_def unat_min min.commute)
  have k2: "unat (min c2 (of_nat (Name_size b) - p2)) = k2"
    using sub [OF assms(6,4)] by (simp add: k ys_def unat_min min.commute)
  have le: "k1 \<le> Name_size a - unat p1" "k2 \<le> Name_size b - unat p2"
    by (simp_all add: k xs_def ys_def)
  let ?n = "min k1 k2"
  have tk: "chunk (name_of a) (unat p1) (unat p1 + ?n) = take ?n xs"
    "chunk (name_of b) (unat p2) (unat p2 + ?n) = take ?n ys"
    by (simp_all add: chunk_def k xs_def ys_def min_def)
  have loop: "compare_loop a b p1 p2 0 ?n = Inr (first_diff xs ys)"
    using compare_loop_spec [of p1 ?n a p2 b 0] assms(1-6) le tk first_diff_take [of xs ys]
    by (simp add: k)
  have c: "min c1 (of_nat (Name_size a) - p1) = of_nat k1"
    "min c2 (of_nat (Name_size b) - p2) = of_nat k2"
    unfolding k1 [symmetric] k2 [symmetric] by simp_all
  have u: "unat (of_nat k1 :: u64) = k1" "unat (of_nat k2 :: u64) = k2"
    using k1 k2 unfolding c by simp_all
  have d: "int32_of (of_nat k1 - of_nat k2) = int k1 - int k2"
    using le assms(3,4) by (intro int32_of_diff) simp_all
  have eq: "Name_compareRange a p1 c1 b p2 c2 =
      (case first_diff xs ys of Some r \<Rightarrow> Inr r | None \<Rightarrow> Inr (int k1 - int k2))"
    using loop d unfolding Name_compareRange_def Let_def c unat_min u by (simp only: bindE_simps)
  show ?thesis
    using first_diff_lex [of xs ys] unfolding eq by (auto simp: k split: option.splits)
qed

text \<open>
  C4. \<open>Name::compare\<close> on component ranges that start inside the names never throws and has the
  sign of the lexicographic canonical order on the ranges; it returns 0 exactly on equal
  ranges. The full comparison is the case of the whole names.
\<close>
theorem Name_compare_canonical_order:
  assumes "is_name a" "is_name b" "Name_size a < 2 ^ 31" "Name_size b < 2 ^ 31"
    and "unat p1 \<le> Name_size a" "unat p2 \<le> Name_size b"
  shows "\<exists>r. Name_compareRange a p1 c1 b p2 c2 = Inr r
     \<and> (r < 0 \<longleftrightarrow> take (unat c1) (drop (unat p1) (name_of a)) < take (unat c2) (drop (unat p2) (name_of b)))
     \<and> (r = 0 \<longleftrightarrow> take (unat c1) (drop (unat p1) (name_of a)) = take (unat c2) (drop (unat p2) (name_of b)))"
  by (rule compareRange_lex [OF assms])

theorem Name_compare_canonical_order_witness:
  "\<exists>r. Name_compareRange (name1 [66]) 0 1 (name1 [65, 65]) 0 1 = Inr r \<and> r < 0"
  using Name_compare_canonical_order [of "name1 [66]" "name1 [65, 65]" 0 0 1 1]
  by (auto simp: less_comp_def comp_key_def)

lemma Name_compare_lex:
  assumes "is_name a" "is_name b" "Name_size a < 2 ^ 31" "Name_size b < 2 ^ 31"
  shows "\<exists>r. Name_compare a b = Inr r \<and> (r < 0 \<longleftrightarrow> name_of a < name_of b)
           \<and> (r = 0 \<longleftrightarrow> name_of a = name_of b)"
proof -
  have "unat npos = 2 ^ 64 - 1" by (simp add: npos_def unsigned_minus_1_eq_mask mask_eq_exp_minus_1)
  then have "take (unat npos) (name_of n) = name_of n" if "Name_size n < 2 ^ 31" for n
    using that by simp
  then show ?thesis
    using compareRange_lex [OF assms, of 0 0 npos npos] assms(3,4) by (simp add: Name_compare_def)
qed

text \<open>
  \<open>Name::compare(other)\<close> induces a total order: its sign is the lexicographic canonical
  order of the component lists, so it is antisymmetric, transitive, and a name
  never comes after a name it is a prefix of.
\<close>
theorem Name_compare_total_order:
  assumes "is_name a" "is_name b" "Name_size a < 2 ^ 31" "Name_size b < 2 ^ 31"
  shows "\<exists>r s. Name_compare a b = Inr r \<and> Name_compare b a = Inr s
     \<and> (r < 0 \<longleftrightarrow> name_of a < name_of b) \<and> (r = 0 \<longleftrightarrow> name_of a = name_of b)
     \<and> (r > 0 \<longleftrightarrow> s < 0) \<and> ((\<exists>rest. name_of b = name_of a @ rest) \<longrightarrow> r \<le> 0)"
proof -
  have pre: "xs \<le> xs @ rest" for xs rest :: "comp list"
    by (induction xs) simp_all
  obtain r s where rs: "Name_compare a b = Inr r" "r < 0 \<longleftrightarrow> name_of a < name_of b"
    "r = 0 \<longleftrightarrow> name_of a = name_of b" "Name_compare b a = Inr s" "s < 0 \<longleftrightarrow> name_of b < name_of a"
    using Name_compare_lex [OF assms] Name_compare_lex [OF assms(2,1,4,3)] by blast
  have "r > 0 \<longleftrightarrow> name_of b < name_of a" using rs(2,3) by (metis linorder_neqE less_asym')
  moreover have "r \<le> 0" if "\<exists>rest. name_of b = name_of a @ rest"
    using that pre [of "name_of a"] calculation by (metis leD linorder_le_less_linear)
  ultimately show ?thesis using rs by blast
qed

theorem Name_compare_total_order_witness:
  "\<exists>r. Name_compare (name1 [66]) (name1 [65, 65]) = Inr r \<and> r < 0"
  using Name_compare_total_order [of "name1 [66]" "name1 [65, 65]"]
  by (auto simp: less_comp_def comp_key_def)

text \<open>
  The documentation calls \<open>compare(pos1, count1, ...)\<close> equivalent to comparing sub-names, but
  for a start position beyond the end \<open>size() - pos1\<close> wraps around and \<open>at\<close> throws, where
  \<open>getSubName\<close> gives the empty name.
\<close>
theorem Name_compareRange_past_end_throws:
  "\<exists>a b s. is_name a \<and> is_name b
     \<and> Name_compareRange a 2 npos b 0 npos
         = Inl (NameError ''Requested component does not exist (out of bounds)'')
     \<and> getSubName a 2 npos = Inr s \<and> Name_compare s b = Inr (- 1)"
proof -
  have "Name_compareRange (name1 []) 2 npos (name1 []) 0 npos
       = Inl (NameError ''Requested component does not exist (out of bounds)'')"
    by (simp add: Name_compareRange_def npos_def compare_loop.simps Name_at_def min_def Let_def
        unat_gt_0)
  moreover have "getSubName (name1 []) 2 npos = Inr Name_default"
    by (simp add: getSubName_def append_range.simps)
  moreover have "Name_compare Name_default (name1 []) = Inr (- 1)"
    using int32_of_diff [of 0 1]
    by (simp add: Name_compare_def Name_compareRange_def npos_def compare_loop.simps)
  ultimately show ?thesis by (intro exI [of _ "name1 []"] exI [of _ Name_default]) simp
qed

section \<open>Successor\<close>

lemma comp_succ_immediate:
  "Comp t v < Comp t (succ_value v)"
  "Comp t v < d \<Longrightarrow> \<not> d < Comp t (succ_value v)"
proof -
  show "Comp t v < Comp t (succ_value v)"
    using succ_value_greater [of v] by (simp add: less_comp_def comp_key_value)
  assume "Comp t v < d"
  then show "\<not> d < Comp t (succ_value v)"
    using succ_value_least [of v "comp_value d"] by (cases d) (auto simp: less_comp_def comp_key_value)
qed

lemma lex_between:
  fixes c s :: comp
  assumes "xs @ [c] < zs" "zs < xs @ [s]" "\<And>d. c < d \<Longrightarrow> \<not> d < s"
  shows "\<exists>rest. zs = xs @ c # rest"
  using assms(1,2)
proof (induction xs arbitrary: zs)
  case Nil
  with assms(3) show ?case by (cases zs) auto
next
  case (Cons x xs)
  then show ?case by (cases zs) auto
qed

lemma lex_bound: "c < s \<Longrightarrow> xs @ c # rest < xs @ [s]" for c s :: comp
  by (induction xs) simp_all

lemma Name_get_last:
  assumes "\<not> Name_empty n" "Name_size n < 2 ^ 63"
  shows "Name_get n (- 1) = Inr (last (comps n))"
proof -
  have ne: "0 < Name_size n" using assms(1) by (simp add: Name_empty_def Name_size_def)
  then have "(of_nat (Name_size n) + of_int (- 1) :: u64) = of_nat (Name_size n - 1)"
    by (simp add: of_nat_diff)
  moreover have "Name_size n - 1 < 2 ^ 64" using assms(2) by simp
  ultimately have "unat (of_nat (Name_size n) + of_int (- 1) :: u64) = Name_size n - 1"
    by (simp only: unat_u64_of_nat)
  with ne show ?thesis
    by (simp add: Name_get_def Name_size_def last_conv_nth)
qed

lemma Name_getSuccessor_yields:
  assumes "is_name n" "Name_size n < 2 ^ 63" "\<not> Name_empty n" "hasValue (last (comps n))"
    and "isImplicitSha256Digest (last (comps n)) \<Longrightarrow>
           value_bytes (last (comps n)) \<noteq> replicate SHA256_DIGEST_SIZE 0xFF"
  shows "yields (Name_getSuccessor n)
    (butlast (name_of n) @ [Comp (comp_type (last (name_of n))) (succ_value (comp_value (last (name_of n))))])"
proof -
  have ne: "comps n \<noteq> []" "0 < Name_size n"
    using assms(3) by (simp_all add: Name_empty_def Name_size_def)
  have "is_component (last (comps n))" using assms(1) ne(1) by (simp add: is_name_def)
  then obtain b where b: "Component_getSuccessor (last (comps n)) = Inr b" "is_component b"
    "comp_of b = Comp (m_type (last (comps n))) (succ_value (value_bytes (last (comps n))))"
    using getSuccessor_component assms(4,5) by metis
  obtain p where p: "getPrefix n (- 1) = Inr p" "is_name p" "name_of p = butlast (name_of n)"
    using getPrefix_neg [OF assms(1,2), of 1] ne(2)
    by (auto elim!: yieldsE simp: butlast_conv_take)
  have l: "last (name_of n) = comp_of (last (comps n))"
    using ne(1) by (simp add: name_of_def last_map)
  show ?thesis
    using b p Name_get_last [OF assms(3,2)] assms(3)
    by (simp add: Name_getSuccessor_def yields_def l) (simp add: comp_of_def)
qed

text \<open>
  The successor of a non-empty name is the least name above the whole subtree of the name:
  it is greater than the name and all its extensions, and any name between the two extends the
  name. (The last component must have a successor: it has a value buffer and
  is not the all-0xFF digest.)
\<close>
theorem Name_getSuccessor_bounds_subtree:
  assumes "is_name n" "Name_size n < 2 ^ 63" "\<not> Name_empty n" "hasValue (last (comps n))"
    and "\<not> isImplicitSha256Digest (last (comps n)) \<or>
           value_bytes (last (comps n)) \<noteq> replicate SHA256_DIGEST_SIZE 0xFF"
  shows "\<exists>s. Name_getSuccessor n = Inr s \<and> is_name s
     \<and> (\<forall>rest. name_of n @ rest < name_of s)
     \<and> (\<forall>zs. name_of n < zs \<and> zs < name_of s \<longrightarrow> (\<exists>rest. zs = name_of n @ rest))"
proof -
  define c where "c = last (name_of n)"
  define d where "d = Comp (comp_type c) (succ_value (comp_value c))"
  define xs where "xs = butlast (name_of n)"
  obtain s where s: "Name_getSuccessor n = Inr s" "is_name s" "name_of s = xs @ [d]"
    using Name_getSuccessor_yields [OF assms(1-4)] assms(5)
    by (auto simp: yields_def d_def c_def xs_def)
  have n: "name_of n = xs @ [c]"
    using assms(3) by (simp add: c_def xs_def name_of_def Name_empty_def)
  have cd: "c < d" "\<And>x. c < x \<Longrightarrow> \<not> x < d"
    using comp_succ_immediate [of "comp_type c" "comp_value c"] by (simp_all add: d_def)
  have "name_of n @ rest < name_of s" for rest
    using lex_bound [OF cd(1), of xs rest] n s(3) by simp
  moreover have "\<exists>rest. zs = name_of n @ rest" if "name_of n < zs" "zs < name_of s" for zs
    using lex_between [of xs c zs d] cd(2) that n s(3) by auto
  ultimately show ?thesis using s by blast
qed

theorem Name_getSuccessor_bounds_subtree_witness:
  "\<exists>s. Name_getSuccessor (name1 [65]) = Inr s \<and> name_of (name1 [65]) < name_of s"
proof -
  have "\<not> Name_empty (name1 [65])" by (simp add: Name_empty_def)
  then show ?thesis
    using Name_getSuccessor_bounds_subtree [of "name1 [65]"]
    by (auto simp: isImplicitSha256Digest_def tlv_codes intro: spec [where x = "[]"])
qed

text \<open>
  The documentation asks that no name lie strictly between a name and its successor. This
  fails: \<open>/A/x\<close> lies between \<open>/A\<close> and its successor, and the name with one empty component lies
  between the empty name and its successor.
\<close>
theorem Name_getSuccessor_not_immediate:
  "(\<exists>z s. is_name z \<and> Name_getSuccessor (name1 [65]) = Inr s
      \<and> name_of (name1 [65]) < name_of z \<and> name_of z < name_of s)
   \<and> (\<exists>z s. is_name z \<and> Name_getSuccessor Name_default = Inr s
      \<and> name_of Name_default < name_of z \<and> name_of z < name_of s)"
proof
  let ?z = "Name_append (name1 [65]) (tlv_block tlv_NameComponent [120])"
  have "\<not> Name_empty (name1 [65])" by (simp add: Name_empty_def)
  from Name_getSuccessor_yields [OF _ _ this] obtain s where
    "Name_getSuccessor (name1 [65]) = Inr s" "name_of s = [Comp tlv_NameComponent (succ_value [65])]"
    by (auto simp: isImplicitSha256Digest_def tlv_codes elim!: yieldsE)
  then show "\<exists>z s. is_name z \<and> Name_getSuccessor (name1 [65]) = Inr s
      \<and> name_of (name1 [65]) < name_of z \<and> name_of z < name_of s"
    using comp_succ_immediate(1) [of tlv_NameComponent "[65]"]
    by (intro exI [of _ ?z] exI [of _ s]) simp
  have "Name_getSuccessor Name_default = Inr (name1 [0])"
    by (simp add: Name_getSuccessor_def Name_empty_def Name_appendBytes_def name1_def)
  then show "\<exists>z s. is_name z \<and> Name_getSuccessor Name_default = Inr s
      \<and> name_of Name_default < name_of z \<and> name_of z < name_of s"
    by (intro exI [of _ "name1 []"] exI [of _ "name1 [0]"]) (simp add: less_comp_def comp_key_def)
qed

section \<open>URI round trip\<close>

lemma Component_toUri_not_Nil [simp]: "Component_toUri c \<noteq> []"
proof -
  have "concat (map escape v) \<noteq> []" if "list_ex (\<lambda>b. b \<noteq> 0x2e) v" for v
    using that escape_chars(1) by (cases v) auto
  then show ?thesis by (simp add: Component_toUri_def Let_def getSha256DigestUriPrefix_def)
qed

lemma find_char_none:
  assumes "ch \<notin> set u"
  shows "find_char ch (length pre) (pre @ u) = None"
proof -
  have "takeWhile (\<lambda>d. d \<noteq> ch) u = u" using assms by (auto simp: takeWhile_eq_all_conv)
  then have "length (takeWhile (\<lambda>d. d \<noteq> ch) u) = length u" by (rule arg_cong)
  then show ?thesis by (simp add: find_char_def Let_def)
qed

lemma find_char_some:
  assumes "ch \<notin> set u"
  shows "find_char ch (length pre) (pre @ u @ ch # r) = Some (length pre + length u)"
proof -
  have "takeWhile (\<lambda>d. d \<noteq> ch) (u @ ch # r) = u"
    using assms by (subst takeWhile_append2) auto
  then show ?thesis by (simp add: find_char_def Let_def)
qed

definition uri_tail :: "block list \<Rightarrow> string" where
  "uri_tail cs = concat (map (\<lambda>c. ''/'' @ Component_toUri c) cs)"

lemma construct_loop_uri:
  assumes "keeps_trimmed x" "decodes_hex x" "\<forall>c \<in> set (c # cs). is_component c" "is_name n"
  shows "yields (construct_loop x (pre @ Component_toUri c @ uri_tail cs) (length pre) n)
           (name_of n @ map comp_of (c # cs))"
  using assms(3,4)
proof (induction cs arbitrary: c pre n)
  case Nil
  let ?uri = "pre @ Component_toUri c"
  obtain b where b: "fromEscapedString x ?uri (length pre) (length ?uri) = Inr b"
    "is_component b" "comp_of b = comp_of c"
    using fromEscapedString_toUri [OF assms(1,2), of c pre "[]"] Nil by auto
  have "find_char CHR ''/'' (length pre) ?uri = None"
    using Component_toUri_chars [of _ c] by (intro find_char_none) auto
  then have "construct_loop x ?uri (length pre) n = Inr (Name_append n b)"
    using b(1) by (simp add: construct_loop.simps [of x ?uri "length pre"] Let_def)
      (simp add: construct_loop.simps)
  with b Nil(2) show ?case by (simp add: yields_def uri_tail_def)
next
  case (Cons d ds)
  let ?u = "Component_toUri c"
  let ?rest = "Component_toUri d @ uri_tail ds"
  let ?uri = "pre @ ?u @ CHR ''/'' # ?rest"
  obtain b where b: "fromEscapedString x ?uri (length pre) (length pre + length ?u) = Inr b"
    "is_component b" "comp_of b = comp_of c"
    using fromEscapedString_toUri [OF assms(1,2), of c pre "CHR ''/'' # ?rest"] Cons.prems by auto
  have "find_char CHR ''/'' (length pre) ?uri = Some (length pre + length ?u)"
    using Component_toUri_chars [of _ c] by (intro find_char_some) auto
  then have "construct_loop x ?uri (length pre) n
      = construct_loop x ?uri (length (pre @ ?u @ ''/'')) (Name_append n b)"
    using b(1) by (simp add: construct_loop.simps [of x ?uri "length pre"] Let_def)
  moreover have "yields (construct_loop x ?uri (length (pre @ ?u @ ''/'')) (Name_append n b))
      (name_of n @ map comp_of (c # d # ds))"
    using Cons.IH [of d "Name_append n b" "pre @ ?u @ ''/''"] Cons.prems b(2,3) by simp
  ultimately show ?case by (simp add: uri_tail_def)
qed

lemma toUri_no_space:
  assumes "ch \<in> set (Name_toUri n)"
  shows "\<not> is_space ch"
  using assms Component_toUri_chars
  by (auto simp: Name_toUri_def is_space_def [of "CHR ''/''"] split: if_splits)

lemma construct_uri:
  assumes "keeps_trimmed x" "decodes_hex x" "is_name n"
  shows "yields (construct x (Name_toUri n)) (name_of n)"
proof -
  have tr: "trim x (Name_toUri n) = Name_toUri n"
    using trim_no_space [OF assms(1)] toUri_no_space by blast
  have uri: "Name_toUri n = CHR ''/'' # drop 1 (Name_toUri n)"
    by (cases "comps n") (simp_all add: Name_toUri_def Name_empty_def)
  have "find_char CHR ''/'' 0 (Name_toUri n) = Some 0"
    by (subst uri) (simp add: find_char_def)
  then have strip: "strip_scheme x (Name_toUri n) = Name_toUri n"
    by (simp add: strip_scheme_def split: option.splits)
  have tr1: "trim x (drop 1 (Name_toUri n)) = drop 1 (Name_toUri n)"
    using trim_no_space [OF assms(1)] toUri_no_space by (meson in_set_dropD)
  show ?thesis
  proof (cases "comps n")
    case Nil
    then have "Name_toUri n = ''/''" by (simp add: Name_toUri_def Name_empty_def)
    with tr strip tr1 Nil show ?thesis
      by (simp add: construct_def construct_loop.simps yields_def name_of_def)
  next
    case (Cons c cs)
    have u: "Name_toUri n = CHR ''/'' # Component_toUri c @ uri_tail cs"
      using Cons by (simp add: Name_toUri_def Name_empty_def uri_tail_def)
    obtain h t where ht: "Component_toUri c = h # t" by (cases "Component_toUri c") auto
    then have "h \<noteq> CHR ''/''" using Component_toUri_chars [of h c] by simp
    then have "construct x (Name_toUri n)
        = construct_loop x (Component_toUri c @ uri_tail cs) 0 Name_default"
      using tr strip tr1 by (simp add: construct_def u ht)
    moreover have "\<forall>c \<in> set (c # cs). is_component c"
      using assms(3) Cons by (simp add: is_name_def)
    ultimately show ?thesis
      using construct_loop_uri [OF assms(1,2), of c cs Name_default "[]"] Cons
      by (simp add: name_of_def)
  qed
qed

lemma hexDigit_not_NUL: "n < 16 \<Longrightarrow> hexDigit up n \<noteq> CHR 0x00"
  using hexDigit_chars(1) [of n up] by (auto simp: fromHexChar_def byte_of_char_def)

lemma Component_toUri_not_NUL: "CHR 0x00 \<notin> set (Component_toUri c)"
proof -
  have "CHR 0x00 \<noteq> char_of_byte b" if "unreserved b" for b
  proof
    assume "CHR 0x00 = char_of_byte b"
    then have "b = 0" using byte_of_char_of_byte [of b] by (simp add: byte_of_char_def flip: \<open>CHR 0x00 = char_of_byte b\<close>)
    with that show False by (simp add: unreserved_def)
  qed
  moreover have hex: "CHR 0x00 \<noteq> hexDigit up (unat b div 16)" "CHR 0x00 \<noteq> hexDigit up (unat b mod 16)"
    for up and b :: byte
    using hexDigit_not_NUL [OF nibble_bound, of up b] hexDigit_not_NUL [of "unat b mod 16" up] by auto
  ultimately have "CHR 0x00 \<notin> set (escape b)" for b by (auto simp: escape_alt)
  moreover have "CHR 0x00 \<notin> set (printHex bs up)" for bs up
    using hex by (auto simp: printHex_def)
  ultimately show ?thesis
    by (auto simp: Component_toUri_def Let_def getSha256DigestUriPrefix_def)
qed

text \<open>
  C39. A name survives the trip through its URI: the constructor from a string and \<open>operator>>\<close>
  read back from \<open>toUri()\<close> a name with the same components, whatever bytes they hold.
\<close>
theorem Name_uri_roundtrip:
  assumes "keeps_trimmed x" "decodes_hex x" "is_name n"
  shows "\<exists>m. Name_ofString x (Name_toUri n) = Inr m \<and> is_name m \<and> name_of m = name_of n
     \<and> Name_fromIstream x ('' '' @ Name_toUri n @ '' '') = Inr (m, '' '')"
proof -
  have nul: "takeWhile (\<lambda>c. c \<noteq> CHR 0x00) (Name_toUri n) = Name_toUri n"
    using Component_toUri_not_NUL
    by (auto simp: takeWhile_eq_all_conv Name_toUri_def split: if_splits)
  obtain m where m: "construct x (Name_toUri n) = Inr m" "is_name m" "name_of m = name_of n"
    using construct_uri [OF assms] by (auto elim: yieldsE)
  have ne: "Name_toUri n \<noteq> []"
    by (cases "comps n") (simp_all add: Name_toUri_def Name_empty_def)
  have sp: "is_space CHR '' ''" by (simp add: is_space_def)
  have "dropWhile is_space ('' '' @ Name_toUri n @ '' '') = Name_toUri n @ '' ''"
    using sp ne toUri_no_space [of _ n] by (cases "Name_toUri n") auto
  moreover have "takeWhile (\<lambda>c. \<not> is_space c) (Name_toUri n @ '' '') = Name_toUri n"
    "dropWhile (\<lambda>c. \<not> is_space c) (Name_toUri n @ '' '') = '' ''"
    using toUri_no_space sp by (simp_all add: takeWhile_append2 dropWhile_append2)
  moreover have "Name_ofString x (Name_toUri n) = Inr m"
    unfolding Name_ofString_def nul by (rule m(1))
  ultimately show ?thesis
    using m(2,3) unfolding Name_fromIstream_def Let_def by simp
qed

theorem Name_uri_roundtrip_witness:
  "\<exists>m. Name_ofString ext_ref (Name_toUri (name1 [65, 0, 47])) = Inr m
     \<and> name_of m = [Comp tlv_NameComponent [65, 0, 47]]"
  using Name_uri_roundtrip [OF ext_ref_ok, of "name1 [65, 0, 47]"] by auto

section \<open>Wire encoding\<close>

definition comps_value :: "comp list \<Rightarrow> byte list" where
  "comps_value cs = concat (map (\<lambda>c. tlv_bytes (comp_type c) (comp_value c)) cs)"

definition name_value :: "name \<Rightarrow> byte list" where
  "name_value n = comps_value (name_of n)"

context encoding_impl
begin

lemma Name_wireEncode_to_emits:
  assumes "is_name n"
  shows "emitter emits (Name_wireEncode_to ops n) (tlv_bytes tlv_Name (name_value n))"
proof -
  let ?f = "\<lambda>c. tlv_bytes (m_type c) (value_bytes c)"
  have "\<forall>c \<in> set (comps n). emitter emits (Component_wireEncode_to ops c) (?f c)"
    using name_comps_wf [OF assms] Component_wireEncode_to_emits by blast
  then have "emitter emits (Name_wireEncode_to ops n)
    (steps_bytes (map (\<lambda>c _. ?f c) (rev (comps n)) @
      [\<lambda>k. varNumber_bytes (of_nat k), \<lambda>_. varNumber_bytes (ucast tlv_Name)]))"
    unfolding Name_wireEncode_to_def
    by (intro run_steps_emits list_all2_appendI) (auto simp: emitter_intros list.rel_map intro!: list.rel_refl_strong)
  moreover have "concat (map ?f (comps n)) = name_value n"
    by (simp add: name_value_def comps_value_def name_of_def comp_of_def comp_def)
  ultimately show ?thesis by (simp add: steps_bytes_rev tlv_bytes_def)
qed

end

definition is_comp :: "comp \<Rightarrow> bool" where
  "is_comp c \<longleftrightarrow> comp_type c = tlv_NameComponent \<or>
     comp_type c = tlv_ImplicitSha256DigestComponent \<and> length (comp_value c) = SHA256_DIGEST_SIZE"

lemma is_component_comp: "wf_block b \<Longrightarrow> is_component b \<longleftrightarrow> is_comp (comp_of b)"
  by (auto simp: is_component_def is_comp_def comp_of_def isGeneric_def isImplicitSha256Digest_def
      value_size_wf)

text \<open>Parsing a block whose value is the concatenation of the encodings of components.\<close>

lemma parse_name_value:
  assumes "wf_block b" "hasValue b" "m_subBlocks b = []" "m_type b = tlv_Name"
    and "length (value_bytes b) < 2 ^ 64" and "\<forall>c \<in> set cs. is_comp c"
    and "value_bytes b = concat (map (\<lambda>c. tlv_bytes (comp_type c) (comp_value c)) cs)"
  shows "fst (parse b) = None \<and> is_name \<lparr>m_nameBlock = snd (parse b)\<rparr>
    \<and> name_of \<lparr>m_nameBlock = snd (parse b)\<rparr> = cs"
proof -
  let ?es = "map (\<lambda>c. (comp_type c, comp_value c)) cs"
  have "value_bytes b = concat (map (\<lambda>(t, v). tlv_bytes t v) ?es)"
    using assms(7) by (simp add: comp_def)
  moreover have it: "iterators_ok b" using assms(1) wf_block_iff [of b] by simp
  ultimately have p: "fst (parse b) = None" "map type_value (m_subBlocks (snd (parse b))) = ?es"
    using parse_complete [OF it assms(2,3,5)] by blast+
  have "map comp_of (m_subBlocks (snd (parse b))) = map (\<lambda>(t, v). Comp t v) ?es"
    unfolding p(2) [symmetric] by (simp add: comp_of_def type_value_def)
  then have cs: "map comp_of (m_subBlocks (snd (parse b))) = cs" by (simp add: comp_def)
  have "is_component s" if "s \<in> set (m_subBlocks (snd (parse b)))" for s
  proof -
    have "comp_of s \<in> set cs" using that cs by (metis imageI set_map)
    then show ?thesis
      using that assms(6) parse_elements [OF assms(1) p(1) assms(3)] is_component_comp by blast
  qed
  then show ?thesis
    using p(1) cs assms(4) parse_wf [OF assms(1) p(1)] parse_sel(2) [of b]
    by (simp add: is_name_def name_of_def)
qed

lemma is_name_comps: "is_name n \<Longrightarrow> \<forall>c \<in> set (name_of n). is_comp c"
proof
  fix c assume n: "is_name n" and "c \<in> set (name_of n)"
  then obtain b where "b \<in> set (comps n)" "c = comp_of b" by (auto simp: name_of_def)
  then show "is_comp c"
    using n name_comps_wf [OF n] is_component_comp [of b] by (simp add: is_name_def)
qed

lemma Name_wireEncode_new:
  assumes "is_name n" "\<not> hasWire (m_nameBlock n)"
    and "length (tlv_bytes tlv_Name (name_value n)) < 2 ^ 64"
  obtains m where "Name_wireEncode n = (None, m)" "is_name m" "name_of m = name_of n"
    "hasWire (m_nameBlock m)" "wire_bytes (m_nameBlock m) = tlv_bytes tlv_Name (name_value n)"
proof
  let ?b = "tlv_block tlv_Name (name_value n)"
  have enc: "Encoder_block (snd (Name_wireEncode_to EncodingBuffer n
      (Encoder_new (fst (Name_wireEncode_to EncodingEstimator n ())) 0))) True = Inr ?b"
    using Encoder_block_exact [OF encoder.Name_wireEncode_to_emits [OF assms(1)]]
      emitter_length [OF estimator.Name_wireEncode_to_emits [OF assms(1)]]
    by (simp del: length_tlv_bytes)
  have p: "fst (parse ?b) = None \<and> is_name \<lparr>m_nameBlock = snd (parse ?b)\<rparr>
    \<and> name_of \<lparr>m_nameBlock = snd (parse ?b)\<rparr> = name_of n"
    using fresh_value [of ?b] assms(3) is_name_comps [OF assms(1)]
    by (intro parse_name_value) (simp_all add: name_value_def comps_value_def del: length_tlv_bytes)
  show "Name_wireEncode n = (None, \<lparr>m_nameBlock = snd (parse ?b)\<rparr>)"
    using enc p assms(2) by (cases n) (simp add: Name_wireEncode_def Let_def split_beta)
  show "is_name \<lparr>m_nameBlock = snd (parse ?b)\<rparr>" "name_of \<lparr>m_nameBlock = snd (parse ?b)\<rparr> = name_of n"
    using p by simp_all
qed simp_all

lemma Name_wireDecode_fresh:
  assumes "fresh w" "type_value w = (tlv_Name, comps_value cs)" "\<forall>c \<in> set cs. is_comp c"
  shows "\<exists>d. Name_wireDecode n w = (None, d) \<and> name_of d = cs \<and> is_name d"
proof -
  have "wf_block w" "hasValue w" "m_subBlocks w = []" "m_type w = tlv_Name" "length (value_bytes w) < 2 ^ 64"
    "value_bytes w = concat (map (\<lambda>c. tlv_bytes (comp_type c) (comp_value c)) cs)"
    using assms(1,2) fresh_value [OF assms(1)] by (auto simp: fresh_def hasWire_def hasValue_def type_value_def comps_value_def)
  from parse_name_value [OF this(1-5) assms(3) this(6)] this(4) show ?thesis
    by (cases n) (auto simp: Name_wireDecode_def split_beta)
qed

interpretation name_wire: wire_codec tlv_Name comps_value "\<lambda>cs. \<forall>c \<in> set cs. is_comp c" Name_wireDecode
  "\<lambda>_. True" name_of is_name
  "\<lambda>n. case Name_wireEncode n of (None, m) \<Rightarrow> Inr (m_nameBlock m, m) | (Some e, _) \<Rightarrow> Inl e" m_nameBlock is_name
proof (unfold_locales, goal_cases)
  case (1 b v x0)
  then show ?case using Name_wireDecode_fresh by blast
next
  case (2 n)
  then have "length (tlv_bytes tlv_Name (name_value n)) < 2 ^ 64" by (simp add: name_value_def)
  from Name_wireEncode_new [OF 2(1,3) this]
  show ?case by (fastforce simp: name_value_def is_name_def)
next
  case (3 n)
  then show ?case by (simp add: Name_wireEncode_def)
qed

text \<open>
  C5. Names round-trip over the wire: \<open>wireEncode\<close> of a name without a wire writes the TLV of the
  concatenated components, in exactly the estimated number of bytes, keeps the name, and caches
  the wire; parsing those bytes as a block and decoding it gives the same name.
\<close>
theorem Name_wire_roundtrip:
  assumes "is_name n" "\<not> hasWire (m_nameBlock n)"
    and "length (tlv_bytes tlv_Name (name_value n)) < 2 ^ 64"
  shows "\<exists>m blk d. Name_wireEncode n = (None, m) \<and> is_name m \<and> name_of m = name_of n
     \<and> wire_bytes (m_nameBlock m) = tlv_bytes tlv_Name (name_value n)
     \<and> fst (Name_wireEncode_to EncodingEstimator n ()) = length (wire_bytes (m_nameBlock m))
     \<and> Name_wireEncode m = (None, m)
     \<and> Block_whole (wire_bytes (m_nameBlock m)) = Inr blk
     \<and> Name_wireDecode Name_default blk = (None, d) \<and> is_name d \<and> name_of d = name_of n"
proof -
  obtain m where m: "Name_wireEncode n = (None, m)" "is_name m" "name_of m = name_of n"
    "hasWire (m_nameBlock m)" "wire_bytes (m_nameBlock m) = tlv_bytes tlv_Name (name_value n)"
    using Name_wireEncode_new [OF assms] .
  then show ?thesis
    using name_wire.decode_bytes [OF is_name_comps [OF assms(1)], of Name_default] assms(3)
      emitter_length [OF estimator.Name_wireEncode_to_emits [OF assms(1)]]
    by (auto simp: Name_wireEncode_def [of m] name_value_def simp del: length_tlv_bytes)
qed

theorem Name_wire_roundtrip_witness:
  "\<exists>m. Name_wireEncode (name1 [65]) = (None, m) \<and> wire_bytes (m_nameBlock m) = [7, 3, 8, 1, 65]"
proof -
  have "tlv_bytes tlv_Name (name_value (name1 [65])) = [7, 3, 8, 1, 65]"
    by (simp add: name_value_def comps_value_def tlv_bytes_def writeVarNumber_def tlv_codes)
  moreover have "\<not> hasWire (m_nameBlock (name1 [65]))" by (simp add: name1_def)
  ultimately show ?thesis using Name_wire_roundtrip [of "name1 [65]"] by auto
qed

text \<open>
  \<open>Name::operator==\<close> ignores component types while \<open>std::hash<Name>\<close> hashes the wire: two
  names can be \<open>==\<close>, compare as different, and be hashed from different bytes.
\<close>
theorem Name_equal_but_hashed_differently:
  "\<exists>a b. is_name a \<and> is_name b \<and> Name_equals a b = Inr True
     \<and> (\<exists>r. Name_compare a b = Inr r \<and> r \<noteq> 0)
     \<and> (\<exists>x y. (\<forall>h. Name_hash h a = Inr (h x) \<and> Name_hash h b = Inr (h y)) \<and> x \<noteq> y)"
proof -
  define v where "v = replicate SHA256_DIGEST_SIZE (0 :: byte)"
  define a where "a = name1 v"
  define b where "b = Name_append Name_default (tlv_block tlv_ImplicitSha256DigestComponent v)"
  have "is_component (tlv_block tlv_ImplicitSha256DigestComponent v)"
    by (simp add: is_component_def isImplicitSha256Digest_def v_def)
  then have ab: "is_name a" "is_name b" "Name_size a = 1" "Name_size b = 1"
    "name_of a = [Comp tlv_NameComponent v]" "name_of b = [Comp tlv_ImplicitSha256DigestComponent v]"
    "\<not> hasWire (m_nameBlock a)" "\<not> hasWire (m_nameBlock b)"
    by (simp_all add: a_def b_def name1_def comp_of_def)
  have ne: "name_of a \<noteq> name_of b" using ab by (simp add: tlv_codes)
  have len: "length (tlv_bytes t (name_value n)) < 2 ^ 64"
    if "name_of n = [Comp t' v]" for t t' n
    using that by (simp add: name_value_def comps_value_def v_def SHA256_DIGEST_SIZE_def sizeOfVarNumber_def)
  obtain a' where a': "Name_wireEncode a = (None, a')"
    "wire_bytes (m_nameBlock a') = tlv_bytes tlv_Name (name_value a)"
    using Name_wireEncode_new [OF ab(1,7) len [OF ab(5)]] by blast
  obtain b' where b': "Name_wireEncode b = (None, b')"
    "wire_bytes (m_nameBlock b') = tlv_bytes tlv_Name (name_value b)"
    using Name_wireEncode_new [OF ab(2,8) len [OF ab(6)]] by blast
  have "tlv_bytes tlv_Name (name_value a) \<noteq> tlv_bytes tlv_Name (name_value b)"
    using ab(5,6) by (simp add: name_value_def comps_value_def tlv_bytes_def writeVarNumber_def tlv_codes)
  moreover have "Name_equals a b = Inr True"
    using Name_equals_values [OF ab(1,2)] ab(3,5,6) by simp
  moreover have "\<exists>r. Name_compare a b = Inr r \<and> r \<noteq> 0"
    using Name_compare_lex [OF ab(1,2)] ab(3,4) ne by auto
  ultimately show ?thesis using ab(1,2) a' b' by (force simp: Name_hash_def)
qed

end
