(* ===== verification/KeyLocator.thy ===== *)
theory KeyLocator
  imports Name
begin

text \<open>
  Key locators, after \<open>src/key-locator.{hpp,cpp}\<close>: either a name or the digest of a key, with a cached wire.
\<close>

section \<open>The class\<close>

datatype KeyLocator_Type = KeyLocator_None | KeyLocator_Name | KeyLocator_KeyDigest | KeyLocator_Unknown

record key_locator =
  kl_type :: KeyLocator_Type
  kl_name :: name
  kl_keyDigest :: block
  kl_wire :: block

definition KeyLocator_default :: key_locator where
  "KeyLocator_default =
     \<lparr>kl_type = KeyLocator_None, kl_name = Name_default, kl_keyDigest = Block_default, kl_wire = Block_default\<rparr>"

definition KeyLocator_empty :: "key_locator \<Rightarrow> bool" where
  "KeyLocator_empty k \<longleftrightarrow> kl_type k = KeyLocator_None"

definition KeyLocator_clear :: "key_locator \<Rightarrow> key_locator" where
  "KeyLocator_clear k =
     k\<lparr>kl_wire := Block_reset (kl_wire k), kl_type := KeyLocator_None, kl_name := Name_clear (kl_name k),
       kl_keyDigest := Block_reset (kl_keyDigest k)\<rparr>"

definition KeyLocator_getName :: "key_locator \<Rightarrow> name result" where
  "KeyLocator_getName k =
     (if kl_type k \<noteq> KeyLocator_Name then Inl (KeyLocatorError ''KeyLocator type is not Name'')
      else Inr (kl_name k))"

definition KeyLocator_setName :: "key_locator \<Rightarrow> name \<Rightarrow> key_locator" where
  "KeyLocator_setName k name = (KeyLocator_clear k)\<lparr>kl_type := KeyLocator_Name, kl_name := name\<rparr>"

definition KeyLocator_ofName :: "name \<Rightarrow> key_locator" where
  "KeyLocator_ofName name = KeyLocator_setName KeyLocator_default name"

definition getKeyDigest :: "key_locator \<Rightarrow> block result" where
  "getKeyDigest k =
     (if kl_type k \<noteq> KeyLocator_KeyDigest then Inl (KeyLocatorError ''KeyLocator type is not KeyDigest'')
      else Inr (kl_keyDigest k))"

definition setKeyDigest :: "key_locator \<Rightarrow> block \<Rightarrow> key_locator result" where
  "setKeyDigest k keyDigest =
     (if m_type keyDigest \<noteq> tlv_KeyDigest then Inl (KeyLocatorError ''expecting KeyDigest block'')
      else Inr ((KeyLocator_clear k)\<lparr>kl_type := KeyLocator_KeyDigest, kl_keyDigest := keyDigest\<rparr>))"

definition setKeyDigest_buffer :: "key_locator \<Rightarrow> byte list \<Rightarrow> key_locator result" where
  "setKeyDigest_buffer k keyDigest = bindE (makeBinaryBlock tlv_KeyDigest keyDigest) (setKeyDigest k)"

section \<open>Wire\<close>

definition KeyLocator_wireEncode_to :: "'e EncodingImpl \<Rightarrow> key_locator \<Rightarrow> 'e \<Rightarrow> (nat \<times> 'e) result" where
  "KeyLocator_wireEncode_to ops k =
     run_stepsE
       ((case kl_type k of
           KeyLocator_None \<Rightarrow> []
         | KeyLocator_Name \<Rightarrow> [\<lambda>_ e. Inr (Name_wireEncode_to ops (kl_name k) e)]
         | KeyLocator_KeyDigest \<Rightarrow> [\<lambda>_ e. Inr (op_prependBlock ops e (kl_keyDigest k))]
         | KeyLocator_Unknown \<Rightarrow> [\<lambda>_ e. Inl (KeyLocatorError ''Unsupported KeyLocator type'')]) @
        header_steps ops tlv_KeyLocator)"

definition KeyLocator_wireEncode :: "key_locator \<Rightarrow> (block \<times> key_locator) result" where
  "KeyLocator_wireEncode k =
     (if hasWire (kl_wire k) then Inr (kl_wire k, k)
      else bindE (encode_block (KeyLocator_wireEncode_to EncodingEstimator k) (KeyLocator_wireEncode_to EncodingBuffer k))
             (\<lambda>b. Inr (b, k\<lparr>kl_wire := b\<rparr>)))"

definition KeyLocator_wireDecode :: "key_locator \<Rightarrow> block \<Rightarrow> error option \<times> key_locator" where
  "KeyLocator_wireDecode k wire =
     (if m_type wire \<noteq> tlv_KeyLocator
      then (Some (KeyLocatorError ''Unexpected TLV type during KeyLocator decoding''), k)
      else case parse wire of
             (Some err, b) \<Rightarrow> (Some err, k\<lparr>kl_wire := b\<rparr>)
           | (None, b) \<Rightarrow>
               (let k = k\<lparr>kl_wire := b\<rparr>
                in case m_subBlocks b of
                     [] \<Rightarrow> (None, k\<lparr>kl_type := KeyLocator_None\<rparr>)
                   | e # _ \<Rightarrow>
                       if m_type e = tlv_Name
                       then (case Name_wireDecode (kl_name k) e of
                               (err, n) \<Rightarrow> (err, k\<lparr>kl_type := KeyLocator_Name, kl_name := n\<rparr>))
                       else if m_type e = tlv_KeyDigest
                       then (None, k\<lparr>kl_type := KeyLocator_KeyDigest, kl_keyDigest := e\<rparr>)
                       else (None, k\<lparr>kl_type := KeyLocator_Unknown\<rparr>)))"

definition KeyLocator_ofBlock :: "block \<Rightarrow> key_locator result" where
  "KeyLocator_ofBlock wire =
     (case KeyLocator_wireDecode KeyLocator_default wire of (None, k) \<Rightarrow> Inr k | (Some err, _) \<Rightarrow> Inl err)"

definition KeyLocator_equal :: "key_locator \<Rightarrow> key_locator \<Rightarrow> (bool \<times> key_locator \<times> key_locator) result" where
  "KeyLocator_equal k other =
     bindE (KeyLocator_wireEncode k) (\<lambda>(w, k).
     bindE (KeyLocator_wireEncode other) (\<lambda>(w', other).
     bindE (Block_equal w w') (\<lambda>r. Inr (r, k, other))))"

section \<open>Abstract key locators\<close>

datatype locator = NoKey | KeyName "comp list" | KeyDigest "byte list" | UnknownKey

definition locator_of :: "key_locator \<Rightarrow> locator" where
  "locator_of k =
     (case kl_type k of
        KeyLocator_None \<Rightarrow> NoKey
      | KeyLocator_Name \<Rightarrow> KeyName (name_of (kl_name k))
      | KeyLocator_KeyDigest \<Rightarrow> KeyDigest (value_bytes (kl_keyDigest k))
      | KeyLocator_Unknown \<Rightarrow> UnknownKey)"

fun locator_elements :: "locator \<Rightarrow> (u32 \<times> byte list) list" where
  "locator_elements (KeyName cs) = [(tlv_Name, comps_value cs)]"
| "locator_elements (KeyDigest d) = [(tlv_KeyDigest, d)]"
| "locator_elements _ = []"

definition locator_value :: "locator \<Rightarrow> byte list" where
  "locator_value l = elements_bytes (locator_elements l)"

fun good_locator :: "locator \<Rightarrow> bool" where
  "good_locator (KeyName cs) \<longleftrightarrow> (\<forall>c \<in> set cs. is_comp c)"
| "good_locator UnknownKey \<longleftrightarrow> False"
| "good_locator _ \<longleftrightarrow> True"

text \<open>The objects that the setters build from names and from digest blocks with a canonical wire.\<close>

definition key_locator_inv :: "key_locator \<Rightarrow> bool" where
  "key_locator_inv k \<longleftrightarrow>
     (kl_type k = KeyLocator_Name \<longrightarrow> is_name (kl_name k))
     \<and> (kl_type k = KeyLocator_KeyDigest \<longrightarrow> canonical tlv_KeyDigest (kl_keyDigest k))"

lemma key_locator_setters:
  "key_locator_inv KeyLocator_default" "key_locator_inv (KeyLocator_clear k)"
  "is_name n \<Longrightarrow> key_locator_inv (KeyLocator_setName k n)"
  "canonical tlv_KeyDigest d \<Longrightarrow> setKeyDigest k d = Inr k' \<Longrightarrow> key_locator_inv k'"
  by (auto simp: key_locator_inv_def KeyLocator_default_def KeyLocator_clear_def KeyLocator_setName_def
      setKeyDigest_def split: if_splits)

lemma locator_of_wire [simp]: "locator_of (k\<lparr>kl_wire := b\<rparr>) = locator_of k"
  by (simp add: locator_of_def split: KeyLocator_Type.split)

context encoding_impl
begin

lemma KeyLocator_wireEncode_to_emits:
  assumes "key_locator_inv k" "good_locator (locator_of k)"
  shows "emitterE emits (KeyLocator_wireEncode_to ops k) (tlv_bytes tlv_KeyLocator (locator_value (locator_of k)))"
  unfolding KeyLocator_wireEncode_to_def locator_value_def
  by (rule element_steps_emit)
    (use assms Name_wireEncode_to_emits [of "kl_name k"] block [of "kl_keyDigest k"] in
      \<open>auto simp: locator_of_def key_locator_inv_def name_value_def canonical_def
         intro!: emitterE_Inr split: KeyLocator_Type.splits\<close>)

end

lemma KeyLocator_wireDecode_fresh:
  assumes "fresh w" "type_value w = (tlv_KeyLocator, locator_value l)" "good_locator l"
  shows "\<exists>k'. KeyLocator_wireDecode k w = (None, k') \<and> locator_of k' = l
           \<and> (kl_type k' = KeyLocator_Name \<longrightarrow> is_name (kl_name k'))"
proof -
  have mt: "m_type w = tlv_KeyLocator" and v: "value_bytes w = elements_bytes (locator_elements l)"
    using assms(2) by (simp_all add: type_value_def locator_value_def)
  obtain b where b: "parse w = (None, b)" "map type_value (m_subBlocks b) = locator_elements l"
    "\<forall>s \<in> set (m_subBlocks b). fresh s"
    using parse_fresh [OF assms(1) v] by metis
  note eval = KeyLocator_wireDecode_def mt b(1) locator_of_def
  show ?thesis
  proof (cases l)
    case (KeyName cs)
    then obtain e where e: "m_subBlocks b = [e]" "type_value e = (tlv_Name, comps_value cs)" using b(2) by auto
    then obtain n where "Name_wireDecode (kl_name k) e = (None, n)" "name_of n = cs" "is_name n"
      using name_wire.decodes [of e cs "kl_name k"] b(3) assms(3) KeyName by auto
    with e KeyName show ?thesis by (auto simp: eval type_value_def)
  next
    case (KeyDigest d)
    then obtain e where "m_subBlocks b = [e]" "type_value e = (tlv_KeyDigest, d)" using b(2) by auto
    with KeyDigest show ?thesis by (simp add: eval type_value_def tlv_codes)
  qed (use b(2) assms(3) in \<open>simp_all add: eval\<close>)
qed

interpretation key_locator_wire: wire_codec tlv_KeyLocator locator_value good_locator KeyLocator_wireDecode
  "\<lambda>_. True" locator_of "\<lambda>k. kl_type k = KeyLocator_Name \<longrightarrow> is_name (kl_name k)"
  KeyLocator_wireEncode kl_wire key_locator_inv
proof (unfold_locales, goal_cases)
  case (1 b v x0)
  then show ?case using KeyLocator_wireDecode_fresh by blast
next
  case (2 k)
  then show ?case
    using encode_block_eq [OF estimator.KeyLocator_wireEncode_to_emits [OF 2(1,2)]
        encoder.KeyLocator_wireEncode_to_emits [OF 2(1,2)]]
    by (simp add: KeyLocator_wireEncode_def del: length_tlv_bytes)
next
  case (3 k)
  then show ?case by (simp add: KeyLocator_wireEncode_def)
qed

lemma KeyLocator_ofName_simps [simp]:
  "is_name n \<Longrightarrow> key_locator_inv (KeyLocator_ofName n)" "locator_of (KeyLocator_ofName n) = KeyName (name_of n)"
  "\<not> hasWire (kl_wire (KeyLocator_ofName n))"
  by (simp_all add: KeyLocator_ofName_def key_locator_setters)
    (simp_all add: KeyLocator_setName_def KeyLocator_clear_def locator_of_def Block_reset_def hasWire_def)

text \<open>
  A key locator holding nothing, a name, or a digest round-trips over the wire: it is encoded without an
  error, the wire is cached, and decoding it into any object (whatever that held before) gives a locator of the same
  type and content.
\<close>
theorem KeyLocator_wire_roundtrip:
  assumes "key_locator_inv k" "good_locator (locator_of k)" "\<not> hasWire (kl_wire k)"
    and "length (tlv_bytes tlv_KeyLocator (locator_value (locator_of k))) < 2 ^ 64"
  shows "\<exists>w k' blk y. KeyLocator_wireEncode k = Inr (w, k')
     \<and> wire_bytes w = tlv_bytes tlv_KeyLocator (locator_value (locator_of k))
     \<and> locator_of k' = locator_of k \<and> KeyLocator_wireEncode k' = Inr (w, k')
     \<and> Block_whole (wire_bytes w) = Inr blk \<and> KeyLocator_wireDecode k0 blk = (None, y)
     \<and> locator_of y = locator_of k"
  using key_locator_wire.roundtrip [OF assms(1-3) TrueI assms(4)] by blast

theorem KeyLocator_wire_roundtrip_witness:
  "\<exists>w k' blk y. KeyLocator_wireEncode (KeyLocator_ofName (name1 [65])) = Inr (w, k')
     \<and> wire_bytes w = [28, 5, 7, 3, 8, 1, 65]
     \<and> Block_whole (wire_bytes w) = Inr blk \<and> KeyLocator_wireDecode KeyLocator_default blk = (None, y)
     \<and> locator_of y = KeyName [Comp tlv_NameComponent [65]]"
proof -
  have v: "tlv_bytes tlv_KeyLocator (locator_value (KeyName [Comp tlv_NameComponent [65]])) = [28, 5, 7, 3, 8, 1, 65]"
    by (simp add: locator_value_def comps_value_def tlv_bytes_def writeVarNumber_def tlv_codes)
  have "length (tlv_bytes tlv_KeyLocator (locator_value (locator_of (KeyLocator_ofName (name1 [65]))))) < 2 ^ 64"
    by (simp add: v del: length_tlv_bytes)
  from KeyLocator_wire_roundtrip [OF _ _ _ this, of KeyLocator_default] show ?thesis
    by (auto simp: v is_comp_def simp del: length_tlv_bytes)
qed

text \<open>Only a locator of unknown type cannot be encoded; the accessors check the type.\<close>

lemma KeyLocator_errors:
  "\<not> hasWire (kl_wire k) \<Longrightarrow> kl_type k = KeyLocator_Unknown
     \<Longrightarrow> KeyLocator_wireEncode k = Inl (KeyLocatorError ''Unsupported KeyLocator type'')"
  "KeyLocator_getName k = Inr n \<longleftrightarrow> kl_type k = KeyLocator_Name \<and> kl_name k = n"
  "getKeyDigest k = Inr d \<longleftrightarrow> kl_type k = KeyLocator_KeyDigest \<and> kl_keyDigest k = d"
  by (auto simp: KeyLocator_wireEncode_def encode_block_def KeyLocator_wireEncode_to_def run_stepsE_def
      plus_stepE_def KeyLocator_getName_def getKeyDigest_def header_steps_def)

lemma KeyLocator_equal_decides:
  assumes "key_locator_inv k" "good_locator (locator_of k)" "\<not> hasWire (kl_wire k)"
    and "key_locator_inv k'" "good_locator (locator_of k')" "\<not> hasWire (kl_wire k')"
    and "length (tlv_bytes tlv_KeyLocator (locator_value (locator_of k))) < 2 ^ 32"
    and "length (tlv_bytes tlv_KeyLocator (locator_value (locator_of k'))) < 2 ^ 32"
  shows "\<exists>x y. KeyLocator_equal k k' = Inr (locator_of k = locator_of k', x, y)"
  using key_locator_wire.encode_equal [OF assms(1-7) TrueI assms(8)]
  by (auto simp: KeyLocator_equal_def)

end
