(* ===== verification/ValidityPeriod.thy ===== *)
theory ValidityPeriod
  imports WireElement
begin

text \<open>
  Validity periods of certificates, after \<open>src/security/validity-period.{hpp,cpp}\<close>.

  A \<open>system_clock\<close> time point counts nanoseconds since the UNIX epoch, the time points that the class keeps count
  seconds; both are \<^typ>\<open>int\<close> here. \<open>time::toIsoString\<close> and \<open>time::fromIsoString\<close> format and read times with
  Boost.Date_Time: they are the parameters \<open>toIso\<close> (of a time in seconds) and \<open>fromIso\<close> (to a time in nanoseconds).
\<close>

section \<open>The class\<close>

datatype iso_time = IsoTime int | IsoBadCast | IsoOtherException error

record validity_period =
  vp_notBefore :: int
  vp_notAfter :: int
  vp_wire :: block

definition ISO_DATETIME_SIZE :: nat where "ISO_DATETIME_SIZE = 15"
definition NOT_BEFORE_OFFSET :: nat where "NOT_BEFORE_OFFSET = 0"
definition NOT_AFTER_OFFSET :: nat where "NOT_AFTER_OFFSET = 1"

text \<open>\<open>time_point_cast\<close> from nanoseconds to seconds truncates towards the epoch.\<close>

definition to_seconds :: "int \<Rightarrow> int" where
  "to_seconds t = (if t \<ge> 0 then t div 10 ^ 9 else - ((- t) div 10 ^ 9))"

definition ValidityPeriod_default :: validity_period where
  "ValidityPeriod_default = \<lparr>vp_notBefore = 0, vp_notAfter = 0, vp_wire = Block_default\<rparr>"

definition ValidityPeriod_new :: "int \<Rightarrow> int \<Rightarrow> validity_period" where
  "ValidityPeriod_new notBefore notAfter =
     \<lparr>vp_notBefore = to_seconds (notBefore + 10 ^ 9 - 1), vp_notAfter = to_seconds notAfter, vp_wire = Block_default\<rparr>"

definition setPeriod :: "validity_period \<Rightarrow> int \<Rightarrow> int \<Rightarrow> validity_period" where
  "setPeriod p notBefore notAfter =
     p\<lparr>vp_wire := Block_reset (vp_wire p), vp_notBefore := to_seconds (notBefore + 10 ^ 9 - 1),
       vp_notAfter := to_seconds notAfter\<rparr>"

definition getPeriod :: "validity_period \<Rightarrow> int \<times> int" where
  "getPeriod p = (vp_notBefore p * 10 ^ 9, vp_notAfter p * 10 ^ 9)"

definition isValid :: "validity_period \<Rightarrow> int \<Rightarrow> bool" where
  "isValid p now \<longleftrightarrow> vp_notBefore p * 10 ^ 9 < now \<and> now < vp_notAfter p * 10 ^ 9"

definition ValidityPeriod_equal :: "validity_period \<Rightarrow> validity_period \<Rightarrow> bool" where
  "ValidityPeriod_equal p other \<longleftrightarrow>
     vp_notBefore p = vp_notBefore other \<and> vp_notAfter p = vp_notAfter other"

definition ValidityPeriod_print :: "(int \<Rightarrow> string) \<Rightarrow> validity_period \<Rightarrow> string" where
  "ValidityPeriod_print toIso p = ''('' @ toIso (vp_notBefore p) @ '', '' @ toIso (vp_notAfter p) @ '')''"

section \<open>Wire\<close>

definition ValidityPeriod_wireEncode_to ::
    "(int \<Rightarrow> string) \<Rightarrow> 'e EncodingImpl \<Rightarrow> validity_period \<Rightarrow> 'e \<Rightarrow> (nat \<times> 'e) result" where
  "ValidityPeriod_wireEncode_to toIso ops p =
     run_stepsE
       ([\<lambda>_ e. Inr (prependStringBlock ops tlv_NotAfter (toIso (vp_notAfter p)) e),
         \<lambda>_ e. Inr (prependStringBlock ops tlv_NotBefore (toIso (vp_notBefore p)) e)] @
        header_steps ops tlv_ValidityPeriod)"

definition ValidityPeriod_wireEncode :: "(int \<Rightarrow> string) \<Rightarrow> validity_period \<Rightarrow> (block \<times> validity_period) result" where
  "ValidityPeriod_wireEncode toIso p =
     (if hasWire (vp_wire p) then Inr (vp_wire p, p)
      else bindE (encode_block (ValidityPeriod_wireEncode_to toIso EncodingEstimator p)
                    (ValidityPeriod_wireEncode_to toIso EncodingBuffer p)) (\<lambda>b.
           case parse b of
             (Some err, _) \<Rightarrow> Inl err
           | (None, b) \<Rightarrow> Inr (b, p\<lparr>vp_wire := b\<rparr>)))"

text \<open>Reading one of the two times; only a \<open>std::bad_cast\<close> is translated.\<close>

definition read_time :: "(string \<Rightarrow> iso_time) \<Rightarrow> block \<Rightarrow> int result" where
  "read_time fromIso b =
     (case fromIso (readString b) of
        IsoTime t \<Rightarrow> Inr (to_seconds t)
      | IsoBadCast \<Rightarrow> Inl (ValidityPeriodError ''Invalid date format in NOT-BEFORE or NOT-AFTER field'')
      | IsoOtherException err \<Rightarrow> Inl err)"

definition ValidityPeriod_wireDecode ::
    "(string \<Rightarrow> iso_time) \<Rightarrow> validity_period \<Rightarrow> block \<Rightarrow> error option \<times> validity_period" where
  "ValidityPeriod_wireDecode fromIso p wire =
     (if \<not> hasWire wire
      then (Some (ValidityPeriodError ''The supplied block does not contain wire format''), p)
      else case parse wire of
             (Some err, b) \<Rightarrow> (Some err, p\<lparr>vp_wire := b\<rparr>)
           | (None, b) \<Rightarrow>
               (let p = p\<lparr>vp_wire := b\<rparr>;
                    es = m_subBlocks b
                in if m_type b \<noteq> tlv_ValidityPeriod
                   then (Some (ValidityPeriodError ''Unexpected TLV type when decoding ValidityPeriod''), p)
                   else if length es \<noteq> 2
                   then (Some (ValidityPeriodError ''Does not have two sub-TLVs''), p)
                   else if m_type (es ! NOT_BEFORE_OFFSET) \<noteq> tlv_NotBefore
                     \<or> value_size (es ! NOT_BEFORE_OFFSET) \<noteq> ISO_DATETIME_SIZE
                     \<or> m_type (es ! NOT_AFTER_OFFSET) \<noteq> tlv_NotAfter
                     \<or> value_size (es ! NOT_AFTER_OFFSET) \<noteq> ISO_DATETIME_SIZE
                   then (Some (ValidityPeriodError ''Invalid NotBefore or NotAfter field''), p)
                   else case read_time fromIso (es ! NOT_BEFORE_OFFSET) of
                          Inl err \<Rightarrow> (Some err, p)
                        | Inr notBefore \<Rightarrow>
                            (case read_time fromIso (es ! NOT_AFTER_OFFSET) of
                               Inl err \<Rightarrow> (Some err, p\<lparr>vp_notBefore := notBefore\<rparr>)
                             | Inr notAfter \<Rightarrow>
                                 (None, p\<lparr>vp_notBefore := notBefore, vp_notAfter := notAfter\<rparr>))))"

definition ValidityPeriod_ofBlock :: "(string \<Rightarrow> iso_time) \<Rightarrow> block \<Rightarrow> validity_period result" where
  "ValidityPeriod_ofBlock fromIso block =
     (case ValidityPeriod_wireDecode fromIso ValidityPeriod_default block of
        (None, p) \<Rightarrow> Inr p | (Some err, _) \<Rightarrow> Inl err)"

section \<open>Rounding\<close>

text \<open>
  The period is narrowed to whole seconds: it never admits an instant outside the requested one, as long as it starts
  at the epoch or later.
\<close>

lemma to_seconds_bounds:
  "0 \<le> t \<Longrightarrow> to_seconds t * 10 ^ 9 \<le> t \<and> t < to_seconds t * 10 ^ 9 + 10 ^ 9"
  unfolding to_seconds_def by simp presburger

lemma to_seconds_mult [simp]: "to_seconds (t * 1000000000) = t"
  by (auto simp: to_seconds_def minus_mult_left simp del: minus_mult_left [symmetric])

text \<open>
  The validity period is narrowed to whole seconds: for a period that starts and ends at the UNIX epoch or later,
  every instant accepted by \<open>isValid\<close> lies strictly inside the period requested, and every instant that is at
  least a second away from both ends is accepted. \<open>setPeriod\<close> gives the same period as the constructor and drops the
  cached wire.
\<close>
theorem ValidityPeriod_rounds_inwards:
  assumes "0 \<le> notBefore" "0 \<le> notAfter"
  shows "(isValid (ValidityPeriod_new notBefore notAfter) now \<longrightarrow> notBefore < now \<and> now < notAfter)
    \<and> (notBefore + 10 ^ 9 \<le> now \<and> now + 10 ^ 9 \<le> notAfter
        \<longrightarrow> isValid (ValidityPeriod_new notBefore notAfter) now)
    \<and> ValidityPeriod_equal (setPeriod p notBefore notAfter) (ValidityPeriod_new notBefore notAfter)
      \<and> \<not> hasWire (vp_wire (setPeriod p notBefore notAfter))"
  using to_seconds_bounds [of "notBefore + 10 ^ 9 - 1"] to_seconds_bounds [of notAfter] assms
  by (simp add: isValid_def ValidityPeriod_new_def setPeriod_def ValidityPeriod_equal_def hasWire_def Block_reset_def)

theorem ValidityPeriod_rounds_inwards_witness:
  "isValid (ValidityPeriod_new 1500000000 4200000000) 2500000000
    \<and> \<not> isValid (ValidityPeriod_new 1500000000 4200000000) 4100000000"
  using ValidityPeriod_rounds_inwards [of 1500000000 4200000000 2500000000]
  by (simp add: isValid_def ValidityPeriod_new_def to_seconds_def)

section \<open>Round trip\<close>

definition period_elements :: "(int \<Rightarrow> string) \<Rightarrow> int \<times> int \<Rightarrow> (u32 \<times> byte list) list" where
  "period_elements toIso p =
     [(tlv_NotBefore, map byte_of_char (toIso (fst p))), (tlv_NotAfter, map byte_of_char (toIso (snd p)))]"

context encoding_impl
begin

lemma ValidityPeriod_wireEncode_to_emits:
  "emitterE emits (ValidityPeriod_wireEncode_to toIso ops p)
     (tlv_bytes tlv_ValidityPeriod (elements_bytes (period_elements toIso (vp_notBefore p, vp_notAfter p))))"
  unfolding ValidityPeriod_wireEncode_to_def
  by (rule element_steps_emit) (auto simp: period_elements_def intro!: emitterE_Inr prependStringBlock_emits)

end

lemma readString_element:
  assumes "wf_block b" "type_value b = (t, map byte_of_char s)"
  shows "readString b = s" "value_size b = length s"
  using assms value_size_wf [OF assms(1)] by (simp_all add: readString_def type_value_def comp_def)

text \<open>What Boost promises for the two times of a period: fifteen characters, which are read back.\<close>

definition iso_laws :: "(int \<Rightarrow> string) \<Rightarrow> (string \<Rightarrow> iso_time) \<Rightarrow> validity_period \<Rightarrow> bool" where
  "iso_laws toIso fromIso p \<longleftrightarrow>
     (\<forall>t \<in> {vp_notBefore p, vp_notAfter p}. length (toIso t) = 15 \<and> fromIso (toIso t) = IsoTime (t * 10 ^ 9))"

lemma ValidityPeriod_wireDecode_parsed:
  assumes "iso_laws toIso fromIso p" "hasWire w" "parse w = (None, c)" "m_type c = tlv_ValidityPeriod"
    and "map type_value (m_subBlocks c) = period_elements toIso (vp_notBefore p, vp_notAfter p)"
    and "\<forall>s \<in> set (m_subBlocks c). fresh s"
  shows "ValidityPeriod_wireDecode fromIso q w
    = (None, q\<lparr>vp_wire := c, vp_notBefore := vp_notBefore p, vp_notAfter := vp_notAfter p\<rparr>)"
proof -
  obtain x y where xy: "m_subBlocks c = [x, y]" "wf_block x" "wf_block y"
    "type_value x = (tlv_NotBefore, map byte_of_char (toIso (vp_notBefore p)))"
    "type_value y = (tlv_NotAfter, map byte_of_char (toIso (vp_notAfter p)))"
    using assms(5,6) by (auto simp: period_elements_def fresh_def)
  then show ?thesis
    using assms(1-4) readString_element [OF xy(2,4)] readString_element [OF xy(3,5)]
    by (simp add: ValidityPeriod_wireDecode_def read_time_def type_value_def NOT_BEFORE_OFFSET_def NOT_AFTER_OFFSET_def
        ISO_DATETIME_SIZE_def iso_laws_def)
qed

lemma ValidityPeriod_wireEncode_new:
  assumes "iso_laws toIso fromIso p" "\<not> hasWire (vp_wire p)"
  obtains b where "ValidityPeriod_wireEncode toIso p = Inr (b, p\<lparr>vp_wire := b\<rparr>)" "hasWire b" "parse b = (None, b)"
    "m_type b = tlv_ValidityPeriod" "\<forall>s \<in> set (m_subBlocks b). fresh s"
    "map type_value (m_subBlocks b) = period_elements toIso (vp_notBefore p, vp_notAfter p)"
    "wire_bytes b = tlv_bytes tlv_ValidityPeriod (elements_bytes (period_elements toIso (vp_notBefore p, vp_notAfter p)))"
    "length (wire_bytes b) < 2 ^ 64"
proof -
  let ?es = "period_elements toIso (vp_notBefore p, vp_notAfter p)"
  let ?w = "tlv_block tlv_ValidityPeriod (elements_bytes ?es)"
  have len: "length (tlv_bytes tlv_ValidityPeriod (elements_bytes ?es)) < 2 ^ 64"
    using assms(1) by (simp add: iso_laws_def period_elements_def sizeOfVarNumber_def tlv_codes)
  have enc: "encode_block (ValidityPeriod_wireEncode_to toIso EncodingEstimator p)
      (ValidityPeriod_wireEncode_to toIso EncodingBuffer p) = Inr ?w"
    by (rule encode_block_eq [OF estimator.ValidityPeriod_wireEncode_to_emits encoder.ValidityPeriod_wireEncode_to_emits])
  obtain b where b: "parse ?w = (None, b)" "hasWire b" "wire_bytes b = wire_bytes ?w" "parse b = (None, b)"
    "m_type b = tlv_ValidityPeriod" "\<forall>s \<in> set (m_subBlocks b). fresh s" "map type_value (m_subBlocks b) = ?es"
    by (rule parse_fresh [of ?w ?es]) (use len in \<open>simp_all del: length_tlv_bytes\<close>)
  show ?thesis
    by (rule that [of b]) (use b enc assms(2) len in \<open>simp_all add: ValidityPeriod_wireEncode_def del: length_tlv_bytes\<close>)
qed

text \<open>
  A validity period round-trips over the wire, given that the ISO format of its two times has 15 characters and is read
  back to the same time: it is encoded as the two strings, the wire is cached, and decoding the bytes gives a period that
  is equal to it.
\<close>
theorem ValidityPeriod_wire_roundtrip:
  assumes "iso_laws toIso fromIso p" "\<not> hasWire (vp_wire p)"
  shows "\<exists>w p' blk q. ValidityPeriod_wireEncode toIso p = Inr (w, p')
     \<and> wire_bytes w = tlv_bytes tlv_ValidityPeriod (elements_bytes (period_elements toIso (vp_notBefore p, vp_notAfter p)))
     \<and> ValidityPeriod_equal p p' \<and> ValidityPeriod_wireEncode toIso p' = Inr (w, p')
     \<and> Block_whole (wire_bytes w) = Inr blk \<and> ValidityPeriod_wireDecode fromIso q0 blk = (None, q)
     \<and> ValidityPeriod_equal p q"
proof -
  let ?es = "period_elements toIso (vp_notBefore p, vp_notAfter p)"
  obtain b where b: "ValidityPeriod_wireEncode toIso p = Inr (b, p\<lparr>vp_wire := b\<rparr>)" "hasWire b"
    "wire_bytes b = tlv_bytes tlv_ValidityPeriod (elements_bytes ?es)" "length (wire_bytes b) < 2 ^ 64"
    by (rule ValidityPeriod_wireEncode_new [OF assms])
  obtain blk where blk: "Block_whole (wire_bytes b) = Inr blk" "fresh blk"
    "type_value blk = (tlv_ValidityPeriod, elements_bytes ?es)"
    using Block_whole_tlv [of tlv_ValidityPeriod "elements_bytes ?es"] b(3,4) by auto
  obtain c where c: "parse blk = (None, c)" "map type_value (m_subBlocks c) = ?es"
    "\<forall>s \<in> set (m_subBlocks c). fresh s" "m_type c = tlv_ValidityPeriod"
    by (rule parse_fresh [OF blk(2), of ?es]) (use blk(3) in \<open>simp_all add: type_value_def\<close>)
  have "hasWire blk" using blk(2) by (simp add: fresh_def)
  from ValidityPeriod_wireDecode_parsed [OF assms(1) this c(1,4,2,3), of q0] b blk(1) show ?thesis
    by (simp add: ValidityPeriod_wireEncode_def ValidityPeriod_equal_def del: length_tlv_bytes)
qed

theorem ValidityPeriod_wire_roundtrip_witness:
  "\<exists>w p' blk q. ValidityPeriod_wireEncode (\<lambda>_. ''19700101T000000'') ValidityPeriod_default = Inr (w, p')
     \<and> Block_whole (wire_bytes w) = Inr blk
     \<and> ValidityPeriod_wireDecode (\<lambda>_. IsoTime 0) ValidityPeriod_default blk = (None, q)
     \<and> ValidityPeriod_equal ValidityPeriod_default q"
proof -
  have "\<not> hasWire (vp_wire ValidityPeriod_default)"
    by (simp add: ValidityPeriod_default_def hasWire_def Block_default_def)
  then show ?thesis
    using ValidityPeriod_wire_roundtrip [of "\<lambda>_. ''19700101T000000''" "\<lambda>_. IsoTime 0" ValidityPeriod_default
        ValidityPeriod_default]
    by (simp add: ValidityPeriod_default_def iso_laws_def del: length_tlv_bytes) blast
qed

end
