(* ===== verification/SignatureInfo.thy ===== *)
theory SignatureInfo
  imports KeyLocator ValidityPeriod
begin

text \<open>
  SignatureInfo and Signature, after \<open>src/signature-info.{hpp,cpp}\<close> and \<open>src/signature.{hpp,cpp}\<close>.

  \<open>m_type\<close> is an \<open>int32_t\<close>, a 32-bit word here, with -1 for "no signature"; it is sign-extended when it is encoded.
\<close>

section \<open>SignatureInfo\<close>

record signature_info =
  si_type :: u32
  si_hasKeyLocator :: bool
  si_keyLocator :: key_locator
  si_otherTlvs :: "block list"
  si_wire :: block

definition SignatureInfo_default :: signature_info where
  "SignatureInfo_default =
     \<lparr>si_type = -1, si_hasKeyLocator = False, si_keyLocator = KeyLocator_default, si_otherTlvs = [],
      si_wire = Block_default\<rparr>"

definition SignatureInfo_ofType :: "u32 \<Rightarrow> signature_info" where
  "SignatureInfo_ofType type = SignatureInfo_default\<lparr>si_type := type\<rparr>"

definition SignatureInfo_new :: "u32 \<Rightarrow> key_locator \<Rightarrow> signature_info" where
  "SignatureInfo_new type keyLocator =
     SignatureInfo_default\<lparr>si_type := type, si_hasKeyLocator := True, si_keyLocator := keyLocator\<rparr>"

definition si_reset :: "signature_info \<Rightarrow> signature_info" where
  "si_reset i = i\<lparr>si_wire := Block_reset (si_wire i)\<rparr>"

definition setSignatureType :: "signature_info \<Rightarrow> u32 \<Rightarrow> signature_info" where
  "setSignatureType i type = (si_reset i)\<lparr>si_type := type\<rparr>"

definition SignatureInfo_setKeyLocator :: "signature_info \<Rightarrow> key_locator \<Rightarrow> signature_info" where
  "SignatureInfo_setKeyLocator i keyLocator =
     (si_reset i)\<lparr>si_keyLocator := keyLocator, si_hasKeyLocator := True\<rparr>"

definition SignatureInfo_unsetKeyLocator :: "signature_info \<Rightarrow> signature_info" where
  "SignatureInfo_unsetKeyLocator i =
     (si_reset i)\<lparr>si_keyLocator := KeyLocator_default, si_hasKeyLocator := False\<rparr>"

definition SignatureInfo_getKeyLocator :: "signature_info \<Rightarrow> key_locator result" where
  "SignatureInfo_getKeyLocator i =
     (if si_hasKeyLocator i then Inr (si_keyLocator i) else Inl (SignatureInfoError ''KeyLocator does not exist''))"

definition unsetValidityPeriod :: "signature_info \<Rightarrow> signature_info" where
  "unsetValidityPeriod i =
     (let i = si_reset i
      in case si_otherTlvs i of
           b # bs \<Rightarrow> if m_type b = tlv_ValidityPeriod then i\<lparr>si_otherTlvs := bs\<rparr> else i
         | [] \<Rightarrow> i)"

definition setValidityPeriod ::
    "(int \<Rightarrow> string) \<Rightarrow> signature_info \<Rightarrow> validity_period \<Rightarrow> (signature_info \<times> validity_period) result" where
  "setValidityPeriod toIso i validityPeriod =
     (let i = unsetValidityPeriod i
      in bindE (ValidityPeriod_wireEncode toIso validityPeriod) (\<lambda>(w, validityPeriod).
           Inr (i\<lparr>si_otherTlvs := w # si_otherTlvs i\<rparr>, validityPeriod)))"

definition getValidityPeriod :: "(string \<Rightarrow> iso_time) \<Rightarrow> signature_info \<Rightarrow> validity_period result" where
  "getValidityPeriod fromIso i =
     (case si_otherTlvs i of
        b # _ \<Rightarrow> if m_type b \<noteq> tlv_ValidityPeriod
                then Inl (SignatureInfoError ''SignatureInfo does not contain the requested ValidityPeriod field'')
                else ValidityPeriod_ofBlock fromIso b
      | [] \<Rightarrow> Inl (SignatureInfoError ''SignatureInfo does not contain the requested ValidityPeriod field''))"

definition appendTypeSpecificTlv :: "signature_info \<Rightarrow> block \<Rightarrow> signature_info" where
  "appendTypeSpecificTlv i b = i\<lparr>si_otherTlvs := si_otherTlvs i @ [b]\<rparr>"

definition getTypeSpecificTlv :: "signature_info \<Rightarrow> u32 \<Rightarrow> block result" where
  "getTypeSpecificTlv i type =
     (case find (\<lambda>b. m_type b = type) (si_otherTlvs i) of
        Some b \<Rightarrow> Inr b
      | None \<Rightarrow> Inl (SignatureInfoError (''(SignatureInfo::getTypeSpecificTlv) Requested a non-existed type ['' @
                  show_nat (unat type) @ ''] from SignatureInfo'')))"

section \<open>Wire of SignatureInfo\<close>

definition SignatureInfo_wireEncode_to :: "'e EncodingImpl \<Rightarrow> signature_info \<Rightarrow> 'e \<Rightarrow> (nat \<times> 'e) result" where
  "SignatureInfo_wireEncode_to ops i =
     run_stepsE
       (map (\<lambda>b _ e. Inr (op_appendBlock ops e b)) (rev (si_otherTlvs i)) @
        (if si_hasKeyLocator i then [\<lambda>_. KeyLocator_wireEncode_to ops (si_keyLocator i)] else []) @
        [\<lambda>_ e. Inr (prependNonNegativeIntegerBlock ops tlv_SignatureType (scast (si_type i)) e)] @
        header_steps ops tlv_SignatureInfo)"

definition SignatureInfo_wireEncode :: "signature_info \<Rightarrow> (block \<times> signature_info) result" where
  "SignatureInfo_wireEncode i =
     (if hasWire (si_wire i) then Inr (si_wire i, i)
      else bindE (encode_block (SignatureInfo_wireEncode_to EncodingEstimator i)
                    (SignatureInfo_wireEncode_to EncodingBuffer i))
             (\<lambda>b. Inr (b, i\<lparr>si_wire := b\<rparr>)))"

text \<open>The iterator \<open>it\<close> of \<open>wireDecode\<close> as the list of the elements still ahead.\<close>

definition decode_otherTlvs :: "block list \<Rightarrow> signature_info \<Rightarrow> error option \<times> signature_info" where
  "decode_otherTlvs vals i = (None, fold (\<lambda>b i. appendTypeSpecificTlv i b) vals i)"

definition decode_keyLocator :: "block list \<Rightarrow> signature_info \<Rightarrow> error option \<times> signature_info" where
  "decode_keyLocator vals i =
     (case vals of
        it # rest \<Rightarrow>
          if m_type it = tlv_KeyLocator
          then (case KeyLocator_wireDecode (si_keyLocator i) it of
                  (Some err, k) \<Rightarrow> (Some err, i\<lparr>si_keyLocator := k\<rparr>)
                | (None, k) \<Rightarrow> decode_otherTlvs rest (i\<lparr>si_keyLocator := k, si_hasKeyLocator := True\<rparr>))
          else decode_otherTlvs vals i
      | [] \<Rightarrow> decode_otherTlvs [] i)"

definition SignatureInfo_wireDecode :: "signature_info \<Rightarrow> block \<Rightarrow> error option \<times> signature_info" where
  "SignatureInfo_wireDecode i wire =
     (if \<not> hasWire wire
      then (Some (SignatureInfoError ''The supplied block does not contain wire format''), i)
      else case parse wire of
             (Some err, b) \<Rightarrow> (Some err, i\<lparr>si_hasKeyLocator := False, si_wire := b\<rparr>)
           | (None, b) \<Rightarrow>
               (let i = i\<lparr>si_hasKeyLocator := False, si_wire := b\<rparr>;
                    missing = SignatureInfoError (''SignatureInfo does not have sub-TLV or the first sub-TLV is not '' @
                                ''SignatureType'')
                in if m_type b \<noteq> tlv_SignatureInfo
                   then (Some (TlvError ''Unexpected TLV type when decoding Name''), i)
                   else case m_subBlocks b of
                          it # rest \<Rightarrow>
                            if m_type it = tlv_SignatureType
                            then (case block_readNonNegativeInteger it of
                                    Inl err \<Rightarrow> (Some err, i)
                                  | Inr n \<Rightarrow> decode_keyLocator rest (i\<lparr>si_type := ucast n\<rparr>))
                            else (Some missing, i)
                        | [] \<Rightarrow> (Some missing, i)))"

definition SignatureInfo_ofBlock :: "block \<Rightarrow> signature_info result" where
  "SignatureInfo_ofBlock block =
     (case SignatureInfo_wireDecode SignatureInfo_default block of (None, i) \<Rightarrow> Inr i | (Some err, _) \<Rightarrow> Inl err)"

text \<open>\<open>operator==\<close> on \<open>std::list<Block>\<close>, and on SignatureInfo.\<close>

fun blocks_equal_loop :: "block list \<Rightarrow> block list \<Rightarrow> bool result" where
  "blocks_equal_loop (a # as) (b # bs) = bindE (Block_equal a b) (\<lambda>r. if r then blocks_equal_loop as bs else Inr False)"
| "blocks_equal_loop _ _ = Inr True"

definition blocks_equal :: "block list \<Rightarrow> block list \<Rightarrow> bool result" where
  "blocks_equal as bs = (if length as \<noteq> length bs then Inr False else blocks_equal_loop as bs)"

definition SignatureInfo_equal ::
    "signature_info \<Rightarrow> signature_info \<Rightarrow> (bool \<times> signature_info \<times> signature_info) result" where
  "SignatureInfo_equal i rhs =
     (if si_type i \<noteq> si_type rhs \<or> si_hasKeyLocator i \<noteq> si_hasKeyLocator rhs then Inr (False, i, rhs)
      else bindE (KeyLocator_equal (si_keyLocator i) (si_keyLocator rhs)) (\<lambda>(r, k, k').
             let i = i\<lparr>si_keyLocator := k\<rparr>; rhs = rhs\<lparr>si_keyLocator := k'\<rparr>
             in if \<not> r then Inr (False, i, rhs)
                else bindE (blocks_equal (si_otherTlvs i) (si_otherTlvs rhs)) (\<lambda>r. Inr (r, i, rhs))))"

section \<open>Signature\<close>

record signature =
  sg_info :: signature_info
  sg_value :: block

definition Signature_default :: signature where
  "Signature_default = \<lparr>sg_info = SignatureInfo_default, sg_value = Block_default\<rparr>"

definition Signature_ofBlock :: "block \<Rightarrow> block \<Rightarrow> signature result" where
  "Signature_ofBlock info value =
     bindE (SignatureInfo_ofBlock info) (\<lambda>i. Inr \<lparr>sg_info = i, sg_value = value\<rparr>)"

definition Signature_new :: "signature_info \<Rightarrow> block \<Rightarrow> signature" where
  "Signature_new info value = \<lparr>sg_info = info, sg_value = value\<rparr>"

definition Signature_bool :: "signature \<Rightarrow> bool" where
  "Signature_bool s \<longleftrightarrow> si_type (sg_info s) \<noteq> -1"

definition getInfo_full :: "signature \<Rightarrow> block result \<times> signature" where
  "getInfo_full = on_part sg_info (\<lambda>i s. s\<lparr>sg_info := i\<rparr>) (keeping SignatureInfo_wireEncode)"

definition getInfo :: "signature \<Rightarrow> (block \<times> signature) result" where
  "getInfo s = completed (getInfo_full s)"

lemma getInfo_eq:
  "getInfo s = bindE (SignatureInfo_wireEncode (sg_info s)) (\<lambda>(w, i). Inr (w, s\<lparr>sg_info := i\<rparr>))"
  by (simp add: getInfo_def getInfo_full_def completed_on_part)

definition setInfo_block :: "signature \<Rightarrow> block \<Rightarrow> signature result" where
  "setInfo_block s info = bindE (SignatureInfo_ofBlock info) (\<lambda>i. Inr (s\<lparr>sg_info := i\<rparr>))"

definition setInfo :: "signature \<Rightarrow> signature_info \<Rightarrow> signature" where
  "setInfo s info = s\<lparr>sg_info := info\<rparr>"

definition getValue_full :: "signature \<Rightarrow> block result \<times> signature" where
  "getValue_full = on_part sg_value (\<lambda>b s. s\<lparr>sg_value := b\<rparr>) (\<lambda>b. throwing (encode b))"

definition getValue :: "signature \<Rightarrow> (block \<times> signature) result" where
  "getValue s = completed (getValue_full s)"

lemma getValue_eq:
  "getValue s =
     (case encode (sg_value s) of
        (Some err, _) \<Rightarrow> Inl err
      | (None, b) \<Rightarrow> Inr (b, s\<lparr>sg_value := b\<rparr>))"
  by (simp add: getValue_def getValue_full_def on_part_def throwing_def split: prod.split option.split)

definition setValue :: "signature \<Rightarrow> block \<Rightarrow> signature result" where
  "setValue s value =
     (if m_type value \<noteq> tlv_SignatureValue
      then Inl (SignatureError ''The supplied block is not SignatureValue'')
      else Inr (s\<lparr>sg_value := value\<rparr>))"

definition Signature_getType :: "signature \<Rightarrow> u32" where
  "Signature_getType s = si_type (sg_info s)"

definition Signature_getKeyLocator :: "signature \<Rightarrow> key_locator result" where
  "Signature_getKeyLocator s = SignatureInfo_getKeyLocator (sg_info s)"

definition Signature_setKeyLocator :: "signature \<Rightarrow> key_locator \<Rightarrow> signature" where
  "Signature_setKeyLocator s keyLocator = s\<lparr>sg_info := SignatureInfo_setKeyLocator (sg_info s) keyLocator\<rparr>"

definition Signature_unsetKeyLocator :: "signature \<Rightarrow> signature" where
  "Signature_unsetKeyLocator s = s\<lparr>sg_info := SignatureInfo_unsetKeyLocator (sg_info s)\<rparr>"

text \<open>\<open>operator==\<close> encodes parts of both objects.\<close>

definition on_fst :: "('s \<Rightarrow> 'a result \<times> 's) \<Rightarrow> 's \<times> 't \<Rightarrow> 'a result \<times> 's \<times> 't" where
  "on_fst = on_part fst (\<lambda>x p. (x, snd p))"

definition on_snd :: "('t \<Rightarrow> 'a result \<times> 't) \<Rightarrow> 's \<times> 't \<Rightarrow> 'a result \<times> 's \<times> 't" where
  "on_snd = on_part snd (\<lambda>x p. (fst p, x))"

definition Signature_equal :: "signature \<times> signature \<Rightarrow> bool result \<times> signature \<times> signature" where
  "Signature_equal p =
     bindR (on_fst getInfo_full p) (\<lambda>i p.
     bindR (on_snd getInfo_full p) (\<lambda>i' p.
     bindR (Block_equal i i', p) (\<lambda>r p.
       if \<not> r then (Inr False, p)
       else bindR (on_fst getValue_full p) (\<lambda>v p.
            bindR (on_snd getValue_full p) (\<lambda>v' p. (Block_equal v v', p))))))"

section \<open>Abstract signature information\<close>

datatype sig_info = SigInfo (sig_type: u32) (sig_key: "locator option") (sig_other: "(u32 \<times> byte list) list")

definition sig_of :: "signature_info \<Rightarrow> sig_info" where
  "sig_of i = SigInfo (si_type i) (if si_hasKeyLocator i then Some (locator_of (si_keyLocator i)) else None)
     (map type_value (si_otherTlvs i))"

definition sig_head :: "sig_info \<Rightarrow> (u32 \<times> byte list) list" where
  "sig_head s = (tlv_SignatureType, nni_bytes (scast (sig_type s))) #
     (case sig_key s of Some l \<Rightarrow> [(tlv_KeyLocator, locator_value l)] | None \<Rightarrow> [])"

definition sig_value :: "sig_info \<Rightarrow> byte list" where
  "sig_value s = elements_bytes (sig_head s @ sig_other s)"

definition good_sig :: "sig_info \<Rightarrow> bool" where
  "good_sig s \<longleftrightarrow> (\<forall>l. sig_key s = Some l \<longrightarrow> good_locator l)
     \<and> (sig_key s = None \<longrightarrow> (\<forall>a \<in> set (sig_other s). fst a \<noteq> tlv_KeyLocator))"

definition signature_info_inv :: "signature_info \<Rightarrow> bool" where
  "signature_info_inv i \<longleftrightarrow> (si_hasKeyLocator i \<longrightarrow> key_locator_inv (si_keyLocator i))
     \<and> (\<forall>b \<in> set (si_otherTlvs i). canonical (m_type b) b)"

lemma sig_of_wire [simp]: "sig_of (i\<lparr>si_wire := b\<rparr>) = sig_of i"
  by (simp add: sig_of_def)

section \<open>Encoding\<close>

context encoding_impl_append
begin

text \<open>
  \<open>wireEncode\<close> appends the type-specific elements from the last to the first: they come out in reverse order.
\<close>

lemma SignatureInfo_wireEncode_to_emits:
  assumes "signature_info_inv i" "good_sig (sig_of i)"
  shows "\<exists>pre e1 e2. pre @ elements_bytes (rev (sig_other (sig_of i)))
       = tlv_bytes tlv_SignatureInfo (elements_bytes (sig_head (sig_of i) @ rev (sig_other (sig_of i))))
     \<and> SignatureInfo_wireEncode_to ops i e = Inr (length (pre @ elements_bytes (rev (sig_other (sig_of i)))), e2)
     \<and> appends e (elements_bytes (rev (sig_other (sig_of i)))) e1 \<and> emits e1 pre e2"
proof -
  have "emitter appends (\<lambda>e. op_appendBlock ops e b) (tlv_bytes (m_type b) (value_bytes b))"
    if "b \<in> set (si_otherTlvs i)" for b
    using assms(1) that append_block [of b] by (auto simp: signature_info_inv_def canonical_def)
  then have others: "list_all2 (\<lambda>f (t, v). \<forall>n :: nat. emitterE appends (f n) (tlv_bytes t v))
      (map (\<lambda>b _ e. Inr (op_appendBlock ops e b)) (rev (si_otherTlvs i))) (rev (sig_other (sig_of i)))"
    by (auto simp: sig_of_def rev_map list.rel_map type_value_def intro!: list.rel_refl_strong emitterE_Inr)
  have "emitterE emits (KeyLocator_wireEncode_to ops (si_keyLocator i))
      (tlv_bytes tlv_KeyLocator (locator_value (locator_of (si_keyLocator i))))" if "si_hasKeyLocator i"
    using that assms by (intro KeyLocator_wireEncode_to_emits) (simp_all add: signature_info_inv_def good_sig_def sig_of_def)
  then have head: "list_all2 (\<lambda>f (t, v). \<forall>n :: nat. emitterE emits (f n) (tlv_bytes t v))
      ((if si_hasKeyLocator i then [\<lambda>_. KeyLocator_wireEncode_to ops (si_keyLocator i)] else []) @
        [\<lambda>_ e. Inr (prependNonNegativeIntegerBlock ops tlv_SignatureType (scast (si_type i)) e)])
      (rev (sig_head (sig_of i)))"
    by (auto simp: sig_head_def sig_of_def intro!: list_all2_appendI emitterE_Inr prependNonNegativeIntegerBlock_emits)
  show ?thesis
    using two_sided_steps_emit [OF others head, of tlv_SignatureInfo e]
    by (simp only: SignatureInfo_wireEncode_to_def append_assoc)
qed

end

definition rev_sig :: "sig_info \<Rightarrow> sig_info" where
  "rev_sig s = SigInfo (sig_type s) (sig_key s) (rev (sig_other s))"

lemma SignatureInfo_wireEncode_new:
  assumes "signature_info_inv i" "good_sig (sig_of i)" "\<not> hasWire (si_wire i)"
  shows "\<exists>b. SignatureInfo_wireEncode i = Inr (b, i\<lparr>si_wire := b\<rparr>) \<and> wf_block b \<and> hasWire b
     \<and> type_value b = (tlv_SignatureInfo, sig_value (rev_sig (sig_of i)))
     \<and> wire_bytes b = tlv_bytes tlv_SignatureInfo (sig_value (rev_sig (sig_of i)))"
proof -
  let ?post = "elements_bytes (rev (sig_other (sig_of i)))"
  obtain n where est: "SignatureInfo_wireEncode_to EncodingEstimator i () = Inr (n, ())"
    using estimator_both.SignatureInfo_wireEncode_to_emits [OF assms(1,2), of "()"] by auto
  obtain pre e1 e2 m where enc: "SignatureInfo_wireEncode_to EncodingBuffer i (Encoder_new n 0) = Inr (m, e2)"
    "enc_appends (Encoder_new n 0) ?post e1" "enc_emits e1 pre e2"
    "pre @ ?post = tlv_bytes tlv_SignatureInfo (elements_bytes (sig_head (sig_of i) @ rev (sig_other (sig_of i))))"
    using encoder_both.SignatureInfo_wireEncode_to_emits [OF assms(1,2), of "Encoder_new n 0"] by blast
  have v: "elements_bytes (sig_head (sig_of i) @ rev (sig_other (sig_of i))) = sig_value (rev_sig (sig_of i))"
    by (simp add: sig_value_def rev_sig_def sig_head_def)
  from encode_block_two_sided [where est = "SignatureInfo_wireEncode_to EncodingEstimator i"
      and enc = "SignatureInfo_wireEncode_to EncodingBuffer i", OF est, unfolded fst_conv, OF enc] assms(3)
  show ?thesis
    unfolding v by (auto simp: SignatureInfo_wireEncode_def)
qed

section \<open>Decoding\<close>

lemma fold_appendTypeSpecificTlv:
  "fold (\<lambda>b i. appendTypeSpecificTlv i b) vals i = i\<lparr>si_otherTlvs := si_otherTlvs i @ vals\<rparr>"
  by (induction vals arbitrary: i) (simp_all add: appendTypeSpecificTlv_def)

lemma ucast_scast_u32 [simp]: "ucast (scast (w :: u32) :: u64) = w"
  by (rule bit_word_eqI) (simp add: bit_ucast_iff bit_signed_iff)

text \<open>The type-specific elements are added to those the object already has.\<close>

lemma SignatureInfo_wireDecode_spec:
  assumes "fresh w" "type_value w = (tlv_SignatureInfo, sig_value s)" "good_sig s"
  shows "\<exists>i'. SignatureInfo_wireDecode i w = (None, i')
     \<and> sig_of i' = SigInfo (sig_type s) (sig_key s) (map type_value (si_otherTlvs i) @ sig_other s)
     \<and> hasWire (si_wire i') \<and> wire_bytes (si_wire i') = wire_bytes w"
proof -
  have mt: "m_type w = tlv_SignatureInfo" and v: "value_bytes w = elements_bytes (sig_head s @ sig_other s)"
    using assms(2) by (simp_all add: type_value_def sig_value_def)
  obtain b where b: "parse w = (None, b)" "map type_value (m_subBlocks b) = sig_head s @ sig_other s"
    "\<forall>x \<in> set (m_subBlocks b). fresh x" "m_type b = tlv_SignatureInfo" "hasWire b" "wire_bytes b = wire_bytes w"
    by (rule parse_fresh [OF assms(1) v]) (simp add: mt)
  obtain it rest where it: "m_subBlocks b = it # rest"
    "type_value it = (tlv_SignatureType, nni_bytes (scast (sig_type s)))"
    "map type_value rest = (case sig_key s of Some l \<Rightarrow> [(tlv_KeyLocator, locator_value l)] | None \<Rightarrow> []) @ sig_other s"
    using b(2) by (cases "m_subBlocks b") (auto simp: sig_head_def)
  define i1 where "i1 = i\<lparr>si_hasKeyLocator := False, si_wire := b, si_type := sig_type s\<rparr>"
  have "block_readNonNegativeInteger it = Inr (scast (sig_type s))"
    using read_element [OF _ it(2)] b(3) it(1) by (simp add: fresh_def)
  then have dec: "SignatureInfo_wireDecode i w = decode_keyLocator rest i1"
    using assms(1) it(1,2) b(1,4) by (simp add: SignatureInfo_wireDecode_def fresh_def type_value_def i1_def)
  show ?thesis
  proof (cases "sig_key s")
    case None
    have "m_type x \<noteq> tlv_KeyLocator" if "x \<in> set rest" for x
    proof -
      have "type_value x \<in> set (sig_other s)" using that it(3) None by (metis append_Nil image_eqI list.set_map option.simps(4))
      with assms(3) None show ?thesis by (auto simp: good_sig_def type_value_def)
    qed
    then have "decode_keyLocator rest i1 = decode_otherTlvs rest i1"
      by (cases rest) (simp_all add: decode_keyLocator_def)
    with dec None it(3) b(5,6) show ?thesis
      by (simp add: decode_otherTlvs_def fold_appendTypeSpecificTlv sig_of_def i1_def)
  next
    case (Some l)
    then obtain x xs where x: "rest = x # xs" "type_value x = (tlv_KeyLocator, locator_value l)"
      "map type_value xs = sig_other s" using it(3) by (cases rest) auto
    then obtain k where "KeyLocator_wireDecode (si_keyLocator i) x = (None, k)" "locator_of k = l"
      using key_locator_wire.decodes [of x l "si_keyLocator i"] b(3) it(1) assms(3) Some
      by (auto simp: good_sig_def)
    with dec Some x b(5,6) show ?thesis
      by (simp add: decode_keyLocator_def decode_otherTlvs_def fold_appendTypeSpecificTlv sig_of_def i1_def type_value_def)
  qed
qed

interpretation signature_info_wire: wire_codec tlv_SignatureInfo sig_value good_sig SignatureInfo_wireDecode
  "\<lambda>i. si_otherTlvs i = []" sig_of "\<lambda>i. hasWire (si_wire i)" SignatureInfo_wireEncode si_wire
  "\<lambda>i. signature_info_inv i \<and> length (si_otherTlvs i) \<le> 1"
proof (unfold_locales, goal_cases)
  case (1 b s i)
  with SignatureInfo_wireDecode_spec [OF 1(1-3), of i] show ?case by auto
next
  case (2 i)
  then have "rev_sig (sig_of i) = sig_of i"
    by (cases "si_otherTlvs i") (simp_all add: rev_sig_def sig_of_def)
  with 2 SignatureInfo_wireEncode_new [of i] show ?case by auto
next
  case (3 i)
  then show ?case by (simp add: SignatureInfo_wireEncode_def)
qed

text \<open>
  What \<open>wireEncode\<close> writes and \<open>wireDecode\<close> reads of a SignatureInfo: signature type and key locator round-trip
  for every 32-bit type and every encodable locator, and the type-specific elements come back in reverse order, because the encoder
  appends them from the last to the first; with at most one of them the information is unchanged.
\<close>
theorem SignatureInfo_wire_roundtrip:
  assumes "signature_info_inv i" "good_sig (sig_of i)" "\<not> hasWire (si_wire i)"
    and "length (tlv_bytes tlv_SignatureInfo (sig_value (rev_sig (sig_of i)))) < 2 ^ 64"
  shows "\<exists>w blk j. SignatureInfo_wireEncode i = Inr (w, i\<lparr>si_wire := w\<rparr>)
     \<and> wire_bytes w = tlv_bytes tlv_SignatureInfo (sig_value (rev_sig (sig_of i)))
     \<and> Block_whole (wire_bytes w) = Inr blk \<and> SignatureInfo_ofBlock blk = Inr j
     \<and> sig_of j = rev_sig (sig_of i) \<and> (length (si_otherTlvs i) \<le> 1 \<longrightarrow> sig_of j = sig_of i)"
proof -
  obtain w where w: "SignatureInfo_wireEncode i = Inr (w, i\<lparr>si_wire := w\<rparr>)"
    "wire_bytes w = tlv_bytes tlv_SignatureInfo (sig_value (rev_sig (sig_of i)))"
    using SignatureInfo_wireEncode_new [OF assms(1-3)] by blast
  have "good_sig (rev_sig (sig_of i))" "si_otherTlvs SignatureInfo_default = []"
    using assms(2) by (simp_all add: good_sig_def rev_sig_def SignatureInfo_default_def)
  from signature_info_wire.decode_bytes [OF this assms(4)] obtain blk j where
    "Block_whole (wire_bytes w) = Inr blk" "SignatureInfo_wireDecode SignatureInfo_default blk = (None, j)"
    "sig_of j = rev_sig (sig_of i)" unfolding w(2) by blast
  moreover have "rev_sig (sig_of i) = sig_of i" if "length (si_otherTlvs i) \<le> 1"
    using that by (cases "si_otherTlvs i") (simp_all add: rev_sig_def sig_of_def)
  ultimately show ?thesis using w by (auto simp: SignatureInfo_ofBlock_def)
qed

definition two_tlvs :: signature_info where
  "two_tlvs = appendTypeSpecificTlv (appendTypeSpecificTlv (SignatureInfo_ofType 0) (tlv_block 200 [1])) (tlv_block 201 [2])"

lemma two_tlvs_simps:
  "sig_of two_tlvs = SigInfo 0 None [(200, [1]), (201, [2])]" "signature_info_inv two_tlvs"
  "\<not> hasWire (si_wire two_tlvs)" "good_sig (sig_of two_tlvs)"
  by (simp_all add: two_tlvs_def appendTypeSpecificTlv_def SignatureInfo_ofType_def SignatureInfo_default_def sig_of_def
      signature_info_inv_def Block_default_def hasWire_def good_sig_def tlv_codes sizeOfVarNumber_def)

theorem SignatureInfo_wire_roundtrip_witness:
  "\<exists>w blk j. SignatureInfo_wireEncode two_tlvs = Inr (w, two_tlvs\<lparr>si_wire := w\<rparr>)
     \<and> wire_bytes w = [22, 9, 27, 1, 0, 201, 1, 2, 200, 1, 1]
     \<and> Block_whole (wire_bytes w) = Inr blk \<and> SignatureInfo_ofBlock blk = Inr j
     \<and> sig_other (sig_of j) = [(201, [2]), (200, [1])]"
proof -
  have v: "tlv_bytes tlv_SignatureInfo (sig_value (rev_sig (sig_of two_tlvs))) = [22, 9, 27, 1, 0, 201, 1, 2, 200, 1, 1]"
    by (simp add: two_tlvs_simps sig_value_def rev_sig_def sig_head_def tlv_bytes_def writeVarNumber_def tlv_codes nni_bytes_def)
  then have "length (tlv_bytes tlv_SignatureInfo (sig_value (rev_sig (sig_of two_tlvs)))) < 2 ^ 64"
    by (simp del: length_tlv_bytes)
  from SignatureInfo_wire_roundtrip [OF two_tlvs_simps(2,4,3) this]
  obtain w blk j where "SignatureInfo_wireEncode two_tlvs = Inr (w, two_tlvs\<lparr>si_wire := w\<rparr>)"
    "wire_bytes w = [22, 9, 27, 1, 0, 201, 1, 2, 200, 1, 1]" "Block_whole (wire_bytes w) = Inr blk"
    "SignatureInfo_ofBlock blk = Inr j" "sig_of j = rev_sig (sig_of two_tlvs)" unfolding v by blast
  then show ?thesis by (auto simp: rev_sig_def two_tlvs_simps(1))
qed

text \<open>
  Once a SignatureInfo has a wire, \<open>appendTypeSpecificTlv\<close> has no effect on what \<open>wireEncode\<close> returns: the cached
  wire is not dropped. Every other modification drops it.
\<close>
theorem appendTypeSpecificTlv_stale_wire:
  "(hasWire (si_wire i) \<longrightarrow>
      SignatureInfo_wireEncode (appendTypeSpecificTlv i b) = Inr (si_wire i, appendTypeSpecificTlv i b))
   \<and> (\<forall>j \<in> {setSignatureType i t, SignatureInfo_setKeyLocator i k, SignatureInfo_unsetKeyLocator i, unsetValidityPeriod i}.
        \<not> hasWire (si_wire j))"
  by (auto simp: SignatureInfo_wireEncode_def appendTypeSpecificTlv_def setSignatureType_def SignatureInfo_setKeyLocator_def
      SignatureInfo_unsetKeyLocator_def unsetValidityPeriod_def si_reset_def hasWire_def Block_reset_def
      Let_def split: list.split)

theorem appendTypeSpecificTlv_stale_wire_witness:
  "SignatureInfo_wireEncode (appendTypeSpecificTlv (SignatureInfo_default\<lparr>si_wire := tlv_block 22 [27, 1, 0]\<rparr>) (tlv_block 200 [1]))
     = Inr (tlv_block 22 [27, 1, 0],
         appendTypeSpecificTlv (SignatureInfo_default\<lparr>si_wire := tlv_block 22 [27, 1, 0]\<rparr>) (tlv_block 200 [1]))"
  using appendTypeSpecificTlv_stale_wire [of "SignatureInfo_default\<lparr>si_wire := tlv_block 22 [27, 1, 0]\<rparr>"] by simp

text \<open>
  The validity period set last is the one that is read, and setting it twice leaves one element.
\<close>

lemma setValidityPeriod_get:
  assumes "iso_laws toIso fromIso p" "\<not> hasWire (vp_wire p)"
  shows "\<exists>j p' q. setValidityPeriod toIso i p = Inr (j, p') \<and> getValidityPeriod fromIso j = Inr q
     \<and> ValidityPeriod_equal p q \<and> tl (si_otherTlvs j) = si_otherTlvs (unsetValidityPeriod i)
     \<and> \<not> hasWire (si_wire j) \<and> unsetValidityPeriod j = unsetValidityPeriod i"
proof -
  obtain b where b: "ValidityPeriod_wireEncode toIso p = Inr (b, p\<lparr>vp_wire := b\<rparr>)" "hasWire b" "parse b = (None, b)"
    "m_type b = tlv_ValidityPeriod" "\<forall>s \<in> set (m_subBlocks b). fresh s"
    "map type_value (m_subBlocks b) = period_elements toIso (vp_notBefore p, vp_notAfter p)"
    by (rule ValidityPeriod_wireEncode_new [OF assms])
  define j where "j = (unsetValidityPeriod i)\<lparr>si_otherTlvs := b # si_otherTlvs (unsetValidityPeriod i)\<rparr>"
  have "setValidityPeriod toIso i p = Inr (j, p\<lparr>vp_wire := b\<rparr>)"
    by (simp add: setValidityPeriod_def b(1) j_def Let_def)
  moreover have "getValidityPeriod fromIso j = Inr (ValidityPeriod_default\<lparr>vp_wire := b, vp_notBefore := vp_notBefore p,
      vp_notAfter := vp_notAfter p\<rparr>)"
    using ValidityPeriod_wireDecode_parsed [OF assms(1) b(2-4,6,5)]
    by (simp add: getValidityPeriod_def ValidityPeriod_ofBlock_def j_def b(4))
  moreover have "unsetValidityPeriod j = unsetValidityPeriod i" "\<not> hasWire (si_wire j)"
    by (simp_all add: j_def unsetValidityPeriod_def si_reset_def b(4) Block_reset_def hasWire_def Let_def split: list.split)
  ultimately show ?thesis by (simp add: ValidityPeriod_equal_def j_def)
qed

lemma Signature_getInfo_wire: "hasWire (si_wire (sg_info s)) \<Longrightarrow> getInfo s = Inr (si_wire (sg_info s), s)"
  by (simp add: getInfo_eq SignatureInfo_wireEncode_def)

lemma Signature_setValue_type: "setValue s b = Inr s' \<longleftrightarrow> m_type b = tlv_SignatureValue \<and> s' = s\<lparr>sg_value := b\<rparr>"
  by (auto simp: setValue_def)

end
