(* ===== verification/MetaInfo.thy ===== *)
theory MetaInfo
  imports Name
begin

text \<open>
  The MetaInfo of Data packets, after \<open>src/meta-info.{hpp,cpp}\<close>: content type, freshness period, final block identifier
  and application-defined elements.

  \<open>time::milliseconds\<close> counts in a signed 64-bit integer, which is an \<^typ>\<open>int\<close> here; the conversions from and
  to \<open>uint64_t\<close> are written out.
\<close>

section \<open>The class\<close>

record meta_info =
  mi_type :: u32
  mi_freshnessPeriod :: int
  mi_finalBlockId :: block
  mi_appMetaInfo :: "block list"
  mi_wire :: block

definition MetaInfo_default :: meta_info where
  "MetaInfo_default =
     \<lparr>mi_type = ContentType_Blob, mi_freshnessPeriod = -1, mi_finalBlockId = Component_default,
      mi_appMetaInfo = [], mi_wire = Block_default\<rparr>"

definition reset_wire :: "meta_info \<Rightarrow> meta_info" where
  "reset_wire i = i\<lparr>mi_wire := Block_reset (mi_wire i)\<rparr>"

definition MetaInfo_setType :: "meta_info \<Rightarrow> u32 \<Rightarrow> meta_info" where
  "MetaInfo_setType i type = (reset_wire i)\<lparr>mi_type := type\<rparr>"

definition setFreshnessPeriod :: "meta_info \<Rightarrow> int \<Rightarrow> meta_info" where
  "setFreshnessPeriod i freshnessPeriod = (reset_wire i)\<lparr>mi_freshnessPeriod := freshnessPeriod\<rparr>"

definition setFinalBlockId :: "meta_info \<Rightarrow> block \<Rightarrow> meta_info" where
  "setFinalBlockId i finalBlockId = (reset_wire i)\<lparr>mi_finalBlockId := finalBlockId\<rparr>"

definition app_type :: "u32 \<Rightarrow> bool" where
  "app_type t \<longleftrightarrow> 128 \<le> t \<and> t \<le> 252"

definition setAppMetaInfo :: "meta_info \<Rightarrow> block list \<Rightarrow> meta_info result" where
  "setAppMetaInfo i info =
     (if \<exists>b \<in> set info. \<not> app_type (m_type b)
      then Inl (MetaInfoError ''AppMetaInfo block has type outside the application range [128, 252]'')
      else Inr ((reset_wire i)\<lparr>mi_appMetaInfo := info\<rparr>))"

definition addAppMetaInfo :: "meta_info \<Rightarrow> block \<Rightarrow> meta_info result" where
  "addAppMetaInfo i b =
     (if \<not> app_type (m_type b)
      then Inl (MetaInfoError ''AppMetaInfo block has type outside the application range [128, 252]'')
      else Inr ((reset_wire i)\<lparr>mi_appMetaInfo := mi_appMetaInfo i @ [b]\<rparr>))"

text \<open>The loops over the list stop at the first element of the type.\<close>

fun remove_first :: "u32 \<Rightarrow> block list \<Rightarrow> block list option" where
  "remove_first tlvType [] = None"
| "remove_first tlvType (b # bs) =
     (if m_type b = tlvType then Some bs else map_option ((#) b) (remove_first tlvType bs))"

definition removeAppMetaInfo :: "meta_info \<Rightarrow> u32 \<Rightarrow> bool \<times> meta_info" where
  "removeAppMetaInfo i tlvType =
     (case remove_first tlvType (mi_appMetaInfo i) of
        Some bs \<Rightarrow> (True, (reset_wire i)\<lparr>mi_appMetaInfo := bs\<rparr>)
      | None \<Rightarrow> (False, i))"

definition findAppMetaInfo :: "meta_info \<Rightarrow> u32 \<Rightarrow> block option" where
  "findAppMetaInfo i tlvType = find (\<lambda>b. m_type b = tlvType) (mi_appMetaInfo i)"

section \<open>Wire\<close>

definition MetaInfo_wireEncode_to :: "'e EncodingImpl \<Rightarrow> meta_info \<Rightarrow> 'e \<Rightarrow> (nat \<times> 'e) result" where
  "MetaInfo_wireEncode_to ops i =
     run_stepsE
       (map (\<lambda>b _ e. Inr (op_prependBlock ops e b)) (rev (mi_appMetaInfo i)) @
        (if \<not> Component_empty (mi_finalBlockId i)
         then [\<lambda>_ e. Inr (prependNestedBlock ops tlv_FinalBlockId (Component_wireEncode_to ops (mi_finalBlockId i)) e)]
         else []) @
        (if mi_freshnessPeriod i \<ge> 0
         then [\<lambda>_ e. Inr (prependNonNegativeIntegerBlock ops tlv_FreshnessPeriod (of_int (mi_freshnessPeriod i)) e)]
         else []) @
        (if mi_type i \<noteq> ContentType_Blob
         then [\<lambda>_ e. Inr (prependNonNegativeIntegerBlock ops tlv_ContentType (ucast (mi_type i)) e)]
         else []) @
        header_steps ops tlv_MetaInfo)"

definition MetaInfo_wireEncode :: "meta_info \<Rightarrow> (block \<times> meta_info) result" where
  "MetaInfo_wireEncode i =
     (if hasWire (mi_wire i) then Inr (mi_wire i, i)
      else bindE (encode_block (MetaInfo_wireEncode_to EncodingEstimator i) (MetaInfo_wireEncode_to EncodingBuffer i))
             (\<lambda>b. Inr (b, i\<lparr>mi_wire := b\<rparr>)))"

text \<open>
  Decoding walks through the elements in order. The stages below follow the iterator \<open>val\<close>; an element of
  another type than the expected one is left for the next stage.
\<close>

definition decode_appMetaInfo :: "block list \<Rightarrow> meta_info \<Rightarrow> error option \<times> meta_info" where
  "decode_appMetaInfo vals i = (None, i\<lparr>mi_appMetaInfo := mi_appMetaInfo i @ vals\<rparr>)"

definition component_of_value :: "block \<Rightarrow> block result" where
  "component_of_value val = bindE (blockFromValue val) Component_ofBlock"

definition decode_finalBlockId :: "block list \<Rightarrow> meta_info \<Rightarrow> error option \<times> meta_info" where
  "decode_finalBlockId vals i =
     (case vals of
        val # rest \<Rightarrow>
          if m_type val = tlv_FinalBlockId
          then (case component_of_value val of
                  Inl err \<Rightarrow> (Some err, i)
                | Inr c \<Rightarrow>
                    decode_appMetaInfo rest
                      (i\<lparr>mi_finalBlockId := (if m_type c \<noteq> tlv_NameComponent then Block_reset c else c)\<rparr>))
          else decode_appMetaInfo vals (i\<lparr>mi_finalBlockId := Block_reset (mi_finalBlockId i)\<rparr>)
      | [] \<Rightarrow> decode_appMetaInfo [] (i\<lparr>mi_finalBlockId := Block_reset (mi_finalBlockId i)\<rparr>))"

definition milliseconds_min :: int where
  "milliseconds_min = - (2 ^ 63)"

definition decode_freshnessPeriod :: "block list \<Rightarrow> meta_info \<Rightarrow> error option \<times> meta_info" where
  "decode_freshnessPeriod vals i =
     (case vals of
        val # rest \<Rightarrow>
          if m_type val = tlv_FreshnessPeriod
          then (case block_readNonNegativeInteger val of
                  Inl err \<Rightarrow> (Some err, i)
                | Inr n \<Rightarrow> decode_finalBlockId rest (i\<lparr>mi_freshnessPeriod := sint n\<rparr>))
          else decode_finalBlockId vals (i\<lparr>mi_freshnessPeriod := milliseconds_min\<rparr>)
      | [] \<Rightarrow> decode_finalBlockId [] (i\<lparr>mi_freshnessPeriod := milliseconds_min\<rparr>))"

definition decode_contentType :: "block list \<Rightarrow> meta_info \<Rightarrow> error option \<times> meta_info" where
  "decode_contentType vals i =
     (case vals of
        val # rest \<Rightarrow>
          if m_type val = tlv_ContentType
          then (case block_readNonNegativeInteger val of
                  Inl err \<Rightarrow> (Some err, i)
                | Inr n \<Rightarrow> decode_freshnessPeriod rest (i\<lparr>mi_type := ucast n\<rparr>))
          else decode_freshnessPeriod vals (i\<lparr>mi_type := ContentType_Blob\<rparr>)
      | [] \<Rightarrow> decode_freshnessPeriod [] (i\<lparr>mi_type := ContentType_Blob\<rparr>))"

definition MetaInfo_wireDecode :: "meta_info \<Rightarrow> block \<Rightarrow> error option \<times> meta_info" where
  "MetaInfo_wireDecode i wire =
     (case parse wire of
        (Some err, b) \<Rightarrow> (Some err, i\<lparr>mi_wire := b\<rparr>)
      | (None, b) \<Rightarrow> decode_contentType (m_subBlocks b) (i\<lparr>mi_wire := b\<rparr>))"

definition MetaInfo_ofBlock :: "block \<Rightarrow> meta_info result" where
  "MetaInfo_ofBlock wire =
     (case MetaInfo_wireDecode MetaInfo_default wire of (None, i) \<Rightarrow> Inr i | (Some err, _) \<Rightarrow> Inl err)"

text \<open>\<open>operator<<\<close>; how Boost.Chrono prints a duration is a parameter.\<close>

definition MetaInfo_print :: "(int \<Rightarrow> string) \<Rightarrow> meta_info \<Rightarrow> string" where
  "MetaInfo_print show_milliseconds i =
     ''ContentType: '' @ show_nat (unat (mi_type i)) @
     (if mi_freshnessPeriod i \<ge> 0 then '', FreshnessPeriod: '' @ show_milliseconds (mi_freshnessPeriod i) else []) @
     (if \<not> Component_empty (mi_finalBlockId i)
      then '', FinalBlockId: '' @ Component_toUri (mi_finalBlockId i) else []) @
     concat (map (\<lambda>b. '', AppMetaInfoTlvType: '' @ show_nat (unat (m_type b))) (mi_appMetaInfo i))"

definition MetaInfo_equal :: "meta_info \<Rightarrow> meta_info \<Rightarrow> bool result \<times> meta_info \<times> meta_info" where
  "MetaInfo_equal i other =
     (case keeping MetaInfo_wireEncode i of
        (Inl err, i) \<Rightarrow> (Inl err, i, other)
      | (Inr w, i) \<Rightarrow>
          (case keeping MetaInfo_wireEncode other of
             (Inl err, other) \<Rightarrow> (Inl err, i, other)
           | (Inr w', other) \<Rightarrow> (Block_equal w w', i, other)))"

section \<open>Abstract MetaInfo\<close>

datatype meta = Meta (meta_type: u32) (meta_freshness: "int option") (meta_final: "byte list option")
  (meta_app: "(u32 \<times> byte list) list")

definition meta_of :: "meta_info \<Rightarrow> meta" where
  "meta_of i = Meta (mi_type i) (if mi_freshnessPeriod i \<ge> 0 then Some (mi_freshnessPeriod i) else None)
     (if Component_empty (mi_finalBlockId i) then None else Some (value_bytes (mi_finalBlockId i)))
     (map type_value (mi_appMetaInfo i))"

definition meta_elements :: "meta \<Rightarrow> (u32 \<times> byte list) list" where
  "meta_elements m =
     (if meta_type m \<noteq> ContentType_Blob then [(tlv_ContentType, nni_bytes (ucast (meta_type m)))] else []) @
     (case meta_freshness m of Some ms \<Rightarrow> [(tlv_FreshnessPeriod, nni_bytes (of_int ms))] | None \<Rightarrow> []) @
     (case meta_final m of Some c \<Rightarrow> [(tlv_FinalBlockId, tlv_bytes tlv_NameComponent c)] | None \<Rightarrow> []) @
     meta_app m"

definition meta_value :: "meta \<Rightarrow> byte list" where
  "meta_value m = elements_bytes (meta_elements m)"

definition good_meta :: "meta \<Rightarrow> bool" where
  "good_meta m \<longleftrightarrow> (\<forall>ms. meta_freshness m = Some ms \<longrightarrow> 0 \<le> ms \<and> ms < 2 ^ 63)
     \<and> meta_final m \<noteq> Some [] \<and> (\<forall>a \<in> set (meta_app m). app_type (fst a))"

definition meta_info_inv :: "meta_info \<Rightarrow> bool" where
  "meta_info_inv i \<longleftrightarrow>
     (\<not> Component_empty (mi_finalBlockId i) \<longrightarrow> is_component (mi_finalBlockId i) \<and> isGeneric (mi_finalBlockId i))
     \<and> (\<forall>b \<in> set (mi_appMetaInfo i). canonical (m_type b) b)"

lemma meta_of_wire [simp]: "meta_of (i\<lparr>mi_wire := b\<rparr>) = meta_of i"
  by (simp add: meta_of_def)

context encoding_impl
begin

lemma MetaInfo_wireEncode_to_emits:
  assumes "meta_info_inv i"
  shows "emitterE emits (MetaInfo_wireEncode_to ops i) (tlv_bytes tlv_MetaInfo (meta_value (meta_of i)))"
proof -
  let ?R = "list_all2 (\<lambda>f (t, v). \<forall>n :: nat. emitterE emits (f n) (tlv_bytes t v))"
  have "emitter emits (\<lambda>e. op_prependBlock ops e b) (tlv_bytes (m_type b) (value_bytes b))"
    if "b \<in> set (mi_appMetaInfo i)" for b
    using assms that block [of b] by (auto simp: meta_info_inv_def canonical_def)
  then have apps: "?R (map (\<lambda>b _ e. Inr (op_prependBlock ops e b)) (rev (mi_appMetaInfo i)))
      (rev (map type_value (mi_appMetaInfo i)))"
    by (auto simp: rev_map list.rel_map type_value_def intro!: list.rel_refl_strong emitterE_Inr)
  have final: "emitter emits (prependNestedBlock ops tlv_FinalBlockId (Component_wireEncode_to ops (mi_finalBlockId i)))
      (tlv_bytes tlv_FinalBlockId (tlv_bytes tlv_NameComponent (value_bytes (mi_finalBlockId i))))"
    if "\<not> Component_empty (mi_finalBlockId i)"
    using that assms Component_wireEncode_to_emits [of "mi_finalBlockId i"]
    by (intro prependNestedBlock_emits) (simp add: meta_info_inv_def is_component_def isGeneric_def)
  show ?thesis
    unfolding MetaInfo_wireEncode_to_def meta_value_def append_assoc [symmetric]
    by (rule element_steps_emit)
      (use apps final in \<open>auto simp: meta_elements_def meta_of_def simp del: append_assoc
        intro!: list_all2_appendI emitterE_Inr prependNonNegativeIntegerBlock_emits\<close>)
qed

end

section \<open>Decoding\<close>

lemma app_type_codes:
  "app_type t \<Longrightarrow> t \<noteq> tlv_ContentType \<and> t \<noteq> tlv_FreshnessPeriod \<and> t \<noteq> tlv_FinalBlockId"
  by (auto simp: app_type_def tlv_codes)

lemma decode_finalBlockId_spec:
  assumes "map type_value vals = (case c of Some v \<Rightarrow> [(tlv_FinalBlockId, tlv_bytes tlv_NameComponent v)] | None \<Rightarrow> []) @ apps"
    and "\<forall>s \<in> set vals. fresh s" "\<forall>a \<in> set apps. app_type (fst a)" "c \<noteq> Some []"
  shows "\<exists>i'. decode_finalBlockId vals i = (None, i')
     \<and> meta_of i' = Meta (mi_type i) (meta_freshness (meta_of i)) c (meta_app (meta_of i) @ apps)"
proof (cases c)
  case None
  then have apps: "apps = map type_value vals" using assms(1) by simp
  have "m_type val \<noteq> tlv_FinalBlockId" if "vals = val # rest" for val rest
    using assms(3) app_type_codes that by (simp add: apps type_value_def)
  then have "decode_finalBlockId vals i = decode_appMetaInfo vals (i\<lparr>mi_finalBlockId := Block_reset (mi_finalBlockId i)\<rparr>)"
    by (cases vals) (simp_all add: decode_finalBlockId_def)
  then show ?thesis
    using None apps
    by (simp add: decode_appMetaInfo_def meta_of_def Component_empty_def Block_reset_def hasValue_def)
next
  case (Some v)
  then obtain val rest where vals: "vals = val # rest" "type_value val = (tlv_FinalBlockId, tlv_bytes tlv_NameComponent v)"
    "map type_value rest = apps" using assms(1) by (cases vals) auto
  have "wf_block val" "hasValue val" using assms(2) vals(1) by (auto simp: fresh_def hasWire_def hasValue_def)
  then obtain b where b: "blockFromValue val = Inr b" "wf_block b" "hasWire b" "type_value b = (tlv_NameComponent, v)"
    using blockFromValue_tlv [of val tlv_NameComponent v] vals(2) by (auto simp: type_value_def)
  then have "component_of_value val = Inr b" "\<not> Component_empty b"
    using Some assms(4) value_size_wf [OF b(2)] hasWire_hasValue [OF b(3)]
    by (auto simp: component_of_value_def Component_ofBlock_def isGeneric_def type_value_def Component_empty_def)
  then show ?thesis
    using vals b(4) Some
    by (auto simp: decode_finalBlockId_def decode_appMetaInfo_def meta_of_def type_value_def)
qed

lemma sint_of_int_ms: "0 \<le> ms \<Longrightarrow> ms < 2 ^ 63 \<Longrightarrow> sint (of_int ms :: u64) = ms"
  by (simp add: signed_of_int signed_take_bit_int_eq_self)

lemma decode_freshnessPeriod_spec:
  assumes "map type_value vals = (case f of Some ms \<Rightarrow> [(tlv_FreshnessPeriod, nni_bytes (of_int ms))] | None \<Rightarrow> []) @
      (case c of Some v \<Rightarrow> [(tlv_FinalBlockId, tlv_bytes tlv_NameComponent v)] | None \<Rightarrow> []) @ apps"
    and "\<forall>s \<in> set vals. fresh s" "\<forall>a \<in> set apps. app_type (fst a)" "c \<noteq> Some []"
    and "\<And>ms. f = Some ms \<Longrightarrow> 0 \<le> ms \<and> ms < 2 ^ 63"
  shows "\<exists>i'. decode_freshnessPeriod vals i = (None, i')
     \<and> meta_of i' = Meta (mi_type i) f c (meta_app (meta_of i) @ apps)"
proof (cases f)
  case None
  have "decode_freshnessPeriod vals i = decode_finalBlockId vals (i\<lparr>mi_freshnessPeriod := milliseconds_min\<rparr>)"
    using assms(1,3) None app_type_codes
    by (cases vals; cases c; cases apps) (auto simp: decode_freshnessPeriod_def type_value_def tlv_codes)
  then show ?thesis
    using decode_finalBlockId_spec [of vals c apps "i\<lparr>mi_freshnessPeriod := milliseconds_min\<rparr>"] assms(1-4) None
    by (auto simp: meta_of_def milliseconds_min_def)
next
  case (Some ms)
  then obtain val rest where vals: "vals = val # rest" "type_value val = (tlv_FreshnessPeriod, nni_bytes (of_int ms))"
    "map type_value rest = (case c of Some v \<Rightarrow> [(tlv_FinalBlockId, tlv_bytes tlv_NameComponent v)] | None \<Rightarrow> []) @ apps"
    using assms(1) by (cases vals) auto
  then have "decode_freshnessPeriod vals i = decode_finalBlockId rest (i\<lparr>mi_freshnessPeriod := ms\<rparr>)"
    using assms(2) assms(5) [OF Some] read_element [of val]
    by (simp add: decode_freshnessPeriod_def fresh_def sint_of_int_ms type_value_def)
  then show ?thesis
    using decode_finalBlockId_spec [OF vals(3), of "i\<lparr>mi_freshnessPeriod := ms\<rparr>"] assms(2-4) assms(5) [OF Some] vals(1) Some
    by (auto simp: meta_of_def)
qed

lemma MetaInfo_wireDecode_spec:
  assumes "fresh w" "type_value w = (tlv_MetaInfo, meta_value m)" "good_meta m"
  shows "\<exists>i'. MetaInfo_wireDecode i w = (None, i')
     \<and> meta_of i' = Meta (meta_type m) (meta_freshness m) (meta_final m) (meta_app (meta_of i) @ meta_app m)"
proof -
  have v: "value_bytes w = elements_bytes (meta_elements m)"
    using assms(2) by (simp add: type_value_def meta_value_def)
  obtain b where b: "parse w = (None, b)" "map type_value (m_subBlocks b) = meta_elements m"
    "\<forall>s \<in> set (m_subBlocks b). fresh s"
    using parse_fresh [OF assms(1) v] by metis
  let ?i = "(i\<lparr>mi_wire := b\<rparr>)\<lparr>mi_type := meta_type m\<rparr>"
  have apps: "\<forall>a \<in> set (meta_app m). app_type (fst a)" using assms(3) by (simp add: good_meta_def)
  obtain vals where vals: "MetaInfo_wireDecode i w = decode_freshnessPeriod vals ?i" "set vals \<subseteq> set (m_subBlocks b)"
    "map type_value vals = (case meta_freshness m of Some ms \<Rightarrow> [(tlv_FreshnessPeriod, nni_bytes (of_int ms))] | None \<Rightarrow> []) @
      (case meta_final m of Some v \<Rightarrow> [(tlv_FinalBlockId, tlv_bytes tlv_NameComponent v)] | None \<Rightarrow> []) @ meta_app m"
  proof (cases "meta_type m = ContentType_Blob")
    case True
    have "decode_contentType (m_subBlocks b) (i\<lparr>mi_wire := b\<rparr>) = decode_freshnessPeriod (m_subBlocks b) ?i"
      using b(2) True apps app_type_codes
      by (cases "m_subBlocks b"; cases "meta_freshness m"; cases "meta_final m"; cases "meta_app m")
        (auto simp: decode_contentType_def meta_elements_def type_value_def tlv_codes)
    then show ?thesis
      using b True by (intro that [of "m_subBlocks b"]) (simp_all add: MetaInfo_wireDecode_def meta_elements_def)
  next
    case False
    then obtain val rest where *: "m_subBlocks b = val # rest" "type_value val = (tlv_ContentType, nni_bytes (ucast (meta_type m)))"
      using b(2) by (cases "m_subBlocks b") (auto simp: meta_elements_def)
    then have "decode_contentType (m_subBlocks b) (i\<lparr>mi_wire := b\<rparr>) = decode_freshnessPeriod rest ?i"
      using b(3) read_element [of val] by (simp add: decode_contentType_def fresh_def type_value_def)
    then show ?thesis
      using b * False by (intro that [of rest]) (auto simp: MetaInfo_wireDecode_def meta_elements_def)
  qed
  have "\<forall>s \<in> set vals. fresh s" using vals(2) b(3) by blast
  moreover have "meta_final m \<noteq> Some []" "\<And>ms. meta_freshness m = Some ms \<Longrightarrow> 0 \<le> ms \<and> ms < 2 ^ 63"
    using assms(3) by (simp_all add: good_meta_def)
  ultimately obtain i' where "decode_freshnessPeriod vals ?i = (None, i')"
    "meta_of i' = Meta (mi_type ?i) (meta_freshness m) (meta_final m) (meta_app (meta_of ?i) @ meta_app m)"
    using decode_freshnessPeriod_spec [OF vals(3) _ apps] by blast
  then show ?thesis using vals(1) by (simp add: meta_of_def)
qed

interpretation meta_info_wire: wire_codec tlv_MetaInfo meta_value good_meta MetaInfo_wireDecode
  "\<lambda>i. mi_appMetaInfo i = []" meta_of "\<lambda>_. True" MetaInfo_wireEncode mi_wire meta_info_inv
proof (unfold_locales, goal_cases)
  case (1 b m i)
  then have "meta_app (meta_of i) = []" by (simp add: meta_of_def)
  with MetaInfo_wireDecode_spec [OF 1(1-3), of i] show ?case by (metis append_Nil meta.collapse)
next
  case (2 i)
  then show ?case
    using encode_block_eq [OF estimator.MetaInfo_wireEncode_to_emits [OF 2(1)]
        encoder.MetaInfo_wireEncode_to_emits [OF 2(1)]]
    by (simp add: MetaInfo_wireEncode_def del: length_tlv_bytes)
next
  case (3 i)
  then show ?case by (simp add: MetaInfo_wireEncode_def)
qed

text \<open>
  MetaInfo round-trips over the wire: an object whose FinalBlockId is empty or a generic component and whose application
  elements are in the range [128, 252] is encoded, and decoding the bytes into a fresh object gives the same
  content type, freshness period (any negative one counts as absent), FinalBlockId and application elements.
\<close>
theorem MetaInfo_wire_roundtrip:
  assumes "meta_info_inv i" "good_meta (meta_of i)" "\<not> hasWire (mi_wire i)" "mi_appMetaInfo i0 = []"
    and "length (tlv_bytes tlv_MetaInfo (meta_value (meta_of i))) < 2 ^ 64"
  shows "\<exists>w i' blk y. MetaInfo_wireEncode i = Inr (w, i')
     \<and> wire_bytes w = tlv_bytes tlv_MetaInfo (meta_value (meta_of i))
     \<and> meta_of i' = meta_of i \<and> MetaInfo_wireEncode i' = Inr (w, i')
     \<and> Block_whole (wire_bytes w) = Inr blk \<and> MetaInfo_wireDecode i0 blk = (None, y) \<and> meta_of y = meta_of i"
  using meta_info_wire.roundtrip [OF assms] by blast

definition meta_example :: meta_info where
  "meta_example = setFinalBlockId (setFreshnessPeriod (MetaInfo_setType MetaInfo_default 2) 10) (tlv_block tlv_NameComponent [65])"

lemma meta_example_facts:
  "meta_info_inv meta_example" "\<not> hasWire (mi_wire meta_example)"
  "meta_of meta_example = Meta 2 (Some 10) (Some [65]) []"
  by (simp_all add: meta_example_def meta_info_inv_def setFinalBlockId_def setFreshnessPeriod_def MetaInfo_setType_def
      reset_wire_def MetaInfo_default_def isGeneric_def meta_of_def Component_empty_def)
    (simp add: Block_reset_def hasWire_def)

theorem MetaInfo_wire_roundtrip_witness:
  "\<exists>w i' blk y. MetaInfo_wireEncode meta_example = Inr (w, i')
     \<and> wire_bytes w = [20, 11, 24, 1, 2, 25, 1, 10, 26, 3, 8, 1, 65]
     \<and> Block_whole (wire_bytes w) = Inr blk \<and> MetaInfo_wireDecode MetaInfo_default blk = (None, y)
     \<and> meta_of y = Meta 2 (Some 10) (Some [65]) []"
proof -
  have v: "tlv_bytes tlv_MetaInfo (meta_value (meta_of meta_example)) = [20, 11, 24, 1, 2, 25, 1, 10, 26, 3, 8, 1, 65]"
    by (simp add: meta_example_facts meta_value_def meta_elements_def nni_bytes_def tlv_bytes_def writeVarNumber_def
        tlv_codes ContentType_Blob_def)
  have "good_meta (meta_of meta_example)" by (simp add: meta_example_facts good_meta_def)
  moreover have "mi_appMetaInfo MetaInfo_default = []" by (simp add: MetaInfo_default_def)
  moreover have "length (tlv_bytes tlv_MetaInfo (meta_value (meta_of meta_example))) < 2 ^ 64" unfolding v by simp
  ultimately show ?thesis
    using MetaInfo_wire_roundtrip [OF meta_example_facts(1) _ meta_example_facts(2)] v meta_example_facts(3) by metis
qed

text \<open>
  \<open>MetaInfo::wireDecode\<close> does not clear the application elements: decoding into an object appends the decoded elements to
  those it already holds, although \<open>wireDecode\<close> replaces everything else.
\<close>
theorem MetaInfo_wireDecode_accumulates:
  assumes "good_meta m" "length (tlv_bytes tlv_MetaInfo (meta_value m)) < 2 ^ 64"
  shows "\<exists>blk y. Block_whole (tlv_bytes tlv_MetaInfo (meta_value m)) = Inr blk
     \<and> MetaInfo_wireDecode i blk = (None, y) \<and> meta_app (meta_of y) = map type_value (mi_appMetaInfo i) @ meta_app m"
proof -
  obtain blk where "Block_whole (tlv_bytes tlv_MetaInfo (meta_value m)) = Inr blk" "fresh blk"
    "type_value blk = (tlv_MetaInfo, meta_value m)"
    using Block_whole_tlv [OF assms(2)] .
  with MetaInfo_wireDecode_spec [OF _ _ assms(1), of blk i] show ?thesis by (auto simp: meta_of_def)
qed

theorem MetaInfo_wireDecode_accumulates_witness:
  "\<exists>i blk x y. addAppMetaInfo MetaInfo_default (tlv_block 128 [1]) = Inr i
     \<and> Block_whole [20, 3, 128, 1, 1] = Inr blk \<and> MetaInfo_wireDecode i blk = (None, x)
     \<and> meta_app (meta_of x) = [(128, [1]), (128, [1])]"
proof -
  define i where "i = (reset_wire MetaInfo_default)\<lparr>mi_appMetaInfo := [tlv_block 128 [1]]\<rparr>"
  have i: "addAppMetaInfo MetaInfo_default (tlv_block 128 [1]) = Inr i"
    by (simp add: addAppMetaInfo_def i_def app_type_def MetaInfo_default_def)
  let ?m = "Meta ContentType_Blob None None [(128, [1])]"
  have v: "tlv_bytes tlv_MetaInfo (meta_value ?m) = [20, 3, 128, 1, 1]"
    by (simp add: meta_value_def meta_elements_def tlv_bytes_def writeVarNumber_def tlv_codes)
  have "good_meta ?m" by (simp add: good_meta_def app_type_def)
  moreover have "length (tlv_bytes tlv_MetaInfo (meta_value ?m)) < 2 ^ 64" unfolding v by simp
  ultimately show ?thesis
    using MetaInfo_wireDecode_accumulates [of ?m i] i v by (auto simp: i_def)
qed

text \<open>Removal deletes the first element of the type, and finds it exactly when \<open>findAppMetaInfo\<close> does.\<close>

lemma removeAppMetaInfo_spec:
  "fst (removeAppMetaInfo i t) \<longleftrightarrow> findAppMetaInfo i t \<noteq> None"
  "findAppMetaInfo i t = Some b \<Longrightarrow>
     mi_appMetaInfo (snd (removeAppMetaInfo i t)) = remove1 b (mi_appMetaInfo i) \<and> m_type b = t"
proof -
  have type: "m_type b = t" if "find (\<lambda>b. m_type b = t) bs = Some b" for b bs
    using that by (auto simp: find_Some_iff)
  have *: "remove_first t bs = (case find (\<lambda>b. m_type b = t) bs of None \<Rightarrow> None | Some b \<Rightarrow> Some (remove1 b bs))" for bs
    by (induction bs) (auto split: option.splits dest: type)
  show "fst (removeAppMetaInfo i t) \<longleftrightarrow> findAppMetaInfo i t \<noteq> None"
    by (auto simp: removeAppMetaInfo_def findAppMetaInfo_def * split: option.splits)
  show "findAppMetaInfo i t = Some b \<Longrightarrow>
     mi_appMetaInfo (snd (removeAppMetaInfo i t)) = remove1 b (mi_appMetaInfo i) \<and> m_type b = t"
    by (auto simp: removeAppMetaInfo_def findAppMetaInfo_def * reset_wire_def split: option.splits dest: type)
qed

end
