(* ===== verification/Data.thy ===== *)
theory Data
  imports SignatureInfo MetaInfo
begin

text \<open>
  Data packets, after \<open>src/data.{hpp,cpp}\<close>.

  The members that the source declares \<open>mutable\<close> (content, wire, full name, and the wires cached inside the signature)
  change in \<open>const\<close> methods, so these methods return the object too. \<open>crypto::sha256\<close> rests on CryptoPP and is the parameter
  \<open>sha256\<close>; the tags of the base class \<open>TagHost\<close> do not take part in any operation modelled here.
\<close>

section \<open>The class\<close>

record data =
  d_name :: name
  d_metaInfo :: meta_info
  d_content :: block
  d_signature :: signature
  d_wire :: block
  d_fullName :: name

definition Data_default :: data where
  "Data_default =
     \<lparr>d_name = Name_default, d_metaInfo = MetaInfo_default, d_content = Block_ofType tlv_Content,
      d_signature = Signature_default, d_wire = Block_default, d_fullName = Name_default\<rparr>"

definition Data_ofName :: "name \<Rightarrow> data" where
  "Data_ofName name = Data_default\<lparr>d_name := name, d_content := Block_default\<rparr>"

definition onChanged :: "data \<Rightarrow> data" where
  "onChanged d = d\<lparr>d_wire := Block_reset (d_wire d), d_fullName := Name_clear (d_fullName d)\<rparr>"

definition Data_setName :: "data \<Rightarrow> name \<Rightarrow> data" where
  "Data_setName d name = (onChanged d)\<lparr>d_name := name\<rparr>"

definition setMetaInfo :: "data \<Rightarrow> meta_info \<Rightarrow> data" where
  "setMetaInfo d metaInfo = (onChanged d)\<lparr>d_metaInfo := metaInfo\<rparr>"

definition setContentType :: "data \<Rightarrow> u32 \<Rightarrow> data" where
  "setContentType d type = (onChanged d)\<lparr>d_metaInfo := MetaInfo_setType (d_metaInfo d) type\<rparr>"

definition Data_setFreshnessPeriod :: "data \<Rightarrow> int \<Rightarrow> data" where
  "Data_setFreshnessPeriod d freshnessPeriod =
     (onChanged d)\<lparr>d_metaInfo := setFreshnessPeriod (d_metaInfo d) freshnessPeriod\<rparr>"

definition Data_setFinalBlockId :: "data \<Rightarrow> block \<Rightarrow> data" where
  "Data_setFinalBlockId d finalBlockId =
     (onChanged d)\<lparr>d_metaInfo := setFinalBlockId (d_metaInfo d) finalBlockId\<rparr>"

definition getContent_full :: "data \<Rightarrow> block result \<times> data" where
  "getContent_full d =
     (case (if Block_empty (d_content d) then makeEmptyBlock tlv_Content else Inr (d_content d)) of
        Inl err \<Rightarrow> (Inl err, d)
      | Inr c \<Rightarrow>
          on_part d_content (\<lambda>c d. d\<lparr>d_content := c\<rparr>)
            (\<lambda>c. if \<not> hasWire c then throwing (encode c) else (Inr c, c)) (d\<lparr>d_content := c\<rparr>))"

definition getContent :: "data \<Rightarrow> (block \<times> data) result" where
  "getContent d = completed (getContent_full d)"

lemma getContent_eq:
  "getContent d =
     bindE (if Block_empty (d_content d) then makeEmptyBlock tlv_Content else Inr (d_content d)) (\<lambda>c.
       if \<not> hasWire c
       then (case encode c of (Some err, _) \<Rightarrow> Inl err | (None, c) \<Rightarrow> Inr (c, d\<lparr>d_content := c\<rparr>))
       else Inr (c, d\<lparr>d_content := c\<rparr>))"
  by (simp add: getContent_def getContent_full_def on_part_def throwing_def bindE_def
      split: sum.split prod.split option.split)

definition setContent_bytes :: "data \<Rightarrow> byte list \<Rightarrow> error option \<times> data" where
  "setContent_bytes d content =
     (case makeBinaryBlock tlv_Content content of
        Inl err \<Rightarrow> (Some err, onChanged d)
      | Inr b \<Rightarrow> (None, (onChanged d)\<lparr>d_content := b\<rparr>))"

definition setContent_buffer :: "data \<Rightarrow> byte list \<Rightarrow> data" where
  "setContent_buffer d contentValue = (onChanged d)\<lparr>d_content := Block_ofValue tlv_Content contentValue\<rparr>"

text \<open>When a block without a wire is refused, the packet has lost its own wire already.\<close>

definition setContent_block :: "data \<Rightarrow> block \<Rightarrow> error option \<times> data" where
  "setContent_block d content =
     (if m_type content = tlv_Content then (None, (onChanged d)\<lparr>d_content := content\<rparr>)
      else case Block_ofBlock tlv_Content content of
             Inl err \<Rightarrow> (Some err, onChanged d)
           | Inr b \<Rightarrow> (None, (onChanged d)\<lparr>d_content := b\<rparr>))"

definition setSignature :: "data \<Rightarrow> signature \<Rightarrow> data" where
  "setSignature d signature = (onChanged d)\<lparr>d_signature := signature\<rparr>"

definition setSignatureValue :: "data \<Rightarrow> block \<Rightarrow> error option \<times> data" where
  "setSignatureValue d value =
     (case setValue (d_signature d) value of
        Inl err \<Rightarrow> (Some err, onChanged d)
      | Inr s \<Rightarrow> (None, (onChanged d)\<lparr>d_signature := s\<rparr>))"

definition getFullName :: "(byte list \<Rightarrow> byte list) \<Rightarrow> data \<Rightarrow> (name \<times> data) result" where
  "getFullName sha256 d =
     (if Name_empty (d_fullName d)
      then if \<not> hasWire (d_wire d)
           then Inl (DataError (''Full name requested, but Data packet does not have wire format '' @ ''(e.g., not signed)''))
           else bindE (appendImplicitSha256Digest_buffer (d_name d) (sha256 (wire_and_size (d_wire d))))
                  (\<lambda>n. Inr (n, d\<lparr>d_fullName := n\<rparr>))
      else Inr (d_fullName d, d))"

section \<open>Wire\<close>

text \<open>
  \<open>wireEncode(EncodingImpl<TAG>&, bool)\<close>: the guard and the blocks of the signature and the content, which are obtained
  in the order of the source; none of these calls touches the encoder.
\<close>

definition on_signature :: "(signature \<Rightarrow> 'a result \<times> signature) \<Rightarrow> data \<Rightarrow> 'a result \<times> data" where
  "on_signature = on_part d_signature (\<lambda>s d. d\<lparr>d_signature := s\<rparr>)"

definition Data_parts_full :: "bool \<Rightarrow> data \<Rightarrow> (block list \<times> block \<times> block) result \<times> data" where
  "Data_parts_full unsignedPortion d =
     (if \<not> unsignedPortion \<and> \<not> Signature_bool (d_signature d)
      then (Inl (DataError ''Requested wire format, but data packet has not been signed yet''), d)
      else
        bindR (if \<not> unsignedPortion
               then bindR (on_signature getValue_full d) (\<lambda>b d. (Inr [b], d))
               else (Inr [], d)) (\<lambda>value d.
        bindR (on_signature getInfo_full d) (\<lambda>info d.
        bindR (getContent_full d) (\<lambda>content d.
          (Inr (value, info, content), d)))))"

definition Data_parts :: "bool \<Rightarrow> data \<Rightarrow> (block list \<times> block \<times> block \<times> data) result" where
  "Data_parts unsignedPortion d =
     bindE (completed (Data_parts_full unsignedPortion d))
       (\<lambda>((value, info, content), d). Inr (value, info, content, d))"

lemma Data_parts_eq:
  "Data_parts unsignedPortion d =
     (if \<not> unsignedPortion \<and> \<not> Signature_bool (d_signature d)
      then Inl (DataError ''Requested wire format, but data packet has not been signed yet'')
      else
        bindE (if \<not> unsignedPortion
               then bindE (getValue (d_signature d)) (\<lambda>(b, s). Inr ([b], d\<lparr>d_signature := s\<rparr>))
               else Inr ([], d)) (\<lambda>(value, d).
        bindE (getInfo (d_signature d)) (\<lambda>(info, s).
        bindE (getContent (d\<lparr>d_signature := s\<rparr>)) (\<lambda>(content, d).
          Inr (value, info, content, d)))))"
  by (auto simp: Data_parts_def Data_parts_full_def completed_bindR completed_on_part on_signature_def
      getValue_def getInfo_def getContent_def bindE_def split: sum.split)

definition Data_wireEncode_to_full ::
    "'e EncodingImpl \<Rightarrow> bool \<Rightarrow> data \<Rightarrow> 'e \<Rightarrow> (nat \<times> 'e) result \<times> data" where
  "Data_wireEncode_to_full ops unsignedPortion d e =
     bindR (Data_parts_full unsignedPortion d) (\<lambda>(value, info, content) d.
       (run_stepsE
         (map (\<lambda>b _ e. Inr (op_prependBlock ops e b)) value @
          [\<lambda>_ e. Inr (op_prependBlock ops e info),
           \<lambda>_ e. Inr (op_prependBlock ops e content),
           \<lambda>_. MetaInfo_wireEncode_to ops (d_metaInfo d),
           \<lambda>_ e. Inr (Name_wireEncode_to ops (d_name d) e)] @
          (if \<not> unsignedPortion then header_steps ops tlv_Data else [])) e, d))"

definition Data_wireEncode_to ::
    "'e EncodingImpl \<Rightarrow> bool \<Rightarrow> data \<Rightarrow> 'e \<Rightarrow> (nat \<times> 'e \<times> data) result" where
  "Data_wireEncode_to ops unsignedPortion d e =
     bindE (completed (Data_wireEncode_to_full ops unsignedPortion d e)) (\<lambda>((n, e), d). Inr (n, e, d))"

lemma Data_wireEncode_to_eq:
  "Data_wireEncode_to ops unsignedPortion d e =
     bindE (Data_parts unsignedPortion d) (\<lambda>(value, info, content, d).
     bindE (run_stepsE
       (map (\<lambda>b _ e. Inr (op_prependBlock ops e b)) value @
        [\<lambda>_ e. Inr (op_prependBlock ops e info),
         \<lambda>_ e. Inr (op_prependBlock ops e content),
         \<lambda>_. MetaInfo_wireEncode_to ops (d_metaInfo d),
         \<lambda>_ e. Inr (Name_wireEncode_to ops (d_name d) e)] @
        (if \<not> unsignedPortion then header_steps ops tlv_Data else [])) e) (\<lambda>(totalLength, e).
       Inr (totalLength, e, d)))"
  by (auto simp: Data_wireEncode_to_def Data_wireEncode_to_full_def Data_parts_def completed_bindR
      bindE_def completed_def split: sum.split prod.split)

definition decode_required :: "block \<Rightarrow> u32 \<Rightarrow> (block \<Rightarrow> 's decoder) \<Rightarrow> 's decoder" where
  "decode_required b t f s = (case Block_get t b of Inl err \<Rightarrow> (Some err, s) | Inr val \<Rightarrow> f val s)"

definition Data_wireDecode :: "data \<Rightarrow> block \<Rightarrow> error option \<times> data" where
  "Data_wireDecode d wire =
     (let d = d\<lparr>d_fullName := Name_clear (d_fullName d)\<rparr>
      in case parse wire of
           (Some err, b) \<Rightarrow> (Some err, d\<lparr>d_wire := b\<rparr>)
         | (None, b) \<Rightarrow>
             run_decoders
               [decode_required b tlv_Name (\<lambda>val d.
                  case Name_wireDecode (d_name d) val of (err, n) \<Rightarrow> (err, d\<lparr>d_name := n\<rparr>)),
                decode_required b tlv_MetaInfo (\<lambda>val d.
                  case MetaInfo_wireDecode (d_metaInfo d) val of (err, i) \<Rightarrow> (err, d\<lparr>d_metaInfo := i\<rparr>)),
                decode_required b tlv_Content (\<lambda>val d. (None, d\<lparr>d_content := val\<rparr>)),
                decode_required b tlv_SignatureInfo (\<lambda>val d.
                  case setInfo_block (d_signature d) val of
                    Inl err \<Rightarrow> (Some err, d)
                  | Inr s \<Rightarrow> (None, d\<lparr>d_signature := s\<rparr>)),
                decode_element b tlv_SignatureValue (\<lambda>val d.
                  case setValue (d_signature d) val of
                    Inl err \<Rightarrow> (Some err, d)
                  | Inr s \<Rightarrow> (None, d\<lparr>d_signature := s\<rparr>))]
               (d\<lparr>d_wire := b\<rparr>))"

definition Data_ofBlock :: "block \<Rightarrow> data result" where
  "Data_ofBlock wire =
     (case Data_wireDecode (Data_default\<lparr>d_content := Block_default\<rparr>) wire of (None, d) \<Rightarrow> Inr d | (Some err, _) \<Rightarrow> Inl err)"

text \<open>Encoding decodes the result into the object itself (\<open>const_cast\<close>), which caches the wire.\<close>

definition decode_self :: "block result \<Rightarrow> data \<Rightarrow> block result \<times> data" where
  "decode_self block d =
     (case block of
        Inl err \<Rightarrow> (Inl err, d)
      | Inr blk \<Rightarrow>
          (case Data_wireDecode d blk of
             (Some err, d) \<Rightarrow> (Inl err, d)
           | (None, d) \<Rightarrow> (Inr (d_wire d), d)))"

definition Data_wireEncode_full :: "data \<Rightarrow> block result \<times> data" where
  "Data_wireEncode_full d =
     (if hasWire (d_wire d) then (Inr (d_wire d), d)
      else
        bindR (Data_wireEncode_to_full EncodingEstimator False d ()) (\<lambda>(estimatedSize, _) d.
        bindR (Data_wireEncode_to_full EncodingBuffer False d (Encoder_new estimatedSize 0)) (\<lambda>(_, buffer) d.
          decode_self (Encoder_block buffer True) d)))"

definition Data_wireEncode :: "data \<Rightarrow> (block \<times> data) result" where
  "Data_wireEncode d = completed (Data_wireEncode_full d)"

lemma completed_decode_self:
  "completed (decode_self block d) =
     bindE block (\<lambda>blk. case Data_wireDecode d blk of (Some err, _) \<Rightarrow> Inl err | (None, d) \<Rightarrow> Inr (d_wire d, d))"
  by (auto simp: decode_self_def bindE_def split: sum.split prod.split option.split)

lemma completed_bindR_pair:
  "completed (bindR r (\<lambda>(a, b) d. f a b d))
     = bindE (bindE (completed r) (\<lambda>((n, e), d). Inr (n, e, d))) (\<lambda>(a, b, d). completed (f a b d))"
  by (cases r; cases "fst r") auto

lemma Data_wireEncode_eq:
  "Data_wireEncode d =
     (if hasWire (d_wire d) then Inr (d_wire d, d)
      else
        bindE (Data_wireEncode_to EncodingEstimator False d ()) (\<lambda>(estimatedSize, _, d).
        bindE (Data_wireEncode_to EncodingBuffer False d (Encoder_new estimatedSize 0)) (\<lambda>(_, buffer, d).
        bindE (Encoder_block buffer True) (\<lambda>blk.
          case Data_wireDecode d blk of
            (Some err, _) \<Rightarrow> Inl err
          | (None, d) \<Rightarrow> Inr (d_wire d, d)))))"
  by (simp add: Data_wireEncode_def Data_wireEncode_full_def Data_wireEncode_to_def completed_decode_self
      completed_bindR_pair)

text \<open>
  The second half of signing: the encoder holds the unsigned portion, to which the signature value is appended.
\<close>

definition append_signature :: "encoder \<Rightarrow> block \<Rightarrow> encoder" where
  "append_signature encoder signatureValue =
     (let totalLength = Encoder_size encoder;
          (n, encoder) = appendBlock encoder signatureValue;
          totalLength = totalLength + n;
          encoder = snd (prependVarNumber encoder (of_nat totalLength));
          encoder = snd (prependVarNumber encoder (ucast tlv_Data))
      in encoder)"

definition Data_wireEncode_signed_full :: "data \<Rightarrow> encoder \<Rightarrow> block \<Rightarrow> block result \<times> encoder \<times> data" where
  "Data_wireEncode_signed_full d encoder signatureValue =
     (let encoder = append_signature encoder signatureValue;
          (r, d) = decode_self (Encoder_block encoder True) d
      in (r, encoder, d))"

definition Data_wireEncode_signed :: "data \<Rightarrow> encoder \<Rightarrow> block \<Rightarrow> (block \<times> encoder \<times> data) result" where
  "Data_wireEncode_signed d encoder signatureValue = completed (Data_wireEncode_signed_full d encoder signatureValue)"

lemma Data_wireEncode_signed_eq:
  "Data_wireEncode_signed d encoder signatureValue =
     bindE (Encoder_block (append_signature encoder signatureValue) True) (\<lambda>blk.
       case Data_wireDecode d blk of
         (Some err, _) \<Rightarrow> Inl err
       | (None, d) \<Rightarrow> Inr (d_wire d, append_signature encoder signatureValue, d))"
  by (auto simp: Data_wireEncode_signed_def Data_wireEncode_signed_full_def decode_self_def bindE_def Let_def
      split: sum.split prod.split option.split)

definition Data_equal :: "data \<Rightarrow> data \<Rightarrow> bool result \<times> data \<times> data" where
  "Data_equal d other =
     bindR (Name_equals (d_name d) (d_name other), d, other) (\<lambda>r (d, other).
       if \<not> r then (Inr False, d, other)
       else
         bindR (case MetaInfo_equal (d_metaInfo d) (d_metaInfo other) of
                  (r, i, i') \<Rightarrow> (r, d\<lparr>d_metaInfo := i\<rparr>, other\<lparr>d_metaInfo := i'\<rparr>)) (\<lambda>r p.
         if \<not> r then (Inr False, p)
         else bindR (on_fst getContent_full p) (\<lambda>c p.
              bindR (on_snd getContent_full p) (\<lambda>c' p.
              bindR (Block_equal c c', p) (\<lambda>r (d, other).
                if \<not> r then (Inr False, d, other)
                else case Signature_equal (d_signature d, d_signature other) of
                       (r, s, s') \<Rightarrow> (r, d\<lparr>d_signature := s\<rparr>, other\<lparr>d_signature := s'\<rparr>))))))"

text \<open>\<open>operator<<\<close>.\<close>

definition Data_print :: "(int \<Rightarrow> string) \<Rightarrow> data \<Rightarrow> string result \<times> data" where
  "Data_print show_milliseconds d =
     bindR (getContent_full d) (\<lambda>c d.
     bindR (on_signature getValue_full d) (\<lambda>v d.
       (Inr (''Name: '' @ Name_toUri (d_name d) @ [char_of (10 :: nat)] @
            ''MetaInfo: '' @ MetaInfo_print show_milliseconds (d_metaInfo d) @ [char_of (10 :: nat)] @
            ''Content: (size: '' @ show_nat (value_size c) @ '')'' @ [char_of (10 :: nat)] @
            ''Signature: (type: '' @ show_nat (unat (Signature_getType (d_signature d))) @
            '', value_length: '' @ show_nat (value_size v) @ '')'' @ [char_of (10 :: nat)]), d)))"

section \<open>Blocks that get their wire when it is asked for\<close>

text \<open>
  \<open>payload b\<close> is the value that \<open>encode()\<close> gives to the wire of \<open>b\<close>; \<open>encodable\<close> blocks have a canonical
  wire or get one.
\<close>

definition payload :: "block \<Rightarrow> byte list" where
  "payload b = (if hasWire b then value_bytes b else encoded_value b)"

definition encodable :: "u32 \<Rightarrow> block \<Rightarrow> bool" where
  "encodable t b \<longleftrightarrow> m_type b = t
     \<and> (if hasWire b then canonical t b
        else wf_block b \<and> complete_elements b \<and> length (tlv_bytes t (encoded_value b)) < 2 ^ 32)"

lemma encodable_wire: "hasWire b \<Longrightarrow> encodable t b \<longleftrightarrow> canonical t b"
  by (auto simp: encodable_def canonical_def)

lemma encode_encodable:
  assumes "encodable t b"
  obtains c where "encode b = (None, c)" "hasWire c" "canonical t c" "value_bytes c = payload b"
proof (cases "hasWire b")
  case True
  with assms that [of b] show ?thesis by (simp add: encodable_wire encode_def payload_def)
next
  case False
  then obtain c where c: "encode b = (None, c)" "hasWire c" "wf_block c" "m_type c = t"
    "wire_bytes c = tlv_bytes t (encoded_value b)" "value_bytes c = encoded_value b"
    using encode_complete [of b] assms by (auto simp: encodable_def)
  have "canonical t c"
    using c assms False by (simp add: canonical_def sendable_def block_bytes_def encodable_def)
  with that [of c] c False show ?thesis by (simp add: payload_def)
qed

lemma encodable_tlv_block [simp]: "encodable t (tlv_block t v) \<longleftrightarrow> length (tlv_bytes t v) < 2 ^ 32"
  by (simp add: encodable_wire)

lemma payload_tlv_block [simp]: "payload (tlv_block t v) = v"
  by (simp add: payload_def)

lemma element_length_le:
  assumes "(t, v) \<in> set es"
  shows "length (tlv_bytes t v) \<le> length (elements_bytes es)" "length v \<le> length (elements_bytes es)"
proof -
  show "length (tlv_bytes t v) \<le> length (elements_bytes es)"
    by (rule length_concat_member) (use assms in force)
  then show "length v \<le> length (elements_bytes es)" by simp
qed

lemma find_element_mem: "find_element t b = Some s \<Longrightarrow> s \<in> set (m_subBlocks b)"
  using length_takeWhile_le [of "\<lambda>s. m_type s \<noteq> t" "m_subBlocks b"]
  by (auto simp: find_element_def Block_find_def Let_def split: if_splits)

lemma wire_element_le:
  assumes "fresh w" "parse w = (None, b)" "find_element t b = Some s"
  shows "length (wire_bytes s) \<le> length (wire_bytes w)"
proof -
  have "s \<in> set (m_subBlocks b)" by (rule find_element_mem [OF assms(3)])
  moreover have "concat (map block_bytes (m_subBlocks b)) = value_bytes w" "\<forall>s \<in> set (m_subBlocks b). hasWire s"
    using parse_elements [of w] assms(1,2) by (auto simp: fresh_def)
  ultimately have "length (wire_bytes s) \<le> length (value_bytes w)"
    using length_concat_member [of "block_bytes s" "map block_bytes (m_subBlocks b)"] by (auto simp: block_bytes_def)
  then show ?thesis using value_le_wire [of w] assms(1) by (simp add: fresh_def)
qed

section \<open>Abstract packets\<close>

datatype packet = Packet (p_name: "comp list") (p_meta: meta) (p_content: "byte list") (p_sig: sig_info)
  (p_sigValue: "byte list")

definition content_ok :: "block \<Rightarrow> bool" where
  "content_ok c \<longleftrightarrow> Block_empty c \<or> encodable tlv_Content c"

definition content_bytes :: "block \<Rightarrow> byte list" where
  "content_bytes c = (if Block_empty c then [] else payload c)"

definition packet_of :: "data \<Rightarrow> packet" where
  "packet_of d = Packet (name_of (d_name d)) (meta_of (d_metaInfo d)) (content_bytes (d_content d))
     (sig_of (sg_info (d_signature d))) (payload (sg_value (d_signature d)))"

definition unsigned_elements :: "packet \<Rightarrow> (u32 \<times> byte list) list" where
  "unsigned_elements p =
     [(tlv_Name, comps_value (p_name p)), (tlv_MetaInfo, meta_value (p_meta p)), (tlv_Content, p_content p),
      (tlv_SignatureInfo, sig_value (p_sig p))]"

definition packet_elements :: "packet \<Rightarrow> (u32 \<times> byte list) list" where
  "packet_elements p = unsigned_elements p @ [(tlv_SignatureValue, p_sigValue p)]"

definition packet_value :: "packet \<Rightarrow> byte list" where
  "packet_value p = elements_bytes (packet_elements p)"

definition good_packet :: "packet \<Rightarrow> bool" where
  "good_packet p \<longleftrightarrow> (\<forall>c \<in> set (p_name p). is_comp c) \<and> good_meta (p_meta p) \<and> good_sig (p_sig p)"

text \<open>A SignatureInfo whose cached wire, if any, is its canonical encoding.\<close>

definition signature_ok :: "signature_info \<Rightarrow> bool" where
  "signature_ok i \<longleftrightarrow> good_sig (sig_of i)
     \<and> (if hasWire (si_wire i)
        then canonical tlv_SignatureInfo (si_wire i) \<and> value_bytes (si_wire i) = sig_value (sig_of i)
        else signature_info_inv i \<and> length (si_otherTlvs i) \<le> 1)"

text \<open>What the parts of a packet need so that it can be encoded.\<close>

definition unsigned_inv :: "data \<Rightarrow> bool" where
  "unsigned_inv d \<longleftrightarrow> is_name (d_name d) \<and> meta_info_inv (d_metaInfo d) \<and> content_ok (d_content d)
     \<and> signature_ok (sg_info (d_signature d))"

definition data_inv :: "data \<Rightarrow> bool" where
  "data_inv d \<longleftrightarrow> unsigned_inv d \<and> encodable tlv_SignatureValue (sg_value (d_signature d))
     \<and> Signature_bool (d_signature d)"

section \<open>Encoding\<close>

lemma getContent_ok:
  assumes "content_ok (d_content d)"
  obtains c where "getContent d = Inr (c, d\<lparr>d_content := c\<rparr>)" "hasWire c" "canonical tlv_Content c"
    "value_bytes c = content_bytes (d_content d)" "\<not> Block_empty c"
proof (cases "Block_empty (d_content d)")
  case True
  with that [of "tlv_block tlv_Content []"] show ?thesis
    by (simp add: getContent_eq content_bytes_def Block_empty_def tlv_codes sizeOfVarNumber_def)
next
  case False
  then have "encodable tlv_Content (d_content d)" using assms by (simp add: content_ok_def)
  then obtain c where c: "encode (d_content d) = (None, c)" "hasWire c" "canonical tlv_Content c"
    "value_bytes c = payload (d_content d)" by (rule encode_encodable)
  then have "getContent d = Inr (c, d\<lparr>d_content := c\<rparr>)"
    using False by (cases "hasWire (d_content d)") (simp_all add: getContent_eq encode_def)
  moreover have "\<not> Block_empty c" using c(3) by (simp add: canonical_def Block_empty_def tlv_codes)
  ultimately show ?thesis using that [of c] c False by (simp add: content_bytes_def)
qed

lemma getInfo_ok:
  assumes "signature_ok i" "length (tlv_bytes tlv_SignatureInfo (sig_value (sig_of i))) < 2 ^ 32"
  obtains w j where "SignatureInfo_wireEncode i = Inr (w, j)" "canonical tlv_SignatureInfo w"
    "value_bytes w = sig_value (sig_of i)" "sig_of j = sig_of i" "signature_ok j" "si_type j = si_type i"
    "SignatureInfo_wireEncode j = Inr (w, j)"
proof (cases "hasWire (si_wire i)")
  case True
  with assms that [of "si_wire i" i] show ?thesis by (simp add: signature_ok_def SignatureInfo_wireEncode_def)
next
  case False
  then have inv: "signature_info_inv i" "good_sig (sig_of i)" "length (si_otherTlvs i) \<le> 1"
    using assms(1) by (simp_all add: signature_ok_def)
  then have rev: "rev_sig (sig_of i) = sig_of i"
    by (cases "si_otherTlvs i") (simp_all add: rev_sig_def sig_of_def)
  obtain b where b: "SignatureInfo_wireEncode i = Inr (b, i\<lparr>si_wire := b\<rparr>)" "wf_block b" "hasWire b"
    "type_value b = (tlv_SignatureInfo, sig_value (sig_of i))"
    "wire_bytes b = tlv_bytes tlv_SignatureInfo (sig_value (sig_of i))"
    using SignatureInfo_wireEncode_new [OF inv(1,2) False] unfolding rev by blast
  then have "canonical tlv_SignatureInfo b"
    using assms(2) by (simp add: canonical_def sendable_def block_bytes_def type_value_def del: length_tlv_bytes)
  with that [of b "i\<lparr>si_wire := b\<rparr>"] b inv show ?thesis
    by (simp add: signature_ok_def type_value_def SignatureInfo_wireEncode_def)
qed

text \<open>The parts of an encodable packet; obtaining them only fills caches, and a second time gives the same parts.\<close>

lemma Data_parts_unsigned:
  assumes "unsigned_inv d" "length (elements_bytes (unsigned_elements (packet_of d))) < 2 ^ 32"
  obtains i c d' where "Data_parts True d = Inr ([], i, c, d')"
    "canonical tlv_SignatureInfo i" "value_bytes i = sig_value (p_sig (packet_of d))"
    "canonical tlv_Content c" "value_bytes c = p_content (packet_of d)"
    "packet_of d' = packet_of d" "unsigned_inv d'" "d_name d' = d_name d" "d_metaInfo d' = d_metaInfo d"
    "sg_value (d_signature d') = sg_value (d_signature d)"
    "Signature_bool (d_signature d') = Signature_bool (d_signature d)" "d_wire d' = d_wire d"
    "Data_parts True d' = Inr ([], i, c, d')"
proof -
  have "length (tlv_bytes tlv_SignatureInfo (sig_value (p_sig (packet_of d))))
      \<le> length (elements_bytes (unsigned_elements (packet_of d)))"
    by (rule element_length_le) (simp add: unsigned_elements_def)
  then have len: "length (tlv_bytes tlv_SignatureInfo (sig_value (sig_of (sg_info (d_signature d))))) < 2 ^ 32"
    using assms(2) by (simp add: packet_of_def)
  obtain w j where w: "SignatureInfo_wireEncode (sg_info (d_signature d)) = Inr (w, j)" "canonical tlv_SignatureInfo w"
    "value_bytes w = sig_value (sig_of (sg_info (d_signature d)))" "sig_of j = sig_of (sg_info (d_signature d))"
    "signature_ok j" "si_type j = si_type (sg_info (d_signature d))" "SignatureInfo_wireEncode j = Inr (w, j)"
    by (rule getInfo_ok [OF _ len]) (use assms(1) in \<open>simp_all add: unsigned_inv_def\<close>)
  define s where "s = (d_signature d)\<lparr>sg_info := j\<rparr>"
  obtain c where c: "getContent (d\<lparr>d_signature := s\<rparr>) = Inr (c, d\<lparr>d_signature := s, d_content := c\<rparr>)" "hasWire c"
    "canonical tlv_Content c" "value_bytes c = content_bytes (d_content d)" "\<not> Block_empty c"
    by (rule getContent_ok [of "d\<lparr>d_signature := s\<rparr>"]) (use assms(1) in \<open>simp_all add: unsigned_inv_def\<close>)
  define d' where "d' = d\<lparr>d_signature := s, d_content := c\<rparr>"
  have info: "getInfo (d_signature d) = Inr (w, s)" "getInfo s = Inr (w, s)"
    using w(1,7) by (simp_all add: getInfo_eq s_def)
  have "getContent (d'\<lparr>d_signature := s\<rparr>) = Inr (c, d')" "d_signature d' = s"
    using c(2,5) by (simp_all add: getContent_eq d'_def)
  then have "Data_parts True d = Inr ([], w, c, d')" "Data_parts True d' = Inr ([], w, c, d')"
    using info c(1) by (simp_all add: Data_parts_eq) (simp add: d'_def)
  moreover have "packet_of d' = packet_of d"
    using w(4) c(2,4,5) by (simp add: packet_of_def d'_def s_def content_bytes_def payload_def)
  moreover have "unsigned_inv d'"
    using assms(1) w(5) c(2,3) by (simp add: unsigned_inv_def d'_def s_def content_ok_def encodable_wire)
  ultimately show ?thesis
    using that w(2,3,6) c(3,4) by (simp add: packet_of_def d'_def s_def Signature_bool_def)
qed

lemma Data_parts_value:
  assumes "Signature_bool (d_signature d)" "getValue (d_signature d) = Inr (v, s)"
  shows "Data_parts False d =
    bindE (Data_parts True (d\<lparr>d_signature := s\<rparr>)) (\<lambda>(_, info, content, d). Inr ([v], info, content, d))"
proof -
  show ?thesis
    using assms
    by (cases "getInfo s")
      (auto simp: Data_parts_eq bindE_def split: sum.splits)
qed

lemma Data_parts_signed:
  assumes "data_inv d" "length (packet_value (packet_of d)) < 2 ^ 32"
  obtains v i c d' where "Data_parts False d = Inr ([v], i, c, d')"
    "canonical tlv_SignatureValue v" "value_bytes v = p_sigValue (packet_of d)"
    "canonical tlv_SignatureInfo i" "value_bytes i = sig_value (p_sig (packet_of d))"
    "canonical tlv_Content c" "value_bytes c = p_content (packet_of d)"
    "packet_of d' = packet_of d" "d_name d' = d_name d" "d_metaInfo d' = d_metaInfo d"
    "Data_parts False d' = Inr ([v], i, c, d')"
proof -
  have inv: "unsigned_inv d" "Signature_bool (d_signature d)" "encodable tlv_SignatureValue (sg_value (d_signature d))"
    using assms(1) by (simp_all add: data_inv_def)
  obtain v where v: "encode (sg_value (d_signature d)) = (None, v)" "hasWire v" "canonical tlv_SignatureValue v"
    "value_bytes v = payload (sg_value (d_signature d))"
    using encode_encodable [OF inv(3)] .
  define s where "s = (d_signature d)\<lparr>sg_value := v\<rparr>"
  define d1 where "d1 = d\<lparr>d_signature := s\<rparr>"
  have p1: "packet_of d1 = packet_of d" using v(2,4) by (simp add: packet_of_def d1_def s_def payload_def)
  have "unsigned_inv d1" using inv(1) by (simp add: unsigned_inv_def d1_def s_def)
  moreover have "length (elements_bytes (unsigned_elements (packet_of d1))) < 2 ^ 32"
    using assms(2) unfolding p1 by (simp add: packet_value_def packet_elements_def del: length_tlv_bytes)
  ultimately obtain i c d' where parts: "Data_parts True d1 = Inr ([], i, c, d')"
    "canonical tlv_SignatureInfo i" "value_bytes i = sig_value (p_sig (packet_of d1))"
    "canonical tlv_Content c" "value_bytes c = p_content (packet_of d1)"
    "packet_of d' = packet_of d1" "d_name d' = d_name d1" "d_metaInfo d' = d_metaInfo d1"
    "sg_value (d_signature d') = sg_value (d_signature d1)"
    "Signature_bool (d_signature d') = Signature_bool (d_signature d1)"
    "Data_parts True d' = Inr ([], i, c, d')"
    by (rule Data_parts_unsigned)
  have "getValue (d_signature d) = Inr (v, s)" using v(1) by (simp add: getValue_eq s_def)
  then have now: "Data_parts False d = Inr ([v], i, c, d')"
    using Data_parts_value [OF inv(2)] parts(1) by (simp add: d1_def)
  have "sg_value (d_signature d') = v" "Signature_bool (d_signature d')"
    using parts(9,10) inv(2) by (simp_all add: d1_def s_def Signature_bool_def)
  moreover from this v(2) have "getValue (d_signature d') = Inr (v, d_signature d')"
    by (simp add: getValue_eq encode_def)
  ultimately have "Data_parts False d' = Inr ([v], i, c, d')"
    using Data_parts_value [of d' v "d_signature d'"] parts(11) by simp
  with that now v(3,4) parts(2-8) show ?thesis by (simp add: p1) (simp add: d1_def packet_of_def)
qed

context encoding_impl
begin

lemma Data_elements_emit:
  assumes "canonical tlv_SignatureInfo i" "value_bytes i = sig_value (p_sig p)"
    and "canonical tlv_Content c" "value_bytes c = p_content p"
    and "is_name (d_name d)" "name_of (d_name d) = p_name p" "meta_info_inv (d_metaInfo d)" "meta_of (d_metaInfo d) = p_meta p"
  shows "list_all2 (\<lambda>f (t, v). \<forall>n :: nat. emitterE emits (f n) (tlv_bytes t v))
    [\<lambda>_ e. Inr (op_prependBlock ops e i), \<lambda>_ e. Inr (op_prependBlock ops e c),
     \<lambda>_. MetaInfo_wireEncode_to ops (d_metaInfo d), \<lambda>_ e. Inr (Name_wireEncode_to ops (d_name d) e)]
    (rev (unsigned_elements p))"
  using assms block [of i] block [of c] MetaInfo_wireEncode_to_emits [of "d_metaInfo d"] Name_wireEncode_to_emits [of "d_name d"]
  by (auto simp: unsigned_elements_def canonical_def name_value_def intro!: emitterE_Inr)

lemma Data_wireEncode_to_signed:
  assumes "Data_parts False d = Inr ([v], i, c, d')" "canonical tlv_SignatureValue v" "value_bytes v = p_sigValue p"
    "canonical tlv_SignatureInfo i" "value_bytes i = sig_value (p_sig p)"
    "canonical tlv_Content c" "value_bytes c = p_content p"
    "is_name (d_name d')" "name_of (d_name d') = p_name p" "meta_info_inv (d_metaInfo d')" "meta_of (d_metaInfo d') = p_meta p"
  shows "emitterE emits (\<lambda>e. bindE (Data_wireEncode_to ops False d e) (\<lambda>(n, e, d). Inr (n, e)))
      (tlv_bytes tlv_Data (packet_value p))"
    and "\<exists>n e'. Data_wireEncode_to ops False d e = Inr (n, e', d')"
proof -
  let ?fs = "[\<lambda>_ e. Inr (op_prependBlock ops e v), \<lambda>_ e. Inr (op_prependBlock ops e i),
     \<lambda>_ e. Inr (op_prependBlock ops e c), \<lambda>_. MetaInfo_wireEncode_to ops (d_metaInfo d'),
     \<lambda>_ e. Inr (Name_wireEncode_to ops (d_name d') e)]"
  have run: "Data_wireEncode_to ops False d e =
      bindE (run_stepsE (?fs @ header_steps ops tlv_Data) e) (\<lambda>(n, e). Inr (n, e, d'))" for e
    by (simp add: Data_wireEncode_to_eq assms(1))
  have "list_all2 (\<lambda>f (t, v). \<forall>n :: nat. emitterE emits (f n) (tlv_bytes t v)) ?fs (rev (packet_elements p))"
    using Data_elements_emit [OF assms(4-11)] block [of v] assms(2,3)
    by (auto simp: packet_elements_def canonical_def intro!: emitterE_Inr)
  then have *: "emitterE emits (run_stepsE (?fs @ header_steps ops tlv_Data)) (tlv_bytes tlv_Data (packet_value p))"
    unfolding packet_value_def by (rule element_steps_emit)
  have "(\<lambda>e. bindE (Data_wireEncode_to ops False d e) (\<lambda>(n, e, d). Inr (n, e))) = run_stepsE (?fs @ header_steps ops tlv_Data)"
    unfolding run by (rule ext) (auto simp: bindE_def split: sum.split)
  with * show "emitterE emits (\<lambda>e. bindE (Data_wireEncode_to ops False d e) (\<lambda>(n, e, d). Inr (n, e)))
      (tlv_bytes tlv_Data (packet_value p))" by simp
  obtain e' where "run_stepsE (?fs @ header_steps ops tlv_Data) e = Inr (length (tlv_bytes tlv_Data (packet_value p)), e')"
    using emitterE_run [OF *] .
  then show "\<exists>n e'. Data_wireEncode_to ops False d e = Inr (n, e', d')" unfolding run by simp
qed

lemma Data_wireEncode_to_unsigned:
  assumes "Data_parts True d = Inr ([], i, c, d')"
    "canonical tlv_SignatureInfo i" "value_bytes i = sig_value (p_sig p)"
    "canonical tlv_Content c" "value_bytes c = p_content p"
    "is_name (d_name d')" "name_of (d_name d') = p_name p" "meta_info_inv (d_metaInfo d')" "meta_of (d_metaInfo d') = p_meta p"
  shows "\<exists>n e'. Data_wireEncode_to ops True d e = Inr (n, e', d') \<and> emits e (elements_bytes (unsigned_elements p)) e'"
proof -
  let ?fs = "[\<lambda>_ e. Inr (op_prependBlock ops e i),
     \<lambda>_ e. Inr (op_prependBlock ops e c), \<lambda>_. MetaInfo_wireEncode_to ops (d_metaInfo d'),
     \<lambda>_ e. Inr (Name_wireEncode_to ops (d_name d') e)]"
  have run: "Data_wireEncode_to ops True d e = bindE (run_stepsE ?fs e) (\<lambda>(n, e). Inr (n, e, d'))"
    by (simp add: Data_wireEncode_to_eq assms(1))
  have "emitterE emits (run_stepsE ?fs) (elements_bytes (unsigned_elements p))"
    by (rule plain_steps_emit [OF Data_elements_emit [OF assms(2-9)]])
  then obtain e' where "run_stepsE ?fs e = Inr (length (elements_bytes (unsigned_elements p)), e')"
    "emits e (elements_bytes (unsigned_elements p)) e'" by (rule emitterE_run)
  then show ?thesis unfolding run by simp
qed

end

section \<open>Decoding\<close>

lemma decode_required_found:
  "find_element t b = Some val \<Longrightarrow> decode_required b t f s = f val s"
  by (auto simp: decode_required_def Block_get_def find_element_def Let_def split: if_splits)

lemma map_of_packet_elements:
  "map_of (packet_elements p) tlv_Name = Some (comps_value (p_name p))"
  "map_of (packet_elements p) tlv_MetaInfo = Some (meta_value (p_meta p))"
  "map_of (packet_elements p) tlv_Content = Some (p_content p)"
  "map_of (packet_elements p) tlv_SignatureInfo = Some (sig_value (p_sig p))"
  "map_of (packet_elements p) tlv_SignatureValue = Some (p_sigValue p)"
  by (simp_all add: packet_elements_def unsigned_elements_def tlv_codes)

text \<open>The MetaInfo elements that the object already has are kept.\<close>

lemma Data_wireDecode_spec:
  assumes "fresh w" "type_value w = (t, packet_value p)" "good_packet p"
  obtains d' e where "Data_wireDecode d w = (None, d')"
    "packet_of d' = Packet (p_name p)
       (Meta (meta_type (p_meta p)) (meta_freshness (p_meta p)) (meta_final (p_meta p))
         (meta_app (meta_of (d_metaInfo d)) @ meta_app (p_meta p)))
       (p_content p) (p_sig p) (p_sigValue p)"
    "hasWire (d_wire d')" "wire_bytes (d_wire d') = wire_bytes w" "wf_block (d_wire d')" "Name_empty (d_fullName d')"
    "is_name (d_name d')" "fresh (d_content d')" "type_value (d_content d') = (tlv_Content, p_content p)"
    "fresh e" "type_value e = (tlv_SignatureInfo, sig_value (p_sig p))" "SignatureInfo_ofBlock e = Inr (sg_info (d_signature d'))"
    "length (wire_bytes e) \<le> length (wire_bytes w)"
proof -
  have v: "value_bytes w = elements_bytes (packet_elements p)"
    using assms(2) by (simp add: type_value_def packet_value_def)
  obtain b where b: "parse w = (None, b)" "map type_value (m_subBlocks b) = packet_elements p"
    "\<forall>x \<in> set (m_subBlocks b). fresh x" "hasWire b" "wf_block b" "wire_bytes b = wire_bytes w"
    by (rule parse_fresh [OF assms(1) v])
  have good: "\<forall>c \<in> set (p_name p). is_comp c" "good_meta (p_meta p)" "good_sig (p_sig p)"
    using assms(3) by (simp_all add: good_packet_def)
  note found = find_element_Some [OF b(2) _ b(3)]
  obtain e1 where e1: "find_element tlv_Name b = Some e1" "fresh e1" "type_value e1 = (tlv_Name, comps_value (p_name p))"
    using found [OF map_of_packet_elements(1)] .
  obtain e2 where e2: "find_element tlv_MetaInfo b = Some e2" "fresh e2" "type_value e2 = (tlv_MetaInfo, meta_value (p_meta p))"
    using found [OF map_of_packet_elements(2)] .
  obtain e3 where e3: "find_element tlv_Content b = Some e3" "fresh e3" "type_value e3 = (tlv_Content, p_content p)"
    using found [OF map_of_packet_elements(3)] .
  obtain e4 where e4: "find_element tlv_SignatureInfo b = Some e4" "fresh e4"
    "type_value e4 = (tlv_SignatureInfo, sig_value (p_sig p))"
    using found [OF map_of_packet_elements(4)] .
  obtain e5 where e5: "find_element tlv_SignatureValue b = Some e5" "fresh e5"
    "type_value e5 = (tlv_SignatureValue, p_sigValue p)"
    using found [OF map_of_packet_elements(5)] .
  obtain n where n: "Name_wireDecode (d_name d) e1 = (None, n)" "name_of n = p_name p" "is_name n"
    using name_wire.decodes [OF e1(2,3) good(1)] by blast
  obtain m where m: "MetaInfo_wireDecode (d_metaInfo d) e2 = (None, m)"
    "meta_of m = Meta (meta_type (p_meta p)) (meta_freshness (p_meta p)) (meta_final (p_meta p))
       (meta_app (meta_of (d_metaInfo d)) @ meta_app (p_meta p))"
    using MetaInfo_wireDecode_spec [OF e2(2,3) good(2)] by blast
  have "si_otherTlvs SignatureInfo_default = []" by (simp add: SignatureInfo_default_def)
  then obtain i where i: "SignatureInfo_ofBlock e4 = Inr i" "sig_of i = p_sig p"
    using signature_info_wire.decodes [OF e4(2,3) good(3)] by (force simp: SignatureInfo_ofBlock_def)
  define d' where "d' = d\<lparr>d_fullName := Name_clear (d_fullName d), d_wire := b, d_name := n, d_metaInfo := m, d_content := e3,
    d_signature := (d_signature d)\<lparr>sg_info := i, sg_value := e5\<rparr>\<rparr>"
  have "Data_wireDecode d w = (None, d')"
    using e5(3) by (simp add: Data_wireDecode_def b(1) decode_required_found [OF e1(1)] decode_required_found [OF e2(1)]
        decode_required_found [OF e3(1)] decode_required_found [OF e4(1)] decode_element_def e5(1) n(1) m(1) setInfo_block_def
        i(1) setValue_def type_value_def d'_def)
  moreover have "packet_of d' = Packet (p_name p)
       (Meta (meta_type (p_meta p)) (meta_freshness (p_meta p)) (meta_final (p_meta p))
         (meta_app (meta_of (d_metaInfo d)) @ meta_app (p_meta p)))
       (p_content p) (p_sig p) (p_sigValue p)"
    using n(2) m(2) i(2) e3(2,3) e5(2,3)
    by (simp add: packet_of_def d'_def content_bytes_def payload_def fresh_def type_value_def Block_empty_def tlv_codes)
  ultimately show ?thesis
    using that [of d' e4] b(4-6) n(3) e3(2,3) e4(2,3) i(1) wire_element_le [OF assms(1) b(1) e4(1)]
    by (simp add: d'_def Name_empty_def Name_clear_def Block_ofType_def)
qed

lemma Data_wireEncode_spec:
  assumes "data_inv d" "good_packet (packet_of d)" "\<not> hasWire (d_wire d)"
    and "length (tlv_bytes tlv_Data (packet_value (packet_of d))) < 2 ^ 32"
  obtains w d' where "Data_wireEncode d = Inr (w, d')" "wire_bytes w = tlv_bytes tlv_Data (packet_value (packet_of d))"
    "hasWire w" "wf_block w" "d_wire d' = w" "Name_empty (d_fullName d')"
    "packet_of d' = Packet (p_name (packet_of d))
       (Meta (meta_type (p_meta (packet_of d))) (meta_freshness (p_meta (packet_of d))) (meta_final (p_meta (packet_of d)))
         (meta_app (p_meta (packet_of d)) @ meta_app (p_meta (packet_of d))))
       (p_content (packet_of d)) (p_sig (packet_of d)) (p_sigValue (packet_of d))"
proof -
  let ?p = "packet_of d" and ?bs = "tlv_bytes tlv_Data (packet_value (packet_of d))"
  have "length (packet_value ?p) < 2 ^ 32" using assms(4) by simp
  then obtain v i c d1 where parts: "Data_parts False d = Inr ([v], i, c, d1)"
    "canonical tlv_SignatureValue v" "value_bytes v = p_sigValue ?p"
    "canonical tlv_SignatureInfo i" "value_bytes i = sig_value (p_sig ?p)"
    "canonical tlv_Content c" "value_bytes c = p_content ?p"
    "packet_of d1 = ?p" "d_name d1 = d_name d" "d_metaInfo d1 = d_metaInfo d" "Data_parts False d1 = Inr ([v], i, c, d1)"
    by (rule Data_parts_signed [OF assms(1)])
  have nm: "is_name (d_name d1)" "name_of (d_name d1) = p_name ?p" "meta_info_inv (d_metaInfo d1)" "meta_of (d_metaInfo d1) = p_meta ?p"
    using assms(1) parts(9,10) by (simp_all add: data_inv_def unsigned_inv_def packet_of_def)
  note est = estimator.Data_wireEncode_to_signed [OF parts(1-7) nm]
  note enc = encoder.Data_wireEncode_to_signed [OF parts(11,2-7) nm]
  obtain k where k: "Data_wireEncode_to EncodingEstimator False d () = Inr (k, (), d1)"
    using est(2) [of "()"] by auto
  obtain e' where "bindE (Data_wireEncode_to EncodingEstimator False d ()) (\<lambda>(n, e, d). Inr (n, e)) = Inr (length ?bs, e')"
    by (rule emitterE_run [OF est(1)])
  with k have size: "k = length ?bs" by simp
  obtain n e where run: "Data_wireEncode_to EncodingBuffer False d1 (Encoder_new k 0) = Inr (n, e, d1)"
    using enc(2) by blast
  have "encode_block (\<lambda>_. Inr (k, ())) (\<lambda>e. bindE (Data_wireEncode_to EncodingBuffer False d1 e) (\<lambda>(n, e, d). Inr (n, e)))
      = Inr (tlv_block tlv_Data (packet_value ?p))"
    by (rule encode_block_eq [OF _ enc(1)])
      (use size in \<open>auto simp: emitterE_def emitter_def est_emits_def intro!: exI [of _ "\<lambda>_. (k, ())"]\<close>)
  then have blk: "Encoder_block e True = Inr (tlv_block tlv_Data (packet_value ?p))"
    by (simp add: encode_block_def run)
  have "fresh (tlv_block tlv_Data (packet_value ?p))" using assms(4) by (simp del: length_tlv_bytes)
  then obtain d' where d': "Data_wireDecode d1 (tlv_block tlv_Data (packet_value ?p)) = (None, d')"
    "packet_of d' = Packet (p_name ?p)
       (Meta (meta_type (p_meta ?p)) (meta_freshness (p_meta ?p)) (meta_final (p_meta ?p))
         (meta_app (meta_of (d_metaInfo d1)) @ meta_app (p_meta ?p)))
       (p_content ?p) (p_sig ?p) (p_sigValue ?p)"
    "hasWire (d_wire d')" "wire_bytes (d_wire d') = ?bs" "wf_block (d_wire d')" "Name_empty (d_fullName d')"
    using Data_wireDecode_spec [of "tlv_block tlv_Data (packet_value ?p)" tlv_Data ?p d1] assms(2)
    by (metis tlv_block_simps(5,10))
  have "Data_wireEncode d = Inr (d_wire d', d')"
    using assms(3) k run blk d'(1) by (simp add: Data_wireEncode_eq)
  with that d'(2-6) nm(4) show ?thesis by simp
qed

section \<open>Round trip\<close>

interpretation data_wire: wire_codec tlv_Data packet_value good_packet Data_wireDecode
  "\<lambda>d. mi_appMetaInfo (d_metaInfo d) = []" packet_of "\<lambda>d. hasWire (d_wire d) \<and> is_name (d_name d)" Data_wireEncode d_wire
  "\<lambda>d. data_inv d \<and> mi_appMetaInfo (d_metaInfo d) = [] \<and> length (tlv_bytes tlv_Data (packet_value (packet_of d))) < 2 ^ 32"
proof (unfold_locales, goal_cases)
  case (1 b p d)
  then have app: "meta_app (meta_of (d_metaInfo d)) = []" by (simp add: meta_of_def)
  from Data_wireDecode_spec [OF 1(1-3), of d] show ?case
    by (metis app append_Nil meta.collapse packet.collapse)
next
  case (2 d)
  then have app: "meta_app (p_meta (packet_of d)) = []" by (simp add: packet_of_def meta_of_def)
  from 2 obtain w d' where "Data_wireEncode d = Inr (w, d')" "wire_bytes w = tlv_bytes tlv_Data (packet_value (packet_of d))"
    "hasWire w" "wf_block w" "d_wire d' = w"
    "packet_of d' = Packet (p_name (packet_of d))
       (Meta (meta_type (p_meta (packet_of d))) (meta_freshness (p_meta (packet_of d))) (meta_final (p_meta (packet_of d)))
         (meta_app (p_meta (packet_of d)) @ meta_app (p_meta (packet_of d))))
       (p_content (packet_of d)) (p_sig (packet_of d)) (p_sigValue (packet_of d))"
    using Data_wireEncode_spec by metis
  moreover from this(6) have "packet_of d' = packet_of d" using app by (metis append_Nil meta.collapse packet.collapse)
  ultimately show ?case by (intro exI [of _ d']) simp
next
  case (3 d)
  then show ?case by (simp add: Data_wireEncode_eq)
qed

text \<open>\<open>wireDecode\<close> appends the application MetaInfo of the wire to that of the object.\<close>

definition add_app :: "(u32 \<times> byte list) list \<Rightarrow> packet \<Rightarrow> packet" where
  "add_app apps p = Packet (p_name p)
     (Meta (meta_type (p_meta p)) (meta_freshness (p_meta p)) (meta_final (p_meta p)) (apps @ meta_app (p_meta p)))
     (p_content p) (p_sig p) (p_sigValue p)"

lemma add_app_Nil [simp]: "add_app [] p = p"
  by (simp add: add_app_def)


text \<open>
  What \<open>wireEncode()\<close> will return: \<open>encodes_as d p\<close> says that \<open>d\<close> has a cached wire, which is the canonical encoding of \<open>p\<close>, or
  none, and then can be encoded and has the fields of \<open>p\<close>.
\<close>

definition encodes_as :: "data \<Rightarrow> packet \<Rightarrow> bool" where
  "encodes_as d p \<longleftrightarrow> good_packet p \<and> length (tlv_bytes tlv_Data (packet_value p)) < 2 ^ 32
     \<and> (if hasWire (d_wire d)
        then wf_block (d_wire d) \<and> wire_bytes (d_wire d) = tlv_bytes tlv_Data (packet_value p)
        else data_inv d \<and> packet_of d = p)"

lemma encodes_as_encode:
  assumes "encodes_as d p"
  obtains w d' where "Data_wireEncode d = Inr (w, d')" "wire_bytes w = tlv_bytes tlv_Data (packet_value p)"
    "hasWire w" "wf_block w" "d_wire d' = w" "encodes_as d' p"
proof (cases "hasWire (d_wire d)")
  case True
  then show ?thesis using that [of "d_wire d" d] assms by (simp add: encodes_as_def Data_wireEncode_eq)
next
  case False
  then have d: "data_inv d" "good_packet (packet_of d)" "packet_of d = p"
    "length (tlv_bytes tlv_Data (packet_value (packet_of d))) < 2 ^ 32"
    using assms by (auto simp: encodes_as_def)
  obtain w d' where "Data_wireEncode d = Inr (w, d')" "wire_bytes w = tlv_bytes tlv_Data (packet_value p)"
    "hasWire w" "wf_block w" "d_wire d' = w"
    by (rule Data_wireEncode_spec [OF d(1,2) False d(4)]) (simp add: d(3))
  then show ?thesis using that assms by (simp add: encodes_as_def)
qed

text \<open>Signing and receiving end with \<open>wireDecode\<close>.\<close>

lemma decoded_encodes_as:
  assumes "fresh w" "wire_bytes w = tlv_bytes tlv_Data (packet_value p)" "type_value w = (tlv_Data, packet_value p)"
    and "good_packet p" "length (wire_bytes w) < 2 ^ 32"
  shows "\<exists>d'. Data_wireDecode d w = (None, d') \<and> encodes_as d' p"
proof -
  obtain d' where "Data_wireDecode d w = (None, d')" "hasWire (d_wire d')" "wire_bytes (d_wire d') = wire_bytes w"
    "wf_block (d_wire d')"
    by (rule Data_wireDecode_spec [OF assms(1,3,4), of d])
  then show ?thesis using assms(2,4,5) by (auto simp: encodes_as_def)
qed

text \<open>A signed packet named \<open>/A\<close> for the examples, with the given application MetaInfo.\<close>

definition example_data :: "block list \<Rightarrow> data" where
  "example_data apps = \<lparr>d_name = name1 [65], d_metaInfo = MetaInfo_default\<lparr>mi_appMetaInfo := apps\<rparr>,
     d_content = tlv_block tlv_Content [1, 2], d_signature = \<lparr>sg_info = SignatureInfo_ofType 0,
     sg_value = tlv_block tlv_SignatureValue [3]\<rparr>, d_wire = Block_default, d_fullName = Name_default\<rparr>"

lemma example_data_simps:
  assumes "\<forall>b \<in> set apps. canonical (m_type b) b \<and> app_type (m_type b)"
  shows "packet_of (example_data apps) = Packet [Comp tlv_NameComponent [65]] (Meta 0 None None (map type_value apps)) [1, 2]
      (SigInfo 0 None []) [3]"
    and "data_inv (example_data apps)" "good_packet (packet_of (example_data apps))" "\<not> hasWire (d_wire (example_data apps))"
    and "mi_appMetaInfo (d_metaInfo (example_data apps)) = apps"
proof -
  show *: "packet_of (example_data apps) = Packet [Comp tlv_NameComponent [65]] (Meta 0 None None (map type_value apps)) [1, 2]
      (SigInfo 0 None []) [3]"
    by (simp add: packet_of_def example_data_def meta_of_def MetaInfo_default_def Component_empty_def Component_default_def
        Block_ofType_def hasValue_def ContentType_Blob_def content_bytes_def Block_empty_def tlv_codes sig_of_def SignatureInfo_ofType_def
        SignatureInfo_default_def)
  show "good_packet (packet_of (example_data apps))"
    unfolding * using assms by (auto simp: good_packet_def is_comp_def good_meta_def good_sig_def type_value_def)
  show "data_inv (example_data apps)"
    using assms by (simp add: data_inv_def unsigned_inv_def example_data_def meta_info_inv_def MetaInfo_default_def
        Component_empty_def Component_default_def Block_ofType_def hasValue_def content_ok_def signature_ok_def sig_of_def good_sig_def
        SignatureInfo_ofType_def SignatureInfo_default_def hasWire_def Block_default_def signature_info_inv_def
        Signature_bool_def tlv_codes sizeOfVarNumber_def)
qed (simp_all add: example_data_def hasWire_def Block_default_def)

lemma example_data_bytes:
  "tlv_bytes tlv_Data (packet_value (packet_of (example_data [])))
     = [6, 19, 7, 3, 8, 1, 65, 20, 0, 21, 2, 1, 2, 22, 3, 27, 1, 0, 23, 1, 3]"
  "tlv_bytes tlv_Data (packet_value (packet_of (example_data [tlv_block 128 [9]])))
     = [6, 22, 7, 3, 8, 1, 65, 20, 3, 128, 1, 9, 21, 2, 1, 2, 22, 3, 27, 1, 0, 23, 1, 3]"
  by (simp_all add: example_data_simps app_type_def sizeOfVarNumber_def packet_value_def packet_elements_def
      unsigned_elements_def comps_value_def meta_value_def meta_elements_def ContentType_Blob_def sig_value_def sig_head_def
      tlv_bytes_def writeVarNumber_def nni_bytes_def tlv_codes)


text \<open>
  \<open>wireEncode()\<close> of a packet changes it when its MetaInfo has application elements: the wire carries each of them once, but the
  object, into which the wire is decoded, then has every one of them twice.
\<close>
theorem Data_wireEncode_duplicates_appMetaInfo:
  assumes "data_inv d" "good_packet (packet_of d)" "\<not> hasWire (d_wire d)"
    and "length (tlv_bytes tlv_Data (packet_value (packet_of d))) < 2 ^ 32"
  shows "\<exists>w d'. Data_wireEncode d = Inr (w, d') \<and> wire_bytes w = tlv_bytes tlv_Data (packet_value (packet_of d))
     \<and> map type_value (mi_appMetaInfo (d_metaInfo d'))
         = map type_value (mi_appMetaInfo (d_metaInfo d)) @ map type_value (mi_appMetaInfo (d_metaInfo d))"
proof -
  obtain w d' where "Data_wireEncode d = Inr (w, d')" "wire_bytes w = tlv_bytes tlv_Data (packet_value (packet_of d))"
    "packet_of d' = Packet (p_name (packet_of d))
       (Meta (meta_type (p_meta (packet_of d))) (meta_freshness (p_meta (packet_of d))) (meta_final (p_meta (packet_of d)))
         (meta_app (p_meta (packet_of d)) @ meta_app (p_meta (packet_of d))))
       (p_content (packet_of d)) (p_sig (packet_of d)) (p_sigValue (packet_of d))"
    by (rule Data_wireEncode_spec [OF assms])
  then show ?thesis by (simp add: packet_of_def meta_of_def del: length_tlv_bytes)
qed

theorem Data_wireEncode_duplicates_appMetaInfo_witness:
  "\<exists>w d'. Data_wireEncode (example_data [tlv_block 128 [9]]) = Inr (w, d')
     \<and> wire_bytes w = [6, 22, 7, 3, 8, 1, 65, 20, 3, 128, 1, 9, 21, 2, 1, 2, 22, 3, 27, 1, 0, 23, 1, 3]
     \<and> map type_value (mi_appMetaInfo (d_metaInfo d')) = [(128, [9]), (128, [9])]"
proof -
  let ?a = "[tlv_block 128 [9]]"
  have a: "\<forall>b \<in> set ?a. canonical (m_type b) b \<and> app_type (m_type b)" by (simp add: app_type_def sizeOfVarNumber_def)
  have "length (tlv_bytes tlv_Data (packet_value (packet_of (example_data ?a)))) < 2 ^ 32"
    by (simp only: example_data_bytes) simp
  from Data_wireEncode_duplicates_appMetaInfo [OF example_data_simps(2-4) [OF a] this] show ?thesis
    unfolding example_data_bytes example_data_simps(5) [OF a] by simp
qed

section \<open>Signing\<close>

text \<open>A block appended to an encoder, and a header around both.\<close>

lemma append_then_header:
  fixes t :: u32
  assumes "enc_inv e" "canonical t' v" "appendBlock e v = (n, e')"
  defines "e'' \<equiv> snd (prependVarNumber (snd (prependVarNumber e' (of_nat (Encoder_size e + n)))) (ucast t))"
  shows "enc_inv e''" "contents e'' = tlv_bytes t (contents e @ tlv_bytes t' (value_bytes v))"
proof -
  have v: "sendable v" "block_bytes v = tlv_bytes t' (value_bytes v)" using assms(2) by (simp_all add: canonical_def)
  have e': "n = length (block_bytes v)" "enc_inv e'" "contents e' = contents e @ block_bytes v"
    using appendBlock_appends [OF v(1)] assms(1,3) by (auto simp: emitter_def enc_appends_def dest!: spec [of _ e])
  have "Encoder_size e + n = length (contents e')"
    using assms(1) e'(1,3) by (simp add: Encoder_size_def enc_inv_def contents_def)
  then show "enc_inv e''" "contents e'' = tlv_bytes t (contents e @ tlv_bytes t' (value_bytes v))"
    using prependVarNumber_emits e'(2,3) v(2)
    by (auto simp: emitter_def enc_emits_def e''_def tlv_bytes_def)
qed

text \<open>
  C7. The two-step encoding that is used for signing gives the packet that the one-step encoding would: with any
  empty encoder, the first step writes exactly the first four elements (the signed portion), and the second step, given
  a signature value, produces the wire of the packet with this signature value and decodes it into the object; the
  encoder then holds the same bytes.
\<close>
theorem Data_signing_encodes_packet:
  fixes v
  defines "with_value \<equiv> \<lambda>p. Packet (p_name p) (p_meta p) (p_content p) (p_sig p) (value_bytes v)"
  assumes "unsigned_inv d" "good_packet (packet_of d)" "canonical tlv_SignatureValue v" "enc_inv e" "contents e = []"
    and "length (tlv_bytes tlv_Data (packet_value (with_value (packet_of d)))) < 2 ^ 32"
  shows "\<exists>n e1 d1 w e2 d2. Data_wireEncode_to EncodingBuffer True d e = Inr (n, e1, d1)
     \<and> contents e1 = elements_bytes (unsigned_elements (packet_of d))
     \<and> Data_wireEncode_signed d1 e1 v = Inr (w, e2, d2)
     \<and> wire_bytes w = tlv_bytes tlv_Data (packet_value (with_value (packet_of d))) \<and> contents e2 = wire_bytes w
     \<and> (mi_appMetaInfo (d_metaInfo d) = [] \<longrightarrow> packet_of d2 = with_value (packet_of d))"
proof -
  let ?p = "packet_of d" and ?q = "with_value (packet_of d)"
  have els: "packet_value ?q = elements_bytes (unsigned_elements ?p) @ tlv_bytes tlv_SignatureValue (value_bytes v)"
    by (simp add: packet_value_def packet_elements_def unsigned_elements_def with_value_def)
  then have "length (elements_bytes (unsigned_elements ?p)) < 2 ^ 32" using assms(7) by simp
  then obtain i c d1 where parts: "Data_parts True d = Inr ([], i, c, d1)"
    "canonical tlv_SignatureInfo i" "value_bytes i = sig_value (p_sig ?p)"
    "canonical tlv_Content c" "value_bytes c = p_content ?p" "d_name d1 = d_name d" "d_metaInfo d1 = d_metaInfo d"
    using Data_parts_unsigned [OF assms(2)] by metis
  have nm: "is_name (d_name d1)" "name_of (d_name d1) = p_name ?p" "meta_info_inv (d_metaInfo d1)" "meta_of (d_metaInfo d1) = p_meta ?p"
    using assms(2) parts(6,7) by (simp_all add: unsigned_inv_def packet_of_def)
  obtain n e1 where e1: "Data_wireEncode_to EncodingBuffer True d e = Inr (n, e1, d1)"
    "enc_emits e (elements_bytes (unsigned_elements ?p)) e1"
    using encoder.Data_wireEncode_to_unsigned [OF parts(1-5) nm] by blast
  then have c1: "enc_inv e1" "contents e1 = elements_bytes (unsigned_elements ?p)"
    using assms(5,6) by (simp_all add: enc_emits_def)
  obtain n2 e2 where e2: "appendBlock e1 v = (n2, e2)" by force
  define e4 where "e4 = snd (prependVarNumber (snd (prependVarNumber e2 (of_nat (Encoder_size e1 + n2)))) (ucast tlv_Data))"
  have c4: "enc_inv e4" "contents e4 = tlv_bytes tlv_Data (packet_value ?q)"
    using append_then_header [OF c1(1) assms(4) e2, of tlv_Data] by (simp_all add: els c1(2) e4_def)
  then obtain b where b: "Encoder_block e4 True = Inr b" "wf_block b" "hasWire b" "type_value b = (tlv_Data, packet_value ?q)"
    "wire_bytes b = tlv_bytes tlv_Data (packet_value ?q)" "m_subBlocks b = []"
    using Encoder_block_contents by blast
  have "fresh b" using b assms(7) by (simp add: fresh_def)
  moreover have "good_packet ?q" using assms(3) by (simp add: good_packet_def with_value_def)
  ultimately obtain d2 where d2: "Data_wireDecode d1 b = (None, d2)"
    "packet_of d2 = Packet (p_name ?q) (Meta (meta_type (p_meta ?q)) (meta_freshness (p_meta ?q)) (meta_final (p_meta ?q))
         (meta_app (meta_of (d_metaInfo d1)) @ meta_app (p_meta ?q))) (p_content ?q) (p_sig ?q) (p_sigValue ?q)"
    "wire_bytes (d_wire d2) = wire_bytes b"
    using Data_wireDecode_spec [OF _ b(4)] by metis
  have "Data_wireEncode_signed d1 e1 v = Inr (d_wire d2, e4, d2)"
    using b(1) d2(1) by (simp add: Data_wireEncode_signed_eq append_signature_def Let_def e2 e4_def del: of_nat_add)
  moreover have "packet_of d2 = ?q" if "mi_appMetaInfo (d_metaInfo d) = []"
    using that d2(2) nm(4) by (simp add: with_value_def meta_of_def packet_of_def)
  ultimately show ?thesis using e1(1) c1(2) c4(2) d2(3) b(5) by auto
qed

theorem Data_signing_encodes_packet_witness:
  "\<exists>n e1 d1 w e2 d2. Data_wireEncode_to EncodingBuffer True (example_data []) (Encoder_new 0 0) = Inr (n, e1, d1)
     \<and> contents e1 = [7, 3, 8, 1, 65, 20, 0, 21, 2, 1, 2, 22, 3, 27, 1, 0]
     \<and> Data_wireEncode_signed d1 e1 (tlv_block tlv_SignatureValue [3]) = Inr (w, e2, d2)
     \<and> wire_bytes w = [6, 19, 7, 3, 8, 1, 65, 20, 0, 21, 2, 1, 2, 22, 3, 27, 1, 0, 23, 1, 3]"
proof -
  let ?d = "example_data []" and ?v = "tlv_block tlv_SignatureValue [3]"
  have p: "Packet (p_name (packet_of ?d)) (p_meta (packet_of ?d)) (p_content (packet_of ?d)) (p_sig (packet_of ?d))
      (value_bytes ?v) = packet_of ?d"
    by (simp add: example_data_simps)
  have u: "elements_bytes (unsigned_elements (packet_of ?d)) = [7, 3, 8, 1, 65, 20, 0, 21, 2, 1, 2, 22, 3, 27, 1, 0]"
    by (simp add: example_data_simps unsigned_elements_def comps_value_def meta_value_def meta_elements_def
        ContentType_Blob_def sig_value_def sig_head_def tlv_bytes_def writeVarNumber_def nni_bytes_def tlv_codes)
  have "unsigned_inv ?d" using example_data_simps(2) [of "[]"] by (simp add: data_inv_def)
  moreover have "canonical tlv_SignatureValue ?v" by (simp add: tlv_codes sizeOfVarNumber_def)
  ultimately show ?thesis
    using Data_signing_encodes_packet [of ?d ?v "Encoder_new 0 0"] example_data_simps(3) [of "[]"] Encoder_new_empty [of 0]
    unfolding p u example_data_bytes by simp blast
qed

section \<open>The full name\<close>

text \<open>The cached full name is empty or that of the current wire and name.\<close>

definition fullName_ok :: "(byte list \<Rightarrow> byte list) \<Rightarrow> data \<Rightarrow> bool" where
  "fullName_ok sha256 d \<longleftrightarrow> Name_empty (d_fullName d)
     \<or> hasWire (d_wire d)
       \<and> appendImplicitSha256Digest_buffer (d_name d) (sha256 (wire_and_size (d_wire d))) = Inr (d_fullName d)"

text \<open>One call of an operation of the class, including calls that throw and leave the object changed.\<close>

inductive data_step :: "(byte list \<Rightarrow> byte list) \<Rightarrow> data \<Rightarrow> data \<Rightarrow> bool" for sha256 where
  step_setName: "data_step sha256 d (Data_setName d n)"
| step_setMetaInfo: "data_step sha256 d (setMetaInfo d i)"
| step_setContentType: "data_step sha256 d (setContentType d t)"
| step_setFreshnessPeriod: "data_step sha256 d (Data_setFreshnessPeriod d ms)"
| step_setFinalBlockId: "data_step sha256 d (Data_setFinalBlockId d c)"
| step_setContent_bytes: "data_step sha256 d (snd (setContent_bytes d bs))"
| step_setContent_buffer: "data_step sha256 d (setContent_buffer d bs)"
| step_setContent_block: "data_step sha256 d (snd (setContent_block d b))"
| step_setSignature: "data_step sha256 d (setSignature d s)"
| step_setSignatureValue: "data_step sha256 d (snd (setSignatureValue d b))"
| step_getContent: "data_step sha256 d (snd (getContent_full d))"
| step_getFullName: "getFullName sha256 d = Inr (n, d') \<Longrightarrow> data_step sha256 d d'"
| step_wireDecode: "data_step sha256 d (snd (Data_wireDecode d w))"
| step_wireEncode: "data_step sha256 d (snd (Data_wireEncode_full d))"
| step_wireEncode_to: "data_step sha256 d (snd (Data_wireEncode_to_full EncodingBuffer u d e))"
| step_estimate: "data_step sha256 d (snd (Data_wireEncode_to_full EncodingEstimator u d ()))"
| step_wireEncode_signed: "data_step sha256 d (snd (snd (Data_wireEncode_signed_full d e b)))"
| step_equal: "data_step sha256 d (fst (snd (Data_equal d other)))"
| step_print: "data_step sha256 d (snd (Data_print show_milliseconds d))"

lemma Name_empty_clear [simp]: "Name_empty (Name_clear n)"
  by (simp add: Name_empty_def Name_clear_def Block_ofType_def)

lemma run_decoders_invariant:
  assumes "\<forall>f \<in> set fs. \<forall>s. P s \<longrightarrow> P (snd (f s))" "P s"
  shows "P (snd (run_decoders fs s))"
  using assms
proof (induction fs arbitrary: s)
  case (Cons f fs)
  then have "P (snd (f s))" by simp
  with Cons show ?case by (cases "f s"; cases "fst (f s)") auto
qed simp

lemma decode_invariant:
  assumes "\<And>val s. P s \<Longrightarrow> P (snd (f val s))" "P s"
  shows "P (snd (decode_required b t f s))" "P (snd (decode_element b t f s))"
  using assms by (simp_all add: decode_required_def decode_element_def split: sum.split option.split)

lemma Data_wireDecode_fullName: "Name_empty (d_fullName (snd (Data_wireDecode d w)))"
proof (cases "parse w")
  case (Pair err b)
  show ?thesis
  proof (cases err)
    case None
    show ?thesis unfolding Data_wireDecode_def Let_def Pair None prod.case option.case
      by (rule run_decoders_invariant [where P = "\<lambda>d. Name_empty (d_fullName d)"])
        (auto intro!: decode_invariant [where P = "\<lambda>d. Name_empty (d_fullName d)"] split: prod.split sum.split)
  qed (simp add: Data_wireDecode_def Pair)
qed

lemma onChanged_fullName [simp]: "Name_empty (d_fullName (onChanged d))"
  by (simp add: onChanged_def)

text \<open>Methods that leave the name, the wire and the full name alone, also when they throw.\<close>

definition same_key :: "data \<Rightarrow> data \<Rightarrow> bool" where
  "same_key d d' \<longleftrightarrow> d_name d' = d_name d \<and> d_wire d' = d_wire d \<and> d_fullName d' = d_fullName d"

lemma same_key_parts:
  "same_key d d" "same_key d (snd (getContent_full d))" "same_key d (snd (on_signature f d))"
  by (auto simp: same_key_def getContent_full_def on_signature_def on_part_def split: sum.split prod.split)

lemma same_key_trans: "same_key d d' \<Longrightarrow> same_key d' d'' \<Longrightarrow> same_key d d''"
  by (simp add: same_key_def)

lemma same_key_bindR:
  "same_key d (snd r) \<Longrightarrow> (\<And>x d'. same_key d' (snd (f x d'))) \<Longrightarrow> same_key d (snd (bindR r f))"
  by (rule snd_bindR_invariant) (auto intro: same_key_trans)

lemma Data_parts_same: "same_key d (snd (Data_parts_full u d))"
  unfolding Data_parts_full_def
  by (auto intro!: same_key_bindR same_key_parts)

lemma Data_wireEncode_to_same: "same_key d (snd (Data_wireEncode_to_full ops u d e))"
  unfolding Data_wireEncode_to_full_def
  by (rule same_key_bindR [OF Data_parts_same]) (simp add: same_key_parts split: prod.split)

lemma Data_print_same: "same_key d (snd (Data_print f d))"
  unfolding Data_print_def by (intro same_key_bindR same_key_parts) (simp add: same_key_parts)

text \<open>A comparison, seen from its first argument.\<close>

definition first_same :: "data \<Rightarrow> 'a result \<times> data \<times> data \<Rightarrow> bool" where
  "first_same d r \<longleftrightarrow> same_key d (fst (snd r))"

lemma first_same_bindR:
  assumes "first_same d r" "\<And>x d' other. first_same d' (f x (d', other))"
  shows "first_same d (bindR r f)"
  unfolding first_same_def
  by (rule snd_bindR_invariant [where P = "\<lambda>p. same_key d (fst p)"])
    (use assms in \<open>auto simp: first_same_def intro: same_key_trans\<close>)

lemma first_same_steps:
  "first_same d (r, d, other)"
  "first_same d (on_fst getContent_full (d, other))" "first_same d (on_snd getContent_full (d, other))"
  "first_same d (case m of (r, i, i') \<Rightarrow> (r, d\<lparr>d_metaInfo := i\<rparr>, other\<lparr>d_metaInfo := i'\<rparr>))"
  "first_same d (case t of (r, s, s') \<Rightarrow> (r, d\<lparr>d_signature := s\<rparr>, other\<lparr>d_signature := s'\<rparr>))"
  using same_key_parts(2) [of d]
  by (auto simp: first_same_def on_fst_def on_snd_def on_part_def same_key_def split: prod.split)

lemma first_same_if: "first_same d a \<Longrightarrow> first_same d b \<Longrightarrow> first_same d (if c then a else b)"
  by simp

lemma Data_equal_same: "first_same d (Data_equal d other)"
  unfolding Data_equal_def
  by (rule first_same_steps first_same_if first_same_bindR | simp only: prod.case)+

lemma decode_self_fullName: "snd (decode_self r d) = d \<or> Name_empty (d_fullName (snd (decode_self r d)))"
proof (cases r)
  case (Inr blk)
  then show ?thesis
    using Data_wireDecode_fullName [of d blk] by (auto simp: decode_self_def split: prod.splits option.splits)
qed (simp add: decode_self_def)

lemma Data_wireEncode_result:
  "same_key d (snd (Data_wireEncode_full d)) \<or> Name_empty (d_fullName (snd (Data_wireEncode_full d)))"
proof -
  let ?P = "\<lambda>d'. same_key d d' \<or> Name_empty (d_fullName d')"
  have step: "?P d'" if "?P d1" "same_key d1 d'" for d1 d'
    using that by (auto simp: same_key_def)
  have self: "?P (snd (decode_self r d'))" if "?P d'" for r d'
    using that decode_self_fullName [of r d'] by auto
  have "?P (snd (bindR (Data_wireEncode_to_full EncodingBuffer False d' e) (\<lambda>(_, buffer) d. decode_self (Encoder_block buffer True) d)))"
    if "?P d'" for d' e
    by (rule snd_bindR_invariant [where P = ?P, OF step [OF that Data_wireEncode_to_same]]) (use self in \<open>auto split: prod.split\<close>)
  then have "?P (snd (bindR (Data_wireEncode_to_full EncodingEstimator False d ()) (\<lambda>(estimatedSize, _) d.
        bindR (Data_wireEncode_to_full EncodingBuffer False d (Encoder_new estimatedSize 0)) (\<lambda>(_, buffer) d.
          decode_self (Encoder_block buffer True) d))))"
    by (intro snd_bindR_invariant [where P = ?P, OF step [OF _ Data_wireEncode_to_same [of d]]])
      (auto simp: same_key_parts split: prod.split)
  then show ?thesis by (simp add: Data_wireEncode_full_def same_key_parts)
qed

lemma same_key_fullName: "same_key d d' \<Longrightarrow> fullName_ok sha256 d \<Longrightarrow> fullName_ok sha256 d'"
  by (simp add: same_key_def fullName_ok_def)

lemma data_step_fullName:
  assumes "data_step sha256 d d'" "fullName_ok sha256 d"
  shows "fullName_ok sha256 d'"
  using assms
proof cases
  case (step_getFullName n)
  then show ?thesis
    using assms(2) by (auto simp: getFullName_def fullName_ok_def bindE_iffs split: if_splits)
next
  case step_wireEncode
  then show ?thesis using assms(2) Data_wireEncode_result [of d] same_key_fullName by (auto simp: fullName_ok_def)
next
  case step_getContent
  then show ?thesis using same_key_fullName [OF same_key_parts(2) assms(2)] by simp
next
  case (step_wireEncode_to u e)
  then show ?thesis using same_key_fullName [OF Data_wireEncode_to_same assms(2)] by simp
next
  case (step_estimate u)
  then show ?thesis using same_key_fullName [OF Data_wireEncode_to_same assms(2)] by simp
next
  case (step_equal other)
  then show ?thesis using same_key_fullName [OF Data_equal_same [unfolded first_same_def] assms(2)] by simp
next
  case (step_print f)
  then show ?thesis using same_key_fullName [OF Data_print_same assms(2)] by simp
next
  case (step_wireEncode_signed e b)
  then show ?thesis
    using assms(2) decode_self_fullName [of "Encoder_block (append_signature e b) True" d]
    by (auto simp: Data_wireEncode_signed_full_def fullName_ok_def Let_def split: prod.splits)
qed (auto simp: fullName_ok_def Data_setName_def setMetaInfo_def setContentType_def Data_setFreshnessPeriod_def
    Data_setFinalBlockId_def setContent_bytes_def setContent_buffer_def setContent_block_def setSignature_def
    setSignatureValue_def Data_wireDecode_fullName split: sum.split)

text \<open>
  C8. The full name is never stale: whatever operations were called on a packet since its construction (setters, encoding,
  decoding, comparing, printing, also when they throw and leave the object changed), \<open>getFullName()\<close> returns the current name followed by the digest of the current wire, and
  caches it; without a wire it throws. SHA-256 is assumed to give 32 bytes.
\<close>
theorem Data_fullName_never_stale:
  assumes "(data_step sha256)\<^sup>*\<^sup>* d0 d" "Name_empty (d_fullName d0)" "\<And>bs. length (sha256 bs) = SHA256_DIGEST_SIZE"
  shows "(hasWire (d_wire d) \<longrightarrow> (\<exists>n d'. getFullName sha256 d = Inr (n, d') \<and> getFullName sha256 d' = Inr (n, d')
        \<and> d_name d' = d_name d \<and> d_wire d' = d_wire d
        \<and> name_of n = name_of (d_name d) @ [Comp tlv_ImplicitSha256DigestComponent (sha256 (wire_and_size (d_wire d)))]))
    \<and> (\<not> hasWire (d_wire d) \<longrightarrow> (\<exists>e. getFullName sha256 d = Inl (DataError e)))"
proof -
  have ok: "fullName_ok sha256 d"
    using assms(1,2) by (induction rule: rtranclp_induct) (simp add: fullName_ok_def, blast intro: data_step_fullName)
  obtain c where c: "fromImplicitSha256Digest_buffer (sha256 (wire_and_size (d_wire d))) = Inr c"
    "comp_of c = Comp tlv_ImplicitSha256DigestComponent (sha256 (wire_and_size (d_wire d)))"
    using digest_buffer_made [OF assms(3)] by metis
  define n where "n = Name_append (d_name d) c"
  have "name_of n = name_of (d_name d) @ [comp_of c]" "\<not> Name_empty n"
    by (simp_all add: n_def Name_empty_def)
  moreover have "appendImplicitSha256Digest_buffer (d_name d) (sha256 (wire_and_size (d_wire d))) = Inr n"
    by (simp add: appendImplicitSha256Digest_buffer_def c(1) n_def)
  ultimately show ?thesis
    using ok c(2) by (auto simp: getFullName_def fullName_ok_def)
qed

theorem Data_fullName_never_stale_witness:
  "\<exists>w d n d'. Data_wireEncode (example_data []) = Inr (w, d) \<and> getFullName (\<lambda>_. replicate 32 7) d = Inr (n, d')
     \<and> name_of n = [Comp tlv_NameComponent [65], Comp tlv_ImplicitSha256DigestComponent (replicate 32 7)]"
proof -
  let ?d = "example_data []" and ?h = "\<lambda>_ :: byte list. replicate 32 7 :: byte list"
  have "length (tlv_bytes tlv_Data (packet_value (packet_of ?d))) < 2 ^ 32"
    by (simp only: example_data_bytes) simp
  then obtain w d where d: "Data_wireEncode ?d = Inr (w, d)" "hasWire w" "d_wire d = w"
    "name_of (d_name d) = [Comp tlv_NameComponent [65]]"
    using Data_wireEncode_spec [of ?d] example_data_simps [of "[]"] by (simp add: packet_of_def) metis
  have "(data_step ?h)\<^sup>*\<^sup>* ?d d" 
    using d(1) step_wireEncode [of ?h ?d] completed_eq_InrD [of "Data_wireEncode_full ?d" w d] by (auto simp: Data_wireEncode_def)
  moreover have "Name_empty (d_fullName ?d)" by (simp add: example_data_def Name_empty_def Name_default_def Block_ofType_def)
  ultimately show ?thesis
    using Data_fullName_never_stale [of ?h ?d d] d by (auto simp: SHA256_DIGEST_SIZE_def)
qed

end
