(* ===== verification/Link.thy ===== *)
theory Link
  imports Data "HOL-Library.Product_Lexorder"
begin

text \<open>
  Link objects, after \<open>src/link.{hpp,cpp}\<close>: Data packets whose content is a set of delegations, ordered by preference and
  name. The set is the list of its elements in iteration order. The static functions on a wire take a
  \<open>const Block&\<close>; the elements that \<open>parse()\<close> caches inside it are not part of their result here, so a second call on a wire
  that the first call failed to parse is outside of the model.
\<close>

section \<open>The delegation set\<close>

type_synonym delegation = "u32 \<times> name"

record link =
  l_data :: data
  l_delegations :: "delegation list"

text \<open>\<open>operator<\<close> of \<open>std::pair<uint32_t, Name>\<close>, and insertion into the \<open>std::set\<close>.\<close>

definition delegation_less :: "delegation \<Rightarrow> delegation \<Rightarrow> bool result" where
  "delegation_less a b =
     (if fst a < fst b then Inr True
      else if fst b < fst a then Inr False
      else bindE (Name_compare (snd a) (snd b)) (\<lambda>r. Inr (r < 0)))"

fun set_insert :: "delegation \<Rightarrow> delegation list \<Rightarrow> delegation list result" where
  "set_insert x [] = Inr [x]"
| "set_insert x (y # ys) =
     bindE (delegation_less y x) (\<lambda>before.
       if before then bindE (set_insert x ys) (\<lambda>zs. Inr (y # zs))
       else bindE (delegation_less x y) (\<lambda>after. if after then Inr (x # y # ys) else Inr (y # ys)))"

text \<open>\<open>removeDelegationNoEncode\<close>.\<close>

fun removeDelegationNoEncode :: "name \<Rightarrow> delegation list \<Rightarrow> (bool \<times> delegation list) result" where
  "removeDelegationNoEncode name [] = Inr (False, [])"
| "removeDelegationNoEncode name (i # is) =
     bindE (Name_equals (snd i) name) (\<lambda>eq.
     bindE (removeDelegationNoEncode name is) (\<lambda>(hasRemoved, js).
       if eq then Inr (True, js) else Inr (hasRemoved, i # js)))"

section \<open>Content\<close>

definition delegation_steps :: "'e EncodingImpl \<Rightarrow> delegation \<Rightarrow> 'e \<Rightarrow> (nat \<times> 'e) result" where
  "delegation_steps ops delegation =
     run_stepsE
       ([\<lambda>_ e. Inr (Name_wireEncode_to ops (snd delegation) e),
         \<lambda>_ e. Inr (prependNonNegativeIntegerBlock ops tlv_LinkPreference (ucast (fst delegation)) e)] @
        header_steps ops tlv_LinkDelegation)"

definition encodeContent_to :: "'e EncodingImpl \<Rightarrow> delegation list \<Rightarrow> 'e \<Rightarrow> (nat \<times> 'e) result" where
  "encodeContent_to ops delegations =
     run_stepsE (map (\<lambda>d _. delegation_steps ops d) (rev delegations) @ header_steps ops tlv_Content)"

definition encodeContent :: "link \<Rightarrow> link result" where
  "encodeContent l =
     (let d = onChanged (l_data l)
      in bindE (encode_block (encodeContent_to EncodingEstimator (l_delegations l))
                  (encodeContent_to EncodingBuffer (l_delegations l))) (\<lambda>b.
           case setContent_block (setContentType d ContentType_Link) b of
             (Some err, _) \<Rightarrow> Inl err
           | (None, d) \<Rightarrow> Inr (l\<lparr>l_data := d\<rparr>)))"

definition read_delegation :: "block \<Rightarrow> delegation result" where
  "read_delegation b =
     (case m_subBlocks b of
        [] \<Rightarrow> Inl (LinkError ''Unexpected Link Encoding'')
      | val # rest \<Rightarrow>
          (case block_readNonNegativeInteger val of
             Inl _ \<Rightarrow> Inl (LinkError ''Missing Preference field in Link Encoding'')
           | Inr n \<Rightarrow>
               (case rest of
                  [] \<Rightarrow> Inl (LinkError ''Missing Name field in Link Encoding'')
                | val # _ \<Rightarrow> bindE (Name_ofBlock val) (\<lambda>name. Inr (ucast n, name)))))"

text \<open>
  The loop of \<open>decodeContent\<close> parses each element in place: it returns the elements and the set as far as they
  got.
\<close>

fun decode_delegations :: "block list \<Rightarrow> delegation list \<Rightarrow> error option \<times> block list \<times> delegation list" where
  "decode_delegations [] ds = (None, [], ds)"
| "decode_delegations (b # bs) ds =
     (case parse b of
        (Some err, b) \<Rightarrow> (Some err, b # bs, ds)
      | (None, b) \<Rightarrow>
          (case bindE (read_delegation b) (\<lambda>x. set_insert x ds) of
             Inl err \<Rightarrow> (Some err, b # bs, ds)
           | Inr ds \<Rightarrow> (case decode_delegations bs ds of (err, bs, ds) \<Rightarrow> (err, b # bs, ds))))"

definition decodeContent :: "link \<Rightarrow> error option \<times> link" where
  "decodeContent l =
     (if mi_type (d_metaInfo (l_data l)) \<noteq> ContentType_Link
      then (Some (LinkError ''Expected Content Type Link''), l)
      else case getContent (l_data l) of
             Inl err \<Rightarrow> (Some err, l)
           | Inr (content, d) \<Rightarrow>
               (case parse content of
                  (Some err, c) \<Rightarrow> (Some err, l\<lparr>l_data := d\<lparr>d_content := c\<rparr>\<rparr>)
                | (None, c) \<Rightarrow>
                    (case decode_delegations (m_subBlocks c) (l_delegations l) of
                       (err, bs, ds) \<Rightarrow>
                         (err, l\<lparr>l_data := d\<lparr>d_content := with_subBlocks c bs\<rparr>, l_delegations := ds\<rparr>))))"

section \<open>The class\<close>

definition Link_default :: link where
  "Link_default = \<lparr>l_data = Data_default, l_delegations = []\<rparr>"

definition Link_ofName :: "name \<Rightarrow> link" where
  "Link_ofName name = \<lparr>l_data = Data_ofName name, l_delegations = []\<rparr>"

fun set_inserts :: "delegation list \<Rightarrow> delegation list \<Rightarrow> delegation list result" where
  "set_inserts [] ds = Inr ds"
| "set_inserts (x # xs) ds = bindE (set_insert x ds) (set_inserts xs)"

definition Link_new :: "name \<Rightarrow> delegation list \<Rightarrow> link result" where
  "Link_new name links =
     bindE (set_inserts links []) (\<lambda>ds. encodeContent \<lparr>l_data = Data_ofName name, l_delegations = ds\<rparr>)"

definition addDelegation :: "link \<Rightarrow> u32 \<Rightarrow> name \<Rightarrow> link result" where
  "addDelegation l preference name =
     bindE (removeDelegationNoEncode name (l_delegations l)) (\<lambda>(_, ds).
     bindE (set_insert (preference, name) ds) (\<lambda>ds. encodeContent (l\<lparr>l_delegations := ds\<rparr>)))"

definition removeDelegation :: "link \<Rightarrow> name \<Rightarrow> (bool \<times> link) result" where
  "removeDelegation l name =
     bindE (removeDelegationNoEncode name (l_delegations l)) (\<lambda>(hasRemovedDelegation, ds).
       let l = l\<lparr>l_delegations := ds\<rparr>
       in if hasRemovedDelegation then bindE (encodeContent l) (\<lambda>l. Inr (True, l)) else Inr (False, l))"

definition Link_wireDecode :: "link \<Rightarrow> block \<Rightarrow> error option \<times> link" where
  "Link_wireDecode l wire =
     (case Data_wireDecode (l_data l) wire of
        (Some err, d) \<Rightarrow> (Some err, l\<lparr>l_data := d\<rparr>)
      | (None, d) \<Rightarrow> decodeContent (l\<lparr>l_data := d\<rparr>))"

definition Link_ofBlock :: "block \<Rightarrow> link result" where
  "Link_ofBlock block =
     (case Link_wireDecode Link_default block of (None, l) \<Rightarrow> Inr l | (Some err, _) \<Rightarrow> Inl err)"

section \<open>Delegations on a wire\<close>

text \<open>\<open>block.parse(); contentBlock = block.get(tlv::Content); contentBlock.parse();\<close>\<close>

definition parsed :: "block \<Rightarrow> block result" where
  "parsed b = (case parse b of (Some err, _) \<Rightarrow> Inl err | (None, b) \<Rightarrow> Inr b)"

definition content_of_wire :: "block \<Rightarrow> block result" where
  "content_of_wire b = bindE (parsed b) (\<lambda>b. bindE (Block_get tlv_Content b) parsed)"

definition getDelegationFromWire :: "block \<Rightarrow> nat \<Rightarrow> delegation result" where
  "getDelegationFromWire b index =
     bindE (content_of_wire b) (\<lambda>contentBlock.
       if \<not> index < length (m_subBlocks contentBlock) then Inl (OutOfRange ''vector::at'')
       else bindE (parsed (m_subBlocks contentBlock ! index)) (\<lambda>delegationBlock.
         if m_type delegationBlock \<noteq> tlv_LinkDelegation
         then Inl (LinkError ''Unexpected TLV-TYPE, expecting LinkDelegation'')
         else bindE (Block_get tlv_LinkPreference delegationBlock) (\<lambda>p.
              bindE (block_readNonNegativeInteger p) (\<lambda>n.
              bindE (Block_get tlv_Name delegationBlock) (\<lambda>b.
              bindE (Name_ofBlock b) (\<lambda>name. Inr (ucast n, name)))))))"

fun find_delegation :: "name \<Rightarrow> nat \<Rightarrow> block list \<Rightarrow> nat option result" where
  "find_delegation delegationName counter [] = Inr None"
| "find_delegation delegationName counter (b # bs) =
     bindE (parsed b) (\<lambda>delegationBlock.
       if m_type delegationBlock \<noteq> tlv_LinkDelegation
       then Inl (LinkError ''Unexpected TLV-TYPE, expecting LinkDelegation'')
       else bindE (Block_get tlv_Name delegationBlock) (\<lambda>b.
            bindE (Name_ofBlock b) (\<lambda>name.
            bindE (Name_equals name delegationName) (\<lambda>eq.
              if eq then Inr (Some counter) else find_delegation delegationName (Suc counter) bs))))"

text \<open>\<open>INVALID_SELECTED_DELEGATION_INDEX\<close> is \<^const>\<open>None\<close>.\<close>

definition findDelegationFromWire :: "block \<Rightarrow> name \<Rightarrow> nat option result" where
  "findDelegationFromWire b delegationName =
     bindE (content_of_wire b) (\<lambda>contentBlock. find_delegation delegationName 0 (m_subBlocks contentBlock))"

definition countDelegationsFromWire :: "block \<Rightarrow> nat result" where
  "countDelegationsFromWire b = bindE (content_of_wire b) (\<lambda>contentBlock. Inr (length (m_subBlocks contentBlock)))"

section \<open>The set is sorted\<close>

definition deleg_of :: "delegation \<Rightarrow> u32 \<times> comp list" where
  "deleg_of d = (fst d, name_of (snd d))"

definition valid_name :: "name \<Rightarrow> bool" where
  "valid_name n \<longleftrightarrow> is_name n \<and> Name_size n < 2 ^ 31"

definition delegs_ok :: "delegation list \<Rightarrow> bool" where
  "delegs_ok ds \<longleftrightarrow> sorted_wrt (<) (map deleg_of ds) \<and> (\<forall>d \<in> set ds. valid_name (snd d))"

lemma delegation_less_spec:
  assumes "valid_name (snd a)" "valid_name (snd b)"
  shows "delegation_less a b = Inr (deleg_of a < deleg_of b)"
proof -
  obtain r where "Name_compare (snd a) (snd b) = Inr r" "r < 0 \<longleftrightarrow> name_of (snd a) < name_of (snd b)"
    using Name_compare_lex [of "snd a" "snd b"] assms by (auto simp: valid_name_def)
  then show ?thesis by (auto simp: delegation_less_def deleg_of_def less_prod_def')
qed

lemma set_insert_spec:
  assumes "delegs_ok ds" "valid_name (snd x)"
  obtains zs where "set_insert x ds = Inr zs" "delegs_ok zs"
    "set (map deleg_of zs) = insert (deleg_of x) (set (map deleg_of ds))"
  using assms
proof (induction ds arbitrary: thesis)
  case Nil
  then show ?case by (auto simp: delegs_ok_def)
next
  case (Cons y ys)
  have ok: "delegs_ok ys" "valid_name (snd y)" "\<forall>d \<in> set ys. deleg_of y < deleg_of d"
    using Cons.prems(2) by (simp_all add: delegs_ok_def)
  note less = delegation_less_spec [OF ok(2) Cons.prems(3)] delegation_less_spec [OF Cons.prems(3) ok(2)]
  consider "deleg_of y < deleg_of x" | "deleg_of x < deleg_of y" | "deleg_of x = deleg_of y" by force
  then show ?case
  proof cases
    case 1
    obtain zs where zs: "set_insert x ys = Inr zs" "delegs_ok zs"
      "set (map deleg_of zs) = insert (deleg_of x) (set (map deleg_of ys))"
      using Cons.IH [OF _ ok(1) Cons.prems(3)] .
    have "\<forall>d \<in> set zs. deleg_of y < deleg_of d"
    proof
      fix d
      assume "d \<in> set zs"
      then have "deleg_of d \<in> insert (deleg_of x) (set (map deleg_of ys))" unfolding zs(3) [symmetric] by simp
      with 1 ok(3) show "deleg_of y < deleg_of d" by auto
    qed
    then have "delegs_ok (y # zs)" using zs(2) ok(2) by (simp add: delegs_ok_def)
    with Cons.prems(1) [of "y # zs"] zs(1,3) less 1 show ?thesis by auto
  next
    case 2
    then have "delegs_ok (x # y # ys)" using Cons.prems(2,3) ok(3) by (auto simp: delegs_ok_def)
    moreover have "\<not> deleg_of y < deleg_of x" using 2 by order
    ultimately show ?thesis using Cons.prems(1) [of "x # y # ys"] less 2 by auto
  next
    case 3
    with Cons.prems(1) [of "y # ys"] Cons.prems(2) less show ?thesis by auto
  qed
qed

text \<open>Names are compared by the values of their components when a delegation is removed.\<close>

abbreviation values_of :: "name \<Rightarrow> byte list list" where
  "values_of n \<equiv> map comp_value (name_of n)"

lemma remove_spec:
  assumes "\<forall>d \<in> set ds. valid_name (snd d)" "valid_name n"
  shows "removeDelegationNoEncode n ds =
    Inr (\<exists>d \<in> set ds. values_of (snd d) = values_of n, filter (\<lambda>d. values_of (snd d) \<noteq> values_of n) ds)"
  using assms
proof (induction ds)
  case (Cons d ds)
  then have "Name_equals (snd d) n = Inr (values_of (snd d) = values_of n)"
    using Name_equals_values [of "snd d" n] by (simp add: valid_name_def)
  with Cons show ?case by auto
qed simp

lemma delegs_ok_filter: "delegs_ok ds \<Longrightarrow> delegs_ok (filter P ds)"
  by (auto simp: delegs_ok_def sorted_wrt_map sorted_wrt_filter)

section \<open>The content is the set\<close>

definition delegation_elements :: "u32 \<times> comp list \<Rightarrow> (u32 \<times> byte list) list" where
  "delegation_elements d = [(tlv_LinkPreference, nni_bytes (ucast (fst d))), (tlv_Name, comps_value (snd d))]"

definition delegs_elements :: "(u32 \<times> comp list) list \<Rightarrow> (u32 \<times> byte list) list" where
  "delegs_elements ds = map (\<lambda>d. (tlv_LinkDelegation, elements_bytes (delegation_elements d))) ds"

context encoding_impl
begin

lemma delegation_steps_emit:
  assumes "is_name (snd d)"
  shows "emitterE emits (delegation_steps ops d) (tlv_bytes tlv_LinkDelegation (elements_bytes (delegation_elements (deleg_of d))))"
  unfolding delegation_steps_def
  by (rule element_steps_emit)
    (use Name_wireEncode_to_emits [OF assms] in \<open>auto simp: delegation_elements_def deleg_of_def name_value_def
      intro!: emitterE_Inr prependNonNegativeIntegerBlock_emits\<close>)

lemma encodeContent_to_emits:
  assumes "\<forall>d \<in> set ds. is_name (snd d)"
  shows "emitterE emits (encodeContent_to ops ds)
    (tlv_bytes tlv_Content (elements_bytes (delegs_elements (map deleg_of ds))))"
  unfolding encodeContent_to_def
  by (rule element_steps_emit)
    (use assms delegation_steps_emit in \<open>auto simp: delegs_elements_def rev_map list.rel_map intro!: list.rel_refl_strong\<close>)

end

definition link_inv :: "link \<Rightarrow> bool" where
  "link_inv l \<longleftrightarrow> delegs_ok (l_delegations l) \<and> mi_type (d_metaInfo (l_data l)) = ContentType_Link
     \<and> \<not> hasWire (d_wire (l_data l))
     \<and> d_content (l_data l) = tlv_block tlv_Content (elements_bytes (delegs_elements (map deleg_of (l_delegations l))))"

lemma encodeContent_ok:
  assumes "delegs_ok (l_delegations l)"
  shows "\<exists>l'. encodeContent l = Inr l' \<and> link_inv l' \<and> l_delegations l' = l_delegations l
    \<and> d_name (l_data l') = d_name (l_data l) \<and> d_signature (l_data l') = d_signature (l_data l)"
proof -
  have names: "\<forall>d \<in> set (l_delegations l). is_name (snd d)" using assms by (simp add: delegs_ok_def valid_name_def)
  have "encode_block (encodeContent_to EncodingEstimator (l_delegations l)) (encodeContent_to EncodingBuffer (l_delegations l))
      = Inr (tlv_block tlv_Content (elements_bytes (delegs_elements (map deleg_of (l_delegations l)))))"
    by (rule encode_block_eq [OF estimator.encodeContent_to_emits [OF names] encoder.encodeContent_to_emits [OF names]])
  then show ?thesis
    using assms by (simp add: encodeContent_def setContent_block_def link_inv_def setContentType_def onChanged_def
        MetaInfo_setType_def Block_reset_def hasWire_def Let_def)
qed

definition link_set :: "link \<Rightarrow> (u32 \<times> comp list) set" where
  "link_set l = set (map deleg_of (l_delegations l))"

lemma addDelegation_spec:
  assumes "delegs_ok (l_delegations l)" "valid_name n"
  shows "\<exists>l'. addDelegation l p n = Inr l' \<and> link_inv l' \<and> d_name (l_data l') = d_name (l_data l)
      \<and> link_set l' = insert (p, name_of n) {d \<in> link_set l. map comp_value (snd d) \<noteq> values_of n}"
proof -
  let ?ds = "filter (\<lambda>d. values_of (snd d) \<noteq> values_of n) (l_delegations l)"
  have rem: "\<exists>r. removeDelegationNoEncode n (l_delegations l) = Inr (r, ?ds)"
    using remove_spec assms by (auto simp: delegs_ok_def)
  obtain zs where zs: "set_insert (p, n) ?ds = Inr zs" "delegs_ok zs"
    "set (map deleg_of zs) = insert (deleg_of (p, n)) (set (map deleg_of ?ds))"
    by (rule set_insert_spec [OF delegs_ok_filter [OF assms(1)], of "(p, n)"]) (use assms(2) in simp_all)
  obtain l1 where l1: "encodeContent (l\<lparr>l_delegations := zs\<rparr>) = Inr l1" "link_inv l1" "l_delegations l1 = zs"
    "d_name (l_data l1) = d_name (l_data l)"
    using encodeContent_ok [of "l\<lparr>l_delegations := zs\<rparr>"] zs(2) by auto
  have "set (map deleg_of ?ds) = {d \<in> link_set l. map comp_value (snd d) \<noteq> values_of n}"
    by (auto simp: link_set_def deleg_of_def)
  then have "link_set l1 = insert (p, name_of n) {d \<in> link_set l. map comp_value (snd d) \<noteq> values_of n}"
    using zs(3) l1(3) unfolding link_set_def by (simp add: deleg_of_def)
  with rem zs(1) l1 show ?thesis by (auto simp: addDelegation_def)
qed

lemma removeDelegation_spec:
  assumes "delegs_ok (l_delegations l)" "valid_name n"
  shows "\<exists>r l'. removeDelegation l n = Inr (r, l') \<and> delegs_ok (l_delegations l')
      \<and> link_set l' = {d \<in> link_set l. map comp_value (snd d) \<noteq> values_of n}
      \<and> (r \<longleftrightarrow> (\<exists>d \<in> link_set l. map comp_value (snd d) = values_of n)) \<and> (r \<longrightarrow> link_inv l') \<and> (\<not> r \<longrightarrow> l' = l)"
proof -
  let ?ds = "filter (\<lambda>d. values_of (snd d) \<noteq> values_of n) (l_delegations l)"
  define r where "r \<longleftrightarrow> (\<exists>d \<in> set (l_delegations l). values_of (snd d) = values_of n)"
  have rem: "removeDelegationNoEncode n (l_delegations l) = Inr (r, ?ds)"
    using remove_spec assms by (auto simp: delegs_ok_def r_def)
  have ok: "delegs_ok ?ds" by (rule delegs_ok_filter [OF assms(1)])
  obtain l2 where l2: "encodeContent (l\<lparr>l_delegations := ?ds\<rparr>) = Inr l2" "link_inv l2" "l_delegations l2 = ?ds"
    using encodeContent_ok [of "l\<lparr>l_delegations := ?ds\<rparr>"] ok by auto
  have r: "r \<longleftrightarrow> (\<exists>d \<in> link_set l. map comp_value (snd d) = values_of n)"
    by (auto simp: r_def link_set_def deleg_of_def)
  have set: "set (map deleg_of ?ds) = {d \<in> link_set l. map comp_value (snd d) \<noteq> values_of n}"
    by (auto simp: link_set_def deleg_of_def)
  show ?thesis
  proof (cases r)
    case True
    then have "removeDelegation l n = Inr (True, l2)" using rem l2(1) by (simp add: removeDelegation_def)
    moreover have "link_set l2 = {d \<in> link_set l. map comp_value (snd d) \<noteq> values_of n}"
      using set l2(3) unfolding link_set_def by simp
    ultimately show ?thesis using ok l2(2,3) r True by auto
  next
    case False
    then have same: "?ds = l_delegations l" by (auto simp: r_def filter_id_conv)
    have "removeDelegation l n = Inr (False, l)" using rem False by (simp add: removeDelegation_def same)
    moreover have "link_set l = {d \<in> link_set l. map comp_value (snd d) \<noteq> values_of n}"
      using set same by (simp add: link_set_def)
    ultimately show ?thesis using assms(1) r False by blast
  qed
qed

text \<open>
  C15. Links implement a set of delegations: \<open>addDelegation\<close> replaces whatever delegations there are for the name by one with the given
  preference, \<open>removeDelegation\<close> removes them and says whether there were any; the set stays sorted by
  preference and name, and after each change the content of the packet is the encoding of the set, the content
  type is Link and the old wire is gone.
\<close>
theorem Link_operations_effect:
  assumes "delegs_ok (l_delegations l)" "valid_name n"
  shows "(\<exists>l'. addDelegation l p n = Inr l' \<and> link_inv l'
      \<and> link_set l' = insert (p, name_of n) {d \<in> link_set l. map comp_value (snd d) \<noteq> values_of n})
    \<and> (\<exists>r l'. removeDelegation l n = Inr (r, l') \<and> delegs_ok (l_delegations l')
      \<and> link_set l' = {d \<in> link_set l. map comp_value (snd d) \<noteq> values_of n}
      \<and> (r \<longleftrightarrow> (\<exists>d \<in> link_set l. map comp_value (snd d) = values_of n)) \<and> (r \<longrightarrow> link_inv l') \<and> (\<not> r \<longrightarrow> l' = l))"
  using addDelegation_spec [OF assms, of p] removeDelegation_spec [OF assms] by blast

theorem Link_operations_effect_witness:
  "\<exists>l'. addDelegation (Link_ofName (name1 [65])) 10 (name1 [66]) = Inr l'
     \<and> link_set l' = {(10, [Comp tlv_NameComponent [66]])}"
proof -
  have "delegs_ok (l_delegations (Link_ofName (name1 [65])))" "valid_name (name1 [66])"
    by (simp_all add: Link_ofName_def delegs_ok_def valid_name_def Name_size_def)
  from Link_operations_effect [OF this, of 10] show ?thesis
    by (auto simp: Link_ofName_def link_set_def)
qed

section \<open>Decoding\<close>

lemma Name_ofBlock_fresh:
  assumes "fresh w" "type_value w = (tlv_Name, comps_value cs)" "\<forall>c \<in> set cs. is_comp c"
  shows "\<exists>n. Name_ofBlock w = Inr n \<and> name_of n = cs \<and> is_name n"
proof -
  obtain n where "Name_wireDecode \<lparr>m_nameBlock = w\<rparr> w = (None, n)" "name_of n = cs" "is_name n"
    using Name_wireDecode_fresh [OF assms] by blast
  then show ?thesis using assms(2) by (auto simp: Name_wireDecode_def Name_ofBlock_def type_value_def split: prod.splits)
qed

definition good_delegs :: "(u32 \<times> comp list) list \<Rightarrow> bool" where
  "good_delegs ds \<longleftrightarrow> (\<forall>d \<in> set ds. (\<forall>c \<in> set (snd d). is_comp c) \<and> length (snd d) < 2 ^ 31)"

lemma read_delegation_spec:
  assumes "fresh b" "type_value b = (tlv_LinkDelegation, elements_bytes (delegation_elements d))" "good_delegs [d]"
  obtains b' x where "parse b = (None, b')" "read_delegation b' = Inr x" "deleg_of x = d" "valid_name (snd x)"
proof -
  have v: "value_bytes b = elements_bytes (delegation_elements d)" using assms(2) by (simp add: type_value_def)
  obtain b' where b': "parse b = (None, b')" "map type_value (m_subBlocks b') = delegation_elements d"
    "\<forall>s \<in> set (m_subBlocks b'). fresh s"
    by (rule parse_fresh [OF assms(1) v])
  then obtain p m where pm: "m_subBlocks b' = [p, m]" "fresh p" "fresh m"
    "type_value p = (tlv_LinkPreference, nni_bytes (ucast (fst d)))" "type_value m = (tlv_Name, comps_value (snd d))"
    by (auto simp: delegation_elements_def)
  obtain n where n: "Name_ofBlock m = Inr n" "name_of n = snd d" "is_name n"
    using Name_ofBlock_fresh [OF pm(3,5)] assms(3) by (auto simp: good_delegs_def)
  have "block_readNonNegativeInteger p = Inr (ucast (fst d))"
    using read_element [OF _ pm(4)] pm(2) by (simp add: fresh_def)
  with pm(1) n(1) have "read_delegation b' = Inr (fst d, n)" by (simp add: read_delegation_def)
  moreover have "Name_size n < 2 ^ 31"
    using assms(3) arg_cong [OF n(2), of length] by (simp add: good_delegs_def name_of_def Name_size_def)
  ultimately show ?thesis using that b'(1) n(2,3) by (simp add: deleg_of_def valid_name_def)
qed

lemma decode_delegations_spec:
  assumes "map type_value bs = delegs_elements es" "\<forall>b \<in> set bs. fresh b" "good_delegs es" "delegs_ok ds"
  shows "\<exists>bs' ds'. decode_delegations bs ds = (None, bs', ds') \<and> delegs_ok ds'
    \<and> set (map deleg_of ds') = set (map deleg_of ds) \<union> set es"
  using assms
proof (induction bs arbitrary: es ds)
  case Nil
  then show ?case by (auto simp: delegs_elements_def)
next
  case (Cons b bs)
  then obtain e es' where e: "es = e # es'" "type_value b = (tlv_LinkDelegation, elements_bytes (delegation_elements e))"
    "map type_value bs = delegs_elements es'" by (cases es) (auto simp: delegs_elements_def)
  have good: "good_delegs [e]" "good_delegs es'" using Cons.prems(3) e(1) by (simp_all add: good_delegs_def)
  have "fresh b" "\<forall>b \<in> set bs. fresh b" using Cons.prems(2) by simp_all
  obtain b' x where x: "parse b = (None, b')" "read_delegation b' = Inr x" "deleg_of x = e" "valid_name (snd x)"
    using read_delegation_spec [OF \<open>fresh b\<close> e(2) good(1)] .
  obtain zs where zs: "set_insert x ds = Inr zs" "delegs_ok zs"
    "set (map deleg_of zs) = insert (deleg_of x) (set (map deleg_of ds))"
    using set_insert_spec [OF Cons.prems(4) x(4)] .
  obtain bs' ds' where "decode_delegations bs zs = (None, bs', ds')" "delegs_ok ds'"
    "set (map deleg_of ds') = set (map deleg_of zs) \<union> set es'"
    using Cons.IH [OF e(3) \<open>\<forall>b \<in> set bs. fresh b\<close> good(2) zs(2)] by blast
  with x zs(1,3) e(1) show ?case by auto
qed

definition link_of :: "link \<Rightarrow> packet \<times> (u32 \<times> comp list) list" where
  "link_of l = (packet_of (l_data l), map deleg_of (l_delegations l))"

definition good_link :: "packet \<times> (u32 \<times> comp list) list \<Rightarrow> bool" where
  "good_link v \<longleftrightarrow> good_packet (fst v) \<and> meta_type (p_meta (fst v)) = ContentType_Link
     \<and> p_content (fst v) = elements_bytes (delegs_elements (snd v)) \<and> good_delegs (snd v) \<and> sorted_wrt (<) (snd v)"

lemma delegs_ok_empty [simp]: "delegs_ok []"
  by (simp add: delegs_ok_def)

lemma sorted_delegs_unique:
  assumes "sorted_wrt (<) xs" "sorted_wrt (<) ys" "set xs = set (ys :: (u32 \<times> comp list) list)"
  shows "xs = ys"
  using assms by (auto simp: strict_sorted_iff intro: sorted_distinct_set_unique)

lemma fresh_content:
  assumes "fresh c" "type_value c = (t, v)" "t \<noteq> 4294967295"
  shows "hasWire c" "\<not> Block_empty c"
  using assms by (auto simp: fresh_def type_value_def Block_empty_def)

lemma decodeContent_spec:
  assumes "mi_type (d_metaInfo (l_data l)) = ContentType_Link" "fresh (d_content (l_data l))" "l_delegations l = []"
    and "type_value (d_content (l_data l)) = (tlv_Content, elements_bytes (delegs_elements es))"
    and "good_delegs es" "sorted_wrt (<) es"
  shows "\<exists>c ds. decodeContent l = (None, l\<lparr>l_data := (l_data l)\<lparr>d_content := c\<rparr>, l_delegations := ds\<rparr>)
    \<and> delegs_ok ds \<and> map deleg_of ds = es
    \<and> \<not> Block_empty c \<and> payload c = elements_bytes (delegs_elements es)"
proof -
  have v: "value_bytes (d_content (l_data l)) = elements_bytes (delegs_elements es)" "m_type (d_content (l_data l)) = tlv_Content"
    using assms(4) by (simp_all add: type_value_def)
  obtain c where c: "parse (d_content (l_data l)) = (None, c)" "map type_value (m_subBlocks c) = delegs_elements es"
    "\<forall>s \<in> set (m_subBlocks c). fresh s" "m_type c = tlv_Content" "hasWire c" "wf_block c"
    "value_bytes c = elements_bytes (delegs_elements es)"
    using parse_fresh [OF assms(2) v(1)] unfolding v by metis
  obtain bs ds where ds: "decode_delegations (m_subBlocks c) [] = (None, bs, ds)" "delegs_ok ds" "set (map deleg_of ds) = set es"
    using decode_delegations_spec [OF c(2,3) assms(5) delegs_ok_empty] by auto
  have "map deleg_of ds = es"
    using ds(2,3) assms(6) by (auto simp: delegs_ok_def intro!: sorted_delegs_unique)
  have "tlv_Content \<noteq> 4294967295" by (simp add: tlv_codes)
  then have "getContent (l_data l) = Inr (d_content (l_data l), (l_data l)\<lparr>d_content := d_content (l_data l)\<rparr>)"
    using fresh_content [OF assms(2,4)] by (simp add: getContent_eq)
  then have "decodeContent l = (None, l\<lparr>l_data := (l_data l)\<lparr>d_content := with_subBlocks c bs\<rparr>, l_delegations := ds\<rparr>)"
    using assms(1,3) c(1) ds(1) by (simp add: decodeContent_def)
  moreover have "\<not> Block_empty (with_subBlocks c bs)" "payload (with_subBlocks c bs) = elements_bytes (delegs_elements es)"
    using c(4-7) by (simp_all add: with_subBlocks_def payload_def Block_empty_def value_bytes_def hasWire_def buffer_of_def tlv_codes)
  ultimately show ?thesis using ds(2) \<open>map deleg_of ds = es\<close> by blast
qed

lemma Link_wireDecode_spec:
  assumes "fresh w" "type_value w = (t, packet_value (fst v))" "good_link v"
    and "mi_appMetaInfo (d_metaInfo (l_data l)) = []" "l_delegations l = []"
  shows "\<exists>l'. Link_wireDecode l w = (None, l') \<and> link_of l' = v \<and> delegs_ok (l_delegations l')
    \<and> hasWire (d_wire (l_data l')) \<and> wire_bytes (d_wire (l_data l')) = wire_bytes w"
proof -
  obtain p es where v: "v = (p, es)" by (cases v)
  have good: "good_packet p" "meta_type (p_meta p) = ContentType_Link" "p_content p = elements_bytes (delegs_elements es)"
    "good_delegs es" "sorted_wrt (<) es" using assms(3) by (auto simp: good_link_def v)
  have app: "meta_app (meta_of (d_metaInfo (l_data l))) = []" using assms(4) by (simp add: meta_of_def)
  have val: "type_value w = (t, packet_value p)" using assms(2) by (simp add: v)
  obtain d where d: "Data_wireDecode (l_data l) w = (None, d)" "packet_of d = p"
    "hasWire (d_wire d)" "wire_bytes (d_wire d) = wire_bytes w" "fresh (d_content d)"
    "type_value (d_content d) = (tlv_Content, p_content p)"
    using Data_wireDecode_spec [OF assms(1) val good(1), of "l_data l"]
    by (metis app append_Nil meta.collapse packet.collapse)
  have type: "mi_type (d_metaInfo d) = ContentType_Link"
    using good(2) d(2) by (auto simp: packet_of_def meta_of_def)
  obtain c ds where c: "decodeContent (l\<lparr>l_data := d\<rparr>) = (None, l\<lparr>l_data := d\<lparr>d_content := c\<rparr>, l_delegations := ds\<rparr>)"
    "delegs_ok ds" "map deleg_of ds = es" "\<not> Block_empty c" "payload c = elements_bytes (delegs_elements es)"
    using decodeContent_spec [of "l\<lparr>l_data := d\<rparr>" es] type d(5,6) assms(5) good(3-5) by auto
  have "packet_of (d\<lparr>d_content := c\<rparr>) = p"
    using d(2) c(4,5) good(3) by (cases p) (simp add: packet_of_def content_bytes_def)
  then show ?thesis using d(1,3,4) c(1-3) by (simp add: Link_wireDecode_def link_of_def v)
qed

text \<open>\<open>wireEncode\<close> is the one of the base class.\<close>

definition Link_wireEncode :: "link \<Rightarrow> (block \<times> link) result" where
  "Link_wireEncode l = bindE (Data_wireEncode (l_data l)) (\<lambda>(w, d). Inr (w, l\<lparr>l_data := d\<rparr>))"

definition encodable_link :: "link \<Rightarrow> bool" where
  "encodable_link l \<longleftrightarrow> data_inv (l_data l) \<and> mi_appMetaInfo (d_metaInfo (l_data l)) = []
     \<and> length (tlv_bytes tlv_Data (packet_value (packet_of (l_data l)))) < 2 ^ 32"

interpretation link_wire: wire_codec tlv_Data "\<lambda>v. packet_value (fst v)" good_link Link_wireDecode
  "\<lambda>l. mi_appMetaInfo (d_metaInfo (l_data l)) = [] \<and> l_delegations l = []" link_of "\<lambda>l. delegs_ok (l_delegations l)"
  Link_wireEncode "\<lambda>l. d_wire (l_data l)" encodable_link
proof (unfold_locales, goal_cases)
  case (1 b v l)
  then show ?case using Link_wireDecode_spec [of b tlv_Data v l] by blast
next
  case (2 l)
  obtain d where "Data_wireEncode (l_data l) = Inr (d_wire d, d)" "packet_of d = packet_of (l_data l)"
    "wf_block (d_wire d)" "hasWire (d_wire d)"
    "wire_bytes (d_wire d) = tlv_bytes tlv_Data (packet_value (packet_of (l_data l)))"
    using data_wire.encodes [of "l_data l"] 2 by (auto simp: encodable_link_def link_of_def good_link_def)
  then show ?case by (intro exI [of _ "l\<lparr>l_data := d\<rparr>"]) (simp add: Link_wireEncode_def link_of_def)
next
  case (3 l)
  then show ?case using data_wire.encode_cached [of "l_data l"] by (simp add: Link_wireEncode_def)
qed

text \<open>
  A link whose wire is, or will be, that of the packet \<open>p\<close>, the content of which is the set of delegations of the link.
\<close>

definition link_encodes_as :: "link \<Rightarrow> packet \<Rightarrow> bool" where
  "link_encodes_as l p \<longleftrightarrow> encodes_as (l_data l) p \<and> delegs_ok (l_delegations l)
     \<and> meta_type (p_meta p) = ContentType_Link
     \<and> p_content p = elements_bytes (delegs_elements (map deleg_of (l_delegations l)))"

lemma link_inv_encodes_as:
  assumes "link_inv l" "data_inv (l_data l)" "good_packet (packet_of (l_data l))"
    and "length (tlv_bytes tlv_Data (packet_value (packet_of (l_data l)))) < 2 ^ 32"
  shows "link_encodes_as l (packet_of (l_data l))"
  using assms by (simp add: link_encodes_as_def link_inv_def encodes_as_def packet_of_def content_bytes_def Block_empty_def
      meta_of_def tlv_codes)

lemma delegs_ok_good: "delegs_ok ds \<Longrightarrow> good_delegs (map deleg_of ds)"
  by (auto simp: delegs_ok_def good_delegs_def deleg_of_def valid_name_def is_name_comps Name_size_def name_of_def)

text \<open>
  C16. A link survives the wire: encoding a link whose content is its set of delegations and decoding the bytes into an
  empty link gives the same packet and the same delegations, in the same order. The link has been signed; either
  the wire is not cached yet and the packet \<open>p\<close> is made from the fields of the link (with the conditions of the
  round trip of Data packets: parts in canonical form, at most one type-specific element in a SignatureInfo that has no wire of its own), or
  there is a cached wire (after signing in two steps, or after decoding), which is the encoding of \<open>p\<close>.
\<close>
theorem Link_wire_roundtrip:
  assumes "link_encodes_as l p"
  shows "\<exists>w l' blk y. Link_wireEncode l = Inr (w, l')
     \<and> wire_bytes w = tlv_bytes tlv_Data (packet_value p) \<and> link_encodes_as l' p \<and> l_delegations l' = l_delegations l
     \<and> Block_whole (wire_bytes w) = Inr blk \<and> Link_ofBlock blk = Inr y
     \<and> link_of y = (p, map deleg_of (l_delegations l))"
proof -
  have e: "encodes_as (l_data l) p" "good_packet p" "length (tlv_bytes tlv_Data (packet_value p)) < 2 ^ 32"
    using assms by (simp_all add: link_encodes_as_def encodes_as_def)
  have good: "good_link (p, map deleg_of (l_delegations l))"
    using assms e(2) delegs_ok_good by (simp add: good_link_def link_encodes_as_def delegs_ok_def)
  obtain w d where w: "Data_wireEncode (l_data l) = Inr (w, d)" "wire_bytes w = tlv_bytes tlv_Data (packet_value p)" "encodes_as d p"
    by (rule encodes_as_encode [OF e(1)])
  have "length (tlv_bytes tlv_Data (packet_value p)) < 2 ^ 64" using e(3) by simp
  then obtain blk where blk: "Block_whole (wire_bytes w) = Inr blk" "fresh blk" "type_value blk = (tlv_Data, packet_value p)"
    unfolding w(2) using Block_whole_tlv by blast
  obtain y where "Link_wireDecode Link_default blk = (None, y)" "link_of y = (p, map deleg_of (l_delegations l))"
    using link_wire.decodes [OF blk(2) _ good, of Link_default] blk(3)
    by (auto simp: Link_default_def Data_default_def MetaInfo_default_def)
  then show ?thesis
    using w blk(1) assms by (auto simp: Link_wireEncode_def Link_ofBlock_def link_encodes_as_def)
qed

text \<open>A signed link named \<open>/A\<close> with one delegation to \<open>/B\<close>.\<close>

definition example_link :: link where
  "example_link = \<lparr>l_data = (example_data [])\<lparr>d_metaInfo := MetaInfo_default\<lparr>mi_type := ContentType_Link\<rparr>,
     d_content := tlv_block tlv_Content (elements_bytes (delegs_elements [(10, [Comp tlv_NameComponent [66]])]))\<rparr>,
     l_delegations = [(10, name1 [66])]\<rparr>"

lemma example_link_simps:
  "packet_of (l_data example_link) = Packet [Comp tlv_NameComponent [65]] (Meta ContentType_Link None None [])
      (elements_bytes (delegs_elements [(10, [Comp tlv_NameComponent [66]])])) (SigInfo 0 None []) [3]"
  "link_inv example_link" "data_inv (l_data example_link)" "good_packet (packet_of (l_data example_link))"
  "mi_appMetaInfo (d_metaInfo (l_data example_link)) = []"
proof -
  show *: "packet_of (l_data example_link) = Packet [Comp tlv_NameComponent [65]] (Meta ContentType_Link None None [])
      (elements_bytes (delegs_elements [(10, [Comp tlv_NameComponent [66]])])) (SigInfo 0 None []) [3]"
    by (simp add: example_link_def packet_of_def example_data_def meta_of_def MetaInfo_default_def Component_empty_def
        Component_default_def Block_ofType_def hasValue_def content_bytes_def Block_empty_def tlv_codes sig_of_def
        SignatureInfo_ofType_def SignatureInfo_default_def)
  show "good_packet (packet_of (l_data example_link))"
    unfolding * by (auto simp: good_packet_def is_comp_def good_meta_def good_sig_def ContentType_Link_def)
  show "link_inv example_link"
    by (simp add: link_inv_def example_link_def delegs_ok_def deleg_of_def valid_name_def example_data_def MetaInfo_default_def
        Block_default_def hasWire_def)
  have "length (elements_bytes (delegs_elements [(10, [Comp tlv_NameComponent [66]])])) = 10"
    by (simp add: delegs_elements_def delegation_elements_def comps_value_def tlv_bytes_def writeVarNumber_def nni_bytes_def tlv_codes)
  then show "data_inv (l_data example_link)" "mi_appMetaInfo (d_metaInfo (l_data example_link)) = []"
    using example_data_simps(2) [of "[]"]
    by (simp_all add: example_link_def data_inv_def unsigned_inv_def example_data_def meta_info_inv_def MetaInfo_default_def
        Component_empty_def Component_default_def Block_ofType_def hasValue_def content_ok_def tlv_codes sizeOfVarNumber_def)
qed

lemma example_link_bytes:
  "tlv_bytes tlv_Data (packet_value (packet_of (l_data example_link)))
     = [6, 30, 7, 3, 8, 1, 65, 20, 3, 24, 1, 1, 21, 10, 31, 8, 30, 1, 10, 7, 3, 8, 1, 66, 22, 3, 27, 1, 0, 23, 1, 3]"
  by (simp add: example_link_simps(1) delegs_elements_def delegation_elements_def packet_value_def packet_elements_def
      unsigned_elements_def comps_value_def meta_value_def meta_elements_def ContentType_Blob_def ContentType_Link_def sig_value_def
      sig_head_def tlv_bytes_def writeVarNumber_def nni_bytes_def tlv_codes)

theorem Link_wire_roundtrip_witness:
  "\<exists>w l' blk y. Link_wireEncode example_link = Inr (w, l')
     \<and> wire_bytes w = [6, 30, 7, 3, 8, 1, 65, 20, 3, 24, 1, 1, 21, 10, 31, 8, 30, 1, 10, 7, 3, 8, 1, 66, 22, 3, 27, 1, 0, 23, 1, 3]
     \<and> Block_whole (wire_bytes w) = Inr blk \<and> Link_ofBlock blk = Inr y
     \<and> map deleg_of (l_delegations y) = [(10, [Comp tlv_NameComponent [66]])]"
proof -
  have "length (tlv_bytes tlv_Data (packet_value (packet_of (l_data example_link)))) < 2 ^ 32"
    by (simp only: example_link_bytes) simp
  from Link_wire_roundtrip [OF link_inv_encodes_as [OF example_link_simps(2-4) this]] show ?thesis
    unfolding example_link_bytes by (auto simp: link_of_def example_link_def deleg_of_def)
qed

lemma Block_get_element: "find_element t b = Some s \<Longrightarrow> Block_get t b = Inr s"
  by (auto simp: Block_get_def find_element_def Let_def split: if_splits)

lemma delegation_on_wire:
  assumes "fresh b" "type_value b = (tlv_LinkDelegation, elements_bytes (delegation_elements d))" "good_delegs [d]"
  obtains b' p m n where "parsed b = Inr b'" "m_type b' = tlv_LinkDelegation" "Block_get tlv_LinkPreference b' = Inr p"
    "block_readNonNegativeInteger p = Inr (ucast (fst d))" "Block_get tlv_Name b' = Inr m" "Name_ofBlock m = Inr n"
    "name_of n = snd d" "valid_name n"
proof -
  have v: "value_bytes b = elements_bytes (delegation_elements d)" "m_type b = tlv_LinkDelegation"
    using assms(2) by (simp_all add: type_value_def)
  obtain b' where b': "parse b = (None, b')" "map type_value (m_subBlocks b') = delegation_elements d"
    "\<forall>s \<in> set (m_subBlocks b'). fresh s" "m_type b' = tlv_LinkDelegation"
    using parse_fresh [OF assms(1) v(1)] v(2) by metis
  then obtain p m where pm: "m_subBlocks b' = [p, m]" "fresh p" "fresh m"
    "type_value p = (tlv_LinkPreference, nni_bytes (ucast (fst d)))" "type_value m = (tlv_Name, comps_value (snd d))"
    by (auto simp: delegation_elements_def)
  obtain n where n: "Name_ofBlock m = Inr n" "name_of n = snd d" "is_name n"
    using Name_ofBlock_fresh [OF pm(3,5)] assms(3) by (auto simp: good_delegs_def)
  have "Name_size n < 2 ^ 31"
    using assms(3) arg_cong [OF n(2), of length] by (simp add: good_delegs_def name_of_def Name_size_def)
  moreover have "block_readNonNegativeInteger p = Inr (ucast (fst d))"
    using read_element [OF _ pm(4)] pm(2) by (simp add: fresh_def)
  moreover have "Block_get tlv_LinkPreference b' = Inr p" "Block_get tlv_Name b' = Inr m"
    using pm(4,5) Block_get_first [of b' "[]" p "[m]"] Block_get_first [of b' "[p]" m "[]"] pm(1)
    by (simp_all add: type_value_def tlv_codes)
  ultimately show ?thesis using that [of b' p m n] b'(1,4) n by (simp add: parsed_def valid_name_def)
qed

text \<open>The index of the first delegation for a name.\<close>

fun index_of_name :: "byte list list \<Rightarrow> (u32 \<times> comp list) list \<Rightarrow> nat option" where
  "index_of_name vs [] = None"
| "index_of_name vs (d # ds) = (if map comp_value (snd d) = vs then Some 0 else map_option Suc (index_of_name vs ds))"

lemma find_delegation_spec:
  assumes "map type_value bs = delegs_elements es" "\<forall>b \<in> set bs. fresh b" "good_delegs es" "valid_name n"
  shows "find_delegation n k bs = Inr (map_option ((+) k) (index_of_name (values_of n) es))"
  using assms
proof (induction bs arbitrary: es k)
  case Nil
  then show ?case by (auto simp: delegs_elements_def)
next
  case (Cons b bs)
  then obtain e es' where e: "es = e # es'" "type_value b = (tlv_LinkDelegation, elements_bytes (delegation_elements e))"
    "map type_value bs = delegs_elements es'" by (cases es) (auto simp: delegs_elements_def)
  have good: "good_delegs [e]" "good_delegs es'" using Cons.prems(3) e(1) by (simp_all add: good_delegs_def)
  have "fresh b" "\<forall>b \<in> set bs. fresh b" using Cons.prems(2) by simp_all
  obtain b' m x where x: "parsed b = Inr b'" "m_type b' = tlv_LinkDelegation" "Block_get tlv_Name b' = Inr m"
    "Name_ofBlock m = Inr x" "name_of x = snd e" "valid_name x"
    using delegation_on_wire [OF \<open>fresh b\<close> e(2) good(1)] by metis
  have "Name_equals x n = Inr (map comp_value (snd e) = values_of n)"
    using Name_equals_values [of x n] x(5,6) Cons.prems(4) by (simp add: valid_name_def)
  then show ?case
    using x Cons.IH [OF e(3) \<open>\<forall>b \<in> set bs. fresh b\<close> good(2) Cons.prems(4), of "Suc k"] e(1)
    by (auto simp: option.map_comp comp_def)
qed

lemma content_of_wire_spec:
  assumes "fresh w" "type_value w = (t, packet_value p)" "p_content p = elements_bytes (xs)"
  obtains c where "content_of_wire w = Inr c" "map type_value (m_subBlocks c) = xs"
    "\<forall>s \<in> set (m_subBlocks c). fresh s"
proof -
  have v: "value_bytes w = elements_bytes (packet_elements p)" using assms(2) by (simp add: type_value_def packet_value_def)
  obtain b where b: "parse w = (None, b)" "map type_value (m_subBlocks b) = packet_elements p"
    "\<forall>s \<in> set (m_subBlocks b). fresh s" using parse_fresh [OF assms(1) v] by metis
  obtain s where s: "find_element tlv_Content b = Some s" "fresh s" "type_value s = (tlv_Content, p_content p)"
    using find_element_Some [OF b(2) map_of_packet_elements(3) b(3)] .
  have "value_bytes s = elements_bytes (xs)" using s(3) assms(3) by (simp add: type_value_def)
  with s(2) obtain c where "parse s = (None, c)" "map type_value (m_subBlocks c) = xs"
    "\<forall>s \<in> set (m_subBlocks c). fresh s" using parse_fresh by metis
  with that b(1) Block_get_element [OF s(1)] show ?thesis by (simp add: content_of_wire_def parsed_def)
qed

lemma getDelegationFromWire_spec:
  assumes "content_of_wire w = Inr c" "map type_value (m_subBlocks c) = delegs_elements es" "\<forall>s \<in> set (m_subBlocks c). fresh s"
    and "good_delegs es" "i < length es"
  shows "\<exists>x. getDelegationFromWire w i = Inr x \<and> deleg_of x = es ! i \<and> valid_name (snd x)"
proof -
  have len: "length (m_subBlocks c) = length es" using arg_cong [OF assms(2), of length] by (simp add: delegs_elements_def)
  have b: "fresh (m_subBlocks c ! i)"
    "type_value (m_subBlocks c ! i) = (tlv_LinkDelegation, elements_bytes (delegation_elements (es ! i)))"
    using assms(2,3,5) len nth_map [of i "m_subBlocks c" type_value] by (simp_all add: delegs_elements_def)
  have "good_delegs [es ! i]" using assms(4) nth_mem [OF assms(5)] by (auto simp: good_delegs_def)
  from delegation_on_wire [OF b this] obtain b' p m n where x: "parsed (m_subBlocks c ! i) = Inr b'" "m_type b' = tlv_LinkDelegation"
    "Block_get tlv_LinkPreference b' = Inr p" "block_readNonNegativeInteger p = Inr (ucast (fst (es ! i)))"
    "Block_get tlv_Name b' = Inr m" "Name_ofBlock m = Inr n" "name_of n = snd (es ! i)" "valid_name n" .
  then have "getDelegationFromWire w i = Inr (fst (es ! i), n)"
    using assms(1,5) len by (simp add: getDelegationFromWire_def)
  then show ?thesis using x(7,8) by (simp add: deleg_of_def)
qed

lemma findDelegationFromWire_spec:
  assumes "content_of_wire w = Inr c" "map type_value (m_subBlocks c) = delegs_elements es" "\<forall>s \<in> set (m_subBlocks c). fresh s"
    and "good_delegs es" "valid_name n"
  shows "findDelegationFromWire w n = Inr (index_of_name (values_of n) es)"
  using find_delegation_spec [OF assms(2-5), of 0] assms(1)
  by (cases "index_of_name (values_of n) es") (simp_all add: findDelegationFromWire_def)

lemma index_of_name_Some:
  "index_of_name vs es = Some i \<Longrightarrow> i < length es \<and> map comp_value (snd (es ! i)) = vs"
  by (induction es arbitrary: i) (auto split: if_splits)

text \<open>
  The static functions read a link without decoding it: on the wire of a link with delegations \<open>es\<close>,
  \<open>countDelegationsFromWire\<close> is their number, \<open>getDelegationFromWire\<close> is the delegation at the index and
  throws beyond the last one, and \<open>findDelegationFromWire\<close> is the first index with the name, if there is one.
\<close>
theorem Link_queries_on_wire:
  assumes "fresh w" "type_value w = (tlv_Data, packet_value p)" "p_content p = elements_bytes (delegs_elements es)"
    and "good_delegs es" "valid_name n"
  shows "countDelegationsFromWire w = Inr (length es)
    \<and> (i < length es \<longrightarrow> (\<exists>x. getDelegationFromWire w i = Inr x \<and> deleg_of x = es ! i \<and> valid_name (snd x)))
    \<and> (\<not> i < length es \<longrightarrow> getDelegationFromWire w i = Inl (OutOfRange ''vector::at''))
    \<and> findDelegationFromWire w n = Inr (index_of_name (values_of n) es)"
proof -
  obtain c where c: "content_of_wire w = Inr c" "map type_value (m_subBlocks c) = delegs_elements es"
    "\<forall>s \<in> set (m_subBlocks c). fresh s" using content_of_wire_spec [OF assms(1-3)] .
  have "length (m_subBlocks c) = length es" using arg_cong [OF c(2), of length] by (simp add: delegs_elements_def)
  with c(1) getDelegationFromWire_spec [OF c assms(4), of i] findDelegationFromWire_spec [OF c assms(4,5)] show ?thesis
    by (simp add: countDelegationsFromWire_def getDelegationFromWire_def)
qed

theorem Link_queries_on_wire_witness:
  "\<exists>w. fresh w \<and> value_bytes w = packet_value (packet_of (l_data example_link)) \<and> countDelegationsFromWire w = Inr 1
     \<and> (\<exists>x. getDelegationFromWire w 0 = Inr x \<and> deleg_of x = (10, [Comp tlv_NameComponent [66]]))
     \<and> getDelegationFromWire w 1 = Inl (OutOfRange ''vector::at'')
     \<and> findDelegationFromWire w (name1 [66]) = Inr (Some 0) \<and> findDelegationFromWire w (name1 [67]) = Inr None"
proof -
  let ?v = "packet_value (packet_of (l_data example_link))" and ?es = "[(10, [Comp tlv_NameComponent [66]])]"
  have "length (tlv_bytes tlv_Data ?v) < 2 ^ 64" unfolding example_link_bytes by simp
  then obtain w where w: "fresh w" "type_value w = (tlv_Data, ?v)" using fresh_tlv_block [of tlv_Data ?v] by fastforce
  have ok: "p_content (packet_of (l_data example_link)) = elements_bytes (delegs_elements ?es)" "good_delegs ?es"
    "valid_name (name1 [66])" "valid_name (name1 [67])"
    by (simp_all add: example_link_simps(1) good_delegs_def valid_name_def is_comp_def)
  from Link_queries_on_wire [OF w ok(1-3), of 0] Link_queries_on_wire [OF w ok(1,2,4), of 1] w show ?thesis
    by (intro exI [of _ w]) (auto simp: type_value_def)
qed

text \<open>
  Decoding does not start from an empty set: \<open>decodeContent\<close> adds the decoded delegations to those that the object already has, so
  that a link decoded a second time has the delegations of both packets, whose union is not what its content says.
\<close>
lemma Link_decodeContent_accumulates:
  assumes "mi_type (d_metaInfo (l_data l)) = ContentType_Link" "fresh (d_content (l_data l))" "delegs_ok (l_delegations l)"
    and "type_value (d_content (l_data l)) = (tlv_Content, elements_bytes (delegs_elements es))" "good_delegs es"
  shows "\<exists>l'. decodeContent l = (None, l') \<and> delegs_ok (l_delegations l') \<and> link_set l' = link_set l \<union> set es"
proof -
  have v: "value_bytes (d_content (l_data l)) = elements_bytes (delegs_elements es)" using assms(4) by (simp add: type_value_def)
  obtain c where c: "parse (d_content (l_data l)) = (None, c)" "map type_value (m_subBlocks c) = delegs_elements es"
    "\<forall>s \<in> set (m_subBlocks c). fresh s" using parse_fresh [OF assms(2) v] by metis
  obtain bs ds where ds: "decode_delegations (m_subBlocks c) (l_delegations l) = (None, bs, ds)" "delegs_ok ds"
    "set (map deleg_of ds) = link_set l \<union> set es"
    using decode_delegations_spec [OF c(2,3) assms(5,3)] by (auto simp: link_set_def)
  have "tlv_Content \<noteq> 4294967295" by (simp add: tlv_codes)
  from fresh_content [OF assms(2,4) this] ds c(1) assms(1) show ?thesis
    by (simp add: decodeContent_def getContent_eq link_set_def)
qed

end
