(* ===== verification/OrderedMap.thy ===== *)
theory OrderedMap
  imports Prelude
begin

text \<open>
  \<open>std::map<K, V, Compare>\<close> as the library uses it: the list of its pairs in iteration order.
  The comparison object is a parameter \<open>before\<close> (\<open>before a b\<close>: \<open>a\<close> comes first). An iterator is a
  position in the list, \<open>end()\<close> is the length; inserting at a position moves the
  iterators at or behind it by one, because \<open>std::map\<close> keeps iterators valid.
\<close>

type_synonym ('k, 'v) omap = "('k \<times> 'v) list"

definition lower_bound :: "('k \<Rightarrow> 'k \<Rightarrow> bool) \<Rightarrow> 'k \<Rightarrow> ('k, 'v) omap \<Rightarrow> nat" where
  "lower_bound before k m = length (takeWhile (\<lambda>item. before (fst item) k) m)"

text \<open>\<open>insert\<close>: the new map, the position of the key, and whether the pair was inserted.\<close>

definition map_insert ::
    "('k \<Rightarrow> 'k \<Rightarrow> bool) \<Rightarrow> 'k \<Rightarrow> 'v \<Rightarrow> ('k, 'v) omap \<Rightarrow> ('k, 'v) omap \<times> nat \<times> bool" where
  "map_insert before k v m =
     (let i = lower_bound before k m
      in if i < length m \<and> \<not> before k (fst (m ! i)) then (m, i, False)
         else (take i m @ (k, v) # drop i m, i, True))"

text \<open>\<open>m[k] = v\<close>.\<close>

definition map_assign :: "('k \<Rightarrow> 'k \<Rightarrow> bool) \<Rightarrow> 'k \<Rightarrow> 'v \<Rightarrow> ('k, 'v) omap \<Rightarrow> ('k, 'v) omap" where
  "map_assign before k v m =
     (case map_insert before k v m of
        (m', i, inserted) \<Rightarrow> if inserted then m' else m'[i := (fst (m' ! i), v)])"

definition map_erase :: "nat \<Rightarrow> nat \<Rightarrow> ('k, 'v) omap \<Rightarrow> ('k, 'v) omap" where
  "map_erase i j m = take i m @ drop j m"

text \<open>
  A comparison object that orders the valid keys by a rank in a linear order, the greatest
  first (\<open>std::greater\<close>).
\<close>

locale comparator =
  fixes valid :: "'k \<Rightarrow> bool"
    and before :: "'k \<Rightarrow> 'k \<Rightarrow> bool"
    and rank :: "'k \<Rightarrow> 'o :: linorder"
  assumes before_rank: "valid a \<Longrightarrow> valid b \<Longrightarrow> before a b \<longleftrightarrow> rank b < rank a"
begin

definition ordered :: "('k, 'v) omap \<Rightarrow> bool" where
  "ordered m \<longleftrightarrow> sorted_wrt (\<lambda>x y. rank (fst y) < rank (fst x)) m \<and> (\<forall>x \<in> set m. valid (fst x))"

lemma ordered_append:
  "ordered (xs @ ys) \<longleftrightarrow> ordered xs \<and> ordered ys
     \<and> (\<forall>x \<in> set xs. \<forall>y \<in> set ys. rank (fst y) < rank (fst x))"
  by (auto simp: ordered_def sorted_wrt_append)

lemma ordered_Cons:
  "ordered (x # ys) \<longleftrightarrow> valid (fst x) \<and> ordered ys \<and> (\<forall>y \<in> set ys. rank (fst y) < rank (fst x))"
  by (auto simp: ordered_def)

lemma ordered_Nil [simp]: "ordered []"
  by (simp add: ordered_def)

lemma lower_bound_app:
  assumes "ordered (hi @ lo)" "valid k" "\<forall>x \<in> set hi. rank k < rank (fst x)"
    and "\<forall>x \<in> set lo. rank (fst x) \<le> rank k"
  shows "lower_bound before k (hi @ lo) = length hi"
proof -
  have v: "\<forall>x \<in> set (hi @ lo). valid (fst x)" using assms(1) by (simp add: ordered_def)
  have "takeWhile (\<lambda>item. before (fst item) k) (hi @ lo) = hi @ takeWhile (\<lambda>item. before (fst item) k) lo"
    using v assms(2,3) before_rank by (intro takeWhile_append2) auto
  moreover have "takeWhile (\<lambda>item. before (fst item) k) lo = []"
    using v assms(2,4) before_rank by (cases lo) (auto simp: not_less)
  ultimately show ?thesis by (simp add: lower_bound_def)
qed

lemma split_at:
  assumes "ordered m"
  obtains hi lo where "m = hi @ lo" "\<forall>x \<in> set hi. r < rank (fst x)" "\<forall>x \<in> set lo. rank (fst x) \<le> r"
proof
  let ?p = "\<lambda>x. r < rank (fst x)"
  show "m = takeWhile ?p m @ dropWhile ?p m" by simp
  show "\<forall>x \<in> set (takeWhile ?p m). r < rank (fst x)" by (auto dest: set_takeWhileD)
  show "\<forall>x \<in> set (dropWhile ?p m). rank (fst x) \<le> r"
  proof (cases "dropWhile ?p m")
    case (Cons d ds)
    have "\<not> ?p d" using hd_dropWhile [of ?p m] Cons by simp
    moreover have "ordered (d # ds)"
      using assms ordered_append [of "takeWhile ?p m" "dropWhile ?p m"] Cons
      by (metis takeWhile_dropWhile_id)
    ultimately show ?thesis unfolding Cons by (auto simp: ordered_Cons)
  next
    case Nil
    show ?thesis unfolding Nil by simp
  qed
qed

text \<open>What \<open>insert\<close> does, given the keys above and those not above the new one.\<close>

lemma map_insert_new:
  assumes "ordered (hi @ lo)" "valid k" "\<forall>x \<in> set hi. rank k < rank (fst x)"
    and "\<forall>x \<in> set lo. rank (fst x) < rank k"
  shows "map_insert before k v (hi @ lo) = (hi @ (k, v) # lo, length hi, True)"
proof -
  have lb: "lower_bound before k (hi @ lo) = length hi"
    using assms by (intro lower_bound_app) auto
  show ?thesis
  proof (cases lo)
    case (Cons d ds)
    then have "before k (fst d)"
      using assms before_rank by (auto simp: ordered_append ordered_Cons)
    with lb Cons show ?thesis by (simp add: map_insert_def Let_def nth_append)
  qed (use lb in \<open>simp add: map_insert_def Let_def\<close>)
qed

lemma map_insert_old:
  assumes "ordered (hi @ (k', v') # lo)" "valid k" "rank k' = rank k"
  shows "map_insert before k v (hi @ (k', v') # lo) = (hi @ (k', v') # lo, length hi, False)"
proof -
  have lb: "lower_bound before k (hi @ (k', v') # lo) = length hi"
    using assms by (intro lower_bound_app) (auto simp: ordered_append ordered_Cons)
  have "\<not> before k k'" using assms before_rank by (auto simp: ordered_append ordered_Cons)
  then show ?thesis by (simp add: map_insert_def lb Let_def nth_append)
qed

lemma map_insert_cases:
  assumes "ordered (hi @ lo)" "valid k" "\<forall>x \<in> set hi. rank k < rank (fst x)"
    and "\<forall>x \<in> set lo. rank (fst x) \<le> rank k"
  obtains (old) k' v' lo' where "lo = (k', v') # lo'" "rank k' = rank k"
      "map_insert before k v (hi @ lo) = (hi @ lo, length hi, False)"
  | (new) "\<forall>x \<in> set lo. rank (fst x) < rank k"
      "map_insert before k v (hi @ lo) = (hi @ (k, v) # lo, length hi, True)"
proof (cases "\<exists>x \<in> set lo. rank (fst x) = rank k")
  case True
  then obtain k' v' lo' where lo: "lo = (k', v') # lo'"
    by (cases lo) auto
  have below: "\<forall>y \<in> set lo'. rank (fst y) < rank k'"
    using assms(1) unfolding lo by (simp add: ordered_append ordered_Cons)
  have "rank k' \<le> rank k" using assms(4) lo by simp
  with below True have eq: "rank k' = rank k" unfolding lo by fastforce
  show ?thesis using old [OF lo eq] map_insert_old [of hi k' v' lo' k v] assms(1,2) eq lo by simp
next
  case False
  then have "\<forall>x \<in> set lo. rank (fst x) < rank k" using assms(4) by (auto simp: le_less)
  then show ?thesis using new map_insert_new [OF assms(1-3)] by blast
qed

end

end
