(* ===== verification/Exclude.thy ===== *)
theory Exclude
  imports Name OrderedMap
begin

text \<open>
  Exclude filters, after \<open>src/exclude.{hpp,cpp}\<close>.

  The filter is a \<open>std::map\<close> from components to an ANY flag, ordered by \<open>std::greater\<close>: the greatest
  component comes first, and \<open>lower_bound(c)\<close> is the greatest key that does not exceed \<open>c\<close>.
  An entry with the flag set excludes everything from its key up to the next key.
\<close>

record exclude =
  m_exclude :: "(block, bool) omap"
  m_wire :: block

text \<open>\<open>std::greater<name::Component>\<close>.\<close>

definition comp_greater :: "block \<Rightarrow> block \<Rightarrow> bool" where
  "comp_greater a b = (Component_compare a b > 0)"

definition Exclude_default :: exclude where
  "Exclude_default = \<lparr>m_exclude = [], m_wire = Block_default\<rparr>"

definition Exclude_empty :: "exclude \<Rightarrow> bool" where
  "Exclude_empty e = (m_exclude e = [])"

definition Exclude_size :: "exclude \<Rightarrow> nat" where
  "Exclude_size e = length (m_exclude e)"

definition Exclude_clear :: "exclude \<Rightarrow> exclude" where
  "Exclude_clear e = e\<lparr>m_exclude := [], m_wire := Block_reset (m_wire e)\<rparr>"

definition appendExclude :: "exclude \<Rightarrow> block \<Rightarrow> bool \<Rightarrow> exclude" where
  "appendExclude e name any = e\<lparr>m_exclude := map_assign comp_greater name any (m_exclude e)\<rparr>"

section \<open>Exclusion\<close>

definition isExcluded :: "exclude \<Rightarrow> block \<Rightarrow> bool" where
  "isExcluded e c =
     (let lowerBound = lower_bound comp_greater c (m_exclude e)
      in if lowerBound = length (m_exclude e) then False
         else if snd (m_exclude e ! lowerBound) then True
         else Component_equals (fst (m_exclude e ! lowerBound)) c)"

definition excludeOne :: "exclude \<Rightarrow> block \<Rightarrow> exclude" where
  "excludeOne e c =
     (if \<not> isExcluded e c
      then e\<lparr>m_exclude := fst (map_insert comp_greater c False (m_exclude e)),
             m_wire := Block_reset (m_wire e)\<rparr>
      else e)"

text \<open>
  The first half of \<open>excludeRange\<close> and of \<open>excludeAfter\<close>: make sure that the range starting at
  \<open>from\<close> is an ANY range, and return its position.
\<close>

definition open_range :: "block \<Rightarrow> (block, bool) omap \<Rightarrow> (block, bool) omap \<times> nat" where
  "open_range from m =
     (let newFrom = lower_bound comp_greater from m
      in if newFrom = length m \<or> \<not> snd (m ! newFrom)
         then (case map_insert comp_greater from True m of
                 (m, newFrom, inserted) \<Rightarrow>
                   if \<not> inserted then (m[newFrom := (fst (m ! newFrom), True)], newFrom)
                   else (m, newFrom))
         else (m, newFrom))"

definition excludeRange :: "exclude \<Rightarrow> block \<Rightarrow> block \<Rightarrow> exclude result" where
  "excludeRange e from to =
     (if Component_compare from to \<ge> 0
      then Inl (ExcludeError (''Invalid exclude range ['' @ Component_toUri from @ '', '' @
                              Component_toUri to @ ''] '' @
                              ''(for single name exclude use Exclude::excludeOne)''))
      else
        let (m, newFrom) = open_range from (m_exclude e);
            newTo = lower_bound comp_greater to m;
            (m, newFrom, newTo) =
              (if newTo = newFrom \<or> \<not> snd (m ! newTo)
               then (case map_insert comp_greater to False m of
                       (m, newTo, inserted) \<Rightarrow>
                         (m, if inserted \<and> newTo \<le> newFrom then newFrom + 1 else newFrom, newTo + 1))
               else (m, newFrom, newTo))
        in Inr (e\<lparr>m_exclude := map_erase newTo newFrom m, m_wire := Block_reset (m_wire e)\<rparr>))"

definition excludeBefore :: "exclude \<Rightarrow> block \<Rightarrow> exclude result" where
  "excludeBefore e to = excludeRange e Component_default to"

definition excludeAfter :: "exclude \<Rightarrow> block \<Rightarrow> exclude" where
  "excludeAfter e from =
     (let (m, newFrom) = open_range from (m_exclude e);
          m = (if newFrom \<noteq> 0 then map_erase 0 newFrom m else m)
      in e\<lparr>m_exclude := m, m_wire := Block_reset (m_wire e)\<rparr>)"

section \<open>Text and wire\<close>

text \<open>Output of \<open>operator<<\<close>: the pieces are separated by commas.\<close>

definition item_pieces :: "block \<times> bool \<Rightarrow> string list" where
  "item_pieces item =
     (if \<not> Component_empty (fst item) \<or> \<not> snd item then [Component_toUri (fst item)] else []) @
     (if snd item then [''*''] else [])"

fun join_comma :: "string list \<Rightarrow> string" where
  "join_comma [] = ''''"
| "join_comma [p] = p"
| "join_comma (p # ps) = p @ '','' @ join_comma ps"

definition Exclude_toUri :: "exclude \<Rightarrow> string" where
  "Exclude_toUri e = join_comma (concat (map item_pieces (rev (m_exclude e))))"

definition item_steps :: "'e EncodingImpl \<Rightarrow> block \<times> bool \<Rightarrow> 'e step list" where
  "item_steps ops item =
     (if snd item then [\<lambda>_ e. prependEmptyBlock ops tlv_Any e] else []) @
     (if \<not> Component_empty (fst item) \<or> \<not> snd item
      then [\<lambda>_ e. Component_wireEncode_to ops (fst item) e] else [])"

definition Exclude_wireEncode_to ::
    "'e EncodingImpl \<Rightarrow> exclude \<Rightarrow> 'e \<Rightarrow> (nat \<times> 'e) result" where
  "Exclude_wireEncode_to ops x encoder =
     (if m_exclude x = [] then Inl (ExcludeError ''Exclude filter cannot be empty'')
      else Inr (run_steps
        (concat (map (item_steps ops) (m_exclude x)) @
         [\<lambda>totalLength e. op_prependVarNumber ops e (of_nat totalLength),
          \<lambda>_ e. op_prependVarNumber ops e (ucast tlv_Exclude)]) encoder))"

definition Exclude_wireEncode :: "exclude \<Rightarrow> (block \<times> exclude) result" where
  "Exclude_wireEncode x =
     (if hasWire (m_wire x) then Inr (m_wire x, x)
      else bindE (Exclude_wireEncode_to EncodingEstimator x ()) (\<lambda>(estimatedSize, _).
           bindE (Exclude_wireEncode_to EncodingBuffer x (Encoder_new estimatedSize 0)) (\<lambda>(_, buffer).
           bindE (Encoder_block buffer True) (\<lambda>b. Inr (b, x\<lparr>m_wire := b\<rparr>)))))"

text \<open>The loop over the elements; an ANY behind a component is the flag of its entry.\<close>

fun decode_elements :: "block list \<Rightarrow> exclude \<Rightarrow> error option \<times> exclude" where
  "decode_elements [] x = (None, x)"
| "decode_elements (i # is) x =
     (case Component_ofBlock i of
        Inl _ \<Rightarrow> (Some (ExcludeError ''Incorrect format of Exclude filter''), x)
      | Inr excludedComponent \<Rightarrow>
          (case is of
             [] \<Rightarrow> decode_elements [] (appendExclude x excludedComponent False)
           | j # js \<Rightarrow>
               if m_type j = tlv_Any
               then decode_elements js (appendExclude x excludedComponent True)
               else decode_elements (j # js) (appendExclude x excludedComponent False)))"

definition Exclude_wireDecode :: "exclude \<Rightarrow> block \<Rightarrow> error option \<times> exclude" where
  "Exclude_wireDecode x wire =
     (let x = Exclude_clear x
      in if m_type wire \<noteq> tlv_Exclude
         then (Some (TlvError ''Unexpected TLV type when decoding Exclude''), x)
         else case parse wire of
                (Some err, b) \<Rightarrow> (Some err, x\<lparr>m_wire := b\<rparr>)
              | (None, b) \<Rightarrow>
                  (let x = x\<lparr>m_wire := b\<rparr>
                   in case m_subBlocks b of
                        [] \<Rightarrow> (Some (ExcludeError ''Exclude element cannot be empty''), x)
                      | i # is \<Rightarrow>
                          if m_type i = tlv_Any
                          then decode_elements is (appendExclude x Component_default True)
                          else decode_elements (i # is) x))"

definition Exclude_ofBlock :: "block \<Rightarrow> exclude result" where
  "Exclude_ofBlock wire =
     (case Exclude_wireDecode Exclude_default wire of
        (None, x) \<Rightarrow> Inr x
      | (Some err, _) \<Rightarrow> Inl err)"

text \<open>\<open>operator==\<close> encodes both filters, which may fill their wire caches.\<close>

definition Exclude_equal :: "exclude \<Rightarrow> exclude \<Rightarrow> (bool \<times> exclude \<times> exclude) result" where
  "Exclude_equal x other =
     (if Exclude_empty x \<and> Exclude_empty other then Inr (True, x, other)
      else if Exclude_empty x \<or> Exclude_empty other then Inr (False, x, other)
      else bindE (Exclude_wireEncode x) (\<lambda>(w, x).
           bindE (Exclude_wireEncode other) (\<lambda>(w', other).
           bindE (Block_equal w w') (\<lambda>r. Inr (r, x, other)))))"

section \<open>The set of excluded components\<close>

interpretation comp_order: comparator wf_block comp_greater comp_of
  by unfold_locales (auto simp: comp_greater_def Component_compare_order)

abbreviation key_of :: "block \<times> bool \<Rightarrow> comp" where
  "key_of x \<equiv> comp_of (fst x)"

text \<open>A component is covered by the entry with the greatest key that does not exceed it.\<close>

definition covers :: "(block, bool) omap \<Rightarrow> comp \<Rightarrow> bool" where
  "covers m c =
     (case find (\<lambda>x. key_of x \<le> c) m of None \<Rightarrow> False | Some x \<Rightarrow> snd x \<or> key_of x = c)"

lemma covers_Nil [simp]: "covers [] c = False"
  by (simp add: covers_def)

lemma covers_Cons [simp]:
  "covers (x # m) c = (if key_of x \<le> c then snd x \<or> key_of x = c else covers m c)"
  by (simp add: covers_def)

lemma covers_append:
  "covers (hi @ lo) c = (if \<exists>x \<in> set hi. key_of x \<le> c then covers hi c else covers lo c)"
  by (induction hi) auto

text \<open>
  The components that a filter excludes: the key of every entry, and for an entry with an ANY
  everything from its key up to, not including, the next greater key.
\<close>

definition excluded_in :: "(block, bool) omap \<Rightarrow> comp set" where
  "excluded_in m =
     (\<Union>x \<in> set m. if snd x then {c. key_of x \<le> c \<and> (\<forall>y \<in> set m. key_of x < key_of y \<longrightarrow> c < key_of y)}
                  else {key_of x})"

abbreviation excluded :: "exclude \<Rightarrow> comp set" where
  "excluded e \<equiv> excluded_in (m_exclude e)"

lemma covers_excluded:
  assumes "comp_order.ordered m"
  shows "covers m c \<longleftrightarrow> c \<in> excluded_in m"
proof -
  obtain hi lo where m: "m = hi @ lo" "\<forall>x \<in> set hi. c < key_of x" "\<forall>x \<in> set lo. key_of x \<le> c"
    using comp_order.split_at [OF assms] by metis
  have cov: "covers m c = covers lo c"
    using m(2) by (auto simp: m(1) covers_append not_le)
  show ?thesis
  proof (cases lo)
    case Nil
    then have "c \<notin> excluded_in m" using m by (force simp: excluded_in_def split: if_splits)
    then show ?thesis using cov Nil by simp
  next
    case (Cons x lo')
    have lo': "\<forall>y \<in> set lo'. key_of y < key_of x"
      using assms unfolding m(1) Cons by (simp add: comp_order.ordered_append comp_order.ordered_Cons)
    have kx: "key_of x \<le> c" using m(3) Cons by simp
    have next_key: "c < key_of y" if "y \<in> set m" "key_of x < key_of y" for y
      using that lo' m(1,2) Cons by fastforce
    have other: "\<not> (key_of z \<le> c \<and> (\<forall>y \<in> set m. key_of z < key_of y \<longrightarrow> c < key_of y))" "key_of z \<noteq> c"
      if "z \<in> set m" "z \<noteq> x" for z
      using that lo' m(2) kx unfolding m(1) Cons by fastforce+
    have "c \<in> excluded_in m \<longleftrightarrow> snd x \<or> key_of x = c"
    proof
      assume "c \<in> excluded_in m"
      then obtain z where "z \<in> set m"
        "if snd z then key_of z \<le> c \<and> (\<forall>y \<in> set m. key_of z < key_of y \<longrightarrow> c < key_of y) else c = key_of z"
        by (auto simp: excluded_in_def split: if_splits)
      then show "snd x \<or> key_of x = c" using other [of z] by (cases "z = x") (auto split: if_splits)
    next
      have "x \<in> set m" using m(1) Cons by simp
      moreover assume "snd x \<or> key_of x = c"
      ultimately show "c \<in> excluded_in m"
        using kx next_key unfolding excluded_in_def by (intro UN_I [of x]) auto
    qed
    then show ?thesis using cov Cons kx by simp
  qed
qed

definition exclude_inv :: "exclude \<Rightarrow> bool" where
  "exclude_inv e \<longleftrightarrow> comp_order.ordered (m_exclude e) \<and> (\<forall>x \<in> set (m_exclude e). is_component (fst x))"

definition all_generic :: "exclude \<Rightarrow> bool" where
  "all_generic e \<longleftrightarrow> (\<forall>x \<in> set (m_exclude e). isGeneric (fst x))"

text \<open>
  \<open>isExcluded\<close> compares with \<open>==\<close>, which ignores the type of the component: an entry of another
  type may have the same value.
\<close>

definition type_clash :: "exclude \<Rightarrow> block \<Rightarrow> bool" where
  "type_clash e c \<longleftrightarrow>
     (\<exists>x \<in> set (m_exclude e). value_bytes (fst x) = value_bytes c \<and> m_type (fst x) \<noteq> m_type c)"

lemma no_clash_generic: "all_generic e \<Longrightarrow> isGeneric c \<Longrightarrow> \<not> type_clash e c"
  by (auto simp: all_generic_def type_clash_def isGeneric_def)

lemma isExcluded_covers:
  assumes "exclude_inv e" "is_component c" "\<not> type_clash e c"
  shows "isExcluded e c \<longleftrightarrow> covers (m_exclude e) (comp_of c)"
proof -
  have ord: "comp_order.ordered (m_exclude e)" and wfc: "wf_block c"
    using assms by (simp_all add: exclude_inv_def is_component_def)
  obtain hi lo where m: "m_exclude e = hi @ lo" "\<forall>x \<in> set hi. comp_of c < key_of x"
    "\<forall>x \<in> set lo. key_of x \<le> comp_of c"
    using comp_order.split_at [OF ord] by metis
  have lb: "lower_bound comp_greater c (m_exclude e) = length hi"
    using comp_order.lower_bound_app [of hi lo c] ord m wfc by simp
  have hi: "covers (m_exclude e) (comp_of c) = covers lo (comp_of c)"
    using m(2) by (auto simp: m(1) covers_append not_le)
  show ?thesis
  proof (cases lo)
    case Nil
    then show ?thesis using lb hi m(1) by (simp add: isExcluded_def)
  next
    case (Cons x lo')
    have "wf_block (fst x)" "value_bytes (fst x) = value_bytes c \<longrightarrow> m_type (fst x) = m_type c"
      using assms(1,3) m(1) Cons by (auto simp: exclude_inv_def is_component_def type_clash_def)
    then have "Component_equals (fst x) c \<longleftrightarrow> key_of x = comp_of c"
      using wfc Component_equals_value [of "fst x" c] by (auto simp: comp_of_def)
    then show ?thesis using lb hi m(1,3) Cons by (simp add: isExcluded_def nth_append)
  qed
qed

section \<open>What the operations do to the entries\<close>

lemma open_range_spec:
  assumes "comp_order.ordered (hi @ lo)" "wf_block from"
    and "\<forall>x \<in> set hi. comp_of from < key_of x" "\<forall>x \<in> set lo. key_of x \<le> comp_of from"
  obtains k lo' where "open_range from (hi @ lo) = (hi @ (k, True) # lo', length hi)"
    "comp_order.ordered (hi @ (k, True) # lo')" "comp_of k \<le> comp_of from"
    "k \<in> insert from (fst ` set lo)" "set lo' \<subseteq> set lo"
    "\<And>d. comp_of from \<le> d \<Longrightarrow> covers lo d \<Longrightarrow> covers ((k, True) # lo') d"
    "\<And>d. d < comp_of from \<Longrightarrow> covers ((k, True) # lo') d = covers lo d"
    "lo \<noteq> [] \<and> snd (hd lo) \<Longrightarrow> (k, True) # lo' = lo"
proof -
  have lb: "lower_bound comp_greater from (hi @ lo) = length hi"
    using comp_order.lower_bound_app [OF assms] .
  have le: "key_of x \<le> comp_of from" if "x \<in> set lo" for x using assms(4) that by blast
  show ?thesis
  proof (cases "lo \<noteq> [] \<and> snd (hd lo)")
    case True
    then obtain k lo' where lo: "lo = (k, True) # lo'" by (cases lo) auto
    show ?thesis
      by (rule that [of k lo'])
        (use lb lo assms in \<open>auto simp: open_range_def Let_def nth_append\<close>)
  next
    case False
    have ins: "open_range from (hi @ lo) =
        (case map_insert comp_greater from True (hi @ lo) of
           (m, i, inserted) \<Rightarrow> if \<not> inserted then (m[i := (fst (m ! i), True)], i) else (m, i))"
      using lb False by (cases lo) (auto simp: open_range_def Let_def nth_append)
    show ?thesis
    proof (rule comp_order.map_insert_cases [OF assms, of True])
      fix k v lo'
      assume lo: "lo = (k, v) # lo'" "comp_of k = comp_of from"
        and mi: "map_insert comp_greater from True (hi @ lo) = (hi @ lo, length hi, False)"
      have v: "v = False" using False lo by simp
      show ?thesis
        by (rule that [of k lo'])
          (use lo mi ins assms v in \<open>auto simp: comp_order.ordered_append comp_order.ordered_Cons\<close>)
    next
      assume below: "\<forall>x \<in> set lo. key_of x < comp_of from"
        and mi: "map_insert comp_greater from True (hi @ lo) = (hi @ (from, True) # lo, length hi, True)"
      show ?thesis
        by (rule that [of "from" lo])
          (use below mi ins assms False in \<open>auto simp: comp_order.ordered_append comp_order.ordered_Cons\<close>)
    qed
  qed
qed

text \<open>
  The entries after \<open>excludeRange\<close>: those above \<open>to\<close> (\<open>hi\<close>) stay, those in between (\<open>mid\<close>) go, and the
  range is closed by an entry for \<open>to\<close> unless the topmost removed entry had an ANY.
\<close>

lemma excludeRange_entries:
  assumes ord: "comp_order.ordered (hi @ mid @ lo)" and wf: "wf_block from" "wf_block to"
    and lt: "comp_of from < comp_of to"
    and hi: "\<forall>x \<in> set hi. comp_of to < key_of x"
    and mid: "\<forall>x \<in> set mid. key_of x \<le> comp_of to" "\<forall>x \<in> set mid. comp_of from < key_of x"
    and lo: "\<forall>x \<in> set lo. key_of x \<le> comp_of from"
    and e: "m_exclude e = hi @ mid @ lo"
    and op: "open_range from ((hi @ mid) @ lo) = ((hi @ mid) @ (k, True) # lo', length (hi @ mid))"
      "comp_order.ordered ((hi @ mid) @ (k, True) # lo')" "comp_of k \<le> comp_of from"
  obtains to' where "comp_of to' = comp_of to" "to' \<in> insert to (fst ` set mid)"
    "excludeRange e from to = Inr (e\<lparr>m_exclude := hi @
       (if mid \<noteq> [] \<and> snd (hd mid) then [] else [(to', False)]) @ (k, True) # lo',
       m_wire := Block_reset (exclude.m_wire e)\<rparr>)"
proof -
  let ?m = "hi @ mid @ (k, True) # lo'"
  have cmp: "\<not> Component_compare from to \<ge> 0" using wf lt by (simp add: Component_compare_order)
  have below: "\<forall>x \<in> set (mid @ (k, True) # lo'). key_of x \<le> comp_of to"
    using mid op(2,3) lt by (auto simp: comp_order.ordered_append comp_order.ordered_Cons)
  have ord': "comp_order.ordered (hi @ mid @ (k, True) # lo')" using op(2) by simp
  have lb: "lower_bound comp_greater to ?m = length hi"
    using comp_order.lower_bound_app [OF ord' wf(2) hi below] .
  have red: "excludeRange e from to =
      (case (if length hi = length hi + length mid \<or> \<not> snd (?m ! length hi)
             then (case map_insert comp_greater to False ?m of
                     (m, newTo, inserted) \<Rightarrow>
                       (m, if inserted \<and> newTo \<le> length hi + length mid then length hi + length mid + 1
                           else length hi + length mid, newTo + 1))
             else (?m, length hi + length mid, length hi)) of
         (m, newFrom, newTo) \<Rightarrow>
           Inr (e\<lparr>m_exclude := map_erase newTo newFrom m, m_wire := Block_reset (exclude.m_wire e)\<rparr>))"
    using cmp op(1) lb by (simp add: excludeRange_def e Let_def)
  show ?thesis
  proof (cases "mid \<noteq> [] \<and> snd (hd mid)")
    case True
    then obtain y mid' where "mid = (y, True) # mid'" by (cases mid) auto
    then show ?thesis
      by (intro that [of to]) (simp_all add: red map_erase_def nth_append)
  next
    case False
    then have ins: "length hi = length (hi @ mid) \<or> \<not> snd (?m ! length hi)"
      by (cases mid) (simp_all add: nth_append)
    show ?thesis
    proof (rule comp_order.map_insert_cases [OF ord' wf(2) hi below, of False])
      fix k' v' rest
      assume r: "mid @ (k, True) # lo' = (k', v') # rest" "comp_of k' = comp_of to"
        and mi: "map_insert comp_greater to False ?m = (?m, length hi, False)"
      have "mid \<noteq> []" using r op(3) lt by auto
      then obtain mid' where "mid = (k', False) # mid'" using r(1) False by (cases mid) auto
      with mi ins r(2) show ?thesis
        by (intro that [of k']) (simp_all add: red map_erase_def nth_append)
    next
      assume mi: "map_insert comp_greater to False ?m
          = (hi @ (to, False) # mid @ (k, True) # lo', length hi, True)"
      then show ?thesis
        using ins False by (intro that [of to]) (auto simp: red map_erase_def)
    qed
  qed
qed

lemma covers_skip: "\<forall>x \<in> set hi. d < key_of x \<Longrightarrow> covers (hi @ lo) d = covers lo d"
  by (induction hi) auto

lemma covers_above: "\<forall>x \<in> set m. key_of x < d \<Longrightarrow> covers m d \<longleftrightarrow> m \<noteq> [] \<and> snd (hd m)"
  by (cases m) auto

lemma covers_range:
  assumes lt: "comp_of from < comp_of to"
    and mid: "\<forall>x \<in> set mid. key_of x \<le> comp_of to" "\<forall>x \<in> set mid. comp_of from < key_of x"
    and lo: "\<forall>x \<in> set lo. key_of x \<le> comp_of from"
    and k: "comp_of k \<le> comp_of from" "comp_of to' = comp_of to"
      "\<And>d. d < comp_of from \<Longrightarrow> covers ((k, True) # lo') d = covers lo d"
    and nb: "mid \<noteq> [] \<or> lo = [] \<or> \<not> snd (hd lo)"
  shows "covers (hi @ (if mid \<noteq> [] \<and> snd (hd mid) then [] else [(to', False)]) @ (k, True) # lo') d
    \<longleftrightarrow> covers (hi @ mid @ lo) d \<or> (if \<exists>x \<in> set hi. key_of x \<le> d then False else comp_of from \<le> d \<and> d \<le> comp_of to)"
proof (cases "\<exists>x \<in> set hi. key_of x \<le> d")
  case False
  have kd: "comp_of k \<le> d" if "comp_of from \<le> d" using that k(1) by order
  consider "d < comp_of from" | "comp_of from \<le> d" "d \<le> comp_of to" | "comp_of to < d" by fastforce
  then show ?thesis
  proof cases
    case 1
    then have "\<not> (\<exists>x \<in> set mid. key_of x \<le> d)" "\<not> comp_of to \<le> d" using mid(2) lt by fastforce+
    then show ?thesis using False k 1 by (auto simp: covers_append)
  next
    case 2
    then show ?thesis using False k kd lt by (auto simp: covers_append)
  next
    case 3
    have lod: "covers lo d \<longleftrightarrow> lo \<noteq> [] \<and> snd (hd lo)"
      using 3 lo lt by (intro covers_above) fastforce
    have "covers (mid @ lo) d \<longleftrightarrow> mid @ lo \<noteq> [] \<and> snd (hd (mid @ lo))"
      using 3 mid(1) lo lt by (intro covers_above) fastforce
    then have old: "covers (hi @ mid @ lo) d \<longleftrightarrow> mid \<noteq> [] \<and> snd (hd mid)"
      using False nb by (cases mid) (auto simp: covers_append [of hi])
    have "comp_of k \<le> d" "comp_of to' \<le> d" "comp_of to' \<noteq> d" "\<not> d \<le> comp_of to"
      using kd lt 3 k(2) by auto
    then show ?thesis using False unfolding old by (simp add: covers_append [of hi])
  qed
qed (simp add: covers_append)

text \<open>
  Whether the whole range lies strictly inside one ANY entry: no key in \<open>(from, to]\<close>, and the greatest
  key not above \<open>from\<close> has the flag.
\<close>

definition inside_any :: "exclude \<Rightarrow> block \<Rightarrow> block \<Rightarrow> bool" where
  "inside_any e from to =
     (let i = lower_bound comp_greater from (m_exclude e)
      in i < length (m_exclude e) \<and> snd (m_exclude e ! i) \<and> lower_bound comp_greater to (m_exclude e) = i)"

lemma excludeRange_full:
  assumes inv: "exclude_inv e" and c: "is_component from" "is_component to"
    and lt: "comp_of from < comp_of to"
  obtains e' where "excludeRange e from to = Inr e'" "exclude_inv e'"
    "fst ` set (m_exclude e') \<subseteq> insert from (insert to (fst ` set (m_exclude e)))"
    "\<not> inside_any e from to \<Longrightarrow>
       \<forall>d. covers (m_exclude e') d \<longleftrightarrow> covers (m_exclude e) d \<or> comp_of from \<le> d \<and> d \<le> comp_of to"
    "\<not> hasWire (exclude.m_wire e')"
proof -
  have ord: "comp_order.ordered (m_exclude e)" and wf: "wf_block from" "wf_block to"
    using inv c by (simp_all add: exclude_inv_def is_component_def)
  obtain hm lo where m: "m_exclude e = hm @ lo" "\<forall>x \<in> set hm. comp_of from < key_of x"
    and lo: "\<forall>x \<in> set lo. key_of x \<le> comp_of from"
    using comp_order.split_at [OF ord] by metis
  have "comp_order.ordered hm" using ord m(1) by (simp add: comp_order.ordered_append)
  then obtain hi mid where hm: "hm = hi @ mid" and hi: "\<forall>x \<in> set hi. comp_of to < key_of x"
    and mid: "\<forall>x \<in> set mid. key_of x \<le> comp_of to"
    using comp_order.split_at by metis
  have e: "m_exclude e = hi @ mid @ lo" using m(1) hm by simp
  have midf: "\<forall>x \<in> set mid. comp_of from < key_of x" using m(2) hm by simp
  have ord2: "comp_order.ordered ((hi @ mid) @ lo)" using ord e by simp
  have hmf: "\<forall>x \<in> set (hi @ mid). comp_of from < key_of x" using m(2) hm by simp
  obtain k lo' where k: "open_range from ((hi @ mid) @ lo) = ((hi @ mid) @ (k, True) # lo', length (hi @ mid))"
    "comp_order.ordered ((hi @ mid) @ (k, True) # lo')" "comp_of k \<le> comp_of from"
    "k \<in> insert from (fst ` set lo)" "set lo' \<subseteq> set lo"
    "\<And>d. d < comp_of from \<Longrightarrow> covers ((k, True) # lo') d = covers lo d"
    using open_range_spec [OF ord2 wf(1) hmf lo] by metis
  obtain to' where t: "comp_of to' = comp_of to" "to' \<in> insert to (fst ` set mid)"
    "excludeRange e from to = Inr (e\<lparr>m_exclude := hi @
       (if mid \<noteq> [] \<and> snd (hd mid) then [] else [(to', False)]) @ (k, True) # lo',
       m_wire := Block_reset (exclude.m_wire e)\<rparr>)"
    using excludeRange_entries [OF ord2 [simplified] wf lt hi mid midf lo e k(1-3)] by metis
  let ?m = "hi @ (if mid \<noteq> [] \<and> snd (hd mid) then [] else [(to', False)]) @ (k, True) # lo'"
  let ?e = "e\<lparr>m_exclude := ?m, m_wire := Block_reset (exclude.m_wire e)\<rparr>"
  have comps: "\<forall>x \<in> set (m_exclude e). is_component (fst x)" using inv by (simp add: exclude_inv_def)
  have to': "is_component to'" using t(2) c(2) comps e by auto
  have kc: "is_component k" using k(4) c(1) comps e by auto
  have ordk: "comp_order.ordered (hi @ (k, True) # lo')"
    using k(2) by (auto simp: comp_order.ordered_append comp_order.ordered_Cons)
  have "comp_order.ordered ?m"
    using ordk t(1) to' hi k(3) lt
    by (auto simp: comp_order.ordered_append comp_order.ordered_Cons is_component_def)
  then have inv': "exclude_inv ?e"
    using comps to' kc k(5) e by (auto simp: exclude_inv_def)
  have keys: "fst ` set (m_exclude ?e) \<subseteq> insert from (insert to (fst ` set (m_exclude e)))"
    using t(2) k(4,5) e by auto
  have "\<forall>x \<in> set (mid @ lo). key_of x \<le> comp_of to" using mid lo lt by fastforce
  then have lbs: "lower_bound comp_greater from (m_exclude e) = length (hi @ mid)"
    "lower_bound comp_greater to (m_exclude e) = length hi"
    using comp_order.lower_bound_app [OF ord2 wf(1) hmf lo] e
      comp_order.lower_bound_app [of hi "mid @ lo" to] ord e wf(2) hi by simp_all
  have "\<forall>d. covers ?m d \<longleftrightarrow> covers (m_exclude e) d \<or> comp_of from \<le> d \<and> d \<le> comp_of to"
    if "\<not> inside_any e from to"
  proof -
    have nb: "mid \<noteq> [] \<or> lo = [] \<or> \<not> snd (hd lo)"
      using that lbs e by (cases lo) (auto simp: inside_any_def)
    show ?thesis
      using covers_range [OF lt mid midf lo k(3) t(1) k(6) nb, of hi] hi unfolding e
      by (metis (no_types, lifting) leD le_less_trans)
  qed
  with t(3) inv' keys show ?thesis
    by (intro that [of ?e]) (simp_all add: Block_reset_def hasWire_def)
qed

lemma excludeAfter_full:
  assumes inv: "exclude_inv e" and c: "is_component from"
  shows "exclude_inv (excludeAfter e from)
    \<and> fst ` set (m_exclude (excludeAfter e from)) \<subseteq> insert from (fst ` set (m_exclude e))
    \<and> (\<forall>d. covers (m_exclude (excludeAfter e from)) d \<longleftrightarrow> covers (m_exclude e) d \<or> comp_of from \<le> d)"
proof -
  have ord: "comp_order.ordered (m_exclude e)" and wf: "wf_block from"
    using inv c by (simp_all add: exclude_inv_def is_component_def)
  obtain hi lo where m: "m_exclude e = hi @ lo" and hi: "\<forall>x \<in> set hi. comp_of from < key_of x"
    and lo: "\<forall>x \<in> set lo. key_of x \<le> comp_of from"
    using comp_order.split_at [OF ord] by metis
  obtain k lo' where k: "open_range from (hi @ lo) = (hi @ (k, True) # lo', length hi)"
    "comp_order.ordered (hi @ (k, True) # lo')" "comp_of k \<le> comp_of from"
    "k \<in> insert from (fst ` set lo)" "set lo' \<subseteq> set lo"
    "\<And>d. d < comp_of from \<Longrightarrow> covers ((k, True) # lo') d = covers lo d"
    using open_range_spec [OF ord [unfolded m] wf hi lo] by metis
  have ea: "m_exclude (excludeAfter e from) = (k, True) # lo'"
    using k(1) m by (simp add: excludeAfter_def Let_def map_erase_def)
  have "covers ((k, True) # lo') d \<longleftrightarrow> covers (m_exclude e) d \<or> comp_of from \<le> d" for d
  proof (cases "comp_of from \<le> d")
    case True
    then have "comp_of k \<le> d" using k(3) by order
    with True show ?thesis by simp
  next
    case False
    then have "\<forall>x \<in> set hi. d < key_of x" using hi by fastforce
    then have "covers (m_exclude e) d = covers lo d" unfolding m by (rule covers_skip)
    moreover have "covers ((k, True) # lo') d = covers lo d" using k(6) False not_le by blast
    ultimately show ?thesis using False by blast
  qed
  moreover have "\<forall>x \<in> set ((k, True) # lo'). is_component (fst x)"
    using inv c k(4,5) m by (auto simp: exclude_inv_def)
  ultimately show ?thesis
    using k(2,4,5) m unfolding exclude_inv_def ea
    by (auto simp: comp_order.ordered_append comp_order.ordered_Cons)
qed

lemma excludeOne_full:
  assumes inv: "exclude_inv e" and c: "is_component c" "\<not> type_clash e c"
  shows "exclude_inv (excludeOne e c)
    \<and> fst ` set (m_exclude (excludeOne e c)) \<subseteq> insert c (fst ` set (m_exclude e))
    \<and> (\<forall>d. covers (m_exclude (excludeOne e c)) d \<longleftrightarrow> covers (m_exclude e) d \<or> d = comp_of c)"
proof (cases "isExcluded e c")
  case True
  then show ?thesis
    using inv isExcluded_covers [OF inv c] by (auto simp: excludeOne_def)
next
  case False
  have ord: "comp_order.ordered (m_exclude e)" and wf: "wf_block c"
    using inv c by (simp_all add: exclude_inv_def is_component_def)
  obtain hi lo where m: "m_exclude e = hi @ lo" and hi: "\<forall>x \<in> set hi. comp_of c < key_of x"
    and lo: "\<forall>x \<in> set lo. key_of x \<le> comp_of c"
    using comp_order.split_at [OF ord] by metis
  have "\<not> covers lo (comp_of c)"
    using False isExcluded_covers [OF inv c] covers_skip [OF hi] by (simp add: m)
  then have nx: "lo = [] \<or> \<not> snd (hd lo)" and lt: "\<forall>x \<in> set lo. key_of x < comp_of c"
  proof -
    assume n: "\<not> covers lo (comp_of c)"
    show "lo = [] \<or> \<not> snd (hd lo)" using n lo by (cases lo) auto
    have "comp_order.ordered lo" using ord m by (simp add: comp_order.ordered_append)
    then show "\<forall>x \<in> set lo. key_of x < comp_of c"
      using n lo by (cases lo) (auto simp: comp_order.ordered_Cons)
  qed
  have new: "m_exclude (excludeOne e c) = hi @ (c, False) # lo"
    using False comp_order.map_insert_new [OF ord [unfolded m] wf hi lt] m by (simp add: excludeOne_def)
  have "covers (hi @ (c, False) # lo) d \<longleftrightarrow> covers (hi @ lo) d \<or> d = comp_of c" for d
  proof (cases "comp_of c < d")
    case True
    then have "\<not> covers lo d"
      using lt nx covers_above [of lo d] by fastforce
    with True show ?thesis by (auto simp: covers_append)
  next
    case False
    then show ?thesis using hi by (force simp: covers_append)
  qed
  moreover have "exclude_inv (excludeOne e c)"
    using inv c wf hi lt unfolding exclude_inv_def new m
    by (auto simp: comp_order.ordered_append comp_order.ordered_Cons)
  ultimately show ?thesis using new m by auto
qed

section \<open>Properties\<close>

text \<open>
  C29. A filter denotes a set of components, \<open>excluded\<close>: the keys of its entries and, for an
  entry with an ANY, everything from its key up to the next key. \<open>isExcluded\<close> decides membership in
  it. \<open>excludeOne\<close> adds exactly the component, \<open>excludeAfter\<close> exactly the components from the
  given one on, and \<open>excludeRange\<close> with \<open>from < to\<close> exactly the closed interval, provided that the
  interval does not lie inside one ANY range; \<open>excludeBefore\<close> adds the components from the empty
  generic one up to the given one, under the same condition. \<open>excludeRange\<close> throws when
  \<open>from >= to\<close>; \<open>clear\<close> empties the set. All of them keep the map ordered. \<open>isExcluded\<close> and
  \<open>excludeOne\<close> are restricted to components whose value is not that of an entry of the other
  component type, because \<open>==\<close> does not compare types.
\<close>
theorem Exclude_operations_effect:
  assumes "exclude_inv e"
  shows "(\<forall>d. is_component d \<and> \<not> type_clash e d \<longrightarrow> (isExcluded e d \<longleftrightarrow> comp_of d \<in> excluded e))
    \<and> (\<forall>c. is_component c \<and> \<not> type_clash e c \<longrightarrow>
         exclude_inv (excludeOne e c) \<and> excluded (excludeOne e c) = insert (comp_of c) (excluded e))
    \<and> (\<forall>from. is_component from \<longrightarrow>
         exclude_inv (excludeAfter e from)
         \<and> excluded (excludeAfter e from) = excluded e \<union> {comp_of from ..})
    \<and> (\<forall>from to. is_component from \<and> is_component to \<and> comp_of from < comp_of to
         \<and> \<not> inside_any e from to \<longrightarrow>
         (\<exists>e'. excludeRange e from to = Inr e' \<and> exclude_inv e'
            \<and> excluded e' = excluded e \<union> {comp_of from .. comp_of to}))
    \<and> (\<forall>to. is_component to \<and> Comp tlv_NameComponent [] < comp_of to
         \<and> \<not> inside_any e Component_default to \<longrightarrow>
         (\<exists>e'. excludeBefore e to = Inr e' \<and> exclude_inv e'
            \<and> excluded e' = excluded e \<union> {Comp tlv_NameComponent [] .. comp_of to}))
    \<and> (\<forall>from to. is_component from \<and> is_component to \<and> comp_of to \<le> comp_of from \<longrightarrow>
         (\<exists>what. excludeRange e from to = Inl (ExcludeError what)))
    \<and> exclude_inv (Exclude_clear e) \<and> excluded (Exclude_clear e) = {}"
proof -
  have ord: "comp_order.ordered (m_exclude x)" if "exclude_inv x" for x
    using that by (simp add: exclude_inv_def)
  have set: "excluded x = {d. covers (m_exclude x) d}" if "exclude_inv x" for x
    using covers_excluded [OF ord [OF that]] by blast
  have range: "\<exists>e'. excludeRange e from to = Inr e' \<and> exclude_inv e'
      \<and> excluded e' = excluded e \<union> {comp_of from .. comp_of to}"
    if r: "is_component from" "is_component to" "comp_of from < comp_of to" "\<not> inside_any e from to" for "from" to
  proof -
    obtain e' where "excludeRange e from to = Inr e'" "exclude_inv e'"
      "\<forall>d. covers (m_exclude e') d \<longleftrightarrow> covers (m_exclude e) d \<or> comp_of from \<le> d \<and> d \<le> comp_of to"
      using excludeRange_full [OF assms r(1-3)] r(4) by metis
    then show ?thesis using set [OF assms] set [of e'] by auto
  qed
  have default: "is_component Component_default" "comp_of Component_default = Comp tlv_NameComponent []"
    using wf_ofType [of tlv_NameComponent]
    by (simp_all add: Component_default_def comp_of_def Block_ofType_def block_defs is_component_def isGeneric_def)
  have throws: "\<exists>what. excludeRange e from to = Inl (ExcludeError what)"
    if "is_component from" "is_component to" "comp_of to \<le> comp_of from" for "from" to
    using that Component_compare_order [of "from" to]
    by (auto simp: excludeRange_def is_component_def)
  have member: "isExcluded e d \<longleftrightarrow> comp_of d \<in> excluded e" if "is_component d" "\<not> type_clash e d" for d
    using isExcluded_covers [OF assms that] set [OF assms] by simp
  have one: "exclude_inv (excludeOne e c)" "excluded (excludeOne e c) = insert (comp_of c) (excluded e)"
    if "is_component c" "\<not> type_clash e c" for c
    using excludeOne_full [OF assms that] set [OF assms] set [of "excludeOne e c"] by auto
  have after: "exclude_inv (excludeAfter e from)"
    "excluded (excludeAfter e from) = excluded e \<union> {comp_of from ..}"
    if "is_component from" for "from"
    using excludeAfter_full [OF assms that] set [OF assms] set [of "excludeAfter e from"] by auto
  have clear: "exclude_inv (Exclude_clear e)" "excluded (Exclude_clear e) = {}"
    by (simp_all add: exclude_inv_def Exclude_clear_def excluded_in_def)
  show ?thesis
    by (intro conjI allI impI; (elim conjE)?;
        rule member one after throws clear range [OF default(1), folded excludeBefore_def, unfolded default(2)] range;
        assumption)
qed

text \<open>A filter that excludes everything from the component \<open>A\<close> on.\<close>

definition exclude_A :: exclude where
  "exclude_A = excludeAfter Exclude_default (tlv_block tlv_NameComponent [65])"

lemma exclude_A_eq:
  "exclude_A = \<lparr>m_exclude = [(tlv_block tlv_NameComponent [65], True)], m_wire = Block_reset Block_default\<rparr>"
  by (simp add: exclude_A_def excludeAfter_def Exclude_default_def open_range_def lower_bound_def
      map_insert_def)

lemma exclude_inv_A: "exclude_inv exclude_A" "all_generic exclude_A"
  by (simp_all add: exclude_inv_def all_generic_def exclude_A_eq comp_order.ordered_Cons isGeneric_def)

theorem Exclude_operations_effect_witness:
  "\<not> isExcluded (excludeOne Exclude_default (tlv_block tlv_NameComponent [65]))
       (tlv_block tlv_NameComponent [66])
   \<and> (\<exists>e'. excludeRange Exclude_default (tlv_block tlv_NameComponent [65]) (tlv_block tlv_NameComponent [67])
             = Inr e' \<and> Comp tlv_NameComponent [66] \<in> excluded e')"
proof -
  let ?a = "tlv_block tlv_NameComponent [65]" and ?b = "tlv_block tlv_NameComponent [66]"
  let ?c = "tlv_block tlv_NameComponent [67]"
  have inv: "exclude_inv Exclude_default"
    by (simp add: exclude_inv_def Exclude_default_def)
  have comps: "is_component ?a" "is_component ?b" "is_component ?c"
    by (simp_all add: is_component_def isGeneric_def)
  have ord: "comp_of ?a < comp_of ?b" "comp_of ?b < comp_of ?c" "comp_of ?b = Comp tlv_NameComponent [66]"
    by (simp_all add: comp_of_def less_comp_def comp_key_def be_decode_Cons)
  have clash: "\<not> type_clash Exclude_default ?a" "\<not> inside_any Exclude_default ?a ?c"
    by (simp_all add: type_clash_def Exclude_default_def inside_any_def)
  have none: "excluded Exclude_default = {}" by (simp add: Exclude_default_def excluded_in_def)
  have one: "exclude_inv (excludeOne Exclude_default ?a)" "excluded (excludeOne Exclude_default ?a) = {comp_of ?a}"
    using Exclude_operations_effect [OF inv] comps(1) clash(1) none by auto
  have "\<not> type_clash (excludeOne Exclude_default ?a) ?b"
    using excludeOne_full [OF inv comps(1) clash(1)] by (auto simp: type_clash_def Exclude_default_def)
  then have "isExcluded (excludeOne Exclude_default ?a) ?b \<longleftrightarrow> comp_of ?b \<in> excluded (excludeOne Exclude_default ?a)"
    using conjunct1 [OF Exclude_operations_effect [OF one(1)]] comps(2) by blast
  then have "\<not> isExcluded (excludeOne Exclude_default ?a) ?b" using one(2) ord(1) by simp
  moreover from Exclude_operations_effect [OF inv]
  have range: "\<forall>from to. is_component from \<and> is_component to \<and> comp_of from < comp_of to
         \<and> \<not> inside_any Exclude_default from to \<longrightarrow>
         (\<exists>e'. excludeRange Exclude_default from to = Inr e' \<and> exclude_inv e'
            \<and> excluded e' = excluded Exclude_default \<union> {comp_of from .. comp_of to})"
    by (elim conjE)
  moreover have "is_component ?a \<and> is_component ?c \<and> comp_of ?a < comp_of ?c \<and> \<not> inside_any Exclude_default ?a ?c"
    using comps(1,3) clash(2) order.strict_trans [OF ord(1,2)] by blast
  then obtain e' where "excludeRange Exclude_default ?a ?c = Inr e'" "excluded e' = {} \<union> {comp_of ?a .. comp_of ?c}"
    using range unfolding none by blast
  ultimately show ?thesis using ord by auto
qed

text \<open>
  Excluding a range that already lies inside an ANY range un-excludes components: after
  \<open>excludeAfter(A)\<close> the component \<open>Z\<close> is excluded, after a further \<open>excludeRange(B, C)\<close> it is not.
\<close>
theorem excludeRange_unexcludes:
  "\<exists>e'. excludeRange exclude_A (tlv_block tlv_NameComponent [66]) (tlv_block tlv_NameComponent [67]) = Inr e'
     \<and> isExcluded exclude_A (tlv_block tlv_NameComponent [90])
     \<and> \<not> isExcluded e' (tlv_block tlv_NameComponent [90])"
proof -
  have cmp: "Component_compare (tlv_block tlv_NameComponent [x]) (tlv_block tlv_NameComponent [y])
      = (if x < y then -1 else if x > y then 1 else 0)" for x y
    by (simp add: Component_compare_def)
  show ?thesis
    by (simp add: exclude_A_eq excludeRange_def isExcluded_def open_range_def lower_bound_def
        map_insert_def comp_greater_def cmp map_erase_def Component_equals_def)
qed

text \<open>
  \<open>excludeRange\<close> throws exactly when \<open>from >= to\<close> in the canonical order. As a consequence
  \<open>excludeBefore\<close> throws for every implicit digest component, which sorts before the
  default component that it uses as the lower end.
\<close>
theorem excludeRange_errors:
  assumes "wf_block from" "wf_block to" "is_component d" "isImplicitSha256Digest d"
  shows "((\<exists>err. excludeRange e from to = Inl err) \<longleftrightarrow> comp_of to \<le> comp_of from)
    \<and> (\<exists>what. excludeBefore e d = Inl (ExcludeError what))"
proof -
  have "(\<exists>err. excludeRange e from to = Inl err) \<longleftrightarrow> comp_of to \<le> comp_of from"
    using assms(1,2)
    by (auto simp: excludeRange_def Let_def Component_compare_order split_beta not_less)
  moreover have wf: "wf_block Component_default" by (simp add: Component_default_def)
  moreover have "Component_compare Component_default d \<ge> 0"
  proof -
    have "m_type d < m_type Component_default"
      using assms(4) by (simp add: isImplicitSha256Digest_def Component_default_def Block_ofType_def tlv_codes)
    then show ?thesis by (simp add: Component_compare_def)
  qed
  ultimately show ?thesis by (simp add: excludeBefore_def excludeRange_def)
qed

theorem excludeRange_errors_witness:
  "\<exists>what. excludeBefore Exclude_default
     (tlv_block tlv_ImplicitSha256DigestComponent (replicate SHA256_DIGEST_SIZE 0))
       = Inl (ExcludeError what)"
proof -
  let ?d = "tlv_block tlv_ImplicitSha256DigestComponent (replicate SHA256_DIGEST_SIZE 0)"
  have "is_component ?d" "isImplicitSha256Digest ?d"
    by (simp_all add: is_component_def isImplicitSha256Digest_def)
  then show ?thesis using excludeRange_errors [of ?d ?d ?d Exclude_default] by simp
qed

section \<open>Wire round trip\<close>

definition item_bytes :: "block \<times> bool \<Rightarrow> byte list" where
  "item_bytes item =
     (if \<not> Component_empty (fst item) \<or> \<not> snd item
      then tlv_bytes (m_type (fst item)) (value_bytes (fst item)) else []) @
     (if snd item then tlv_bytes tlv_Any [] else [])"

definition exclude_value :: "exclude \<Rightarrow> byte list" where
  "exclude_value e = concat (map item_bytes (rev (m_exclude e)))"

definition item_emits :: "block \<times> bool \<Rightarrow> (nat \<Rightarrow> byte list) list" where
  "item_emits item =
     (if snd item then [\<lambda>_. tlv_bytes tlv_Any []] else []) @
     (if \<not> Component_empty (fst item) \<or> \<not> snd item
      then [\<lambda>_. tlv_bytes (m_type (fst item)) (value_bytes (fst item))] else [])"

lemma fold_item_emits:
  "fold (\<lambda>g bs. g (length bs) @ bs) (concat (map item_emits m)) acc
     = concat (map item_bytes (rev m)) @ acc"
  by (induction m arbitrary: acc) (simp_all add: item_emits_def item_bytes_def)

lemma list_all2_concat_map:
  "\<forall>x \<in> set xs. list_all2 R (f x) (g x) \<Longrightarrow> list_all2 R (concat (map f xs)) (concat (map g xs))"
  by (induction xs) (simp_all add: list_all2_appendI)

context encoding_impl
begin

lemma Exclude_wireEncode_to_emits:
  assumes "exclude_inv e" "m_exclude e \<noteq> []"
  shows "\<exists>f. (\<forall>enc. Exclude_wireEncode_to ops e enc = Inr (f enc))
           \<and> emitter emits f (tlv_bytes tlv_Exclude (exclude_value e))"
proof -
  have "\<forall>x \<in> set (m_exclude e). list_all2 (\<lambda>f g. \<forall>t. emitter emits (f t) (g t)) (item_steps ops x) (item_emits x)"
  proof
    fix x assume "x \<in> set (m_exclude e)"
    then have "wf_block (fst x)" using assms(1) by (auto simp: exclude_inv_def is_component_def)
    then show "list_all2 (\<lambda>f g. \<forall>t. emitter emits (f t) (g t)) (item_steps ops x) (item_emits x)"
      using Component_wireEncode_to_emits [of "fst x"] prependEmptyBlock_emits [of tlv_Any]
      by (simp add: item_steps_def item_emits_def)
  qed
  then have "list_all2 (\<lambda>f g. \<forall>t. emitter emits (f t) (g t))
      (concat (map (item_steps ops) (m_exclude e)) @
         [\<lambda>totalLength e. op_prependVarNumber ops e (of_nat totalLength),
          \<lambda>_ e. op_prependVarNumber ops e (ucast tlv_Exclude)])
      (concat (map item_emits (m_exclude e)) @
         [\<lambda>n. varNumber_bytes (of_nat n), \<lambda>_. varNumber_bytes (ucast tlv_Exclude)])"
    by (intro list_all2_appendI list_all2_concat_map) (simp_all add: emitter_intros)
  from run_steps_emits [OF this] show ?thesis
    using assms(2) fold_item_emits [of "m_exclude e" "[]"]
    by (auto simp: Exclude_wireEncode_to_def steps_bytes_def tlv_bytes_def exclude_value_def)
qed

end

lemma Exclude_wireEncode_new:
  assumes "exclude_inv e" "m_exclude e \<noteq> []" "\<not> hasWire (exclude.m_wire e)"
  shows "Exclude_wireEncode e = Inr (tlv_block tlv_Exclude (exclude_value e),
           e\<lparr>m_wire := tlv_block tlv_Exclude (exclude_value e)\<rparr>)"
proof -
  obtain f where f: "\<And>enc. Exclude_wireEncode_to EncodingBuffer e enc = Inr (f enc)"
    "emitter enc_emits f (tlv_bytes tlv_Exclude (exclude_value e))"
    using encoder.Exclude_wireEncode_to_emits [OF assms(1,2)] by blast
  obtain g where g: "\<And>enc. Exclude_wireEncode_to EncodingEstimator e enc = Inr (g enc)"
    "emitter est_emits g (tlv_bytes tlv_Exclude (exclude_value e))"
    using estimator.Exclude_wireEncode_to_emits [OF assms(1,2)] by blast
  have "fst (g ()) = length (tlv_bytes tlv_Exclude (exclude_value e))"
    using emitter_length [OF g(2)] .
  then show ?thesis
    using f(1) g(1) Encoder_block_exact [OF f(2)] assms(3)
    by (simp add: Exclude_wireEncode_def split_beta del: length_tlv_bytes)
qed

section \<open>Decoding\<close>

definition entries :: "(block, bool) omap \<Rightarrow> (comp \<times> bool) list" where
  "entries m = map (\<lambda>x. (key_of x, snd x)) m"

definition item_elements :: "comp \<times> bool \<Rightarrow> (u32 \<times> byte list) list" where
  "item_elements i = (comp_type (fst i), comp_value (fst i)) # (if snd i then [(tlv_Any, [])] else [])"

lemma appendExclude_above:
  assumes "comp_order.ordered (m_exclude x)" "wf_block c" "\<forall>y \<in> set (m_exclude x). key_of y < comp_of c"
  shows "m_exclude (appendExclude x c any) = (c, any) # m_exclude x"
    "comp_order.ordered (m_exclude (appendExclude x c any))"
proof -
  show eq: "m_exclude (appendExclude x c any) = (c, any) # m_exclude x"
    using comp_order.map_insert_new [of "[]" "m_exclude x" c any] assms
    by (simp add: appendExclude_def map_assign_def)
  show "comp_order.ordered (m_exclude (appendExclude x c any))"
    unfolding eq using assms by (simp add: comp_order.ordered_Cons)
qed

lemma decode_items:
  assumes "map type_value bs = concat (map item_elements its)" "\<forall>b \<in> set bs. wf_block b"
    and "\<forall>i \<in> set its. is_comp (fst i)" "sorted_wrt (\<lambda>i j. fst i < fst j) its"
    and "comp_order.ordered (m_exclude x)" "\<forall>y \<in> set (m_exclude x). \<forall>i \<in> set its. key_of y < fst i"
  shows "\<exists>x'. decode_elements bs x = (None, x') \<and> entries (m_exclude x') = rev its @ entries (m_exclude x)
           \<and> comp_order.ordered (m_exclude x')"
  using assms
proof (induction its arbitrary: bs x)
  case Nil
  then show ?case by simp
next
  case (Cons i its)
  obtain c a where i: "i = (c, a)" by force
  obtain b rest where bs: "bs = b # rest" and b: "type_value b = (comp_type c, comp_value c)"
    and rest: "map type_value rest = (if a then [(tlv_Any, [])] else []) @ concat (map item_elements its)"
    using Cons.prems(1) i by (cases bs) (auto simp: item_elements_def [of "(c, a)"])
  have wfb: "wf_block b" using Cons.prems(2) bs by simp
  have bc: "comp_of b = c" using b by (cases c) (simp add: type_value_def comp_of_def)
  then have ofb: "Component_ofBlock b = Inr b"
    using Cons.prems(3) i wfb is_component_comp [of b] by (simp add: Component_ofBlock_Inr_iff is_component_def)
  define x1 where "x1 = appendExclude x b a"
  have above: "\<forall>y \<in> set (m_exclude x). key_of y < comp_of b" using Cons.prems(6) i bc by simp
  note x1 = appendExclude_above [OF Cons.prems(5) wfb above, of a, folded x1_def]
  have key: "\<forall>y \<in> set (m_exclude x1). \<forall>j \<in> set its. key_of y < fst j"
    using Cons.prems(4,6) i bc x1(1) by auto
  obtain tl where tl: "map type_value tl = concat (map item_elements its)" "set tl \<subseteq> set bs"
    "decode_elements bs x = decode_elements tl x1"
  proof (cases a)
    case True
    then obtain j js where r: "rest = j # js" "type_value j = (tlv_Any, [])"
      "map type_value js = concat (map item_elements its)"
      using rest by (cases rest) auto
    then have "decode_elements bs x = decode_elements js x1"
      using bs ofb True by (simp add: type_value_def x1_def)
    then show ?thesis using that [of js] r bs by auto
  next
    case False
    have "decode_elements bs x = decode_elements rest x1"
    proof (cases its)
      case Nil
      then show ?thesis using rest False bs ofb by (simp add: x1_def)
    next
      case (Cons i' its')
      then obtain j js where r: "rest = j # js" "m_type j = comp_type (fst i')"
        using rest False by (cases rest) (auto simp: item_elements_def [of i'] type_value_def)
      then have "m_type j \<noteq> tlv_Any" using Cons.prems(3) Cons by (auto simp: is_comp_def tlv_codes)
      then show ?thesis using bs ofb r(1) False by (simp add: x1_def)
    qed
    then show ?thesis using that [of rest] rest False bs by auto
  qed
  have "\<exists>x'. decode_elements tl x1 = (None, x') \<and> entries (m_exclude x') = rev its @ entries (m_exclude x1)
          \<and> comp_order.ordered (m_exclude x')"
    using Cons.prems(2,3,4) tl(2) x1(2) key by (intro Cons.IH [OF tl(1)]) auto
  then show ?case using tl(3) x1(1) bc i by (auto simp: entries_def)
qed

lemma value_empty: "is_component c \<Longrightarrow> Component_empty c \<longleftrightarrow> value_bytes c = []"
  by (auto simp: Component_empty_def is_component_def value_size_wf)
    (auto simp: hasValue_def value_bytes_def buffer_of_def)

text \<open>The elements that encode the entries of a filter, in the order of the wire.\<close>

definition entry_elements :: "comp \<times> bool \<Rightarrow> (u32 \<times> byte list) list" where
  "entry_elements i =
     (if comp_value (fst i) \<noteq> [] \<or> \<not> snd i then [(comp_type (fst i), comp_value (fst i))] else []) @
     (if snd i then [(tlv_Any, [])] else [])"

definition entries_value :: "(comp \<times> bool) list \<Rightarrow> byte list" where
  "entries_value es = elements_bytes (concat (map entry_elements (rev es)))"

text \<open>
  An entry of the empty component with an ANY is written as a bare ANY. It can be told from the
  ANY of the previous entry only in front of all others; implicit digests sort before it.
\<close>

definition any_first :: "(comp \<times> bool) list \<Rightarrow> bool" where
  "any_first es \<longleftrightarrow> (\<forall>i \<in> set es. comp_value (fst i) = [] \<and> snd i \<longrightarrow> (\<forall>j \<in> set es. fst i \<le> fst j))"

definition good_entries :: "(comp \<times> bool) list \<Rightarrow> bool" where
  "good_entries es \<longleftrightarrow> es \<noteq> [] \<and> sorted_wrt (\<lambda>i j. fst j < fst i) es
     \<and> (\<forall>i \<in> set es. is_comp (fst i)) \<and> any_first es"

lemma exclude_value_entries:
  assumes "exclude_inv e"
  shows "exclude_value e = entries_value (entries (m_exclude e))"
proof -
  have "item_bytes x = elements_bytes (entry_elements (key_of x, snd x))" if "is_component (fst x)" for x
    using that value_empty [of "fst x"] by (simp add: item_bytes_def entry_elements_def comp_of_def)
  then have "concat (map item_bytes m) = elements_bytes (concat (map entry_elements (entries m)))"
    if "\<forall>x \<in> set m. is_component (fst x)" for m
    using that by (induction m) (simp_all add: entries_def)
  from this [of "rev (m_exclude e)"] show ?thesis
    using assms by (simp add: exclude_value_def entries_value_def exclude_inv_def entries_def rev_map)
qed

lemma good_entries_inv:
  assumes "exclude_inv e" "m_exclude e \<noteq> []" "any_first (entries (m_exclude e))"
  shows "good_entries (entries (m_exclude e))"
proof -
  have "is_comp (key_of x)" if "x \<in> set (m_exclude e)" for x
    using assms(1) that is_component_comp [of "fst x"] by (auto simp: exclude_inv_def is_component_def)
  then show ?thesis
    using assms by (auto simp: good_entries_def entries_def sorted_wrt_map exclude_inv_def comp_order.ordered_def)
qed

text \<open>Only the smallest generic component is empty.\<close>

lemma empty_least: "comp_type c = tlv_NameComponent \<Longrightarrow> Comp tlv_NameComponent [] \<le> c"
  by (cases c) (auto simp: less_eq_comp_def comp_key_def)

lemma is_comp_empty: "is_comp c \<Longrightarrow> comp_value c = [] \<Longrightarrow> c = Comp tlv_NameComponent []"
  by (cases c) (auto simp: is_comp_def SHA256_DIGEST_SIZE_def)

lemma any_first_generic: "\<forall>i \<in> set es. comp_type (fst i) = tlv_NameComponent \<Longrightarrow> any_first es"
  using is_comp_empty empty_least by (fastforce simp: any_first_def is_comp_def)

text \<open>The elements of an encoded filter: an ANY for an empty first key, then the items.\<close>

lemma entry_elements_split:
  assumes "good_entries es"
  obtains any its where "rev es = (if any then [(Comp tlv_NameComponent [], True)] else []) @ its"
    "concat (map entry_elements (rev es)) = (if any then [(tlv_Any, [])] else []) @ concat (map item_elements its)"
    "any \<or> its \<noteq> []"
proof -
  have items: "concat (map entry_elements xs) = concat (map item_elements xs)"
    if "\<forall>x \<in> set xs. \<not> (snd x \<and> comp_value (fst x) = [])" for xs
    using that by (induction xs) (auto simp: entry_elements_def item_elements_def)
  obtain l ms where l: "rev es = l # ms" using assms by (cases "rev es") (auto simp: good_entries_def)
  have es: "es = rev ms @ [l]" using arg_cong [OF l, of rev] by simp
  have ms: "\<not> (snd x \<and> comp_value (fst x) = [])" if "x \<in> set ms" for x
  proof
    assume "snd x \<and> comp_value (fst x) = []"
    then have "fst x \<le> fst l" using assms that by (auto simp: good_entries_def any_first_def es)
    moreover have "fst l < fst x" using assms that by (simp add: es good_entries_def sorted_wrt_append)
    ultimately show False by simp
  qed
  show ?thesis
  proof (cases "snd l \<and> comp_value (fst l) = []")
    case True
    then have "l = (Comp tlv_NameComponent [], True)"
      using is_comp_empty [of "fst l"] assms es by (cases l) (auto simp: good_entries_def)
    then show ?thesis
      using that [of True ms] items [of ms] ms l by (simp add: entry_elements_def)
  next
    case False
    then show ?thesis using that [of False "l # ms"] items [of "l # ms"] ms l by auto
  qed
qed

lemma covers_entries:
  "entries m = entries m' \<Longrightarrow> covers m d = covers m' d"
proof (induction m arbitrary: m')
  case (Cons x m)
  then show ?case by (cases m') (auto simp: entries_def)
qed (auto simp: entries_def)

text \<open>Decoding a parsed block with an optional leading ANY followed by items.\<close>

lemma Exclude_wireDecode_items:
  assumes p: "parse w = (None, b)" "m_type w = tlv_Exclude"
    and tv: "map type_value (m_subBlocks b) = (if any then [(tlv_Any, [])] else []) @ concat (map item_elements its)"
    and wfs: "\<forall>s \<in> set (m_subBlocks b). wf_block s"
    and types: "\<forall>i \<in> set its. is_comp (fst i)"
    and sorted: "sorted_wrt (\<lambda>i j. fst i < fst j) its"
      "any \<Longrightarrow> \<forall>i \<in> set its. Comp tlv_NameComponent [] < fst i"
    and ne: "any \<or> its \<noteq> []"
  obtains x where "Exclude_wireDecode e w = (None, x)"
    "entries (m_exclude x) = rev its @ (if any then [(Comp tlv_NameComponent [], True)] else [])"
proof -
  let ?x0 = "(Exclude_clear e)\<lparr>m_wire := b\<rparr>"
  have x0: "m_exclude ?x0 = []" by (simp add: Exclude_clear_def)
  note eval = Exclude_wireDecode_def Let_def p entries_def
  show ?thesis
  proof (cases any)
    case True
    then obtain i bs where i: "m_subBlocks b = i # bs" "m_type i = tlv_Any"
      "map type_value bs = concat (map item_elements its)"
      using tv by (cases "m_subBlocks b") (auto simp: type_value_def)
    define x1 where "x1 = appendExclude ?x0 Component_default True"
    have wfd: "wf_block Component_default" "comp_of Component_default = Comp tlv_NameComponent []"
      using wf_ofType [of tlv_NameComponent]
      by (simp_all add: Component_default_def comp_of_def Block_ofType_def block_defs)
    have x1: "m_exclude x1 = [(Component_default, True)]" "comp_order.ordered (m_exclude x1)"
      using appendExclude_above [of ?x0 Component_default True] x0 wfd(1) by (simp_all add: x1_def)
    obtain x' where "decode_elements bs x1 = (None, x')"
      "entries (m_exclude x') = rev its @ entries (m_exclude x1)"
      using decode_items [OF i(3) _ types sorted(1) x1(2)] wfs i(1) sorted(2) [OF True] wfd(2) x1(1) by auto
    then show ?thesis
      using that [of x'] True i x1(1) wfd(2) by (simp add: eval x1_def)
  next
    case False
    then have "its \<noteq> []" using ne by simp
    then obtain i bs where i: "m_subBlocks b = i # bs" "m_type i \<noteq> tlv_Any"
      using tv False types by (cases its; cases "m_subBlocks b")
        (auto simp: type_value_def item_elements_def tlv_codes is_comp_def)
    obtain x' where "decode_elements (m_subBlocks b) ?x0 = (None, x')"
      "entries (m_exclude x') = rev its @ entries (m_exclude ?x0)"
      using decode_items [OF _ wfs types sorted(1), of ?x0] tv False x0 by auto
    then show ?thesis
      using that [of x'] False i x0 by (simp add: eval)
  qed
qed

lemma Exclude_wireDecode_fresh:
  assumes "fresh w" "type_value w = (tlv_Exclude, entries_value es)" "good_entries es"
  shows "\<exists>x. Exclude_wireDecode e w = (None, x) \<and> entries (m_exclude x) = es"
proof -
  obtain any its where its: "rev es = (if any then [(Comp tlv_NameComponent [], True)] else []) @ its"
    "concat (map entry_elements (rev es)) = (if any then [(tlv_Any, [])] else []) @ concat (map item_elements its)"
    "any \<or> its \<noteq> []"
    using entry_elements_split [OF assms(3)] by blast
  have mt: "m_type w = tlv_Exclude" and v: "value_bytes w = elements_bytes (concat (map entry_elements (rev es)))"
    using assms(2) by (simp_all add: type_value_def entries_value_def)
  obtain b where b: "parse w = (None, b)" "map type_value (m_subBlocks b) = concat (map entry_elements (rev es))"
    "\<forall>s \<in> set (m_subBlocks b). fresh s"
    using parse_fresh [OF assms(1) v] by metis
  then have wfs: "\<forall>s \<in> set (m_subBlocks b). wf_block s" by (simp add: fresh_def)
  have "\<forall>i \<in> set (rev es). is_comp (fst i)" "sorted_wrt (\<lambda>i j. fst i < fst j) (rev es)"
    using assms(3) by (auto simp: good_entries_def sorted_wrt_rev)
  then have "\<forall>i \<in> set its. is_comp (fst i)" "sorted_wrt (\<lambda>i j. fst i < fst j) its"
    "any \<Longrightarrow> \<forall>i \<in> set its. Comp tlv_NameComponent [] < fst i"
    unfolding its(1) by (auto simp: sorted_wrt_append)
  from Exclude_wireDecode_items [OF b(1) mt b(2) [unfolded its(2)] wfs this its(3)]
  obtain x where "Exclude_wireDecode e w = (None, x)"
    "entries (m_exclude x) = rev its @ (if any then [(Comp tlv_NameComponent [], True)] else [])" .
  moreover have "es = rev its @ (if any then [(Comp tlv_NameComponent [], True)] else [])"
    using arg_cong [OF its(1), of rev] by (cases any) simp_all
  ultimately show ?thesis by metis
qed

interpretation exclude_wire: wire_codec tlv_Exclude entries_value good_entries Exclude_wireDecode
  "\<lambda>_. True" "\<lambda>e. entries (m_exclude e)" "\<lambda>_. True" Exclude_wireEncode exclude.m_wire
  "\<lambda>e. exclude_inv e \<and> m_exclude e \<noteq> []"
  by unfold_locales
    (use Exclude_wireDecode_fresh in \<open>auto simp: Exclude_wireEncode_new exclude_value_entries\<close>,
     simp add: Exclude_wireEncode_def)

text \<open>
  Exclude filters round-trip over the wire: \<open>wireEncode\<close> of a non-empty filter
  succeeds, and decoding the block gives a filter with the same components and ANY flags in the same
  order, which therefore excludes the same components. A filter may hold generic components and
  implicit digests, but not an empty component with an ANY behind a digest.
\<close>
theorem Exclude_wire_roundtrip:
  assumes "exclude_inv e" "any_first (entries (m_exclude e))" "m_exclude e \<noteq> []" "\<not> hasWire (exclude.m_wire e)"
    and "length (tlv_bytes tlv_Exclude (exclude_value e)) < 2 ^ 64"
  shows "\<exists>w e' x. Exclude_wireEncode e = Inr (w, e') \<and> wire_bytes w = tlv_bytes tlv_Exclude (exclude_value e)
     \<and> Exclude_ofBlock w = Inr x \<and> entries (m_exclude x) = entries (m_exclude e)
     \<and> (\<forall>d. covers (m_exclude x) d = covers (m_exclude e) d)"
proof -
  note v = exclude_value_entries [OF assms(1)]
  obtain w e' x where w: "Exclude_wireEncode e = Inr (w, e')" "wire_bytes w = tlv_bytes tlv_Exclude (exclude_value e)"
    "fresh w" "type_value w = (tlv_Exclude, exclude_value e)"
    using Exclude_wireEncode_new [OF assms(1,3,4)] assms(5) by (simp del: length_tlv_bytes)
  obtain x where x: "Exclude_wireDecode Exclude_default w = (None, x)"
    "entries (m_exclude x) = entries (m_exclude e)"
    using exclude_wire.decodes [OF w(3) _ good_entries_inv [OF assms(1,3,2)]] w(4) v by auto
  then show ?thesis
    using w(1,2) covers_entries [OF x(2)] by (auto simp: Exclude_ofBlock_def)
qed

theorem Exclude_wire_roundtrip_witness:
  "\<exists>w e' x. Exclude_wireEncode exclude_A = Inr (w, e') \<and> wire_bytes w = [16, 5, 8, 1, 65, 19, 0]
     \<and> Exclude_ofBlock w = Inr x \<and> entries (m_exclude x) = [(Comp tlv_NameComponent [65], True)]"
proof -
  have v: "tlv_bytes tlv_Exclude (exclude_value exclude_A) = [16, 5, 8, 1, 65, 19, 0]"
    by (simp add: exclude_A_eq exclude_value_def item_bytes_def Component_empty_def tlv_bytes_def
        writeVarNumber_def tlv_codes)
  have nw: "\<not> hasWire (exclude.m_wire exclude_A)"
    by (simp add: exclude_A_eq Block_reset_def hasWire_def)
  have ne: "m_exclude exclude_A \<noteq> []"
    and en: "entries (m_exclude exclude_A) = [(Comp tlv_NameComponent [65], True)]"
    by (simp_all add: exclude_A_eq entries_def comp_of_def)
  have "length (tlv_bytes tlv_Exclude (exclude_value exclude_A)) < 2 ^ 64" unfolding v by simp
  moreover have "any_first (entries (m_exclude exclude_A))" by (simp add: en any_first_def)
  ultimately show ?thesis 
    using Exclude_wire_roundtrip [OF exclude_inv_A(1) _ ne nw] unfolding v en by blast
qed

text \<open>
  A filter with an implicit digest and, behind it, everything up to a component: the digest, an
  ANY and the component are written, and are decoded as a range that starts at the digest.
\<close>
theorem Exclude_digest_any_not_roundtrip:
  assumes "length v = SHA256_DIGEST_SIZE" "x \<noteq> []" "length x < 2 ^ 32"
  defines "es \<equiv> [(Comp tlv_NameComponent x, False), (Comp tlv_NameComponent [], True),
                 (Comp tlv_ImplicitSha256DigestComponent v, False)]"
    and "ds \<equiv> [(Comp tlv_NameComponent x, False), (Comp tlv_ImplicitSha256DigestComponent v, True)]"
  shows "entries_value es = entries_value ds \<and> good_entries ds
    \<and> (\<exists>e. Exclude_wireDecode Exclude_default (tlv_block tlv_Exclude (entries_value es)) = (None, e)
         \<and> entries (m_exclude e) = ds)"
proof -
  have v: "v \<noteq> []" using assms(1) by (auto simp: SHA256_DIGEST_SIZE_def)
  have eq: "entries_value es = entries_value ds"
    using v assms(2) by (simp add: entries_value_def es_def ds_def entry_elements_def)
  have lt: "Comp tlv_ImplicitSha256DigestComponent v < Comp tlv_NameComponent x"
    by (simp add: less_comp_def comp_key_def tlv_codes)
  have good: "good_entries ds"
    using v assms(1,2) lt by (simp add: good_entries_def ds_def is_comp_def any_first_def)
  have "length (entries_value ds) < 2 ^ 32 + 1000"
    using assms(1,3) by (simp add: entries_value_def ds_def entry_elements_def SHA256_DIGEST_SIZE_def sizeOfVarNumber_def)
  then have "fresh (tlv_block tlv_Exclude (entries_value es))"
    unfolding eq by (simp add: sizeOfVarNumber_def)
  from Exclude_wireDecode_fresh [OF this _ good, of Exclude_default] show ?thesis using eq good by simp
qed

text \<open>
  \<open>appendExclude\<close> does not drop the cached wire: a filter that has been encoded and then extended through
  this function still encodes to the old bytes, although it now excludes more.
\<close>
theorem appendExclude_stale_wire:
  assumes "hasWire (exclude.m_wire e)"
  shows "Exclude_wireEncode (appendExclude e c any) = Inr (exclude.m_wire e, appendExclude e c any)"
  using assms by (simp add: Exclude_wireEncode_def appendExclude_def)

theorem appendExclude_stale_wire_witness:
  "\<exists>e. exclude_inv e \<and> isExcluded (appendExclude e (tlv_block tlv_NameComponent [64]) False)
          (tlv_block tlv_NameComponent [64])
     \<and> \<not> isExcluded e (tlv_block tlv_NameComponent [64])
     \<and> Exclude_wireEncode (appendExclude e (tlv_block tlv_NameComponent [64]) False)
         = Inr (exclude.m_wire e, appendExclude e (tlv_block tlv_NameComponent [64]) False)"
proof -
  let ?e = "exclude_A\<lparr>m_wire := tlv_block tlv_Exclude (exclude_value exclude_A)\<rparr>"
  let ?c = "tlv_block tlv_NameComponent [64]"
  have "exclude_inv ?e" using exclude_inv_A(1) by (simp add: exclude_inv_def)
  moreover have "isExcluded (appendExclude ?e ?c False) ?c" "\<not> isExcluded ?e ?c"
    by (simp_all add: exclude_A_eq isExcluded_def appendExclude_def map_assign_def map_insert_def
        lower_bound_def comp_greater_def Component_compare_def Component_equals_def)
  ultimately show ?thesis using appendExclude_stale_wire [of ?e ?c False] by auto
qed

end
