(* ===== verification/Selectors.thy ===== *)
theory Selectors
  imports KeyLocator Exclude
begin

text \<open>
  Interest selectors, after \<open>src/selectors.{hpp,cpp}\<close>.

  The counts are C++ \<open>int\<close>s; a negative value means that the selector is absent. Assigning the 64-bit number read
  from the wire keeps its low 32 bits as a signed number.
\<close>

section \<open>The class\<close>

record selectors =
  sel_minSuffixComponents :: int
  sel_maxSuffixComponents :: int
  sel_publisherPublicKeyLocator :: key_locator
  sel_exclude :: exclude
  sel_childSelector :: int
  sel_mustBeFresh :: bool
  sel_wire :: block

definition Selectors_default :: selectors where
  "Selectors_default =
     \<lparr>sel_minSuffixComponents = -1, sel_maxSuffixComponents = -1,
      sel_publisherPublicKeyLocator = KeyLocator_default, sel_exclude = Exclude_default,
      sel_childSelector = -1, sel_mustBeFresh = False, sel_wire = Block_default\<rparr>"

definition Selectors_empty :: "selectors \<Rightarrow> bool" where
  "Selectors_empty s \<longleftrightarrow>
     sel_minSuffixComponents s < 0 \<and> sel_maxSuffixComponents s < 0 \<and>
     KeyLocator_empty (sel_publisherPublicKeyLocator s) \<and> Exclude_empty (sel_exclude s) \<and>
     sel_childSelector s < 0 \<and> \<not> sel_mustBeFresh s"

definition sel_reset :: "selectors \<Rightarrow> selectors" where
  "sel_reset s = s\<lparr>sel_wire := Block_reset (sel_wire s)\<rparr>"

definition setMinSuffixComponents :: "selectors \<Rightarrow> int \<Rightarrow> selectors" where
  "setMinSuffixComponents s n = sel_reset (s\<lparr>sel_minSuffixComponents := n\<rparr>)"

definition setMaxSuffixComponents :: "selectors \<Rightarrow> int \<Rightarrow> selectors" where
  "setMaxSuffixComponents s n = sel_reset (s\<lparr>sel_maxSuffixComponents := n\<rparr>)"

definition setPublisherPublicKeyLocator :: "selectors \<Rightarrow> key_locator \<Rightarrow> selectors" where
  "setPublisherPublicKeyLocator s k = sel_reset (s\<lparr>sel_publisherPublicKeyLocator := k\<rparr>)"

definition setExclude :: "selectors \<Rightarrow> exclude \<Rightarrow> selectors" where
  "setExclude s e = sel_reset (s\<lparr>sel_exclude := e\<rparr>)"

definition setChildSelector :: "selectors \<Rightarrow> int \<Rightarrow> selectors" where
  "setChildSelector s n = sel_reset (s\<lparr>sel_childSelector := n\<rparr>)"

definition setMustBeFresh :: "selectors \<Rightarrow> bool \<Rightarrow> selectors" where
  "setMustBeFresh s b = sel_reset (s\<lparr>sel_mustBeFresh := b\<rparr>)"

section \<open>Wire\<close>

definition prepend_count :: "'e EncodingImpl \<Rightarrow> u32 \<Rightarrow> int \<Rightarrow> 'e stepE list" where
  "prepend_count ops type n =
     (if n \<ge> 0 then [\<lambda>_ e. Inr (prependNonNegativeIntegerBlock ops type (of_int n) e)] else [])"

definition Selectors_wireEncode_to :: "'e EncodingImpl \<Rightarrow> selectors \<Rightarrow> 'e \<Rightarrow> (nat \<times> 'e) result" where
  "Selectors_wireEncode_to ops s =
     run_stepsE
       ((if sel_mustBeFresh s then [\<lambda>_ e. Inr (prependEmptyBlock ops tlv_MustBeFresh e)] else []) @
        prepend_count ops tlv_ChildSelector (sel_childSelector s) @
        (if \<not> Exclude_empty (sel_exclude s) then [\<lambda>_ e. Exclude_wireEncode_to ops (sel_exclude s) e] else []) @
        (if \<not> KeyLocator_empty (sel_publisherPublicKeyLocator s)
         then [\<lambda>_ e. KeyLocator_wireEncode_to ops (sel_publisherPublicKeyLocator s) e] else []) @
        prepend_count ops tlv_MaxSuffixComponents (sel_maxSuffixComponents s) @
        prepend_count ops tlv_MinSuffixComponents (sel_minSuffixComponents s) @
        header_steps ops tlv_Selectors)"

definition Selectors_wireEncode :: "selectors \<Rightarrow> (block \<times> selectors) result" where
  "Selectors_wireEncode s =
     (if hasWire (sel_wire s) then Inr (sel_wire s, s)
      else bindE (encode_block (Selectors_wireEncode_to EncodingEstimator s) (Selectors_wireEncode_to EncodingBuffer s))
             (\<lambda>b. Inr (b, s\<lparr>sel_wire := b\<rparr>)))"

definition int_of_number :: "u64 \<Rightarrow> int" where
  "int_of_number n = sint (ucast n :: u32)"

definition Selectors_wireDecode :: "selectors \<Rightarrow> block \<Rightarrow> error option \<times> selectors" where
  "Selectors_wireDecode s wire =
     (if m_type wire \<noteq> tlv_Selectors
      then (Some (TlvError ''Unexpected TLV type when decoding Selectors''), s)
      else let s = Selectors_default
           in case parse wire of
                (Some err, b) \<Rightarrow> (Some err, s\<lparr>sel_wire := b\<rparr>)
              | (None, b) \<Rightarrow>
                  run_decoders
                    [decode_element b tlv_MinSuffixComponents
                       (decode_number (\<lambda>n s. s\<lparr>sel_minSuffixComponents := int_of_number n\<rparr>)),
                     decode_element b tlv_MaxSuffixComponents
                       (decode_number (\<lambda>n s. s\<lparr>sel_maxSuffixComponents := int_of_number n\<rparr>)),
                     decode_element b tlv_KeyLocator
                       (\<lambda>val s. case KeyLocator_wireDecode (sel_publisherPublicKeyLocator s) val of
                          (err, k) \<Rightarrow> (err, s\<lparr>sel_publisherPublicKeyLocator := k\<rparr>)),
                     decode_element b tlv_Exclude
                       (\<lambda>val s. case Exclude_wireDecode (sel_exclude s) val of
                          (err, e) \<Rightarrow> (err, s\<lparr>sel_exclude := e\<rparr>)),
                     decode_element b tlv_ChildSelector
                       (decode_number (\<lambda>n s. s\<lparr>sel_childSelector := int_of_number n\<rparr>)),
                     decode_element b tlv_MustBeFresh (\<lambda>_ s. (None, s\<lparr>sel_mustBeFresh := True\<rparr>))]
                    (s\<lparr>sel_wire := b\<rparr>))"

definition Selectors_ofBlock :: "block \<Rightarrow> selectors result" where
  "Selectors_ofBlock wire =
     (case Selectors_wireDecode Selectors_default wire of (None, s) \<Rightarrow> Inr s | (Some err, _) \<Rightarrow> Inl err)"

definition Selectors_equal :: "selectors \<Rightarrow> selectors \<Rightarrow> (bool \<times> selectors \<times> selectors) result" where
  "Selectors_equal s other =
     bindE (Selectors_wireEncode s) (\<lambda>(w, s).
     bindE (Selectors_wireEncode other) (\<lambda>(w', other).
     bindE (Block_equal w w') (\<lambda>r. Inr (r, s, other))))"

section \<open>Abstract selectors\<close>

datatype sels = Sels (sels_min: "int option") (sels_max: "int option") (sels_key: locator)
  (sels_exclude: "(comp \<times> bool) list") (sels_child: "int option") (sels_fresh: bool)

definition count_of :: "int \<Rightarrow> int option" where
  "count_of n = (if n \<ge> 0 then Some n else None)"

definition sels_of :: "selectors \<Rightarrow> sels" where
  "sels_of s = Sels (count_of (sel_minSuffixComponents s)) (count_of (sel_maxSuffixComponents s))
     (locator_of (sel_publisherPublicKeyLocator s)) (entries (m_exclude (sel_exclude s)))
     (count_of (sel_childSelector s)) (sel_mustBeFresh s)"

definition count_elements :: "u32 \<Rightarrow> int option \<Rightarrow> (u32 \<times> byte list) list" where
  "count_elements t c = (case c of Some n \<Rightarrow> [(t, nni_bytes (of_int n))] | None \<Rightarrow> [])"

definition sels_elements :: "sels \<Rightarrow> (u32 \<times> byte list) list" where
  "sels_elements x =
     count_elements tlv_MinSuffixComponents (sels_min x) @ count_elements tlv_MaxSuffixComponents (sels_max x) @
     (if sels_key x \<noteq> NoKey then [(tlv_KeyLocator, locator_value (sels_key x))] else []) @
     (if sels_exclude x \<noteq> [] then [(tlv_Exclude, entries_value (sels_exclude x))] else []) @
     count_elements tlv_ChildSelector (sels_child x) @
     (if sels_fresh x then [(tlv_MustBeFresh, [])] else [])"

definition sels_value :: "sels \<Rightarrow> byte list" where
  "sels_value x = elements_bytes (sels_elements x)"

definition good_count :: "int option \<Rightarrow> bool" where
  "good_count c \<longleftrightarrow> (\<forall>n. c = Some n \<longrightarrow> 0 \<le> n \<and> n < 2 ^ 31)"

definition good_sels :: "sels \<Rightarrow> bool" where
  "good_sels x \<longleftrightarrow> good_count (sels_min x) \<and> good_count (sels_max x) \<and> good_count (sels_child x)
     \<and> good_locator (sels_key x) \<and> (sels_exclude x \<noteq> [] \<longrightarrow> good_entries (sels_exclude x))"

definition selectors_inv :: "selectors \<Rightarrow> bool" where
  "selectors_inv s \<longleftrightarrow> key_locator_inv (sel_publisherPublicKeyLocator s) \<and> exclude_inv (sel_exclude s)"

lemma sels_of_wire [simp]: "sels_of (s\<lparr>sel_wire := b\<rparr>) = sels_of s"
  by (simp add: sels_of_def)

context encoding_impl
begin

lemma prepend_count_emits:
  "list_all2 (\<lambda>f (t, v). \<forall>n :: nat. emitterE emits (f n) (tlv_bytes t v))
     (prepend_count ops type n) (rev (count_elements type (count_of n)))"
  by (simp add: prepend_count_def count_elements_def count_of_def emitterE_Inr prependNonNegativeIntegerBlock_emits)

lemma Selectors_wireEncode_to_emits:
  assumes "selectors_inv s" "good_sels (sels_of s)"
  shows "emitterE emits (Selectors_wireEncode_to ops s) (tlv_bytes tlv_Selectors (sels_value (sels_of s)))"
proof -
  have key: "KeyLocator_empty k \<longleftrightarrow> locator_of k = NoKey" for k
    by (simp add: KeyLocator_empty_def locator_of_def split: KeyLocator_Type.split)
  have excl: "Exclude_empty e \<longleftrightarrow> entries (m_exclude e) = []" for e
    by (simp add: Exclude_empty_def entries_def)
  have "emitterE emits (Exclude_wireEncode_to ops (sel_exclude s))
      (tlv_bytes tlv_Exclude (entries_value (entries (m_exclude (sel_exclude s)))))"
    if "\<not> Exclude_empty (sel_exclude s)"
    using that assms(1) Exclude_wireEncode_to_emits [of "sel_exclude s"]
    by (auto simp: emitterE_def selectors_inv_def Exclude_empty_def exclude_value_entries)
  moreover have "emitterE emits (KeyLocator_wireEncode_to ops (sel_publisherPublicKeyLocator s))
      (tlv_bytes tlv_KeyLocator (locator_value (locator_of (sel_publisherPublicKeyLocator s))))"
    using assms by (intro KeyLocator_wireEncode_to_emits) (simp_all add: selectors_inv_def good_sels_def sels_of_def)
  ultimately show ?thesis
    unfolding Selectors_wireEncode_to_def sels_value_def append_assoc [symmetric]
    by (intro element_steps_emit)
      (auto simp: sels_elements_def sels_of_def key excl simp del: append_assoc
        intro!: list_all2_appendI prepend_count_emits emitterE_Inr prependEmptyBlock_emits)
qed

end

section \<open>Decoding\<close>

lemma int_of_number_of_int: "0 \<le> n \<Longrightarrow> n < 2 ^ 31 \<Longrightarrow> int_of_number (of_int n) = n"
  by (simp add: int_of_number_def unsigned_of_int signed_of_int take_bit_int_eq_self signed_take_bit_int_eq_self)

lemma int_of_number_eq: "int_of_number n = int (unat n mod 2 ^ 32) - 2 ^ 32 * of_bool (bit n 31)"
proof -
  have "int_of_number n = signed_take_bit 31 (uint (ucast n :: u32))"
    by (simp add: int_of_number_def sint_uint)
  also have "uint (ucast n :: u32) = take_bit 32 (uint n)"
    by (simp add: unsigned_ucast_eq)
  also have "signed_take_bit 31 (take_bit 32 (uint n)) = take_bit 32 (uint n) - 2 ^ 32 * of_bool (bit n 31)"
    by (simp add: signed_take_bit_eq_take_bit_minus bit_take_bit_iff bit_unsigned_iff)
  finally show ?thesis by (simp add: take_bit_eq_mod zmod_int)
qed

lemma sels_lookup:
  "map_of (sels_elements x) tlv_MinSuffixComponents = map_option (\<lambda>n. nni_bytes (of_int n)) (sels_min x)"
  "map_of (sels_elements x) tlv_MaxSuffixComponents = map_option (\<lambda>n. nni_bytes (of_int n)) (sels_max x)"
  "map_of (sels_elements x) tlv_ChildSelector = map_option (\<lambda>n. nni_bytes (of_int n)) (sels_child x)"
  "map_of (sels_elements x) tlv_KeyLocator = (if sels_key x \<noteq> NoKey then Some (locator_value (sels_key x)) else None)"
  "map_of (sels_elements x) tlv_Exclude = (if sels_exclude x \<noteq> [] then Some (entries_value (sels_exclude x)) else None)"
  "map_of (sels_elements x) tlv_MustBeFresh = (if sels_fresh x then Some [] else None)"
  by (simp_all add: sels_elements_def count_elements_def tlv_codes map_add_def split: option.split)

lemma decode_count:
  assumes "map type_value (m_subBlocks b) = es" "\<forall>s \<in> set (m_subBlocks b). fresh s"
    and "map_of es t = map_option (\<lambda>n. nni_bytes (of_int n)) c" "good_count c"
  shows "decode_element b t (decode_number (\<lambda>n. assign (int_of_number n))) s
     = (None, case c of Some n \<Rightarrow> assign n s | None \<Rightarrow> s)"
proof (cases c)
  case None
  then show ?thesis using decode_element_None [OF assms(1)] assms(3) by simp
next
  case (Some n)
  then have "map_of es t = Some (nni_bytes (of_int n))" "0 \<le> n" "n < 2 ^ 31"
    using assms(3,4) by (simp_all add: good_count_def)
  then show ?thesis
    using decode_element_number [OF assms(1) _ assms(2), of t "of_int n" "\<lambda>n. assign (int_of_number n)"] Some
    by (simp add: int_of_number_of_int)
qed

lemma decode_keyLocator:
  assumes "map type_value (m_subBlocks b) = sels_elements x" "\<forall>s \<in> set (m_subBlocks b). fresh s"
    and "good_sels x" "sel_publisherPublicKeyLocator s = KeyLocator_default"
  obtains k where "decode_element b tlv_KeyLocator
      (\<lambda>val s. case KeyLocator_wireDecode (sel_publisherPublicKeyLocator s) val of
         (err, k) \<Rightarrow> (err, s\<lparr>sel_publisherPublicKeyLocator := k\<rparr>)) s
      = (None, s\<lparr>sel_publisherPublicKeyLocator := k\<rparr>)" "locator_of k = sels_key x"
proof (cases "sels_key x = NoKey")
  case True
  have "s\<lparr>sel_publisherPublicKeyLocator := KeyLocator_default\<rparr> = s" using assms(4) by (cases s) simp
  with True show ?thesis
    using decode_element_None [OF assms(1), of tlv_KeyLocator]
    by (intro that [of KeyLocator_default]) (simp_all add: sels_lookup locator_of_def KeyLocator_default_def)
next
  case False
  have "good_locator (sels_key x)" using assms(3) by (simp add: good_sels_def)
  with False show ?thesis
    using key_locator_wire.decode_nested [OF assms(1,2), where get = sel_publisherPublicKeyLocator and s = s
        and put = "\<lambda>k s. s\<lparr>sel_publisherPublicKeyLocator := k\<rparr>"] that
    by (auto simp: sels_lookup)
qed

lemma decode_exclude:
  assumes "map type_value (m_subBlocks b) = sels_elements x" "\<forall>s \<in> set (m_subBlocks b). fresh s"
    and "good_sels x" "sel_exclude s = Exclude_default"
  obtains e where "decode_element b tlv_Exclude
      (\<lambda>val s. case Exclude_wireDecode (sel_exclude s) val of (err, e) \<Rightarrow> (err, s\<lparr>sel_exclude := e\<rparr>)) s
      = (None, s\<lparr>sel_exclude := e\<rparr>)" "entries (m_exclude e) = sels_exclude x"
proof (cases "sels_exclude x = []")
  case True
  have "s\<lparr>sel_exclude := Exclude_default\<rparr> = s" using assms(4) by (cases s) simp
  with True show ?thesis
    using decode_element_None [OF assms(1), of tlv_Exclude]
    by (intro that [of Exclude_default]) (simp_all add: sels_lookup entries_def Exclude_default_def)
next
  case False
  then have "good_entries (sels_exclude x)" using assms(3) by (simp add: good_sels_def)
  with False show ?thesis
    using exclude_wire.decode_nested [OF assms(1,2), where get = sel_exclude and s = s
        and put = "\<lambda>e s. s\<lparr>sel_exclude := e\<rparr>"] that
    by (auto simp: sels_lookup)
qed

lemma decode_mustBeFresh:
  assumes "map type_value (m_subBlocks b) = sels_elements x" "\<forall>s \<in> set (m_subBlocks b). fresh s"
  shows "decode_element b tlv_MustBeFresh (\<lambda>_ s. (None, s\<lparr>sel_mustBeFresh := True\<rparr>)) s
      = (None, if sels_fresh x then s\<lparr>sel_mustBeFresh := True\<rparr> else s)"
proof (cases "sels_fresh x")
  case True
  then obtain v where "find_element tlv_MustBeFresh b = Some v"
    using find_element_Some [OF assms(1) _ assms(2), of tlv_MustBeFresh "[]"] by (auto simp: sels_lookup)
  with True show ?thesis by (simp add: decode_element_def)
qed (simp add: decode_element_None [OF assms(1)] sels_lookup)

lemma Selectors_wireDecode_fresh:
  assumes "fresh w" "type_value w = (tlv_Selectors, sels_value x)" "good_sels x"
  shows "\<exists>s'. Selectors_wireDecode s w = (None, s') \<and> sels_of s' = x"
proof -
  have mt: "m_type w = tlv_Selectors" and v: "value_bytes w = elements_bytes (sels_elements x)"
    using assms(2) by (simp_all add: type_value_def sels_value_def)
  obtain b where b: "parse w = (None, b)" "map type_value (m_subBlocks b) = sels_elements x"
    "\<forall>s \<in> set (m_subBlocks b). fresh s"
    using parse_fresh [OF assms(1) v] by metis
  have good: "good_count (sels_min x)" "good_count (sels_max x)" "good_count (sels_child x)"
    using assms(3) by (simp_all add: good_sels_def)
  note count = decode_count [OF b(2,3)]
  define s0 where "s0 = (let s = Selectors_default\<lparr>sel_wire := b\<rparr>
    in case sels_min x of Some n \<Rightarrow> s\<lparr>sel_minSuffixComponents := n\<rparr> | None \<Rightarrow> s)"
  define s1 where "s1 = (case sels_max x of Some n \<Rightarrow> s0\<lparr>sel_maxSuffixComponents := n\<rparr> | None \<Rightarrow> s0)"
  note s1 = s1_def s0_def Let_def Selectors_default_def
  have "sel_publisherPublicKeyLocator s1 = KeyLocator_default"
    by (simp add: s1 split: option.split)
  from decode_keyLocator [OF b(2,3) assms(3) this] obtain k where k: "decode_element b tlv_KeyLocator
      (\<lambda>val s. case KeyLocator_wireDecode (sel_publisherPublicKeyLocator s) val of
         (err, k) \<Rightarrow> (err, s\<lparr>sel_publisherPublicKeyLocator := k\<rparr>)) s1
      = (None, s1\<lparr>sel_publisherPublicKeyLocator := k\<rparr>)" "locator_of k = sels_key x" .
  have "sel_exclude (s1\<lparr>sel_publisherPublicKeyLocator := k\<rparr>) = Exclude_default"
    by (simp add: s1 split: option.split)
  from decode_exclude [OF b(2,3) assms(3) this] obtain e where e: "decode_element b tlv_Exclude
      (\<lambda>val s. case Exclude_wireDecode (sel_exclude s) val of (err, e) \<Rightarrow> (err, s\<lparr>sel_exclude := e\<rparr>))
        (s1\<lparr>sel_publisherPublicKeyLocator := k\<rparr>)
      = (None, s1\<lparr>sel_publisherPublicKeyLocator := k\<rparr>\<lparr>sel_exclude := e\<rparr>)" "entries (m_exclude e) = sels_exclude x" .
  note fresh = decode_mustBeFresh [OF b(2,3)]
  define s2 where "s2 = s1\<lparr>sel_publisherPublicKeyLocator := k, sel_exclude := e\<rparr>"
  define s3 where "s3 = (case sels_child x of Some n \<Rightarrow> s2\<lparr>sel_childSelector := n\<rparr> | None \<Rightarrow> s2)"
  note min = count [OF sels_lookup(1) good(1), of "\<lambda>n s. s\<lparr>sel_minSuffixComponents := n\<rparr>"
      "Selectors_default\<lparr>sel_wire := b\<rparr>", folded s0_def [unfolded Let_def]]
    and max = count [OF sels_lookup(2) good(2), of "\<lambda>n s. s\<lparr>sel_maxSuffixComponents := n\<rparr>" s0, folded s1_def]
    and child = count [OF sels_lookup(3) good(3), of "\<lambda>n s. s\<lparr>sel_childSelector := n\<rparr>" s2, folded s3_def]
  have "Selectors_wireDecode s w = (None, if sels_fresh x then s3\<lparr>sel_mustBeFresh := True\<rparr> else s3)"
    using k(1) e(1) unfolding s2_def [symmetric]
    by (simp add: Selectors_wireDecode_def mt b(1) min max child fresh Let_def)
  moreover have "sels_of (if sels_fresh x then s3\<lparr>sel_mustBeFresh := True\<rparr> else s3) = x"
    using k(2) e(2) good(1-3)
    by (cases x) (auto simp: sels_of_def s3_def s2_def s1 count_of_def good_count_def split: option.split)
  ultimately show ?thesis by blast
qed

interpretation selectors_wire: wire_codec tlv_Selectors sels_value good_sels Selectors_wireDecode
  "\<lambda>_. True" sels_of "\<lambda>_. True" Selectors_wireEncode sel_wire selectors_inv
proof (unfold_locales, goal_cases)
  case (1 b x s)
  then show ?case using Selectors_wireDecode_fresh by blast
next
  case (2 s)
  then show ?case
    using encode_block_eq [OF estimator.Selectors_wireEncode_to_emits [OF 2(1,2)]
        encoder.Selectors_wireEncode_to_emits [OF 2(1,2)]]
    by (simp add: Selectors_wireEncode_def del: length_tlv_bytes)
next
  case (3 s)
  then show ?case by (simp add: Selectors_wireEncode_def)
qed

text \<open>
  Selectors round-trip over the wire: suffix counts, publisher key locator, exclude filter, child selector and
  MustBeFresh of an object without a cached wire are encoded without an error, and decoding the bytes into any
  object gives the same selectors, absent ones included.
\<close>
theorem Selectors_wire_roundtrip:
  assumes "selectors_inv s" "good_sels (sels_of s)" "\<not> hasWire (sel_wire s)"
    and "length (tlv_bytes tlv_Selectors (sels_value (sels_of s))) < 2 ^ 64"
  shows "\<exists>w s' blk y. Selectors_wireEncode s = Inr (w, s')
     \<and> wire_bytes w = tlv_bytes tlv_Selectors (sels_value (sels_of s))
     \<and> sels_of s' = sels_of s \<and> Selectors_wireEncode s' = Inr (w, s')
     \<and> Block_whole (wire_bytes w) = Inr blk \<and> Selectors_wireDecode s0 blk = (None, y) \<and> sels_of y = sels_of s"
  using selectors_wire.roundtrip [OF assms(1-3) TrueI assms(4)] by blast

definition selectors_example :: selectors where
  "selectors_example =
     setMustBeFresh (setExclude (setMaxSuffixComponents Selectors_default 3) exclude_A) True"

lemma selectors_example_facts:
  "selectors_inv selectors_example" "\<not> hasWire (sel_wire selectors_example)"
  "sels_of selectors_example = Sels None (Some 3) NoKey [(Comp tlv_NameComponent [65], True)] None True"
  using exclude_inv_A
  by (simp_all add: selectors_example_def setMustBeFresh_def setExclude_def setMaxSuffixComponents_def sel_reset_def
      selectors_inv_def Selectors_default_def key_locator_setters sels_of_def count_of_def exclude_A_eq entries_def
      comp_of_def) (simp_all add: Block_reset_def hasWire_def locator_of_def KeyLocator_default_def)

theorem Selectors_wire_roundtrip_witness:
  "\<exists>w s' blk y. Selectors_wireEncode selectors_example = Inr (w, s')
     \<and> wire_bytes w = [9, 12, 14, 1, 3, 16, 5, 8, 1, 65, 19, 0, 18, 0]
     \<and> Block_whole (wire_bytes w) = Inr blk \<and> Selectors_wireDecode Selectors_default blk = (None, y)
     \<and> sels_of y = Sels None (Some 3) NoKey [(Comp tlv_NameComponent [65], True)] None True"
proof -
  have v: "tlv_bytes tlv_Selectors (sels_value (sels_of selectors_example))
      = [9, 12, 14, 1, 3, 16, 5, 8, 1, 65, 19, 0, 18, 0]"
    by (simp add: selectors_example_facts sels_value_def sels_elements_def count_elements_def entries_value_def
        entry_elements_def nni_bytes_def tlv_bytes_def writeVarNumber_def tlv_codes)
  have "good_sels (sels_of selectors_example)"
    by (simp add: selectors_example_facts good_sels_def good_count_def good_entries_def is_comp_def any_first_def)
  moreover have "length (tlv_bytes tlv_Selectors (sels_value (sels_of selectors_example))) < 2 ^ 64" unfolding v by simp
  ultimately show ?thesis
    using Selectors_wire_roundtrip [OF selectors_example_facts(1) _ selectors_example_facts(2)] v
      selectors_example_facts(3) by metis
qed

text \<open>
  A suffix count on the wire is reduced to a C++ \<open>int\<close>: after decoding, the selector is absent (negative) exactly when bit
  31 of the transmitted number is set, and otherwise equals the number modulo \<open>2 ^ 32\<close>.
\<close>
theorem Selectors_count_truncated:
  "\<exists>blk y. Block_whole (tlv_bytes tlv_Selectors (tlv_bytes tlv_MinSuffixComponents (nni_bytes n))) = Inr blk
     \<and> Selectors_wireDecode s blk = (None, y)
     \<and> sels_min (sels_of y) = (if bit n 31 then None else Some (int (unat n mod 2 ^ 32)))"
proof -
  let ?v = "tlv_bytes tlv_MinSuffixComponents (nni_bytes n)"
  have "length (nni_bytes n) \<le> 8" by (simp add: nni_bytes_def)
  then have "length (tlv_bytes tlv_Selectors ?v) < 2 ^ 64"
    using length_tlv_bytes_le [of tlv_Selectors ?v] length_tlv_bytes_le [of tlv_MinSuffixComponents "nni_bytes n"]
    by (simp del: length_tlv_bytes)
  then obtain blk where blk: "Block_whole (tlv_bytes tlv_Selectors ?v) = Inr blk" "fresh blk"
    "type_value blk = (tlv_Selectors, ?v)"
    using Block_whole_tlv by blast
  have "value_bytes blk = elements_bytes [(tlv_MinSuffixComponents, nni_bytes n)]"
    using blk(3) by (simp add: type_value_def)
  then obtain b where b: "parse blk = (None, b)" "map type_value (m_subBlocks b) = [(tlv_MinSuffixComponents, nni_bytes n)]"
    "\<forall>s \<in> set (m_subBlocks b). fresh s"
    using parse_fresh [OF blk(2)] by metis
  have none: "decode_element b t f s = (None, s)" if "t \<noteq> tlv_MinSuffixComponents" for t and f :: "block \<Rightarrow> selectors decoder" and s
    using that by (intro decode_element_None [OF b(2)]) simp
  have min: "decode_element b tlv_MinSuffixComponents (decode_number a) s = (None, a n s)" for a and s :: selectors
    by (rule decode_element_number [OF b(2) _ b(3)]) simp
  have codes: "tlv_MaxSuffixComponents \<noteq> tlv_MinSuffixComponents" "tlv_KeyLocator \<noteq> tlv_MinSuffixComponents"
    "tlv_Exclude \<noteq> tlv_MinSuffixComponents" "tlv_ChildSelector \<noteq> tlv_MinSuffixComponents"
    "tlv_MustBeFresh \<noteq> tlv_MinSuffixComponents" by (simp_all add: tlv_codes)
  have "Selectors_wireDecode s blk
      = (None, Selectors_default\<lparr>sel_wire := b, sel_minSuffixComponents := int_of_number n\<rparr>)"
    using blk(3) by (simp add: Selectors_wireDecode_def type_value_def b(1) min none codes Let_def)
  moreover have "unat n mod 2 ^ 32 < 2 ^ 32" by simp
  then have "int_of_number n < 0 \<longleftrightarrow> bit n 31" by (auto simp: int_of_number_eq)
  ultimately show ?thesis using blk(1) by (auto simp: sels_of_def count_of_def int_of_number_eq)
qed

end
