(* ===== verification/SharedBuffer.thy ===== *)
theory SharedBuffer
  imports WireElement
begin

text \<open>
  Elements that point into the buffer of their parent: \<open>parse()\<close> (\<open>src/encoding/block.cpp\<close>) makes no copies, so a
  \<open>memcpy\<close> into the value of an element also changes the wire of the parent. Blocks of the model own
  their bytes; \<open>rebuffer\<close> replaces an overwritten buffer in a block and in all of its elements that point into it.
\<close>

definition overwrite :: "nat \<Rightarrow> byte list \<Rightarrow> byte list \<Rightarrow> byte list" where
  "overwrite offset bs buf = take offset buf @ bs @ drop (offset + length bs) buf"

fun rebuffer :: "byte list \<Rightarrow> byte list \<Rightarrow> block \<Rightarrow> block" where
  "rebuffer old new (Block buf t b e sz vb ve subs) =
     Block (if buf = Some old then Some new else buf) t b e sz vb ve (map (rebuffer old new) subs)"

declare rebuffer.simps [simp del]

lemma rebuffer_sel [simp]:
  "m_type (rebuffer old new b) = m_type b" "m_begin (rebuffer old new b) = m_begin b"
  "m_end (rebuffer old new b) = m_end b" "m_size (rebuffer old new b) = m_size b"
  "m_value_begin (rebuffer old new b) = m_value_begin b" "m_value_end (rebuffer old new b) = m_value_end b"
  "m_subBlocks (rebuffer old new b) = map (rebuffer old new) (m_subBlocks b)"
  "m_buffer (rebuffer old new b) = (if m_buffer b = Some old then Some new else m_buffer b)"
  by (cases b, simp add: rebuffer.simps)+

lemma rebuffer_views:
  "hasWire (rebuffer old new b) = hasWire b" "hasValue (rebuffer old new b) = hasValue b"
  "value_size (rebuffer old new b) = value_size b"
  by (simp_all add: hasWire_def hasValue_def value_size_def)

lemma length_overwrite: "offset + length bs \<le> length buf \<Longrightarrow> length (overwrite offset bs buf) = length buf"
  by (simp add: overwrite_def)

lemma chunk_overwrite:
  assumes "i \<le> offset" "offset + length bs \<le> j" "j \<le> length buf"
  shows "chunk (overwrite offset bs buf) i j = chunk buf i offset @ bs @ chunk buf (offset + length bs) j"
proof -
  have A: "drop i (take offset buf) = chunk buf i offset" "length (chunk buf i offset) = offset - i"
    using assms by (simp_all add: chunk_def drop_take)
  have "drop i (overwrite offset bs buf) = chunk buf i offset @ bs @ drop (offset + length bs) buf"
    using assms by (simp add: overwrite_def A(1))
  moreover have "j - i - (offset - i) - length bs = j - (offset + length bs)" using assms by simp
  moreover have "take (j - i) (chunk buf i offset) = chunk buf i offset" "take (j - i - (offset - i)) bs = bs"
    using assms A(2) by simp_all
  ultimately show ?thesis unfolding chunk_def [of "overwrite offset bs buf"] by (simp add: A(2)) (simp add: chunk_def)
qed

section \<open>Where the elements are\<close>

fun parts_at :: "byte list \<Rightarrow> nat \<Rightarrow> (u32 \<times> byte list) list \<Rightarrow> block list" where
  "parts_at buf i [] = []"
| "parts_at buf i ((t, v) # es) =
     (let k = i + length (tlv_bytes t v)
      in Block_parts buf t i k (k - length v) k # parts_at buf k es)"

lemma parse_loop_parts_at:
  assumes "chunk buf i j = elements_bytes es"
    and "i \<le> j" "j \<le> length buf" and "length (chunk buf i j) < 2 ^ 64"
  shows "parse_loop buf i j acc = (None, acc @ parts_at buf i es)"
  using assms
proof (induction es arbitrary: i acc)
  case Nil
  then have "i = j" by (simp add: chunk_empty_iff)
  then show ?case by (simp add: parse_loop.simps)
next
  case (Cons e es)
  obtain t v where e: "e = (t, v)" by force
  define r where "r = elements_bytes es"
  have split: "chunk buf i j = tlv_bytes t v @ r" using Cons.prems(1) e r_def by simp
  then have hdr: "readHeader (chunk buf i j) = Inr (t, of_nat (length v), v @ r)"
    by (simp add: readHeader_tlv_bytes)
  have ne: "i \<noteq> j" using split by (metis Nil_is_append_conv chunk_same tlv_bytes_not_Nil)
  have bound: "length (v @ r) < 2 ^ 64" using Cons.prems(4) split by simp
  then have lv: "unat (of_nat (length v) :: u64) = length v" by (simp add: unat_u64_of_nat)
  have len: "\<not> (of_nat (length v) :: u64) > of_nat (length (v @ r))"
    using bound of_nat_u64_le_iff [of "length v" "length (v @ r)"] by (simp add: not_less del: of_nat_add)
  define k where "k = i + length (tlv_bytes t v)"
  have "j - i = length (tlv_bytes t v) + length r"
    using arg_cong [OF split, of length] Cons.prems(2,3) by (simp del: length_tlv_bytes)
  then have k: "j - length (v @ r) + length v = k" "j - length (v @ r) = k - length v" "k \<le> j"
    using Cons.prems(2) length_tlv_bytes_le [of t v] by (auto simp: k_def)
  have rest: "chunk buf k j = r"
    using arg_cong [OF split, of "drop (length (tlv_bytes t v))"] by (simp add: k_def drop_chunk del: length_tlv_bytes)
  have "parse_loop buf i j acc = parse_loop buf k j (acc @ [Block_parts buf t i k (k - length v) k])"
    using parse_loop_step [OF hdr ne len, of acc] lv k by simp
  also have "\<dots> = (None, (acc @ [Block_parts buf t i k (k - length v) k]) @ parts_at buf k es)"
    using Cons.prems(3) k(3) rest bound r_def by (intro Cons.IH) simp_all
  finally show ?case by (simp add: e k_def Let_def)
qed

lemma parse_parts_at:
  assumes "fresh w" "value_bytes w = elements_bytes es" "parse w = (None, b)"
  shows "m_subBlocks b = parts_at (buffer_of w) (m_value_begin w) es"
proof -
  have w: "m_subBlocks w = []" "hasValue w" "iterators_ok w" "length (value_bytes w) < 2 ^ 64"
    using assms(1) fresh_value [OF assms(1)] wf_block_iff [of w] by (auto simp: fresh_def hasWire_def hasValue_def)
  show ?thesis
  proof (cases "value_size w = 0")
    case True
    then have "value_bytes w = []" using value_size_bytes [OF w(3)] by simp
    then have "es = []" using assms(2) by (cases es) auto
    with True assms(3) w(1) show ?thesis by (auto simp: parse_def)
  next
    case False
    then show ?thesis
      using parse_loop_parts_at [of "buffer_of w" "m_value_begin w" "m_value_end w" es "[]"] w assms(2,3)
      unfolding value_bytes_def iterators_ok_def by (auto simp: parse_def)
  qed
qed

lemma parts_at_append:
  "parts_at buf i (xs @ ys) = parts_at buf i xs @ parts_at buf (i + length (elements_bytes xs)) ys"
  by (induction buf i xs rule: parts_at.induct) (simp_all add: Let_def add.assoc)

lemma parts_at_types: "map m_type (parts_at buf i es) = map fst es"
  by (induction buf i es rule: parts_at.induct) (simp_all add: Let_def)

lemma find_part:
  assumes "m_subBlocks b = parts_at buf i (pre @ (t, v) # post)" "t \<notin> fst ` set pre"
  shows "find_element t b = Some (let k = i + length (elements_bytes (pre @ [(t, v)])) in
    Block_parts buf t (i + length (elements_bytes pre)) k (k - length v) k)"
proof -
  have "\<forall>s \<in> set (parts_at buf i pre). m_type s \<noteq> t"
    using assms(2) parts_at_types [of buf i pre] by (metis image_eqI list.set_map)
  then have "takeWhile (\<lambda>s. m_type s \<noteq> t) (m_subBlocks b) = parts_at buf i pre"
    using assms(1) by (simp add: parts_at_append Let_def takeWhile_append2)
  then show ?thesis
    using assms(1) by (simp add: find_element_def Block_find_def Let_def parts_at_append nth_append add.assoc)
qed

text \<open>Overwriting the value of an element by as many bytes.\<close>

lemma overwrite_element:
  assumes "fresh w" "m_value_end w = m_end w" "wire_bytes w = tlv_bytes t (elements_bytes (pre @ (u, v) # post))"
    and "value_bytes w = elements_bytes (pre @ (u, v) # post)" "length bs = length v"
    and "k = m_value_begin w + length (elements_bytes (pre @ [(u, v)]))"
  shows "chunk (overwrite (k - length v) bs (buffer_of w)) (m_begin w) (m_end w)
      = tlv_bytes t (elements_bytes (pre @ (u, bs) # post))" (is ?wi)
    and "chunk (overwrite (k - length v) bs (buffer_of w)) (k - length v) k = bs" (is ?val)
    and "k \<le> length (buffer_of w)" "length v \<le> k"
proof -
  let ?buf = "buffer_of w" and ?o = "k - length v"
  define H where "H = varNumber_bytes (ucast t) @ varNumber_bytes (of_nat (length (elements_bytes (pre @ (u, v) # post))))"
  define hu where "hu = varNumber_bytes (ucast u) @ varNumber_bytes (of_nat (length v))"
  have H: "tlv_bytes t (elements_bytes (pre @ (u, x) # post)) = H @ elements_bytes pre @ hu @ x @ elements_bytes post"
    "tlv_bytes u x = hu @ x" if "length x = length v" for x
    using that by (simp_all add: tlv_bytes_def H_def hu_def)
  have it: "m_begin w \<le> m_end w" "m_end w \<le> length ?buf" "m_value_begin w \<le> m_value_end w"
    using assms(1) wf_block_iff [of w] by (auto simp: fresh_def iterators_ok_def hasWire_def hasValue_def)
  have wire: "chunk ?buf (m_begin w) (m_end w) = H @ elements_bytes pre @ hu @ v @ elements_bytes post"
    using assms(3) H(1) [OF refl] by (simp add: wire_bytes_def)
  have val: "chunk ?buf (m_value_begin w) (m_end w) = elements_bytes pre @ hu @ v @ elements_bytes post"
    using assms(2,4) H(2) [OF refl] by (simp add: value_bytes_def)
  have len: "m_end w - m_begin w = length H + length (elements_bytes pre) + length hu + length v + length (elements_bytes post)"
    "m_end w - m_value_begin w = length (elements_bytes pre) + length hu + length v + length (elements_bytes post)"
    using arg_cong [OF wire, of length] arg_cong [OF val, of length] it by simp_all
  have k: "k = m_value_begin w + length (elements_bytes pre) + length hu + length v"
    using assms(6) H(2) [OF refl] by (simp del: length_tlv_bytes)
  then have o: "?o = m_begin w + length H + length (elements_bytes pre) + length hu" "?o + length bs = k" "k \<le> m_end w"
    using len it assms(2,5) by auto
  have "chunk ?buf (m_begin w) ?o = take (?o - m_begin w) (chunk ?buf (m_begin w) (m_end w))"
    using take_chunk [of "m_begin w" "?o - m_begin w" "m_end w" ?buf] o by (simp add: add.assoc)
  also have "\<dots> = H @ elements_bytes pre @ hu" unfolding wire using o by simp
  finally have before: "chunk ?buf (m_begin w) ?o = H @ elements_bytes pre @ hu" .
  have "chunk ?buf k (m_end w) = drop (k - m_begin w) (chunk ?buf (m_begin w) (m_end w))"
    using o by (simp add: drop_chunk)
  also have "\<dots> = elements_bytes post" unfolding wire using o assms(5) by simp
  finally have after: "chunk ?buf k (m_end w) = elements_bytes post" .
  show ?wi
    using chunk_overwrite [of "m_begin w" ?o bs "m_end w" ?buf] o it before after H(1) [OF assms(5)] by simp
  show ?val using chunk_overwrite [of ?o ?o bs k ?buf] o it by simp
  show "k \<le> length ?buf" "length v \<le> k" using o it k by auto
qed

text \<open>The elements of a canonical value are canonical.\<close>

lemma parts_at_bytes:
  assumes "chunk buf i j = elements_bytes es" "i \<le> j" "j \<le> length buf"
  shows "map wire_bytes (parts_at buf i es) = map (\<lambda>(t, v). tlv_bytes t v) es"
  using assms
proof (induction buf i es rule: parts_at.induct)
  case (2 buf i t v es)
  let ?k = "i + length (tlv_bytes t v)"
  have split: "chunk buf i j = tlv_bytes t v @ elements_bytes es" using 2(2) by simp
  have "j - i = length (tlv_bytes t v) + length (elements_bytes es)"
    using arg_cong [OF split, of length] 2(3,4) by (simp del: length_tlv_bytes)
  then have k: "?k \<le> j" using 2(3) by simp
  have "chunk buf ?k j = elements_bytes es" "chunk buf i ?k = tlv_bytes t v"
    using arg_cong [OF split, of "drop (length (tlv_bytes t v))"] arg_cong [OF split, of "take (length (tlv_bytes t v))"]
      take_chunk [of i "length (tlv_bytes t v)" j buf] k by (simp_all add: drop_chunk del: length_tlv_bytes)
  with 2(1) [OF refl _ k 2(4)] show ?case by (simp add: Let_def del: length_tlv_bytes)
qed simp

lemma parse_canonical:
  assumes "fresh w" "value_bytes w = elements_bytes es" "parse w = (None, b)"
  shows "map wire_bytes (m_subBlocks b) = map (\<lambda>(t, v). tlv_bytes t v) es"
proof -
  have "iterators_ok w" "hasValue w"
    using assms(1) wf_block_iff [of w] by (auto simp: fresh_def hasWire_def hasValue_def)
  then show ?thesis
    unfolding parse_parts_at [OF assms]
    using assms(2) by (intro parts_at_bytes [of _ _ "m_value_end w"]) (auto simp: value_bytes_def iterators_ok_def)
qed

end
