(* ===== verification/Interest.thy ===== *)
theory Interest
  imports Link Selectors SharedBuffer
begin

text \<open>
  Interest packets, after \<open>src/interest.{hpp,cpp}\<close>.

  The nonce of a decoded Interest is an element of its wire, and both blocks point into one buffer, which \<open>setNonce\<close> overwrites in
  place. Blocks of the model own their bytes, so the record says in \<open>i_nonceInWire\<close> whether \<open>m_nonce\<close> points into the buffer
  of \<open>m_wire\<close>, and an overwritten buffer is replaced in every block of the object that a caller can read the nonce from.

  A nonce is stored in the byte order of the host, which is a parameter (\<open>le\<close>: little-endian), as is the
  generator behind \<open>random::generateWord32\<close>, a function on the generator's state.
\<close>

section \<open>The class\<close>

record interest =
  i_name :: name
  i_selectors :: selectors
  i_nonce :: block
  i_interestLifetime :: int
  i_link :: block
  i_linkCached :: "link option"
  i_selectedDelegationIndex :: "nat option"
  i_wire :: block
  i_nonceInWire :: bool

definition DEFAULT_INTEREST_LIFETIME :: int where
  "DEFAULT_INTEREST_LIFETIME = 4000"

definition Interest_new :: "name \<Rightarrow> int \<Rightarrow> interest" where
  "Interest_new name interestLifetime =
     \<lparr>i_name = name, i_selectors = Selectors_default, i_nonce = Block_default, i_interestLifetime = interestLifetime,
      i_link = Block_default, i_linkCached = None, i_selectedDelegationIndex = None, i_wire = Block_default,
      i_nonceInWire = False\<rparr>"

definition Interest_ofName :: "name \<Rightarrow> interest" where
  "Interest_ofName name = Interest_new name milliseconds_min"

definition Interest_default :: interest where
  "Interest_default = Interest_ofName Name_default"

definition wire_reset :: "interest \<Rightarrow> interest" where
  "wire_reset i = i\<lparr>i_wire := Block_reset (i_wire i)\<rparr>"

definition Interest_setName :: "interest \<Rightarrow> name \<Rightarrow> interest" where
  "Interest_setName i name = wire_reset (i\<lparr>i_name := name\<rparr>)"

definition setInterestLifetime :: "interest \<Rightarrow> int \<Rightarrow> interest" where
  "setInterestLifetime i interestLifetime = wire_reset (i\<lparr>i_interestLifetime := interestLifetime\<rparr>)"

definition setSelectors :: "interest \<Rightarrow> selectors \<Rightarrow> interest" where
  "setSelectors i selectors = wire_reset (i\<lparr>i_selectors := selectors\<rparr>)"

definition Interest_setMinSuffixComponents :: "interest \<Rightarrow> int \<Rightarrow> interest" where
  "Interest_setMinSuffixComponents i n = wire_reset (i\<lparr>i_selectors := setMinSuffixComponents (i_selectors i) n\<rparr>)"

definition Interest_setMaxSuffixComponents :: "interest \<Rightarrow> int \<Rightarrow> interest" where
  "Interest_setMaxSuffixComponents i n = wire_reset (i\<lparr>i_selectors := setMaxSuffixComponents (i_selectors i) n\<rparr>)"

definition Interest_setPublisherPublicKeyLocator :: "interest \<Rightarrow> key_locator \<Rightarrow> interest" where
  "Interest_setPublisherPublicKeyLocator i k = wire_reset (i\<lparr>i_selectors := setPublisherPublicKeyLocator (i_selectors i) k\<rparr>)"

definition Interest_setExclude :: "interest \<Rightarrow> exclude \<Rightarrow> interest" where
  "Interest_setExclude i e = wire_reset (i\<lparr>i_selectors := setExclude (i_selectors i) e\<rparr>)"

definition Interest_setChildSelector :: "interest \<Rightarrow> int \<Rightarrow> interest" where
  "Interest_setChildSelector i n = wire_reset (i\<lparr>i_selectors := setChildSelector (i_selectors i) n\<rparr>)"

definition Interest_setMustBeFresh :: "interest \<Rightarrow> bool \<Rightarrow> interest" where
  "Interest_setMustBeFresh i b = wire_reset (i\<lparr>i_selectors := setMustBeFresh (i_selectors i) b\<rparr>)"

definition hasSelectors :: "interest \<Rightarrow> bool" where
  "hasSelectors i = (\<not> Selectors_empty (i_selectors i))"

section \<open>Nonce\<close>

definition hasNonce :: "interest \<Rightarrow> bool" where
  "hasNonce i = hasWire (i_nonce i)"

text \<open>The memory image of a \<open>uint32_t\<close>.\<close>

definition word32_bytes :: "bool \<Rightarrow> u32 \<Rightarrow> byte list" where
  "word32_bytes le n = (let bs = be_encode 4 (unat n) in if le then rev bs else bs)"

definition word32_of_bytes :: "bool \<Rightarrow> byte list \<Rightarrow> u32" where
  "word32_of_bytes le bs = of_nat (be_decode (if le then rev bs else bs))"

definition setNonce :: "bool \<Rightarrow> interest \<Rightarrow> u32 \<Rightarrow> interest result" where
  "setNonce le i nonce =
     (if hasWire (i_wire i) \<and> value_size (i_nonce i) = 4
      then let old = buffer_of (i_nonce i);
               new = overwrite (m_value_begin (i_nonce i)) (word32_bytes le nonce) old
           in Inr (i\<lparr>i_nonce := rebuffer old new (i_nonce i),
                     i_wire := if i_nonceInWire i then rebuffer old new (i_wire i) else i_wire i\<rparr>)
      else bindE (makeBinaryBlock tlv_Nonce (word32_bytes le nonce)) (\<lambda>b. Inr (wire_reset (i\<lparr>i_nonce := b\<rparr>))))"

type_synonym 'g generator = "'g \<Rightarrow> u32 \<times> 'g"

definition getNonce :: "bool \<Rightarrow> 'g generator \<Rightarrow> interest \<Rightarrow> 'g \<Rightarrow> (u32 \<times> interest \<times> 'g) result" where
  "getNonce le generateWord32 i g =
     bindE (if \<not> hasWire (i_nonce i)
            then case generateWord32 g of (n, g) \<Rightarrow> bindE (setNonce le i n) (\<lambda>i. Inr (i, g))
            else Inr (i, g)) (\<lambda>(i, g).
       if value_size (i_nonce i) = 4 then Inr (word32_of_bytes le (value_bytes (i_nonce i)), i, g)
       else bindE (block_readNonNegativeInteger (i_nonce i)) (\<lambda>n. Inr (ucast n, i, g)))"

text \<open>The loop of \<open>refreshNonce\<close>; it has no value if the generator repeats the old nonce for ever.\<close>

partial_function (option) other_word :: "'g generator \<Rightarrow> u32 \<Rightarrow> u32 \<Rightarrow> 'g \<Rightarrow> (u32 \<times> 'g) option" where
  [code]: "other_word generateWord32 oldNonce newNonce g =
     (if newNonce = oldNonce
      then (case generateWord32 g of (n, g) \<Rightarrow> other_word generateWord32 oldNonce n g)
      else Some (newNonce, g))"

definition refreshNonce :: "bool \<Rightarrow> 'g generator \<Rightarrow> interest \<Rightarrow> 'g \<Rightarrow> (interest \<times> 'g) result option" where
  "refreshNonce le generateWord32 i g =
     (if \<not> hasNonce i then Some (Inr (i, g))
      else case getNonce le generateWord32 i g of
             Inl err \<Rightarrow> Some (Inl err)
           | Inr (oldNonce, i, g) \<Rightarrow>
               map_option (\<lambda>(newNonce, g). bindE (setNonce le i newNonce) (\<lambda>i. Inr (i, g)))
                 (other_word generateWord32 oldNonce oldNonce g))"

section \<open>Link and selected delegation\<close>

definition hasLink :: "interest \<Rightarrow> bool" where
  "hasLink i = hasWire (i_link i)"

definition getLink :: "interest \<Rightarrow> (link \<times> interest) result" where
  "getLink i =
     (if hasLink i
      then case i_linkCached i of
             None \<Rightarrow> bindE (Link_ofBlock (i_link i)) (\<lambda>l. Inr (l, i\<lparr>i_linkCached := Some l\<rparr>))
           | Some l \<Rightarrow> Inr (l, i)
      else Inl (InterestError ''There is no encapsulated link object''))"

definition unsetSelectedDelegation :: "interest \<Rightarrow> interest" where
  "unsetSelectedDelegation i = wire_reset (i\<lparr>i_selectedDelegationIndex := None\<rparr>)"

definition setLink :: "interest \<Rightarrow> block \<Rightarrow> error option \<times> interest" where
  "setLink i link =
     (let i = i\<lparr>i_link := link\<rparr>
      in if \<not> hasWire link then (Some (InterestError ''The given link does not have a wire format''), i)
         else (None, unsetSelectedDelegation ((wire_reset i)\<lparr>i_linkCached := None\<rparr>)))"

definition unsetLink :: "interest \<Rightarrow> interest" where
  "unsetLink i =
     unsetSelectedDelegation ((wire_reset (i\<lparr>i_link := Block_reset (i_link i)\<rparr>))\<lparr>i_linkCached := None\<rparr>)"

definition hasSelectedDelegation :: "interest \<Rightarrow> bool" where
  "hasSelectedDelegation i = (i_selectedDelegationIndex i \<noteq> None)"

definition getSelectedDelegation :: "interest \<Rightarrow> name result" where
  "getSelectedDelegation i =
     (case i_selectedDelegationIndex i of
        None \<Rightarrow> Inl (InterestError ''There is no encapsulated selected delegation'')
      | Some n \<Rightarrow> bindE (getDelegationFromWire (i_link i) n) (\<lambda>d. Inr (snd d)))"

definition setSelectedDelegation_name :: "interest \<Rightarrow> name \<Rightarrow> interest result" where
  "setSelectedDelegation_name i delegationName =
     bindE (findDelegationFromWire (i_link i) delegationName) (\<lambda>r.
       case r of
         Some delegationIndex \<Rightarrow> Inr (wire_reset (i\<lparr>i_selectedDelegationIndex := Some delegationIndex\<rparr>))
       | None \<Rightarrow> Inl (InvalidArgument ''Invalid selected delegation name''))"

definition setSelectedDelegation_index :: "interest \<Rightarrow> nat \<Rightarrow> interest result" where
  "setSelectedDelegation_index i delegationIndex =
     bindE (Link_ofBlock (i_link i)) (\<lambda>l.
       if delegationIndex \<ge> length (l_delegations l) then Inl (InterestError ''Invalid selected delegation index'')
       else Inr (wire_reset (i\<lparr>i_selectedDelegationIndex := Some delegationIndex\<rparr>)))"

section \<open>Wire\<close>

definition Interest_wireEncode_to ::
    "'e EncodingImpl \<Rightarrow> bool \<Rightarrow> 'g generator \<Rightarrow> interest \<Rightarrow> 'g \<Rightarrow> 'e \<Rightarrow> (nat \<times> 'e \<times> interest \<times> 'g) result" where
  "Interest_wireEncode_to ops le generateWord32 i g e =
     (if \<not> hasLink i \<and> hasSelectedDelegation i then Inl (AssertionFailure ''!hasSelectedDelegation()'')
      else
        bindE (getNonce le generateWord32 i g) (\<lambda>(_, i, g).
        bindE (run_stepsE
          ((if hasLink i
            then (case i_selectedDelegationIndex i of
                    Some n \<Rightarrow> [\<lambda>_ e. Inr (prependNonNegativeIntegerBlock ops tlv_SelectedDelegation (of_nat n) e)]
                  | None \<Rightarrow> []) @
                 [\<lambda>_ e. Inr (op_prependBlock ops e (i_link i))]
            else []) @
           (if i_interestLifetime i \<ge> 0 \<and> i_interestLifetime i \<noteq> DEFAULT_INTEREST_LIFETIME
            then [\<lambda>_ e. Inr (prependNonNegativeIntegerBlock ops tlv_InterestLifetime (of_int (i_interestLifetime i)) e)]
            else []) @
           [\<lambda>_ e. Inr (op_prependBlock ops e (i_nonce i))] @
           (if hasSelectors i then [\<lambda>_. Selectors_wireEncode_to ops (i_selectors i)] else []) @
           [\<lambda>_ e. Inr (Name_wireEncode_to ops (i_name i) e)] @
           header_steps ops tlv_Interest) e) (\<lambda>(totalLength, e).
          Inr (totalLength, e, i, g))))"

definition Interest_wireDecode :: "interest \<Rightarrow> block \<Rightarrow> error option \<times> interest" where
  "Interest_wireDecode i wire =
     (case parse wire of
        (Some err, b) \<Rightarrow> (Some err, i\<lparr>i_wire := b, i_nonceInWire := False\<rparr>)
      | (None, b) \<Rightarrow>
          run_decoders
            [\<lambda>i. (if m_type b \<noteq> tlv_Interest
                   then Some (InterestError ''Unexpected TLV number when decoding Interest'') else None, i),
             decode_required b tlv_Name (\<lambda>val i.
               case Name_wireDecode (i_name i) val of (err, n) \<Rightarrow> (err, i\<lparr>i_name := n\<rparr>)),
             \<lambda>i. (case find_element tlv_Selectors b of
                      Some val \<Rightarrow> (case Selectors_wireDecode (i_selectors i) val of (err, s) \<Rightarrow> (err, i\<lparr>i_selectors := s\<rparr>))
                    | None \<Rightarrow> (None, i\<lparr>i_selectors := Selectors_default\<rparr>)),
             decode_required b tlv_Nonce (\<lambda>val i.
               (None, i\<lparr>i_nonce := val, i_nonceInWire := (m_buffer val = m_buffer b)\<rparr>)),
             \<lambda>i. (case find_element tlv_InterestLifetime b of
                      Some val \<Rightarrow> decode_number (\<lambda>n i. i\<lparr>i_interestLifetime := sint n\<rparr>) val i
                    | None \<Rightarrow> (None, i\<lparr>i_interestLifetime := DEFAULT_INTEREST_LIFETIME\<rparr>)),
             \<lambda>i. (None, i\<lparr>i_linkCached := None,
                           i_link := case find_element tlv_Data b of Some val \<Rightarrow> val | None \<Rightarrow> Block_default\<rparr>),
             \<lambda>i. (case find_element tlv_SelectedDelegation b of
                      Some val \<Rightarrow>
                        if \<not> hasLink i
                        then (Some (InterestError ''Interest contains SelectedDelegation, but no LINK object''), i)
                        else (case bindE (block_readNonNegativeInteger val) (\<lambda>selectedDelegation.
                                   bindE (countDelegationsFromWire (i_link i)) (\<lambda>n.
                                     if unat selectedDelegation < n then Inr (unat selectedDelegation)
                                     else Inl (InterestError ''Invalid selected delegation index when decoding Interest''))) of
                                Inl err \<Rightarrow> (Some err, i)
                              | Inr n \<Rightarrow> (None, i\<lparr>i_selectedDelegationIndex := Some n\<rparr>))
                    | None \<Rightarrow> (None, i\<lparr>i_selectedDelegationIndex := None\<rparr>))]
            (i\<lparr>i_wire := b, i_nonceInWire := False\<rparr>))"

text \<open>
  The constructor leaves the lifetime and the index uninitialised; \<open>wireDecode\<close> assigns both unless it throws.
\<close>

definition Interest_ofBlock :: "block \<Rightarrow> interest result" where
  "Interest_ofBlock wire =
     (case Interest_wireDecode Interest_default wire of (None, i) \<Rightarrow> Inr i | (Some err, _) \<Rightarrow> Inl err)"

definition Interest_wireEncode :: "bool \<Rightarrow> 'g generator \<Rightarrow> interest \<Rightarrow> 'g \<Rightarrow> (block \<times> interest \<times> 'g) result" where
  "Interest_wireEncode le generateWord32 i g =
     (if hasWire (i_wire i) then Inr (i_wire i, i, g)
      else
        bindE (Interest_wireEncode_to EncodingEstimator le generateWord32 i g ()) (\<lambda>(estimatedSize, _, i, g).
        bindE (Interest_wireEncode_to EncodingBuffer le generateWord32 i g (Encoder_new estimatedSize 0)) (\<lambda>(_, buffer, i, g).
        bindE (Encoder_block buffer True) (\<lambda>blk.
          case Interest_wireDecode i blk of
            (Some err, _) \<Rightarrow> Inl err
          | (None, i) \<Rightarrow> Inr (i_wire i, i, g)))))"

definition Interest_equal ::
    "bool \<Rightarrow> 'g generator \<Rightarrow> interest \<Rightarrow> interest \<Rightarrow> 'g \<Rightarrow> (bool \<times> interest \<times> interest \<times> 'g) result" where
  "Interest_equal le generateWord32 i other g =
     bindE (Interest_wireEncode le generateWord32 i g) (\<lambda>(w, i, g).
     bindE (Interest_wireEncode le generateWord32 other g) (\<lambda>(w', other, g).
     bindE (Block_equal w w') (\<lambda>r. Inr (r, i, other, g))))"

section \<open>Printing\<close>

text \<open>\<open>operator<<\<close>: the parameters that are present, the first after a question mark and the others after an ampersand.\<close>

definition uri_params :: "string list \<Rightarrow> string" where
  "uri_params ps = (case ps of [] \<Rightarrow> [] | p # ps \<Rightarrow> ''?'' @ p @ concat (map (\<lambda>p. ''&'' @ p) ps))"

definition count_param :: "string \<Rightarrow> int \<Rightarrow> string list" where
  "count_param key n = (if n \<ge> 0 then [key @ show_nat (nat n)] else [])"

definition Interest_toUri :: "bool \<Rightarrow> 'g generator \<Rightarrow> interest \<Rightarrow> 'g \<Rightarrow> string result" where
  "Interest_toUri le generateWord32 i g =
     (let s = i_selectors i
      in bindE (if hasNonce i then bindE (getNonce le generateWord32 i g) (\<lambda>(n, _). Inr [''ndn.Nonce='' @ show_nat (unat n)])
                else Inr []) (\<lambda>nonce.
           Inr (Name_toUri (i_name i) @ uri_params
             (count_param ''ndn.MinSuffixComponents='' (sel_minSuffixComponents s) @
              count_param ''ndn.MaxSuffixComponents='' (sel_maxSuffixComponents s) @
              count_param ''ndn.ChildSelector='' (sel_childSelector s) @
              (if sel_mustBeFresh s then [''ndn.MustBeFresh=1''] else []) @
              (if i_interestLifetime i \<noteq> DEFAULT_INTEREST_LIFETIME
               then count_param ''ndn.InterestLifetime='' (i_interestLifetime i) else []) @
              nonce @
              (if \<not> Exclude_empty (sel_exclude s) then [''ndn.Exclude='' @ Exclude_toUri (sel_exclude s)] else [])))))"

section \<open>Abstract Interests\<close>

text \<open>
  The values that an Interest carries on the wire. A negative lifetime is not sent, and a receiver takes the default for a
  lifetime that is not there.
\<close>

datatype ipacket = IPacket (ip_name: "comp list") (ip_sels: sels) (ip_nonce: "byte list") (ip_lifetime: int)
  (ip_link: "byte list option") (ip_selected: "nat option")

definition lifetime_of :: "int \<Rightarrow> int" where
  "lifetime_of ms = (if ms \<ge> 0 then ms else DEFAULT_INTEREST_LIFETIME)"

definition interest_of :: "interest \<Rightarrow> ipacket" where
  "interest_of i = IPacket (name_of (i_name i)) (sels_of (i_selectors i)) (value_bytes (i_nonce i))
     (lifetime_of (i_interestLifetime i)) (if hasLink i then Some (value_bytes (i_link i)) else None)
     (i_selectedDelegationIndex i)"

definition no_sels :: sels where
  "no_sels = Sels None None NoKey [] None False"

definition link_elements :: "byte list option \<Rightarrow> nat option \<Rightarrow> (u32 \<times> byte list) list" where
  "link_elements link selected =
     (case link of
        None \<Rightarrow> []
      | Some v \<Rightarrow> (tlv_Data, v) # (case selected of Some n \<Rightarrow> [(tlv_SelectedDelegation, nni_bytes (of_nat n))] | None \<Rightarrow> []))"

definition before_nonce :: "ipacket \<Rightarrow> (u32 \<times> byte list) list" where
  "before_nonce p = (tlv_Name, comps_value (ip_name p))
     # (if ip_sels p \<noteq> no_sels then [(tlv_Selectors, sels_value (ip_sels p))] else [])"

definition after_nonce :: "ipacket \<Rightarrow> (u32 \<times> byte list) list" where
  "after_nonce p =
     (if ip_lifetime p \<noteq> DEFAULT_INTEREST_LIFETIME then [(tlv_InterestLifetime, nni_bytes (of_int (ip_lifetime p)))] else [])
     @ link_elements (ip_link p) (ip_selected p)"

definition interest_elements :: "ipacket \<Rightarrow> (u32 \<times> byte list) list" where
  "interest_elements p = before_nonce p @ (tlv_Nonce, ip_nonce p) # after_nonce p"

definition interest_value :: "ipacket \<Rightarrow> byte list" where
  "interest_value p = elements_bytes (interest_elements p)"

text \<open>A selected delegation is the index of an element of the content of the link.\<close>

definition selectable :: "byte list option \<Rightarrow> nat \<Rightarrow> bool" where
  "selectable link n \<longleftrightarrow> n < 2 ^ 64
     \<and> (\<exists>p xs. link = Some (packet_value p) \<and> p_content p = elements_bytes xs \<and> n < length xs)"

definition good_interest :: "ipacket \<Rightarrow> bool" where
  "good_interest p \<longleftrightarrow> (\<forall>c \<in> set (ip_name p). is_comp c) \<and> good_sels (ip_sels p)
     \<and> 0 \<le> ip_lifetime p \<and> ip_lifetime p < 2 ^ 63 \<and> (\<forall>n. ip_selected p = Some n \<longrightarrow> selectable (ip_link p) n)"

lemma sels_of_default [simp]: "sels_of Selectors_default = no_sels"
  by (simp add: sels_of_def no_sels_def Selectors_default_def count_of_def locator_of_def KeyLocator_default_def entries_def
      Exclude_default_def)

lemma hasSelectors_iff: "hasSelectors i \<longleftrightarrow> sels_of (i_selectors i) \<noteq> no_sels"
  by (auto simp: hasSelectors_def Selectors_empty_def sels_of_def no_sels_def count_of_def KeyLocator_empty_def locator_of_def
      Exclude_empty_def entries_def split: KeyLocator_Type.splits)

section \<open>Decoding\<close>

lemma interest_lookup:
  "map_of (interest_elements p) tlv_Name = Some (comps_value (ip_name p))"
  "map_of (interest_elements p) tlv_Selectors = (if ip_sels p \<noteq> no_sels then Some (sels_value (ip_sels p)) else None)"
  "map_of (interest_elements p) tlv_Nonce = Some (ip_nonce p)"
  "map_of (interest_elements p) tlv_InterestLifetime =
     (if ip_lifetime p \<noteq> DEFAULT_INTEREST_LIFETIME then Some (nni_bytes (of_int (ip_lifetime p))) else None)"
  "map_of (interest_elements p) tlv_Data = ip_link p"
  "map_of (interest_elements p) tlv_SelectedDelegation =
     (if ip_link p = None then None else map_option (\<lambda>n. nni_bytes (of_nat n)) (ip_selected p))"
  by (simp_all add: interest_elements_def before_nonce_def after_nonce_def link_elements_def tlv_codes split: option.split)

lemma countDelegations_link:
  assumes "fresh w" "value_bytes w = packet_value p" "p_content p = elements_bytes xs"
  shows "countDelegationsFromWire w = Inr (length xs)"
proof -
  have "type_value w = (m_type w, packet_value p)" using assms(2) by (simp add: type_value_def)
  from content_of_wire_spec [OF assms(1) this assms(3)] obtain c where "content_of_wire w = Inr c"
    "map type_value (m_subBlocks c) = xs" by metis
  then show ?thesis by (auto simp: countDelegationsFromWire_def)
qed

text \<open>Decoding the link and the selected delegation, the last two steps.\<close>

lemma decode_selected:
  assumes "map type_value (m_subBlocks b) = interest_elements p" "\<forall>s \<in> set (m_subBlocks b). fresh s" "good_interest p"
  obtains l where "(case find_element tlv_Data b of Some val \<Rightarrow> val | None \<Rightarrow> Block_default) = l"
    "hasWire l \<longleftrightarrow> ip_link p \<noteq> None" "\<And>v. ip_link p = Some v \<Longrightarrow> fresh l \<and> type_value l = (tlv_Data, v)"
    "\<And>n. ip_selected p = Some n \<Longrightarrow> hasWire l
       \<and> (\<exists>val m. find_element tlv_SelectedDelegation b = Some val \<and> block_readNonNegativeInteger val = Inr (of_nat n)
           \<and> countDelegationsFromWire l = Inr m \<and> n < m \<and> unat (of_nat n :: u64) = n)"
    "ip_selected p = None \<Longrightarrow> find_element tlv_SelectedDelegation b = None"
proof (cases "ip_link p")
  case None
  then have sel: "ip_selected p = None" using assms(3) by (auto simp: good_interest_def selectable_def)
  have "find_element tlv_Data b = None" "find_element tlv_SelectedDelegation b = None"
    using find_element_None [OF assms(1)] None by (simp_all add: interest_lookup)
  with None sel that [of Block_default] show ?thesis by (simp add: hasWire_def Block_default_def)
next
  case (Some v)
  obtain l where l: "find_element tlv_Data b = Some l" "fresh l" "type_value l = (tlv_Data, v)"
    using find_element_Some [OF assms(1) _ assms(2), of tlv_Data v] Some by (auto simp: interest_lookup)
  have wire: "hasWire l" using l(2) by (simp add: fresh_def)
  show ?thesis
  proof (cases "ip_selected p")
    case None
    then have "find_element tlv_SelectedDelegation b = None"
      using find_element_None [OF assms(1)] by (simp add: interest_lookup)
    with None Some l wire that [of l] show ?thesis by simp
  next
    case sel: (Some n)
    then obtain q xs where q: "v = packet_value q" "p_content q = elements_bytes xs" "n < length xs" "n < 2 ^ 64"
      using assms(3) Some by (auto simp: good_interest_def selectable_def)
    obtain val where val: "find_element tlv_SelectedDelegation b = Some val" "fresh val"
      "type_value val = (tlv_SelectedDelegation, nni_bytes (of_nat n))"
      using find_element_Some [OF assms(1) _ assms(2), of tlv_SelectedDelegation "nni_bytes (of_nat n)"] Some sel
      by (auto simp: interest_lookup)
    have "block_readNonNegativeInteger val = Inr (of_nat n)"
      using read_element [OF _ val(3)] val(2) by (simp add: fresh_def)
    moreover have "countDelegationsFromWire l = Inr (length xs)"
      using countDelegations_link [OF l(2) _ q(2)] l(3) q(1) by (simp add: type_value_def)
    ultimately show ?thesis using that [of l] Some sel l wire val(1) q(3,4) by (simp add: unat_u64_of_nat)
  qed
qed

lemma Interest_wireDecode_spec:
  assumes "fresh w" "type_value w = (tlv_Interest, interest_value p)" "good_interest p"
  obtains i' where "Interest_wireDecode i w = (None, i')" "interest_of i' = p" "parse w = (None, i_wire i')"
    "find_element tlv_Nonce (i_wire i') = Some (i_nonce i')" "fresh (i_nonce i')" "m_type (i_nonce i') = tlv_Nonce"
    "i_nonceInWire i' \<longleftrightarrow> m_buffer (i_nonce i') = m_buffer (i_wire i')" "is_name (i_name i')"
    "hasWire (i_wire i')" "wf_block (i_wire i')" "wire_bytes (i_wire i') = wire_bytes w" "i_linkCached i' = None"
proof -
  have v: "value_bytes w = elements_bytes (interest_elements p)" "m_type w = tlv_Interest"
    using assms(2) by (simp_all add: type_value_def interest_value_def)
  obtain b where b: "parse w = (None, b)" "map type_value (m_subBlocks b) = interest_elements p"
    "\<forall>x \<in> set (m_subBlocks b). fresh x" "m_type b = tlv_Interest" "hasWire b" "wf_block b" "wire_bytes b = wire_bytes w"
    using parse_fresh [OF assms(1) v(1)] v(2) by metis
  have good: "\<forall>c \<in> set (ip_name p). is_comp c" "good_sels (ip_sels p)" using assms(3) by (simp_all add: good_interest_def)
  note found = find_element_Some [OF b(2) _ b(3)]
  obtain e1 where e1: "find_element tlv_Name b = Some e1" "fresh e1" "type_value e1 = (tlv_Name, comps_value (ip_name p))"
    using found [OF interest_lookup(1)] .
  obtain n where n: "Name_wireDecode (i_name i) e1 = (None, n)" "name_of n = ip_name p" "is_name n"
    using name_wire.decodes [OF e1(2,3) good(1)] by blast
  obtain e2 where e2: "find_element tlv_Nonce b = Some e2" "fresh e2" "type_value e2 = (tlv_Nonce, ip_nonce p)"
    using found [OF interest_lookup(3)] .
  obtain s where s: "find_element tlv_Selectors b = None \<and> s = Selectors_default
      \<or> (\<exists>e. find_element tlv_Selectors b = Some e \<and> Selectors_wireDecode (i_selectors i) e = (None, s))" "sels_of s = ip_sels p"
  proof (cases "ip_sels p = no_sels")
    case True
    then have "find_element tlv_Selectors b = None" using find_element_None [OF b(2)] by (simp add: interest_lookup)
    with True that [of Selectors_default] show ?thesis by simp
  next
    case False
    then obtain e where e: "find_element tlv_Selectors b = Some e" "fresh e" "type_value e = (tlv_Selectors, sels_value (ip_sels p))"
      using found [of tlv_Selectors] by (auto simp: interest_lookup)
    with selectors_wire.decodes [OF e(2,3) good(2)] obtain s where "Selectors_wireDecode (i_selectors i) e = (None, s)"
      "sels_of s = ip_sels p" by blast
    with e(1) that [of s] show ?thesis by simp
  qed
  have life: "(case find_element tlv_InterestLifetime b of
        Some val \<Rightarrow> decode_number (\<lambda>n i. i\<lparr>i_interestLifetime := sint n\<rparr>) val j
      | None \<Rightarrow> (None, j\<lparr>i_interestLifetime := DEFAULT_INTEREST_LIFETIME\<rparr>)) = (None, j\<lparr>i_interestLifetime := ip_lifetime p\<rparr>)" for j
  proof (cases "ip_lifetime p = DEFAULT_INTEREST_LIFETIME")
    case True
    then show ?thesis using find_element_None [OF b(2)] by (simp add: interest_lookup)
  next
    case False
    then obtain e where e: "find_element tlv_InterestLifetime b = Some e" "fresh e"
      "type_value e = (tlv_InterestLifetime, nni_bytes (of_int (ip_lifetime p)))"
      using found [of tlv_InterestLifetime] by (auto simp: interest_lookup)
    have "sint (of_int (ip_lifetime p) :: u64) = ip_lifetime p"
      using assms(3) by (simp add: good_interest_def signed_of_int signed_take_bit_int_eq_self)
    with e read_element [OF _ e(3)] show ?thesis by (simp add: decode_number_def fresh_def)
  qed
  obtain l where l: "(case find_element tlv_Data b of Some val \<Rightarrow> val | None \<Rightarrow> Block_default) = l"
    "hasWire l \<longleftrightarrow> ip_link p \<noteq> None" "\<And>v. ip_link p = Some v \<Longrightarrow> fresh l \<and> type_value l = (tlv_Data, v)"
    "\<And>n. ip_selected p = Some n \<Longrightarrow> hasWire l
       \<and> (\<exists>val m. find_element tlv_SelectedDelegation b = Some val \<and> block_readNonNegativeInteger val = Inr (of_nat n)
           \<and> countDelegationsFromWire l = Inr m \<and> n < m \<and> unat (of_nat n :: u64) = n)"
    "ip_selected p = None \<Longrightarrow> find_element tlv_SelectedDelegation b = None"
    using decode_selected [OF b(2,3) assms(3)] by blast
  define i' where "i' = i\<lparr>i_wire := b, i_name := n, i_selectors := s, i_nonce := e2, i_nonceInWire := (m_buffer e2 = m_buffer b),
    i_interestLifetime := ip_lifetime p, i_linkCached := None, i_link := l, i_selectedDelegationIndex := ip_selected p\<rparr>"
  have "Interest_wireDecode i w = (None, i')"
    using s(1) l(4,5) by (cases "ip_selected p") (auto simp: Interest_wireDecode_def b(1,4) decode_required_found [OF e1(1)]
        decode_required_found [OF e2(1)] n(1) life l(1) hasLink_def i'_def)
  moreover have "interest_of i' = p"
    using n(2) s(2) e2(3) l(2,3) assms(3)
    by (cases p; cases "ip_link p") (auto simp: interest_of_def i'_def type_value_def lifetime_of_def good_interest_def hasLink_def)
  ultimately show ?thesis
    using that [of i'] b(1,5-7) e2 n(3) by (simp add: i'_def type_value_def)
qed

section \<open>Encoding\<close>

definition with_nonce :: "ipacket \<Rightarrow> byte list \<Rightarrow> ipacket" where
  "with_nonce p bs = IPacket (ip_name p) (ip_sels p) bs (ip_lifetime p) (ip_link p) (ip_selected p)"

definition nonce_ok :: "block \<Rightarrow> bool" where
  "nonce_ok b \<longleftrightarrow> canonical tlv_Nonce b \<and> length (value_bytes b) \<in> {1, 2, 4, 8}"

text \<open>Interests that can be encoded.\<close>

definition interest_inv :: "interest \<Rightarrow> bool" where
  "interest_inv i \<longleftrightarrow> is_name (i_name i) \<and> selectors_inv (i_selectors i) \<and> (hasNonce i \<longrightarrow> nonce_ok (i_nonce i))
     \<and> (hasLink i \<longrightarrow> canonical tlv_Data (i_link i)) \<and> (hasSelectedDelegation i \<longrightarrow> hasLink i)"

lemma length_word32_bytes [simp]: "length (word32_bytes le n) = 4"
  by (simp add: word32_bytes_def Let_def)

lemma word32_roundtrip [simp]: "word32_of_bytes le (word32_bytes le n) = n"
proof -
  have "unat n < 256 ^ 4" using unsigned_less [of n, where 'a = nat] by simp
  then show ?thesis by (simp add: word32_of_bytes_def word32_bytes_def Let_def be_decode_encode_small)
qed

lemma readNonNegativeInteger_total:
  "length bs \<in> {1, 2, 4, 8} \<Longrightarrow> \<exists>v r. readNonNegativeInteger (length bs) bs = Inr (v, r)"
  by (auto simp: readNonNegativeInteger_def Let_def)

lemma getNonce_present:
  assumes "hasNonce i" "nonce_ok (i_nonce i)"
  obtains n where "getNonce le gen i g = Inr (n, i, g)"
    "length (value_bytes (i_nonce i)) = 4 \<Longrightarrow> n = word32_of_bytes le (value_bytes (i_nonce i))"
proof -
  have size: "value_size (i_nonce i) = length (value_bytes (i_nonce i))"
    using assms(2) by (simp add: nonce_ok_def canonical_def sendable_def value_size_wf)
  obtain v r where "readNonNegativeInteger (length (value_bytes (i_nonce i))) (value_bytes (i_nonce i)) = Inr (v, r)"
    using readNonNegativeInteger_total assms(2) unfolding nonce_ok_def by metis
  then obtain n where "block_readNonNegativeInteger (i_nonce i) = Inr n" by (simp add: size block_readNonNegativeInteger_def)
  with assms size that show ?thesis
    by (cases "length (value_bytes (i_nonce i)) = 4") (simp_all add: getNonce_def hasNonce_def)
qed

lemma getNonce_absent:
  assumes "\<not> hasNonce i" "\<not> hasWire (i_wire i)" "i' = wire_reset (i\<lparr>i_nonce := tlv_block tlv_Nonce (word32_bytes le (fst (gen g)))\<rparr>)"
  shows "getNonce le gen i g = Inr (fst (gen g), i', snd (gen g))"
  using assms by (simp add: getNonce_def setNonce_def hasNonce_def wire_reset_def value_size_wf split_beta)

context encoding_impl
begin

lemma link_steps_emit:
  assumes "hasWire l \<longrightarrow> canonical tlv_Data l" "hasWire l \<or> sel = None"
  shows "list_all2 (\<lambda>f (t, v). \<forall>n :: nat. emitterE emits (f n) (tlv_bytes t v))
    (if hasWire l
     then (case sel of Some n \<Rightarrow> [\<lambda>_ e. Inr (prependNonNegativeIntegerBlock ops tlv_SelectedDelegation (of_nat n) e)] | None \<Rightarrow> []) @
          [\<lambda>_ e. Inr (op_prependBlock ops e l)]
     else [])
    (rev (link_elements (if hasWire l then Some (value_bytes l) else None) sel))"
  using assms block [of l]
  by (auto simp: link_elements_def canonical_def intro!: emitterE_Inr prependNonNegativeIntegerBlock_emits split: option.split)

lemma Interest_wireEncode_to_emits:
  assumes "interest_inv i" "good_interest (interest_of i)" "hasNonce i"
  shows "emitterE emits (\<lambda>e. bindE (Interest_wireEncode_to ops le gen i g e) (\<lambda>(n, e, _). Inr (n, e)))
      (tlv_bytes tlv_Interest (interest_value (interest_of i)))"
    and "\<exists>n e'. Interest_wireEncode_to ops le gen i g e = Inr (n, e', i, g)"
proof -
  let ?p = "interest_of i" and ?ms = "i_interestLifetime i"
  obtain n where nonce: "getNonce le gen i g = Inr (n, i, g)"
    using getNonce_present [OF assms(3), of le gen g] assms(1,3) by (auto simp: interest_inv_def)
  let ?link = "if hasLink i
            then (case i_selectedDelegationIndex i of
                    Some n \<Rightarrow> [\<lambda>_ e. Inr (prependNonNegativeIntegerBlock ops tlv_SelectedDelegation (of_nat n) e)]
                  | None \<Rightarrow> []) @
                 [\<lambda>_ e. Inr (op_prependBlock ops e (i_link i))]
            else []"
    and ?life = "if ?ms \<ge> 0 \<and> ?ms \<noteq> DEFAULT_INTEREST_LIFETIME
            then [\<lambda>_ e. Inr (prependNonNegativeIntegerBlock ops tlv_InterestLifetime (of_int ?ms) e)]
            else []"
    and ?nonce = "[\<lambda>_ e. Inr (op_prependBlock ops e (i_nonce i))]"
    and ?sels = "if hasSelectors i then [\<lambda>_. Selectors_wireEncode_to ops (i_selectors i)] else []"
    and ?name = "[\<lambda>_ e. Inr (Name_wireEncode_to ops (i_name i) e)]"
  let ?fs = "?link @ ?life @ ?nonce @ ?sels @ ?name"
  let ?R = "list_all2 (\<lambda>f (t, v). \<forall>n :: nat. emitterE emits (f n) (tlv_bytes t v))"
  define fs where "fs = ?fs @ header_steps ops tlv_Interest"
  have run: "Interest_wireEncode_to ops le gen i g e = bindE (run_stepsE fs e) (\<lambda>(n, e). Inr (n, e, i, g))" for e
  proof -
    have "\<not> (\<not> hasLink i \<and> hasSelectedDelegation i)" using assms(1) by (auto simp: interest_inv_def)
    then show ?thesis unfolding Interest_wireEncode_to_def fs_def by (simp only: if_False nonce bindE_simps prod.case append_assoc)
  qed
  have r1: "?R ?link (rev (link_elements (ip_link ?p) (ip_selected ?p)))"
    using link_steps_emit [of "i_link i" "i_selectedDelegationIndex i"] assms(1)
    by (auto simp: interest_inv_def interest_of_def hasLink_def hasSelectedDelegation_def)
  have r2: "?R ?life (rev (if ip_lifetime ?p \<noteq> DEFAULT_INTEREST_LIFETIME
      then [(tlv_InterestLifetime, nni_bytes (of_int (ip_lifetime ?p)))] else []))"
    by (auto simp: interest_of_def lifetime_of_def intro!: emitterE_Inr prependNonNegativeIntegerBlock_emits)
  have r3: "?R ?nonce (rev [(tlv_Nonce, ip_nonce ?p)])"
    using block [of "i_nonce i"] assms(1,3)
    by (auto simp: interest_of_def interest_inv_def nonce_ok_def canonical_def intro!: emitterE_Inr)
  have r4: "?R ?sels (rev (if ip_sels ?p \<noteq> no_sels then [(tlv_Selectors, sels_value (ip_sels ?p))] else []))"
    using Selectors_wireEncode_to_emits [of "i_selectors i"] assms(1,2)
    by (auto simp: hasSelectors_iff interest_of_def interest_inv_def good_interest_def)
  have r5: "?R ?name (rev [(tlv_Name, comps_value (ip_name ?p))])"
    using Name_wireEncode_to_emits [of "i_name i"] assms(1)
    by (auto simp: interest_of_def interest_inv_def name_value_def intro!: emitterE_Inr)
  have "rev (interest_elements ?p) = rev (link_elements (ip_link ?p) (ip_selected ?p)) @
      rev (if ip_lifetime ?p \<noteq> DEFAULT_INTEREST_LIFETIME then [(tlv_InterestLifetime, nni_bytes (of_int (ip_lifetime ?p)))] else [])
      @ rev [(tlv_Nonce, ip_nonce ?p)] @
      rev (if ip_sels ?p \<noteq> no_sels then [(tlv_Selectors, sels_value (ip_sels ?p))] else []) @ rev [(tlv_Name, comps_value (ip_name ?p))]"
    by (simp only: interest_elements_def before_nonce_def after_nonce_def rev_append rev.simps append_assoc append.simps)
  then have "?R ?fs (rev (interest_elements ?p))"
    using list_all2_appendI [OF r1 list_all2_appendI [OF r2 list_all2_appendI [OF r3 list_all2_appendI [OF r4 r5]]]] by (simp only:)
  then have *: "emitterE emits (run_stepsE fs) (tlv_bytes tlv_Interest (interest_value ?p))"
    unfolding interest_value_def fs_def by (rule element_steps_emit)
  have "(\<lambda>e. bindE (Interest_wireEncode_to ops le gen i g e) (\<lambda>(n, e, _). Inr (n, e))) = run_stepsE fs"
    unfolding run by (rule ext) (auto simp: bindE_def split: sum.split)
  with * show "emitterE emits (\<lambda>e. bindE (Interest_wireEncode_to ops le gen i g e) (\<lambda>(n, e, _). Inr (n, e)))
      (tlv_bytes tlv_Interest (interest_value ?p))" by simp
  obtain e' where "run_stepsE fs e = Inr (length (tlv_bytes tlv_Interest (interest_value ?p)), e')"
    using emitterE_run [OF *] .
  then show "\<exists>n e'. Interest_wireEncode_to ops le gen i g e = Inr (n, e', i, g)" unfolding run by simp
qed

end

text \<open>The Interest that is encoded: with a generated nonce if it has none.\<close>

definition nonced :: "bool \<Rightarrow> 'g generator \<Rightarrow> interest \<Rightarrow> 'g \<Rightarrow> interest" where
  "nonced le gen i g =
     (if hasNonce i then i else wire_reset (i\<lparr>i_nonce := tlv_block tlv_Nonce (word32_bytes le (fst (gen g)))\<rparr>))"

lemma nonced_facts:
  assumes "interest_inv i" "\<not> hasWire (i_wire i)"
  shows "interest_inv (nonced le gen i g)" "hasNonce (nonced le gen i g)" "\<not> hasWire (i_wire (nonced le gen i g))"
    and "interest_of (nonced le gen i g)
      = (if hasNonce i then interest_of i else with_nonce (interest_of i) (word32_bytes le (fst (gen g))))"
proof -
  let ?b = "tlv_block tlv_Nonce (word32_bytes le (fst (gen g)))"
  have "nonce_ok ?b" by (simp add: nonce_ok_def sizeOfVarNumber_def tlv_codes)
  moreover have "\<not> hasWire (Block_reset b)" for b by (simp add: hasWire_def Block_reset_def)
  ultimately show "interest_inv (nonced le gen i g)" "hasNonce (nonced le gen i g)" "\<not> hasWire (i_wire (nonced le gen i g))"
    "interest_of (nonced le gen i g)
      = (if hasNonce i then interest_of i else with_nonce (interest_of i) (word32_bytes le (fst (gen g))))"
    using assms by (cases "hasNonce i"; simp add: nonced_def interest_inv_def hasNonce_def wire_reset_def hasLink_def
        hasSelectedDelegation_def interest_of_def with_nonce_def)+
qed

lemma Interest_wireEncode_to_nonced:
  assumes "interest_inv i" "\<not> hasWire (i_wire i)"
  shows "Interest_wireEncode_to ops le gen i g e
    = Interest_wireEncode_to ops le gen (nonced le gen i g) (if hasNonce i then g else snd (gen g)) e"
proof (cases "hasNonce i")
  case False
  let ?i = "nonced le gen i g" and ?g = "snd (gen g)"
  have "getNonce le gen i g = Inr (fst (gen g), ?i, ?g)"
    using getNonce_absent [OF False assms(2), of ?i le gen g] False by (simp add: nonced_def)
  moreover obtain n where "getNonce le gen ?i ?g = Inr (n, ?i, ?g)"
    using getNonce_present [of ?i le gen ?g] nonced_facts [OF assms, of le gen g] by (auto simp: interest_inv_def)
  moreover have "hasLink ?i = hasLink i" "hasSelectedDelegation ?i = hasSelectedDelegation i"
    using False by (simp_all add: nonced_def wire_reset_def hasLink_def hasSelectedDelegation_def)
  ultimately show ?thesis using False by (simp add: Interest_wireEncode_to_def)
qed (simp add: nonced_def)

lemma Interest_wireEncode_spec:
  assumes "interest_inv i" "\<not> hasWire (i_wire i)" "p = interest_of (nonced le gen i g)" "good_interest p"
    and "length (tlv_bytes tlv_Interest (interest_value p)) < 2 ^ 64"
  obtains i' where "Interest_wireEncode le gen i g = Inr (i_wire i', i', if hasNonce i then g else snd (gen g))"
    "Interest_wireDecode (nonced le gen i g) (tlv_block tlv_Interest (interest_value p)) = (None, i')"
    "interest_of i' = p" "wire_bytes (i_wire i') = tlv_bytes tlv_Interest (interest_value p)" "hasWire (i_wire i')"
    "wf_block (i_wire i')"
proof -
  let ?i = "nonced le gen i g" and ?g = "if hasNonce i then g else snd (gen g)" and ?v = "interest_value p"
  note facts = nonced_facts [OF assms(1,2), of le gen g]
  note est = estimator.Interest_wireEncode_to_emits [OF facts(1) assms(4) [unfolded assms(3)] facts(2), folded assms(3), of le gen ?g]
  note enc = encoder.Interest_wireEncode_to_emits [OF facts(1) assms(4) [unfolded assms(3)] facts(2), folded assms(3), of le gen ?g]
  obtain k where k: "Interest_wireEncode_to EncodingEstimator le gen ?i ?g () = Inr (k, (), ?i, ?g)"
    using est(2) [of "()"] by auto
  obtain n e where run: "Interest_wireEncode_to EncodingBuffer le gen ?i ?g (Encoder_new k 0) = Inr (n, e, ?i, ?g)"
    using enc(2) by blast
  have "encode_block (\<lambda>e. bindE (Interest_wireEncode_to EncodingEstimator le gen ?i ?g e) (\<lambda>(n, e, _). Inr (n, e)))
      (\<lambda>e. bindE (Interest_wireEncode_to EncodingBuffer le gen ?i ?g e) (\<lambda>(n, e, _). Inr (n, e))) = Inr (tlv_block tlv_Interest ?v)"
    by (rule encode_block_eq [OF est(1) enc(1)])
  then have blk: "Encoder_block e True = Inr (tlv_block tlv_Interest ?v)" by (simp add: encode_block_def k run)
  have fresh: "fresh (tlv_block tlv_Interest ?v)" "type_value (tlv_block tlv_Interest ?v) = (tlv_Interest, ?v)"
    using assms(5) by (simp_all add: type_value_def del: length_tlv_bytes)
  obtain i' where i': "Interest_wireDecode ?i (tlv_block tlv_Interest ?v) = (None, i')" "interest_of i' = p"
    "hasWire (i_wire i')" "wf_block (i_wire i')" "wire_bytes (i_wire i') = wire_bytes (tlv_block tlv_Interest ?v)"
    using Interest_wireDecode_spec [OF fresh assms(4), of ?i] by metis
  have "Interest_wireEncode le gen i g = Inr (i_wire i', i', ?g)"
    using assms(2) k run blk i'(1)
    by (simp add: Interest_wireEncode_def Interest_wireEncode_to_nonced [OF assms(1,2), of EncodingEstimator])
  with that i' show ?thesis by simp
qed

section \<open>Round trip\<close>

interpretation interest_wire: wire_codec tlv_Interest interest_value good_interest Interest_wireDecode
  "\<lambda>_. True" interest_of "\<lambda>i. is_name (i_name i) \<and> fresh (i_nonce i) \<and> m_type (i_nonce i) = tlv_Nonce \<and> i_linkCached i = None"
  "\<lambda>i. bindE (Interest_wireEncode le gen i g) (\<lambda>(w, i, _). Inr (w, i))" i_wire "\<lambda>i. interest_inv i \<and> hasNonce i"
  for le gen g
proof (unfold_locales, goal_cases)
  case (1 b p i)
  from Interest_wireDecode_spec [OF 1(1-3), of i] show ?case by metis
next
  case (2 i)
  then have i: "interest_inv i" "hasNonce i" "nonced le gen i g = i" by (simp_all add: nonced_def)
  show ?case
  proof (rule Interest_wireEncode_spec [OF i(1) 2(3) refl, of le gen g, unfolded i(3), OF 2(2,4)], goal_cases)
    case (1 i')
    with i(2) show ?case by (intro exI [of _ i']) simp
  qed
next
  case (3 i)
  then show ?case by (simp add: Interest_wireEncode_def)
qed

text \<open>
  C10. Interests round-trip over the wire: an Interest without a cached wire is encoded without an error, with a generated nonce if
  it has none; the encoding is cached; and decoding its bytes into any Interest gives the same name, selectors,
  nonce, lifetime, link and selected delegation (a negative lifetime, which stands for none, becomes the default).
  The name and the exclude filter consist of generic components and 32-byte implicit digests; the numbers of the selectors are
  below \<open>2 ^ 31\<close>, the key locator has a known type, the lifetime fits in 63 bits, the link is a Data element in canonical form, and a
  selected delegation is the index of one of its delegations. One kind of exclude filter is left out, because it does not round-trip: an ANY
  range that starts at the empty component behind an implicit digest is decoded as a range that starts at the digest.
\<close>
theorem Interest_wire_roundtrip:
  assumes "interest_inv i" "\<not> hasWire (i_wire i)" "good_interest p"
    and "p = (if hasNonce i then interest_of i else with_nonce (interest_of i) (word32_bytes le (fst (gen g))))"
    and "length (tlv_bytes tlv_Interest (interest_value p)) < 2 ^ 64"
  shows "\<exists>w i' g' blk y. Interest_wireEncode le gen i g = Inr (w, i', g')
     \<and> wire_bytes w = tlv_bytes tlv_Interest (interest_value p) \<and> interest_of i' = p
     \<and> Interest_wireEncode le gen i' g' = Inr (w, i', g')
     \<and> Block_whole (wire_bytes w) = Inr blk \<and> Interest_wireDecode i0 blk = (None, y) \<and> interest_of y = p"
proof -
  have p: "p = interest_of (nonced le gen i g)" unfolding assms(4) by (rule nonced_facts(4) [OF assms(1,2), symmetric])
  obtain i' where i': "Interest_wireEncode le gen i g = Inr (i_wire i', i', if hasNonce i then g else snd (gen g))"
    "interest_of i' = p" "wire_bytes (i_wire i') = tlv_bytes tlv_Interest (interest_value p)" "hasWire (i_wire i')"
    using Interest_wireEncode_spec [OF assms(1,2) p assms(3,5)] by metis
  then show ?thesis
    using interest_wire.decode_bytes [OF assms(3) TrueI assms(5), of i0] by (auto simp: Interest_wireEncode_def)
qed

text \<open>
  What \<open>wireEncode()\<close> will return: \<open>i\<close> has a cached wire, which is the canonical encoding of its fields \<open>p\<close> (as after decoding it or encoding it before), or none, and then its
  fields are those of \<open>p\<close> but for the nonce, which is generated when it is missing.
\<close>

definition interest_encodes_as :: "bool \<Rightarrow> 'g generator \<Rightarrow> 'g \<Rightarrow> interest \<Rightarrow> ipacket \<Rightarrow> bool" where
  "interest_encodes_as le gen g i p \<longleftrightarrow> good_interest p
     \<and> (if hasWire (i_wire i)
        then wf_block (i_wire i) \<and> wire_bytes (i_wire i) = tlv_bytes tlv_Interest (interest_value p) \<and> interest_of i = p
        else interest_inv i
          \<and> p = (if hasNonce i then interest_of i else with_nonce (interest_of i) (word32_bytes le (fst (gen g)))))"

lemma interest_encodes_as_encode:
  assumes "interest_encodes_as le gen g i p" "length (tlv_bytes tlv_Interest (interest_value p)) < 2 ^ 64"
  obtains i' g' where "Interest_wireEncode le gen i g = Inr (i_wire i', i', g')" "interest_of i' = p"
    "wire_bytes (i_wire i') = tlv_bytes tlv_Interest (interest_value p)" "hasWire (i_wire i')" "wf_block (i_wire i')"
proof (cases "hasWire (i_wire i)")
  case True
  then show ?thesis using that [of i g] assms(1) by (simp add: interest_encodes_as_def Interest_wireEncode_def)
next
  case False
  then have i: "interest_inv i" "good_interest p"
    "p = (if hasNonce i then interest_of i else with_nonce (interest_of i) (word32_bytes le (fst (gen g))))"
    using assms(1) False unfolding interest_encodes_as_def by meson+
  have p: "p = interest_of (nonced le gen i g)" unfolding i(3) by (rule nonced_facts(4) [OF i(1) False, symmetric])
  show ?thesis using Interest_wireEncode_spec [OF i(1) False p i(2) assms(2)] that by metis
qed

definition example_interest :: interest where
  "example_interest = Interest_setMustBeFresh (Interest_ofName (name1 [65])) True"

lemma example_interest_facts:
  "interest_inv example_interest" "\<not> hasWire (i_wire example_interest)" "\<not> hasNonce example_interest"
  "interest_of example_interest = IPacket [Comp tlv_NameComponent [65]] (Sels None None NoKey [] None True) [] 4000 None None"
  by (simp_all add: example_interest_def Interest_setMustBeFresh_def Interest_ofName_def Interest_new_def wire_reset_def
      interest_inv_def hasNonce_def hasLink_def hasSelectedDelegation_def selectors_inv_def setMustBeFresh_def sel_reset_def
      Selectors_default_def key_locator_setters interest_of_def sels_of_def count_of_def lifetime_of_def milliseconds_min_def
      DEFAULT_INTEREST_LIFETIME_def)
    (simp_all add: hasWire_def Block_reset_def Block_default_def locator_of_def KeyLocator_default_def entries_def Exclude_default_def
      exclude_inv_def value_bytes_def buffer_of_def)

lemma be_encode_4: "be_encode 4 v = [of_nat (v div 256 div 256 div 256), of_nat (v div 256 div 256), of_nat (v div 256), of_nat v]"
proof -
  have "(4 :: nat) = Suc (Suc (Suc (Suc 0)))" by simp
  then show ?thesis by (simp only: be_encode.simps append.simps)
qed

theorem Interest_wire_roundtrip_witness:
  "\<exists>w i' g' blk y. Interest_wireEncode True (\<lambda>g :: u32. (g, g + 1)) example_interest 7 = Inr (w, i', g')
     \<and> wire_bytes w = [5, 15, 7, 3, 8, 1, 65, 9, 2, 18, 0, 10, 4, 7, 0, 0, 0]
     \<and> Block_whole (wire_bytes w) = Inr blk \<and> Interest_wireDecode Interest_default blk = (None, y)
     \<and> interest_of y = IPacket [Comp tlv_NameComponent [65]] (Sels None None NoKey [] None True) [7, 0, 0, 0] 4000 None None"
proof -
  let ?p = "IPacket [Comp tlv_NameComponent [65]] (Sels None None NoKey [] None True) [7, 0, 0, 0] 4000 None None"
  have p: "?p = (if hasNonce example_interest then interest_of example_interest
      else with_nonce (interest_of example_interest) (word32_bytes True (fst ((\<lambda>g :: u32. (g, g + 1)) 7))))"
    using be_encode_4 [of 7] by (simp add: example_interest_facts with_nonce_def word32_bytes_def)
  have v: "tlv_bytes tlv_Interest (interest_value ?p) = [5, 15, 7, 3, 8, 1, 65, 9, 2, 18, 0, 10, 4, 7, 0, 0, 0]"
    by (simp add: interest_value_def interest_elements_def before_nonce_def after_nonce_def link_elements_def no_sels_def
        DEFAULT_INTEREST_LIFETIME_def comps_value_def sels_value_def sels_elements_def count_elements_def tlv_bytes_def
        writeVarNumber_def tlv_codes)
  have good: "good_interest ?p" by (simp add: good_interest_def is_comp_def good_sels_def good_count_def)
  have len: "length (tlv_bytes tlv_Interest (interest_value ?p)) < 2 ^ 64" unfolding v by simp
  from Interest_wire_roundtrip [of example_interest ?p True "\<lambda>g :: u32. (g, g + 1)" 7 Interest_default,
      OF example_interest_facts(1,2) good p len]
  show ?thesis unfolding v by blast
qed

section \<open>The nonce\<close>

text \<open>
  C11. Changing the nonce of a decoded Interest rewrites its wire in place: if the wire is a canonical encoding with a four-byte nonce,
  then after \<open>setNonce\<close> the cached wire is the canonical encoding of the same Interest with the new nonce, and
  \<open>getNonce\<close> returns it, in either byte order of the host.
\<close>
theorem Interest_setNonce_in_place:
  assumes "fresh w" "m_value_end w = m_end w" "wire_bytes w = tlv_bytes tlv_Interest (interest_value p)"
    and "type_value w = (tlv_Interest, interest_value p)" "good_interest p" "length (ip_nonce p) = 4"
  shows "\<exists>i i'. Interest_wireDecode i0 w = (None, i) \<and> setNonce le i n = Inr i'
    \<and> interest_of i' = with_nonce p (word32_bytes le n) \<and> hasWire (i_wire i')
    \<and> wire_bytes (i_wire i') = tlv_bytes tlv_Interest (interest_value (with_nonce p (word32_bytes le n)))
    \<and> getNonce le gen i' g = Inr (n, i', g)"
proof -
  let ?bs = "word32_bytes le n" and ?pre = "before_nonce p" and ?post = "after_nonce p"
  obtain i where i: "Interest_wireDecode i0 w = (None, i)" "interest_of i = p" "parse w = (None, i_wire i)"
    "find_element tlv_Nonce (i_wire i) = Some (i_nonce i)"
    "i_nonceInWire i \<longleftrightarrow> m_buffer (i_nonce i) = m_buffer (i_wire i)" "hasWire (i_wire i)"
    "fresh (i_nonce i)" using Interest_wireDecode_spec [OF assms(1,4,5), of i0] by metis
  have v: "value_bytes w = elements_bytes (?pre @ (tlv_Nonce, ip_nonce p) # ?post)"
    using assms(4) by (simp add: type_value_def interest_value_def interest_elements_def)
  define k where "k = m_value_begin w + length (elements_bytes (?pre @ [(tlv_Nonce, ip_nonce p)]))"
  have "tlv_Nonce \<notin> fst ` set ?pre" by (auto simp: before_nonce_def tlv_codes)
  from find_part [OF parse_parts_at [OF assms(1) v i(3)] this] i(4)
  have nonce: "i_nonce i = Block_parts (buffer_of w) tlv_Nonce (m_value_begin w + length (elements_bytes ?pre)) k (k - 4) k"
    using assms(6) by (simp add: k_def Let_def del: length_tlv_bytes)
  have wire: "m_buffer (i_wire i) = Some (buffer_of w)" "m_begin (i_wire i) = m_begin w" "m_end (i_wire i) = m_end w"
    using parse_sel [of w] i(3,6) by (auto simp: hasWire_def buffer_of_def)
  have len: "length ?bs = length (ip_nonce p)" using assms(6) by simp
  let ?new = "overwrite (k - 4) ?bs (buffer_of w)"
  note over = overwrite_element [OF assms(1,2) _ v len k_def, of tlv_Interest, unfolded assms(6)]
  have over: "chunk ?new (m_begin w) (m_end w) = tlv_bytes tlv_Interest (interest_value (with_nonce p ?bs))"
    "chunk ?new (k - 4) k = ?bs" "4 \<le> k"
    using over assms(3) by (simp_all add: interest_value_def interest_elements_def with_nonce_def before_nonce_def after_nonce_def)
  have size: "value_size (i_nonce i) = 4" using over(3) by (simp add: nonce value_size_def)
  define i' where "i' = i\<lparr>i_nonce := rebuffer (buffer_of w) ?new (i_nonce i), i_wire := rebuffer (buffer_of w) ?new (i_wire i)\<rparr>"
  have set: "setNonce le i n = Inr i'"
    using i(5,6) size wire(1) by (simp add: setNonce_def nonce i'_def Let_def)
  have val: "value_bytes (i_nonce i') = ?bs" "value_size (i_nonce i') = 4"
    using over(2) size by (simp_all add: i'_def nonce value_bytes_def buffer_of_def rebuffer_views)
  have "hasWire (i_nonce i')" using i(7) by (simp add: i'_def rebuffer_views fresh_def)
  with val have "getNonce le gen i' g = Inr (n, i', g)" by (simp add: getNonce_def)
  moreover have "wire_bytes (i_wire i') = tlv_bytes tlv_Interest (interest_value (with_nonce p ?bs))"
    using over(1) wire by (simp add: i'_def wire_bytes_def buffer_of_def)
  moreover have "interest_of i' = with_nonce p ?bs"
    using i(2) val(1) by (auto simp: i'_def interest_of_def with_nonce_def hasLink_def)
  moreover have "hasWire (i_wire i')" using i(6) by (simp add: i'_def rebuffer_views)
  ultimately show ?thesis using i(1) set by blast
qed

text \<open>An Interest for \<open>/A\<close> with nonce 1, 2, 3, 4.\<close>

definition example_ipacket :: ipacket where
  "example_ipacket = IPacket [Comp tlv_NameComponent [65]] no_sels [1, 2, 3, 4] DEFAULT_INTEREST_LIFETIME None None"

lemma example_ipacket_facts:
  "good_interest example_ipacket" "length (tlv_bytes tlv_Interest (interest_value example_ipacket)) < 2 ^ 64"
  "tlv_bytes tlv_Interest (interest_value (with_nonce example_ipacket bs)) =
     tlv_bytes tlv_Interest ([7, 3, 8, 1, 65] @ tlv_bytes tlv_Nonce bs)"
  by (simp_all add: example_ipacket_def good_interest_def is_comp_def good_sels_def good_count_def no_sels_def with_nonce_def
      DEFAULT_INTEREST_LIFETIME_def interest_value_def interest_elements_def before_nonce_def after_nonce_def link_elements_def
      comps_value_def tlv_codes sizeOfVarNumber_def) (simp_all add: tlv_bytes_def writeVarNumber_def)

theorem Interest_setNonce_in_place_witness:
  "\<exists>w i i'. wire_bytes w = tlv_bytes tlv_Interest (interest_value example_ipacket)
    \<and> Interest_wireDecode Interest_default w = (None, i) \<and> setNonce True i 258 = Inr i'
    \<and> wire_bytes (i_wire i') = [5, 11, 7, 3, 8, 1, 65, 10, 4, 2, 1, 0, 0]
    \<and> getNonce True (\<lambda>g :: nat. (0, g)) i' 0 = Inr (258, i', 0)"
proof -
  let ?w = "tlv_block tlv_Interest (interest_value example_ipacket)"
  have "m_value_end ?w = m_end ?w" by (simp add: tlv_block_def)
  moreover have "fresh ?w" "wire_bytes ?w = tlv_bytes tlv_Interest (interest_value example_ipacket)"
    "type_value ?w = (tlv_Interest, interest_value example_ipacket)" "length (ip_nonce example_ipacket) = 4"
    using example_ipacket_facts(2) by (simp_all add: type_value_def example_ipacket_def del: length_tlv_bytes)
  ultimately have *: "fresh ?w" "m_value_end ?w = m_end ?w" "wire_bytes ?w = tlv_bytes tlv_Interest (interest_value example_ipacket)"
    "type_value ?w = (tlv_Interest, interest_value example_ipacket)" "good_interest example_ipacket" "length (ip_nonce example_ipacket) = 4"
    using example_ipacket_facts(1) by simp_all
  from Interest_setNonce_in_place [OF *, of Interest_default True 258 "\<lambda>g :: nat. (0, g)" 0] show ?thesis
    unfolding example_ipacket_facts(3)
    by (intro exI [of _ ?w]) (auto simp: word32_bytes_def be_encode_4 tlv_bytes_def writeVarNumber_def tlv_codes)
qed

text \<open>The words that a generator yields from a state on.\<close>

definition generated :: "'g generator \<Rightarrow> 'g \<Rightarrow> nat \<Rightarrow> u32" where
  "generated gen g k = fst (gen (((snd \<circ> gen) ^^ k) g))"

lemma generated_simps: "generated gen g 0 = fst (gen g)" "generated gen g (Suc k) = generated gen (snd (gen g)) k"
  by (simp_all add: generated_def funpow_Suc_right del: funpow.simps)

lemma other_word_first:
  assumes "\<forall>j < k. generated gen g j = old" "generated gen g k \<noteq> old"
  shows "\<exists>g'. other_word gen old old g = Some (generated gen g k, g')"
  using assms
proof (induction k arbitrary: g)
  case 0
  then have "fst (gen g) \<noteq> old" by (simp add: generated_simps)
  then have "other_word gen old (fst (gen g)) (snd (gen g)) = Some (fst (gen g), snd (gen g))" by (subst other_word.simps) simp
  then show ?case by (subst other_word.simps) (cases "gen g", simp add: generated_simps)
next
  case (Suc k)
  have first: "fst (gen g) = old" using Suc.prems(1) by (auto simp: generated_simps(1) [symmetric])
  have "\<forall>j < k. generated gen (snd (gen g)) j = old" "generated gen (snd (gen g)) k \<noteq> old"
    using Suc.prems by (auto simp: generated_simps(2) [symmetric])
  from Suc.IH [OF this] show ?case
    using first by (subst other_word.simps) (simp add: split_beta generated_simps(2))
qed

lemma other_word_diverges:
  assumes "other_word gen old new g = Some (n, g')"
  shows "new \<noteq> old \<or> (\<exists>k. generated gen g k \<noteq> old)"
proof (rule other_word.raw_induct [where P = "\<lambda>gen old new g r. new \<noteq> old \<or> (\<exists>k. generated gen g k \<noteq> old)", OF _ assms], goal_cases)
  case (1 other_word gen old new g r)
  show ?case
  proof (cases "new = old")
    case True
    then have "other_word gen old (fst (gen g)) (snd (gen g)) = Some r" using 1(2) by (simp add: split_beta)
    from 1(1) [OF this] show ?thesis by (metis generated_simps)
  qed simp
qed

lemma setNonce_getNonce:
  assumes "hasNonce i" "nonce_ok (i_nonce i)"
  obtains i' where "setNonce le i n = Inr i'" "getNonce le gen i' g = Inr (n, i', g)" "hasNonce i'"
    "i' = i\<lparr>i_nonce := i_nonce i', i_wire := i_wire i'\<rparr>"
proof (cases "hasWire (i_wire i) \<and> value_size (i_nonce i) = 4")
  case True
  let ?b = "i_nonce i" and ?bs = "word32_bytes le n"
  let ?new = "overwrite (m_value_begin ?b) ?bs (buffer_of ?b)"
  define i' where "i' = i\<lparr>i_nonce := rebuffer (buffer_of ?b) ?new ?b,
    i_wire := if i_nonceInWire i then rebuffer (buffer_of ?b) ?new (i_wire i) else i_wire i\<rparr>"
  have set: "setNonce le i n = Inr i'" using True by (simp add: setNonce_def i'_def Let_def)
  have wf: "wf_block ?b" "hasWire ?b" using assms by (simp_all add: nonce_ok_def canonical_def sendable_def hasNonce_def)
  then have it: "m_value_begin ?b \<le> m_value_end ?b" "m_value_end ?b \<le> length (buffer_of ?b)" "m_buffer ?b = Some (buffer_of ?b)"
    using wf_block_iff [of ?b] by (auto simp: iterators_ok_def hasWire_def hasValue_def buffer_of_def)
  have ends: "m_value_end ?b = m_value_begin ?b + 4"
    using True it wf unfolding value_size_def hasWire_def hasValue_def by auto
  have "chunk ?new (m_value_begin ?b) (m_value_begin ?b + 4) = ?bs"
    using chunk_overwrite [of "m_value_begin ?b" "m_value_begin ?b" ?bs "m_value_begin ?b + 4" "buffer_of ?b"] it(2) ends by simp
  moreover have "m_buffer (i_nonce i') = Some ?new" by (simp add: i'_def it(3))
  then have "buffer_of (i_nonce i') = ?new" by (simp add: buffer_of_def [of "i_nonce i'"])
  ultimately have "value_bytes (i_nonce i') = ?bs" using ends by (simp add: value_bytes_def) (simp add: i'_def)
  moreover have "value_size (i_nonce i') = 4" "hasWire (i_nonce i')" using True wf(2) by (simp_all add: i'_def rebuffer_views)
  ultimately show ?thesis using that [of i'] set by (simp add: getNonce_def hasNonce_def) (simp add: i'_def)
next
  case False
  define i' where "i' = wire_reset (i\<lparr>i_nonce := tlv_block tlv_Nonce (word32_bytes le n)\<rparr>)"
  have "setNonce le i n = Inr i'" using False by (auto simp: setNonce_def i'_def)
  moreover have "getNonce le gen i' g = Inr (n, i', g)" by (simp add: getNonce_def i'_def wire_reset_def value_size_wf)
  ultimately show ?thesis using that [of i'] by (simp add: i'_def wire_reset_def hasNonce_def)
qed

text \<open>
  C38. \<open>refreshNonce\<close> of an Interest with a nonce returns if and only if the generator ever yields a word other than the
  current nonce; then the new nonce is the first such word, and nothing but the nonce and the cached wire changes.
\<close>
theorem refreshNonce_returns:
  assumes "hasNonce i" "nonce_ok (i_nonce i)" "getNonce le gen i g = Inr (old, i, g)"
  shows "(refreshNonce le gen i g \<noteq> None \<longleftrightarrow> (\<exists>k. generated gen g k \<noteq> old))
    \<and> ((\<forall>j < k. generated gen g j = old) \<and> generated gen g k \<noteq> old
       \<longrightarrow> (\<exists>i' g'. refreshNonce le gen i g = Some (Inr (i', g')) \<and> getNonce le gen i' g' = Inr (generated gen g k, i', g')
             \<and> i' = i\<lparr>i_nonce := i_nonce i', i_wire := i_wire i'\<rparr>))"
proof -
  have eq: "refreshNonce le gen i g
      = map_option (\<lambda>(n, g). bindE (setNonce le i n) (\<lambda>i. Inr (i, g))) (other_word gen old old g)"
    using assms by (simp add: refreshNonce_def)
  have first: "\<exists>i' g'. refreshNonce le gen i g = Some (Inr (i', g')) \<and> getNonce le gen i' g' = Inr (generated gen g k, i', g')
      \<and> i' = i\<lparr>i_nonce := i_nonce i', i_wire := i_wire i'\<rparr>"
    if k: "\<forall>j < k. generated gen g j = old" "generated gen g k \<noteq> old" for k
  proof -
    obtain g' where g': "other_word gen old old g = Some (generated gen g k, g')" using other_word_first [OF k] by blast
    obtain i' where "setNonce le i (generated gen g k) = Inr i'" "getNonce le gen i' g' = Inr (generated gen g k, i', g')"
      "i' = i\<lparr>i_nonce := i_nonce i', i_wire := i_wire i'\<rparr>"
      using setNonce_getNonce [OF assms(1,2), of le "generated gen g k" gen g'] by metis
    with g' show ?thesis by (auto simp: eq)
  qed
  have "refreshNonce le gen i g \<noteq> None" if "\<exists>k. generated gen g k \<noteq> old"
  proof -
    define k where "k = (LEAST k. generated gen g k \<noteq> old)"
    have "generated gen g k \<noteq> old" "\<forall>j < k. generated gen g j = old"
      using that LeastI_ex [of "\<lambda>k. generated gen g k \<noteq> old"] not_less_Least [of _ "\<lambda>k. generated gen g k \<noteq> old"]
      unfolding k_def by blast+
    from first [OF this(2,1)] show ?thesis by auto
  qed
  moreover have "\<exists>k. generated gen g k \<noteq> old" if "refreshNonce le gen i g \<noteq> None"
    using that other_word_diverges [of gen old old g] by (auto simp: eq)
  ultimately show ?thesis using first by blast
qed

theorem refreshNonce_returns_witness:
  "\<exists>i i' g'. setNonce True example_interest 5 = Inr i
     \<and> refreshNonce True (\<lambda>g :: u32. (g, g + 1)) i 5 = Some (Inr (i', g'))
     \<and> getNonce True (\<lambda>g :: u32. (g, g + 1)) i' g' = Inr (6, i', g')
     \<and> refreshNonce True (\<lambda>g :: u32. (g, g)) i 5 = None"
proof -
  let ?gen = "\<lambda>g :: u32. (g, g + 1)"
  define i where "i = wire_reset (example_interest\<lparr>i_nonce := tlv_block tlv_Nonce (word32_bytes True 5)\<rparr>)"
  have set: "setNonce True example_interest 5 = Inr i"
    using example_interest_facts(2) by (simp add: setNonce_def i_def)
  have i: "hasNonce i" "nonce_ok (i_nonce i)" "getNonce True gen i g = Inr (5, i, g)" for gen and g :: u32
    by (simp_all add: i_def wire_reset_def hasNonce_def nonce_ok_def getNonce_def value_size_wf sizeOfVarNumber_def tlv_codes)
  have gen: "\<forall>j < 1. generated ?gen 5 j = 5" "generated ?gen 5 1 \<noteq> 5" "generated ?gen 5 1 = 6"
    by (simp_all add: generated_def)
  have same: "generated (\<lambda>g :: u32. (g, g)) 5 k = 5" for k
    by (induction k) (simp_all add: generated_simps)
  show ?thesis
    using refreshNonce_returns [OF i, of ?gen 5 1] refreshNonce_returns [OF i, of "\<lambda>g. (g, g)" 5 0] gen same set by auto
qed

section \<open>Selected delegation\<close>

text \<open>
  Selecting a delegation by name: if the link of the Interest has a delegation for the name, then \<open>setSelectedDelegation\<close>
  selects the first one, drops the wire, and \<open>getSelectedDelegation\<close> returns that name; otherwise it throws
  \<open>std::invalid_argument\<close>.
\<close>
theorem Interest_selectedDelegation:
  assumes "fresh (i_link i)" "value_bytes (i_link i) = packet_value p" "p_content p = elements_bytes (delegs_elements es)"
    and "good_delegs es" "valid_name n"
  shows "(values_of n \<in> set (map (\<lambda>d. map comp_value (snd d)) es) \<longrightarrow>
      (\<exists>i' m. setSelectedDelegation_name i n = Inr i' \<and> hasSelectedDelegation i' \<and> \<not> hasWire (i_wire i')
         \<and> getSelectedDelegation i' = Inr m \<and> values_of m = values_of n))
    \<and> (values_of n \<notin> set (map (\<lambda>d. map comp_value (snd d)) es) \<longrightarrow>
      setSelectedDelegation_name i n = Inl (InvalidArgument ''Invalid selected delegation name''))"
proof -
  have "type_value (i_link i) = (m_type (i_link i), packet_value p)" using assms(2) by (simp add: type_value_def)
  from content_of_wire_spec [OF assms(1) this assms(3)] obtain c where c: "content_of_wire (i_link i) = Inr c"
    "map type_value (m_subBlocks c) = delegs_elements es" "\<forall>s \<in> set (m_subBlocks c). fresh s" .
  note find = findDelegationFromWire_spec [OF c assms(4,5)]
  have none: "index_of_name vs ds = None \<longleftrightarrow> vs \<notin> set (map (\<lambda>d. map comp_value (snd d)) ds)" for vs ds
    by (induction ds) auto
  show ?thesis
  proof (cases "index_of_name (values_of n) es")
    case None
    then show ?thesis using none [of "values_of n" es] find by (simp add: setSelectedDelegation_name_def)
  next
    case (Some k)
    note k = index_of_name_Some [OF Some]
    obtain x where x: "getDelegationFromWire (i_link i) k = Inr x" "deleg_of x = es ! k"
      using getDelegationFromWire_spec [OF c assms(4), of k] k by blast
    define i' where "i' = wire_reset (i\<lparr>i_selectedDelegationIndex := Some k\<rparr>)"
    have "setSelectedDelegation_name i n = Inr i'" using find Some by (simp add: setSelectedDelegation_name_def i'_def)
    moreover have "getSelectedDelegation i' = Inr (snd x)" using x(1) by (simp add: getSelectedDelegation_def i'_def wire_reset_def)
    moreover have "values_of (snd x) = values_of n" using x(2) k by (metis deleg_of_def snd_conv)
    moreover have "hasSelectedDelegation i'" "\<not> hasWire (i_wire i')"
      by (simp_all add: i'_def wire_reset_def hasSelectedDelegation_def hasWire_def Block_reset_def)
    ultimately show ?thesis using none [of "values_of n" es] Some by auto
  qed
qed

definition linked_interest :: interest where
  "linked_interest = snd (setLink (Interest_ofName (name1 [67]))
     (tlv_block tlv_Data (packet_value (packet_of (l_data example_link)))))"

theorem Interest_selectedDelegation_witness:
  "(\<exists>i' m. setSelectedDelegation_name linked_interest (name1 [66]) = Inr i' \<and> getSelectedDelegation i' = Inr m
      \<and> values_of m = [[66]])
   \<and> setSelectedDelegation_name linked_interest (name1 [67]) = Inl (InvalidArgument ''Invalid selected delegation name'')"
proof -
  let ?p = "packet_of (l_data example_link)" and ?es = "[(10, [Comp tlv_NameComponent [66]])]"
  have "length (tlv_bytes tlv_Data (packet_value ?p)) < 2 ^ 64" unfolding example_link_bytes by simp
  then have "fresh (i_link linked_interest)" "value_bytes (i_link linked_interest) = packet_value ?p"
    by (simp_all add: linked_interest_def setLink_def wire_reset_def unsetSelectedDelegation_def Let_def del: length_tlv_bytes)
  moreover have "p_content ?p = elements_bytes (delegs_elements ?es)" "good_delegs ?es"
    by (simp_all add: example_link_simps(1) good_delegs_def is_comp_def)
  moreover have "valid_name (name1 [66])" "valid_name (name1 [67])" by (simp_all add: valid_name_def)
  ultimately show ?thesis
    using Interest_selectedDelegation [of linked_interest ?p ?es "name1 [66]"]
      Interest_selectedDelegation [of linked_interest ?p ?es "name1 [67]"] by auto
qed

text \<open>
  \<open>setLink\<close> assigns the link before it checks it: when it throws, the Interest has lost its link but keeps the selected delegation
  and the old wire; encoding it without a cached wire then fails an assertion.
\<close>

lemma setLink_failure:
  assumes "\<not> hasWire b" "hasSelectedDelegation i"
  shows "\<exists>i'. setLink i b = (Some (InterestError ''The given link does not have a wire format''), i')
    \<and> \<not> hasLink i' \<and> hasSelectedDelegation i' \<and> i_wire i' = i_wire i
    \<and> Interest_wireEncode_to ops le gen i' g e = Inl (AssertionFailure ''!hasSelectedDelegation()'')"
  using assms by (simp add: setLink_def hasLink_def hasSelectedDelegation_def Interest_wireEncode_to_def)

end
