(* ===== verification/InterestMatching.thy ===== *)
theory InterestMatching
  imports Interest
begin

text \<open>
  Matching of Interests with names and Data packets, after \<open>matchesName\<close> and \<open>matchesData\<close> of
  \<open>src/interest.cpp\<close>. SHA-256 is a parameter.
\<close>

section \<open>Matching\<close>

definition matchesName :: "interest \<Rightarrow> name \<Rightarrow> bool result" where
  "matchesName i name =
     (let min = sel_minSuffixComponents (i_selectors i);
          max = sel_maxSuffixComponents (i_selectors i);
          exclude = sel_exclude (i_selectors i)
      in if Name_size name < Name_size (i_name i) then Inr False
         else bindE (isPrefixOf (i_name i) name) (\<lambda>prefix.
           if \<not> prefix then Inr False
           else if min \<ge> 0 \<and> \<not> (Name_size name - Name_size (i_name i) \<ge> nat min) then Inr False
           else if max \<ge> 0 \<and> \<not> (Name_size name - Name_size (i_name i) \<le> nat max) then Inr False
           else if \<not> Exclude_empty exclude \<and> Name_size name > Name_size (i_name i)
           then bindE (Name_get name (int (Name_size (i_name i)))) (\<lambda>c. Inr (\<not> isExcluded exclude c))
           else Inr True))"

text \<open>The parts of \<open>matchesData\<close>: each yields whether the check is passed, and the Data with its full name cached.\<close>

definition check_prefix :: "(byte list \<Rightarrow> byte list) \<Rightarrow> interest \<Rightarrow> data \<Rightarrow> (bool \<times> data) result" where
  "check_prefix sha256 i d =
     (if Name_size (i_name i) = Name_size (d_name d) + 1
      then bindE (Name_get (i_name i) (- 1)) (\<lambda>c.
             if isImplicitSha256Digest c
             then bindE (getFullName sha256 d) (\<lambda>(fullName, d).
                  bindE (Name_equals (i_name i) fullName) (\<lambda>r. Inr (r, d)))
             else Inr (False, d))
      else bindE (isPrefixOf (i_name i) (d_name d)) (\<lambda>r. Inr (r, d)))"

definition check_exclude :: "(byte list \<Rightarrow> byte list) \<Rightarrow> interest \<Rightarrow> data \<Rightarrow> (bool \<times> data) result" where
  "check_exclude sha256 i d =
     (let exclude = sel_exclude (i_selectors i);
          interestNameLength = Name_size (i_name i);
          fullNameLength = Name_size (d_name d) + 1
      in if \<not> Exclude_empty exclude \<and> fullNameLength > interestNameLength
         then if interestNameLength = fullNameLength - 1
              then bindE (getFullName sha256 d) (\<lambda>(fullName, d).
                   bindE (Name_get fullName (int interestNameLength)) (\<lambda>c. Inr (\<not> isExcluded exclude c, d)))
              else bindE (Name_get (d_name d) (int interestNameLength)) (\<lambda>c. Inr (\<not> isExcluded exclude c, d))
         else Inr (True, d))"

definition check_publisher :: "interest \<Rightarrow> data \<Rightarrow> (bool \<times> interest \<times> data) result" where
  "check_publisher i d =
     (let publisherPublicKeyLocator = sel_publisherPublicKeyLocator (i_selectors i)
      in if \<not> KeyLocator_empty publisherPublicKeyLocator
         then bindE (getInfo (d_signature d)) (\<lambda>(signatureInfo, s).
                let d = d\<lparr>d_signature := s\<rparr>
                in case find_element tlv_KeyLocator signatureInfo of
                     None \<Rightarrow> Inr (False, i, d)
                   | Some it \<Rightarrow>
                       bindE (KeyLocator_wireEncode publisherPublicKeyLocator) (\<lambda>(w, k).
                       bindE (Block_equal w it) (\<lambda>r.
                         Inr (r, i\<lparr>i_selectors := (i_selectors i)\<lparr>sel_publisherPublicKeyLocator := k\<rparr>\<rparr>, d))))
         else Inr (True, i, d))"

definition matchesData :: "(byte list \<Rightarrow> byte list) \<Rightarrow> interest \<Rightarrow> data \<Rightarrow> (bool \<times> interest \<times> data) result" where
  "matchesData sha256 i d =
     (let interestNameLength = Name_size (i_name i);
          fullNameLength = Name_size (d_name d) + 1;
          min = sel_minSuffixComponents (i_selectors i);
          max = sel_maxSuffixComponents (i_selectors i);
          minSuffixComponents = (if min \<ge> 0 then nat min else 0)
      in if \<not> (interestNameLength + minSuffixComponents \<le> fullNameLength) then Inr (False, i, d)
         else if max \<ge> 0 \<and> \<not> (interestNameLength + nat max \<ge> fullNameLength) then Inr (False, i, d)
         else bindE (check_prefix sha256 i d) (\<lambda>(r, d).
           if \<not> r then Inr (False, i, d)
           else bindE (check_exclude sha256 i d) (\<lambda>(r, d).
             if \<not> r then Inr (False, i, d) else check_publisher i d)))"

section \<open>Names\<close>

text \<open>What \<open>matchesName\<close> decides, on the components of a full name.\<close>

definition suffix_ok :: "interest \<Rightarrow> nat \<Rightarrow> bool" where
  "suffix_ok i k \<longleftrightarrow>
     (sel_minSuffixComponents (i_selectors i) \<ge> 0 \<longrightarrow> nat (sel_minSuffixComponents (i_selectors i)) \<le> k)
     \<and> (sel_maxSuffixComponents (i_selectors i) \<ge> 0 \<longrightarrow> k \<le> nat (sel_maxSuffixComponents (i_selectors i)))"

definition name_matches :: "interest \<Rightarrow> name \<Rightarrow> bool" where
  "name_matches i n \<longleftrightarrow>
     Name_size (i_name i) \<le> Name_size n
     \<and> map comp_value (name_of (i_name i)) = map comp_value (take (Name_size (i_name i)) (name_of n))
     \<and> suffix_ok i (Name_size n - Name_size (i_name i))
     \<and> (Name_size (i_name i) < Name_size n \<longrightarrow> \<not> isExcluded (sel_exclude (i_selectors i)) (comps n ! Name_size (i_name i)))"

lemma not_excluded_empty: "Exclude_empty e \<Longrightarrow> \<not> isExcluded e c"
  by (simp add: Exclude_empty_def isExcluded_def lower_bound_def)

lemma Name_get_nth: "i < Name_size n \<Longrightarrow> Name_get n (int i) = Inr (comps n ! i)"
  by (simp add: Name_get_def Name_size_def)

lemma matchesName_eq:
  assumes "is_name (i_name i)" "is_name n" "Name_size n < 2 ^ 63"
  shows "matchesName i n = Inr (name_matches i n)"
proof (cases "Name_size (i_name i) \<le> Name_size n")
  case True
  let ?p = "map comp_value (name_of (i_name i)) = map comp_value (take (Name_size (i_name i)) (name_of n))"
  have prefix: "isPrefixOf (i_name i) n = Inr ?p" using isPrefixOf_values [OF assms] True by simp
  show ?thesis
  proof (cases "?p \<and> suffix_ok i (Name_size n - Name_size (i_name i))")
    case sub: True
    then show ?thesis
      using True prefix not_excluded_empty [of "sel_exclude (i_selectors i)"]
      by (cases "Name_size (i_name i) < Name_size n")
        (auto simp: matchesName_def name_matches_def suffix_ok_def Name_get_nth Let_def)
  next
    case False
    then show ?thesis using True prefix by (auto simp: matchesName_def name_matches_def suffix_ok_def Let_def)
  qed
qed (simp add: matchesName_def name_matches_def)

text \<open>The full name of a packet with a wire.\<close>

lemma getFullName_made:
  assumes "fullName_ok sha256 d" "hasWire (d_wire d)" "is_name (d_name d)" "\<And>bs. length (sha256 bs) = SHA256_DIGEST_SIZE"
  obtains full c where "getFullName sha256 d = Inr (full, d\<lparr>d_fullName := full\<rparr>)"
    "getFullName sha256 (d\<lparr>d_fullName := full\<rparr>) = Inr (full, d\<lparr>d_fullName := full\<rparr>)"
    "comps full = comps (d_name d) @ [c]" "is_name full"
    "comp_of c = Comp tlv_ImplicitSha256DigestComponent (sha256 (wire_and_size (d_wire d)))"
proof -
  obtain c where c: "fromImplicitSha256Digest_buffer (sha256 (wire_and_size (d_wire d))) = Inr c" "is_component c"
    "comp_of c = Comp tlv_ImplicitSha256DigestComponent (sha256 (wire_and_size (d_wire d)))"
    using digest_buffer_made [OF assms(4)] by metis
  define full where "full = Name_append (d_name d) c"
  have app: "appendImplicitSha256Digest_buffer (d_name d) (sha256 (wire_and_size (d_wire d))) = Inr full"
    by (simp add: appendImplicitSha256Digest_buffer_def c(1) full_def)
  have comps: "comps full = comps (d_name d) @ [c]" "is_name full" "\<not> Name_empty full"
    using assms(3) c(2) by (simp_all add: full_def Name_empty_def)
  have "getFullName sha256 d = Inr (full, d\<lparr>d_fullName := full\<rparr>)"
  proof (cases "Name_empty (d_fullName d)")
    case False
    then have "d_fullName d = full" using assms(1) app by (simp add: fullName_ok_def)
    then have "d\<lparr>d_fullName := full\<rparr> = d" by auto
    with False \<open>d_fullName d = full\<close> show ?thesis by (simp add: getFullName_def)
  qed (simp add: getFullName_def assms(2) app)
  moreover have "getFullName sha256 (d\<lparr>d_fullName := full\<rparr>) = Inr (full, d\<lparr>d_fullName := full\<rparr>)"
    using comps(3) by (simp add: getFullName_def)
  ultimately show ?thesis using that comps(1,2) c(3) by blast
qed

text \<open>
  When the full name has to be computed: the Interest name is as long as the full name and ends in a digest, or it is
  as long as the Data name and there is an exclude filter.
\<close>

definition needs_full :: "interest \<Rightarrow> data \<Rightarrow> bool" where
  "needs_full i d \<longleftrightarrow>
     Name_size (i_name i) = Name_size (d_name d) + 1 \<and> isImplicitSha256Digest (last (comps (i_name i)))
     \<or> Name_size (i_name i) = Name_size (d_name d) \<and> \<not> Exclude_empty (sel_exclude (i_selectors i))"

definition after_check :: "interest \<Rightarrow> data \<Rightarrow> data \<Rightarrow> data set" where
  "after_check i d d' = (if needs_full i d then {d, d'} else {d})"

lemma check_prefix_eq:
  assumes "getFullName sha256 d = Inr (full, d')" "d' = d\<lparr>d_fullName := full\<rparr>" "comps full = comps (d_name d) @ [c]" "is_name full"
    and "is_name (i_name i)" "is_name (d_name d)" "Name_size (d_name d) + 1 < 2 ^ 63" "Name_size (i_name i) \<le> Name_size full"
  shows "\<exists>d1 \<in> after_check i d d'. check_prefix sha256 i d = Inr
    (map comp_value (name_of (i_name i)) = map comp_value (take (Name_size (i_name i)) (name_of full))
     \<and> (Name_size (i_name i) = Name_size full \<longrightarrow> isImplicitSha256Digest (last (comps (i_name i)))), d1)"
proof -
  have size: "Name_size full = Name_size (d_name d) + 1" using assms(3) by (simp add: Name_size_def)
  show ?thesis
  proof (cases "Name_size (i_name i) = Name_size full")
    case True
    then have "comps (i_name i) \<noteq> []" using size by (auto simp: Name_size_def)
    then have "Name_get (i_name i) (- 1) = Inr (last (comps (i_name i)))"
      using Name_get_last [of "i_name i"] assms(7) size True by (simp add: Name_empty_def)
    moreover have "Name_equals (i_name i) full = Inr (map comp_value (name_of (i_name i)) = map comp_value (name_of full))"
      using Name_equals_values [OF assms(5,4)] assms(7) size True by simp
    moreover have "length (name_of full) = Name_size full" by (simp add: name_of_def Name_size_def)
    ultimately show ?thesis using True size assms(1) by (auto simp: check_prefix_def after_check_def needs_full_def)
  next
    case False
    then have lt: "Name_size (i_name i) \<le> Name_size (d_name d)" using assms(8) size by simp
    have "isPrefixOf (i_name i) (d_name d)
        = Inr (map comp_value (name_of (i_name i)) = map comp_value (take (Name_size (i_name i)) (name_of (d_name d))))"
      using isPrefixOf_values [OF assms(5,6)] assms(7) lt by simp
    moreover have "take (Name_size (i_name i)) (name_of full) = take (Name_size (i_name i)) (name_of (d_name d))"
      using lt assms(3) by (simp add: name_of_def Name_size_def)
    ultimately show ?thesis using False size by (auto simp: check_prefix_def after_check_def)
  qed
qed

lemma check_exclude_eq:
  assumes "getFullName sha256 d = Inr (full, d')" "comps full = comps (d_name d) @ [c]" "Name_size (i_name i) \<le> Name_size full"
  shows "\<exists>d1 \<in> after_check i d d'. check_exclude sha256 i d = Inr
    (Name_size (i_name i) < Name_size full \<longrightarrow> \<not> isExcluded (sel_exclude (i_selectors i)) (comps full ! Name_size (i_name i)), d1)"
proof -
  have size: "Name_size full = Name_size (d_name d) + 1" using assms(2) by (simp add: Name_size_def)
  consider "Exclude_empty (sel_exclude (i_selectors i))" | "\<not> Exclude_empty (sel_exclude (i_selectors i))"
      "Name_size (i_name i) = Name_size full"
    | "\<not> Exclude_empty (sel_exclude (i_selectors i))" "Name_size (i_name i) = Name_size (d_name d)"
    | "\<not> Exclude_empty (sel_exclude (i_selectors i))" "Name_size (i_name i) < Name_size (d_name d)"
    using assms(3) size by linarith
  then show ?thesis
  proof cases
    case 1
    then show ?thesis using not_excluded_empty by (simp add: check_exclude_def after_check_def)
  next
    case 2
    then show ?thesis using size by (simp add: check_exclude_def after_check_def)
  next
    case 3
    then show ?thesis using size assms(1) Name_get_nth [of "Name_size (i_name i)" full] by (auto simp: check_exclude_def after_check_def needs_full_def Let_def)
  next
    case 4
    moreover have "comps full ! Name_size (i_name i) = comps (d_name d) ! Name_size (i_name i)"
      using 4 assms(2) by (simp add: nth_append Name_size_def)
    ultimately show ?thesis using size Name_get_nth [of "Name_size (i_name i)" "d_name d"] by (auto simp: check_exclude_def after_check_def needs_full_def Let_def)
  qed
qed

lemma two_checks:
  "x = (if \<not> P then f d2 else if \<not> E then f d3 else g d3) \<Longrightarrow> d2 \<in> S \<Longrightarrow> d3 \<in> S
   \<Longrightarrow> \<exists>d' \<in> S. x = (if P \<and> E then g d' else f d')"
  by (cases P; cases E) auto

lemma matchesData_eq:
  assumes "fullName_ok sha256 d" "hasWire (d_wire d)" "is_name (d_name d)" "\<And>bs. length (sha256 bs) = SHA256_DIGEST_SIZE"
    and "is_name (i_name i)" "Name_size (d_name d) + 1 < 2 ^ 63"
  obtains full d' where "getFullName sha256 d = Inr (full, d\<lparr>d_fullName := full\<rparr>)" "d' \<in> after_check i d (d\<lparr>d_fullName := full\<rparr>)"
    "name_of full = name_of (d_name d) @ [Comp tlv_ImplicitSha256DigestComponent (sha256 (wire_and_size (d_wire d)))]"
    "is_name full" "matchesName i full = Inr (name_matches i full)"
    "matchesData sha256 i d = (if name_matches i full
        \<and> (Name_size (i_name i) = Name_size full \<longrightarrow> isImplicitSha256Digest (last (comps (i_name i))))
       then check_publisher i d' else Inr (False, i, d'))"
proof -
  obtain full c where full: "getFullName sha256 d = Inr (full, d\<lparr>d_fullName := full\<rparr>)"
    "getFullName sha256 (d\<lparr>d_fullName := full\<rparr>) = Inr (full, d\<lparr>d_fullName := full\<rparr>)"
    "comps full = comps (d_name d) @ [c]" "is_name full"
    "comp_of c = Comp tlv_ImplicitSha256DigestComponent (sha256 (wire_and_size (d_wire d)))"
    using getFullName_made [OF assms(1-4)] .
  define d1 where "d1 = d\<lparr>d_fullName := full\<rparr>"
  have size: "Name_size full = Name_size (d_name d) + 1" using full(3) by (simp add: Name_size_def)
  have name: "name_of full = name_of (d_name d) @ [Comp tlv_ImplicitSha256DigestComponent (sha256 (wire_and_size (d_wire d)))]"
    using full(3,5) by (simp add: name_of_def)
  have matches: "matchesName i full = Inr (name_matches i full)"
    using matchesName_eq [OF assms(5) full(4)] size assms(6) by simp
  let ?prefix = "map comp_value (name_of (i_name i)) = map comp_value (take (Name_size (i_name i)) (name_of full))
     \<and> (Name_size (i_name i) = Name_size full \<longrightarrow> isImplicitSha256Digest (last (comps (i_name i))))"
  let ?excl = "Name_size (i_name i) < Name_size full \<longrightarrow> \<not> isExcluded (sel_exclude (i_selectors i)) (comps full ! Name_size (i_name i))"
  let ?min = "sel_minSuffixComponents (i_selectors i)" and ?max = "sel_maxSuffixComponents (i_selectors i)"
  have "\<exists>d' \<in> after_check i d d1. matchesData sha256 i d = (if name_matches i full
        \<and> (Name_size (i_name i) = Name_size full \<longrightarrow> isImplicitSha256Digest (last (comps (i_name i))))
       then check_publisher i d' else Inr (False, i, d'))"
  proof (cases "Name_size (i_name i) \<le> Name_size full \<and> suffix_ok i (Name_size full - Name_size (i_name i))")
    case False
    then have "matchesData sha256 i d = Inr (False, i, d)"
      using size by (auto simp: matchesData_def suffix_ok_def Let_def)
    with False show ?thesis by (auto simp: name_matches_def after_check_def)
  next
    case True
    then have guards: "(\<not> Name_size (i_name i) + (if ?min \<ge> 0 then nat ?min else 0) \<le> Name_size (d_name d) + 1) = False"
      "(?max \<ge> 0 \<and> \<not> Name_size (i_name i) + nat ?max \<ge> Name_size (d_name d) + 1) = False"
      using size by (auto simp: suffix_ok_def)
    obtain d2 where d2: "d2 \<in> after_check i d d1" "check_prefix sha256 i d = Inr (?prefix, d2)"
      using check_prefix_eq [OF full(1) refl full(3,4) assms(5,3,6)] True unfolding d1_def by blast
    have "getFullName sha256 d2 = Inr (full, d1)" "comps full = comps (d_name d2) @ [c]"
      using d2(1) full(1-3) by (auto simp: d1_def after_check_def split: if_splits)
    from check_exclude_eq [OF this, of i] True obtain d3 where d3: "d3 \<in> after_check i d2 d1" "check_exclude sha256 i d2 = Inr (?excl, d3)"
      by auto
    have d3d: "d3 \<in> after_check i d d1"
      using d2(1) d3(1) by (auto simp: after_check_def needs_full_def d1_def split: if_splits)
    have "matchesData sha256 i d = (if \<not> ?prefix then Inr (False, i, d2) else if \<not> ?excl then Inr (False, i, d3) else check_publisher i d3)"
      unfolding matchesData_def Let_def guards if_False d2(2) bindE_simps prod.case d3(2) by (rule refl)
    from two_checks [where f = "\<lambda>d. Inr (False, i, d)" and g = "check_publisher i", OF this d2(1) d3d]
    have "\<exists>d' \<in> after_check i d d1. matchesData sha256 i d = (if ?prefix \<and> ?excl then check_publisher i d' else Inr (False, i, d'))" .
    moreover have iff: "(name_matches i full
        \<and> (Name_size (i_name i) = Name_size full \<longrightarrow> isImplicitSha256Digest (last (comps (i_name i))))) = (?prefix \<and> ?excl)"
      using True by (auto simp: name_matches_def)
    ultimately show ?thesis by (simp only:)
  qed
  then show ?thesis using that full(1,4) name matches unfolding d1_def by blast
qed

section \<open>Publisher\<close>

text \<open>A SignatureInfo with its parsed elements.\<close>

definition info_parsed :: "signature_info \<Rightarrow> sig_info \<Rightarrow> bool" where
  "info_parsed i s \<longleftrightarrow> hasWire (si_wire i) \<and> map type_value (m_subBlocks (si_wire i)) = sig_head s @ sig_other s
     \<and> (\<forall>b \<in> set (m_subBlocks (si_wire i)). fresh b \<and> length (wire_bytes b) < 2 ^ 32
          \<and> wire_bytes b = tlv_bytes (m_type b) (value_bytes b))"

lemma si_wire_append [simp]: "si_wire (appendTypeSpecificTlv i b) = si_wire i"
  by (simp add: appendTypeSpecificTlv_def)

lemma SignatureInfo_ofBlock_wire: "SignatureInfo_ofBlock e = Inr i \<Longrightarrow> parse e = (None, si_wire i) \<and> hasWire e"
  by (auto simp: SignatureInfo_ofBlock_def SignatureInfo_wireDecode_def Let_def decode_keyLocator_def decode_otherTlvs_def
      fold_appendTypeSpecificTlv split: if_splits prod.splits option.splits list.splits sum.splits)

lemma info_parsed_decoded:
  assumes "fresh e" "type_value e = (tlv_SignatureInfo, sig_value s)" "SignatureInfo_ofBlock e = Inr i" "length (wire_bytes e) < 2 ^ 32"
  shows "info_parsed i s"
proof -
  have p: "parse e = (None, si_wire i)" using SignatureInfo_ofBlock_wire [OF assms(3)] by blast
  have v: "value_bytes e = elements_bytes (sig_head s @ sig_other s)" using assms(2) by (simp add: type_value_def sig_value_def)
  have b: "map type_value (m_subBlocks (si_wire i)) = sig_head s @ sig_other s" "\<forall>b \<in> set (m_subBlocks (si_wire i)). fresh b"
    "hasWire (si_wire i)"
    using parse_fresh [OF assms(1) v] p by (metis prod.inject)+
  have wires: "map wire_bytes (m_subBlocks (si_wire i)) = map (\<lambda>(t, v). tlv_bytes t v) (map type_value (m_subBlocks (si_wire i)))"
    using parse_canonical [OF assms(1) v p] unfolding b(1) by simp
  then have wire: "wire_bytes b = tlv_bytes (m_type b) (value_bytes b)" if "b \<in> set (m_subBlocks (si_wire i))" for b
    using that by (auto simp: type_value_def)
  have "length (wire_bytes b) \<le> length (value_bytes e)" if "b \<in> set (m_subBlocks (si_wire i))" for b
  proof -
    have "value_bytes e = concat (map wire_bytes (m_subBlocks (si_wire i)))" unfolding wires b(1) by (rule v)
    then show ?thesis using length_concat_member [of "wire_bytes b" "map wire_bytes (m_subBlocks (si_wire i))"] that by simp
  qed
  moreover have "length (value_bytes e) < 2 ^ 32" using value_le_wire [of e] assms(1,4) by (simp add: fresh_def)
  ultimately show ?thesis using b wire by (auto simp: info_parsed_def intro: le_less_trans)
qed

text \<open>
  A key locator that was built with the setters and not encoded yet, or that has a cached wire, which
  is its canonical encoding (as after encoding it, or decoding it from such an encoding).
\<close>

definition locator_ready :: "key_locator \<Rightarrow> bool" where
  "locator_ready k \<longleftrightarrow> good_locator (locator_of k)
     \<and> (if hasWire (kl_wire k)
        then wf_block (kl_wire k) \<and> wire_bytes (kl_wire k) = tlv_bytes tlv_KeyLocator (locator_value (locator_of k))
        else key_locator_inv k)"

lemma locator_ready_encode:
  assumes "locator_ready k" "length (tlv_bytes tlv_KeyLocator (locator_value (locator_of k))) < 2 ^ 32"
  obtains k' where "KeyLocator_wireEncode k = Inr (kl_wire k', k')" "hasWire (kl_wire k')" "wf_block (kl_wire k')"
    "wire_bytes (kl_wire k') = tlv_bytes tlv_KeyLocator (locator_value (locator_of k))"
proof (cases "hasWire (kl_wire k)")
  case True
  then show ?thesis using that [of k] assms(1) by (simp add: locator_ready_def KeyLocator_wireEncode_def)
next
  case False
  then have "key_locator_inv k" "good_locator (locator_of k)" using assms(1) by (simp_all add: locator_ready_def)
  from key_locator_wire.encodes [OF this False] show ?thesis using assms(2) that by auto
qed

lemma locator_ready_decoded:
  assumes "fresh b" "type_value b = (tlv_KeyLocator, locator_value l)" "good_locator l"
    and "wire_bytes b = tlv_bytes tlv_KeyLocator (locator_value l)"
  shows "\<exists>k. KeyLocator_wireDecode k0 b = (None, k) \<and> locator_of k = l \<and> locator_ready k"
proof -
  have v: "value_bytes b = elements_bytes (locator_elements l)"
    using assms(2) by (simp add: type_value_def locator_value_def)
  obtain k where k: "KeyLocator_wireDecode k0 b = (None, k)" "locator_of k = l"
    using key_locator_wire.decodes [OF assms(1-3)] by blast
  obtain c where c: "parse b = (None, c)" "hasWire c" "wf_block c" "wire_bytes c = wire_bytes b"
    by (rule parse_fresh [OF assms(1) v])
  have "kl_wire k = c" using k(1) c(1)
    by (auto simp: KeyLocator_wireDecode_def Let_def split: if_splits prod.splits list.splits)
  then show ?thesis using k assms(3,4) c by (auto simp: locator_ready_def)
qed

lemma check_publisher_eq:
  assumes "info_parsed (sg_info (d_signature d)) s" "good_sig s" "locator_ready k"
    and "k = sel_publisherPublicKeyLocator (i_selectors i)" "length (tlv_bytes tlv_KeyLocator (locator_value (locator_of k))) < 2 ^ 32"
  shows "\<exists>i'. check_publisher i d = Inr (locator_of k \<noteq> NoKey \<longrightarrow> sig_key s = Some (locator_of k), i', d)"
proof (cases "locator_of k = NoKey")
  case True
  then have "KeyLocator_empty k" by (simp add: KeyLocator_empty_def locator_of_def split: KeyLocator_Type.splits)
  with True assms(4) show ?thesis by (simp add: check_publisher_def)
next
  case False
  let ?b = "si_wire (sg_info (d_signature d))"
  have ne: "\<not> KeyLocator_empty k" using False by (auto simp: KeyLocator_empty_def locator_of_def)
  have info: "getInfo (d_signature d) = Inr (?b, d_signature d)"
    using Signature_getInfo_wire assms(1) by (simp add: info_parsed_def)
  have elems: "map type_value (m_subBlocks ?b) = sig_head s @ sig_other s" "\<forall>b \<in> set (m_subBlocks ?b). fresh b"
    using assms(1) by (simp_all add: info_parsed_def)
  obtain k' where k': "KeyLocator_wireEncode k = Inr (kl_wire k', k')" "hasWire (kl_wire k')" "wf_block (kl_wire k')"
    "wire_bytes (kl_wire k') = tlv_bytes tlv_KeyLocator (locator_value (locator_of k))"
    using locator_ready_encode [OF assms(3,5)] .
  show ?thesis
  proof (cases "sig_key s")
    case None
    then have "map_of (sig_head s @ sig_other s) tlv_KeyLocator = None"
      using assms(2) by (auto simp: sig_head_def good_sig_def map_of_eq_None_iff tlv_codes)
    then have "find_element tlv_KeyLocator ?b = None" using find_element_None [OF elems(1)] by blast
    with None False ne info assms(4) show ?thesis by (auto simp: check_publisher_def Let_def)
  next
    case (Some l)
    then have "map_of (sig_head s @ sig_other s) tlv_KeyLocator = Some (locator_value l)"
      by (simp add: sig_head_def tlv_codes)
    then obtain it where it: "find_element tlv_KeyLocator ?b = Some it" "type_value it = (tlv_KeyLocator, locator_value l)"
      using find_element_Some [OF elems(1) _ elems(2)] by metis
    note mem = find_element_mem [OF it(1)]
    have "sendable it" "hasWire it" "wire_bytes it = tlv_bytes tlv_KeyLocator (locator_value l)"
      using assms(1) it(2) mem by (auto simp: info_parsed_def fresh_def sendable_def block_bytes_def type_value_def)
    moreover have "sendable (kl_wire k')" using k' assms(5) by (simp add: sendable_def block_bytes_def del: length_tlv_bytes)
    ultimately have "Block_equal (kl_wire k') it = Inr (locator_value (locator_of k) = locator_value l)"
      using Block_equal_wires k'(2,4) by (simp add: tlv_bytes_inject)
    moreover have "locator_value (locator_of k) = locator_value l \<longleftrightarrow> l = locator_of k"
      using key_locator_wire.value_inject [OF _, of "locator_of k" l] assms(2,3,5) Some
      by (auto simp: good_sig_def locator_ready_def)
    ultimately show ?thesis
      using False ne info it(1) k'(1) assms(4) Some by (auto simp: check_publisher_def Let_def)
  qed
qed

text \<open>
  C9. \<open>matchesData\<close> decides what it should without computing the full name unless it is needed: for a decoded packet it agrees
  with \<open>matchesName\<close> on the full name, except that an Interest name as long as the full name must end in a digest component;
  and if the Interest names a publisher key, the packet must be signed with a key locator equal to it. The full name is needed only
  for an Interest name that is one component longer than the Data name and ends in a digest, or that is as long as the Data name and comes with an exclude
  filter; otherwise the packet is left exactly as it was. (The packet was decoded from its canonical encoding; the key locator of the
  Interest was built with the setters, or has its canonical encoding as cached wire; SHA-256 is assumed to give 32 bytes.)
\<close>
theorem Interest_matchesData:
  assumes "fresh w" "type_value w = (tlv_Data, packet_value p)" "good_packet p" "length (wire_bytes w) < 2 ^ 32"
    and "Data_wireDecode d0 w = (None, d)" "length (p_name p) < 2 ^ 62" "\<And>bs. length (sha256 bs) = SHA256_DIGEST_SIZE"
    and "is_name (i_name i)" "k = sel_publisherPublicKeyLocator (i_selectors i)" "locator_ready k"
    and "length (tlv_bytes tlv_KeyLocator (locator_value (locator_of k))) < 2 ^ 32"
  shows "\<exists>full d1 r i' d'. getFullName sha256 d = Inr (full, d1)
    \<and> name_of full = p_name p @ [Comp tlv_ImplicitSha256DigestComponent (sha256 (wire_and_size (d_wire d)))]
    \<and> is_name full \<and> matchesData sha256 i d = Inr (r, i', d')
    \<and> d' \<in> {d, d1} \<and> (\<not> needs_full i d \<longrightarrow> d' = d)
    \<and> (r \<longleftrightarrow> matchesName i full = Inr True
        \<and> (Name_size (i_name i) = Name_size full \<longrightarrow> isImplicitSha256Digest (last (comps (i_name i))))
        \<and> (locator_of k \<noteq> NoKey \<longrightarrow> sig_key (p_sig p) = Some (locator_of k)))"
proof -
  obtain e where d: "p_name (packet_of d) = p_name p" "hasWire (d_wire d)" "Name_empty (d_fullName d)" "is_name (d_name d)"
    "fresh e" "type_value e = (tlv_SignatureInfo, sig_value (p_sig p))" "SignatureInfo_ofBlock e = Inr (sg_info (d_signature d))"
    "length (wire_bytes e) \<le> length (wire_bytes w)"
    using Data_wireDecode_spec [OF assms(1-3), of d0] assms(5) by (metis packet.sel(1) prod.inject)
  have names: "name_of (d_name d) = p_name p" using d(1) by (simp add: packet_of_def)
  have "length (comps (d_name d)) = length (p_name p)" by (simp add: names [symmetric] name_of_def)
  then have size: "Name_size (d_name d) + 1 < 2 ^ 63" using assms(6) by (simp add: Name_size_def)
  have info: "info_parsed (sg_info (d_signature d)) (p_sig p)"
    using info_parsed_decoded [OF d(5-7)] d(8) assms(4) by simp
  have ok: "fullName_ok sha256 d" using d(3) by (simp add: fullName_ok_def)
  obtain full d' where full: "getFullName sha256 d = Inr (full, d\<lparr>d_fullName := full\<rparr>)" "d' \<in> after_check i d (d\<lparr>d_fullName := full\<rparr>)"
    "name_of full = name_of (d_name d) @ [Comp tlv_ImplicitSha256DigestComponent (sha256 (wire_and_size (d_wire d)))]"
    "is_name full" "matchesName i full = Inr (name_matches i full)"
    "matchesData sha256 i d = (if name_matches i full
        \<and> (Name_size (i_name i) = Name_size full \<longrightarrow> isImplicitSha256Digest (last (comps (i_name i))))
       then check_publisher i d' else Inr (False, i, d'))"
    using matchesData_eq [OF ok d(2,4) assms(7,8) size] .
  have "info_parsed (sg_info (d_signature d')) (p_sig p)" using info full(2) by (auto simp: after_check_def split: if_splits)
  moreover have "good_sig (p_sig p)" using assms(3) by (simp add: good_packet_def)
  ultimately obtain i' where "check_publisher i d' = Inr (locator_of k \<noteq> NoKey \<longrightarrow> sig_key (p_sig p) = Some (locator_of k), i', d')"
    using check_publisher_eq [of d' "p_sig p" k i] assms(9-11) by blast
  moreover have "d' \<in> {d, d\<lparr>d_fullName := full\<rparr>}" "\<not> needs_full i d \<longrightarrow> d' = d"
    using full(2) by (auto simp: after_check_def split: if_splits)
  ultimately show ?thesis using full(1,3-6) names by (auto simp del: not_None_eq)
qed

theorem Interest_matchesData_witness:
  "\<exists>w d i' d'. Data_wireDecode Data_default w = (None, d)
     \<and> wire_bytes w = [6, 19, 7, 3, 8, 1, 65, 20, 0, 21, 2, 1, 2, 22, 3, 27, 1, 0, 23, 1, 3]
     \<and> matchesData (\<lambda>_. replicate 32 7) example_interest d = Inr (True, i', d')"
proof -
  let ?p = "packet_of (example_data [])" and ?h = "\<lambda>_ :: byte list. replicate 32 7 :: byte list"
  let ?w = "tlv_block tlv_Data (packet_value ?p)"
  have len: "length (tlv_bytes tlv_Data (packet_value ?p)) < 2 ^ 32" unfolding example_data_bytes by simp
  then have w: "fresh ?w" "type_value ?w = (tlv_Data, packet_value ?p)" "length (wire_bytes ?w) < 2 ^ 32"
    by (simp_all del: length_tlv_bytes)
  have good: "good_packet ?p" "p_name ?p = [Comp tlv_NameComponent [65]]" using example_data_simps [of "[]"] by simp_all
  obtain d where d: "Data_wireDecode Data_default ?w = (None, d)" using Data_wireDecode_spec [OF w(1,2) good(1)] by metis
  have len1: "length (p_name ?p) < 2 ^ 62" by (simp add: good(2))
  have i: "is_name (i_name example_interest)" "name_of (i_name example_interest) = [Comp tlv_NameComponent [65]]"
    "Name_size (i_name example_interest) = 1"
    "sel_publisherPublicKeyLocator (i_selectors example_interest) = KeyLocator_default"
    "Exclude_empty (sel_exclude (i_selectors example_interest))" "suffix_ok example_interest 1"
    by (simp_all add: example_interest_def Interest_setMustBeFresh_def Interest_ofName_def Interest_new_def wire_reset_def
        setMustBeFresh_def sel_reset_def Selectors_default_def suffix_ok_def Exclude_empty_def Exclude_default_def)
  have k: "locator_of KeyLocator_default = NoKey" "key_locator_inv KeyLocator_default" "\<not> hasWire (kl_wire KeyLocator_default)"
    "length (tlv_bytes tlv_KeyLocator (locator_value (locator_of KeyLocator_default))) < 2 ^ 32"
    by (simp_all add: locator_of_def key_locator_setters KeyLocator_default_def hasWire_def Block_default_def key_locator_inv_def
        locator_value_def sizeOfVarNumber_def tlv_codes)
  have h: "length (?h bs) = SHA256_DIGEST_SIZE" for bs by (simp add: SHA256_DIGEST_SIZE_def)
  have gl: "locator_ready KeyLocator_default" using k(1-3) by (simp add: locator_ready_def)
  obtain full r i' d' where r: "is_name full" "name_of full = p_name ?p @ [Comp tlv_ImplicitSha256DigestComponent (replicate 32 7)]"
    "matchesData ?h example_interest d = Inr (r, i', d')"
    "r \<longleftrightarrow> matchesName example_interest full = Inr True
       \<and> (Name_size (i_name example_interest) = Name_size full \<longrightarrow> isImplicitSha256Digest (last (comps (i_name example_interest))))"
    using Interest_matchesData [OF w(1,2) good(1) w(3) d len1 h i(1) i(4) [symmetric] gl k(4)] k(1) by blast
  have size: "Name_size full = 2" using arg_cong [OF r(2), of length] good(2) by (simp add: name_of_def Name_size_def)
  have "name_matches example_interest full"
    using r(2) good(2) i not_excluded_empty [OF i(5)] by (simp add: name_matches_def size)
  then have r using r(4) matchesName_eq [OF i(1) r(1)] size i(3) by simp
  then show ?thesis using d r(3) example_data_bytes(1) by (intro exI [of _ ?w]) auto
qed

text \<open>
  A SignatureInfo that was set on the object and not decoded has no parsed elements, so no Interest with a publisher key matches
  the packet until it has been encoded.
\<close>

lemma check_publisher_unparsed:
  assumes "getInfo (d_signature d) = Inr (b, s)" "m_subBlocks b = []"
    and "\<not> KeyLocator_empty (sel_publisherPublicKeyLocator (i_selectors i))"
  shows "check_publisher i d = Inr (False, i, d\<lparr>d_signature := s\<rparr>)"
  using assms by (simp add: check_publisher_def Let_def find_element_def Block_find_def)

end
