(* ===== verification/InMemoryStorage.thy ===== *)
theory InMemoryStorage
  imports InterestMatching
begin

text \<open>
  In-memory storage of Data packets, after \<open>src/util/in-memory-storage*.{hpp,cpp}\<close>: a cache ordered by full
  name, a pool of entries whose number is the capacity, and a cleanup index from which the four derived classes (FIFO, LRU, LFU
  and persistent) choose what to evict.

  Entries are numbered. An entry in the pool has no packet, so only its number matters; \<open>m_isFresh\<close> is set when
  it is used again. The cache is the list of its entries in the order of the index. Storing a packet caches its full
  name in the packet, which changes no result and is left out. The event that marks an entry stale is the flag
  \<open>e_markStale\<close> of the entry, and the call of the event is an operation of its own. The cleanup index is the list of the
  numbers in eviction order, each with its frequency (which only LFU uses).
\<close>

section \<open>State\<close>

record ims_entry =
  e_id :: nat
  e_data :: data
  e_isFresh :: bool
  e_markStale :: bool

type_synonym cleanup = "(nat \<times> u64) list"

record storage =
  st_cache :: "ims_entry list"
  st_limit :: nat
  st_capacity :: nat
  st_nPackets :: nat
  st_freeEntries :: "nat list"
  st_allocated :: nat
  st_hasScheduler :: bool
  st_cleanupIndex :: cleanup

text \<open>What a derived class overrides; the first argument of the hooks is \<open>size()\<close>.\<close>

record policy =
  op_afterInsert :: "nat \<Rightarrow> nat \<Rightarrow> cleanup \<Rightarrow> cleanup result"
  op_afterAccess :: "nat \<Rightarrow> nat \<Rightarrow> cleanup \<Rightarrow> cleanup result"
  op_beforeErase :: "nat \<Rightarrow> cleanup \<Rightarrow> cleanup"

definition SIZE_MAX :: nat where
  "SIZE_MAX = 2 ^ 64 - 1"

text \<open>\<open>m_dataPacket->getFullName()\<close>; stored packets have a wire.\<close>

definition fullName :: "(byte list \<Rightarrow> byte list) \<Rightarrow> data \<Rightarrow> name" where
  "fullName sha256 d = (case getFullName sha256 d of Inr (n, _) \<Rightarrow> n | Inl _ \<Rightarrow> d_name d)"

text \<open>\<open>std::less<Name>\<close>: comparing names stays within their components and does not throw.\<close>

definition name_less :: "name \<Rightarrow> name \<Rightarrow> bool" where
  "name_less a b = (case Name_compare a b of Inr r \<Rightarrow> r < 0 | Inl _ \<Rightarrow> False)"

definition push_new :: "nat \<Rightarrow> storage \<Rightarrow> storage" where
  "push_new n s = s\<lparr>st_freeEntries := rev [st_allocated s ..< st_allocated s + n] @ st_freeEntries s,
     st_allocated := st_allocated s + n\<rparr>"

text \<open>Construction, with \<open>init\<close>.\<close>

definition Storage_new :: "bool \<Rightarrow> nat \<Rightarrow> storage" where
  "Storage_new hasScheduler limit =
     (let capacity = (if limit \<noteq> SIZE_MAX \<and> 10 > limit then limit else 10)
      in push_new capacity
           \<lparr>st_cache = [], st_limit = limit, st_capacity = capacity, st_nPackets = 0, st_freeEntries = [],
            st_allocated = 0, st_hasScheduler = hasScheduler, st_cleanupIndex = []\<rparr>)"

definition isFull :: "storage \<Rightarrow> bool" where
  "isFull s \<longleftrightarrow> st_nPackets s \<ge> st_capacity s"

section \<open>The index by full name\<close>

definition index_lower_bound :: "(byte list \<Rightarrow> byte list) \<Rightarrow> name \<Rightarrow> storage \<Rightarrow> nat" where
  "index_lower_bound sha256 name s = length (takeWhile (\<lambda>e. name_less (fullName sha256 (e_data e)) name) (st_cache s))"

definition index_find :: "(byte list \<Rightarrow> byte list) \<Rightarrow> name \<Rightarrow> storage \<Rightarrow> nat option" where
  "index_find sha256 name s =
     (let it = index_lower_bound sha256 name s
      in if it < length (st_cache s) \<and> \<not> name_less name (fullName sha256 (e_data (st_cache s ! it))) then Some it else None)"

definition index_insert :: "(byte list \<Rightarrow> byte list) \<Rightarrow> ims_entry \<Rightarrow> storage \<Rightarrow> storage" where
  "index_insert sha256 e s =
     (case index_find sha256 (fullName sha256 (e_data e)) s of
        Some _ \<Rightarrow> s
      | None \<Rightarrow> (let it = index_lower_bound sha256 (fullName sha256 (e_data e)) s
                 in s\<lparr>st_cache := take it (st_cache s) @ e # drop it (st_cache s)\<rparr>))"

section \<open>Removal\<close>

definition freeEntry :: "nat \<Rightarrow> storage \<Rightarrow> storage" where
  "freeEntry it s =
     s\<lparr>st_freeEntries := e_id (st_cache s ! it) # st_freeEntries s, st_nPackets := st_nPackets s - 1,
       st_cache := take it (st_cache s) @ drop (Suc it) (st_cache s)\<rparr>"

definition eraseImpl :: "(byte list \<Rightarrow> byte list) \<Rightarrow> name \<Rightarrow> storage \<Rightarrow> storage" where
  "eraseImpl sha256 name s = (case index_find sha256 name s of None \<Rightarrow> s | Some it \<Rightarrow> freeEntry it s)"

text \<open>
  \<open>evictItem\<close> of the derived classes: the first of the cleanup index, which is empty in the persistent storage. The index points
  to entries that have a packet.
\<close>

definition evictItem :: "(byte list \<Rightarrow> byte list) \<Rightarrow> storage \<Rightarrow> (bool \<times> storage) result" where
  "evictItem sha256 s =
     (case st_cleanupIndex s of
        [] \<Rightarrow> Inr (False, s)
      | (victim, _) # rest \<Rightarrow>
          (case find (\<lambda>e. e_id e = victim) (st_cache s) of
             None \<Rightarrow> Inl (UndefinedBehaviour ''null m_dataPacket'')
           | Some e \<Rightarrow> Inr (True, (eraseImpl sha256 (fullName sha256 (e_data e)) s)\<lparr>st_cleanupIndex := rest\<rparr>)))"

lemma eraseImpl_cleanup [simp]: "st_cleanupIndex (eraseImpl sha256 n s) = st_cleanupIndex s"
  by (simp add: eraseImpl_def freeEntry_def split: option.split)

lemma evictItem_cleanup: "evictItem sha256 s = Inr (r, s') \<Longrightarrow> length (st_cleanupIndex s') = length (st_cleanupIndex s) - 1
    \<and> (r \<longleftrightarrow> st_cleanupIndex s \<noteq> [])"
  by (auto simp: evictItem_def split: list.splits option.splits)

text \<open>The loop of \<open>setCapacity\<close>; \<open>nAllowedFailures\<close> is a signed number.\<close>

function evict_loop :: "(byte list \<Rightarrow> byte list) \<Rightarrow> int \<Rightarrow> storage \<Rightarrow> error option \<times> storage" where
  "evict_loop sha256 nAllowedFailures s =
     (if st_nPackets s > st_capacity s
      then case evictItem sha256 s of
             Inl err \<Rightarrow> (Some err, s)
           | Inr (True, s') \<Rightarrow> evict_loop sha256 nAllowedFailures s'
           | Inr (False, s') \<Rightarrow>
               if nAllowedFailures - 1 < 0
               then (Some (StorageError ''Cannot reduce the capacity of the in-memory storage!''), s')
               else evict_loop sha256 (nAllowedFailures - 1) s'
      else (None, s))"
  by pat_completeness auto
termination
proof (relation "measures [\<lambda>(_, n, s). length (st_cleanupIndex s), \<lambda>(_, n, s). nat n]", goal_cases)
  case (2 sha256 n s x r s')
  then show ?case using evictItem_cleanup [of sha256 s True s'] by simp
next
  case (3 sha256 n s x r s')
  then show ?case using evictItem_cleanup [of sha256 s False s'] by simp
qed simp

declare evict_loop.simps [simp del]

definition setCapacity :: "(byte list \<Rightarrow> byte list) \<Rightarrow> nat \<Rightarrow> storage \<Rightarrow> error option \<times> storage" where
  "setCapacity sha256 nMaxPackets s =
     (let oldCapacity = st_capacity s;
          s = s\<lparr>st_capacity := nMaxPackets\<rparr>
      in case (if st_nPackets s > st_capacity s
               then evict_loop sha256 (int (st_nPackets s) - int (st_capacity s)) s else (None, s)) of
           (Some err, s) \<Rightarrow> (Some err, s)
         | (None, s) \<Rightarrow>
             if st_capacity s < oldCapacity \<and> oldCapacity - st_capacity s > length (st_freeEntries s)
             then (Some (UndefinedBehaviour ''top() of an empty stack''), s)
             else let s = (if st_capacity s \<ge> oldCapacity then push_new (st_capacity s - oldCapacity) s
                           else s\<lparr>st_freeEntries := drop (oldCapacity - st_capacity s) (st_freeEntries s)\<rparr>)
                  in (if st_nPackets s + length (st_freeEntries s) = st_capacity s then None
                      else Some (AssertionFailure ''size() + m_freeEntries.size() == m_capacity''), s))"

section \<open>Insertion\<close>

definition Storage_insert ::
    "policy \<Rightarrow> (byte list \<Rightarrow> byte list) \<Rightarrow> data \<Rightarrow> int \<Rightarrow> storage \<Rightarrow> error option \<times> storage" where
  "Storage_insert ops sha256 d mustBeFreshProcessingWindow s =
     (case getFullName sha256 d of
        Inl err \<Rightarrow> (Some err, s)
      | Inr (name, _) \<Rightarrow>
          if index_find sha256 name s \<noteq> None then (None, s)
          else
            let doesReachLimit = (st_limit s = st_capacity s)
            in case (if isFull s \<and> \<not> doesReachLimit
                     then setCapacity sha256 (min ((2 * st_capacity s) mod 2 ^ 64) (st_limit s)) s else (None, s)) of
                 (Some err, s) \<Rightarrow> (Some err, s)
               | (None, s) \<Rightarrow>
                   (case (if isFull s \<and> doesReachLimit then bindE (evictItem sha256 s) (\<lambda>(_, s). Inr s) else Inr s) of
                      Inl err \<Rightarrow> (Some err, s)
                    | Inr s \<Rightarrow>
                        (case st_freeEntries s of
                           [] \<Rightarrow> (Some (AssertionFailure ''m_freeEntries.size() > 0''), s)
                         | entry # rest \<Rightarrow>
                             let s = index_insert sha256
                                       \<lparr>e_id = entry, e_data = d, e_isFresh = True,
                                        e_markStale = (st_hasScheduler s \<and> mustBeFreshProcessingWindow > 0)\<rparr>
                                       (s\<lparr>st_freeEntries := rest, st_nPackets := st_nPackets s + 1\<rparr>)
                             in (case op_afterInsert ops (st_nPackets s) entry (st_cleanupIndex s) of
                                   Inl err \<Rightarrow> (Some err, s)
                                 | Inr ci \<Rightarrow> (None, s\<lparr>st_cleanupIndex := ci\<rparr>)))))"

text \<open>The scheduled call of \<open>InMemoryStorageEntry::markStale\<close>.\<close>

definition markStale :: "nat \<Rightarrow> storage \<Rightarrow> storage" where
  "markStale entry s =
     s\<lparr>st_cache := map (\<lambda>e. if e_id e = entry \<and> e_markStale e then e\<lparr>e_isFresh := False, e_markStale := False\<rparr> else e) (st_cache s)\<rparr>"

section \<open>Lookup\<close>

definition access_entry :: "policy \<Rightarrow> nat \<Rightarrow> storage \<Rightarrow> (data option \<times> storage) result" where
  "access_entry ops it s =
     bindE (op_afterAccess ops (st_nPackets s) (e_id (st_cache s ! it)) (st_cleanupIndex s)) (\<lambda>ci.
       Inr (Some (e_data (st_cache s ! it)), s\<lparr>st_cleanupIndex := ci\<rparr>))"

definition find_name :: "policy \<Rightarrow> (byte list \<Rightarrow> byte list) \<Rightarrow> name \<Rightarrow> storage \<Rightarrow> (data option \<times> storage) result" where
  "find_name ops sha256 name s =
     (let it = index_lower_bound sha256 name s
      in if it = length (st_cache s) then Inr (None, s)
         else bindE (isPrefixOf name (fullName sha256 (e_data (st_cache s ! it)))) (\<lambda>prefix.
           if \<not> prefix then Inr (None, s) else access_entry ops it s))"

definition findNextFresh :: "ims_entry list \<Rightarrow> nat \<Rightarrow> nat" where
  "findNextFresh cache it = it + length (takeWhile (\<lambda>e. \<not> e_isFresh e) (drop it cache))"

definition matches_entry :: "(byte list \<Rightarrow> byte list) \<Rightarrow> interest \<Rightarrow> ims_entry \<Rightarrow> bool result" where
  "matches_entry sha256 i e = bindE (matchesData sha256 i (e_data e)) (\<lambda>(r, _). Inr r)"

text \<open>
  The loop of \<open>selectChild\<close>: the match that is returned from inside the loop, or the position of \<open>rightmost\<close> after it.
\<close>

function right_loop ::
    "(byte list \<Rightarrow> byte list) \<Rightarrow> interest \<Rightarrow> ims_entry list \<Rightarrow> nat \<Rightarrow> nat \<Rightarrow> name \<Rightarrow> (nat + nat) result" where
  "right_loop sha256 i cache rightmostCandidate rightmost currentChildPrefix =
     (let mustBeFresh = sel_mustBeFresh (i_selectors i);
          hasLeftmostSelector = (sel_childSelector (i_selectors i) \<le> 0);
          candidate = (if mustBeFresh then findNextFresh cache (rightmostCandidate + 1) else rightmostCandidate + 1)
      in if \<not> candidate < length cache then Inr (Inr rightmost)
         else
           let full = fullName sha256 (e_data (cache ! candidate))
           in bindE (isPrefixOf (i_name i) full) (\<lambda>isInPrefix.
                if \<not> isInPrefix then Inr (Inr rightmost)
                else bindE (matches_entry sha256 i (cache ! candidate)) (\<lambda>matches.
                  if \<not> matches then right_loop sha256 i cache candidate rightmost currentChildPrefix
                  else if hasLeftmostSelector then Inr (Inl candidate)
                  else bindE (getPrefix full (int (Name_size (i_name i)) + 1)) (\<lambda>childPrefix.
                       bindE (if Name_empty currentChildPrefix then Inr True
                              else bindE (Name_equals childPrefix currentChildPrefix) (\<lambda>eq. Inr (\<not> eq))) (\<lambda>new.
                         if new then right_loop sha256 i cache candidate candidate childPrefix
                         else right_loop sha256 i cache candidate rightmost currentChildPrefix)))))"
  by pat_completeness auto
termination
  by (relation "measure (\<lambda>(_, _, cache, c, _, _). length cache - c)") (auto simp: findNextFresh_def Let_def)

declare right_loop.simps [simp del]

definition selectChild :: "(byte list \<Rightarrow> byte list) \<Rightarrow> interest \<Rightarrow> nat \<Rightarrow> ims_entry list \<Rightarrow> nat option result" where
  "selectChild sha256 i startingPoint cache =
     (if \<not> startingPoint < length cache then Inl (AssertionFailure ''startingPoint != m_cache.get<byFullName>().end()'')
      else if startingPoint \<noteq> 0 \<and> \<not> name_less (fullName sha256 (e_data (cache ! startingPoint))) (i_name i)
      then Inl (AssertionFailure ''(*startingPoint)->getFullName() < interest.getName()'')
      else
        let hasLeftmostSelector = (sel_childSelector (i_selectors i) \<le> 0);
            start = (if sel_mustBeFresh (i_selectors i) then findNextFresh cache startingPoint else startingPoint)
        in if \<not> start < length cache then Inr None
           else bindE (if hasLeftmostSelector then matches_entry sha256 i (cache ! start) else Inr False) (\<lambda>r.
             if r then Inr (Some start)
             else bindE (right_loop sha256 i cache start start Name_default) (\<lambda>found.
               case found of
                 Inl it \<Rightarrow> Inr (Some it)
               | Inr rightmost \<Rightarrow>
                   if rightmost \<noteq> start then Inr (Some rightmost)
                   else if \<not> hasLeftmostSelector
                   then bindE (matches_entry sha256 i (cache ! start)) (\<lambda>r. Inr (if r then Some start else None))
                   else Inr None)))"

definition find_interest :: "policy \<Rightarrow> (byte list \<Rightarrow> byte list) \<Rightarrow> interest \<Rightarrow> storage \<Rightarrow> (data option \<times> storage) result" where
  "find_interest ops sha256 i s =
     (case index_find sha256 (i_name i) s of
        Some it \<Rightarrow> Inr (Some (e_data (st_cache s ! it)), s)
      | None \<Rightarrow>
          let it = index_lower_bound sha256 (i_name i) s
          in if it = length (st_cache s) then Inr (None, s)
             else bindE (selectChild sha256 i (if it \<noteq> 0 then it - 1 else it) (st_cache s)) (\<lambda>ret.
               case ret of None \<Rightarrow> Inr (None, s) | Some it \<Rightarrow> access_entry ops it s))"

section \<open>Erasing\<close>

text \<open>The loop over the entries below a prefix; \<open>it\<close> stays where it is because the entry there is removed.\<close>

function erase_loop :: "policy \<Rightarrow> name \<Rightarrow> nat \<Rightarrow> storage \<Rightarrow> storage result" where
  "erase_loop ops name it s =
     (if \<not> it < length (st_cache s) then Inr s
      else bindE (isPrefixOf name (d_name (e_data (st_cache s ! it)))) (\<lambda>r.
        if \<not> r then Inr s
        else erase_loop ops name it
               (freeEntry it (s\<lparr>st_cleanupIndex := op_beforeErase ops (e_id (st_cache s ! it)) (st_cleanupIndex s)\<rparr>))))"
  by pat_completeness auto
termination
  by (relation "measure (\<lambda>(_, _, it, s). length (st_cache s))") (auto simp: freeEntry_def)

declare erase_loop.simps [simp del]

definition Storage_erase ::
    "policy \<Rightarrow> (byte list \<Rightarrow> byte list) \<Rightarrow> name \<Rightarrow> bool \<Rightarrow> storage \<Rightarrow> error option \<times> storage" where
  "Storage_erase ops sha256 name isPrefix s =
     (let shrink = (\<lambda>s. if length (st_freeEntries s) > 2 * st_nPackets s then setCapacity sha256 (st_capacity s div 2) s else (None, s))
      in if isPrefix
         then (case erase_loop ops name (index_lower_bound sha256 name s) s of
                 Inl err \<Rightarrow> (Some err, s)
               | Inr s \<Rightarrow> shrink s)
         else (case index_find sha256 name s of
                 None \<Rightarrow> (None, s)
               | Some it \<Rightarrow>
                   shrink (freeEntry it (s\<lparr>st_cleanupIndex := op_beforeErase ops (e_id (st_cache s ! it)) (st_cleanupIndex s)\<rparr>))))"

text \<open>\<open>printCache\<close>.\<close>

definition printCache :: "(byte list \<Rightarrow> byte list) \<Rightarrow> storage \<Rightarrow> string" where
  "printCache sha256 s = concat (map (\<lambda>e. Name_toUri (fullName sha256 (e_data e)) @ [char_of (10 :: nat)]) (st_cache s))"

section \<open>Iteration and destruction\<close>

text \<open>
  \<open>const_iterator\<close>: the packet and the position. \<open>begin()\<close> reads the first entry, which an empty cache does not have.
\<close>

definition Storage_begin :: "storage \<Rightarrow> (data option \<times> nat) result" where
  "Storage_begin s =
     (if st_cache s = [] then Inl (UndefinedBehaviour ''dereference of end()'') else Inr (Some (e_data (st_cache s ! 0)), 0))"

definition Storage_end :: "storage \<Rightarrow> data option \<times> nat" where
  "Storage_end s = (None, length (st_cache s))"

definition iterator_next :: "storage \<Rightarrow> data option \<times> nat \<Rightarrow> data option \<times> nat" where
  "iterator_next s i =
     (let it = snd i + 1 in (if it \<noteq> length (st_cache s) then Some (e_data (st_cache s ! it)) else None, it))"

fun free_all :: "nat \<Rightarrow> storage \<Rightarrow> storage" where
  "free_all 0 s = s"
| "free_all (Suc n) s = free_all n (freeEntry 0 s)"

definition Storage_destroy :: "storage \<Rightarrow> unit result" where
  "Storage_destroy s =
     (let s = free_all (length (st_cache s)) s
      in if length (st_freeEntries s) = st_capacity s then Inr ()
         else Inl (AssertionFailure ''m_freeEntries.size() == m_capacity''))"

section \<open>Order\<close>

definition key_of_entry :: "(byte list \<Rightarrow> byte list) \<Rightarrow> ims_entry \<Rightarrow> comp list" where
  "key_of_entry sha256 e = name_of (fullName sha256 (e_data e))"

text \<open>
  Packets that can be stored: the full name can be made, and is the name with one more component; names are not absurdly long.
\<close>

definition storable :: "(byte list \<Rightarrow> byte list) \<Rightarrow> data \<Rightarrow> bool" where
  "storable sha256 d \<longleftrightarrow> (\<exists>n d'. getFullName sha256 d = Inr (n, d')) \<and> valid_name (fullName sha256 d) \<and> valid_name (d_name d)
     \<and> (\<exists>c. name_of (fullName sha256 d) = name_of (d_name d) @ [c])"

lemma storable_intro:
  assumes "fullName_ok sha256 d" "hasWire (d_wire d)" "is_name (d_name d)" "\<And>bs. length (sha256 bs) = SHA256_DIGEST_SIZE"
    and "Name_size (d_name d) + 1 < 2 ^ 31"
  shows "storable sha256 d"
proof -
  obtain full c where full: "getFullName sha256 d = Inr (full, d\<lparr>d_fullName := full\<rparr>)"
    "comps full = comps (d_name d) @ [c]" "is_name full"
    using getFullName_made [OF assms(1-4)] by metis
  then show ?thesis using assms(3,5) by (simp add: storable_def fullName_def valid_name_def name_of_def Name_size_def)
qed

definition cache_ok :: "(byte list \<Rightarrow> byte list) \<Rightarrow> ims_entry list \<Rightarrow> bool" where
  "cache_ok sha256 c \<longleftrightarrow> sorted_wrt (<) (map (key_of_entry sha256) c) \<and> (\<forall>e \<in> set c. storable sha256 (e_data e))"

lemma name_less_iff:
  assumes "valid_name a" "valid_name b"
  shows "name_less a b \<longleftrightarrow> name_of a < name_of b"
proof -
  obtain r where "Name_compare a b = Inr r" "r < 0 \<longleftrightarrow> name_of a < name_of b"
    using Name_compare_lex [of a b] assms by (auto simp: valid_name_def)
  then show ?thesis by (simp add: name_less_def)
qed

lemma cache_ok_simps:
  "cache_ok sha256 []"
  "cache_ok sha256 (e # c) \<longleftrightarrow> cache_ok sha256 c \<and> storable sha256 (e_data e) \<and> (\<forall>x \<in> set c. key_of_entry sha256 e < key_of_entry sha256 x)"
  "cache_ok sha256 (c @ c') \<longleftrightarrow> cache_ok sha256 c \<and> cache_ok sha256 c'
     \<and> (\<forall>x \<in> set c. \<forall>y \<in> set c'. key_of_entry sha256 x < key_of_entry sha256 y)"
  by (auto simp: cache_ok_def sorted_wrt_append)

lemma cache_split:
  assumes "cache_ok sha256 (st_cache s)" "valid_name n" "it = index_lower_bound sha256 n s"
  shows "\<forall>e \<in> set (take it (st_cache s)). key_of_entry sha256 e < name_of n"
    and "\<forall>e \<in> set (drop it (st_cache s)). name_of n \<le> key_of_entry sha256 e" "it \<le> length (st_cache s)"
proof -
  let ?P = "\<lambda>e. name_less (fullName sha256 (e_data e)) n" and ?c = "st_cache s"
  have less: "?P e \<longleftrightarrow> key_of_entry sha256 e < name_of n" if "e \<in> set ?c" for e
    using that assms(1,2) by (auto simp: cache_ok_def storable_def key_of_entry_def name_less_iff)
  have tw: "take it ?c = takeWhile ?P ?c" "drop it ?c = dropWhile ?P ?c" "it \<le> length ?c"
    using takeWhile_eq_take [of ?P ?c] dropWhile_eq_drop [of ?P ?c] length_takeWhile_le [of ?P ?c]
    by (simp_all add: assms(3) index_lower_bound_def)
  show "it \<le> length ?c" by (rule tw(3))
  show "\<forall>e \<in> set (take it ?c). key_of_entry sha256 e < name_of n"
    unfolding tw using less set_takeWhileD by metis
  show "\<forall>e \<in> set (drop it ?c). name_of n \<le> key_of_entry sha256 e"
  proof (cases "dropWhile ?P ?c")
    case (Cons x xs)
    then have x: "\<not> ?P x" "x \<in> set ?c" using hd_dropWhile [of ?P ?c] set_dropWhileD [of x ?P ?c] by auto
    have "cache_ok sha256 (takeWhile ?P ?c @ x # xs)" using assms(1) Cons takeWhile_dropWhile_id [of ?P ?c] by simp
    then show ?thesis unfolding tw Cons using less [OF x(2)] x(1) by (auto simp: cache_ok_simps intro: order.trans)
  qed (simp only: tw, simp)
qed

lemma index_find_None:
  assumes "cache_ok sha256 (st_cache s)" "valid_name n"
  shows "index_find sha256 n s = None \<longleftrightarrow> name_of n \<notin> key_of_entry sha256 ` set (st_cache s)"
    and "index_find sha256 n s = Some it \<Longrightarrow> it < length (st_cache s) \<and> key_of_entry sha256 (st_cache s ! it) = name_of n"
proof -
  let ?c = "st_cache s"
  define k where "k = index_lower_bound sha256 n s"
  note split = cache_split [OF assms k_def]
  have nth: "\<not> name_less n (fullName sha256 (e_data (?c ! k))) \<longleftrightarrow> key_of_entry sha256 (?c ! k) = name_of n" if "k < length ?c"
  proof -
    have "?c ! k \<in> set (drop k ?c)" using that by (metis Cons_nth_drop_Suc list.set_intros(1))
    then have "name_of n \<le> key_of_entry sha256 (?c ! k)" using split(2) by blast
    moreover have "valid_name (fullName sha256 (e_data (?c ! k)))"
      using assms(1) that by (auto simp: cache_ok_def storable_def)
    ultimately show ?thesis using name_less_iff [OF assms(2)] by (auto simp: key_of_entry_def)
  qed
  show "it < length ?c \<and> key_of_entry sha256 (?c ! it) = name_of n" if "index_find sha256 n s = Some it"
    using that nth by (auto simp: index_find_def k_def [symmetric] Let_def split: if_splits)
  show "index_find sha256 n s = None \<longleftrightarrow> name_of n \<notin> key_of_entry sha256 ` set ?c"
  proof (cases "k < length ?c \<and> key_of_entry sha256 (?c ! k) = name_of n")
    case True
    then have "name_of n \<in> key_of_entry sha256 ` set ?c" by (metis image_eqI nth_mem)
    with True nth show ?thesis by (auto simp: index_find_def k_def [symmetric] Let_def)
  next
    case False
    have "key_of_entry sha256 e \<noteq> name_of n" if e: "e \<in> set ?c" for e
    proof (cases "k < length ?c")
      case True
      then have drop: "drop k ?c = ?c ! k # drop (Suc k) ?c" by (simp add: Cons_nth_drop_Suc)
      have c: "?c = take k ?c @ ?c ! k # drop (Suc k) ?c" using True by (rule id_take_nth_drop)
      then have "cache_ok sha256 (?c ! k # drop (Suc k) ?c)" using assms(1) cache_ok_simps(3) by metis
      moreover have k: "name_of n < key_of_entry sha256 (?c ! k)"
        using split(2) drop False True by (auto simp: order.not_eq_order_implies_strict)
      ultimately have after: "\<forall>x \<in> set (drop (Suc k) ?c). name_of n < key_of_entry sha256 x"
        by (auto simp: cache_ok_simps intro: order.strict_trans)
      have "e \<in> set (take k ?c) \<union> insert (?c ! k) (set (drop (Suc k) ?c))" using e c by (metis list.simps(15) set_append)
      then show ?thesis using split(1) k after by auto
    next
      case F: False
      then show ?thesis using split(1) e by auto
    qed
    then have "name_of n \<notin> key_of_entry sha256 ` set ?c" by (metis imageE)
    moreover have "index_find sha256 n s = None" using False nth by (auto simp: index_find_def k_def [symmetric] Let_def)
    ultimately show ?thesis by simp
  qed
qed

section \<open>The invariant\<close>

text \<open>
  What a derived class does to the cleanup index: it keeps the index well-formed, and if it tracks entries at all, then every
  inserted entry until it is erased.
\<close>

locale cleanup_policy =
  fixes ops :: policy
    and ok :: "cleanup \<Rightarrow> bool"
    and tracks :: bool
  assumes ok_Nil: "ok []"
    and ok_rest: "ok (x # ci) \<Longrightarrow> ok ci"
    and afterInsert: "ok ci \<Longrightarrow> distinct (map fst ci) \<Longrightarrow> e \<notin> fst ` set ci \<Longrightarrow> length ci < n
      \<Longrightarrow> \<exists>ci'. op_afterInsert ops n e ci = Inr ci' \<and> ok ci' \<and> distinct (map fst ci')
            \<and> fst ` set ci' = (if tracks then insert e (fst ` set ci) else fst ` set ci)"
    and afterAccess: "ok ci \<Longrightarrow> distinct (map fst ci) \<Longrightarrow> (tracks \<longrightarrow> e \<in> fst ` set ci) \<Longrightarrow> length ci \<le> n
      \<Longrightarrow> \<exists>ci'. op_afterAccess ops n e ci = Inr ci' \<and> ok ci' \<and> distinct (map fst ci') \<and> fst ` set ci' = fst ` set ci"
    and beforeErase: "ok ci \<Longrightarrow> distinct (map fst ci) \<Longrightarrow> ok (op_beforeErase ops e ci) \<and> distinct (map fst (op_beforeErase ops e ci))
      \<and> fst ` set (op_beforeErase ops e ci) = fst ` set ci - {e}"

text \<open>The entries are those of the cache and of the pool, \<open>nTotal\<close> in number; the index tracks those of the cache.\<close>

definition pool_inv :: "(byte list \<Rightarrow> byte list) \<Rightarrow> (cleanup \<Rightarrow> bool) \<Rightarrow> bool \<Rightarrow> nat \<Rightarrow> storage \<Rightarrow> bool" where
  "pool_inv sha256 ok tracks nTotal s \<longleftrightarrow>
     st_nPackets s = length (st_cache s) \<and> length (st_cache s) + length (st_freeEntries s) = nTotal
     \<and> distinct (map e_id (st_cache s) @ st_freeEntries s)
     \<and> (\<forall>e \<in> set (map e_id (st_cache s) @ st_freeEntries s). e < st_allocated s)
     \<and> cache_ok sha256 (st_cache s) \<and> ok (st_cleanupIndex s) \<and> distinct (map fst (st_cleanupIndex s))
     \<and> fst ` set (st_cleanupIndex s) = (if tracks then e_id ` set (st_cache s) else {})"

definition storage_inv :: "(byte list \<Rightarrow> byte list) \<Rightarrow> (cleanup \<Rightarrow> bool) \<Rightarrow> bool \<Rightarrow> storage \<Rightarrow> bool" where
  "storage_inv sha256 ok tracks s \<longleftrightarrow> pool_inv sha256 ok tracks (st_capacity s) s \<and> st_capacity s \<le> st_limit s"

lemma cache_remove:
  assumes "it < length c"
  shows "c = take it c @ c ! it # drop (Suc it) c" using assms by (rule id_take_nth_drop)

context cleanup_policy
begin

lemma cleanup_length:
  assumes "pool_inv sha256 ok tracks nTotal s"
  shows "length (st_cleanupIndex s) \<le> st_nPackets s"
proof -
  have "length (st_cleanupIndex s) = card (fst ` set (st_cleanupIndex s))"
    using assms distinct_card [of "map fst (st_cleanupIndex s)"] by (simp add: pool_inv_def)
  also have "\<dots> \<le> card (e_id ` set (st_cache s))"
    using assms by (auto simp: pool_inv_def intro: card_mono)
  also have "\<dots> \<le> length (st_cache s)" using card_image_le [of "set (st_cache s)" e_id] card_length [of "st_cache s"] by simp
  finally show ?thesis using assms by (simp add: pool_inv_def)
qed

lemma Storage_new_inv: "limit \<le> SIZE_MAX \<Longrightarrow> storage_inv sha256 ok tracks (Storage_new b limit)"
  by (auto simp: storage_inv_def pool_inv_def Storage_new_def push_new_def cache_ok_simps SIZE_MAX_def Let_def ok_Nil)

lemma push_new_inv:
  assumes "pool_inv sha256 ok tracks nTotal s"
  shows "pool_inv sha256 ok tracks (nTotal + n) (push_new n s)"
proof -
  have "\<forall>e \<in> set (st_cache s). e_id e < st_allocated s" "\<forall>x \<in> set (st_freeEntries s). x < st_allocated s"
    using assms by (simp_all add: pool_inv_def ball_Un)
  then have "set [st_allocated s ..< st_allocated s + n] \<inter> (e_id ` set (st_cache s) \<union> set (st_freeEntries s)) = {}"
    "\<forall>e \<in> set (st_cache s). e_id e < st_allocated s + n" "\<forall>x \<in> set (st_freeEntries s). x < st_allocated s + n"
    by fastforce+
  then show ?thesis using assms by (auto simp: pool_inv_def push_new_def)
qed

text \<open>Removing one entry of the cache and of the index.\<close>

lemma freeEntry_inv:
  assumes "pool_inv sha256 ok tracks nTotal s" "it < length (st_cache s)"
    and "ok ci" "distinct (map fst ci)" "fst ` set ci = fst ` set (st_cleanupIndex s) - {e_id (st_cache s ! it)}"
  shows "pool_inv sha256 ok tracks nTotal ((freeEntry it s)\<lparr>st_cleanupIndex := ci\<rparr>)"
proof -
  define a x b where "a = take it (st_cache s)" and "x = st_cache s ! it" and "b = drop (Suc it) (st_cache s)"
  have c: "st_cache s = a @ x # b" using cache_remove [OF assms(2)] by (simp add: a_def b_def x_def)
  have free: "freeEntry it s = s\<lparr>st_freeEntries := e_id x # st_freeEntries s, st_nPackets := st_nPackets s - 1, st_cache := a @ b\<rparr>"
    by (simp add: freeEntry_def a_def b_def x_def)
  have inv: "st_nPackets s = length a + length b + 1" "length a + length b + 1 + length (st_freeEntries s) = nTotal"
    "distinct (map e_id a @ e_id x # map e_id b @ st_freeEntries s)"
    "\<forall>e \<in> set (map e_id a @ e_id x # map e_id b @ st_freeEntries s). e < st_allocated s" "cache_ok sha256 (a @ x # b)"
    "fst ` set (st_cleanupIndex s) = (if tracks then e_id ` set (a @ x # b) else {})"
    using assms(1) by (simp_all add: pool_inv_def c)
  have "fst ` set ci = (if tracks then e_id ` set (a @ b) else {})" using inv(3,6) assms(5) unfolding x_def [symmetric]
    by (cases tracks) (simp_all add: image_Un)
  moreover have "cache_ok sha256 (a @ b)" using inv(5) by (simp add: cache_ok_simps)
  ultimately show ?thesis using inv(1-4) assms(3,4) unfolding pool_inv_def free by auto
qed

lemma evictItem_spec:
  assumes "pool_inv sha256 ok tracks nTotal s"
  shows "(st_cleanupIndex s = [] \<longrightarrow> evictItem sha256 s = Inr (False, s))
    \<and> (\<forall>v f rest. st_cleanupIndex s = (v, f) # rest \<longrightarrow>
        (\<exists>s' it. evictItem sha256 s = Inr (True, s') \<and> it < length (st_cache s) \<and> e_id (st_cache s ! it) = v
          \<and> s' = (freeEntry it s)\<lparr>st_cleanupIndex := rest\<rparr> \<and> pool_inv sha256 ok tracks nTotal s'))"
proof (cases "st_cleanupIndex s")
  case Nil
  then show ?thesis by (simp add: evictItem_def)
next
  case (Cons x rest)
  obtain v f where x: "x = (v, f)" by force
  have ids: "distinct (map e_id (st_cache s))" "v \<in> e_id ` set (st_cache s)" "cache_ok sha256 (st_cache s)"
    using assms Cons x by (auto simp: pool_inv_def split: if_splits)
  then obtain e where e: "find (\<lambda>e. e_id e = v) (st_cache s) = Some e"
    by (cases "find (\<lambda>e. e_id e = v) (st_cache s)") (auto simp: find_None_iff)
  then have ev: "e_id e = v" "e \<in> set (st_cache s)" by (auto simp: find_Some_iff)
  have valid: "valid_name (fullName sha256 (e_data e))" using ids(3) ev(2) by (auto simp: cache_ok_def storable_def)
  have "index_find sha256 (fullName sha256 (e_data e)) s \<noteq> None"
    using index_find_None(1) [OF ids(3) valid] ev(2) by (auto simp: key_of_entry_def)
  then obtain it where it: "index_find sha256 (fullName sha256 (e_data e)) s = Some it" by blast
  note it' = index_find_None(2) [OF ids(3) valid it]
  have "st_cache s ! it = e"
  proof -
    have "inj_on (key_of_entry sha256) (set (st_cache s))"
      using ids(3) by (auto simp: cache_ok_def strict_sorted_iff distinct_map)
    then show ?thesis using it' ev(2) by (auto simp: key_of_entry_def inj_on_def)
  qed
  moreover have "evictItem sha256 s = Inr (True, (freeEntry it s)\<lparr>st_cleanupIndex := rest\<rparr>)"
    using Cons x e it by (simp add: evictItem_def eraseImpl_def)
  moreover have "pool_inv sha256 ok tracks nTotal ((freeEntry it s)\<lparr>st_cleanupIndex := rest\<rparr>)"
  proof (rule freeEntry_inv [OF assms])
    have "distinct (map fst ((v, f) # rest))" "ok ((v, f) # rest)" using assms Cons x by (simp_all add: pool_inv_def)
    then show "ok rest" "distinct (map fst rest)" "fst ` set rest = fst ` set (st_cleanupIndex s) - {e_id (st_cache s ! it)}"
      using Cons x \<open>st_cache s ! it = e\<close> ev(1) ok_rest by simp_all
  qed (use it' in simp)
  ultimately show ?thesis using Cons x it' ev(1) by auto
qed

lemma evict_loop_inv:
  assumes "pool_inv sha256 ok tracks nTotal s" "0 \<le> n" tracks
  shows "\<exists>s'. evict_loop sha256 n s = (None, s') \<and> pool_inv sha256 ok tracks nTotal s' \<and> st_capacity s' = st_capacity s
    \<and> st_limit s' = st_limit s \<and> st_nPackets s' = min (st_nPackets s) (st_capacity s) \<and> set (st_cache s') \<subseteq> set (st_cache s)"
  using assms
proof (induction sha256 n s rule: evict_loop.induct)
  case (1 sha256 n s)
  show ?case
  proof (cases "st_nPackets s > st_capacity s")
    case True
    then have "st_cache s \<noteq> []" using "1.prems"(1) by (auto simp: pool_inv_def)
    then obtain v f rest where ci: "st_cleanupIndex s = (v, f) # rest"
      using "1.prems"(1,3) by (cases "st_cleanupIndex s") (auto simp: pool_inv_def)
    then obtain s' it where s': "evictItem sha256 s = Inr (True, s')" "it < length (st_cache s)"
      "s' = (freeEntry it s)\<lparr>st_cleanupIndex := rest\<rparr>" "pool_inv sha256 ok tracks nTotal s'"
      using evictItem_spec [OF "1.prems"(1)] by blast
    have same: "st_capacity s' = st_capacity s" "st_limit s' = st_limit s" "st_nPackets s' = st_nPackets s - 1"
      "set (st_cache s') \<subseteq> set (st_cache s)"
      using s'(3) by (auto simp: freeEntry_def dest: in_set_takeD in_set_dropD)
    from "1.IH"(1) [OF True s'(1) refl refl s'(4) "1.prems"(2,3)] obtain s'' where "evict_loop sha256 n s' = (None, s'')"
      "pool_inv sha256 ok tracks nTotal s''" "st_capacity s'' = st_capacity s'" "st_limit s'' = st_limit s'"
      "st_nPackets s'' = min (st_nPackets s') (st_capacity s')" "set (st_cache s'') \<subseteq> set (st_cache s')" by blast
    then show ?thesis using True s'(1) same by (auto simp: evict_loop.simps [of sha256 n s])
  qed (use "1.prems" in \<open>simp add: evict_loop.simps [of sha256 n s]\<close>)
qed

lemma setCapacity_inv:
  assumes "pool_inv sha256 ok tracks (st_capacity s) s" "tracks \<or> st_nPackets s \<le> n"
  shows "\<exists>s'. setCapacity sha256 n s = (None, s') \<and> pool_inv sha256 ok tracks n s' \<and> st_capacity s' = n
    \<and> st_limit s' = st_limit s \<and> st_nPackets s' = min (st_nPackets s) n \<and> set (st_cache s') \<subseteq> set (st_cache s)
    \<and> (st_nPackets s \<le> n \<longrightarrow> st_cache s' = st_cache s \<and> st_cleanupIndex s' = st_cleanupIndex s \<and> st_hasScheduler s' = st_hasScheduler s)"
proof -
  let ?old = "st_capacity s" and ?s = "s\<lparr>st_capacity := n\<rparr>"
  have inv: "pool_inv sha256 ok tracks ?old ?s" using assms(1) by (simp add: pool_inv_def)
  obtain s1 where s1: "(if st_nPackets ?s > st_capacity ?s then evict_loop sha256 (int (st_nPackets ?s) - int (st_capacity ?s)) ?s
      else (None, ?s)) = (None, s1)" "pool_inv sha256 ok tracks ?old s1" "st_capacity s1 = n" "st_limit s1 = st_limit s"
    "st_nPackets s1 = min (st_nPackets s) n" "set (st_cache s1) \<subseteq> set (st_cache s)" "st_nPackets s \<le> n \<longrightarrow> s1 = ?s"
  proof (cases "st_nPackets s > n")
    case True
    then have tracks using assms(2) by simp
    with evict_loop_inv [of sha256 ?old ?s "int (st_nPackets s) - int n"] inv True that show ?thesis by auto
  next
    case False
    with inv that [of ?s] show ?thesis by simp
  qed
  have count: "st_nPackets s1 + length (st_freeEntries s1) = ?old" using s1(2) by (simp add: pool_inv_def)
  define s2 where "s2 = (if n \<ge> ?old then push_new (n - ?old) s1 else s1\<lparr>st_freeEntries := drop (?old - n) (st_freeEntries s1)\<rparr>)"
  have enough: "\<not> (n < ?old \<and> ?old - n > length (st_freeEntries s1))" using count s1(5) by linarith
  have inv2: "pool_inv sha256 ok tracks n s2"
  proof (cases "n \<ge> ?old")
    case True
    then show ?thesis using push_new_inv [OF s1(2), of "n - ?old"] by (simp add: s2_def)
  next
    case False
    then show ?thesis using s1(2) enough count by (auto simp: s2_def pool_inv_def distinct_append dest: in_set_dropD)
  qed
  then have sum: "st_nPackets s2 + length (st_freeEntries s2) = n" by (simp add: pool_inv_def)
  have same: "st_capacity s2 = n" "st_limit s2 = st_limit s1" "st_nPackets s2 = st_nPackets s1" "st_cache s2 = st_cache s1"
    "st_cleanupIndex s2 = st_cleanupIndex s1" "st_hasScheduler s2 = st_hasScheduler s1"
    using s1(3) by (simp_all add: s2_def push_new_def)
  have "setCapacity sha256 n s = (None, s2)"
    unfolding setCapacity_def Let_def s1(1) prod.case option.case s1(3) using enough sum same(1) by (simp add: s2_def)
  then show ?thesis using inv2 same s1(4-7) by auto
qed

end


section \<open>Insertion\<close>

lemma index_insert_cache:
  assumes "cache_ok sha256 (st_cache s)" "storable sha256 (e_data e)" "key_of_entry sha256 e \<notin> key_of_entry sha256 ` set (st_cache s)"
  shows "\<exists>a b. index_insert sha256 e s = s\<lparr>st_cache := a @ e # b\<rparr> \<and> st_cache s = a @ b \<and> cache_ok sha256 (a @ e # b)"
proof -
  let ?n = "fullName sha256 (e_data e)" and ?c = "st_cache s"
  define it where "it = index_lower_bound sha256 ?n s"
  have valid: "valid_name ?n" using assms(2) by (simp add: storable_def)
  note split = cache_split [OF assms(1) valid it_def]
  have none: "index_find sha256 ?n s = None" using index_find_None(1) [OF assms(1) valid] assms(3) by (simp add: key_of_entry_def)
  have key: "name_of ?n = key_of_entry sha256 e" by (simp add: key_of_entry_def)
  have "\<forall>x \<in> set (drop it ?c). key_of_entry sha256 e < key_of_entry sha256 x"
  proof
    fix x
    assume x: "x \<in> set (drop it ?c)"
    then have "key_of_entry sha256 x \<noteq> key_of_entry sha256 e" using assms(3) by (metis image_eqI in_set_dropD)
    with split(2) x show "key_of_entry sha256 e < key_of_entry sha256 x" unfolding key by (metis order.not_eq_order_implies_strict)
  qed
  moreover have "cache_ok sha256 (take it ?c @ drop it ?c)" using assms(1) by simp
  ultimately have "cache_ok sha256 (take it ?c @ e # drop it ?c)"
    using split(1) assms(2) unfolding key cache_ok_simps(2,3) by auto
  moreover have "index_insert sha256 e s = s\<lparr>st_cache := take it ?c @ e # drop it ?c\<rparr>"
    using none by (simp add: index_insert_def it_def Let_def)
  ultimately show ?thesis by (intro exI [of _ "take it ?c"] exI [of _ "drop it ?c"]) simp
qed

text \<open>The state in which the entry is taken from the pool.\<close>

definition make_room :: "(byte list \<Rightarrow> byte list) \<Rightarrow> storage \<Rightarrow> error option \<times> storage" where
  "make_room sha256 s =
     (let doesReachLimit = (st_limit s = st_capacity s)
      in case (if isFull s \<and> \<not> doesReachLimit
               then setCapacity sha256 (min ((2 * st_capacity s) mod 2 ^ 64) (st_limit s)) s else (None, s)) of
           (Some err, s) \<Rightarrow> (Some err, s)
         | (None, s) \<Rightarrow>
             (case (if isFull s \<and> doesReachLimit then bindE (evictItem sha256 s) (\<lambda>(_, s). Inr s) else Inr s) of
                Inl err \<Rightarrow> (Some err, s)
              | Inr s \<Rightarrow> (None, s)))"

lemma remove_id:
  assumes "distinct (map e_id c)" "it < length c"
  shows "set (take it c @ drop (Suc it) c) = {e \<in> set c. e_id e \<noteq> e_id (c ! it)}"
proof -
  have c: "c = take it c @ c ! it # drop (Suc it) c" using assms(2) by (rule cache_remove)
  then have "distinct (map e_id (take it c @ c ! it # drop (Suc it) c))" using assms(1) by simp
  then have "set (take it c @ drop (Suc it) c) = {e \<in> set (take it c @ c ! it # drop (Suc it) c). e_id e \<noteq> e_id (c ! it)}"
    by (auto simp: image_iff)
  then show ?thesis using c by simp
qed

context cleanup_policy
begin

lemma make_room_inv:
  assumes "storage_inv sha256 ok tracks s" "0 < st_capacity s" "2 * st_capacity s < 2 ^ 64" "tracks \<or> st_capacity s < st_limit s"
  shows "\<exists>s'. make_room sha256 s = (None, s') \<and> storage_inv sha256 ok tracks s' \<and> st_freeEntries s' \<noteq> []
    \<and> st_limit s' = st_limit s
    \<and> (if st_nPackets s < st_limit s then st_cache s' = st_cache s \<and> st_cleanupIndex s' = st_cleanupIndex s
       else \<exists>v f. st_cleanupIndex s = (v, f) # st_cleanupIndex s' \<and> set (st_cache s') = {e \<in> set (st_cache s). e_id e \<noteq> v})"
proof -
  have inv: "pool_inv sha256 ok tracks (st_capacity s) s" "st_capacity s \<le> st_limit s" using assms(1) by (simp_all add: storage_inv_def)
  have size: "st_nPackets s + length (st_freeEntries s) = st_capacity s" using inv(1) by (simp add: pool_inv_def)
  consider "\<not> isFull s" | "isFull s" "st_limit s = st_capacity s" | "isFull s" "st_limit s \<noteq> st_capacity s" by blast
  then show ?thesis
  proof cases
    case 1
    then have "st_freeEntries s \<noteq> []" "st_nPackets s < st_limit s" using size inv(2) by (auto simp: isFull_def)
    with 1 assms(1) show ?thesis by (simp add: make_room_def Let_def)
  next
    case 2
    then have "st_cache s \<noteq> []" "tracks" using size assms(2,4) inv(1) by (auto simp: isFull_def pool_inv_def)
    then obtain v f rest where ci: "st_cleanupIndex s = (v, f) # rest"
      using inv(1) by (cases "st_cleanupIndex s") (auto simp: pool_inv_def)
    then obtain s' it where s': "evictItem sha256 s = Inr (True, s')" "s' = (freeEntry it s)\<lparr>st_cleanupIndex := rest\<rparr>"
      "pool_inv sha256 ok tracks (st_capacity s) s'" "it < length (st_cache s)" "e_id (st_cache s ! it) = v"
      using evictItem_spec [OF inv(1)] by blast
    then have "make_room sha256 s = (None, s')" using 2 by (simp add: make_room_def Let_def)
    moreover have "st_freeEntries s' \<noteq> []" "st_capacity s' = st_capacity s" "st_limit s' = st_limit s"
      "st_cleanupIndex s' = rest" "st_cache s' = take it (st_cache s) @ drop (Suc it) (st_cache s)"
      using s'(2) by (auto simp: freeEntry_def)
    moreover have "set (take it (st_cache s) @ drop (Suc it) (st_cache s)) = {e \<in> set (st_cache s). e_id e \<noteq> v}"
      using remove_id [OF _ s'(4)] inv(1) by (simp add: pool_inv_def s'(5))
    moreover have "\<not> st_nPackets s < st_limit s" using 2 by (simp add: isFull_def)
    ultimately show ?thesis using s'(3) inv(2) ci by (auto simp: storage_inv_def)
  next
    case 3
    let ?n = "min ((2 * st_capacity s) mod 2 ^ 64) (st_limit s)"
    have n: "?n = min (2 * st_capacity s) (st_limit s)" "st_capacity s < ?n" using assms(2,3) inv(2) 3(2) by simp_all
    have "st_nPackets s \<le> ?n" using size n by linarith
    then obtain s' where s': "setCapacity sha256 ?n s = (None, s')" "pool_inv sha256 ok tracks ?n s'" "st_capacity s' = ?n"
      "st_limit s' = st_limit s" "st_nPackets s' = st_nPackets s" "st_cache s' = st_cache s"
      "st_cleanupIndex s' = st_cleanupIndex s"
      using setCapacity_inv [OF inv(1), of ?n] by (auto simp: min_def)
    have "st_nPackets s' < st_capacity s'" unfolding s'(3,5) using size n(2) by linarith
    then have notfull: "\<not> isFull s'" by (simp add: isFull_def)
    then have "make_room sha256 s = (None, s')" using 3 s'(1) by (simp add: make_room_def Let_def)
    moreover have "st_freeEntries s' \<noteq> []" using s'(2) notfull unfolding isFull_def s'(3) by (auto simp: pool_inv_def)
    moreover have "st_nPackets s < st_limit s" using size inv(2) 3(2) by linarith
    ultimately show ?thesis using s' by (auto simp: storage_inv_def)
  qed
qed

end

lemma Storage_insert_eq:
  "Storage_insert ops sha256 d w s =
     (case getFullName sha256 d of
        Inl err \<Rightarrow> (Some err, s)
      | Inr (name, _) \<Rightarrow>
          if index_find sha256 name s \<noteq> None then (None, s)
          else case make_room sha256 s of
                 (Some err, s) \<Rightarrow> (Some err, s)
               | (None, s) \<Rightarrow>
                   (case st_freeEntries s of
                      [] \<Rightarrow> (Some (AssertionFailure ''m_freeEntries.size() > 0''), s)
                    | entry # rest \<Rightarrow>
                        let s = index_insert sha256
                                  \<lparr>e_id = entry, e_data = d, e_isFresh = True, e_markStale = (st_hasScheduler s \<and> w > 0)\<rparr>
                                  (s\<lparr>st_freeEntries := rest, st_nPackets := st_nPackets s + 1\<rparr>)
                        in (case op_afterInsert ops (st_nPackets s) entry (st_cleanupIndex s) of
                              Inl err \<Rightarrow> (Some err, s)
                            | Inr ci \<Rightarrow> (None, s\<lparr>st_cleanupIndex := ci\<rparr>))))"
  unfolding Storage_insert_def make_room_def Let_def
  by (simp split: sum.split prod.split option.split)

context cleanup_policy
begin

lemma insert_inv:
  assumes "storage_inv sha256 ok tracks s" "storable sha256 d" "0 < st_capacity s" "2 * st_capacity s < 2 ^ 64"
    and "tracks \<or> st_capacity s < st_limit s" "name_of (fullName sha256 d) \<notin> key_of_entry sha256 ` set (st_cache s)"
  shows "\<exists>s' e ci. Storage_insert ops sha256 d w s = (None, s') \<and> storage_inv sha256 ok tracks s' \<and> st_limit s' = st_limit s
    \<and> e_data e = d \<and> e_isFresh e
    \<and> set (st_cache s') = insert e {x \<in> set (st_cache s). st_nPackets s < st_limit s \<or> e_id x \<noteq> fst (hd (st_cleanupIndex s))}
    \<and> ci = (if st_nPackets s < st_limit s then st_cleanupIndex s else tl (st_cleanupIndex s)) \<and> e_id e \<notin> fst ` set ci
    \<and> op_afterInsert ops (st_nPackets s') (e_id e) ci = Inr (st_cleanupIndex s')"
proof -
  obtain n d' where full: "getFullName sha256 d = Inr (n, d')" using assms(2) by (auto simp: storable_def)
  then have n: "fullName sha256 d = n" "valid_name n" using assms(2) by (auto simp: fullName_def storable_def)
  have ok: "cache_ok sha256 (st_cache s)" using assms(1) by (simp add: storage_inv_def pool_inv_def)
  have none: "index_find sha256 n s = None" using index_find_None(1) [OF ok n(2)] assms(6) n(1) by simp
  obtain s1 where s1: "make_room sha256 s = (None, s1)" "storage_inv sha256 ok tracks s1" "st_freeEntries s1 \<noteq> []"
    "st_limit s1 = st_limit s"
    "if st_nPackets s < st_limit s then st_cache s1 = st_cache s \<and> st_cleanupIndex s1 = st_cleanupIndex s
       else \<exists>v f. st_cleanupIndex s = (v, f) # st_cleanupIndex s1 \<and> set (st_cache s1) = {e \<in> set (st_cache s). e_id e \<noteq> v}"
    using make_room_inv [OF assms(1,3,4,5)] by blast
  have left: "set (st_cache s1) = {x \<in> set (st_cache s). st_nPackets s < st_limit s \<or> e_id x \<noteq> fst (hd (st_cleanupIndex s))}"
    "st_cleanupIndex s1 = (if st_nPackets s < st_limit s then st_cleanupIndex s else tl (st_cleanupIndex s))"
  proof (atomize (full), cases "st_nPackets s < st_limit s")
    case False
    then obtain v f where "st_cleanupIndex s = (v, f) # st_cleanupIndex s1" "set (st_cache s1) = {e \<in> set (st_cache s). e_id e \<noteq> v}"
      using s1(5) by auto
    then show "set (st_cache s1) = {x \<in> set (st_cache s). st_nPackets s < st_limit s \<or> e_id x \<noteq> fst (hd (st_cleanupIndex s))}
      \<and> st_cleanupIndex s1 = (if st_nPackets s < st_limit s then st_cleanupIndex s else tl (st_cleanupIndex s))" using False by simp
  qed (use s1(5) in simp)
  obtain x rest where x: "st_freeEntries s1 = x # rest" using s1(3) by (cases "st_freeEntries s1") auto
  have inv: "pool_inv sha256 ok tracks (st_capacity s1) s1" "st_capacity s1 \<le> st_limit s1" using s1(2) by (simp_all add: storage_inv_def)
  define e where "e = \<lparr>e_id = x, e_data = d, e_isFresh = True, e_markStale = (st_hasScheduler s1 \<and> w > 0)\<rparr>"
  define s2 where "s2 = s1\<lparr>st_freeEntries := rest, st_nPackets := st_nPackets s1 + 1\<rparr>"
  have "key_of_entry sha256 e \<notin> key_of_entry sha256 ` set (st_cache s1)"
    using assms(6) left(1) by (auto simp: e_def key_of_entry_def)
  moreover have "cache_ok sha256 (st_cache s2)" "storable sha256 (e_data e)" using inv(1) assms(2) by (simp_all add: s2_def e_def pool_inv_def)
  ultimately obtain a b where ab: "index_insert sha256 e s2 = s2\<lparr>st_cache := a @ e # b\<rparr>" "st_cache s1 = a @ b" "cache_ok sha256 (a @ e # b)"
    using index_insert_cache [of sha256 s2 e] by (auto simp: s2_def)
  have ids: "distinct (map e_id (a @ b) @ x # rest)" "\<forall>i \<in> set (map e_id (a @ b) @ x # rest). i < st_allocated s1"
    "distinct (map fst (st_cleanupIndex s1))" "fst ` set (st_cleanupIndex s1) = (if tracks then e_id ` set (a @ b) else {})"
    "st_nPackets s1 = length (a @ b)" "length (a @ b) + Suc (length rest) = st_capacity s1" "ok (st_cleanupIndex s1)"
    using inv(1) by (simp_all add: pool_inv_def ab(2) x)
  have new: "x \<notin> fst ` set (st_cleanupIndex s1)" "length (st_cleanupIndex s1) < st_nPackets s1 + 1"
    using ids(1,4) cleanup_length [OF inv(1)] by (auto split: if_splits)
  from afterInsert [OF ids(7,3) new] obtain ci where ci: "op_afterInsert ops (st_nPackets s1 + 1) x (st_cleanupIndex s1) = Inr ci"
    "distinct (map fst ci)" "fst ` set ci = (if tracks then insert x (fst ` set (st_cleanupIndex s1)) else fst ` set (st_cleanupIndex s1))" "ok ci"
    by blast
  define s3 where "s3 = s2\<lparr>st_cache := a @ e # b, st_cleanupIndex := ci\<rparr>"
  have "Storage_insert ops sha256 d w s = (None, s3)"
    unfolding Storage_insert_eq full sum.case prod.case using none s1(1) x ab(1) ci(1)
    by (simp add: e_def [symmetric] s2_def [symmetric] Let_def) (simp add: s2_def s3_def)
  moreover have "fst ` set ci = (if tracks then e_id ` set (a @ e # b) else {})"
    unfolding ci(3) ids(4) by (auto simp: e_def)
  then have "pool_inv sha256 ok tracks (st_capacity s3) s3"
    using ids(1,2,5,6) ci(2,4) ab(3) by (auto simp: pool_inv_def s3_def s2_def e_def)
  moreover have "set (st_cache s3) = insert e (set (st_cache s1))" "st_nPackets s3 = st_nPackets s1 + 1" "st_cleanupIndex s3 = ci"
    "st_capacity s3 = st_capacity s1" "st_limit s3 = st_limit s1" by (simp_all add: s3_def s2_def ab(2))
  ultimately show ?thesis
    using inv(2) s1(4) left new(1) ci(1)
    by (intro exI [of _ s3] exI [of _ e] exI [of _ "st_cleanupIndex s1"]) (simp add: storage_inv_def e_def)
qed

lemma insert_existing:
  assumes "storage_inv sha256 ok tracks s" "storable sha256 d" "name_of (fullName sha256 d) \<in> key_of_entry sha256 ` set (st_cache s)"
  shows "Storage_insert ops sha256 d w s = (None, s)"
proof -
  obtain n d' where full: "getFullName sha256 d = Inr (n, d')" using assms(2) by (auto simp: storable_def)
  then have n: "fullName sha256 d = n" "valid_name n" using assms(2) by (auto simp: fullName_def storable_def)
  have "cache_ok sha256 (st_cache s)" using assms(1) by (simp add: storage_inv_def pool_inv_def)
  from index_find_None(1) [OF this n(2)] have "index_find sha256 n s \<noteq> None" using assms(3) n(1) by simp
  with full show ?thesis by (simp add: Storage_insert_eq)
qed

end
section \<open>Lookup and erasing\<close>

text \<open>\<open>isPrefixOf\<close> compares the values of components only; the index also orders by type.\<close>

definition value_prefix :: "comp list \<Rightarrow> comp list \<Rightarrow> bool" where
  "value_prefix p k \<longleftrightarrow> length p \<le> length k \<and> map comp_value p = map comp_value (take (length p) k)"

definition comp_prefix :: "comp list \<Rightarrow> comp list \<Rightarrow> bool" where
  "comp_prefix p k \<longleftrightarrow> take (length p) k = p"

lemma comp_prefix_value: "comp_prefix p k \<Longrightarrow> value_prefix p k"
  unfolding comp_prefix_def value_prefix_def by (metis length_take min.absorb_iff2 min.commute)

lemma value_prefix_append: "value_prefix p k \<Longrightarrow> value_prefix p (k @ l)"
  by (auto simp: value_prefix_def)

lemma comp_prefix_simps:
  "comp_prefix [] k" "comp_prefix (x # p) (y # k) \<longleftrightarrow> x = y \<and> comp_prefix p k" "\<not> comp_prefix (x # p) []"
  by (auto simp: comp_prefix_def)

lemma comp_prefix_snoc: "comp_prefix p (k @ [c]) \<longleftrightarrow> comp_prefix p k \<or> p = k @ [c]"
proof (cases "length p \<le> length k")
  case True
  then show ?thesis by (auto simp: comp_prefix_def)
next
  case False
  moreover have "length k < length p" if "take (length p) k = p" using that False by (metis length_take min.cobounded1)
  ultimately show ?thesis by (auto simp: comp_prefix_def dest: arg_cong [of _ _ length])
qed

lemma comp_prefix_le: "comp_prefix p k \<Longrightarrow> p \<le> k"
proof (induction p arbitrary: k)
  case (Cons x p)
  then show ?case by (cases k) (auto simp: comp_prefix_simps)
qed simp

text \<open>The names below a prefix are a segment of the order.\<close>

lemma comp_prefix_between: "comp_prefix p k' \<Longrightarrow> p \<le> k \<Longrightarrow> k \<le> k' \<Longrightarrow> comp_prefix p k"
proof (induction p arbitrary: k k')
  case (Cons x p)
  then obtain k1 where "k' = x # k1" "comp_prefix p k1" by (cases k') (auto simp: comp_prefix_simps)
  with Cons show ?case by (cases k) (auto simp: comp_prefix_simps)
qed (simp add: comp_prefix_simps)

lemma isPrefixOf_key:
  assumes "valid_name n" "valid_name m"
  shows "isPrefixOf n m = Inr (value_prefix (name_of n) (name_of m))"
  using isPrefixOf_values [of n m] assms by (simp add: valid_name_def value_prefix_def)

lemma cache_ok_nth:
  assumes "cache_ok sha256 c" "i < j" "j < length c"
  shows "key_of_entry sha256 (c ! i) < key_of_entry sha256 (c ! j)"
  using assms sorted_wrt_nth_less [of "(<)" "map (key_of_entry sha256) c" i j] by (simp add: cache_ok_def)

text \<open>What a scan from the lower bound sees.\<close>

lemma lower_bound_first:
  assumes "cache_ok sha256 (st_cache s)" "valid_name n" "it = index_lower_bound sha256 n s" "it < length (st_cache s)"
  shows "name_of n \<le> key_of_entry sha256 (st_cache s ! it)"
    and "e \<in> set (st_cache s) \<Longrightarrow> name_of n \<le> key_of_entry sha256 e \<Longrightarrow> key_of_entry sha256 (st_cache s ! it) \<le> key_of_entry sha256 e"
    and "e \<in> set (st_cache s) \<Longrightarrow> comp_prefix (name_of n) (key_of_entry sha256 e)
      \<Longrightarrow> comp_prefix (name_of n) (key_of_entry sha256 (st_cache s ! it))"
proof -
  let ?c = "st_cache s"
  note split = cache_split [OF assms(1-3)]
  have drop: "drop it ?c = ?c ! it # drop (Suc it) ?c" using assms(4) by (simp add: Cons_nth_drop_Suc)
  show first: "name_of n \<le> key_of_entry sha256 (?c ! it)" using split(2) drop by simp
  have least: "key_of_entry sha256 (?c ! it) \<le> key_of_entry sha256 e" if "e \<in> set ?c" "name_of n \<le> key_of_entry sha256 e" for e
  proof -
    obtain j where j: "j < length ?c" "e = ?c ! j" using \<open>e \<in> set ?c\<close> by (auto simp: in_set_conv_nth)
    have "\<not> j < it"
    proof
      assume "j < it"
      then have "e \<in> set (take it ?c)" using j split(3) by (auto simp: in_set_conv_nth)
      then show False using split(1) that(2) by (meson leD)
    qed
    then show ?thesis using cache_ok_nth [OF assms(1), of it j] j by (cases "it = j") auto
  qed
  then show "e \<in> set ?c \<Longrightarrow> name_of n \<le> key_of_entry sha256 e \<Longrightarrow> key_of_entry sha256 (?c ! it) \<le> key_of_entry sha256 e" .
  show "e \<in> set ?c \<Longrightarrow> comp_prefix (name_of n) (key_of_entry sha256 e) \<Longrightarrow> comp_prefix (name_of n) (key_of_entry sha256 (?c ! it))"
    using least first comp_prefix_between comp_prefix_le by blast
qed

lemma lower_bound_end:
  assumes "cache_ok sha256 (st_cache s)" "valid_name n" "index_lower_bound sha256 n s = length (st_cache s)" "e \<in> set (st_cache s)"
  shows "key_of_entry sha256 e < name_of n" "\<not> comp_prefix (name_of n) (key_of_entry sha256 e)"
proof -
  show "key_of_entry sha256 e < name_of n" using cache_split(1) [OF assms(1,2) refl] assms(3,4) by simp
  then show "\<not> comp_prefix (name_of n) (key_of_entry sha256 e)" using comp_prefix_le by (meson leD)
qed

lemma cache_map_inv:
  assumes "storage_inv sha256 ok tracks s" "\<And>e. e_id (f e) = e_id e" "\<And>e. e_data (f e) = e_data e"
  shows "storage_inv sha256 ok tracks (s\<lparr>st_cache := map f (st_cache s)\<rparr>)"
proof -
  have "map e_id (map f c) = map e_id c" "map (key_of_entry sha256) (map f c) = map (key_of_entry sha256) c" for c
    using assms(2,3) by (simp_all add: key_of_entry_def)
  moreover have "cache_ok sha256 (map f c) \<longleftrightarrow> cache_ok sha256 c" for c
    unfolding cache_ok_def calculation(2) using assms(3) by auto
  moreover have "e_id ` set (map f c) = e_id ` set c" for c using assms(2) by (simp add: image_image)
  ultimately show ?thesis
    using assms(1) unfolding storage_inv_def pool_inv_def by (simp del: map_map set_map)
qed

lemma markStale_inv: "storage_inv sha256 ok tracks s \<Longrightarrow> storage_inv sha256 ok tracks (markStale x s)"
  unfolding markStale_def by (rule cache_map_inv) simp_all

context cleanup_policy
begin

lemma access_inv:
  assumes "storage_inv sha256 ok tracks s" "it < length (st_cache s)"
  shows "\<exists>ci. access_entry ops it s = Inr (Some (e_data (st_cache s ! it)), s\<lparr>st_cleanupIndex := ci\<rparr>)
    \<and> op_afterAccess ops (st_nPackets s) (e_id (st_cache s ! it)) (st_cleanupIndex s) = Inr ci
    \<and> storage_inv sha256 ok tracks (s\<lparr>st_cleanupIndex := ci\<rparr>)"
proof -
  have inv: "pool_inv sha256 ok tracks (st_capacity s) s" using assms(1) by (simp add: storage_inv_def)
  then have "tracks \<longrightarrow> e_id (st_cache s ! it) \<in> fst ` set (st_cleanupIndex s)" "distinct (map fst (st_cleanupIndex s))"
    "ok (st_cleanupIndex s)" using assms(2) by (simp_all add: pool_inv_def)
  with afterAccess [OF _ _ _ cleanup_length [OF inv]] obtain ci where
    ci: "op_afterAccess ops (st_nPackets s) (e_id (st_cache s ! it)) (st_cleanupIndex s) = Inr ci"
    "distinct (map fst ci)" "fst ` set ci = fst ` set (st_cleanupIndex s)" "ok ci" by blast
  then show ?thesis using assms(1) by (intro exI [of _ ci]) (simp add: access_entry_def storage_inv_def pool_inv_def)
qed

lemma find_name_spec:
  assumes "storage_inv sha256 ok tracks s" "valid_name n"
  shows "\<exists>r s'. find_name ops sha256 n s = Inr (r, s') \<and> storage_inv sha256 ok tracks s' \<and> st_cache s' = st_cache s
    \<and> st_limit s' = st_limit s
    \<and> (r = None \<longrightarrow> (\<forall>e \<in> set (st_cache s). \<not> comp_prefix (name_of n) (key_of_entry sha256 e)))
    \<and> (\<forall>d. r = Some d \<longrightarrow> (\<exists>e \<in> set (st_cache s). e_data e = d \<and> value_prefix (name_of n) (key_of_entry sha256 e)
          \<and> name_of n \<le> key_of_entry sha256 e \<and> (\<forall>e' \<in> set (st_cache s). name_of n \<le> key_of_entry sha256 e' \<longrightarrow> key_of_entry sha256 e \<le> key_of_entry sha256 e')))"
proof -
  let ?c = "st_cache s"
  define it where "it = index_lower_bound sha256 n s"
  have ok: "cache_ok sha256 ?c" using assms(1) by (simp add: storage_inv_def pool_inv_def)
  note first = lower_bound_first [OF ok assms(2) it_def]
  consider "it = length ?c" | "it < length ?c" using cache_split(3) [OF ok assms(2) it_def] by linarith
  then show ?thesis
  proof cases
    case 1
    then show ?thesis using lower_bound_end [OF ok assms(2)] assms(1) by (auto simp: find_name_def it_def)
  next
    case 2
    then have "valid_name (fullName sha256 (e_data (?c ! it)))" using ok by (auto simp: cache_ok_def storable_def)
    from isPrefixOf_key [OF assms(2) this] 2
    have eq: "find_name ops sha256 n s = (if value_prefix (name_of n) (key_of_entry sha256 (?c ! it)) then access_entry ops it s else Inr (None, s))"
      by (simp add: find_name_def it_def [symmetric] key_of_entry_def)
    show ?thesis
    proof (cases "value_prefix (name_of n) (key_of_entry sha256 (?c ! it))")
      case True
      then show ?thesis using eq access_inv [OF assms(1) 2] first(1,2) 2 by (auto intro!: bexI [of _ "?c ! it"])
    next
      case False
      then show ?thesis using eq first(3) 2 assms(1) comp_prefix_value by auto
    qed
  qed
qed

end
lemma storable_entry:
  assumes "storage_inv sha256 ok tracks s" "e \<in> set (st_cache s)"
  shows "valid_name (d_name (e_data e))" "valid_name (fullName sha256 (e_data e))"
    "\<exists>c. key_of_entry sha256 e = name_of (d_name (e_data e)) @ [c]"
  using assms by (auto simp: storage_inv_def pool_inv_def cache_ok_def storable_def key_of_entry_def)

text \<open>The packets that \<open>erase\<close> with a prefix visits.\<close>

abbreviation below :: "name \<Rightarrow> ims_entry \<Rightarrow> bool" where
  "below n e \<equiv> value_prefix (name_of n) (name_of (d_name (e_data e)))"

context cleanup_policy
begin

lemma shrink_inv:
  assumes "storage_inv sha256 ok tracks s"
  shows "\<exists>s'. (if length (st_freeEntries s) > 2 * st_nPackets s then setCapacity sha256 (st_capacity s div 2) s else (None, s)) = (None, s')
    \<and> storage_inv sha256 ok tracks s' \<and> st_cache s' = st_cache s \<and> st_limit s' = st_limit s \<and> st_cleanupIndex s' = st_cleanupIndex s"
proof (cases "length (st_freeEntries s) > 2 * st_nPackets s")
  case True
  have inv: "pool_inv sha256 ok tracks (st_capacity s) s" "st_nPackets s + length (st_freeEntries s) = st_capacity s"
    using assms by (simp_all add: storage_inv_def pool_inv_def)
  then have "st_nPackets s \<le> st_capacity s div 2" using True by linarith
  with setCapacity_inv [OF inv(1), of "st_capacity s div 2"] True assms show ?thesis by (auto simp: storage_inv_def)
qed (use assms in simp)

lemma erase_one_inv:
  assumes "storage_inv sha256 ok tracks s" "it < length (st_cache s)"
  shows "storage_inv sha256 ok tracks
    (freeEntry it (s\<lparr>st_cleanupIndex := op_beforeErase ops (e_id (st_cache s ! it)) (st_cleanupIndex s)\<rparr>))"
proof -
  let ?ci = "op_beforeErase ops (e_id (st_cache s ! it)) (st_cleanupIndex s)"
  have inv: "pool_inv sha256 ok tracks (st_capacity s) s" using assms(1) by (simp add: storage_inv_def)
  then have "ok (st_cleanupIndex s)" "distinct (map fst (st_cleanupIndex s))" by (simp_all add: pool_inv_def)
  from freeEntry_inv [OF inv assms(2)] beforeErase [OF this]
  have "pool_inv sha256 ok tracks (st_capacity s) ((freeEntry it s)\<lparr>st_cleanupIndex := ?ci\<rparr>)" by blast
  then show ?thesis using assms(1) by (simp add: storage_inv_def pool_inv_def freeEntry_def)
qed

lemma erase_loop_spec:
  assumes "storage_inv sha256 ok tracks s" "valid_name n" "it \<le> length (st_cache s)"
  shows "\<exists>s'. erase_loop ops n it s = Inr s' \<and> storage_inv sha256 ok tracks s' \<and> st_limit s' = st_limit s
    \<and> st_cache s' = take it (st_cache s) @ dropWhile (below n) (drop it (st_cache s))"
  using assms
proof (induction "length (st_cache s)" arbitrary: s rule: less_induct)
  case (less s)
  let ?c = "st_cache s"
  let ?s = "freeEntry it (s\<lparr>st_cleanupIndex := op_beforeErase ops (e_id (?c ! it)) (st_cleanupIndex s)\<rparr>)"
  show ?case
  proof (cases "it < length ?c")
    case False
    then have "erase_loop ops n it s = Inr s" by (subst erase_loop.simps) simp
    with less(2) False show ?thesis by auto
  next
    case True
    then have prefix: "isPrefixOf n (d_name (e_data (?c ! it))) = Inr (below n (?c ! it))"
      using isPrefixOf_key [OF less(3)] storable_entry(1) [OF less(2), of "?c ! it"] by simp
    have drop: "drop it ?c = ?c ! it # drop (Suc it) ?c" using True by (simp add: Cons_nth_drop_Suc)
    show ?thesis
    proof (cases "below n (?c ! it)")
      case below: True
      have cache: "st_cache ?s = take it ?c @ drop (Suc it) ?c" "st_limit ?s = st_limit s" by (simp_all add: freeEntry_def)
      have "\<exists>s'. erase_loop ops n it ?s = Inr s' \<and> storage_inv sha256 ok tracks s' \<and> st_limit s' = st_limit ?s
        \<and> st_cache s' = take it (st_cache ?s) @ dropWhile (below n) (drop it (st_cache ?s))"
        by (rule less(1)) (use True erase_one_inv [OF less(2) True] less(3) cache(1) in simp_all)
      moreover have "erase_loop ops n it s = erase_loop ops n it ?s"
        by (subst erase_loop.simps) (simp add: True prefix below)
      ultimately show ?thesis using below drop True unfolding cache by simp
    next
      case False
      then have "erase_loop ops n it s = Inr s" by (subst erase_loop.simps) (simp add: True prefix)
      moreover have "dropWhile (below n) (drop it ?c) = drop it ?c" using False drop by simp
      ultimately show ?thesis using less(2) by (intro exI [of _ s]) (simp only: append_take_drop_id simp_thms)
    qed
  qed
qed

lemma erase_prefix_spec:
  assumes "storage_inv sha256 ok tracks s" "valid_name n"
  shows "\<exists>s'. Storage_erase ops sha256 n True s = (None, s') \<and> storage_inv sha256 ok tracks s' \<and> st_limit s' = st_limit s
    \<and> set (st_cache s') \<subseteq> set (st_cache s)
    \<and> (\<forall>e \<in> set (st_cache s). e \<notin> set (st_cache s') \<longrightarrow> below n e)
    \<and> (name_of n \<notin> key_of_entry sha256 ` set (st_cache s)
        \<longrightarrow> (\<forall>e \<in> set (st_cache s'). \<not> comp_prefix (name_of n) (name_of (d_name (e_data e)))))"
proof -
  let ?c = "st_cache s"
  define it where "it = index_lower_bound sha256 n s"
  have ok: "cache_ok sha256 ?c" using assms(1) by (simp add: storage_inv_def pool_inv_def)
  note split = cache_split [OF ok assms(2) it_def]
  obtain s1 where s1: "erase_loop ops n it s = Inr s1" "storage_inv sha256 ok tracks s1" "st_limit s1 = st_limit s"
    "st_cache s1 = take it ?c @ dropWhile (below n) (drop it ?c)" using erase_loop_spec [OF assms split(3)] by blast
  obtain s2 where s2: "Storage_erase ops sha256 n True s = (None, s2)" "storage_inv sha256 ok tracks s2" "st_cache s2 = st_cache s1"
    "st_limit s2 = st_limit s" using shrink_inv [OF s1(2)] s1(1,3) by (auto simp: Storage_erase_def it_def Let_def)
  have sub: "set (st_cache s2) \<subseteq> set ?c"
    unfolding s2(3) s1(4) by (auto dest: in_set_takeD in_set_dropD set_dropWhileD)
  have gone: "below n e" if e: "e \<in> set ?c" "e \<notin> set (st_cache s2)" for e
  proof -
    have "?c = take it ?c @ takeWhile (below n) (drop it ?c) @ dropWhile (below n) (drop it ?c)" by simp
    then have "e \<in> set (takeWhile (below n) (drop it ?c))" using e unfolding s2(3) s1(4) by (metis UnE UnI1 UnI2 set_append)
    then show ?thesis by (rule set_takeWhileD [THEN conjunct2])
  qed
  have left: "\<not> comp_prefix (name_of n) (name_of (d_name (e_data e)))"
    if none: "name_of n \<notin> key_of_entry sha256 ` set ?c" and e: "e \<in> set (st_cache s2)" for e
  proof
    assume pre: "comp_prefix (name_of n) (name_of (d_name (e_data e)))"
    have ein: "e \<in> set ?c" using sub e by blast
    have key: "comp_prefix (name_of n) (key_of_entry sha256 e)"
      using pre storable_entry(3) [OF assms(1) ein] by (auto simp: comp_prefix_snoc)
    then have "e \<notin> set (take it ?c)" using split(1) comp_prefix_le by (meson leD)
    then have "e \<in> set (dropWhile (below n) (drop it ?c))" using e unfolding s2(3) s1(4) by auto
    then obtain x xs where x: "dropWhile (below n) (drop it ?c) = x # xs" by (cases "dropWhile (below n) (drop it ?c)") auto
    then have "\<not> below n x" "x \<in> set (drop it ?c)" using hd_dropWhile [of "below n" "drop it ?c"] set_dropWhileD [of x "below n"] by auto
    then have xin: "x \<in> set ?c" "name_of n \<le> key_of_entry sha256 x" using split(2) in_set_dropD by fast+
    have "cache_ok sha256 (take it ?c @ takeWhile (below n) (drop it ?c) @ x # xs)" using ok x
      by (metis append_take_drop_id takeWhile_dropWhile_id)
    then have "key_of_entry sha256 x \<le> key_of_entry sha256 e"
      using \<open>e \<in> set (dropWhile (below n) (drop it ?c))\<close> by (auto simp: x cache_ok_simps)
    with key xin(2) have "comp_prefix (name_of n) (key_of_entry sha256 x)" using comp_prefix_between by blast
    moreover obtain c where c: "key_of_entry sha256 x = name_of (d_name (e_data x)) @ [c]" using storable_entry(3) [OF assms(1) xin(1)] ..
    moreover have "name_of n \<noteq> key_of_entry sha256 x" using none xin(1) by auto
    ultimately have "comp_prefix (name_of n) (name_of (d_name (e_data x)))"
      by (simp add: comp_prefix_snoc)
    then show False using \<open>\<not> below n x\<close> comp_prefix_value by blast
  qed
  show ?thesis using s2 sub gone left by (intro exI [of _ s2]) blast
qed

lemma erase_exact_spec:
  assumes "storage_inv sha256 ok tracks s" "valid_name n"
  shows "\<exists>s'. Storage_erase ops sha256 n False s = (None, s') \<and> storage_inv sha256 ok tracks s' \<and> st_limit s' = st_limit s
    \<and> st_cache s' = filter (\<lambda>e. key_of_entry sha256 e \<noteq> name_of n) (st_cache s)
    \<and> st_cleanupIndex s' = fold (\<lambda>e. op_beforeErase ops (e_id e)) (filter (\<lambda>e. key_of_entry sha256 e = name_of n) (st_cache s)) (st_cleanupIndex s)"
proof -
  let ?c = "st_cache s"
  have ok: "cache_ok sha256 ?c" using assms(1) by (simp add: storage_inv_def pool_inv_def)
  show ?thesis
  proof (cases "index_find sha256 n s")
    case None
    then have "name_of n \<notin> key_of_entry sha256 ` set ?c" using index_find_None(1) [OF ok assms(2)] by simp
    then have "\<forall>e \<in> set ?c. key_of_entry sha256 e \<noteq> name_of n" by (metis image_eqI)
    then show ?thesis using None assms(1) by (simp add: Storage_erase_def filter_True filter_False)
  next
    case (Some it)
    note it = index_find_None(2) [OF ok assms(2) Some]
    let ?s = "freeEntry it (s\<lparr>st_cleanupIndex := op_beforeErase ops (e_id (?c ! it)) (st_cleanupIndex s)\<rparr>)"
    have split: "?c = take it ?c @ ?c ! it # drop (Suc it) ?c" using it by (simp add: id_take_nth_drop)
    have "cache_ok sha256 (take it ?c @ ?c ! it # drop (Suc it) ?c)" using ok split by simp
    then have "\<forall>e \<in> set (take it ?c @ drop (Suc it) ?c). key_of_entry sha256 e \<noteq> name_of n" using it by (auto simp: cache_ok_simps)
    then have "filter (\<lambda>e. key_of_entry sha256 e \<noteq> name_of n) (take it ?c @ ?c ! it # drop (Suc it) ?c) = take it ?c @ drop (Suc it) ?c"
      "filter (\<lambda>e. key_of_entry sha256 e = name_of n) (take it ?c @ ?c ! it # drop (Suc it) ?c) = [?c ! it]"
      using it by (auto intro!: filter_True simp: filter_empty_conv)
    then have "st_cache ?s = filter (\<lambda>e. key_of_entry sha256 e \<noteq> name_of n) ?c" "st_limit ?s = st_limit s"
      "filter (\<lambda>e. key_of_entry sha256 e = name_of n) ?c = [?c ! it]"
      "st_cleanupIndex ?s = op_beforeErase ops (e_id (?c ! it)) (st_cleanupIndex s)"
      using split by (simp_all add: freeEntry_def)
    then show ?thesis using shrink_inv [OF erase_one_inv [OF assms(1)], of it] it Some by (auto simp: Storage_erase_def Let_def)
  qed
qed

end
section \<open>Child selection\<close>

text \<open>An entry that an Interest may be answered with, and those that match.\<close>

definition eligible :: "interest \<Rightarrow> ims_entry \<Rightarrow> bool" where
  "eligible i e \<longleftrightarrow> (sel_mustBeFresh (i_selectors i) \<longrightarrow> e_isFresh e)"

definition satisfies :: "(byte list \<Rightarrow> byte list) \<Rightarrow> interest \<Rightarrow> ims_entry \<Rightarrow> bool" where
  "satisfies sha256 i e \<longleftrightarrow> eligible i e \<and> matches_entry sha256 i e = Inr True"

lemma findNextFresh_spec:
  "it \<le> findNextFresh c it" "it \<le> length c \<Longrightarrow> findNextFresh c it \<le> length c"
  "it \<le> j \<Longrightarrow> j < findNextFresh c it \<Longrightarrow> \<not> e_isFresh (c ! j)"
  "findNextFresh c it < length c \<Longrightarrow> e_isFresh (c ! findNextFresh c it)"
proof -
  let ?P = "\<lambda>e. \<not> e_isFresh e"
  show "it \<le> findNextFresh c it" by (simp add: findNextFresh_def)
  show "findNextFresh c it \<le> length c" if "it \<le> length c"
    using that length_takeWhile_le [of ?P "drop it c"] by (simp add: findNextFresh_def)
  show "\<not> e_isFresh (c ! j)" if j: "it \<le> j" "j < findNextFresh c it"
  proof -
    have lt: "j - it < length (takeWhile ?P (drop it c))" using j by (simp add: findNextFresh_def)
    then have "takeWhile ?P (drop it c) ! (j - it) = c ! j"
      using j(1) length_takeWhile_le [of ?P "drop it c"] by (simp add: takeWhile_nth)
    then show ?thesis using nth_mem [OF lt] by (auto dest: set_takeWhileD)
  qed
  show "e_isFresh (c ! findNextFresh c it)" if "findNextFresh c it < length c"
    using that nth_length_takeWhile [of ?P "drop it c"] by (simp add: findNextFresh_def)
qed

definition next_candidate :: "interest \<Rightarrow> ims_entry list \<Rightarrow> nat \<Rightarrow> nat" where
  "next_candidate i c it = (if sel_mustBeFresh (i_selectors i) then findNextFresh c it else it)"

lemma next_candidate_spec:
  "it \<le> next_candidate i c it" "it \<le> j \<Longrightarrow> j < next_candidate i c it \<Longrightarrow> \<not> eligible i (c ! j)"
  "next_candidate i c it < length c \<Longrightarrow> eligible i (c ! next_candidate i c it)"
  using findNextFresh_spec [where c = c and it = it] by (auto simp: next_candidate_def eligible_def split: if_splits)

text \<open>A packet that matches has the name of the Interest as a prefix of its full name.\<close>

lemma matches_prefix:
  assumes "matches_entry sha256 i e = Inr True" "valid_name (i_name i)" "storable sha256 (e_data e)"
  shows "value_prefix (name_of (i_name i)) (key_of_entry sha256 e)"
proof -
  have valid: "valid_name (d_name (e_data e))" "valid_name (fullName sha256 (e_data e))" using assms(3) by (simp_all add: storable_def)
  obtain c where c: "key_of_entry sha256 e = name_of (d_name (e_data e)) @ [c]" using assms(3) by (auto simp: storable_def key_of_entry_def)
  obtain d where "check_prefix sha256 i (e_data e) = Inr (True, d)"
    using assms(1) by (auto simp: matches_entry_def matchesData_def Let_def bindE_iffs split: if_splits)
  then consider full d' where "getFullName sha256 (e_data e) = Inr (full, d')" "Name_equals (i_name i) full = Inr True"
    | "isPrefixOf (i_name i) (d_name (e_data e)) = Inr True"
    by (auto simp: check_prefix_def bindE_iffs split: if_splits)
  then show ?thesis
  proof cases
    case 1
    then have full: "full = fullName sha256 (e_data e)" by (simp add: fullName_def)
    have "map comp_value (name_of (i_name i)) = map comp_value (key_of_entry sha256 e)"
      using 1(2) Name_equals_values [of "i_name i" full] assms(2) valid(2) by (simp add: full valid_name_def key_of_entry_def)
    then show ?thesis by (auto simp: value_prefix_def dest: map_eq_imp_length_eq)
  next
    case 2
    then show ?thesis using isPrefixOf_key [OF assms(2) valid(1)] c value_prefix_append by simp
  qed
qed

text \<open>The scan to the right for the leftmost child.\<close>

lemma right_loop_leftmost:
  assumes ok: "cache_ok sha256 c" and name: "valid_name (i_name i)" and left: "sel_childSelector (i_selectors i) \<le> 0"
    and total_match: "\<forall>e \<in> set c. \<exists>r. matches_entry sha256 i e = Inr r"
    and typed: "\<forall>e \<in> set c. value_prefix (name_of (i_name i)) (key_of_entry sha256 e)
        \<longrightarrow> comp_prefix (name_of (i_name i)) (key_of_entry sha256 e)"
    and above: "\<forall>j. k < j \<longrightarrow> j < length c \<longrightarrow> name_of (i_name i) \<le> key_of_entry sha256 (c ! j)"
  shows "(\<exists>j. right_loop sha256 i c k r p = Inr (Inl j) \<and> k < j \<and> j < length c \<and> satisfies sha256 i (c ! j)
            \<and> (\<forall>j'. k < j' \<longrightarrow> j' < j \<longrightarrow> \<not> satisfies sha256 i (c ! j')))
       \<or> right_loop sha256 i c k r p = Inr (Inr r) \<and> (\<forall>j. k < j \<longrightarrow> j < length c \<longrightarrow> \<not> satisfies sha256 i (c ! j))"
  using above
proof (induction "length c - k" arbitrary: k rule: less_induct)
  case (less k)
  define m where "m = next_candidate i c (k + 1)"
  note next_m = next_candidate_spec [where it = "k + 1" and i = i and c = c, folded m_def]
  have skipped: "\<not> satisfies sha256 i (c ! j)" if "k < j" "j < m" for j
    using next_m(2) [of j] that by (simp add: satisfies_def)
  have unfold: "right_loop sha256 i c k r p =
    (if \<not> m < length c then Inr (Inr r)
     else bindE (isPrefixOf (i_name i) (fullName sha256 (e_data (c ! m)))) (\<lambda>isInPrefix.
       if \<not> isInPrefix then Inr (Inr r)
       else bindE (matches_entry sha256 i (c ! m)) (\<lambda>matches.
         if \<not> matches then right_loop sha256 i c m r p else Inr (Inl m))))"
    by (subst right_loop.simps) (simp add: m_def next_candidate_def left Let_def cong: if_cong)
  show ?case
  proof (cases "m < length c")
    case False
    then show ?thesis using unfold skipped by auto
  next
    case True
    let ?e = "c ! m" and ?n = "name_of (i_name i)"
    have e: "?e \<in> set c" "storable sha256 (e_data ?e)" using True ok by (auto simp: cache_ok_def)
    then have prefix: "isPrefixOf (i_name i) (fullName sha256 (e_data ?e)) = Inr (value_prefix ?n (key_of_entry sha256 ?e))"
      using isPrefixOf_key [OF name] by (simp add: storable_def key_of_entry_def)
    obtain b where b: "matches_entry sha256 i ?e = Inr b" using total_match e(1) by blast
    have bound: "?n \<le> key_of_entry sha256 ?e" using less(2) next_m(1) True by auto
    consider "\<not> value_prefix ?n (key_of_entry sha256 ?e)" | "value_prefix ?n (key_of_entry sha256 ?e)" "b"
      | "value_prefix ?n (key_of_entry sha256 ?e)" "\<not> b" by blast
    then show ?thesis
    proof cases
      case 1
      have "\<not> satisfies sha256 i (c ! j)" if j: "k < j" "j < length c" for j
      proof
        assume sat: "satisfies sha256 i (c ! j)"
        then have mj: "m \<le> j" using skipped j(1) by (meson leI)
        have "c ! j \<in> set c" "storable sha256 (e_data (c ! j))" using j(2) ok by (auto simp: cache_ok_def)
        with sat have "comp_prefix ?n (key_of_entry sha256 (c ! j))"
          using matches_prefix [OF _ name] typed by (auto simp: satisfies_def)
        moreover have "key_of_entry sha256 ?e \<le> key_of_entry sha256 (c ! j)"
          using cache_ok_nth [OF ok, of m j] mj j(2) by (cases "m = j") auto
        ultimately show False using 1 bound comp_prefix_between comp_prefix_value by blast
      qed
      then show ?thesis using unfold True prefix 1 by simp
    next
      case 2
      then have "satisfies sha256 i ?e" using b next_m(3) True by (simp add: satisfies_def)
      then show ?thesis using unfold True prefix 2 b skipped next_m(1) by auto
    next
      case 3
      then have rec: "right_loop sha256 i c k r p = right_loop sha256 i c m r p" using unfold True prefix b by simp
      have not_m: "\<not> satisfies sha256 i ?e" using b 3 by (simp add: satisfies_def)
      have km: "k < m" using next_m(1) by simp
      have none: "\<not> satisfies sha256 i (c ! j)" if "k < j" "\<not> m < j" for j
        using skipped [of j] not_m that by (cases "j = m") auto
      have "length c - m < length c - k" "\<forall>j. m < j \<longrightarrow> j < length c \<longrightarrow> ?n \<le> key_of_entry sha256 (c ! j)"
        using km True less(2) by auto
      from less(1) [OF this] consider (found) j where "right_loop sha256 i c m r p = Inr (Inl j)" "m < j" "j < length c"
          "satisfies sha256 i (c ! j)" "\<forall>j'. m < j' \<longrightarrow> j' < j \<longrightarrow> \<not> satisfies sha256 i (c ! j')"
        | (none) "right_loop sha256 i c m r p = Inr (Inr r)" "\<forall>j. m < j \<longrightarrow> j < length c \<longrightarrow> \<not> satisfies sha256 i (c ! j)" by blast
      then show ?thesis
      proof cases
        case found
        then have "\<forall>j'. k < j' \<longrightarrow> j' < j \<longrightarrow> \<not> satisfies sha256 i (c ! j')" using none by blast
        with found rec km show ?thesis by (intro disjI1 exI [of _ j]) simp
      next
        case none': none
        then have "\<forall>j. k < j \<longrightarrow> j < length c \<longrightarrow> \<not> satisfies sha256 i (c ! j)" using none by blast
        with none'(1) rec show ?thesis by simp
      qed
    qed
  qed
qed
lemma selectChild_leftmost:
  assumes ok: "cache_ok sha256 c" and name: "valid_name (i_name i)" and left: "sel_childSelector (i_selectors i) \<le> 0"
    and total_match: "\<forall>e \<in> set c. \<exists>r. matches_entry sha256 i e = Inr r"
    and typed: "\<forall>e \<in> set c. value_prefix (name_of (i_name i)) (key_of_entry sha256 e)
        \<longrightarrow> comp_prefix (name_of (i_name i)) (key_of_entry sha256 e)"
    and above: "\<forall>j. k < j \<longrightarrow> j < length c \<longrightarrow> name_of (i_name i) \<le> key_of_entry sha256 (c ! j)"
    and start: "k < length c" "k \<noteq> 0 \<longrightarrow> key_of_entry sha256 (c ! k) < name_of (i_name i)"
  shows "(\<exists>j. selectChild sha256 i k c = Inr (Some j) \<and> k \<le> j \<and> j < length c \<and> satisfies sha256 i (c ! j)
            \<and> (\<forall>j'. k \<le> j' \<longrightarrow> j' < j \<longrightarrow> \<not> satisfies sha256 i (c ! j')))
       \<or> selectChild sha256 i k c = Inr None \<and> (\<forall>j. k \<le> j \<longrightarrow> j < length c \<longrightarrow> \<not> satisfies sha256 i (c ! j))"
proof -
  define m where "m = next_candidate i c k"
  note next_m = next_candidate_spec [where it = k and i = i and c = c, folded m_def]
  have skipped: "\<not> satisfies sha256 i (c ! j)" if "k \<le> j" "j < m" for j
    using next_m(2) [of j] that by (simp add: satisfies_def)
  have "k \<noteq> 0 \<longrightarrow> name_less (fullName sha256 (e_data (c ! k))) (i_name i)"
    using start ok name_less_iff [OF _ name, of "fullName sha256 (e_data (c ! k))"]
    by (auto simp: cache_ok_def storable_def key_of_entry_def)
  then have unfold: "selectChild sha256 i k c =
    (if \<not> m < length c then Inr None
     else bindE (matches_entry sha256 i (c ! m)) (\<lambda>r.
       if r then Inr (Some m)
       else bindE (right_loop sha256 i c m m Name_default) (\<lambda>found.
         case found of Inl it \<Rightarrow> Inr (Some it) | Inr rightmost \<Rightarrow> if rightmost \<noteq> m then Inr (Some rightmost) else Inr None)))"
    using start(1) left by (auto simp: selectChild_def m_def next_candidate_def Let_def cong: if_cong)
  show ?thesis
  proof (cases "m < length c")
    case False
    then show ?thesis using unfold skipped by auto
  next
    case True
    obtain b where b: "matches_entry sha256 i (c ! m) = Inr b" using total_match True by (metis nth_mem)
    show ?thesis
    proof (cases b)
      case b_true: True
      then have "satisfies sha256 i (c ! m)" using b next_m(3) True by (simp add: satisfies_def)
      then show ?thesis using unfold True b b_true skipped next_m(1) by auto
    next
      case False
      have not_m: "\<not> satisfies sha256 i (c ! m)" using b False by (simp add: satisfies_def)
      have none: "\<not> satisfies sha256 i (c ! j)" if "k \<le> j" "\<not> m < j" for j
        using skipped [of j] not_m that by (cases "j = m") auto
      have "\<forall>j. m < j \<longrightarrow> j < length c \<longrightarrow> name_of (i_name i) \<le> key_of_entry sha256 (c ! j)" using above next_m(1) by auto
      from right_loop_leftmost [OF ok name left total_match typed this, of m Name_default]
      consider (found) j where "right_loop sha256 i c m m Name_default = Inr (Inl j)" "m < j" "j < length c"
          "satisfies sha256 i (c ! j)" "\<forall>j'. m < j' \<longrightarrow> j' < j \<longrightarrow> \<not> satisfies sha256 i (c ! j')"
        | (none) "right_loop sha256 i c m m Name_default = Inr (Inr m)"
          "\<forall>j. m < j \<longrightarrow> j < length c \<longrightarrow> \<not> satisfies sha256 i (c ! j)" by blast
      then show ?thesis
      proof cases
        case found
        then have "\<forall>j'. k \<le> j' \<longrightarrow> j' < j \<longrightarrow> \<not> satisfies sha256 i (c ! j')" using none by blast
        with found unfold True b False next_m(1) show ?thesis by (intro disjI1 exI [of _ j]) simp
      next
        case none': none
        then have "\<forall>j. k \<le> j \<longrightarrow> j < length c \<longrightarrow> \<not> satisfies sha256 i (c ! j)" using none by blast
        with none'(1) unfold True b False show ?thesis by simp
      qed
    qed
  qed
qed

lemma right_loop_step:
  assumes "right_loop sha256 i c k r p = Inr x" "m = next_candidate i c (k + 1)"
  shows "x = Inr r \<or> m < length c \<and> (x = Inl m \<or> (\<exists>r' \<in> {r, m}. \<exists>p'. right_loop sha256 i c m r' p' = Inr x))"
proof -
  have m: "(if sel_mustBeFresh (i_selectors i) then findNextFresh c (k + 1) else k + 1) = m" by (simp add: assms(2) next_candidate_def)
  show ?thesis using assms(1) [unfolded right_loop.simps [of sha256 i c k r p] Let_def m]
    by (auto simp: bindE_iffs split: if_splits)
qed

lemma right_loop_bound:
  "right_loop sha256 i c k r p = Inr x \<Longrightarrow> r < length c \<Longrightarrow> (case x of Inl j \<Rightarrow> j < length c | Inr j \<Rightarrow> j < length c)"
proof (induction "length c - k" arbitrary: k r p rule: less_induct)
  case (less k r p)
  define m where "m = next_candidate i c (k + 1)"
  have "k < m" using next_candidate_spec(1) [of "k + 1" i c] by (simp add: m_def)
  from right_loop_step [OF less(2) m_def] consider "x = Inr r" | "m < length c" "x = Inl m"
    | r' p' where "m < length c" "r' \<in> {r, m}" "right_loop sha256 i c m r' p' = Inr x" by blast
  then show ?case
  proof cases
    case 3
    then have "length c - m < length c - k" "r' < length c" using \<open>k < m\<close> less(3) by auto
    then show ?thesis using less(1) 3(3) by blast
  qed (use less(3) in simp_all)
qed

lemma selectChild_bound:
  assumes "selectChild sha256 i k c = Inr (Some it)"
  shows "it < length c"
proof -
  define m where "m = next_candidate i c k"
  have m: "(if sel_mustBeFresh (i_selectors i) then findNextFresh c k else k) = m" by (simp add: m_def next_candidate_def)
  define G where "G = (\<lambda>found. case found of Inl it \<Rightarrow> Inr (Some it)
      | Inr rightmost \<Rightarrow> if rightmost \<noteq> m then Inr (Some rightmost)
          else if \<not> sel_childSelector (i_selectors i) \<le> 0
          then bindE (matches_entry sha256 i (c ! m)) (\<lambda>r. Inr (if r then Some m else None)) else (Inr None :: nat option result))"
  have steps: "m < length c" "bindE (if sel_childSelector (i_selectors i) \<le> 0 then matches_entry sha256 i (c ! m) else Inr False) (\<lambda>r.
      if r then Inr (Some m) else bindE (right_loop sha256 i c m m Name_default) G) = Inr (Some it)"
    using assms unfolding selectChild_def Let_def m G_def [symmetric]
    by (simp_all only: split: if_splits) simp_all
  from steps(2) obtain r where r: "(if r then Inr (Some m) else bindE (right_loop sha256 i c m m Name_default) G) = Inr (Some it)"
    by (rule bindE_InrE)
  show ?thesis
  proof (cases r)
    case False
    then obtain x where x: "right_loop sha256 i c m m Name_default = Inr x" "G x = Inr (Some it)" using r by (auto elim: bindE_InrE)
    then have "x = Inl it \<or> x = Inr it \<or> it = m" by (auto simp: G_def bindE_iffs split: sum.splits if_splits)
    then show ?thesis using right_loop_bound [OF x(1) steps(1)] steps(1) by auto
  qed (use r steps(1) in simp)
qed

context cleanup_policy
begin

lemma find_interest_keeps:
  assumes "storage_inv sha256 ok tracks s" "find_interest ops sha256 i s = Inr (r, s')"
  shows "storage_inv sha256 ok tracks s' \<and> st_cache s' = st_cache s \<and> st_limit s' = st_limit s"
proof -
  have "storage_inv sha256 ok tracks s' \<and> st_cache s' = st_cache s \<and> st_limit s' = st_limit s" if "access_entry ops it s = Inr (r, s')"
    "selectChild sha256 i k (st_cache s) = Inr (Some it)" for it k
    using access_inv [OF assms(1) selectChild_bound [OF that(2)]] that(1) by auto
  then show ?thesis using assms
    by (auto simp: find_interest_def Let_def bindE_iffs split: option.splits if_splits)
qed

lemma find_interest_leftmost:
  assumes "storage_inv sha256 ok tracks s" "valid_name (i_name i)" "sel_childSelector (i_selectors i) \<le> 0"
    and "\<forall>e \<in> set (st_cache s). \<exists>r. matches_entry sha256 i e = Inr r"
    and "\<forall>e \<in> set (st_cache s). value_prefix (name_of (i_name i)) (key_of_entry sha256 e)
        \<longrightarrow> comp_prefix (name_of (i_name i)) (key_of_entry sha256 e)"
    and "name_of (i_name i) \<notin> key_of_entry sha256 ` set (st_cache s)"
  shows "\<exists>r s'. find_interest ops sha256 i s = Inr (r, s') \<and> storage_inv sha256 ok tracks s' \<and> st_cache s' = st_cache s
    \<and> (r = None \<longrightarrow> (\<forall>e \<in> set (st_cache s). \<not> satisfies sha256 i e))
    \<and> (\<forall>d. r = Some d \<longrightarrow> (\<exists>e \<in> set (st_cache s). e_data e = d \<and> satisfies sha256 i e
          \<and> (\<forall>e' \<in> set (st_cache s). satisfies sha256 i e' \<longrightarrow> key_of_entry sha256 e \<le> key_of_entry sha256 e')))"
proof -
  let ?c = "st_cache s" and ?n = "name_of (i_name i)"
  define it where "it = index_lower_bound sha256 (i_name i) s"
  have ok: "cache_ok sha256 ?c" using assms(1) by (simp add: storage_inv_def pool_inv_def)
  note split = cache_split [OF ok assms(2) it_def]
  have none: "index_find sha256 (i_name i) s = None" using index_find_None(1) [OF ok assms(2)] assms(6) by simp
  have prefix: "comp_prefix ?n (key_of_entry sha256 e)" if "e \<in> set ?c" "satisfies sha256 i e" for e
    using matches_prefix [OF _ assms(2)] assms(5) ok that by (auto simp: satisfies_def cache_ok_def)
  have before: "\<not> satisfies sha256 i (?c ! j)" if "j < it" for j
  proof
    assume "satisfies sha256 i (?c ! j)"
    then have "?n \<le> key_of_entry sha256 (?c ! j)" using prefix comp_prefix_le split(3) that by (meson nth_mem order.strict_trans2)
    moreover have "?c ! j \<in> set (take it ?c)" using that split(3) by (auto simp: in_set_conv_nth)
    ultimately show False using split(1) by (meson leD)
  qed
  show ?thesis
  proof (cases "it = length ?c")
    case True
    then have "\<forall>e \<in> set ?c. \<not> satisfies sha256 i e" using before by (auto simp: in_set_conv_nth)
    moreover have "find_interest ops sha256 i s = Inr (None, s)" using True none by (simp add: find_interest_def it_def)
    ultimately show ?thesis using assms(1) by auto
  next
    case False
    define k where "k = (if it \<noteq> 0 then it - 1 else it)"
    have k: "k < length ?c" "\<forall>j. k < j \<longrightarrow> it \<le> j" "k \<noteq> 0 \<longrightarrow> k < it" "k \<le> it" using False split(3) by (auto simp: k_def)
    have "?c ! j \<in> set (drop it ?c)" if "it \<le> j" "j < length ?c" for j
      using that by (auto simp: in_set_conv_nth intro: exI [of _ "j - it"])
    then have above: "\<forall>j. k < j \<longrightarrow> j < length ?c \<longrightarrow> ?n \<le> key_of_entry sha256 (?c ! j)" using split(2) k(2) by blast
    have "?c ! k \<in> set (take it ?c)" if "k < it" using that k(1) by (metis length_take min_less_iff_conj nth_mem nth_take)
    then have start: "k \<noteq> 0 \<longrightarrow> key_of_entry sha256 (?c ! k) < ?n" using split(1) k(3) by blast
    have eq: "find_interest ops sha256 i s = bindE (selectChild sha256 i k ?c) (\<lambda>ret.
        case ret of None \<Rightarrow> Inr (None, s) | Some it \<Rightarrow> access_entry ops it s)"
      using none False by (simp add: find_interest_def it_def [symmetric] k_def Let_def)
    have early: "\<not> satisfies sha256 i (?c ! j)" if "j < k" for j using before that k(4) by simp
    from selectChild_leftmost [OF ok assms(2-5) above k(1) start]
    consider (found) j where "selectChild sha256 i k ?c = Inr (Some j)" "j < length ?c" "satisfies sha256 i (?c ! j)"
        "\<forall>j'. k \<le> j' \<longrightarrow> j' < j \<longrightarrow> \<not> satisfies sha256 i (?c ! j')"
      | (none) "selectChild sha256 i k ?c = Inr None" "\<forall>j. k \<le> j \<longrightarrow> j < length ?c \<longrightarrow> \<not> satisfies sha256 i (?c ! j)" by blast
    then show ?thesis
    proof cases
      case found
      have "key_of_entry sha256 (?c ! j) \<le> key_of_entry sha256 e'" if e': "e' \<in> set ?c" "satisfies sha256 i e'" for e'
      proof -
        obtain j' where j': "j' < length ?c" "e' = ?c ! j'" using e'(1) by (auto simp: in_set_conv_nth)
        then have "j \<le> j'" using found(4) early e'(2) by (meson leI)
        then show ?thesis using cache_ok_nth [OF ok, of j j'] j' by (cases "j = j'") auto
      qed
      then show ?thesis using access_inv [OF assms(1) found(2)] eq found(1-3) by (auto intro!: bexI [of _ "?c ! j"])
    next
      case none': none
      then have "\<forall>e \<in> set ?c. \<not> satisfies sha256 i e" using early by (metis in_set_conv_nth leI)
      then show ?thesis using eq none'(1) assms(1) by auto
    qed
  qed
qed

end
section \<open>Reachable states\<close>

text \<open>
  A call that returns. The capacity doubles without a check for overflow (``memory should run out before that''), which the steps
  take as their condition.
\<close>

inductive storage_step :: "policy \<Rightarrow> (byte list \<Rightarrow> byte list) \<Rightarrow> storage \<Rightarrow> storage \<Rightarrow> bool"
  for ops sha256 where
  insert: "Storage_insert ops sha256 d w s = (None, s') \<Longrightarrow> storable sha256 d \<Longrightarrow> 2 * st_capacity s < 2 ^ 64
    \<Longrightarrow> storage_step ops sha256 s s'"
| find_name: "find_name ops sha256 n s = Inr (r, s') \<Longrightarrow> valid_name n \<Longrightarrow> storage_step ops sha256 s s'"
| find_interest: "find_interest ops sha256 i s = Inr (r, s') \<Longrightarrow> storage_step ops sha256 s s'"
| erase: "Storage_erase ops sha256 n isPrefix s = (None, s') \<Longrightarrow> valid_name n \<Longrightarrow> storage_step ops sha256 s s'"
| markStale: "storage_step ops sha256 s (markStale e s)"

lemma free_all_entries: "length (st_freeEntries (free_all n s)) = n + length (st_freeEntries s) \<and> st_capacity (free_all n s) = st_capacity s"
  by (induction n arbitrary: s) (simp_all add: freeEntry_def)

lemma Storage_destroy_inv: "storage_inv sha256 ok tracks s \<Longrightarrow> Storage_destroy s = Inr ()"
  using free_all_entries [of "length (st_cache s)" s] by (simp add: Storage_destroy_def storage_inv_def pool_inv_def Let_def)

lemma storage_size: "storage_inv sha256 ok tracks s \<Longrightarrow> st_nPackets s \<le> st_capacity s \<and> st_capacity s \<le> st_limit s"
  by (simp add: storage_inv_def pool_inv_def)

text \<open>An insertion at capacity 0 fails.\<close>

lemma insert_capacity_0:
  assumes "storage_inv sha256 ok tracks s" "st_capacity s = 0" "getFullName sha256 d = Inr (n, d')"
  shows "fst (Storage_insert ops sha256 d w s) = Some (AssertionFailure ''m_freeEntries.size() > 0'')"
proof -
  have s: "st_cache s = []" "st_freeEntries s = []" "st_nPackets s = 0" "st_cleanupIndex s = []"
    using assms(1,2) by (auto simp: storage_inv_def pool_inv_def split: if_splits)
  have "index_find sha256 n s = None" by (simp add: index_find_def index_lower_bound_def s)
  then show ?thesis using s assms(2,3)
    by (simp add: Storage_insert_def isFull_def setCapacity_def push_new_def evictItem_def Let_def)
qed

context cleanup_policy
begin

lemma insert_keeps:
  assumes "storage_inv sha256 ok tracks s" "storable sha256 d" "2 * st_capacity s < 2 ^ 64" "tracks \<or> st_limit s = SIZE_MAX"
    and "Storage_insert ops sha256 d w s = (None, s')"
  shows "storage_inv sha256 ok tracks s' \<and> st_limit s' = st_limit s"
proof (cases "name_of (fullName sha256 d) \<in> key_of_entry sha256 ` set (st_cache s)")
  case True
  then show ?thesis using insert_existing [OF assms(1,2) True] assms(1,5) by simp
next
  case False
  obtain n d' where "getFullName sha256 d = Inr (n, d')" using assms(2) by (auto simp: storable_def)
  then have "st_capacity s \<noteq> 0" using insert_capacity_0 [OF assms(1)] assms(5) by (metis fst_conv option.distinct(1))
  moreover have "tracks \<or> st_capacity s < st_limit s" using assms(3,4) by (auto simp: SIZE_MAX_def)
  ultimately show ?thesis using insert_inv [OF assms(1,2) _ assms(3) _ False, of w] assms(5) by auto
qed

lemma step_inv:
  assumes "storage_step ops sha256 s s'" "storage_inv sha256 ok tracks s" "tracks \<or> st_limit s = SIZE_MAX"
  shows "storage_inv sha256 ok tracks s' \<and> st_limit s' = st_limit s"
  using assms(1)
proof cases
  case (insert d w)
  then show ?thesis using insert_keeps assms(2,3) by blast
next
  case (find_name n r)
  then show ?thesis using find_name_spec [OF assms(2) find_name(2)] by auto
next
  case (find_interest i r)
  then show ?thesis using find_interest_keeps [OF assms(2)] by blast
next
  case (erase n isPrefix)
  then show ?thesis using erase_prefix_spec [OF assms(2)] erase_exact_spec [OF assms(2)] by (cases isPrefix) (metis prod.inject)+
next
  case (markStale e)
  then show ?thesis using markStale_inv [OF assms(2)] by (simp add: markStale_def)
qed

lemma reachable_inv:
  assumes "(storage_step ops sha256)\<^sup>*\<^sup>* s s'" "storage_inv sha256 ok tracks s" "tracks \<or> st_limit s = SIZE_MAX"
  shows "storage_inv sha256 ok tracks s' \<and> st_limit s' = st_limit s"
  using assms by (induction rule: rtranclp_induct) (auto dest: step_inv)

text \<open>A packet that was inserted is found by its full name.\<close>

lemma find_full_name:
  assumes "storage_inv sha256 ok tracks s" "e \<in> set (st_cache s)" "valid_name n" and n: "name_of n = key_of_entry sha256 e"
  shows "\<exists>s'. find_name ops sha256 n s = Inr (Some (e_data e), s')"
proof -
  obtain r s' where r: "find_name ops sha256 n s = Inr (r, s')"
    "r = None \<longrightarrow> (\<forall>x \<in> set (st_cache s). \<not> comp_prefix (name_of n) (key_of_entry sha256 x))"
    "\<forall>d. r = Some d \<longrightarrow> (\<exists>x \<in> set (st_cache s). e_data x = d \<and> value_prefix (name_of n) (key_of_entry sha256 x)
       \<and> name_of n \<le> key_of_entry sha256 x \<and> (\<forall>e' \<in> set (st_cache s). name_of n \<le> key_of_entry sha256 e' \<longrightarrow> key_of_entry sha256 x \<le> key_of_entry sha256 e'))"
    using find_name_spec [OF assms(1,3)] by blast
  have "comp_prefix (name_of n) (key_of_entry sha256 e)" by (simp add: comp_prefix_def n)
  then obtain d where d: "r = Some d" using r(2) assms(2) by blast
  then obtain x where x: "x \<in> set (st_cache s)" "e_data x = d" "key_of_entry sha256 x = key_of_entry sha256 e"
    using r(3) assms(2) n by (metis order.antisym order.refl)
  moreover have "inj_on (key_of_entry sha256) (set (st_cache s))"
    using assms(1) by (auto simp: storage_inv_def pool_inv_def cache_ok_def strict_sorted_iff distinct_map)
  ultimately have "x = e" using assms(2) by (auto dest: inj_onD)
  with r(1) d x(2) show ?thesis by simp
qed

end

end
