(* ===== verification/StoragePolicies.thy ===== *)
theory StoragePolicies
  imports InMemoryStorage "HOL-Library.Multiset"
begin

text \<open>
  The replacement policies of the in-memory storage, after \<open>src/util/in-memory-storage-{fifo,lru,lfu,persistent}.{hpp,cpp}\<close>: what each
  does to its cleanup index, and the storage with each of them.

  The indexes of FIFO and LRU are unique by entry and in the order of insertion. The index of LFU is ordered by frequency; where
  Boost puts an element among those of the same frequency is the parameter \<open>place\<close>, which is given the old position.
\<close>

section \<open>The policies\<close>

definition index_size_ok :: "nat \<Rightarrow> cleanup \<Rightarrow> cleanup \<Rightarrow> cleanup result" where
  "index_size_ok n ci ci' = (if length ci \<le> n then Inr ci' else Inl (AssertionFailure ''m_cleanupIndex.size() <= size()''))"

definition index_push :: "nat \<Rightarrow> cleanup \<Rightarrow> cleanup" where
  "index_push e ci = (if e \<in> fst ` set ci then ci else ci @ [(e, 0)])"

definition index_erase :: "nat \<Rightarrow> cleanup \<Rightarrow> cleanup" where
  "index_erase e ci = filter (\<lambda>x. fst x \<noteq> e) ci"

definition Fifo_afterInsert :: "nat \<Rightarrow> nat \<Rightarrow> cleanup \<Rightarrow> cleanup result" where
  "Fifo_afterInsert n e ci = index_size_ok n ci (index_push e ci)"

definition Fifo_beforeErase :: "nat \<Rightarrow> cleanup \<Rightarrow> cleanup" where
  "Fifo_beforeErase e ci = index_erase e ci"

definition Lru_afterInsert :: "nat \<Rightarrow> nat \<Rightarrow> cleanup \<Rightarrow> cleanup result" where
  "Lru_afterInsert n e ci = index_size_ok n ci (index_push e ci)"

definition Lru_beforeErase :: "nat \<Rightarrow> cleanup \<Rightarrow> cleanup" where
  "Lru_beforeErase e ci = index_erase e ci"

definition Lru_afterAccess :: "nat \<Rightarrow> nat \<Rightarrow> cleanup \<Rightarrow> cleanup result" where
  "Lru_afterAccess n e ci = Lru_afterInsert n e (Lru_beforeErase e ci)"

type_synonym placement = "nat \<Rightarrow> nat \<times> u64 \<Rightarrow> cleanup \<Rightarrow> cleanup"

definition Lfu_afterInsert :: "placement \<Rightarrow> nat \<Rightarrow> nat \<Rightarrow> cleanup \<Rightarrow> cleanup result" where
  "Lfu_afterInsert place n e ci = index_size_ok n ci (if e \<in> fst ` set ci then ci else place (length ci) (e, 0) ci)"

definition Lfu_beforeErase :: "nat \<Rightarrow> cleanup \<Rightarrow> cleanup" where
  "Lfu_beforeErase e ci = index_erase e ci"

definition incrementFrequency :: "nat \<times> u64 \<Rightarrow> nat \<times> u64" where
  "incrementFrequency x = (fst x, snd x + 1)"

text \<open>\<open>modify\<close> with the end iterator is undefined.\<close>

definition Lfu_afterAccess :: "placement \<Rightarrow> nat \<Rightarrow> nat \<Rightarrow> cleanup \<Rightarrow> cleanup result" where
  "Lfu_afterAccess place n e ci =
     (case find (\<lambda>x. fst x = e) ci of
        None \<Rightarrow> Inl (UndefinedBehaviour ''modify(end())'')
      | Some x \<Rightarrow> Inr (place (length (takeWhile (\<lambda>x. fst x \<noteq> e) ci)) (incrementFrequency x) (index_erase e ci)))"

text \<open>The derived classes; what they do not override does nothing.\<close>

definition no_hook :: "nat \<Rightarrow> nat \<Rightarrow> cleanup \<Rightarrow> cleanup result" where
  "no_hook n e ci = Inr ci"

definition InMemoryStorageFifo :: policy where
  "InMemoryStorageFifo = \<lparr>op_afterInsert = Fifo_afterInsert, op_afterAccess = no_hook, op_beforeErase = Fifo_beforeErase\<rparr>"

definition InMemoryStorageLru :: policy where
  "InMemoryStorageLru = \<lparr>op_afterInsert = Lru_afterInsert, op_afterAccess = Lru_afterAccess, op_beforeErase = Lru_beforeErase\<rparr>"

definition InMemoryStorageLfu :: "placement \<Rightarrow> policy" where
  "InMemoryStorageLfu place =
     \<lparr>op_afterInsert = Lfu_afterInsert place, op_afterAccess = Lfu_afterAccess place, op_beforeErase = Lfu_beforeErase\<rparr>"

definition InMemoryStoragePersistent :: policy where
  "InMemoryStoragePersistent = \<lparr>op_afterInsert = no_hook, op_afterAccess = no_hook, op_beforeErase = (\<lambda>_ ci. ci)\<rparr>"

lemmas policy_simps = index_size_ok_def index_push_def index_erase_def no_hook_def Fifo_afterInsert_def Fifo_beforeErase_def
  Lru_afterInsert_def Lru_beforeErase_def Lru_afterAccess_def Lfu_afterInsert_def Lfu_beforeErase_def Lfu_afterAccess_def
  InMemoryStorageFifo_def InMemoryStorageLru_def InMemoryStorageLfu_def InMemoryStoragePersistent_def

section \<open>The contract\<close>

lemma index_push_laws:
  "distinct (map fst ci) \<Longrightarrow> distinct (map fst (index_push e ci)) \<and> fst ` set (index_push e ci) = insert e (fst ` set ci)"
  by (auto simp: index_push_def)

lemma index_erase_laws:
  "distinct (map fst ci) \<Longrightarrow> distinct (map fst (index_erase e ci)) \<and> fst ` set (index_erase e ci) = fst ` set ci - {e}
    \<and> length (index_erase e ci) \<le> length ci"
  by (auto simp: index_erase_def distinct_map_filter)

interpretation fifo: cleanup_policy InMemoryStorageFifo "\<lambda>_. True" True
  by unfold_locales (use index_push_laws index_erase_laws in \<open>auto simp: policy_simps\<close>)

interpretation lru: cleanup_policy InMemoryStorageLru "\<lambda>_. True" True
proof unfold_locales
  fix n e and ci :: cleanup
  assume ci: "distinct (map fst ci)" "True \<longrightarrow> e \<in> fst ` set ci" "length ci \<le> n"
  have "op_afterAccess InMemoryStorageLru n e ci = Inr (index_push e (index_erase e ci))"
    using index_erase_laws [OF ci(1), of e] ci(3) by (simp add: InMemoryStorageLru_def Lru_afterAccess_def Lru_afterInsert_def
        Lru_beforeErase_def index_size_ok_def)
  then show "\<exists>ci'. op_afterAccess InMemoryStorageLru n e ci = Inr ci' \<and> True \<and> distinct (map fst ci') \<and> fst ` set ci' = fst ` set ci"
    using index_erase_laws [OF ci(1), of e] index_push_laws [of "index_erase e ci" e] ci(2) by auto
qed (use index_push_laws index_erase_laws in \<open>auto simp: policy_simps\<close>)

interpretation persistent: cleanup_policy InMemoryStoragePersistent "\<lambda>ci. ci = []" False
  by unfold_locales (auto simp: policy_simps)

text \<open>What an index ordered by frequency promises: an element is added, and the order is kept.\<close>

locale frequency_index =
  fixes place :: placement
  assumes place_mset: "sorted (map snd ci) \<Longrightarrow> mset (place k x ci) = add_mset x (mset ci)"
    and place_sorted: "sorted (map snd ci) \<Longrightarrow> sorted (map snd (place k x ci))"

lemma distinct_fst_mset: "mset ci' = add_mset x (mset ci) \<Longrightarrow> distinct (map fst ci') \<longleftrightarrow> fst x \<notin> fst ` set ci \<and> distinct (map fst ci)"
proof -
  assume "mset ci' = add_mset x (mset ci)"
  then have "mset (map fst ci') = mset (map fst (x # ci))" by simp
  then have "distinct (map fst ci') \<longleftrightarrow> distinct (map fst (x # ci))" by (rule mset_eq_imp_distinct_iff)
  then show ?thesis by simp
qed

lemma set_mset_add: "mset ci' = add_mset x (mset ci) \<Longrightarrow> set ci' = insert x (set ci)"
  by (metis set_mset_add_mset_insert set_mset_mset)

sublocale frequency_index \<subseteq> lfu: cleanup_policy "InMemoryStorageLfu place" "\<lambda>ci. sorted (map snd ci)" True
proof unfold_locales
  fix n e and ci :: cleanup
  assume ci: "sorted (map snd ci)" "distinct (map fst ci)"
  show "sorted (map snd (op_beforeErase (InMemoryStorageLfu place) e ci)) \<and> distinct (map fst (op_beforeErase (InMemoryStorageLfu place) e ci))
    \<and> fst ` set (op_beforeErase (InMemoryStorageLfu place) e ci) = fst ` set ci - {e}"
    using ci index_erase_laws [of ci e] by (simp add: InMemoryStorageLfu_def Lfu_beforeErase_def index_erase_def sorted_filter)
  assume new: "e \<notin> fst ` set ci" "length ci < n"
  note placed = place_mset [OF ci(1), of "length ci" "(e, 0)"]
  show "\<exists>ci'. op_afterInsert (InMemoryStorageLfu place) n e ci = Inr ci' \<and> sorted (map snd ci') \<and> distinct (map fst ci')
    \<and> fst ` set ci' = (if True then insert e (fst ` set ci) else fst ` set ci)"
    using new ci place_sorted [OF ci(1)] distinct_fst_mset [OF placed] set_mset_add [OF placed]
    by (auto simp: InMemoryStorageLfu_def Lfu_afterInsert_def index_size_ok_def)
next
  fix n e and ci :: cleanup
  assume ci: "sorted (map snd ci)" "distinct (map fst ci)" "True \<longrightarrow> e \<in> fst ` set ci"
  then obtain x where x: "find (\<lambda>x. fst x = e) ci = Some x" "fst x = e"
    by (cases "find (\<lambda>x. fst x = e) ci") (auto simp: find_None_iff find_Some_iff)
  let ?ci = "index_erase e ci"
  have erased: "sorted (map snd ?ci)" "distinct (map fst ?ci)" "fst ` set ?ci = fst ` set ci - {e}"
    using ci(1) index_erase_laws [OF ci(2), of e] by (simp_all add: index_erase_def sorted_filter)
  note placed = place_mset [OF erased(1), of "length (takeWhile (\<lambda>x. fst x \<noteq> e) ci)" "incrementFrequency x"]
  show "\<exists>ci'. op_afterAccess (InMemoryStorageLfu place) n e ci = Inr ci' \<and> sorted (map snd ci') \<and> distinct (map fst ci')
    \<and> fst ` set ci' = fst ` set ci"
    using ci(3) erased place_sorted [OF erased(1)] distinct_fst_mset [OF placed] set_mset_add [OF placed] x
    by (auto simp: InMemoryStorageLfu_def Lfu_afterAccess_def incrementFrequency_def)
qed (simp_all add: InMemoryStorageLfu_def)

context frequency_index
begin

lemma lfu_laws: "cleanup_policy (InMemoryStorageLfu place) (\<lambda>ci. sorted (map snd ci)) True"
  by (rule lfu.cleanup_policy_axioms)

end

text \<open>Insertion after the elements of the same frequency is such an index.\<close>

definition place_upper :: placement where
  "place_upper k x ci = takeWhile (\<lambda>y. snd y \<le> snd x) ci @ x # dropWhile (\<lambda>y. snd y \<le> snd x) ci"

interpretation upper: frequency_index place_upper
proof unfold_locales
  fix k and x :: "nat \<times> u64" and ci :: cleanup
  let ?P = "\<lambda>y :: nat \<times> u64. snd y \<le> snd x"
  show "mset (place_upper k x ci) = add_mset x (mset ci)"
    using mset_append [of "takeWhile ?P ci" "dropWhile ?P ci"] by (simp add: place_upper_def)
  assume sorted: "sorted (map snd ci)"
  then show "sorted (map snd (place_upper k x ci))"
  proof (induction ci)
    case (Cons y ci)
    then show ?case by (auto simp: place_upper_def dest: set_takeWhileD set_dropWhileD)
  qed (simp add: place_upper_def)
qed

text \<open>The derived classes by name.\<close>

datatype replacement = Fifo | Lru | Lfu | Persistent

fun policy_of :: "placement \<Rightarrow> replacement \<Rightarrow> policy" where
  "policy_of place Fifo = InMemoryStorageFifo"
| "policy_of place Lru = InMemoryStorageLru"
| "policy_of place Lfu = InMemoryStorageLfu place"
| "policy_of place Persistent = InMemoryStoragePersistent"

fun index_ok :: "replacement \<Rightarrow> cleanup \<Rightarrow> bool" where
  "index_ok Lfu ci = sorted (map snd ci)"
| "index_ok Persistent ci = (ci = [])"
| "index_ok _ ci = True"

abbreviation class_inv :: "(byte list \<Rightarrow> byte list) \<Rightarrow> replacement \<Rightarrow> storage \<Rightarrow> bool" where
  "class_inv sha256 r \<equiv> storage_inv sha256 (index_ok r) (r \<noteq> Persistent)"

lemma index_ok_eq: "index_ok Fifo = (\<lambda>_. True)" "index_ok Lru = (\<lambda>_. True)" "index_ok Lfu = (\<lambda>ci. sorted (map snd ci))"
  "index_ok Persistent = (\<lambda>ci. ci = [])"
  by auto

lemma policy_laws:
  assumes "frequency_index place"
  shows "cleanup_policy (policy_of place r) (index_ok r) (r \<noteq> Persistent)"
proof (cases r)
  case Lfu
  then show ?thesis using frequency_index.lfu_laws [OF assms] by (simp add: index_ok_eq)
qed (use fifo.cleanup_policy_axioms lru.cleanup_policy_axioms persistent.cleanup_policy_axioms in \<open>simp_all add: index_ok_eq\<close>)

section \<open>The order of eviction\<close>

text \<open>The full names in the order of the cleanup index, and what FIFO and LRU are meant to do to that order.\<close>

definition key_of_id :: "(byte list \<Rightarrow> byte list) \<Rightarrow> ims_entry list \<Rightarrow> nat \<Rightarrow> comp list" where
  "key_of_id sha256 c x = (case find (\<lambda>e. e_id e = x) c of Some e \<Rightarrow> key_of_entry sha256 e | None \<Rightarrow> [])"

definition eviction_order :: "(byte list \<Rightarrow> byte list) \<Rightarrow> storage \<Rightarrow> comp list list" where
  "eviction_order sha256 s = map (\<lambda>x. key_of_id sha256 (st_cache s) (fst x)) (st_cleanupIndex s)"

definition bounded_push :: "nat \<Rightarrow> 'a \<Rightarrow> 'a list \<Rightarrow> 'a list" where
  "bounded_push limit k q = (if k \<in> set q then q else (if length q < limit then q else tl q) @ [k])"

definition move_to_back :: "'a \<Rightarrow> 'a list \<Rightarrow> 'a list" where
  "move_to_back k q = filter (\<lambda>x. x \<noteq> k) q @ [k]"

lemma key_of_id_entry:
  assumes "distinct (map e_id c)" "e \<in> set c"
  shows "key_of_id sha256 c (e_id e) = key_of_entry sha256 e"
proof -
  obtain x where x: "find (\<lambda>x. e_id x = e_id e) c = Some x" "x \<in> set c" "e_id x = e_id e"
    using assms(2) by (cases "find (\<lambda>x. e_id x = e_id e) c") (auto simp: find_None_iff find_Some_iff)
  then have "x = e" using assms by (metis distinct_map inj_onD)
  with x(1) show ?thesis by (simp add: key_of_id_def)
qed

lemma tracked_entry:
  assumes "storage_inv sha256 ok True s" "x \<in> set (st_cleanupIndex s)"
  obtains e where "e \<in> set (st_cache s)" "e_id e = fst x" "key_of_id sha256 (st_cache s) (fst x) = key_of_entry sha256 e"
proof -
  have "fst x \<in> e_id ` set (st_cache s)" "distinct (map e_id (st_cache s))"
    using assms by (auto simp: storage_inv_def pool_inv_def)
  then show ?thesis using that key_of_id_entry by (metis imageE)
qed

lemma eviction_order_keys:
  assumes "storage_inv sha256 ok True s"
  shows "set (eviction_order sha256 s) = key_of_entry sha256 ` set (st_cache s)" "distinct (eviction_order sha256 s)"
    "length (eviction_order sha256 s) = st_nPackets s"
proof -
  have inv: "distinct (map e_id (st_cache s))" "distinct (map fst (st_cleanupIndex s))"
    "fst ` set (st_cleanupIndex s) = e_id ` set (st_cache s)" "cache_ok sha256 (st_cache s)" "st_nPackets s = length (st_cache s)"
    using assms by (simp_all add: storage_inv_def pool_inv_def)
  have order: "eviction_order sha256 s = map (key_of_id sha256 (st_cache s)) (map fst (st_cleanupIndex s))"
    by (simp add: eviction_order_def)
  have "key_of_id sha256 (st_cache s) ` e_id ` set (st_cache s) = key_of_entry sha256 ` set (st_cache s)"
    using key_of_id_entry [OF inv(1)] by (simp add: image_image)
  then show set: "set (eviction_order sha256 s) = key_of_entry sha256 ` set (st_cache s)" by (simp add: order inv(3) [symmetric] image_image)
  have "inj_on (key_of_entry sha256) (set (st_cache s))" "distinct (st_cache s)" using inv(4) by (auto simp: cache_ok_def strict_sorted_iff distinct_map)
  then have card: "card (set (eviction_order sha256 s)) = length (st_cache s)" by (simp add: set card_image distinct_card)
  have "length (map fst (st_cleanupIndex s)) = card (e_id ` set (st_cache s))" using inv(2,3) distinct_card by fastforce
  also have "\<dots> = length (st_cache s)" using inv(1) distinct_card [of "map e_id (st_cache s)"] by simp
  finally show len: "length (eviction_order sha256 s) = st_nPackets s" by (simp add: order inv(5))
  show "distinct (eviction_order sha256 s)" using card len inv(5) by (simp add: card_distinct)
qed

lemma order_insert:
  assumes "cleanup_policy ops ok True" "op_afterInsert ops = Fifo_afterInsert"
    and inv: "storage_inv sha256 ok True s" and args: "storable sha256 d" "0 < st_capacity s" "2 * st_capacity s < 2 ^ 64"
  shows "\<exists>s'. Storage_insert ops sha256 d w s = (None, s') \<and> storage_inv sha256 ok True s' \<and> st_limit s' = st_limit s
    \<and> eviction_order sha256 s' = bounded_push (st_limit s) (name_of (fullName sha256 d)) (eviction_order sha256 s)"
proof (cases "name_of (fullName sha256 d) \<in> key_of_entry sha256 ` set (st_cache s)")
  case True
  then show ?thesis using cleanup_policy.insert_existing [OF assms(1) inv args(1) True] inv eviction_order_keys(1) [OF inv]
    by (simp add: bounded_push_def)
next
  case False
  obtain s' e ci where s': "Storage_insert ops sha256 d w s = (None, s')" "storage_inv sha256 ok True s'" "st_limit s' = st_limit s"
    "e_data e = d"
    "set (st_cache s') = insert e {x \<in> set (st_cache s). st_nPackets s < st_limit s \<or> e_id x \<noteq> fst (hd (st_cleanupIndex s))}"
    "ci = (if st_nPackets s < st_limit s then st_cleanupIndex s else tl (st_cleanupIndex s))" "e_id e \<notin> fst ` set ci"
    "op_afterInsert ops (st_nPackets s') (e_id e) ci = Inr (st_cleanupIndex s')"
    using cleanup_policy.insert_inv [OF assms(1) inv args _ False, of w] by blast
  have ci: "st_cleanupIndex s' = ci @ [(e_id e, 0)]"
    using s'(7,8) by (auto simp: assms(2) Fifo_afterInsert_def index_size_ok_def index_push_def split: if_splits)
  have ids: "distinct (map e_id (st_cache s'))" "distinct (map e_id (st_cache s))" "distinct (map fst (st_cleanupIndex s))"
    using s'(2) inv by (simp_all add: storage_inv_def pool_inv_def)
  have "key_of_id sha256 (st_cache s') (fst x) = key_of_id sha256 (st_cache s) (fst x)" if x: "x \<in> set ci" for x
  proof -
    have "x \<in> set (st_cleanupIndex s)" using x s'(6) by (cases "st_cleanupIndex s") (auto split: if_splits)
    then obtain y where y: "y \<in> set (st_cache s)" "e_id y = fst x" "key_of_id sha256 (st_cache s) (fst x) = key_of_entry sha256 y"
      using tracked_entry [OF inv] by blast
    have "st_nPackets s < st_limit s \<or> fst x \<noteq> fst (hd (st_cleanupIndex s))"
      using x s'(6) ids(3) by (cases "st_cleanupIndex s") (auto split: if_splits)
    then have "y \<in> set (st_cache s')" using y(1,2) s'(5) by auto
    then show ?thesis using key_of_id_entry [OF ids(1), of y] y(2,3) by simp
  qed
  then have "map (\<lambda>x. key_of_id sha256 (st_cache s') (fst x)) ci = map (\<lambda>x. key_of_id sha256 (st_cache s) (fst x)) ci" by simp
  moreover have "key_of_id sha256 (st_cache s') (e_id e) = name_of (fullName sha256 d)"
    using key_of_id_entry [OF ids(1), of e] s'(4,5) by (simp add: key_of_entry_def)
  ultimately have "eviction_order sha256 s' = map (\<lambda>x. key_of_id sha256 (st_cache s) (fst x)) ci @ [name_of (fullName sha256 d)]"
    by (simp add: eviction_order_def ci)
  also have "\<dots> = bounded_push (st_limit s) (name_of (fullName sha256 d)) (eviction_order sha256 s)"
    using False eviction_order_keys(1,3) [OF inv] s'(6) by (simp add: bounded_push_def) (simp add: eviction_order_def map_tl)
  finally show ?thesis using s'(1-3) by blast
qed

text \<open>A packet that is found.\<close>

lemma find_name_access:
  assumes "find_name ops sha256 n s = Inr (Some d, s')" "index_lower_bound sha256 n s \<le> length (st_cache s)"
  shows "\<exists>it < length (st_cache s). access_entry ops it s = Inr (Some d, s')"
  using assms by (auto simp: find_name_def Let_def bindE_iffs le_less split: if_splits)

lemma order_access:
  assumes "storage_inv sha256 (\<lambda>_. True) True s" "it < length (st_cache s)" "access_entry InMemoryStorageLru it s = Inr (Some d, s')"
  shows "eviction_order sha256 s' = move_to_back (name_of (fullName sha256 d)) (eviction_order sha256 s)"
proof -
  let ?e = "st_cache s ! it"
  obtain ci where ci: "access_entry InMemoryStorageLru it s = Inr (Some (e_data ?e), s\<lparr>st_cleanupIndex := ci\<rparr>)"
    "op_afterAccess InMemoryStorageLru (st_nPackets s) (e_id ?e) (st_cleanupIndex s) = Inr ci"
    using lru.access_inv [OF assms(1,2)] by blast
  have ids: "distinct (map e_id (st_cache s))" "cache_ok sha256 (st_cache s)" "?e \<in> set (st_cache s)"
    using assms(1,2) by (simp_all add: storage_inv_def pool_inv_def)
  have ci_eq: "ci = filter (\<lambda>x. fst x \<noteq> e_id ?e) (st_cleanupIndex s) @ [(e_id ?e, 0)]"
    using ci(2) by (auto simp: policy_simps split: if_splits)
  have key: "key_of_id sha256 (st_cache s) (e_id ?e) = name_of (fullName sha256 d)"
    using key_of_id_entry [OF ids(1,3)] assms(3) ci(1) by (simp add: key_of_entry_def)
  have "fst x = e_id ?e \<longleftrightarrow> key_of_id sha256 (st_cache s) (fst x) = name_of (fullName sha256 d)" if x: "x \<in> set (st_cleanupIndex s)" for x
  proof
    assume *: "key_of_id sha256 (st_cache s) (fst x) = name_of (fullName sha256 d)"
    obtain y where y: "y \<in> set (st_cache s)" "e_id y = fst x" "key_of_id sha256 (st_cache s) (fst x) = key_of_entry sha256 y"
      using tracked_entry [OF assms(1) x] .
    have "inj_on (key_of_entry sha256) (set (st_cache s))" using ids(2) by (auto simp: cache_ok_def strict_sorted_iff distinct_map)
    moreover have "key_of_entry sha256 y = key_of_entry sha256 ?e" using * y(3) key key_of_id_entry [OF ids(1,3), of sha256] by simp
    ultimately have "y = ?e" using inj_onD y(1) ids(3) by metis
    then show "fst x = e_id ?e" using y(2) by simp
  qed (simp add: key)
  then have "filter (\<lambda>x. fst x \<noteq> e_id ?e) (st_cleanupIndex s)
    = filter (\<lambda>x. key_of_id sha256 (st_cache s) (fst x) \<noteq> name_of (fullName sha256 d)) (st_cleanupIndex s)"
    by (intro filter_cong refl) (simp only:)
  moreover have "s' = s\<lparr>st_cleanupIndex := ci\<rparr>" using ci(1) assms(3) by simp
  ultimately show ?thesis by (simp add: eviction_order_def ci_eq key move_to_back_def filter_map comp_def)
qed

lemma order_erase:
  assumes "cleanup_policy ops ok True" "op_beforeErase ops = index_erase" and inv: "storage_inv sha256 ok True s" and "valid_name n"
  shows "\<exists>s'. Storage_erase ops sha256 n False s = (None, s') \<and> storage_inv sha256 ok True s'
    \<and> eviction_order sha256 s' = filter (\<lambda>k. k \<noteq> name_of n) (eviction_order sha256 s)"
proof -
  let ?c = "st_cache s"
  obtain s' where s': "Storage_erase ops sha256 n False s = (None, s')" "storage_inv sha256 ok True s'"
    "st_cache s' = filter (\<lambda>e. key_of_entry sha256 e \<noteq> name_of n) ?c"
    "st_cleanupIndex s' = fold (\<lambda>e. op_beforeErase ops (e_id e)) (filter (\<lambda>e. key_of_entry sha256 e = name_of n) ?c) (st_cleanupIndex s)"
    using cleanup_policy.erase_exact_spec [OF assms(1) inv assms(4)] by blast
  have "fold (\<lambda>e. index_erase (e_id e)) es ci = filter (\<lambda>x. fst x \<notin> e_id ` set es) ci" for es ci
    by (induction es arbitrary: ci) (auto simp: index_erase_def intro: filter_cong)
  from this [of "filter (\<lambda>e. key_of_entry sha256 e = name_of n) ?c" "st_cleanupIndex s"] have ci: "st_cleanupIndex s' = filter (\<lambda>x. fst x \<notin> e_id ` {e \<in> set ?c. key_of_entry sha256 e = name_of n}) (st_cleanupIndex s)"
    using s'(4) by (simp add: assms(2))
  have ids: "distinct (map e_id ?c)" "distinct (map e_id (st_cache s'))" using inv s'(2) by (simp_all add: storage_inv_def pool_inv_def)
  have "(fst x \<notin> e_id ` {e \<in> set ?c. key_of_entry sha256 e = name_of n} \<longleftrightarrow> key_of_id sha256 ?c (fst x) \<noteq> name_of n)
    \<and> (key_of_id sha256 ?c (fst x) \<noteq> name_of n \<longrightarrow> key_of_id sha256 (st_cache s') (fst x) = key_of_id sha256 ?c (fst x))"
    if x: "x \<in> set (st_cleanupIndex s)" for x
  proof -
    obtain y where y: "y \<in> set ?c" "e_id y = fst x" "key_of_id sha256 ?c (fst x) = key_of_entry sha256 y" using tracked_entry [OF inv x] .
    have uniq: "\<forall>e. e \<in> set ?c \<longrightarrow> fst x = e_id e \<longrightarrow> e = y" using ids(1) y(1,2) by (metis distinct_map inj_onD)
    have "fst x \<in> e_id ` {e \<in> set ?c. key_of_entry sha256 e = name_of n} \<longleftrightarrow> key_of_entry sha256 y = name_of n"
    proof
      assume "fst x \<in> e_id ` {e \<in> set ?c. key_of_entry sha256 e = name_of n}"
      then show "key_of_entry sha256 y = name_of n" using uniq by blast
    next
      assume "key_of_entry sha256 y = name_of n"
      then show "fst x \<in> e_id ` {e \<in> set ?c. key_of_entry sha256 e = name_of n}" using y(1,2) by (metis (mono_tags, lifting) image_eqI mem_Collect_eq)
    qed
    moreover have "key_of_id sha256 (st_cache s') (fst x) = key_of_entry sha256 y" if "key_of_entry sha256 y \<noteq> name_of n"
      using key_of_id_entry [OF ids(2), of y] that y(1,2) s'(3) by simp
    ultimately show ?thesis using y(3) by simp
  qed
  then have "map (\<lambda>x. key_of_id sha256 (st_cache s') (fst x)) (st_cleanupIndex s')
    = map (\<lambda>x. key_of_id sha256 ?c (fst x)) (filter (\<lambda>x. key_of_id sha256 ?c (fst x) \<noteq> name_of n) (st_cleanupIndex s))"
    unfolding ci using filter_cong [OF refl, of "st_cleanupIndex s" "\<lambda>x. fst x \<notin> e_id ` {e \<in> set ?c. key_of_entry sha256 e = name_of n}"
        "\<lambda>x. key_of_id sha256 ?c (fst x) \<noteq> name_of n"] by (simp cong: map_cong)
  then show ?thesis using s'(1,2) by (auto simp: eviction_order_def filter_map comp_def)
qed

section \<open>Examples\<close>

text \<open>Packets with one-component names, as they are after encoding, and a stand-in for SHA-256.\<close>

definition example_packet :: "byte \<Rightarrow> data" where
  "example_packet x = (let d = (example_data [])\<lparr>d_name := name1 [x]\<rparr> in d\<lparr>d_wire := tlv_block tlv_Data (packet_value (packet_of d))\<rparr>)"

definition example_hash :: "byte list \<Rightarrow> byte list" where
  "example_hash bs = replicate 32 7"

lemma example_storable:
  "storable example_hash (example_packet x)"
  "name_of (fullName example_hash (example_packet x)) = [Comp tlv_NameComponent [x], Comp tlv_ImplicitSha256DigestComponent (replicate 32 7)]"
  "valid_name (fullName example_hash (example_packet x))"
proof -
  have d: "d_name (example_packet x) = name1 [x]" "Name_empty (d_fullName (example_packet x))" "hasWire (d_wire (example_packet x))"
    by (simp_all add: example_packet_def example_data_def Name_empty_def Let_def)
  have ok: "fullName_ok example_hash (example_packet x)" "is_name (d_name (example_packet x))" "Name_size (d_name (example_packet x)) = 1"
    using d by (simp_all add: fullName_ok_def name1_def)
  have h: "length (example_hash bs) = SHA256_DIGEST_SIZE" for bs by (simp add: example_hash_def SHA256_DIGEST_SIZE_def)
  show st: "storable example_hash (example_packet x)" using storable_intro [OF ok(1) d(3) ok(2) h] ok(3) by simp
  then show "valid_name (fullName example_hash (example_packet x))" by (simp add: storable_def)
  obtain full c where "getFullName example_hash (example_packet x) = Inr (full, (example_packet x)\<lparr>d_fullName := full\<rparr>)"
    "comps full = comps (d_name (example_packet x)) @ [c]" "comp_of c = Comp tlv_ImplicitSha256DigestComponent (replicate 32 7)"
    using getFullName_made [OF ok(1) d(3) ok(2) h] by (metis example_hash_def)
  then show "name_of (fullName example_hash (example_packet x)) = [Comp tlv_NameComponent [x], Comp tlv_ImplicitSha256DigestComponent (replicate 32 7)]"
    using d(1) name1_simps(3) [of "[x]"] by (simp add: fullName_def name_of_def)
qed

lemma example_interest_simps:
  "is_name (i_name example_interest)" "name_of (i_name example_interest) = [Comp tlv_NameComponent [65]]"
  "Name_size (i_name example_interest) = 1" "sel_childSelector (i_selectors example_interest) = - 1"
  "sel_publisherPublicKeyLocator (i_selectors example_interest) = KeyLocator_default"
  "Exclude_empty (sel_exclude (i_selectors example_interest))" "suffix_ok example_interest 1"
  by (simp_all add: example_interest_def Interest_setMustBeFresh_def Interest_ofName_def Interest_new_def wire_reset_def
      setMustBeFresh_def sel_reset_def Selectors_default_def suffix_ok_def Exclude_empty_def Exclude_default_def)

lemma example_matches: "\<exists>i d. matchesData example_hash example_interest (example_packet 65) = Inr (True, i, d)"
proof -
  let ?d = "example_packet 65"
  have d: "d_name ?d = name1 [65]" "Name_empty (d_fullName ?d)" "hasWire (d_wire ?d)" "fullName_ok example_hash ?d"
    by (simp_all add: example_packet_def example_data_def Name_empty_def fullName_ok_def Let_def)
  have h: "length (example_hash bs) = SHA256_DIGEST_SIZE" for bs by (simp add: example_hash_def SHA256_DIGEST_SIZE_def)
  have "is_name (d_name ?d)" "Name_size (d_name ?d) + 1 < 2 ^ 63" using d(1) by simp_all
  then obtain full d' where full: "name_of full = name_of (d_name ?d) @ [Comp tlv_ImplicitSha256DigestComponent (example_hash (wire_and_size (d_wire ?d)))]"
    "matchesData example_hash example_interest ?d = (if name_matches example_interest full
        \<and> (Name_size (i_name example_interest) = Name_size full \<longrightarrow> isImplicitSha256Digest (last (comps (i_name example_interest))))
       then check_publisher example_interest d' else Inr (False, example_interest, d'))"
    using matchesData_eq [OF d(4,3) _ h example_interest_simps(1)] by blast
  have size: "Name_size full = 2" using arg_cong [OF full(1), of length] d(1) by simp
  have "name_matches example_interest full"
    using full(1) d(1) example_interest_simps not_excluded_empty [OF example_interest_simps(6)] by (simp add: name_matches_def size)
  moreover have "check_publisher example_interest d' = Inr (True, example_interest, d')"
    by (simp add: check_publisher_def example_interest_simps(5) KeyLocator_empty_def KeyLocator_default_def)
  ultimately show ?thesis using full(2) size example_interest_simps(3) by simp
qed

lemma example_storage:
  assumes "r \<noteq> Persistent"
  obtains s e where "Storage_insert (policy_of place_upper r) example_hash (example_packet 65) 0 (Storage_new False 1) = (None, s)"
    "class_inv example_hash r s" "st_cache s = [e]" "e_data e = example_packet 65" "e_isFresh e" "st_nPackets s = 1" "st_capacity s = 1"
    "st_limit s = 1" "key_of_entry example_hash e = [Comp tlv_NameComponent [65], Comp tlv_ImplicitSha256DigestComponent (replicate 32 7)]"
    "storage_step (policy_of place_upper r) example_hash (Storage_new False 1) s"
proof -
  note laws = policy_laws [OF upper.frequency_index_axioms, of r]
  let ?new = "Storage_new False 1"
  have new: "st_capacity ?new = 1" "st_limit ?new = 1" "st_cache ?new = []"
    by (simp_all add: Storage_new_def push_new_def SIZE_MAX_def Let_def)
  have inv: "class_inv example_hash r ?new" using cleanup_policy.Storage_new_inv [OF laws] by (simp add: SIZE_MAX_def)
  obtain s e where s: "Storage_insert (policy_of place_upper r) example_hash (example_packet 65) 0 ?new = (None, s)"
    "class_inv example_hash r s" "st_limit s = 1" "e_data e = example_packet 65" "e_isFresh e" "set (st_cache s) = {e}"
    using cleanup_policy.insert_inv [OF laws inv example_storable(1), of 65 0] new assms by auto
  have "distinct (st_cache s)" using s(2) by (auto simp: storage_inv_def pool_inv_def distinct_map)
  then have "length (st_cache s) = 1" using s(6) distinct_card [of "st_cache s"] by simp
  then have cache: "st_cache s = [e]" using s(6) by (cases "st_cache s") auto
  then have "st_nPackets s = 1" using s(2) by (simp add: storage_inv_def pool_inv_def)
  then have size: "st_nPackets s = 1" "st_capacity s = 1" using storage_size [OF s(2)] s(3) by simp_all
  have "storage_step (policy_of place_upper r) example_hash ?new s"
    by (rule storage_step.insert [OF s(1) example_storable(1)]) (simp only: new, simp)
  moreover have "key_of_entry example_hash e = [Comp tlv_NameComponent [65], Comp tlv_ImplicitSha256DigestComponent (replicate 32 7)]"
    by (simp add: key_of_entry_def s(4) example_storable)
  ultimately show ?thesis using that s cache size by blast
qed

section \<open>Properties\<close>

text \<open>
  C17. Whatever calls are made on a new storage of any of the four classes, as long as each returns: the cache is ordered by full name
  without duplicates, each entry of the pool is in the cache or free and there are as many as the capacity, the cleanup index holds
  exactly the cached entries (by frequency in LFU, none in the persistent storage), the number of packets is within the
  capacity and the capacity within the limit; and the destructor frees every entry.
\<close>

theorem storage_invariant:
  assumes "frequency_index place" "limit \<le> SIZE_MAX" "r = Persistent \<longrightarrow> limit = SIZE_MAX"
    and "(storage_step (policy_of place r) sha256)\<^sup>*\<^sup>* (Storage_new hasScheduler limit) s"
  shows "class_inv sha256 r s \<and> st_nPackets s = length (st_cache s) \<and> st_nPackets s \<le> st_capacity s
    \<and> st_capacity s \<le> limit \<and> Storage_destroy s = Inr ()"
proof -
  note laws = policy_laws [OF assms(1), of r]
  have "st_limit (Storage_new hasScheduler limit) = limit" by (simp add: Storage_new_def push_new_def Let_def)
  then have "class_inv sha256 r s" "st_limit s = limit"
    using cleanup_policy.reachable_inv [OF laws assms(4) cleanup_policy.Storage_new_inv [OF laws assms(2)]] assms(3) by auto
  then show ?thesis using storage_size Storage_destroy_inv by (auto simp: storage_inv_def pool_inv_def)
qed

theorem storage_invariant_witness:
  "\<exists>s. Storage_insert (InMemoryStorageLfu place_upper) example_hash (example_packet 65) 0 (Storage_new False 1) = (None, s)
     \<and> class_inv example_hash Lfu s \<and> length (st_cache s) = 1 \<and> st_capacity s \<le> 1 \<and> Storage_destroy s = Inr ()"
proof -
  obtain s e where s: "Storage_insert (policy_of place_upper Lfu) example_hash (example_packet 65) 0 (Storage_new False 1) = (None, s)"
    "st_cache s = [e]" "storage_step (policy_of place_upper Lfu) example_hash (Storage_new False 1) s"
    using example_storage [of Lfu] by blast
  from storage_invariant [OF upper.frequency_index_axioms _ _ r_into_rtranclp [of "storage_step (policy_of place_upper Lfu) example_hash", OF s(3)]]
  have "class_inv example_hash Lfu s \<and> st_capacity s \<le> 1 \<and> Storage_destroy s = Inr ()" by (simp add: SIZE_MAX_def)
  with s(1,2) show ?thesis by simp
qed

text \<open>
  C20. \<open>insert\<close> of a packet succeeds when the capacity is not 0, and \<open>find\<close> with its full name then returns a packet with that full
  name: the packet itself, if none was stored under it before.
\<close>

theorem insert_then_find:
  assumes "frequency_index place" "class_inv sha256 r s" "storable sha256 d" "0 < st_capacity s" "2 * st_capacity s < 2 ^ 64"
    and "r = Persistent \<longrightarrow> st_capacity s < st_limit s"
  shows "\<exists>s' d' s''. Storage_insert (policy_of place r) sha256 d w s = (None, s') \<and> class_inv sha256 r s'
    \<and> find_name (policy_of place r) sha256 (fullName sha256 d) s' = Inr (Some d', s'')
    \<and> name_of (fullName sha256 d') = name_of (fullName sha256 d)
    \<and> (name_of (fullName sha256 d) \<notin> key_of_entry sha256 ` set (st_cache s) \<longrightarrow> d' = d)"
proof -
  note laws = policy_laws [OF assms(1), of r]
  show ?thesis
  proof (cases "name_of (fullName sha256 d) \<in> key_of_entry sha256 ` set (st_cache s)")
    case True
    then obtain e where e: "e \<in> set (st_cache s)" "name_of (fullName sha256 d) = key_of_entry sha256 e" by blast
    have "valid_name (fullName sha256 d)" using assms(3) by (simp add: storable_def)
    then show ?thesis
      using cleanup_policy.insert_existing [OF laws assms(2,3) True] cleanup_policy.find_full_name [OF laws assms(2) e(1) _ e(2)] e(2) True assms(2)
      by (auto simp: key_of_entry_def)
  next
    case False
    have "r \<noteq> Persistent \<or> st_capacity s < st_limit s" using assms(6) by blast
    then obtain s' e where s': "Storage_insert (policy_of place r) sha256 d w s = (None, s')" "class_inv sha256 r s'"
      "e_data e = d" "e \<in> set (st_cache s')"
      using cleanup_policy.insert_inv [OF laws assms(2-5) _ False, of w] by blast
    moreover have "valid_name (fullName sha256 d)" using assms(3) by (simp add: storable_def)
    ultimately show ?thesis using cleanup_policy.find_full_name [OF laws s'(2,4), of "fullName sha256 d"] by (auto simp: key_of_entry_def)
  qed
qed

theorem insert_then_find_witness:
  "\<exists>s s' s''. Storage_insert InMemoryStorageLru example_hash (example_packet 65) 0 (Storage_new False 1) = (None, s)
     \<and> Storage_insert InMemoryStorageLru example_hash (example_packet 66) 0 s = (None, s')
     \<and> find_name InMemoryStorageLru example_hash (fullName example_hash (example_packet 66)) s' = Inr (Some (example_packet 66), s'')"
proof -
  obtain s e where s: "Storage_insert (policy_of place_upper Lru) example_hash (example_packet 65) 0 (Storage_new False 1) = (None, s)"
    "class_inv example_hash Lru s" "st_cache s = [e]" "st_capacity s = 1"
    "key_of_entry example_hash e = [Comp tlv_NameComponent [65], Comp tlv_ImplicitSha256DigestComponent (replicate 32 7)]"
    using example_storage [of Lru] by blast
  have "name_of (fullName example_hash (example_packet 66)) \<notin> key_of_entry example_hash ` set (st_cache s)"
    by (simp add: s(3,5) example_storable)
  then show ?thesis
    using insert_then_find [OF upper.frequency_index_axioms s(2) example_storable(1), of 66 0] s(1,4) by auto
qed

text \<open>
  C18. The LRU and FIFO storages evict in the order they promise. The full names in the order of the cleanup index are a queue that holds
  the cached packets once each; \<open>insert\<close> of a new packet puts it at the end, after removing the front if and only if the number of packets
  is the limit, a packet found by name moves to the end in LRU and stays in FIFO, and \<open>erase\<close> removes its packet. The capacity
  is not 0 and can be doubled.
\<close>

theorem storage_refines_queue:
  assumes "r = Lru \<or> r = Fifo" "class_inv sha256 r s" "storable sha256 d" "0 < st_capacity s" "2 * st_capacity s < 2 ^ 64" "valid_name n"
  shows "set (eviction_order sha256 s) = key_of_entry sha256 ` set (st_cache s) \<and> distinct (eviction_order sha256 s)
    \<and> (\<exists>s'. Storage_insert (policy_of place r) sha256 d w s = (None, s')
        \<and> eviction_order sha256 s' = bounded_push (st_limit s) (name_of (fullName sha256 d)) (eviction_order sha256 s))
    \<and> (\<exists>found s'. find_name (policy_of place r) sha256 n s = Inr (found, s')
        \<and> eviction_order sha256 s' = (case found of Some d' \<Rightarrow>
              if r = Lru then move_to_back (name_of (fullName sha256 d')) (eviction_order sha256 s) else eviction_order sha256 s
            | None \<Rightarrow> eviction_order sha256 s))
    \<and> (\<exists>s'. Storage_erase (policy_of place r) sha256 n False s = (None, s')
        \<and> eviction_order sha256 s' = filter (\<lambda>k. k \<noteq> name_of n) (eviction_order sha256 s))"
proof -
  let ?ops = "policy_of place r"
  have inv: "storage_inv sha256 (\<lambda>_. True) True s" using assms(1,2) by (auto simp: index_ok_eq)
  have laws: "cleanup_policy ?ops (\<lambda>_. True) True" using assms(1) lru.cleanup_policy_axioms fifo.cleanup_policy_axioms by auto
  have hooks: "op_afterInsert ?ops = Fifo_afterInsert" "op_beforeErase ?ops = index_erase"
    using assms(1) by (auto simp: InMemoryStorageLru_def InMemoryStorageFifo_def Lru_afterInsert_def [abs_def] Fifo_afterInsert_def [abs_def]
        Lru_beforeErase_def [abs_def] Fifo_beforeErase_def [abs_def])
  have ok: "cache_ok sha256 (st_cache s)" using inv by (simp add: storage_inv_def pool_inv_def)
  obtain found s' where found: "find_name ?ops sha256 n s = Inr (found, s')" using cleanup_policy.find_name_spec [OF laws inv assms(6)] by blast
  have "eviction_order sha256 s' = (case found of Some d' \<Rightarrow>
      if r = Lru then move_to_back (name_of (fullName sha256 d')) (eviction_order sha256 s) else eviction_order sha256 s
    | None \<Rightarrow> eviction_order sha256 s)"
  proof (cases found)
    case None
    with found have "s' = s" by (auto simp: find_name_def access_entry_def Let_def bindE_iffs split: if_splits)
    with None show ?thesis by simp
  next
    case (Some d')
    obtain it where it: "it < length (st_cache s)" "access_entry ?ops it s = Inr (Some d', s')"
      using find_name_access [of ?ops sha256 n s d' s'] found Some cache_split(3) [OF ok assms(6) refl] by auto
    show ?thesis
    proof (cases "r = Lru")
      case True
      then show ?thesis using order_access [OF inv it(1), of d' s'] it(2) Some by simp
    next
      case False
      then have "s' = s" using assms(1) it(2) by (auto simp: access_entry_def InMemoryStorageFifo_def no_hook_def bindE_iffs)
      with False Some show ?thesis by simp
    qed
  qed
  with found show ?thesis
    using eviction_order_keys [OF inv] order_insert [OF laws hooks(1) inv assms(3-5)] order_erase [OF laws hooks(2) inv assms(6)] by blast
qed

theorem storage_refines_queue_witness:
  "\<exists>s s'. Storage_insert InMemoryStorageLru example_hash (example_packet 65) 0 (Storage_new False 1) = (None, s)
     \<and> Storage_insert InMemoryStorageLru example_hash (example_packet 66) 0 s = (None, s')
     \<and> eviction_order example_hash s' = [[Comp tlv_NameComponent [66], Comp tlv_ImplicitSha256DigestComponent (replicate 32 7)]]"
proof -
  obtain s e where s: "Storage_insert (policy_of place_upper Lru) example_hash (example_packet 65) 0 (Storage_new False 1) = (None, s)"
    "class_inv example_hash Lru s" "st_cache s = [e]" "st_nPackets s = 1" "st_capacity s = 1" "st_limit s = 1"
    "key_of_entry example_hash e = [Comp tlv_NameComponent [65], Comp tlv_ImplicitSha256DigestComponent (replicate 32 7)]"
    using example_storage [of Lru] by blast
  have inv: "storage_inv example_hash (\<lambda>_. True) True s" using s(2) by (simp add: index_ok_eq)
  from eviction_order_keys [OF inv] s(3,4)
  have order: "eviction_order example_hash s = [key_of_entry example_hash e]"
    by (cases "eviction_order example_hash s") auto
  have "\<exists>s'. Storage_insert (policy_of place_upper Lru) example_hash (example_packet 66) 0 s = (None, s')
    \<and> eviction_order example_hash s' = bounded_push (st_limit s) (name_of (fullName example_hash (example_packet 66))) (eviction_order example_hash s)"
    using storage_refines_queue [of Lru example_hash s "example_packet 66" "fullName example_hash (example_packet 66)" place_upper 0]
      s(2,5) example_storable by simp
  then show ?thesis using s(1,6,7) order by (auto simp: bounded_push_def example_storable)
qed

text \<open>
  \<open>InMemoryStorageLfu\<close>: when the limit is reached, \<open>insert\<close> of a new packet evicts exactly one packet, none of the others has been
  found less often (as counted by the cleanup index, modulo \<open>2 ^ 64\<close>), and the new packet is counted from 0.
\<close>

theorem Lfu_evicts_least_frequent:
  assumes "frequency_index place" "class_inv sha256 Lfu s" "storable sha256 d" "st_nPackets s = st_limit s" "0 < st_limit s"
    and "2 * st_limit s < 2 ^ 64" "name_of (fullName sha256 d) \<notin> key_of_entry sha256 ` set (st_cache s)"
  shows "\<exists>victim f s' e. Storage_insert (InMemoryStorageLfu place) sha256 d w s = (None, s')
    \<and> (victim, f) \<in> set (st_cleanupIndex s) \<and> (\<forall>x \<in> set (st_cleanupIndex s). f \<le> snd x)
    \<and> e_data e = d \<and> set (st_cache s') = insert e {x \<in> set (st_cache s). e_id x \<noteq> victim} \<and> victim \<in> e_id ` set (st_cache s)
    \<and> set (st_cleanupIndex s') = insert (e_id e, 0) (set (st_cleanupIndex s) - {(victim, f)})"
proof -
  have laws: "cleanup_policy (InMemoryStorageLfu place) (\<lambda>ci. sorted (map snd ci)) True" by (rule frequency_index.lfu_laws [OF assms(1)])
  have inv: "storage_inv sha256 (\<lambda>ci. sorted (map snd ci)) True s" using assms(2) by (simp add: index_ok_eq)
  then have cap: "st_capacity s = st_limit s" using storage_size [OF inv] assms(4) by simp
  obtain s' e ci where s': "Storage_insert (InMemoryStorageLfu place) sha256 d w s = (None, s')" "e_data e = d"
    "set (st_cache s') = insert e {x \<in> set (st_cache s). e_id x \<noteq> fst (hd (st_cleanupIndex s))}" "ci = tl (st_cleanupIndex s)"
    "e_id e \<notin> fst ` set ci" "op_afterInsert (InMemoryStorageLfu place) (st_nPackets s') (e_id e) ci = Inr (st_cleanupIndex s')"
    using cleanup_policy.insert_inv [OF laws inv assms(3) _ _ _ assms(7), of w] assms(4-6) cap by auto
  have ci: "fst ` set (st_cleanupIndex s) = e_id ` set (st_cache s)" "sorted (map snd (st_cleanupIndex s))"
    "distinct (map fst (st_cleanupIndex s))" "st_cache s \<noteq> []"
    using inv assms(4,5) by (auto simp: storage_inv_def pool_inv_def)
  then obtain victim f where head: "st_cleanupIndex s = (victim, f) # ci" using s'(4) by (cases "st_cleanupIndex s") auto
  have "st_cleanupIndex s' = place (length ci) (e_id e, 0) ci"
    using s'(5,6) by (auto simp: InMemoryStorageLfu_def Lfu_afterInsert_def index_size_ok_def split: if_splits)
  then have "set (st_cleanupIndex s') = insert (e_id e, 0) (set ci)"
    using set_mset_add [OF frequency_index.place_mset [OF assms(1)]] ci(2) head by simp
  moreover have "set ci = set (st_cleanupIndex s) - {(victim, f)}" using head ci(3) by (auto simp: image_iff)
  moreover have "\<forall>x \<in> set (st_cleanupIndex s). f \<le> snd x" using head ci(2) by auto
  moreover have "victim \<in> e_id ` set (st_cache s)" using ci(1) head by (metis fst_conv image_eqI list.set_intros(1))
  moreover have "set (st_cache s') = insert e {x \<in> set (st_cache s). e_id x \<noteq> victim}" "(victim, f) \<in> set (st_cleanupIndex s)"
    using s'(3) head by simp_all
  ultimately show ?thesis using s'(1,2) by blast
qed

theorem Lfu_evicts_least_frequent_witness:
  "\<exists>s s' e. Storage_insert (InMemoryStorageLfu place_upper) example_hash (example_packet 65) 0 (Storage_new False 1) = (None, s)
     \<and> Storage_insert (InMemoryStorageLfu place_upper) example_hash (example_packet 66) 0 s = (None, s')
     \<and> set (st_cache s') = {e} \<and> e_data e = example_packet 66"
proof -
  obtain s e where s: "Storage_insert (policy_of place_upper Lfu) example_hash (example_packet 65) 0 (Storage_new False 1) = (None, s)"
    "class_inv example_hash Lfu s" "st_cache s = [e]" "st_nPackets s = 1" "st_limit s = 1"
    "key_of_entry example_hash e = [Comp tlv_NameComponent [65], Comp tlv_ImplicitSha256DigestComponent (replicate 32 7)]"
    using example_storage [of Lfu] by blast
  have "name_of (fullName example_hash (example_packet 66)) \<notin> key_of_entry example_hash ` set (st_cache s)"
    by (simp add: s(3,6) example_storable)
  from Lfu_evicts_least_frequent [OF upper.frequency_index_axioms s(2) example_storable(1) _ _ _ this, of 0] s(4,5)
  obtain victim s' e' where "Storage_insert (InMemoryStorageLfu place_upper) example_hash (example_packet 66) 0 s = (None, s')"
    "e_data e' = example_packet 66" "set (st_cache s') = insert e' {x \<in> set (st_cache s). e_id x \<noteq> victim}" "victim \<in> e_id ` set (st_cache s)"
    by auto
  then show ?thesis using s(1,3) by auto
qed

text \<open>
  \<open>erase\<close> with a prefix never fails, keeps the invariant and the limit, and removes only packets whose name has the prefix (by the values of the
  components); and no packet below the prefix is left, unless the prefix is itself the full name of a stored packet.
\<close>

theorem Storage_erase_prefix:
  assumes "frequency_index place" "class_inv sha256 r s" "valid_name n"
  shows "\<exists>s'. Storage_erase (policy_of place r) sha256 n True s = (None, s') \<and> class_inv sha256 r s' \<and> st_limit s' = st_limit s
    \<and> set (st_cache s') \<subseteq> set (st_cache s)
    \<and> (\<forall>e \<in> set (st_cache s) - set (st_cache s'). value_prefix (name_of n) (name_of (d_name (e_data e))))
    \<and> (name_of n \<notin> key_of_entry sha256 ` set (st_cache s)
        \<longrightarrow> (\<forall>e \<in> set (st_cache s'). \<not> comp_prefix (name_of n) (name_of (d_name (e_data e)))))"
  using cleanup_policy.erase_prefix_spec [OF policy_laws [OF assms(1)] assms(2,3)] by blast

theorem Storage_erase_prefix_witness:
  "\<exists>s s'. Storage_insert InMemoryStorageFifo example_hash (example_packet 65) 0 (Storage_new False 1) = (None, s)
     \<and> st_nPackets s = 1 \<and> Storage_erase InMemoryStorageFifo example_hash (name1 [65]) True s = (None, s') \<and> st_cache s' = []"
proof -
  obtain s e where s: "Storage_insert (policy_of place_upper Fifo) example_hash (example_packet 65) 0 (Storage_new False 1) = (None, s)"
    "class_inv example_hash Fifo s" "st_cache s = [e]" "e_data e = example_packet 65" "st_nPackets s = 1"
    "key_of_entry example_hash e = [Comp tlv_NameComponent [65], Comp tlv_ImplicitSha256DigestComponent (replicate 32 7)]"
    using example_storage [of Fifo] by blast
  have "valid_name (name1 [65])" by (simp add: valid_name_def)
  from Storage_erase_prefix [OF upper.frequency_index_axioms s(2) this] s(3,6)
  obtain s' where s': "Storage_erase InMemoryStorageFifo example_hash (name1 [65]) True s = (None, s')" "set (st_cache s') \<subseteq> {e}"
    "\<forall>x \<in> set (st_cache s'). \<not> comp_prefix (name_of (name1 [65])) (name_of (d_name (e_data x)))" by auto
  have "name_of (d_name (e_data e)) = [Comp tlv_NameComponent [65]]" by (simp add: s(4) example_packet_def Let_def)
  then have "set (st_cache s') = {}" using s'(2,3) by (cases "st_cache s'") (auto simp: comp_prefix_def)
  then show ?thesis using s(1,5) s'(1) by simp
qed

text \<open>
  C19. \<open>find\<close> with an Interest that asks for the leftmost child and whose name is no stored full name: it does not fail, and returns the packet
  with the smallest full name among those that match the Interest (and are fresh, with MustBeFresh), or nothing when there is none. It is assumed that
  matching itself does not throw, and that names in the storage which agree with the name of the Interest in the values of their components agree in their
  types.
\<close>

theorem find_leftmost_child:
  assumes "frequency_index place" "class_inv sha256 r s" "valid_name (i_name i)" "sel_childSelector (i_selectors i) \<le> 0"
    and "\<forall>e \<in> set (st_cache s). \<exists>b. matches_entry sha256 i e = Inr b"
    and "\<forall>e \<in> set (st_cache s). value_prefix (name_of (i_name i)) (key_of_entry sha256 e)
        \<longrightarrow> comp_prefix (name_of (i_name i)) (key_of_entry sha256 e)"
    and "name_of (i_name i) \<notin> key_of_entry sha256 ` set (st_cache s)"
  shows "\<exists>found s'. find_interest (policy_of place r) sha256 i s = Inr (found, s') \<and> class_inv sha256 r s' \<and> st_cache s' = st_cache s
    \<and> (found = None \<longrightarrow> (\<forall>e \<in> set (st_cache s). \<not> satisfies sha256 i e))
    \<and> (\<forall>d. found = Some d \<longrightarrow> (\<exists>e \<in> set (st_cache s). e_data e = d \<and> satisfies sha256 i e
          \<and> (\<forall>e' \<in> set (st_cache s). satisfies sha256 i e' \<longrightarrow> key_of_entry sha256 e \<le> key_of_entry sha256 e')))"
  by (rule cleanup_policy.find_interest_leftmost [OF policy_laws [OF assms(1)] assms(2-7)])

theorem find_leftmost_child_witness:
  "\<exists>s s'. Storage_insert InMemoryStorageFifo example_hash (example_packet 65) 0 (Storage_new False 1) = (None, s)
     \<and> find_interest InMemoryStorageFifo example_hash example_interest s = Inr (Some (example_packet 65), s')"
proof -
  obtain s e where s: "Storage_insert (policy_of place_upper Fifo) example_hash (example_packet 65) 0 (Storage_new False 1) = (None, s)"
    "class_inv example_hash Fifo s" "st_cache s = [e]" "e_data e = example_packet 65" "e_isFresh e"
    "key_of_entry example_hash e = [Comp tlv_NameComponent [65], Comp tlv_ImplicitSha256DigestComponent (replicate 32 7)]"
    using example_storage [of Fifo] by blast
  let ?n = "[Comp tlv_NameComponent [65]]"
  have i: "valid_name (i_name example_interest)" "name_of (i_name example_interest) = ?n" "sel_childSelector (i_selectors example_interest) \<le> 0"
    by (simp_all add: example_interest_simps valid_name_def)
  have match: "matches_entry example_hash example_interest e = Inr True"
    using example_matches by (auto simp: matches_entry_def s(4))
  have typed: "\<forall>x \<in> set (st_cache s). value_prefix (name_of (i_name example_interest)) (key_of_entry example_hash x)
      \<longrightarrow> comp_prefix (name_of (i_name example_interest)) (key_of_entry example_hash x)"
    by (simp add: s(3,6) i(2) comp_prefix_def)
  have sat: "satisfies example_hash example_interest e" using match s(5) by (simp add: satisfies_def eligible_def)
  have "\<forall>x \<in> set (st_cache s). \<exists>b. matches_entry example_hash example_interest x = Inr b" "?n \<notin> key_of_entry example_hash ` set (st_cache s)"
    using match by (auto simp: s(3,6))
  from find_leftmost_child [OF upper.frequency_index_axioms s(2) i(1,3) this(1) typed] this(2) i(2)
  have "\<exists>found s'. find_interest InMemoryStorageFifo example_hash example_interest s = Inr (found, s')
    \<and> (found = None \<longrightarrow> (\<forall>e \<in> set (st_cache s). \<not> satisfies example_hash example_interest e))
    \<and> (\<forall>d. found = Some d \<longrightarrow> (\<exists>e \<in> set (st_cache s). e_data e = d))" unfolding i(2) policy_of.simps by blast
  then obtain found s' where "find_interest InMemoryStorageFifo example_hash example_interest s = Inr (found, s')"
    "found = None \<longrightarrow> (\<forall>e \<in> set (st_cache s). \<not> satisfies example_hash example_interest e)"
    "\<forall>d. found = Some d \<longrightarrow> (\<exists>e \<in> set (st_cache s). e_data e = d)" by blast
  then show ?thesis using s(1,3,4) sat by (cases found) auto
qed

text \<open>An empty storage loses half its capacity with each \<open>erase\<close>.\<close>

lemma erase_empty:
  assumes "frequency_index place" "class_inv sha256 r s" "st_cache s = []" "0 < st_capacity s"
  shows "\<exists>s'. Storage_erase (policy_of place r) sha256 n True s = (None, s') \<and> class_inv sha256 r s' \<and> st_cache s' = []
    \<and> st_capacity s' = st_capacity s div 2"
proof -
  have inv: "storage_inv sha256 (index_ok r) (r \<noteq> Persistent) s" "pool_inv sha256 (index_ok r) (r \<noteq> Persistent) (st_capacity s) s"
    "st_nPackets s = 0" "length (st_freeEntries s) = st_capacity s" "st_capacity s \<le> st_limit s"
    using assms(2,3) by (simp_all add: storage_inv_def pool_inv_def)
  have "index_lower_bound sha256 n s = 0" by (simp add: index_lower_bound_def assms(3))
  moreover have "erase_loop (policy_of place r) n 0 s = Inr s" by (subst erase_loop.simps) (simp add: assms(3))
  ultimately have "Storage_erase (policy_of place r) sha256 n True s = setCapacity sha256 (st_capacity s div 2) s"
    using inv(3,4) assms(4) by (simp add: Storage_erase_def Let_def)
  moreover obtain s' where "setCapacity sha256 (st_capacity s div 2) s = (None, s')"
    "pool_inv sha256 (index_ok r) (r \<noteq> Persistent) (st_capacity s div 2) s'" "st_capacity s' = st_capacity s div 2"
    "st_limit s' = st_limit s" "st_cache s' = []"
    using cleanup_policy.setCapacity_inv [OF policy_laws [OF assms(1)] inv(2), of "st_capacity s div 2"] inv(3) assms(3) by auto
  ultimately show ?thesis using inv(5) by (auto simp: storage_inv_def)
qed

text \<open>
  C40. In a storage of any class, four calls of \<open>erase\<close> while it is empty reduce the capacity from 10 to 0, from which it never grows: doubling 0 is
  0, so the next \<open>insert\<close> fails the assertion that there is a free entry.
\<close>

theorem erase_exhausts_capacity:
  assumes "frequency_index place" "10 \<le> limit" "limit \<le> SIZE_MAX" "storable sha256 d"
  shows "fst (Storage_insert (policy_of place r) sha256 d w
      (((\<lambda>s. snd (Storage_erase (policy_of place r) sha256 n True s)) ^^ 4) (Storage_new hasScheduler limit)))
    = Some (AssertionFailure ''m_freeEntries.size() > 0'')"
proof -
  let ?erase = "\<lambda>s. snd (Storage_erase (policy_of place r) sha256 n True s)"
  define P where "P c s \<longleftrightarrow> class_inv sha256 r s \<and> st_cache s = [] \<and> st_capacity s = c" for c s
  have step: "P (c div 2) (?erase s)" if "P c s" "0 < c" for c s
    using erase_empty [OF assms(1), of sha256 r s n] that by (auto simp: P_def)
  have "P 10 (Storage_new hasScheduler limit)"
    using cleanup_policy.Storage_new_inv [OF policy_laws [OF assms(1)] assms(3), of sha256 r hasScheduler] assms(2)
    by (simp add: P_def Storage_new_def push_new_def Let_def)
  from step [OF step [OF step [OF step [OF this]]]]
  have "P 0 (?erase (?erase (?erase (?erase (Storage_new hasScheduler limit)))))" by simp
  then have "P 0 ((?erase ^^ 4) (Storage_new hasScheduler limit))" by (simp add: numeral_eq_Suc)
  then show ?thesis using insert_capacity_0 assms(4) by (auto simp: P_def storable_def)
qed

theorem erase_exhausts_capacity_witness:
  "fst (Storage_insert InMemoryStorageLru example_hash (example_packet 65) 0
      (((\<lambda>s. snd (Storage_erase InMemoryStorageLru example_hash (name1 [65]) True s)) ^^ 4) (Storage_new False 10)))
    = Some (AssertionFailure ''m_freeEntries.size() > 0'')"
  using erase_exhausts_capacity [OF upper.frequency_index_axioms _ _ example_storable(1), of 10 Lru 65 0 "name1 [65]" False]
  by (simp add: SIZE_MAX_def)

end
