(* ===== verification/LpHeaders.thy ===== *)
theory LpHeaders
  imports Interest
begin

text \<open>
  Link protocol headers with a value of their own, after \<open>src/lp/nack-header.{hpp,cpp}\<close>, \<open>src/lp/cache-policy.{hpp,cpp}\<close> and
  \<open>src/lp/nack.{hpp,cpp}\<close>.

  The two enumerations have the underlying type \<open>int\<close>, and a code from the wire is cast to it without a check; a value is the 32-bit
  word that is kept.
\<close>

section \<open>TLV-TYPE codes\<close>

definition lp_LpPacket :: u32 where "lp_LpPacket = 100"
definition lp_Fragment :: u32 where "lp_Fragment = 80"
definition lp_Sequence :: u32 where "lp_Sequence = 81"
definition lp_FragIndex :: u32 where "lp_FragIndex = 82"
definition lp_FragCount :: u32 where "lp_FragCount = 83"
definition lp_Nack :: u32 where "lp_Nack = 800"
definition lp_NackReason :: u32 where "lp_NackReason = 801"
definition lp_NextHopFaceId :: u32 where "lp_NextHopFaceId = 816"
definition lp_CachePolicy :: u32 where "lp_CachePolicy = 820"
definition lp_CachePolicyType :: u32 where "lp_CachePolicyType = 821"
definition lp_IncomingFaceId :: u32 where "lp_IncomingFaceId = 817"
definition HEADER3_MIN :: u32 where "HEADER3_MIN = 800"
definition HEADER3_MAX :: u32 where "HEADER3_MAX = 959"

lemmas lp_codes = lp_LpPacket_def lp_Fragment_def lp_Sequence_def lp_FragIndex_def lp_FragCount_def lp_Nack_def lp_NackReason_def
  lp_NextHopFaceId_def lp_CachePolicy_def lp_CachePolicyType_def lp_IncomingFaceId_def HEADER3_MIN_def HEADER3_MAX_def

section \<open>Nack header\<close>

definition NackReason_NONE :: u32 where "NackReason_NONE = 0"
definition NackReason_CONGESTION :: u32 where "NackReason_CONGESTION = 50"
definition NackReason_DUPLICATE :: u32 where "NackReason_DUPLICATE = 100"
definition NackReason_NO_ROUTE :: u32 where "NackReason_NO_ROUTE = 150"

lemmas nack_reasons = NackReason_NONE_def NackReason_CONGESTION_def NackReason_DUPLICATE_def NackReason_NO_ROUTE_def

definition NackReason_print :: "u32 \<Rightarrow> string" where
  "NackReason_print reason =
     (if reason = NackReason_CONGESTION then ''Congestion''
      else if reason = NackReason_DUPLICATE then ''Duplicate''
      else if reason = NackReason_NO_ROUTE then ''NoRoute''
      else ''None'')"

record nack_header =
  nh_reason :: u32
  nh_wire :: block

definition NackHeader_default :: nack_header where
  "NackHeader_default = \<lparr>nh_reason = NackReason_NONE, nh_wire = Block_default\<rparr>"

definition NackHeader_wireEncode_to :: "'e EncodingImpl \<Rightarrow> nack_header \<Rightarrow> 'e \<Rightarrow> (nat \<times> 'e) result" where
  "NackHeader_wireEncode_to ops h =
     run_stepsE
       ([\<lambda>_ e. Inr (prependNonNegativeIntegerBlock ops lp_NackReason (ucast (nh_reason h)) e)] @
        header_steps ops lp_Nack)"

definition NackHeader_wireEncode :: "nack_header \<Rightarrow> (block \<times> nack_header) result" where
  "NackHeader_wireEncode h =
     (if hasWire (nh_wire h) then Inr (nh_wire h, h)
      else bindE (encode_block (NackHeader_wireEncode_to EncodingEstimator h) (NackHeader_wireEncode_to EncodingBuffer h))
             (\<lambda>b. Inr (b, h\<lparr>nh_wire := b\<rparr>)))"

definition NackHeader_wireDecode :: "nack_header \<Rightarrow> block \<Rightarrow> error option \<times> nack_header" where
  "NackHeader_wireDecode h wire =
     (if m_type wire \<noteq> lp_Nack then (Some (TlvError ''expecting Nack block''), h)
      else case parse wire of
             (Some err, b) \<Rightarrow> (Some err, h\<lparr>nh_wire := b\<rparr>)
           | (None, b) \<Rightarrow>
               (let h = h\<lparr>nh_wire := b, nh_reason := NackReason_NONE\<rparr>
                in case m_subBlocks b of
                     [] \<Rightarrow> (None, h)
                   | it # _ \<Rightarrow>
                       if m_type it = lp_NackReason
                       then (case block_readNonNegativeInteger it of
                               Inl err \<Rightarrow> (Some err, h)
                             | Inr n \<Rightarrow> (None, h\<lparr>nh_reason := ucast n\<rparr>))
                       else (Some (TlvError ''expecting NackReason block''), h)))"

definition NackHeader_ofBlock :: "block \<Rightarrow> nack_header result" where
  "NackHeader_ofBlock wire =
     (case NackHeader_wireDecode NackHeader_default wire of (None, h) \<Rightarrow> Inr h | (Some err, _) \<Rightarrow> Inl err)"

definition getReason :: "nack_header \<Rightarrow> u32" where
  "getReason h =
     (if nh_reason h \<in> {NackReason_CONGESTION, NackReason_DUPLICATE, NackReason_NO_ROUTE} then nh_reason h else NackReason_NONE)"

definition setReason :: "nack_header \<Rightarrow> u32 \<Rightarrow> nack_header" where
  "setReason h reason = h\<lparr>nh_reason := reason, nh_wire := Block_reset (nh_wire h)\<rparr>"

section \<open>Cache policy\<close>

definition CachePolicyType_NONE :: u32 where "CachePolicyType_NONE = 0"
definition CachePolicyType_NO_CACHE :: u32 where "CachePolicyType_NO_CACHE = 1"

lemmas cache_policies = CachePolicyType_NONE_def CachePolicyType_NO_CACHE_def

definition CachePolicyType_print :: "u32 \<Rightarrow> string" where
  "CachePolicyType_print policy = (if policy = CachePolicyType_NO_CACHE then ''NoCache'' else ''None'')"

record cache_policy =
  cp_policy :: u32
  cp_wire :: block

definition CachePolicy_default :: cache_policy where
  "CachePolicy_default = \<lparr>cp_policy = CachePolicyType_NONE, cp_wire = Block_default\<rparr>"

definition CachePolicy_wireEncode_to :: "'e EncodingImpl \<Rightarrow> cache_policy \<Rightarrow> 'e \<Rightarrow> (nat \<times> 'e) result" where
  "CachePolicy_wireEncode_to ops c e =
     (if cp_policy c = CachePolicyType_NONE then Inl (CachePolicyError ''CachePolicyType must be set'')
      else run_stepsE
             ([\<lambda>_ e. Inr (prependNonNegativeIntegerBlock ops lp_CachePolicyType (ucast (cp_policy c)) e)] @
              header_steps ops lp_CachePolicy) e)"

definition CachePolicy_wireEncode :: "cache_policy \<Rightarrow> (block \<times> cache_policy) result" where
  "CachePolicy_wireEncode c =
     (if cp_policy c = CachePolicyType_NONE then Inl (CachePolicyError ''CachePolicyType must be set'')
      else if hasWire (cp_wire c) then Inr (cp_wire c, c)
      else bindE (encode_block (CachePolicy_wireEncode_to EncodingEstimator c) (CachePolicy_wireEncode_to EncodingBuffer c))
             (\<lambda>b. Inr (b, c\<lparr>cp_wire := b\<rparr>)))"

definition getPolicy :: "cache_policy \<Rightarrow> u32" where
  "getPolicy c = (if cp_policy c = CachePolicyType_NO_CACHE then cp_policy c else CachePolicyType_NONE)"

definition setPolicy :: "cache_policy \<Rightarrow> u32 \<Rightarrow> cache_policy" where
  "setPolicy c policy = c\<lparr>cp_policy := policy, cp_wire := Block_reset (cp_wire c)\<rparr>"

definition CachePolicy_wireDecode :: "cache_policy \<Rightarrow> block \<Rightarrow> error option \<times> cache_policy" where
  "CachePolicy_wireDecode c wire =
     (if m_type wire \<noteq> lp_CachePolicy then (Some (CachePolicyError ''expecting CachePolicy block''), c)
      else case parse wire of
             (Some err, b) \<Rightarrow> (Some err, c\<lparr>cp_wire := b\<rparr>)
           | (None, b) \<Rightarrow>
               (let c = c\<lparr>cp_wire := b\<rparr>
                in case m_subBlocks b of
                     [] \<Rightarrow> (Some (CachePolicyError ''expecting CachePolicyType block''), c)
                   | it # _ \<Rightarrow>
                       if m_type it = lp_CachePolicyType
                       then (case block_readNonNegativeInteger it of
                               Inl err \<Rightarrow> (Some err, c)
                             | Inr n \<Rightarrow>
                                 let c = c\<lparr>cp_policy := ucast n\<rparr>
                                 in (if getPolicy c = CachePolicyType_NONE
                                     then Some (CachePolicyError ''unknown CachePolicyType'') else None, c))
                       else (Some (CachePolicyError ''expecting CachePolicyType block''), c)))"

definition CachePolicy_ofBlock :: "block \<Rightarrow> cache_policy result" where
  "CachePolicy_ofBlock wire =
     (case CachePolicy_wireDecode CachePolicy_default wire of (None, c) \<Rightarrow> Inr c | (Some err, _) \<Rightarrow> Inl err)"

section \<open>Nack\<close>

record nack =
  nk_interest :: interest
  nk_header :: nack_header

definition Nack_ofInterest :: "interest \<Rightarrow> nack" where
  "Nack_ofInterest i = \<lparr>nk_interest = i, nk_header = NackHeader_default\<rparr>"

definition Nack_setHeader :: "nack \<Rightarrow> nack_header \<Rightarrow> nack" where
  "Nack_setHeader n h = n\<lparr>nk_header := h\<rparr>"

definition Nack_getReason :: "nack \<Rightarrow> u32" where
  "Nack_getReason n = getReason (nk_header n)"

definition Nack_setReason :: "nack \<Rightarrow> u32 \<Rightarrow> nack" where
  "Nack_setReason n reason = n\<lparr>nk_header := setReason (nk_header n) reason\<rparr>"

section \<open>Wire format\<close>

definition number_value :: "u32 \<Rightarrow> u32 \<Rightarrow> byte list" where
  "number_value t n = elements_bytes [(t, nni_bytes (ucast n))]"

lemma ucast_32_64_32 [simp]: "(ucast (ucast (n :: u32) :: u64) :: u32) = n"
  by (simp add: unsigned_ucast_eq)

lemma setters_wire:
  "nh_reason (setReason h r) = r" "\<not> hasWire (nh_wire (setReason h r))"
  "cp_policy (setPolicy c p) = p" "\<not> hasWire (cp_wire (setPolicy c p))"
  by (simp_all add: setReason_def setPolicy_def Block_reset_def hasWire_def)

context encoding_impl
begin

lemma NackHeader_wireEncode_to_emits:
  "emitterE emits (NackHeader_wireEncode_to ops h) (tlv_bytes lp_Nack (number_value lp_NackReason (nh_reason h)))"
  unfolding NackHeader_wireEncode_to_def number_value_def
  by (rule element_steps_emit) (simp add: emitterE_Inr prependNonNegativeIntegerBlock_emits)

lemma CachePolicy_wireEncode_to_emits:
  assumes "cp_policy c \<noteq> CachePolicyType_NONE"
  shows "emitterE emits (CachePolicy_wireEncode_to ops c) (tlv_bytes lp_CachePolicy (number_value lp_CachePolicyType (cp_policy c)))"
proof -
  have "CachePolicy_wireEncode_to ops c = run_stepsE
     ([\<lambda>_ e. Inr (prependNonNegativeIntegerBlock ops lp_CachePolicyType (ucast (cp_policy c)) e)] @ header_steps ops lp_CachePolicy)"
    using assms by (simp add: CachePolicy_wireEncode_to_def fun_eq_iff)
  then show ?thesis unfolding number_value_def
    by (simp only:) (rule element_steps_emit, simp add: emitterE_Inr prependNonNegativeIntegerBlock_emits)
qed

end

lemma parse_number_value:
  assumes "fresh w" "type_value w = (t, number_value t' n)"
  obtains b e where "parse w = (None, b)" "m_subBlocks b = [e]" "m_type e = t'" "block_readNonNegativeInteger e = Inr (ucast n)"
proof -
  have "value_bytes w = elements_bytes [(t', nni_bytes (ucast n))]" using assms(2) by (simp add: type_value_def number_value_def)
  from parse_fresh [OF assms(1) this] obtain b where b: "parse w = (None, b)" "map type_value (m_subBlocks b) = [(t', nni_bytes (ucast n))]"
    "\<forall>s \<in> set (m_subBlocks b). fresh s" by metis
  then obtain e where e: "m_subBlocks b = [e]" "type_value e = (t', nni_bytes (ucast n))" by auto
  then show ?thesis using that b(1) b(3) read_element [of e t' "ucast n"] by (simp add: type_value_def fresh_def)
qed

lemma NackHeader_wireDecode_fresh:
  assumes "fresh w" "type_value w = (lp_Nack, number_value lp_NackReason r)"
  shows "\<exists>b. NackHeader_wireDecode h w = (None, h\<lparr>nh_wire := b, nh_reason := r\<rparr>)"
proof -
  obtain b e where "parse w = (None, b)" "m_subBlocks b = [e]" "m_type e = lp_NackReason" "block_readNonNegativeInteger e = Inr (ucast r)"
    using parse_number_value [OF assms] .
  moreover have "m_type w = lp_Nack" using assms(2) by (simp add: type_value_def)
  ultimately have "NackHeader_wireDecode h w = (None, h\<lparr>nh_wire := b, nh_reason := r\<rparr>)" by (simp add: NackHeader_wireDecode_def Let_def)
  then show ?thesis ..
qed

interpretation nack_wire: wire_codec lp_Nack "number_value lp_NackReason" "\<lambda>_. True" NackHeader_wireDecode "\<lambda>_. True" nh_reason
  "\<lambda>_. True" NackHeader_wireEncode nh_wire "\<lambda>_. True"
proof (unfold_locales, goal_cases)
  case (1 b v x0)
  then show ?case using NackHeader_wireDecode_fresh [of b v x0] by auto
next
  case (2 h)
  then show ?case
    using encode_block_eq [OF estimator.NackHeader_wireEncode_to_emits [of h] encoder.NackHeader_wireEncode_to_emits [of h]]
    by (simp add: NackHeader_wireEncode_def del: length_tlv_bytes)
next
  case (3 h)
  then show ?case by (simp add: NackHeader_wireEncode_def)
qed

lemma CachePolicy_wireDecode_fresh:
  assumes "fresh w" "type_value w = (lp_CachePolicy, number_value lp_CachePolicyType p)"
  shows "\<exists>b. CachePolicy_wireDecode c w =
    (if p = CachePolicyType_NO_CACHE then None else Some (CachePolicyError ''unknown CachePolicyType''), c\<lparr>cp_wire := b, cp_policy := p\<rparr>)"
proof -
  obtain b e where "parse w = (None, b)" "m_subBlocks b = [e]" "m_type e = lp_CachePolicyType"
    "block_readNonNegativeInteger e = Inr (ucast p)"
    using parse_number_value [OF assms] .
  moreover have "m_type w = lp_CachePolicy" using assms(2) by (simp add: type_value_def)
  ultimately have "CachePolicy_wireDecode c w =
    (if p = CachePolicyType_NO_CACHE then None else Some (CachePolicyError ''unknown CachePolicyType''), c\<lparr>cp_wire := b, cp_policy := p\<rparr>)"
    by (simp add: CachePolicy_wireDecode_def Let_def getPolicy_def cache_policies)
  then show ?thesis ..
qed

interpretation cache_policy_wire: wire_element lp_CachePolicy "number_value lp_CachePolicyType" "\<lambda>p. p = CachePolicyType_NO_CACHE"
  CachePolicy_wireDecode "\<lambda>_. True" cp_policy "\<lambda>_. True"
proof (unfold_locales, goal_cases)
  case (1 b v x0)
  then show ?case using CachePolicy_wireDecode_fresh [of b v x0] by auto
qed

text \<open>
  A reason comes back from the wire as it was set, and \<open>getReason\<close> shows it if it is a known one.
\<close>

lemma setReason_getReason:
  "getReason (setReason h r) = (if r \<in> {NackReason_CONGESTION, NackReason_DUPLICATE, NackReason_NO_ROUTE} then r else NackReason_NONE)"
  by (simp add: getReason_def setters_wire(1))

text \<open>A reason code on the wire is reduced modulo \<open>2 ^ 32\<close>: an unknown code may be shown as a known one.\<close>

lemma nack_reason_truncated:
  assumes "parse w = (None, b)" "m_type w = lp_Nack" "m_subBlocks b = [e]" "m_type e = lp_NackReason"
    and "block_readNonNegativeInteger e = Inr (2 ^ 32 + 50)"
  shows "fst (NackHeader_wireDecode h w) = None \<and> getReason (snd (NackHeader_wireDecode h w)) = NackReason_CONGESTION"
  using assms by (simp add: NackHeader_wireDecode_def Let_def getReason_def nack_reasons)

text \<open>A policy without a known type cannot be sent and received: the encoder refuses to write none, the decoder to read an unknown one.\<close>

lemma CachePolicy_none_not_encoded:
  "cp_policy c = CachePolicyType_NONE \<Longrightarrow> CachePolicy_wireEncode c = Inl (CachePolicyError ''CachePolicyType must be set'')"
  by (simp add: CachePolicy_wireEncode_def)

lemma CachePolicy_encodes:
  assumes "cp_policy c \<noteq> CachePolicyType_NONE" "\<not> hasWire (cp_wire c)"
  shows "\<exists>c'. CachePolicy_wireEncode c = Inr (tlv_block lp_CachePolicy (number_value lp_CachePolicyType (cp_policy c)), c')
    \<and> cp_policy c' = cp_policy c"
  using encode_block_eq [OF estimator.CachePolicy_wireEncode_to_emits [OF assms(1)] encoder.CachePolicy_wireEncode_to_emits [OF assms(1)]] assms
  by (simp add: CachePolicy_wireEncode_def)

end
