(* ===== verification/LpPacket.thy ===== *)
theory LpPacket
  imports LpHeaders
begin

text \<open>
  Link protocol packets, after \<open>src/lp/packet.{hpp,cpp}\<close>, \<open>src/lp/fields.hpp\<close> and \<open>src/lp/detail/\<close>.

  The class has one member, \<open>m_wire\<close>; a packet is that block. The type \<open>FIELD\<close> over which the member templates range is a record
  with the constants and functions of \<open>FieldDecl\<close>. TLV-TYPE codes of fields are kept in 32 bits, as those of blocks. A pair of
  iterators into a buffer is the bytes between them.
\<close>

section \<open>Fields\<close>

datatype field_location = Header | Fragment

definition getLocationSortOrder :: "field_location \<Rightarrow> int" where
  "getLocationSortOrder loc = (case loc of Header \<Rightarrow> 1 | Fragment \<Rightarrow> 2)"

record 'v field_decl =
  fd_location :: field_location
  fd_type :: u32
  fd_repeatable :: bool
  fd_decode :: "block \<Rightarrow> 'v result"
  fd_estimate :: "'v \<Rightarrow> unit \<Rightarrow> (nat \<times> unit) result"
  fd_encode :: "'v \<Rightarrow> encoder \<Rightarrow> (nat \<times> encoder) result"

definition FieldDecl :: "field_location \<Rightarrow> u32 \<Rightarrow> bool \<Rightarrow> (block \<Rightarrow> 'v result)
    \<Rightarrow> ('v \<Rightarrow> unit \<Rightarrow> (nat \<times> unit) result) \<Rightarrow> ('v \<Rightarrow> encoder \<Rightarrow> (nat \<times> encoder) result) \<Rightarrow> 'v field_decl" where
  "FieldDecl loc type repeatable decode est enc =
     \<lparr>fd_location = loc, fd_type = type, fd_repeatable = repeatable,
      fd_decode = (\<lambda>wire. if m_type wire \<noteq> type then Inl (TlvError (''Unexpected TLV type '' @ show_nat (unat (m_type wire)))) else decode wire),
      fd_estimate = est, fd_encode = enc\<rparr>"

text \<open>\<open>DecodeHelper\<close> and \<open>EncodeHelper\<close>.\<close>

definition decode_object :: "('v \<Rightarrow> block \<Rightarrow> error option \<times> 'v) \<Rightarrow> 'v \<Rightarrow> block \<Rightarrow> 'v result" where
  "decode_object wireDecode v wire = (case wireDecode v wire of (None, v) \<Rightarrow> Inr v | (Some err, _) \<Rightarrow> Inl err)"

definition decode_range :: "block \<Rightarrow> byte list result" where
  "decode_range wire =
     (if value_size wire = 0 then Inl (TlvError (show_nat (unat (m_type wire)) @ '' must not be empty'')) else Inr (value_bytes wire))"

definition encode_uint64 :: "'e EncodingImpl \<Rightarrow> u32 \<Rightarrow> u64 \<Rightarrow> 'e \<Rightarrow> (nat \<times> 'e) result" where
  "encode_uint64 ops type val e = Inr (prependNonNegativeIntegerBlock ops type val e)"

definition encode_range :: "('e \<Rightarrow> byte list \<Rightarrow> nat \<times> 'e) \<Rightarrow> 'e EncodingImpl \<Rightarrow> u32 \<Rightarrow> byte list \<Rightarrow> 'e \<Rightarrow> (nat \<times> 'e) result" where
  "encode_range prepend ops type val = run_stepsE ([\<lambda>_ e. Inr (prepend e val)] @ header_steps ops type)"

definition uint64_field :: "u32 \<Rightarrow> u64 field_decl" where
  "uint64_field type =
     FieldDecl Header type False block_readNonNegativeInteger (encode_uint64 EncodingEstimator type) (encode_uint64 EncodingBuffer type)"

definition SequenceField :: "u64 field_decl" where "SequenceField = uint64_field lp_Sequence"
definition FragIndexField :: "u64 field_decl" where "FragIndexField = uint64_field lp_FragIndex"
definition FragCountField :: "u64 field_decl" where "FragCountField = uint64_field lp_FragCount"
definition NextHopFaceIdField :: "u64 field_decl" where "NextHopFaceIdField = uint64_field lp_NextHopFaceId"
definition IncomingFaceIdField :: "u64 field_decl" where "IncomingFaceIdField = uint64_field lp_IncomingFaceId"

definition NackField :: "nack_header field_decl" where
  "NackField = FieldDecl Header lp_Nack False (decode_object NackHeader_wireDecode NackHeader_default)
     (NackHeader_wireEncode_to EncodingEstimator) (NackHeader_wireEncode_to EncodingBuffer)"

definition CachePolicyField :: "cache_policy field_decl" where
  "CachePolicyField = FieldDecl Header lp_CachePolicy False (decode_object CachePolicy_wireDecode CachePolicy_default)
     (CachePolicy_wireEncode_to EncodingEstimator) (CachePolicy_wireEncode_to EncodingBuffer)"

definition FragmentField :: "byte list field_decl" where
  "FragmentField = FieldDecl Fragment lp_Fragment False decode_range
     (encode_range (\<lambda>e rng. (est_prependRange rng, e)) EncodingEstimator lp_Fragment) (encode_range prependRange EncodingBuffer lp_Fragment)"

text \<open>What \<open>FieldInfo\<close> needs of the declarations.\<close>

definition field_summary :: "'v field_decl \<Rightarrow> u32 \<times> bool \<times> field_location" where
  "field_summary F = (fd_type F, fd_repeatable F, fd_location F)"

definition FieldSet :: "(u32 \<times> bool \<times> field_location) list" where
  "FieldSet = [field_summary FragmentField, field_summary SequenceField, field_summary FragIndexField, field_summary FragCountField,
     field_summary NackField, field_summary NextHopFaceIdField, field_summary CachePolicyField, field_summary IncomingFaceIdField]"

record field_info =
  fi_tlvType :: u32
  fi_isRecognized :: bool
  fi_canIgnore :: bool
  fi_isRepeatable :: bool
  fi_locationSortOrder :: int

definition ExtractFieldInfo :: "u32 \<times> bool \<times> field_location \<Rightarrow> field_info \<Rightarrow> field_info" where
  "ExtractFieldInfo = (\<lambda>(type, repeatable, loc) info.
     if type \<noteq> fi_tlvType info then info
     else info\<lparr>fi_isRecognized := True, fi_canIgnore := False, fi_isRepeatable := repeatable, fi_locationSortOrder := getLocationSortOrder loc\<rparr>)"

definition FieldInfo :: "u32 \<Rightarrow> field_info" where
  "FieldInfo tlv =
     (let info = fold ExtractFieldInfo FieldSet
            \<lparr>fi_tlvType = tlv, fi_isRecognized = False, fi_canIgnore = False, fi_isRepeatable = False,
             fi_locationSortOrder = getLocationSortOrder Header\<rparr>
      in if \<not> fi_isRecognized info
         then info\<lparr>fi_canIgnore := HEADER3_MIN \<le> tlv \<and> tlv \<le> HEADER3_MAX \<and> and tlv 1 = 1\<rparr>
         else info)"

definition compareFieldSortOrder :: "field_info \<Rightarrow> field_info \<Rightarrow> bool" where
  "compareFieldSortOrder fst_info snd_info \<longleftrightarrow>
     fi_locationSortOrder fst_info < fi_locationSortOrder snd_info
     \<or> fi_locationSortOrder fst_info = fi_locationSortOrder snd_info \<and> fi_tlvType fst_info < fi_tlvType snd_info"

section \<open>Packets\<close>

type_synonym lp_packet = block

definition Packet_default :: lp_packet where
  "Packet_default = Block_ofType lp_LpPacket"

definition comparePos :: "block \<Rightarrow> u32 \<Rightarrow> bool" where
  "comparePos b second \<longleftrightarrow> compareFieldSortOrder (FieldInfo (m_type b)) (FieldInfo second)"

text \<open>The queries parse \<open>m_wire\<close>, which is mutable, and therefore return the packet as well.\<close>

definition Packet_count :: "'v field_decl \<Rightarrow> lp_packet \<Rightarrow> nat result \<times> lp_packet" where
  "Packet_count F p =
     (case parse p of
        (Some err, p) \<Rightarrow> (Inl err, p)
      | (None, p) \<Rightarrow> (Inr (length (filter (\<lambda>b. m_type b = fd_type F) (m_subBlocks p))), p))"

definition Packet_has :: "'v field_decl \<Rightarrow> lp_packet \<Rightarrow> bool result \<times> lp_packet" where
  "Packet_has F p = (case Packet_count F p of (Inl err, p) \<Rightarrow> (Inl err, p) | (Inr n, p) \<Rightarrow> (Inr (n > 0), p))"

fun get_loop :: "'v field_decl \<Rightarrow> nat \<Rightarrow> nat \<Rightarrow> block list \<Rightarrow> 'v result" where
  "get_loop F index count [] = Inl (OutOfRange ''Index out of range'')"
| "get_loop F index count (e # es) =
     (if m_type e \<noteq> fd_type F then get_loop F index count es
      else if count = index then fd_decode F e
      else get_loop F index (count + 1) es)"

definition Packet_get :: "'v field_decl \<Rightarrow> nat \<Rightarrow> lp_packet \<Rightarrow> 'v result \<times> lp_packet" where
  "Packet_get F index p =
     (case parse p of
        (Some err, p) \<Rightarrow> (Inl err, p)
      | (None, p) \<Rightarrow> (get_loop F index 0 (m_subBlocks p), p))"

fun list_loop :: "'v field_decl \<Rightarrow> block list \<Rightarrow> 'v list result" where
  "list_loop F [] = Inr []"
| "list_loop F (e # es) =
     (if m_type e \<noteq> fd_type F then list_loop F es
      else bindE (fd_decode F e) (\<lambda>v. bindE (list_loop F es) (\<lambda>vs. Inr (v # vs))))"

definition Packet_list :: "'v field_decl \<Rightarrow> lp_packet \<Rightarrow> 'v list result \<times> lp_packet" where
  "Packet_list F p =
     (case parse p of
        (Some err, p) \<Rightarrow> (Inl err, p)
      | (None, p) \<Rightarrow> (list_loop F (m_subBlocks p), p))"

text \<open>\<open>std::lower_bound\<close> on elements in sort order.\<close>

definition field_lower_bound :: "block list \<Rightarrow> u32 \<Rightarrow> nat" where
  "field_lower_bound es type = length (takeWhile (\<lambda>b. comparePos b type) es)"

definition Packet_add :: "'v field_decl \<Rightarrow> 'v \<Rightarrow> lp_packet \<Rightarrow> error option \<times> lp_packet" where
  "Packet_add F val p =
     (case (if \<not> fd_repeatable F then Packet_has F p else (Inr False, p)) of
        (Inl err, p) \<Rightarrow> (Some err, p)
      | (Inr True, p) \<Rightarrow> (Some (LengthError ''Field cannot be repeated''), p)
      | (Inr False, p) \<Rightarrow>
          (case encode_block (fd_estimate F val) (fd_encode F val) of
             Inl err \<Rightarrow> (Some err, p)
           | Inr b \<Rightarrow>
               (case Block_insert (field_lower_bound (m_subBlocks p) (fd_type F)) b p of
                  Inl err \<Rightarrow> (Some err, p)
                | Inr p \<Rightarrow> (None, p))))"

lemma length_takeWhile_exists: "\<exists>x \<in> set xs. \<not> P x \<Longrightarrow> length (takeWhile P xs) < length xs"
  by (induction xs) auto

lemma field_lower_bound_le: "field_lower_bound es type \<le> length es"
  by (simp add: field_lower_bound_def length_takeWhile_le)

fun nth_of_type :: "u32 \<Rightarrow> nat \<Rightarrow> block list \<Rightarrow> nat option" where
  "nth_of_type type index [] = None"
| "nth_of_type type index (e # es) =
     (if m_type e = type
      then (case index of 0 \<Rightarrow> Some 0 | Suc i \<Rightarrow> map_option Suc (nth_of_type type i es))
      else map_option Suc (nth_of_type type index es))"

definition Packet_remove :: "'v field_decl \<Rightarrow> nat \<Rightarrow> lp_packet \<Rightarrow> error option \<times> lp_packet" where
  "Packet_remove F index p =
     (case parse p of
        (Some err, p) \<Rightarrow> (Some err, p)
      | (None, p) \<Rightarrow>
          (case nth_of_type (fd_type F) index (m_subBlocks p) of
             Some it \<Rightarrow>
               (case Block_erase it p of Inl err \<Rightarrow> (Some err, p) | Inr p \<Rightarrow> (None, p))
           | None \<Rightarrow> (Some (OutOfRange ''Index out of range''), p)))"

definition Packet_clear :: "'v field_decl \<Rightarrow> lp_packet \<Rightarrow> error option \<times> lp_packet" where
  "Packet_clear F p =
     (case parse p of
        (Some err, p) \<Rightarrow> (Some err, p)
      | (None, p) \<Rightarrow> (None, Block_remove (fd_type F) p))"

definition Packet_set :: "'v field_decl \<Rightarrow> 'v \<Rightarrow> lp_packet \<Rightarrow> error option \<times> lp_packet" where
  "Packet_set F val p = (case Packet_clear F p of (Some err, p) \<Rightarrow> (Some err, p) | (None, p) \<Rightarrow> Packet_add F val p)"

section \<open>Wire\<close>

definition Packet_wireEncode_to :: "'e EncodingImpl \<Rightarrow> lp_packet \<Rightarrow> 'e \<Rightarrow> (nat \<times> 'e) result" where
  "Packet_wireEncode_to ops p e =
     (if hasWire p then bindE (Block_size p) (\<lambda>n. Inr (n, e))
      else run_stepsE
             (map (\<lambda>b _ e. Inr (op_prependBlock ops e b)) (rev (m_subBlocks p)) @ header_steps ops lp_LpPacket) e)"

text \<open>\<open>front()\<close> of an empty vector is undefined.\<close>

definition Packet_wireEncode :: "lp_packet \<Rightarrow> (block \<times> lp_packet) result" where
  "Packet_wireEncode p =
     (if hasWire p then Inr (p, p)
      else if length (m_subBlocks p) = 1 \<and> m_type (hd (m_subBlocks p)) = fd_type FragmentField
      then case parse (hd (m_subBlocks p)) of
             (Some err, _) \<Rightarrow> Inl err
           | (None, fragment) \<Rightarrow>
               (case m_subBlocks fragment of
                  [] \<Rightarrow> Inl (UndefinedBehaviour ''front() of an empty vector'')
                | pkt # _ \<Rightarrow> (case parse pkt of (Some err, _) \<Rightarrow> Inl err | (None, pkt) \<Rightarrow> Inr (pkt, p)))
      else bindE (encode_block (Packet_wireEncode_to EncodingEstimator p) (Packet_wireEncode_to EncodingBuffer p)) (\<lambda>b. Inr (b, b)))"

fun check_fields :: "field_info option \<Rightarrow> block list \<Rightarrow> error option" where
  "check_fields prev [] = None"
| "check_fields prev (element # es) =
     (let info = FieldInfo (m_type element)
      in if \<not> fi_isRecognized info \<and> \<not> fi_canIgnore info then Some (LpPacketError ''unrecognized field cannot be ignored'')
         else case prev of
                None \<Rightarrow> check_fields (Some info) es
              | Some prev \<Rightarrow>
                  if fi_tlvType info = fi_tlvType prev \<and> \<not> fi_isRepeatable info
                  then Some (LpPacketError ''non-repeatable field cannot be repeated'')
                  else if fi_tlvType info \<noteq> fi_tlvType prev \<and> \<not> compareFieldSortOrder prev info
                  then Some (LpPacketError ''fields are not in correct sort order'')
                  else check_fields (Some info) es)"

definition Packet_wireDecode :: "lp_packet \<Rightarrow> block \<Rightarrow> error option \<times> lp_packet" where
  "Packet_wireDecode p wire =
     (if m_type wire = tlv_Interest \<or> m_type wire = tlv_Data
      then let p = Packet_default
           in case bindE (Block_begin wire) (\<lambda>i. bindE (Block_end wire) (\<lambda>j. Inr (chunk (buffer_of wire) i j))) of
                Inl err \<Rightarrow> (Some err, p)
              | Inr rng \<Rightarrow> Packet_add FragmentField rng p
      else if m_type wire \<noteq> lp_LpPacket
      then (Some (LpPacketError (''unrecognized TLV-TYPE '' @ show_nat (unat (m_type wire)))), p)
      else case parse wire of
             (Some err, _) \<Rightarrow> (Some err, p)
           | (None, wire) \<Rightarrow> (case check_fields None (m_subBlocks wire) of Some err \<Rightarrow> (Some err, p) | None \<Rightarrow> (None, wire)))"

definition Packet_ofBlock :: "block \<Rightarrow> lp_packet result" where
  "Packet_ofBlock wire = (case Packet_wireDecode Block_default wire of (None, p) \<Rightarrow> Inr p | (Some err, _) \<Rightarrow> Inl err)"

section \<open>The order of fields\<close>

lemma FieldSet_eq:
  "FieldSet = [(lp_Fragment, False, Fragment), (lp_Sequence, False, Header), (lp_FragIndex, False, Header), (lp_FragCount, False, Header),
     (lp_Nack, False, Header), (lp_NextHopFaceId, False, Header), (lp_CachePolicy, False, Header), (lp_IncomingFaceId, False, Header)]"
  by (simp add: FieldSet_def field_summary_def FragmentField_def SequenceField_def FragIndexField_def FragCountField_def NackField_def
      NextHopFaceIdField_def CachePolicyField_def IncomingFaceIdField_def uint64_field_def FieldDecl_def)

definition recognized :: "u32 \<Rightarrow> bool" where
  "recognized t \<longleftrightarrow> t \<in> fst ` set FieldSet"

definition accepted :: "u32 \<Rightarrow> bool" where
  "accepted t \<longleftrightarrow> recognized t \<or> HEADER3_MIN \<le> t \<and> t \<le> HEADER3_MAX \<and> and t 1 = 1"

lemma ExtractFieldInfo_step:
  "fi_tlvType (ExtractFieldInfo s info) = fi_tlvType info"
  "fi_isRecognized (ExtractFieldInfo s info) \<longleftrightarrow> fi_isRecognized info \<or> fst s = fi_tlvType info"
  "\<not> fst (snd s) \<Longrightarrow> \<not> fi_isRepeatable info \<Longrightarrow> \<not> fi_isRepeatable (ExtractFieldInfo s info)"
  "\<not> fi_canIgnore info \<Longrightarrow> \<not> fi_canIgnore (ExtractFieldInfo s info)"
  by (auto simp: ExtractFieldInfo_def split: prod.split)

lemma ExtractFieldInfo_fold:
  assumes "\<forall>s \<in> set fs. \<not> fst (snd s)" "fi_isRepeatable info = False"
  shows "fi_tlvType (fold ExtractFieldInfo fs info) = fi_tlvType info" "\<not> fi_isRepeatable (fold ExtractFieldInfo fs info)"
    "fi_isRecognized (fold ExtractFieldInfo fs info) \<longleftrightarrow> fi_isRecognized info \<or> fi_tlvType info \<in> fst ` set fs"
    "fi_canIgnore info = False \<Longrightarrow> \<not> fi_canIgnore (fold ExtractFieldInfo fs info)"
  using assms by (induction fs arbitrary: info) (auto simp: ExtractFieldInfo_step simp del: split_paired_All split_paired_Ex)

lemma FieldInfo_simps [simp]:
  "fi_tlvType (FieldInfo t) = t" "\<not> fi_isRepeatable (FieldInfo t)"
  "fi_isRecognized (FieldInfo t) \<longleftrightarrow> recognized t" "fi_canIgnore (FieldInfo t) \<longleftrightarrow> accepted t \<and> \<not> recognized t"
proof -
  let ?info = "\<lparr>fi_tlvType = t, fi_isRecognized = False, fi_canIgnore = False, fi_isRepeatable = False, fi_locationSortOrder = getLocationSortOrder Header\<rparr>"
  have "\<forall>s \<in> set FieldSet. \<not> fst (snd s)" by (simp add: FieldSet_eq)
  note fold = ExtractFieldInfo_fold [OF this, of ?info, simplified]
  show "fi_tlvType (FieldInfo t) = t" "\<not> fi_isRepeatable (FieldInfo t)"
    "fi_isRecognized (FieldInfo t) \<longleftrightarrow> recognized t" "fi_canIgnore (FieldInfo t) \<longleftrightarrow> accepted t \<and> \<not> recognized t"
    using fold by (auto simp: FieldInfo_def Let_def recognized_def accepted_def)
qed

lemma FieldInfo_location [simp]: "fi_locationSortOrder (FieldInfo t) = (if t = lp_Fragment then 2 else 1)"
proof (cases "t = lp_Fragment")
  case True
  then show ?thesis by (simp add: FieldInfo_def FieldSet_eq ExtractFieldInfo_def getLocationSortOrder_def Let_def lp_codes)
next
  case False
  have "\<forall>s \<in> set fs. snd (snd s) = Fragment \<longrightarrow> fst s \<noteq> fi_tlvType info \<Longrightarrow> fi_locationSortOrder info = 1
    \<Longrightarrow> fi_locationSortOrder (fold ExtractFieldInfo fs info) = 1" for fs info
    by (induction fs arbitrary: info) (auto simp: ExtractFieldInfo_def getLocationSortOrder_def split: field_location.split)
  from this [of FieldSet] show ?thesis using False by (simp add: FieldInfo_def FieldSet_eq getLocationSortOrder_def Let_def)
qed

text \<open>Header fields by their type, then the fragment.\<close>

definition field_less :: "u32 \<Rightarrow> u32 \<Rightarrow> bool" where
  "field_less t u \<longleftrightarrow> (t = lp_Fragment, t) < (u = lp_Fragment, u)"

lemma compareFieldSortOrder_less [simp]: "compareFieldSortOrder (FieldInfo t) (FieldInfo u) \<longleftrightarrow> field_less t u"
  by (auto simp: compareFieldSortOrder_def field_less_def less_prod_def)

lemma field_less_order:
  "\<not> field_less t t" "field_less t u \<Longrightarrow> field_less u v \<Longrightarrow> field_less t v" "t \<noteq> u \<Longrightarrow> field_less t u \<or> field_less u t"
  unfolding field_less_def by (auto dest: less_trans simp: less_prod_def)

lemma field_less_trans: "transp field_less"
  using field_less_order(2) by (auto intro: transpI)

lemma check_fields_prev:
  "check_fields (Some (FieldInfo t)) es = None
    \<longleftrightarrow> (\<forall>e \<in> set es. accepted (m_type e)) \<and> sorted_wrt field_less (t # map m_type es)"
proof (induction es arbitrary: t)
  case (Cons e es)
  have step: "sorted_wrt field_less (t # map m_type (e # es)) \<longleftrightarrow> field_less t (m_type e) \<and> sorted_wrt field_less (m_type e # map m_type es)"
    by (auto dest: field_less_order(2))
  show ?case unfolding step using Cons.IH [of "m_type e"] field_less_order(1) [of t] by (auto simp: Let_def accepted_def)
qed simp

lemma check_fields_iff:
  "check_fields None es = None \<longleftrightarrow> (\<forall>e \<in> set es. accepted (m_type e)) \<and> sorted_wrt field_less (map m_type es)"
  by (cases es) (auto simp: Let_def check_fields_prev accepted_def)

section \<open>The fields of a packet\<close>

definition lp_ok :: "lp_packet \<Rightarrow> bool" where
  "lp_ok q \<longleftrightarrow> parse q = (None, q) \<and> m_type q = lp_LpPacket \<and> check_fields None (m_subBlocks q) = None
     \<and> (\<forall>e \<in> set (m_subBlocks q). fresh e)"

text \<open>A packet, once parsed, has fields that \<open>wireDecode\<close> accepts.\<close>

definition lp_inv :: "lp_packet \<Rightarrow> bool" where
  "lp_inv p \<longleftrightarrow> fst (parse p) = None \<and> lp_ok (snd (parse p))"

definition lp_fields :: "lp_packet \<Rightarrow> (u32 \<times> byte list) list" where
  "lp_fields p = map type_value (m_subBlocks (snd (parse p)))"

definition lp_map :: "lp_packet \<Rightarrow> u32 \<Rightarrow> byte list option" where
  "lp_map p = map_of (lp_fields p)"

lemma lp_invE:
  assumes "lp_inv p"
  obtains q where "parse p = (None, q)" "lp_ok q" "lp_fields p = map type_value (m_subBlocks q)" "parse q = (None, q)" "lp_inv q"
    "lp_fields q = lp_fields p"
proof -
  obtain q where q: "parse p = (None, q)" "lp_ok q" using assms by (cases "parse p") (auto simp: lp_inv_def)
  then have "parse q = (None, q)" by (simp add: lp_ok_def)
  with q show thesis using that by (simp add: lp_inv_def lp_fields_def)
qed

lemma lp_ok_types: "lp_ok q \<Longrightarrow> sorted_wrt field_less (map m_type (m_subBlocks q))"
  by (simp add: lp_ok_def check_fields_iff)

lemma sorted_fields_distinct: "sorted_wrt field_less ts \<Longrightarrow> distinct ts"
  by (induction ts) (auto simp: field_less_order(1))

lemma parse_modified [simp]: "parse (with_subBlocks (resetWire p) es) = (None, with_subBlocks (resetWire p) es)"
  by (simp add: parse_def with_subBlocks_def resetWire_def value_size_def)

lemma modified_simps [simp]:
  "m_subBlocks (with_subBlocks (resetWire p) es) = es" "m_type (with_subBlocks (resetWire p) es) = m_type p"
  "\<not> hasWire (with_subBlocks (resetWire p) es)"
  by (simp_all add: with_subBlocks_def resetWire_def hasWire_def)

lemma lp_inv_modified:
  assumes "lp_ok q" "\<forall>e \<in> set es. fresh e \<and> accepted (m_type e)" "sorted_wrt field_less (map m_type es)"
  shows "lp_inv (with_subBlocks (resetWire q) es)" "lp_fields (with_subBlocks (resetWire q) es) = map type_value es"
  using assms by (simp_all add: lp_inv_def lp_ok_def lp_fields_def check_fields_iff)

lemma fst_type_value [simp]: "fst (type_value e) = m_type e"
  by (simp add: type_value_def)

lemma dom_fields: "map_of (map type_value es) t = None \<longleftrightarrow> (\<forall>e \<in> set es. m_type e \<noteq> t)"
  by (induction es) (auto simp: type_value_def)

text \<open>With distinct types, an element is found by its type.\<close>

lemma unique_field:
  assumes "distinct (map m_type es)" "e \<in> set es"
  shows "filter (\<lambda>b. m_type b = m_type e) es = [e]" "map_of (map type_value es) (m_type e) = Some (value_bytes e)"
  using assms by (induction es) (force simp: type_value_def filter_empty_conv image_iff)+

lemma get_loop_filter: "get_loop F index count es =
    (let fs = filter (\<lambda>b. m_type b = fd_type F) es
     in if index < count \<or> count + length fs \<le> index then Inl (OutOfRange ''Index out of range'') else fd_decode F (fs ! (index - count)))"
proof (induction es arbitrary: count)
  case (Cons e es)
  show ?case using Cons.IH [of count] Cons.IH [of "count + 1"] by (auto simp: Let_def nth_Cons' not_less)
qed auto

lemma insert_sorted_field:
  assumes "sorted_wrt field_less (map m_type es)" "\<forall>e \<in> set es. m_type e \<noteq> m_type b"
  shows "sorted_wrt field_less (map m_type (take (field_lower_bound es (m_type b)) es @ b # drop (field_lower_bound es (m_type b)) es))"
  using assms
proof (induction es)
  case (Cons e es)
  show ?case
  proof (cases "field_less (m_type e) (m_type b)")
    case True
    then show ?thesis using Cons True by (auto simp: field_lower_bound_def comparePos_def dest: in_set_takeD in_set_dropD)
  next
    case False
    then have "field_less (m_type b) (m_type e)" using Cons.prems(2) field_less_order(3) by (metis list.set_intros(1))
    then show ?thesis using Cons.prems(1) False field_less_order(2) by (auto simp: field_lower_bound_def comparePos_def)
  qed
qed (simp add: field_lower_bound_def)

lemma map_of_insert_mid: "k \<notin> fst ` set xs \<Longrightarrow> map_of (xs @ (k, v) # ys) = (map_of (xs @ ys))(k \<mapsto> v)"
  by (induction xs) (auto simp: fun_eq_iff)

text \<open>
  The contract of a field declaration: it is in the set of fields, a value in \<open>good\<close> is encoded as an element with the value \<open>val_of\<close>, and
  from such an element a value is decoded that looks the same.
\<close>

definition field_laws :: "'v field_decl \<Rightarrow> ('v \<Rightarrow> byte list) \<Rightarrow> ('v \<Rightarrow> bool) \<Rightarrow> ('v \<Rightarrow> 'a) \<Rightarrow> bool" where
  "field_laws F val_of good look \<longleftrightarrow>
     field_summary F \<in> set FieldSet
     \<and> (\<forall>v. good v \<longrightarrow> encode_block (fd_estimate F v) (fd_encode F v) = Inr (tlv_block (fd_type F) (val_of v))
          \<and> length (tlv_bytes (fd_type F) (val_of v)) < 2 ^ 32)
     \<and> (\<forall>b v. good v \<longrightarrow> fresh b \<longrightarrow> type_value b = (fd_type F, val_of v) \<longrightarrow> (\<exists>w. fd_decode F b = Inr w \<and> look w = look v))"

locale lp_field =
  fixes F :: "'v field_decl" and val_of :: "'v \<Rightarrow> byte list" and good :: "'v \<Rightarrow> bool" and look :: "'v \<Rightarrow> 'a"
  assumes laws: "field_laws F val_of good look"
begin

lemma recognized: "recognized (fd_type F)" "\<not> fd_repeatable F"
proof -
  have "(fd_type F, fd_repeatable F, fd_location F) \<in> set FieldSet" using laws by (simp add: field_laws_def field_summary_def)
  then show "recognized (fd_type F)" unfolding recognized_def by (metis fst_conv image_eqI)
  have "\<forall>s \<in> set FieldSet. \<not> fst (snd s)" by (simp add: FieldSet_eq)
  with \<open>(fd_type F, fd_repeatable F, fd_location F) \<in> set FieldSet\<close> show "\<not> fd_repeatable F" by force
qed

lemma encodes: "good v \<Longrightarrow> encode_block (fd_estimate F v) (fd_encode F v) = Inr (tlv_block (fd_type F) (val_of v))"
  "good v \<Longrightarrow> fresh (tlv_block (fd_type F) (val_of v))"
proof -
  assume "good v"
  then have enc: "encode_block (fd_estimate F v) (fd_encode F v) = Inr (tlv_block (fd_type F) (val_of v))"
    and len: "length (tlv_bytes (fd_type F) (val_of v)) < 2 ^ 32" using laws by (auto simp: field_laws_def)
  show "encode_block (fd_estimate F v) (fd_encode F v) = Inr (tlv_block (fd_type F) (val_of v))" by (rule enc)
  have "length (tlv_bytes (fd_type F) (val_of v)) < 2 ^ 64" using len by (simp del: length_tlv_bytes)
  with len show "fresh (tlv_block (fd_type F) (val_of v))" by (simp del: length_tlv_bytes)
qed

lemma Packet_has_eq:
  assumes "lp_inv p"
  shows "\<exists>q. Packet_has F p = (Inr (lp_map p (fd_type F) \<noteq> None), q) \<and> parse p = (None, q)"
proof -
  obtain q where q: "parse p = (None, q)" "lp_fields p = map type_value (m_subBlocks q)" using lp_invE [OF assms] by metis
  then show ?thesis
    by (auto simp: Packet_has_def Packet_count_def lp_map_def dom_fields filter_empty_conv)
qed

lemma add_absent:
  assumes "lp_inv p" "lp_map p (fd_type F) = None" "good v"
  shows "\<exists>p'. Packet_add F v p = (None, p') \<and> lp_inv p' \<and> lp_map p' = (lp_map p)(fd_type F \<mapsto> val_of v) \<and> \<not> hasWire p'"
proof -
  obtain q where q: "parse p = (None, q)" "lp_ok q" "lp_fields p = map type_value (m_subBlocks q)" using lp_invE [OF assms(1)] by metis
  let ?b = "tlv_block (fd_type F) (val_of v)" and ?es = "m_subBlocks q"
  let ?n = "field_lower_bound ?es (fd_type F)"
  let ?new = "take ?n ?es @ ?b # drop ?n ?es"
  have add: "Packet_add F v p = (None, with_subBlocks (resetWire q) ?new)"
    using Packet_has_eq [OF assms(1)] q(1) recognized(2) encodes(1) [OF assms(3)] assms(2) by (auto simp: Packet_add_def Block_insert_def field_lower_bound_le)
  have absent: "\<forall>e \<in> set ?es. m_type e \<noteq> fd_type F" using assms(2) q(3) by (simp add: lp_map_def dom_fields)
  have sorted: "sorted_wrt field_less (map m_type ?new)"
    using insert_sorted_field [OF lp_ok_types [OF q(2)], of ?b] absent by simp
  have parts: "set ?new = insert ?b (set ?es)"
    using set_append [of "take ?n ?es" "drop ?n ?es"] by (simp only: append_take_drop_id) auto
  have "\<forall>e \<in> set ?new. fresh e \<and> accepted (m_type e)"
    unfolding parts using q(2) encodes(2) [OF assms(3)] recognized(1) by (auto simp: lp_ok_def check_fields_iff accepted_def)
  note inv = lp_inv_modified [OF q(2) this sorted]
  have "map_of (map type_value ?new) = (map_of (map type_value ?es))(fd_type F \<mapsto> val_of v)"
  proof -
    let ?xs = "map type_value (take ?n ?es)" and ?ys = "map type_value (drop ?n ?es)"
    have "fd_type F \<notin> fst ` set ?xs" using absent by (auto dest: in_set_takeD)
    from map_of_insert_mid [OF this, of "val_of v" ?ys] show ?thesis
      unfolding map_append [symmetric] append_take_drop_id by (simp add: type_value_def)
  qed
  with add inv q(3) show ?thesis by (auto simp: lp_map_def)
qed

end
context lp_field
begin

lemma add_present:
  assumes "lp_inv p" "lp_map p (fd_type F) \<noteq> None"
  shows "\<exists>q. Packet_add F v p = (Some (LengthError ''Field cannot be repeated''), q) \<and> lp_inv q \<and> lp_map q = lp_map p"
proof -
  obtain q where q: "parse p = (None, q)" "lp_inv q" "lp_fields q = lp_fields p" using lp_invE [OF assms(1)] by metis
  then show ?thesis using Packet_has_eq [OF assms(1)] recognized(2) assms(2) by (auto simp: Packet_add_def lp_map_def)
qed

lemma clear_eq:
  assumes "lp_inv p"
  shows "\<exists>p'. Packet_clear F p = (None, p') \<and> lp_inv p' \<and> lp_map p' = (lp_map p)(fd_type F := None) \<and> \<not> hasWire p'"
proof -
  obtain q where q: "parse p = (None, q)" "lp_ok q" "lp_fields p = map type_value (m_subBlocks q)" using lp_invE [OF assms] by metis
  let ?es = "filter (\<lambda>b. m_type b \<noteq> fd_type F) (m_subBlocks q)"
  have "sorted_wrt field_less (map m_type ?es)"
    using lp_ok_types [OF q(2)] sorted_wrt_filter [of field_less "map m_type (m_subBlocks q)" "\<lambda>t. t \<noteq> fd_type F"]
    by (simp add: filter_map comp_def)
  moreover have "\<forall>e \<in> set ?es. fresh e \<and> accepted (m_type e)" using q(2) by (auto simp: lp_ok_def check_fields_iff)
  ultimately have inv: "lp_inv (with_subBlocks (resetWire q) ?es)" "lp_fields (with_subBlocks (resetWire q) ?es) = map type_value ?es"
    using lp_inv_modified [OF q(2)] by simp_all
  have "map_of (map type_value (filter (\<lambda>b. m_type b \<noteq> t) es)) = (map_of (map type_value es))(t := None)" for t es
    by (induction es) (auto simp: fun_eq_iff type_value_def)
  then show ?thesis using inv q(1,3) by (simp add: Packet_clear_def Block_remove_def lp_map_def)
qed

lemma set_eq:
  assumes "lp_inv p" "good v"
  shows "\<exists>p'. Packet_set F v p = (None, p') \<and> lp_inv p' \<and> lp_map p' = (lp_map p)(fd_type F \<mapsto> val_of v) \<and> \<not> hasWire p'"
proof -
  obtain p1 where p1: "Packet_clear F p = (None, p1)" "lp_inv p1" "lp_map p1 = (lp_map p)(fd_type F := None)" using clear_eq [OF assms(1)] by blast
  with add_absent [OF p1(2) _ assms(2)] show ?thesis by (auto simp: Packet_set_def)
qed

lemma get_eq:
  assumes "lp_inv p" "lp_map p (fd_type F) = Some (val_of v)" "good v"
  shows "\<exists>w q. Packet_get F 0 p = (Inr w, q) \<and> look w = look v \<and> lp_inv q \<and> lp_map q = lp_map p"
proof -
  obtain q where q: "parse p = (None, q)" "lp_ok q" "lp_fields p = map type_value (m_subBlocks q)" "lp_inv q" "lp_fields q = lp_fields p"
    using lp_invE [OF assms(1)] by metis
  have "(fd_type F, val_of v) \<in> set (map type_value (m_subBlocks q))" using assms(2) q(3) map_of_SomeD unfolding lp_map_def by metis
  then obtain e where e: "e \<in> set (m_subBlocks q)" "type_value e = (fd_type F, val_of v)" by auto
  have "m_type e = fd_type F" using e(2) by (simp add: type_value_def)
  then have "filter (\<lambda>b. m_type b = fd_type F) (m_subBlocks q) = [e]"
    using unique_field(1) [OF sorted_fields_distinct [OF lp_ok_types [OF q(2)]] e(1)] by simp
  moreover have "fresh e" using e(1) q(2) by (auto simp: lp_ok_def)
  then obtain w where "fd_decode F e = Inr w" "look w = look v" using laws assms(3) e(2) unfolding field_laws_def by blast
  ultimately show ?thesis using q(1,4,5) by (simp add: Packet_get_def get_loop_filter lp_map_def)
qed

lemma few_fields:
  assumes "lp_ok q" "map_of (map type_value (m_subBlocks q)) (fd_type F) = None \<or> 0 < index"
  shows "length (filter (\<lambda>b. m_type b = fd_type F) (m_subBlocks q)) \<le> index"
proof (cases "\<exists>e \<in> set (m_subBlocks q). m_type e = fd_type F")
  case True
  then obtain e where e: "e \<in> set (m_subBlocks q)" "m_type e = fd_type F" by blast
  then have "0 < index" using assms(2) by (auto simp: dom_fields)
  then show ?thesis using unique_field(1) [OF sorted_fields_distinct [OF lp_ok_types [OF assms(1)]] e(1)] e(2) by simp
qed (simp add: filter_empty_conv)

lemma get_absent:
  assumes "lp_inv p" "lp_map p (fd_type F) = None \<or> 0 < index"
  shows "\<exists>q. Packet_get F index p = (Inl (OutOfRange ''Index out of range''), q) \<and> lp_inv q \<and> lp_map q = lp_map p"
proof -
  obtain q where q: "parse p = (None, q)" "lp_ok q" "lp_fields p = map type_value (m_subBlocks q)" "lp_inv q" "lp_fields q = lp_fields p"
    using lp_invE [OF assms(1)] by metis
  then show ?thesis using few_fields [OF q(2), of index] assms(2) by (simp add: Packet_get_def get_loop_filter lp_map_def)
qed

lemma nth_of_type_None: "length (filter (\<lambda>b. m_type b = t) es) \<le> index \<Longrightarrow> nth_of_type t index es = None"
  by (induction t index es rule: nth_of_type.induct) (auto split: nat.split)

lemma nth_of_type_0:
  "nth_of_type t 0 es = (if \<forall>e \<in> set es. m_type e \<noteq> t then None else Some (length (takeWhile (\<lambda>b. m_type b \<noteq> t) es)))"
  by (induction es) auto

lemma remove_eq:
  assumes "lp_inv p" "lp_map p (fd_type F) \<noteq> None"
  shows "\<exists>p'. Packet_remove F 0 p = (None, p') \<and> lp_inv p' \<and> lp_map p' = (lp_map p)(fd_type F := None)"
proof -
  obtain q where q: "parse p = (None, q)" "lp_ok q" "lp_fields p = map type_value (m_subBlocks q)" using lp_invE [OF assms(1)] by metis
  have erase: "take i es @ drop (Suc i) es = filter (\<lambda>b. m_type b \<noteq> t) es"
    if "distinct (map m_type es)" "\<exists>e \<in> set es. m_type e = t" "i = length (takeWhile (\<lambda>b. m_type b \<noteq> t) es)" for i es t
    using that
  proof (induction es arbitrary: i)
    case (Cons e es)
    then show ?case by (cases "m_type e = t") (auto simp: eq_commute [of es] filter_id_conv image_iff)
  qed simp
  have "\<exists>e \<in> set (m_subBlocks q). m_type e = fd_type F" using assms(2) q(3) by (auto simp: lp_map_def dom_fields)
  then have "Packet_remove F 0 p = Packet_clear F p"
    using erase [OF sorted_fields_distinct [OF lp_ok_types [OF q(2)]]] q(1)
      length_takeWhile_exists [of "m_subBlocks q" "\<lambda>b. m_type b \<noteq> fd_type F"]
    by (auto simp: Packet_remove_def Packet_clear_def nth_of_type_0 Block_erase_def Block_remove_def)
  then show ?thesis using clear_eq [OF assms(1)] by auto
qed

lemma remove_absent:
  assumes "lp_inv p" "lp_map p (fd_type F) = None \<or> 0 < index"
  shows "\<exists>q. Packet_remove F index p = (Some (OutOfRange ''Index out of range''), q) \<and> lp_inv q \<and> lp_map q = lp_map p"
proof -
  obtain q where q: "parse p = (None, q)" "lp_ok q" "lp_fields p = map type_value (m_subBlocks q)" "lp_inv q" "lp_fields q = lp_fields p"
    using lp_invE [OF assms(1)] by metis
  then show ?thesis using nth_of_type_None [OF few_fields [OF q(2), of index]] assms(2) by (simp add: Packet_remove_def lp_map_def)
qed

end

section \<open>The declared fields\<close>

lemma small_tlv: "length v < 2 ^ 32 - 18 \<Longrightarrow> length (tlv_bytes t v) < 2 ^ 32"
  by (simp add: sizeOfVarNumber_def)

lemma small_nni: "length (nni_bytes n) \<le> 8"
  by (simp add: nni_bytes_def Let_def)

context encoding_impl
begin

lemma encode_uint64_emits: "emitterE emits (encode_uint64 ops t n) (tlv_bytes t (nni_bytes n))"
  using prependNonNegativeIntegerBlock_emits [of t n] by (auto simp: emitterE_def encode_uint64_def)

lemma encode_range_emits:
  assumes "\<And>bs. emitter emits (\<lambda>e. prepend e bs) bs"
  shows "emitterE emits (encode_range prepend ops t v) (tlv_bytes t v)"
proof -
  have "list_all2 (\<lambda>f g. \<forall>n. emitterE emits (f n) (g n)) ([\<lambda>_ e. Inr (prepend e v)] @ header_steps ops t)
    [\<lambda>_. v, \<lambda>n. varNumber_bytes (of_nat n), \<lambda>_. varNumber_bytes (ucast t)]"
    using assms varNumber by (simp add: header_steps_def emitterE_Inr)
  from run_stepsE_emits [OF this] show ?thesis by (simp add: encode_range_def steps_bytes_3 tlv_bytes_def)
qed

end

lemma prependRange_emits: "emitter enc_emits (\<lambda>e. prependRange e bs) bs" "emitter est_emits (\<lambda>e. (est_prependRange bs, e)) bs"
proof -
  have "prependRange = prependByteArray" by (simp add: fun_eq_iff prependRange_def prependByteArray_def)
  then show "emitter enc_emits (\<lambda>e. prependRange e bs) bs" using prependByteArray_emits by simp
  show "emitter est_emits (\<lambda>e. (est_prependRange bs, e)) bs" by (simp add: emitter_def est_emits_def est_prependRange_def)
qed

lemma uint64_field_laws:
  assumes "(t, False, Header) \<in> set FieldSet"
  shows "field_laws (uint64_field t) nni_bytes (\<lambda>_. True) id"
  unfolding field_laws_def
proof (intro conjI allI impI, goal_cases)
  case 1
  then show ?case using assms by (simp add: uint64_field_def FieldDecl_def field_summary_def)
next
  case (2 n)
  show ?case using encode_block_eq [OF estimator.encode_uint64_emits encoder.encode_uint64_emits]
    by (simp add: uint64_field_def FieldDecl_def)
next
  case (3 n)
  have "length (nni_bytes n) < 2 ^ 32 - 18" using small_nni [of n] by simp
  then show ?case by (rule small_tlv)
next
  case (4 b n)
  then show ?case using read_element [of b "fd_type (uint64_field t)" n]
    by (simp add: uint64_field_def FieldDecl_def fresh_def type_value_def)
qed

interpretation sequence_field: lp_field SequenceField nni_bytes "\<lambda>_. True" id
  by unfold_locales (simp add: SequenceField_def uint64_field_laws FieldSet_eq)

interpretation fragIndex_field: lp_field FragIndexField nni_bytes "\<lambda>_. True" id
  by unfold_locales (simp add: FragIndexField_def uint64_field_laws FieldSet_eq)

interpretation fragCount_field: lp_field FragCountField nni_bytes "\<lambda>_. True" id
  by unfold_locales (simp add: FragCountField_def uint64_field_laws FieldSet_eq)

interpretation nextHopFaceId_field: lp_field NextHopFaceIdField nni_bytes "\<lambda>_. True" id
  by unfold_locales (simp add: NextHopFaceIdField_def uint64_field_laws FieldSet_eq)

interpretation incomingFaceId_field: lp_field IncomingFaceIdField nni_bytes "\<lambda>_. True" id
  by unfold_locales (simp add: IncomingFaceIdField_def uint64_field_laws FieldSet_eq)

lemma small_number_value: "length (number_value t n) < 2 ^ 32 - 18"
  using small_nni [of "ucast n"] by (simp add: number_value_def sizeOfVarNumber_def)

lemma NackField_laws: "field_laws NackField (\<lambda>h. number_value lp_NackReason (nh_reason h)) (\<lambda>_. True) nh_reason"
  unfolding field_laws_def
proof (intro conjI allI impI, goal_cases)
  case 1
  then show ?case by (simp add: FieldSet_def)
next
  case (2 h)
  show ?case using encode_block_eq [OF estimator.NackHeader_wireEncode_to_emits encoder.NackHeader_wireEncode_to_emits]
    by (simp add: NackField_def FieldDecl_def)
next
  case (3 h)
  show ?case by (rule small_tlv [OF small_number_value])
next
  case (4 b h)
  then show ?case using NackHeader_wireDecode_fresh [of b "nh_reason h" NackHeader_default]
    by (auto simp: NackField_def FieldDecl_def decode_object_def type_value_def)
qed

lemma CachePolicyField_laws:
  "field_laws CachePolicyField (\<lambda>c. number_value lp_CachePolicyType (cp_policy c)) (\<lambda>c. cp_policy c = CachePolicyType_NO_CACHE) cp_policy"
  unfolding field_laws_def
proof (intro conjI allI impI, goal_cases)
  case 1
  then show ?case by (simp add: FieldSet_def)
next
  case (2 c)
  then show ?case using encode_block_eq [OF estimator.CachePolicy_wireEncode_to_emits [of c] encoder.CachePolicy_wireEncode_to_emits [of c]]
    by (simp add: CachePolicyField_def FieldDecl_def cache_policies)
next
  case (3 c)
  show ?case by (rule small_tlv [OF small_number_value])
next
  case (4 b c)
  then show ?case using CachePolicy_wireDecode_fresh [of b "cp_policy c" CachePolicy_default]
    by (auto simp: CachePolicyField_def FieldDecl_def decode_object_def type_value_def)
qed

definition good_fragment :: "byte list \<Rightarrow> bool" where
  "good_fragment v \<longleftrightarrow> v \<noteq> [] \<and> length v < 2 ^ 32 - 18"

lemma FragmentField_laws: "field_laws FragmentField id good_fragment id"
  unfolding field_laws_def
proof (intro conjI allI impI, goal_cases)
  case 1
  then show ?case by (simp add: FieldSet_def)
next
  case (2 v)
  show ?case using encode_block_eq [OF estimator.encode_range_emits [OF prependRange_emits(2)] encoder.encode_range_emits [OF prependRange_emits(1)]]
    by (simp add: FragmentField_def FieldDecl_def)
next
  case (3 v)
  then show ?case using small_tlv [of v] by (simp add: good_fragment_def)
next
  case (4 b v)
  then show ?case using value_size_wf [of b]
    by (auto simp: FragmentField_def FieldDecl_def decode_range_def type_value_def good_fragment_def fresh_def)
qed

interpretation nack_field: lp_field NackField "\<lambda>h. number_value lp_NackReason (nh_reason h)" "\<lambda>_. True" nh_reason
  by unfold_locales (rule NackField_laws)

interpretation cachePolicy_field: lp_field CachePolicyField "\<lambda>c. number_value lp_CachePolicyType (cp_policy c)"
  "\<lambda>c. cp_policy c = CachePolicyType_NO_CACHE" cp_policy
  by unfold_locales (rule CachePolicyField_laws)

interpretation fragment_field: lp_field FragmentField id good_fragment id
  by unfold_locales (rule FragmentField_laws)

section \<open>Properties\<close>

text \<open>
  C21. A packet implements a partial map from field types to values: for every declared field (one with the laws of the eight declarations), each
  operation on a packet whose fields are in the order and multiplicity that \<open>wireDecode\<close> accepts keeps them so and acts as the operation on the map, and
  \<open>add\<close> of a present field, \<open>get\<close> and \<open>remove\<close> of an absent one throw and change nothing.
\<close>

theorem lp_packet_refines_map:
  assumes "field_laws F val_of good look" "lp_inv p"
  shows "(\<exists>q. Packet_has F p = (Inr (lp_map p (fd_type F) \<noteq> None), q) \<and> lp_inv q \<and> lp_map q = lp_map p)
    \<and> (good v \<longrightarrow> (\<exists>q. Packet_add F v p
          = (if lp_map p (fd_type F) = None then None else Some (LengthError ''Field cannot be repeated''), q)
          \<and> lp_inv q \<and> lp_map q = (if lp_map p (fd_type F) = None then (lp_map p)(fd_type F \<mapsto> val_of v) else lp_map p)))
    \<and> (good v \<longrightarrow> (\<exists>q. Packet_set F v p = (None, q) \<and> lp_inv q \<and> lp_map q = (lp_map p)(fd_type F \<mapsto> val_of v)))
    \<and> (\<exists>q. Packet_clear F p = (None, q) \<and> lp_inv q \<and> lp_map q = (lp_map p)(fd_type F := None))
    \<and> (\<exists>q. Packet_remove F index p
          = (if index = 0 \<and> lp_map p (fd_type F) \<noteq> None then None else Some (OutOfRange ''Index out of range''), q)
          \<and> lp_inv q \<and> lp_map q = (if index = 0 then (lp_map p)(fd_type F := None) else lp_map p))
    \<and> (good v \<and> lp_map p (fd_type F) = Some (val_of v) \<longrightarrow>
         (\<exists>w q. Packet_get F 0 p = (Inr w, q) \<and> look w = look v \<and> lp_inv q \<and> lp_map q = lp_map p))
    \<and> (lp_map p (fd_type F) = None \<or> 0 < index \<longrightarrow>
         (\<exists>q. Packet_get F index p = (Inl (OutOfRange ''Index out of range''), q) \<and> lp_inv q \<and> lp_map q = lp_map p))"
proof -
  note F = lp_field.intro [OF assms(1)]
  have has: "\<exists>q. Packet_has F p = (Inr (lp_map p (fd_type F) \<noteq> None), q) \<and> lp_inv q \<and> lp_map q = lp_map p"
    using lp_field.Packet_has_eq [OF F assms(2)] lp_invE [OF assms(2)] by (metis lp_map_def prod.inject)
  have remove: "\<exists>q. Packet_remove F index p
          = (if index = 0 \<and> lp_map p (fd_type F) \<noteq> None then None else Some (OutOfRange ''Index out of range''), q)
          \<and> lp_inv q \<and> lp_map q = (if index = 0 then (lp_map p)(fd_type F := None) else lp_map p)"
    using lp_field.remove_eq [OF F assms(2)] lp_field.remove_absent [OF F assms(2), of index]
    by (cases "index = 0 \<and> lp_map p (fd_type F) \<noteq> None") (auto simp: fun_upd_idem)
  have add: "\<exists>q. Packet_add F v p
          = (if lp_map p (fd_type F) = None then None else Some (LengthError ''Field cannot be repeated''), q)
          \<and> lp_inv q \<and> lp_map q = (if lp_map p (fd_type F) = None then (lp_map p)(fd_type F \<mapsto> val_of v) else lp_map p)" if "good v"
    using lp_field.add_absent [OF F assms(2) _ that] lp_field.add_present [OF F assms(2), of v]
    by (cases "lp_map p (fd_type F) = None") auto
  show ?thesis
    using has remove add lp_field.set_eq [OF F assms(2), of v] lp_field.clear_eq [OF F assms(2)] lp_field.get_eq [OF F assms(2), of v]
      lp_field.get_absent [OF F assms(2), of index] by blast
qed

lemma Packet_default_simps [simp]:
  "parse Packet_default = (None, Packet_default)" "m_subBlocks Packet_default = []" "m_type Packet_default = lp_LpPacket"
  by (simp_all add: Packet_default_def Block_ofType_def parse_def value_size_def hasValue_def)

lemma Packet_default_inv: "lp_ok Packet_default" "lp_inv Packet_default" "lp_map Packet_default = Map.empty"
  by (simp_all add: lp_inv_def lp_ok_def lp_fields_def lp_map_def)

lemma Packet_has_default: "Packet_has F Packet_default = (Inr False, Packet_default)"
  by (simp add: Packet_has_def Packet_count_def)

theorem lp_packet_refines_map_witness:
  "\<exists>p q w. Packet_set SequenceField 7 Packet_default = (None, p) \<and> lp_map p = [lp_Sequence \<mapsto> [7]]
     \<and> Packet_get SequenceField 0 p = (Inr w, q) \<and> w = 7"
proof -
  have t: "fd_type SequenceField = lp_Sequence" "nni_bytes 7 = [7]"
    by (simp_all add: SequenceField_def uint64_field_def FieldDecl_def nni_bytes_def)
  obtain p where p: "Packet_set SequenceField 7 Packet_default = (None, p)" "lp_inv p" "lp_map p = [lp_Sequence \<mapsto> nni_bytes 7]"
    using lp_packet_refines_map [OF sequence_field.laws Packet_default_inv(2), of 7 0] by (auto simp: Packet_default_inv(3) t(1))
  then obtain w q where "Packet_get SequenceField 0 p = (Inr w, q)" "w = 7"
    using lp_packet_refines_map [OF sequence_field.laws p(2), of 7 0] by (auto simp: t(1))
  with p show ?thesis using t(2) by auto
qed

lemma lp_decode_accepted:
  assumes "fresh w" "m_type w = lp_LpPacket" "value_bytes w = elements_bytes fs"
    and "\<forall>(t, _) \<in> set fs. accepted t" "sorted_wrt field_less (map fst fs)"
  shows "\<exists>q. Packet_wireDecode p0 w = (None, q) \<and> lp_ok q \<and> lp_inv q \<and> lp_fields q = fs \<and> parse w = (None, q)"
proof -
  obtain b where b: "parse w = (None, b)" "map type_value (m_subBlocks b) = fs" "\<forall>s \<in> set (m_subBlocks b). fresh s"
    "m_type b = m_type w" "parse b = (None, b)" using parse_fresh [OF assms(1,3)] by metis
  have "map m_type (m_subBlocks b) = map fst fs" "\<forall>e \<in> set (m_subBlocks b). accepted (m_type e)"
    using assms(4) by (auto simp: b(2) [symmetric] type_value_def)
  then have "check_fields None (m_subBlocks b) = None" using assms(5) by (simp add: check_fields_iff)
  then show ?thesis
    using b assms(2) by (auto simp: Packet_wireDecode_def lp_inv_def lp_ok_def lp_fields_def lp_codes tlv_codes)
qed

lemma lp_inv_parsed: "parse w = (None, q) \<Longrightarrow> lp_ok q \<Longrightarrow> lp_inv w" "parse w = (None, q) \<Longrightarrow> lp_ok q \<Longrightarrow> lp_fields w = lp_fields q"
  by (simp_all add: lp_inv_def lp_fields_def lp_ok_def)

lemma lp_ok_fields:
  assumes "lp_ok p"
  shows "lp_fields p = map type_value (m_subBlocks p)" "\<forall>(t, _) \<in> set (lp_fields p). accepted t" "sorted_wrt field_less (map fst (lp_fields p))"
  using assms by (auto simp: lp_ok_def lp_fields_def check_fields_iff type_value_def comp_def)

context encoding_impl
begin

lemma Packet_wireEncode_to_emits:
  assumes "\<not> hasWire p" "\<forall>e \<in> set (m_subBlocks p). canonical (m_type e) e"
  shows "emitterE emits (Packet_wireEncode_to ops p) (tlv_bytes lp_LpPacket (elements_bytes (map type_value (m_subBlocks p))))"
proof -
  have eq: "Packet_wireEncode_to ops p =
      run_stepsE (map (\<lambda>b _ e. Inr (op_prependBlock ops e b)) (rev (m_subBlocks p)) @ header_steps ops lp_LpPacket)"
    using assms(1) by (simp add: Packet_wireEncode_to_def fun_eq_iff)
  have "emitterE emits (\<lambda>e. Inr (op_prependBlock ops e b)) (tlv_bytes (m_type b) (value_bytes b))" if "b \<in> set (m_subBlocks p)" for b
    using block [of b] assms(2) that by (auto simp: canonical_def intro!: emitterE_Inr)
  then have "list_all2 (\<lambda>f (t, v). \<forall>n. emitterE emits (f n) (tlv_bytes t v))
      (map (\<lambda>b _ e. Inr (op_prependBlock ops e b)) (rev (m_subBlocks p))) (rev (map type_value (m_subBlocks p)))"
    by (simp add: rev_map list_all2_map1 list_all2_map2 list_all2_same type_value_def)
  then show ?thesis unfolding eq by (rule element_steps_emit)
qed

end

text \<open>
  C22. A packet with headers round-trips over the wire: it is encoded without an error, as the sequence of its fields, and decoding that into any packet gives a
  packet with the same fields. The packet has no cached wire, and its fields are elements in canonical form, as the setters make them.
\<close>

theorem lp_wire_roundtrip:
  assumes "lp_ok p" "\<not> hasWire p" "\<forall>e \<in> set (m_subBlocks p). canonical (m_type e) e"
    and "\<not> (\<exists>v. lp_fields p = [(lp_Fragment, v)])" "length (tlv_bytes lp_LpPacket (elements_bytes (lp_fields p))) < 2 ^ 64"
  shows "\<exists>w p' blk q. Packet_wireEncode p = Inr (w, p') \<and> wire_bytes w = tlv_bytes lp_LpPacket (elements_bytes (lp_fields p))
    \<and> lp_inv p' \<and> lp_fields p' = lp_fields p
    \<and> Block_whole (wire_bytes w) = Inr blk \<and> Packet_wireDecode p0 blk = (None, q) \<and> lp_inv q \<and> lp_fields q = lp_fields p"
proof -
  note fields = lp_ok_fields [OF assms(1)]
  let ?w = "tlv_block lp_LpPacket (elements_bytes (lp_fields p))"
  have "fd_type FragmentField = lp_Fragment" by (simp add: FragmentField_def FieldDecl_def)
  then have "\<not> (length (m_subBlocks p) = 1 \<and> m_type (hd (m_subBlocks p)) = fd_type FragmentField)"
    using assms(4) fields(1) by (auto simp: length_Suc_conv type_value_def)
  then have enc: "Packet_wireEncode p = Inr (?w, ?w)"
    using encode_block_eq [OF estimator.Packet_wireEncode_to_emits [OF assms(2,3)] encoder.Packet_wireEncode_to_emits [OF assms(2,3)]] assms(2) fields(1)
    by (auto simp: Packet_wireEncode_def)
  have "fresh ?w" using assms(5) by (simp del: length_tlv_bytes)
  then obtain q' where q': "parse ?w = (None, q')" "lp_ok q'" "lp_fields q' = lp_fields p"
    using lp_decode_accepted [OF _ _ _ fields(2,3), of ?w] by auto
  then have p': "lp_inv ?w" "lp_fields ?w = lp_fields p"
    using lp_inv_parsed [OF q'(1,2)] by (simp_all only:)
  obtain blk where blk: "Block_whole (tlv_bytes lp_LpPacket (elements_bytes (lp_fields p))) = Inr blk" "fresh blk"
    "type_value blk = (lp_LpPacket, elements_bytes (lp_fields p))" using Block_whole_tlv [OF assms(5)] .
  then obtain q where "Packet_wireDecode p0 blk = (None, q)" "lp_inv q" "lp_fields q = lp_fields p"
    using lp_decode_accepted [OF blk(2) _ _ fields(2,3), of p0] by (auto simp: type_value_def)
  with enc p' blk(1) show ?thesis by auto
qed


theorem lp_wire_roundtrip_witness:
  "\<exists>w p' blk q. Packet_wireEncode (snd (Packet_add SequenceField 7 Packet_default)) = Inr (w, p') \<and> wire_bytes w = [100, 3, 81, 1, 7]
     \<and> Block_whole (wire_bytes w) = Inr blk \<and> Packet_wireDecode Packet_default blk = (None, q) \<and> lp_fields q = [(lp_Sequence, [7])]"
proof -
  let ?p = "with_subBlocks (resetWire Packet_default) [tlv_block lp_Sequence (nni_bytes 7)]"
  have t: "fd_type SequenceField = lp_Sequence" "nni_bytes 7 = [7]"
    by (simp_all add: SequenceField_def uint64_field_def FieldDecl_def nni_bytes_def)
  have add: "snd (Packet_add SequenceField 7 Packet_default) = ?p"
    using sequence_field.encodes(1) [of 7] sequence_field.recognized(2) t(1)
    by (simp add: Packet_add_def Block_insert_def field_lower_bound_le Packet_has_default)
  have ok: "lp_ok ?p" "\<not> hasWire ?p" "\<forall>e \<in> set (m_subBlocks ?p). canonical (m_type e) e"
    using sequence_field.recognized(1) unfolding t
    by (simp_all add: lp_ok_def check_fields_iff accepted_def sizeOfVarNumber_def lp_codes)
  have fields: "lp_fields ?p = [(lp_Sequence, [7])]" using lp_ok_fields(1) [OF ok(1)] by (simp add: t type_value_def)
  have bytes: "tlv_bytes lp_LpPacket (elements_bytes (lp_fields ?p)) = [100, 3, 81, 1, 7]"
    unfolding fields by (simp add: tlv_bytes_def writeVarNumber_def lp_codes)
  have other: "\<not> (\<exists>v. lp_fields ?p = [(lp_Fragment, v)])" unfolding fields by (simp add: lp_codes)
  have "length (tlv_bytes lp_LpPacket (elements_bytes (lp_fields ?p))) < 2 ^ 64" unfolding bytes by simp
  from lp_wire_roundtrip [OF ok other this, of Packet_default] show ?thesis unfolding add bytes unfolding fields by blast
qed

text \<open>The inner packet of a lone fragment: what \<open>wireEncode()\<close> returns then.\<close>

lemma lone_fragment_encode:
  assumes "m_subBlocks p = [e]" "\<not> hasWire p" "fresh e" "type_value e = (lp_Fragment, elements_bytes ((t, elements_bytes es) # rest))"
  shows "\<exists>w. Packet_wireEncode p = Inr (w, p) \<and> type_value w = (t, elements_bytes es) \<and> hasWire w \<and> wf_block w
    \<and> wire_bytes w = tlv_bytes t (elements_bytes es)"
proof -
  have m: "m_type e = fd_type FragmentField" using assms(4) by (simp add: FragmentField_def FieldDecl_def type_value_def)
  have v: "value_bytes e = elements_bytes ((t, elements_bytes es) # rest)" using assms(4) by (simp add: type_value_def)
  from parse_fresh [OF assms(3) v] obtain b where b: "parse e = (None, b)"
    "map type_value (m_subBlocks b) = (t, elements_bytes es) # rest" "\<forall>s \<in> set (m_subBlocks b). fresh s" by metis
  then obtain pkt others where pkt: "m_subBlocks b = pkt # others" "type_value pkt = (t, elements_bytes es)" by (cases "m_subBlocks b") auto
  have bytes: "wire_bytes pkt = tlv_bytes t (elements_bytes es)" using parse_canonical [OF assms(3) v b(1)] pkt(1) by simp
  have "value_bytes pkt = elements_bytes es" using pkt(2) by (simp add: type_value_def)
  moreover have "fresh pkt" using b(3) pkt(1) by simp
  ultimately obtain w where "parse pkt = (None, w)" "m_type w = m_type pkt" "hasWire w" "wf_block w" "value_bytes w = value_bytes pkt"
    "wire_bytes w = wire_bytes pkt"
    using parse_fresh by metis
  with b(1) pkt m bytes show ?thesis using assms(1,2) by (auto simp: Packet_wireEncode_def type_value_def)
qed

text \<open>The packet with one field, the fragment that holds a network packet.\<close>

definition fragment_packet :: "byte list \<Rightarrow> lp_packet" where
  "fragment_packet v = with_subBlocks (resetWire Packet_default) [tlv_block lp_Fragment v]"

lemma fragment_packet_facts:
  assumes "good_fragment v"
  shows "Packet_add FragmentField v Packet_default = (None, fragment_packet v)" "lp_inv (fragment_packet v)"
    "lp_fields (fragment_packet v) = [(lp_Fragment, v)]" "fresh (tlv_block lp_Fragment v)"
proof -
  have type: "fd_type FragmentField = lp_Fragment" by (simp add: FragmentField_def FieldDecl_def)
  then show "Packet_add FragmentField v Packet_default = (None, fragment_packet v)"
    using fragment_field.encodes(1) [OF assms] fragment_field.recognized(2)
    by (auto simp: fragment_packet_def Packet_add_def Block_insert_def field_lower_bound_le Packet_has_default)
  show fresh: "fresh (tlv_block lp_Fragment v)" using fragment_field.encodes(2) [OF assms] type by simp
  have "accepted lp_Fragment" using fragment_field.recognized(1) type by (simp add: accepted_def)
  with fresh show "lp_inv (fragment_packet v)" "lp_fields (fragment_packet v) = [(lp_Fragment, v)]"
    using lp_inv_modified [OF Packet_default_inv(1), of "[tlv_block lp_Fragment v]"] by (auto simp: fragment_packet_def type_value_def)
qed

lemma fragment_packet_encode:
  assumes "good_fragment (tlv_bytes t (elements_bytes es))"
  shows "\<exists>w. Packet_wireEncode (fragment_packet (tlv_bytes t (elements_bytes es))) = Inr (w, fragment_packet (tlv_bytes t (elements_bytes es)))
    \<and> type_value w = (t, elements_bytes es) \<and> hasWire w \<and> wf_block w \<and> wire_bytes w = tlv_bytes t (elements_bytes es)"
  using lone_fragment_encode [of "fragment_packet (tlv_bytes t (elements_bytes es))" _ t es "[]"] fragment_packet_facts(4) [OF assms]
  by (auto simp: fragment_packet_def type_value_def)

lemma wire_range_eq: "hasWire w \<Longrightarrow> bindE (Block_begin w) (\<lambda>i. bindE (Block_end w) (\<lambda>j. Inr (chunk (buffer_of w) i j))) = Inr (wire_bytes w)"
  by (simp add: Block_begin_def Block_end_def wire_bytes_def)

lemma bare_packet_decode:
  assumes "fresh w" "m_type w = tlv_Interest \<or> m_type w = tlv_Data" "good_fragment (wire_bytes w)"
  shows "Packet_wireDecode p0 w = (None, fragment_packet (wire_bytes w))"
  using fragment_packet_facts(1) [OF assms(3)] wire_range_eq [of w] assms(1,2) by (auto simp: Packet_wireDecode_def fresh_def)

text \<open>
  An Interest or Data becomes a packet with the one field Fragment, which holds its wire, and such a packet is sent as the bare network packet: decoding and then
  encoding gives back a block with the same type and value.
\<close>

theorem lp_network_packet:
  assumes "fresh w" "type_value w = (t, elements_bytes es)" "t = tlv_Interest \<or> t = tlv_Data" "wire_bytes w = tlv_bytes t (elements_bytes es)"
    and "length (wire_bytes w) < 2 ^ 32 - 18"
  shows "\<exists>p w'. Packet_wireDecode p0 w = (None, p) \<and> lp_inv p \<and> lp_fields p = [(lp_Fragment, wire_bytes w)]
    \<and> Packet_wireEncode p = Inr (w', p) \<and> type_value w' = type_value w"
proof -
  have good: "good_fragment (wire_bytes w)" using assms(4,5) by (auto simp: good_fragment_def simp del: length_tlv_bytes)
  have "m_type w = t" using assms(2) by (simp add: type_value_def)
  then have "Packet_wireDecode p0 w = (None, fragment_packet (wire_bytes w))" using bare_packet_decode [OF assms(1) _ good] assms(3) by simp
  moreover obtain w' where "Packet_wireEncode (fragment_packet (wire_bytes w)) = Inr (w', fragment_packet (wire_bytes w))" "type_value w' = (t, elements_bytes es)"
    using fragment_packet_encode [of t es] good unfolding assms(4) by blast
  ultimately show ?thesis using fragment_packet_facts(2,3) [OF good] assms(2) by auto
qed

theorem lp_network_packet_witness:
  "\<exists>p w'. Packet_wireDecode Packet_default (tlv_block tlv_Data []) = (None, p) \<and> lp_fields p = [(lp_Fragment, [6, 0])]
     \<and> Packet_wireEncode p = Inr (w', p) \<and> type_value w' = (tlv_Data, [])"
proof -
  have b: "tlv_bytes tlv_Data [] = [6, 0]" by (simp add: tlv_bytes_def writeVarNumber_def tlv_codes)
  then show ?thesis using lp_network_packet [of "tlv_block tlv_Data []" tlv_Data "[]" Packet_default] by (auto simp: type_value_def)
qed

text \<open>A lone fragment that holds more than one element, or part of a packet: only its first element is sent.\<close>

lemma lone_fragment_drops_rest:
  assumes "fresh e" "type_value e = (lp_Fragment, elements_bytes [(t, elements_bytes es), (t', v')])" "m_subBlocks p = [e]" "\<not> hasWire p"
  shows "\<exists>w. Packet_wireEncode p = Inr (w, p) \<and> type_value w = (t, elements_bytes es)"
  using lone_fragment_encode [OF assms(3,4,1,2)] by blast

text \<open>The encoder template writes nothing for a packet with a wire, though it reports the size of the wire.\<close>

lemma encoder_skips_wire: "hasWire p \<Longrightarrow> Packet_wireEncode_to ops p e = bindE (Block_size p) (\<lambda>n. Inr (n, e))"
  by (simp add: Packet_wireEncode_to_def)

text \<open>
  C23. \<open>wireDecode\<close> of an LpPacket accepts exactly the well-formed ones: every field is known or may be ignored (an odd type in the 3-octet range),
  header fields come in strictly increasing order of type, each at most once, and the fragment is last. Otherwise it throws and leaves the packet as it was.
\<close>

theorem lp_decode_checks:
  assumes "fresh w" "m_type w = lp_LpPacket" "value_bytes w = elements_bytes fs"
  shows "if (\<forall>(t, _) \<in> set fs. accepted t) \<and> sorted_wrt field_less (map fst fs)
    then \<exists>q. Packet_wireDecode p0 w = (None, q) \<and> lp_inv q \<and> lp_fields q = fs
    else \<exists>what. Packet_wireDecode p0 w = (Some (LpPacketError what), p0)"
proof -
  obtain b where b: "parse w = (None, b)" "map type_value (m_subBlocks b) = fs" using parse_fresh [OF assms(1,3)] by metis
  have m: "map m_type (m_subBlocks b) = map fst fs" "(\<forall>e \<in> set (m_subBlocks b). accepted (m_type e)) \<longleftrightarrow> (\<forall>(t, _) \<in> set fs. accepted t)"
    by (auto simp: b(2) [symmetric] type_value_def)
  have what: "\<exists>what. check_fields prev es = Some (LpPacketError what)" if "check_fields prev es \<noteq> None" for prev es
    using that by (induction prev es rule: check_fields.induct) (auto simp: Let_def split: if_splits option.splits)
  show ?thesis
  proof (cases "(\<forall>(t, _) \<in> set fs. accepted t) \<and> sorted_wrt field_less (map fst fs)")
    case True
    then obtain q where "Packet_wireDecode p0 w = (None, q)" "lp_inv q" "lp_fields q = fs" using lp_decode_accepted [OF assms, of p0] by blast
    then show ?thesis unfolding if_P [OF True] by blast
  next
    case False
    then have "check_fields None (m_subBlocks b) \<noteq> None" by (simp add: check_fields_iff m)
    then obtain e where "check_fields None (m_subBlocks b) = Some (LpPacketError e)" using what by blast
    then have "Packet_wireDecode p0 w = (Some (LpPacketError e), p0)" using b(1) assms(2) by (simp add: Packet_wireDecode_def lp_codes tlv_codes)
    then show ?thesis unfolding if_not_P [OF False] by blast
  qed
qed

theorem lp_decode_checks_witness:
  "\<exists>what. Packet_wireDecode Packet_default (tlv_block lp_LpPacket (elements_bytes [(lp_Fragment, []), (lp_Sequence, [1])])) = (Some (LpPacketError what), Packet_default)"
proof -
  have "\<not> sorted_wrt field_less (map fst [(lp_Fragment, [] :: byte list), (lp_Sequence, [1])])"
    by (simp add: field_less_def less_prod_def lp_codes)
  moreover have "length (tlv_bytes lp_LpPacket (elements_bytes [(lp_Fragment, []), (lp_Sequence, [1])])) < 2 ^ 64"
    by (simp add: sizeOfVarNumber_def lp_codes)
  ultimately show ?thesis
    using lp_decode_checks [of "tlv_block lp_LpPacket (elements_bytes [(lp_Fragment, []), (lp_Sequence, [1])])" "[(lp_Fragment, []), (lp_Sequence, [1])]" Packet_default]
    by (simp del: length_tlv_bytes)
qed

end
