(* ===== verification/NameRegex.thy ===== *)
theory NameRegex
  imports Name
begin

text \<open>
  Regular expressions on names, after \<open>src/util/regex/\<close>: the compilation of an expression into a tree of matchers, the
  backtracking match, back references and their expansion.

  A component is matched by \<open>boost::regex\<close> on its URI form; that library is the parameter \<open>boost_regex\<close>: whether an expression
  is accepted, the number of its marked subexpressions, and \<open>regex_match\<close> with the submatches. The set of component matchers is ordered
  by address, which is the parameter \<open>rx_order\<close>.

  A matcher object keeps the components that it matched last in \<open>m_matchResult\<close>. Only the results of matchers known to the
  back reference manager can be seen from outside; they are a function of the position in the manager. The submatch of a pseudo matcher is
  kept as its string, from which the component is made when it is used. Matchers are called with ranges inside the name, and expressions are
  shorter than \<open>2 ^ 31\<close> characters (positions pass through \<open>int\<close>).
\<close>

section \<open>Matchers\<close>

record component_matcher =
  cm_expr :: string
  cm_firstRef :: nat
  cm_marks :: nat

datatype matcher =
    PatternList "matcher list"
  | Backref nat matcher
  | Repeat nat nat matcher
  | ComponentSet bool "component_matcher list"

record boost_regex =
  rx_valid :: "string \<Rightarrow> bool"
  rx_mark_count :: "string \<Rightarrow> nat"
  rx_match :: "string \<Rightarrow> string \<Rightarrow> string list option"
  rx_order :: "component_matcher list \<Rightarrow> component_matcher list"

datatype ref_result = Components "block list" | Submatch string

type_synonym refs = "nat \<Rightarrow> ref_result"

definition MAX_REPETITIONS :: nat where
  "MAX_REPETITIONS = 2 ^ 64 - 1"

section \<open>Compilation\<close>

definition substr :: "string \<Rightarrow> nat \<Rightarrow> nat \<Rightarrow> string" where
  "substr s pos n = take n (drop pos s)"

text \<open>\<open>operator[]\<close> of a string, with the null character at its end.\<close>

definition char_at :: "string \<Rightarrow> nat \<Rightarrow> char" where
  "char_at s i = (if i < length s then s ! i else CHR 0x00)"

text \<open>The loops of \<open>extractSubPattern\<close> and \<open>extractComponent\<close>.\<close>

function extractSubPattern :: "string \<Rightarrow> char \<Rightarrow> char \<Rightarrow> nat \<Rightarrow> nat \<Rightarrow> nat \<Rightarrow> nat result" where
  "extractSubPattern expr left right index lcount rcount =
     (if \<not> lcount > rcount then Inr index
      else if index \<ge> length expr then Inl (RegexError ''Parenthesis mismatch'')
      else extractSubPattern expr left right (index + 1)
             (if left = expr ! index then lcount + 1 else lcount) (if right = expr ! index then rcount + 1 else rcount))"
  by pat_completeness auto
termination
  by (relation "measure (\<lambda>(expr, _, _, index, _, _). length expr - index)") auto

declare extractSubPattern.simps [simp del]

function extractComponent :: "string \<Rightarrow> nat \<Rightarrow> nat \<Rightarrow> nat \<Rightarrow> nat result" where
  "extractComponent expr index lcount rcount =
     (if \<not> lcount > rcount then Inr index
      else if char_at expr index = CHR 0x00 then Inl (RegexError ''Error: square brackets mismatch'')
      else extractComponent expr (index + 1)
             (if expr ! index = CHR ''<'' then lcount + 1 else lcount) (if expr ! index = CHR ''>'' then rcount + 1 else rcount))"
  by pat_completeness auto
termination
  by (relation "measure (\<lambda>(expr, index, _, _). length expr - index)") (auto simp: char_at_def split: if_splits)

declare extractComponent.simps [simp del]

definition extractRepetition :: "string \<Rightarrow> nat \<Rightarrow> nat result" where
  "extractRepetition expr index =
     (if index = length expr then Inr index
      else if expr ! index \<in> {CHR ''+'', CHR ''?'', CHR ''*''} then Inr (index + 1)
      else if expr ! index = CHR ''{''
      then let close = index + length (takeWhile (\<lambda>c. c \<noteq> CHR ''}'') (drop index expr))
           in if close = length expr then Inl (RegexError ''Missing right brace bracket'') else Inr (close + 1)
      else Inr index)"

definition compile_component :: "boost_regex \<Rightarrow> string \<Rightarrow> nat \<Rightarrow> (component_matcher \<times> nat) result" where
  "compile_component x expr nRefs =
     (if rx_valid x expr
      then Inr (\<lparr>cm_expr = expr, cm_firstRef = nRefs, cm_marks = rx_mark_count x expr\<rparr>, nRefs + rx_mark_count x expr)
      else Inl (BoostRegexError expr))"

lemma extractComponent_bounds:
  "extractComponent expr index l r = Inr k \<Longrightarrow> (if r < l then index < k \<and> k \<le> length expr else k = index)"
proof (induction expr index l r rule: extractComponent.induct)
  case (1 expr index l r)
  have "index < length expr" if "char_at expr index \<noteq> CHR 0x00" using that by (auto simp: char_at_def split: if_splits)
  with 1 show ?case by (auto simp: extractComponent.simps [of expr index l r] split: if_splits)
qed

function compileMultipleComponents ::
    "boost_regex \<Rightarrow> string \<Rightarrow> nat \<Rightarrow> nat \<Rightarrow> nat \<Rightarrow> (component_matcher list \<times> nat) result" where
  "compileMultipleComponents x expr index lastIndex nRefs =
     (if index < lastIndex
      then if expr ! index \<noteq> CHR ''<'' then Inl (RegexError (''Component expr error '' @ expr))
           else bindE (extractComponent expr (index + 1) 1 0) (\<lambda>next.
             bindE (compile_component x (substr expr (index + 1) (next - (index + 1) - 1)) nRefs) (\<lambda>(c, nRefs).
             bindE (compileMultipleComponents x expr next lastIndex nRefs) (\<lambda>(cs, nRefs). Inr (c # cs, nRefs))))
      else if index \<noteq> lastIndex then Inl (RegexError (''Not sufficient expr to parse '' @ expr))
      else Inr ([], nRefs))"
  by pat_completeness auto
termination
  by (relation "measure (\<lambda>(_, _, index, lastIndex, _). lastIndex - index)") (auto dest!: extractComponent_bounds)

declare compileMultipleComponents.simps [simp del]

definition compile_set :: "boost_regex \<Rightarrow> string \<Rightarrow> nat \<Rightarrow> (matcher \<times> nat) result" where
  "compile_set x expr nRefs =
     (if length expr < 2 then Inl (RegexError (''Regexp compile error (cannot parse '' @ expr @ '')''))
      else if expr ! 0 = CHR ''<''
      then bindE (extractComponent expr 1 1 0) (\<lambda>close.
             if length expr \<noteq> close then Inl (RegexError (''Component expr error '' @ expr))
             else bindE (compile_component x (substr expr 1 (close - 2)) nRefs) (\<lambda>(c, nRefs).
               Inr (ComponentSet True (rx_order x [c]), nRefs)))
      else if expr ! 0 = CHR ''[''
      then let lastIndex = length expr - 1
           in if expr ! lastIndex \<noteq> CHR '']'' then Inl (RegexError (''Regexp compile error (no matching '' @ [CHR 0x27, CHR '']'', CHR 0x27] @ '' in '' @ expr @ '')''))
              else let isInclusion = (expr ! 1 \<noteq> CHR ''^'')
                   in bindE (compileMultipleComponents x expr (if isInclusion then 1 else 2) lastIndex nRefs) (\<lambda>(cs, nRefs).
                        Inr (ComponentSet isInclusion (rx_order x cs), nRefs))
      else Inl (RegexError (''Regexp compile error (cannot parse '' @ expr @ '')'')))"

text \<open>\<open>atoi\<close>: the digits at the front; a number that is no \<open>int\<close> is undefined.\<close>

definition is_digit :: "char \<Rightarrow> bool" where
  "is_digit c \<longleftrightarrow> 48 \<le> (of_char c :: nat) \<and> (of_char c :: nat) \<le> 57"

definition decimal :: "string \<Rightarrow> nat" where
  "decimal s = foldl (\<lambda>n c. 10 * n + (of_char c - 48)) 0 s"

definition atoi :: "string \<Rightarrow> nat result" where
  "atoi s = (let n = decimal (takeWhile is_digit s)
             in if n < 2 ^ 31 then Inr n else Inl (UndefinedBehaviour ''atoi''))"

definition find_comma :: "string \<Rightarrow> nat" where
  "find_comma s = length (takeWhile (\<lambda>c. c \<noteq> CHR '','') s)"

text \<open>The Boost expressions for a repetition have escaped braces around.\<close>

definition brace_pattern :: "string \<Rightarrow> string" where
  "brace_pattern s = [CHR 0x5C, CHR ''{''] @ s @ [CHR 0x5C, CHR ''}'']"

definition parseRepetition :: "boost_regex \<Rightarrow> string \<Rightarrow> nat \<Rightarrow> (nat \<times> nat) result" where
  "parseRepetition x expr indicator =
     (let exprSize = length expr
      in if exprSize = indicator then Inr (1, 1)
         else if exprSize = indicator + 1
         then if expr ! indicator = CHR ''?'' then Inr (0, 1)
              else if expr ! indicator = CHR ''+'' then Inr (1, MAX_REPETITIONS)
              else if expr ! indicator = CHR ''*'' then Inr (0, MAX_REPETITIONS)
              else Inl (UndefinedBehaviour ''uninitialized m_repeatMin'')
         else
           let repeatStruct = substr expr indicator (exprSize - indicator);
               rsSize = length repeatStruct;
               separator = find_comma repeatStruct
           in bindE
                (if rx_match x (brace_pattern ''[0-9]+,[0-9]+'') repeatStruct \<noteq> None
                 then bindE (atoi (substr repeatStruct 1 (separator - 1))) (\<lambda>min.
                      bindE (atoi (substr repeatStruct (separator + 1) (rsSize - separator - 2))) (\<lambda>max. Inr (min, max)))
                 else if rx_match x (brace_pattern '',[0-9]+'') repeatStruct \<noteq> None
                 then bindE (atoi (substr repeatStruct (separator + 1) (rsSize - separator - 2))) (\<lambda>max. Inr (0, max))
                 else if rx_match x (brace_pattern ''[0-9]+,'') repeatStruct \<noteq> None
                 then bindE (atoi (substr repeatStruct 1 separator)) (\<lambda>min. Inr (min, MAX_REPETITIONS))
                 else if rx_match x (brace_pattern ''[0-9]+'') repeatStruct \<noteq> None
                 then bindE (atoi (substr repeatStruct 1 (rsSize - 1))) (\<lambda>min. Inr (min, min))
                 else Inl (RegexError (''Error: RegexRepeatMatcher.ParseRepetition(): Unrecognized format '' @ expr)))
                (\<lambda>(min, max).
                  if min > MAX_REPETITIONS \<or> max > MAX_REPETITIONS \<or> min > max
                  then Inl (RegexError (''Error: RegexRepeatMatcher.ParseRepetition(): Wrong number '' @ expr))
                  else Inr (min, max)))"

lemma extractSubPattern_bounds:
  "extractSubPattern expr a b index l r = Inr k \<Longrightarrow> (if r < l then index < k \<and> k \<le> length expr else k = index)"
proof (induction expr a b index l r rule: extractSubPattern.induct)
  case (1 expr a b index l r)
  then show ?case by (auto simp: extractSubPattern.simps [of expr a b index l r] split: if_splits)
qed

lemma extractRepetition_bounds: "extractRepetition expr index = Inr k \<Longrightarrow> index \<le> length expr \<Longrightarrow> index \<le> k \<and> k \<le> length expr"
  using length_takeWhile_le [of "\<lambda>c. c \<noteq> CHR ''}''" "drop index expr"]
  by (auto simp: extractRepetition_def Let_def split: if_splits)

text \<open>
  \<open>RegexPatternListMatcher::compile\<close> from a position on, with \<open>extractPattern\<close> and the compilation of the back reference and repeat
  matchers; \<open>nRefs\<close> is the size of the back reference manager.
\<close>

function compile_patterns :: "boost_regex \<Rightarrow> string \<Rightarrow> nat \<Rightarrow> nat \<Rightarrow> (matcher list \<times> nat) result" where
  "compile_patterns x expr index nRefs =
     (if \<not> index < length expr then Inr ([], nRefs)
      else if expr ! index = CHR ''(''
      then bindE (extractSubPattern expr (CHR ''('') (CHR '')'') (index + 1) 1 0) (\<lambda>indicator.
           bindE (extractRepetition expr indicator) (\<lambda>close.
             let sub = substr expr index (indicator - index)
             in if length sub < 2 \<or> sub ! 0 \<noteq> CHR ''('' \<or> sub ! (length sub - 1) \<noteq> CHR '')''
                then Inl (RegexError (''Unrecognized format: '' @ sub))
                else bindE (compile_patterns x (substr sub 1 (length sub - 2)) 0 (nRefs + 1)) (\<lambda>(ms, nRefs').
                     bindE (if indicator = close then Inr (Backref nRefs (PatternList ms))
                            else bindE (parseRepetition x (substr expr index (close - index)) (indicator - index)) (\<lambda>(repeatMin, repeatMax).
                              Inr (Repeat repeatMin repeatMax (Backref nRefs (PatternList ms))))) (\<lambda>m.
                     bindE (compile_patterns x expr close nRefs') (\<lambda>(ms, nRefs'). Inr (m # ms, nRefs'))))))
      else if expr ! index = CHR ''<'' \<or> expr ! index = CHR ''[''
      then bindE (extractSubPattern expr (expr ! index) (if expr ! index = CHR ''<'' then CHR ''>'' else CHR '']'') (index + 1) 1 0) (\<lambda>indicator.
           bindE (extractRepetition expr indicator) (\<lambda>close.
           bindE (compile_set x (substr expr index (indicator - index)) nRefs) (\<lambda>(m, nRefs).
           bindE (parseRepetition x (substr expr index (close - index)) (indicator - index)) (\<lambda>(repeatMin, repeatMax).
           bindE (compile_patterns x expr close nRefs) (\<lambda>(ms, nRefs). Inr (Repeat repeatMin repeatMax m # ms, nRefs))))))
      else Inl (RegexError ''Unexpected syntax''))"
  by pat_completeness auto
termination
proof (relation "measures [\<lambda>(_, expr, _, _). length expr, \<lambda>(_, expr, index, _). length expr - index]", goal_cases)
qed (auto simp: substr_def dest!: extractSubPattern_bounds extractRepetition_bounds)

declare compile_patterns.simps [simp del]

definition compile_list :: "boost_regex \<Rightarrow> string \<Rightarrow> nat \<Rightarrow> (matcher \<times> nat) result" where
  "compile_list x expr nRefs = bindE (compile_patterns x expr 0 nRefs) (\<lambda>(ms, nRefs). Inr (PatternList ms, nRefs))"

section \<open>Matching\<close>

text \<open>A loop that tries shorter and shorter parts.\<close>

primrec try_down :: "nat \<Rightarrow> (nat \<Rightarrow> 's \<Rightarrow> bool \<times> 's) \<Rightarrow> 's \<Rightarrow> bool \<times> 's" where
  "try_down 0 attempt st = attempt 0 st"
| "try_down (Suc tried) attempt st =
     (case attempt (Suc tried) st of (True, st) \<Rightarrow> (True, st) | (False, st) \<Rightarrow> try_down tried attempt st)"

text \<open>\<open>RegexMatcher::recursiveMatch\<close>, on the list of the remaining matchers.\<close>

primrec recursiveMatch :: "(nat \<Rightarrow> nat \<Rightarrow> 's \<Rightarrow> bool \<times> 's) list \<Rightarrow> nat \<Rightarrow> nat \<Rightarrow> 's \<Rightarrow> bool \<times> 's" where
  "recursiveMatch [] offset len st = (len = 0, st)"
| "recursiveMatch (f # fs) offset len st =
     try_down len (\<lambda>tried st. case f offset tried st of
       (True, st) \<Rightarrow> recursiveMatch fs (offset + tried) (len - tried) st | (False, st) \<Rightarrow> (False, st)) st"

text \<open>\<open>RegexRepeatMatcher::recursiveMatch\<close>.\<close>

function repeatMatch :: "nat \<Rightarrow> nat \<Rightarrow> (nat \<Rightarrow> nat \<Rightarrow> 's \<Rightarrow> bool \<times> 's) \<Rightarrow> nat \<Rightarrow> nat \<Rightarrow> nat \<Rightarrow> 's \<Rightarrow> bool \<times> 's" where
  "repeatMatch repeatMin repeatMax f repeat offset len st =
     (if 0 < len \<and> repeat \<ge> repeatMax then (False, st)
      else if len = 0 \<and> repeat < repeatMin then (False, st)
      else if len = 0 \<and> repeat \<ge> repeatMin then (True, st)
      else try_down len (\<lambda>tried st. case f offset tried st of
             (True, st) \<Rightarrow> repeatMatch repeatMin repeatMax f (repeat + 1) (offset + tried) (len - tried) st
           | (False, st) \<Rightarrow> (False, st)) st)"
  by pat_completeness auto
termination
  by (relation "measure (\<lambda>(_, repeatMax, _, repeat, _, _, _). repeatMax - repeat)") auto

declare repeatMatch.simps [simp del]

text \<open>\<open>RegexComponentMatcher::match\<close>: the submatches are the results of the pseudo matchers.\<close>

definition component_match :: "boost_regex \<Rightarrow> component_matcher \<Rightarrow> block \<Rightarrow> refs \<Rightarrow> bool \<times> refs" where
  "component_match x m c st =
     (if cm_expr m = '''' then (True, st)
      else case rx_match x (cm_expr m) (Component_toUri c) of
             None \<Rightarrow> (False, st)
           | Some subs \<Rightarrow> (True, fold (\<lambda>i st. st(cm_firstRef m + i := Submatch (subs ! i))) [0 ..< cm_marks m] st))"

primrec set_loop :: "boost_regex \<Rightarrow> block \<Rightarrow> component_matcher list \<Rightarrow> refs \<Rightarrow> bool \<times> refs" where
  "set_loop x c [] st = (False, st)"
| "set_loop x c (m # ms) st = (case component_match x m c st of (True, st) \<Rightarrow> (True, st) | (False, st) \<Rightarrow> set_loop x c ms st)"

text \<open>\<open>match\<close> of each class; \<open>cs\<close> are the components of the name.\<close>

fun matcher_match :: "boost_regex \<Rightarrow> block list \<Rightarrow> matcher \<Rightarrow> nat \<Rightarrow> nat \<Rightarrow> refs \<Rightarrow> bool \<times> refs" where
  "matcher_match x cs (PatternList ms) offset len st = recursiveMatch (map (matcher_match x cs) ms) offset len st"
| "matcher_match x cs (Backref k m) offset len st =
     (case recursiveMatch [matcher_match x cs m] offset len (st(k := Components [])) of
        (True, st) \<Rightarrow> (True, st(k := Components (chunk cs offset (offset + len))))
      | (False, st) \<Rightarrow> (False, st))"
| "matcher_match x cs (Repeat repeatMin repeatMax m) offset len st =
     (if repeatMin = 0 \<and> len = 0 then (True, st) else repeatMatch repeatMin repeatMax (matcher_match x cs m) 0 offset len st)"
| "matcher_match x cs (ComponentSet isInclusion ms) offset len st =
     (if len \<noteq> 1 then (False, st)
      else case set_loop x (cs ! offset) ms st of (isMatched, st) \<Rightarrow> (if isInclusion then isMatched else \<not> isMatched, st))"

section \<open>The top matcher\<close>

record top_matcher =
  rt_expand :: string
  rt_primary :: matcher
  rt_secondary :: "matcher option"
  rt_primaryRefs :: nat
  rt_secondaryRefs :: nat
  rt_primaryResults :: refs
  rt_secondaryResults :: refs
  rt_isSecondaryUsed :: bool
  rt_matchResult :: "block list"

definition RegexTopMatcher :: "boost_regex \<Rightarrow> string \<Rightarrow> string \<Rightarrow> top_matcher result" where
  "RegexTopMatcher x expr expand =
     (if expr = '''' then Inl (UndefinedBehaviour ''expr[expr.size() - 1]'')
      else
        let expr = (if last expr \<noteq> CHR ''$'' then expr @ ''<.*>*'' else substr expr 0 (length expr - 1))
        in bindE (if char_at expr 0 \<noteq> CHR ''^'' then bindE (compile_list x (''<.*>*'' @ expr) 0) (\<lambda>(m, n). Inr (Some m, n))
                  else Inr (None, 0)) (\<lambda>(secondary, nSecondary).
           bindE (compile_list x (if char_at expr 0 \<noteq> CHR ''^'' then expr else substr expr 1 (length expr - 1)) 0) (\<lambda>(primary, nPrimary).
             Inr \<lparr>rt_expand = expand, rt_primary = primary, rt_secondary = secondary, rt_primaryRefs = nPrimary,
                  rt_secondaryRefs = nSecondary, rt_primaryResults = (\<lambda>_. Components []), rt_secondaryResults = (\<lambda>_. Components []),
                  rt_isSecondaryUsed = False, rt_matchResult = []\<rparr>)))"

definition top_match :: "boost_regex \<Rightarrow> top_matcher \<Rightarrow> name \<Rightarrow> bool \<times> top_matcher" where
  "top_match x t name =
     (let cs = comps name;
          t = t\<lparr>rt_isSecondaryUsed := False, rt_matchResult := []\<rparr>
      in case matcher_match x cs (rt_primary t) 0 (length cs) (rt_primaryResults t) of
           (True, st) \<Rightarrow> (True, t\<lparr>rt_primaryResults := st, rt_matchResult := cs\<rparr>)
         | (False, st) \<Rightarrow>
             let t = t\<lparr>rt_primaryResults := st\<rparr>
             in (case rt_secondary t of
                   None \<Rightarrow> (False, t)
                 | Some m \<Rightarrow>
                     (case matcher_match x cs m 0 (length cs) (rt_secondaryResults t) of
                        (True, st) \<Rightarrow> (True, t\<lparr>rt_secondaryResults := st, rt_matchResult := cs, rt_isSecondaryUsed := True\<rparr>)
                      | (False, st) \<Rightarrow> (False, t\<lparr>rt_secondaryResults := st\<rparr>))))"

text \<open>\<open>getItemFromExpand\<close>: the item and the offset behind it.\<close>

function literal_end :: "string \<Rightarrow> nat \<Rightarrow> nat \<Rightarrow> nat \<Rightarrow> nat result" where
  "literal_end expand offset left right =
     (if \<not> right < left then Inr offset
      else let left' = (if char_at expand offset = CHR ''<'' then left + 1 else left);
               right' = (if char_at expand offset = CHR ''>'' then right + 1 else right)
           in if offset + 1 \<ge> length expand then Inl (RegexError ''wrong format of expand string!'')
              else literal_end expand (offset + 1) left' right')"
  by pat_completeness auto
termination
  by (relation "measure (\<lambda>(expand, offset, _, _). length expand - offset)") auto

declare literal_end.simps [simp del]

definition getItemFromExpand :: "string \<Rightarrow> nat \<Rightarrow> (string \<times> nat) result" where
  "getItemFromExpand expand begin =
     (let wrong = Inl (RegexError ''wrong format of expand string!'')
      in if char_at expand begin = CHR 0x5C
         then if begin + 1 \<ge> length expand then wrong
              else let offset = begin + 1 + length (takeWhile is_digit (drop (begin + 1) expand))
                   in if offset > begin + 1 then Inr (substr expand begin (offset - begin), offset) else wrong
         else if char_at expand begin = CHR ''<''
         then if begin + 1 \<ge> length expand then wrong
              else bindE (literal_end expand (begin + 1) 1 0) (\<lambda>offset. Inr (substr expand begin (offset - begin), offset))
         else wrong)"

text \<open>\<open>boost::lexical_cast<size_t>\<close> of a string of digits.\<close>

definition lexical_cast_size :: "string \<Rightarrow> nat result" where
  "lexical_cast_size s = (if decimal s < 2 ^ 64 then Inr (decimal s) else Inl (LexicalCastError s))"

definition append_result :: "ref_result \<Rightarrow> name \<Rightarrow> name result" where
  "append_result r n =
     (case r of
        Components cs \<Rightarrow> Inr (fold (\<lambda>c n. Name_append n c) cs n)
      | Submatch s \<Rightarrow> bindE (Component_ofBytes (map byte_of_char s)) (\<lambda>c. Inr (Name_append n c)))"

lemma literal_end_bounds: "literal_end expand offset l r = Inr k \<Longrightarrow> offset \<le> k"
proof (induction expand offset l r rule: literal_end.induct)
  case (1 expand offset l r)
  then show ?case by (fastforce simp: literal_end.simps [of expand offset l r] Let_def split: if_splits)
qed

lemma getItemFromExpand_bounds: "getItemFromExpand expand begin = Inr (item, k) \<Longrightarrow> begin < k"
  by (auto simp: getItemFromExpand_def Let_def bindE_iffs split: if_splits dest!: literal_end_bounds)

function expand_loop :: "ext \<Rightarrow> top_matcher \<Rightarrow> string \<Rightarrow> nat \<Rightarrow> name \<Rightarrow> name result" where
  "expand_loop x t expand offset result =
     (if \<not> offset < length expand then Inr result
      else bindE (getItemFromExpand expand offset) (\<lambda>(item, offset).
        bindE (if item ! 0 = CHR ''<''
               then bindE (Name_ofString x (substr item 1 (length item - 2))) (Name_appendName result)
               else
                 bindE (lexical_cast_size (substr item 1 (length item - 1))) (\<lambda>index.
                   if index = 0 then append_result (Components (rt_matchResult t)) result
                   else if index \<le> (if rt_isSecondaryUsed t then rt_secondaryRefs t else rt_primaryRefs t)
                   then append_result ((if rt_isSecondaryUsed t then rt_secondaryResults t else rt_primaryResults t) (index - 1)) result
                   else Inl (RegexError ''Exceed the range of back reference''))) (\<lambda>result.
        expand_loop x t expand offset result)))"
  by pat_completeness auto
termination
  by (relation "measure (\<lambda>(_, _, expand, offset, _). length expand - offset)") (auto dest!: getItemFromExpand_bounds)

declare expand_loop.simps [simp del]

definition top_expand :: "ext \<Rightarrow> top_matcher \<Rightarrow> string \<Rightarrow> name result" where
  "top_expand x t expandStr = expand_loop x t (if expandStr \<noteq> '''' then expandStr else rt_expand t) 0 Name_default"

definition convertSpecialChar :: "string \<Rightarrow> string" where
  "convertSpecialChar str = concat (map (\<lambda>c. if c \<in> set ''.[{}()*+?|^$'' \<or> c = CHR 0x5C then [CHR 0x5C, c] else [c]) str)"

definition fromName_expr :: "name \<Rightarrow> bool \<Rightarrow> string" where
  "fromName_expr name hasAnchor =
     ''^'' @ concat (map (\<lambda>c. ''<'' @ convertSpecialChar (Component_toUri c) @ ''>'') (comps name)) @ (if hasAnchor then ''$'' else '''')"

definition fromName :: "boost_regex \<Rightarrow> name \<Rightarrow> bool \<Rightarrow> top_matcher result" where
  "fromName x name hasAnchor = RegexTopMatcher x (fromName_expr name hasAnchor) ''''"

section \<open>The language of a matcher\<close>

primrec conc_all :: "'a list set list \<Rightarrow> 'a list set" where
  "conc_all [] = {[]}"
| "conc_all (L # Ls) = {u @ v |u v. u \<in> L \<and> v \<in> conc_all Ls}"

definition powers :: "'a list set \<Rightarrow> nat \<Rightarrow> 'a list set" where
  "powers L n = conc_all (replicate n L)"

definition comp_matches :: "boost_regex \<Rightarrow> component_matcher \<Rightarrow> block \<Rightarrow> bool" where
  "comp_matches x m c \<longleftrightarrow> cm_expr m = '''' \<or> rx_match x (cm_expr m) (Component_toUri c) \<noteq> None"

text \<open>What the expressions mean: sequences, repetitions, groups and component sets.\<close>

fun lang :: "boost_regex \<Rightarrow> matcher \<Rightarrow> block list set" where
  "lang x (PatternList ms) = conc_all (map (lang x) ms)"
| "lang x (Backref k m) = lang x m"
| "lang x (Repeat repeatMin repeatMax m) = (\<Union>n \<in> {repeatMin .. repeatMax}. powers (lang x m) n)"
| "lang x (ComponentSet isInclusion ms) = {[c] |c. isInclusion \<longleftrightarrow> (\<exists>m \<in> set ms. comp_matches x m c)}"

text \<open>No repetition that must occur is of something that may be empty.\<close>

fun proper :: "boost_regex \<Rightarrow> matcher \<Rightarrow> bool" where
  "proper x (PatternList ms) = (\<forall>m \<in> set ms. proper x m)"
| "proper x (Backref k m) = proper x m"
| "proper x (Repeat repeatMin repeatMax m) = (proper x m \<and> (repeatMin = 0 \<or> [] \<notin> lang x m))"
| "proper x (ComponentSet isInclusion ms) = True"

lemma powers_simps [simp]:
  "powers L 0 = {[]}" "powers L (Suc n) = {u @ v |u v. u \<in> L \<and> v \<in> powers L n}"
  by (simp_all add: powers_def)

lemma powers_Nil: "[] \<in> powers L n \<longleftrightarrow> n = 0 \<or> [] \<in> L"
  by (induction n) auto

text \<open>A nonempty word that needs \<open>n\<close> pieces can have its empty pieces in front.\<close>

lemma powers_split:
  assumes "w \<noteq> []" "w \<in> powers L n" "a \<le> n"
  obtains m u v where "n = Suc m" "w = u @ v" "u \<in> L" "v = [] \<and> a \<le> 1 \<or> v \<noteq> [] \<and> v \<in> powers L m"
proof -
  obtain m where n: "n = Suc m" using assms(1,2) by (cases n) auto
  then obtain u v where uv: "w = u @ v" "u \<in> L" "v \<in> powers L m" using assms(2) by auto
  show ?thesis
  proof (cases "v = [] \<and> \<not> a \<le> 1")
    case True
    then obtain k where k: "m = Suc k" using assms(3) n by (cases m) auto
    have "[] \<in> L" using uv(3) True k powers_Nil by auto
    moreover have "w \<in> powers L m" using uv True k \<open>[] \<in> L\<close> powers_Nil by (auto simp: k)
    ultimately show ?thesis using that [of m "[]" w] n assms(1) by simp
  next
    case False
    then show ?thesis using that [OF n uv(1,2)] uv(3) by blast
  qed
qed

lemma chunk_cut:
  assumes "t \<le> len" "offset + len \<le> length cs"
  shows "chunk cs offset (offset + len) = chunk cs offset (offset + t) @ chunk cs (offset + t) (offset + len)"
  using assms take_add [of t "len - t" "drop offset cs"] by (simp add: chunk_def add.commute)

text \<open>A concatenation is a cut of the range.\<close>

lemma chunk_conc:
  assumes "offset + len \<le> length cs"
  shows "(\<exists>u v. chunk cs offset (offset + len) = u @ v \<and> P u \<and> Q v)
    \<longleftrightarrow> (\<exists>t \<le> len. P (chunk cs offset (offset + t)) \<and> Q (chunk cs (offset + t) (offset + t + (len - t))))"
proof
  assume "\<exists>u v. chunk cs offset (offset + len) = u @ v \<and> P u \<and> Q v"
  then obtain u v where uv: "chunk cs offset (offset + len) = u @ v" "P u" "Q v" by blast
  have len: "length u \<le> len" using arg_cong [OF uv(1), of length] assms by simp
  have "chunk cs offset (offset + length u) @ chunk cs (offset + length u) (offset + len) = u @ v"
    using chunk_cut [OF len assms] uv(1) by simp
  moreover have "length (chunk cs offset (offset + length u)) = length u" using len assms by simp
  ultimately have "chunk cs offset (offset + length u) = u" "chunk cs (offset + length u) (offset + len) = v" by simp_all
  then show "\<exists>t \<le> len. P (chunk cs offset (offset + t)) \<and> Q (chunk cs (offset + t) (offset + t + (len - t)))"
    using uv(2,3) len by (intro exI [of _ "length u"]) simp
next
  assume "\<exists>t \<le> len. P (chunk cs offset (offset + t)) \<and> Q (chunk cs (offset + t) (offset + t + (len - t)))"
  then obtain t where "t \<le> len" "P (chunk cs offset (offset + t))" "Q (chunk cs (offset + t) (offset + len))" by auto
  then show "\<exists>u v. chunk cs offset (offset + len) = u @ v \<and> P u \<and> Q v" using chunk_cut [OF _ assms] by blast
qed

section \<open>Matching decides the language\<close>

lemma try_down_result:
  assumes "\<And>t st. t \<le> n \<Longrightarrow> fst (attempt t st) \<longleftrightarrow> P t"
  shows "fst (try_down n attempt st) \<longleftrightarrow> (\<exists>t \<le> n. P t)"
  using assms
proof (induction n arbitrary: st)
  case (Suc n)
  have "fst (attempt (Suc n) st) \<longleftrightarrow> P (Suc n)" using Suc.prems by simp
  moreover have "fst (try_down n attempt st') \<longleftrightarrow> (\<exists>t \<le> n. P t)" for st' using Suc by simp
  ultimately show ?case by (auto split: prod.split bool.split simp: le_Suc_eq)
qed simp

text \<open>A matcher for a language.\<close>

definition recognises :: "block list \<Rightarrow> (nat \<Rightarrow> nat \<Rightarrow> 's \<Rightarrow> bool \<times> 's) \<Rightarrow> block list set \<Rightarrow> bool" where
  "recognises cs f L \<longleftrightarrow>
     (\<forall>offset len st. offset + len \<le> length cs \<longrightarrow> (fst (f offset len st) \<longleftrightarrow> chunk cs offset (offset + len) \<in> L))"

lemma recognises_attempt:
  assumes "recognises cs f L" "t \<le> len" "offset + len \<le> length cs"
    and "\<And>st. fst (g (offset + t) (len - t) st) \<longleftrightarrow> Q (chunk cs (offset + t) (offset + t + (len - t)))"
  shows "fst (case f offset t st of (True, st) \<Rightarrow> g (offset + t) (len - t) st | (False, st) \<Rightarrow> (False, st))
    \<longleftrightarrow> chunk cs offset (offset + t) \<in> L \<and> Q (chunk cs (offset + t) (offset + t + (len - t)))"
proof -
  have "fst (f offset t st) \<longleftrightarrow> chunk cs offset (offset + t) \<in> L" using assms(1-3) by (simp add: recognises_def)
  then show ?thesis using assms(4) by (cases "f offset t st") (auto split: bool.split)
qed

lemma recursiveMatch_recognises:
  assumes "list_all2 (recognises cs) fs Ls"
  shows "recognises cs (recursiveMatch fs) (conc_all Ls)"
  using assms
proof (induction rule: list_all2_induct)
  case Nil
  show ?case by (auto simp: recognises_def chunk_def)
next
  case (Cons f fs L Ls)
  show ?case unfolding recognises_def
  proof (intro allI impI)
    fix offset len st
    assume range: "offset + len \<le> length cs"
    have "fst (recursiveMatch (f # fs) offset len st)
      \<longleftrightarrow> (\<exists>t \<le> len. chunk cs offset (offset + t) \<in> L \<and> chunk cs (offset + t) (offset + t + (len - t)) \<in> conc_all Ls)"
      unfolding recursiveMatch.simps
    proof (rule try_down_result)
      fix t st
      assume t: "t \<le> len"
      have "fst (recursiveMatch fs (offset + t) (len - t) st) \<longleftrightarrow> chunk cs (offset + t) (offset + t + (len - t)) \<in> conc_all Ls" for st
        using Cons.IH range t by (auto simp: recognises_def)
      then show "fst (case f offset t st of (True, st) \<Rightarrow> recursiveMatch fs (offset + t) (len - t) st | (False, st) \<Rightarrow> (False, st))
        \<longleftrightarrow> chunk cs offset (offset + t) \<in> L \<and> chunk cs (offset + t) (offset + t + (len - t)) \<in> conc_all Ls"
        using recognises_attempt [OF Cons.hyps(1) t range, of "recursiveMatch fs" "\<lambda>v. v \<in> conc_all Ls"] by blast
    qed
    then show "fst (recursiveMatch (f # fs) offset len st) \<longleftrightarrow> chunk cs offset (offset + len) \<in> conc_all (L # Ls)"
      using chunk_conc [OF range, of "\<lambda>u. u \<in> L" "\<lambda>v. v \<in> conc_all Ls"] by simp
  qed
qed

text \<open>The code never counts an empty repetition at the end of the range: an empty range matches only if enough repetitions were seen.\<close>

definition repeat_ok :: "block list set \<Rightarrow> nat \<Rightarrow> nat \<Rightarrow> nat \<Rightarrow> block list \<Rightarrow> bool" where
  "repeat_ok L repeatMin repeatMax repeat w \<longleftrightarrow>
     (if w = [] then repeatMin \<le> repeat else \<exists>n. repeat + n \<le> repeatMax \<and> repeatMin \<le> repeat + n \<and> w \<in> powers L n)"

lemma repeat_ok_step:
  assumes "w \<noteq> []" "repeat < repeatMax"
  shows "repeat_ok L repeatMin repeatMax repeat w \<longleftrightarrow> (\<exists>u v. w = u @ v \<and> u \<in> L \<and> repeat_ok L repeatMin repeatMax (repeat + 1) v)"
proof
  assume "repeat_ok L repeatMin repeatMax repeat w"
  then obtain n where n: "repeat + n \<le> repeatMax" "repeatMin \<le> repeat + n" "w \<in> powers L n"
    using assms(1) by (auto simp: repeat_ok_def)
  then have "repeatMin - repeat \<le> n" by simp
  from powers_split [OF assms(1) n(3) this] obtain m u v where m: "n = Suc m" "w = u @ v" "u \<in> L"
    "v = [] \<and> repeatMin - repeat \<le> 1 \<or> v \<noteq> [] \<and> v \<in> powers L m" by metis
  then have "repeat_ok L repeatMin repeatMax (repeat + 1) v"
    using n by (auto simp: repeat_ok_def intro!: exI [of _ m])
  with m show "\<exists>u v. w = u @ v \<and> u \<in> L \<and> repeat_ok L repeatMin repeatMax (repeat + 1) v" by blast
next
  assume "\<exists>u v. w = u @ v \<and> u \<in> L \<and> repeat_ok L repeatMin repeatMax (repeat + 1) v"
  then obtain u v where uv: "w = u @ v" "u \<in> L" "repeat_ok L repeatMin repeatMax (repeat + 1) v" by blast
  show "repeat_ok L repeatMin repeatMax repeat w"
  proof (cases "v = []")
    case True
    then show ?thesis using uv assms by (auto simp: repeat_ok_def intro!: exI [of _ 1])
  next
    case False
    then obtain n where "repeat + 1 + n \<le> repeatMax" "repeatMin \<le> repeat + 1 + n" "v \<in> powers L n" using uv(3) by (auto simp: repeat_ok_def)
    moreover from this(3) have "w \<in> powers L (Suc n)" using uv(1,2) by auto
    ultimately show ?thesis using assms(1) by (auto simp: repeat_ok_def simp del: powers_simps intro!: exI [of _ "Suc n"])
  qed
qed

lemma chunk_empty: "offset + len \<le> length cs \<Longrightarrow> chunk cs offset (offset + len) = [] \<longleftrightarrow> len = 0"
  by (auto simp: chunk_def)

lemma repeatMatch_result:
  assumes "recognises cs f L" "offset + len \<le> length cs"
  shows "fst (repeatMatch repeatMin repeatMax f repeat offset len st)
    \<longleftrightarrow> repeat_ok L repeatMin repeatMax repeat (chunk cs offset (offset + len))"
  using assms(2)
proof (induction "repeatMax - repeat" arbitrary: repeat offset len st rule: less_induct)
  case less
  let ?w = "chunk cs offset (offset + len)"
  consider "len = 0" | "0 < len" "repeatMax \<le> repeat" | "0 < len" "repeat < repeatMax" by linarith
  then show ?case
  proof cases
    case 1
    then show ?thesis by (subst repeatMatch.simps) (auto simp: repeat_ok_def chunk_def)
  next
    case 2
    moreover have "?w \<noteq> []" using 2 less.prems chunk_empty [of offset len cs] by simp
    moreover have "\<not> repeat_ok L repeatMin repeatMax repeat ?w"
    proof
      assume "repeat_ok L repeatMin repeatMax repeat ?w"
      then obtain n where "repeat + n \<le> repeatMax" "?w \<in> powers L n" using \<open>?w \<noteq> []\<close> by (auto simp: repeat_ok_def)
      moreover from this(1) have "n = 0" using 2 by simp
      ultimately show False using \<open>?w \<noteq> []\<close> by simp
    qed
    ultimately show ?thesis by (subst repeatMatch.simps) simp
  next
    case 3
    have w: "?w \<noteq> []" using chunk_empty [OF less.prems] 3 by simp
    have unfold: "repeatMatch repeatMin repeatMax f repeat offset len st = try_down len (\<lambda>tried st. case f offset tried st of
        (True, st) \<Rightarrow> repeatMatch repeatMin repeatMax f (repeat + 1) (offset + tried) (len - tried) st
      | (False, st) \<Rightarrow> (False, st)) st"
      using 3 by (subst repeatMatch.simps) simp
    have "fst (repeatMatch repeatMin repeatMax f repeat offset len st) \<longleftrightarrow> (\<exists>t \<le> len. chunk cs offset (offset + t) \<in> L
      \<and> repeat_ok L repeatMin repeatMax (repeat + 1) (chunk cs (offset + t) (offset + t + (len - t))))"
      unfolding unfold
    proof (rule try_down_result)
      fix t st
      assume t: "t \<le> len"
      have "fst (repeatMatch repeatMin repeatMax f (repeat + 1) (offset + t) (len - t) st)
        \<longleftrightarrow> repeat_ok L repeatMin repeatMax (repeat + 1) (chunk cs (offset + t) (offset + t + (len - t)))" for st
        using less.hyps [of "repeat + 1" "offset + t" "len - t" st] 3 less.prems t by simp
      then show "fst (case f offset t st of (True, st) \<Rightarrow> repeatMatch repeatMin repeatMax f (repeat + 1) (offset + t) (len - t) st | (False, st) \<Rightarrow> (False, st))
        \<longleftrightarrow> chunk cs offset (offset + t) \<in> L \<and> repeat_ok L repeatMin repeatMax (repeat + 1) (chunk cs (offset + t) (offset + t + (len - t)))"
        using recognises_attempt [OF assms(1) t less.prems, of "repeatMatch repeatMin repeatMax f (repeat + 1)"
            "repeat_ok L repeatMin repeatMax (repeat + 1)"] by blast
    qed
    then show ?thesis
      using chunk_conc [OF less.prems, of "\<lambda>u. u \<in> L" "repeat_ok L repeatMin repeatMax (repeat + 1)"] repeat_ok_step [OF w 3(2)] by simp
  qed
qed

lemma set_loop_result: "fst (set_loop x c ms st) \<longleftrightarrow> (\<exists>m \<in> set ms. comp_matches x m c)"
proof (induction ms arbitrary: st)
  case (Cons m ms)
  have "fst (component_match x m c st) \<longleftrightarrow> comp_matches x m c"
    by (auto simp: component_match_def comp_matches_def split: option.split)
  then show ?case using Cons by (auto split: prod.split bool.split)
qed simp

lemma Repeat_lang:
  assumes "repeatMin = 0 \<or> [] \<notin> lang x m"
  shows "w \<in> lang x (Repeat repeatMin repeatMax m) \<longleftrightarrow> (repeatMin = 0 \<and> w = []) \<or> repeat_ok (lang x m) repeatMin repeatMax 0 w"
proof (cases "w = []")
  case True
  then show ?thesis using assms by (auto simp: repeat_ok_def powers_Nil)
qed (auto simp: repeat_ok_def)

lemma matcher_match_recognises: "proper x m \<Longrightarrow> recognises cs (matcher_match x cs m) (lang x m)"
proof (induction m)
  case (PatternList ms)
  then have "list_all2 (recognises cs) (map (matcher_match x cs) ms) (map (lang x) ms)" by (simp add: list_all2_conv_all_nth)
  from recursiveMatch_recognises [OF this] show ?case by (simp add: recognises_def)
next
  case (Backref k m)
  then have "list_all2 (recognises cs) [matcher_match x cs m] [lang x m]" by simp
  from recursiveMatch_recognises [OF this]
  have "fst (recursiveMatch [matcher_match x cs m] offset len st) \<longleftrightarrow> chunk cs offset (offset + len) \<in> lang x m"
    if "offset + len \<le> length cs" for offset len st using that by (simp add: recognises_def del: recursiveMatch.simps)
  moreover have "fst (matcher_match x cs (Backref k m) offset len st)
    = fst (recursiveMatch [matcher_match x cs m] offset len (st(k := Components [])))" for offset len st
    unfolding matcher_match.simps by (simp split: prod.split bool.split del: recursiveMatch.simps)
  ultimately show ?case by (simp add: recognises_def del: matcher_match.simps)
next
  case (Repeat repeatMin repeatMax m)
  then have inner: "recognises cs (matcher_match x cs m) (lang x m)" "repeatMin = 0 \<or> [] \<notin> lang x m" by simp_all
  show ?case unfolding recognises_def
  proof (intro allI impI)
    fix offset len st
    assume range: "offset + len \<le> length cs"
    show "fst (matcher_match x cs (Repeat repeatMin repeatMax m) offset len st)
      \<longleftrightarrow> chunk cs offset (offset + len) \<in> lang x (Repeat repeatMin repeatMax m)"
      unfolding Repeat_lang [OF inner(2)] using repeatMatch_result [OF inner(1) range] chunk_empty [OF range] by simp
  qed
next
  case (ComponentSet isInclusion ms)
  show ?case unfolding recognises_def
  proof (intro allI impI)
    fix offset len st
    assume range: "offset + len \<le> length cs"
    show "fst (matcher_match x cs (ComponentSet isInclusion ms) offset len st) \<longleftrightarrow> chunk cs offset (offset + len) \<in> lang x (ComponentSet isInclusion ms)"
    proof (cases "len = 1")
      case True
      then have "chunk cs offset (offset + len) = [cs ! offset]" using range by (simp add: chunk_def Cons_nth_drop_Suc [symmetric])
      then show ?thesis using True set_loop_result [of x "cs ! offset" ms st] by (auto split: prod.split)
    next
      case False
      then have "length (chunk cs offset (offset + len)) \<noteq> 1" using range by simp
      then show ?thesis using False by auto
    qed
  qed
qed

section \<open>Groups\<close>

text \<open>The back references of a matcher, and that they are numbered consecutively.\<close>

fun groups :: "matcher \<Rightarrow> nat set" where
  "groups (PatternList ms) = (\<Union>m \<in> set ms. groups m)"
| "groups (Backref k m) = insert k (groups m)"
| "groups (Repeat repeatMin repeatMax m) = groups m"
| "groups (ComponentSet isInclusion ms) = (\<Union>m \<in> set ms. {cm_firstRef m ..< cm_firstRef m + cm_marks m})"

fun numbered :: "matcher \<Rightarrow> nat \<Rightarrow> nat \<Rightarrow> bool" where
  "numbered (PatternList []) a b = (a = b)"
| "numbered (PatternList (m # ms)) a b = (\<exists>c. numbered m a c \<and> numbered (PatternList ms) c b)"
| "numbered (Backref k m) a b = (k = a \<and> numbered m (a + 1) b)"
| "numbered (Repeat repeatMin repeatMax m) a b = numbered m a b"
| "numbered (ComponentSet isInclusion ms) a b = (a \<le> b \<and> groups (ComponentSet isInclusion ms) \<subseteq> {a ..< b})"

text \<open>
  What the results say after a match of \<open>w\<close>: a group holds the components that it matched, in the last repetition if there are several; a
  component expression has set its submatches.
\<close>

fun binds :: "boost_regex \<Rightarrow> refs \<Rightarrow> matcher \<Rightarrow> block list \<Rightarrow> bool" where
  "binds x r (PatternList []) w = (w = [])"
| "binds x r (PatternList (m # ms)) w = (\<exists>u v. w = u @ v \<and> binds x r m u \<and> binds x r (PatternList ms) v)"
| "binds x r (Backref k m) w = (r k = Components w \<and> binds x r m w)"
| "binds x r (Repeat repeatMin repeatMax m) w =
     (w = [] \<and> repeatMin = 0
      \<or> (\<exists>n u v. repeatMin \<le> Suc n \<and> Suc n \<le> repeatMax \<and> w = u @ v \<and> u \<in> powers (lang x m) n \<and> binds x r m v))"
| "binds x r (ComponentSet isInclusion ms) w =
     (\<exists>c. w = [c] \<and> (if isInclusion
        then \<exists>m \<in> set ms. comp_matches x m c \<and> (cm_expr m \<noteq> '''' \<longrightarrow>
               (\<forall>i < cm_marks m. r (cm_firstRef m + i) = Submatch (the (rx_match x (cm_expr m) (Component_toUri c)) ! i)))
        else \<forall>m \<in> set ms. \<not> comp_matches x m c))"

lemma numbered_groups: "numbered m a b \<Longrightarrow> a \<le> b \<and> groups m \<subseteq> {a ..< b}"
proof (induction m a b rule: numbered.induct)
  case (2 m ms a b)
  then obtain c where "numbered m a c" "numbered (PatternList ms) c b" by auto
  with 2 have "a \<le> c" "groups m \<subseteq> {a ..< c}" "c \<le> b" "groups (PatternList ms) \<subseteq> {c ..< b}" by blast+
  then show ?case by force
next
  case (3 k m a b)
  then have "a + 1 \<le> b" "groups m \<subseteq> {a + 1 ..< b}" by auto
  then show ?case using 3 by force
qed auto

lemma binds_cong: "\<forall>k \<in> groups m. r k = r' k \<Longrightarrow> binds x r m w \<longleftrightarrow> binds x r' m w"
proof (induction x r m w rule: binds.induct)
  case (2 x r m ms w)
  then show ?case by simp
next
  case (5 x r isInclusion ms w)
  have "r (cm_firstRef m + i) = r' (cm_firstRef m + i)" if "m \<in> set ms" "i < cm_marks m" for m i
    using 5 that by force
  then show ?case by (auto cong: conj_cong)
qed auto

lemma powers_append: "u \<in> powers L n \<Longrightarrow> v \<in> L \<Longrightarrow> u @ v \<in> powers L (Suc n)"
proof (induction n arbitrary: u)
  case 0
  then show ?case using append_Nil2 [of v] by auto
next
  case (Suc n)
  then obtain a b where "u = a @ b" "a \<in> L" "b @ v \<in> powers L (Suc n)" by auto
  then show ?case unfolding powers_simps(2) [of L "Suc n"] by auto
qed

text \<open>A way to match is in the language.\<close>

lemma binds_lang: "binds x r m w \<Longrightarrow> w \<in> lang x m"
proof (induction x r m w rule: binds.induct)
  case (2 x r m ms w)
  then show ?case by (auto 0 3)
next
  case (4 x r repeatMin repeatMax m w)
  from "4.prems" consider "w = []" "repeatMin = 0"
    | n u v where "repeatMin \<le> Suc n" "Suc n \<le> repeatMax" "w = u @ v" "u \<in> powers (lang x m) n" "binds x r m v" by auto
  then show ?case
  proof cases
    case 1
    then show ?thesis unfolding lang.simps by (intro UN_I [of 0]) simp_all
  next
    case 2
    then have "w \<in> powers (lang x m) (Suc n)" using "4.IH" powers_append by blast
    then show ?thesis using 2(1,2) unfolding lang.simps by (intro UN_I [of "Suc n"]) simp_all
  qed
next
  case (5 x r isInclusion ms w)
  then show ?case by (auto split: if_splits)
qed auto

text \<open>A match changes only the results of its groups.\<close>

definition changes :: "(nat \<Rightarrow> nat \<Rightarrow> refs \<Rightarrow> bool \<times> refs) \<Rightarrow> nat set \<Rightarrow> bool" where
  "changes f G \<longleftrightarrow> (\<forall>offset len st k. k \<notin> G \<longrightarrow> snd (f offset len st) k = st k)"

lemma try_down_unchanged:
  assumes "\<And>t st. snd (attempt t st) k = st k"
  shows "snd (try_down n attempt st) k = (st k :: 'b)"
proof (induction n arbitrary: st)
  case (Suc n)
  then show ?case using assms [of "Suc n" st] by (cases "attempt (Suc n) st") (auto split: bool.split)
qed (use assms in simp)

lemma attempt_unchanged:
  assumes "snd (f offset t st) k = (st k :: 'b)" "\<And>st. snd (g st) k = st k"
  shows "snd (case f offset t st of (True, st) \<Rightarrow> g st | (False, st) \<Rightarrow> (False, st)) k = st k"
  using assms by (cases "f offset t st") (auto split: bool.split)

lemma recursiveMatch_changes: "(\<And>f. f \<in> set fs \<Longrightarrow> changes f G) \<Longrightarrow> changes (recursiveMatch fs) G"
proof (induction fs)
  case (Cons f fs)
  then have "changes f G" "changes (recursiveMatch fs) G" by simp_all
  then show ?case unfolding changes_def recursiveMatch.simps
    by (intro allI impI try_down_unchanged attempt_unchanged) simp_all
qed (simp add: changes_def)

lemma repeatMatch_changes: "changes f G \<Longrightarrow> k \<notin> G \<Longrightarrow> snd (repeatMatch repeatMin repeatMax f repeat offset len st) k = st k"
proof (induction "repeatMax - repeat" arbitrary: repeat offset len st rule: less_induct)
  case less
  have "snd (try_down len (\<lambda>tried st. case f offset tried st of
      (True, st) \<Rightarrow> repeatMatch repeatMin repeatMax f (repeat + 1) (offset + tried) (len - tried) st
    | (False, st) \<Rightarrow> (False, st)) st) k = st k" if "repeat < repeatMax"
    by (intro try_down_unchanged attempt_unchanged less.hyps less.prems)
      (use less.prems that in \<open>auto simp: changes_def\<close>)
  then show ?case by (subst repeatMatch.simps) auto
qed

lemma component_match_changes: "k \<notin> {cm_firstRef m ..< cm_firstRef m + cm_marks m} \<Longrightarrow> snd (component_match x m c st) k = st k"
proof -
  assume k: "k \<notin> {cm_firstRef m ..< cm_firstRef m + cm_marks m}"
  have "fold (\<lambda>i st. st(cm_firstRef m + i := Submatch (subs ! i))) is st k = st k" if "set is \<subseteq> {..< cm_marks m}" for subs "is" st
    using that k by (induction "is" arbitrary: st) auto
  then show ?thesis by (auto simp: component_match_def atLeast0LessThan split: option.split)
qed

lemma set_loop_changes: "k \<notin> groups (ComponentSet b ms) \<Longrightarrow> snd (set_loop x c ms st) k = st k"
proof (induction ms arbitrary: st)
  case (Cons m ms)
  then show ?case using component_match_changes [of k m x c st] by (auto split: prod.split bool.split)
qed simp

lemma matcher_match_changes: "changes (matcher_match x cs m) (groups m)"
proof (induction m)
  case (PatternList ms)
  have "changes f (groups (PatternList ms))" if "f \<in> set (map (matcher_match x cs) ms)" for f
    using that PatternList by (auto simp: changes_def)
  from recursiveMatch_changes [of "map (matcher_match x cs) ms", OF this] show ?case by (simp add: changes_def)
next
  case (Backref k m)
  have "changes (matcher_match x cs m) (groups (Backref k m))" using Backref by (auto simp: changes_def)
  then have "changes (recursiveMatch [matcher_match x cs m]) (groups (Backref k m))"
    using recursiveMatch_changes [of "[matcher_match x cs m]"] by simp
  then have "snd (recursiveMatch [matcher_match x cs m] offset len (st(k := Components []))) i = st i" if "i \<notin> groups (Backref k m)" for offset len st i
    using that by (simp add: changes_def del: recursiveMatch.simps)
  then show ?case unfolding changes_def matcher_match.simps
    by (auto split: prod.split bool.split simp del: recursiveMatch.simps) (metis snd_conv)+
next
  case (Repeat repeatMin repeatMax m)
  then show ?case using repeatMatch_changes [OF Repeat] by (simp add: changes_def)
next
  case (ComponentSet isInclusion ms)
  show ?case unfolding changes_def matcher_match.simps
    using set_loop_changes [of _ isInclusion ms x] by (auto split: prod.split) (metis snd_conv)+
qed

lemma try_down_success: "try_down n attempt st = (True, st') \<Longrightarrow> \<exists>t \<le> n. \<exists>st1. attempt t st1 = (True, st')"
proof (induction n arbitrary: st)
  case (Suc n)
  obtain b st1 where a: "attempt (Suc n) st = (b, st1)" by force
  show ?case
  proof (cases b)
    case True
    then show ?thesis using Suc.prems a by auto
  next
    case False
    then show ?thesis using Suc.prems Suc.IH [of st1] a by (auto intro: le_SucI)
  qed
qed auto

lemma attempt_success:
  assumes "(case p of (True, st) \<Rightarrow> g st | (False, st) \<Rightarrow> (False, st)) = (True, st')"
  obtains st1 where "p = (True, st1)" "g st1 = (True, st')"
  using assms by (cases p) (auto split: bool.splits)

text \<open>A matcher that leaves its groups bound.\<close>

definition sets_groups :: "boost_regex \<Rightarrow> block list \<Rightarrow> matcher \<Rightarrow> bool" where
  "sets_groups x cs m \<longleftrightarrow> (\<forall>offset len st st'. offset + len \<le> length cs \<longrightarrow> matcher_match x cs m offset len st = (True, st')
     \<longrightarrow> binds x st' m (chunk cs offset (offset + len)))"

lemma PatternList_sets_groups:
  assumes "\<forall>m \<in> set ms. sets_groups x cs m" "numbered (PatternList ms) a b"
  shows "sets_groups x cs (PatternList ms)"
  using assms
proof (induction ms arbitrary: a)
  case Nil
  show ?case by (auto simp: sets_groups_def chunk_def)
next
  case (Cons m ms)
  obtain c where c: "numbered m a c" "numbered (PatternList ms) c b" using Cons.prems(2) by auto
  have disjoint: "groups m \<inter> groups (PatternList ms) = {}" using numbered_groups [OF c(1)] numbered_groups [OF c(2)] by force
  show ?case unfolding sets_groups_def
  proof (intro allI impI)
    fix offset len st st'
    assume range: "offset + len \<le> length cs" and match: "matcher_match x cs (PatternList (m # ms)) offset len st = (True, st')"
    from try_down_success [OF match [unfolded matcher_match.simps list.map recursiveMatch.simps]]
    obtain t st1 where t: "t \<le> len" "(case matcher_match x cs m offset t st1 of
        (True, st) \<Rightarrow> recursiveMatch (map (matcher_match x cs) ms) (offset + t) (len - t) st | (False, st) \<Rightarrow> (False, st)) = (True, st')" by blast
    from attempt_success [OF t(2)] obtain st2 where st2: "matcher_match x cs m offset t st1 = (True, st2)"
      "matcher_match x cs (PatternList ms) (offset + t) (len - t) st2 = (True, st')" by auto
    have "binds x st2 m (chunk cs offset (offset + t))" using Cons.prems(1) st2(1) t(1) range by (auto simp: sets_groups_def)
    moreover have "\<forall>k \<in> groups m. st2 k = st' k"
      using matcher_match_changes [of x cs "PatternList ms"] st2(2) disjoint unfolding changes_def by (metis disjoint_iff snd_conv)
    ultimately have "binds x st' m (chunk cs offset (offset + t))" using binds_cong by blast
    moreover have "binds x st' (PatternList ms) (chunk cs (offset + t) (offset + t + (len - t)))"
    proof -
      have "sets_groups x cs (PatternList ms)" using Cons.IH [OF _ c(2)] Cons.prems(1) by simp
      moreover have "offset + t + (len - t) \<le> length cs" using t(1) range by simp
      ultimately show ?thesis using st2(2) unfolding sets_groups_def by blast
    qed
    ultimately show "binds x st' (PatternList (m # ms)) (chunk cs offset (offset + len))"
      using chunk_cut [OF t(1) range] t(1) by auto
  qed
qed

lemma repeatMatch_binds:
  assumes "sets_groups x cs m" "offset + len \<le> length cs" "0 < len"
    and "repeatMatch repeatMin repeatMax (matcher_match x cs m) repeat offset len st = (True, st')"
  shows "\<exists>n u v. repeatMin \<le> repeat + Suc n \<and> repeat + Suc n \<le> repeatMax \<and> chunk cs offset (offset + len) = u @ v
    \<and> u \<in> powers (lang x m) n \<and> binds x st' m v"
  using assms(2-4)
proof (induction "repeatMax - repeat" arbitrary: repeat offset len st rule: less_induct)
  case less
  note unfold = less.prems(3) [unfolded repeatMatch.simps [of repeatMin repeatMax "matcher_match x cs m" repeat offset len st]]
  have lt: "repeat < repeatMax" using unfold less.prems(2) by (simp split: if_splits)
  have "try_down len (\<lambda>tried st. case matcher_match x cs m offset tried st of
      (True, st) \<Rightarrow> repeatMatch repeatMin repeatMax (matcher_match x cs m) (repeat + 1) (offset + tried) (len - tried) st
    | (False, st) \<Rightarrow> (False, st)) st = (True, st')"
    using unfold less.prems(2) lt by simp
  from try_down_success [OF this] obtain t st1 where t: "t \<le> len" "(case matcher_match x cs m offset t st1 of
      (True, st) \<Rightarrow> repeatMatch repeatMin repeatMax (matcher_match x cs m) (repeat + 1) (offset + t) (len - t) st
    | (False, st) \<Rightarrow> (False, st)) = (True, st')" by blast
  from attempt_success [OF t(2)] obtain st2 where st2: "matcher_match x cs m offset t st1 = (True, st2)"
    "repeatMatch repeatMin repeatMax (matcher_match x cs m) (repeat + 1) (offset + t) (len - t) st2 = (True, st')" by auto
  have piece: "binds x st2 m (chunk cs offset (offset + t))" using assms(1) st2(1) t(1) less.prems(1) by (auto simp: sets_groups_def)
  show ?case
  proof (cases "t = len")
    case True
    then have "st' = st2 \<and> repeatMin \<le> repeat + 1" using st2(2) by (subst (asm) repeatMatch.simps) (auto split: if_splits)
    with piece True lt show ?thesis by (intro exI [of _ 0] exI [of _ "[]"] exI [of _ "chunk cs offset (offset + len)"]) auto
  next
    case False
    then have "0 < len - t" "offset + t + (len - t) \<le> length cs" "repeatMax - (repeat + 1) < repeatMax - repeat" using t(1) less.prems(1) lt by auto
    from less.hyps [OF this(3,2,1) st2(2)] obtain n u v where n: "repeatMin \<le> repeat + 1 + Suc n" "repeat + 1 + Suc n \<le> repeatMax"
      "chunk cs (offset + t) (offset + t + (len - t)) = u @ v" "u \<in> powers (lang x m) n" "binds x st' m v" by blast
    then have "chunk cs offset (offset + len) = (chunk cs offset (offset + t) @ u) @ v" using chunk_cut [OF t(1) less.prems(1)] t(1) by simp
    moreover have "chunk cs offset (offset + t) @ u \<in> powers (lang x m) (Suc n)" using binds_lang [OF piece] n(4) by auto
    ultimately show ?thesis using n(1,2,5)
      by (intro exI [of _ "Suc n"] exI [of _ "chunk cs offset (offset + t) @ u"] exI [of _ v]) (simp del: powers_simps)
  qed
qed

lemma set_loop_binds:
  assumes "set_loop x c ms st = (True, st')"
  shows "\<exists>m \<in> set ms. comp_matches x m c \<and> (cm_expr m \<noteq> '''' \<longrightarrow>
    (\<forall>i < cm_marks m. st' (cm_firstRef m + i) = Submatch (the (rx_match x (cm_expr m) (Component_toUri c)) ! i)))"
  using assms
proof (induction ms arbitrary: st)
  case (Cons m ms)
  obtain b st1 where m: "component_match x m c st = (b, st1)" by force
  show ?case
  proof (cases b)
    case True
    have set: "fold (\<lambda>i st. st(cm_firstRef m + i := Submatch (subs ! i))) [0 ..< n] st0 (cm_firstRef m + i) = Submatch (subs ! i)"
      if "i < n" for subs n st0 i using that by (induction n) (auto simp: less_Suc_eq)
    show ?thesis using True m Cons.prems
      by (auto simp: component_match_def comp_matches_def set split: if_splits option.splits)
  next
    case False
    then show ?thesis using Cons m by auto
  qed
qed simp

lemma matcher_match_binds: "numbered m a b \<Longrightarrow> sets_groups x cs m"
proof (induction m arbitrary: a b)
  case (PatternList ms)
  have "\<forall>m \<in> set ms. \<exists>a b. numbered m a b"
    using PatternList.prems by (induction ms arbitrary: a) auto
  then have "\<forall>m \<in> set ms. sets_groups x cs m" using PatternList.IH by blast
  then show ?case using PatternList_sets_groups PatternList.prems by blast
next
  case (Backref k m)
  then have inner: "sets_groups x cs m" "k \<notin> groups m" using numbered_groups [of m "a + 1" b] by force+
  show ?case unfolding sets_groups_def
  proof (intro allI impI)
    fix offset len st st'
    assume range: "offset + len \<le> length cs" and match: "matcher_match x cs (Backref k m) offset len st = (True, st')"
    then obtain st1 where st1: "recursiveMatch [matcher_match x cs m] offset len (st(k := Components [])) = (True, st1)"
      "st' = st1(k := Components (chunk cs offset (offset + len)))"
      by (auto split: prod.splits bool.splits simp del: recursiveMatch.simps)
    from try_down_success [OF st1(1) [unfolded recursiveMatch.simps]] obtain t st2 where
      t: "t \<le> len" "(case matcher_match x cs m offset t st2 of (True, st) \<Rightarrow> (len - t = 0, st) | (False, st) \<Rightarrow> (False, st)) = (True, st1)" by blast
    from attempt_success [OF t(2)] have "t = len" "matcher_match x cs m offset len st2 = (True, st1)" using t(1) by auto
    then have "binds x st1 m (chunk cs offset (offset + len))" using inner(1) range by (auto simp: sets_groups_def)
    moreover have "\<forall>i \<in> groups m. st1 i = st' i" using inner(2) st1(2) by auto
    ultimately have "binds x st' m (chunk cs offset (offset + len))" using binds_cong [of m st1 st' x] by blast
    then show "binds x st' (Backref k m) (chunk cs offset (offset + len))" by (simp add: st1(2))
  qed
next
  case (Repeat repeatMin repeatMax m)
  then have "sets_groups x cs m" by auto
  have "binds x st' (Repeat repeatMin repeatMax m) (chunk cs offset (offset + len))" if range: "offset + len \<le> length cs"
    and match: "matcher_match x cs (Repeat repeatMin repeatMax m) offset len st = (True, st')" for offset len st st'
  proof (cases "len = 0")
    case True
    then show ?thesis using match by (auto simp: repeatMatch.simps chunk_def split: if_splits)
  next
    case False
    with match show ?thesis using repeatMatch_binds [OF \<open>sets_groups x cs m\<close> range] by fastforce
  qed
  then show ?case unfolding sets_groups_def by simp
next
  case (ComponentSet isInclusion ms)
  show ?case unfolding sets_groups_def
  proof (intro allI impI)
    fix offset len st st'
    assume range: "offset + len \<le> length cs" and match: "matcher_match x cs (ComponentSet isInclusion ms) offset len st = (True, st')"
    then have one: "len = 1" by (auto split: if_splits)
    then have "chunk cs offset (offset + len) = [cs ! offset]" using range by (simp add: chunk_def Cons_nth_drop_Suc [symmetric])
    moreover obtain b where b: "set_loop x (cs ! offset) ms st = (b, st')" "isInclusion \<longleftrightarrow> b"
      using match one by (auto split: prod.splits if_splits)
    ultimately show "binds x st' (ComponentSet isInclusion ms) (chunk cs offset (offset + len))"
      using set_loop_binds [of x "cs ! offset" ms st st'] set_loop_result [of x "cs ! offset" ms st] by (cases b) auto
  qed
qed

end
