(* ===== verification/NameRegexTop.thy ===== *)
theory NameRegexTop
  imports NameRegex
begin

text \<open>
  Compiled name expressions: the numbering of groups, the expressions made from names, and what \<open>RegexTopMatcher\<close> (\<open>src/util/regex/regex-top-matcher.cpp\<close>)
  matches and expands.
\<close>

section \<open>Compiled expressions\<close>

text \<open>The order of the component matchers in a set does not add any.\<close>

definition order_ok :: "boost_regex \<Rightarrow> bool" where
  "order_ok x \<longleftrightarrow> (\<forall>ms. set (rx_order x ms) = set ms)"

lemma compile_component_range:
  "compile_component x e n = Inr (m, n') \<Longrightarrow> n \<le> n' \<and> {cm_firstRef m ..< cm_firstRef m + cm_marks m} \<subseteq> {n ..< n'}"
  by (auto simp: compile_component_def split: if_splits)

lemma compileMultipleComponents_range:
  "compileMultipleComponents x expr index lastIndex n = Inr (ms, n')
    \<Longrightarrow> n \<le> n' \<and> groups (ComponentSet b ms) \<subseteq> {n ..< n'}"
proof (induction x expr index lastIndex n arbitrary: ms n' rule: compileMultipleComponents.induct)
  case (1 x expr index lastIndex n)
  show ?case
  proof (cases "index < lastIndex")
    case True
    then obtain k c n1 ms1 where k: "expr ! index = CHR ''<''" "extractComponent expr (index + 1) 1 0 = Inr k"
      "compile_component x (substr expr (index + 1) (k - (index + 1) - 1)) n = Inr (c, n1)"
      "compileMultipleComponents x expr k lastIndex n1 = Inr (ms1, n')" "ms = c # ms1"
      using "1.prems" by (subst (asm) compileMultipleComponents.simps) (auto simp: bindE_iffs split: if_splits)
    from "1.IH" [OF True _ k(2,3) refl k(4)] k(1) have "n1 \<le> n'" "groups (ComponentSet b ms1) \<subseteq> {n1 ..< n'}" by auto
    with compile_component_range [OF k(3)] k(5) show ?thesis by force
  next
    case False
    then show ?thesis using "1.prems" by (subst (asm) compileMultipleComponents.simps) (auto split: if_splits)
  qed
qed

lemma compile_set_numbered:
  assumes "compile_set x expr n = Inr (m, n')" "order_ok x"
  shows "numbered m n n'"
proof -
  consider c where "compile_component x (substr expr 1 (length expr - 2)) n = Inr (c, n')" "m = ComponentSet True (rx_order x [c])"
    | ms b k where "compileMultipleComponents x expr k (length expr - 1) n = Inr (ms, n')" "m = ComponentSet b (rx_order x ms)"
    using assms(1) by (auto simp: compile_set_def Let_def bindE_iffs split: if_splits)
  then show ?thesis
  proof cases
    case 1
    then show ?thesis using compile_component_range [OF 1(1)] assms(2) by (simp add: order_ok_def)
  next
    case 2
    then show ?thesis using compileMultipleComponents_range [OF 2(1), of b] assms(2) by (simp add: order_ok_def)
  qed
qed

text \<open>The two ways in which a pattern of the list is compiled.\<close>

lemma compile_patterns_cases:
  assumes "compile_patterns x expr index n = Inr (ms, n')"
  obtains (finished) "\<not> index < length expr" "ms = []" "n' = n"
  | (group) sub ms1 n1 close m rest where "index < length expr" "compile_patterns x sub 0 (n + 1) = Inr (ms1, n1)"
      "m = Backref n (PatternList ms1) \<or> (\<exists>a b. m = Repeat a b (Backref n (PatternList ms1)))"
      "compile_patterns x expr close n1 = Inr (rest, n')" "ms = m # rest"
      "length sub < length expr" "index < close"
  | (set) sub m n1 close a b rest where "index < length expr" "compile_set x sub n = Inr (m, n1)"
      "compile_patterns x expr close n1 = Inr (rest, n')" "ms = Repeat a b m # rest" "index < close"
proof (cases "index < length expr")
  case False
  then show thesis using assms finished by (subst (asm) compile_patterns.simps) simp
next
  case True
  note unfold = assms [unfolded compile_patterns.simps [of x expr index n]]
  show thesis
  proof (cases "expr ! index = CHR ''(''")
    case open_paren: True
    let ?sub = "\<lambda>i. substr expr index (i - index)"
    obtain i close where i: "extractSubPattern expr (CHR ''('') (CHR '')'') (index + 1) 1 0 = Inr i" "extractRepetition expr i = Inr close"
      and rest: "\<not> (length (?sub i) < 2 \<or> ?sub i ! 0 \<noteq> CHR ''('' \<or> ?sub i ! (length (?sub i) - 1) \<noteq> CHR '')'')"
      "bindE (compile_patterns x (substr (?sub i) 1 (length (?sub i) - 2)) 0 (n + 1)) (\<lambda>(ms, nRefs').
         bindE (if i = close then Inr (Backref n (PatternList ms))
                else bindE (parseRepetition x (substr expr index (close - index)) (i - index)) (\<lambda>(repeatMin, repeatMax).
                  Inr (Repeat repeatMin repeatMax (Backref n (PatternList ms))))) (\<lambda>m.
         bindE (compile_patterns x expr close nRefs') (\<lambda>(ms, nRefs'). Inr (m # ms, nRefs')))) = Inr (ms, n')"
      using unfold True open_paren by (auto simp: Let_def elim!: bindE_InrE split: if_splits)
    from rest(2) obtain y where y: "compile_patterns x (substr (?sub i) 1 (length (?sub i) - 2)) 0 (n + 1) = Inr y"
      "(case y of (ms, nRefs') \<Rightarrow>
         bindE (if i = close then Inr (Backref n (PatternList ms))
                else bindE (parseRepetition x (substr expr index (close - index)) (i - index)) (\<lambda>(repeatMin, repeatMax).
                  Inr (Repeat repeatMin repeatMax (Backref n (PatternList ms))))) (\<lambda>m.
         bindE (compile_patterns x expr close nRefs') (\<lambda>(ms, nRefs'). Inr (m # ms, nRefs')))) = Inr (ms, n')" by (rule bindE_InrE)
    obtain ms1 n1 where ms1: "y = (ms1, n1)" by force
    from y(2) [unfolded ms1 prod.case] obtain m where
      m: "(if i = close then Inr (Backref n (PatternList ms1))
           else bindE (parseRepetition x (substr expr index (close - index)) (i - index)) (\<lambda>(repeatMin, repeatMax).
             Inr (Repeat repeatMin repeatMax (Backref n (PatternList ms1))))) = Inr m"
      "bindE (compile_patterns x expr close n1) (\<lambda>(ms, nRefs'). Inr (m # ms, nRefs')) = Inr (ms, n')" by (rule bindE_InrE)
    have kind: "m = Backref n (PatternList ms1) \<or> (\<exists>a b. m = Repeat a b (Backref n (PatternList ms1)))"
      using m(1) by (auto elim!: bindE_InrE split: if_splits)
    obtain rest' where tail: "compile_patterns x expr close n1 = Inr (rest', n')" "ms = m # rest'" using m(2) by (auto elim!: bindE_InrE)
    have "index < i" "i \<le> length expr" "i \<le> close" using extractSubPattern_bounds [OF i(1)] extractRepetition_bounds [OF i(2)] by auto
    moreover from this have "length (substr (?sub i) 1 (length (?sub i) - 2)) < length expr" using True by (simp add: substr_def)
    ultimately show thesis using group [OF True y(1) [unfolded ms1] kind tail] by simp
  next
    case False
    then obtain i close m n1 a b rest where i: "extractSubPattern expr (expr ! index) (if expr ! index = CHR ''<'' then CHR ''>'' else CHR '']'') (index + 1) 1 0 = Inr i"
      "extractRepetition expr i = Inr close" "compile_set x (substr expr index (i - index)) n = Inr (m, n1)"
      "compile_patterns x expr close n1 = Inr (rest, n')" "ms = Repeat a b m # rest"
      using unfold True by (auto elim!: bindE_InrE split: if_splits)
    have "index < close" using extractSubPattern_bounds [OF i(1)] extractRepetition_bounds [OF i(2)] by auto
    then show thesis using set [OF True i(3-5)] by simp
  qed
qed

lemma compile_patterns_numbered:
  assumes "order_ok x"
  shows "compile_patterns x expr index n = Inr (ms, n') \<Longrightarrow> numbered (PatternList ms) n n'"
proof (induction "(expr, index)" arbitrary: expr index n ms n'
    rule: wf_induct_rule [OF wf_measures [of "[\<lambda>(expr, _). length expr, \<lambda>(expr, index). length expr - index]"]])
  case 1
  from "1.prems" show ?case
  proof (cases rule: compile_patterns_cases)
    case (group sub ms1 n1 close m rest)
    have "numbered (PatternList ms1) (n + 1) n1" "numbered (PatternList rest) n1 n'"
      using "1.hyps" [OF _ group(2)] "1.hyps" [OF _ group(4)] group(1,6,7) by auto
    then show ?thesis using group(3,5) by auto
  next
    case (set sub m n1 close a b rest)
    have "numbered (PatternList rest) n1 n'" using "1.hyps" [OF _ set(3)] set(1,5) by auto
    then show ?thesis using compile_set_numbered [OF set(2) assms] set(4) by auto
  qed simp
qed

section \<open>Matchers from names\<close>

lemma hexDigit_no_angle: "k \<in> {CHR ''<'', CHR ''>''} \<Longrightarrow> n < 16 \<Longrightarrow> k \<noteq> hexDigit up n"
  using hexDigit_chars(1) [of n up] by (auto simp: fromHexChar_def byte_of_char_def)

lemma Component_toUri_no_angle:
  assumes k: "k \<in> {CHR ''<'', CHR ''>''}"
  shows "k \<notin> set (Component_toUri c)"
proof -
  have "k \<noteq> char_of_byte b" if "unreserved b" for b
    using unreserved_code [OF that] byte_unat_bound [of b] k by (auto simp: char_of_byte_def char_of_eq_iff_nat)
  moreover have hex: "k \<noteq> hexDigit up (unat b div 16)" "k \<noteq> hexDigit up (unat b mod 16)" for up and b :: byte
    using hexDigit_no_angle [OF k nibble_bound, of up b] hexDigit_no_angle [OF k, of "unat b mod 16" up] by auto
  ultimately have "k \<notin> set (escape b)" for b using k by (auto simp: escape_alt)
  moreover have "k \<notin> set (printHex bs up)" for bs up using hex by (auto simp: printHex_def)
  ultimately show ?thesis using k by (auto simp: Component_toUri_def Let_def getSha256DigestUriPrefix_def)
qed

text \<open>Strings that can stand between angle brackets.\<close>

definition plain :: "string \<Rightarrow> bool" where
  "plain s \<longleftrightarrow> set s \<inter> {CHR ''<'', CHR ''>'', CHR 0x00} = {}"

lemma plain_simps [simp]: "plain []" "plain (c # s) \<longleftrightarrow> c \<noteq> CHR ''<'' \<and> c \<noteq> CHR ''>'' \<and> c \<noteq> CHR 0x00 \<and> plain s"
  by (auto simp: plain_def)

lemma plain_convert: "plain s \<Longrightarrow> plain (convertSpecialChar s)"
  unfolding convertSpecialChar_def by (induction s) (auto simp: plain_def)

lemma plain_uri: "plain (Component_toUri c)"
  using Component_toUri_no_angle [of _ c] Component_toUri_not_NUL [of c] by (auto simp: plain_def)

lemma nth_middle [simp]: "(pre @ c # post) ! length pre = c"
  by (simp add: nth_append)

text \<open>Both scans stop behind the closing bracket.\<close>

lemma extractSubPattern_plain:
  "plain s \<Longrightarrow> extractSubPattern (pre @ s @ CHR ''>'' # post) (CHR ''<'') (CHR ''>'') (length pre) 1 0 = Inr (length pre + length s + 1)"
proof (induction s arbitrary: pre)
  case Nil
  show ?case by (subst extractSubPattern.simps) (simp add: extractSubPattern.simps nth_append)
next
  case (Cons c s)
  then show ?case using Cons.IH [of "pre @ [c]"] by (subst extractSubPattern.simps) (auto simp: nth_append)
qed

lemma extractComponent_plain:
  "plain s \<Longrightarrow> extractComponent (pre @ s @ CHR ''>'' # post) (length pre) 1 0 = Inr (length pre + length s + 1)"
proof (induction s arbitrary: pre)
  case Nil
  show ?case by (subst extractComponent.simps) (simp add: extractComponent.simps nth_append char_at_def)
next
  case (Cons c s)
  then show ?case using Cons.IH [of "pre @ [c]"] by (subst extractComponent.simps) (simp add: nth_append char_at_def)
qed

definition literal :: "string \<Rightarrow> string" where
  "literal s = CHR ''<'' # s @ ''>''"

lemma compile_set_literal:
  assumes "plain s" "rx_valid x s"
  shows "compile_set x (literal s) n
    = Inr (ComponentSet True (rx_order x [\<lparr>cm_expr = s, cm_firstRef = n, cm_marks = rx_mark_count x s\<rparr>]), n + rx_mark_count x s)"
  using extractComponent_plain [OF assms(1), of "''<''" "[]"] assms(2)
  by (simp add: compile_set_def literal_def substr_def compile_component_def)

text \<open>What a literal with a repetition compiles to.\<close>

definition literal_matcher :: "boost_regex \<Rightarrow> string \<Rightarrow> nat \<Rightarrow> bool \<Rightarrow> matcher" where
  "literal_matcher x s n star =
     Repeat (if star then 0 else 1) (if star then MAX_REPETITIONS else 1)
       (ComponentSet True (rx_order x [\<lparr>cm_expr = s, cm_firstRef = n, cm_marks = rx_mark_count x s\<rparr>]))"

lemma compile_literal:
  assumes "plain s" "rx_valid x s" "post = [] \<or> hd post = CHR ''<''"
    and "expr = pre @ literal s @ (if star then ''*'' else '''') @ post"
  shows "compile_patterns x expr (length pre) n =
    bindE (compile_patterns x expr (length pre + length (literal s) + (if star then 1 else 0)) (n + rx_mark_count x s)) (\<lambda>(ms, n').
      Inr (literal_matcher x s n star # ms, n'))"
proof -
  let ?i = "length pre" and ?k = "length pre + length (literal s)"
  let ?rest = "(if star then ''*'' else '''') @ post"
  have expr: "expr = pre @ literal s @ ?rest" "expr = (pre @ ''<'') @ s @ CHR ''>'' # ?rest" using assms(4) by (simp_all add: literal_def)
  have at: "expr ! ?i = CHR ''<''" "?i < length expr" using expr(2) by simp_all
  have sub: "extractSubPattern expr (CHR ''<'') (CHR ''>'') (?i + 1) 1 0 = Inr ?k"
    using extractSubPattern_plain [OF assms(1), of "pre @ ''<''" ?rest] by (simp add: expr(2) literal_def)
  have drop: "drop ?k expr = ?rest" "drop ?i expr = literal s @ ?rest" using expr(1) by simp_all
  have rep: "extractRepetition expr ?k = Inr (?k + (if star then 1 else 0))"
  proof (cases ?rest)
    case Nil
    then show ?thesis using drop(1) expr(1) by (auto simp: extractRepetition_def split: if_splits)
  next
    case (Cons c cs)
    then have "expr ! ?k = c" "?k < length expr" using expr(1) by (simp_all add: nth_append)
    moreover have "c = (if star then CHR ''*'' else CHR ''<'')" using Cons assms(3) by (auto split: if_splits)
    ultimately show ?thesis by (simp add: extractRepetition_def)
  qed
  have substr: "substr expr ?i (?k - ?i) = literal s"
    "substr expr ?i (?k + (if star then 1 else 0) - ?i) = literal s @ (if star then ''*'' else '''')"
    unfolding substr_def drop(2) by simp_all
  have par: "parseRepetition x (literal s @ (if star then ''*'' else '''')) (?k - ?i)
    = Inr (if star then 0 else 1, if star then MAX_REPETITIONS else 1)"
    by (simp add: parseRepetition_def nth_append)
  have par': "CHR ''<'' \<noteq> CHR ''(''" by simp
  show ?thesis
    by (subst compile_patterns.simps)
      (simp only: at sub rep substr par compile_set_literal [OF assms(1,2)] literal_matcher_def par' bindE_simps prod.case
        simp_thms not_not if_True if_False refl)
qed

text \<open>A sequence of literals, perhaps with the expression for any components behind.\<close>

definition seq_expr :: "string list \<Rightarrow> bool \<Rightarrow> string" where
  "seq_expr ss open = concat (map literal ss) @ (if open then ''<.*>*'' else '''')"

lemma compile_seq:
  assumes "\<forall>s \<in> set ss. plain s \<and> rx_valid x s \<and> rx_mark_count x s = 0" "rx_valid x ''.*''" "rx_mark_count x ''.*'' = 0"
  shows "compile_patterns x (pre @ seq_expr ss open) (length pre) n
    = Inr (map (\<lambda>s. literal_matcher x s n False) ss @ (if open then [literal_matcher x ''.*'' n True] else []), n)"
  using assms(1)
proof (induction ss arbitrary: pre)
  case Nil
  show ?case
  proof (cases "open")
    case True
    have expr: "pre @ seq_expr [] open = pre @ literal ''.*'' @ (if True then ''*'' else '''') @ []"
      using True by (simp add: seq_expr_def literal_def)
    have len: "length pre + length (literal ''.*'') + (if True then 1 else 0) = length (pre @ seq_expr [] open)"
      using True by (simp add: seq_expr_def literal_def)
    have "compile_patterns x (pre @ seq_expr [] open) (length (pre @ seq_expr [] open)) n = Inr ([], n)"
      by (subst compile_patterns.simps) simp
    then show ?thesis using compile_literal [OF _ assms(2) _ expr, of n] unfolding len assms(3) by (simp add: True)
  next
    case False
    then show ?thesis by (subst compile_patterns.simps) (simp add: seq_expr_def)
  qed
next
  case (Cons s ss)
  have expr: "pre @ seq_expr (s # ss) open = pre @ literal s @ (if False then ''*'' else '''') @ seq_expr ss open" by (simp add: seq_expr_def)
  have hd: "seq_expr ss open = [] \<or> hd (seq_expr ss open) = CHR ''<''" by (cases ss) (auto simp: seq_expr_def literal_def)
  have s: "plain s" "rx_valid x s" "rx_mark_count x s = 0" using Cons.prems by simp_all
  from Cons.IH [of "pre @ literal s"] Cons.prems
  have "compile_patterns x (pre @ seq_expr (s # ss) open) (length pre + length (literal s)) n
    = Inr (map (\<lambda>s. literal_matcher x s n False) ss @ (if open then [literal_matcher x ''.*'' n True] else []), n)"
    by (simp add: expr)
  then show ?case unfolding compile_literal [OF s(1,2) hd expr] by (simp add: s(3))
qed

section \<open>Properties\<close>

lemma matcher_decides:
  assumes "proper x m"
  shows "fst (matcher_match x cs m 0 (length cs) st) \<longleftrightarrow> cs \<in> lang x m"
  using matcher_match_recognises [OF assms, of cs] by (simp add: recognises_def chunk_def)

lemma top_match_primary:
  assumes "proper x (rt_primary t)" "rt_secondary t = None"
  shows "fst (top_match x t name) \<longleftrightarrow> comps name \<in> lang x (rt_primary t)"
proof -
  let ?cs = "comps name"
  obtain b st where p: "matcher_match x ?cs (rt_primary t) 0 (length ?cs) (rt_primaryResults t) = (b, st)" by force
  then have "b \<longleftrightarrow> ?cs \<in> lang x (rt_primary t)" using matcher_decides [OF assms(1), of ?cs "rt_primaryResults t"] by simp
  then show ?thesis using p assms(2) by (cases b) (simp_all add: top_match_def Let_def)
qed

text \<open>
  C26. \<open>RegexTopMatcher::match\<close> decides the language of the expression: for an expression without a repetition that must occur of something
  that may be empty, it returns true exactly if the components of the name are in the language of the
  primary matcher or, without a leading anchor, of the secondary matcher; and then \<open>m_matchResult\<close> is the whole name. (A repetition of something that may be empty, where the code recurses without progress until the stack
  is exhausted, counts as returning here.)
\<close>

theorem regex_match_language:
  assumes "proper x (rt_primary t)" "\<forall>m \<in> set_option (rt_secondary t). proper x m"
  shows "(fst (top_match x t name) \<longleftrightarrow> comps name \<in> lang x (rt_primary t) \<union> (\<Union>m \<in> set_option (rt_secondary t). lang x m))
    \<and> rt_matchResult (snd (top_match x t name)) = (if fst (top_match x t name) then comps name else [])
    \<and> (rt_isSecondaryUsed (snd (top_match x t name)) \<longleftrightarrow> fst (top_match x t name) \<and> comps name \<notin> lang x (rt_primary t))"
proof -
  let ?cs = "comps name"
  obtain b st where p: "matcher_match x ?cs (rt_primary t) 0 (length ?cs) (rt_primaryResults t) = (b, st)" by force
  then have b: "b \<longleftrightarrow> ?cs \<in> lang x (rt_primary t)" using matcher_decides [OF assms(1), of ?cs "rt_primaryResults t"] by simp
  show ?thesis
  proof (cases "b \<or> rt_secondary t = None")
    case True
    then show ?thesis using p b by (cases b) (simp_all add: top_match_def Let_def)
  next
    case False
    then obtain m where m: "rt_secondary t = Some m" by auto
    obtain c st' where s: "matcher_match x ?cs m 0 (length ?cs) (rt_secondaryResults t) = (c, st')" by force
    then have "c \<longleftrightarrow> ?cs \<in> lang x m" using matcher_decides [of x m ?cs "rt_secondaryResults t"] assms(2) m by simp
    then show ?thesis using p b s m False by (cases c) (simp_all add: top_match_def Let_def)
  qed
qed

text \<open>
  C27. After a successful match, the back references of the matcher that was used are those of one way to match the name: each group
  that took part holds the components it matched (in the last repetition), and each component expression its submatches.
\<close>

theorem regex_groups_bound:
  assumes "RegexTopMatcher x expr expand = Inr t0" "order_ok x" "rt_primary t = rt_primary t0" "rt_secondary t = rt_secondary t0"
    and "top_match x t name = (True, t')"
  shows "if rt_isSecondaryUsed t' then \<exists>m. rt_secondary t0 = Some m \<and> binds x (rt_secondaryResults t') m (comps name)
    else binds x (rt_primaryResults t') (rt_primary t0) (comps name)"
proof -
  let ?cs = "comps name"
  have numbered: "\<exists>n. numbered m 0 n" if "compile_list x e 0 = Inr (m, k)" for e m k
    using that compile_patterns_numbered [OF assms(2)] by (auto simp: compile_list_def intro!: exI [of _ k] elim!: bindE_InrE)
  have bound: "binds x st' m ?cs" if "numbered m 0 n" "matcher_match x ?cs m 0 (length ?cs) st = (True, st')" for m n st st'
  proof -
    have "binds x st' m (chunk ?cs 0 (0 + length ?cs))"
      using matcher_match_binds [OF that(1), of x ?cs] that(2) unfolding sets_groups_def by (metis add_0 order_refl)
    then show ?thesis by (simp add: chunk_def)
  qed
  have primary: "\<exists>n. numbered (rt_primary t0) 0 n"
    using assms(1) numbered by (auto simp: RegexTopMatcher_def Let_def elim!: bindE_InrE split: if_splits)
  have secondary: "\<exists>n. numbered m 0 n" if "rt_secondary t0 = Some m" for m
    using assms(1) numbered that by (auto simp: RegexTopMatcher_def Let_def elim!: bindE_InrE split: if_splits)
  obtain b st where p: "matcher_match x ?cs (rt_primary t0) 0 (length ?cs) (rt_primaryResults t) = (b, st)" by force
  show ?thesis
  proof (cases b)
    case True
    then have "t' = t\<lparr>rt_isSecondaryUsed := False, rt_primaryResults := st, rt_matchResult := ?cs\<rparr>"
      using assms(5) p by (simp add: top_match_def assms(3) Let_def)
    then show ?thesis using bound p True primary by auto
  next
    case False
    then obtain m st' where m: "rt_secondary t0 = Some m" "matcher_match x ?cs m 0 (length ?cs) (rt_secondaryResults t) = (True, st')"
      "rt_secondaryResults t' = st'" "rt_isSecondaryUsed t'"
      using assms(5) p by (auto simp: top_match_def assms(3,4) Let_def split: option.splits prod.splits bool.splits)
    then show ?thesis using bound secondary by auto
  qed
qed

text \<open>What \<open>boost::regex\<close> does with the expressions that \<open>fromName\<close> makes.\<close>

definition literal_laws :: "boost_regex \<Rightarrow> bool" where
  "literal_laws x \<longleftrightarrow> order_ok x \<and> rx_valid x ''.*'' \<and> rx_mark_count x ''.*'' = 0 \<and> (\<forall>t. plain t \<longrightarrow> rx_match x ''.*'' t \<noteq> None)
     \<and> (\<forall>s. plain s \<and> s \<noteq> [] \<longrightarrow> rx_valid x (convertSpecialChar s) \<and> rx_mark_count x (convertSpecialChar s) = 0
         \<and> (\<forall>t. rx_match x (convertSpecialChar s) t \<noteq> None \<longleftrightarrow> t = s))"

lemma powers_1 [simp]: "powers L (Suc 0) = L"
  by auto

lemma conc_single: "w \<in> {u @ v |u v. u \<in> {[d] |d. P d} \<and> v \<in> A} \<longleftrightarrow> (\<exists>d v. w = d # v \<and> P d \<and> v \<in> A)"
  by auto (metis append_Cons append_Nil)

lemma literal_lang:
  assumes "order_ok x"
  shows "lang x (literal_matcher x s n False) = {[c] |c. s = '''' \<or> rx_match x s (Component_toUri c) \<noteq> None}"
  using assms by (auto simp: literal_matcher_def order_ok_def comp_matches_def)

lemma any_lang:
  assumes "literal_laws x"
  shows "lang x (literal_matcher x ''.*'' n True) = {w. length w \<le> MAX_REPETITIONS}"
proof -
  have "lang x (ComponentSet True (rx_order x [\<lparr>cm_expr = ''.*'', cm_firstRef = n, cm_marks = rx_mark_count x ''.*''\<rparr>])) = {[c] |c. True}"
    using assms plain_uri by (auto simp: literal_laws_def order_ok_def comp_matches_def)
  moreover have "powers {[c] |c. True} k = {w :: block list. length w = k}" for k
  proof (induction k)
    case (Suc k)
    have "w \<in> powers {[c] |c. True} (Suc k) \<longleftrightarrow> length w = Suc k" for w :: "block list"
      unfolding powers_simps conc_single Suc by (auto simp: length_Suc_conv)
    then show ?case by blast
  qed simp
  ultimately show ?thesis by (auto simp: literal_matcher_def)
qed

lemma proper_literal: "order_ok x \<Longrightarrow> proper x (literal_matcher x s n star)"
  by (simp add: literal_matcher_def)

lemma conc_literals:
  assumes "literal_laws x"
  shows "w \<in> conc_all (map (\<lambda>c. lang x (literal_matcher x (convertSpecialChar (Component_toUri c)) n False)) cs @ Ls)
    \<longleftrightarrow> map Component_toUri (take (length cs) w) = map Component_toUri cs \<and> length cs \<le> length w \<and> drop (length cs) w \<in> conc_all Ls"
proof (induction cs arbitrary: w)
  case (Cons c cs)
  have "convertSpecialChar (Component_toUri c) \<noteq> ''''" by (cases "Component_toUri c") (auto simp: convertSpecialChar_def dest: arg_cong [of _ _ length])
  then have L: "lang x (literal_matcher x (convertSpecialChar (Component_toUri c)) n False) = {[d] |d. Component_toUri d = Component_toUri c}"
    using assms plain_uri [of c] literal_lang [of x] by (auto simp: literal_laws_def)
  show ?case
  proof (cases w)
    case Nil
    then show ?thesis by (auto simp: L)
  next
    case (Cons d v)
    show ?thesis unfolding list.map append_Cons conc_all.simps L conc_single using Cons.IH [of v] Cons by auto
  qed
qed simp

text \<open>
  \<open>fromName\<close> makes an expression that compiles, and its matcher accepts exactly the names whose components have the same URIs (with an
  anchor) or that start with such components (without). The laws of \<open>boost::regex\<close> are assumed for the expressions used: an escaped string
  matches that string only, and \<open>.*\<close> everything.
\<close>

theorem fromName_matches:
  assumes "literal_laws x"
  shows "\<exists>t. fromName x n hasAnchor = Inr t
    \<and> (\<forall>m. Name_size m < 2 ^ 64 \<longrightarrow> (fst (top_match x t m) \<longleftrightarrow>
          (if hasAnchor then map Component_toUri (comps m) = map Component_toUri (comps n)
           else take (Name_size n) (map Component_toUri (comps m)) = map Component_toUri (comps n))))"
proof -
  let ?ss = "map (\<lambda>c. convertSpecialChar (Component_toUri c)) (comps n)"
  let ?ms = "map (\<lambda>s. literal_matcher x s 0 False) ?ss @ (if hasAnchor then [] else [literal_matcher x ''.*'' 0 True])"
  have lits: "fromName_expr n hasAnchor = ''^'' @ concat (map literal ?ss) @ (if hasAnchor then ''$'' else '''')"
    by (simp add: fromName_expr_def literal_def comp_def)
  have last: "last (fromName_expr n hasAnchor) = CHR ''$'' \<longleftrightarrow> hasAnchor"
    unfolding lits by (cases ?ss rule: rev_cases) (auto simp: literal_def)
  have expr: "(if last (fromName_expr n hasAnchor) \<noteq> CHR ''$'' then fromName_expr n hasAnchor @ ''<.*>*''
      else substr (fromName_expr n hasAnchor) 0 (length (fromName_expr n hasAnchor) - 1)) = ''^'' @ seq_expr ?ss (\<not> hasAnchor)"
    unfolding last using lits by (cases hasAnchor) (simp_all add: seq_expr_def substr_def)
  have valid: "\<forall>s \<in> set ?ss. plain s \<and> rx_valid x s \<and> rx_mark_count x s = 0" "rx_valid x ''.*''" "rx_mark_count x ''.*'' = 0"
    using assms plain_uri plain_convert by (auto simp: literal_laws_def)
  have "compile_list x (seq_expr ?ss (\<not> hasAnchor)) 0 = Inr (PatternList ?ms, 0)"
    using compile_seq [OF valid, of "[]" "\<not> hasAnchor" 0] by (auto simp: compile_list_def)
  then obtain t where t: "fromName x n hasAnchor = Inr t" "rt_primary t = PatternList ?ms" "rt_secondary t = None"
    unfolding fromName_def RegexTopMatcher_def Let_def expr by (simp add: substr_def char_at_def lits)
  have ok: "order_ok x" using assms by (simp add: literal_laws_def)
  have "proper x (rt_primary t)" using proper_literal [OF ok] by (auto simp: t(2))
  then have match: "fst (top_match x t m) \<longleftrightarrow> comps m \<in> lang x (PatternList ?ms)" for m
    using top_match_primary [of x t m] t by simp
  have "fst (top_match x t m) \<longleftrightarrow> (if hasAnchor then map Component_toUri (comps m) = map Component_toUri (comps n)
      else take (Name_size n) (map Component_toUri (comps m)) = map Component_toUri (comps n))" if "Name_size m < 2 ^ 64" for m
  proof -
    let ?Ls = "if hasAnchor then [] else [lang x (literal_matcher x ''.*'' 0 True)]"
    have langs: "map (lang x) ?ms = map (\<lambda>c. lang x (literal_matcher x (convertSpecialChar (Component_toUri c)) 0 False)) (comps n) @ ?Ls"
      by (simp add: comp_def)
    have "fst (top_match x t m) \<longleftrightarrow> map Component_toUri (take (Name_size n) (comps m)) = map Component_toUri (comps n)
      \<and> Name_size n \<le> Name_size m \<and> drop (Name_size n) (comps m) \<in> conc_all ?Ls"
      unfolding match lang.simps langs conc_literals [OF assms, of "comps m" 0 "comps n" ?Ls] Name_size_def by (rule refl)
    moreover have "drop (Name_size n) (comps m) \<in> conc_all ?Ls \<longleftrightarrow> \<not> hasAnchor \<or> Name_size m \<le> Name_size n"
      using that any_lang [OF assms] by (auto simp: MAX_REPETITIONS_def Name_size_def)
    ultimately show ?thesis
      by (auto simp: take_map Name_size_def dest: map_eq_imp_length_eq arg_cong [of _ _ length])
  qed
  with t(1) show ?thesis by blast
qed

text \<open>The scan for the end of a literal item.\<close>

lemma literal_end_plain:
  "plain s \<Longrightarrow> literal_end (pre @ s @ CHR ''>'' # post) (length pre) 1 0
    = (if post = [] then Inl (RegexError ''wrong format of expand string!'') else Inr (length pre + length s + 1))"
proof (induction s arbitrary: pre)
  case Nil
  show ?case by (subst literal_end.simps) (auto simp: literal_end.simps char_at_def)
next
  case (Cons c s)
  then show ?case using Cons.IH [of "pre @ [c]"] by (subst literal_end.simps) (simp add: nth_append char_at_def)
qed

text \<open>
  An item \<open><...>\<close> of an expand string is cut out behind its closing bracket, except at the end of the string: there the scan of
  \<open>getItemFromExpand\<close> runs into the end before it looks at the counts, and a well-formed string is refused.
\<close>

theorem getItemFromExpand_literal:
  assumes "plain s"
  shows "getItemFromExpand (pre @ literal s @ post) (length pre)
    = (if post = [] then Inl (RegexError ''wrong format of expand string!'') else Inr (literal s, length (pre @ literal s)))"
  using literal_end_plain [OF assms, of "pre @ ''<''" post]
  by (simp add: getItemFromExpand_def literal_def char_at_def substr_def)

theorem getItemFromExpand_literal_witness:
  "getItemFromExpand ''<a>'' 0 = Inl (RegexError ''wrong format of expand string!'')
   \<and> getItemFromExpand (''<a>'' @ [CHR 0x5C, CHR ''1'']) 0 = Inr (''<a>'', 3)"
  using getItemFromExpand_literal [of "''a''" "[]" "[]"] getItemFromExpand_literal [of "''a''" "[]" "[CHR 0x5C, CHR ''1'']"]
  by (simp add: literal_def)

text \<open>A repetition of something that matches the empty range and nothing else there goes on, without progress, to the maximum.\<close>

lemma nullable_repeat_recursion:
  assumes "\<forall>st. fst (f offset 0 st)" "\<forall>t st. 0 < t \<longrightarrow> \<not> fst (f offset t st)" "0 < len" "repeat < repeatMax"
  shows "\<exists>st'. repeatMatch repeatMin repeatMax f repeat offset len st = repeatMatch repeatMin repeatMax f (repeat + 1) offset len st'"
proof -
  let ?g = "\<lambda>tried st. case f offset tried st of
      (True, st) \<Rightarrow> repeatMatch repeatMin repeatMax f (repeat + 1) (offset + tried) (len - tried) st | (False, st) \<Rightarrow> (False, st)"
  have "\<exists>st'. try_down n ?g st = repeatMatch repeatMin repeatMax f (repeat + 1) offset len st'" for n st
  proof (induction n arbitrary: st)
    case 0
    obtain st' where "f offset 0 st = (True, st')" using assms(1) by (metis prod.collapse)
    then show ?case by auto
  next
    case (Suc n)
    obtain st' where "f offset (Suc n) st = (False, st')" using assms(2) by (metis prod.collapse zero_less_Suc)
    then show ?case using Suc by simp
  qed
  from this [of len st] show ?thesis using assms(3,4) by (subst repeatMatch.simps) simp
qed

text \<open>A repetition that must occur refuses the empty range, even if the empty sequence is in its language.\<close>

lemma required_repeat_not_empty: "0 < repeatMin \<Longrightarrow> \<not> fst (matcher_match x cs (Repeat repeatMin repeatMax m) offset 0 st)"
  by (simp add: repeatMatch.simps)

section \<open>Instances\<close>

text \<open>A library in which an escaped string matches itself and \<open>.*\<close> everything.\<close>

definition exact_regex :: boost_regex where
  "exact_regex = \<lparr>rx_valid = \<lambda>_. True, rx_mark_count = \<lambda>_. 0,
     rx_match = \<lambda>e s. if e = ''.*'' \<or> e = convertSpecialChar s then Some [] else None, rx_order = id\<rparr>"

lemma convertSpecialChar_Cons:
  "convertSpecialChar (c # s) = (if c \<in> set ''.[{}()*+?|^$'' \<or> c = CHR 0x5C then [CHR 0x5C, c] else [c]) @ convertSpecialChar s"
  by (simp add: convertSpecialChar_def)

lemma convertSpecialChar_Nil: "convertSpecialChar [] = []"
  by (simp add: convertSpecialChar_def)

lemma convertSpecialChar_inj: "convertSpecialChar s = convertSpecialChar t \<Longrightarrow> s = t"
proof (induction s arbitrary: t)
  case Nil
  then show ?case by (cases t) (auto simp: convertSpecialChar_Cons convertSpecialChar_Nil split: if_splits)
next
  case (Cons c s)
  then show ?case by (cases t) (auto simp: convertSpecialChar_Cons convertSpecialChar_Nil split: if_splits)
qed

lemma convertSpecialChar_not_any: "convertSpecialChar s \<noteq> ''.*''"
  by (cases s) (auto simp: convertSpecialChar_Cons convertSpecialChar_Nil)

lemma exact_regex_laws: "literal_laws exact_regex"
  using convertSpecialChar_inj convertSpecialChar_not_any by (auto simp: literal_laws_def exact_regex_def order_ok_def)

theorem fromName_matches_witness:
  "\<exists>t. fromName exact_regex (name1 [65]) False = Inr t \<and> fst (top_match exact_regex t (name1 [65])) \<and> \<not> fst (top_match exact_regex t Name_default)"
  using fromName_matches [OF exact_regex_laws, of "name1 [65]" False] by (auto simp: Name_size_def)

text \<open>The expression \<open>^(<A>)<B>$\<close> and the name \<open>/A/B\<close>.\<close>

definition example_regex :: string where
  "example_regex = ''^(<A>)<B>$''"

definition example_matcher :: matcher where
  "example_matcher = PatternList
     [Backref 0 (PatternList [Repeat 1 1 (ComponentSet True [\<lparr>cm_expr = ''A'', cm_firstRef = 1, cm_marks = 0\<rparr>])]),
      Repeat 1 1 (ComponentSet True [\<lparr>cm_expr = ''B'', cm_firstRef = 1, cm_marks = 0\<rparr>])]"

definition example_name :: name where
  "example_name = Name_append (name1 [65]) (tlv_block tlv_NameComponent [66])"

lemma example_compiles:
  "\<exists>t. RegexTopMatcher exact_regex example_regex '''' = Inr t \<and> rt_primary t = example_matcher \<and> rt_secondary t = None
     \<and> rt_primaryResults t = (\<lambda>_. Components [])"
proof -
  have "compile_list exact_regex ''(<A>)<B>'' 0 = Inr (example_matcher, 1)" by code_simp
  then show ?thesis by (simp add: RegexTopMatcher_def example_regex_def substr_def char_at_def)
qed

lemma example_proper: "proper exact_regex example_matcher"
  by (simp add: example_matcher_def)

lemma example_regex_matches:
  "fst (matcher_match exact_regex (comps example_name) example_matcher 0 (length (comps example_name)) (\<lambda>_. Components []))"
  "\<not> fst (matcher_match exact_regex (comps (name1 [65])) example_matcher 0 (length (comps (name1 [65]))) (\<lambda>_. Components []))"
  by code_simp+

theorem regex_match_language_witness:
  "\<exists>t. RegexTopMatcher exact_regex example_regex '''' = Inr t \<and> comps example_name \<in> lang exact_regex (rt_primary t)
     \<and> comps (name1 [65]) \<notin> lang exact_regex (rt_primary t) \<and> fst (top_match exact_regex t example_name)"
proof -
  obtain t where t: "RegexTopMatcher exact_regex example_regex '''' = Inr t" "rt_primary t = example_matcher" "rt_secondary t = None"
    "rt_primaryResults t = (\<lambda>_. Components [])" using example_compiles by blast
  have "fst (top_match exact_regex t example_name)" "\<not> fst (top_match exact_regex t (name1 [65]))"
    using example_regex_matches t(2-4) by (auto simp: top_match_def Let_def split: prod.split bool.split)
  then show ?thesis using t(1) regex_match_language [of exact_regex t example_name]
    regex_match_language [of exact_regex t "name1 [65]"] example_proper t(2,3) by auto
qed

theorem regex_groups_bound_witness:
  "\<exists>t t'. RegexTopMatcher exact_regex example_regex '''' = Inr t \<and> top_match exact_regex t example_name = (True, t')
     \<and> rt_primaryResults t' 0 = Components [tlv_block tlv_NameComponent [65]]"
proof -
  obtain t where t: "RegexTopMatcher exact_regex example_regex '''' = Inr t" "rt_primary t = example_matcher" "rt_secondary t = None"
    "rt_primaryResults t = (\<lambda>_. Components [])" using example_compiles by blast
  obtain st where "matcher_match exact_regex (comps example_name) example_matcher 0 (length (comps example_name)) (\<lambda>_. Components []) = (True, st)"
    using example_regex_matches(1) by (metis prod.collapse)
  then obtain t' where t': "top_match exact_regex t example_name = (True, t')" "\<not> rt_isSecondaryUsed t'"
    using t(2-4) by (simp add: top_match_def Let_def)
  have "order_ok exact_regex" using exact_regex_laws by (simp add: literal_laws_def)
  from regex_groups_bound [OF t(1) this refl refl t'(1)] t'(2)
  have "binds exact_regex (rt_primaryResults t') example_matcher (comps example_name)" using t(2) by simp
  then have "rt_primaryResults t' 0 = Components [tlv_block tlv_NameComponent [65]]"
    by (auto simp: example_matcher_def example_name_def)
  with t(1) t'(1) show ?thesis by blast
qed

end
