(* ===== verification/InterestFilter.thy ===== *)
theory InterestFilter
  imports NameRegexTop
begin

text \<open>
  Interest filters, after \<open>src/interest-filter.{hpp,cpp}\<close>: a name prefix and optionally a regular expression for the components behind it.

  The matcher is compiled by \<open>RegexPatternListMatcher\<close> with a back reference manager of its own. The results that a match leaves in that manager
  cannot be seen through the filter and do not influence later matches, so that each match starts with empty ones here.
\<close>

section \<open>Filters\<close>

record interest_filter =
  flt_prefix :: name
  flt_regex :: "(string \<times> matcher) option"

definition InterestFilter_ofName :: "name \<Rightarrow> interest_filter" where
  "InterestFilter_ofName p = \<lparr>flt_prefix = p, flt_regex = None\<rparr>"

definition InterestFilter_ofUri :: "ext \<Rightarrow> string \<Rightarrow> interest_filter result" where
  "InterestFilter_ofUri x prefixUri = bindE (Name_ofString x prefixUri) (\<lambda>n. Inr (InterestFilter_ofName n))"

definition InterestFilter_regex :: "boost_regex \<Rightarrow> name \<Rightarrow> string \<Rightarrow> interest_filter result" where
  "InterestFilter_regex x p regexFilter =
     bindE (compile_list x regexFilter 0) (\<lambda>(m, _). Inr \<lparr>flt_prefix = p, flt_regex = Some (regexFilter, m)\<rparr>)"

definition hasRegexFilter :: "interest_filter \<Rightarrow> bool" where
  "hasRegexFilter f \<longleftrightarrow> flt_regex f \<noteq> None"

text \<open>The implicit conversion to a name.\<close>

definition InterestFilter_toName :: "interest_filter \<Rightarrow> name result" where
  "InterestFilter_toName f =
     (if hasRegexFilter f
      then Inl (InterestFilterError ''Please update OnInterest callback to accept const InterestFilter& (non-trivial Interest filter is being used)'')
      else Inr (flt_prefix f))"

definition doesMatch :: "boost_regex \<Rightarrow> interest_filter \<Rightarrow> name \<Rightarrow> bool result" where
  "doesMatch x f name =
     (if Name_size name < Name_size (flt_prefix f) then Inr False
      else case flt_regex f of
             Some (_, m) \<Rightarrow>
               bindE (isPrefixOf (flt_prefix f) name) (\<lambda>isMatch.
                 if \<not> isMatch then Inr False
                 else Inr (fst (matcher_match x (comps name) m (Name_size (flt_prefix f)) (Name_size name - Name_size (flt_prefix f)) (\<lambda>_. Components []))))
           | None \<Rightarrow> isPrefixOf (flt_prefix f) name)"

definition InterestFilter_print :: "interest_filter \<Rightarrow> string" where
  "InterestFilter_print f =
     Name_toUri (flt_prefix f) @ (case flt_regex f of Some (expr, _) \<Rightarrow> ''?regex='' @ expr | None \<Rightarrow> [])"

section \<open>What a filter matches\<close>

text \<open>A filter selects the names that start with its prefix and whose other components are in the language of its expression.\<close>

definition selects :: "boost_regex \<Rightarrow> interest_filter \<Rightarrow> name \<Rightarrow> bool" where
  "selects x f n \<longleftrightarrow>
     Name_size (flt_prefix f) \<le> Name_size n
     \<and> map comp_value (name_of (flt_prefix f)) = map comp_value (take (Name_size (flt_prefix f)) (name_of n))
     \<and> (case flt_regex f of None \<Rightarrow> True | Some (_, m) \<Rightarrow> drop (Name_size (flt_prefix f)) (comps n) \<in> lang x m)"

lemma doesMatch_selects:
  assumes "is_name (flt_prefix f)" "is_name n" "Name_size n < 2 ^ 63" "\<And>e m. flt_regex f = Some (e, m) \<Longrightarrow> proper x m"
  shows "doesMatch x f n = Inr (selects x f n)"
proof (cases "Name_size (flt_prefix f) \<le> Name_size n")
  case True
  let ?k = "Name_size (flt_prefix f)"
  have pre: "isPrefixOf (flt_prefix f) n = Inr (map comp_value (name_of (flt_prefix f)) = map comp_value (take ?k (name_of n)))"
    using isPrefixOf_values [OF assms(1-3)] True by simp
  have "fst (matcher_match x (comps n) m ?k (Name_size n - ?k) st) \<longleftrightarrow> drop ?k (comps n) \<in> lang x m" if "flt_regex f = Some (e, m)" for e m st
    using matcher_match_recognises [OF assms(4) [OF that], of "comps n"] True
    by (simp add: recognises_def Name_size_def chunk_def)
  then show ?thesis using True pre by (auto simp: doesMatch_def selects_def split: option.split)
qed (simp add: doesMatch_def selects_def)

text \<open>
  C28. An Interest filter without a regular expression matches the names that start with its prefix; one with a regular expression matches the names that start with its prefix and whose
  remaining components, all of them, form a sequence of the language of the expression (which must not repeat something that can be empty). No name makes \<open>doesMatch\<close> fail.
\<close>
theorem interest_filter_matches:
  assumes "is_name (flt_prefix f)" "is_name n" "Name_size n < 2 ^ 63"
    and "case flt_regex f of None \<Rightarrow> True | Some (e, m) \<Rightarrow> \<exists>k. compile_list x e 0 = Inr (m, k) \<and> proper x m"
  shows "doesMatch x f n = Inr (Name_size (flt_prefix f) \<le> Name_size n
     \<and> map comp_value (name_of (flt_prefix f)) = map comp_value (take (Name_size (flt_prefix f)) (name_of n))
     \<and> (case flt_regex f of None \<Rightarrow> True | Some (_, m) \<Rightarrow> drop (Name_size (flt_prefix f)) (comps n) \<in> lang x m))"
proof -
  have "proper x m" if "flt_regex f = Some (e, m)" for e m using assms(4) that by simp
  then show ?thesis using doesMatch_selects [OF assms(1-3)] unfolding selects_def by blast
qed

definition example_filter :: interest_filter where
  "example_filter = \<lparr>flt_prefix = name1 [65], flt_regex = Some (''<B>'', PatternList [Repeat 1 1 (ComponentSet True [\<lparr>cm_expr = ''B'', cm_firstRef = 0, cm_marks = 0\<rparr>])])\<rparr>"

theorem interest_filter_matches_witness:
  "InterestFilter_regex exact_regex (name1 [65]) ''<B>'' = Inr example_filter
    \<and> doesMatch exact_regex example_filter example_name = Inr True \<and> doesMatch exact_regex example_filter (name1 [65]) = Inr False"
proof -
  let ?m = "PatternList [Repeat 1 1 (ComponentSet True [\<lparr>cm_expr = ''B'', cm_firstRef = 0, cm_marks = 0\<rparr>])]"
  have comp: "compile_list exact_regex ''<B>'' 0 = Inr (?m, 0)" by code_simp
  have pr: "proper exact_regex ?m" by simp
  have names: "is_name (name1 [65])" "is_name example_name" "Name_size (name1 [65]) = 1" "Name_size example_name = 2"
    "comps example_name = [tlv_block tlv_NameComponent [65], tlv_block tlv_NameComponent [66]]" "comps (name1 [65]) = [tlv_block tlv_NameComponent [65]]"
    by (simp_all add: example_name_def Name_size_def)
  have "comp_matches exact_regex \<lparr>cm_expr = ''B'', cm_firstRef = 0, cm_marks = 0\<rparr> (tlv_block tlv_NameComponent [66])" by code_simp
  then have "[tlv_block tlv_NameComponent [66]] \<in> lang exact_regex ?m" "[] \<notin> lang exact_regex ?m" by auto
  then show ?thesis
    using comp interest_filter_matches [of example_filter example_name exact_regex] interest_filter_matches [of example_filter "name1 [65]" exact_regex] pr names
    by (auto simp: example_filter_def InterestFilter_regex_def name_of_def)
qed

end
