(* ===== verification/NfdControl.thy ===== *)
theory NfdControl
  imports Name
begin

text \<open>
  Management commands, after \<open>src/management/nfd-control-parameters.{hpp,cpp}\<close>, \<open>src/management/nfd-control-command.{hpp,cpp}\<close> and
  \<open>src/mgmt/control-response.{hpp,cpp}\<close>.

  \<open>m_hasFields\<close>, a vector of booleans indexed by \<open>ControlParameterField\<close>, is a function on that enumeration. Members that the constructor
  does not initialise keep arbitrary values, which the constructor takes as an argument; \<open>BOOST_ASSERT\<close> in the getters is an error. Enumerations
  are words of the width of their underlying type; a number from the wire is cast to it. Milliseconds are counted in a signed 64-bit integer.
\<close>

section \<open>Constants\<close>

definition nfd_ControlParameters :: u32 where "nfd_ControlParameters = 104"
definition nfd_FaceId :: u32 where "nfd_FaceId = 105"
definition nfd_Uri :: u32 where "nfd_Uri = 114"
definition nfd_LocalControlFeature :: u32 where "nfd_LocalControlFeature = 110"
definition nfd_Origin :: u32 where "nfd_Origin = 111"
definition nfd_Cost :: u32 where "nfd_Cost = 106"
definition nfd_Flags :: u32 where "nfd_Flags = 108"
definition nfd_Strategy :: u32 where "nfd_Strategy = 107"
definition nfd_ExpirationPeriod :: u32 where "nfd_ExpirationPeriod = 109"
definition nfd_ControlResponse :: u32 where "nfd_ControlResponse = 101"
definition nfd_StatusCode :: u32 where "nfd_StatusCode = 102"
definition nfd_StatusText :: u32 where "nfd_StatusText = 103"
definition nfd_FacePersistency :: u32 where "nfd_FacePersistency = 133"

lemmas nfd_codes = nfd_ControlParameters_def nfd_FaceId_def nfd_Uri_def nfd_LocalControlFeature_def nfd_Origin_def nfd_Cost_def nfd_Flags_def nfd_Strategy_def nfd_ExpirationPeriod_def nfd_ControlResponse_def nfd_StatusCode_def nfd_StatusText_def nfd_FacePersistency_def

definition FACE_PERSISTENCY_NONE :: byte where "FACE_PERSISTENCY_NONE = 255"
definition FACE_PERSISTENCY_PERSISTENT :: byte where "FACE_PERSISTENCY_PERSISTENT = 0"
definition FACE_PERSISTENCY_ON_DEMAND :: byte where "FACE_PERSISTENCY_ON_DEMAND = 1"
definition FACE_PERSISTENCY_PERMANENT :: byte where "FACE_PERSISTENCY_PERMANENT = 2"
definition ROUTE_ORIGIN_APP :: u64 where "ROUTE_ORIGIN_APP = 0"
definition ROUTE_FLAG_CHILD_INHERIT :: u64 where "ROUTE_FLAG_CHILD_INHERIT = 1"
definition LOCAL_CONTROL_FEATURE_INCOMING_FACE_ID :: u32 where "LOCAL_CONTROL_FEATURE_INCOMING_FACE_ID = 1"
definition LOCAL_CONTROL_FEATURE_NEXT_HOP_FACE_ID :: u32 where "LOCAL_CONTROL_FEATURE_NEXT_HOP_FACE_ID = 2"

definition FacePersistency_print :: "byte \<Rightarrow> string" where
  "FacePersistency_print p =
     (if p = FACE_PERSISTENCY_NONE then ''none''
      else if p = FACE_PERSISTENCY_PERSISTENT then ''persistent''
      else if p = FACE_PERSISTENCY_ON_DEMAND then ''on-demand''
      else if p = FACE_PERSISTENCY_PERMANENT then ''permanent''
      else show_nat (unat p))"

section \<open>Control parameters\<close>

datatype ControlParameterField =
    CONTROL_PARAMETER_NAME
  | CONTROL_PARAMETER_FACE_ID
  | CONTROL_PARAMETER_URI
  | CONTROL_PARAMETER_LOCAL_CONTROL_FEATURE
  | CONTROL_PARAMETER_ORIGIN
  | CONTROL_PARAMETER_COST
  | CONTROL_PARAMETER_FLAGS
  | CONTROL_PARAMETER_STRATEGY
  | CONTROL_PARAMETER_EXPIRATION_PERIOD
  | CONTROL_PARAMETER_FACE_PERSISTENCY

definition all_fields :: "ControlParameterField list" where
  "all_fields =
     [CONTROL_PARAMETER_NAME,
      CONTROL_PARAMETER_FACE_ID,
      CONTROL_PARAMETER_URI,
      CONTROL_PARAMETER_LOCAL_CONTROL_FEATURE,
      CONTROL_PARAMETER_ORIGIN,
      CONTROL_PARAMETER_COST,
      CONTROL_PARAMETER_FLAGS,
      CONTROL_PARAMETER_STRATEGY,
      CONTROL_PARAMETER_EXPIRATION_PERIOD,
      CONTROL_PARAMETER_FACE_PERSISTENCY]"

fun CONTROL_PARAMETER_FIELD :: "ControlParameterField \<Rightarrow> string" where
  "CONTROL_PARAMETER_FIELD CONTROL_PARAMETER_NAME = ''Name''"
| "CONTROL_PARAMETER_FIELD CONTROL_PARAMETER_FACE_ID = ''FaceId''"
| "CONTROL_PARAMETER_FIELD CONTROL_PARAMETER_URI = ''Uri''"
| "CONTROL_PARAMETER_FIELD CONTROL_PARAMETER_LOCAL_CONTROL_FEATURE = ''LocalControlFeature''"
| "CONTROL_PARAMETER_FIELD CONTROL_PARAMETER_ORIGIN = ''Origin''"
| "CONTROL_PARAMETER_FIELD CONTROL_PARAMETER_COST = ''Cost''"
| "CONTROL_PARAMETER_FIELD CONTROL_PARAMETER_FLAGS = ''Flags''"
| "CONTROL_PARAMETER_FIELD CONTROL_PARAMETER_STRATEGY = ''Strategy''"
| "CONTROL_PARAMETER_FIELD CONTROL_PARAMETER_EXPIRATION_PERIOD = ''ExpirationPeriod''"
| "CONTROL_PARAMETER_FIELD CONTROL_PARAMETER_FACE_PERSISTENCY = ''FacePersistency''"

record control_parameters =
  par_hasFields :: "ControlParameterField \<Rightarrow> bool"
  par_name :: name
  par_faceId :: u64
  par_uri :: string
  par_localControlFeature :: u32
  par_origin :: u64
  par_cost :: u64
  par_flags :: u64
  par_strategy :: name
  par_expirationPeriod :: int
  par_facePersistency :: byte
  par_wire :: block

definition ControlParameters_default :: "control_parameters \<Rightarrow> control_parameters" where
  "ControlParameters_default junk =
     junk\<lparr>par_hasFields := (\<lambda>_. False), par_name := Name_default, par_uri := [], par_strategy := Name_default, par_wire := Block_default\<rparr>"

definition Par_hasName :: "control_parameters \<Rightarrow> bool" where
  "Par_hasName p = par_hasFields p CONTROL_PARAMETER_NAME"

definition Par_getName :: "control_parameters \<Rightarrow> name result" where
  "Par_getName p = (if Par_hasName p then Inr (par_name p) else Inl (AssertionFailure ''this->hasName()''))"

definition Par_setName :: "control_parameters \<Rightarrow> name \<Rightarrow> control_parameters" where
  "Par_setName p v =
     p\<lparr>par_wire := Block_reset (par_wire p), par_name := v, par_hasFields := (par_hasFields p)(CONTROL_PARAMETER_NAME := True)\<rparr>"

definition Par_unsetName :: "control_parameters \<Rightarrow> control_parameters" where
  "Par_unsetName p = p\<lparr>par_wire := Block_reset (par_wire p), par_hasFields := (par_hasFields p)(CONTROL_PARAMETER_NAME := False)\<rparr>"

definition Par_hasFaceId :: "control_parameters \<Rightarrow> bool" where
  "Par_hasFaceId p = par_hasFields p CONTROL_PARAMETER_FACE_ID"

definition Par_getFaceId :: "control_parameters \<Rightarrow> u64 result" where
  "Par_getFaceId p = (if Par_hasFaceId p then Inr (par_faceId p) else Inl (AssertionFailure ''this->hasFaceId()''))"

definition Par_setFaceId :: "control_parameters \<Rightarrow> u64 \<Rightarrow> control_parameters" where
  "Par_setFaceId p v =
     p\<lparr>par_wire := Block_reset (par_wire p), par_faceId := v, par_hasFields := (par_hasFields p)(CONTROL_PARAMETER_FACE_ID := True)\<rparr>"

definition Par_unsetFaceId :: "control_parameters \<Rightarrow> control_parameters" where
  "Par_unsetFaceId p = p\<lparr>par_wire := Block_reset (par_wire p), par_hasFields := (par_hasFields p)(CONTROL_PARAMETER_FACE_ID := False)\<rparr>"

definition Par_hasUri :: "control_parameters \<Rightarrow> bool" where
  "Par_hasUri p = par_hasFields p CONTROL_PARAMETER_URI"

definition Par_getUri :: "control_parameters \<Rightarrow> string result" where
  "Par_getUri p = (if Par_hasUri p then Inr (par_uri p) else Inl (AssertionFailure ''this->hasUri()''))"

definition Par_setUri :: "control_parameters \<Rightarrow> string \<Rightarrow> control_parameters" where
  "Par_setUri p v =
     p\<lparr>par_wire := Block_reset (par_wire p), par_uri := v, par_hasFields := (par_hasFields p)(CONTROL_PARAMETER_URI := True)\<rparr>"

definition Par_unsetUri :: "control_parameters \<Rightarrow> control_parameters" where
  "Par_unsetUri p = p\<lparr>par_wire := Block_reset (par_wire p), par_hasFields := (par_hasFields p)(CONTROL_PARAMETER_URI := False)\<rparr>"

definition Par_hasLocalControlFeature :: "control_parameters \<Rightarrow> bool" where
  "Par_hasLocalControlFeature p = par_hasFields p CONTROL_PARAMETER_LOCAL_CONTROL_FEATURE"

definition Par_getLocalControlFeature :: "control_parameters \<Rightarrow> u32 result" where
  "Par_getLocalControlFeature p = (if Par_hasLocalControlFeature p then Inr (par_localControlFeature p) else Inl (AssertionFailure ''this->hasLocalControlFeature()''))"

definition Par_setLocalControlFeature :: "control_parameters \<Rightarrow> u32 \<Rightarrow> control_parameters" where
  "Par_setLocalControlFeature p v =
     p\<lparr>par_wire := Block_reset (par_wire p), par_localControlFeature := v, par_hasFields := (par_hasFields p)(CONTROL_PARAMETER_LOCAL_CONTROL_FEATURE := True)\<rparr>"

definition Par_unsetLocalControlFeature :: "control_parameters \<Rightarrow> control_parameters" where
  "Par_unsetLocalControlFeature p = p\<lparr>par_wire := Block_reset (par_wire p), par_hasFields := (par_hasFields p)(CONTROL_PARAMETER_LOCAL_CONTROL_FEATURE := False)\<rparr>"

definition Par_hasOrigin :: "control_parameters \<Rightarrow> bool" where
  "Par_hasOrigin p = par_hasFields p CONTROL_PARAMETER_ORIGIN"

definition Par_getOrigin :: "control_parameters \<Rightarrow> u64 result" where
  "Par_getOrigin p = (if Par_hasOrigin p then Inr (par_origin p) else Inl (AssertionFailure ''this->hasOrigin()''))"

definition Par_setOrigin :: "control_parameters \<Rightarrow> u64 \<Rightarrow> control_parameters" where
  "Par_setOrigin p v =
     p\<lparr>par_wire := Block_reset (par_wire p), par_origin := v, par_hasFields := (par_hasFields p)(CONTROL_PARAMETER_ORIGIN := True)\<rparr>"

definition Par_unsetOrigin :: "control_parameters \<Rightarrow> control_parameters" where
  "Par_unsetOrigin p = p\<lparr>par_wire := Block_reset (par_wire p), par_hasFields := (par_hasFields p)(CONTROL_PARAMETER_ORIGIN := False)\<rparr>"

definition Par_hasCost :: "control_parameters \<Rightarrow> bool" where
  "Par_hasCost p = par_hasFields p CONTROL_PARAMETER_COST"

definition Par_getCost :: "control_parameters \<Rightarrow> u64 result" where
  "Par_getCost p = (if Par_hasCost p then Inr (par_cost p) else Inl (AssertionFailure ''this->hasCost()''))"

definition Par_setCost :: "control_parameters \<Rightarrow> u64 \<Rightarrow> control_parameters" where
  "Par_setCost p v =
     p\<lparr>par_wire := Block_reset (par_wire p), par_cost := v, par_hasFields := (par_hasFields p)(CONTROL_PARAMETER_COST := True)\<rparr>"

definition Par_unsetCost :: "control_parameters \<Rightarrow> control_parameters" where
  "Par_unsetCost p = p\<lparr>par_wire := Block_reset (par_wire p), par_hasFields := (par_hasFields p)(CONTROL_PARAMETER_COST := False)\<rparr>"

definition Par_hasFlags :: "control_parameters \<Rightarrow> bool" where
  "Par_hasFlags p = par_hasFields p CONTROL_PARAMETER_FLAGS"

definition Par_getFlags :: "control_parameters \<Rightarrow> u64 result" where
  "Par_getFlags p = (if Par_hasFlags p then Inr (par_flags p) else Inl (AssertionFailure ''this->hasFlags()''))"

definition Par_setFlags :: "control_parameters \<Rightarrow> u64 \<Rightarrow> control_parameters" where
  "Par_setFlags p v =
     p\<lparr>par_wire := Block_reset (par_wire p), par_flags := v, par_hasFields := (par_hasFields p)(CONTROL_PARAMETER_FLAGS := True)\<rparr>"

definition Par_unsetFlags :: "control_parameters \<Rightarrow> control_parameters" where
  "Par_unsetFlags p = p\<lparr>par_wire := Block_reset (par_wire p), par_hasFields := (par_hasFields p)(CONTROL_PARAMETER_FLAGS := False)\<rparr>"

definition Par_hasStrategy :: "control_parameters \<Rightarrow> bool" where
  "Par_hasStrategy p = par_hasFields p CONTROL_PARAMETER_STRATEGY"

definition Par_getStrategy :: "control_parameters \<Rightarrow> name result" where
  "Par_getStrategy p = (if Par_hasStrategy p then Inr (par_strategy p) else Inl (AssertionFailure ''this->hasStrategy()''))"

definition Par_setStrategy :: "control_parameters \<Rightarrow> name \<Rightarrow> control_parameters" where
  "Par_setStrategy p v =
     p\<lparr>par_wire := Block_reset (par_wire p), par_strategy := v, par_hasFields := (par_hasFields p)(CONTROL_PARAMETER_STRATEGY := True)\<rparr>"

definition Par_unsetStrategy :: "control_parameters \<Rightarrow> control_parameters" where
  "Par_unsetStrategy p = p\<lparr>par_wire := Block_reset (par_wire p), par_hasFields := (par_hasFields p)(CONTROL_PARAMETER_STRATEGY := False)\<rparr>"

definition Par_hasExpirationPeriod :: "control_parameters \<Rightarrow> bool" where
  "Par_hasExpirationPeriod p = par_hasFields p CONTROL_PARAMETER_EXPIRATION_PERIOD"

definition Par_getExpirationPeriod :: "control_parameters \<Rightarrow> int result" where
  "Par_getExpirationPeriod p = (if Par_hasExpirationPeriod p then Inr (par_expirationPeriod p) else Inl (AssertionFailure ''this->hasExpirationPeriod()''))"

definition Par_setExpirationPeriod :: "control_parameters \<Rightarrow> int \<Rightarrow> control_parameters" where
  "Par_setExpirationPeriod p v =
     p\<lparr>par_wire := Block_reset (par_wire p), par_expirationPeriod := v, par_hasFields := (par_hasFields p)(CONTROL_PARAMETER_EXPIRATION_PERIOD := True)\<rparr>"

definition Par_unsetExpirationPeriod :: "control_parameters \<Rightarrow> control_parameters" where
  "Par_unsetExpirationPeriod p = p\<lparr>par_wire := Block_reset (par_wire p), par_hasFields := (par_hasFields p)(CONTROL_PARAMETER_EXPIRATION_PERIOD := False)\<rparr>"

definition Par_hasFacePersistency :: "control_parameters \<Rightarrow> bool" where
  "Par_hasFacePersistency p = par_hasFields p CONTROL_PARAMETER_FACE_PERSISTENCY"

definition Par_getFacePersistency :: "control_parameters \<Rightarrow> byte result" where
  "Par_getFacePersistency p = (if Par_hasFacePersistency p then Inr (par_facePersistency p) else Inl (AssertionFailure ''this->hasFacePersistency()''))"

definition Par_setFacePersistency :: "control_parameters \<Rightarrow> byte \<Rightarrow> control_parameters" where
  "Par_setFacePersistency p v =
     p\<lparr>par_wire := Block_reset (par_wire p), par_facePersistency := v, par_hasFields := (par_hasFields p)(CONTROL_PARAMETER_FACE_PERSISTENCY := True)\<rparr>"

definition Par_unsetFacePersistency :: "control_parameters \<Rightarrow> control_parameters" where
  "Par_unsetFacePersistency p = p\<lparr>par_wire := Block_reset (par_wire p), par_hasFields := (par_hasFields p)(CONTROL_PARAMETER_FACE_PERSISTENCY := False)\<rparr>"

lemmas par_has = Par_hasName_def Par_hasFaceId_def Par_hasUri_def Par_hasLocalControlFeature_def Par_hasOrigin_def Par_hasCost_def Par_hasFlags_def Par_hasStrategy_def Par_hasExpirationPeriod_def Par_hasFacePersistency_def
lemmas par_get = Par_getName_def Par_getFaceId_def Par_getUri_def Par_getLocalControlFeature_def Par_getOrigin_def Par_getCost_def Par_getFlags_def Par_getStrategy_def Par_getExpirationPeriod_def Par_getFacePersistency_def
lemmas par_set = Par_setName_def Par_setFaceId_def Par_setUri_def Par_setLocalControlFeature_def Par_setOrigin_def Par_setCost_def Par_setFlags_def Par_setStrategy_def Par_setExpirationPeriod_def Par_setFacePersistency_def
lemmas par_unset = Par_unsetName_def Par_unsetFaceId_def Par_unsetUri_def Par_unsetLocalControlFeature_def Par_unsetOrigin_def Par_unsetCost_def Par_unsetFlags_def Par_unsetStrategy_def Par_unsetExpirationPeriod_def Par_unsetFacePersistency_def

definition Par_wireEncode_to :: "'e EncodingImpl \<Rightarrow> control_parameters \<Rightarrow> 'e \<Rightarrow> (nat \<times> 'e) result" where
  "Par_wireEncode_to ops p =
     run_stepsE
       ((if Par_hasFacePersistency p
         then [\<lambda>_ e. Inr (prependNonNegativeIntegerBlock ops nfd_FacePersistency (ucast (par_facePersistency p)) e)] else []) @
        (if Par_hasExpirationPeriod p
         then [\<lambda>_ e. Inr (prependNonNegativeIntegerBlock ops nfd_ExpirationPeriod (of_int (par_expirationPeriod p)) e)] else []) @
        (if Par_hasStrategy p
         then [\<lambda>_ e. Inr (prependNestedBlock ops nfd_Strategy (Name_wireEncode_to ops (par_strategy p)) e)] else []) @
        (if Par_hasFlags p then [\<lambda>_ e. Inr (prependNonNegativeIntegerBlock ops nfd_Flags (par_flags p) e)] else []) @
        (if Par_hasCost p then [\<lambda>_ e. Inr (prependNonNegativeIntegerBlock ops nfd_Cost (par_cost p) e)] else []) @
        (if Par_hasOrigin p then [\<lambda>_ e. Inr (prependNonNegativeIntegerBlock ops nfd_Origin (par_origin p) e)] else []) @
        (if Par_hasLocalControlFeature p
         then [\<lambda>_ e. Inr (prependNonNegativeIntegerBlock ops nfd_LocalControlFeature (ucast (par_localControlFeature p)) e)] else []) @
        (if Par_hasUri p then [\<lambda>_ e. Inr (prependStringBlock ops nfd_Uri (par_uri p) e)] else []) @
        (if Par_hasFaceId p then [\<lambda>_ e. Inr (prependNonNegativeIntegerBlock ops nfd_FaceId (par_faceId p) e)] else []) @
        (if Par_hasName p then [\<lambda>_ e. Inr (Name_wireEncode_to ops (par_name p) e)] else []) @
        header_steps ops nfd_ControlParameters)"

definition Par_wireEncode :: "control_parameters \<Rightarrow> (block \<times> control_parameters) result" where
  "Par_wireEncode p =
     (if hasWire (par_wire p) then Inr (par_wire p, p)
      else bindE (encode_block (Par_wireEncode_to EncodingEstimator p) (Par_wireEncode_to EncodingBuffer p))
             (\<lambda>b. Inr (b, p\<lparr>par_wire := b\<rparr>)))"

text \<open>\<open>val = m_wire.find(t); m_hasFields[f] = val != m_wire.elements_end(); if (m_hasFields[f]) ...\<close>\<close>

definition decode_field :: "block \<Rightarrow> u32 \<Rightarrow> ControlParameterField \<Rightarrow> (block \<Rightarrow> control_parameters decoder) \<Rightarrow> control_parameters decoder" where
  "decode_field b t f decode p =
     (let p = p\<lparr>par_hasFields := (par_hasFields p)(f := find_element t b \<noteq> None)\<rparr>
      in case find_element t b of None \<Rightarrow> (None, p) | Some val \<Rightarrow> decode val p)"

definition decode_strategy :: "block \<Rightarrow> control_parameters decoder" where
  "decode_strategy val p =
     (case parse val of
        (Some err, _) \<Rightarrow> (Some err, p)
      | (None, val) \<Rightarrow>
          (case m_subBlocks val of
             [] \<Rightarrow> (Some (ControlParametersError ''Expecting Strategy/Name''), p)
           | e # _ \<Rightarrow> (case Name_wireDecode (par_strategy p) e of (err, n) \<Rightarrow> (err, p\<lparr>par_strategy := n\<rparr>))))"

definition Par_wireDecode :: "control_parameters \<Rightarrow> block \<Rightarrow> error option \<times> control_parameters" where
  "Par_wireDecode p wire =
     (if m_type wire \<noteq> nfd_ControlParameters then (Some (ControlParametersError ''Expecting TLV-TYPE ControlParameters''), p)
      else case parse wire of
             (Some err, b) \<Rightarrow> (Some err, p\<lparr>par_wire := b\<rparr>)
           | (None, b) \<Rightarrow>
               run_decoders
                 [decode_field b tlv_Name CONTROL_PARAMETER_NAME
                    (\<lambda>val p. case Name_wireDecode (par_name p) val of (err, n) \<Rightarrow> (err, p\<lparr>par_name := n\<rparr>)),
                  decode_field b nfd_FaceId CONTROL_PARAMETER_FACE_ID (decode_number (\<lambda>n p. p\<lparr>par_faceId := n\<rparr>)),
                  decode_field b nfd_Uri CONTROL_PARAMETER_URI (\<lambda>val p. (None, p\<lparr>par_uri := readString val\<rparr>)),
                  decode_field b nfd_LocalControlFeature CONTROL_PARAMETER_LOCAL_CONTROL_FEATURE
                    (decode_number (\<lambda>n p. p\<lparr>par_localControlFeature := ucast n\<rparr>)),
                  decode_field b nfd_Origin CONTROL_PARAMETER_ORIGIN (decode_number (\<lambda>n p. p\<lparr>par_origin := n\<rparr>)),
                  decode_field b nfd_Cost CONTROL_PARAMETER_COST (decode_number (\<lambda>n p. p\<lparr>par_cost := n\<rparr>)),
                  decode_field b nfd_Flags CONTROL_PARAMETER_FLAGS (decode_number (\<lambda>n p. p\<lparr>par_flags := n\<rparr>)),
                  decode_field b nfd_Strategy CONTROL_PARAMETER_STRATEGY decode_strategy,
                  decode_field b nfd_ExpirationPeriod CONTROL_PARAMETER_EXPIRATION_PERIOD
                    (decode_number (\<lambda>n p. p\<lparr>par_expirationPeriod := sint n\<rparr>)),
                  decode_field b nfd_FacePersistency CONTROL_PARAMETER_FACE_PERSISTENCY
                    (decode_number (\<lambda>n p. p\<lparr>par_facePersistency := ucast n\<rparr>))]
                 (p\<lparr>par_wire := b\<rparr>))"

definition ControlParameters_ofBlock :: "control_parameters \<Rightarrow> block \<Rightarrow> control_parameters result" where
  "ControlParameters_ofBlock junk wire =
     (case Par_wireDecode (ControlParameters_default junk) wire of (None, p) \<Rightarrow> Inr p | (Some err, _) \<Rightarrow> Inl err)"

text \<open>\<open>operator<<\<close>, which leaves the face persistency out; how Boost.Chrono prints a duration is a parameter.\<close>

definition Par_print :: "(int \<Rightarrow> string) \<Rightarrow> control_parameters \<Rightarrow> string" where
  "Par_print show_milliseconds p =
     ''ControlParameters('' @
     (if Par_hasName p then ''Name: '' @ Name_toUri (par_name p) @ '', '' else []) @
     (if Par_hasFaceId p then ''FaceId: '' @ show_nat (unat (par_faceId p)) @ '', '' else []) @
     (if Par_hasUri p then ''Uri: '' @ par_uri p @ '', '' else []) @
     (if Par_hasLocalControlFeature p then ''LocalControlFeature: '' @ show_nat (unat (par_localControlFeature p)) @ '', '' else []) @
     (if Par_hasOrigin p then ''Origin: '' @ show_nat (unat (par_origin p)) @ '', '' else []) @
     (if Par_hasCost p then ''Cost: '' @ show_nat (unat (par_cost p)) @ '', '' else []) @
     (if Par_hasFlags p then ''Flags: '' @ show_nat (unat (par_flags p)) @ '', '' else []) @
     (if Par_hasStrategy p then ''Strategy: '' @ Name_toUri (par_strategy p) @ '', '' else []) @
     (if Par_hasExpirationPeriod p then ''ExpirationPeriod: '' @ show_milliseconds (par_expirationPeriod p) @ '', '' else []) @ '')''"

section \<open>Control commands\<close>

record field_validator =
  m_required :: "ControlParameterField \<Rightarrow> bool"
  m_optional :: "ControlParameterField \<Rightarrow> bool"

definition FieldValidator :: field_validator where
  "FieldValidator = \<lparr>m_required = \<lambda>_. False, m_optional = \<lambda>_. False\<rparr>"

definition required :: "ControlParameterField \<Rightarrow> field_validator \<Rightarrow> field_validator" where
  "required f v = v\<lparr>m_required := (m_required v)(f := True)\<rparr>"

definition optional :: "ControlParameterField \<Rightarrow> field_validator \<Rightarrow> field_validator" where
  "optional f v = v\<lparr>m_optional := (m_optional v)(f := True)\<rparr>"

primrec validate_loop :: "field_validator \<Rightarrow> (ControlParameterField \<Rightarrow> bool) \<Rightarrow> ControlParameterField list \<Rightarrow> error option" where
  "validate_loop v presentFields [] = None"
| "validate_loop v presentFields (i # is) =
     (if m_required v i \<and> \<not> presentFields i
      then Some (ArgumentError (CONTROL_PARAMETER_FIELD i @ '' is required but missing''))
      else if \<not> m_required v i \<and> presentFields i \<and> \<not> m_optional v i
      then Some (ArgumentError (CONTROL_PARAMETER_FIELD i @ '' is forbidden but present''))
      else validate_loop v presentFields is)"

definition validate :: "field_validator \<Rightarrow> control_parameters \<Rightarrow> error option" where
  "validate v p = validate_loop v (par_hasFields p) all_fields"

datatype control_command =
    FaceCreateCommand
  | FaceDestroyCommand
  | FaceEnableLocalControlCommand
  | FaceDisableLocalControlCommand
  | FibAddNextHopCommand
  | FibRemoveNextHopCommand
  | StrategyChoiceSetCommand
  | StrategyChoiceUnsetCommand
  | RibRegisterCommand
  | RibUnregisterCommand

text \<open>What the constructors set up.\<close>

fun command_module :: "control_command \<Rightarrow> string" where
  "command_module FaceCreateCommand = ''faces''"
| "command_module FaceDestroyCommand = ''faces''"
| "command_module FaceEnableLocalControlCommand = ''faces''"
| "command_module FaceDisableLocalControlCommand = ''faces''"
| "command_module FibAddNextHopCommand = ''fib''"
| "command_module FibRemoveNextHopCommand = ''fib''"
| "command_module StrategyChoiceSetCommand = ''strategy-choice''"
| "command_module StrategyChoiceUnsetCommand = ''strategy-choice''"
| "command_module RibRegisterCommand = ''rib''"
| "command_module RibUnregisterCommand = ''rib''"

fun command_verb :: "control_command \<Rightarrow> string" where
  "command_verb FaceCreateCommand = ''create''"
| "command_verb FaceDestroyCommand = ''destroy''"
| "command_verb FaceEnableLocalControlCommand = ''enable-local-control''"
| "command_verb FaceDisableLocalControlCommand = ''disable-local-control''"
| "command_verb FibAddNextHopCommand = ''add-nexthop''"
| "command_verb FibRemoveNextHopCommand = ''remove-nexthop''"
| "command_verb StrategyChoiceSetCommand = ''set''"
| "command_verb StrategyChoiceUnsetCommand = ''unset''"
| "command_verb RibRegisterCommand = ''register''"
| "command_verb RibUnregisterCommand = ''unregister''"

fun requestValidator :: "control_command \<Rightarrow> field_validator" where
  "requestValidator FaceCreateCommand = optional CONTROL_PARAMETER_FACE_PERSISTENCY (required CONTROL_PARAMETER_URI FieldValidator)"
| "requestValidator FaceDestroyCommand = required CONTROL_PARAMETER_FACE_ID FieldValidator"
| "requestValidator FaceEnableLocalControlCommand = required CONTROL_PARAMETER_LOCAL_CONTROL_FEATURE FieldValidator"
| "requestValidator FaceDisableLocalControlCommand = required CONTROL_PARAMETER_LOCAL_CONTROL_FEATURE FieldValidator"
| "requestValidator FibAddNextHopCommand =
     optional CONTROL_PARAMETER_COST (optional CONTROL_PARAMETER_FACE_ID (required CONTROL_PARAMETER_NAME FieldValidator))"
| "requestValidator FibRemoveNextHopCommand = optional CONTROL_PARAMETER_FACE_ID (required CONTROL_PARAMETER_NAME FieldValidator)"
| "requestValidator StrategyChoiceSetCommand = required CONTROL_PARAMETER_STRATEGY (required CONTROL_PARAMETER_NAME FieldValidator)"
| "requestValidator StrategyChoiceUnsetCommand = required CONTROL_PARAMETER_NAME FieldValidator"
| "requestValidator RibRegisterCommand =
     optional CONTROL_PARAMETER_EXPIRATION_PERIOD (optional CONTROL_PARAMETER_FLAGS (optional CONTROL_PARAMETER_COST
       (optional CONTROL_PARAMETER_ORIGIN (optional CONTROL_PARAMETER_FACE_ID (required CONTROL_PARAMETER_NAME FieldValidator)))))"
| "requestValidator RibUnregisterCommand =
     optional CONTROL_PARAMETER_ORIGIN (optional CONTROL_PARAMETER_FACE_ID (required CONTROL_PARAMETER_NAME FieldValidator))"

fun responseValidator :: "control_command \<Rightarrow> field_validator" where
  "responseValidator FaceCreateCommand =
     required CONTROL_PARAMETER_FACE_PERSISTENCY (required CONTROL_PARAMETER_FACE_ID (required CONTROL_PARAMETER_URI FieldValidator))"
| "responseValidator FaceDestroyCommand = requestValidator FaceDestroyCommand"
| "responseValidator FaceEnableLocalControlCommand = requestValidator FaceEnableLocalControlCommand"
| "responseValidator FaceDisableLocalControlCommand = requestValidator FaceDisableLocalControlCommand"
| "responseValidator FibAddNextHopCommand =
     required CONTROL_PARAMETER_COST (required CONTROL_PARAMETER_FACE_ID (required CONTROL_PARAMETER_NAME FieldValidator))"
| "responseValidator FibRemoveNextHopCommand = required CONTROL_PARAMETER_FACE_ID (required CONTROL_PARAMETER_NAME FieldValidator)"
| "responseValidator StrategyChoiceSetCommand = requestValidator StrategyChoiceSetCommand"
| "responseValidator StrategyChoiceUnsetCommand = requestValidator StrategyChoiceUnsetCommand"
| "responseValidator RibRegisterCommand =
     optional CONTROL_PARAMETER_EXPIRATION_PERIOD (required CONTROL_PARAMETER_FLAGS (required CONTROL_PARAMETER_COST
       (required CONTROL_PARAMETER_ORIGIN (required CONTROL_PARAMETER_FACE_ID (required CONTROL_PARAMETER_NAME FieldValidator)))))"
| "responseValidator RibUnregisterCommand =
     required CONTROL_PARAMETER_ORIGIN (required CONTROL_PARAMETER_FACE_ID (required CONTROL_PARAMETER_NAME FieldValidator))"

text \<open>A check that follows the validation of the fields; it reads a field with its getter.\<close>

definition then_check :: "error option \<Rightarrow> 'a result \<Rightarrow> ('a \<Rightarrow> bool) \<Rightarrow> string \<Rightarrow> error option" where
  "then_check err field ok what =
     (case err of
        Some e \<Rightarrow> Some e
      | None \<Rightarrow> (case field of Inl e \<Rightarrow> Some e | Inr v \<Rightarrow> if ok v then None else Some (ArgumentError what)))"

definition validateRequest :: "control_command \<Rightarrow> control_parameters \<Rightarrow> error option" where
  "validateRequest cmd p =
     (let base = validate (requestValidator cmd) p
      in if cmd = FaceDestroyCommand then then_check base (Par_getFaceId p) (\<lambda>id. id \<noteq> 0) ''FaceId must not be zero''
         else if cmd = FaceEnableLocalControlCommand \<or> cmd = FaceDisableLocalControlCommand
         then then_check base (Par_getLocalControlFeature p)
                (\<lambda>f. f = LOCAL_CONTROL_FEATURE_INCOMING_FACE_ID \<or> f = LOCAL_CONTROL_FEATURE_NEXT_HOP_FACE_ID) ''LocalControlFeature is invalid''
         else if cmd = StrategyChoiceUnsetCommand then then_check base (Par_getName p) (\<lambda>n. Name_size n \<noteq> 0) ''Name must not be ndn:/''
         else base)"

definition applyDefaultsToRequest :: "control_command \<Rightarrow> control_parameters \<Rightarrow> control_parameters" where
  "applyDefaultsToRequest cmd p =
     (case cmd of
        FaceCreateCommand \<Rightarrow> if \<not> Par_hasFacePersistency p then Par_setFacePersistency p FACE_PERSISTENCY_PERSISTENT else p
      | FibAddNextHopCommand \<Rightarrow>
          let p = (if \<not> Par_hasFaceId p then Par_setFaceId p 0 else p)
          in if \<not> Par_hasCost p then Par_setCost p 0 else p
      | FibRemoveNextHopCommand \<Rightarrow> if \<not> Par_hasFaceId p then Par_setFaceId p 0 else p
      | RibRegisterCommand \<Rightarrow>
          let p = (if \<not> Par_hasFaceId p then Par_setFaceId p 0 else p);
              p = (if \<not> Par_hasOrigin p then Par_setOrigin p ROUTE_ORIGIN_APP else p);
              p = (if \<not> Par_hasCost p then Par_setCost p 0 else p)
          in if \<not> Par_hasFlags p then Par_setFlags p ROUTE_FLAG_CHILD_INHERIT else p
      | RibUnregisterCommand \<Rightarrow>
          let p = (if \<not> Par_hasFaceId p then Par_setFaceId p 0 else p)
          in if \<not> Par_hasOrigin p then Par_setOrigin p ROUTE_ORIGIN_APP else p
      | _ \<Rightarrow> p)"

definition validateResponse :: "control_command \<Rightarrow> control_parameters \<Rightarrow> error option" where
  "validateResponse cmd p =
     (if cmd \<in> {FaceDestroyCommand, FaceEnableLocalControlCommand, FaceDisableLocalControlCommand, StrategyChoiceUnsetCommand}
      then validateRequest cmd p
      else let base = validate (responseValidator cmd) p
           in if cmd \<in> {FaceCreateCommand, FibAddNextHopCommand, FibRemoveNextHopCommand, RibRegisterCommand, RibUnregisterCommand}
              then then_check base (Par_getFaceId p) (\<lambda>id. id \<noteq> 0) ''FaceId must not be zero''
              else base)"

definition applyDefaultsToResponse :: "control_command \<Rightarrow> control_parameters \<Rightarrow> control_parameters" where
  "applyDefaultsToResponse cmd p = p"

definition printRequestParameters :: "(int \<Rightarrow> string) \<Rightarrow> control_command \<Rightarrow> control_parameters \<Rightarrow> string result" where
  "printRequestParameters show_milliseconds cmd p =
     (if cmd = FaceCreateCommand
      then bindE (Par_getUri p) (\<lambda>u. bindE (Par_getFacePersistency p) (\<lambda>f. Inr (u @ '','' @ FacePersistency_print f)))
      else if cmd = FaceDestroyCommand then bindE (Par_getFaceId p) (\<lambda>id. Inr (show_nat (unat id)))
      else Inr (Par_print show_milliseconds p))"

definition printResponseParameters :: "(int \<Rightarrow> string) \<Rightarrow> control_command \<Rightarrow> control_parameters \<Rightarrow> string result" where
  "printResponseParameters show_milliseconds cmd p =
     (if cmd = FaceCreateCommand
      then bindE (Par_getFaceId p) (\<lambda>id. bindE (Par_getUri p) (\<lambda>u. Inr (show_nat (unat id) @ '','' @ u)))
      else if cmd = FaceDestroyCommand then printRequestParameters show_milliseconds cmd p
      else Inr (Par_print show_milliseconds p))"

definition getRequestName :: "control_command \<Rightarrow> name \<Rightarrow> control_parameters \<Rightarrow> (name \<times> control_parameters) result" where
  "getRequestName cmd commandPrefix p =
     (case validateRequest cmd p of
        Some err \<Rightarrow> Inl err
      | None \<Rightarrow>
          bindE (Component_ofString (command_module cmd)) (\<lambda>m.
          bindE (Component_ofString (command_verb cmd)) (\<lambda>v.
          bindE (Par_wireEncode p) (\<lambda>(w, p).
          bindE (Name_appendBlock (Name_append (Name_append commandPrefix m) v) w) (\<lambda>n. Inr (n, p))))))"

section \<open>Control responses\<close>

record control_response =
  res_code :: u32
  res_text :: string
  res_body :: block
  res_wire :: block

definition ControlResponse_default :: control_response where
  "ControlResponse_default = \<lparr>res_code = 200, res_text = [], res_body = Block_default, res_wire = Block_default\<rparr>"

definition ControlResponse :: "u32 \<Rightarrow> string \<Rightarrow> control_response" where
  "ControlResponse code txt = \<lparr>res_code = code, res_text = txt, res_body = Block_default, res_wire = Block_default\<rparr>"

definition setCode :: "control_response \<Rightarrow> u32 \<Rightarrow> control_response" where
  "setCode r code = r\<lparr>res_code := code, res_wire := Block_reset (res_wire r)\<rparr>"

definition setText :: "control_response \<Rightarrow> string \<Rightarrow> control_response" where
  "setText r txt = r\<lparr>res_text := txt, res_wire := Block_reset (res_wire r)\<rparr>"

definition setBody :: "control_response \<Rightarrow> block \<Rightarrow> error option \<times> control_response" where
  "setBody r body =
     (case encode body of
        (Some err, b) \<Rightarrow> (Some err, r\<lparr>res_body := b\<rparr>)
      | (None, b) \<Rightarrow> (None, r\<lparr>res_body := b, res_wire := Block_reset (res_wire r)\<rparr>))"

definition Response_wireEncode :: "control_response \<Rightarrow> (block \<times> control_response) result" where
  "Response_wireEncode r =
     (if hasWire (res_wire r) then Inr (res_wire r, r)
      else bindE (makeNonNegativeIntegerBlock nfd_StatusCode (ucast (res_code r))) (\<lambda>code.
           bindE (makeBinaryBlock nfd_StatusText (map byte_of_char (res_text r))) (\<lambda>txt.
             let wire = push_back (push_back (Block_ofType nfd_ControlResponse) code) txt;
                 wire = (if hasWire (res_body r) then push_back wire (res_body r) else wire)
             in case encode wire of (Some err, _) \<Rightarrow> Inl err | (None, wire) \<Rightarrow> Inr (wire, r\<lparr>res_wire := wire\<rparr>))))"

definition Response_wireDecode :: "control_response \<Rightarrow> block \<Rightarrow> error option \<times> control_response" where
  "Response_wireDecode r wire =
     (case parse wire of
        (Some err, b) \<Rightarrow> (Some err, r\<lparr>res_wire := b\<rparr>)
      | (None, b) \<Rightarrow>
          (let r = r\<lparr>res_wire := b\<rparr>
           in if m_type b \<noteq> nfd_ControlResponse
              then (Some (ControlResponseError ''Requested decoding of ControlResponse, but Block is of different type''), r)
              else case m_subBlocks b of
                     [] \<Rightarrow> (Some (ControlResponseError ''Incorrect ControlResponse format (StatusCode missing or not the first item)''), r)
                   | val # vals \<Rightarrow>
                       if m_type val \<noteq> nfd_StatusCode
                       then (Some (ControlResponseError ''Incorrect ControlResponse format (StatusCode missing or not the first item)''), r)
                       else case block_readNonNegativeInteger val of
                              Inl err \<Rightarrow> (Some err, r)
                            | Inr n \<Rightarrow>
                                (let r = r\<lparr>res_code := ucast n\<rparr>
                                 in case vals of
                                      [] \<Rightarrow> (Some (ControlResponseError ''Incorrect ControlResponse format (StatusText missing or not the second item)''), r)
                                    | txt # rest \<Rightarrow>
                                        if m_type txt \<noteq> nfd_StatusText
                                        then (Some (ControlResponseError ''Incorrect ControlResponse format (StatusText missing or not the second item)''), r)
                                        else (None, r\<lparr>res_text := readString txt,
                                                      res_body := (case rest of [] \<Rightarrow> Block_default | body # _ \<Rightarrow> body)\<rparr>))))"

definition Response_print :: "control_response \<Rightarrow> string" where
  "Response_print r = show_nat (unat (res_code r)) @ '' '' @ res_text r"

section \<open>Wire format of control parameters\<close>

datatype params = Params (pm_name: "comp list option") (pm_faceId: "u64 option") (pm_uri: "string option") (pm_feature: "u32 option")
  (pm_origin: "u64 option") (pm_cost: "u64 option") (pm_flags: "u64 option") (pm_strategy: "comp list option")
  (pm_expiration: "int option") (pm_persistency: "byte option")

definition given :: "bool \<Rightarrow> 'a \<Rightarrow> 'a option" where
  "given b v = (if b then Some v else None)"

definition params_of :: "control_parameters \<Rightarrow> params" where
  "params_of p = Params (given (Par_hasName p) (name_of (par_name p))) (given (Par_hasFaceId p) (par_faceId p)) (given (Par_hasUri p) (par_uri p))
     (given (Par_hasLocalControlFeature p) (par_localControlFeature p)) (given (Par_hasOrigin p) (par_origin p)) (given (Par_hasCost p) (par_cost p))
     (given (Par_hasFlags p) (par_flags p)) (given (Par_hasStrategy p) (name_of (par_strategy p)))
     (given (Par_hasExpirationPeriod p) (par_expirationPeriod p)) (given (Par_hasFacePersistency p) (par_facePersistency p))"

definition opt_element :: "u32 \<Rightarrow> ('a \<Rightarrow> byte list) \<Rightarrow> 'a option \<Rightarrow> (u32 \<times> byte list) list" where
  "opt_element t f c = (case c of Some v \<Rightarrow> [(t, f v)] | None \<Rightarrow> [])"

definition params_elements :: "params \<Rightarrow> (u32 \<times> byte list) list" where
  "params_elements x =
     opt_element tlv_Name comps_value (pm_name x) @ opt_element nfd_FaceId nni_bytes (pm_faceId x) @
     opt_element nfd_Uri (map byte_of_char) (pm_uri x) @ opt_element nfd_LocalControlFeature (\<lambda>f. nni_bytes (ucast f)) (pm_feature x) @
     opt_element nfd_Origin nni_bytes (pm_origin x) @ opt_element nfd_Cost nni_bytes (pm_cost x) @
     opt_element nfd_Flags nni_bytes (pm_flags x) @ opt_element nfd_Strategy (\<lambda>cs. tlv_bytes tlv_Name (comps_value cs)) (pm_strategy x) @
     opt_element nfd_ExpirationPeriod (\<lambda>ms. nni_bytes (of_int ms)) (pm_expiration x) @
     opt_element nfd_FacePersistency (\<lambda>f. nni_bytes (ucast f)) (pm_persistency x)"

definition params_value :: "params \<Rightarrow> byte list" where
  "params_value x = elements_bytes (params_elements x)"

definition good_params :: "params \<Rightarrow> bool" where
  "good_params x \<longleftrightarrow> (\<forall>cs. pm_name x = Some cs \<longrightarrow> (\<forall>c \<in> set cs. is_comp c)) \<and> (\<forall>cs. pm_strategy x = Some cs \<longrightarrow> (\<forall>c \<in> set cs. is_comp c))
     \<and> (\<forall>ms. pm_expiration x = Some ms \<longrightarrow> - (2 ^ 63) \<le> ms \<and> ms < 2 ^ 63)"

definition params_inv :: "control_parameters \<Rightarrow> bool" where
  "params_inv p \<longleftrightarrow> (Par_hasName p \<longrightarrow> is_name (par_name p)) \<and> (Par_hasStrategy p \<longrightarrow> is_name (par_strategy p))"

lemma params_of_wire [simp]: "params_of (p\<lparr>par_wire := b\<rparr>) = params_of p"
  by (simp add: params_of_def par_has)

text \<open>A setter changes its own field and drops the cached wire.\<close>

lemma params_of_set:
  "params_of (Par_setName p n) = (case params_of p of Params _ b c d e f g h i j \<Rightarrow> Params (Some (name_of n)) b c d e f g h i j)"
  "params_of (Par_setFaceId p v) = (case params_of p of Params a _ c d e f g h i j \<Rightarrow> Params a (Some v) c d e f g h i j)"
  "params_of (Par_setUri p u) = (case params_of p of Params a b _ d e f g h i j \<Rightarrow> Params a b (Some u) d e f g h i j)"
  "params_of (Par_setLocalControlFeature p l) = (case params_of p of Params a b c _ e f g h i j \<Rightarrow> Params a b c (Some l) e f g h i j)"
  "params_of (Par_setOrigin p v) = (case params_of p of Params a b c d _ f g h i j \<Rightarrow> Params a b c d (Some v) f g h i j)"
  "params_of (Par_setCost p v) = (case params_of p of Params a b c d e _ g h i j \<Rightarrow> Params a b c d e (Some v) g h i j)"
  "params_of (Par_setFlags p v) = (case params_of p of Params a b c d e f _ h i j \<Rightarrow> Params a b c d e f (Some v) h i j)"
  "params_of (Par_setStrategy p n) = (case params_of p of Params a b c d e f g _ i j \<Rightarrow> Params a b c d e f g (Some (name_of n)) i j)"
  "params_of (Par_setExpirationPeriod p m) = (case params_of p of Params a b c d e f g h _ j \<Rightarrow> Params a b c d e f g h (Some m) j)"
  "params_of (Par_setFacePersistency p q) = (case params_of p of Params a b c d e f g h i _ \<Rightarrow> Params a b c d e f g h i (Some q))"
  by (simp_all add: params_of_def par_has par_set given_def)

lemma wire_reset [simp]: "\<not> hasWire (Block_reset b)"
  by (simp add: Block_reset_def hasWire_def)

context encoding_impl
begin

lemma opt_step_emits:
  assumes "\<And>v. c = Some v \<Longrightarrow> emitter emits step (tlv_bytes t (f v))" "has \<longleftrightarrow> c \<noteq> None"
  shows "list_all2 (\<lambda>f (t, v). \<forall>n :: nat. emitterE emits (f n) (tlv_bytes t v)) (if has then [\<lambda>_ e. Inr (step e)] else []) (rev (opt_element t f c))"
  using assms by (auto simp: opt_element_def emitterE_Inr split: option.split)

lemma Par_wireEncode_to_emits:
  assumes "params_inv p"
  shows "emitterE emits (Par_wireEncode_to ops p) (tlv_bytes nfd_ControlParameters (params_value (params_of p)))"
proof -
  have name: "emitter emits (Name_wireEncode_to ops n) (tlv_bytes tlv_Name (comps_value (name_of n)))" if "is_name n" for n
    using Name_wireEncode_to_emits [OF that] by (simp add: name_value_def)
  show ?thesis
    unfolding Par_wireEncode_to_def params_value_def append_assoc [symmetric]
    by (rule element_steps_emit, unfold params_elements_def rev_append append_assoc [symmetric], intro list_all2_appendI opt_step_emits)
      (use assms in \<open>auto simp: params_of_def given_def params_inv_def split: if_splits
        intro!: prependNonNegativeIntegerBlock_emits prependNestedBlock_emits prependStringBlock_emits name\<close>)
qed

end

lemma opt_element_lookup: "map_of (opt_element t f c @ es) u = (if t = u then case c of None \<Rightarrow> map_of es u | Some v \<Rightarrow> Some (f v) else map_of es u)"
  by (simp add: opt_element_def split: option.split)

lemma opt_element_lookup_last: "map_of (opt_element t f c) u = (if t = u then case c of None \<Rightarrow> None | Some v \<Rightarrow> Some (f v) else None)"
  by (simp add: opt_element_def split: option.split)

lemma params_lookup:
  "map_of (params_elements x) tlv_Name = map_option comps_value (pm_name x)"
  "map_of (params_elements x) nfd_FaceId = map_option nni_bytes (pm_faceId x)"
  "map_of (params_elements x) nfd_Uri = map_option (map byte_of_char) (pm_uri x)"
  "map_of (params_elements x) nfd_LocalControlFeature = map_option (\<lambda>f. nni_bytes (ucast f)) (pm_feature x)"
  "map_of (params_elements x) nfd_Origin = map_option nni_bytes (pm_origin x)"
  "map_of (params_elements x) nfd_Cost = map_option nni_bytes (pm_cost x)"
  "map_of (params_elements x) nfd_Flags = map_option nni_bytes (pm_flags x)"
  "map_of (params_elements x) nfd_Strategy = map_option (\<lambda>cs. tlv_bytes tlv_Name (comps_value cs)) (pm_strategy x)"
  "map_of (params_elements x) nfd_ExpirationPeriod = map_option (\<lambda>ms. nni_bytes (of_int ms)) (pm_expiration x)"
  "map_of (params_elements x) nfd_FacePersistency = map_option (\<lambda>f. nni_bytes (ucast f)) (pm_persistency x)"
  unfolding params_elements_def
  by (simp_all add: opt_element_lookup opt_element_lookup_last nfd_codes tlv_codes del: map_of_append split: option.split)

definition mark :: "ControlParameterField \<Rightarrow> 'a option \<Rightarrow> control_parameters \<Rightarrow> control_parameters" where
  "mark f c p = p\<lparr>par_hasFields := (par_hasFields p)(f := c \<noteq> None)\<rparr>"

lemma decode_field_none:
  assumes "map type_value (m_subBlocks b) = es" "map_of es t = None"
  shows "decode_field b t f d p = (None, mark f None p)"
  using find_element_None [OF assms] by (simp add: decode_field_def mark_def)

lemma decode_field_some:
  assumes "map type_value (m_subBlocks b) = es" "map_of es t = Some v" "\<forall>s \<in> set (m_subBlocks b). fresh s"
  obtains e where "decode_field b t f d p = d e (mark f (Some v) p)" "fresh e" "type_value e = (t, v)"
proof -
  obtain e where e: "find_element t b = Some e" "fresh e" "type_value e = (t, v)" using find_element_Some [OF assms] .
  then have "decode_field b t f d p = d e (mark f (Some v) p)" by (simp add: decode_field_def mark_def)
  with e show thesis using that by blast
qed

lemma decode_field_number:
  assumes "map type_value (m_subBlocks b) = es" "\<forall>s \<in> set (m_subBlocks b). fresh s"
    and "map_of es t = map_option (\<lambda>v. nni_bytes (g v)) c" "\<And>v. c = Some v \<Longrightarrow> h (g v) = v" "\<And>p. upd (\<lambda>x. x) p = p"
  shows "decode_field b t f (decode_number (\<lambda>n. upd (\<lambda>_. h n))) p = (None, upd (\<lambda>old. case c of Some v \<Rightarrow> v | None \<Rightarrow> old) (mark f c p))"
proof (cases c)
  case None
  then show ?thesis using decode_field_none [OF assms(1)] assms(3,5) by simp
next
  case (Some v)
  obtain e where "decode_field b t f (decode_number (\<lambda>n. upd (\<lambda>_. h n))) p = decode_number (\<lambda>n. upd (\<lambda>_. h n)) e (mark f (Some (nni_bytes (g v))) p)"
    "fresh e" "type_value e = (t, nni_bytes (g v))"
    using decode_field_some [OF assms(1) _ assms(2), of t "nni_bytes (g v)" f "decode_number (\<lambda>n. upd (\<lambda>_. h n))" p] assms(3) Some by auto
  then show ?thesis using read_element [of e t "g v"] assms(4) [OF Some] Some by (simp add: decode_number_def fresh_def mark_def)
qed

lemma decode_field_name:
  assumes "map type_value (m_subBlocks b) = es" "\<forall>s \<in> set (m_subBlocks b). fresh s"
    and "map_of es tlv_Name = map_option comps_value c" "\<And>cs. c = Some cs \<Longrightarrow> \<forall>x \<in> set cs. is_comp x"
  shows "\<exists>n. decode_field b tlv_Name f (\<lambda>val p. case Name_wireDecode (par_name p) val of (err, n) \<Rightarrow> (err, p\<lparr>par_name := n\<rparr>)) p
      = (None, (mark f c p)\<lparr>par_name := n\<rparr>) \<and> (\<forall>cs. c = Some cs \<longrightarrow> name_of n = cs \<and> is_name n)"
proof (cases c)
  case None
  then show ?thesis using decode_field_none [OF assms(1)] assms(3) by (intro exI [of _ "par_name p"]) (simp_all add: mark_def)
next
  case (Some cs)
  let ?d = "\<lambda>val p. case Name_wireDecode (par_name p) val of (err, n) \<Rightarrow> (err, p\<lparr>par_name := n\<rparr>)"
  obtain e where e: "decode_field b tlv_Name f ?d p = ?d e (mark f (Some (comps_value cs)) p)" "fresh e" "type_value e = (tlv_Name, comps_value cs)"
    using decode_field_some [OF assms(1) _ assms(2), of tlv_Name "comps_value cs" f ?d p] assms(3) Some by auto
  obtain n where "Name_wireDecode (par_name (mark f (Some (comps_value cs)) p)) e = (None, n)" "name_of n = cs" "is_name n"
    using name_wire.decodes [OF e(2,3)] assms(4) [OF Some] by blast
  with e(1) Some show ?thesis by (intro exI [of _ n]) (simp_all add: mark_def)
qed

lemma decode_field_strategy:
  assumes "map type_value (m_subBlocks b) = es" "\<forall>s \<in> set (m_subBlocks b). fresh s"
    and "map_of es t = map_option (\<lambda>cs. tlv_bytes tlv_Name (comps_value cs)) c" "\<And>cs. c = Some cs \<Longrightarrow> \<forall>x \<in> set cs. is_comp x"
  shows "\<exists>n. decode_field b t f decode_strategy p = (None, (mark f c p)\<lparr>par_strategy := n\<rparr>)
    \<and> (\<forall>cs. c = Some cs \<longrightarrow> name_of n = cs \<and> is_name n)"
proof (cases c)
  case None
  then show ?thesis using decode_field_none [OF assms(1)] assms(3) by (intro exI [of _ "par_strategy p"]) (simp_all add: mark_def)
next
  case (Some cs)
  let ?v = "tlv_bytes tlv_Name (comps_value cs)"
  obtain e where e: "decode_field b t f decode_strategy p = decode_strategy e (mark f (Some ?v) p)" "fresh e" "type_value e = (t, ?v)"
    using decode_field_some [OF assms(1) _ assms(2), of t ?v f decode_strategy p] assms(3) Some by auto
  have "value_bytes e = elements_bytes [(tlv_Name, comps_value cs)]" using e(3) by (simp add: type_value_def)
  from parse_fresh [OF e(2) this] obtain q where q: "parse e = (None, q)" "map type_value (m_subBlocks q) = [(tlv_Name, comps_value cs)]"
    "\<forall>s \<in> set (m_subBlocks q). fresh s" by metis
  then obtain s where s: "m_subBlocks q = [s]" "fresh s" "type_value s = (tlv_Name, comps_value cs)" by auto
  obtain n where "Name_wireDecode (par_strategy (mark f (Some ?v) p)) s = (None, n)" "name_of n = cs" "is_name n"
    using name_wire.decodes [OF s(2,3)] assms(4) [OF Some] by blast
  with e(1) q(1) s(1) Some show ?thesis by (intro exI [of _ n]) (simp_all add: mark_def decode_strategy_def)
qed

lemma par_update_id:
  "par_faceId_update (\<lambda>x. x) p = p" "par_uri_update (\<lambda>x. x) p = p" "par_localControlFeature_update (\<lambda>x. x) p = p"
  "par_origin_update (\<lambda>x. x) p = p" "par_cost_update (\<lambda>x. x) p = p" "par_flags_update (\<lambda>x. x) p = p"
  "par_expirationPeriod_update (\<lambda>x. x) p = p" "par_facePersistency_update (\<lambda>x. x) p = p"
  by (simp_all add: control_parameters.defs)

lemma decode_field_uri:
  assumes "map type_value (m_subBlocks b) = es" "\<forall>s \<in> set (m_subBlocks b). fresh s" "map_of es t = map_option (map byte_of_char) c"
  shows "decode_field b t f (\<lambda>val p. (None, p\<lparr>par_uri := readString val\<rparr>)) p
    = (None, par_uri_update (\<lambda>old. case c of Some u \<Rightarrow> u | None \<Rightarrow> old) (mark f c p))"
proof (cases c)
  case None
  then show ?thesis using decode_field_none [OF assms(1)] assms(3) by (simp add: par_update_id)
next
  case (Some u)
  let ?d = "\<lambda>val p. (None, p\<lparr>par_uri := readString val\<rparr>)"
  obtain e where e: "decode_field b t f ?d p = ?d e (mark f (Some (map byte_of_char u)) p)" "fresh e" "type_value e = (t, map byte_of_char u)"
    using decode_field_some [OF assms(1) _ assms(2), of t "map byte_of_char u" f ?d p] assms(3) Some by auto
  have "readString e = u" using e(2,3) value_size_wf [of e] by (simp add: readString_def type_value_def fresh_def comp_def)
  with e(1) Some show ?thesis by (simp add: mark_def)
qed

lemma ucast_back: "ucast (ucast (f :: u32) :: u64) = f" "ucast (ucast (q :: byte) :: u64) = q"
  by (simp_all add: unsigned_ucast_eq take_bit_word_eq_self)

lemma given_case: "given (c \<noteq> None) (case c of Some v \<Rightarrow> v | None \<Rightarrow> d) = c"
  by (simp add: given_def split: option.split)

lemma Par_wireDecode_fresh:
  assumes "fresh w" "type_value w = (nfd_ControlParameters, params_value x)" "good_params x"
  shows "\<exists>p'. Par_wireDecode p w = (None, p') \<and> params_of p' = x \<and> params_inv p'"
proof -
  have mt: "m_type w = nfd_ControlParameters" and v: "value_bytes w = elements_bytes (params_elements x)"
    using assms(2) by (simp_all add: type_value_def params_value_def)
  obtain b where b: "parse w = (None, b)" "map type_value (m_subBlocks b) = params_elements x" "\<forall>s \<in> set (m_subBlocks b). fresh s"
    using parse_fresh [OF assms(1) v] by metis
  have good: "\<And>cs. pm_name x = Some cs \<Longrightarrow> \<forall>c \<in> set cs. is_comp c" "\<And>cs. pm_strategy x = Some cs \<Longrightarrow> \<forall>c \<in> set cs. is_comp c"
    "\<And>ms. pm_expiration x = Some ms \<Longrightarrow> sint (of_int ms :: u64) = ms"
    using assms(3) by (auto simp: good_params_def signed_of_int signed_take_bit_int_eq_self)
  let ?name = "\<lambda>val p. case Name_wireDecode (par_name p) val of (err, n) \<Rightarrow> (err, p\<lparr>par_name := n\<rparr>)"
  from choice [OF allI [OF decode_field_name [OF b(2,3) params_lookup(1) good(1), of CONTROL_PARAMETER_NAME]]]
  obtain N where N: "\<forall>q. decode_field b tlv_Name CONTROL_PARAMETER_NAME ?name q = (None, (mark CONTROL_PARAMETER_NAME (pm_name x) q)\<lparr>par_name := N q\<rparr>)
    \<and> (\<forall>cs. pm_name x = Some cs \<longrightarrow> name_of (N q) = cs \<and> is_name (N q))" ..
  from choice [OF allI [OF decode_field_strategy [OF b(2,3) params_lookup(8) good(2), of CONTROL_PARAMETER_STRATEGY]]]
  obtain S where S: "\<forall>q. decode_field b nfd_Strategy CONTROL_PARAMETER_STRATEGY decode_strategy q
      = (None, (mark CONTROL_PARAMETER_STRATEGY (pm_strategy x) q)\<lparr>par_strategy := S q\<rparr>)
    \<and> (\<forall>cs. pm_strategy x = Some cs \<longrightarrow> name_of (S q) = cs \<and> is_name (S q))" ..
  have N1: "decode_field b tlv_Name CONTROL_PARAMETER_NAME ?name q = (None, (mark CONTROL_PARAMETER_NAME (pm_name x) q)\<lparr>par_name := N q\<rparr>)" for q
    using N by blast
  have S1: "decode_field b nfd_Strategy CONTROL_PARAMETER_STRATEGY decode_strategy q
      = (None, (mark CONTROL_PARAMETER_STRATEGY (pm_strategy x) q)\<lparr>par_strategy := S q\<rparr>)" for q using S by blast
  have given_name: "given (pm_name x \<noteq> None) (name_of (N q)) = pm_name x" "given (pm_strategy x \<noteq> None) (name_of (S q)) = pm_strategy x" for q
    using N S by (auto simp: given_def)
  note number = decode_field_number [OF b(2,3)]
  note steps = number [where g = "\<lambda>v. v" and h = "\<lambda>v. v" and upd = par_faceId_update, OF params_lookup(2) refl par_update_id(1)]
    number [where g = "\<lambda>v. v" and h = "\<lambda>v. v" and upd = par_origin_update, OF params_lookup(5) refl par_update_id(4)]
    number [where g = "\<lambda>v. v" and h = "\<lambda>v. v" and upd = par_cost_update, OF params_lookup(6) refl par_update_id(5)]
    number [where g = "\<lambda>v. v" and h = "\<lambda>v. v" and upd = par_flags_update, OF params_lookup(7) refl par_update_id(6)]
    number [where g = ucast and h = ucast and upd = par_localControlFeature_update, OF params_lookup(4) ucast_back(1) par_update_id(3)]
    number [where g = ucast and h = ucast and upd = par_facePersistency_update, OF params_lookup(10) ucast_back(2) par_update_id(8)]
    number [where g = of_int and h = sint and upd = par_expirationPeriod_update, OF params_lookup(9) good(3) par_update_id(7)]
    decode_field_uri [OF b(2,3) params_lookup(3)] N1 S1
  have valid: "pm_name x \<noteq> None \<longrightarrow> is_name (N q)" "pm_strategy x \<noteq> None \<longrightarrow> is_name (S q)" for q using N S by auto
  show ?thesis
    by (simp add: Par_wireDecode_def mt b(1) steps params_of_def params_inv_def par_has mark_def given_case given_name valid del: not_None_eq)
qed

interpretation params_wire: wire_codec nfd_ControlParameters params_value good_params Par_wireDecode "\<lambda>_. True" params_of params_inv
  Par_wireEncode par_wire params_inv
proof (unfold_locales, goal_cases)
  case (1 b x p)
  then show ?case using Par_wireDecode_fresh by blast
next
  case (2 p)
  then show ?case
    using encode_block_eq [OF estimator.Par_wireEncode_to_emits [OF 2(1)] encoder.Par_wireEncode_to_emits [OF 2(1)]]
    by (simp add: Par_wireEncode_def del: length_tlv_bytes)
next
  case (3 p)
  then show ?case by (simp add: Par_wireEncode_def)
qed

text \<open>
  C24. Control parameters round-trip over the wire: the ten optional fields of an object without a cached wire are encoded without an error, and decoding
  the bytes into any object, whatever it held before, gives exactly the same fields, absent ones included.
\<close>

theorem ControlParameters_wire_roundtrip:
  assumes "params_inv p" "good_params (params_of p)" "\<not> hasWire (par_wire p)"
    and "length (tlv_bytes nfd_ControlParameters (params_value (params_of p))) < 2 ^ 64"
  shows "\<exists>w p' blk y. Par_wireEncode p = Inr (w, p') \<and> wire_bytes w = tlv_bytes nfd_ControlParameters (params_value (params_of p))
     \<and> params_of p' = params_of p \<and> Par_wireEncode p' = Inr (w, p')
     \<and> Block_whole (wire_bytes w) = Inr blk \<and> Par_wireDecode p0 blk = (None, y) \<and> params_of y = params_of p"
  using params_wire.roundtrip [OF assms(1-3) TrueI assms(4)] by blast

definition example_parameters :: "control_parameters \<Rightarrow> control_parameters" where
  "example_parameters junk = Par_setFaceId (Par_setName (ControlParameters_default junk) (name1 [65])) 9"

lemma example_parameters_facts:
  "params_inv (example_parameters junk)" "\<not> hasWire (par_wire (example_parameters junk))"
  "params_of (example_parameters junk) = Params (Some [Comp tlv_NameComponent [65]]) (Some 9) None None None None None None None None"
  "good_params (params_of (example_parameters junk))"
  by (simp_all add: example_parameters_def ControlParameters_default_def params_inv_def params_of_def par_has par_set given_def good_params_def is_comp_def)

definition no_parameters :: control_parameters where
  "no_parameters = \<lparr>par_hasFields = \<lambda>_. False, par_name = Name_default, par_faceId = 0, par_uri = [], par_localControlFeature = 0, par_origin = 0,
     par_cost = 0, par_flags = 0, par_strategy = Name_default, par_expirationPeriod = 0, par_facePersistency = 0, par_wire = Block_default\<rparr>"

theorem ControlParameters_wire_roundtrip_witness:
  "\<exists>w p' blk y. Par_wireEncode (example_parameters no_parameters) = Inr (w, p') \<and> wire_bytes w = [104, 8, 7, 3, 8, 1, 65, 105, 1, 9]
     \<and> Block_whole (wire_bytes w) = Inr blk \<and> Par_wireDecode no_parameters blk = (None, y)
     \<and> params_of y = Params (Some [Comp tlv_NameComponent [65]]) (Some 9) None None None None None None None None"
proof -
  have v: "tlv_bytes nfd_ControlParameters (params_value (params_of (example_parameters no_parameters))) = [104, 8, 7, 3, 8, 1, 65, 105, 1, 9]"
    unfolding example_parameters_facts(3)
    by (simp add: params_value_def params_elements_def opt_element_def comps_value_def nni_bytes_def tlv_bytes_def writeVarNumber_def tlv_codes nfd_codes)
  then have "length (tlv_bytes nfd_ControlParameters (params_value (params_of (example_parameters no_parameters)))) < 2 ^ 64" by simp
  from ControlParameters_wire_roundtrip [OF example_parameters_facts(1,4,2) this, of no_parameters] show ?thesis
    unfolding v unfolding example_parameters_facts(3) by blast
qed

section \<open>Commands\<close>

lemma validate_loop_iff:
  "validate_loop v present fs = None \<longleftrightarrow> (\<forall>f \<in> set fs. (m_required v f \<longrightarrow> present f) \<and> (present f \<longrightarrow> m_required v f \<or> m_optional v f))"
  by (induction fs) auto

lemma set_all_fields: "set all_fields = UNIV"
proof -
  have "f \<in> set all_fields" for f by (cases f) (simp_all add: all_fields_def)
  then show ?thesis by blast
qed

lemma validate_iff:
  "validate v p = None \<longleftrightarrow> (\<forall>f. (m_required v f \<longrightarrow> par_hasFields p f) \<and> (par_hasFields p f \<longrightarrow> m_required v f \<or> m_optional v f))"
  by (simp add: validate_def validate_loop_iff set_all_fields)

lemmas validator_simps = FieldValidator_def required_def optional_def

lemma then_check_None: "then_check err field ok what = None \<longleftrightarrow> err = None \<and> (\<exists>v. field = Inr v \<and> ok v)"
  by (auto simp: then_check_def split: option.splits sum.splits if_splits)

text \<open>The request that the forwarder sees: what the sender set, and defaults for the rest.\<close>

definition opt_le :: "'a option \<Rightarrow> 'a option \<Rightarrow> bool" where
  "opt_le a b \<longleftrightarrow> a = None \<or> a = b"

definition params_le :: "params \<Rightarrow> params \<Rightarrow> bool" where
  "params_le x y \<longleftrightarrow> opt_le (pm_name x) (pm_name y) \<and> opt_le (pm_faceId x) (pm_faceId y) \<and> opt_le (pm_uri x) (pm_uri y)
     \<and> opt_le (pm_feature x) (pm_feature y) \<and> opt_le (pm_origin x) (pm_origin y) \<and> opt_le (pm_cost x) (pm_cost y) \<and> opt_le (pm_flags x) (pm_flags y)
     \<and> opt_le (pm_strategy x) (pm_strategy y) \<and> opt_le (pm_expiration x) (pm_expiration y) \<and> opt_le (pm_persistency x) (pm_persistency y)"

lemma params_le_refl [simp]: "params_le x x"
  by (simp add: params_le_def opt_le_def)

lemma defaults_keep: "params_le (params_of p) (params_of (applyDefaultsToRequest cmd p))"
  by (cases cmd) (auto simp: applyDefaultsToRequest_def Let_def params_le_def opt_le_def params_of_def given_def par_has par_set)

text \<open>The fields that a command fills in when they are absent.\<close>

definition defaulted :: "control_command \<Rightarrow> ControlParameterField set" where
  "defaulted cmd =
     (case cmd of
        FaceCreateCommand \<Rightarrow> {CONTROL_PARAMETER_FACE_PERSISTENCY}
      | FibAddNextHopCommand \<Rightarrow> {CONTROL_PARAMETER_FACE_ID, CONTROL_PARAMETER_COST}
      | FibRemoveNextHopCommand \<Rightarrow> {CONTROL_PARAMETER_FACE_ID}
      | RibRegisterCommand \<Rightarrow> {CONTROL_PARAMETER_FACE_ID, CONTROL_PARAMETER_ORIGIN, CONTROL_PARAMETER_COST, CONTROL_PARAMETER_FLAGS}
      | RibUnregisterCommand \<Rightarrow> {CONTROL_PARAMETER_FACE_ID, CONTROL_PARAMETER_ORIGIN}
      | _ \<Rightarrow> {})"

lemma defaults_present: "par_hasFields (applyDefaultsToRequest cmd p) f \<longleftrightarrow> par_hasFields p f \<or> f \<in> defaulted cmd"
  by (cases cmd) (auto simp: applyDefaultsToRequest_def defaulted_def Let_def par_has par_set)

lemma defaults_idem: "defaulted cmd \<subseteq> {f. par_hasFields p f} \<Longrightarrow> applyDefaultsToRequest cmd p = p"
  by (cases cmd) (auto simp: applyDefaultsToRequest_def defaulted_def Let_def par_has)

lemma defaulted_allowed:
  "f \<in> defaulted cmd \<Longrightarrow> m_optional (requestValidator cmd) f"
  "m_required (responseValidator cmd) f \<Longrightarrow> m_required (requestValidator cmd) f \<or> f \<in> defaulted cmd \<or> f = CONTROL_PARAMETER_FACE_ID"
  by (cases cmd; auto simp: defaulted_def validator_simps split: if_splits)+

lemma validate_defaults: "validate (requestValidator cmd) p = None \<Longrightarrow> validate (requestValidator cmd) (applyDefaultsToRequest cmd p) = None"
  using defaulted_allowed(1) unfolding validate_iff defaults_present by blast

text \<open>
  C25. The defaults of a command complete a valid request without spoiling it: the completed request is still valid, keeps every field that the sender set, has
  every field that the response must have (except perhaps the face id, which the forwarder assigns), and is not changed by applying the defaults again.
\<close>

theorem command_defaults:
  assumes "validateRequest cmd p = None" "q = applyDefaultsToRequest cmd p"
  shows "validateRequest cmd q = None \<and> params_le (params_of p) (params_of q) \<and> applyDefaultsToRequest cmd q = q
    \<and> (\<forall>f. m_required (responseValidator cmd) f \<longrightarrow> par_hasFields q f \<or> f = CONTROL_PARAMETER_FACE_ID)"
proof -
  have base: "validate (requestValidator cmd) p = None"
    using assms(1) by (auto simp: validateRequest_def Let_def then_check_None split: if_splits)
  have "validateRequest cmd q = None"
  proof (cases "defaulted cmd = {}")
    case True
    then have "q = p" using defaults_idem [of cmd p] assms(2) by simp
    with assms(1) show ?thesis by simp
  next
    case False
    then have "validateRequest cmd q = validate (requestValidator cmd) q" by (cases cmd) (simp_all add: validateRequest_def defaulted_def Let_def)
    then show ?thesis using validate_defaults [OF base] assms(2) by simp
  qed
  moreover have "applyDefaultsToRequest cmd q = q" using defaults_idem [of cmd q] defaults_present [of cmd p] assms(2) by auto
  moreover have "par_hasFields q f \<or> f = CONTROL_PARAMETER_FACE_ID" if "m_required (responseValidator cmd) f" for f
    using defaulted_allowed(2) [OF that] base defaults_present [of cmd p f] assms(2) by (auto simp: validate_iff)
  ultimately show ?thesis using defaults_keep [of p cmd] assms(2) by blast
qed

theorem command_defaults_witness:
  "validateRequest RibRegisterCommand (example_parameters no_parameters) = None
   \<and> pm_flags (params_of (applyDefaultsToRequest RibRegisterCommand (example_parameters no_parameters))) = Some ROUTE_FLAG_CHILD_INHERIT
   \<and> validateRequest RibRegisterCommand (applyDefaultsToRequest RibRegisterCommand (example_parameters no_parameters)) = None"
proof -
  let ?p = "example_parameters no_parameters"
  have has: "par_hasFields ?p f \<longleftrightarrow> f = CONTROL_PARAMETER_NAME \<or> f = CONTROL_PARAMETER_FACE_ID" for f
    by (simp add: example_parameters_def ControlParameters_default_def par_set)
  then have "validateRequest RibRegisterCommand ?p = None"
    by (auto simp: validateRequest_def validate_iff validator_simps Let_def)
  then show ?thesis using command_defaults [of RibRegisterCommand ?p] has
    by (auto simp: applyDefaultsToRequest_def Let_def par_has par_set params_of_def given_def)
qed

text \<open>A response with a face id has one that is not zero, although zero is the default of the request.\<close>

lemma response_faceId:
  assumes "validateResponse cmd p = None" "m_required (responseValidator cmd) CONTROL_PARAMETER_FACE_ID"
  shows "Par_hasFaceId p \<and> par_faceId p \<noteq> 0"
  using assms by (cases cmd) (auto simp: validateResponse_def validateRequest_def Let_def then_check_None Par_getFaceId_def validator_simps split: if_splits)

lemma Block_ofBlock_wire:
  assumes "wf_block w" "hasWire w"
  shows "\<exists>b. Block_ofBlock t w = Inr b \<and> wf_block b \<and> hasValue b \<and> m_type b = t \<and> value_bytes b = wire_bytes w \<and> m_subBlocks b = []"
proof -
  obtain buf where buf: "m_buffer w = Some buf" using assms(2) by (cases "m_buffer w") (simp_all add: hasWire_def)
  let ?b = "Block (Some buf) t (length buf) (length buf)
      (of_nat (sizeOfVarNumber (ucast t) + sizeOfVarNumber (of_nat (m_end w - m_begin w)) + (m_end w - m_begin w))) (m_begin w) (m_end w) []"
  have it: "m_begin w \<le> m_end w" "m_end w \<le> length buf"
    using assms wf_block_iff [of w] buf by (simp_all add: iterators_ok_def hasWire_hasValue buffer_of_def)
  have val: "value_bytes ?b = wire_bytes w" using buf assms(2) by (simp add: value_bytes_def wire_bytes_def buffer_of_def hasValue_def)
  have "\<not> hasWire ?b" "hasValue ?b" by (simp_all add: hasWire_def hasValue_def)
  moreover have "length (wire_bytes w) = m_end w - m_begin w" using buf assms(2) it by (simp add: wire_bytes_def buffer_of_def)
  ultimately have "wf_block ?b"
    using it val by (intro wf_block_leaf) (simp_all add: iterators_ok_def framed_def sized_def block_bytes_def buffer_of_def add.assoc)
  moreover have "Block_ofBlock t w = Inr ?b" using buf assms(2) by (simp add: Block_ofBlock_def Block_begin_def Block_end_def)
  ultimately show ?thesis using val \<open>hasValue ?b\<close> by (intro exI [of _ ?b]) simp
qed

lemma blockFromValue_fresh:
  assumes "wf_block b" "hasValue b" "value_bytes b = tlv_bytes t v" "length (tlv_bytes t v) < 2 ^ 64"
  obtains c where "blockFromValue b = Inr c" "fresh c" "type_value c = (t, v)"
proof -
  obtain c where c: "blockFromValue b = Inr c" "wf_block c" "hasWire c" "type_value c = (t, v)" using blockFromValue_tlv [OF assms(1-3)] .
  have parts: "m_subBlocks c = []" "wire_bytes c = value_bytes b"
    using c(1,3) by (auto simp: blockFromValue_def bindE_eq_Inr_iff Block_parts_def wire_bytes_def value_bytes_def buffer_of_def hasWire_def hasValue_def split: if_splits prod.splits)
  then show ?thesis using that c assms(3,4) by (simp add: fresh_def del: length_tlv_bytes)
qed

text \<open>
  The name of a command request is the prefix followed by module, verb and the encoded parameters as components; the parameters of a valid request are
  recovered from the last component.
\<close>

theorem request_name_roundtrip:
  assumes "validateRequest cmd p = None" "params_inv p" "good_params (params_of p)" "\<not> hasWire (par_wire p)"
    and "length (tlv_bytes nfd_ControlParameters (params_value (params_of p))) < 2 ^ 64"
  shows "\<exists>n p' c b y. getRequestName cmd commandPrefix p = Inr (n, p')
    \<and> name_of n = name_of commandPrefix @ [Comp tlv_NameComponent (map byte_of_char (command_module cmd)), Comp tlv_NameComponent (map byte_of_char (command_verb cmd)),
        Comp tlv_NameComponent (tlv_bytes nfd_ControlParameters (params_value (params_of p)))]
    \<and> last (comps n) = c \<and> blockFromValue c = Inr b \<and> Par_wireDecode p0 b = (None, y) \<and> params_of y = params_of p"
proof -
  let ?bs = "tlv_bytes nfd_ControlParameters (params_value (params_of p))"
  obtain p' where p': "Par_wireEncode p = Inr (par_wire p', p')" "wf_block (par_wire p')" "hasWire (par_wire p')" "wire_bytes (par_wire p') = ?bs"
    using params_wire.encodes [OF assms(2-5)] by blast
  obtain c where c: "Block_ofBlock tlv_NameComponent (par_wire p') = Inr c" "wf_block c" "hasValue c" "m_type c = tlv_NameComponent" "value_bytes c = ?bs"
    using Block_ofBlock_wire [OF p'(2,3), of tlv_NameComponent] p'(4) by auto
  have type: "m_type (par_wire p') = nfd_ControlParameters"
    using p'(2-4) wf_block_iff [of "par_wire p'"] readHeader_tlv_bytes [of nfd_ControlParameters "params_value (params_of p)" "[]"] by (simp add: framed_def)
  let ?m = "tlv_block tlv_NameComponent (map byte_of_char (command_module cmd))" and ?v = "tlv_block tlv_NameComponent (map byte_of_char (command_verb cmd))"
  let ?n = "Name_append (Name_append (Name_append commandPrefix ?m) ?v) c"
  have "getRequestName cmd commandPrefix p = Inr (?n, p')"
    using assms(1) p'(1) c(1) type by (simp add: getRequestName_def Component_ofString_def Name_appendBlock_def nfd_codes tlv_codes)
  moreover obtain b where b: "blockFromValue c = Inr b" "fresh b" "type_value b = (nfd_ControlParameters, params_value (params_of p))"
    using blockFromValue_fresh [OF c(2,3,5) assms(5)] .
  moreover obtain y where "Par_wireDecode p0 b = (None, y)" "params_of y = params_of p"
    using params_wire.decodes [OF b(2,3) assms(3) TrueI] by blast
  moreover have "name_of ?n = name_of commandPrefix @ [Comp tlv_NameComponent (map byte_of_char (command_module cmd)),
      Comp tlv_NameComponent (map byte_of_char (command_verb cmd)), Comp tlv_NameComponent ?bs]"
    using c(4,5) by (simp add: comp_of_def)
  moreover have "last (comps ?n) = c" by simp
  ultimately show ?thesis by blast
qed

theorem request_name_roundtrip_witness:
  "\<exists>n p' b y. getRequestName RibRegisterCommand (name1 [65]) (example_parameters no_parameters) = Inr (n, p')
    \<and> name_of n = [Comp tlv_NameComponent [65], Comp tlv_NameComponent [114, 105, 98], Comp tlv_NameComponent [114, 101, 103, 105, 115, 116, 101, 114],
        Comp tlv_NameComponent [104, 8, 7, 3, 8, 1, 65, 105, 1, 9]]
    \<and> blockFromValue (last (comps n)) = Inr b \<and> Par_wireDecode no_parameters b = (None, y)
    \<and> params_of y = Params (Some [Comp tlv_NameComponent [65]]) (Some 9) None None None None None None None None"
proof -
  let ?p = "example_parameters no_parameters"
  have v: "tlv_bytes nfd_ControlParameters (params_value (params_of ?p)) = [104, 8, 7, 3, 8, 1, 65, 105, 1, 9]"
    unfolding example_parameters_facts(3)
    by (simp add: params_value_def params_elements_def opt_element_def comps_value_def nni_bytes_def tlv_bytes_def writeVarNumber_def tlv_codes nfd_codes)
  then have len: "length (tlv_bytes nfd_ControlParameters (params_value (params_of ?p))) < 2 ^ 64" by simp
  have "par_hasFields ?p f \<longleftrightarrow> f = CONTROL_PARAMETER_NAME \<or> f = CONTROL_PARAMETER_FACE_ID" for f
    by (simp add: example_parameters_def ControlParameters_default_def par_set)
  then have ok: "validateRequest RibRegisterCommand ?p = None" by (auto simp: validateRequest_def validate_iff validator_simps Let_def)
  have str: "map byte_of_char (command_module RibRegisterCommand) = [114, 105, 98]"
    "map byte_of_char (command_verb RibRegisterCommand) = [114, 101, 103, 105, 115, 116, 101, 114]"
    "name_of (name1 [65]) = [Comp tlv_NameComponent [65]]"
    by (simp_all add: byte_of_char_def)
  show ?thesis
    using request_name_roundtrip [OF ok example_parameters_facts(1,4,2) len, of "name1 [65]" no_parameters]
    unfolding v str unfolding example_parameters_facts(3) by auto
qed

section \<open>Responses\<close>

datatype response = Response (rs_code: u32) (rs_text: string) (rs_body: "(u32 \<times> byte list) option")

definition response_of :: "control_response \<Rightarrow> response" where
  "response_of r = Response (res_code r) (res_text r) (if hasWire (res_body r) then Some (type_value (res_body r)) else None)"

definition response_elements :: "response \<Rightarrow> (u32 \<times> byte list) list" where
  "response_elements x =
     [(nfd_StatusCode, nni_bytes (ucast (rs_code x))), (nfd_StatusText, map byte_of_char (rs_text x))]
     @ (case rs_body x of Some b \<Rightarrow> [b] | None \<Rightarrow> [])"

definition response_value :: "response \<Rightarrow> byte list" where
  "response_value x = elements_bytes (response_elements x)"

definition response_inv :: "control_response \<Rightarrow> bool" where
  "response_inv r \<longleftrightarrow> (hasWire (res_body r) \<longrightarrow> canonical (m_type (res_body r)) (res_body r)) \<and> length (res_text r) < 2 ^ 32 - 18"

lemma Response_wireDecode_fresh:
  assumes "fresh w" "type_value w = (nfd_ControlResponse, response_value x)"
  shows "\<exists>r'. Response_wireDecode r w = (None, r') \<and> response_of r' = x"
proof -
  have v: "value_bytes w = elements_bytes (response_elements x)" "m_type w = nfd_ControlResponse"
    using assms(2) by (simp_all add: type_value_def response_value_def)
  obtain b where b: "parse w = (None, b)" "map type_value (m_subBlocks b) = response_elements x" "\<forall>s \<in> set (m_subBlocks b). fresh s" "m_type b = m_type w"
    using parse_fresh [OF assms(1) v(1)] by metis
  then obtain code tx rest where e: "m_subBlocks b = code # tx # rest" "type_value code = (nfd_StatusCode, nni_bytes (ucast (rs_code x)))"
    "type_value tx = (nfd_StatusText, map byte_of_char (rs_text x))" "map type_value rest = (case rs_body x of Some b \<Rightarrow> [b] | None \<Rightarrow> [])"
    by (auto simp: response_elements_def)
  have fresh: "fresh code" "fresh tx" "\<forall>s \<in> set rest. fresh s" using b(3) e(1) by simp_all
  have num: "block_readNonNegativeInteger code = Inr (ucast (rs_code x))" using read_element [of code] e(2) fresh(1) by (simp add: fresh_def)
  have str: "readString tx = rs_text x"
    using e(3) fresh(2) value_size_wf [of tx] by (simp add: readString_def type_value_def fresh_def comp_def)
  have types: "m_type code = nfd_StatusCode" "m_type tx = nfd_StatusText" using e(2,3) by (simp_all add: type_value_def)
  have dec: "Response_wireDecode r w = (None, r\<lparr>res_wire := b, res_code := rs_code x, res_text := rs_text x,
      res_body := (case rest of [] \<Rightarrow> Block_default | body # _ \<Rightarrow> body)\<rparr>)"
    using b(1,4) v(2) e(1) num str types ucast_back(1) [of "rs_code x"] by (simp add: Response_wireDecode_def Let_def)
  have "(if hasWire (case rest of [] \<Rightarrow> Block_default | body # _ \<Rightarrow> body) then Some (type_value (case rest of [] \<Rightarrow> Block_default | body # _ \<Rightarrow> body)) else None)
      = rs_body x"
    using e(4) fresh(3) by (cases rest; cases "rs_body x") (auto simp: fresh_def Block_default_def hasWire_def)
  then show ?thesis using dec by (cases x) (simp add: response_of_def)
qed

lemma Response_wireEncode_new:
  assumes "response_inv r" "\<not> hasWire (res_wire r)"
  shows "\<exists>r'. Response_wireEncode r = Inr (res_wire r', r') \<and> response_of r' = response_of r \<and> wf_block (res_wire r') \<and> hasWire (res_wire r')
    \<and> wire_bytes (res_wire r') = tlv_bytes nfd_ControlResponse (response_value (response_of r))"
proof -
  let ?code = "tlv_block nfd_StatusCode (nni_bytes (ucast (res_code r)))" and ?txt = "tlv_block nfd_StatusText (map byte_of_char (res_text r))"
  let ?es = "[?code, ?txt] @ (if hasWire (res_body r) then [res_body r] else [])"
  let ?b = "let w = push_back (push_back (Block_ofType nfd_ControlResponse) ?code) ?txt in if hasWire (res_body r) then push_back w (res_body r) else w"
  have b: "m_subBlocks ?b = ?es" "m_type ?b = nfd_ControlResponse" "\<not> hasWire ?b" "\<not> hasValue ?b"
    by (simp_all add: push_back_def with_subBlocks_def resetWire_def Block_ofType_def hasWire_def hasValue_def Let_def)
  have small: "length (nni_bytes (ucast (res_code r))) \<le> 8" by (simp add: nni_bytes_def Let_def)
  have "length (tlv_bytes nfd_StatusCode (nni_bytes (ucast (res_code r)))) < 2 ^ 32" "length (tlv_bytes nfd_StatusText (map byte_of_char (res_text r))) < 2 ^ 32"
    using assms(1) small sizeOfVarNumber_bounds(2) [of "ucast nfd_StatusCode"] sizeOfVarNumber_bounds(2) [of "of_nat (length (nni_bytes (ucast (res_code r))))"]
      sizeOfVarNumber_bounds(2) [of "ucast nfd_StatusText"] sizeOfVarNumber_bounds(2) [of "of_nat (length (res_text r))"]
    by (simp_all add: response_inv_def)
  then have elems: "\<forall>e \<in> set ?es. wf_block e \<and> hasValue e \<and> length (block_bytes e) < 2 ^ 32"
    using assms(1) by (auto simp: response_inv_def canonical_def sendable_def hasWire_hasValue simp del: length_tlv_bytes)
  have "wf_block ?b" using b elems by (subst wf_block_iff) (auto simp: iterators_ok_def framed_def sized_def elements_ok_def)
  moreover have "complete_elements ?b" using b elems by (simp add: complete_elements_def)
  ultimately obtain w where w: "encode ?b = (None, w)" "hasWire w" "wf_block w" "wire_bytes w = tlv_bytes nfd_ControlResponse (encoded_value ?b)"
    using encode_complete [OF _ b(3)] b(2) by metis
  have "encoded_value ?b = response_value (response_of r)"
    using assms(1) by (auto simp: encoded_value_def b response_value_def response_elements_def response_of_def response_inv_def canonical_def type_value_def)
  moreover have "Response_wireEncode r = Inr (w, r\<lparr>res_wire := w\<rparr>)" using w(1) assms(2) by (simp add: Response_wireEncode_def Let_def)
  ultimately show ?thesis using w(2-4) by (intro exI [of _ "r\<lparr>res_wire := w\<rparr>"]) (simp add: response_of_def)
qed

interpretation response_wire: wire_codec nfd_ControlResponse response_value "\<lambda>_. True" Response_wireDecode "\<lambda>_. True" response_of "\<lambda>_. True"
  Response_wireEncode res_wire response_inv
proof (unfold_locales, goal_cases)
  case (1 b v x0)
  then show ?case using Response_wireDecode_fresh by blast
next
  case (2 r)
  then show ?case using Response_wireEncode_new by blast
next
  case (3 r)
  then show ?case by (simp add: Response_wireEncode_def)
qed

text \<open>A response, with or without a body, round-trips over the wire.\<close>

lemma ControlResponse_wire_roundtrip:
  assumes "response_inv r" "\<not> hasWire (res_wire r)" "length (tlv_bytes nfd_ControlResponse (response_value (response_of r))) < 2 ^ 64"
  shows "\<exists>w r' blk y. Response_wireEncode r = Inr (w, r') \<and> Block_whole (wire_bytes w) = Inr blk \<and> Response_wireDecode r0 blk = (None, y)
     \<and> response_of y = response_of r"
  using response_wire.roundtrip [OF assms(1) TrueI assms(2) TrueI assms(3)] by blast

text \<open>A body that cannot be encoded is kept, while the wire of the response with the old body stays cached.\<close>

lemma setBody_failure:
  assumes "encode body = (Some err, b)"
  shows "setBody r body = (Some err, r\<lparr>res_body := b\<rparr>)" "hasWire (res_wire r) \<Longrightarrow> Response_wireEncode (snd (setBody r body)) = Inr (res_wire r, r\<lparr>res_body := b\<rparr>)"
  using assms by (simp_all add: setBody_def Response_wireEncode_def)

end
