(* ===== verification/StreamTransport.thy ===== *)
theory StreamTransport
  imports Encoder
begin

text \<open>
  Stream transports, after \<open>src/transport/transport.hpp\<close>, \<open>src/transport/stream-transport.hpp\<close>, \<open>src/transport/unix-transport.cpp\<close> and
  \<open>src/transport/tcp-transport.cpp\<close>.

  The socket and the timer of Boost.Asio are seen through the operations started on them, which are recorded in \<open>tr_ops\<close>, and through their completion handlers, which
  get the outcome as an argument. A handler is bound to the address of the \<open>StreamTransportImpl\<close> that started the operation; \<open>close()\<close> destroys that object, and a
  handler that touches a member of a destroyed object is undefined behaviour. An object is named by a number that is never reused, and so are the items of the transmission
  queue. Of the input buffer only the \<open>m_inputBufferSize\<close> bytes in use are kept. The receive callback belongs to the client; it gets and returns the
  transport together with the client's own state, and may throw.
\<close>

section \<open>State\<close>

datatype socket_op =
    StartConnectTimer
  | CancelConnectTimer
  | OpenSocket
  | AsyncResolve nat
  | AsyncConnect nat
  | AsyncReceive nat nat
  | AsyncWrite nat nat "block list"
  | CancelSocket
  | CloseSocket

datatype error_code = Success | OperationCanceled | OtherError string

record stream_impl =
  si_id :: nat
  si_input :: "byte list"
  si_queue :: "(nat \<times> block list) list"
  si_connectionInProgress :: bool
  si_nextItem :: nat

record stream_transport =
  tr_isConnected :: bool
  tr_isExpectingData :: bool
  tr_impl :: "stream_impl option"
  tr_nextImpl :: nat
  tr_ops :: "socket_op list"

definition Transport_new :: stream_transport where
  "Transport_new = \<lparr>tr_isConnected = False, tr_isExpectingData = False, tr_impl = None, tr_nextImpl = 0, tr_ops = []\<rparr>"

definition Impl_new :: "nat \<Rightarrow> stream_impl" where
  "Impl_new k = \<lparr>si_id = k, si_input = [], si_queue = [], si_connectionInProgress = False, si_nextItem = 0\<rparr>"

definition started :: "socket_op list \<Rightarrow> stream_transport \<Rightarrow> stream_transport" where
  "started ops tr = tr\<lparr>tr_ops := tr_ops tr @ ops\<rparr>"

section \<open>Operations of the implementation object\<close>

definition Impl_connect :: "stream_impl \<Rightarrow> stream_transport \<Rightarrow> stream_transport" where
  "Impl_connect i tr =
     (if \<not> si_connectionInProgress i
      then started [StartConnectTimer, OpenSocket, AsyncConnect (si_id i)] (tr\<lparr>tr_impl := Some (i\<lparr>si_connectionInProgress := True\<rparr>)\<rparr>)
      else tr\<lparr>tr_impl := Some i\<rparr>)"

text \<open>\<open>StreamTransportWithResolverImpl::connect\<close>, which resolves the host first.\<close>

definition Resolver_connect :: "stream_impl \<Rightarrow> stream_transport \<Rightarrow> stream_transport" where
  "Resolver_connect i tr =
     (if \<not> si_connectionInProgress i
      then started [StartConnectTimer, AsyncResolve (si_id i)] (tr\<lparr>tr_impl := Some (i\<lparr>si_connectionInProgress := True\<rparr>)\<rparr>)
      else tr\<lparr>tr_impl := Some i\<rparr>)"

definition Impl_close :: "stream_impl \<Rightarrow> stream_transport \<Rightarrow> stream_transport" where
  "Impl_close i tr =
     started [CancelConnectTimer, CancelSocket, CloseSocket]
       (tr\<lparr>tr_isConnected := False, tr_isExpectingData := False, tr_impl := Some (i\<lparr>si_connectionInProgress := False, si_queue := []\<rparr>)\<rparr>)"

definition Impl_pause :: "stream_impl \<Rightarrow> stream_transport \<Rightarrow> stream_transport" where
  "Impl_pause i tr =
     (if si_connectionInProgress i then tr
      else if tr_isExpectingData tr then started [CancelSocket] (tr\<lparr>tr_isExpectingData := False\<rparr>)
      else tr)"

definition Impl_resume :: "stream_impl \<Rightarrow> stream_transport \<Rightarrow> stream_transport" where
  "Impl_resume i tr =
     (if si_connectionInProgress i then tr
      else if \<not> tr_isExpectingData tr
      then started [AsyncReceive (si_id i) MAX_NDN_PACKET_SIZE] (tr\<lparr>tr_isExpectingData := True, tr_impl := Some (i\<lparr>si_input := []\<rparr>)\<rparr>)
      else tr)"

text \<open>\<open>boost::asio::async_write\<close> of the first item of the queue.\<close>

definition write_first :: "stream_impl \<Rightarrow> stream_transport \<Rightarrow> stream_transport" where
  "write_first i tr = (case si_queue i of [] \<Rightarrow> tr | (item, bs) # _ \<Rightarrow> started [AsyncWrite (si_id i) item bs] tr)"

definition Impl_send :: "block list \<Rightarrow> stream_impl \<Rightarrow> stream_transport \<Rightarrow> stream_transport" where
  "Impl_send sequence i tr =
     (let i = i\<lparr>si_queue := si_queue i @ [(si_nextItem i, sequence)], si_nextItem := Suc (si_nextItem i)\<rparr>;
          tr = tr\<lparr>tr_impl := Some i\<rparr>
      in if tr_isConnected tr \<and> length (si_queue i) = 1 then write_first i tr else tr)"

section \<open>The transport\<close>

text \<open>The Unix and the TCP transport differ only in the \<open>connect\<close> of their implementation object.\<close>

definition Transport_connect :: "(stream_impl \<Rightarrow> stream_transport \<Rightarrow> stream_transport) \<Rightarrow> stream_transport \<Rightarrow> stream_transport" where
  "Transport_connect impl_connect tr =
     (case tr_impl tr of
        None \<Rightarrow> impl_connect (Impl_new (tr_nextImpl tr)) (tr\<lparr>tr_nextImpl := Suc (tr_nextImpl tr)\<rparr>)
      | Some i \<Rightarrow> impl_connect i tr)"

definition UnixTransport_connect :: "stream_transport \<Rightarrow> stream_transport" where
  "UnixTransport_connect tr = Transport_connect Impl_connect tr"

definition TcpTransport_connect :: "stream_transport \<Rightarrow> stream_transport" where
  "TcpTransport_connect tr = Transport_connect Resolver_connect tr"

definition no_impl :: error where
  "no_impl = AssertionFailure ''static_cast<bool>(m_impl)''"

definition Transport_send :: "block \<Rightarrow> stream_transport \<Rightarrow> stream_transport result" where
  "Transport_send wire tr = (case tr_impl tr of None \<Rightarrow> Inl no_impl | Some i \<Rightarrow> Inr (Impl_send [wire] i tr))"

definition Transport_send2 :: "block \<Rightarrow> block \<Rightarrow> stream_transport \<Rightarrow> stream_transport result" where
  "Transport_send2 hdr body tr = (case tr_impl tr of None \<Rightarrow> Inl no_impl | Some i \<Rightarrow> Inr (Impl_send [hdr, body] i tr))"

definition Transport_close :: "stream_transport \<Rightarrow> stream_transport result" where
  "Transport_close tr = (case tr_impl tr of None \<Rightarrow> Inl no_impl | Some i \<Rightarrow> Inr (Impl_close i tr\<lparr>tr_impl := None\<rparr>))"

definition Transport_pause :: "stream_transport \<Rightarrow> stream_transport" where
  "Transport_pause tr = (case tr_impl tr of None \<Rightarrow> tr | Some i \<Rightarrow> Impl_pause i tr)"

definition Transport_resume :: "stream_transport \<Rightarrow> stream_transport result" where
  "Transport_resume tr = (case tr_impl tr of None \<Rightarrow> Inl no_impl | Some i \<Rightarrow> Inr (Impl_resume i tr))"

section \<open>Completion handlers\<close>

definition live_impl :: "nat \<Rightarrow> stream_transport \<Rightarrow> stream_impl option" where
  "live_impl k tr = (case tr_impl tr of None \<Rightarrow> None | Some i \<Rightarrow> if si_id i = k then Some i else None)"

definition dangling :: error where
  "dangling = UndefinedBehaviour ''access to a destroyed StreamTransportImpl''"

text \<open>\<open>m_transport.close()\<close> followed by a throw.\<close>

definition close_throw :: "string \<Rightarrow> stream_transport \<Rightarrow> error option \<times> stream_transport" where
  "close_throw msg tr = (case Transport_close tr of Inl err \<Rightarrow> (Some err, tr) | Inr tr \<Rightarrow> (Some (TransportError msg), tr))"

definition connectHandler :: "nat \<Rightarrow> error_code \<Rightarrow> stream_transport \<Rightarrow> error option \<times> stream_transport" where
  "connectHandler k err tr =
     (case live_impl k tr of
        None \<Rightarrow> (Some dangling, tr)
      | Some i \<Rightarrow>
          (let i = i\<lparr>si_connectionInProgress := False\<rparr>;
               tr = started [CancelConnectTimer] (tr\<lparr>tr_impl := Some i\<rparr>)
           in if err = Success
              then let tr = Impl_resume i tr;
                       tr = tr\<lparr>tr_isConnected := True\<rparr>
                   in (None, if si_queue i \<noteq> [] then write_first i tr else tr)
              else close_throw ''error while connecting to the forwarder'' (tr\<lparr>tr_isConnected := False\<rparr>)))"

text \<open>\<open>found\<close> says that the resolver found an endpoint.\<close>

definition resolveHandler :: "nat \<Rightarrow> error_code \<Rightarrow> bool \<Rightarrow> stream_transport \<Rightarrow> error option \<times> stream_transport" where
  "resolveHandler k err found tr =
     (if err = OperationCanceled then (None, tr)
      else if err \<noteq> Success then (Some (TransportError ''Error during resolution of host or port''), tr)
      else case live_impl k tr of
             None \<Rightarrow> (Some dangling, tr)
           | Some i \<Rightarrow>
               if \<not> found then close_throw ''Unable to resolve because host or port'' tr
               else (None, started [AsyncConnect k] tr))"

definition connectTimeoutHandler :: "nat \<Rightarrow> error_code \<Rightarrow> stream_transport \<Rightarrow> error option \<times> stream_transport" where
  "connectTimeoutHandler k err tr =
     (if err \<noteq> Success then (None, tr)
      else case live_impl k tr of
             None \<Rightarrow> (Some dangling, tr)
           | Some _ \<Rightarrow> close_throw ''error while connecting to the forwarder'' tr)"

definition handleAsyncWrite :: "nat \<Rightarrow> nat \<Rightarrow> error_code \<Rightarrow> stream_transport \<Rightarrow> error option \<times> stream_transport" where
  "handleAsyncWrite k item err tr =
     (if err = OperationCanceled then (None, tr)
      else case live_impl k tr of
             None \<Rightarrow> (Some dangling, tr)
           | Some i \<Rightarrow>
               if err \<noteq> Success then close_throw ''error while sending data to socket'' tr
               else if \<not> tr_isConnected tr then (None, tr)
               else if item \<notin> fst ` set (si_queue i) then (Some (UndefinedBehaviour ''erase of an invalid iterator''), tr)
               else let i = i\<lparr>si_queue := filter (\<lambda>x. fst x \<noteq> item) (si_queue i)\<rparr>;
                        tr = tr\<lparr>tr_impl := Some i\<rparr>
                    in (None, if si_queue i \<noteq> [] then write_first i tr else tr))"

type_synonym 's client_state = "stream_transport \<times> 's"
type_synonym 's receive_callback = "block \<Rightarrow> 's client_state \<Rightarrow> error option \<times> 's client_state"

text \<open>
  The loop over the complete elements of the buffer; it yields the exception of the callback, whether the whole buffer was consumed, and the offset. It could only run forever on a
  buffer of 4 GB, where \<open>size()\<close> wraps around to 0.
\<close>

partial_function (option) processAll ::
    "'s receive_callback \<Rightarrow> byte list \<Rightarrow> nat \<Rightarrow> 's client_state \<Rightarrow> (error option \<times> bool \<times> nat \<times> 's client_state) option" where
  "processAll receive buffer offset st =
     (if offset < length buffer
      then let (isOk, element) = fromBuffer_copy (drop offset buffer)
           in if \<not> isOk then Some (None, False, offset, st)
              else (case receive element st of
                      (Some err, st) \<Rightarrow> Some (Some err, False, offset, st)
                    | (None, st) \<Rightarrow>
                        (case Block_size element of
                           Inl err \<Rightarrow> Some (Some err, False, offset, st)
                         | Inr n \<Rightarrow> processAll receive buffer (offset + n) st))
      else Some (None, True, offset, st))"

text \<open>What \<open>handleAsyncReceive\<close> does with the buffer after the loop.\<close>

definition keep_rest :: "nat \<Rightarrow> bool \<Rightarrow> nat \<Rightarrow> stream_transport \<Rightarrow> error option \<times> stream_transport" where
  "keep_rest k hasProcessedSome offset tr =
     (case live_impl k tr of
        None \<Rightarrow> (Some dangling, tr)
      | Some i \<Rightarrow>
          if \<not> hasProcessedSome \<and> length (si_input i) = MAX_NDN_PACKET_SIZE \<and> offset = 0
          then close_throw ''input buffer full, but a valid TLV cannot be decoded'' tr
          else if offset > length (si_input i) then (Some (UndefinedBehaviour ''std::copy of an invalid range''), tr)
          else let i = i\<lparr>si_input := drop offset (si_input i)\<rparr>
               in (None, started [AsyncReceive k (MAX_NDN_PACKET_SIZE - length (si_input i))] (tr\<lparr>tr_impl := Some i\<rparr>)))"

definition handleAsyncReceive ::
    "'s receive_callback \<Rightarrow> nat \<Rightarrow> error_code \<Rightarrow> byte list \<Rightarrow> 's client_state \<Rightarrow> (error option \<times> 's client_state) option" where
  "handleAsyncReceive receive k err received st =
     (if err = OperationCanceled then Some (None, st)
      else case live_impl k (fst st) of
             None \<Rightarrow> Some (Some dangling, st)
           | Some i \<Rightarrow>
               if err \<noteq> Success
               then Some (case close_throw ''error while receiving data from socket'' (fst st) of (e, tr) \<Rightarrow> (e, tr, snd st))
               else let i = i\<lparr>si_input := si_input i @ received\<rparr>
                    in case processAll receive (si_input i) 0 ((fst st)\<lparr>tr_impl := Some i\<rparr>, snd st) of
                         None \<Rightarrow> None
                       | Some (Some e, _, _, st) \<Rightarrow> Some (Some e, st)
                       | Some (None, ok, offset, tr, s) \<Rightarrow> Some (case keep_rest k ok offset tr of (e, tr) \<Rightarrow> (e, tr, s)))"


section \<open>Elements of a byte stream\<close>

lemma fromBuffer_copy_True:
  assumes "fromBuffer_copy xs = (True, b)"
  shows "\<exists>p t q len r. xs = p @ q @ r \<and> (\<forall>r. readType (p @ r) = Some (t, r)) \<and> (\<forall>r. readVarNumber (q @ r) = Some (len, r))
    \<and> len \<le> of_nat (length r)
    \<and> b = Block_parts (p @ q @ take (unat len) r) t 0 (length p + length q + length (take (unat len) r)) (length p + length q) (length p + length q + length (take (unat len) r))"
proof -
  obtain t r1 where t: "readType xs = Some (t, r1)" using assms by (auto simp: fromBuffer_copy_def split: option.splits)
  obtain len r2 where len: "readVarNumber r1 = Some (len, r2)" using assms t by (auto simp: fromBuffer_copy_def split: option.splits)
  obtain p where p: "xs = p @ r1" "\<forall>r. readType (p @ r) = Some (t, r)" using readType_prefix [OF t] by auto
  obtain q where q: "r1 = q @ r2" "\<forall>r. readVarNumber (q @ r) = Some (len, r)" using readVarNumber_prefix [OF len] by auto
  have le: "\<not> len > of_nat (length r2)" and b: "b = Block_parts (take (length xs - length r2 + unat len) xs) t 0
      (length (take (length xs - length r2 + unat len) xs)) (length xs - length r2) (length (take (length xs - length r2 + unat len) xs))"
    using assms t len by (auto simp: fromBuffer_copy_def Let_def split: if_splits)
  have "length xs - length r2 = length p + length q" using p q by simp
  then show ?thesis using p q le b by (intro exI [of _ p] exI [of _ t] exI [of _ q] exI [of _ len] exI [of _ r2]) (simp add: add.assoc)
qed

lemma fromBuffer_copy_append:
  assumes "fromBuffer_copy xs = (True, b)" "length (xs @ ys) < 2 ^ 64"
  shows "fromBuffer_copy (xs @ ys) = (True, b)" "length (buffer_of b) \<le> length xs"
proof -
  obtain p t q len r where 1: "xs = p @ q @ r" "\<forall>r. readType (p @ r) = Some (t, r)" "\<forall>r. readVarNumber (q @ r) = Some (len, r)" "len \<le> of_nat (length r)"
    "b = Block_parts (p @ q @ take (unat len) r) t 0 (length p + length q + length (take (unat len) r)) (length p + length q) (length p + length q + length (take (unat len) r))"
    using fromBuffer_copy_True [OF assms(1)] by blast
  have "unat len \<le> length r" using 1(1,4) assms(2) by (simp add: word_le_nat_alt unat_u64_of_nat)
  moreover have "\<not> len > of_nat (length (r @ ys))"
  proof -
    have "unat len \<le> unat (of_nat (length (r @ ys)) :: u64)" using \<open>unat len \<le> length r\<close> 1(1) assms(2) by (simp add: unat_u64_of_nat del: of_nat_add)
    then show ?thesis by (simp add: word_less_nat_alt del: of_nat_add)
  qed
  ultimately show "fromBuffer_copy (xs @ ys) = (True, b)"
    using 1 by (simp add: fromBuffer_copy_def Let_def del: of_nat_add length_append) (simp add: add.assoc)
  show "length (buffer_of b) \<le> length xs" using 1(1,5) \<open>unat len \<le> length r\<close> by (simp add: Block_parts_def buffer_of_def)
qed


lemma fromBuffer_copy_tlv:
  assumes "length (tlv_bytes t v @ rest) < 2 ^ 64"
  shows "fromBuffer_copy (tlv_bytes t v @ rest) = (True, tlv_block t v)"
proof -
  have lv: "length v < 2 ^ 64" "length (v @ rest) < 2 ^ 64" using assms by (simp_all add: tlv_bytes_def)
  then have "\<not> (of_nat (length v) :: u64) > of_nat (length (v @ rest))"
    using of_nat_u64_le_iff [of "length v" "length (v @ rest)"] by (simp add: not_less del: of_nat_add)
  then show ?thesis
    using lv by (simp add: fromBuffer_copy_def tlv_bytes_def tlv_block_def Let_def unat_u64_of_nat del: of_nat_add)
qed

lemma fromBuffer_copy_partial:
  assumes "xs @ ys = tlv_bytes t v @ rest" "length xs < length (tlv_bytes t v)" "length (xs @ ys) < 2 ^ 64"
  shows "\<not> fst (fromBuffer_copy xs)"
proof
  assume "fst (fromBuffer_copy xs)"
  then obtain b where b: "fromBuffer_copy xs = (True, b)" by (cases "fromBuffer_copy xs") auto
  have "fromBuffer_copy (xs @ ys) = (True, tlv_block t v)" using fromBuffer_copy_tlv [of t v rest] assms(1,3) by simp
  then have "b = tlv_block t v" using fromBuffer_copy_append(1) [OF b assms(3)] by simp
  then show False using fromBuffer_copy_append(2) [OF b assms(3)] assms(2) by simp
qed

lemma Block_size_tlv_block: "length (tlv_bytes t v) < 2 ^ 32 \<Longrightarrow> Block_size (tlv_block t v) = Inr (length (tlv_bytes t v))"
  using Block_size_wf [of "tlv_block t v"] by (simp del: length_tlv_bytes)

text \<open>The bytes of packets one after the other, and how a prefix of them ends.\<close>

definition stream_of :: "(u32 \<times> byte list) list \<Rightarrow> byte list" where
  "stream_of ps = concat (map (\<lambda>(t, v). tlv_bytes t v) ps)"

definition packet_block :: "u32 \<times> byte list \<Rightarrow> block" where
  "packet_block p = tlv_block (fst p) (snd p)"

definition partial :: "byte list \<Rightarrow> (u32 \<times> byte list) list \<Rightarrow> bool" where
  "partial rest ps \<longleftrightarrow> (case ps of [] \<Rightarrow> rest = [] | (t, v) # _ \<Rightarrow> length rest < length (tlv_bytes t v))"

lemma stream_of_simps [simp]: "stream_of [] = []" "stream_of (p # ps) = tlv_bytes (fst p) (snd p) @ stream_of ps" "stream_of (ps @ qs) = stream_of ps @ stream_of qs"
  by (simp_all add: stream_of_def split_beta)

lemma stream_prefix:
  assumes "xs @ ys = stream_of ps"
  shows "\<exists>dn td rest. ps = dn @ td \<and> xs = stream_of dn @ rest \<and> rest @ ys = stream_of td \<and> partial rest td"
  using assms
proof (induction ps arbitrary: xs)
  case Nil
  then show ?case by (intro exI [of _ "[]"]) (simp add: partial_def)
next
  case (Cons p ps)
  let ?b = "tlv_bytes (fst p) (snd p)"
  show ?case
  proof (cases "length xs < length ?b")
    case True
    then show ?thesis using Cons.prems by (intro exI [of _ "[]"] exI [of _ "p # ps"] exI [of _ xs]) (simp add: partial_def split_beta del: length_tlv_bytes)
  next
    case False
    have "take (length ?b) (xs @ ys) = ?b" using Cons.prems by (simp del: length_tlv_bytes)
    then have "take (length ?b) xs = ?b" using False by (simp add: not_less del: length_tlv_bytes)
    then have "xs = ?b @ drop (length ?b) xs" by (metis append_take_drop_id)
    then obtain xs' where xs': "xs = ?b @ xs'" "xs' @ ys = stream_of ps"
      using Cons.prems by (metis append.assoc same_append_eq stream_of_simps(2))
    then obtain dn td rest where "ps = dn @ td" "xs' = stream_of dn @ rest" "rest @ ys = stream_of td" "partial rest td" using Cons.IH by blast
    then show ?thesis using xs' by (intro exI [of _ "p # dn"] exI [of _ td] exI [of _ rest]) simp
  qed
qed

section \<open>Receiving\<close>

text \<open>A client that does not throw and leaves the input buffer alone; \<open>f\<close> is its effect on the client's state.\<close>

definition client_ok :: "'s receive_callback \<Rightarrow> (block \<Rightarrow> 's \<Rightarrow> 's) \<Rightarrow> bool" where
  "client_ok receive f \<longleftrightarrow>
     (\<forall>b tr s i. tr_impl tr = Some i \<longrightarrow>
       (\<exists>tr' i'. receive b (tr, s) = (None, tr', f b s) \<and> tr_impl tr' = Some i' \<and> si_id i' = si_id i \<and> si_input i' = si_input i))"

definition incomplete :: "byte list \<Rightarrow> bool" where
  "incomplete rest \<longleftrightarrow> rest = [] \<or> \<not> fst (fromBuffer_copy rest)"

lemma incomplete_partial:
  assumes "partial rest td" "rest @ ys = stream_of td" "\<forall>(t, v) \<in> set td. length (tlv_bytes t v) < 2 ^ 32"
  shows "incomplete rest"
proof (cases td)
  case Nil
  then show ?thesis using assms(1) by (simp add: partial_def incomplete_def)
next
  case (Cons p td')
  let ?b = "tlv_bytes (fst p) (snd p)"
  have lt: "length rest < length ?b" using assms(1) Cons by (simp add: partial_def split_beta)
  have "take (length rest) ?b = rest" using arg_cong [OF assms(2), of "take (length rest)"] lt Cons by (simp del: length_tlv_bytes)
  then have "rest @ drop (length rest) ?b = ?b @ []" by (metis append_Nil2 append_take_drop_id)
  moreover have "length ?b < 2 ^ 32" using assms(3) Cons by (simp add: split_beta del: length_tlv_bytes)
  ultimately show ?thesis using fromBuffer_copy_partial [of rest "drop (length rest) ?b" "fst p" "snd p" "[]"] lt by (simp add: incomplete_def del: length_tlv_bytes)
qed

lemma processAll_stream:
  assumes "client_ok receive f" "buffer = pre @ stream_of dn @ rest" "incomplete rest" "length buffer < 2 ^ 32" "tr_impl tr = Some i"
  shows "\<exists>tr' i'. processAll receive buffer (length pre) (tr, s) = Some (None, rest = [], length pre + length (stream_of dn), tr', fold f (map packet_block dn) s)
    \<and> tr_impl tr' = Some i' \<and> si_id i' = si_id i \<and> si_input i' = si_input i"
  using assms
proof (induction dn arbitrary: pre tr i s)
  case Nil
  then show ?case by (subst processAll.simps) (auto simp: split_beta incomplete_def)
next
  case (Cons p dn)
  let ?b = "tlv_bytes (fst p) (snd p)"
  have len: "length ?b < 2 ^ 32" "length (?b @ stream_of dn @ rest) < 2 ^ 64"
    using Cons.prems(2,4) by (simp_all del: length_tlv_bytes)
  have from_: "fromBuffer_copy (drop (length pre) buffer) = (True, packet_block p)"
    using fromBuffer_copy_tlv [OF len(2)] Cons.prems(2) by (simp add: packet_block_def)
  have nonempty: "length pre < length buffer" using Cons.prems(2) by (simp del: length_tlv_bytes)
  obtain tr' i' where r: "receive (packet_block p) (tr, s) = (None, tr', f (packet_block p) s)" "tr_impl tr' = Some i'" "si_id i' = si_id i" "si_input i' = si_input i"
    using Cons.prems(1,5) unfolding client_ok_def by blast
  have sz: "Block_size (packet_block p) = Inr (length ?b)" using Block_size_tlv_block [OF len(1)] by (simp add: packet_block_def del: length_tlv_bytes)
  have "processAll receive buffer (length pre) (tr, s) = processAll receive buffer (length (pre @ ?b)) (tr', f (packet_block p) s)"
    using nonempty from_ r(1) sz by (subst processAll.simps) (simp del: length_tlv_bytes)
  moreover obtain tr'' i'' where "processAll receive buffer (length (pre @ ?b)) (tr', f (packet_block p) s) =
      Some (None, rest = [], length (pre @ ?b) + length (stream_of dn), tr'', fold f (map packet_block dn) (f (packet_block p) s))"
    "tr_impl tr'' = Some i''" "si_id i'' = si_id i'" "si_input i'' = si_input i'"
    using Cons.IH [OF Cons.prems(1) _ Cons.prems(3,4) r(2), of "pre @ ?b" "f (packet_block p) s"] Cons.prems(2) by (auto simp del: length_tlv_bytes)
  ultimately show ?case using r by (auto simp del: length_tlv_bytes)
qed

lemma live_impl_Some: "live_impl k tr = Some i \<longleftrightarrow> tr_impl tr = Some i \<and> si_id i = k"
  by (auto simp: live_impl_def split: option.split)

lemma handleAsyncReceive_stream:
  assumes "client_ok receive f" "live_impl k (fst st) = Some i" "si_input i @ received = stream_of dn @ rest" "incomplete rest"
    "length (si_input i @ received) \<le> MAX_NDN_PACKET_SIZE" "length rest < MAX_NDN_PACKET_SIZE"
  shows "\<exists>tr' i'. handleAsyncReceive receive k Success received st = Some (None, tr', fold f (map packet_block dn) (snd st))
    \<and> live_impl k tr' = Some i' \<and> si_input i' = rest"
proof -
  obtain tr s where st: "st = (tr, s)" by force
  let ?i = "i\<lparr>si_input := si_input i @ received\<rparr>"
  have len: "length (si_input i @ received) < 2 ^ 32" using assms(5) by (simp add: MAX_NDN_PACKET_SIZE_def)
  obtain tr' i' where p: "processAll receive (si_input i @ received) (length []) (tr\<lparr>tr_impl := Some ?i\<rparr>, s) =
      Some (None, rest = [], length [] + length (stream_of dn), tr', fold f (map packet_block dn) s)"
    "tr_impl tr' = Some i'" "si_id i' = si_id ?i" "si_input i' = si_input ?i"
    using processAll_stream [OF assms(1) _ assms(4) len, of "[]" dn "tr\<lparr>tr_impl := Some ?i\<rparr>" ?i s] assms(3) by auto
  have i: "si_id i = k" "tr_impl tr = Some i" using assms(2) st by (simp_all add: live_impl_Some)
  have drop: "drop (length (stream_of dn)) (si_input i') = rest" using p(4) assms(3) by simp
  have "\<not> (rest \<noteq> [] \<and> length (si_input i') = MAX_NDN_PACKET_SIZE \<and> stream_of dn = [])"
    using p(4) assms(3,6) by (auto simp del: length_append)
  moreover have "\<not> length (stream_of dn) > length (si_input i')"
    using p(4) arg_cong [OF assms(3), of length] by simp
  ultimately have "keep_rest k (rest = []) (length (stream_of dn)) tr' =
      (None, started [AsyncReceive k (MAX_NDN_PACKET_SIZE - length rest)] (tr'\<lparr>tr_impl := Some (i'\<lparr>si_input := rest\<rparr>)\<rparr>))"
    using p(2,3) i drop by (auto simp: keep_rest_def live_impl_def Let_def)
  then have "handleAsyncReceive receive k Success received st =
      Some (None, started [AsyncReceive k (MAX_NDN_PACKET_SIZE - length rest)] (tr'\<lparr>tr_impl := Some (i'\<lparr>si_input := rest\<rparr>)\<rparr>), fold f (map packet_block dn) (snd st))"
    using p(1) assms(2) st by (simp add: handleAsyncReceive_def Let_def)
  then show ?thesis using p(3) i by (auto simp: started_def live_impl_def)
qed

text \<open>
  The completions of the receive operations while the peer's byte stream arrives: each brings at least the requested number of bytes that the peer has sent and that fit into the
  room left in the buffer.
\<close>

fun receive_run ::
    "'s receive_callback \<Rightarrow> nat \<Rightarrow> nat list \<Rightarrow> byte list \<Rightarrow> 's client_state \<Rightarrow> (error option \<times> byte list \<times> 's client_state) option" where
  "receive_run receive k [] stream st = Some (None, stream, st)"
| "receive_run receive k (n # ns) stream st =
     (case live_impl k (fst st) of
        None \<Rightarrow> Some (Some dangling, stream, st)
      | Some i \<Rightarrow>
          let m = min n (MAX_NDN_PACKET_SIZE - length (si_input i))
          in case handleAsyncReceive receive k Success (take m stream) st of
               None \<Rightarrow> None
             | Some (Some e, st) \<Rightarrow> Some (Some e, drop m stream, st)
             | Some (None, st) \<Rightarrow> receive_run receive k ns (drop m stream) st)"

lemma receive_run_stream:
  assumes "client_ok receive f" "\<forall>(t, v) \<in> set ps. length (tlv_bytes t v) \<le> MAX_NDN_PACKET_SIZE"
    "live_impl k (fst st) = Some i" "si_input i @ stream = stream_of ps" "partial (si_input i) ps"
  shows "\<exists>dn td left tr' i'. receive_run receive k ns stream st = Some (None, left, tr', fold f (map packet_block dn) (snd st))
    \<and> ps = dn @ td \<and> live_impl k tr' = Some i' \<and> si_input i' @ left = stream_of td \<and> partial (si_input i') td"
  using assms
proof (induction ns arbitrary: ps stream st i)
  case Nil
  then show ?case by (cases st) (intro exI [of _ "[]"] exI [of _ ps] exI [of _ stream] exI [of _ "fst st"] exI [of _ i], auto)
next
  case (Cons n ns)
  define m where "m = min n (MAX_NDN_PACKET_SIZE - length (si_input i))"
  have lt: "length (si_input i) \<le> MAX_NDN_PACKET_SIZE"
    using Cons.prems(2,5) by (cases ps) (auto simp: partial_def simp del: length_tlv_bytes)
  have "(si_input i @ take m stream) @ drop m stream = stream_of ps" using Cons.prems(4) by simp
  from stream_prefix [OF this] obtain dn td rest where d: "ps = dn @ td" "si_input i @ take m stream = stream_of dn @ rest"
    "rest @ drop m stream = stream_of td" "partial rest td" by blast
  have small: "\<forall>(t, v) \<in> set td. length (tlv_bytes t v) < 2 ^ 32" 
  proof (intro ballI, clarify)
    fix t v assume "(t, v) \<in> set td"
    then have "length (tlv_bytes t v) \<le> MAX_NDN_PACKET_SIZE" using bspec [OF Cons.prems(2), of "(t, v)"] d(1) by (simp del: length_tlv_bytes)
    then show "length (tlv_bytes t v) < 2 ^ 32" by (simp add: MAX_NDN_PACKET_SIZE_def del: length_tlv_bytes)
  qed
  have rest: "length rest < MAX_NDN_PACKET_SIZE"
    using d(1,4) Cons.prems(2) by (cases td) (auto simp: partial_def MAX_NDN_PACKET_SIZE_def simp del: length_tlv_bytes)
  have room: "length (si_input i @ take m stream) \<le> MAX_NDN_PACKET_SIZE" using lt by (simp add: m_def)
  obtain tr' i' where h: "handleAsyncReceive receive k Success (take m stream) st = Some (None, tr', fold f (map packet_block dn) (snd st))"
    "live_impl k tr' = Some i'" "si_input i' = rest"
    using handleAsyncReceive_stream [OF Cons.prems(1,3) d(2) incomplete_partial [OF d(4,3) small] room rest] by blast
  have "\<exists>dn' td' left tr'' i''. receive_run receive k ns (drop m stream) (tr', fold f (map packet_block dn) (snd st))
        = Some (None, left, tr'', fold f (map packet_block dn') (snd (tr', fold f (map packet_block dn) (snd st))))
      \<and> td = dn' @ td' \<and> live_impl k tr'' = Some i'' \<and> si_input i'' @ left = stream_of td' \<and> partial (si_input i'') td'"
    using Cons.prems(2) d h by (intro Cons.IH [OF Cons.prems(1)]) auto
  then obtain dn' td' left tr'' i'' where "receive_run receive k ns (drop m stream) (tr', fold f (map packet_block dn) (snd st))
        = Some (None, left, tr'', fold f (map packet_block (dn @ dn')) (snd st))"
    "td = dn' @ td'" "live_impl k tr'' = Some i''" "si_input i'' @ left = stream_of td'" "partial (si_input i'') td'" by auto
  then show ?case using h(1) Cons.prems(3) d(1)
    by (intro exI [of _ "dn @ dn'"] exI [of _ td'] exI [of _ left] exI [of _ tr''] exI [of _ i'']) (simp add: m_def [symmetric] Let_def)
qed


text \<open>
  C30. Reassembly of packets. A peer sends packets of at most \<open>MAX_NDN_PACKET_SIZE\<close> bytes one after the other, and the bytes arrive in pieces of any sizes. Then the receive
  operations never fail, and the client has got every packet whose last byte has arrived, in order, exactly once and with its exact bytes; what is left in the input buffer is the
  beginning of the next packet. In particular all packets have been delivered when all bytes have arrived. The receive callback
  neither throws nor closes the transport nor touches its input buffer.
\<close>
theorem stream_reassembly:
  assumes "client_ok receive f" "\<forall>(t, v) \<in> set ps. length (tlv_bytes t v) \<le> MAX_NDN_PACKET_SIZE" "live_impl k tr = Some i" "si_input i = []"
  shows "\<exists>dn td left tr' i'. receive_run receive k ns (stream_of ps) (tr, s) = Some (None, left, tr', fold f (map packet_block dn) s)
    \<and> ps = dn @ td \<and> live_impl k tr' = Some i' \<and> si_input i' @ left = stream_of td
    \<and> (td \<noteq> [] \<longrightarrow> length (si_input i') < length (tlv_bytes (fst (hd td)) (snd (hd td)))) \<and> (left = [] \<longrightarrow> dn = ps)"
proof -
  have "partial (si_input i) ps" using assms(4) by (cases ps) (auto simp: partial_def simp del: length_tlv_bytes)
  then obtain dn td left tr' i' where r: "receive_run receive k ns (stream_of ps) (tr, s) = Some (None, left, tr', fold f (map packet_block dn) s)"
    "ps = dn @ td" "live_impl k tr' = Some i'" "si_input i' @ left = stream_of td" "partial (si_input i') td"
    using receive_run_stream [OF assms(1,2), of k "(tr, s)" i "stream_of ps" ns] assms(3,4) by auto
  have "td = []" if "left = []"
    using r(4,5) that by (cases td) (auto simp: partial_def simp del: length_tlv_bytes)
  then show ?thesis
    using r by (intro exI [of _ dn] exI [of _ td] exI [of _ left] exI [of _ tr'] exI [of _ i']) (auto simp: partial_def split_beta neq_Nil_conv simp del: length_tlv_bytes)
qed

theorem stream_reassembly_witness:
  "\<exists>dn td left tr' i'. receive_run (\<lambda>b (tr, s). (None, tr, s @ [b])) 0 [1, 3, 5] (stream_of [(5, [1, 2]), (6, [])]) (Transport_new\<lparr>tr_impl := Some (Impl_new 0)\<rparr>, [])
     = Some (None, left, tr', map packet_block dn) \<and> [(5, [1, 2]), (6, [])] = dn @ td \<and> live_impl 0 tr' = Some i' \<and> si_input i' @ left = stream_of td"
proof -
  let ?r = "\<lambda>b (tr, s). (None, tr, s @ [b])" and ?f = "\<lambda>b s. s @ [b]"
  have "client_ok ?r ?f" by (simp add: client_ok_def)
  moreover have "\<forall>(t, v) \<in> set [(5, [1, 2 :: byte]), (6 :: u32, [])]. length (tlv_bytes t v) \<le> MAX_NDN_PACKET_SIZE"
    by (simp add: MAX_NDN_PACKET_SIZE_def sizeOfVarNumber_def)
  moreover have "live_impl 0 (Transport_new\<lparr>tr_impl := Some (Impl_new 0)\<rparr>) = Some (Impl_new 0)" "si_input (Impl_new 0) = []"
    by (simp_all add: live_impl_def Impl_new_def)
  moreover have "fold ?f bs [] = bs" for bs :: "block list" by (induction bs rule: rev_induct) auto
  ultimately show ?thesis
    using stream_reassembly [of ?r ?f "[(5, [1, 2]), (6, [])]" 0 "Transport_new\<lparr>tr_impl := Some (Impl_new 0)\<rparr>" "Impl_new 0" "[1, 3, 5]" "[]"] by metis
qed

text \<open>
  An exception in the receive callback leaves \<open>handleAsyncReceive\<close> before the next receive operation is started, while the transport still counts as expecting data: nothing is received
  any more, and \<open>resume()\<close> does not change that.
\<close>

lemma processAll_throws:
  assumes "fromBuffer_copy (drop offset buffer) = (True, b)" "offset < length buffer" "receive b st = (Some e, st')"
  shows "processAll receive buffer offset st = Some (Some e, False, offset, st')"
  using assms by (subst processAll.simps) simp

lemma receive_exception_stalls:
  assumes "live_impl k tr = Some i" "si_input i = []" "length (tlv_bytes t v @ rest) < 2 ^ 64" "\<And>tr. receive (tlv_block t v) (tr, s) = (Some e, tr, s)"
    "tr_isExpectingData tr" "\<not> si_connectionInProgress i"
  shows "\<exists>tr'. handleAsyncReceive receive k Success (tlv_bytes t v @ rest) (tr, s) = Some (Some e, tr', s) \<and> tr_ops tr' = tr_ops tr \<and> Transport_resume tr' = Inr tr'"
proof -
  let ?i = "i\<lparr>si_input := tlv_bytes t v @ rest\<rparr>" and ?tr = "tr\<lparr>tr_impl := Some (i\<lparr>si_input := tlv_bytes t v @ rest\<rparr>)\<rparr>"
  have "processAll receive (si_input ?i) 0 (?tr, s) = Some (Some e, False, 0, ?tr, s)"
    using processAll_throws [of 0 "tlv_bytes t v @ rest" "tlv_block t v" receive "(?tr, s)"] fromBuffer_copy_tlv [OF assms(3)] assms(4) by (simp del: length_tlv_bytes)
  then have "handleAsyncReceive receive k Success (tlv_bytes t v @ rest) (tr, s) = Some (Some e, ?tr, s)"
    using assms(1,2) by (simp add: handleAsyncReceive_def)
  then show ?thesis using assms(5,6) by (auto simp: Transport_resume_def Impl_resume_def)
qed

section \<open>The life of the implementation objects\<close>

text \<open>
  Everything that can happen to a transport: the calls of the client (of either transport) and the completion handlers, with any outcome. The receive callback may do
  any of these itself.
\<close>

inductive basic_step :: "stream_transport \<Rightarrow> stream_transport \<Rightarrow> bool" where
  connect_unix: "basic_step tr (UnixTransport_connect tr)"
| connect_tcp: "basic_step tr (TcpTransport_connect tr)"
| send_one: "Transport_send b tr = Inr tr' \<Longrightarrow> basic_step tr tr'"
| send_two: "Transport_send2 b c tr = Inr tr' \<Longrightarrow> basic_step tr tr'"
| close_it: "Transport_close tr = Inr tr' \<Longrightarrow> basic_step tr tr'"
| pause_it: "basic_step tr (Transport_pause tr)"
| resume_it: "Transport_resume tr = Inr tr' \<Longrightarrow> basic_step tr tr'"
| connect_done: "basic_step tr (snd (connectHandler k err tr))"
| resolve_done: "basic_step tr (snd (resolveHandler k err found tr))"
| timer_done: "basic_step tr (snd (connectTimeoutHandler k err tr))"
| write_done: "basic_step tr (snd (handleAsyncWrite k item err tr))"

definition proper_client :: "'s receive_callback \<Rightarrow> bool" where
  "proper_client receive \<longleftrightarrow> (\<forall>b st. basic_step\<^sup>*\<^sup>* (fst st) (fst (snd (receive b st))))"

inductive transport_step :: "'s receive_callback \<Rightarrow> 's client_state \<Rightarrow> 's client_state \<Rightarrow> bool" for receive where
  basic: "basic_step tr tr' \<Longrightarrow> transport_step receive (tr, s) (tr', s)"
| received: "proper_client receive \<Longrightarrow> handleAsyncReceive receive k err bytes st = Some (e, st') \<Longrightarrow> transport_step receive st st'"

text \<open>No step brings back an object: the one that is there afterwards was there before, or is new.\<close>

definition succeeds :: "stream_transport \<Rightarrow> stream_transport \<Rightarrow> bool" where
  "succeeds tr tr' \<longleftrightarrow> tr_nextImpl tr \<le> tr_nextImpl tr' \<and> (\<exists>ops. tr_ops tr' = tr_ops tr @ ops)
     \<and> (\<forall>i'. tr_impl tr' = Some i' \<longrightarrow>
          (\<exists>i. tr_impl tr = Some i \<and> si_id i = si_id i') \<or> tr_nextImpl tr \<le> si_id i' \<and> si_id i' < tr_nextImpl tr')"

lemma succeeds_refl [simp]: "succeeds tr tr"
  by (auto simp: succeeds_def)

lemma succeeds_trans: "succeeds tr tr' \<Longrightarrow> succeeds tr' tr'' \<Longrightarrow> succeeds tr tr''"
  by (fastforce simp: succeeds_def)

lemma succeeds_impl:
  "tr_impl tr = Some i \<Longrightarrow> si_id j = si_id i \<Longrightarrow> succeeds (tr\<lparr>tr_impl := Some j\<rparr>) tr' \<Longrightarrow> succeeds tr tr'"
  by (auto simp: succeeds_def)

lemmas op_defs = UnixTransport_connect_def TcpTransport_connect_def Transport_connect_def Impl_connect_def Resolver_connect_def Impl_new_def
  Transport_send_def Transport_send2_def Impl_send_def write_first_def Transport_close_def Impl_close_def Transport_pause_def Impl_pause_def
  Transport_resume_def Impl_resume_def started_def

lemma close_throw_succeeds: "succeeds tr (snd (close_throw msg tr))"
  by (auto simp: close_throw_def op_defs succeeds_def split: option.split)

lemma connectHandler_succeeds: "succeeds tr (snd (connectHandler k err tr))"
proof (cases "live_impl k tr")
  case (Some i)
  let ?tr = "started [CancelConnectTimer] (tr\<lparr>tr_impl := Some (i\<lparr>si_connectionInProgress := False\<rparr>)\<rparr>)"
  have "tr_impl tr = Some i" using Some by (simp add: live_impl_Some)
  then have 1: "succeeds tr ?tr" "succeeds tr (?tr\<lparr>tr_isConnected := False\<rparr>)" by (auto simp: succeeds_def started_def)
  show ?thesis
  proof (cases "err = Success")
    case True
    then show ?thesis using Some \<open>tr_impl tr = Some i\<close> by (auto simp: connectHandler_def op_defs succeeds_def Let_def split: list.split)
  next
    case False
    then show ?thesis using Some succeeds_trans [OF 1(2) close_throw_succeeds] by (simp add: connectHandler_def Let_def)
  qed
qed (simp add: connectHandler_def)

lemma handleAsyncWrite_succeeds: "succeeds tr (snd (handleAsyncWrite k item err tr))"
proof (cases "live_impl k tr")
  case (Some i)
  then have i: "tr_impl tr = Some i" by (simp add: live_impl_Some)
  show ?thesis
  proof (cases "err = Success")
    case True
    then show ?thesis using Some i by (simp add: handleAsyncWrite_def write_first_def started_def succeeds_def Let_def split: list.split)
  next
    case False
    then show ?thesis using Some by (simp add: handleAsyncWrite_def close_throw_succeeds)
  qed
qed (simp add: handleAsyncWrite_def)

lemma basic_step_succeeds: "basic_step tr tr' \<Longrightarrow> succeeds tr tr'"
proof (induction rule: basic_step.induct)
  case (connect_done tr k err)
  show ?case by (rule connectHandler_succeeds)
next
  case (resolve_done tr k err found)
  show ?case using close_throw_succeeds by (auto simp: resolveHandler_def started_def succeeds_def split: option.split)
next
  case (timer_done tr k err)
  show ?case using close_throw_succeeds by (auto simp: connectTimeoutHandler_def split: option.split)
next
  case (write_done tr k item err)
  show ?case by (rule handleAsyncWrite_succeeds)
qed (auto simp: op_defs succeeds_def Let_def split: option.splits list.splits if_splits)

lemma basic_steps_succeed: "basic_step\<^sup>*\<^sup>* tr tr' \<Longrightarrow> succeeds tr tr'"
  by (induction rule: rtranclp_induct) (auto intro: succeeds_trans basic_step_succeeds)

lemma processAll_succeeds:
  assumes "processAll receive buffer offset st = Some (e, ok, n, st')" "proper_client receive"
  shows "succeeds (fst st) (fst st')"
proof -
  have "proper_client receive \<longrightarrow> succeeds (fst st) (fst (snd (snd (snd (e, ok, n, st')))))"
  proof (rule processAll.raw_induct [where P = "\<lambda>receive buffer offset st r. proper_client receive \<longrightarrow> succeeds (fst st) (fst (snd (snd (snd r))))", OF _ assms(1)], goal_cases)
    case (1 loop receive buffer offset st r)
    show ?case
    proof
      assume client: "proper_client receive"
      have called: "succeeds (fst st) (fst (snd (receive b st)))" for b
        using client basic_steps_succeed [of "fst st"] unfolding proper_client_def by blast
      show "succeeds (fst st) (fst (snd (snd (snd r))))"
      proof (cases "offset < length buffer \<and> fst (fromBuffer_copy (drop offset buffer))")
        case False
        then show ?thesis using 1(2) by (auto simp: split_beta split: if_splits)
      next
        case True
        then obtain b where b: "fromBuffer_copy (drop offset buffer) = (True, b)" by (cases "fromBuffer_copy (drop offset buffer)") auto
        obtain x st1 where x: "receive b st = (x, st1)" by (rule prod.exhaust)
        have s1: "succeeds (fst st) (fst st1)" using called [of b] x by simp
        show ?thesis
        proof (cases x)
          case (Some err)
          then show ?thesis using 1(2) True b x s1 by auto
        next
          case None
          show ?thesis
          proof (cases "Block_size b")
            case (Inl err)
            then show ?thesis using 1(2) True b x None s1 by auto
          next
            case (Inr m)
            then have "loop receive buffer (offset + m) st1 = Some r" using 1(2) True b x None by simp
            then show ?thesis using 1(1) client succeeds_trans [OF s1] by blast
          qed
        qed
      qed
    qed
  qed
  then show ?thesis using assms(2) by simp
qed

lemma keep_rest_succeeds: "succeeds tr (snd (keep_rest k ok offset tr))"
proof (cases "live_impl k tr")
  case (Some i)
  then have i: "tr_impl tr = Some i" by (simp add: live_impl_Some)
  show ?thesis
  proof (cases "\<not> ok \<and> length (si_input i) = MAX_NDN_PACKET_SIZE \<and> offset = 0")
    case True
    then show ?thesis using Some by (simp add: keep_rest_def close_throw_succeeds)
  next
    case False
    then show ?thesis using Some i by (auto simp: keep_rest_def started_def succeeds_def Let_def)
  qed
qed (simp add: keep_rest_def)

lemma handleAsyncReceive_succeeds:
  assumes "handleAsyncReceive receive k err bytes st = Some (e, st')" "proper_client receive"
  shows "succeeds (fst st) (fst st')"
proof (cases "live_impl k (fst st)")
  case None
  then show ?thesis using assms(1) by (auto simp: handleAsyncReceive_def split: if_splits)
next
  case (Some i)
  show ?thesis
  proof (cases "err = Success")
    case False
    then show ?thesis
      using assms(1) Some close_throw_succeeds [of "fst st" "''error while receiving data from socket''"]
      by (auto simp: handleAsyncReceive_def split: if_splits prod.splits)
  next
    case True
    let ?i = "i\<lparr>si_input := si_input i @ bytes\<rparr>"
    let ?st = "((fst st)\<lparr>tr_impl := Some ?i\<rparr>, snd st)"
    obtain x ok n st1 where p: "processAll receive (si_input ?i) 0 ?st = Some (x, ok, n, st1)"
      using assms(1) Some True by (auto simp: handleAsyncReceive_def Let_def split: option.splits)
    have s1: "succeeds (fst st) (fst st1)"
      using processAll_succeeds [OF p assms(2)] Some succeeds_impl [of "fst st" i ?i "fst st1"] by (auto simp: live_impl_Some)
    show ?thesis
    proof (cases x)
      case None
      then show ?thesis
        using assms(1) Some True p succeeds_trans [OF s1 keep_rest_succeeds [of "fst st1" k ok n]]
        by (cases st1) (auto simp: handleAsyncReceive_def Let_def split: prod.splits)
    next
      case (Some y)
      then show ?thesis using assms(1) \<open>live_impl k (fst st) = Some i\<close> True p s1 by (auto simp: handleAsyncReceive_def Let_def)
    qed
  qed
qed

lemma transport_steps_succeed: "(transport_step receive)\<^sup>*\<^sup>* st st' \<Longrightarrow> succeeds (fst st) (fst st')"
proof (induction rule: rtranclp_induct)
  case (step st' st'')
  from step.hyps(2) have "succeeds (fst st') (fst st'')"
    by cases (auto intro: basic_step_succeeds handleAsyncReceive_succeeds)
  with step.IH show ?case by (rule succeeds_trans)
qed simp

text \<open>An object that has been destroyed stays destroyed, and its handlers are undefined behaviour.\<close>

lemma impl_bound: "(transport_step receive)\<^sup>*\<^sup>* (Transport_new, s0) st \<Longrightarrow> tr_impl (fst st) = Some i \<Longrightarrow> si_id i < tr_nextImpl (fst st)"
  using transport_steps_succeed [of receive "(Transport_new, s0)" st] by (auto simp: succeeds_def Transport_new_def)

lemma destroyed_forever:
  assumes "tr_impl tr = None" "k < tr_nextImpl tr" "(transport_step receive)\<^sup>*\<^sup>* (tr, s) st"
  shows "live_impl k (fst st) = None"
  using transport_steps_succeed [OF assms(3)] assms(1,2) by (auto simp: succeeds_def live_impl_def split: option.split)

text \<open>
  C32. A connection attempt that times out, or is closed while it is in progress, leads to a use after free, with both transports. Whatever happened before, when the implementation object
  \<open>k\<close> has started to connect (or, for TCP, to resolve the host), both the timeout handler and \<open>close()\<close> destroy it and leave the operation with the socket, whose
  handler will still be called. Whatever happens until then, including new connection attempts, the handler of that operation is bound to a destroyed object and touches a member of it:
  the connect handler whatever the outcome, cancelled included, the resolve handler when the host has been resolved.
\<close>
theorem connect_timeout_use_after_free:
  assumes "(transport_step receive)\<^sup>*\<^sup>* (Transport_new, s0) (tr, s)" "live_impl k tr = Some i"
    and "op \<in> {AsyncConnect k, AsyncResolve k}" "op \<in> set (tr_ops tr)"
  shows "\<exists>tr'. connectTimeoutHandler k Success tr = (Some (TransportError ''error while connecting to the forwarder''), tr')
    \<and> Transport_close tr = Inr tr' \<and> op \<in> set (tr_ops tr')
    \<and> (\<forall>s' st. (transport_step receive)\<^sup>*\<^sup>* (tr', s') st \<longrightarrow>
         op \<in> set (tr_ops (fst st)) \<and> connectHandler k err (fst st) = (Some dangling, fst st)
         \<and> resolveHandler k Success found (fst st) = (Some dangling, fst st))"
proof -
  have i: "tr_impl tr = Some i" "si_id i = k" using assms(2) by (simp_all add: live_impl_Some)
  define tr' where "tr' = Impl_close i tr\<lparr>tr_impl := None\<rparr>"
  have close: "Transport_close tr = Inr tr'" using i by (simp add: Transport_close_def tr'_def)
  have k: "k < tr_nextImpl tr'" using impl_bound [OF assms(1), of i] i by (simp add: tr'_def Impl_close_def started_def)
  have gone: "tr_impl tr' = None" "op \<in> set (tr_ops tr')" using assms(4) by (simp_all add: tr'_def Impl_close_def started_def)
  have "connectTimeoutHandler k Success tr = (Some (TransportError ''error while connecting to the forwarder''), tr')"
    using assms(2) close by (simp add: connectTimeoutHandler_def close_throw_def)
  moreover have "op \<in> set (tr_ops (fst st)) \<and> connectHandler k err (fst st) = (Some dangling, fst st)
      \<and> resolveHandler k Success found (fst st) = (Some dangling, fst st)"
    if st: "(transport_step receive)\<^sup>*\<^sup>* (tr', s') st" for s' st
  proof -
    have "op \<in> set (tr_ops (fst st))" using transport_steps_succeed [OF st] gone(2) by (auto simp: succeeds_def)
    then show ?thesis using destroyed_forever [OF gone(1) k st] by (simp add: connectHandler_def resolveHandler_def)
  qed
  ultimately show ?thesis using close gone(2) by blast
qed

theorem connect_timeout_use_after_free_witness:
  "\<exists>tr'. connectTimeoutHandler 0 Success (UnixTransport_connect Transport_new) = (Some (TransportError ''error while connecting to the forwarder''), tr')
    \<and> AsyncConnect 0 \<in> set (tr_ops tr') \<and> live_impl 1 (UnixTransport_connect tr') \<noteq> None
    \<and> connectHandler 0 OperationCanceled (UnixTransport_connect tr') = (Some dangling, UnixTransport_connect tr')"
proof -
  let ?r = "\<lambda>(b :: block) (st :: unit client_state). (None :: error option, st)" and ?tr = "UnixTransport_connect Transport_new"
  have "(transport_step ?r)\<^sup>*\<^sup>* (Transport_new, ()) (?tr, ())" by (rule r_into_rtranclp) (rule transport_step.basic [OF basic_step.connect_unix])
  moreover have live: "live_impl 0 ?tr = Some ((Impl_new 0)\<lparr>si_connectionInProgress := True\<rparr>)" "AsyncConnect 0 \<in> set (tr_ops ?tr)"
    by (simp_all add: op_defs Transport_new_def live_impl_def)
  ultimately obtain tr' where tr': "connectTimeoutHandler 0 Success ?tr = (Some (TransportError ''error while connecting to the forwarder''), tr')"
    "Transport_close ?tr = Inr tr'" "AsyncConnect 0 \<in> set (tr_ops tr')"
    "\<forall>s' st. (transport_step ?r)\<^sup>*\<^sup>* (tr', s') st \<longrightarrow> AsyncConnect 0 \<in> set (tr_ops (fst st))
       \<and> connectHandler 0 OperationCanceled (fst st) = (Some dangling, fst st) \<and> resolveHandler 0 Success True (fst st) = (Some dangling, fst st)"
    using connect_timeout_use_after_free [of ?r "()" ?tr "()" 0 _ "AsyncConnect 0" OperationCanceled True] by blast
  have "(transport_step ?r)\<^sup>*\<^sup>* (tr', ()) (UnixTransport_connect tr', ())" by (rule r_into_rtranclp) (rule transport_step.basic [OF basic_step.connect_unix])
  then have "connectHandler 0 OperationCanceled (UnixTransport_connect tr') = (Some dangling, UnixTransport_connect tr')" using tr'(4) by fastforce
  moreover have "live_impl 1 (UnixTransport_connect tr') \<noteq> None"
    using tr'(2) by (auto simp: op_defs Transport_new_def live_impl_def)
  ultimately show ?thesis using tr'(1,3) by blast
qed

section \<open>Sending\<close>

text \<open>The sequences handed to the socket by an implementation object.\<close>

fun writes :: "nat \<Rightarrow> socket_op list \<Rightarrow> block list list" where
  "writes k [] = []"
| "writes k (AsyncWrite j item bs # ops) = (if j = k then bs # writes k ops else writes k ops)"
| "writes k (_ # ops) = writes k ops"

lemma writes_append [simp]: "writes k (ops @ ops') = writes k ops @ writes k ops'"
  by (induction k ops rule: writes.induct) auto

text \<open>
  The state of the transmission queue after \<open>sent\<close> was sent: before the connection is there everything waits; afterwards the first item of the queue, if any, is being written.
\<close>

definition queue_inv :: "nat \<Rightarrow> block list list \<Rightarrow> stream_transport \<Rightarrow> bool" where
  "queue_inv k sent tr \<longleftrightarrow>
     (\<exists>i. live_impl k tr = Some i \<and> distinct (map fst (si_queue i)) \<and> (\<forall>x \<in> set (si_queue i). fst x < si_nextItem i)
       \<and> (if tr_isConnected tr then writes k (tr_ops tr) @ map snd (tl (si_queue i)) = sent \<and> (si_queue i \<noteq> [] \<longrightarrow> writes k (tr_ops tr) \<noteq> [] \<and> last (writes k (tr_ops tr)) = snd (hd (si_queue i)))
          else writes k (tr_ops tr) = [] \<and> map snd (si_queue i) = sent))"

datatype send_event = SendPacket block | Connected | WriteCompleted

text \<open>\<open>WriteCompleted\<close> is the completion of the write in progress.\<close>

fun send_step :: "nat \<Rightarrow> send_event \<Rightarrow> stream_transport \<Rightarrow> error option \<times> stream_transport" where
  "send_step k (SendPacket b) tr = (case Transport_send b tr of Inl e \<Rightarrow> (Some e, tr) | Inr tr \<Rightarrow> (None, tr))"
| "send_step k Connected tr = connectHandler k Success tr"
| "send_step k WriteCompleted tr =
     (case live_impl k tr of
        None \<Rightarrow> (Some dangling, tr)
      | Some i \<Rightarrow> if tr_isConnected tr \<and> si_queue i \<noteq> [] then handleAsyncWrite k (fst (hd (si_queue i))) Success tr else (None, tr))"

fun send_run :: "nat \<Rightarrow> send_event list \<Rightarrow> stream_transport \<Rightarrow> error option \<times> stream_transport" where
  "send_run k [] tr = (None, tr)"
| "send_run k (ev # evs) tr = (case send_step k ev tr of (Some e, tr) \<Rightarrow> (Some e, tr) | (None, tr) \<Rightarrow> send_run k evs tr)"

fun sent_by :: "send_event list \<Rightarrow> block list list" where
  "sent_by [] = []"
| "sent_by (SendPacket b # evs) = [b] # sent_by evs"
| "sent_by (_ # evs) = sent_by evs"

lemma send_step_inv:
  assumes "queue_inv k sent tr" "ev = Connected \<longrightarrow> \<not> tr_isConnected tr"
  shows "\<exists>tr'. send_step k ev tr = (None, tr') \<and> queue_inv k (sent @ sent_by [ev]) tr' \<and> (tr_isConnected tr' \<longleftrightarrow> tr_isConnected tr \<or> ev = Connected)"
proof -
  obtain i where i: "tr_impl tr = Some i" "si_id i = k" "distinct (map fst (si_queue i))" "\<forall>x \<in> set (si_queue i). fst x < si_nextItem i"
    "if tr_isConnected tr then writes k (tr_ops tr) @ map snd (tl (si_queue i)) = sent \<and> (si_queue i \<noteq> [] \<longrightarrow> writes k (tr_ops tr) \<noteq> [] \<and> last (writes k (tr_ops tr)) = snd (hd (si_queue i)))
     else writes k (tr_ops tr) = [] \<and> map snd (si_queue i) = sent"
    using assms(1) by (auto simp: queue_inv_def live_impl_Some)
  note defs = Transport_send_def Impl_send_def write_first_def started_def queue_inv_def live_impl_def connectHandler_def Impl_resume_def handleAsyncWrite_def Let_def
  show ?thesis
  proof (cases ev)
    case (SendPacket b)
    have fresh: "si_nextItem i \<notin> fst ` set (si_queue i)" using i(4) by auto
    show ?thesis
    proof (cases "si_queue i")
      case Nil
      then show ?thesis using SendPacket i by (auto simp: defs)
    next
      case (Cons x xs)
      then show ?thesis using SendPacket i fresh by (auto simp: defs less_Suc_eq)
    qed
  next
    case Connected
    then show ?thesis using assms(2) i by (cases "si_queue i") (auto simp: defs)
  next
    case WriteCompleted
    show ?thesis
    proof (cases "si_queue i")
      case Nil
      then show ?thesis using WriteCompleted assms(1) i by (auto simp: live_impl_def)
    next
      case (Cons x xs)
      have "fst x \<notin> fst ` set xs" using i(3) Cons by simp
      then have "filter (\<lambda>y. fst y \<noteq> fst x) xs = xs" by (metis (mono_tags, lifting) filter_True imageI)
      then show ?thesis using WriteCompleted i Cons assms(1) by (cases xs) (auto simp: defs split: if_splits)
    qed
  qed
qed

text \<open>
  C31. Packets leave in the order in which they were sent. Whatever is sent before and after the connection is established, and whenever writes complete, the transport does not fail; nothing
  is written before it is connected; afterwards each packet is handed to the socket once, in the order of the calls to \<open>send\<close>, one at a time: those still to be written are
  the ones behind the packet that is being written.
\<close>
theorem packets_sent_in_order:
  assumes "queue_inv k [] tr" "\<not> tr_isConnected tr" "count_list evs Connected \<le> 1"
  shows "\<exists>tr' i. send_run k evs tr = (None, tr') \<and> live_impl k tr' = Some i
    \<and> (if Connected \<in> set evs then writes k (tr_ops tr') @ map snd (tl (si_queue i)) = sent_by evs
       else writes k (tr_ops tr') = [] \<and> map snd (si_queue i) = sent_by evs)"
proof -
  have "\<exists>tr'. send_run k evs tr = (None, tr') \<and> queue_inv k (sent @ sent_by evs) tr' \<and> (tr_isConnected tr' \<longleftrightarrow> tr_isConnected tr \<or> Connected \<in> set evs)"
    if "queue_inv k sent tr" "count_list evs Connected + of_bool (tr_isConnected tr) \<le> 1" for sent tr evs
    using that
  proof (induction evs arbitrary: sent tr)
    case (Cons ev evs)
    obtain tr' where 1: "send_step k ev tr = (None, tr')" "queue_inv k (sent @ sent_by [ev]) tr'" "tr_isConnected tr' \<longleftrightarrow> tr_isConnected tr \<or> ev = Connected"
      using send_step_inv [of k sent tr ev] Cons.prems by (auto split: if_splits)
    have "count_list evs Connected + of_bool (tr_isConnected tr') \<le> 1" using Cons.prems(2) 1(3) by (auto split: if_splits)
    then obtain tr'' where "send_run k evs tr' = (None, tr'')" "queue_inv k ((sent @ sent_by [ev]) @ sent_by evs) tr''"
      "tr_isConnected tr'' \<longleftrightarrow> tr_isConnected tr' \<or> Connected \<in> set evs" using Cons.IH 1(2) by blast
    moreover have "sent_by [ev] @ sent_by evs = sent_by (ev # evs)" by (cases ev) auto
    ultimately show ?case using 1 by auto
  qed auto
  then obtain tr' where "send_run k evs tr = (None, tr')" "queue_inv k ([] @ sent_by evs) tr'" "tr_isConnected tr' \<longleftrightarrow> Connected \<in> set evs"
    using assms by fastforce
  then show ?thesis by (auto simp: queue_inv_def)
qed

theorem packets_sent_in_order_witness:
  "\<exists>tr' i. send_run 0 [SendPacket (tlv_block 5 []), Connected, SendPacket (tlv_block 6 []), WriteCompleted] (UnixTransport_connect Transport_new) = (None, tr')
    \<and> live_impl 0 tr' = Some i \<and> writes 0 (tr_ops tr') @ map snd (tl (si_queue i)) = [[tlv_block 5 []], [tlv_block 6 []]]"
proof -
  have "queue_inv 0 [] (UnixTransport_connect Transport_new)" "\<not> tr_isConnected (UnixTransport_connect Transport_new)"
    by (simp_all add: queue_inv_def UnixTransport_connect_def Transport_connect_def Impl_connect_def Impl_new_def Transport_new_def live_impl_def started_def)
  from packets_sent_in_order [OF this, of "[SendPacket (tlv_block 5 []), Connected, SendPacket (tlv_block 6 []), WriteCompleted]"] show ?thesis by auto
qed

end
