(* ===== verification/Face.thy ===== *)
theory Face
  imports InterestMatching LpPacket InterestFilter NfdControl StreamTransport
begin

text \<open>
  The face of an application, after \<open>src/face.cpp\<close>, \<open>src/detail/face-impl.hpp\<close>, \<open>src/detail/pending-interest.hpp\<close>,
  \<open>src/detail/interest-filter-record.hpp\<close>, \<open>src/detail/registered-prefix.hpp\<close>, \<open>src/detail/container-with-on-empty-signal.hpp\<close> and
  \<open>src/management/nfd-controller.cpp\<close>: pending Interests, Interest filters and registered prefixes, on top of a Unix stream transport.

  Everything runs in the thread of the \<open>io_service\<close>: \<open>dispatch\<close> is a direct call, and \<open>post\<close> puts a task at the end of \<open>f_posted\<close>. The signal \<open>onEmpty\<close> of each
  table has the one handler connected in the constructor, which posts \<open>EmptyTables\<close>. Objects that are identified by their address get numbers that are never reused; an iterator of a table is such a number, or
  \<open>None\<close> for \<open>end()\<close>. The timeout event of a pending Interest is cancelled when the entry is destroyed; it is the time in the entry and whether it has fired.
  A callback is an application object or empty; its invocations are recorded in \<open>f_log\<close>, and what it does with the face is given by a behaviour: from the invocation, the calls it makes and whether it
  throws after them. Tags on packets are arguments. The environment supplies SHA-256, the byte order, the random generator, \<open>boost::regex\<close>, the signing of a command Interest by the key chain (with one signing
  information for all commands), the prefix and timeout of \<open>CommandOptions\<close>, and the values of uninitialised members. When the handlers run is up to the \<open>io_service\<close>: any sequence of events is possible.
\<close>

section \<open>State\<close>

record 'c filter_record =
  fr_id :: nat
  fr_filter :: interest_filter
  fr_callback :: "'c option"

record 'c registered_prefix =
  rp_id :: nat
  rp_prefix :: name
  rp_filter :: "'c filter_record option"

text \<open>
  What the controller does at the end of a command: \<open>afterPrefixRegistered\<close> or \<open>finalizeUnregisterPrefix\<close>, with the callbacks for success and failure.
\<close>

datatype 'c command_done =
    Registered "'c registered_prefix" "'c option" "'c option"
  | Unregistered nat "'c option" "'c option"

text \<open>
  Callbacks of a pending Interest: of the application, the wrappers of the second \<open>expressInterest\<close> that test for an empty function, and those of the controller.
\<close>

datatype 'c callback =
    User 'c
  | Guarded "'c option"
  | TimeoutOnNack "'c option"
  | Command control_command control_parameters "'c command_done"

record 'c pending_interest =
  pi_id :: nat
  pi_interest :: interest
  pi_dataCallback :: "'c callback option"
  pi_nackCallback :: "'c callback option"
  pi_timeoutCallback :: "'c callback option"
  pi_expiry :: int
  pi_fired :: bool

datatype 'c task =
    EmptyTables
  | RemovePending nat
  | RemoveAllPending
  | SetFilter "'c filter_record"
  | UnsetFilter nat
  | Unregister nat "'c option" "'c option"
  | Shutdown
  | Connect

datatype 'c invocation =
    OnData 'c nat interest data
  | OnNack 'c nat interest nack
  | OnTimeout 'c nat interest
  | OnInterest 'c interest_filter interest
  | OnRegistered 'c name
  | OnRegisterFailed 'c name string
  | OnUnregistered 'c
  | OnUnregisterFailed 'c string

datatype 'c face_call =
    ExpressInterest interest "u64 option" "'c callback option" "'c callback option" "'c callback option"
  | PutData data "cache_policy option"
  | PutNack nack
  | RemovePendingInterest nat
  | RemoveAllPendingInterests
  | SetInterestFilter interest_filter "'c option"
  | UnsetInterestFilter nat
  | RegisterPrefix name "(interest_filter \<times> 'c option) option" "'c option" "'c option" u64
  | UnregisterPrefix nat "'c option" "'c option"
  | ShutdownFace

record ('c, 'g) face =
  f_pit :: "'c pending_interest list"
  f_filters :: "'c filter_record list"
  f_prefixes :: "'c registered_prefix list"
  f_next :: nat
  f_posted :: "'c task list"
  f_log :: "'c invocation list"
  f_gen :: 'g
  f_work :: bool
  f_processEventsTimeout :: bool

record ('c, 'g) face_env =
  env_sha256 :: "byte list \<Rightarrow> byte list"
  env_le :: bool
  env_gen :: "'g generator"
  env_regex :: boost_regex
  env_commandPrefix :: name
  env_commandTimeout :: int
  env_sign :: "interest \<Rightarrow> interest result"
  env_junk :: control_parameters
  env_behaviour :: "'c invocation \<Rightarrow> 'c face_call list \<times> bool"

type_synonym ('c, 'g) state = "stream_transport \<times> ('c, 'g) face"
type_synonym 's outcome = "error option \<times> 's"

definition thenS :: "'s outcome \<Rightarrow> ('s \<Rightarrow> 's outcome) \<Rightarrow> 's outcome" where
  "thenS r k = (case r of (Some e, s) \<Rightarrow> (Some e, s) | (None, s) \<Rightarrow> k s)"

text \<open>The constructor posts the first \<open>ensureConnected\<close>.\<close>

definition Face_new :: "'g \<Rightarrow> ('c, 'g) state" where
  "Face_new g = (Transport_new, \<lparr>f_pit = [], f_filters = [], f_prefixes = [], f_next = 0, f_posted = [Connect], f_log = [], f_gen = g, f_work = False,
     f_processEventsTimeout = False\<rparr>)"

definition upd :: "(('c, 'g) face \<Rightarrow> ('c, 'g) face) \<Rightarrow> ('c, 'g) state \<Rightarrow> ('c, 'g) state" where
  "upd h st = (fst st, h (snd st))"

definition post :: "'c task \<Rightarrow> ('c, 'g) state \<Rightarrow> ('c, 'g) state" where
  "post t st = upd (\<lambda>f. f\<lparr>f_posted := f_posted f @ [t]\<rparr>) st"

section \<open>Tables\<close>

definition find_pending :: "nat \<Rightarrow> 'c pending_interest list \<Rightarrow> 'c pending_interest option" where
  "find_pending k es = find (\<lambda>e. pi_id e = k) es"

definition next_pending :: "nat \<Rightarrow> 'c pending_interest list \<Rightarrow> nat option" where
  "next_pending k es = (case dropWhile (\<lambda>e. pi_id e \<noteq> k) es of _ # e # _ \<Rightarrow> Some (pi_id e) | _ \<Rightarrow> None)"

text \<open>\<open>erase\<close>, \<open>remove_if\<close> and \<open>clear\<close> of \<open>ContainerWithOnEmptySignal\<close>.\<close>

definition pit_remove_if :: "('c pending_interest \<Rightarrow> bool) \<Rightarrow> ('c, 'g) state \<Rightarrow> ('c, 'g) state" where
  "pit_remove_if P st =
     (let st = upd (\<lambda>f. f\<lparr>f_pit := filter (\<lambda>e. \<not> P e) (f_pit f)\<rparr>) st
      in if f_pit (snd st) = [] then post EmptyTables st else st)"

definition pit_erase :: "nat \<Rightarrow> ('c, 'g) state \<Rightarrow> ('c, 'g) state" where
  "pit_erase k st = pit_remove_if (\<lambda>e. pi_id e = k) st"

definition pit_clear :: "('c, 'g) state \<Rightarrow> ('c, 'g) state" where
  "pit_clear st = post EmptyTables (upd (\<lambda>f. f\<lparr>f_pit := []\<rparr>) st)"

definition prefixes_erase :: "nat \<Rightarrow> ('c, 'g) state \<Rightarrow> ('c, 'g) state outcome" where
  "prefixes_erase k st =
     (if k \<in> rp_id ` set (f_prefixes (snd st))
      then let st = upd (\<lambda>f. f\<lparr>f_prefixes := filter (\<lambda>r. rp_id r \<noteq> k) (f_prefixes f)\<rparr>) st
           in (None, if f_prefixes (snd st) = [] then post EmptyTables st else st)
      else (Some (UndefinedBehaviour ''erase of an invalid iterator''), st))"

definition prefixes_clear :: "('c, 'g) state \<Rightarrow> ('c, 'g) state" where
  "prefixes_clear st = post EmptyTables (upd (\<lambda>f. f\<lparr>f_prefixes := []\<rparr>) st)"

section \<open>Sending\<close>

definition ensureConnected :: "bool \<Rightarrow> ('c, 'g) state \<Rightarrow> ('c, 'g) state outcome" where
  "ensureConnected wantResume st =
     (let tr = (if \<not> tr_isConnected (fst st) then UnixTransport_connect (fst st) else fst st)
      in if wantResume \<and> \<not> tr_isExpectingData tr
         then (case Transport_resume tr of Inl e \<Rightarrow> (Some e, tr, snd st) | Inr tr \<Rightarrow> (None, tr, snd st))
         else (None, tr, snd st))"

definition wire_range :: "block \<Rightarrow> byte list result" where
  "wire_range w = bindE (Block_begin w) (\<lambda>i. bindE (Block_end w) (\<lambda>j. Inr (chunk (buffer_of w) i j)))"

text \<open>An \<open>lp::Packet\<close> with the header field set by \<open>add\<close>, if any, and the network packet as its fragment.\<close>

definition lp_wrap :: "(lp_packet \<Rightarrow> error option \<times> lp_packet) \<Rightarrow> block \<Rightarrow> block result" where
  "lp_wrap add w =
     (case add Packet_default of
        (Some e, _) \<Rightarrow> Inl e
      | (None, p) \<Rightarrow>
          bindE (wire_range w) (\<lambda>rng.
            case Packet_add FragmentField rng p of
              (Some e, _) \<Rightarrow> Inl e
            | (None, p) \<Rightarrow> bindE (Packet_wireEncode p) (\<lambda>(b, _). Inr b)))"

definition send_lp :: "(lp_packet \<Rightarrow> error option \<times> lp_packet) \<Rightarrow> block \<Rightarrow> ('c, 'g) state \<Rightarrow> ('c, 'g) state outcome" where
  "send_lp add w st =
     (case bindE (lp_wrap add w) (\<lambda>b. Transport_send b (fst st)) of Inl e \<Rightarrow> (Some e, st) | Inr tr \<Rightarrow> (None, tr, snd st))"

definition asyncExpressInterest ::
    "int \<Rightarrow> interest \<Rightarrow> u64 option \<Rightarrow> 'c callback option \<Rightarrow> 'c callback option \<Rightarrow> 'c callback option \<Rightarrow> ('c, 'g) state \<Rightarrow> ('c, 'g) state outcome" where
  "asyncExpressInterest now i nextHopFaceId afterSatisfied afterNacked afterTimeout st =
     thenS (ensureConnected True st) (\<lambda>st.
       let lifetime = (if i_interestLifetime i > 0 then i_interestLifetime i else DEFAULT_INTEREST_LIFETIME);
           entry = \<lparr>pi_id = f_next (snd st), pi_interest = i, pi_dataCallback = afterSatisfied, pi_nackCallback = afterNacked,
                    pi_timeoutCallback = afterTimeout, pi_expiry = now + lifetime, pi_fired = False\<rparr>;
           st = upd (\<lambda>f. f\<lparr>f_pit := f_pit f @ [entry], f_next := Suc (f_next f)\<rparr>) st
       in send_lp (\<lambda>p. case nextHopFaceId of None \<Rightarrow> (None, p) | Some n \<Rightarrow> Packet_add NextHopFaceIdField n p) (i_wire i) st)"

definition Face_expressInterest ::
    "('c, 'g) face_env \<Rightarrow> int \<Rightarrow> interest \<Rightarrow> u64 option \<Rightarrow> 'c callback option \<Rightarrow> 'c callback option \<Rightarrow> 'c callback option \<Rightarrow> ('c, 'g) state \<Rightarrow> ('c, 'g) state outcome" where
  "Face_expressInterest env now i nextHopFaceId afterSatisfied afterNacked afterTimeout st =
     (case Interest_wireEncode (env_le env) (env_gen env) i (f_gen (snd st)) of
        Inl e \<Rightarrow> (Some e, st)
      | Inr (w, i, g) \<Rightarrow>
          (let st = upd (\<lambda>f. f\<lparr>f_gen := g\<rparr>) st
           in case Block_size w of
                Inl e \<Rightarrow> (Some e, st)
              | Inr n \<Rightarrow>
                  if n > MAX_NDN_PACKET_SIZE then (Some (FaceError ''Interest size exceeds maximum limit''), st)
                  else asyncExpressInterest now i nextHopFaceId afterSatisfied afterNacked afterTimeout st))"

text \<open>The overload with two callbacks, which treats a Nack as a timeout.\<close>

definition Face_expressInterest2 :: "interest \<Rightarrow> 'c option \<Rightarrow> 'c option \<Rightarrow> 'c face_call" where
  "Face_expressInterest2 i onData onTimeout =
     ExpressInterest i None (Some (Guarded onData)) (Some (TimeoutOnNack onTimeout)) (map_option User onTimeout)"

definition Face_expressInterest_template :: "bool \<Rightarrow> name \<Rightarrow> interest \<Rightarrow> 'c option \<Rightarrow> 'c option \<Rightarrow> 'c face_call result" where
  "Face_expressInterest_template le name tmpl onData onTimeout =
     bindE (setNonce le (Interest_setName tmpl name) 0) (\<lambda>i. Inr (Face_expressInterest2 i onData onTimeout))"

definition Face_putData :: "data \<Rightarrow> cache_policy option \<Rightarrow> ('c, 'g) state \<Rightarrow> ('c, 'g) state outcome" where
  "Face_putData d cachePolicy st =
     (case bindE (Data_wireEncode d) (\<lambda>(w, d). bindE (Block_size w) (\<lambda>n. Inr (w, d, n))) of
        Inl e \<Rightarrow> (Some e, st)
      | Inr (w, d, n) \<Rightarrow>
          if n > MAX_NDN_PACKET_SIZE then (Some (FaceError ''Data size exceeds maximum limit''), st)
          else thenS (ensureConnected True st) (\<lambda>st.
                 send_lp (\<lambda>p. case cachePolicy of None \<Rightarrow> (None, p) | Some c \<Rightarrow> Packet_add CachePolicyField c p) w st))"

definition Face_putNack :: "('c, 'g) face_env \<Rightarrow> nack \<Rightarrow> ('c, 'g) state \<Rightarrow> ('c, 'g) state outcome" where
  "Face_putNack env n st =
     thenS (ensureConnected True st) (\<lambda>st.
       case Interest_wireEncode (env_le env) (env_gen env) (nk_interest n) (f_gen (snd st)) of
         Inl e \<Rightarrow> (Some e, st)
       | Inr (w, _, g) \<Rightarrow> send_lp (Packet_add NackField (nk_header n)) w (upd (\<lambda>f. f\<lparr>f_gen := g\<rparr>) st))"

section \<open>Commands\<close>

definition ERROR_LBOUND :: u32 where "ERROR_LBOUND = 400"

definition startCommand ::
    "('c, 'g) face_env \<Rightarrow> int \<Rightarrow> control_command \<Rightarrow> control_parameters \<Rightarrow> 'c command_done \<Rightarrow> ('c, 'g) state \<Rightarrow> ('c, 'g) state outcome" where
  "startCommand env now cmd params fin st =
     (case bindE (getRequestName cmd (env_commandPrefix env) params) (\<lambda>(n, _). env_sign env (setInterestLifetime (Interest_ofName n) (env_commandTimeout env))) of
        Inl e \<Rightarrow> (Some e, st)
      | Inr i \<Rightarrow>
          Face_expressInterest env now i None (Some (Command cmd params fin)) (Some (Command cmd params fin)) (Some (Command cmd params fin)) st)"

text \<open>\<open>target\<close> is the prefix; the filter of a combined operation becomes an object here.\<close>

definition Face_registerPrefix ::
    "('c, 'g) face_env \<Rightarrow> int \<Rightarrow> name \<Rightarrow> (interest_filter \<times> 'c option) option \<Rightarrow> 'c option \<Rightarrow> 'c option \<Rightarrow> u64 \<Rightarrow> ('c, 'g) state \<Rightarrow> ('c, 'g) state outcome" where
  "Face_registerPrefix env now target flt onSuccess onFailure flags st =
     (let params = Par_setFlags (Par_setName (ControlParameters_default (env_junk env)) target) flags;
          k = f_next (snd st);
          rec = map_option (\<lambda>(f, c). \<lparr>fr_id = k, fr_filter = f, fr_callback = c\<rparr>) flt;
          prefixToRegister = \<lparr>rp_id = Suc k, rp_prefix = target, rp_filter = rec\<rparr>
      in startCommand env now RibRegisterCommand params (Registered prefixToRegister onSuccess onFailure)
           (upd (\<lambda>f. f\<lparr>f_next := Suc (Suc k)\<rparr>) st))"

definition Face_setInterestFilter :: "interest_filter \<Rightarrow> 'c option \<Rightarrow> 'c option \<Rightarrow> 'c option \<Rightarrow> u64 \<Rightarrow> 'c face_call" where
  "Face_setInterestFilter interestFilter onInterest onSuccess onFailure flags =
     RegisterPrefix (flt_prefix interestFilter) (Some (interestFilter, onInterest)) onSuccess onFailure flags"

definition Face_registerPrefix_only :: "name \<Rightarrow> 'c option \<Rightarrow> 'c option \<Rightarrow> u64 \<Rightarrow> 'c face_call" where
  "Face_registerPrefix_only target onSuccess onFailure flags = RegisterPrefix target None onSuccess onFailure flags"

definition Face_unsetInterestFilter :: "nat \<Rightarrow> 'c face_call" where
  "Face_unsetInterestFilter registeredPrefixId = UnregisterPrefix registeredPrefixId None None"

definition getNPendingInterests :: "('c, 'g) state \<Rightarrow> nat" where
  "getNPendingInterests st = length (f_pit (snd st))"

section \<open>Calls and callbacks\<close>

fun do_face_call :: "('c, 'g) face_env \<Rightarrow> int \<Rightarrow> 'c face_call \<Rightarrow> ('c, 'g) state \<Rightarrow> ('c, 'g) state outcome" where
  "do_face_call env now (ExpressInterest i nextHop onData onNack onTimeout) st = Face_expressInterest env now i nextHop onData onNack onTimeout st"
| "do_face_call env now (PutData d cachePolicy) st = Face_putData d cachePolicy st"
| "do_face_call env now (PutNack n) st = Face_putNack env n st"
| "do_face_call env now (RemovePendingInterest k) st = (None, post (RemovePending k) st)"
| "do_face_call env now RemoveAllPendingInterests st = (None, post RemoveAllPending st)"
| "do_face_call env now (SetInterestFilter flt c) st =
     (None, post (SetFilter \<lparr>fr_id = f_next (snd st), fr_filter = flt, fr_callback = c\<rparr>) (upd (\<lambda>f. f\<lparr>f_next := Suc (f_next f)\<rparr>) st))"
| "do_face_call env now (UnsetInterestFilter k) st = (None, post (UnsetFilter k) st)"
| "do_face_call env now (RegisterPrefix n flt onSuccess onFailure flags) st = Face_registerPrefix env now n flt onSuccess onFailure flags st"
| "do_face_call env now (UnregisterPrefix k onSuccess onFailure) st = (None, post (Unregister k onSuccess onFailure) st)"
| "do_face_call env now ShutdownFace st = (None, post Shutdown st)"

fun do_face_calls :: "('c, 'g) face_env \<Rightarrow> int \<Rightarrow> 'c face_call list \<Rightarrow> ('c, 'g) state \<Rightarrow> ('c, 'g) state outcome" where
  "do_face_calls env now [] st = (None, st)"
| "do_face_calls env now (c # cs) st = thenS (do_face_call env now c st) (do_face_calls env now cs)"

definition invoke :: "('c, 'g) face_env \<Rightarrow> int \<Rightarrow> 'c invocation \<Rightarrow> ('c, 'g) state \<Rightarrow> ('c, 'g) state outcome" where
  "invoke env now ivk st =
     thenS (do_face_calls env now (fst (env_behaviour env ivk)) (upd (\<lambda>f. f\<lparr>f_log := f_log f @ [ivk]\<rparr>) st)) (\<lambda>st.
       if snd (env_behaviour env ivk) then (Some CallbackException, st) else (None, st))"

text \<open>A call of a \<open>std::function\<close>, which throws when it is empty.\<close>

definition call_function :: "('c, 'g) face_env \<Rightarrow> int \<Rightarrow> 'c option \<Rightarrow> ('c \<Rightarrow> 'c invocation) \<Rightarrow> ('c, 'g) state \<Rightarrow> ('c, 'g) state outcome" where
  "call_function env now c mk st = (case c of None \<Rightarrow> (Some BadFunctionCall, st) | Some c \<Rightarrow> invoke env now (mk c) st)"

text \<open>The same after a test for an empty function.\<close>

definition call_guarded :: "('c, 'g) face_env \<Rightarrow> int \<Rightarrow> 'c option \<Rightarrow> ('c \<Rightarrow> 'c invocation) \<Rightarrow> ('c, 'g) state \<Rightarrow> ('c, 'g) state outcome" where
  "call_guarded env now c mk st = (case c of None \<Rightarrow> (None, st) | Some c \<Rightarrow> invoke env now (mk c) st)"

definition afterPrefixRegistered :: "('c, 'g) face_env \<Rightarrow> int \<Rightarrow> 'c registered_prefix \<Rightarrow> 'c option \<Rightarrow> ('c, 'g) state \<Rightarrow> ('c, 'g) state outcome" where
  "afterPrefixRegistered env now r onSuccess st =
     (let st = upd (\<lambda>f. f\<lparr>f_prefixes := f_prefixes f @ [r]\<rparr>) st;
          st = (case rp_filter r of None \<Rightarrow> st | Some fr \<Rightarrow> upd (\<lambda>f. f\<lparr>f_filters := f_filters f @ [fr]\<rparr>) st)
      in call_guarded env now onSuccess (\<lambda>c. OnRegistered c (rp_prefix r)) st)"

definition finalizeUnregisterPrefix :: "('c, 'g) face_env \<Rightarrow> int \<Rightarrow> nat \<Rightarrow> 'c option \<Rightarrow> ('c, 'g) state \<Rightarrow> ('c, 'g) state outcome" where
  "finalizeUnregisterPrefix env now item onSuccess st = thenS (prefixes_erase item st) (call_guarded env now onSuccess OnUnregistered)"

definition command_succeeded :: "('c, 'g) face_env \<Rightarrow> int \<Rightarrow> 'c command_done \<Rightarrow> ('c, 'g) state \<Rightarrow> ('c, 'g) state outcome" where
  "command_succeeded env now fin st =
     (case fin of
        Registered r onSuccess _ \<Rightarrow> afterPrefixRegistered env now r onSuccess st
      | Unregistered item onSuccess _ \<Rightarrow> finalizeUnregisterPrefix env now item onSuccess st)"

text \<open>The failure callback of the application is inside a \<open>bind\<close> object, which is never empty.\<close>

definition command_failed :: "('c, 'g) face_env \<Rightarrow> int \<Rightarrow> 'c command_done \<Rightarrow> string \<Rightarrow> ('c, 'g) state \<Rightarrow> ('c, 'g) state outcome" where
  "command_failed env now fin reason st =
     (case fin of
        Registered r _ onFailure \<Rightarrow> call_function env now onFailure (\<lambda>c. OnRegisterFailed c (rp_prefix r) reason) st
      | Unregistered item _ onFailure \<Rightarrow> call_function env now onFailure (\<lambda>c. OnUnregisterFailed c reason) st)"

text \<open>The classes derived from \<open>tlv::Error\<close> that decoding a response can throw, and their \<open>what()\<close>.\<close>

fun tlv_what :: "error \<Rightarrow> string option" where
  "tlv_what (TlvError s) = Some s"
| "tlv_what (BlockError s) = Some s"
| "tlv_what (ComponentError s) = Some s"
| "tlv_what (NameError s) = Some s"
| "tlv_what (ControlParametersError s) = Some s"
| "tlv_what (ControlResponseError s) = Some s"
| "tlv_what _ = None"

definition catch_tlv :: "('c, 'g) face_env \<Rightarrow> int \<Rightarrow> 'c command_done \<Rightarrow> error \<Rightarrow> ('c, 'g) state \<Rightarrow> ('c, 'g) state outcome" where
  "catch_tlv env now fin e st = (case tlv_what e of Some reason \<Rightarrow> command_failed env now fin reason st | None \<Rightarrow> (Some e, st))"

definition processCommandResponse ::
    "('c, 'g) face_env \<Rightarrow> int \<Rightarrow> data \<Rightarrow> control_command \<Rightarrow> 'c command_done \<Rightarrow> ('c, 'g) state \<Rightarrow> ('c, 'g) state outcome" where
  "processCommandResponse env now d cmd fin st =
     (case bindE (getContent d) (\<lambda>(c, _). bindE (blockFromValue c) (\<lambda>b.
             case Response_wireDecode ControlResponse_default b of (Some e, _) \<Rightarrow> Inl e | (None, r) \<Rightarrow> Inr r)) of
        Inl e \<Rightarrow> catch_tlv env now fin e st
      | Inr response \<Rightarrow>
          if res_code response \<ge> ERROR_LBOUND then command_failed env now fin (res_text response) st
          else case Par_wireDecode (ControlParameters_default (env_junk env)) (res_body response) of
                 (Some e, _) \<Rightarrow> catch_tlv env now fin e st
               | (None, params) \<Rightarrow>
                   (case validateResponse cmd params of
                      Some (ArgumentError reason) \<Rightarrow> command_failed env now fin reason st
                    | Some e \<Rightarrow> (Some e, st)
                    | None \<Rightarrow> command_succeeded env now fin st))"

definition invokeDataCallback :: "('c, 'g) face_env \<Rightarrow> int \<Rightarrow> 'c pending_interest \<Rightarrow> data \<Rightarrow> ('c, 'g) state \<Rightarrow> ('c, 'g) state outcome" where
  "invokeDataCallback env now e d st =
     (let mk = (\<lambda>c. OnData c (pi_id e) (pi_interest e) d)
      in case pi_dataCallback e of
           None \<Rightarrow> (Some BadFunctionCall, st)
         | Some (User c) \<Rightarrow> invoke env now (mk c) st
         | Some (Guarded c) \<Rightarrow> call_guarded env now c mk st
         | Some (TimeoutOnNack c) \<Rightarrow> (None, st)
         | Some (Command cmd params fin) \<Rightarrow> processCommandResponse env now d cmd fin st)"

definition invokeNackCallback :: "('c, 'g) face_env \<Rightarrow> int \<Rightarrow> 'c pending_interest \<Rightarrow> nack \<Rightarrow> ('c, 'g) state \<Rightarrow> ('c, 'g) state outcome" where
  "invokeNackCallback env now e n st =
     (case pi_nackCallback e of
        None \<Rightarrow> (Some BadFunctionCall, st)
      | Some (User c) \<Rightarrow> invoke env now (OnNack c (pi_id e) (pi_interest e) n) st
      | Some (Guarded c) \<Rightarrow> (None, st)
      | Some (TimeoutOnNack c) \<Rightarrow> call_guarded env now c (\<lambda>c. OnTimeout c (pi_id e) (pi_interest e)) st
      | Some (Command cmd params fin) \<Rightarrow> command_failed env now fin ''network Nack received'' st)"

section \<open>Receiving\<close>

definition set_interest :: "nat \<Rightarrow> interest \<Rightarrow> ('c, 'g) state \<Rightarrow> ('c, 'g) state" where
  "set_interest k i st = upd (\<lambda>f. f\<lparr>f_pit := map (\<lambda>e. if pi_id e = k then e\<lparr>pi_interest := i\<rparr> else e) (f_pit f)\<rparr>) st"

text \<open>
  \<open>satisfyPendingInterests\<close>: the callbacks may express further Interests, which are appended to the table while the loop runs over it. The loop may run forever when they
  match the same packet again and again.
\<close>

partial_function (option) satisfy_loop ::
    "('c, 'g) face_env \<Rightarrow> int \<Rightarrow> nat option \<Rightarrow> data \<Rightarrow> ('c, 'g) state \<Rightarrow> ('c, 'g) state outcome option" where
  "satisfy_loop env now entry d st =
     (case entry of
        None \<Rightarrow> Some (None, st)
      | Some k \<Rightarrow>
          (case find_pending k (f_pit (snd st)) of
             None \<Rightarrow> Some (Some (UndefinedBehaviour ''dereference of an invalid iterator''), st)
           | Some e \<Rightarrow>
               (case matchesData (env_sha256 env) (pi_interest e) d of
                  Inl err \<Rightarrow> Some (Some err, st)
                | Inr (matched, i, d) \<Rightarrow>
                    (let st = set_interest k i st; entry = next_pending k (f_pit (snd st))
                     in if matched
                        then (case invokeDataCallback env now (e\<lparr>pi_interest := i\<rparr>) d (pit_erase k st) of
                                (Some err, st) \<Rightarrow> Some (Some err, st)
                              | (None, st) \<Rightarrow> satisfy_loop env now entry d st)
                        else satisfy_loop env now entry d st))))"

definition pit_begin :: "('c, 'g) state \<Rightarrow> nat option" where
  "pit_begin st = (case f_pit (snd st) of [] \<Rightarrow> None | e # _ \<Rightarrow> Some (pi_id e))"

definition satisfyPendingInterests :: "('c, 'g) face_env \<Rightarrow> int \<Rightarrow> data \<Rightarrow> ('c, 'g) state \<Rightarrow> ('c, 'g) state outcome option" where
  "satisfyPendingInterests env now d st = satisfy_loop env now (pit_begin st) d st"

partial_function (option) nack_loop ::
    "('c, 'g) face_env \<Rightarrow> int \<Rightarrow> nat option \<Rightarrow> nack \<Rightarrow> ('c, 'g) state \<Rightarrow> ('c, 'g) state outcome option" where
  "nack_loop env now entry n st =
     (case entry of
        None \<Rightarrow> Some (None, st)
      | Some k \<Rightarrow>
          (case find_pending k (f_pit (snd st)) of
             None \<Rightarrow> Some (Some (UndefinedBehaviour ''dereference of an invalid iterator''), st)
           | Some e \<Rightarrow>
               (case Interest_equal (env_le env) (env_gen env) (pi_interest e) (nk_interest n) (f_gen (snd st)) of
                  Inl err \<Rightarrow> Some (Some err, st)
                | Inr (matched, i, ni, g) \<Rightarrow>
                    (let st = upd (\<lambda>f. f\<lparr>f_gen := g\<rparr>) (set_interest k i st); n = n\<lparr>nk_interest := ni\<rparr>; entry = next_pending k (f_pit (snd st))
                     in if matched
                        then (case invokeNackCallback env now (e\<lparr>pi_interest := i\<rparr>) n (pit_erase k st) of
                                (Some err, st) \<Rightarrow> Some (Some err, st)
                              | (None, st) \<Rightarrow> nack_loop env now entry n st)
                        else nack_loop env now entry n st))))"

definition nackPendingInterests :: "('c, 'g) face_env \<Rightarrow> int \<Rightarrow> nack \<Rightarrow> ('c, 'g) state \<Rightarrow> ('c, 'g) state outcome option" where
  "nackPendingInterests env now n st = nack_loop env now (pit_begin st) n st"

text \<open>The filter table does not change while its callbacks run: they can only post such changes.\<close>

fun filter_loop :: "('c, 'g) face_env \<Rightarrow> int \<Rightarrow> interest \<Rightarrow> 'c filter_record list \<Rightarrow> ('c, 'g) state \<Rightarrow> ('c, 'g) state outcome" where
  "filter_loop env now i [] st = (None, st)"
| "filter_loop env now i (fr # frs) st =
     (case doesMatch (env_regex env) (fr_filter fr) (i_name i) of
        Inl err \<Rightarrow> (Some err, st)
      | Inr matched \<Rightarrow>
          if matched then thenS (call_function env now (fr_callback fr) (\<lambda>c. OnInterest c (fr_filter fr) i) st) (filter_loop env now i frs)
          else filter_loop env now i frs st)"

definition processInterestFilters :: "('c, 'g) face_env \<Rightarrow> int \<Rightarrow> interest \<Rightarrow> ('c, 'g) state \<Rightarrow> ('c, 'g) state outcome" where
  "processInterestFilters env now i st = filter_loop env now i (f_filters (snd st)) st"

text \<open>The tag is not kept, but reading the field can throw.\<close>

definition extractLpLocalFields :: "lp_packet \<Rightarrow> lp_packet result" where
  "extractLpLocalFields p =
     (case Packet_has IncomingFaceIdField p of
        (Inl e, _) \<Rightarrow> Inl e
      | (Inr False, p) \<Rightarrow> Inr p
      | (Inr True, p) \<Rightarrow> (case Packet_get IncomingFaceIdField 0 p of (Inl e, _) \<Rightarrow> Inl e | (Inr _, p) \<Rightarrow> Inr p))"

datatype network_packet = InterestPacket interest | NackPacket nack | DataPacket data | OtherPacket

text \<open>The decoding part of \<open>onReceiveElement\<close>.\<close>

definition decode_network :: "block \<Rightarrow> network_packet result" where
  "decode_network blockFromDaemon =
     bindE (Packet_ofBlock blockFromDaemon) (\<lambda>lpPacket.
     case Packet_get FragmentField 0 lpPacket of
       (Inl e, _) \<Rightarrow> Inl e
     | (Inr bytes, lpPacket) \<Rightarrow>
         bindE (Block_copy bytes) (\<lambda>netPacket.
           if m_type netPacket = tlv_Interest
           then bindE (Interest_ofBlock netPacket) (\<lambda>i.
                  case Packet_has NackField lpPacket of
                    (Inl e, _) \<Rightarrow> Inl e
                  | (Inr True, lpPacket) \<Rightarrow>
                      (case Packet_get NackField 0 lpPacket of
                         (Inl e, _) \<Rightarrow> Inl e
                       | (Inr h, lpPacket) \<Rightarrow>
                           bindE (extractLpLocalFields lpPacket) (\<lambda>_. Inr (NackPacket (Nack_setHeader (Nack_ofInterest i) h))))
                  | (Inr False, lpPacket) \<Rightarrow> bindE (extractLpLocalFields lpPacket) (\<lambda>_. Inr (InterestPacket i)))
           else if m_type netPacket = tlv_Data
           then bindE (Data_ofBlock netPacket) (\<lambda>d. bindE (extractLpLocalFields lpPacket) (\<lambda>_. Inr (DataPacket d)))
           else Inr OtherPacket))"

definition onReceiveElement :: "('c, 'g) face_env \<Rightarrow> int \<Rightarrow> block \<Rightarrow> ('c, 'g) state \<Rightarrow> ('c, 'g) state outcome option" where
  "onReceiveElement env now blockFromDaemon st =
     (case decode_network blockFromDaemon of
        Inl e \<Rightarrow> Some (Some e, st)
      | Inr (InterestPacket i) \<Rightarrow> Some (processInterestFilters env now i st)
      | Inr (NackPacket n) \<Rightarrow> nackPendingInterests env now n st
      | Inr (DataPacket d) \<Rightarrow> satisfyPendingInterests env now d st
      | Inr OtherPacket \<Rightarrow> Some (None, st))"

section \<open>Timeouts and posted tasks\<close>

definition mark_fired :: "nat \<Rightarrow> ('c, 'g) state \<Rightarrow> ('c, 'g) state" where
  "mark_fired k st = upd (\<lambda>f. f\<lparr>f_pit := map (\<lambda>x. if pi_id x = k then x\<lparr>pi_fired := True\<rparr> else x) (f_pit f)\<rparr>) st"

definition run_timeout :: "('c, 'g) face_env \<Rightarrow> int \<Rightarrow> 'c pending_interest \<Rightarrow> ('c, 'g) state \<Rightarrow> ('c, 'g) state outcome" where
  "run_timeout env now e st =
     (case pi_timeoutCallback e of
        None \<Rightarrow> (None, st)
      | Some (User c) \<Rightarrow> invoke env now (OnTimeout c (pi_id e) (pi_interest e)) st
      | Some (Guarded c) \<Rightarrow> (None, st)
      | Some (TimeoutOnNack c) \<Rightarrow> (None, st)
      | Some (Command cmd params fin) \<Rightarrow> command_failed env now fin ''request timed out'' st)"

text \<open>\<open>invokeTimeoutCallback\<close> of a pending Interest whose event fires; the entry is erased after the callback.\<close>

definition invokeTimeoutCallback :: "('c, 'g) face_env \<Rightarrow> int \<Rightarrow> nat \<Rightarrow> ('c, 'g) state \<Rightarrow> ('c, 'g) state outcome" where
  "invokeTimeoutCallback env now k st =
     (case find_pending k (f_pit (snd st)) of
        None \<Rightarrow> (None, st)
      | Some e \<Rightarrow>
          if pi_fired e \<or> now < pi_expiry e then (None, st)
          else thenS (run_timeout env now e (mark_fired k st)) (\<lambda>st. (None, pit_erase k st)))"

definition asyncUnregisterPrefix :: "('c, 'g) face_env \<Rightarrow> int \<Rightarrow> nat \<Rightarrow> 'c option \<Rightarrow> 'c option \<Rightarrow> ('c, 'g) state \<Rightarrow> ('c, 'g) state outcome" where
  "asyncUnregisterPrefix env now k onSuccess onFailure st =
     (case find (\<lambda>r. rp_id r = k) (f_prefixes (snd st)) of
        None \<Rightarrow> call_guarded env now onFailure (\<lambda>c. OnUnregisterFailed c ''Unrecognized PrefixId'') st
      | Some r \<Rightarrow>
          let st = (case rp_filter r of
                      None \<Rightarrow> st
                    | Some fr \<Rightarrow> upd (\<lambda>f. f\<lparr>f_filters := filter (\<lambda>x. fr_id x \<noteq> fr_id fr) (f_filters f)\<rparr>) st)
          in startCommand env now RibUnregisterCommand (Par_setName (ControlParameters_default (env_junk env)) (rp_prefix r)) (Unregistered k onSuccess onFailure) st)"

definition asyncUnsetInterestFilter :: "nat \<Rightarrow> ('c, 'g) state \<Rightarrow> ('c, 'g) state" where
  "asyncUnsetInterestFilter k st =
     upd (\<lambda>f. f\<lparr>f_filters := takeWhile (\<lambda>x. fr_id x \<noteq> k) (f_filters f) @ drop 1 (dropWhile (\<lambda>x. fr_id x \<noteq> k) (f_filters f))\<rparr>) st"

definition onEmptyPitOrNoRegisteredPrefixes :: "('c, 'g) state \<Rightarrow> ('c, 'g) state" where
  "onEmptyPitOrNoRegisteredPrefixes st =
     (if f_pit (snd st) = [] \<and> f_prefixes (snd st) = []
      then (Transport_pause (fst st), if \<not> f_work (snd st) then (snd st)\<lparr>f_processEventsTimeout := False\<rparr> else snd st)
      else st)"

definition asyncShutdown :: "('c, 'g) state \<Rightarrow> ('c, 'g) state outcome" where
  "asyncShutdown st =
     (let st = prefixes_clear (pit_clear st)
      in if tr_isConnected (fst st)
         then (case Transport_close (fst st) of Inl e \<Rightarrow> (Some e, st) | Inr tr \<Rightarrow> (None, tr, (snd st)\<lparr>f_work := False\<rparr>))
         else (None, upd (\<lambda>f. f\<lparr>f_work := False\<rparr>) st))"

fun run_task :: "('c, 'g) face_env \<Rightarrow> int \<Rightarrow> 'c task \<Rightarrow> ('c, 'g) state \<Rightarrow> ('c, 'g) state outcome" where
  "run_task env now EmptyTables st = (None, onEmptyPitOrNoRegisteredPrefixes st)"
| "run_task env now (RemovePending k) st = (None, pit_remove_if (\<lambda>e. pi_id e = k) st)"
| "run_task env now RemoveAllPending st = (None, pit_clear st)"
| "run_task env now (SetFilter fr) st = (None, upd (\<lambda>f. f\<lparr>f_filters := f_filters f @ [fr]\<rparr>) st)"
| "run_task env now (UnsetFilter k) st = (None, asyncUnsetInterestFilter k st)"
| "run_task env now (Unregister k onSuccess onFailure) st = asyncUnregisterPrefix env now k onSuccess onFailure st"
| "run_task env now Shutdown st = asyncShutdown st"
| "run_task env now Connect st = ensureConnected False st"

text \<open>What \<open>processEvents\<close> does before it runs the event loop, and the event that ends the loop.\<close>

definition processEvents_start :: "int \<Rightarrow> bool \<Rightarrow> ('c, 'g) state \<Rightarrow> ('c, 'g) state" where
  "processEvents_start timeout keepThread st =
     (if timeout < 0 then st
      else let st = (if timeout > 0 then upd (\<lambda>f. f\<lparr>f_processEventsTimeout := True\<rparr>) st else st)
           in if keepThread then upd (\<lambda>f. f\<lparr>f_work := True\<rparr>) st else st)"

definition processEvents_timeout :: "('c, 'g) state \<Rightarrow> ('c, 'g) state" where
  "processEvents_timeout st =
     (if f_processEventsTimeout (snd st) then upd (\<lambda>f. f\<lparr>f_processEventsTimeout := False, f_work := False\<rparr>) st else st)"

text \<open>The handler in \<open>processEvents\<close> for an exception that leaves the event loop.\<close>

definition processEvents_catch :: "('c, 'g) state \<Rightarrow> ('c, 'g) state" where
  "processEvents_catch st = prefixes_clear (pit_clear (upd (\<lambda>f. f\<lparr>f_work := False\<rparr>) st))"

text \<open>What can happen to a face: a call from the application, an element from the transport, the timer, a posted task, the start and the timeout of \<open>processEvents\<close>, or an exception caught by it.\<close>

datatype 'c face_event = Call "'c face_call" | Receive block | Timer nat | RunPosted | ProcessEvents int bool | ProcessEventsTimeout | CatchException

fun do_face_event :: "('c, 'g) face_env \<Rightarrow> int \<Rightarrow> 'c face_event \<Rightarrow> ('c, 'g) state \<Rightarrow> ('c, 'g) state outcome option" where
  "do_face_event env now (Call c) st = Some (do_face_call env now c st)"
| "do_face_event env now (Receive b) st = onReceiveElement env now b st"
| "do_face_event env now (Timer k) st = Some (invokeTimeoutCallback env now k st)"
| "do_face_event env now RunPosted st =
     (case f_posted (snd st) of
        [] \<Rightarrow> Some (None, st)
      | t # ts \<Rightarrow> Some (run_task env now t (upd (\<lambda>f. f\<lparr>f_posted := ts\<rparr>) st)))"
| "do_face_event env now (ProcessEvents timeout keepThread) st = Some (None, processEvents_start timeout keepThread st)"
| "do_face_event env now ProcessEventsTimeout st = Some (None, processEvents_timeout st)"
| "do_face_event env now CatchException st = Some (None, processEvents_catch st)"


end
