(* ===== verification/FaceProperties.thy ===== *)
theory FaceProperties
  imports Face
begin

text \<open>
  Properties of the face: an invariant of all reachable states from which it follows that a pending Interest is answered at most once, unless its timeout callback threw, what is sent and how the other end decodes it, and what a received Data packet does to
  the table of pending Interests.
\<close>

section \<open>Every pending Interest is answered at most once\<close>

fun answers :: "nat \<Rightarrow> 'c invocation \<Rightarrow> bool" where
  "answers k (OnData c j i d) \<longleftrightarrow> j = k"
| "answers k (OnNack c j i n) \<longleftrightarrow> j = k"
| "answers k (OnTimeout c j i) \<longleftrightarrow> j = k"
| "answers k _ \<longleftrightarrow> False"

definition answer_count :: "nat \<Rightarrow> 'c invocation list \<Rightarrow> nat" where
  "answer_count k log = length (filter (answers k) log)"

text \<open>
  \<open>T\<close> are the Interests whose timeout callback threw an exception that left the face as it was. Such an entry is still in the table, and may be answered
  once more, but its timer has fired.
\<close>

definition face_inv :: "nat set \<Rightarrow> ('c, 'g) state \<Rightarrow> bool" where
  "face_inv T st \<longleftrightarrow>
     distinct (map pi_id (f_pit (snd st))) \<and> (\<forall>e \<in> set (f_pit (snd st)). pi_id e < f_next (snd st)) \<and> (\<forall>k \<in> T. k < f_next (snd st))
     \<and> (\<forall>k. answer_count k (f_log (snd st)) \<le> 1 + of_bool (k \<in> T))
     \<and> (\<forall>k. 0 < answer_count k (f_log (snd st)) \<longrightarrow> k < f_next (snd st))
     \<and> (\<forall>e \<in> set (f_pit (snd st)). answer_count (pi_id e) (f_log (snd st)) \<le> of_bool (pi_id e \<in> T) \<and> (pi_id e \<in> T \<longrightarrow> pi_fired e))"

lemma face_invD:
  assumes "face_inv T st"
  shows "distinct (map pi_id (f_pit (snd st)))" "\<forall>e \<in> set (f_pit (snd st)). pi_id e < f_next (snd st)" "\<forall>k \<in> T. k < f_next (snd st)"
    "\<forall>k. answer_count k (f_log (snd st)) \<le> 1 + of_bool (k \<in> T)" "\<forall>k. 0 < answer_count k (f_log (snd st)) \<longrightarrow> k < f_next (snd st)"
    "\<forall>e \<in> set (f_pit (snd st)). answer_count (pi_id e) (f_log (snd st)) \<le> of_bool (pi_id e \<in> T) \<and> (pi_id e \<in> T \<longrightarrow> pi_fired e)"
  using assms unfolding face_inv_def by blast+

text \<open>
  The calls of a callback only add entries to the table of pending Interests; \<open>K\<close> are the Interests that may be answered meanwhile.
\<close>

definition extends :: "nat set \<Rightarrow> ('c, 'g) state \<Rightarrow> ('c, 'g) state \<Rightarrow> bool" where
  "extends K st st' \<longleftrightarrow>
     (\<exists>added log. f_pit (snd st') = f_pit (snd st) @ added \<and> f_log (snd st') = f_log (snd st) @ log \<and> f_next (snd st) \<le> f_next (snd st')
       \<and> distinct (map pi_id added) \<and> (\<forall>e \<in> set added. f_next (snd st) \<le> pi_id e \<and> pi_id e < f_next (snd st'))
       \<and> (\<forall>j. answer_count j log \<le> of_bool (j \<in> K)))"

lemma answer_count_append [simp]: "answer_count k (a @ b) = answer_count k a + answer_count k b" "answer_count k [] = 0"
  "answer_count k [x] = of_bool (answers k x)"
  by (simp_all add: answer_count_def)

lemma upd_simps [simp]: "fst (upd h st) = fst st" "snd (upd h st) = h (snd st)"
  by (simp_all add: upd_def)

lemma post_simps [simp]: "f_pit (snd (post t st)) = f_pit (snd st)" "f_log (snd (post t st)) = f_log (snd st)" "f_next (snd (post t st)) = f_next (snd st)"
  "f_gen (snd (post t st)) = f_gen (snd st)" "f_filters (snd (post t st)) = f_filters (snd st)" "f_prefixes (snd (post t st)) = f_prefixes (snd st)"
  "fst (post t st) = fst st"
  by (simp_all add: post_def)

lemma extends_same:
  assumes "f_pit (snd st') = f_pit (snd st)" "f_log (snd st') = f_log (snd st)" "f_next (snd st) \<le> f_next (snd st')"
  shows "extends K st st'"
  using assms by (auto simp: extends_def intro!: exI [of _ "[]"])

lemma extends_refl [simp]: "extends K st st"
  by (rule extends_same) simp_all

lemma extends_trans:
  assumes "extends K a b" "extends {} b c"
  shows "extends K a c"
proof -
  obtain n1 l1 where 1: "f_pit (snd b) = f_pit (snd a) @ n1" "f_log (snd b) = f_log (snd a) @ l1" "f_next (snd a) \<le> f_next (snd b)"
    "distinct (map pi_id n1)" "\<forall>e \<in> set n1. f_next (snd a) \<le> pi_id e \<and> pi_id e < f_next (snd b)" "\<forall>j. answer_count j l1 \<le> of_bool (j \<in> K)"
    using assms(1) unfolding extends_def by blast
  obtain n2 l2 where 2: "f_pit (snd c) = f_pit (snd b) @ n2" "f_log (snd c) = f_log (snd b) @ l2" "f_next (snd b) \<le> f_next (snd c)"
    "distinct (map pi_id n2)" "\<forall>e \<in> set n2. f_next (snd b) \<le> pi_id e \<and> pi_id e < f_next (snd c)" "\<forall>j. answer_count j l2 \<le> of_bool (j \<in> ({} :: nat set))"
    using assms(2) unfolding extends_def by blast
  have "pi_id ` set n1 \<inter> pi_id ` set n2 = {}" using 1(5) 2(5) by fastforce
  then have "distinct (map pi_id (n1 @ n2))" using 1(4) 2(4) by simp
  moreover have "\<forall>e \<in> set (n1 @ n2). f_next (snd a) \<le> pi_id e \<and> pi_id e < f_next (snd c)" using 1(3,5) 2(3,5) by fastforce
  moreover have "\<forall>j. answer_count j (l1 @ l2) \<le> of_bool (j \<in> K)" using 1(6) 2(6) by simp
  ultimately show ?thesis using 1(1-3) 2(1-3) unfolding extends_def by (intro exI [of _ "n1 @ n2"] exI [of _ "l1 @ l2"]) simp
qed

lemma extends_thenS:
  assumes "extends K st (snd r)" "\<And>s. extends {} s (snd (k s))"
  shows "extends K st (snd (thenS r k))"
  using assms extends_trans [OF assms(1)] by (auto simp: thenS_def split: prod.splits option.splits)

lemma ensureConnected_snd [simp]: "snd (snd (ensureConnected w st)) = snd st"
  by (simp add: ensureConnected_def Let_def split: sum.splits)

lemma send_lp_snd [simp]: "snd (snd (send_lp add w st)) = snd st"
  by (simp add: send_lp_def split: sum.splits)

lemma extends_ensureConnected: "extends {} st (snd (ensureConnected w st))"
  by (rule extends_same) simp_all

lemma extends_asyncExpressInterest: "extends {} st (snd (asyncExpressInterest now i nh a b c st))"
  unfolding asyncExpressInterest_def
proof (rule extends_thenS [OF extends_ensureConnected], goal_cases)
  case (1 s)
  show ?case by (auto simp: extends_def Let_def)
qed

lemma extends_expressInterest: "extends {} st (snd (Face_expressInterest env now i nh a b c st))"
proof -
  have "extends {} st (upd (\<lambda>f. f\<lparr>f_gen := g\<rparr>) st)" for g by (rule extends_same) simp_all
  then show ?thesis
    by (auto simp: Face_expressInterest_def Let_def intro!: extends_trans [OF _ extends_asyncExpressInterest] intro: extends_same split: sum.splits prod.splits)
qed

lemma extends_startCommand: "extends {} st (snd (startCommand env now cmd p fin st))"
  by (auto simp: startCommand_def intro: extends_expressInterest split: sum.splits)

lemma extends_do_face_call: "extends {} st (snd (do_face_call env now c st))"
proof (cases c)
  case (PutData d p)
  have "extends {} st (snd (Face_putData d p st))"
  proof (cases "bindE (Data_wireEncode d) (\<lambda>(w, d). bindE (Block_size w) (\<lambda>n. Inr (w, d, n)))")
    case (Inr x)
    obtain w d' n where "x = (w, d', n)" by (cases x) auto
    then show ?thesis using Inr by (auto simp: Face_putData_def intro!: extends_thenS [OF extends_ensureConnected] extends_same)
  qed (simp add: Face_putData_def)
  then show ?thesis using PutData by simp
next
  case (PutNack n)
  have "extends {} s (snd (case Interest_wireEncode (env_le env) (env_gen env) (nk_interest n) (f_gen (snd s)) of
         Inl e \<Rightarrow> (Some e, s)
       | Inr (w, _, g) \<Rightarrow> send_lp (Packet_add NackField (nk_header n)) w (upd (\<lambda>f. f\<lparr>f_gen := g\<rparr>) s)))" for s :: "('a, 'b) state"
    by (rule extends_same) (simp_all split: sum.splits prod.splits)
  then have "extends {} st (snd (Face_putNack env n st))" unfolding Face_putNack_def by (rule extends_thenS [OF extends_ensureConnected])
  then show ?thesis using PutNack by simp
next
  case (RegisterPrefix n flt a b flags)
  have "extends {} st (upd (\<lambda>f. f\<lparr>f_next := Suc (Suc (f_next (snd st)))\<rparr>) st)" by (rule extends_same) simp_all
  then show ?thesis using RegisterPrefix extends_trans [OF _ extends_startCommand] by (simp add: Face_registerPrefix_def Let_def)
qed (auto intro: extends_expressInterest extends_same)

lemma extends_do_face_calls: "extends {} st (snd (do_face_calls env now cs st))"
  by (induction cs arbitrary: st) (auto intro: extends_thenS extends_do_face_call)

lemma extends_invoke: "extends {k. answers k ivk} st (snd (invoke env now ivk st))"
proof -
  have "extends {k. answers k ivk} st (upd (\<lambda>f. f\<lparr>f_log := f_log f @ [ivk]\<rparr>) st)"
    by (auto simp: extends_def intro!: exI [of _ "[]"] exI [of _ "[ivk]"])
  then have "extends {k. answers k ivk} st (snd (do_face_calls env now (fst (env_behaviour env ivk)) (upd (\<lambda>f. f\<lparr>f_log := f_log f @ [ivk]\<rparr>) st)))"
    using extends_trans extends_do_face_calls by blast
  then show ?thesis unfolding invoke_def by (rule extends_thenS) simp
qed

lemma extends_mono: "extends K st st' \<Longrightarrow> K \<subseteq> L \<Longrightarrow> extends L st st'"
proof -
  assume "extends K st st'" "K \<subseteq> L"
  moreover have "of_bool (j \<in> K) \<le> (of_bool (j \<in> L) :: nat)" for j using \<open>K \<subseteq> L\<close> by (auto simp: of_bool_def)
  ultimately show ?thesis unfolding extends_def by (meson le_trans)
qed

lemma extends_call:
  assumes "\<And>c j. answers j (mk c) \<Longrightarrow> j \<in> K"
  shows "extends K st (snd (call_function env now c mk st))" "extends K st (snd (call_guarded env now c mk st))"
proof -
  have "extends K st (snd (invoke env now (mk c) st))" for c using extends_mono [OF extends_invoke] assms by blast
  then show "extends K st (snd (call_function env now c mk st))" "extends K st (snd (call_guarded env now c mk st))"
    by (auto simp: call_function_def call_guarded_def split: option.split)
qed

lemma extends_command_failed: "extends {} st (snd (command_failed env now fin reason st))"
  by (auto simp: command_failed_def intro: extends_call split: command_done.split)

lemma extends_command_succeeded: "extends {} st (snd (command_succeeded env now fin st))"
proof (cases fin)
  case (Registered r a b)
  let ?s1 = "upd (\<lambda>f. f\<lparr>f_prefixes := f_prefixes f @ [r]\<rparr>) st"
  let ?s2 = "case rp_filter r of None \<Rightarrow> ?s1 | Some fr \<Rightarrow> upd (\<lambda>f. f\<lparr>f_filters := f_filters f @ [fr]\<rparr>) ?s1"
  have "extends {} st ?s2" by (rule extends_same) (auto split: option.split)
  moreover have "extends {} ?s2 (snd (call_guarded env now a (\<lambda>c. OnRegistered c (rp_prefix r)) ?s2))" by (rule extends_call) simp
  ultimately show ?thesis unfolding Registered command_succeeded_def afterPrefixRegistered_def Let_def command_done.case by (rule extends_trans)
next
  case (Unregistered k a b)
  have "extends {} st (snd (prefixes_erase k st))" by (rule extends_same) (auto simp: prefixes_erase_def Let_def)
  then have "extends {} st (snd (finalizeUnregisterPrefix env now k a st))"
    unfolding finalizeUnregisterPrefix_def by (rule extends_thenS) (rule extends_call, simp)
  then show ?thesis using Unregistered by (simp add: command_succeeded_def)
qed

lemma extends_processCommandResponse: "extends {} st (snd (processCommandResponse env now d cmd fin st))"
proof -
  have catch: "extends {} st (snd (catch_tlv env now fin e st))" for e
    by (cases "tlv_what e") (auto simp: catch_tlv_def intro: extends_command_failed)
  have val: "extends {} st (snd (case v of Some (ArgumentError reason) \<Rightarrow> command_failed env now fin reason st | Some e \<Rightarrow> (Some e, st)
      | None \<Rightarrow> command_succeeded env now fin st))" for v
    by (cases v rule: option.exhaust; (simp add: extends_command_succeeded; fail)?; cases "the v") (simp_all add: extends_command_failed)
  have par: "extends {} st (snd (case Par_wireDecode p b of (Some e, _) \<Rightarrow> catch_tlv env now fin e st
      | (None, params) \<Rightarrow> (case validateResponse cmd params of Some (ArgumentError reason) \<Rightarrow> command_failed env now fin reason st | Some e \<Rightarrow> (Some e, st)
      | None \<Rightarrow> command_succeeded env now fin st)))" for p b
    using catch val by (cases "Par_wireDecode p b"; cases "fst (Par_wireDecode p b)") simp_all
  show ?thesis
    unfolding processCommandResponse_def
    by (rule sum.split [THEN iffD2]) (use catch par extends_command_failed in \<open>simp add: extends_command_failed del: split_paired_All\<close>)
qed

lemma extends_invokeDataCallback: "extends {pi_id e} st (snd (invokeDataCallback env now e d st))"
proof (cases "pi_dataCallback e")
  case (Some cb)
  have 1: "extends {pi_id e} st (snd (invoke env now (OnData c (pi_id e) (pi_interest e) d) st))" for c
    by (rule extends_mono [OF extends_invoke]) auto
  have 2: "extends {pi_id e} st (snd (call_guarded env now c (\<lambda>c. OnData c (pi_id e) (pi_interest e) d) st))" for c
    by (rule extends_call) simp
  have 3: "extends {pi_id e} st (snd (processCommandResponse env now d cmd fin st))" for cmd fin
    by (rule extends_mono [OF extends_processCommandResponse]) simp
  show ?thesis using 1 2 3 Some by (cases cb) (simp_all add: invokeDataCallback_def)
qed (simp add: invokeDataCallback_def)

lemma extends_invokeNackCallback: "extends {pi_id e} st (snd (invokeNackCallback env now e n st))"
proof (cases "pi_nackCallback e")
  case (Some cb)
  have 1: "extends {pi_id e} st (snd (invoke env now (OnNack c (pi_id e) (pi_interest e) n) st))" for c
    by (rule extends_mono [OF extends_invoke]) auto
  have 2: "extends {pi_id e} st (snd (call_guarded env now c (\<lambda>c. OnTimeout c (pi_id e) (pi_interest e)) st))" for c
    by (rule extends_call) simp
  have 3: "extends {pi_id e} st (snd (command_failed env now fin r st))" for fin r
    by (rule extends_mono [OF extends_command_failed]) simp
  show ?thesis using 1 2 3 Some by (cases cb) (simp_all add: invokeNackCallback_def)
qed (simp add: invokeNackCallback_def)

lemma face_inv_extends:
  assumes "face_inv T st" "extends K st st'"
    and "\<forall>k \<in> K. k < f_next (snd st) \<and> answer_count k (f_log (snd st)) \<le> of_bool (k \<in> T)
      \<and> (k \<in> pi_id ` set (f_pit (snd st)) \<longrightarrow> k \<in> T \<and> answer_count k (f_log (snd st)) = 0)"
  shows "face_inv T st'"
proof -
  obtain added log where a: "f_pit (snd st') = f_pit (snd st) @ added" "f_log (snd st') = f_log (snd st) @ log" "f_next (snd st) \<le> f_next (snd st')"
    "distinct (map pi_id added)" "\<forall>e \<in> set added. f_next (snd st) \<le> pi_id e \<and> pi_id e < f_next (snd st')" "\<forall>j. answer_count j log \<le> of_bool (j \<in> K)"
    using assms(2) unfolding extends_def by blast
  note i = face_invD [OF assms(1)]
  have "pi_id ` set (f_pit (snd st)) \<inter> pi_id ` set added = {}" using i(2) a(5) by fastforce
  then have 1: "distinct (map pi_id (f_pit (snd st')))" using i(1) a(1,4) by simp
  have 2: "\<forall>e \<in> set (f_pit (snd st')). pi_id e < f_next (snd st')" using i(2) a(1,3,5) by fastforce
  have 3: "answer_count k (f_log (snd st')) \<le> 1 + of_bool (k \<in> T)" for k
    using spec [OF i(4), of k] a(2) assms(3) spec [OF a(6), of k] by (cases "k \<in> K") auto
  have 4: "k < f_next (snd st')" if "0 < answer_count k (f_log (snd st'))" for k
  proof -
    have "k < f_next (snd st)" using that i(5) assms(3) a(2) spec [OF a(6), of k] by (cases "k \<in> K") auto
    then show ?thesis using a(3) by simp
  qed
  have old: "answer_count (pi_id e) (f_log (snd st')) \<le> of_bool (pi_id e \<in> T)" if "e \<in> set (f_pit (snd st))" for e
    using that bspec [OF i(6) that] a(2) assms(3) spec [OF a(6), of "pi_id e"] by (cases "pi_id e \<in> K") auto
  have new: "pi_id e \<notin> T \<and> answer_count (pi_id e) (f_log (snd st')) = 0" if "e \<in> set added" for e
  proof -
    have "\<not> pi_id e < f_next (snd st)" using a(5) that by fastforce
    then have "pi_id e \<notin> T" "answer_count (pi_id e) (f_log (snd st)) = 0" "pi_id e \<notin> K" using i(3,5) assms(3) by auto
    then show ?thesis using a(2) spec [OF a(6), of "pi_id e"] by simp
  qed
  have "\<forall>e \<in> set (f_pit (snd st')). answer_count (pi_id e) (f_log (snd st')) \<le> of_bool (pi_id e \<in> T) \<and> (pi_id e \<in> T \<longrightarrow> pi_fired e)"
    using old new i(6) unfolding a(1) set_append by (metis Un_iff le0)
  moreover have "\<forall>k \<in> T. k < f_next (snd st')" using i(3) a(3) by fastforce
  ultimately show ?thesis unfolding face_inv_def using 1 2 3 4 by blast
qed

text \<open>The identifiers of the table with the state of their timers.\<close>

definition timers :: "('c, 'g) state \<Rightarrow> (nat \<times> bool) list" where
  "timers st = map (\<lambda>e. (pi_id e, pi_fired e)) (f_pit (snd st))"

lemma timers_ids: "timers st' = timers st \<Longrightarrow> map pi_id (f_pit (snd st')) = map pi_id (f_pit (snd st))"
  by (drule arg_cong [of _ _ "map fst"]) (simp add: timers_def comp_def)

lemma face_inv_same:
  assumes "face_inv T st" "timers st' = timers st" "f_log (snd st') = f_log (snd st)" "f_next (snd st') = f_next (snd st)"
  shows "face_inv T st'"
proof -
  note i = face_invD [OF assms(1)]
  have ids: "map pi_id (f_pit (snd st')) = map pi_id (f_pit (snd st))" by (rule timers_ids [OF assms(2)])
  have set: "(\<lambda>e. (pi_id e, pi_fired e)) ` set (f_pit (snd st')) = (\<lambda>e. (pi_id e, pi_fired e)) ` set (f_pit (snd st))"
    using arg_cong [OF assms(2), of set] by (simp add: timers_def)
  have ex: "\<exists>e \<in> set (f_pit (snd st)). pi_id e = pi_id e' \<and> pi_fired e = pi_fired e'" if "e' \<in> set (f_pit (snd st'))" for e'
  proof -
    have "(pi_id e', pi_fired e') \<in> (\<lambda>e. (pi_id e, pi_fired e)) ` set (f_pit (snd st))" using set that by blast
    then show ?thesis by auto
  qed
  have "\<forall>e' \<in> set (f_pit (snd st')). pi_id e' < f_next (snd st)
      \<and> answer_count (pi_id e') (f_log (snd st)) \<le> of_bool (pi_id e' \<in> T) \<and> (pi_id e' \<in> T \<longrightarrow> pi_fired e')"
    using ex i(2,6) by metis
  then show ?thesis unfolding face_inv_def assms(3,4) ids using i(1,3,4,5) by blast
qed

lemma pit_remove_if_simps [simp]:
  "f_pit (snd (pit_remove_if P st)) = filter (\<lambda>e. \<not> P e) (f_pit (snd st))" "f_log (snd (pit_remove_if P st)) = f_log (snd st)"
  "f_next (snd (pit_remove_if P st)) = f_next (snd st)" "f_gen (snd (pit_remove_if P st)) = f_gen (snd st)" "f_filters (snd (pit_remove_if P st)) = f_filters (snd st)"
  "f_prefixes (snd (pit_remove_if P st)) = f_prefixes (snd st)" "fst (pit_remove_if P st) = fst st"
  by (simp_all add: pit_remove_if_def Let_def)

lemma face_inv_remove:
  assumes "face_inv T st" "f_pit (snd st') = filter P (f_pit (snd st))" "f_log (snd st') = f_log (snd st)" "f_next (snd st') = f_next (snd st)"
  shows "face_inv T st'"
proof -
  note i = face_invD [OF assms(1)]
  have sub: "set (f_pit (snd st')) \<subseteq> set (f_pit (snd st))" using assms(2) by auto
  have "distinct (map pi_id (f_pit (snd st')))" using i(1) assms(2) by (simp add: distinct_map_filter)
  then show ?thesis unfolding face_inv_def assms(3,4) using i(2-6) sub by blast
qed

lemma set_interest_ids [simp]: "timers (set_interest k i st) = timers st"
  "f_log (snd (set_interest k i st)) = f_log (snd st)" "f_next (snd (set_interest k i st)) = f_next (snd st)"
  by (auto simp: set_interest_def timers_def)

lemma timers_upd [simp]: "f_pit (h (snd st)) = f_pit (snd st) \<Longrightarrow> timers (upd h st) = timers st"
  by (simp add: timers_def)

lemma timers_post [simp]: "timers (post t st) = timers st"
  by (simp add: timers_def)

lemma find_pending_Some:
  assumes "find_pending k es = Some e"
  shows "pi_id e = k" "e \<in> set es"
  using assms by (auto simp: find_pending_def find_Some_iff)

text \<open>Erasing an entry and then running its callback.\<close>

lemma face_inv_erase_call:
  assumes "face_inv T st" "k \<in> pi_id ` set (f_pit (snd st))" "extends {k} (pit_erase k st) st'"
  shows "face_inv T st'"
proof (rule face_inv_extends [OF _ assms(3)])
  show "face_inv T (pit_erase k st)" by (rule face_inv_remove [OF assms(1)]) (simp_all add: pit_erase_def)
  note i = face_invD [OF assms(1)]
  show "\<forall>j \<in> {k}. j < f_next (snd (pit_erase k st)) \<and> answer_count j (f_log (snd (pit_erase k st))) \<le> of_bool (j \<in> T)
      \<and> (j \<in> pi_id ` set (f_pit (snd (pit_erase k st))) \<longrightarrow> j \<in> T \<and> answer_count j (f_log (snd (pit_erase k st))) = 0)"
    using i(2,6) assms(2) by (auto simp: pit_erase_def)
qed

text \<open>An entry that the loops over the table have found: it can be replaced, or erased before its callback runs.\<close>

lemma found_entry_inv:
  assumes "face_inv T st" "find_pending k (f_pit (snd st)) = Some e"
    and "timers st1 = timers st" "f_log (snd st1) = f_log (snd st)" "f_next (snd st1) = f_next (snd st)"
  shows "face_inv T st1" "extends {k} (pit_erase k st1) st' \<Longrightarrow> face_inv T st'"
proof -
  show inv: "face_inv T st1" by (rule face_inv_same [OF assms(1,3-5)])
  have "k \<in> pi_id ` set (f_pit (snd st1))"
    using find_pending_Some [OF assms(2)] timers_ids [OF assms(3)] by (metis image_eqI list.set_map)
  then show "extends {k} (pit_erase k st1) st' \<Longrightarrow> face_inv T st'" by (rule face_inv_erase_call [OF inv])
qed

lemma satisfy_loop_inv:
  assumes "satisfy_loop env now entry d st = Some r" "face_inv T st"
  shows "face_inv T (snd r)"
proof -
  have "face_inv T st \<longrightarrow> face_inv T (snd r)"
  proof (rule satisfy_loop.raw_induct [where P = "\<lambda>env now entry d st r. face_inv T st \<longrightarrow> face_inv T (snd r)", OF _ assms(1)], goal_cases)
    case (1 loop env now entry d st r)
    show ?case
    proof
      assume inv: "face_inv T st"
      consider (stops) "snd r = st"
        | (entry) k e matched i d' where "entry = Some k" "find_pending k (f_pit (snd st)) = Some e"
            "matchesData (env_sha256 env) (pi_interest e) d = Inr (matched, i, d')"
        using 1(2) by (auto split: option.splits sum.splits)
      then show "face_inv T (snd r)"
      proof cases
        case stops
        then show ?thesis using inv by simp
      next
        case (entry k e matched i d')
        let ?st = "set_interest k i st"
        let ?r = "invokeDataCallback env now (e\<lparr>pi_interest := i\<rparr>) d' (pit_erase k ?st)"
        note found = found_entry_inv [OF inv entry(2), of ?st]
        have "pi_id e = k" by (rule find_pending_Some [OF entry(2)])
        then have "extends {k} (pit_erase k ?st) (snd ?r)" using extends_invokeDataCallback [of "e\<lparr>pi_interest := i\<rparr>" "pit_erase k ?st"] by simp
        then have inv': "face_inv T (snd ?r)" "face_inv T ?st" using found by simp_all
        show ?thesis
          using 1 entry inv' by (cases matched; cases ?r; cases "fst ?r") (auto simp: Let_def)
      qed
    qed
  qed
  then show ?thesis using assms(2) by blast
qed

lemma nack_loop_inv:
  assumes "nack_loop env now entry n st = Some r" "face_inv T st"
  shows "face_inv T (snd r)"
proof -
  have "face_inv T st \<longrightarrow> face_inv T (snd r)"
  proof (rule nack_loop.raw_induct [where P = "\<lambda>env now entry n st r. face_inv T st \<longrightarrow> face_inv T (snd r)", OF _ assms(1)], goal_cases)
    case (1 loop env now entry n st r)
    show ?case
    proof
      assume inv: "face_inv T st"
      consider (stops) "snd r = st"
        | (entry) k e matched i ni g where "entry = Some k" "find_pending k (f_pit (snd st)) = Some e"
            "Interest_equal (env_le env) (env_gen env) (pi_interest e) (nk_interest n) (f_gen (snd st)) = Inr (matched, i, ni, g)"
        using 1(2) by (auto split: option.splits sum.splits)
      then show "face_inv T (snd r)"
      proof cases
        case stops
        then show ?thesis using inv by simp
      next
        case (entry k e matched i ni g)
        let ?st = "upd (\<lambda>f. f\<lparr>f_gen := g\<rparr>) (set_interest k i st)"
        let ?r = "invokeNackCallback env now (e\<lparr>pi_interest := i\<rparr>) (n\<lparr>nk_interest := ni\<rparr>) (pit_erase k ?st)"
        note found = found_entry_inv [OF inv entry(2), of ?st]
        have "pi_id e = k" by (rule find_pending_Some [OF entry(2)])
        then have "extends {k} (pit_erase k ?st) (snd ?r)" using extends_invokeNackCallback [of "e\<lparr>pi_interest := i\<rparr>" "pit_erase k ?st"] by simp
        then have inv': "face_inv T (snd ?r)" "face_inv T ?st" using found by simp_all
        show ?thesis
          using 1 entry inv' by (cases matched; cases ?r; cases "fst ?r") (auto simp: Let_def)
      qed
    qed
  qed
  then show ?thesis using assms(2) by blast
qed

lemma filter_loop_extends: "extends {} st (snd (filter_loop env now i frs st))"
proof (induction frs arbitrary: st)
  case (Cons fr frs)
  show ?case
  proof (cases "doesMatch (env_regex env) (fr_filter fr) (i_name i)")
    case (Inr matched)
    have "extends {} st (snd (call_function env now (fr_callback fr) (\<lambda>c. OnInterest c (fr_filter fr) i) st))" by (rule extends_call) simp
    then have "extends {} st (snd (thenS (call_function env now (fr_callback fr) (\<lambda>c. OnInterest c (fr_filter fr) i) st) (filter_loop env now i frs)))"
      using Cons.IH by (rule extends_thenS)
    then show ?thesis using Cons.IH Inr by simp
  qed simp
qed simp

lemma face_inv_extends_none: "face_inv T st \<Longrightarrow> extends {} st st' \<Longrightarrow> face_inv T st'"
  using face_inv_extends [of T st "{}" st'] by blast

lemma onReceiveElement_inv:
  assumes "onReceiveElement env now b st = Some r" "face_inv T st"
  shows "face_inv T (snd r)"
proof (cases "decode_network b")
  case (Inl e)
  then show ?thesis using assms by (auto simp: onReceiveElement_def)
next
  case (Inr p)
  show ?thesis
  proof (cases p)
    case (InterestPacket i)
    then show ?thesis
      using assms Inr face_inv_extends_none [OF assms(2) filter_loop_extends]
      by (auto simp: onReceiveElement_def processInterestFilters_def)
  next
    case (NackPacket n)
    then show ?thesis using assms Inr nack_loop_inv by (simp add: onReceiveElement_def nackPendingInterests_def)
  next
    case (DataPacket d)
    then show ?thesis using assms Inr satisfy_loop_inv by (simp add: onReceiveElement_def satisfyPendingInterests_def)
  next
    case OtherPacket
    then show ?thesis using assms Inr by (auto simp: onReceiveElement_def)
  qed
qed

text \<open>A timeout callback runs before its entry is erased; once the entry is gone, the invariant holds again.\<close>

lemma extends_pit_erase:
  assumes "extends {k} st st'" "k < f_next (snd st)"
  shows "extends {k} (pit_erase k st) (pit_erase k st')"
proof -
  obtain added log where a: "f_pit (snd st') = f_pit (snd st) @ added" "f_log (snd st') = f_log (snd st) @ log" "f_next (snd st) \<le> f_next (snd st')"
    "distinct (map pi_id added)" "\<forall>e \<in> set added. f_next (snd st) \<le> pi_id e \<and> pi_id e < f_next (snd st')" "\<forall>j. answer_count j log \<le> of_bool (j \<in> {k})"
    using assms(1) unfolding extends_def by blast
  have "filter (\<lambda>e. pi_id e \<noteq> k) added = added" using a(5) assms(2) by (auto simp: filter_id_conv)
  then have "f_pit (snd (pit_erase k st')) = f_pit (snd (pit_erase k st)) @ added" using a(1) by (simp add: pit_erase_def)
  then show ?thesis unfolding extends_def using a(2-6) by (intro exI [of _ added] exI [of _ log]) (simp add: pit_erase_def)
qed

lemma extends_run_timeout: "extends {pi_id e} st (snd (run_timeout env now e st))"
proof (cases "pi_timeoutCallback e")
  case (Some cb)
  have 1: "extends {pi_id e} st (snd (invoke env now (OnTimeout c (pi_id e) (pi_interest e)) st))" for c
    by (rule extends_mono [OF extends_invoke]) auto
  have 2: "extends {pi_id e} st (snd (command_failed env now fin r st))" for fin r
    by (rule extends_mono [OF extends_command_failed]) simp
  show ?thesis using 1 2 Some by (cases cb) (simp_all add: run_timeout_def)
qed (simp add: run_timeout_def)

lemma mark_fired_simps [simp]: "map pi_id (f_pit (snd (mark_fired k st))) = map pi_id (f_pit (snd st))"
  "f_log (snd (mark_fired k st)) = f_log (snd st)" "f_next (snd (mark_fired k st)) = f_next (snd st)"
  by (auto simp: mark_fired_def)

text \<open>Marking an entry allows it to be answered once more after its timeout callback.\<close>

lemma mark_fired_inv:
  assumes "face_inv T st" "k \<in> pi_id ` set (f_pit (snd st))"
  shows "face_inv T (mark_fired k st)" "face_inv (insert k T) (mark_fired k st)"
proof -
  note i = face_invD [OF assms(1)]
  have pit: "\<exists>e \<in> set (f_pit (snd st)). pi_id e = pi_id e' \<and> (pi_fired e \<longrightarrow> pi_fired e') \<and> (pi_id e = k \<longrightarrow> pi_fired e')"
    if "e' \<in> set (f_pit (snd (mark_fired k st)))" for e'
    using that by (auto simp: mark_fired_def)
  have "\<forall>e' \<in> set (f_pit (snd (mark_fired k st))). pi_id e' < f_next (snd st)
      \<and> answer_count (pi_id e') (f_log (snd st)) \<le> of_bool (pi_id e' \<in> T) \<and> (pi_id e' \<in> T \<longrightarrow> pi_fired e') \<and> (pi_id e' = k \<longrightarrow> pi_fired e')"
    using pit i(2,6) by metis
  moreover have "k < f_next (snd st)" using assms(2) i(2) by auto
  moreover have "of_bool (j \<in> T) \<le> (of_bool (j \<in> insert k T) :: nat)" for j by (simp add: of_bool_def)
  ultimately show "face_inv T (mark_fired k st)" "face_inv (insert k T) (mark_fired k st)"
    using i(1,3-5) unfolding face_inv_def mark_fired_simps by (auto intro: order_trans)
qed

lemma invokeTimeoutCallback_cases:
  obtains (idle) "invokeTimeoutCallback env now k st = (None, st)"
  | (fires) e where "find_pending k (f_pit (snd st)) = Some e" "\<not> pi_fired e" "pi_expiry e \<le> now"
      "invokeTimeoutCallback env now k st = thenS (run_timeout env now e (mark_fired k st)) (\<lambda>st. (None, pit_erase k st))"
proof (cases "find_pending k (f_pit (snd st))")
  case None
  then show ?thesis using idle by (simp add: invokeTimeoutCallback_def)
next
  case (Some e)
  then show ?thesis
    using Some idle fires by (cases "pi_fired e \<or> now < pi_expiry e")
      (simp_all add: invokeTimeoutCallback_def not_less)
qed

lemma invokeTimeoutCallback_inv:
  assumes "face_inv T st"
  shows "face_inv T (pit_erase k (snd (invokeTimeoutCallback env now k st)))"
    "fst (invokeTimeoutCallback env now k st) = None \<Longrightarrow> face_inv T (snd (invokeTimeoutCallback env now k st))"
    "fst (invokeTimeoutCallback env now k st) \<noteq> None \<Longrightarrow> face_inv (insert k T) (snd (invokeTimeoutCallback env now k st))"
proof -
  have erase: "face_inv T (pit_erase k s)" if "face_inv T s" for s :: "('a, 'b) state"
    by (rule face_inv_remove [OF that]) (simp_all add: pit_erase_def)
  have goals: "face_inv T (pit_erase k (snd (invokeTimeoutCallback env now k st))) \<and>
     (fst (invokeTimeoutCallback env now k st) = None \<longrightarrow> face_inv T (snd (invokeTimeoutCallback env now k st))) \<and>
     (fst (invokeTimeoutCallback env now k st) \<noteq> None \<longrightarrow> face_inv (insert k T) (snd (invokeTimeoutCallback env now k st)))"
  proof (cases rule: invokeTimeoutCallback_cases [of env now k st])
    case idle
    then show ?thesis using assms erase by simp
  next
    case (fires e)
    note e = find_pending_Some [OF fires(1)]
    let ?st = "mark_fired k st"
    let ?r = "run_timeout env now e ?st"
    have in_pit: "k \<in> pi_id ` set (f_pit (snd st))" using e by blast
    note inv = mark_fired_inv [OF assms in_pit]
    have mem: "k \<in> pi_id ` set (f_pit (snd ?st))" using e by (metis image_eqI list.set_map mark_fired_simps(1))
    have k: "k < f_next (snd ?st)" using face_invD(2) [OF inv(1)] mem by auto
    have unanswered: "answer_count k (f_log (snd ?st)) = 0"
      using face_invD(6) [OF assms] e fires(2) by auto
    have ext: "extends {k} ?st (snd ?r)" using extends_run_timeout [of e] e(1) by simp
    then have "face_inv T (pit_erase k (snd ?r))" using face_inv_erase_call [OF inv(1) mem extends_pit_erase [OF _ k]] by blast
    moreover have "face_inv (insert k T) (snd ?r)"
      by (rule face_inv_extends [OF inv(2) ext]) (use k unanswered in simp)
    ultimately show ?thesis
      using fires(4) erase by (cases ?r; cases "fst ?r") (simp_all add: thenS_def)
  qed
  then show "face_inv T (pit_erase k (snd (invokeTimeoutCallback env now k st)))"
    "fst (invokeTimeoutCallback env now k st) = None \<Longrightarrow> face_inv T (snd (invokeTimeoutCallback env now k st))"
    "fst (invokeTimeoutCallback env now k st) \<noteq> None \<Longrightarrow> face_inv (insert k T) (snd (invokeTimeoutCallback env now k st))" by blast+
qed

lemma clear_simps [simp]:
  "f_pit (snd (pit_clear st)) = []" "f_log (snd (pit_clear st)) = f_log (snd st)" "f_next (snd (pit_clear st)) = f_next (snd st)"
  "f_pit (snd (prefixes_clear st)) = f_pit (snd st)" "f_log (snd (prefixes_clear st)) = f_log (snd st)" "f_next (snd (prefixes_clear st)) = f_next (snd st)"
  by (simp_all add: pit_clear_def prefixes_clear_def)

lemma face_inv_clear:
  assumes "face_inv T st" "f_pit (snd st') = []" "f_log (snd st') = f_log (snd st)" "f_next (snd st') = f_next (snd st)"
  shows "face_inv T st'"
  by (rule face_inv_remove [OF assms(1), of _ "\<lambda>_. False"]) (simp_all add: assms)

lemma asyncUnregisterPrefix_extends: "extends {} st (snd (asyncUnregisterPrefix env now k a b st))"
proof (cases "find (\<lambda>r. rp_id r = k) (f_prefixes (snd st))")
  case None
  then show ?thesis by (auto simp: asyncUnregisterPrefix_def intro: extends_call)
next
  case (Some r)
  let ?st = "case rp_filter r of None \<Rightarrow> st | Some fr \<Rightarrow> upd (\<lambda>f. f\<lparr>f_filters := filter (\<lambda>x. fr_id x \<noteq> fr_id fr) (f_filters f)\<rparr>) st"
  have "extends {} st ?st" by (rule extends_same) (auto split: option.split)
  then show ?thesis unfolding asyncUnregisterPrefix_def Some option.case Let_def using extends_startCommand by (rule extends_trans)
qed

lemma run_task_inv:
  assumes "face_inv T st"
  shows "face_inv T (snd (run_task env now t st))"
proof (cases t)
  case (RemovePending k)
  then show ?thesis by (auto intro: face_inv_remove [OF assms])
next
  case RemoveAllPending
  then show ?thesis by (auto intro: face_inv_clear [OF assms])
next
  case (Unregister k a b)
  then show ?thesis by (auto intro: face_inv_extends_none [OF assms] asyncUnregisterPrefix_extends)
next
  case Shutdown
  have "face_inv T (snd (asyncShutdown st))"
    by (rule face_inv_clear [OF assms]) (auto simp: asyncShutdown_def Let_def split: sum.split)
  then show ?thesis using Shutdown by simp
qed (rule face_inv_same [OF assms]; simp add: onEmptyPitOrNoRegisteredPrefixes_def asyncUnsetInterestFilter_def timers_def)+

text \<open>
  The states of a face after any sequence of calls, packets and timers. An exception that leaves a handler is caught by \<open>processEvents\<close>, which empties the tables, or,
  when the application runs the \<open>io_service\<close> itself and goes on, leaves the face as it is. In the second case the entry of a timeout
  callback that threw stays in the table: \<open>T\<close> collects the Interests to which this has happened.
\<close>

definition escaped :: "'c face_event \<Rightarrow> nat set \<Rightarrow> nat set" where
  "escaped ev T = (case ev of Timer k \<Rightarrow> insert k T | _ \<Rightarrow> T)"

inductive face_reachable :: "('c, 'g) face_env \<Rightarrow> nat set \<Rightarrow> ('c, 'g) state \<Rightarrow> bool" for env where
  created: "face_reachable env {} (Face_new g)"
| event: "face_reachable env T st \<Longrightarrow> do_face_event env now ev st = Some (None, st') \<Longrightarrow> face_reachable env T st'"
| caught: "face_reachable env T st \<Longrightarrow> do_face_event env now ev st = Some (Some err, st') \<Longrightarrow> face_reachable env T (processEvents_catch st')"
| thrown: "face_reachable env T st \<Longrightarrow> do_face_event env now ev st = Some (Some err, st') \<Longrightarrow> face_reachable env (escaped ev T) st'"

lemma processEvents_catch_simps [simp]: "f_pit (snd (processEvents_catch st)) = []" "f_log (snd (processEvents_catch st)) = f_log (snd st)"
  "f_next (snd (processEvents_catch st)) = f_next (snd st)"
  by (simp_all add: processEvents_catch_def)

lemma do_face_event_inv:
  assumes "face_inv T st" "do_face_event env now ev st = Some r"
  shows "face_inv (if fst r = None then T else escaped ev T) (snd r)" "face_inv T (processEvents_catch (snd r))"
proof -
  have main: "face_inv T (snd r)" if ok: "(\<forall>k. ev \<noteq> Timer k) \<or> fst r = None"
  proof (cases ev)
    case (Call c)
    then show ?thesis using assms(2) face_inv_extends_none [OF assms(1) extends_do_face_call] by auto
  next
    case (Receive b)
    then show ?thesis using assms onReceiveElement_inv by simp
  next
    case (Timer k)
    then show ?thesis using assms ok invokeTimeoutCallback_inv(2) [OF assms(1)] by auto
  next
    case RunPosted
    have posted: "face_inv T (upd (\<lambda>f. f\<lparr>f_posted := ts\<rparr>) st)" for ts by (rule face_inv_same [OF assms(1)]) simp_all
    then show ?thesis using assms RunPosted run_task_inv [OF posted] by (auto split: list.splits simp del: split_paired_All)
  next
    case (ProcessEvents timeout keepThread)
    have "face_inv T (processEvents_start timeout keepThread st)"
      by (rule face_inv_same [OF assms(1)]) (simp_all add: processEvents_start_def timers_def Let_def)
    then show ?thesis using assms(2) ProcessEvents by auto
  next
    case ProcessEventsTimeout
    have "face_inv T (processEvents_timeout st)" by (rule face_inv_same [OF assms(1)]) (simp_all add: processEvents_timeout_def timers_def)
    then show ?thesis using assms(2) ProcessEventsTimeout by auto
  next
    case CatchException
    have "face_inv T (processEvents_catch st)" by (rule face_inv_clear [OF assms(1)]) simp_all
    then show ?thesis using assms(2) CatchException by auto
  qed
  show "face_inv (if fst r = None then T else escaped ev T) (snd r)"
  proof (cases "fst r = None \<or> (\<forall>k. ev \<noteq> Timer k)")
    case True
    then have "(if fst r = None then T else escaped ev T) = T" by (auto simp: escaped_def split: face_event.split)
    then show ?thesis using True main by auto
  next
    case False
    then obtain k where "ev = Timer k" "fst r \<noteq> None" by blast
    then show ?thesis using assms(2) invokeTimeoutCallback_inv(3) [OF assms(1), of env now k] by (auto simp: escaped_def)
  qed
  show "face_inv T (processEvents_catch (snd r))"
  proof (cases "\<exists>k. ev = Timer k")
    case True
    then obtain k where "ev = Timer k" by blast
    then have "face_inv T (pit_erase k (snd r))" using assms(2) invokeTimeoutCallback_inv(1) [OF assms(1)] by auto
    then show ?thesis by (rule face_inv_clear) (simp_all add: pit_erase_def)
  next
    case False
    then have "face_inv T (snd r)" using main by blast
    then show ?thesis by (rule face_inv_clear) simp_all
  qed
qed

lemma face_reachable_inv: "face_reachable env T st \<Longrightarrow> face_inv T st"
proof (induction rule: face_reachable.induct)
  case (created g)
  then show ?case by (simp add: face_inv_def Face_new_def)
next
  case (event T st now ev st')
  then show ?case using do_face_event_inv(1) [OF event.IH event.hyps(2)] by simp
next
  case (caught T st now ev err st')
  then show ?case using do_face_event_inv(2) [OF caught.IH caught.hyps(2)] by simp
next
  case (thrown T st now ev err st')
  then show ?case using do_face_event_inv(1) [OF thrown.IH thrown.hyps(2)] by simp
qed

text \<open>
  C12. Whatever the application, its callbacks and the network do, each pending Interest is answered at most once: by Data, by a Nack or by a timeout, and once it has been answered it is no longer in the
  table. There is one exception: an Interest whose timeout callback threw, in an application that runs the \<open>io_service\<close> itself and goes on after
  the exception (these Interests are in \<open>T\<close>), stays in the table and may be answered by a Data packet or a Nack once more; so it is answered at most twice, and
  the second time it leaves the table. An exception that \<open>processEvents\<close> catches does not have this effect. The identifiers in the table are
  distinct and smaller than the next one.
\<close>

theorem answered_at_most_once:
  assumes "face_reachable env T st"
  shows "answer_count k (f_log (snd st)) \<le> (if k \<in> T then 2 else 1)
    \<and> (answer_count k (f_log (snd st)) = (if k \<in> T then 2 else 1) \<longrightarrow> k \<notin> pi_id ` set (f_pit (snd st)))
    \<and> distinct (map pi_id (f_pit (snd st))) \<and> (\<forall>e \<in> set (f_pit (snd st)). pi_id e < f_next (snd st))"
proof -
  note i = face_invD [OF face_reachable_inv [OF assms]]
  have "answer_count k (f_log (snd st)) \<le> (if k \<in> T then 2 else 1)" using spec [OF i(4), of k] by (auto split: if_splits)
  moreover have "k \<notin> pi_id ` set (f_pit (snd st))" if "answer_count k (f_log (snd st)) = (if k \<in> T then 2 else 1)"
    using i(6) that by (auto split: if_splits)
  ultimately show ?thesis using i(1,2) by blast
qed

definition example_env :: "(nat, u32) face_env" where
  "example_env = \<lparr>env_sha256 = \<lambda>_. replicate 32 0, env_le = True, env_gen = \<lambda>g. (g, g + 1), env_regex = exact_regex, env_commandPrefix = Name_default,
     env_commandTimeout = 10000, env_sign = Inr, env_junk = no_parameters, env_behaviour = \<lambda>_. ([], False)\<rparr>"

lemma example_env_simps [simp]:
  "env_sha256 example_env = (\<lambda>_. replicate 32 0)" "env_le example_env" "env_gen example_env = (\<lambda>g. (g, g + 1))" "env_behaviour example_env ivk = ([], False)"
  "env_regex example_env = exact_regex"
  by (simp_all add: example_env_def)

text \<open>The entry that \<open>expressInterest\<close> makes.\<close>

definition new_entry :: "int \<Rightarrow> nat \<Rightarrow> interest \<Rightarrow> 'c callback option \<Rightarrow> 'c callback option \<Rightarrow> 'c callback option \<Rightarrow> 'c pending_interest" where
  "new_entry now k i a b c = \<lparr>pi_id = k, pi_interest = i, pi_dataCallback = a, pi_nackCallback = b, pi_timeoutCallback = c,
     pi_expiry = now + (if i_interestLifetime i > 0 then i_interestLifetime i else DEFAULT_INTEREST_LIFETIME), pi_fired = False\<rparr>"

lemma ensureConnected_ok: "\<exists>tr. ensureConnected w st = (None, tr, snd st) \<and> tr_impl tr \<noteq> None" if "tr_isConnected (fst st) \<longrightarrow> tr_impl (fst st) \<noteq> None"
  using that
  by (auto simp: ensureConnected_def Let_def UnixTransport_connect_def Transport_connect_def Impl_connect_def Impl_new_def started_def Transport_resume_def
      Impl_resume_def split: option.splits sum.splits)

lemma expressInterest_entry:
  assumes "Interest_wireEncode (env_le env) (env_gen env) i (f_gen (snd st)) = Inr (w, i', g)" "Block_size w = Inr n" "n \<le> MAX_NDN_PACKET_SIZE"
    and "tr_isConnected (fst st) \<longrightarrow> tr_impl (fst st) \<noteq> None"
  shows "\<exists>tr r. Face_expressInterest env now i nh a b c st = r \<and> tr_impl tr \<noteq> None
    \<and> r = send_lp (\<lambda>p. case nh of None \<Rightarrow> (None, p) | Some n \<Rightarrow> Packet_add NextHopFaceIdField n p) (i_wire i')
        (tr, (snd st)\<lparr>f_gen := g, f_pit := f_pit (snd st) @ [new_entry now (f_next (snd st)) i' a b c], f_next := Suc (f_next (snd st))\<rparr>)"
proof -
  obtain tr where "ensureConnected True (upd (\<lambda>f. f\<lparr>f_gen := g\<rparr>) st) = (None, tr, (snd st)\<lparr>f_gen := g\<rparr>)" "tr_impl tr \<noteq> None"
    using ensureConnected_ok [of "upd (\<lambda>f. f\<lparr>f_gen := g\<rparr>) st" True] assms(4) by auto
  then show ?thesis
    using assms(1-3) by (auto simp: Face_expressInterest_def asyncExpressInterest_def thenS_def new_entry_def Let_def upd_def)
qed

lemma example_interest_encoded:
  obtains i' where "Interest_wireEncode True (\<lambda>g :: u32. (g, g + 1)) example_interest 7 = Inr (i_wire i', i', 8)" "Block_size (i_wire i') = Inr 17"
    "interest_of i' = IPacket [Comp tlv_NameComponent [65]] (Sels None None NoKey [] None True) [7, 0, 0, 0] 4000 None None" "is_name (i_name i')"
proof -
  let ?p = "IPacket [Comp tlv_NameComponent [65]] (Sels None None NoKey [] None True) [7, 0, 0, 0] 4000 None None"
  have p: "?p = interest_of (nonced True (\<lambda>g :: u32. (g, g + 1)) example_interest 7)"
    using nonced_facts(4) [OF example_interest_facts(1,2), of True "\<lambda>g :: u32. (g, g + 1)" 7] be_encode_4 [of 7]
    by (simp add: example_interest_facts with_nonce_def word32_bytes_def)
  have v: "tlv_bytes tlv_Interest (interest_value ?p) = [5, 15, 7, 3, 8, 1, 65, 9, 2, 18, 0, 10, 4, 7, 0, 0, 0]"
    by (simp add: interest_value_def interest_elements_def before_nonce_def after_nonce_def link_elements_def no_sels_def
        DEFAULT_INTEREST_LIFETIME_def comps_value_def sels_value_def sels_elements_def count_elements_def tlv_bytes_def
        writeVarNumber_def tlv_codes)
  have good: "good_interest ?p" by (simp add: good_interest_def is_comp_def good_sels_def good_count_def)
  have len: "length (tlv_bytes tlv_Interest (interest_value ?p)) < 2 ^ 64" unfolding v by simp
  obtain i' where i': "Interest_wireEncode True (\<lambda>g :: u32. (g, g + 1)) example_interest 7 = Inr (i_wire i', i', 8)" "interest_of i' = ?p"
    "wire_bytes (i_wire i') = [5, 15, 7, 3, 8, 1, 65, 9, 2, 18, 0, 10, 4, 7, 0, 0, 0]" "hasWire (i_wire i')" "wf_block (i_wire i')"
    "Interest_wireDecode (nonced True (\<lambda>g :: u32. (g, g + 1)) example_interest 7) (tlv_block tlv_Interest (interest_value ?p)) = (None, i')"
    using Interest_wireEncode_spec [OF example_interest_facts(1,2) p good len] unfolding v using example_interest_facts(3) by auto
  have blk: "fresh (tlv_block tlv_Interest (interest_value ?p))" "type_value (tlv_block tlv_Interest (interest_value ?p)) = (tlv_Interest, interest_value ?p)"
    using len by (simp_all del: length_tlv_bytes)
  obtain y where "Interest_wireDecode (nonced True (\<lambda>g :: u32. (g, g + 1)) example_interest 7) (tlv_block tlv_Interest (interest_value ?p)) = (None, y)"
    "is_name (i_name y)" by (rule Interest_wireDecode_spec [OF blk good])
  then have "is_name (i_name i')" using i'(6) by simp
  have "hasValue (i_wire i')" using i'(4) by (simp add: hasWire_def hasValue_def)
  then have "Block_size (i_wire i') = Inr 17" using Block_size_wf [OF i'(5)] i'(3,4) by (simp add: block_bytes_def)
  with \<open>is_name (i_name i')\<close> show thesis using that i'(1,2) by blast
qed

lemma example_pending:
  obtains st i' where "face_reachable example_env {} st" "f_pit (snd st) = [new_entry 0 0 i' (Some (User 0)) None (Some (User 0))]" "f_log (snd st) = []"
    "interest_of i' = IPacket [Comp tlv_NameComponent [65]] (Sels None None NoKey [] None True) [7, 0, 0, 0] 4000 None None" "is_name (i_name i')"
proof -
  obtain i' where i': "Interest_wireEncode True (\<lambda>g :: u32. (g, g + 1)) example_interest 7 = Inr (i_wire i', i', 8)" "Block_size (i_wire i') = Inr 17"
    "interest_of i' = IPacket [Comp tlv_NameComponent [65]] (Sels None None NoKey [] None True) [7, 0, 0, 0] 4000 None None" "is_name (i_name i')"
    by (rule example_interest_encoded)
  let ?c = "Call (ExpressInterest example_interest None (Some (User 0)) None (Some (User 0)))"
  let ?e = "new_entry 0 0 i' (Some (User 0)) None (Some (User (0 :: nat)))"
  define r where "r = Face_expressInterest example_env 0 example_interest None (Some (User 0)) None (Some (User 0)) (Face_new 7)"
  have "snd (snd r) = (snd (Face_new 7))\<lparr>f_gen := 8, f_pit := [?e], f_next := 1\<rparr>"
    using expressInterest_entry [of example_env example_interest "Face_new 7" "i_wire i'" i' 8 17 0 None "Some (User 0)" None "Some (User 0)"] i'(1,2)
    by (auto simp: r_def Face_new_def MAX_NDN_PACKET_SIZE_def Transport_new_def)
  then have "f_pit (snd (snd r)) = [?e]" "f_log (snd (snd r)) = []" by (simp_all add: Face_new_def)
  moreover have "face_reachable example_env {} (snd r)"
    using face_reachable.event [OF face_reachable.created [of example_env 7], of 0 ?c "snd r"]
      face_reachable.thrown [OF face_reachable.created [of example_env 7], of 0 ?c "the (fst r)" "snd r"]
    by (cases r; cases "fst r") (simp_all add: r_def [symmetric] escaped_def)
  ultimately show thesis using that i'(3,4) by blast
qed

theorem answered_at_most_once_witness:
  "\<exists>st. face_reachable example_env {} st \<and> answer_count 0 (f_log (snd st)) = 1 \<and> f_pit (snd st) = []"
proof -
  obtain st i' where st: "face_reachable example_env {} st" "f_pit (snd st) = [new_entry 0 0 i' (Some (User 0)) None (Some (User 0))]" "f_log (snd st) = []"
    "interest_of i' = IPacket [Comp tlv_NameComponent [65]] (Sels None None NoKey [] None True) [7, 0, 0, 0] 4000 None None"
    by (rule example_pending)
  have life: "pi_expiry (new_entry 0 0 i' (Some (User 0)) None (Some (User (0 :: nat)))) = 4000"
    using st(4) by (auto simp: new_entry_def interest_of_def lifetime_of_def DEFAULT_INTEREST_LIFETIME_def split: if_splits)
  obtain st' where st': "do_face_event example_env 4000 (Timer 0) st = Some (None, st')" "f_pit (snd st') = []"
      "f_log (snd st') = [OnTimeout 0 0 i']"
    using st(2,3) life by (auto simp: invokeTimeoutCallback_def find_pending_def new_entry_def run_timeout_def mark_fired_def invoke_def thenS_def pit_erase_def)
  then have "face_reachable example_env {} st'" using face_reachable.event [OF st(1)] by blast
  then show ?thesis using answered_at_most_once [of example_env "{}" st' 0] st'(2,3) by (intro exI [of _ st']) (simp add: answer_count_def)
qed

section \<open>From face to face\<close>



lemma extract_nothing:
  assumes "lp_inv p" "lp_map p (fd_type IncomingFaceIdField) = None"
  shows "\<exists>q. extractLpLocalFields p = Inr q"
  using incomingFaceId_field.Packet_has_eq [OF assms(1)] assms(2) by (auto simp: extractLpLocalFields_def)

lemma decode_bare:
  assumes "t = tlv_Interest \<or> t = tlv_Data" "length (tlv_bytes t v) < 2 ^ 32 - 18"
  obtains blk where "fresh blk" "type_value blk = (t, v)" "wire_bytes blk = tlv_bytes t v"
    "decode_network (packet_block (t, v)) =
       (if t = tlv_Interest then bindE (Interest_ofBlock blk) (\<lambda>i. Inr (InterestPacket i)) else bindE (Data_ofBlock blk) (\<lambda>d. Inr (DataPacket d)))"
proof -
  let ?w = "tlv_block t v" and ?bs = "tlv_bytes t v"
  have len: "length ?bs < 2 ^ 64" using assms(2) by (simp del: length_tlv_bytes)
  then have w: "fresh ?w" "wire_bytes ?w = ?bs" by (simp_all del: length_tlv_bytes)
  have good: "good_fragment ?bs" using assms(2) by (auto simp: good_fragment_def simp del: length_tlv_bytes)
  let ?p = "fragment_packet ?bs"
  have dec: "Packet_ofBlock ?w = Inr ?p"
    using bare_packet_decode [OF w(1), of Block_default] good assms(1) w(2) by (simp add: Packet_ofBlock_def)
  have map: "lp_inv ?p" "lp_map ?p = [lp_Fragment \<mapsto> ?bs]" using fragment_packet_facts(2,3) [OF good] by (simp_all add: lp_map_def)
  have types: "fd_type FragmentField = lp_Fragment" "fd_type NackField = lp_Nack" "fd_type IncomingFaceIdField = lp_IncomingFaceId"
    by (simp_all add: FragmentField_def FieldDecl_def NackField_def IncomingFaceIdField_def uint64_field_def)
  obtain q where q: "Packet_get FragmentField 0 ?p = (Inr ?bs, q)" "lp_inv q" "lp_map q = [lp_Fragment \<mapsto> ?bs]"
    using fragment_field.get_eq [OF map(1), of ?bs] good map(2) types(1) by auto
  obtain q2 where q2: "Packet_has NackField q = (Inr False, q2)" "parse q = (None, q2)"
    using nack_field.Packet_has_eq [OF q(2)] q(3) types(2) by (auto simp: lp_codes)
  have "lp_inv q2" "lp_map q2 = lp_map q" using lp_invE [OF q(2)] q2(2) by (metis prod.inject lp_map_def)+
  then obtain q3 q4 where ex: "extractLpLocalFields q2 = Inr q3" "extractLpLocalFields q = Inr q4"
    using extract_nothing [of q2] extract_nothing [of q] q(2,3) types(3) by (auto simp: lp_codes)
  have small: "length v < 2 ^ 64" using len by simp
  then obtain blk where blk: "Block_copy ?bs = Inr blk" "type_value blk = (t, v)" "wire_bytes blk = ?bs" using Block_copy_tlv [of v "[]" t] by auto
  have "fresh blk" using Block_copy_Inr [OF blk(1)] blk(3) len by (simp add: fresh_def del: length_tlv_bytes)
  moreover have "m_type blk = t" using blk(2) by (simp add: type_value_def)
  ultimately show thesis
    using that [of blk] blk(2,3) dec q(1) q2(1) ex blk(1) assms(1) by (auto simp: decode_network_def packet_block_def tlv_codes)
qed


lemma decode_data:
  assumes "good_packet p" "length (tlv_bytes tlv_Data (packet_value p)) < 2 ^ 32 - 18"
  obtains blk d where "fresh blk" "type_value blk = (tlv_Data, packet_value p)" "wire_bytes blk = tlv_bytes tlv_Data (packet_value p)"
    "Data_wireDecode (Data_default\<lparr>d_content := Block_default\<rparr>) blk = (None, d)" "packet_of d = p"
    "decode_network (packet_block (tlv_Data, packet_value p)) = Inr (DataPacket d)"
proof -
  obtain blk where blk: "fresh blk" "type_value blk = (tlv_Data, packet_value p)" "wire_bytes blk = tlv_bytes tlv_Data (packet_value p)"
    "decode_network (packet_block (tlv_Data, packet_value p)) = bindE (Data_ofBlock blk) (\<lambda>d. Inr (DataPacket d))"
    using decode_bare [OF _ assms(2)] by (auto simp: tlv_codes)
  have "meta_app (meta_of (d_metaInfo (Data_default\<lparr>d_content := Block_default\<rparr>))) = []"
    by (simp add: Data_default_def MetaInfo_default_def meta_of_def)
  then obtain d where "Data_wireDecode (Data_default\<lparr>d_content := Block_default\<rparr>) blk = (None, d)" "packet_of d = p"
    using Data_wireDecode_spec [OF blk(1,2) assms(1), of "Data_default\<lparr>d_content := Block_default\<rparr>"] by (metis append_Nil meta.collapse packet.collapse)
  with blk that show thesis by (simp add: Data_ofBlock_def)
qed


lemma packet_bound: "n \<le> MAX_NDN_PACKET_SIZE \<Longrightarrow> n < 2 ^ 32 - 18" "n \<le> MAX_NDN_PACKET_SIZE \<Longrightarrow> n < 2 ^ 32" "n \<le> MAX_NDN_PACKET_SIZE \<Longrightarrow> n < 2 ^ 64"
  by (simp_all add: MAX_NDN_PACKET_SIZE_def)





section \<open>Data satisfies exactly the matching Interests\<close>

text \<open>Calls that only post a task to the event loop, and applications whose callbacks make no other calls and do not throw.\<close>

fun posts_only :: "'c face_call \<Rightarrow> bool" where
  "posts_only (ExpressInterest i nh a b c) \<longleftrightarrow> False"
| "posts_only (PutData d p) \<longleftrightarrow> False"
| "posts_only (PutNack n) \<longleftrightarrow> False"
| "posts_only (RegisterPrefix n flt a b flags) \<longleftrightarrow> False"
| "posts_only _ \<longleftrightarrow> True"

definition quiet :: "('c, 'g) face_env \<Rightarrow> bool" where
  "quiet env \<longleftrightarrow> (\<forall>ivk. (\<forall>c \<in> set (fst (env_behaviour env ivk)). posts_only c) \<and> \<not> snd (env_behaviour env ivk))"

lemma do_face_call_posts:
  assumes "posts_only c"
  shows "\<exists>st'. do_face_call env now c st = (None, st') \<and> f_pit (snd st') = f_pit (snd st) \<and> f_log (snd st') = f_log (snd st)"
  using assms by (cases c) simp_all

lemma do_face_calls_post:
  assumes "\<forall>c \<in> set cs. posts_only c"
  shows "\<exists>st'. do_face_calls env now cs st = (None, st') \<and> f_pit (snd st') = f_pit (snd st) \<and> f_log (snd st') = f_log (snd st)"
  using assms
proof (induction cs arbitrary: st)
  case (Cons c cs)
  obtain st1 where st1: "do_face_call env now c st = (None, st1)" "f_pit (snd st1) = f_pit (snd st)" "f_log (snd st1) = f_log (snd st)"
    using do_face_call_posts [of c env now st] Cons.prems by auto
  obtain st2 where "do_face_calls env now cs st1 = (None, st2)" "f_pit (snd st2) = f_pit (snd st1)" "f_log (snd st2) = f_log (snd st1)"
    using Cons.IH [of st1] Cons.prems by auto
  with st1 show ?case by (simp add: thenS_def)
qed simp

lemma invoke_quiet:
  assumes "quiet env"
  shows "\<exists>st'. invoke env now ivk st = (None, st') \<and> f_pit (snd st') = f_pit (snd st) \<and> f_log (snd st') = f_log (snd st) @ [ivk]"
proof -
  let ?st = "upd (\<lambda>f. f\<lparr>f_log := f_log f @ [ivk]\<rparr>) st"
  have calls: "\<forall>c \<in> set (fst (env_behaviour env ivk)). posts_only c" "\<not> snd (env_behaviour env ivk)" using assms by (simp_all add: quiet_def)
  obtain st' where "do_face_calls env now (fst (env_behaviour env ivk)) ?st = (None, st')" "f_pit (snd st') = f_pit (snd ?st)" "f_log (snd st') = f_log (snd ?st)"
    using do_face_calls_post [OF calls(1), of env now ?st] by blast
  then show ?thesis using calls(2) by (simp add: invoke_def thenS_def)
qed

definition first_pending :: "'c pending_interest list \<Rightarrow> nat option" where
  "first_pending es = (case es of [] \<Rightarrow> None | e # _ \<Rightarrow> Some (pi_id e))"

lemma pit_lookup:
  assumes "distinct (map pi_id (kept @ e # es))"
  shows "find_pending (pi_id e) (kept @ e # es) = Some e" "next_pending (pi_id e) (kept @ e # es) = first_pending es"
    "map (\<lambda>x. if pi_id x = pi_id e then x\<lparr>pi_interest := pi_interest e\<rparr> else x) (kept @ e # es) = kept @ e # es"
    "filter (\<lambda>x. pi_id x \<noteq> pi_id e) (kept @ e # es) = kept @ es"
proof -
  have "pi_id e \<notin> pi_id ` set kept" "pi_id e \<notin> pi_id ` set es" using assms by simp_all
  then have away: "pi_id x \<noteq> pi_id e" if "x \<in> set kept \<or> x \<in> set es" for x using that by (metis imageI)
  have drop: "dropWhile (\<lambda>x. pi_id x \<noteq> pi_id e) (kept @ e # es) = e # es" using away by (induction kept) auto
  show "find_pending (pi_id e) (kept @ e # es) = Some e" using away unfolding find_pending_def by (induction kept) auto
  show "next_pending (pi_id e) (kept @ e # es) = first_pending es" by (simp add: next_pending_def drop first_pending_def split: list.split)
  show "map (\<lambda>x. if pi_id x = pi_id e then x\<lparr>pi_interest := pi_interest e\<rparr> else x) (kept @ e # es) = kept @ e # es"
    using away by (auto intro!: map_idI)
  show "filter (\<lambda>x. pi_id x \<noteq> pi_id e) (kept @ e # es) = kept @ es" using away by (auto simp: filter_id_conv)
qed

lemma set_interest_same:
  assumes "f_pit (snd st) = kept @ e # es" "distinct (map pi_id (kept @ e # es))"
  shows "set_interest (pi_id e) (pi_interest e) st = st"
proof -
  have "(snd st)\<lparr>f_pit := f_pit (snd st)\<rparr> = snd st" by simp
  then show ?thesis using pit_lookup(3) [OF assms(2)] by (simp add: set_interest_def upd_def assms(1) [symmetric])
qed

definition told :: "data set \<Rightarrow> 'c pending_interest \<Rightarrow> 'c invocation \<Rightarrow> bool" where
  "told D e ivk \<longleftrightarrow> (\<exists>c. \<exists>d \<in> D. pi_dataCallback e = Some (User c) \<and> ivk = OnData c (pi_id e) (pi_interest e) d)"

lemma satisfy_loop_quiet:
  assumes "quiet env" "\<forall>e \<in> set rest. \<exists>c. pi_dataCallback e = Some (User c)"
    and "\<forall>e \<in> set rest. \<forall>d \<in> D. \<exists>d' \<in> D. matchesData (env_sha256 env) (pi_interest e) d = Inr (m e, pi_interest e, d')"
    and "d \<in> D" "f_pit (snd st) = kept @ rest" "distinct (map pi_id (kept @ rest))"
  shows "\<exists>st' ivks. satisfy_loop env now (first_pending rest) d st = Some (None, st') \<and> f_pit (snd st') = kept @ filter (\<lambda>e. \<not> m e) rest
    \<and> f_log (snd st') = f_log (snd st) @ ivks \<and> list_all2 (told D) (filter m rest) ivks"
  using assms
proof (induction rest arbitrary: kept d st)
  case Nil
  then show ?case by (simp add: satisfy_loop.simps first_pending_def)
next
  case (Cons e es)
  note look = pit_lookup [OF Cons.prems(6)]
  note same = set_interest_same [OF Cons.prems(5,6)]
  obtain d' where d': "d' \<in> D" "matchesData (env_sha256 env) (pi_interest e) d = Inr (m e, pi_interest e, d')" using Cons.prems(3,4) by auto
  have hyps: "\<forall>e \<in> set es. \<exists>c. pi_dataCallback e = Some (User c)"
    "\<forall>e \<in> set es. \<forall>d \<in> D. \<exists>d' \<in> D. matchesData (env_sha256 env) (pi_interest e) d = Inr (m e, pi_interest e, d')" using Cons.prems(2,3) by auto
  show ?case
  proof (cases "m e")
    case False
    have "satisfy_loop env now (first_pending (e # es)) d st = satisfy_loop env now (first_pending es) d' st"
      by (subst satisfy_loop.simps) (use look(1,2) Cons.prems(5) d'(2) same False in \<open>simp add: first_pending_def Let_def\<close>)
    then show ?thesis using Cons.IH [OF Cons.prems(1) hyps d'(1), of st "kept @ [e]"] Cons.prems(5,6) False by simp
  next
    case True
    obtain c where c: "pi_dataCallback e = Some (User c)" using Cons.prems(2) by auto
    let ?ivk = "OnData c (pi_id e) (pi_interest e) d'"
    obtain st1 where st1: "invoke env now ?ivk (pit_erase (pi_id e) st) = (None, st1)" "f_pit (snd st1) = kept @ es" "f_log (snd st1) = f_log (snd st) @ [?ivk]"
      using invoke_quiet [OF Cons.prems(1), of now ?ivk "pit_erase (pi_id e) st"] look(4) Cons.prems(5) by (auto simp: pit_erase_def)
    have "satisfy_loop env now (first_pending (e # es)) d st = satisfy_loop env now (first_pending es) d' st1"
      by (subst satisfy_loop.simps)
        (use look(1,2) Cons.prems(5) d'(2) same True st1(1) c in \<open>simp add: first_pending_def Let_def invokeDataCallback_def\<close>)
    moreover have "distinct (map pi_id (kept @ es))" using Cons.prems(6) by auto
    ultimately show ?thesis
      using Cons.IH [OF Cons.prems(1) hyps d'(1) st1(2)] st1(3) True c d'(1) by (force simp: told_def)
  qed
qed

text \<open>What a full name must be to satisfy an Interest without a publisher key.\<close>

definition satisfied_by :: "name \<Rightarrow> interest \<Rightarrow> bool" where
  "satisfied_by full i \<longleftrightarrow> matchesName i full = Inr True \<and> (Name_size (i_name i) = Name_size full \<longrightarrow> isImplicitSha256Digest (last (comps (i_name i))))"

lemma matchesData_full:
  assumes "Name_empty (d_fullName d)" "hasWire (d_wire d)" "is_name (d_name d)" "\<And>bs. length (sha256 bs) = SHA256_DIGEST_SIZE" "Name_size (d_name d) + 1 < 2 ^ 63"
  obtains full where "is_name full" "name_of full = name_of (d_name d) @ [Comp tlv_ImplicitSha256DigestComponent (sha256 (wire_and_size (d_wire d)))]"
    "\<forall>i. is_name (i_name i) \<longrightarrow> KeyLocator_empty (sel_publisherPublicKeyLocator (i_selectors i)) \<longrightarrow> (\<forall>x \<in> {d, d\<lparr>d_fullName := full\<rparr>}.
       \<exists>x' \<in> {d, d\<lparr>d_fullName := full\<rparr>}. matchesData sha256 i x = Inr (satisfied_by full i, i, x'))"
proof -
  have ok: "fullName_ok sha256 d" using assms(1) by (simp add: fullName_ok_def)
  obtain full c where full: "getFullName sha256 d = Inr (full, d\<lparr>d_fullName := full\<rparr>)"
    "getFullName sha256 (d\<lparr>d_fullName := full\<rparr>) = Inr (full, d\<lparr>d_fullName := full\<rparr>)" "comps full = comps (d_name d) @ [c]" "is_name full"
    "comp_of c = Comp tlv_ImplicitSha256DigestComponent (sha256 (wire_and_size (d_wire d)))"
    using getFullName_made [OF ok assms(2-4)] .
  let ?d1 = "d\<lparr>d_fullName := full\<rparr>"
  have ok1: "fullName_ok sha256 ?d1"
    using full(1) assms(1,2) by (auto simp: fullName_ok_def getFullName_def bindE_iffs)
  have step: "\<exists>x' \<in> {d, ?d1}. matchesData sha256 i x = Inr (satisfied_by full i, i, x')"
    if i: "is_name (i_name i)" "KeyLocator_empty (sel_publisherPublicKeyLocator (i_selectors i))" and x: "x \<in> {d, ?d1}" for i x
  proof -
    have x': "fullName_ok sha256 x" "hasWire (d_wire x)" "is_name (d_name x)" "Name_size (d_name x) + 1 < 2 ^ 63" "getFullName sha256 x = Inr (full, ?d1)"
      using x ok ok1 assms(2,3,5) full(1,2) by auto
    obtain full' y where r: "getFullName sha256 x = Inr (full', x\<lparr>d_fullName := full'\<rparr>)" "y \<in> after_check i x (x\<lparr>d_fullName := full'\<rparr>)"
      "matchesName i full' = Inr (name_matches i full')"
      "matchesData sha256 i x = (if name_matches i full' \<and> (Name_size (i_name i) = Name_size full' \<longrightarrow> isImplicitSha256Digest (last (comps (i_name i))))
         then check_publisher i y else Inr (False, i, y))"
      using matchesData_eq [OF x'(1-3) assms(4) i(1) x'(4)] by metis
    have "full' = full" "y \<in> {d, ?d1}" using r(1,2) x'(5) x by (auto simp: after_check_def split: if_splits)
    moreover have "check_publisher i y = Inr (True, i, y)" using i(2) by (simp add: check_publisher_def)
    ultimately show ?thesis using r(3,4) by (auto simp: satisfied_by_def)
  qed
  have "name_of full = name_of (d_name d) @ [Comp tlv_ImplicitSha256DigestComponent (sha256 (wire_and_size (d_wire d)))]"
    using full(3,5) by (simp add: name_of_def)
  then show thesis using that full(4) step by blast
qed

text \<open>
  C13. When a Data packet arrives, exactly the pending Interests that its full name satisfies are removed from the table, each of them is reported to its callback once, in the order in which they
  were expressed and with that packet, and the others stay as they are; the loop ends. This is for Interests without a publisher key, with a callback of the application, and for callbacks that
  only post to the event loop and do not throw. The packet arrives without an NDNLPv2 header, in its canonical encoding of at most 8800 bytes; SHA-256 is assumed to give 32 bytes.
\<close>

theorem data_satisfies_matching:
  assumes "face_reachable env T st" "quiet env" "\<And>bs. length (env_sha256 env bs) = SHA256_DIGEST_SIZE" "good_packet p"
    and "length (tlv_bytes tlv_Data (packet_value p)) \<le> MAX_NDN_PACKET_SIZE" "length (p_name p) < 2 ^ 62"
    and "\<forall>e \<in> set (f_pit (snd st)). is_name (i_name (pi_interest e)) \<and> KeyLocator_empty (sel_publisherPublicKeyLocator (i_selectors (pi_interest e)))
      \<and> (\<exists>c. pi_dataCallback e = Some (User c))"
  shows "\<exists>full D st' ivks. onReceiveElement env now (packet_block (tlv_Data, packet_value p)) st = Some (None, st')
    \<and> is_name full \<and> name_of full = p_name p @ [Comp tlv_ImplicitSha256DigestComponent (env_sha256 env (tlv_bytes tlv_Data (packet_value p)))]
    \<and> f_pit (snd st') = filter (\<lambda>e. \<not> satisfied_by full (pi_interest e)) (f_pit (snd st))
    \<and> f_log (snd st') = f_log (snd st) @ ivks \<and> list_all2 (told D) (filter (\<lambda>e. satisfied_by full (pi_interest e)) (f_pit (snd st))) ivks
    \<and> (\<forall>d \<in> D. packet_of d = p)"
proof -
  let ?d0 = "Data_default\<lparr>d_content := Block_default\<rparr>"
  obtain blk d where d: "fresh blk" "type_value blk = (tlv_Data, packet_value p)" "Data_wireDecode ?d0 blk = (None, d)" "packet_of d = p"
    "decode_network (packet_block (tlv_Data, packet_value p)) = Inr (DataPacket d)" "wire_bytes blk = tlv_bytes tlv_Data (packet_value p)"
    using decode_data [OF assms(4) packet_bound(1) [OF assms(5)]] by metis
  have facts: "hasWire (d_wire d)" "Name_empty (d_fullName d)" "is_name (d_name d)" "wire_bytes (d_wire d) = wire_bytes blk" "wf_block (d_wire d)"
    using Data_wireDecode_spec [OF d(1,2) assms(4), of ?d0] d(3) by (metis prod.inject)+
  have "sendable (d_wire d)"
    using facts d(6) packet_bound(2) [OF assms(5)] by (simp add: sendable_def block_bytes_def del: length_tlv_bytes)
  then have digest: "wire_and_size (d_wire d) = tlv_bytes tlv_Data (packet_value p)"
    using wire_and_size_bytes [of "d_wire d"] facts(1,4) d(6) by (simp add: block_bytes_def)
  have name: "name_of (d_name d) = p_name p" using d(4) by (auto simp: packet_of_def)
  have "length (comps (d_name d)) = length (p_name p)" by (simp add: name [symmetric] name_of_def)
  then have size: "Name_size (d_name d) + 1 < 2 ^ 63" using assms(6) by (simp add: Name_size_def)
  obtain full where full: "is_name full" "name_of full = name_of (d_name d) @ [Comp tlv_ImplicitSha256DigestComponent (env_sha256 env (wire_and_size (d_wire d)))]"
    "\<forall>i. is_name (i_name i) \<longrightarrow> KeyLocator_empty (sel_publisherPublicKeyLocator (i_selectors i)) \<longrightarrow> (\<forall>x \<in> {d, d\<lparr>d_fullName := full\<rparr>}.
       \<exists>x' \<in> {d, d\<lparr>d_fullName := full\<rparr>}. matchesData (env_sha256 env) i x = Inr (satisfied_by full i, i, x'))"
    by (rule matchesData_full [of d "env_sha256 env", OF facts(2,1,3) assms(3) size])
  let ?D = "{d, d\<lparr>d_fullName := full\<rparr>}" and ?es = "f_pit (snd st)"
  have match: "\<forall>e \<in> set ?es. \<forall>x \<in> ?D. \<exists>x' \<in> ?D. matchesData (env_sha256 env) (pi_interest e) x = Inr (satisfied_by full (pi_interest e), pi_interest e, x')"
    using full(3) assms(7) by blast
  have cb: "\<forall>e \<in> set ?es. \<exists>c. pi_dataCallback e = Some (User c)" using assms(7) by blast
  have dist: "distinct (map pi_id ([] @ ?es))" using face_reachable_inv [OF assms(1)] by (simp add: face_inv_def)
  obtain st' ivks where r: "satisfy_loop env now (first_pending ?es) d st = Some (None, st')" "f_pit (snd st') = filter (\<lambda>e. \<not> satisfied_by full (pi_interest e)) ?es"
    "f_log (snd st') = f_log (snd st) @ ivks" "list_all2 (told ?D) (filter (\<lambda>e. satisfied_by full (pi_interest e)) ?es) ivks"
    using satisfy_loop_quiet [OF assms(2) cb match _ _ dist, of d st now] by auto
  have "onReceiveElement env now (packet_block (tlv_Data, packet_value p)) st = Some (None, st')"
    using r(1) by (simp add: onReceiveElement_def d(5) satisfyPendingInterests_def pit_begin_def first_pending_def)
  moreover have "\<forall>x \<in> ?D. packet_of x = p" using d(4) by (auto simp: packet_of_def)
  ultimately show ?thesis
    using full(1,2) name digest r(2-4) by (intro exI [of _ full] exI [of _ ?D] exI [of _ st'] exI [of _ ivks]) simp
qed

theorem data_satisfies_matching_witness:
  "\<exists>st st' :: (nat, u32) state. face_reachable example_env {} st \<and> length (f_pit (snd st)) = 1
     \<and> onReceiveElement example_env 1 (packet_block (tlv_Data, [7, 3, 8, 1, 65, 20, 0, 21, 2, 1, 2, 22, 3, 27, 1, 0, 23, 1, 3])) st = Some (None, st')
     \<and> f_pit (snd st') = [] \<and> length (f_log (snd st')) = 1"
proof -
  let ?p = "packet_of (example_data [])"
  obtain st i' where st: "face_reachable example_env {} st" "f_pit (snd st) = [new_entry 0 0 i' (Some (User 0)) None (Some (User 0))]" "f_log (snd st) = []"
    "interest_of i' = IPacket [Comp tlv_NameComponent [65]] (Sels None None NoKey [] None True) [7, 0, 0, 0] 4000 None None" "is_name (i_name i')"
    by (rule example_pending)
  have sels: "sels_of (i_selectors i') = Sels None None NoKey [] None True" "name_of (i_name i') = [Comp tlv_NameComponent [65]]"
    using st(4) by (simp_all add: interest_of_def)
  have key: "KeyLocator_empty (sel_publisherPublicKeyLocator (i_selectors i'))"
    using sels(1) by (auto simp: sels_of_def locator_of_def KeyLocator_empty_def split: KeyLocator_Type.splits)
  have excl: "Exclude_empty (sel_exclude (i_selectors i'))" and suffix: "suffix_ok i' 1"
    using sels(1) by (auto simp: sels_of_def Exclude_empty_def entries_def count_of_def suffix_ok_def split: if_splits)
  have good: "good_packet ?p" "p_name ?p = [Comp tlv_NameComponent [65]]" using example_data_simps [of "[]"] by simp_all
  have value_eq: "packet_value ?p = [7, 3, 8, 1, 65, 20, 0, 21, 2, 1, 2, 22, 3, 27, 1, 0, 23, 1, 3]"
    using example_data_bytes(1) by (simp add: tlv_bytes_def writeVarNumber_def tlv_codes split: if_splits)
  have len: "length (tlv_bytes tlv_Data (packet_value ?p)) \<le> MAX_NDN_PACKET_SIZE" unfolding example_data_bytes by (simp add: MAX_NDN_PACKET_SIZE_def)
  have q: "quiet example_env" by (simp add: quiet_def)
  have h: "length (env_sha256 example_env bs) = SHA256_DIGEST_SIZE" for bs by (simp add: SHA256_DIGEST_SIZE_def)
  have pit: "\<forall>e \<in> set (f_pit (snd st)). is_name (i_name (pi_interest e)) \<and> KeyLocator_empty (sel_publisherPublicKeyLocator (i_selectors (pi_interest e)))
      \<and> (\<exists>c. pi_dataCallback e = Some (User c))" using st(2,5) key by (simp add: new_entry_def)
  have len1: "length (p_name ?p) < 2 ^ 62" by (simp add: good(2))
  obtain full D st' ivks where r: "onReceiveElement example_env 1 (packet_block (tlv_Data, packet_value ?p)) st = Some (None, st')" "is_name full"
    "name_of full = p_name ?p @ [Comp tlv_ImplicitSha256DigestComponent (replicate 32 0)]"
    "f_pit (snd st') = filter (\<lambda>e. \<not> satisfied_by full (pi_interest e)) (f_pit (snd st))" "f_log (snd st') = f_log (snd st) @ ivks"
    "list_all2 (told D) (filter (\<lambda>e. satisfied_by full (pi_interest e)) (f_pit (snd st))) ivks"
    using data_satisfies_matching [OF st(1) q h good(1) len len1 pit, of 1] by auto
  have size: "Name_size full = 2" "Name_size (i_name i') = 1"
    using arg_cong [OF r(3), of length] arg_cong [OF sels(2), of length] good(2) by (simp_all add: name_of_def Name_size_def)
  have "name_matches i' full" using r(3) good(2) sels(2) suffix not_excluded_empty [OF excl] by (simp add: name_matches_def size)
  then have sat: "satisfied_by full i'" using matchesName_eq [OF st(5) r(2)] size by (simp add: satisfied_by_def)
  have "f_pit (snd st') = []" "length ivks = 1" using r(4,6) sat st(2) by (auto simp: new_entry_def dest: list_all2_lengthD)
  then show ?thesis using st(1-3) r(1,5) unfolding value_eq by (intro exI [of _ st] exI [of _ st']) simp
qed

section \<open>Where the face fails\<close>

text \<open>Until a command to unregister a prefix is answered, the prefix stays in the table and can be unregistered again; the second answer erases an iterator that is no longer valid.\<close>

lemma unregister_twice:
  assumes "finalizeUnregisterPrefix env now k None st = (None, st1)"
  shows "finalizeUnregisterPrefix env now' k onSuccess st1 = (Some (UndefinedBehaviour ''erase of an invalid iterator''), st1)"
proof -
  have "k \<notin> rp_id ` set (f_prefixes (snd st1))"
    using assms by (auto simp: finalizeUnregisterPrefix_def prefixes_erase_def thenS_def call_guarded_def Let_def split: if_splits)
  then show ?thesis by (simp add: finalizeUnregisterPrefix_def prefixes_erase_def thenS_def)
qed

text \<open>A timeout callback that throws leaves its entry in the table, so that a later Data packet can answer the Interest a second time.\<close>

lemma throwing_timeout_stays:
  assumes "find_pending k (f_pit (snd st)) = Some e" "\<not> pi_fired e" "pi_expiry e \<le> now" "run_timeout env now e (mark_fired k st) = (Some err, st')"
  shows "invokeTimeoutCallback env now k st = (Some err, st') \<and> k \<in> pi_id ` set (f_pit (snd st'))"
proof -
  note e = find_pending_Some [OF assms(1)]
  obtain added where "f_pit (snd st') = f_pit (snd (mark_fired k st)) @ added"
    using extends_run_timeout [of e "mark_fired k st" env now] assms(4) unfolding extends_def by auto
  moreover have "k \<in> pi_id ` set (f_pit (snd (mark_fired k st)))" using e by (metis image_eqI list.set_map mark_fired_simps(1))
  ultimately show ?thesis using assms by (auto simp: invokeTimeoutCallback_def thenS_def)
qed

end
