(* ===== verification/Scheduler.thy ===== *)
theory Scheduler
  imports Prelude
begin

text \<open>
  The event scheduler, after \<open>src/util/scheduler.{hpp,cpp}\<close>.

  The queue is a \<open>std::multiset\<close> ordered by time, a sorted list here; a new event goes behind the events with the same
  time. A node of the multiset and the \<open>EventIdImpl\<close> that refers to it are created together, so both are named by the
  address of the latter, which is never reused; an iterator is such an address, and dereferencing or erasing one that is not in the queue is
  undefined. Times are nanoseconds of \<open>steady_clock\<close>; each reading of the clock is an argument. The deadline
  timer has at most one pending wait: \<open>s_timer\<close> is its expiry time, and both \<open>expires_from_now\<close> and \<open>cancel\<close>
  abort the wait, whose handler then returns at once (\<open>error\<close> is set).
\<close>

section \<open>Events\<close>

record 'e event_info =
  ev_time :: int
  ev_event :: 'e
  ev_id :: nat

record 'e scheduler =
  s_events :: "'e event_info list"
  s_scheduled :: "nat option"
  s_timer :: "int option"
  s_executing :: bool
  s_valid :: "nat \<Rightarrow> bool"
  s_next :: nat

definition Scheduler_new :: "'e scheduler" where
  "Scheduler_new = \<lparr>s_events = [], s_scheduled = None, s_timer = None, s_executing = False,
     s_valid = (\<lambda>_. False), s_next = 0\<rparr>"

definition event_less :: "'e event_info \<Rightarrow> 'e event_info \<Rightarrow> bool" where
  "event_less a b \<longleftrightarrow> ev_time a < ev_time b"

definition queue_insert :: "'e event_info \<Rightarrow> 'e event_info list \<Rightarrow> 'e event_info list" where
  "queue_insert i es = takeWhile (\<lambda>x. \<not> event_less i x) es @ i # dropWhile (\<lambda>x. \<not> event_less i x) es"

definition queue_at :: "nat \<Rightarrow> 'e event_info list \<Rightarrow> 'e event_info option" where
  "queue_at k es = find (\<lambda>x. ev_id x = k) es"

definition queue_erase :: "nat \<Rightarrow> 'e event_info list \<Rightarrow> 'e event_info list" where
  "queue_erase k es = filter (\<lambda>x. ev_id x \<noteq> k) es"

definition expiresFromNow :: "int \<Rightarrow> 'e event_info \<Rightarrow> int" where
  "expiresFromNow now i = (if now > ev_time i then 0 else ev_time i - now)"

section \<open>Operations\<close>

text \<open>\<open>now\<close> is read by \<open>EventInfo\<close>, \<open>now'\<close> by the timer.\<close>

definition scheduleEvent :: "int \<Rightarrow> int \<Rightarrow> int \<Rightarrow> 'e \<Rightarrow> 'e scheduler \<Rightarrow> (nat \<times> 'e scheduler) result" where
  "scheduleEvent now now' after event s =
     (let k = s_next s;
          i = \<lparr>ev_time = now + after, ev_event = event, ev_id = k\<rparr>;
          s = s\<lparr>s_events := queue_insert i (s_events s), s_valid := (s_valid s)(k := True), s_next := Suc k\<rparr>;
          armed = s\<lparr>s_timer := Some (now' + after), s_scheduled := Some k\<rparr>
      in if \<not> s_executing s
         then (case s_scheduled s of
                 None \<Rightarrow> Inr (k, armed)
               | Some it \<Rightarrow>
                   (case queue_at it (s_events s) of
                      None \<Rightarrow> Inl (UndefinedBehaviour ''dereference of an invalid iterator'')
                    | Some x \<Rightarrow> if event_less i x then Inr (k, armed) else Inr (k, s)))
         else Inr (k, s))"

definition invalidate :: "nat \<Rightarrow> 'e scheduler \<Rightarrow> 'e scheduler" where
  "invalidate k s = s\<lparr>s_valid := (s_valid s)(k := False)\<rparr>"

definition erase_event :: "nat \<Rightarrow> 'e scheduler \<Rightarrow> 'e scheduler result" where
  "erase_event k s =
     (case queue_at k (s_events s) of
        None \<Rightarrow> Inl (UndefinedBehaviour ''erase of an invalid iterator'')
      | Some _ \<Rightarrow> Inr (s\<lparr>s_events := queue_erase k (s_events s)\<rparr>))"

definition cancelEvent :: "int \<Rightarrow> int \<Rightarrow> nat option \<Rightarrow> 'e scheduler \<Rightarrow> 'e scheduler result" where
  "cancelEvent now now' eventId s =
     (case eventId of
        None \<Rightarrow> Inr s
      | Some k \<Rightarrow>
          if \<not> s_valid s k then Inr s
          else if s_scheduled s \<noteq> Some k then bindE (erase_event k s) (\<lambda>s. Inr (invalidate k s))
          else bindE (erase_event k (s\<lparr>s_timer := None\<rparr>)) (\<lambda>s.
                 let s = invalidate k s
                 in if \<not> s_executing s
                    then (case s_events s of
                            h # _ \<Rightarrow> Inr (s\<lparr>s_timer := Some (now' + expiresFromNow now h),
                                           s_scheduled := Some (ev_id h)\<rparr>)
                          | [] \<Rightarrow> Inr (s\<lparr>s_scheduled := None\<rparr>))
                    else Inr s))"

definition cancelAllEvents :: "'e scheduler \<Rightarrow> 'e scheduler" where
  "cancelAllEvents s = s\<lparr>s_events := [], s_timer := None\<rparr>"

section \<open>The timer handler\<close>

text \<open>
  What a callback does to its scheduler: the calls it makes, with the clock readings in them, and whether it throws at
  the end.
\<close>

datatype 'e call =
    Schedule int int int 'e
  | Cancel int int "nat option"
  | CancelAll

type_synonym 'e behaviour = "'e \<Rightarrow> 'e call list \<times> bool"

fun do_call :: "'e call \<Rightarrow> 'e scheduler \<Rightarrow> 'e scheduler result" where
  "do_call (Schedule now now' after event) s = bindE (scheduleEvent now now' after event s) (\<lambda>(_, s). Inr s)"
| "do_call (Cancel now now' eventId) s = cancelEvent now now' eventId s"
| "do_call CancelAll s = Inr (cancelAllEvents s)"

fun do_calls :: "'e call list \<Rightarrow> 'e scheduler \<Rightarrow> 'e scheduler result" where
  "do_calls [] s = Inr s"
| "do_calls (c # cs) s = bindE (do_call c s) (do_calls cs)"

datatype 'e outcome = Returned "'e scheduler" | Threw "'e scheduler" | Undefined error

text \<open>
  The loop over the expired events, which yields the events fired. It may run forever when
  callbacks keep scheduling events that are due at once.
\<close>

partial_function (option) event_loop ::
    "'e behaviour \<Rightarrow> int \<Rightarrow> 'e scheduler \<Rightarrow> ('e event_info list \<times> 'e outcome) option" where
  "event_loop beh now s =
     (case s_events s of
        [] \<Rightarrow> Some ([], Returned s)
      | head # rest \<Rightarrow>
          if ev_time head \<le> now
          then (case do_calls (fst (beh (ev_event head))) (invalidate (ev_id head) s\<lparr>s_events := rest\<rparr>) of
                  Inl err \<Rightarrow> Some ([head], Undefined err)
                | Inr s \<Rightarrow>
                    if snd (beh (ev_event head)) then Some ([head], Threw s)
                    else Option.bind (event_loop beh now s) (\<lambda>(fired, r). Some (head # fired, r)))
          else Some ([], Returned s))"

definition onEvent ::
    "'e behaviour \<Rightarrow> bool \<Rightarrow> int \<Rightarrow> int \<Rightarrow> 'e scheduler \<Rightarrow> ('e event_info list \<times> 'e outcome) option" where
  "onEvent beh error now now' s =
     (if error then Some ([], Returned s)
      else Option.bind (event_loop beh now (s\<lparr>s_executing := True\<rparr>)) (\<lambda>(fired, r).
        Some (fired,
          case r of
            Returned s \<Rightarrow>
              (case s_events s of
                 h # _ \<Rightarrow> Returned (s\<lparr>s_timer := Some (now' + (ev_time h - now)), s_scheduled := Some (ev_id h),
                                       s_executing := False\<rparr>)
               | [] \<Rightarrow> Returned (s\<lparr>s_scheduled := None, s_executing := False\<rparr>))
          | _ \<Rightarrow> r)))"

text \<open>
  \<open>ScopedEventId\<close> (\<open>src/util/scheduler-scoped-event-id.{hpp,cpp}\<close>) holds an event; assigning another one cancels the
  event held before, and so do \<open>cancel\<close> and the destructor.
\<close>

type_synonym scoped_event_id = "nat option"

definition ScopedEventId_new :: scoped_event_id where
  "ScopedEventId_new = None"

definition ScopedEventId_move :: "scoped_event_id \<Rightarrow> scoped_event_id \<times> scoped_event_id" where
  "ScopedEventId_move other = (other, None)"

definition ScopedEventId_assign ::
    "int \<Rightarrow> int \<Rightarrow> scoped_event_id \<Rightarrow> nat option \<Rightarrow> 'e scheduler \<Rightarrow> (scoped_event_id \<times> 'e scheduler) result" where
  "ScopedEventId_assign now now' held event s =
     (if held \<noteq> event then bindE (cancelEvent now now' held s) (\<lambda>s. Inr (event, s)) else Inr (held, s))"

definition ScopedEventId_cancel :: "int \<Rightarrow> int \<Rightarrow> scoped_event_id \<Rightarrow> 'e scheduler \<Rightarrow> 'e scheduler result" where
  "ScopedEventId_cancel now now' held s = cancelEvent now now' held s"

definition ScopedEventId_release :: "scoped_event_id \<Rightarrow> scoped_event_id" where
  "ScopedEventId_release held = None"

section \<open>The queue\<close>

definition queue_ok :: "'e scheduler \<Rightarrow> bool" where
  "queue_ok s \<longleftrightarrow> sorted (map ev_time (s_events s)) \<and> distinct (map ev_id (s_events s))
     \<and> (\<forall>k. s_valid s k \<longleftrightarrow> k \<in> ev_id ` set (s_events s)) \<and> (\<forall>x \<in> set (s_events s). ev_id x < s_next s)"

text \<open>The timer waits for the first event, which is also the scheduled one.\<close>

definition armed :: "'e scheduler \<Rightarrow> bool" where
  "armed s \<longleftrightarrow>
     (case s_events s of
        [] \<Rightarrow> s_scheduled s = None
      | h # _ \<Rightarrow> s_scheduled s = Some (ev_id h) \<and> (\<exists>t. s_timer s = Some t \<and> ev_time h \<le> t))"

definition sched_inv :: "'e scheduler \<Rightarrow> bool" where
  "sched_inv s \<longleftrightarrow> queue_ok s \<and> \<not> s_executing s \<and> armed s"

lemma set_queue_insert [simp]: "set (queue_insert i es) = insert i (set es)"
  by (induction es) (auto simp: queue_insert_def)

lemma sorted_queue_insert:
  "sorted (map ev_time es) \<Longrightarrow> sorted (map ev_time (queue_insert i es))"
  by (induction es) (auto simp: queue_insert_def event_less_def dest: set_takeWhileD set_dropWhileD)

lemma distinct_queue_insert:
  assumes "distinct (map ev_id es)" "ev_id i \<notin> ev_id ` set es"
  shows "distinct (map ev_id (queue_insert i es))"
proof -
  let ?P = "\<lambda>x. \<not> event_less i x"
  have "distinct (map ev_id (takeWhile ?P es @ dropWhile ?P es))" using assms(1) by simp
  then show ?thesis
    using assms(2) by (auto simp: queue_insert_def dest: set_takeWhileD set_dropWhileD simp del: takeWhile_dropWhile_id)
qed

lemma filter_queue_insert: "\<not> P i \<Longrightarrow> filter P (queue_insert i es) = filter P es"
  by (induction es) (auto simp: queue_insert_def)

lemma filter_queue_erase_le: "length (filter P (queue_erase k es)) \<le> length (filter P es)"
  by (induction es) (auto simp: queue_erase_def)

lemma queue_insert_head:
  "sorted (map ev_time (h # es)) \<Longrightarrow>
     queue_insert i (h # es) = (if event_less i h then i # h # es else h # queue_insert i es)"
  by (simp add: queue_insert_def)

lemma queue_at_Some:
  "distinct (map ev_id es) \<Longrightarrow> queue_at k es = Some x \<longleftrightarrow> x \<in> set es \<and> ev_id x = k"
  by (induction es) (auto simp: queue_at_def)

lemma queue_at_None: "queue_at k es = None \<longleftrightarrow> k \<notin> ev_id ` set es"
  by (auto simp: queue_at_def find_None_iff)

lemma queue_erase_simps [simp]:
  "set (queue_erase k es) = {x \<in> set es. ev_id x \<noteq> k}"
  "sorted (map ev_time es) \<Longrightarrow> sorted (map ev_time (queue_erase k es))"
  "distinct (map ev_id es) \<Longrightarrow> distinct (map ev_id (queue_erase k es))"
  by (simp_all add: queue_erase_def sorted_filter distinct_map_filter)

section \<open>Every operation keeps the invariant\<close>

lemma scheduleEvent_queue:
  assumes "queue_ok s" "s_executing s \<or> armed s"
  shows "\<exists>s'. scheduleEvent now now' after e s = Inr (s_next s, s') \<and> queue_ok s' \<and> s_executing s' = s_executing s
    \<and> s_events s' = queue_insert \<lparr>ev_time = now + after, ev_event = e, ev_id = s_next s\<rparr> (s_events s)
    \<and> (\<not> s_executing s \<and> now \<le> now' \<longrightarrow> armed s')"
proof -
  define i where "i = \<lparr>ev_time = now + after, ev_event = e, ev_id = s_next s\<rparr>"
  define s1 where "s1 = s\<lparr>s_events := queue_insert i (s_events s), s_valid := (s_valid s)(s_next s := True), s_next := Suc (s_next s)\<rparr>"
  have new: "s_next s \<notin> ev_id ` set (s_events s)" using assms(1) by (auto simp: queue_ok_def)
  then have ok: "queue_ok s1" "queue_ok (s1\<lparr>s_timer := t, s_scheduled := k\<rparr>)" for t k
    using assms(1) distinct_queue_insert [of "s_events s" i]
    by (auto simp: queue_ok_def s1_def i_def sorted_queue_insert less_Suc_eq)
  let ?arm = "s1\<lparr>s_timer := Some (now' + after), s_scheduled := Some (s_next s)\<rparr>"
  have eq: "scheduleEvent now now' after e s =
      (if \<not> s_executing s
       then (case s_scheduled s of
               None \<Rightarrow> Inr (s_next s, ?arm)
             | Some it \<Rightarrow> (case queue_at it (s_events s1) of
                 None \<Rightarrow> Inl (UndefinedBehaviour ''dereference of an invalid iterator'')
               | Some x \<Rightarrow> if event_less i x then Inr (s_next s, ?arm) else Inr (s_next s, s1)))
       else Inr (s_next s, s1))"
    by (simp add: scheduleEvent_def Let_def s1_def i_def split: option.split)
  have ev: "s_events s1 = queue_insert i (s_events s)" "s_events ?arm = queue_insert i (s_events s)"
    "s_executing s1 = s_executing s" "s_executing ?arm = s_executing s" "s_scheduled s1 = s_scheduled s"
    "s_timer s1 = s_timer s" "ev_id i = s_next s" "ev_time i = now + after" by (simp_all add: s1_def i_def)
  show ?thesis unfolding i_def [symmetric]
  proof (cases "s_executing s")
    case True
    then show "\<exists>s'. scheduleEvent now now' after e s = Inr (s_next s, s') \<and> queue_ok s' \<and> s_executing s' = s_executing s
      \<and> s_events s' = queue_insert i (s_events s) \<and> (\<not> s_executing s \<and> now \<le> now' \<longrightarrow> armed s')"
      using ok(1) ev by (simp add: eq)
  next
    case False
    then have arm: "armed s" using assms(2) by simp
    show "\<exists>s'. scheduleEvent now now' after e s = Inr (s_next s, s') \<and> queue_ok s' \<and> s_executing s' = s_executing s
      \<and> s_events s' = queue_insert i (s_events s) \<and> (\<not> s_executing s \<and> now \<le> now' \<longrightarrow> armed s')"
    proof (cases "s_events s")
      case Nil
      then show ?thesis
        using arm False ok(2) ev by (simp add: eq armed_def queue_insert_def)
    next
      case (Cons h es)
      have srt: "sorted (map ev_time (h # es))" using assms(1) Cons by (simp add: queue_ok_def)
      have "queue_at (ev_id h) (s_events s1) = Some h"
        using ok(1) Cons by (subst queue_at_Some) (auto simp: queue_ok_def ev)
      then show ?thesis
        using arm False ok Cons queue_insert_head [OF srt, of i] ev by (simp add: eq armed_def)
    qed
  qed
qed

lemma cancelEvent_queue:
  assumes "queue_ok s" "s_executing s \<or> armed s"
  shows "\<exists>s'. cancelEvent now now' eventId s = Inr s' \<and> queue_ok s' \<and> s_executing s' = s_executing s
    \<and> s_events s' = (case eventId of None \<Rightarrow> s_events s | Some k \<Rightarrow> queue_erase k (s_events s))
    \<and> (\<not> s_executing s \<and> now \<le> now' \<longrightarrow> armed s')"
proof (cases "\<exists>k. eventId = Some k \<and> s_valid s k")
  case False
  have "queue_erase k (s_events s) = s_events s" if "\<not> s_valid s k" for k
    using that assms(1) by (auto simp: queue_erase_def filter_id_conv queue_ok_def)
  with False assms show ?thesis by (auto simp: cancelEvent_def split: option.split)
next
  case True
  then obtain k where k: "eventId = Some k" "s_valid s k" by blast
  then have mem: "k \<in> ev_id ` set (s_events s)" using assms(1) by (simp add: queue_ok_def)
  define s1 where "s1 = invalidate k (s\<lparr>s_events := queue_erase k (s_events s)\<rparr>)"
  have ok: "queue_ok s1" "queue_ok (s1\<lparr>s_timer := t\<rparr>)" "queue_ok (s1\<lparr>s_timer := t, s_scheduled := j\<rparr>)" for t j
    using assms(1) by (auto simp: queue_ok_def s1_def invalidate_def)
  have ev: "s_events s1 = queue_erase k (s_events s)" "s_executing s1 = s_executing s"
    "s_scheduled s1 = s_scheduled s" "s_timer s1 = s_timer s" by (simp_all add: s1_def invalidate_def)
  obtain x where at: "queue_at k (s_events s) = Some x"
    using mem queue_at_None [of k "s_events s"] by (cases "queue_at k (s_events s)") auto
  have er: "erase_event k s = Inr (s\<lparr>s_events := queue_erase k (s_events s)\<rparr>)"
    "erase_event k (s\<lparr>s_timer := None\<rparr>) = Inr (s\<lparr>s_timer := None, s_events := queue_erase k (s_events s)\<rparr>)"
    using at by (simp_all add: erase_event_def)
  have inv: "invalidate k (s\<lparr>s_timer := None, s_events := queue_erase k (s_events s)\<rparr>) = s1\<lparr>s_timer := None\<rparr>"
    by (simp add: s1_def invalidate_def)
  show ?thesis
  proof (cases "s_scheduled s = Some k")
    case False
    have "armed s1" if "armed s"
      using that False mem
      by (cases "s_events s") (auto simp: armed_def ev queue_erase_def)
    then show ?thesis using False k assms(2) ok(1) ev er(1) by (auto simp: cancelEvent_def s1_def [symmetric])
  next
    case True
    have "cancelEvent now now' eventId s = (let s = s1\<lparr>s_timer := None\<rparr> in
        if \<not> s_executing s
        then (case s_events s of
                h # _ \<Rightarrow> Inr (s\<lparr>s_timer := Some (now' + expiresFromNow now h), s_scheduled := Some (ev_id h)\<rparr>)
              | [] \<Rightarrow> Inr (s\<lparr>s_scheduled := None\<rparr>))
        else Inr s)"
      using True k er(2) inv by (simp add: cancelEvent_def)
    then show ?thesis
      using k ok ev
      by (cases "queue_erase k (s_events s)") (auto simp: armed_def expiresFromNow_def Let_def)
  qed
qed

section \<open>The loop over the expired events\<close>

text \<open>
  Well-behaved callbacks do not throw, do not call \<open>cancelAllEvents\<close> (see below), and schedule only events that are due after the
  time at which the handler started.
\<close>

fun later_call :: "int \<Rightarrow> 'e call \<Rightarrow> bool" where
  "later_call now (Schedule n n' after e) \<longleftrightarrow> now < n + after"
| "later_call now (Cancel n n' k) \<longleftrightarrow> True"
| "later_call now CancelAll \<longleftrightarrow> False"

fun is_schedule :: "'e call \<Rightarrow> bool" where
  "is_schedule (Schedule n n' after e) \<longleftrightarrow> True"
| "is_schedule _ \<longleftrightarrow> False"

definition well_behaved :: "int \<Rightarrow> 'e behaviour \<Rightarrow> bool" where
  "well_behaved now beh \<longleftrightarrow> (\<forall>e. list_all (later_call now) (fst (beh e)) \<and> \<not> snd (beh e))"

abbreviation due :: "int \<Rightarrow> 'e event_info \<Rightarrow> bool" where
  "due now x \<equiv> ev_time x \<le> now"

text \<open>Calls during the loop do not make anything due.\<close>

lemma do_calls_queue:
  assumes "queue_ok s" "s_executing s" "list_all (later_call now) cs"
  shows "\<exists>s'. do_calls cs s = Inr s' \<and> queue_ok s' \<and> s_executing s'
    \<and> {x \<in> set (s_events s'). due now x} \<subseteq> {x \<in> set (s_events s). due now x}
    \<and> length (filter (due now) (s_events s')) \<le> length (filter (due now) (s_events s))
    \<and> (list_all is_schedule cs \<longrightarrow> filter (due now) (s_events s') = filter (due now) (s_events s))"
  using assms
proof (induction cs arbitrary: s)
  case (Cons c cs)
  have "\<exists>s'. do_call c s = Inr s' \<and> queue_ok s' \<and> s_executing s'
      \<and> {x \<in> set (s_events s'). due now x} \<subseteq> {x \<in> set (s_events s). due now x}
      \<and> length (filter (due now) (s_events s')) \<le> length (filter (due now) (s_events s))
      \<and> (is_schedule c \<longrightarrow> filter (due now) (s_events s') = filter (due now) (s_events s))"
  proof (cases c)
    case (Schedule n n' a e)
    let ?i = "\<lparr>ev_time = n + a, ev_event = e, ev_id = s_next s\<rparr>"
    have "filter (due now) (queue_insert ?i (s_events s)) = filter (due now) (s_events s)"
      using Cons.prems(3) Schedule by (intro filter_queue_insert) simp
    then show ?thesis
      using scheduleEvent_queue [OF Cons.prems(1), of n n' a e] Cons.prems Schedule by auto
  next
    case (Cancel n n' k)
    then show ?thesis
      using cancelEvent_queue [OF Cons.prems(1), of n n' k] Cons.prems(2) filter_queue_erase_le [of "due now"]
      by (auto split: option.splits)
  qed (use Cons.prems in simp)
  then obtain s1 where s1: "do_call c s = Inr s1" "queue_ok s1" "s_executing s1"
    "{x \<in> set (s_events s1). due now x} \<subseteq> {x \<in> set (s_events s). due now x}"
    "length (filter (due now) (s_events s1)) \<le> length (filter (due now) (s_events s))"
    "is_schedule c \<longrightarrow> filter (due now) (s_events s1) = filter (due now) (s_events s)" by blast
  have "list_all (later_call now) cs" using Cons.prems(3) by simp
  from Cons.IH [OF s1(2,3) this] obtain s2 where "do_calls cs s1 = Inr s2" "queue_ok s2" "s_executing s2"
    "{x \<in> set (s_events s2). due now x} \<subseteq> {x \<in> set (s_events s1). due now x}"
    "length (filter (due now) (s_events s2)) \<le> length (filter (due now) (s_events s1))"
    "list_all is_schedule cs \<longrightarrow> filter (due now) (s_events s2) = filter (due now) (s_events s1)"
    by blast
  with s1 show ?case by (intro exI [of _ s2]) auto
qed simp

lemma queue_ok_pop:
  assumes "queue_ok s" "s_events s = h # rest"
  shows "queue_ok (invalidate (ev_id h) s\<lparr>s_events := rest\<rparr>)"
  using assms by (auto simp: queue_ok_def invalidate_def)

definition fires :: "'e behaviour \<Rightarrow> int \<Rightarrow> 'e scheduler \<Rightarrow> 'e event_info list \<Rightarrow> 'e scheduler \<Rightarrow> bool" where
  "fires beh now s fired s' \<longleftrightarrow>
     queue_ok s' \<and> (\<forall>x \<in> set (s_events s'). \<not> due now x)
     \<and> sorted (map ev_time fired) \<and> distinct (map ev_id fired) \<and> set fired \<subseteq> {x \<in> set (s_events s). due now x}
     \<and> ((\<forall>e. list_all is_schedule (fst (beh e))) \<longrightarrow> fired = filter (due now) (s_events s))"

lemma event_loop_spec:
  assumes "queue_ok s" "s_executing s" "well_behaved now beh"
  shows "\<exists>fired s'. event_loop beh now s = Some (fired, Returned s') \<and> s_executing s' \<and> fires beh now s fired s'"
  using assms(1,2)
proof (induction "length (filter (due now) (s_events s))" arbitrary: s rule: less_induct)
  case less
  show ?case
  proof (cases "s_events s")
    case Nil
    then show ?thesis using less.prems by (subst event_loop.simps) (simp add: fires_def)
  next
    case (Cons h rest)
    show ?thesis
    proof (cases "due now h")
      case False
      then have "\<forall>x \<in> set (s_events s). \<not> due now x"
        using less.prems(1) Cons by (fastforce simp: queue_ok_def)
      with False show ?thesis
        using less.prems Cons by (subst event_loop.simps) (auto simp: fires_def)
    next
      case True
      let ?s = "invalidate (ev_id h) s\<lparr>s_events := rest\<rparr>"
      have calls: "list_all (later_call now) (fst (beh (ev_event h)))" "\<not> snd (beh (ev_event h))"
        using assms(3) by (simp_all add: well_behaved_def)
      have ex: "s_executing ?s" using less.prems(2) by (simp add: invalidate_def)
      obtain s1 where s1: "do_calls (fst (beh (ev_event h))) ?s = Inr s1" "queue_ok s1" "s_executing s1"
        "{x \<in> set (s_events s1). due now x} \<subseteq> {x \<in> set rest. due now x}"
        "length (filter (due now) (s_events s1)) \<le> length (filter (due now) rest)"
        "list_all is_schedule (fst (beh (ev_event h))) \<longrightarrow> filter (due now) (s_events s1) = filter (due now) rest"
        using do_calls_queue [OF queue_ok_pop [OF less.prems(1) Cons] ex calls(1)] by auto
      have "length (filter (due now) (s_events s1)) < length (filter (due now) (s_events s))"
        using s1(5) True Cons by simp
      from less.hyps [OF this s1(2,3)] obtain fired s' where
        *: "event_loop beh now s1 = Some (fired, Returned s')" "s_executing s'" "fires beh now s1 fired s'" by blast
      have "event_loop beh now s = Some (h # fired, Returned s')"
        using Cons True s1(1) calls(2) *(1) by (subst event_loop.simps) simp
      moreover have "set fired \<subseteq> {x \<in> set rest. due now x}" using *(3) s1(4) by (auto simp: fires_def)
      then have "fires beh now s (h # fired) s'"
        using *(3) s1(6) less.prems(1) Cons True by (auto simp: fires_def queue_ok_def)
      ultimately show ?thesis using *(2) by blast
    qed
  qed
qed

lemma onEvent_spec:
  assumes "queue_ok s" "well_behaved now beh" "now \<le> now'"
  shows "\<exists>fired s'. onEvent beh False now now' s = Some (fired, Returned s') \<and> sched_inv s' \<and> fires beh now s fired s'"
proof -
  have "queue_ok (s\<lparr>s_executing := True\<rparr>)" using assms(1) by (simp add: queue_ok_def)
  then obtain fired s1 where *: "event_loop beh now (s\<lparr>s_executing := True\<rparr>) = Some (fired, Returned s1)"
    "s_executing s1" "fires beh now (s\<lparr>s_executing := True\<rparr>) fired s1"
    using event_loop_spec [OF _ _ assms(2)] by fastforce
  have q: "queue_ok (s1\<lparr>s_timer := t, s_scheduled := k, s_executing := False\<rparr>)"
    "queue_ok (s1\<lparr>s_scheduled := k, s_executing := False\<rparr>)" for t k
    using *(3) by (simp_all add: fires_def queue_ok_def)
  show ?thesis
    using *(1,3) q assms(3)
    by (cases "s_events s1") (auto simp: onEvent_def sched_inv_def armed_def fires_def)
qed

section \<open>Reachable states\<close>

text \<open>
  C10. The steps outside callbacks: scheduling, cancelling, and the expiry of the timer, whose handler runs at some time not
  before the expiry. The clock does not go backwards within a step.
\<close>

inductive sched_step :: "'e scheduler \<Rightarrow> 'e scheduler \<Rightarrow> bool" where
  step_schedule: "now \<le> now' \<Longrightarrow> scheduleEvent now now' after e s = Inr (k, s') \<Longrightarrow> sched_step s s'"
| step_cancel: "now \<le> now' \<Longrightarrow> cancelEvent now now' eventId s = Inr s' \<Longrightarrow> sched_step s s'"
| step_expire: "s_timer s = Some t \<Longrightarrow> t \<le> now \<Longrightarrow> now \<le> now' \<Longrightarrow> well_behaved now beh
    \<Longrightarrow> onEvent beh False now now' (s\<lparr>s_timer := None\<rparr>) = Some (fired, Returned s') \<Longrightarrow> sched_step s s'"
| step_aborted: "onEvent beh True now now' s = Some (fired, Returned s') \<Longrightarrow> sched_step s s'"

inductive_cases sched_stepE: "sched_step s s'"

lemma sched_step_inv:
  assumes "sched_step s s'" "sched_inv s"
  shows "sched_inv s'"
  using assms(1)
proof cases
  case (step_schedule now now' after e k)
  then show ?thesis
    using scheduleEvent_queue [of s now now' after e] assms(2) by (auto simp: sched_inv_def)
next
  case (step_cancel now now' eventId)
  then show ?thesis
    using cancelEvent_queue [of s now now' eventId] assms(2) by (auto simp: sched_inv_def)
next
  case (step_expire t now now' beh fired)
  then show ?thesis
    using onEvent_spec [of "s\<lparr>s_timer := None\<rparr>" now beh now'] assms(2) by (auto simp: sched_inv_def queue_ok_def)
next
  case (step_aborted beh now now' fired)
  then show ?thesis using assms(2) by (simp add: onEvent_def)
qed

lemma sched_reachable_inv: "sched_step\<^sup>*\<^sup>* Scheduler_new s \<Longrightarrow> sched_inv s"
proof (induction rule: rtranclp_induct)
  case base
  show ?case by (simp add: sched_inv_def queue_ok_def armed_def Scheduler_new_def)
qed (rule sched_step_inv)

text \<open>
  C34. No wake-up is lost: in every state that scheduling, cancelling and timer expiries with well-behaved callbacks can reach, if
  any event is queued then the timer is waiting, its expiry is not before the time of the first event, and when it expires at any
  later time \<open>now\<close> the handler returns, after firing every event that was due, in the order of their times, each
  once, and leaves no due event in the queue. With callbacks that cancel nothing, all the due events fire.
\<close>
theorem scheduler_fires_due_events:
  assumes "sched_step\<^sup>*\<^sup>* Scheduler_new s" "s_events s = h # rest"
  shows "\<exists>t. s_timer s = Some t \<and> ev_time h \<le> t
     \<and> (\<forall>now now' beh. t \<le> now \<longrightarrow> now \<le> now' \<longrightarrow> well_behaved now beh \<longrightarrow>
          (\<exists>fired s'. onEvent beh False now now' (s\<lparr>s_timer := None\<rparr>) = Some (fired, Returned s')
             \<and> sched_step s s'
             \<and> (\<forall>x \<in> set (s_events s'). now < ev_time x)
             \<and> sorted (map ev_time fired) \<and> distinct (map ev_id fired)
             \<and> (\<forall>x \<in> set fired. x \<in> set (s_events s) \<and> ev_time x \<le> now)
             \<and> ((\<forall>e. list_all is_schedule (fst (beh e))) \<longrightarrow> fired = filter (\<lambda>x. ev_time x \<le> now) (s_events s))))"
proof -
  have inv: "sched_inv s" using sched_reachable_inv [OF assms(1)] .
  then obtain t where t: "s_timer s = Some t" "ev_time h \<le> t" using assms(2) by (auto simp: sched_inv_def armed_def)
  have q: "queue_ok (s\<lparr>s_timer := None\<rparr>)" using inv by (simp add: sched_inv_def queue_ok_def)
  show ?thesis
  proof (intro exI [of _ t] conjI allI impI)
    fix now now' and beh :: "'a behaviour"
    assume "t \<le> now" "now \<le> now'" "well_behaved now beh"
    with onEvent_spec [OF q this(3,2)] t(1) sched_step.step_expire [of s t now now' beh]
    show "\<exists>fired s'. onEvent beh False now now' (s\<lparr>s_timer := None\<rparr>) = Some (fired, Returned s')
             \<and> sched_step s s'
             \<and> (\<forall>x \<in> set (s_events s'). now < ev_time x)
             \<and> sorted (map ev_time fired) \<and> distinct (map ev_id fired)
             \<and> (\<forall>x \<in> set fired. x \<in> set (s_events s) \<and> ev_time x \<le> now)
             \<and> ((\<forall>e. list_all is_schedule (fst (beh e))) \<longrightarrow> fired = filter (\<lambda>x. ev_time x \<le> now) (s_events s))"
      by (fastforce simp: fires_def not_le)
  qed (use t in auto)
qed

definition one_event :: "nat scheduler" where
  "one_event = \<lparr>s_events = [\<lparr>ev_time = 10, ev_event = 7, ev_id = 0\<rparr>], s_scheduled = Some 0, s_timer = Some 12,
     s_executing = False, s_valid = (\<lambda>_. False)(0 := True), s_next = 1\<rparr>"

lemma one_event_reachable: "sched_step\<^sup>*\<^sup>* Scheduler_new one_event"
proof -
  have "scheduleEvent 0 2 10 7 Scheduler_new = Inr (0, one_event)"
    by (simp add: scheduleEvent_def Scheduler_new_def Let_def queue_insert_def one_event_def)
  then have "sched_step Scheduler_new one_event" by (intro sched_step.step_schedule [of 0 2]) auto
  then show ?thesis by blast
qed

theorem scheduler_fires_due_events_witness:
  "\<exists>s'. onEvent (\<lambda>_. ([], False)) False 12 13 (one_event\<lparr>s_timer := None\<rparr>)
     = Some ([\<lparr>ev_time = 10, ev_event = 7, ev_id = 0\<rparr>], Returned s')"
proof -
  have "s_events one_event = [\<lparr>ev_time = 10, ev_event = 7, ev_id = 0\<rparr>]" by (simp add: one_event_def)
  from scheduler_fires_due_events [OF one_event_reachable this] obtain t where "s_timer one_event = Some t"
    "\<And>now now' beh. t \<le> now \<Longrightarrow> now \<le> now' \<Longrightarrow> well_behaved now beh \<Longrightarrow>
       \<exists>fired s'. onEvent beh False now now' (one_event\<lparr>s_timer := None\<rparr>) = Some (fired, Returned s')
         \<and> ((\<forall>e. list_all is_schedule (fst (beh e))) \<longrightarrow> fired = filter (\<lambda>x. ev_time x \<le> now) (s_events one_event))"
    by fast
  from this(2) [of 12 13 "\<lambda>_. ([], False)"] this(1) show ?thesis
    by (auto simp: one_event_def well_behaved_def)
qed

text \<open>
  Cancelling removes exactly the event: in a reachable state \<open>cancelEvent\<close> returns, the queue afterwards is the old one without that
  event, cancelling again (or cancelling an event that has fired) changes nothing, and the state is reachable
  again, so that the remaining events still fire.
\<close>
theorem cancelEvent_removes:
  assumes "sched_step\<^sup>*\<^sup>* Scheduler_new s" "now \<le> now'"
  shows "\<exists>s'. cancelEvent now now' (Some k) s = Inr s' \<and> sched_step s s'
     \<and> s_events s' = filter (\<lambda>x. ev_id x \<noteq> k) (s_events s)
     \<and> cancelEvent now now' (Some k) s' = Inr s'
     \<and> (\<not> s_valid s k \<longrightarrow> s' = s)"
proof -
  have inv: "sched_inv s" using sched_reachable_inv [OF assms(1)] .
  obtain s' where s': "cancelEvent now now' (Some k) s = Inr s'" "queue_ok s'"
    "s_events s' = queue_erase k (s_events s)"
    using cancelEvent_queue [of s now now' "Some k"] inv by (auto simp: sched_inv_def)
  have "\<not> s_valid s' k" using s'(2,3) by (auto simp: queue_ok_def)
  then have "cancelEvent now now' (Some k) s' = Inr s'" by (simp add: cancelEvent_def)
  moreover have "s' = s" if "\<not> s_valid s k" using that s'(1) by (simp add: cancelEvent_def)
  ultimately show ?thesis
    using s' sched_step.step_cancel [OF assms(2) s'(1)] by (auto simp: queue_erase_def)
qed

theorem cancelEvent_removes_witness:
  "\<exists>s'. cancelEvent 3 4 (Some 0) one_event = Inr s' \<and> s_events s' = []"
  using cancelEvent_removes [OF one_event_reachable, of 3 4 0] by (auto simp: one_event_def)

text \<open>
  \<open>cancelAllEvents\<close> empties the queue but neither resets \<open>m_scheduledEvent\<close> nor invalidates the event identifiers: called on a non-empty
  queue outside a callback, it leaves a dangling iterator that the next \<open>scheduleEvent\<close> dereferences, and a later
  \<open>cancelEvent\<close> of one of the old events erases through an invalid iterator.
\<close>
theorem cancelAllEvents_leaves_dangling:
  assumes "sched_step\<^sup>*\<^sup>* Scheduler_new s" "s_events s = h # rest" "x \<in> set (s_events s)"
  shows "scheduleEvent now now' after e (cancelAllEvents s)
       = Inl (UndefinedBehaviour ''dereference of an invalid iterator'')
     \<and> cancelEvent now now' (Some (ev_id x)) (cancelAllEvents s)
       = Inl (UndefinedBehaviour ''erase of an invalid iterator'')"
proof -
  have "sched_inv s" using sched_reachable_inv [OF assms(1)] .
  then have "s_scheduled s = Some (ev_id h)" "\<not> s_executing s" "ev_id h < s_next s" "s_valid s (ev_id x)"
    using assms(2,3) by (auto simp: sched_inv_def armed_def queue_ok_def)
  then show ?thesis
    by (auto simp: scheduleEvent_def cancelAllEvents_def Let_def queue_insert_def queue_at_def cancelEvent_def
        erase_event_def)
qed

theorem cancelAllEvents_leaves_dangling_witness:
  "scheduleEvent 1 1 5 8 (cancelAllEvents one_event) = Inl (UndefinedBehaviour ''dereference of an invalid iterator'')"
  using cancelAllEvents_leaves_dangling [OF one_event_reachable] by (simp add: one_event_def)

lemma do_calls_executing:
  assumes "s_executing s" "s_timer s = None" "do_calls cs s = Inr s'"
  shows "s_executing s' \<and> s_timer s' = None"
  using assms
proof (induction cs arbitrary: s)
  case (Cons c cs)
  from Cons.prems(3) obtain s1 where s1: "do_call c s = Inr s1" "do_calls cs s1 = Inr s'"
    by (auto simp: bindE_eq_Inr_iff)
  have "s_executing s1 \<and> s_timer s1 = None"
    using s1(1) Cons.prems(1,2)
    by (cases c)
      (auto simp: scheduleEvent_def Let_def cancelEvent_def cancelAllEvents_def invalidate_def erase_event_def
        bindE_eq_Inr_iff split: option.splits if_splits)
  then show ?case using Cons.IH s1(2) by blast
qed simp

text \<open>
  An exception that escapes from a callback stops the scheduler for good: the handler ends with \<open>m_isEventExecuting\<close> still set and no timer
  waiting, and no sequence of later calls ever starts the timer again, so that nothing scheduled afterwards fires.
\<close>
theorem throwing_event_stops_scheduler:
  assumes "s_events s = h # rest" "ev_time h \<le> now" "beh (ev_event h) = ([], True)"
  shows "\<exists>s'. onEvent beh False now now' (s\<lparr>s_timer := None\<rparr>) = Some ([h], Threw s') \<and> s_events s' = rest
     \<and> (\<forall>cs s''. do_calls cs s' = Inr s'' \<longrightarrow> s_executing s'' \<and> s_timer s'' = None)"
proof -
  let ?s = "invalidate (ev_id h) (s\<lparr>s_timer := None, s_executing := True\<rparr>)\<lparr>s_events := rest\<rparr>"
  have "event_loop beh now (s\<lparr>s_timer := None, s_executing := True\<rparr>) = Some ([h], Threw ?s)"
    using assms by (subst event_loop.simps) simp
  then have "onEvent beh False now now' (s\<lparr>s_timer := None\<rparr>) = Some ([h], Threw ?s)" by (simp add: onEvent_def)
  moreover have "s_executing ?s" "s_timer ?s = None" "s_events ?s = rest" by (simp_all add: invalidate_def)
  ultimately show ?thesis using do_calls_executing [of ?s] by blast
qed

theorem throwing_event_stops_scheduler_witness:
  "\<exists>s'. onEvent (\<lambda>_. ([], True)) False 12 13 (one_event\<lparr>s_timer := None\<rparr>)
       = Some ([\<lparr>ev_time = 10, ev_event = 7, ev_id = 0\<rparr>], Threw s')
     \<and> (\<forall>cs s''. do_calls cs s' = Inr s'' \<longrightarrow> s_executing s'' \<and> s_timer s'' = None)"
  using throwing_event_stops_scheduler [of one_event "\<lparr>ev_time = 10, ev_event = 7, ev_id = 0\<rparr>" "[]" 12
      "\<lambda>_. ([], True)" 13]
  by (auto simp: one_event_def)

end
