(* ===== verification/Signals.thy ===== *)
theory Signals
  imports Prelude
begin

text \<open>
  Signals, after \<open>src/util/signal-signal.hpp\<close>, \<open>src/util/signal-connection.{hpp,cpp}\<close> and \<open>src/util/signal-scoped-connection.{hpp,cpp}\<close>.

  A slot is a node of a \<open>std::list\<close>; it is named by a number that is never reused, and an iterator is such a number or \<open>None\<close> for
  \<open>end()\<close>. The only shared pointer to the disconnect function of a slot is in the slot itself: \<open>slot_live\<close> says that it is not null, and a
  \<open>Connection\<close>, a weak pointer, is the number of the slot, expired when no live slot of the signal has it. What a handler does with its signal is
  given by a \<open>behaviour\<close>: from the handler, the connection it was given and the arguments of the signal, the calls it makes and whether it throws after them.
\<close>

section \<open>Slots and signals\<close>

record 'h slot =
  slot_id :: nat
  slot_handler :: 'h
  slot_single :: bool
  slot_live :: bool

record 'h signal =
  sg_slots :: "'h slot list"
  sg_isExecuting :: bool
  sg_currentSlot :: "nat option"
  sg_next :: nat

type_synonym connection = "nat option"

definition Signal_new :: "'h signal" where
  "Signal_new = \<lparr>sg_slots = [], sg_isExecuting = False, sg_currentSlot = None, sg_next = 0\<rparr>"

definition Signal_destroy :: "'h signal \<Rightarrow> 'h signal result" where
  "Signal_destroy s = (if \<not> sg_isExecuting s then Inr (s\<lparr>sg_slots := []\<rparr>) else Inl (AssertionFailure ''!m_isExecuting''))"

definition slot_at :: "nat \<Rightarrow> 'h slot list \<Rightarrow> 'h slot option" where
  "slot_at k sls = find (\<lambda>x. slot_id x = k) sls"

definition insert_slot :: "'h \<Rightarrow> bool \<Rightarrow> 'h signal \<Rightarrow> connection \<times> 'h signal" where
  "insert_slot h single s =
     (Some (sg_next s),
      s\<lparr>sg_slots := sg_slots s @ [\<lparr>slot_id = sg_next s, slot_handler = h, slot_single = single, slot_live = True\<rparr>], sg_next := Suc (sg_next s)\<rparr>)"

definition Signal_connect :: "'h \<Rightarrow> 'h signal \<Rightarrow> connection \<times> 'h signal" where
  "Signal_connect h s = insert_slot h False s"

definition connectSingleShot :: "'h \<Rightarrow> 'h signal \<Rightarrow> connection \<times> 'h signal" where
  "connectSingleShot h s = insert_slot h True s"

definition erase_slot :: "nat \<Rightarrow> 'h slot list \<Rightarrow> 'h slot list" where
  "erase_slot k sls = filter (\<lambda>x. slot_id x \<noteq> k) sls"

definition expire_slot :: "nat \<Rightarrow> 'h slot list \<Rightarrow> 'h slot list" where
  "expire_slot k sls = map (\<lambda>x. if slot_id x = k then x\<lparr>slot_live := False\<rparr> else x) sls"

definition Signal_disconnect :: "nat \<Rightarrow> 'h signal \<Rightarrow> 'h signal result" where
  "Signal_disconnect it s =
     (if sg_isExecuting s
      then if sg_currentSlot s = Some it
           then Inr (s\<lparr>sg_currentSlot := None, sg_slots := expire_slot it (sg_slots s)\<rparr>)
           else Inl (AssertionFailure ''cannot disconnect another handler from a handler'')
      else Inr (s\<lparr>sg_slots := erase_slot it (sg_slots s)\<rparr>))"

definition Signal_isEmpty :: "'h signal \<Rightarrow> bool" where
  "Signal_isEmpty s \<longleftrightarrow> \<not> sg_isExecuting s \<and> sg_slots s = []"

section \<open>Connections\<close>

definition Connection_default :: connection where
  "Connection_default = None"

text \<open>\<open>m_disconnect.lock()\<close>: the slot whose disconnect function is still there.\<close>

definition Connection_lock :: "connection \<Rightarrow> 'h signal \<Rightarrow> nat option" where
  "Connection_lock c s =
     (case c of
        None \<Rightarrow> None
      | Some k \<Rightarrow> (case slot_at k (sg_slots s) of None \<Rightarrow> None | Some x \<Rightarrow> if slot_live x then Some k else None))"

definition Connection_disconnect :: "connection \<Rightarrow> 'h signal \<Rightarrow> 'h signal result" where
  "Connection_disconnect c s = (case Connection_lock c s of None \<Rightarrow> Inr s | Some it \<Rightarrow> Signal_disconnect it s)"

definition Connection_isConnected :: "connection \<Rightarrow> 'h signal \<Rightarrow> bool" where
  "Connection_isConnected c s \<longleftrightarrow> Connection_lock c s \<noteq> None"

definition Connection_equal :: "connection \<Rightarrow> connection \<Rightarrow> 'h signal \<Rightarrow> bool" where
  "Connection_equal c other s \<longleftrightarrow> Connection_lock c s = Connection_lock other s"

type_synonym scoped_connection = connection

definition ScopedConnection_move :: "scoped_connection \<Rightarrow> scoped_connection \<times> scoped_connection" where
  "ScopedConnection_move other = (other, Connection_default)"

definition ScopedConnection_assign :: "scoped_connection \<Rightarrow> connection \<Rightarrow> 'h signal \<Rightarrow> (scoped_connection \<times> 'h signal) result" where
  "ScopedConnection_assign held c s =
     (if \<not> Connection_equal held c s then bindE (Connection_disconnect held s) (\<lambda>s. Inr (c, s)) else Inr (held, s))"

definition ScopedConnection_disconnect :: "scoped_connection \<Rightarrow> 'h signal \<Rightarrow> 'h signal result" where
  "ScopedConnection_disconnect held s = Connection_disconnect held s"

definition ScopedConnection_isConnected :: "scoped_connection \<Rightarrow> 'h signal \<Rightarrow> bool" where
  "ScopedConnection_isConnected held s = Connection_isConnected held s"

definition ScopedConnection_release :: "scoped_connection \<Rightarrow> scoped_connection" where
  "ScopedConnection_release held = Connection_default"

section \<open>Emission\<close>

datatype 'h signal_call =
    Connect 'h
  | ConnectSingleShot 'h
  | Disconnect connection
  | Emit

type_synonym ('h, 'a) handler_behaviour = "'h \<Rightarrow> connection \<Rightarrow> 'a \<Rightarrow> 'h signal_call list \<times> bool"

text \<open>The assertion at the start of \<open>operator()\<close> fails for an emission from a handler.\<close>

fun do_signal_call :: "'h signal_call \<Rightarrow> 'h signal \<Rightarrow> 'h signal result" where
  "do_signal_call (Connect h) s = Inr (snd (Signal_connect h s))"
| "do_signal_call (ConnectSingleShot h) s = Inr (snd (connectSingleShot h s))"
| "do_signal_call (Disconnect c) s = Connection_disconnect c s"
| "do_signal_call Emit s = Inl (AssertionFailure ''cannot emit signal from a handler'')"

fun do_signal_calls :: "'h signal_call list \<Rightarrow> 'h signal \<Rightarrow> 'h signal result" where
  "do_signal_calls [] s = Inr s"
| "do_signal_calls (c # cs) s = bindE (do_signal_call c s) (do_signal_calls cs)"

datatype 'h emission = Finished "'h signal" | Propagated "'h signal" | Failed error

text \<open>The handler of a slot: a single-shot one disconnects itself after the user's handler has returned.\<close>

definition run_slot :: "('h, 'a) handler_behaviour \<Rightarrow> 'a \<Rightarrow> 'h slot \<Rightarrow> 'h signal \<Rightarrow> 'h emission" where
  "run_slot beh args x s =
     (case do_signal_calls (fst (beh (slot_handler x) (Some (slot_id x)) args)) s of
        Inl err \<Rightarrow> Failed err
      | Inr s \<Rightarrow>
          if snd (beh (slot_handler x) (Some (slot_id x)) args) then Propagated s
          else if slot_single x
          then (case Connection_disconnect (Some (slot_id x)) s of Inl err \<Rightarrow> Failed err | Inr s \<Rightarrow> Finished s)
          else Finished s)"

definition next_slot :: "nat \<Rightarrow> 'h slot list \<Rightarrow> nat option" where
  "next_slot k sls =
     (case dropWhile (\<lambda>x. slot_id x \<noteq> k) sls of _ # y # _ \<Rightarrow> Some (slot_id y) | _ \<Rightarrow> None)"

partial_function (option) emit_loop ::
    "('h, 'a) handler_behaviour \<Rightarrow> 'a \<Rightarrow> nat option \<Rightarrow> nat \<Rightarrow> 'h signal \<Rightarrow> (nat list \<times> 'h emission) option" where
  "emit_loop beh args it lst s =
     (case it of
        None \<Rightarrow> Some ([], Failed (UndefinedBehaviour ''dereference of end()''))
      | Some k \<Rightarrow>
          (case slot_at k (sg_slots s) of
             None \<Rightarrow> Some ([], Failed (UndefinedBehaviour ''dereference of an invalid iterator''))
           | Some x \<Rightarrow>
               (case run_slot beh args x (s\<lparr>sg_currentSlot := Some k\<rparr>) of
                  Failed err \<Rightarrow> Some ([k], Failed err)
                | Propagated s \<Rightarrow> Some ([k], Propagated s)
                | Finished s \<Rightarrow>
                    (let it' = next_slot k (sg_slots s);
                         s' = (if sg_currentSlot s = None then s\<lparr>sg_slots := erase_slot k (sg_slots s)\<rparr> else s)
                     in if k = lst then Some ([k], Finished s')
                        else Option.bind (emit_loop beh args it' lst s') (\<lambda>(called, r). Some (k # called, r))))))"

definition Signal_emit :: "('h, 'a) handler_behaviour \<Rightarrow> 'a \<Rightarrow> 'h signal \<Rightarrow> (nat list \<times> 'h emission) option" where
  "Signal_emit beh args s =
     (if sg_isExecuting s then Some ([], Failed (AssertionFailure ''cannot emit signal from a handler''))
      else if sg_slots s = [] then Some ([], Finished s)
      else Option.bind (emit_loop beh args (Some (slot_id (hd (sg_slots s)))) (slot_id (last (sg_slots s))) (s\<lparr>sg_isExecuting := True\<rparr>)) (\<lambda>(called, r).
        Some (called,
          case r of
            Finished s \<Rightarrow> Finished (s\<lparr>sg_isExecuting := False\<rparr>)
          | Propagated s \<Rightarrow> Propagated (s\<lparr>sg_isExecuting := False\<rparr>)
          | Failed err \<Rightarrow> Failed err)))"


section \<open>What an emission does\<close>

text \<open>
  The slots that the calls of a handler add, the calls a handler may make (it disconnects no handler but itself and does not emit), and whether
  it leaves the signal.
\<close>

fun connects :: "'h signal_call list \<Rightarrow> ('h \<times> bool) list" where
  "connects [] = []"
| "connects (Connect h # cs) = (h, False) # connects cs"
| "connects (ConnectSingleShot h # cs) = (h, True) # connects cs"
| "connects (Disconnect c # cs) = connects cs"
| "connects (Emit # cs) = connects cs"

fun new_slots :: "nat \<Rightarrow> ('h \<times> bool) list \<Rightarrow> 'h slot list" where
  "new_slots n [] = []"
| "new_slots n ((h, single) # hs) = \<lparr>slot_id = n, slot_handler = h, slot_single = single, slot_live = True\<rparr> # new_slots (Suc n) hs"

definition own_calls :: "nat \<Rightarrow> 'h signal_call list \<Rightarrow> bool" where
  "own_calls k cs \<longleftrightarrow> (\<forall>c \<in> set cs. c \<noteq> Emit \<and> (\<forall>j. c = Disconnect (Some j) \<longrightarrow> j = k))"

definition slot_calls :: "('h, 'a) handler_behaviour \<Rightarrow> 'a \<Rightarrow> 'h slot \<Rightarrow> 'h signal_call list" where
  "slot_calls beh args x = fst (beh (slot_handler x) (Some (slot_id x)) args)"

definition slot_throws :: "('h, 'a) handler_behaviour \<Rightarrow> 'a \<Rightarrow> 'h slot \<Rightarrow> bool" where
  "slot_throws beh args x = snd (beh (slot_handler x) (Some (slot_id x)) args)"

definition leaves :: "('h, 'a) handler_behaviour \<Rightarrow> 'a \<Rightarrow> 'h slot \<Rightarrow> bool" where
  "leaves beh args x \<longleftrightarrow> slot_live x \<and> (Disconnect (Some (slot_id x)) \<in> set (slot_calls beh args x) \<or> slot_single x \<and> \<not> slot_throws beh args x)"

definition slots_ok :: "nat \<Rightarrow> 'h slot list \<Rightarrow> bool" where
  "slots_ok n sls \<longleftrightarrow> distinct (map slot_id sls) \<and> (\<forall>x \<in> set sls. slot_id x < n)"

definition signal_inv :: "'h signal \<Rightarrow> bool" where
  "signal_inv s \<longleftrightarrow> slots_ok (sg_next s) (sg_slots s) \<and> \<not> sg_isExecuting s"

lemma new_slots_append: "new_slots n (as @ bs) = new_slots n as @ new_slots (n + length as) bs"
  by (induction as arbitrary: n) auto

lemma new_slots_ids: "map slot_id (new_slots n hs) = [n..<n + length hs]"
  by (induction hs arbitrary: n) (auto simp: upt_conv_Cons simp del: upt_Suc)

lemma slots_ok_append: "slots_ok n sls \<Longrightarrow> slots_ok (n + length hs) (sls @ new_slots n hs)"
proof -
  assume ok: "slots_ok n sls"
  have ids: "slot_id ` set (new_slots n hs) = {n..<n + length hs}" using new_slots_ids [of n hs] by (metis list.set_map set_upt)
  have "slot_id x \<in> {n..<n + length hs}" if "x \<in> set (new_slots n hs)" for x using ids that by blast
  then show ?thesis using ok ids by (fastforce simp: slots_ok_def new_slots_ids)
qed

lemma slots_ok_mono: "slots_ok n (as @ bs @ cs) \<Longrightarrow> slots_ok n (as @ cs)"
  by (auto simp: slots_ok_def)

lemma slot_at_append: "k \<notin> slot_id ` set pre \<Longrightarrow> slot_at k (pre @ sls) = slot_at k sls"
  by (induction pre) (auto simp: slot_at_def)

lemma slot_at_head [simp]: "slot_id x = k \<Longrightarrow> slot_at k (x # sls) = Some x"
  by (simp add: slot_at_def)

lemma expire_slot_other: "k \<notin> slot_id ` set sls \<Longrightarrow> expire_slot k sls = sls"
  by (induction sls) (auto simp: expire_slot_def)

lemma erase_slot_other: "k \<notin> slot_id ` set sls \<Longrightarrow> erase_slot k sls = sls"
  by (induction sls) (auto simp: erase_slot_def)

lemma do_signal_calls_effect:
  assumes "own_calls k cs" "sg_isExecuting s" "sg_slots s = pre @ x # post" "slot_id x = k"
    "k \<notin> slot_id ` set pre" "k \<notin> slot_id ` set post" "k < sg_next s" "slot_live x \<Longrightarrow> sg_currentSlot s = Some k"
  shows "do_signal_calls cs s = Inr (s\<lparr>sg_slots := pre @ x\<lparr>slot_live := slot_live x \<and> Disconnect (Some k) \<notin> set cs\<rparr> # post @ new_slots (sg_next s) (connects cs),
      sg_currentSlot := if slot_live x \<and> Disconnect (Some k) \<in> set cs then None else sg_currentSlot s, sg_next := sg_next s + length (connects cs)\<rparr>)"
  using assms
proof (induction cs arbitrary: s x post)
  case (Cons c cs)
  have own: "own_calls k cs" using Cons.prems(1) by (simp add: own_calls_def)
  show ?case
  proof (cases c)
    case (Connect h)
    let ?s = "snd (Signal_connect h s)"
    have "do_signal_calls cs ?s = Inr (?s\<lparr>sg_slots := pre @ x\<lparr>slot_live := slot_live x \<and> Disconnect (Some k) \<notin> set cs\<rparr> # (post @ new_slots (sg_next s) [(h, False)]) @ new_slots (sg_next ?s) (connects cs),
        sg_currentSlot := if slot_live x \<and> Disconnect (Some k) \<in> set cs then None else sg_currentSlot ?s, sg_next := sg_next ?s + length (connects cs)\<rparr>)"
      by (rule Cons.IH) (use own Cons.prems in \<open>auto simp: Signal_connect_def insert_slot_def\<close>)
    then show ?thesis using Connect by (simp add: Signal_connect_def insert_slot_def)
  next
    case (ConnectSingleShot h)
    let ?s = "snd (connectSingleShot h s)"
    have "do_signal_calls cs ?s = Inr (?s\<lparr>sg_slots := pre @ x\<lparr>slot_live := slot_live x \<and> Disconnect (Some k) \<notin> set cs\<rparr> # (post @ new_slots (sg_next s) [(h, True)]) @ new_slots (sg_next ?s) (connects cs),
        sg_currentSlot := if slot_live x \<and> Disconnect (Some k) \<in> set cs then None else sg_currentSlot ?s, sg_next := sg_next ?s + length (connects cs)\<rparr>)"
      by (rule Cons.IH) (use own Cons.prems in \<open>auto simp: connectSingleShot_def insert_slot_def\<close>)
    then show ?thesis using ConnectSingleShot by (simp add: connectSingleShot_def insert_slot_def)
  next
    case (Disconnect d)
    have at: "slot_at k (sg_slots s) = Some x" using Cons.prems by (simp add: slot_at_append)
    show ?thesis
    proof (cases "d = Some k \<and> slot_live x")
      case True
      let ?s = "s\<lparr>sg_currentSlot := None, sg_slots := pre @ x\<lparr>slot_live := False\<rparr> # post\<rparr>"
      have step: "do_signal_call c s = Inr ?s"
        using True Disconnect at Cons.prems expire_slot_other [of k pre] expire_slot_other [of k post]
        by (simp add: Connection_disconnect_def Connection_lock_def Signal_disconnect_def) (simp add: expire_slot_def)
      have "do_signal_calls cs ?s = Inr (?s\<lparr>sg_slots := pre @ (x\<lparr>slot_live := False\<rparr>)\<lparr>slot_live := False\<rparr> # post @ new_slots (sg_next ?s) (connects cs),
          sg_currentSlot := None, sg_next := sg_next ?s + length (connects cs)\<rparr>)"
        by (rule trans [OF Cons.IH [where x = "x\<lparr>slot_live := False\<rparr>" and post = post]]) (use own Cons.prems in auto)
      then show ?thesis using step True Disconnect by simp
    next
      case False
      have "do_signal_call c s = Inr s"
        using False Disconnect at Cons.prems(1) by (auto simp: Connection_disconnect_def Connection_lock_def own_calls_def split: option.split)
      moreover have "Disconnect (Some k) \<in> set (c # cs) \<and> slot_live x \<longleftrightarrow> Disconnect (Some k) \<in> set cs \<and> slot_live x" using False Disconnect by auto
      moreover have "do_signal_calls cs s = Inr (s\<lparr>sg_slots := pre @ x\<lparr>slot_live := slot_live x \<and> Disconnect (Some k) \<notin> set cs\<rparr> # post @ new_slots (sg_next s) (connects cs),
        sg_currentSlot := if slot_live x \<and> Disconnect (Some k) \<in> set cs then None else sg_currentSlot s, sg_next := sg_next s + length (connects cs)\<rparr>)"
        by (rule Cons.IH) (use own Cons.prems in auto)
      ultimately show ?thesis using Disconnect by (cases "slot_live x") auto
    qed
  next
    case Emit
    then show ?thesis using Cons.prems(1) by (simp add: own_calls_def)
  qed
qed (auto simp: )


definition after_slot :: "('h, 'a) handler_behaviour \<Rightarrow> 'a \<Rightarrow> 'h slot \<Rightarrow> 'h slot" where
  "after_slot beh args x = x\<lparr>slot_live := slot_live x \<and> \<not> leaves beh args x\<rparr>"

lemma run_slot_effect:
  assumes "own_calls (slot_id x) (slot_calls beh args x)" "sg_isExecuting s" "sg_slots s = pre @ x # post" "sg_currentSlot s = Some (slot_id x)"
    "slots_ok (sg_next s) (pre @ x # post)"
  shows "run_slot beh args x s =
    (if slot_throws beh args x then Propagated else Finished)
      (s\<lparr>sg_slots := pre @ after_slot beh args x # post @ new_slots (sg_next s) (connects (slot_calls beh args x)),
        sg_currentSlot := if leaves beh args x then None else Some (slot_id x), sg_next := sg_next s + length (connects (slot_calls beh args x))\<rparr>)"
proof -
  let ?k = "slot_id x" and ?cs = "slot_calls beh args x"
  have ids: "?k \<notin> slot_id ` set pre" "?k \<notin> slot_id ` set post" "?k < sg_next s" using assms(5) by (auto simp: slots_ok_def)
  have new: "?k \<notin> slot_id ` set (new_slots (sg_next s) hs)" for hs :: "('a \<times> bool) list"
  proof -
    have "slot_id ` set (new_slots (sg_next s) hs) = {sg_next s..<sg_next s + length hs}" by (metis list.set_map new_slots_ids set_upt)
    then show ?thesis using ids(3) by auto
  qed
  let ?x = "x\<lparr>slot_live := slot_live x \<and> Disconnect (Some ?k) \<notin> set ?cs\<rparr>"
  let ?s = "s\<lparr>sg_slots := pre @ ?x # post @ new_slots (sg_next s) (connects ?cs),
      sg_currentSlot := if slot_live x \<and> Disconnect (Some ?k) \<in> set ?cs then None else sg_currentSlot s, sg_next := sg_next s + length (connects ?cs)\<rparr>"
  have calls: "do_signal_calls ?cs s = Inr ?s" by (rule do_signal_calls_effect) (use assms ids in auto)
  have at: "slot_at ?k (sg_slots ?s) = Some ?x" using ids by (simp add: slot_at_append)
  show ?thesis
  proof (cases "\<not> slot_throws beh args x \<and> slot_single x \<and> slot_live ?x")
    case True
    have "Connection_disconnect (Some ?k) ?s = Inr (?s\<lparr>sg_currentSlot := None, sg_slots := pre @ x\<lparr>slot_live := False\<rparr> # post @ new_slots (sg_next s) (connects ?cs)\<rparr>)"
      using True at assms(2,4) expire_slot_other [OF ids(1)] expire_slot_other [OF ids(2)] expire_slot_other [OF new]
      by (simp add: Connection_disconnect_def Connection_lock_def Signal_disconnect_def) (simp add: expire_slot_def)
    then show ?thesis
      using True calls by (simp add: run_slot_def slot_calls_def [symmetric] slot_throws_def [symmetric] after_slot_def leaves_def)
  next
    case False
    then have "slot_single x \<and> \<not> slot_throws beh args x \<longrightarrow> Connection_disconnect (Some ?k) ?s = Inr ?s"
      using at by (cases "slot_live ?x") (auto simp: Connection_disconnect_def Connection_lock_def)
    moreover have "leaves beh args x \<longleftrightarrow> slot_live x \<and> Disconnect (Some ?k) \<in> set ?cs" using False by (auto simp: leaves_def)
    ultimately show ?thesis
      using calls assms(4) by (auto simp: run_slot_def slot_calls_def [symmetric] slot_throws_def [symmetric] after_slot_def)
  qed
qed

lemma next_slot_append:
  assumes "slots_ok n (pre @ x # post)" "slot_id x' = slot_id x"
  shows "next_slot (slot_id x) (pre @ x' # post) = (case post of [] \<Rightarrow> None | y # _ \<Rightarrow> Some (slot_id y))"
proof -
  have "slot_id x \<notin> slot_id ` set pre" using assms(1) by (simp add: slots_ok_def)
  then have "slot_id y \<noteq> slot_id x" if "y \<in> set pre" for y using that by (metis imageI)
  then have "dropWhile (\<lambda>y. slot_id y \<noteq> slot_id x) (pre @ x' # post) = x' # post"
    using assms(2) by (simp add: dropWhile_append2)
  then show ?thesis by (simp add: next_slot_def split: list.split)
qed

lemma erase_slot_append:
  assumes "slots_ok n (pre @ x # post)" "slot_id x' = slot_id x"
  shows "erase_slot (slot_id x) (pre @ x' # post) = pre @ post"
proof -
  have "erase_slot (slot_id x) pre = pre" "erase_slot (slot_id x) post = post"
    using assms(1) by (auto intro!: erase_slot_other simp: slots_ok_def)
  then show ?thesis using assms(2) by (simp add: erase_slot_def)
qed

text \<open>The slots of a signal after the handlers of \<open>todo\<close> were called.\<close>

fun emitted :: "('h, 'a) handler_behaviour \<Rightarrow> 'a \<Rightarrow> 'h slot list \<Rightarrow> nat list \<times> 'h slot list \<times> ('h \<times> bool) list \<times> bool" where
  "emitted beh args [] = ([], [], [], False)"
| "emitted beh args (x # todo) =
     (if slot_throws beh args x then ([slot_id x], after_slot beh args x # todo, connects (slot_calls beh args x), True)
      else let (called, kept, added, threw) = emitted beh args todo
           in (slot_id x # called, (if leaves beh args x then kept else x # kept), connects (slot_calls beh args x) @ added, threw))"

lemma emit_loop_effect:
  assumes "\<forall>x \<in> set todo. own_calls (slot_id x) (slot_calls beh args x)" "todo \<noteq> []" "sg_isExecuting s" "sg_slots s = pre @ todo @ post"
    "slots_ok (sg_next s) (pre @ todo @ post)" "emitted beh args todo = (called, kept, added, threw)"
  shows "\<exists>cur. emit_loop beh args (Some (slot_id (hd todo))) (slot_id (last todo)) s =
    Some (called, (if threw then Propagated else Finished)
      (s\<lparr>sg_slots := pre @ kept @ post @ new_slots (sg_next s) added, sg_currentSlot := cur, sg_next := sg_next s + length added\<rparr>))"
  using assms
proof (induction todo arbitrary: s pre post called kept added threw)
  case (Cons x todo)
  let ?k = "slot_id x" and ?hs = "connects (slot_calls beh args x)"
  have ids: "?k \<notin> slot_id ` set pre" using Cons.prems(5) by (auto simp: slots_ok_def)
  have at: "slot_at ?k (sg_slots s) = Some x" using ids Cons.prems(4) by (simp add: slot_at_append)
  let ?s = "s\<lparr>sg_slots := pre @ after_slot beh args x # todo @ post @ new_slots (sg_next s) ?hs,
        sg_currentSlot := if leaves beh args x then None else Some ?k, sg_next := sg_next s + length ?hs\<rparr>"
  have run: "run_slot beh args x (s\<lparr>sg_currentSlot := Some ?k\<rparr>) = (if slot_throws beh args x then Propagated else Finished) ?s"
    using run_slot_effect [where s = "s\<lparr>sg_currentSlot := Some ?k\<rparr>" and x = x and pre = pre and post = "todo @ post" and beh = beh and args = args] Cons.prems(1-5)
    by (simp split del: if_split)
  note loop = emit_loop.simps [of beh args "Some ?k"]
  show ?case
  proof (cases "slot_throws beh args x")
    case True
    then show ?thesis using at run Cons.prems(6) by (auto simp: loop)
  next
    case False
    obtain called' kept' added' threw' where em: "emitted beh args todo = (called', kept', added', threw')" by (cases "emitted beh args todo") auto
    have eqs: "called = ?k # called'" "kept = (if leaves beh args x then kept' else x # kept')" "added = ?hs @ added'" "threw = threw'"
      using Cons.prems(6) False em by auto
    have ok: "slots_ok (sg_next s + length ?hs) ((pre @ x # todo @ post) @ new_slots (sg_next s) ?hs)"
      using slots_ok_append [OF Cons.prems(5), of ?hs] by simp
    define pre' where "pre' = (if leaves beh args x then pre else pre @ [x])"
    define s' where "s' = (if leaves beh args x then ?s\<lparr>sg_slots := erase_slot ?k (sg_slots ?s)\<rparr> else ?s)"
    have id: "slot_id (after_slot beh args x) = ?k" by (simp add: after_slot_def)
    have er: "erase_slot ?k (pre @ after_slot beh args x # todo @ post @ new_slots (sg_next s) ?hs) = pre @ todo @ post @ new_slots (sg_next s) ?hs"
      using erase_slot_append [OF _ id, of _ pre "todo @ post @ new_slots (sg_next s) ?hs"] ok by simp
    have same: "\<not> leaves beh args x \<Longrightarrow> after_slot beh args x = x" by (simp add: after_slot_def)
    have s': "sg_slots s' = pre' @ todo @ (post @ new_slots (sg_next s) ?hs)" "sg_isExecuting s'" "sg_next s' = sg_next s + length ?hs"
      using er same Cons.prems(3) by (simp_all add: s'_def pre'_def)
    have ok': "slots_ok (sg_next s') (pre' @ todo @ post @ new_slots (sg_next s) ?hs)"
      using ok slots_ok_mono [of _ pre "[x]" "todo @ post @ new_slots (sg_next s) ?hs"] by (simp add: s'(3) pre'_def)
    have nxt: "next_slot ?k (sg_slots ?s) = (case todo @ post @ new_slots (sg_next s) ?hs of [] \<Rightarrow> None | y # _ \<Rightarrow> Some (slot_id y))"
      using next_slot_append [OF _ id, of _ pre "todo @ post @ new_slots (sg_next s) ?hs"] ok by simp
    show ?thesis
    proof (cases "todo = []")
      case True
      then have "emit_loop beh args (Some ?k) ?k s = Some ([?k], Finished s')"
        using at run False by (simp add: loop s'_def)
      moreover have "s' = s\<lparr>sg_slots := pre @ kept @ post @ new_slots (sg_next s) added, sg_currentSlot := sg_currentSlot ?s, sg_next := sg_next s + length added\<rparr>"
        using True em eqs er same by (simp add: s'_def)
      ultimately have "emit_loop beh args (Some ?k) ?k s = Some ([?k], Finished (s\<lparr>sg_slots := pre @ kept @ post @ new_slots (sg_next s) added,
          sg_currentSlot := sg_currentSlot ?s, sg_next := sg_next s + length added\<rparr>))" by (simp only:)
      then show ?thesis using True em eqs(1,4) by (intro exI [of _ "sg_currentSlot ?s"]) simp
    next
      case ne: False
      have other: "?k \<noteq> slot_id (last todo)" using ne Cons.prems(5) last_in_set [OF ne] by (auto simp: slots_ok_def)
      obtain cur where IH: "emit_loop beh args (Some (slot_id (hd todo))) (slot_id (last todo)) s' =
        Some (called', (if threw' then Propagated else Finished)
          (s'\<lparr>sg_slots := pre' @ kept' @ (post @ new_slots (sg_next s) ?hs) @ new_slots (sg_next s') added', sg_currentSlot := cur, sg_next := sg_next s' + length added'\<rparr>))"
        using Cons.IH [OF _ ne s'(2,1) ok' em] Cons.prems(1) by auto
      have "emit_loop beh args (Some ?k) (slot_id (last todo)) s =
          Option.bind (emit_loop beh args (Some (slot_id (hd todo))) (slot_id (last todo)) s') (\<lambda>(called, r). Some (?k # called, r))"
        using at run False other nxt ne by (cases todo) (simp_all add: loop s'_def Let_def)
      moreover have "s'\<lparr>sg_slots := pre' @ kept' @ (post @ new_slots (sg_next s) ?hs) @ new_slots (sg_next s') added', sg_currentSlot := cur, sg_next := sg_next s' + length added'\<rparr>
          = s\<lparr>sg_slots := pre @ kept @ post @ new_slots (sg_next s) added, sg_currentSlot := cur, sg_next := sg_next s + length added\<rparr>"
        by (simp add: s'_def pre'_def eqs new_slots_append)
      ultimately show ?thesis using ne eqs IH by (auto simp del: emitted.simps)
    qed
  qed
qed simp


lemma emitted_ids:
  assumes "emitted beh args sls = (called, kept, added, threw)"
  shows "distinct (map slot_id sls) \<Longrightarrow> distinct (map slot_id kept)" "slot_id ` set kept \<subseteq> slot_id ` set sls"
proof -
  have "slot_id ` set kept \<subseteq> slot_id ` set sls \<and> (distinct (map slot_id sls) \<longrightarrow> distinct (map slot_id kept))"
    using assms
    by (induction sls arbitrary: called kept added threw) (auto simp: after_slot_def split: if_splits prod.splits)
  then show "distinct (map slot_id sls) \<Longrightarrow> distinct (map slot_id kept)" "slot_id ` set kept \<subseteq> slot_id ` set sls" by blast+
qed

lemma emitted_all:
  "\<forall>x \<in> set sls. \<not> slot_throws beh args x \<Longrightarrow>
    emitted beh args sls = (map slot_id sls, filter (\<lambda>x. \<not> leaves beh args x) sls, concat (map (\<lambda>x. connects (slot_calls beh args x)) sls), False)"
  by (induction sls) auto

lemma emitted_throw:
  assumes "\<forall>y \<in> set pre. \<not> slot_throws beh args y" "slot_throws beh args x"
  shows "emitted beh args (pre @ x # post) = (map slot_id (pre @ [x]), filter (\<lambda>y. \<not> leaves beh args y) pre @ after_slot beh args x # post,
    concat (map (\<lambda>y. connects (slot_calls beh args y)) (pre @ [x])), True)"
  using assms by (induction pre) auto

text \<open>Connecting, disconnecting and emitting keep the invariant.\<close>

lemma signal_inv_operations:
  assumes "signal_inv s"
  shows "signal_inv (snd (Signal_connect h s))" "signal_inv (snd (connectSingleShot h s))"
    "\<exists>s'. Connection_disconnect c s = Inr s' \<and> signal_inv s' \<and> \<not> Connection_isConnected c s'"
proof -
  have ok: "slots_ok (Suc (sg_next s)) (sg_slots s @ new_slots (sg_next s) [(h, b)])" for b
    using slots_ok_append [of "sg_next s" "sg_slots s" "[(h, b)]"] assms by (simp add: signal_inv_def)
  show "signal_inv (snd (Signal_connect h s))" "signal_inv (snd (connectSingleShot h s))"
    using assms ok [of False] ok [of True] by (simp_all add: signal_inv_def Signal_connect_def connectSingleShot_def insert_slot_def)
  show "\<exists>s'. Connection_disconnect c s = Inr s' \<and> signal_inv s' \<and> \<not> Connection_isConnected c s'"
  proof (cases "Connection_lock c s")
    case (Some k)
    then have c: "c = Some k" by (auto simp: Connection_lock_def split: option.splits if_splits)
    have "slot_at k (erase_slot k (sg_slots s)) = None" by (auto simp: slot_at_def find_None_iff erase_slot_def)
    then show ?thesis
      using assms Some c by (auto simp: Connection_disconnect_def Signal_disconnect_def signal_inv_def slots_ok_def erase_slot_def
          distinct_map_filter Connection_isConnected_def Connection_lock_def)
  qed (use assms in \<open>simp add: Connection_disconnect_def Connection_isConnected_def\<close>)
qed

lemma Signal_emit_effect:
  assumes "signal_inv s" "\<forall>x \<in> set (sg_slots s). own_calls (slot_id x) (slot_calls beh args x)"
    "emitted beh args (sg_slots s) = (called, kept, added, threw)"
  shows "\<exists>s'. Signal_emit beh args s = Some (called, (if threw then Propagated s' else Finished s')) \<and> signal_inv s'
    \<and> sg_slots s' = kept @ new_slots (sg_next s) added \<and> sg_next s' = sg_next s + length added"
proof (cases "sg_slots s = []")
  case True
  then show ?thesis using assms by (auto simp: Signal_emit_def signal_inv_def)
next
  case False
  let ?s = "s\<lparr>sg_isExecuting := True\<rparr>"
  have ok: "slots_ok (sg_next ?s) ([] @ sg_slots s @ [])" using assms(1) by (simp add: signal_inv_def)
  obtain cur where loop: "emit_loop beh args (Some (slot_id (hd (sg_slots s)))) (slot_id (last (sg_slots s))) ?s =
      Some (called, (if threw then Propagated else Finished)
        (?s\<lparr>sg_slots := [] @ kept @ [] @ new_slots (sg_next ?s) added, sg_currentSlot := cur, sg_next := sg_next ?s + length added\<rparr>))"
    using emit_loop_effect [OF assms(2) False _ _ ok assms(3)] by auto
  let ?s' = "s\<lparr>sg_slots := kept @ new_slots (sg_next s) added, sg_currentSlot := cur, sg_next := sg_next s + length added\<rparr>"
  have "slots_ok (sg_next s) kept"
    using assms(1) emitted_ids [OF assms(3)] by (fastforce simp: signal_inv_def slots_ok_def)
  then have "signal_inv ?s'" using slots_ok_append [of "sg_next s" kept added] assms(1) by (simp add: signal_inv_def)
  moreover have "?s'\<lparr>sg_isExecuting := False\<rparr> = ?s'" using assms(1) by (simp add: signal_inv_def)
  ultimately show ?thesis
    using loop False assms(1) by (intro exI [of _ ?s']) (simp add: Signal_emit_def signal_inv_def)
qed

lemma Signal_emit_cases:
  assumes "signal_inv s" "\<forall>x \<in> set (sg_slots s). own_calls (slot_id x) (slot_calls beh args x)"
    "sg_slots s = pre @ post" "\<forall>x \<in> set pre. \<not> slot_throws beh args x" "post = [] \<or> slot_throws beh args (hd post)"
  shows "\<exists>s'. Signal_emit beh args s = Some (map slot_id (pre @ take 1 post), (if post = [] then Finished s' else Propagated s')) \<and> signal_inv s'
    \<and> sg_slots s' = filter (\<lambda>x. \<not> leaves beh args x) pre @ map (after_slot beh args) (take 1 post) @ drop 1 post
        @ new_slots (sg_next s) (concat (map (\<lambda>x. connects (slot_calls beh args x)) (pre @ take 1 post)))"
proof (cases post)
  case Nil
  then show ?thesis using Signal_emit_effect [OF assms(1,2)] emitted_all [of pre beh args] assms(3,4) by fastforce
next
  case (Cons x xs)
  then show ?thesis using Signal_emit_effect [OF assms(1,2)] emitted_throw [of pre beh args x xs] assms(3-5) by fastforce
qed


definition example_signal :: "nat signal" where
  "example_signal = snd (connectSingleShot 2 (snd (Signal_connect 1 (snd (Signal_connect 0 Signal_new)))))"

definition example_handlers :: "(nat, nat) handler_behaviour" where
  "example_handlers h c a = (if h = 0 \<or> a = 5 then [Disconnect c, Connect 7] else [], h = 1 \<and> a = 5)"

lemmas example_signal_defs = example_signal_def Signal_connect_def connectSingleShot_def insert_slot_def Signal_new_def

lemma example_signal_ok:
  "signal_inv example_signal" "\<forall>x \<in> set (sg_slots example_signal). own_calls (slot_id x) (slot_calls example_handlers a x)"
  "sg_slots example_signal =
    [\<lparr>slot_id = 0, slot_handler = 0, slot_single = False, slot_live = True\<rparr>] @ \<lparr>slot_id = 1, slot_handler = 1, slot_single = False, slot_live = True\<rparr> #
    [\<lparr>slot_id = 2, slot_handler = 2, slot_single = True, slot_live = True\<rparr>]"
  by (auto simp: example_signal_defs signal_inv_def slots_ok_def own_calls_def slot_calls_def example_handlers_def)


text \<open>
  A handler that disconnects itself and then throws is not disconnected: its slot stays in the signal, so that later emissions call it again, but its connection has expired,
  so that nobody can disconnect it any more.
\<close>
theorem throwing_handler_stays:
  assumes "signal_inv s" "\<forall>x \<in> set (sg_slots s). own_calls (slot_id x) (slot_calls beh args x)" "sg_slots s = pre @ x # post"
    "\<forall>y \<in> set pre. \<not> slot_throws beh args y" "slot_throws beh args x" "Disconnect (Some (slot_id x)) \<in> set (slot_calls beh args x)"
  shows "\<exists>called s'. Signal_emit beh args s = Some (called, Propagated s') \<and> x\<lparr>slot_live := False\<rparr> \<in> set (sg_slots s')
    \<and> \<not> Connection_isConnected (Some (slot_id x)) s' \<and> Connection_disconnect (Some (slot_id x)) s' = Inr s'"
proof -
  obtain s' where s': "Signal_emit beh args s = Some (map slot_id (pre @ [x]), Propagated s')" "signal_inv s'"
    "sg_slots s' = filter (\<lambda>y. \<not> leaves beh args y) pre @ after_slot beh args x # post
      @ new_slots (sg_next s) (concat (map (\<lambda>y. connects (slot_calls beh args y)) (pre @ [x])))"
    using Signal_emit_cases [OF assms(1,2,3,4)] assms(5) by auto
  have x: "after_slot beh args x = x\<lparr>slot_live := False\<rparr>" using assms(6) by (simp add: after_slot_def leaves_def)
  have "slot_id x \<notin> slot_id ` set pre" using assms(1,3) by (simp add: signal_inv_def slots_ok_def)
  then have "slot_at (slot_id x) (sg_slots s') = Some (x\<lparr>slot_live := False\<rparr>)" by (subst s'(3), subst slot_at_append) (auto simp: x)
  then have "Connection_lock (Some (slot_id x)) s' = None" by (simp add: Connection_lock_def)
  then show ?thesis using s' x by (auto simp: Connection_isConnected_def Connection_disconnect_def)
qed

theorem throwing_handler_stays_witness:
  "\<exists>called s'. Signal_emit example_handlers 5 example_signal = Some (called, Propagated s')
    \<and> \<lparr>slot_id = 1, slot_handler = 1, slot_single = False, slot_live = False\<rparr> \<in> set (sg_slots s') \<and> Connection_disconnect (Some 1) s' = Inr s'"
  using throwing_handler_stays [OF example_signal_ok(1,2,3), of 5]
  by (auto simp: slot_throws_def slot_calls_def example_handlers_def)

text \<open>A scoped connection has at most one live connection: assigning another one disconnects the one held before.\<close>

lemma ScopedConnection_assign_effect:
  assumes "signal_inv s"
  shows "\<exists>held' s'. ScopedConnection_assign held c s = Inr (held', s') \<and> signal_inv s' \<and> Connection_equal held' c s'
    \<and> (Connection_isConnected held s' \<longrightarrow> Connection_equal held c s)"
proof (cases "Connection_equal held c s")
  case False
  obtain s' where "Connection_disconnect held s = Inr s'" "signal_inv s'" "\<not> Connection_isConnected held s'"
    using signal_inv_operations(3) [OF assms] by blast
  then show ?thesis using False by (auto simp: ScopedConnection_assign_def Connection_equal_def)
qed (use assms in \<open>auto simp: ScopedConnection_assign_def\<close>)

end
