(* ===== verification/Logger.thy ===== *)
theory Logger
  imports Prelude
begin

text \<open>
  Logging, after \<open>src/util/logger.{hpp,cpp}\<close> and \<open>src/util/logger-factory.{hpp,cpp}\<close>.

  Loggers are shared objects that the factory changes behind the back of the code that logs, so
  they live in a store indexed by addresses; the factory keeps addresses. Every operation that holds
  the factory's mutex is one step. The singleton is created by the first call of
  \<open>get()\<close>. A stream is a number, and the sinks registered with \<open>boost::log::core\<close> are
  represented by the streams they write to.
\<close>

section \<open>Levels and loggers\<close>

datatype LogLevel = FATAL | NONE | ERROR | WARN | INFO | DEBUG | TRACE | LogLevel_ALL

fun level_code :: "LogLevel \<Rightarrow> int" where
  "level_code FATAL = -1"
| "level_code NONE = 0"
| "level_code ERROR = 1"
| "level_code WARN = 2"
| "level_code INFO = 3"
| "level_code DEBUG = 4"
| "level_code TRACE = 5"
| "level_code LogLevel_ALL = 255"

instantiation LogLevel :: linorder
begin

definition less_eq_LogLevel :: "LogLevel \<Rightarrow> LogLevel \<Rightarrow> bool" where
  "less_eq_LogLevel a b \<longleftrightarrow> level_code a \<le> level_code b"

definition less_LogLevel :: "LogLevel \<Rightarrow> LogLevel \<Rightarrow> bool" where
  "less_LogLevel a b \<longleftrightarrow> level_code a < level_code b"

instance
proof
  fix a b :: LogLevel
  assume "a \<le> b" "b \<le> a"
  then show "a = b" by (cases a; cases b) (simp_all add: less_eq_LogLevel_def)
qed (auto simp: less_eq_LogLevel_def less_LogLevel_def)

end

record logger =
  m_moduleName :: string
  m_currentLevel :: LogLevel

definition isLevelEnabled :: "logger \<Rightarrow> LogLevel \<Rightarrow> bool" where
  "isLevelEnabled l level \<longleftrightarrow> m_currentLevel l \<ge> level"

definition setLevel :: "LogLevel \<Rightarrow> logger \<Rightarrow> logger" where
  "setLevel level l = l\<lparr>m_currentLevel := level\<rparr>"

section \<open>Messages\<close>

text \<open>\<open>snprintf\<close> into a buffer of 18 characters keeps 17; the assertion on the seconds is an error.\<close>

definition pad6 :: "nat \<Rightarrow> string" where
  "pad6 n = replicate (6 - length (show_nat n)) CHR ''0'' @ show_nat n"

definition LoggerTimestamp :: "nat \<Rightarrow> string result" where
  "LoggerTimestamp microsecondsSinceEpoch =
     (let ONE_SECOND = 1000000
      in if \<not> microsecondsSinceEpoch div ONE_SECOND \<le> 9999999999
         then Inl (UndefinedBehaviour ''assertion: whole seconds cannot fit in 10 characters'')
         else Inr (take 17 (show_nat (microsecondsSinceEpoch div ONE_SECOND) @ ''.'' @
                            pad6 (microsecondsSinceEpoch mod ONE_SECOND))))"

definition NDN_CXX_LOG :: "logger \<Rightarrow> LogLevel \<Rightarrow> string \<Rightarrow> nat \<Rightarrow> string \<Rightarrow> string option result" where
  "NDN_CXX_LOG l lvl lvlstr now expression =
     (if isLevelEnabled l lvl
      then bindE (LoggerTimestamp now) (\<lambda>t.
             Inr (Some (t @ '' '' @ lvlstr @ '': '' @ ''['' @ m_moduleName l @ ''] '' @ expression)))
      else Inr None)"

section \<open>The factory\<close>

record LoggerFactory =
  m_enabledLevel :: "string \<rightharpoonup> LogLevel"
  m_loggers :: "(string \<times> nat) list"
  m_sink :: "nat option"

record log_system =
  environ :: "string option"
  instance_of :: "LoggerFactory option"
  store :: "nat \<rightharpoonup> logger"
  core_sinks :: "nat list"

definition parseLevel :: "string \<Rightarrow> LogLevel result" where
  "parseLevel levelStr =
     (if levelStr = ''FATAL'' then Inr FATAL
      else if levelStr = ''NONE'' then Inr NONE
      else if levelStr = ''ERROR'' then Inr ERROR
      else if levelStr = ''WARN'' then Inr WARN
      else if levelStr = ''INFO'' then Inr INFO
      else if levelStr = ''DEBUG'' then Inr DEBUG
      else if levelStr = ''TRACE'' then Inr TRACE
      else if levelStr = ''ALL'' then Inr LogLevel_ALL
      else Inl (InvalidArgument (''Unrecognized log level '' @ [CHR 0x27] @ levelStr @ [CHR 0x27])))"

text \<open>\<open>setLevel\<close> on the loggers at some addresses.\<close>

definition set_levels :: "nat list \<Rightarrow> LogLevel \<Rightarrow> (nat \<rightharpoonup> logger) \<Rightarrow> (nat \<rightharpoonup> logger)" where
  "set_levels as level st = fold (\<lambda>a st. st(a := map_option (setLevel level) (st a))) as st"

definition setSeverityLevelImpl ::
    "string \<Rightarrow> LogLevel \<Rightarrow> LoggerFactory \<times> (nat \<rightharpoonup> logger) \<Rightarrow> LoggerFactory \<times> (nat \<rightharpoonup> logger)" where
  "setSeverityLevelImpl moduleName level s =
     (case s of (lf, st) \<Rightarrow>
        if moduleName = ''*'' then
          (lf\<lparr>m_enabledLevel := [''*'' \<mapsto> level]\<rparr>, set_levels (map snd (m_loggers lf)) level st)
        else
          (lf\<lparr>m_enabledLevel := (m_enabledLevel lf)(moduleName \<mapsto> level)\<rparr>,
           set_levels (map snd (filter (\<lambda>i. fst i = moduleName) (m_loggers lf))) level st))"

text \<open>The pieces that \<open>std::getline(ss, s, ':')\<close> returns: no empty piece behind a final colon.\<close>

function getlines :: "string \<Rightarrow> string list" where
  "getlines s =
     (if s = [] then []
      else let piece = takeWhile (\<lambda>c. c \<noteq> CHR '':'') s
           in piece # getlines (drop (length piece + 1) s))"
  by pat_completeness auto
termination
  by (relation "measure length") auto

declare getlines.simps [simp del]

definition parse_module :: "string \<Rightarrow> (string \<times> LogLevel) result" where
  "parse_module configModule =
     (let ind = length (takeWhile (\<lambda>c. c \<noteq> CHR ''='') configModule)
      in if ind = length configModule then Inl (InvalidArgument ''wrong log configuration'')
         else bindE (parseLevel (drop (ind + 1) configModule)) (\<lambda>level.
                Inr (take ind configModule, level)))"

fun apply_modules ::
    "string list \<Rightarrow> LoggerFactory \<times> (nat \<rightharpoonup> logger) \<Rightarrow> error option \<times> LoggerFactory \<times> (nat \<rightharpoonup> logger)" where
  "apply_modules [] s = (None, s)"
| "apply_modules (configModule # rest) s =
     (case parse_module configModule of
        Inl e \<Rightarrow> (Some e, s)
      | Inr (moduleName, level) \<Rightarrow> apply_modules rest (setSeverityLevelImpl moduleName level s))"

definition setSeverityLevelsImpl ::
    "string \<Rightarrow> LoggerFactory \<times> (nat \<rightharpoonup> logger) \<Rightarrow> error option \<times> LoggerFactory \<times> (nat \<rightharpoonup> logger)" where
  "setSeverityLevelsImpl config s = apply_modules (getlines config) s"

definition setDestinationImpl ::
    "nat \<Rightarrow> LoggerFactory \<times> nat list \<Rightarrow> LoggerFactory \<times> nat list" where
  "setDestinationImpl os s =
     (case s of (lf, sinks) \<Rightarrow>
        let sinks = (case m_sink lf of None \<Rightarrow> sinks | Some old \<Rightarrow> remove1 old sinks)
        in (lf\<lparr>m_sink := Some os\<rparr>, os # sinks))"

text \<open>
  The constructor attaches a null stream (number 0) and reads the environment. When it throws,
  the singleton does not exist, but its sink has been registered.
\<close>

definition LoggerFactory_new :: "log_system \<Rightarrow> error option \<times> log_system" where
  "LoggerFactory_new sys =
     (let lf = \<lparr>m_enabledLevel = Map.empty, m_loggers = [], m_sink = None\<rparr>;
          (lf, sinks) = setDestinationImpl 0 (lf, core_sinks sys);
          sys = sys\<lparr>core_sinks := sinks\<rparr>
      in case environ sys of
           None \<Rightarrow> (None, sys\<lparr>instance_of := Some lf\<rparr>)
         | Some config \<Rightarrow>
             (case setSeverityLevelsImpl config (lf, store sys) of
                (Some e, _, st) \<Rightarrow> (Some e, sys\<lparr>store := st\<rparr>)
              | (None, lf, st) \<Rightarrow> (None, sys\<lparr>instance_of := Some lf, store := st\<rparr>)))"

definition get :: "log_system \<Rightarrow> error option \<times> log_system" where
  "get sys = (case instance_of sys of Some _ \<Rightarrow> (None, sys) | None \<Rightarrow> LoggerFactory_new sys)"

text \<open>Run \<open>f\<close> on the singleton, creating it if needed.\<close>

definition with_factory ::
    "(LoggerFactory \<Rightarrow> log_system \<Rightarrow> error option \<times> log_system) \<Rightarrow> log_system \<Rightarrow> error option \<times> log_system" where
  "with_factory f sys =
     (case get sys of
        (Some e, sys) \<Rightarrow> (Some e, sys)
      | (None, sys) \<Rightarrow>
          (case instance_of sys of None \<Rightarrow> (None, sys) | Some lf \<Rightarrow> f lf sys))"

definition enabled_level :: "LoggerFactory \<Rightarrow> string \<Rightarrow> LogLevel" where
  "enabled_level lf moduleName =
     (case m_enabledLevel lf moduleName of
        Some level \<Rightarrow> level
      | None \<Rightarrow> (case m_enabledLevel lf ''*'' of Some level \<Rightarrow> level | None \<Rightarrow> INFO))"

definition addLogger :: "string \<Rightarrow> nat \<Rightarrow> log_system \<Rightarrow> error option \<times> log_system" where
  "addLogger moduleName a =
     with_factory (\<lambda>lf sys.
       let lf = lf\<lparr>m_loggers := (moduleName, a) # m_loggers lf\<rparr>
       in (None, sys\<lparr>instance_of := Some lf,
                     store := set_levels [a] (enabled_level lf moduleName) (store sys)\<rparr>))"

text \<open>Construction of a \<open>Logger\<close> at a new address.\<close>

definition Logger_new :: "string \<Rightarrow> nat \<Rightarrow> log_system \<Rightarrow> error option \<times> log_system" where
  "Logger_new name a sys =
     addLogger name a (sys\<lparr>store := (store sys)(a \<mapsto> \<lparr>m_moduleName = name, m_currentLevel = NONE\<rparr>)\<rparr>)"

definition setSeverityLevels :: "string \<Rightarrow> log_system \<Rightarrow> error option \<times> log_system" where
  "setSeverityLevels config =
     with_factory (\<lambda>lf sys.
       case setSeverityLevelsImpl config (lf, store sys) of
         (e, lf, st) \<Rightarrow> (e, sys\<lparr>instance_of := Some lf, store := st\<rparr>))"

definition setDestination :: "nat \<Rightarrow> log_system \<Rightarrow> error option \<times> log_system" where
  "setDestination os =
     with_factory (\<lambda>lf sys.
       case setDestinationImpl os (lf, core_sinks sys) of
         (lf, sinks) \<Rightarrow> (None, sys\<lparr>instance_of := Some lf, core_sinks := sinks\<rparr>))"

text \<open>
  The public \<open>setSeverityLevel\<close> calls itself: \<open>get()\<close> returns the factory, and the call on it resolves
  to the static function of the same name.
\<close>

partial_function (option) setSeverityLevel ::
    "string \<Rightarrow> LogLevel \<Rightarrow> log_system \<Rightarrow> (error option \<times> log_system) option" where
  "setSeverityLevel moduleName level sys =
     (case get sys of
        (Some e, sys) \<Rightarrow> Some (Some e, sys)
      | (None, sys) \<Rightarrow> setSeverityLevel moduleName level sys)"

section \<open>Consistency of loggers and configuration\<close>

definition consistent :: "LoggerFactory \<Rightarrow> (nat \<rightharpoonup> logger) \<Rightarrow> bool" where
  "consistent lf st \<longleftrightarrow> distinct (map snd (m_loggers lf)) \<and>
     (\<forall>(m, a) \<in> set (m_loggers lf).
        st a = Some \<lparr>m_moduleName = m, m_currentLevel = enabled_level lf m\<rparr>)"

definition sys_inv :: "log_system \<Rightarrow> bool" where
  "sys_inv sys = (case instance_of sys of None \<Rightarrow> True | Some lf \<Rightarrow> consistent lf (store sys))"

lemma set_levels_apply:
  "set_levels as level st a = (if a \<in> set as then map_option (setLevel level) (st a) else st a)"
proof (induction as arbitrary: st)
  case (Cons b as)
  have "map_option (setLevel level) (map_option (setLevel level) x) = map_option (setLevel level) x" for x
    by (cases x) (simp_all add: setLevel_def)
  with Cons show ?case by (simp add: set_levels_def)
qed (simp add: set_levels_def)

lemma loggers_unique:
  "distinct (map snd xs) \<Longrightarrow> (m, a) \<in> set xs \<Longrightarrow> (m', a) \<in> set xs \<Longrightarrow> m = m'"
  by (induction xs) force+

lemma setSeverityLevelImpl_loggers [simp]:
  "m_loggers (fst (setSeverityLevelImpl m l s)) = m_loggers (fst s)"
  by (simp add: setSeverityLevelImpl_def split_beta)

lemma setSeverityLevelImpl_consistent:
  assumes "consistent (fst s) (snd s)"
  shows "consistent (fst (setSeverityLevelImpl m l s)) (snd (setSeverityLevelImpl m l s))"
proof -
  obtain lf st where s: "s = (lf, st)" by force
  have d: "distinct (map snd (m_loggers lf))" using assms s by (simp add: consistent_def)
  have lev: "st a = Some \<lparr>m_moduleName = n, m_currentLevel = enabled_level lf n\<rparr>"
    if "(n, a) \<in> set (m_loggers lf)" for n a
    using assms s that by (auto simp: consistent_def)
  have "snd (setSeverityLevelImpl m l s) a =
      Some \<lparr>m_moduleName = n, m_currentLevel = enabled_level (fst (setSeverityLevelImpl m l s)) n\<rparr>"
    if na: "(n, a) \<in> set (m_loggers lf)" for n a
  proof (cases "m = ''*''")
    case True
    have "a \<in> snd ` set (m_loggers lf)" using na by force
    with True na lev show ?thesis
      by (simp add: s setSeverityLevelImpl_def set_levels_apply setLevel_def enabled_level_def)
  next
    case False
    have "a \<in> snd ` {i \<in> set (m_loggers lf). fst i = m} \<longleftrightarrow> n = m"
    proof
      assume "a \<in> snd ` {i \<in> set (m_loggers lf). fst i = m}"
      then have "(m, a) \<in> set (m_loggers lf)" by auto
      then show "n = m" using loggers_unique [OF d na] by blast
    next
      assume "n = m"
      then show "a \<in> snd ` {i \<in> set (m_loggers lf). fst i = m}"
        using na by (intro image_eqI [of _ _ "(m, a)"]) simp_all
    qed
    with False na lev show ?thesis
      by (simp add: s setSeverityLevelImpl_def set_levels_apply setLevel_def enabled_level_def
          split: option.split)
  qed
  then show ?thesis
    using d by (auto simp: consistent_def s setSeverityLevelImpl_def [of m l "(lf, st)"] split: if_splits)
qed

lemma apply_modules_consistent:
  assumes "consistent (fst s) (snd s)" "apply_modules ms s = (e, lf, st)"
  shows "consistent lf st"
  using assms
proof (induction ms s rule: apply_modules.induct)
  case (2 c rest s)
  then show ?case
    using setSeverityLevelImpl_consistent by (auto split: sum.splits prod.splits)
qed simp

lemma LoggerFactory_new_inv: "sys_inv sys \<Longrightarrow> instance_of sys = None \<Longrightarrow> sys_inv (snd (LoggerFactory_new sys))"
proof -
  assume none: "instance_of sys = None"
  let ?lf = "\<lparr>m_enabledLevel = Map.empty, m_loggers = [], m_sink = Some 0\<rparr>"
  have c: "consistent ?lf (store sys)" by (simp add: consistent_def)
  show ?thesis
  proof (cases "environ sys")
    case None
    with none c show ?thesis
      by (simp add: LoggerFactory_new_def setDestinationImpl_def sys_inv_def)
  next
    case (Some config)
    obtain e lf st where a: "setSeverityLevelsImpl config (?lf, store sys) = (e, lf, st)"
      by (metis prod_cases3)
    then have "consistent lf st"
      using apply_modules_consistent [of "(?lf, store sys)"] c by (simp add: setSeverityLevelsImpl_def)
    with Some none a show ?thesis
      by (cases e) (simp_all add: LoggerFactory_new_def setDestinationImpl_def sys_inv_def)
  qed
qed

lemma get_inv: "sys_inv sys \<Longrightarrow> sys_inv (snd (get sys))"
  using LoggerFactory_new_inv by (auto simp: get_def split: option.splits)

lemma with_factory_inv:
  assumes "sys_inv sys"
    and "\<And>lf s. instance_of s = Some lf \<Longrightarrow> consistent lf (store s) \<Longrightarrow> s = snd (get sys) \<Longrightarrow> sys_inv (snd (f lf s))"
  shows "sys_inv (snd (with_factory f sys))"
  using get_inv [OF assms(1)] assms(2)
  by (auto simp: with_factory_def sys_inv_def split: prod.splits option.splits)

lemma enabled_level_update [simp]:
  "enabled_level (lf\<lparr>m_loggers := ls\<rparr>) m = enabled_level lf m"
  "enabled_level (lf\<lparr>m_sink := sk\<rparr>) m = enabled_level lf m"
  by (simp_all add: enabled_level_def cong: option.case_cong)

lemma addLogger_inv:
  assumes "sys_inv sys" "store sys a = Some \<lparr>m_moduleName = name, m_currentLevel = lv\<rparr>"
    and fresh: "\<forall>lf. instance_of (snd (get sys)) = Some lf \<longrightarrow> a \<notin> snd ` set (m_loggers lf)"
    and same: "store (snd (get sys)) a = store sys a"
  shows "sys_inv (snd (addLogger name a sys))"
  unfolding addLogger_def
proof (rule with_factory_inv [OF assms(1)])
  fix lf s
  assume s: "instance_of s = Some lf" "consistent lf (store s)" "s = snd (get sys)"
  have a: "store s a = Some \<lparr>m_moduleName = name, m_currentLevel = lv\<rparr>" using same assms(2) s(3) by simp
  have "b \<noteq> a" if "(m, b) \<in> set (m_loggers lf)" for m b using fresh s that by force
  then show "sys_inv (snd (let lf = lf\<lparr>m_loggers := (name, a) # m_loggers lf\<rparr>
       in (None, s\<lparr>instance_of := Some lf,
                     store := set_levels [a] (enabled_level lf name) (store s)\<rparr>)))"
    using s(2) a fresh s(1,3)
    by (auto simp: sys_inv_def consistent_def set_levels_apply setLevel_def Let_def)
qed

text \<open>The store is not touched by the construction of the factory, which knows no logger yet.\<close>

lemma setSeverityLevelImpl_no_loggers:
  "m_loggers (fst s) = [] \<Longrightarrow> snd (setSeverityLevelImpl m l s) = snd s"
  by (simp add: setSeverityLevelImpl_def set_levels_def split_beta)

lemma apply_modules_no_loggers:
  assumes "m_loggers (fst s) = []" "apply_modules ms s = (e, lf, st)"
  shows "st = snd s \<and> m_loggers lf = []"
  using assms
proof (induction ms s rule: apply_modules.induct)
  case (2 c rest s)
  then show ?case
    by (auto simp: setSeverityLevelImpl_no_loggers split: sum.splits prod.splits)
qed auto

lemma get_effect:
  shows "store (snd (get sys)) = store sys"
    and "instance_of sys = None \<Longrightarrow> instance_of (snd (get sys)) = Some lf \<Longrightarrow> m_loggers lf = []"
    and "instance_of sys = Some lf' \<Longrightarrow> snd (get sys) = sys"
proof -
  let ?lf = "\<lparr>m_enabledLevel = Map.empty, m_loggers = [], m_sink = Some 0\<rparr>"
  have none: "st = store sys \<and> m_loggers l = []"
    if "setSeverityLevelsImpl config (?lf, store sys) = (e, l, st)" for config e l st
    using apply_modules_no_loggers [of "(?lf, store sys)"] that by (simp add: setSeverityLevelsImpl_def)
  show "store (snd (get sys)) = store sys"
    using none by (auto simp: get_def LoggerFactory_new_def setDestinationImpl_def Let_def
        split: option.splits prod.splits)
  show "m_loggers lf = []" if "instance_of sys = None" "instance_of (snd (get sys)) = Some lf"
    using none that by (auto simp: get_def LoggerFactory_new_def setDestinationImpl_def Let_def
        split: option.splits prod.splits)
  show "snd (get sys) = sys" if "instance_of sys = Some lf'" using that by (simp add: get_def)
qed

inductive log_step :: "log_system \<Rightarrow> log_system \<Rightarrow> bool" where
  construct_logger: "store sys a = None \<Longrightarrow> log_step sys (snd (Logger_new name a sys))"
| set_levels: "log_step sys (snd (setSeverityLevels config sys))"
| set_destination: "log_step sys (snd (setDestination os sys))"

inductive_cases log_stepE: "log_step sys sys'"

definition initial_system :: "string option \<Rightarrow> log_system" where
  "initial_system env = \<lparr>environ = env, instance_of = None, store = Map.empty, core_sinks = []\<rparr>"

lemma Logger_new_inv:
  assumes "sys_inv sys" "store sys a = None"
  shows "sys_inv (snd (Logger_new name a sys))"
proof -
  let ?l = "\<lparr>m_moduleName = name, m_currentLevel = NONE\<rparr>"
  let ?sys = "sys\<lparr>store := (store sys)(a \<mapsto> ?l)\<rparr>"
  have na: "a \<notin> snd ` set (m_loggers lf)" if "instance_of sys = Some lf" for lf
    using assms that by (force simp: sys_inv_def consistent_def)
  then have inv: "sys_inv ?sys"
    using assms(1) by (auto simp: sys_inv_def consistent_def image_iff split: option.splits)
  have fresh: "\<forall>lf. instance_of (snd (get ?sys)) = Some lf \<longrightarrow> a \<notin> snd ` set (m_loggers lf)"
    using get_effect(2,3) [of ?sys] na by (cases "instance_of sys") auto
  show ?thesis
    unfolding Logger_new_def by (rule addLogger_inv [OF inv _ fresh]) (simp_all add: get_effect(1))
qed

lemma log_step_inv: "log_step sys sys' \<Longrightarrow> sys_inv sys \<Longrightarrow> sys_inv sys'"
proof (induction rule: log_step.induct)
  case (construct_logger sys a name)
  then show ?case by (rule Logger_new_inv [rotated])
next
  case (set_levels sys config)
  then show ?case
    unfolding setSeverityLevels_def
    using apply_modules_consistent
    by (intro with_factory_inv) (auto simp: setSeverityLevelsImpl_def sys_inv_def split: prod.splits)
next
  case (set_destination sys os)
  then show ?case
    unfolding setDestination_def
    by (intro with_factory_inv)
      (auto simp: setDestinationImpl_def sys_inv_def consistent_def Let_def)
qed

section \<open>Properties\<close>

text \<open>
  C35. In every state reachable by constructing loggers, setting severity levels (also with configuration
  strings that are rejected half-way) and redirecting the output, each registered logger has the level that
  the configuration gives its module: its own entry, else the entry of \<open>*\<close>, else INFO.
\<close>
theorem loggers_follow_configuration:
  assumes "log_step\<^sup>*\<^sup>* (initial_system env) sys" "instance_of sys = Some lf" "(m, a) \<in> set (m_loggers lf)"
  shows "store sys a = Some \<lparr>m_moduleName = m, m_currentLevel = enabled_level lf m\<rparr>"
proof -
  have "sys_inv sys"
    using assms(1)
  proof (induction rule: rtranclp_induct)
    case base
    show ?case by (simp add: sys_inv_def initial_system_def)
  next
    case (step y z)
    then show ?case using log_step_inv by blast
  qed
  with assms(2,3) show ?thesis by (auto simp: sys_inv_def consistent_def)
qed

theorem loggers_follow_configuration_witness:
  "\<exists>sys lf. log_step\<^sup>*\<^sup>* (initial_system (Some ''A=DEBUG'')) sys \<and> instance_of sys = Some lf
     \<and> (''A'', 7) \<in> set (m_loggers lf)
     \<and> store sys 7 = Some \<lparr>m_moduleName = ''A'', m_currentLevel = DEBUG\<rparr>"
proof -
  let ?sys = "snd (Logger_new ''A'' 7 (initial_system (Some ''A=DEBUG'')))"
  define lf where "lf = \<lparr>m_enabledLevel = [''A'' \<mapsto> DEBUG], m_loggers = [(''A'', 7)], m_sink = Some 0\<rparr>"
  have r: "log_step\<^sup>*\<^sup>* (initial_system (Some ''A=DEBUG'')) ?sys"
    by (intro r_into_rtranclp construct_logger) (simp add: initial_system_def)
  have i: "instance_of ?sys = Some lf"
    by (simp add: Logger_new_def addLogger_def with_factory_def get_def LoggerFactory_new_def lf_def
        initial_system_def setDestinationImpl_def setSeverityLevelsImpl_def getlines.simps
        parse_module_def parseLevel_def setSeverityLevelImpl_def Let_def)
  have m: "(''A'', 7) \<in> set (m_loggers lf)" by (simp add: lf_def)
  have "enabled_level lf ''A'' = DEBUG" by (simp add: lf_def enabled_level_def)
  then show ?thesis using loggers_follow_configuration [OF r i m] r i m by auto
qed

section \<open>Configuration strings\<close>

fun show_level :: "LogLevel \<Rightarrow> string" where
  "show_level FATAL = ''FATAL''"
| "show_level NONE = ''NONE''"
| "show_level ERROR = ''ERROR''"
| "show_level WARN = ''WARN''"
| "show_level INFO = ''INFO''"
| "show_level DEBUG = ''DEBUG''"
| "show_level TRACE = ''TRACE''"
| "show_level LogLevel_ALL = ''ALL''"

definition show_module :: "string \<times> LogLevel \<Rightarrow> string" where
  "show_module p = fst p @ ''='' @ show_level (snd p)"

fun show_config :: "string list \<Rightarrow> string" where
  "show_config [] = ''''"
| "show_config [p] = p"
| "show_config (p # ps) = p @ '':'' @ show_config ps"

lemma parseLevel_show [simp]: "parseLevel (show_level l) = Inr l"
  by (cases l) (simp_all add: parseLevel_def)

lemma parse_module_show: "CHR ''='' \<notin> set m \<Longrightarrow> parse_module (show_module (m, l)) = Inr (m, l)"
proof -
  assume m: "CHR ''='' \<notin> set m"
  have "takeWhile (\<lambda>c. c \<noteq> CHR ''='') (m @ CHR ''='' # r) = m" for r
    using m by (subst takeWhile_append2) auto
  then show ?thesis by (simp add: parse_module_def show_module_def Let_def)
qed

lemma getlines_show_config:
  assumes "\<forall>p \<in> set ps. CHR '':'' \<notin> set p \<and> p \<noteq> []"
  shows "getlines (show_config ps) = ps"
  using assms
proof (induction ps rule: show_config.induct)
  case (2 p)
  then have "takeWhile (\<lambda>c. c \<noteq> CHR '':'') p = p" by (auto simp: takeWhile_eq_all_conv)
  then show ?case using 2 by (simp add: getlines.simps [of p] getlines.simps [of "[]"] Let_def del: takeWhile_eq_all_conv)
next
  case (3 p q ps)
  let ?r = "show_config (q # ps)"
  have "takeWhile (\<lambda>c. c \<noteq> CHR '':'') (p @ CHR '':'' # ?r) = p"
    using 3(2) by (subst takeWhile_append2) auto
  then show ?case using 3 by (simp add: getlines.simps [of "p @ CHR '':'' # ?r"] Let_def)
qed (simp add: getlines.simps)

lemma apply_modules_show:
  assumes "\<forall>p \<in> set ps. CHR ''='' \<notin> set (fst p)"
  shows "apply_modules (map show_module ps @ rest) s
    = apply_modules rest (fold (\<lambda>(m, l). setSeverityLevelImpl m l) ps s)"
  using assms
proof (induction ps arbitrary: s)
  case (Cons p ps)
  then show ?case by (cases p) (simp add: parse_module_show)
qed simp

definition bad_module :: "string \<Rightarrow> bool" where
  "bad_module p \<longleftrightarrow> p \<noteq> [] \<and> CHR '':'' \<notin> set p \<and> CHR ''='' \<notin> set p"

lemma parse_module_bad:
  assumes "bad_module b"
  shows "parse_module b = Inl (InvalidArgument ''wrong log configuration'')"
proof -
  have "takeWhile (\<lambda>c. c \<noteq> CHR ''='') b = b" using assms by (auto simp: takeWhile_eq_all_conv bad_module_def)
  then have "length (takeWhile (\<lambda>c. c \<noteq> CHR ''='') b) = length b" by (rule arg_cong)
  then show ?thesis by (simp add: parse_module_def Let_def)
qed

text \<open>
  A configuration string is applied from left to right: printing a list of module/level pairs and passing the
  text to \<open>setSeverityLevels\<close> performs the assignments in order. When a later piece has no \<open>=\<close>, the call
  throws \<open>std::invalid_argument\<close>, but the assignments before the bad piece have already been made.
\<close>
theorem setSeverityLevels_applies_in_order:
  assumes "\<forall>p \<in> set ps. CHR ''='' \<notin> set (fst p) \<and> CHR '':'' \<notin> set (fst p)" "bad_module b"
  shows "setSeverityLevelsImpl (show_config (map show_module ps)) s
      = (None, fold (\<lambda>(m, l). setSeverityLevelImpl m l) ps s)
    \<and> setSeverityLevelsImpl (show_config (map show_module ps @ [b])) s
      = (Some (InvalidArgument ''wrong log configuration''),
         fold (\<lambda>(m, l). setSeverityLevelImpl m l) ps s)"
proof -
  have lvl: "CHR '':'' \<notin> set (show_level l)" for l by (cases l) simp_all
  have "\<forall>p \<in> set (map show_module ps). CHR '':'' \<notin> set p \<and> p \<noteq> []"
    using assms(1) lvl by (auto simp: show_module_def)
  moreover from this have "\<forall>p \<in> set (map show_module ps @ [b]). CHR '':'' \<notin> set p \<and> p \<noteq> []"
    using assms(2) by (simp add: bad_module_def)
  ultimately have g: "getlines (show_config (map show_module ps)) = map show_module ps"
    "getlines (show_config (map show_module ps @ [b])) = map show_module ps @ [b]"
    by (simp_all only: getlines_show_config)
  have eq: "\<forall>p \<in> set ps. CHR ''='' \<notin> set (fst p)" using assms(1) by blast
  show ?thesis
    using apply_modules_show [OF eq, of "[]" s] apply_modules_show [OF eq, of "[b]" s]
    unfolding setSeverityLevelsImpl_def g by (simp add: parse_module_bad [OF assms(2)])
qed

theorem setSeverityLevels_applies_in_order_witness:
  "let s = (\<lparr>m_enabledLevel = Map.empty, m_loggers = [(''A'', 7)], m_sink = None\<rparr>,
            [7 \<mapsto> \<lparr>m_moduleName = ''A'', m_currentLevel = INFO\<rparr>])
   in fst (setSeverityLevelsImpl ''A=DEBUG:B'' s) = Some (InvalidArgument ''wrong log configuration'')
      \<and> snd (setSeverityLevelsImpl ''A=DEBUG:B'' s) = setSeverityLevelImpl ''A'' DEBUG s"
  using setSeverityLevels_applies_in_order [of "[(''A'', DEBUG)]" "''B''"]
  by (simp add: bad_module_def show_module_def Let_def)

text \<open>
  A FATAL message is enabled at every level of the logger, a message that is enabled stays enabled
  when the level is raised, and the levels NONE and FATAL suppress everything else.
\<close>
theorem isLevelEnabled_levels:
  "isLevelEnabled l FATAL
   \<and> (isLevelEnabled l lv \<longrightarrow> m_currentLevel l \<le> lv' \<longrightarrow> isLevelEnabled (setLevel lv' l) lv)
   \<and> (lv \<notin> {FATAL, NONE} \<longrightarrow> \<not> isLevelEnabled (setLevel NONE l) lv \<and> \<not> isLevelEnabled (setLevel FATAL l) lv)"
  by (cases "m_currentLevel l"; cases lv)
    (auto simp: isLevelEnabled_def setLevel_def less_eq_LogLevel_def)

theorem isLevelEnabled_levels_witness:
  "\<not> isLevelEnabled (setLevel NONE \<lparr>m_moduleName = ''A'', m_currentLevel = INFO\<rparr>) ERROR"
  using isLevelEnabled_levels [of "\<lparr>m_moduleName = ''A'', m_currentLevel = INFO\<rparr>" ERROR] by simp

text \<open>
  The public \<open>LoggerFactory::setSeverityLevel\<close> never returns once the factory exists: it calls itself
  instead of \<open>setSeverityLevelImpl\<close>.
\<close>
theorem setSeverityLevel_diverges:
  assumes "instance_of sys = Some lf"
  shows "setSeverityLevel moduleName level sys = None"
proof -
  have "instance_of sys = None" if "setSeverityLevel moduleName level sys = Some r" for r
    by (rule setSeverityLevel.raw_induct [where P = "\<lambda>_ _ s _. instance_of s = None", OF _ that])
      (auto simp: get_def split: prod.splits option.splits)
  then show ?thesis using assms by (cases "setSeverityLevel moduleName level sys") auto
qed

theorem setSeverityLevel_diverges_witness:
  "setSeverityLevel ''A'' DEBUG (snd (get (initial_system None))) = None"
  by (rule setSeverityLevel_diverges
      [of _ "\<lparr>m_enabledLevel = Map.empty, m_loggers = [], m_sink = Some 0\<rparr>"])
    (simp add: get_def initial_system_def LoggerFactory_new_def setDestinationImpl_def)

end
