(* ===== verification/Spec2Isabelle.thy ===== *)
theory Spec2Isabelle
  imports StoragePolicies FaceProperties Scheduler Signals Logger
begin

text \<open>
  \<^bold>\<open>ndn-cxx: a verification library.\<close>
  The repository is the C++ library of Named Data Networking (\<open>src/src/\<close> below). Its core is the TLV packet format: numbers
  and elements, an encoder that fills a buffer from the back together with an estimator that predicts the
  size, and the classes of the two packets, each of which keeps its members beside a cached wire encoding.
  Above it is the face of an application: it sends and receives packets with NDNLPv2 headers over a stream transport, keeps the Interests that wait for an answer, and
  dispatches received Interests to filters. Around them are services: an in-memory storage of Data packets, regular expressions on names, control commands for the
  forwarder, signals, an event scheduler over a deadline timer, and the logging facility that this fork adds.

  \<^bold>\<open>Theories, bottom up.\<close>
  \<^item> \<open>Prelude\<close>: machine words, exceptions as the datatype \<open>error\<close>, the error monad \<open>bindE\<close>, iterator ranges, big-endian integers.
  \<^item> \<open>Tlv\<close> (\<open>encoding/tlv.hpp\<close>): VAR-NUMBER and nonNegativeInteger, readers and writers.
  \<^item> \<open>Block\<close> (\<open>encoding/block.{hpp,cpp}\<close>): an element as four offsets into a shared immutable buffer and a list of parsed
    elements; constructors, \<open>parse\<close>, \<open>encode\<close>, element access; the well-formedness \<open>wf_block\<close>.
  \<^item> \<open>Encoder\<close> (\<open>encoding/encoder\<close>, \<open>estimator\<close>, \<open>encoding-buffer\<close>): code that is generic in \<open>EncodingImpl<TAG>\<close> takes a record
    of operations; an encoder remembers a write outside its buffer, which the invariant excludes; the locales \<open>encoding_impl\<close> and \<open>encoding_impl_append\<close> say what it relies on and are interpreted
    on the encoder and on the estimator, so that each \<open>wireEncode\<close> is analysed once for both.
  \<^item> \<open>BlockHelpers\<close> (\<open>encoding/block-helpers\<close>, \<open>Block::fromStream\<close>): number, string, binary and nested blocks; streams.
  \<^item> \<open>WireElement\<close>: what all classes with a wire share. The locale \<open>wire_element\<close> is the contract of \<open>wireDecode\<close>
    (the canonical encoding of every good abstract value is decoded to that value), \<open>wire_codec\<close> adds \<open>wireEncode\<close>; round trip and
    correctness of \<open>operator==\<close> are proved in them once. Name, Exclude, KeyLocator, MetaInfo, Selectors,
    SignatureInfo, Data, Link and Interest interpret them.
  \<^item> \<open>StringHelper\<close>, \<open>NameComponent\<close>, \<open>Name\<close> (\<open>util/string-helper\<close>, \<open>name-component\<close>, \<open>name\<close>): percent-encoding, the canonical
    order, successors, prefixes, URIs.
  \<^item> \<open>OrderedMap\<close>, \<open>Exclude\<close> (\<open>exclude\<close>): the \<open>std::map\<close> in descending order, and the filter as a set of components.
  \<^item> \<open>KeyLocator\<close>, \<open>MetaInfo\<close>, \<open>Selectors\<close>, \<open>ValidityPeriod\<close>, \<open>SignatureInfo\<close> (with \<open>signature\<close>), \<open>Data\<close>: one theory per class,
    its members as a record, one definition per method. Methods that are \<open>const\<close> but change \<open>mutable\<close> members return the
    object too; methods that throw after changing the object return the exception and the changed object (for Data, the definitions whose
    names end in \<open>_full\<close>; the same name without it drops the object when there is an exception).
  \<^item> \<open>Link\<close>, \<open>Interest\<close>, \<open>InterestMatching\<close> (\<open>link\<close>, \<open>interest\<close>): the delegation set of a Link and the queries on its wire; the Interest
    with its nonce, selectors, link and selected delegation; \<open>matchesName\<close> and \<open>matchesData\<close>. \<open>SharedBuffer\<close> holds what
    overwriting bytes in the buffer under a wire does to the elements parsed from it, for \<open>setNonce\<close>.
  \<^item> \<open>InMemoryStorage\<close>, \<open>StoragePolicies\<close> (\<open>util/in-memory-storage*\<close>): the cache by full name, the pool of entries, lookup by
    name and by Interest, erasing; the locale \<open>cleanup_policy\<close> is what the base class relies on in its derived classes, and is interpreted on
    FIFO, LRU, the persistent storage, and (through the locale \<open>frequency_index\<close>) LFU.
  \<^item> \<open>NameRegex\<close>, \<open>NameRegexTop\<close> (\<open>util/regex/*\<close>), \<open>InterestFilter\<close> (\<open>interest-filter\<close>): the compiler from expressions to matchers, matching with back references, and
    filters with a prefix and an expression; the language of a matcher is the specification.
  \<^item> \<open>LpHeaders\<close>, \<open>LpPacket\<close> (\<open>lp/*\<close>): Nack and cache policy headers, field declarations, and the packet as a map from field types to values; the locale
    \<open>lp_field\<close> is the contract of a field declaration and is interpreted on all eight of them.
  \<^item> \<open>NfdControl\<close> (\<open>management/nfd-control-*\<close>, \<open>mgmt/control-response\<close>): parameters, commands with their validation and defaults, responses.
  \<^item> \<open>StreamTransport\<close> (\<open>transport/stream-transport.hpp\<close>, \<open>unix-transport\<close>, \<open>tcp-transport\<close>): connection, transmission queue and reassembly of elements, with the completion
    handlers of asio as operations.
  \<^item> \<open>Face\<close>, \<open>FaceProperties\<close> (\<open>face.cpp\<close>, \<open>detail/face-impl.hpp\<close>, \<open>detail/pending-interest.hpp\<close>, \<open>management/nfd-controller.cpp\<close>): the three tables of a face, its calls, handlers and
    posted tasks, with callbacks that call the face again and may throw; a step relation of all events.
  \<^item> \<open>Signals\<close> (\<open>util/signal-*\<close>): slots and connections, emission with handlers that connect and disconnect.
  \<^item> \<open>Scheduler\<close> (\<open>util/scheduler\<close>, \<open>util/scheduler-scoped-event-id\<close>): the event queue with explicit clock readings; a step
    relation of the calls and timer expiries.
  \<^item> \<open>Logger\<close> (\<open>util/logger\<close>, \<open>util/logger-factory\<close>): loggers in a store, configuration strings, a step relation.

  \<^bold>\<open>What is shown.\<close>
  Numbers, blocks, components, names, and the classes with a wire round-trip; the encoder is a byte string that grows at both ends,
  never writes outside its buffer, grows by what the estimator predicts, and is filled exactly, without reallocation, when it has the estimated size (\<open>estimated_encoders_exact\<close> below, on names, Interests and
  Data packets); parsing inverts concatenation; the order of components and names
  is the canonical order and total; \<open>isExcluded\<close> decides the set of excluded components, and the operations of Exclude add to it the
  interval that they are given, unless it lies inside a range; signing in two steps gives the packet that encoding in one step would, and the full name
  of a Data packet is never stale, also after operations that threw; an Interest matches the packets that its selectors describe, and its nonce is replaced in the wire without any other
  byte changing; adding and removing delegations are the operations on a map; the storage keeps its
  invariant and its limit whatever is called, evicts in the order that its policy promises, and returns the leftmost matching packet; a name matches an expression if and only if it is in the language of the expression; an NDNLPv2 packet is a map that round-trips, and its decoder accepts exactly the field
  sequences in order; control parameters round-trip; a stream cut into any pieces is reassembled into the elements that were sent, and packets are sent in order; a pending Interest is answered at most once, or twice if its timeout callback threw in an application that goes on after that, a
  Data packet satisfies exactly the pending Interests that match, and packets sent by one face are decoded as the same packets by another; the scheduler loses no wake-up and fires every due event once, in order; loggers follow
  the configuration. Where the code departs from what its comments or its other half say, a theorem states what it
  does instead: accumulating decoders, stale wires, reversed elements, events lost after an exception, dangling iterators after
  \<open>cancelAllEvents\<close>, a function that calls itself for ever, a storage whose capacity shrinks to 0.

  \<^bold>\<open>Bounds and partiality.\<close>
  Round trips assume that the whole element is smaller than \<open>2 ^ 64\<close> bytes, the range of TLV-LENGTH, and smaller than
  \<open>2 ^ 32\<close> where the 32-bit \<open>m_size\<close> of a nested block is used. Loops over data are structurally recursive or have a
  termination proof (\<open>parse_loop\<close>, \<open>successor_loop\<close>, \<open>compare_loop\<close>, \<open>evict_loop\<close>, \<open>right_loop\<close>). The loops that need not end, among them \<open>event_loop\<close> of the
  scheduler, the loops over the pending Interests of a face and the self-call in \<open>setSeverityLevel\<close>, are partial functions into \<^typ>\<open>'a option\<close>; for \<open>event_loop\<close>, termination is proved for callbacks
  that do not schedule due events, for \<open>satisfy_loop\<close>, for callbacks that only post to the event loop, and for \<open>setSeverityLevel\<close>, divergence.
  Undefined behaviour is the error \<open>UndefinedBehaviour\<close>, which no theorem excludes by fiat.

  \<^bold>\<open>Parameters.\<close>
  CryptoPP (hexadecimal filters, SHA-256), \<open>boost::trim\<close>, Boost.Date_Time and Boost.Chrono formatting, the position of equal elements in a
  Boost.MultiIndex index, the random generator and the byte order of the host are arguments of the
  definitions that use them, as are \<open>boost::regex\<close> and the signing of command Interests by the key chain, with the documented laws as hypotheses; clock readings and the behaviour of callbacks are arguments.

  \<^bold>\<open>Not modelled.\<close>
  Sockets and the event loop of asio (their operations and completions are explicit); key chain, key storage (SQLite, the OSX key chain, TPM), validators and
  cryptography, which consist of calls to CryptoPP, SQLite and system services; what rests on them and on the face with callbacks of its own: the management dispatcher, the segment fetcher; face URIs
  (address parsing of asio), network monitoring, DNS, clocks; the data structures of NFD status datasets other than control parameters; the deprecated local control headers and registration overloads; the asynchronous
  back end of Boost.Log. A buffer
  is a value: two blocks that share a buffer are two equal values, which is exact as long as nobody writes into a buffer
  that is shared; the only code that does is \<open>Interest::setNonce\<close>, whose model overwrites the buffers of the Interest itself and
  not those of its copies.
\<close>

section \<open>Encoders of the estimated size\<close>

text \<open>An encoder that was created for \<open>n\<close> bytes, holds \<open>bs\<close>, and has neither been reallocated nor has any byte left.\<close>

definition exactly_filled :: "nat \<Rightarrow> byte list \<Rightarrow> encoder \<Rightarrow> bool" where
  "exactly_filled n bs e \<longleftrightarrow> enc_inv e \<and> capacity e = n \<and> Encoder_size e = n \<and> e_buffer e = bs"

lemma emitter_filled:
  assumes "emitter enc_emits f bs" "n = length bs"
  shows "\<exists>e. f (Encoder_new n 0) = (n, e) \<and> exactly_filled n bs e"
proof -
  have "fst (f (Encoder_new n 0)) = n" using assms by (simp add: emitter_def)
  moreover have "exactly_filled n bs (snd (f (Encoder_new n 0)))"
    using exact_encoder [OF assms(1)] assms(2) by (simp add: exactly_filled_def)
  ultimately show ?thesis by (metis prod.collapse)
qed

lemma emitterE_filled:
  assumes "emitterE enc_emits f bs" "n = length bs"
  shows "\<exists>e. f (Encoder_new n 0) = Inr (n, e) \<and> exactly_filled n bs e"
proof -
  obtain g where "\<And>e. f e = Inr (g e)" "emitter enc_emits g bs" using assms(1) by (auto simp: emitterE_def)
  then show ?thesis using emitter_filled [OF _ assms(2)] by simp
qed

lemma Name_fills: 
  assumes "is_name x"
  shows "\<exists>n e. Name_wireEncode_to EncodingEstimator x () = (n, ()) \<and> Name_wireEncode_to EncodingBuffer x (Encoder_new n 0) = (n, e)
    \<and> exactly_filled n (tlv_bytes tlv_Name (name_value x)) e"
proof -
  have "fst (Name_wireEncode_to EncodingEstimator x ()) = length (tlv_bytes tlv_Name (name_value x))"
    by (rule emitter_length [OF estimator.Name_wireEncode_to_emits [OF assms]])
  then show ?thesis
    using emitter_filled [OF encoder.Name_wireEncode_to_emits [OF assms]] by (metis old.unit.exhaust prod.collapse)
qed

lemma Interest_fills:
  assumes "interest_inv i" "\<not> hasWire (i_wire i)" "good_interest (interest_of (nonced le gen i g))"
  shows "\<exists>n e i' g'. Interest_wireEncode_to EncodingEstimator le gen i g () = Inr (n, (), i', g')
    \<and> Interest_wireEncode_to EncodingBuffer le gen i' g' (Encoder_new n 0) = Inr (n, e, i', g')
    \<and> exactly_filled n (tlv_bytes tlv_Interest (interest_value (interest_of (nonced le gen i g)))) e"
proof -
  let ?i = "nonced le gen i g" and ?g = "if hasNonce i then g else snd (gen g)"
  let ?bs = "tlv_bytes tlv_Interest (interest_value (interest_of ?i))"
  note facts = nonced_facts [OF assms(1,2), of le gen g]
  note est = estimator.Interest_wireEncode_to_emits [OF facts(1) assms(3) facts(2), of le gen ?g]
  note enc = encoder.Interest_wireEncode_to_emits [OF facts(1) assms(3) facts(2), of le gen ?g]
  obtain n where n: "Interest_wireEncode_to EncodingEstimator le gen ?i ?g () = Inr (n, (), ?i, ?g)" using est(2) [of "()"] by auto
  then have len: "n = length ?bs" using emitterE_run [OF est(1), of "()"] by auto
  obtain k e where run: "Interest_wireEncode_to EncodingBuffer le gen ?i ?g (Encoder_new n 0) = Inr (k, e, ?i, ?g)" using enc(2) by blast
  then have "k = n" "exactly_filled n ?bs e" using emitterE_filled [OF enc(1) len] by auto
  then show ?thesis
    using n run Interest_wireEncode_to_nonced [OF assms(1,2), of EncodingEstimator le gen g "()"] by auto
qed

lemma Data_fills:
  assumes "data_inv d" "good_packet (packet_of d)" "length (tlv_bytes tlv_Data (packet_value (packet_of d))) < 2 ^ 32"
  shows "\<exists>n e d'. Data_wireEncode_to EncodingEstimator False d () = Inr (n, (), d')
    \<and> Data_wireEncode_to EncodingBuffer False d' (Encoder_new n 0) = Inr (n, e, d')
    \<and> exactly_filled n (tlv_bytes tlv_Data (packet_value (packet_of d))) e"
proof -
  let ?p = "packet_of d" and ?bs = "tlv_bytes tlv_Data (packet_value (packet_of d))"
  have "length (packet_value ?p) < 2 ^ 32" using assms(3) by simp
  then obtain v i c d1 where parts: "Data_parts False d = Inr ([v], i, c, d1)"
    "canonical tlv_SignatureValue v" "value_bytes v = p_sigValue ?p"
    "canonical tlv_SignatureInfo i" "value_bytes i = sig_value (p_sig ?p)"
    "canonical tlv_Content c" "value_bytes c = p_content ?p"
    "packet_of d1 = ?p" "d_name d1 = d_name d" "d_metaInfo d1 = d_metaInfo d" "Data_parts False d1 = Inr ([v], i, c, d1)"
    by (rule Data_parts_signed [OF assms(1)])
  have nm: "is_name (d_name d1)" "name_of (d_name d1) = p_name ?p" "meta_info_inv (d_metaInfo d1)" "meta_of (d_metaInfo d1) = p_meta ?p"
    using assms(1) parts(9,10) by (simp_all add: data_inv_def unsigned_inv_def packet_of_def)
  note est = estimator.Data_wireEncode_to_signed [OF parts(1-7) nm]
  note enc = encoder.Data_wireEncode_to_signed [OF parts(11,2-7) nm]
  obtain n where n: "Data_wireEncode_to EncodingEstimator False d () = Inr (n, (), d1)" using est(2) [of "()"] by auto
  then have len: "n = length ?bs" using emitterE_run [OF est(1), of "()"] by auto
  obtain k e where run: "Data_wireEncode_to EncodingBuffer False d1 (Encoder_new n 0) = Inr (k, e, d1)" using enc(2) by blast
  then have "k = n" "exactly_filled n ?bs e" using emitterE_filled [OF enc(1) len] by auto
  then show ?thesis using n run by blast
qed

text \<open>
  C37. The two passes of encoding fit together. For a name, an Interest without a cached wire (with a nonce of its own or a generated one) and a signed Data packet, the pass with the
  estimator succeeds and yields a number; encoding the object that this pass leaves into a buffer created with that many bytes succeeds, yields the same number, never enlarges the
  buffer and fills it from the first to the last byte with the wire of the object. The Interest and the packet meet the conditions of their wire round trips.
\<close>
theorem estimated_encoders_exact:
  assumes "is_name x"
    and "interest_inv i" "\<not> hasWire (i_wire i)" "good_interest (interest_of (nonced le gen i g))"
    and "data_inv d" "good_packet (packet_of d)" "length (tlv_bytes tlv_Data (packet_value (packet_of d))) < 2 ^ 32"
  shows "(\<exists>n e. Name_wireEncode_to EncodingEstimator x () = (n, ()) \<and> Name_wireEncode_to EncodingBuffer x (Encoder_new n 0) = (n, e)
      \<and> exactly_filled n (tlv_bytes tlv_Name (name_value x)) e)
    \<and> (\<exists>n e i' g'. Interest_wireEncode_to EncodingEstimator le gen i g () = Inr (n, (), i', g')
      \<and> Interest_wireEncode_to EncodingBuffer le gen i' g' (Encoder_new n 0) = Inr (n, e, i', g')
      \<and> exactly_filled n (tlv_bytes tlv_Interest (interest_value (interest_of (nonced le gen i g)))) e)
    \<and> (\<exists>n e d'. Data_wireEncode_to EncodingEstimator False d () = Inr (n, (), d')
      \<and> Data_wireEncode_to EncodingBuffer False d' (Encoder_new n 0) = Inr (n, e, d')
      \<and> exactly_filled n (tlv_bytes tlv_Data (packet_value (packet_of d))) e)"
  by (intro conjI, rule Name_fills [OF assms(1)], rule Interest_fills [OF assms(2-4)], rule Data_fills [OF assms(5-7)])

theorem estimated_encoders_exact_witness:
  "\<exists>n e d'. Data_wireEncode_to EncodingEstimator False (example_data []) () = Inr (n, (), d')
    \<and> Data_wireEncode_to EncodingBuffer False d' (Encoder_new n 0) = Inr (n, e, d')
    \<and> exactly_filled n [6, 19, 7, 3, 8, 1, 65, 20, 0, 21, 2, 1, 2, 22, 3, 27, 1, 0, 23, 1, 3] e"
proof -
  let ?gen = "\<lambda>g :: u32. (g, g + 1)"
  have i: "good_interest (interest_of (nonced True ?gen example_interest 7))"
    unfolding nonced_facts(4) [OF example_interest_facts(1,2)]
    using be_encode_4 [of 7]
    by (simp add: example_interest_facts with_nonce_def word32_bytes_def good_interest_def is_comp_def good_sels_def good_count_def)
  have none: "\<forall>b \<in> set []. canonical (m_type b) b \<and> app_type (m_type b)" by simp
  have "length (tlv_bytes tlv_Data (packet_value (packet_of (example_data [])))) < 2 ^ 32" by (simp only: example_data_bytes) simp
  from estimated_encoders_exact [OF name1_simps(1) [of "[65]"] example_interest_facts(1,2) i example_data_simps(2,3) [OF none] this]
  show ?thesis unfolding example_data_bytes by (elim conjE)
qed

end
